(* ===== verification/Prelude.thy ===== *)
theory Prelude
  imports Main "HOL-Library.Word" "HOL-Library.Char_ord" "HOL-Library.List_Lexorder"
begin

text \<open>
  What the component theories share: the names of the machine types, Go's nested maps
  (a map of sets, a map of maps, a map of slices) with the operations the cluster FSM uses
  on them, the order in which a Go program ranges over a map, and the two interfaces the
  FSM's handlers rely on: a secondary index (a foreign key to the set of the ids that have
  it) and a unique index (a key to the one id that has it).  Each interface is a locale
  with the laws of its operations; it is interpreted below on the Go maps that implement it.
\<close>

section \<open>Names and hint collections\<close>

type_synonym u64 = "64 word"
type_synonym u8 = "8 word"

text \<open>
  An \<open>int64\<close> field is an \<open>int\<close>: no code modelled here does arithmetic on one, and a JSON
  number out of range does not decode.  The one conversion, \<open>int64(logIndex)\<close>, reads the
  64 bits of the log index as two's complement.
\<close>

type_synonym int64 = int

definition int64_of_u64 :: "u64 \<Rightarrow> int64" where
  "int64_of_u64 w = sint w"

lemma int64_of_u64_eq_iff [simp]: "int64_of_u64 a = int64_of_u64 b \<longleftrightarrow> a = b"
  by (auto simp: int64_of_u64_def intro: signed_word_eqI)

named_theorems index_simps \<open>what a lookup returns after an index operation\<close>
named_theorems fsm_defs \<open>definitions of the FSM handlers\<close>

section \<open>Ranging over a Go map\<close>

text \<open>
  Go leaves the order of \<open>for k := range m\<close> unspecified.  A handler that ranges over a map
  takes the order as a parameter: a function that lists a finite set.  What the handlers
  compute does not depend on it, which is a theorem about them.
\<close>

record ranges =
  ids_order :: "int64 set \<Rightarrow> int64 list"
  names_order :: "string set \<Rightarrow> string list"

definition lists_set :: "('a set \<Rightarrow> 'a list) \<Rightarrow> bool" where
  "lists_set f \<longleftrightarrow> (\<forall>S. finite S \<longrightarrow> set (f S) = S \<and> distinct (f S))"

definition ranges_ok :: "ranges \<Rightarrow> bool" where
  "ranges_ok R \<longleftrightarrow> lists_set (ids_order R) \<and> lists_set (names_order R)"

definition sorted_ranges :: ranges where
  "sorted_ranges = \<lparr>ids_order = sorted_list_of_set, names_order = sorted_list_of_set\<rparr>"

definition reverse_ranges :: ranges where
  "reverse_ranges = \<lparr>ids_order = rev \<circ> sorted_list_of_set, names_order = rev \<circ> sorted_list_of_set\<rparr>"

lemma sorted_ranges_ok [simp]: "ranges_ok sorted_ranges"
  by (simp add: ranges_ok_def sorted_ranges_def lists_set_def)

lemma reverse_ranges_ok [simp]: "ranges_ok reverse_ranges"
  by (simp add: ranges_ok_def reverse_ranges_def lists_set_def)

lemma ids_order_set [simp]: "ranges_ok R \<Longrightarrow> finite S \<Longrightarrow> set (ids_order R S) = S"
  and ids_order_distinct [simp]: "ranges_ok R \<Longrightarrow> finite S \<Longrightarrow> distinct (ids_order R S)"
  and names_order_set [simp]: "ranges_ok R \<Longrightarrow> finite N \<Longrightarrow> set (names_order R N) = N"
  and names_order_distinct [simp]: "ranges_ok R \<Longrightarrow> finite N \<Longrightarrow> distinct (names_order R N)"
  by (simp_all add: ranges_ok_def lists_set_def)

section \<open>Go's nested maps\<close>

subsection \<open>A map of sets\<close>

text \<open>
  \<open>map[K]map[V]struct{}\<close>.  Adding creates the inner set on demand; deleting drops an inner
  set that became empty.
\<close>

definition sget :: "('k \<rightharpoonup> 'v set) \<Rightarrow> 'k \<Rightarrow> 'v set" where
  "sget m k = (case m k of None \<Rightarrow> {} | Some s \<Rightarrow> s)"

definition sadd :: "'k \<Rightarrow> 'v \<Rightarrow> ('k \<rightharpoonup> 'v set) \<Rightarrow> ('k \<rightharpoonup> 'v set)" where
  "sadd k v m = m(k \<mapsto> insert v (sget m k))"

definition sdel :: "'k \<Rightarrow> 'v \<Rightarrow> ('k \<rightharpoonup> 'v set) \<Rightarrow> ('k \<rightharpoonup> 'v set)" where
  "sdel k v m =
     (case m k of
        None \<Rightarrow> m
      | Some s \<Rightarrow> if s - {v} = {} then m(k := None) else m(k \<mapsto> s - {v}))"

text \<open>No key holds an empty inner set, and inner sets are finite.\<close>

definition stidy :: "('k \<rightharpoonup> 'v set) \<Rightarrow> bool" where
  "stidy m \<longleftrightarrow> (\<forall>k s. m k = Some s \<longrightarrow> s \<noteq> {} \<and> finite s)"

lemma sget_empty [index_simps]: "sget Map.empty k = {}"
  by (simp add: sget_def)

lemma sget_sadd [index_simps]: "sget (sadd k v m) k' = (if k' = k then insert v (sget m k) else sget m k')"
  by (simp add: sget_def sadd_def)

lemma sget_sdel [index_simps]: "sget (sdel k v m) k' = (if k' = k then sget m k - {v} else sget m k')"
  by (auto simp: sget_def sdel_def split: option.splits)

lemma sget_remove [index_simps]: "sget (m(k := None)) k' = (if k' = k then {} else sget m k')"
  by (simp add: sget_def)

lemma stidy_empty [simp]: "stidy Map.empty"
  by (simp add: stidy_def)

lemma stidy_sadd [simp]: "stidy m \<Longrightarrow> stidy (sadd k v m)"
  by (auto simp: stidy_def sadd_def sget_def split: option.splits)

lemma stidy_sdel [simp]: "stidy m \<Longrightarrow> stidy (sdel k v m)"
  by (auto simp: stidy_def sdel_def split: option.splits)

lemma stidy_remove [simp]: "stidy m \<Longrightarrow> stidy (m(k := None))"
  by (auto simp: stidy_def)

lemma stidy_finite [simp]: "stidy m \<Longrightarrow> finite (sget m k)"
  by (auto simp: stidy_def sget_def split: option.splits)

text \<open>A tidy map of sets is determined by its lookups.\<close>

lemma stidy_eqI:
  assumes "stidy m" and "stidy m'" and "\<And>k. sget m k = sget m' k"
  shows "m = m'"
proof
  fix k
  have "sget m k = sget m' k" by (rule assms(3))
  with assms(1,2) show "m k = m' k"
    by (auto simp: stidy_def sget_def split: option.splits)
qed

subsection \<open>A map of maps\<close>

text \<open>\<open>map[A]map[B]V\<close>, read at a pair of keys.\<close>

definition nget :: "('a \<rightharpoonup> ('b \<rightharpoonup> 'v)) \<Rightarrow> 'a \<times> 'b \<Rightarrow> 'v option" where
  "nget m p = (case m (fst p) of None \<Rightarrow> None | Some i \<Rightarrow> i (snd p))"

definition inner :: "('a \<rightharpoonup> ('b \<rightharpoonup> 'v)) \<Rightarrow> 'a \<Rightarrow> ('b \<rightharpoonup> 'v)" where
  "inner m a = (case m a of None \<Rightarrow> Map.empty | Some i \<Rightarrow> i)"

definition nput :: "'a \<times> 'b \<Rightarrow> 'v \<Rightarrow> ('a \<rightharpoonup> ('b \<rightharpoonup> 'v)) \<Rightarrow> ('a \<rightharpoonup> ('b \<rightharpoonup> 'v))" where
  "nput p v m = m(fst p \<mapsto> (inner m (fst p))(snd p \<mapsto> v))"

definition ndel :: "'a \<times> 'b \<Rightarrow> ('a \<rightharpoonup> ('b \<rightharpoonup> 'v)) \<Rightarrow> ('a \<rightharpoonup> ('b \<rightharpoonup> 'v))" where
  "ndel p m =
     (case m (fst p) of
        None \<Rightarrow> m
      | Some i \<Rightarrow> let i' = i(snd p := None)
                  in if i' = Map.empty then m(fst p := None) else m(fst p \<mapsto> i'))"

definition ntidy :: "('a \<rightharpoonup> ('b \<rightharpoonup> 'v)) \<Rightarrow> bool" where
  "ntidy m \<longleftrightarrow> (\<forall>a i. m a = Some i \<longrightarrow> i \<noteq> Map.empty \<and> finite (dom i))"

lemma nget_empty [index_simps]: "nget Map.empty p = None"
  by (simp add: nget_def)

lemma nget_inner: "nget m (a, b) = inner m a b"
  by (simp add: nget_def inner_def split: option.splits)

lemma nget_nput [index_simps]: "nget (nput p v m) q = (if q = p then Some v else nget m q)"
  by (cases p; cases q) (auto simp: nget_def nput_def inner_def split: option.splits)

lemma nget_ndel [index_simps]: "nget (ndel p m) q = (if q = p then None else nget m q)"
  by (cases p; cases q)
     (auto simp: nget_def ndel_def Let_def fun_eq_iff split: option.splits if_splits)

lemma nget_remove [index_simps]: "nget (m(a := None)) q = (if fst q = a then None else nget m q)"
  by (auto simp: nget_def)

lemma ntidy_empty [simp]: "ntidy Map.empty"
  by (simp add: ntidy_def)

lemma ntidy_nput [simp]: "ntidy m \<Longrightarrow> ntidy (nput p v m)"
  by (auto simp: ntidy_def nput_def inner_def split: option.splits if_splits)

lemma ntidy_ndel [simp]: "ntidy m \<Longrightarrow> ntidy (ndel p m)"
  by (auto simp: ntidy_def ndel_def Let_def split: option.splits if_splits)

lemma ntidy_remove [simp]: "ntidy m \<Longrightarrow> ntidy (m(a := None))"
  by (auto simp: ntidy_def)

lemma ntidy_finite [simp]: "ntidy m \<Longrightarrow> finite (dom (inner m a))"
  by (auto simp: ntidy_def inner_def split: option.splits)

lemma ntidy_eqI:
  assumes "ntidy m" and "ntidy m'" and "\<And>p. nget m p = nget m' p"
  shows "m = m'"
proof
  fix a
  have eq: "inner m a = inner m' a"
    using assms(3) by (auto simp: nget_inner [symmetric] fun_eq_iff)
  with assms(1,2) show "m a = m' a"
    by (auto simp: ntidy_def inner_def split: option.splits)
qed

subsection \<open>A map of slices\<close>

text \<open>\<open>map[K][]V\<close>: adding appends, deleting filters the slice and drops it when it is empty.\<close>

definition lget :: "('k \<rightharpoonup> 'v list) \<Rightarrow> 'k \<Rightarrow> 'v list" where
  "lget m k = (case m k of None \<Rightarrow> [] | Some xs \<Rightarrow> xs)"

definition ladd :: "'k \<Rightarrow> 'v \<Rightarrow> ('k \<rightharpoonup> 'v list) \<Rightarrow> ('k \<rightharpoonup> 'v list)" where
  "ladd k v m = m(k \<mapsto> lget m k @ [v])"

definition ldel :: "'k \<Rightarrow> 'v \<Rightarrow> ('k \<rightharpoonup> 'v list) \<Rightarrow> ('k \<rightharpoonup> 'v list)" where
  "ldel k v m =
     (case m k of
        None \<Rightarrow> m
      | Some xs \<Rightarrow> let out = filter (\<lambda>x. x \<noteq> v) xs
                   in if out = [] then m(k := None) else m(k \<mapsto> out))"

definition lset :: "('k \<rightharpoonup> 'v list) \<Rightarrow> 'k \<Rightarrow> 'v set" where
  "lset m k = set (lget m k)"

lemma lget_ladd [index_simps]: "lget (ladd k v m) k' = (if k' = k then lget m k @ [v] else lget m k')"
  by (simp add: lget_def ladd_def)

lemma lget_ldel [index_simps]:
  "lget (ldel k v m) k' = (if k' = k then filter (\<lambda>x. x \<noteq> v) (lget m k) else lget m k')"
  by (auto simp: lget_def ldel_def Let_def split: option.splits)

lemma lset_empty [index_simps]: "lset Map.empty k = {}"
  by (simp add: lset_def lget_def)

lemma lset_ladd [index_simps]: "lset (ladd k v m) k' = (if k' = k then insert v (lset m k) else lset m k')"
  by (simp add: lset_def lget_ladd)

lemma lset_ldel [index_simps]: "lset (ldel k v m) k' = (if k' = k then lset m k - {v} else lset m k')"
  by (auto simp: lset_def lget_ldel)

text \<open>No key holds an empty slice, and no slice holds a value twice.\<close>

definition ltidy :: "('k \<rightharpoonup> 'v list) \<Rightarrow> bool" where
  "ltidy m \<longleftrightarrow> (\<forall>k xs. m k = Some xs \<longrightarrow> xs \<noteq> [] \<and> distinct xs)"

lemma ltidy_empty [simp]: "ltidy Map.empty"
  by (simp add: ltidy_def)

lemma ltidy_ladd [simp]: "ltidy m \<Longrightarrow> v \<notin> lset m k \<Longrightarrow> ltidy (ladd k v m)"
  by (auto simp: ltidy_def ladd_def lset_def lget_def split: option.splits)

lemma ltidy_ldel [simp]: "ltidy m \<Longrightarrow> ltidy (ldel k v m)"
  by (auto simp: ltidy_def ldel_def Let_def split: option.splits)

section \<open>Tables\<close>

text \<open>The entries of a primary map that satisfy a condition.\<close>

definition keep :: "('e \<Rightarrow> bool) \<Rightarrow> ('id \<rightharpoonup> 'e) \<Rightarrow> ('id \<rightharpoonup> 'e)" where
  "keep P m = (\<lambda>x. case m x of None \<Rightarrow> None | Some e \<Rightarrow> if P e then Some e else None)"

lemma keep_Some_iff [simp]: "keep P m x = Some e \<longleftrightarrow> m x = Some e \<and> P e"
  by (auto simp: keep_def split: option.splits)

lemma keep_None_iff: "keep P m x = None \<longleftrightarrow> (\<forall>e. m x = Some e \<longrightarrow> \<not> P e)"
  by (auto simp: keep_def split: option.splits)

lemma map_eqI_Some: "(\<And>x e. m x = Some e \<longleftrightarrow> m' x = Some e) \<Longrightarrow> m = m'"
  by (rule ext) (metis not_Some_eq)

lemma restrict_Some_iff: "(m |` A) x = Some e \<longleftrightarrow> m x = Some e \<and> x \<in> A"
  by (auto simp: restrict_map_def)

text \<open>Every entry is stored under its own id and is valid.\<close>

definition keyed :: "('e \<Rightarrow> 'id) \<Rightarrow> ('e \<Rightarrow> bool) \<Rightarrow> ('id \<rightharpoonup> 'e) \<Rightarrow> bool" where
  "keyed key valid m \<longleftrightarrow> finite (dom m) \<and> (\<forall>x e. m x = Some e \<longrightarrow> key e = x \<and> valid e)"

lemma keyed_empty [simp]: "keyed key valid Map.empty"
  by (simp add: keyed_def)

lemma keyed_put [simp]: "keyed key valid m \<Longrightarrow> key e = x \<Longrightarrow> valid e \<Longrightarrow> keyed key valid (m(x \<mapsto> e))"
  by (auto simp: keyed_def)

lemma keyed_delete [simp]: "keyed key valid m \<Longrightarrow> keyed key valid (m(x := None))"
  by (auto simp: keyed_def)

lemma keyed_restrict [simp]: "keyed key valid m \<Longrightarrow> keyed key valid (m |` A)"
  by (auto simp: keyed_def restrict_Some_iff intro: finite_subset)

lemma keyed_key: "keyed key valid m \<Longrightarrow> m x = Some e \<Longrightarrow> key e = x"
  and keyed_valid: "keyed key valid m \<Longrightarrow> m x = Some e \<Longrightarrow> valid e"
  and keyed_finite [simp]: "keyed key valid m \<Longrightarrow> finite (dom m)"
  by (auto simp: keyed_def)

text \<open>Every entry's foreign key is an id of the parent table.\<close>

definition refers :: "('e \<Rightarrow> 'k) \<Rightarrow> ('id \<rightharpoonup> 'e) \<Rightarrow> ('k \<rightharpoonup> 'p) \<Rightarrow> bool" where
  "refers fk m parents \<longleftrightarrow> (\<forall>x e. m x = Some e \<longrightarrow> parents (fk e) \<noteq> None)"

lemma refers_empty [simp]: "refers fk Map.empty parents"
  by (simp add: refers_def)

lemma refers_put [simp]: "refers fk m parents \<Longrightarrow> parents (fk e) \<noteq> None \<Longrightarrow> refers fk (m(x \<mapsto> e)) parents"
  by (auto simp: refers_def)

lemma refers_delete [simp]: "refers fk m parents \<Longrightarrow> refers fk (m(x := None)) parents"
  by (auto simp: refers_def)

lemma refers_restrict [simp]: "refers fk m parents \<Longrightarrow> refers fk (m |` A) parents"
  by (auto simp: refers_def restrict_Some_iff)

lemma refers_parent_put [simp]: "refers fk m parents \<Longrightarrow> refers fk m (parents(k \<mapsto> p))"
  by (auto simp: refers_def)

lemma refers_parent: "refers fk m parents \<Longrightarrow> m x = Some e \<Longrightarrow> parents (fk e) \<noteq> None"
  by (simp add: refers_def)

section \<open>The index interfaces\<close>

text \<open>
  \<open>fk_ok get fk prim idx\<close>: the index lists, under each key, exactly the ids of the entries
  of the primary map whose foreign key it is.
\<close>

definition fk_ok :: "('i \<Rightarrow> 'k \<Rightarrow> 'id set) \<Rightarrow> ('e \<Rightarrow> 'k) \<Rightarrow> ('id \<rightharpoonup> 'e) \<Rightarrow> 'i \<Rightarrow> bool" where
  "fk_ok get fk prim idx \<longleftrightarrow>
     (\<forall>k x. x \<in> get idx k \<longleftrightarrow> (\<exists>e. prim x = Some e \<and> fk e = k))"

locale secondary_index =
  fixes get :: "'i \<Rightarrow> 'k \<Rightarrow> 'id set"
    and add :: "'k \<Rightarrow> 'id \<Rightarrow> 'i \<Rightarrow> 'i"
    and del :: "'k \<Rightarrow> 'id \<Rightarrow> 'i \<Rightarrow> 'i"
  assumes get_add: "get (add k v m) k' = (if k' = k then insert v (get m k) else get m k')"
    and get_del: "get (del k v m) k' = (if k' = k then get m k - {v} else get m k')"
begin

lemma insert_fresh:
  "fk_ok get fk prim idx \<Longrightarrow> prim x = None \<Longrightarrow>
   fk_ok get fk (prim(x \<mapsto> e)) (add (fk e) x idx)"
  unfolding fk_ok_def get_add by auto

lemma update_same_key:
  "fk_ok get fk prim idx \<Longrightarrow> prim x = Some e \<Longrightarrow> fk e' = fk e \<Longrightarrow>
   fk_ok get fk (prim(x \<mapsto> e')) idx"
  unfolding fk_ok_def by auto

lemma insert_again:
  "fk_ok get fk prim idx \<Longrightarrow> prim x = Some e \<Longrightarrow> fk e' = fk e \<Longrightarrow>
   fk_ok get fk (prim(x \<mapsto> e')) (add (fk e') x idx)"
  unfolding fk_ok_def get_add by auto

lemma move:
  "fk_ok get fk prim idx \<Longrightarrow> prim x = Some e \<Longrightarrow> fk e' \<noteq> fk e \<Longrightarrow>
   fk_ok get fk (prim(x \<mapsto> e')) (add (fk e') x (del (fk e) x idx))"
  unfolding fk_ok_def get_add get_del by auto

lemma delete:
  "fk_ok get fk prim idx \<Longrightarrow> prim x = Some e \<Longrightarrow>
   fk_ok get fk (prim(x := None)) (del (fk e) x idx)"
  unfolding fk_ok_def get_del by auto

lemma lookup_iff:
  "fk_ok get fk prim idx \<Longrightarrow> x \<in> get idx k \<longleftrightarrow> (\<exists>e. prim x = Some e \<and> fk e = k)"
  unfolding fk_ok_def by blast

lemma no_key_no_ids: "fk_ok get fk prim idx \<Longrightarrow> \<forall>e\<in>ran prim. fk e \<noteq> k \<Longrightarrow> get idx k = {}"
  unfolding fk_ok_def ran_def by auto

end

text \<open>An index from which a key can be dropped with all its ids, as the cascades do.\<close>

locale droppable_index = secondary_index +
  fixes drp :: "'b \<Rightarrow> 'a \<Rightarrow> 'a"
  assumes get_drp: "get (drp k m) k' = (if k' = k then {} else get m k')"
begin

lemma drop_key:
  "fk_ok get fk prim idx \<Longrightarrow> fk_ok get fk (prim |` (- get idx k)) (drp k idx)"
  unfolding fk_ok_def get_drp by (auto simp: restrict_Some_iff)

lemma drop_key_keep:
  "fk_ok get fk prim idx \<Longrightarrow> prim |` (- get idx k) = keep (\<lambda>e. fk e \<noteq> k) prim"
  unfolding fk_ok_def by (intro map_eqI_Some) (auto simp: restrict_Some_iff)

lemma drop_unused:
  "fk_ok get fk prim idx \<Longrightarrow> get idx k = {} \<Longrightarrow> fk_ok get fk prim (drp k idx)"
  unfolding fk_ok_def get_drp by auto

end

definition sdrop :: "'k \<Rightarrow> ('k \<rightharpoonup> 'v set) \<Rightarrow> ('k \<rightharpoonup> 'v set)" where
  "sdrop k m = m(k := None)"

lemma stidy_sdrop [simp]: "stidy m \<Longrightarrow> stidy (sdrop k m)"
  by (simp add: sdrop_def)

interpretation set_index: droppable_index sget sadd sdel sdrop
  by unfold_locales (simp_all add: index_simps sdrop_def)

interpretation slice_index: secondary_index lset ladd ldel
  by unfold_locales (simp_all add: index_simps)

text \<open>An index that is built from nothing by ranging over the primary map.\<close>

definition build_index :: "('k \<Rightarrow> 'id \<Rightarrow> 'i \<Rightarrow> 'i) \<Rightarrow> ('e \<Rightarrow> 'k) \<Rightarrow> ('id \<rightharpoonup> 'e) \<Rightarrow> 'id list \<Rightarrow> 'i \<Rightarrow> 'i" where
  "build_index add fk m xs idx = fold (\<lambda>x ix. case m x of None \<Rightarrow> ix | Some e \<Rightarrow> add (fk e) x ix) xs idx"

lemma build_index_simps [simp]:
  "build_index add fk m [] idx = idx"
  "build_index add fk m (x # xs) idx =
     build_index add fk m xs (case m x of None \<Rightarrow> idx | Some e \<Rightarrow> add (fk e) x idx)"
  by (simp_all add: build_index_def)

locale buildable_index = secondary_index +
  fixes emp :: 'a
  assumes get_emp: "get emp k = {}"
begin

lemma get_build:
  "get (build_index add fk m xs idx) k = get idx k \<union> {x \<in> set xs. \<exists>e. m x = Some e \<and> fk e = k}"
  by (induction xs arbitrary: idx) (auto simp: get_add split: option.splits)

lemma build: "set xs = dom m \<Longrightarrow> fk_ok get fk m (build_index add fk m xs emp)"
  by (auto simp: fk_ok_def get_build get_emp)

end

interpretation set_index: buildable_index sget sadd sdel Map.empty
  by unfold_locales (simp add: index_simps)

interpretation slice_index: buildable_index lset ladd ldel Map.empty
  by unfold_locales (simp add: index_simps)

lemma stidy_build [simp]: "stidy idx \<Longrightarrow> stidy (build_index sadd fk m xs idx)"
  by (induction xs arbitrary: idx) (simp_all split: option.split)

lemma ltidy_build:
  "ltidy idx \<Longrightarrow> distinct xs \<Longrightarrow> (\<And>k. set xs \<inter> lset idx k = {}) \<Longrightarrow> ltidy (build_index ladd fk m xs idx)"
  by (induction xs arbitrary: idx) (auto simp: index_simps split: option.split)

text \<open>
  \<open>uniq_ok look key prim idx\<close>: the index holds an id under a key exactly when the entry with
  that x has the key.  So no two entries share a key.
\<close>

definition uniq_ok :: "('i \<Rightarrow> 'k \<Rightarrow> 'id option) \<Rightarrow> ('e \<Rightarrow> 'k) \<Rightarrow> ('id \<rightharpoonup> 'e) \<Rightarrow> 'i \<Rightarrow> bool" where
  "uniq_ok look key prim idx \<longleftrightarrow>
     (\<forall>k x. look idx k = Some x \<longleftrightarrow> (\<exists>e. prim x = Some e \<and> key e = k))"

locale unique_index =
  fixes look :: "'i \<Rightarrow> 'k \<Rightarrow> 'id option"
    and put :: "'k \<Rightarrow> 'id \<Rightarrow> 'i \<Rightarrow> 'i"
    and drp :: "'k \<Rightarrow> 'i \<Rightarrow> 'i"
  assumes look_put: "look (put k v m) k' = (if k' = k then Some v else look m k')"
    and look_drp: "look (drp k m) k' = (if k' = k then None else look m k')"
begin

lemma insert_fresh:
  "uniq_ok look key prim idx \<Longrightarrow> prim x = None \<Longrightarrow> look idx (key e) = None \<Longrightarrow>
   uniq_ok look key (prim(x \<mapsto> e)) (put (key e) x idx)"
  unfolding uniq_ok_def look_put by (auto; metis option.distinct(1))

lemma update_same_key:
  "uniq_ok look key prim idx \<Longrightarrow> prim x = Some e \<Longrightarrow> key e' = key e \<Longrightarrow>
   uniq_ok look key (prim(x \<mapsto> e')) idx"
  unfolding uniq_ok_def by auto

lemma key_owner:
  "uniq_ok look key prim idx \<Longrightarrow> prim x = Some e \<Longrightarrow> look idx (key e) = Some x"
  unfolding uniq_ok_def by blast

lemma rename:
  assumes ok: "uniq_ok look key prim idx" and e: "prim x = Some e"
    and free: "look idx (key e') = None \<or> look idx (key e') = Some x"
  shows "uniq_ok look key (prim(x \<mapsto> e')) (put (key e') x (drp (key e) idx))"
proof -
  have owner: "look idx (key e) = Some x"
    using ok e by (rule key_owner)
  have "look (put (key e') x (drp (key e) idx)) k = Some i \<longleftrightarrow>
        (\<exists>a. (prim(x \<mapsto> e')) i = Some a \<and> key a = k)" for k i
  proof (cases "i = x")
    case True
    with owner ok e show ?thesis
      by (auto simp: look_put look_drp uniq_ok_def)
  next
    case False
    with ok have "(\<exists>a. (prim(x \<mapsto> e')) i = Some a \<and> key a = k) \<longleftrightarrow> look idx k = Some i"
      by (simp add: uniq_ok_def)
    with False owner free show ?thesis
      by (auto simp: look_put look_drp)
  qed
  then show ?thesis by (simp add: uniq_ok_def)
qed

lemma delete:
  assumes ok: "uniq_ok look key prim idx" and e: "prim x = Some e"
  shows "uniq_ok look key (prim(x := None)) (drp (key e) idx)"
proof -
  have owner: "look idx (key e) = Some x"
    using ok e by (rule key_owner)
  have "look (drp (key e) idx) k = Some i \<longleftrightarrow> (\<exists>a. (prim(x := None)) i = Some a \<and> key a = k)"
    for k i
  proof (cases "i = x")
    case True
    with owner ok e show ?thesis
      by (auto simp: look_drp uniq_ok_def)
  next
    case False
    with ok have "(\<exists>a. (prim(x := None)) i = Some a \<and> key a = k) \<longleftrightarrow> look idx k = Some i"
      by (simp add: uniq_ok_def)
    with False owner show ?thesis
      by (auto simp: look_drp)
  qed
  then show ?thesis by (simp add: uniq_ok_def)
qed

lemma keys_unique:
  "uniq_ok look key prim idx \<Longrightarrow> prim i = Some a \<Longrightarrow> prim j = Some b \<Longrightarrow> key a = key b \<Longrightarrow> i = j"
  unfolding uniq_ok_def by (metis option.inject)

lemma look_None_iff:
  "uniq_ok look key prim idx \<Longrightarrow> look idx k = None \<longleftrightarrow> (\<forall>i a. prim i = Some a \<longrightarrow> key a \<noteq> k)"
  unfolding uniq_ok_def by (metis not_None_eq)

end

locale buildable_unique_index = unique_index +
  fixes emp :: 'a
  assumes look_emp: "look emp k = None"
begin

lemma look_build:
  "(\<And>x y a b. m x = Some a \<Longrightarrow> m y = Some b \<Longrightarrow> key a = key b \<Longrightarrow> x = y) \<Longrightarrow>
   look (build_index put key m xs idx) k = Some x \<longleftrightarrow>
     (if \<exists>y\<in>set xs. \<exists>e. m y = Some e \<and> key e = k then \<exists>e. x \<in> set xs \<and> m x = Some e \<and> key e = k
      else look idx k = Some x)"
proof (induction xs arbitrary: idx)
  case Nil
  then show ?case by simp
next
  case (Cons z zs)
  show ?case
  proof (cases "m z")
    case None
    then show ?thesis using Cons.IH [OF Cons.prems] by auto
  next
    case (Some e)
    have owner: "y = z" if "m y = Some a" "key a = key e" for y a
      using Cons.prems that Some by blast
    have "look (build_index put key m zs (put (key e) z idx)) k = Some x \<longleftrightarrow>
      (if \<exists>y\<in>set zs. \<exists>e. m y = Some e \<and> key e = k then \<exists>e. x \<in> set zs \<and> m x = Some e \<and> key e = k
       else look (put (key e) z idx) k = Some x)"
      by (rule Cons.IH [OF Cons.prems])
    moreover have "(\<exists>a. m y = Some a \<and> key a = key e) \<longleftrightarrow> y = z" for y
      using owner Some by blast
    ultimately show ?thesis using Some by (cases "k = key e") (auto simp: look_put)
  qed
qed

lemma build:
  assumes "set xs = dom m" and "\<And>x y a b. m x = Some a \<Longrightarrow> m y = Some b \<Longrightarrow> key a = key b \<Longrightarrow> x = y"
  shows "uniq_ok look key m (build_index put key m xs emp)"
  unfolding uniq_ok_def
  using look_build [of m key, where idx = emp and xs = xs] assms by (auto simp: look_emp)

end

definition mget :: "('k \<rightharpoonup> 'v) \<Rightarrow> 'k \<Rightarrow> 'v option" where
  "mget m k = m k"

definition mput :: "'k \<Rightarrow> 'v \<Rightarrow> ('k \<rightharpoonup> 'v) \<Rightarrow> ('k \<rightharpoonup> 'v)" where
  "mput k v m = m(k \<mapsto> v)"

definition mdel :: "'k \<Rightarrow> ('k \<rightharpoonup> 'v) \<Rightarrow> ('k \<rightharpoonup> 'v)" where
  "mdel k m = m(k := None)"

interpretation name_index: unique_index mget mput mdel
  by unfold_locales (simp_all add: mget_def mput_def mdel_def)

interpretation pair_index: unique_index nget nput ndel
  by unfold_locales (simp_all add: index_simps)

interpretation name_index: buildable_unique_index mget mput mdel Map.empty
  by unfold_locales (simp add: mget_def)

interpretation pair_index: buildable_unique_index nget nput ndel Map.empty
  by unfold_locales (simp add: index_simps)

lemma ntidy_build [simp]: "ntidy idx \<Longrightarrow> ntidy (build_index nput key m xs idx)"
  by (induction xs arbitrary: idx) (simp_all split: option.split)

text \<open>Dropping an outer key of a map of maps drops the entries with that first component.\<close>

lemma uniq_drop_outer:
  "uniq_ok nget key prim idx \<Longrightarrow>
   uniq_ok nget key (keep (\<lambda>e. fst (key e) \<noteq> a) prim) (idx(a := None))"
  unfolding uniq_ok_def by (auto simp: index_simps)

section \<open>Folds\<close>

text \<open>A fold that keeps a property of the state, and one whose step is a map restriction.\<close>

lemma fold_invariant:
  "P s \<Longrightarrow> (\<And>x s. x \<in> set xs \<Longrightarrow> P s \<Longrightarrow> P (f x s)) \<Longrightarrow> P (fold f xs s)"
  by (induction xs arbitrary: s) auto

lemma fold_frame: "(\<And>x s. g (f x s) = g s) \<Longrightarrow> g (fold f xs s) = g s"
  by (induction xs arbitrary: s) auto

text \<open>The first error a check finds in a list.\<close>

fun first_invalid :: "('a \<Rightarrow> 'err option) \<Rightarrow> 'a list \<Rightarrow> 'err option" where
  "first_invalid check [] = None"
| "first_invalid check (x # xs) =
     (case check x of Some e \<Rightarrow> Some e | None \<Rightarrow> first_invalid check xs)"

lemma first_invalid_None: "first_invalid check xs = None \<longleftrightarrow> (\<forall>x\<in>set xs. check x = None)"
  by (induction xs) (auto split: option.split)

lemma fold_map_delete: "fold (\<lambda>k m. m(k := None)) ks m = m |` (- set ks)"
proof (induction ks arbitrary: m)
  case Nil
  then show ?case by (simp add: restrict_map_def)
next
  case (Cons k ks)
  then show ?case by (auto simp: restrict_map_def fun_eq_iff)
qed

end
