(* ===== verification/Path_Validation.thy ===== *)
theory Path_Validation
  imports Prelude
begin

text \<open>
  \<^verbatim>\<open>internal/cluster/raft/path_validation.go\<close>: the check every path must pass before it
  enters the cluster-wide file manifest.  Strings are lists of bytes; of Go's \<open>strings\<close>
  package the code uses \<open>Index\<close>, \<open>Contains\<close>, \<open>ContainsRune\<close> and \<open>FieldsFunc\<close>, which are
  modelled first.  All the characters searched for are ASCII, so runes and bytes agree.
\<close>

section \<open>What the check uses of package strings\<close>

fun str_index :: "string \<Rightarrow> char \<Rightarrow> nat option" where
  "str_index [] c = None"
| "str_index (x # xs) c = (if x = c then Some 0 else map_option Suc (str_index xs c))"

fun str_contains :: "string \<Rightarrow> string \<Rightarrow> bool" where
  "str_contains [] sub = (sub = [])"
| "str_contains (x # xs) sub = (take (length sub) (x # xs) = sub \<or> str_contains xs sub)"

text \<open>\<open>fields_func sep s\<close> lists the maximal runs of bytes that are no separators.\<close>

function fields_func :: "(char \<Rightarrow> bool) \<Rightarrow> string \<Rightarrow> string list" where
  "fields_func sep [] = []"
| "fields_func sep (x # xs) =
     (if sep x then fields_func sep xs
      else (x # takeWhile (\<lambda>c. \<not> sep c) xs) # fields_func sep (dropWhile (\<lambda>c. \<not> sep c) xs))"
  by pat_completeness auto
termination
  by (relation "measure (\<lambda>(sep, s). length s)") (auto simp: le_imp_less_Suc length_dropWhile_le)

section \<open>The check\<close>

datatype path_error =
    ErrPathEmpty
  | ErrPathTooLong nat
  | ErrPathTraversal
  | ErrPathAbsolute
  | ErrPathScheme
  | ErrPathNullByte

definition MaxManifestPathLen :: nat where
  "MaxManifestPathLen = 4096"

abbreviation backslash :: char where
  "backslash \<equiv> CHR 0x5C"

definition is_sep :: "char \<Rightarrow> bool" where
  "is_sep c \<longleftrightarrow> c = CHR ''/'' \<or> c = backslash"

definition is_letter :: "char \<Rightarrow> bool" where
  "is_letter c \<longleftrightarrow> (CHR ''A'' \<le> c \<and> c \<le> CHR ''Z'') \<or> (CHR ''a'' \<le> c \<and> c \<le> CHR ''z'')"

definition isAbsolutePath :: "string \<Rightarrow> bool" where
  "isAbsolutePath path =
     (if length path = 0 then False
      else if path ! 0 = CHR ''/'' \<or> path ! 0 = backslash then True
      else if length path \<ge> 3 \<and> path ! 1 = CHR '':'' \<and> is_letter (path ! 0) \<and>
              (path ! 2 = backslash \<or> path ! 2 = CHR ''/'') then True
      else False)"

definition hasParentTraversalSegment :: "string \<Rightarrow> bool" where
  "hasParentTraversalSegment path =
     (if \<not> str_contains path ''..'' then False
      else list_ex (\<lambda>segment. segment = ''..'') (fields_func is_sep path))"

definition ValidateManifestPath :: "string \<Rightarrow> path_error option" where
  "ValidateManifestPath path =
     (if path = [] then Some ErrPathEmpty
      else if length path > MaxManifestPathLen then Some (ErrPathTooLong (length path))
      else if CHR 0x00 \<in> set path then Some ErrPathNullByte
      else if (case str_index path CHR '':'' of
                 None \<Rightarrow> False
               | Some idx \<Rightarrow> idx \<noteq> 1 \<or> \<not> isAbsolutePath path) then Some ErrPathScheme
      else if isAbsolutePath path then Some ErrPathAbsolute
      else if hasParentTraversalSegment path then Some ErrPathTraversal
      else None)"

section \<open>What FieldsFunc finds\<close>

lemma str_index_None [simp]: "str_index s c = None \<longleftrightarrow> c \<notin> set s"
  by (induction s) auto

text \<open>
  A field is a non-empty run of non-separators that a separator or an end of the string
  bounds on both sides.
\<close>

definition field_at :: "(char \<Rightarrow> bool) \<Rightarrow> string \<Rightarrow> string \<Rightarrow> string \<Rightarrow> bool" where
  "field_at sep u seg v \<longleftrightarrow>
     seg \<noteq> [] \<and> (\<forall>c\<in>set seg. \<not> sep c) \<and> (u = [] \<or> sep (last u)) \<and> (v = [] \<or> sep (hd v))"

lemma fields_func_field:
  "seg \<in> set (fields_func sep s) \<Longrightarrow> \<exists>u v. s = u @ seg @ v \<and> field_at sep u seg v"
proof (induction sep s rule: fields_func.induct)
  case (1 sep)
  then show ?case by simp
next
  case (2 sep x xs)
  let ?d = "dropWhile (\<lambda>c. \<not> sep c) xs" and ?t = "takeWhile (\<lambda>c. \<not> sep c) xs"
  have split: "xs = ?t @ ?d" by simp
  have hd: "?d = [] \<or> sep (hd ?d)" using hd_dropWhile by blast
  show ?case
  proof (cases "sep x")
    case True
    with 2 obtain u v where "xs = u @ seg @ v" and "field_at sep u seg v" by auto
    with True have "x # xs = (x # u) @ seg @ v \<and> field_at sep (x # u) seg v"
      by (auto simp: field_at_def)
    then show ?thesis by blast
  next
    case False
    show ?thesis
    proof (cases "seg = x # ?t")
      case True
      with False hd have "x # xs = [] @ seg @ ?d \<and> field_at sep [] seg ?d"
        by (auto simp: field_at_def dest: set_takeWhileD)
      then show ?thesis by blast
    next
      case neq: False
      with False 2 obtain u v where d: "?d = u @ seg @ v" and f: "field_at sep u seg v" by auto
      from hd d f have "u \<noteq> []" by (auto simp: field_at_def hd_append split: if_splits)
      with d f split have "x # xs = (x # ?t @ u) @ seg @ v \<and> field_at sep (x # ?t @ u) seg v"
        by (simp add: field_at_def)
      then show ?thesis by blast
    qed
  qed
qed

lemma field_fields_func:
  "field_at sep u seg v \<Longrightarrow> s = u @ seg @ v \<Longrightarrow> seg \<in> set (fields_func sep s)"
proof (induction sep s arbitrary: u rule: fields_func.induct)
  case (1 sep)
  then show ?case by (simp add: field_at_def)
next
  case (2 sep x xs)
  show ?case
  proof (cases u)
    case Nil
    with "2.prems" obtain seg' where seg: "seg = x # seg'" and xs: "xs = seg' @ v" and "\<not> sep x"
      by (cases seg) (auto simp: field_at_def)
    moreover from seg "2.prems" have "takeWhile (\<lambda>c. \<not> sep c) (seg' @ v) = seg'"
      by (cases v) (auto simp: field_at_def takeWhile_append2)
    ultimately show ?thesis by simp
  next
    case (Cons y u')
    with "2.prems" have xs: "xs = u' @ seg @ v" and y: "y = x" by auto
    show ?thesis
    proof (cases "sep x")
      case True
      moreover have "field_at sep u' seg v"
        using "2.prems" Cons by (auto simp: field_at_def split: if_splits)
      ultimately show ?thesis using "2.IH"(1) xs by simp
    next
      case False
      with "2.prems" Cons y have u': "u' \<noteq> []" "sep (last u')"
        by (auto simp: field_at_def split: if_splits)
      let ?w = "dropWhile (\<lambda>c. \<not> sep c) u'"
      from u' have drop: "dropWhile (\<lambda>c. \<not> sep c) xs = ?w @ seg @ v"
        unfolding xs by (metis dropWhile_append1 last_in_set)
      from u' have "?w \<noteq> []" by (auto simp: dropWhile_eq_Nil_conv)
      moreover have "u' = takeWhile (\<lambda>c. \<not> sep c) u' @ ?w" by simp
      ultimately have "last ?w = last u'" by (metis last_appendR)
      with u' "2.prems" have "field_at sep ?w seg v" by (simp add: field_at_def)
      then have "seg \<in> set (fields_func sep (dropWhile (\<lambda>c. \<not> sep c) xs))"
        using "2.IH"(2) False drop by blast
      with False show ?thesis by simp
    qed
  qed
qed

lemma fields_func_iff:
  "seg \<in> set (fields_func sep s) \<longleftrightarrow> (\<exists>u v. s = u @ seg @ v \<and> field_at sep u seg v)"
  by (meson field_fields_func fields_func_field)

lemma str_contains_iff: "str_contains s sub \<longleftrightarrow> (\<exists>u v. s = u @ sub @ v)"
proof (induction s)
  case Nil
  then show ?case by auto
next
  case (Cons x xs)
  have "take (length sub) (x # xs) = sub \<longleftrightarrow> (\<exists>v. x # xs = sub @ v)"
    by (metis append_eq_conv_conj)
  moreover have "(\<exists>u v. x # xs = u @ sub @ v) \<longleftrightarrow>
      (\<exists>v. x # xs = sub @ v) \<or> (\<exists>u v. xs = u @ sub @ v)"
    by (metis append_Cons append_Nil append_eq_Cons_conv)
  ultimately show ?case using Cons.IH by simp
qed

lemma hasParentTraversalSegment_iff:
  "hasParentTraversalSegment path \<longleftrightarrow> ''..'' \<in> set (fields_func is_sep path)"
  by (auto simp: hasParentTraversalSegment_def list_ex_iff fields_func_iff str_contains_iff)

section \<open>What an accepted path is\<close>

lemma absolute_no_colon:
  assumes "CHR '':'' \<notin> set path"
  shows "isAbsolutePath path \<longleftrightarrow> path \<noteq> [] \<and> is_sep (hd path)"
proof -
  have "path ! 1 \<noteq> CHR '':''" if "length path \<ge> 3"
    using assms that nth_mem [of 1 path] by (auto simp del: nth_mem)
  then show ?thesis
    by (cases path) (auto simp: isAbsolutePath_def is_sep_def)
qed

text \<open>
  The segments of a path, resolved from a directory: an empty segment and \<open>.\<close> stay, \<open>..\<close>
  goes up (and stays at the top), anything else goes down.
\<close>

fun resolve :: "string list \<Rightarrow> string list \<Rightarrow> string list" where
  "resolve dir [] = dir"
| "resolve dir (seg # segs) =
     (if seg = [] \<or> seg = ''.'' then resolve dir segs
      else if seg = ''..'' then resolve (butlast dir) segs
      else resolve (dir @ [seg]) segs)"

lemma resolve_no_parent:
  "''..'' \<notin> set segs \<Longrightarrow>
   resolve dir segs = dir @ filter (\<lambda>seg. seg \<noteq> [] \<and> seg \<noteq> ''.'') segs"
  by (induction segs arbitrary: dir) auto

text \<open>A parent segment between slashes alone, or backslashes alone, is one between either.\<close>

lemma parent_segment_coarser:
  assumes "\<And>c. sep c \<Longrightarrow> is_sep c" and "''..'' \<in> set (fields_func sep path)"
  shows "''..'' \<in> set (fields_func is_sep path)"
proof -
  from assms(2) obtain u v where "path = u @ ''..'' @ v" and "field_at sep u ''..'' v"
    unfolding fields_func_iff by blast
  with assms(1) have "path = u @ ''..'' @ v \<and> field_at is_sep u ''..'' v"
    by (auto simp: field_at_def is_sep_def)
  then show ?thesis unfolding fields_func_iff by blast
qed

lemma validate_None_iff:
  "ValidateManifestPath path = None \<longleftrightarrow>
     path \<noteq> [] \<and> length path \<le> MaxManifestPathLen \<and> CHR 0x00 \<notin> set path \<and>
     CHR '':'' \<notin> set path \<and> \<not> is_sep (hd path) \<and> ''..'' \<notin> set (fields_func is_sep path)"
proof (cases "CHR '':'' \<in> set path")
  case True
  then obtain i where i: "str_index path CHR '':'' = Some i"
    by (cases "str_index path CHR '':''") auto
  have "ValidateManifestPath path \<noteq> None"
    using i by (auto simp: ValidateManifestPath_def)
  with True show ?thesis by simp
next
  case False
  then have none: "str_index path CHR '':'' = None" by simp
  show ?thesis
    using False absolute_no_colon [OF False]
    by (cases "path = []")
       (simp_all add: ValidateManifestPath_def hasParentTraversalSegment_iff not_less none)
qed

text \<open>
  A path is accepted exactly when it is non-empty, at most 4096 bytes long, has no NUL
  byte and no colon, does not begin with a slash or a backslash, and \<open>..\<close> does not occur in
  it between two of: the start, the end, a slash, a backslash.
\<close>

theorem manifest_path_accepted:
  "ValidateManifestPath path = None \<longleftrightarrow>
     path \<noteq> [] \<and> length path \<le> 4096 \<and> CHR 0x00 \<notin> set path \<and> CHR '':'' \<notin> set path \<and>
     hd path \<noteq> CHR ''/'' \<and> hd path \<noteq> backslash \<and>
     \<not> (\<exists>u v. path = u @ ''..'' @ v \<and> (u = [] \<or> is_sep (last u)) \<and> (v = [] \<or> is_sep (hd v)))"
  by (auto simp: validate_None_iff MaxManifestPathLen_def is_sep_def fields_func_iff field_at_def)

text \<open>
  C1. An accepted path stays below the storage root: whichever of the slash and the backslash
  the storage backend takes for separators, resolving the path's segments from any directory
  ends in that directory or below it.
\<close>

theorem accepted_path_stays_below_root:
  assumes "ValidateManifestPath path = None" and "\<And>c. sep c \<Longrightarrow> c = CHR ''/'' \<or> c = backslash"
  shows "\<exists>below. resolve root (fields_func sep path) = root @ below"
proof -
  from assms(1) have "''..'' \<notin> set (fields_func is_sep path)"
    by (simp add: validate_None_iff)
  with assms(2) have "''..'' \<notin> set (fields_func sep path)"
    by (metis is_sep_def parent_segment_coarser)
  then show ?thesis by (simp add: resolve_no_parent)
qed

theorem accepted_path_stays_below_root_witness:
  "\<exists>below. resolve [''data''] (fields_func (\<lambda>c. c = CHR ''/'') ''db/./a..b'') = [''data''] @ below"
proof (rule accepted_path_stays_below_root)
  show "ValidateManifestPath ''db/./a..b'' = None"
    by code_simp
qed simp

end
