(* ===== verification/FSM_State.thy ===== *)
theory FSM_State
  imports Path_Validation
begin

text \<open>
  The state of the cluster FSM of \<^verbatim>\<open>internal/cluster/raft/fsm.go\<close> and
  \<^verbatim>\<open>fsm_rbac.go\<close>: the entry types, the primary maps with their secondary indices,
  the rejection counters, and which callbacks are registered.  A handler returns the new
  state, the callbacks it invokes (in order) and the error it returns (\<open>None\<close> for nil).

  A field whose Go type is \<open>time.Time\<close> is an \<open>option\<close>: \<open>None\<close> is the zero time.  The mutex
  \<open>mu\<close> makes every handler atomic, so it has no counterpart.  Log lines and the process-wide
  metrics counters are left out.
\<close>

section \<open>Entries\<close>

type_synonym gotime = "int option"

record node_info =
  n_ID :: string
  n_Name :: string
  n_Role :: string
  n_ClusterName :: string
  n_Address :: string
  n_APIAddress :: string
  n_State :: string
  n_Version :: string
  n_WriterState :: string
  n_CoreCount :: int

record file_entry =
  f_Path :: string
  f_SHA256 :: string
  f_SizeBytes :: int64
  f_Database :: string
  f_Measurement :: string
  f_PartitionTime :: gotime
  f_OriginNodeID :: string
  f_Tier :: string
  f_CreatedAt :: gotime
  f_LSN :: u64

record token_entry =
  t_ID :: int64
  t_Name :: string
  t_Description :: string
  t_Permissions :: string
  t_TokenHash :: string
  t_TokenPrefix :: string
  t_CreatedAtUnixNano :: int64
  t_ExpiresAtUnixNano :: int64
  t_Enabled :: bool
  t_LSN :: u64

record organization_entry =
  o_ID :: int64
  o_Name :: string
  o_Description :: string
  o_CreatedAtUnixNano :: int64
  o_UpdatedAtUnixNano :: int64
  o_Enabled :: bool
  o_LSN :: u64

record team_entry =
  tm_ID :: int64
  tm_OrganizationID :: int64
  tm_Name :: string
  tm_Description :: string
  tm_CreatedAtUnixNano :: int64
  tm_UpdatedAtUnixNano :: int64
  tm_Enabled :: bool
  tm_LSN :: u64

record role_entry =
  r_ID :: int64
  r_TeamID :: int64
  r_DatabasePattern :: string
  r_Permissions :: string
  r_CreatedAtUnixNano :: int64
  r_LSN :: u64

record measurement_permission_entry =
  mp_ID :: int64
  mp_RoleID :: int64
  mp_MeasurementPattern :: string
  mp_Permissions :: string
  mp_CreatedAtUnixNano :: int64
  mp_LSN :: u64

record token_membership_entry =
  m_ID :: int64
  m_TokenID :: int64
  m_TeamID :: int64
  m_CreatedAtUnixNano :: int64
  m_LSN :: u64

section \<open>Callbacks\<close>

datatype event =
    NodeAdded node_info
  | NodeRemoved string
  | NodeUpdated node_info
  | WriterPromoted string string
  | CompactorAssigned string string
  | FileRegistered file_entry
  | FileDeleted string string
  | TokenCreated token_entry
  | TokenUpdated token_entry
  | TokenRevoked int64
  | TokenDeleted int64
  | TokenRotated int64 string string u64
  | OrganizationCreated organization_entry
  | OrganizationUpdated organization_entry
  | OrganizationDeleted int64
  | TeamCreated team_entry
  | TeamUpdated team_entry
  | TeamDeleted int64
  | RoleCreated role_entry
  | RoleUpdated role_entry
  | RoleDeleted int64
  | MeasurementPermissionCreated measurement_permission_entry
  | MeasurementPermissionDeleted int64
  | TokenMembershipAdded token_membership_entry
  | TokenMembershipRemoved int64 int64

datatype callback =
    OnNodeAdded | OnNodeRemoved | OnNodeUpdated | OnWriterPromoted | OnCompactorAssigned
  | OnFileRegistered | OnFileDeleted
  | OnTokenCreated | OnTokenUpdated | OnTokenRevoked | OnTokenDeleted | OnTokenRotated
  | OnOrganizationCreated | OnOrganizationUpdated | OnOrganizationDeleted
  | OnTeamCreated | OnTeamUpdated | OnTeamDeleted
  | OnRoleCreated | OnRoleUpdated | OnRoleDeleted
  | OnMeasurementPermissionCreated | OnMeasurementPermissionDeleted
  | OnTokenMembershipAdded | OnTokenMembershipRemoved

fun callback_of :: "event \<Rightarrow> callback" where
  "callback_of (NodeAdded _) = OnNodeAdded"
| "callback_of (NodeRemoved _) = OnNodeRemoved"
| "callback_of (NodeUpdated _) = OnNodeUpdated"
| "callback_of (WriterPromoted _ _) = OnWriterPromoted"
| "callback_of (CompactorAssigned _ _) = OnCompactorAssigned"
| "callback_of (FileRegistered _) = OnFileRegistered"
| "callback_of (FileDeleted _ _) = OnFileDeleted"
| "callback_of (TokenCreated _) = OnTokenCreated"
| "callback_of (TokenUpdated _) = OnTokenUpdated"
| "callback_of (TokenRevoked _) = OnTokenRevoked"
| "callback_of (TokenDeleted _) = OnTokenDeleted"
| "callback_of (TokenRotated _ _ _ _) = OnTokenRotated"
| "callback_of (OrganizationCreated _) = OnOrganizationCreated"
| "callback_of (OrganizationUpdated _) = OnOrganizationUpdated"
| "callback_of (OrganizationDeleted _) = OnOrganizationDeleted"
| "callback_of (TeamCreated _) = OnTeamCreated"
| "callback_of (TeamUpdated _) = OnTeamUpdated"
| "callback_of (TeamDeleted _) = OnTeamDeleted"
| "callback_of (RoleCreated _) = OnRoleCreated"
| "callback_of (RoleUpdated _) = OnRoleUpdated"
| "callback_of (RoleDeleted _) = OnRoleDeleted"
| "callback_of (MeasurementPermissionCreated _) = OnMeasurementPermissionCreated"
| "callback_of (MeasurementPermissionDeleted _) = OnMeasurementPermissionDeleted"
| "callback_of (TokenMembershipAdded _) = OnTokenMembershipAdded"
| "callback_of (TokenMembershipRemoved _ _) = OnTokenMembershipRemoved"

section \<open>The FSM\<close>

record fsm =
  nodes :: "string \<rightharpoonup> node_info"
  primaryWriterID :: string
  activeCompactorID :: string
  files :: "string \<rightharpoonup> file_entry"
  filesByDB :: "string \<rightharpoonup> string set"
  keysCache :: "string list option"
  tokens :: "int64 \<rightharpoonup> token_entry"
  tokensByPrefix :: "string \<rightharpoonup> int64 list"
  tokensByName :: "string \<rightharpoonup> int64"
  organizations :: "int64 \<rightharpoonup> organization_entry"
  organizationsByName :: "string \<rightharpoonup> int64"
  teams :: "int64 \<rightharpoonup> team_entry"
  teamsByOrg :: "int64 \<rightharpoonup> (string \<rightharpoonup> int64)"
  roles :: "int64 \<rightharpoonup> role_entry"
  rolesByTeam :: "int64 \<rightharpoonup> int64 set"
  measurementPermissions :: "int64 \<rightharpoonup> measurement_permission_entry"
  measurementPermsByRole :: "int64 \<rightharpoonup> int64 set"
  tokenMemberships :: "int64 \<rightharpoonup> token_membership_entry"
  tokenMembershipsByPair :: "int64 \<rightharpoonup> (int64 \<rightharpoonup> int64)"
  tokenMembershipsByToken :: "int64 \<rightharpoonup> int64 set"
  tokenMembershipsByTeam :: "int64 \<rightharpoonup> int64 set"
  rejectedPaths :: nat
  rejectedTokens :: nat
  rejectedRBAC :: nat
  registered :: "callback \<Rightarrow> bool"

definition NewClusterFSM :: fsm where
  "NewClusterFSM =
     \<lparr>nodes = Map.empty, primaryWriterID = [], activeCompactorID = [],
      files = Map.empty, filesByDB = Map.empty, keysCache = None,
      tokens = Map.empty, tokensByPrefix = Map.empty, tokensByName = Map.empty,
      organizations = Map.empty, organizationsByName = Map.empty,
      teams = Map.empty, teamsByOrg = Map.empty,
      roles = Map.empty, rolesByTeam = Map.empty,
      measurementPermissions = Map.empty, measurementPermsByRole = Map.empty,
      tokenMemberships = Map.empty, tokenMembershipsByPair = Map.empty,
      tokenMembershipsByToken = Map.empty, tokenMembershipsByTeam = Map.empty,
      rejectedPaths = 0, rejectedTokens = 0, rejectedRBAC = 0,
      registered = (\<lambda>_. False)\<rparr>"

lemma NewClusterFSM_simps [simp]:
  "nodes NewClusterFSM = Map.empty" "files NewClusterFSM = Map.empty" "keysCache NewClusterFSM = None"
  "filesByDB NewClusterFSM = Map.empty" "primaryWriterID NewClusterFSM = []"
  "tokens NewClusterFSM = Map.empty" "tokensByPrefix NewClusterFSM = Map.empty"
  "tokensByName NewClusterFSM = Map.empty"
  "organizations NewClusterFSM = Map.empty" "organizationsByName NewClusterFSM = Map.empty"
  "teams NewClusterFSM = Map.empty" "teamsByOrg NewClusterFSM = Map.empty"
  "roles NewClusterFSM = Map.empty" "rolesByTeam NewClusterFSM = Map.empty"
  "measurementPermissions NewClusterFSM = Map.empty" "measurementPermsByRole NewClusterFSM = Map.empty"
  "tokenMemberships NewClusterFSM = Map.empty" "tokenMembershipsByPair NewClusterFSM = Map.empty"
  "tokenMembershipsByToken NewClusterFSM = Map.empty" "tokenMembershipsByTeam NewClusterFSM = Map.empty"
  by (simp_all add: NewClusterFSM_def)

text \<open>A handler invokes a callback only when it is not nil.\<close>

definition emit :: "fsm \<Rightarrow> event \<Rightarrow> event list" where
  "emit f ev = (if registered f (callback_of ev) then [ev] else [])"

text \<open>The setters: each argument says whether the callback passed is non-nil.\<close>

definition SetCallbacks :: "bool \<Rightarrow> bool \<Rightarrow> bool \<Rightarrow> fsm \<Rightarrow> fsm" where
  "SetCallbacks onAdded onRemoved onUpdated f =
     f\<lparr>registered := (registered f)
         (OnNodeAdded := onAdded, OnNodeRemoved := onRemoved, OnNodeUpdated := onUpdated)\<rparr>"

definition SetWriterPromotedCallback :: "bool \<Rightarrow> fsm \<Rightarrow> fsm" where
  "SetWriterPromotedCallback cb f = f\<lparr>registered := (registered f)(OnWriterPromoted := cb)\<rparr>"

definition SetCompactorAssignedCallback :: "bool \<Rightarrow> fsm \<Rightarrow> fsm" where
  "SetCompactorAssignedCallback cb f = f\<lparr>registered := (registered f)(OnCompactorAssigned := cb)\<rparr>"

definition SetFileCallbacks :: "bool \<Rightarrow> bool \<Rightarrow> fsm \<Rightarrow> fsm" where
  "SetFileCallbacks onReg onDel f =
     f\<lparr>registered := (registered f)(OnFileRegistered := onReg, OnFileDeleted := onDel)\<rparr>"

definition SetAuthCallbacks :: "bool \<Rightarrow> bool \<Rightarrow> bool \<Rightarrow> bool \<Rightarrow> bool \<Rightarrow> fsm \<Rightarrow> fsm" where
  "SetAuthCallbacks onCreated onUpdated onRevoked onDeleted onRotated f =
     f\<lparr>registered := (registered f)
         (OnTokenCreated := onCreated, OnTokenUpdated := onUpdated, OnTokenRevoked := onRevoked,
          OnTokenDeleted := onDeleted, OnTokenRotated := onRotated)\<rparr>"

text \<open>The thirteen callbacks of \<open>SetRBACCallbacks\<close>, passed by name.\<close>

definition SetRBACCallbacks :: "(callback \<Rightarrow> bool) \<Rightarrow> fsm \<Rightarrow> fsm" where
  "SetRBACCallbacks cb f =
     f\<lparr>registered := (registered f)
         (OnOrganizationCreated := cb OnOrganizationCreated,
          OnOrganizationUpdated := cb OnOrganizationUpdated,
          OnOrganizationDeleted := cb OnOrganizationDeleted,
          OnTeamCreated := cb OnTeamCreated,
          OnTeamUpdated := cb OnTeamUpdated,
          OnTeamDeleted := cb OnTeamDeleted,
          OnRoleCreated := cb OnRoleCreated,
          OnRoleUpdated := cb OnRoleUpdated,
          OnRoleDeleted := cb OnRoleDeleted,
          OnMeasurementPermissionCreated := cb OnMeasurementPermissionCreated,
          OnMeasurementPermissionDeleted := cb OnMeasurementPermissionDeleted,
          OnTokenMembershipAdded := cb OnTokenMembershipAdded,
          OnTokenMembershipRemoved := cb OnTokenMembershipRemoved)\<rparr>"

section \<open>Errors\<close>

text \<open>Why a validator or a handler refuses an entry.\<close>

datatype invalid =
    EntryNil
  | NameRequired
  | NameTooLong nat
  | DescriptionTooLong nat
  | HashRequired
  | HashTooLong nat
  | PrefixRequired
  | PrefixTooLong nat
  | InvalidPermission string
  | OrganizationIDRequired
  | TeamIDRequired
  | RoleIDRequired
  | TokenIDRequired
  | PatternRequired
  | PatternTooLong nat
  | IDRequired
  | CreatedAtRequired
  | NameExists string
  | NameCleared
  | PatternCleared
  | OrganizationNotFound int64
  | TeamNotFound int64
  | RoleNotFound int64
  | TokenNotFound int64
  | AlreadyMember int64 int64

text \<open>
  The errors a handler returns.  The string is the operation Go puts in the message.
\<close>

datatype fsm_error =
    UnmarshalCommand
  | UnknownCommand u8
  | UnmarshalPayload string
  | NodeIDRequired string
  | WrongRole string string
  | NodeNotFound string
  | FilePathInvalid string path_error
  | FileCreatedAtRequired string
  | FilePathRequired string
  | BatchOp nat fsm_error
  | BatchUnsupported nat u8
  | TokenInvalid string invalid
  | RBACInvalid string invalid

type_synonym fsm_result = "fsm \<times> event list \<times> fsm_error option"

text \<open>The state a handler leaves, and the error it returns.\<close>

abbreviation st :: "fsm_result \<Rightarrow> fsm" where
  "st r \<equiv> fst r"

abbreviation evs :: "fsm_result \<Rightarrow> event list" where
  "evs r \<equiv> fst (snd r)"

abbreviation err :: "fsm_result \<Rightarrow> fsm_error option" where
  "err r \<equiv> snd (snd r)"

section \<open>Rejections\<close>

definition incRejectedPaths :: "fsm \<Rightarrow> fsm" where
  "incRejectedPaths f = f\<lparr>rejectedPaths := Suc (rejectedPaths f)\<rparr>"

definition incRejectedTokens :: "fsm \<Rightarrow> fsm" where
  "incRejectedTokens f = f\<lparr>rejectedTokens := Suc (rejectedTokens f)\<rparr>"

definition incRejectedRBAC :: "fsm \<Rightarrow> fsm" where
  "incRejectedRBAC f = f\<lparr>rejectedRBAC := Suc (rejectedRBAC f)\<rparr>"

definition rejectManifestPath :: "string \<Rightarrow> path_error \<Rightarrow> fsm \<Rightarrow> fsm_result" where
  "rejectManifestPath opname e f = (incRejectedPaths f, [], Some (FilePathInvalid opname e))"

definition rejectToken :: "string \<Rightarrow> invalid \<Rightarrow> fsm \<Rightarrow> fsm_result" where
  "rejectToken opname e f = (incRejectedTokens f, [], Some (TokenInvalid opname e))"

definition rejectRBAC :: "string \<Rightarrow> invalid \<Rightarrow> fsm \<Rightarrow> fsm_result" where
  "rejectRBAC opname e f = (incRejectedRBAC f, [], Some (RBACInvalid opname e))"

lemmas reject_defs [fsm_defs] =
  rejectManifestPath_def rejectToken_def rejectRBAC_def
  incRejectedPaths_def incRejectedTokens_def incRejectedRBAC_def

text \<open>The state without the counters: what a refused command must leave alone.\<close>

definition no_counters :: "fsm \<Rightarrow> fsm" where
  "no_counters f = f\<lparr>rejectedPaths := 0, rejectedTokens := 0, rejectedRBAC := 0\<rparr>"

end
