(* ===== verification/FSM_Nodes.thy ===== *)
theory FSM_Nodes
  imports FSM_State
begin

text \<open>
  Node membership, the writer lease and the compactor lease: the handlers
  \<open>applyAddNode\<close>, \<open>applyRemoveNode\<close>, \<open>applyUpdateNode\<close>, \<open>applyUpdateNodeState\<close>,
  \<open>applyPromoteWriter\<close>, \<open>applyDemoteWriter\<close> and \<open>applyAssignCompactor\<close> of
  \<^verbatim>\<open>fsm.go\<close>, and the queries on nodes.  A payload is \<open>None\<close> when it does not decode.
\<close>

section \<open>Handlers\<close>

definition applyAddNode :: "node_info option \<Rightarrow> fsm \<Rightarrow> fsm_result" where
  "applyAddNode payload f =
     (case payload of
        None \<Rightarrow> (f, [], Some (UnmarshalPayload ''add node''))
      | Some node \<Rightarrow>
          let f' = f\<lparr>nodes := (nodes f)(n_ID node \<mapsto> node)\<rparr>
          in (f', emit f' (NodeAdded node), None))"

definition applyRemoveNode :: "string option \<Rightarrow> fsm \<Rightarrow> fsm_result" where
  "applyRemoveNode payload f =
     (case payload of
        None \<Rightarrow> (f, [], Some (UnmarshalPayload ''remove node''))
      | Some nodeID \<Rightarrow>
          let f' = f\<lparr>nodes := (nodes f)(nodeID := None)\<rparr>
          in (f', emit f' (NodeRemoved nodeID), None))"

definition applyUpdateNode :: "node_info option \<Rightarrow> fsm \<Rightarrow> fsm_result" where
  "applyUpdateNode payload f =
     (case payload of
        None \<Rightarrow> (f, [], Some (UnmarshalPayload ''update node''))
      | Some node \<Rightarrow>
          let f' = f\<lparr>nodes := (nodes f)(n_ID node \<mapsto> node)\<rparr>
          in (f', emit f' (NodeUpdated node), None))"

record update_node_state_payload =
  us_NodeID :: string
  us_NewState :: string

definition applyUpdateNodeState :: "update_node_state_payload option \<Rightarrow> fsm \<Rightarrow> fsm_result" where
  "applyUpdateNodeState payload f =
     (case payload of
        None \<Rightarrow> (f, [], Some (UnmarshalPayload ''update node state''))
      | Some p \<Rightarrow>
          (case nodes f (us_NodeID p) of
             None \<Rightarrow> (f, [], Some (NodeNotFound (us_NodeID p)))
           | Some node \<Rightarrow>
               let node' = node\<lparr>n_State := us_NewState p\<rparr>;
                   f' = f\<lparr>nodes := (nodes f)(us_NodeID p \<mapsto> node')\<rparr>
               in (f', emit f' (NodeUpdated node'), None)))"

text \<open>Set the writer state of a node, if there is such a node.\<close>

definition mark_writer :: "string \<Rightarrow> string \<Rightarrow> (string \<rightharpoonup> node_info) \<Rightarrow> (string \<rightharpoonup> node_info)" where
  "mark_writer nodeID ws ns =
     (case ns nodeID of None \<Rightarrow> ns | Some node \<Rightarrow> ns(nodeID \<mapsto> node\<lparr>n_WriterState := ws\<rparr>))"

record promote_writer_payload =
  pw_NodeID :: string
  pw_OldPrimaryID :: string

definition wrong_role :: "string \<Rightarrow> fsm \<Rightarrow> string option" where
  "wrong_role nodeID f =
     (case nodes f nodeID of
        None \<Rightarrow> None
      | Some node \<Rightarrow> if n_Role node \<noteq> ''writer'' then Some (n_Role node) else None)"

definition applyPromoteWriter :: "promote_writer_payload option \<Rightarrow> fsm \<Rightarrow> fsm_result" where
  "applyPromoteWriter payload f =
     (case payload of
        None \<Rightarrow> (f, [], Some (UnmarshalPayload ''promote writer''))
      | Some p \<Rightarrow>
          if pw_NodeID p = [] then (f, [], Some (NodeIDRequired ''promote writer''))
          else case wrong_role (pw_NodeID p) f of
            Some role \<Rightarrow> (f, [], Some (WrongRole (pw_NodeID p) role))
          | None \<Rightarrow>
              let oldPrimaryID = primaryWriterID f;
                  ns = (if oldPrimaryID \<noteq> [] \<and> oldPrimaryID \<noteq> pw_NodeID p
                        then mark_writer oldPrimaryID ''standby'' (nodes f) else nodes f);
                  f' = f\<lparr>nodes := mark_writer (pw_NodeID p) ''primary'' ns,
                         primaryWriterID := pw_NodeID p\<rparr>
              in if ns (pw_NodeID p) = None then (f', [], Some (NodeNotFound (pw_NodeID p)))
                 else (f', emit f' (WriterPromoted (pw_NodeID p) oldPrimaryID), None))"

definition applyDemoteWriter :: "string option \<Rightarrow> fsm \<Rightarrow> fsm_result" where
  "applyDemoteWriter payload f =
     (case payload of
        None \<Rightarrow> (f, [], Some (UnmarshalPayload ''demote writer''))
      | Some nodeID \<Rightarrow>
          if nodeID = [] then (f, [], Some (NodeIDRequired ''demote writer''))
          else
            let f' = f\<lparr>nodes := mark_writer nodeID ''standby'' (nodes f),
                       primaryWriterID :=
                         (if primaryWriterID f = nodeID then [] else primaryWriterID f)\<rparr>
            in if nodes f nodeID = None then (f', [], Some (NodeNotFound nodeID))
               else (f', [], None))"

record assign_compactor_payload =
  ac_NodeID :: string
  ac_OldCompactorID :: string

definition applyAssignCompactor :: "assign_compactor_payload option \<Rightarrow> fsm \<Rightarrow> fsm_result" where
  "applyAssignCompactor payload f =
     (case payload of
        None \<Rightarrow> (f, [], Some (UnmarshalPayload ''assign compactor''))
      | Some p \<Rightarrow>
          if ac_NodeID p = [] then (f, [], Some (NodeIDRequired ''assign compactor''))
          else
            let oldCompactorID = activeCompactorID f;
                f' = f\<lparr>activeCompactorID := ac_NodeID p\<rparr>
            in (f', emit f' (CompactorAssigned (ac_NodeID p) oldCompactorID), None))"

lemmas node_handler_defs [fsm_defs] =
  applyAddNode_def applyRemoveNode_def applyUpdateNode_def applyUpdateNodeState_def
  applyPromoteWriter_def applyDemoteWriter_def applyAssignCompactor_def

section \<open>Queries\<close>

definition GetPrimaryWriterID :: "fsm \<Rightarrow> string" where
  "GetPrimaryWriterID f = primaryWriterID f"

definition GetActiveCompactorID :: "fsm \<Rightarrow> string" where
  "GetActiveCompactorID f = activeCompactorID f"

definition GetNode :: "string \<Rightarrow> fsm \<Rightarrow> node_info option" where
  "GetNode nodeID f = nodes f nodeID"

definition GetAllNodes :: "ranges \<Rightarrow> fsm \<Rightarrow> node_info list" where
  "GetAllNodes R f = List.map_filter (nodes f) (names_order R (dom (nodes f)))"

definition GetNodesByRole :: "ranges \<Rightarrow> string \<Rightarrow> fsm \<Rightarrow> node_info list" where
  "GetNodesByRole R role f = filter (\<lambda>n. n_Role n = role) (GetAllNodes R f)"

definition NodeCount :: "fsm \<Rightarrow> nat" where
  "NodeCount f = card (dom (nodes f))"

definition TotalCores :: "ranges \<Rightarrow> fsm \<Rightarrow> int" where
  "TotalCores R f = fold (\<lambda>n total. total + n_CoreCount n) (GetAllNodes R f) 0"

section \<open>Invariants\<close>

text \<open>Every node is stored under its own id.\<close>

definition nodes_ok :: "fsm \<Rightarrow> bool" where
  "nodes_ok f \<longleftrightarrow> finite (dom (nodes f)) \<and> (\<forall>i n. nodes f i = Some n \<longrightarrow> n_ID n = i)"

text \<open>Only the recorded primary, if there is one, has writer state primary.\<close>

definition single_primary :: "fsm \<Rightarrow> bool" where
  "single_primary f \<longleftrightarrow>
     (\<forall>i n. nodes f i = Some n \<and> n_WriterState n = ''primary'' \<longrightarrow>
            i \<noteq> [] \<and> i = primaryWriterID f)"

lemma dom_mark_writer [simp]: "dom (mark_writer i ws ns) = dom ns"
  by (auto simp: mark_writer_def split: option.splits if_splits)

lemma mark_writer_apply:
  "mark_writer i ws ns j =
     (if j = i then map_option (n_WriterState_update (\<lambda>_. ws)) (ns j) else ns j)"
  by (auto simp: mark_writer_def split: option.splits)

lemma nodes_ok_add: "nodes_ok f \<Longrightarrow> nodes_ok (st (applyAddNode p f))"
  and nodes_ok_remove: "nodes_ok f \<Longrightarrow> nodes_ok (st (applyRemoveNode q f))"
  and nodes_ok_update: "nodes_ok f \<Longrightarrow> nodes_ok (st (applyUpdateNode p f))"
  and nodes_ok_state: "nodes_ok f \<Longrightarrow> nodes_ok (st (applyUpdateNodeState s f))"
  and nodes_ok_promote: "nodes_ok f \<Longrightarrow> nodes_ok (st (applyPromoteWriter w f))"
  and nodes_ok_demote: "nodes_ok f \<Longrightarrow> nodes_ok (st (applyDemoteWriter q f))"
  and nodes_ok_compactor: "nodes_ok f \<Longrightarrow> nodes_ok (st (applyAssignCompactor c f))"
  by (auto simp: nodes_ok_def node_handler_defs Let_def mark_writer_apply
        split: option.splits if_splits)

lemmas nodes_ok_handlers [simp] =
  nodes_ok_add nodes_ok_remove nodes_ok_update nodes_ok_state
  nodes_ok_promote nodes_ok_demote nodes_ok_compactor

lemma single_primary_remove: "single_primary f \<Longrightarrow> single_primary (st (applyRemoveNode q f))"
  and single_primary_state: "single_primary f \<Longrightarrow> single_primary (st (applyUpdateNodeState s f))"
  and single_primary_promote: "single_primary f \<Longrightarrow> single_primary (st (applyPromoteWriter w f))"
  and single_primary_demote: "single_primary f \<Longrightarrow> single_primary (st (applyDemoteWriter q f))"
  and single_primary_compactor: "single_primary f \<Longrightarrow> single_primary (st (applyAssignCompactor c f))"
  by (auto simp: single_primary_def node_handler_defs Let_def mark_writer_apply
        split: option.splits if_splits)

lemma single_primary_add:
  "single_primary f \<Longrightarrow> (\<And>n. p = Some n \<Longrightarrow> n_WriterState n = ''primary'' \<Longrightarrow> n_ID n \<noteq> [] \<and> n_ID n = primaryWriterID f)
   \<Longrightarrow> single_primary (st (applyAddNode p f))"
  and single_primary_update:
  "single_primary f \<Longrightarrow> (\<And>n. p = Some n \<Longrightarrow> n_WriterState n = ''primary'' \<Longrightarrow> n_ID n \<noteq> [] \<and> n_ID n = primaryWriterID f)
   \<Longrightarrow> single_primary (st (applyUpdateNode p f))"
  by (auto simp: single_primary_def node_handler_defs Let_def split: option.splits if_splits)

section \<open>Properties\<close>

lemma promote_ok_known:
  assumes "err (applyPromoteWriter (Some p) f) = None"
  shows "\<exists>n. nodes f (pw_NodeID p) = Some n \<and> n_Role n = ''writer''"
proof (cases "nodes f (pw_NodeID p)")
  case None
  with assms show ?thesis
    by (auto simp: applyPromoteWriter_def Let_def mark_writer_apply wrong_role_def split: if_splits)
next
  case (Some n)
  with assms show ?thesis
    by (auto simp: applyPromoteWriter_def wrong_role_def split: if_splits)
qed

text \<open>
  A promotion that reports success made exactly one change of leadership: the promoted
  node was known and a writer; it is now the recorded primary and marked primary; the previous
  primary, if there was another one, is marked standby; every other node and the rest of the
  state are as before.  And if only the recorded primary was marked primary before, the same
  holds afterwards.
\<close>

theorem promote_writer_success:
  assumes ok: "err (applyPromoteWriter (Some p) f) = None" and single: "single_primary f"
  shows "(\<exists>n. nodes f (pw_NodeID p) = Some n \<and> n_Role n = ''writer'') \<and>
         st (applyPromoteWriter (Some p) f) =
           f\<lparr>primaryWriterID := pw_NodeID p,
             nodes := (\<lambda>i.
               if i = pw_NodeID p
                 then map_option (n_WriterState_update (\<lambda>_. ''primary'')) (nodes f i)
               else if i = primaryWriterID f \<and> i \<noteq> []
                 then map_option (n_WriterState_update (\<lambda>_. ''standby'')) (nodes f i)
               else nodes f i)\<rparr> \<and>
         single_primary (st (applyPromoteWriter (Some p) f))"
proof -
  obtain n where n: "nodes f (pw_NodeID p) = Some n" "n_Role n = ''writer''"
    using promote_ok_known [OF ok] by blast
  moreover from ok have "pw_NodeID p \<noteq> []"
    by (auto simp: applyPromoteWriter_def split: if_splits)
  ultimately show ?thesis
    using single_primary_promote [OF single, of "Some p"]
    by (auto simp: applyPromoteWriter_def Let_def wrong_role_def mark_writer_apply fun_eq_iff
          intro!: fsm.equality)
qed

definition example_node :: "string \<Rightarrow> string \<Rightarrow> node_info" where
  "example_node i ws =
     \<lparr>n_ID = i, n_Name = i, n_Role = ''writer'', n_ClusterName = ''c'', n_Address = '''', n_APIAddress = '''',
      n_State = ''healthy'', n_Version = ''1'', n_WriterState = ws, n_CoreCount = 4\<rparr>"

definition example_nodes :: fsm where
  "example_nodes =
     NewClusterFSM\<lparr>nodes := [''a'' \<mapsto> example_node ''a'' ''primary'', ''b'' \<mapsto> example_node ''b'' ''standby''],
                   primaryWriterID := ''a''\<rparr>"

lemma example_nodes_single_primary: "single_primary example_nodes"
  by (simp add: single_primary_def example_nodes_def example_node_def)

theorem promote_writer_success_witness:
  "single_primary (st (applyPromoteWriter
     (Some \<lparr>pw_NodeID = ''b'', pw_OldPrimaryID = ''a''\<rparr>) example_nodes))"
proof -
  have "err (applyPromoteWriter (Some \<lparr>pw_NodeID = ''b'', pw_OldPrimaryID = ''a''\<rparr>) example_nodes) = None"
    by (simp add: applyPromoteWriter_def wrong_role_def mark_writer_def Let_def
          example_nodes_def example_node_def)
  from promote_writer_success [OF this example_nodes_single_primary]
  show ?thesis by blast
qed

text \<open>
  A promotion of an unknown node id is refused with "not found", and yet it changes the
  state: the unknown id becomes the recorded primary and the previous primary is marked
  standby, so that afterwards no node at all is marked primary.
\<close>

theorem promote_unknown_node_changes_state:
  assumes "pw_NodeID p \<noteq> []" and "nodes f (pw_NodeID p) = None" and "single_primary f"
  shows "err (applyPromoteWriter (Some p) f) = Some (NodeNotFound (pw_NodeID p)) \<and>
         primaryWriterID (st (applyPromoteWriter (Some p) f)) = pw_NodeID p \<and>
         (\<forall>i n. nodes (st (applyPromoteWriter (Some p) f)) i = Some n \<longrightarrow>
                n_WriterState n \<noteq> ''primary'')"
proof -
  have "nodes f (primaryWriterID f) = None" if "primaryWriterID f = pw_NodeID p"
    using that assms(2) by simp
  with assms show ?thesis
    by (auto simp: applyPromoteWriter_def wrong_role_def Let_def mark_writer_apply
          single_primary_def split: if_splits)
qed

theorem promote_unknown_node_changes_state_witness:
  "primaryWriterID (st (applyPromoteWriter
     (Some \<lparr>pw_NodeID = ''zz'', pw_OldPrimaryID = ''a''\<rparr>) example_nodes)) = ''zz''"
  using promote_unknown_node_changes_state
    [of "\<lparr>pw_NodeID = ''zz'', pw_OldPrimaryID = ''a''\<rparr>" example_nodes]
    example_nodes_single_primary
  by (simp add: example_nodes_def)

end
