(* ===== verification/FSM_Files.thy ===== *)
theory FSM_Files
  imports FSM_State
begin

text \<open>
  The cluster-wide file manifest of \<^verbatim>\<open>fsm.go\<close>: registering, updating and deleting
  files, the batch of such operations that one compaction submits, the queries, and the
  cursor-based pagination with its cache of sorted keys.
\<close>

section \<open>Single operations\<close>

text \<open>
  When a path moves to another database its old index entry is dropped first.
\<close>

definition unindex_moved :: "file_entry \<Rightarrow> fsm \<Rightarrow> (string \<rightharpoonup> string set)" where
  "unindex_moved entry f =
     (case files f (f_Path entry) of
        None \<Rightarrow> filesByDB f
      | Some old \<Rightarrow>
          if f_Database old \<noteq> f_Database entry
          then sdel (f_Database old) (f_Path old) (filesByDB f) else filesByDB f)"

definition applyRegisterFileStruct :: "file_entry \<Rightarrow> u64 \<Rightarrow> fsm \<Rightarrow> fsm_result" where
  "applyRegisterFileStruct file logIndex f =
     (case ValidateManifestPath (f_Path file) of
        Some e \<Rightarrow> rejectManifestPath ''register'' e f
      | None \<Rightarrow>
          if f_CreatedAt file = None then (f, [], Some (FileCreatedAtRequired ''register file''))
          else
            let entry = file\<lparr>f_LSN := logIndex\<rparr>;
                f' = f\<lparr>files := (files f)(f_Path entry \<mapsto> entry),
                       filesByDB := sadd (f_Database entry) (f_Path entry) (unindex_moved entry f),
                       keysCache := None\<rparr>
            in (f', emit f' (FileRegistered entry), None))"

definition applyRegisterFile :: "file_entry option \<Rightarrow> u64 \<Rightarrow> fsm \<Rightarrow> fsm_result" where
  "applyRegisterFile payload logIndex f =
     (case payload of
        None \<Rightarrow> (f, [], Some (UnmarshalPayload ''register file''))
      | Some file \<Rightarrow> applyRegisterFileStruct file logIndex f)"

record delete_file_payload =
  df_Path :: string
  df_Reason :: string

definition applyDeleteFileStruct :: "delete_file_payload \<Rightarrow> fsm \<Rightarrow> fsm_result" where
  "applyDeleteFileStruct p f =
     (if df_Path p = [] then (f, [], Some (FilePathRequired ''delete file''))
      else case files f (df_Path p) of
        None \<Rightarrow> (f\<lparr>keysCache := None\<rparr>, [], None)
      | Some existing \<Rightarrow>
          let f' = f\<lparr>files := (files f)(df_Path p := None),
                     filesByDB := sdel (f_Database existing) (df_Path p) (filesByDB f),
                     keysCache := None\<rparr>
          in (f', emit f' (FileDeleted (df_Path p) (df_Reason p)), None))"

definition applyDeleteFile :: "delete_file_payload option \<Rightarrow> fsm \<Rightarrow> fsm_result" where
  "applyDeleteFile payload f =
     (case payload of
        None \<Rightarrow> (f, [], Some (UnmarshalPayload ''delete file''))
      | Some p \<Rightarrow> applyDeleteFileStruct p f)"

definition applyUpdateFileStruct :: "file_entry \<Rightarrow> u64 \<Rightarrow> fsm \<Rightarrow> fsm_result" where
  "applyUpdateFileStruct file logIndex f =
     (case ValidateManifestPath (f_Path file) of
        Some e \<Rightarrow> rejectManifestPath ''update'' e f
      | None \<Rightarrow>
          if f_CreatedAt file = None then (f, [], Some (FileCreatedAtRequired ''update file''))
          else
            let entry = file\<lparr>f_LSN := logIndex\<rparr>;
                byDB = unindex_moved entry f;
                f' = f\<lparr>files := (files f)(f_Path entry \<mapsto> entry),
                       filesByDB := (if f_Database entry \<noteq> []
                                     then sadd (f_Database entry) (f_Path entry) byDB else byDB),
                       keysCache := None\<rparr>
            in (f', emit f' (FileRegistered entry), None))"

definition applyUpdateFile :: "file_entry option \<Rightarrow> u64 \<Rightarrow> fsm \<Rightarrow> fsm_result" where
  "applyUpdateFile payload logIndex f =
     (case payload of
        None \<Rightarrow> (f, [], Some (UnmarshalPayload ''update file''))
      | Some file \<Rightarrow> applyUpdateFileStruct file logIndex f)"

section \<open>Batches\<close>

text \<open>
  One operation of a batch: its type, and its payload (\<open>None\<close> when it does not decode).  A
  type other than register, update and delete is \<open>BatchOther\<close>.
\<close>

datatype batch_op =
    BatchRegister "file_entry option"
  | BatchUpdate "file_entry option"
  | BatchDelete "delete_file_payload option"
  | BatchOther u8

text \<open>A decoded operation, one slot of \<open>decoded\<close>.\<close>

datatype file_op =
    DoRegister file_entry
  | DoUpdate file_entry
  | DoDelete delete_file_payload

text \<open>
  The pre-validation pass.  It touches the state only to count a refused path, and then the
  whole batch is refused.
\<close>

definition prevalidate_file ::
  "(file_entry \<Rightarrow> file_op) \<Rightarrow> string \<Rightarrow> nat \<Rightarrow> file_entry option \<Rightarrow> fsm \<Rightarrow> fsm_result + file_op" where
  "prevalidate_file mk opname i payload f =
     (case payload of
        None \<Rightarrow> Inl (f, [], Some (BatchOp i (UnmarshalPayload ''op'')))
      | Some file \<Rightarrow>
          (case ValidateManifestPath (f_Path file) of
             Some e \<Rightarrow> Inl (incRejectedPaths f, [], Some (BatchOp i (FilePathInvalid ''batch-prevalidate'' e)))
           | None \<Rightarrow>
               if f_CreatedAt file = None
               then Inl (f, [], Some (BatchOp i (FileCreatedAtRequired opname)))
               else Inr (mk file)))"

fun prevalidate_op :: "nat \<Rightarrow> batch_op \<Rightarrow> fsm \<Rightarrow> fsm_result + file_op" where
  "prevalidate_op i (BatchRegister payload) f =
     prevalidate_file DoRegister ''register file'' i payload f"
| "prevalidate_op i (BatchUpdate payload) f =
     prevalidate_file DoUpdate ''update file'' i payload f"
| "prevalidate_op i (BatchDelete payload) f =
     (case payload of
        None \<Rightarrow> Inl (f, [], Some (BatchOp i (UnmarshalPayload ''op'')))
      | Some p \<Rightarrow>
          if df_Path p = [] then Inl (f, [], Some (BatchOp i (FilePathRequired ''delete file'')))
          else Inr (DoDelete p))"
| "prevalidate_op i (BatchOther t) f = Inl (f, [], Some (BatchUnsupported i t))"

fun prevalidate :: "nat \<Rightarrow> batch_op list \<Rightarrow> fsm \<Rightarrow> fsm_result + file_op list" where
  "prevalidate i [] f = Inr []"
| "prevalidate i (b # bs) f =
     (case prevalidate_op i b f of
        Inl r \<Rightarrow> Inl r
      | Inr d \<Rightarrow> (case prevalidate (Suc i) bs f of Inl r \<Rightarrow> Inl r | Inr ds \<Rightarrow> Inr (d # ds)))"

fun apply_file_op :: "file_op \<Rightarrow> u64 \<Rightarrow> fsm \<Rightarrow> fsm_result" where
  "apply_file_op (DoRegister file) logIndex f = applyRegisterFileStruct file logIndex f"
| "apply_file_op (DoDelete p) logIndex f = applyDeleteFileStruct p f"
| "apply_file_op (DoUpdate file) logIndex f = applyUpdateFileStruct file logIndex f"

text \<open>The apply loop stops at the first error; callbacks already invoked stay invoked.\<close>

fun apply_file_ops :: "nat \<Rightarrow> file_op list \<Rightarrow> u64 \<Rightarrow> fsm \<Rightarrow> fsm_result" where
  "apply_file_ops i [] logIndex f = (f, [], None)"
| "apply_file_ops i (d # ds) logIndex f =
     (let r = apply_file_op d logIndex f
      in case err r of
           Some e \<Rightarrow> (st r, evs r, Some (BatchOp i e))
         | None \<Rightarrow> let r' = apply_file_ops (Suc i) ds logIndex (st r)
                   in (st r', evs r @ evs r', err r'))"

definition applyBatchFileOps :: "batch_op list option \<Rightarrow> u64 \<Rightarrow> fsm \<Rightarrow> fsm_result" where
  "applyBatchFileOps payload logIndex f =
     (case payload of
        None \<Rightarrow> (f, [], Some (UnmarshalPayload ''batch file ops''))
      | Some bops \<Rightarrow>
          (case prevalidate 0 bops f of
             Inl r \<Rightarrow> r
           | Inr ds \<Rightarrow> apply_file_ops 0 ds logIndex f))"

lemmas file_struct_defs =
  applyRegisterFileStruct_def applyDeleteFileStruct_def applyUpdateFileStruct_def

lemmas file_handler_defs [fsm_defs] =
  applyRegisterFile_def applyDeleteFile_def applyUpdateFile_def applyBatchFileOps_def

section \<open>Queries\<close>

definition GetFile :: "string \<Rightarrow> fsm \<Rightarrow> file_entry option" where
  "GetFile path f = files f path"

definition GetAllFiles :: "ranges \<Rightarrow> fsm \<Rightarrow> file_entry list" where
  "GetAllFiles R f = List.map_filter (files f) (names_order R (dom (files f)))"

definition GetFilesByDatabase :: "ranges \<Rightarrow> string \<Rightarrow> fsm \<Rightarrow> file_entry list" where
  "GetFilesByDatabase R database f =
     (case filesByDB f database of
        None \<Rightarrow> []
      | Some idx \<Rightarrow> List.map_filter (files f) (names_order R idx))"

definition FileCount :: "fsm \<Rightarrow> nat" where
  "FileCount f = card (dom (files f))"

text \<open>
  \<open>GetFilesPaginated\<close> works in two critical sections.  The first rebuilds the sorted key
  cache if it was invalidated and takes the keys; the second reads the entries of one page
  from the state as it is then, which another handler may have changed in between.
\<close>

definition paginate_keys :: "ranges \<Rightarrow> fsm \<Rightarrow> fsm \<times> string list" where
  "paginate_keys R f =
     (case keysCache f of
        Some keys \<Rightarrow> (f, keys)
      | None \<Rightarrow> let keys = sort (names_order R (dom (files f)))
                in (f\<lparr>keysCache := Some keys\<rparr>, keys))"

text \<open>\<open>sort.SearchStrings\<close> on sorted keys: the first index whose key is not below the cursor.\<close>

definition search_strings :: "string list \<Rightarrow> string \<Rightarrow> nat" where
  "search_strings keys cursor = length (takeWhile (\<lambda>k. k < cursor) keys)"

definition page_start :: "string list \<Rightarrow> string \<Rightarrow> nat" where
  "page_start keys cursor =
     (if cursor = [] then 0
      else let idx = search_strings keys cursor
           in if idx < length keys \<and> keys ! idx = cursor then idx + 1 else idx)"

definition page_size :: "int \<Rightarrow> nat" where
  "page_size limit = (if limit \<le> 0 then 1000 else nat limit)"

definition paginate_page ::
  "string list \<Rightarrow> string \<Rightarrow> int \<Rightarrow> fsm \<Rightarrow> file_entry list \<times> string" where
  "paginate_page keys cursor limit f =
     (let start = page_start keys cursor
      in if start \<ge> length keys then ([], [])
         else let end = min (start + page_size limit) (length keys)
              in (List.map_filter (files f) (take (end - start) (drop start keys)),
                  if end < length keys then keys ! (end - 1) else []))"

definition GetFilesPaginated ::
  "ranges \<Rightarrow> string \<Rightarrow> int \<Rightarrow> fsm \<Rightarrow> fsm \<times> file_entry list \<times> string" where
  "GetFilesPaginated R cursor limit f =
     (let r = paginate_keys R f in (fst r, paginate_page (snd r) cursor limit (fst r)))"

section \<open>Invariant\<close>

text \<open>
  Files are stored under their own path, and every stored path is a valid one.  The index
  lists, for every database but the empty name, exactly the paths of its files; under the
  empty name it lists only such paths (an update leaves a file of the empty database out).
  The key cache, when there is one, is the sorted list of the stored paths.
\<close>

definition paths_ok :: "fsm \<Rightarrow> bool" where
  "paths_ok f \<longleftrightarrow>
     finite (dom (files f)) \<and>
     (\<forall>p e. files f p = Some e \<longrightarrow> f_Path e = p \<and> ValidateManifestPath p = None)"

text \<open>The database of the file at a path.\<close>

definition db_of :: "fsm \<Rightarrow> string \<Rightarrow> string option" where
  "db_of f p = map_option f_Database (files f p)"

definition db_index_ok :: "fsm \<Rightarrow> bool" where
  "db_index_ok f \<longleftrightarrow>
     stidy (filesByDB f) \<and>
     (\<forall>db p. p \<in> sget (filesByDB f) db \<longrightarrow> db_of f p = Some db) \<and>
     (\<forall>db p. db_of f p = Some db \<longrightarrow> db \<noteq> [] \<longrightarrow> p \<in> sget (filesByDB f) db)"

definition cache_ok :: "fsm \<Rightarrow> bool" where
  "cache_ok f \<longleftrightarrow> (\<forall>keys. keysCache f = Some keys \<longrightarrow> keys = sorted_list_of_set (dom (files f)))"

definition files_ok :: "fsm \<Rightarrow> bool" where
  "files_ok f \<longleftrightarrow> paths_ok f \<and> db_index_ok f \<and> cache_ok f"

lemma db_index_listed: "db_index_ok f \<Longrightarrow> p \<in> sget (filesByDB f) db \<Longrightarrow> db_of f p = Some db"
  unfolding db_index_ok_def by blast

lemma db_index_complete:
  "db_index_ok f \<Longrightarrow> db_of f p = Some db \<Longrightarrow> db \<noteq> [] \<Longrightarrow> p \<in> sget (filesByDB f) db"
  unfolding db_index_ok_def by blast

lemma db_index_okI:
  "stidy (filesByDB f) \<Longrightarrow>
   (\<And>db p. p \<in> sget (filesByDB f) db \<Longrightarrow> db_of f p = Some db) \<Longrightarrow>
   (\<And>db p. db_of f p = Some db \<Longrightarrow> db \<noteq> [] \<Longrightarrow> p \<in> sget (filesByDB f) db) \<Longrightarrow>
   db_index_ok f"
  unfolding db_index_ok_def by blast

lemma db_index_stidy [simp]: "db_index_ok f \<Longrightarrow> stidy (filesByDB f)"
  unfolding db_index_ok_def by blast

text \<open>After the drop, the entry's path is listed under the entry's new database at most.\<close>

lemma unindex_moved_get:
  assumes "paths_ok f" and "db_index_ok f"
  shows "p \<in> sget (unindex_moved entry f) db \<longleftrightarrow>
         p \<in> sget (filesByDB f) db \<and> (p = f_Path entry \<longrightarrow> db = f_Database entry)"
proof (cases "files f (f_Path entry)")
  case None
  with db_index_listed [OF assms(2), of "f_Path entry" db]
  have "f_Path entry \<notin> sget (filesByDB f) db"
    by (auto simp: db_of_def)
  with None show ?thesis by (auto simp: unindex_moved_def)
next
  case (Some old)
  with assms(1) db_index_listed [OF assms(2), of "f_Path entry" db]
  have "f_Path entry \<in> sget (filesByDB f) db \<Longrightarrow> db = f_Database old"
    and "f_Path old = f_Path entry"
    by (auto simp: db_of_def paths_ok_def)
  with Some show ?thesis by (auto simp: unindex_moved_def index_simps)
qed

lemma stidy_unindex_moved [simp]: "stidy (filesByDB f) \<Longrightarrow> stidy (unindex_moved entry f)"
  by (simp add: unindex_moved_def split: option.split)

text \<open>Storing an entry keeps the index invariant, whether the entry is indexed or unnamed.\<close>

lemma db_index_store:
  assumes "paths_ok f" and "db_index_ok f"
  shows "db_index_ok (f\<lparr>files := (files f)(f_Path entry \<mapsto> entry),
           filesByDB := sadd (f_Database entry) (f_Path entry) (unindex_moved entry f), keysCache := c\<rparr>)"
    and "f_Database entry = [] \<Longrightarrow>
         db_index_ok (f\<lparr>files := (files f)(f_Path entry \<mapsto> entry),
           filesByDB := unindex_moved entry f, keysCache := c\<rparr>)"
  by (intro db_index_okI;
      use assms in \<open>auto simp: db_of_def sget_sadd unindex_moved_get [OF assms] split: if_splits
        dest: db_index_listed [OF assms(2)] intro: db_index_complete [OF assms(2)]\<close>)+

lemma db_index_remove:
  assumes "db_index_ok f" and "files f p = Some e"
  shows "db_index_ok (f\<lparr>files := (files f)(p := None),
           filesByDB := sdel (f_Database e) p (filesByDB f), keysCache := c\<rparr>)"
  by (intro db_index_okI;
      use assms in \<open>auto simp: db_of_def sget_sdel split: if_splits
        dest: db_index_listed [OF assms(1)] intro: db_index_complete [OF assms(1)]\<close>)

lemma paths_ok_store:
  "paths_ok f \<Longrightarrow> ValidateManifestPath (f_Path entry) = None \<Longrightarrow>
   paths_ok (f\<lparr>files := (files f)(f_Path entry \<mapsto> entry), filesByDB := d, keysCache := c\<rparr>)"
  by (auto simp: paths_ok_def)

lemma paths_ok_remove:
  "paths_ok f \<Longrightarrow> paths_ok (f\<lparr>files := (files f)(p := None), filesByDB := d, keysCache := c\<rparr>)"
  by (auto simp: paths_ok_def)

lemma files_ok_frame:
  "files f' = files f \<Longrightarrow> filesByDB f' = filesByDB f \<Longrightarrow> keysCache f' = keysCache f \<or> keysCache f' = None \<Longrightarrow>
   files_ok f \<Longrightarrow> files_ok f'"
  by (auto simp: files_ok_def paths_ok_def db_index_ok_def cache_ok_def db_of_def)

lemma cache_ok_None: "keysCache f = None \<Longrightarrow> cache_ok f"
  by (simp add: cache_ok_def)

lemma files_ok_rejected [simp]: "files_ok (incRejectedPaths f) = files_ok f"
  by (auto simp: incRejectedPaths_def intro: files_ok_frame [rotated -1])

lemma files_ok_register_struct: "files_ok f \<Longrightarrow> files_ok (st (applyRegisterFileStruct file i f))"
  using db_index_store(1) [where f = f and entry = "file\<lparr>f_LSN := i\<rparr>" and c = None] paths_ok_store [where f = f and entry = "file\<lparr>f_LSN := i\<rparr>" and c = None]
  by (auto simp: files_ok_def [of "_\<lparr>files := _, filesByDB := _, keysCache := _\<rparr>"] files_ok_def [of f]
        applyRegisterFileStruct_def Let_def cache_ok_None rejectManifestPath_def split: option.splits)

lemma files_ok_update_struct: "files_ok f \<Longrightarrow> files_ok (st (applyUpdateFileStruct file i f))"
  using db_index_store [where f = f and entry = "file\<lparr>f_LSN := i\<rparr>" and c = None] paths_ok_store [where f = f and entry = "file\<lparr>f_LSN := i\<rparr>" and c = None]
  by (auto simp: files_ok_def [of "_\<lparr>files := _, filesByDB := _, keysCache := _\<rparr>"] files_ok_def [of f]
        applyUpdateFileStruct_def Let_def cache_ok_None rejectManifestPath_def split: option.splits)

lemma files_ok_delete_struct: "files_ok f \<Longrightarrow> files_ok (st (applyDeleteFileStruct p f))"
  using db_index_remove [where f = f and p = "df_Path p" and c = None] paths_ok_remove [where f = f and p = "df_Path p" and c = None]
  by (auto simp: files_ok_def [of "_\<lparr>files := _, filesByDB := _, keysCache := _\<rparr>"] files_ok_def [of f]
        applyDeleteFileStruct_def Let_def cache_ok_None intro: files_ok_frame split: option.splits)

lemma files_ok_register [simp]: "files_ok f \<Longrightarrow> files_ok (st (applyRegisterFile p i f))"
  and files_ok_update [simp]: "files_ok f \<Longrightarrow> files_ok (st (applyUpdateFile p i f))"
  and files_ok_delete [simp]: "files_ok f \<Longrightarrow> files_ok (st (applyDeleteFile q f))"
  by (simp_all add: applyRegisterFile_def applyUpdateFile_def applyDeleteFile_def
        files_ok_register_struct files_ok_update_struct files_ok_delete_struct split: option.split)

section \<open>Batches are atomic\<close>

fun valid_file_op :: "file_op \<Rightarrow> bool" where
  "valid_file_op (DoRegister e) = (ValidateManifestPath (f_Path e) = None \<and> f_CreatedAt e \<noteq> None)"
| "valid_file_op (DoUpdate e) = (ValidateManifestPath (f_Path e) = None \<and> f_CreatedAt e \<noteq> None)"
| "valid_file_op (DoDelete p) = (df_Path p \<noteq> [])"

text \<open>The batch operation a decoded operation comes from.\<close>

fun batch_op_of :: "file_op \<Rightarrow> batch_op" where
  "batch_op_of (DoRegister e) = BatchRegister (Some e)"
| "batch_op_of (DoUpdate e) = BatchUpdate (Some e)"
| "batch_op_of (DoDelete p) = BatchDelete (Some p)"

text \<open>The same operation submitted as a command of its own.\<close>

fun single_op :: "batch_op \<Rightarrow> u64 \<Rightarrow> fsm \<Rightarrow> fsm_result" where
  "single_op (BatchRegister p) i f = applyRegisterFile p i f"
| "single_op (BatchUpdate p) i f = applyUpdateFile p i f"
| "single_op (BatchDelete p) i f = applyDeleteFile p f"
| "single_op (BatchOther t) i f = (f, [], Some (BatchUnsupported 0 t))"

text \<open>The operations one after the other, none skipped; the errors in order.\<close>

fun run_singles :: "batch_op list \<Rightarrow> u64 \<Rightarrow> fsm \<Rightarrow> fsm \<times> event list \<times> fsm_error option list" where
  "run_singles [] i f = (f, [], [])"
| "run_singles (b # bs) i f =
     (let r = single_op b i f; r' = run_singles bs i (st r)
      in (fst r', evs r @ fst (snd r'), err r # snd (snd r')))"

lemma prevalidate_op_Inr:
  "prevalidate_op i b f = Inr d \<Longrightarrow> valid_file_op d \<and> batch_op_of d = b"
  by (cases b) (auto simp: prevalidate_file_def split: option.splits if_splits)

lemma prevalidate_op_Inl:
  "prevalidate_op i b f = Inl r \<Longrightarrow>
   (st r = f \<or> st r = incRejectedPaths f) \<and> evs r = [] \<and> err r \<noteq> None \<and>
   (\<forall>d. valid_file_op d \<longrightarrow> batch_op_of d \<noteq> b)"
  by (cases b; rule conjI [rotated], rule conjI [rotated], rule conjI [rotated])
     (auto simp: prevalidate_file_def split: option.splits if_splits elim!: batch_op_of.elims)

lemma prevalidate_Inr:
  "prevalidate i bs f = Inr ds \<Longrightarrow> list_all valid_file_op ds \<and> map batch_op_of ds = bs"
  by (induction bs arbitrary: i ds) (auto split: sum.splits dest!: prevalidate_op_Inr)

lemma prevalidate_Inl:
  "prevalidate i bs f = Inl r \<Longrightarrow>
   (st r = f \<or> st r = incRejectedPaths f) \<and> evs r = [] \<and> err r \<noteq> None \<and>
   (\<forall>ds. list_all valid_file_op ds \<longrightarrow> map batch_op_of ds \<noteq> bs)"
proof (induction bs arbitrary: i)
  case Nil
  then show ?case by simp
next
  case (Cons b bs)
  show ?case
  proof (cases "prevalidate_op i b f")
    case (Inl q)
    with Cons.prems prevalidate_op_Inl [OF Inl] show ?thesis
      by (auto simp: Cons_eq_map_conv)
  next
    case (Inr d)
    with Cons show ?thesis
      by (fastforce simp: Cons_eq_map_conv split: sum.splits)
  qed
qed

lemma apply_file_op_single: "apply_file_op d i f = single_op (batch_op_of d) i f"
  by (cases d) (simp_all add: applyRegisterFile_def applyUpdateFile_def applyDeleteFile_def)

lemma valid_file_op_succeeds: "valid_file_op d \<Longrightarrow> err (apply_file_op d i f) = None"
  by (cases d) (auto simp: file_struct_defs Let_def split: option.splits)

lemma apply_file_ops_valid:
  "list_all valid_file_op ds \<Longrightarrow>
   apply_file_ops n ds i f =
     (let r = run_singles (map batch_op_of ds) i f in (fst r, fst (snd r), None))"
  by (induction ds arbitrary: n f)
     (auto simp: Let_def valid_file_op_succeeds apply_file_op_single [symmetric])

lemma run_singles_valid_no_error:
  "list_all valid_file_op ds \<Longrightarrow>
   snd (snd (run_singles (map batch_op_of ds) i f)) = replicate (length ds) None"
  by (induction ds arbitrary: f)
     (auto simp: Let_def valid_file_op_succeeds apply_file_op_single [symmetric])

lemma files_ok_apply_file_op: "files_ok f \<Longrightarrow> files_ok (st (apply_file_op d i f))"
  by (cases d) (simp_all add: files_ok_register_struct files_ok_update_struct files_ok_delete_struct)

lemma files_ok_apply_file_ops: "files_ok f \<Longrightarrow> files_ok (st (apply_file_ops n ds i f))"
  by (induction ds arbitrary: n f) (auto simp: Let_def files_ok_apply_file_op split: option.splits)

lemma files_ok_batch [simp]: "files_ok f \<Longrightarrow> files_ok (st (applyBatchFileOps p i f))"
proof -
  assume ok: "files_ok f"
  have "files_ok (st r)" if "prevalidate 0 bs f = Inl r" for bs r
    using prevalidate_Inl [OF that] ok by auto
  with ok show ?thesis
    by (auto simp: applyBatchFileOps_def files_ok_apply_file_ops split: option.splits sum.splits)
qed

text \<open>
  C2. A batch is atomic.  It succeeds exactly when every operation in it is well formed (a
  register or update decodes, has a valid path and a creation time; a delete decodes and names
  a path).  If it succeeds, it has the effect, and the callbacks, of its operations submitted
  one after the other, none of which fails.  If it fails, no callback is invoked and nothing
  but the counter of rejected paths can have changed.
\<close>

theorem batch_file_ops_atomic:
  "(err (applyBatchFileOps (Some bs) i f) = None \<longleftrightarrow>
      (\<exists>ds. map batch_op_of ds = bs \<and> list_all valid_file_op ds)) \<and>
   (if err (applyBatchFileOps (Some bs) i f) = None
    then run_singles bs i f =
           (st (applyBatchFileOps (Some bs) i f), evs (applyBatchFileOps (Some bs) i f),
            replicate (length bs) None)
    else evs (applyBatchFileOps (Some bs) i f) = [] \<and>
         no_counters (st (applyBatchFileOps (Some bs) i f)) = no_counters f)"
proof (cases "prevalidate 0 bs f")
  case (Inl r)
  from prevalidate_Inl [OF Inl] Inl show ?thesis
    by (auto simp: applyBatchFileOps_def no_counters_def incRejectedPaths_def)
next
  case (Inr ds)
  from prevalidate_Inr [OF Inr] have ds: "list_all valid_file_op ds" "map batch_op_of ds = bs"
    by auto
  from apply_file_ops_valid [OF ds(1), of 0 i f] run_singles_valid_no_error [OF ds(1), of i f] ds(2)
  have "applyBatchFileOps (Some bs) i f = (fst (run_singles bs i f), fst (snd (run_singles bs i f)), None)"
    and "snd (snd (run_singles bs i f)) = replicate (length bs) None"
    using Inr by (auto simp: applyBatchFileOps_def Let_def)
  with ds show ?thesis by (auto simp: prod_eq_iff)
qed

end
