(* ===== verification/FSM_Validation.thy ===== *)
theory FSM_Validation
  imports FSM_State
begin

text \<open>
  The validators every node runs before an entry lands in the FSM: those of tokens and of
  permission strings (\<^verbatim>\<open>fsm.go\<close>) and those of the five RBAC entries
  (\<^verbatim>\<open>fsm_rbac.go\<close>).  Each returns \<open>None\<close> for nil or the reason of the refusal.  Their
  argument is an \<open>option\<close> because the Go pointer may be nil.
\<close>

section \<open>Permission strings\<close>

definition is_blank :: "char \<Rightarrow> bool" where
  "is_blank c \<longleftrightarrow> c = CHR '' '' \<or> c = CHR 0x09"

text \<open>The loop on \<open>lo\<close> drops blanks in front, the loop on \<open>hi\<close> drops them at the end.\<close>

definition trimASCIISpace :: "string \<Rightarrow> string" where
  "trimASCIISpace s = rev (dropWhile is_blank (rev (dropWhile is_blank s)))"

text \<open>The loop's \<open>s[start:i]\<close> is the argument \<open>cur\<close>.\<close>

fun splitCSV_loop :: "string \<Rightarrow> string \<Rightarrow> string list" where
  "splitCSV_loop cur [] = [trimASCIISpace cur]"
| "splitCSV_loop cur (c # cs) =
     (if c = CHR '','' then trimASCIISpace cur # splitCSV_loop [] cs
      else splitCSV_loop (cur @ [c]) cs)"

definition splitCSV :: "string \<Rightarrow> string list" where
  "splitCSV s = (if s = [] then [] else splitCSV_loop [] s)"

definition allowed_permission :: "string \<Rightarrow> bool" where
  "allowed_permission p \<longleftrightarrow> p = ''read'' \<or> p = ''write'' \<or> p = ''delete'' \<or> p = ''admin''"

definition validatePermissionString :: "string \<Rightarrow> invalid option" where
  "validatePermissionString perms =
     (if perms = [] then None
      else map_option InvalidPermission (find (\<lambda>p. \<not> allowed_permission p) (splitCSV perms)))"

section \<open>Tokens\<close>

definition maxTokenHashLen :: nat where
  "maxTokenHashLen = 512"

definition maxTokenPrefixLen :: nat where
  "maxTokenPrefixLen = 256"

definition validateTokenHashAndPrefix :: "string \<Rightarrow> string \<Rightarrow> invalid option" where
  "validateTokenHashAndPrefix hash prefix =
     (if hash = [] then Some HashRequired
      else if length hash > maxTokenHashLen then Some (HashTooLong (length hash))
      else if prefix = [] then Some PrefixRequired
      else if length prefix > maxTokenPrefixLen then Some (PrefixTooLong (length prefix))
      else None)"

text \<open>Run the next check only when this one passed.\<close>

definition also_check :: "invalid option \<Rightarrow> invalid option \<Rightarrow> invalid option" where
  "also_check a b = (case a of None \<Rightarrow> b | Some e \<Rightarrow> Some e)"

lemma also_check_None [simp]: "also_check a b = None \<longleftrightarrow> a = None \<and> b = None"
  by (auto simp: also_check_def split: option.splits)

definition validateTokenEntry :: "token_entry option \<Rightarrow> invalid option" where
  "validateTokenEntry entry =
     (case entry of
        None \<Rightarrow> Some EntryNil
      | Some t \<Rightarrow>
          if t_Name t = [] then Some NameRequired
          else if length (t_Name t) > 256 then Some (NameTooLong (length (t_Name t)))
          else also_check (validateTokenHashAndPrefix (t_TokenHash t) (t_TokenPrefix t))
                          (validatePermissionString (t_Permissions t)))"

section \<open>RBAC entries\<close>

definition rbacNameMaxLen :: nat where
  "rbacNameMaxLen = 256"

definition rbacPatternMaxLen :: nat where
  "rbacPatternMaxLen = 256"

definition rbacDescriptionMaxLen :: nat where
  "rbacDescriptionMaxLen = 1024"

definition validateOrganizationEntry :: "organization_entry option \<Rightarrow> invalid option" where
  "validateOrganizationEntry entry =
     (case entry of
        None \<Rightarrow> Some EntryNil
      | Some e \<Rightarrow>
          if o_Name e = [] then Some NameRequired
          else if length (o_Name e) > rbacNameMaxLen then Some (NameTooLong (length (o_Name e)))
          else if length (o_Description e) > rbacDescriptionMaxLen
            then Some (DescriptionTooLong (length (o_Description e)))
          else None)"

definition validateTeamEntry :: "team_entry option \<Rightarrow> invalid option" where
  "validateTeamEntry entry =
     (case entry of
        None \<Rightarrow> Some EntryNil
      | Some e \<Rightarrow>
          if tm_OrganizationID e \<le> 0 then Some OrganizationIDRequired
          else if tm_Name e = [] then Some NameRequired
          else if length (tm_Name e) > rbacNameMaxLen then Some (NameTooLong (length (tm_Name e)))
          else if length (tm_Description e) > rbacDescriptionMaxLen
            then Some (DescriptionTooLong (length (tm_Description e)))
          else None)"

definition validateRoleEntry :: "role_entry option \<Rightarrow> invalid option" where
  "validateRoleEntry entry =
     (case entry of
        None \<Rightarrow> Some EntryNil
      | Some e \<Rightarrow>
          if r_TeamID e \<le> 0 then Some TeamIDRequired
          else if r_DatabasePattern e = [] then Some PatternRequired
          else if length (r_DatabasePattern e) > rbacPatternMaxLen
            then Some (PatternTooLong (length (r_DatabasePattern e)))
          else validatePermissionString (r_Permissions e))"

definition validateMeasurementPermissionEntry ::
  "measurement_permission_entry option \<Rightarrow> invalid option" where
  "validateMeasurementPermissionEntry entry =
     (case entry of
        None \<Rightarrow> Some EntryNil
      | Some e \<Rightarrow>
          if mp_RoleID e \<le> 0 then Some RoleIDRequired
          else if mp_MeasurementPattern e = [] then Some PatternRequired
          else if length (mp_MeasurementPattern e) > rbacPatternMaxLen
            then Some (PatternTooLong (length (mp_MeasurementPattern e)))
          else validatePermissionString (mp_Permissions e))"

definition validateTokenMembershipEntry :: "token_membership_entry option \<Rightarrow> invalid option" where
  "validateTokenMembershipEntry entry =
     (case entry of
        None \<Rightarrow> Some EntryNil
      | Some e \<Rightarrow>
          if m_TokenID e \<le> 0 then Some TokenIDRequired
          else if m_TeamID e \<le> 0 then Some TeamIDRequired
          else None)"

section \<open>What the permission check accepts\<close>

text \<open>Joining with commas, the inverse of splitting.\<close>

fun join_csv :: "string list \<Rightarrow> string" where
  "join_csv [] = []"
| "join_csv [p] = p"
| "join_csv (p # ps) = p @ CHR '','' # join_csv ps"

lemma splitCSV_loop_run:
  "CHR '','' \<notin> set p \<Longrightarrow> splitCSV_loop cur (p @ s) = splitCSV_loop (cur @ p) s"
  by (induction p arbitrary: cur) auto

lemma splitCSV_loop_join:
  "ps \<noteq> [] \<Longrightarrow> \<forall>p\<in>set ps. CHR '','' \<notin> set p \<Longrightarrow>
   splitCSV_loop [] (join_csv ps) = map trimASCIISpace ps"
proof (induction ps rule: join_csv.induct)
  case 1
  then show ?case by simp
next
  case (2 p)
  then show ?case using splitCSV_loop_run [of p "[]" "[]"] by simp
next
  case (3 p q qs)
  then show ?case by (simp add: splitCSV_loop_run)
qed

lemma every_string_is_a_join:
  "\<exists>ps. ps \<noteq> [] \<and> s = join_csv ps \<and> (\<forall>p\<in>set ps. CHR '','' \<notin> set p)"
proof (induction s)
  case Nil
  have "[] = join_csv [[]]" by simp
  then show ?case by (intro exI [of _ "[[]]"]) simp
next
  case (Cons c s)
  then obtain p ps where s: "s = join_csv (p # ps)" and ok: "\<forall>q\<in>set (p # ps). CHR '','' \<notin> set q"
    by (metis neq_Nil_conv)
  show ?case
  proof (cases "c = CHR '',''")
    case True
    with s have "c # s = join_csv ([] # p # ps)" by simp
    with ok show ?thesis by (intro exI [of _ "[] # p # ps"]) simp
  next
    case False
    with s have "c # s = join_csv ((c # p) # ps)" by (cases ps) simp_all
    with ok False show ?thesis by (intro exI [of _ "(c # p) # ps"]) simp
  qed
qed

lemma validatePermissionString_None:
  "validatePermissionString perms = None \<longleftrightarrow>
     perms = [] \<or> (\<forall>p\<in>set (splitCSV perms). allowed_permission p)"
  by (auto simp: validatePermissionString_def find_None_iff)

text \<open>
  The permission check of tokens, roles and measurement permissions accepts a string
  exactly when it is empty or a comma-separated list whose parts, with the blanks around them
  trimmed, are read, write, delete or admin.
\<close>

theorem permission_string_accepted:
  "validatePermissionString perms = None \<longleftrightarrow>
     perms = [] \<or>
     (\<exists>ps. ps \<noteq> [] \<and> perms = join_csv ps \<and> CHR '','' \<notin> \<Union> (set ` set ps) \<and>
           trimASCIISpace ` set ps \<subseteq> {''read'', ''write'', ''delete'', ''admin''})"
proof -
  let ?A = "{''read'', ''write'', ''delete'', ''admin''}"
  have parts: "set (splitCSV perms) = trimASCIISpace ` set ps"
    if "perms \<noteq> []" "ps \<noteq> []" "perms = join_csv ps" "CHR '','' \<notin> \<Union> (set ` set ps)" for ps
    using that by (simp add: splitCSV_def splitCSV_loop_join)
  obtain qs where "qs \<noteq> []" "perms = join_csv qs" "CHR '','' \<notin> \<Union> (set ` set qs)"
    using every_string_is_a_join [of perms] by auto
  with parts have "set (splitCSV perms) \<subseteq> ?A \<longleftrightarrow>
      (\<exists>ps. ps \<noteq> [] \<and> perms = join_csv ps \<and> CHR '','' \<notin> \<Union> (set ` set ps) \<and>
            trimASCIISpace ` set ps \<subseteq> ?A)" if "perms \<noteq> []"
    using that by metis
  moreover have "set (splitCSV perms) \<subseteq> ?A \<longleftrightarrow> (\<forall>p\<in>set (splitCSV perms). allowed_permission p)"
    by (auto simp: allowed_permission_def)
  ultimately show ?thesis
    by (cases "perms = []") (simp_all add: validatePermissionString_None)
qed

end
