(* ===== verification/FSM_Tables.thy ===== *)
theory FSM_Tables
  imports FSM_Validation
begin

text \<open>
  The invariant of the authentication state of the cluster FSM: tokens, organizations, teams,
  roles, measurement permissions and token memberships.  For every table: each entry is stored
  under its own id and is valid, and the secondary indices hold exactly what the table says
  (through the index interfaces of \<open>Prelude\<close>).  Across tables: no entry has a dangling parent.
\<close>

section \<open>Tables and their indices\<close>

text \<open>
  The name of a token is not among what is checked: \<open>applyUpdateToken\<close> does not validate it.
\<close>

definition valid_token :: "token_entry \<Rightarrow> bool" where
  "valid_token e \<longleftrightarrow>
     validateTokenHashAndPrefix (t_TokenHash e) (t_TokenPrefix e) = None \<and>
     validatePermissionString (t_Permissions e) = None"

definition tokens_tab :: "fsm \<Rightarrow> bool" where
  "tokens_tab f \<longleftrightarrow>
     keyed t_ID valid_token (tokens f) \<and>
     uniq_ok mget t_Name (tokens f) (tokensByName f) \<and>
     fk_ok lset t_TokenPrefix (tokens f) (tokensByPrefix f) \<and> ltidy (tokensByPrefix f)"

abbreviation valid_org :: "organization_entry \<Rightarrow> bool" where
  "valid_org e \<equiv> validateOrganizationEntry (Some e) = None"

definition orgs_tab :: "fsm \<Rightarrow> bool" where
  "orgs_tab f \<longleftrightarrow>
     keyed o_ID valid_org (organizations f) \<and>
     uniq_ok mget o_Name (organizations f) (organizationsByName f)"

abbreviation valid_team :: "team_entry \<Rightarrow> bool" where
  "valid_team e \<equiv> validateTeamEntry (Some e) = None"

definition team_key :: "team_entry \<Rightarrow> int64 \<times> string" where
  "team_key e = (tm_OrganizationID e, tm_Name e)"

definition teams_tab :: "fsm \<Rightarrow> bool" where
  "teams_tab f \<longleftrightarrow>
     keyed tm_ID valid_team (teams f) \<and>
     uniq_ok nget team_key (teams f) (teamsByOrg f) \<and> ntidy (teamsByOrg f)"

abbreviation valid_role :: "role_entry \<Rightarrow> bool" where
  "valid_role e \<equiv> validateRoleEntry (Some e) = None"

definition roles_tab :: "fsm \<Rightarrow> bool" where
  "roles_tab f \<longleftrightarrow>
     keyed r_ID valid_role (roles f) \<and>
     fk_ok sget r_TeamID (roles f) (rolesByTeam f) \<and> stidy (rolesByTeam f)"

abbreviation valid_mperm :: "measurement_permission_entry \<Rightarrow> bool" where
  "valid_mperm e \<equiv> validateMeasurementPermissionEntry (Some e) = None"

definition mperms_tab :: "fsm \<Rightarrow> bool" where
  "mperms_tab f \<longleftrightarrow>
     keyed mp_ID valid_mperm (measurementPermissions f) \<and>
     fk_ok sget mp_RoleID (measurementPermissions f) (measurementPermsByRole f) \<and>
     stidy (measurementPermsByRole f)"

abbreviation valid_member :: "token_membership_entry \<Rightarrow> bool" where
  "valid_member e \<equiv> validateTokenMembershipEntry (Some e) = None"

definition member_key :: "token_membership_entry \<Rightarrow> int64 \<times> int64" where
  "member_key e = (m_TokenID e, m_TeamID e)"

definition members_by_pair :: "fsm \<Rightarrow> bool" where
  "members_by_pair f \<longleftrightarrow>
     keyed m_ID valid_member (tokenMemberships f) \<and>
     uniq_ok nget member_key (tokenMemberships f) (tokenMembershipsByPair f) \<and>
     ntidy (tokenMembershipsByPair f)"

definition members_by_token :: "fsm \<Rightarrow> bool" where
  "members_by_token f \<longleftrightarrow>
     fk_ok sget m_TokenID (tokenMemberships f) (tokenMembershipsByToken f) \<and>
     stidy (tokenMembershipsByToken f)"

definition members_by_team :: "fsm \<Rightarrow> bool" where
  "members_by_team f \<longleftrightarrow>
     fk_ok sget m_TeamID (tokenMemberships f) (tokenMembershipsByTeam f) \<and>
     stidy (tokenMembershipsByTeam f)"

definition members_tab :: "fsm \<Rightarrow> bool" where
  "members_tab f \<longleftrightarrow> members_by_pair f \<and> members_by_token f \<and> members_by_team f"

section \<open>References\<close>

definition refs_ok :: "fsm \<Rightarrow> bool" where
  "refs_ok f \<longleftrightarrow>
     refers tm_OrganizationID (teams f) (organizations f) \<and>
     refers r_TeamID (roles f) (teams f) \<and>
     refers mp_RoleID (measurementPermissions f) (roles f) \<and>
     refers m_TokenID (tokenMemberships f) (tokens f) \<and>
     refers m_TeamID (tokenMemberships f) (teams f)"

definition auth_ok :: "fsm \<Rightarrow> bool" where
  "auth_ok f \<longleftrightarrow>
     tokens_tab f \<and> orgs_tab f \<and> teams_tab f \<and> roles_tab f \<and> mperms_tab f \<and>
     members_tab f \<and> refs_ok f"

lemmas members_defs = members_tab_def members_by_pair_def members_by_token_def members_by_team_def

lemmas tab_defs = tokens_tab_def orgs_tab_def teams_tab_def roles_tab_def mperms_tab_def members_defs

text \<open>The counters, the manifest and the nodes do not matter.\<close>

lemma auth_ok_counters [simp]:
  "auth_ok (incRejectedPaths f) = auth_ok f" "auth_ok (incRejectedTokens f) = auth_ok f"
  "auth_ok (incRejectedRBAC f) = auth_ok f"
  by (simp_all add: auth_ok_def tab_defs refs_ok_def
        incRejectedPaths_def incRejectedTokens_def incRejectedRBAC_def)

text \<open>An id that no table uses, as the id of a new entry must be.\<close>

definition fresh_id :: "int64 \<Rightarrow> fsm \<Rightarrow> bool" where
  "fresh_id x f \<longleftrightarrow>
     tokens f x = None \<and> organizations f x = None \<and> teams f x = None \<and> roles f x = None \<and>
     measurementPermissions f x = None \<and> tokenMemberships f x = None"

text \<open>The indices are determined by the tables: the only freedom left is the order of the
slices of \<open>tokensByPrefix\<close>.\<close>

lemma uniq_ok_determined:
  "uniq_ok look key prim idx \<Longrightarrow> uniq_ok look key prim idx' \<Longrightarrow> look idx k = look idx' k"
  unfolding uniq_ok_def by (metis not_Some_eq)

lemma fk_ok_determined:
  "fk_ok get fk prim idx \<Longrightarrow> fk_ok get fk prim idx' \<Longrightarrow> get idx k = get idx' k"
  unfolding fk_ok_def by blast

lemma names_determined: "uniq_ok mget key prim idx \<Longrightarrow> uniq_ok mget key prim idx' \<Longrightarrow> idx = idx'"
  using uniq_ok_determined [of mget] by (metis ext mget_def)

lemma pairs_determined:
  "uniq_ok nget key prim idx \<Longrightarrow> uniq_ok nget key prim idx' \<Longrightarrow> ntidy idx \<Longrightarrow> ntidy idx' \<Longrightarrow> idx = idx'"
  by (rule ntidy_eqI) (assumption | rule uniq_ok_determined [where look = nget])+

lemma sets_determined:
  "fk_ok sget fk prim idx \<Longrightarrow> fk_ok sget fk prim idx' \<Longrightarrow> stidy idx \<Longrightarrow> stidy idx' \<Longrightarrow> idx = idx'"
  by (rule stidy_eqI) (auto dest: fk_ok_determined)

lemma slices_determined: "fk_ok lset fk prim idx \<Longrightarrow> fk_ok lset fk prim idx' \<Longrightarrow> lset idx = lset idx'"
  by (auto intro!: ext dest: fk_ok_determined)

lemma auth_indices_determined:
  assumes "auth_ok f" and "auth_ok g" and "tokens f = tokens g" and "organizations f = organizations g"
    and "teams f = teams g" and "roles f = roles g"
    and "measurementPermissions f = measurementPermissions g"
    and "tokenMemberships f = tokenMemberships g"
  shows "tokensByName f = tokensByName g" and "lset (tokensByPrefix f) = lset (tokensByPrefix g)"
    and "organizationsByName f = organizationsByName g" and "teamsByOrg f = teamsByOrg g"
    and "rolesByTeam f = rolesByTeam g" and "measurementPermsByRole f = measurementPermsByRole g"
    and "tokenMembershipsByPair f = tokenMembershipsByPair g"
    and "tokenMembershipsByToken f = tokenMembershipsByToken g"
    and "tokenMembershipsByTeam f = tokenMembershipsByTeam g"
  using assms unfolding auth_ok_def tab_defs
  by (metis names_determined, metis slices_determined, metis names_determined, metis pairs_determined,
      metis sets_determined, metis sets_determined, metis pairs_determined, metis sets_determined,
      metis sets_determined)

end
