(* ===== verification/FSM_Tokens.thy ===== *)
theory FSM_Tokens
  imports FSM_Tables
begin

text \<open>
  The cluster-wide API tokens of \<^verbatim>\<open>fsm.go\<close>: the five handlers (create, update, revoke,
  delete with its cascade over the token's memberships, rotate) and the queries.
\<close>

section \<open>Handlers\<close>

definition applyCreateToken :: "token_entry option \<Rightarrow> u64 \<Rightarrow> fsm \<Rightarrow> fsm_result" where
  "applyCreateToken payload logIndex f =
     (case payload of
        None \<Rightarrow> (f, [], Some (UnmarshalPayload ''create token''))
      | Some token \<Rightarrow>
          (case validateTokenEntry (Some token) of
             Some e \<Rightarrow> rejectToken ''create'' e f
           | None \<Rightarrow>
               if t_CreatedAtUnixNano token = 0 then rejectToken ''create'' CreatedAtRequired f
               else
                 let entry = token\<lparr>t_ID := int64_of_u64 logIndex, t_LSN := logIndex, t_Enabled := True\<rparr>
                 in case mget (tokensByName f) (t_Name entry) of
                      Some _ \<Rightarrow> rejectToken ''create'' (NameExists (t_Name entry)) f
                    | None \<Rightarrow>
                        let f' = f\<lparr>tokens := (tokens f)(t_ID entry \<mapsto> entry),
                                   tokensByPrefix := ladd (t_TokenPrefix entry) (t_ID entry) (tokensByPrefix f),
                                   tokensByName := mput (t_Name entry) (t_ID entry) (tokensByName f)\<rparr>
                        in (f', emit f' (TokenCreated entry), None)))"

record update_token_payload =
  ut_ID :: int64
  ut_Name :: string
  ut_Description :: string
  ut_Permissions :: string
  ut_ExpiresAtUnixNano :: int64
  ut_ChangedFields :: "string list"

definition check_token_field :: "update_token_payload \<Rightarrow> string \<Rightarrow> invalid option" where
  "check_token_field p field =
     (if field = ''permissions'' then validatePermissionString (ut_Permissions p) else None)"

definition name_taken :: "update_token_payload \<Rightarrow> fsm \<Rightarrow> bool" where
  "name_taken p f =
     (case mget (tokensByName f) (ut_Name p) of None \<Rightarrow> False | Some otherID \<Rightarrow> otherID \<noteq> ut_ID p)"

text \<open>The entry after the fields listed as changed were written.\<close>

definition updated_token :: "update_token_payload \<Rightarrow> u64 \<Rightarrow> token_entry \<Rightarrow> token_entry" where
  "updated_token p logIndex entry =
     (let changed = (\<lambda>field. field \<in> set (ut_ChangedFields p))
      in entry\<lparr>t_Name := (if changed ''name'' then ut_Name p else t_Name entry),
               t_Description := (if changed ''description'' then ut_Description p else t_Description entry),
               t_Permissions := (if changed ''permissions'' then ut_Permissions p else t_Permissions entry),
               t_ExpiresAtUnixNano :=
                 (if changed ''expires_at'' then ut_ExpiresAtUnixNano p else t_ExpiresAtUnixNano entry),
               t_LSN := logIndex\<rparr>)"

definition applyUpdateToken :: "update_token_payload option \<Rightarrow> u64 \<Rightarrow> fsm \<Rightarrow> fsm_result" where
  "applyUpdateToken payload logIndex f =
     (case payload of
        None \<Rightarrow> (f, [], Some (UnmarshalPayload ''update token''))
      | Some p \<Rightarrow>
          if ut_ID p = 0 then rejectToken ''update'' IDRequired f
          else case first_invalid (check_token_field p) (ut_ChangedFields p) of
            Some e \<Rightarrow> rejectToken ''update'' e f
          | None \<Rightarrow>
              (case tokens f (ut_ID p) of
                 None \<Rightarrow> (incRejectedTokens f, [], None)
               | Some entry \<Rightarrow>
                   if ''name'' \<in> set (ut_ChangedFields p) \<and> name_taken p f
                   then rejectToken ''update'' (NameExists (ut_Name p)) f
                   else
                     let byName = (if ''name'' \<in> set (ut_ChangedFields p)
                                   then mput (ut_Name p) (t_ID entry) (mdel (t_Name entry) (tokensByName f))
                                   else tokensByName f);
                         entry' = updated_token p logIndex entry;
                         f' = f\<lparr>tokens := (tokens f)(ut_ID p \<mapsto> entry'), tokensByName := byName\<rparr>
                     in (f', emit f' (TokenUpdated entry'), None)))"

definition applyRevokeToken :: "int64 option \<Rightarrow> u64 \<Rightarrow> fsm \<Rightarrow> fsm_result" where
  "applyRevokeToken payload logIndex f =
     (case payload of
        None \<Rightarrow> (f, [], Some (UnmarshalPayload ''revoke token''))
      | Some x \<Rightarrow>
          if x = 0 then rejectToken ''revoke'' IDRequired f
          else case tokens f x of
            None \<Rightarrow> (f, [], None)
          | Some entry \<Rightarrow>
              let f' = f\<lparr>tokens := (tokens f)(x \<mapsto> entry\<lparr>t_Enabled := False, t_LSN := logIndex\<rparr>)\<rparr>
              in (f', emit f' (TokenRevoked x), None))"

text \<open>
  One step of the cascade in \<open>applyDeleteToken\<close>: a membership of the token leaves the table
  and the indices by pair and by team.  The index by token is dropped once, after the loop.
\<close>

definition drop_membership_of_token :: "int64 \<Rightarrow> fsm \<Rightarrow> fsm" where
  "drop_membership_of_token membershipID f =
     (case tokenMemberships f membershipID of
        None \<Rightarrow> f
      | Some mem \<Rightarrow>
          f\<lparr>tokenMembershipsByPair := ndel (m_TokenID mem, m_TeamID mem) (tokenMembershipsByPair f),
            tokenMembershipsByTeam := sdel (m_TeamID mem) membershipID (tokenMembershipsByTeam f),
            tokenMemberships := (tokenMemberships f)(membershipID := None)\<rparr>)"

definition cascade_token :: "ranges \<Rightarrow> int64 \<Rightarrow> fsm \<Rightarrow> fsm" where
  "cascade_token R x f =
     (case tokenMembershipsByToken f x of
        None \<Rightarrow> f
      | Some tokenSet \<Rightarrow>
          let f' = fold drop_membership_of_token (ids_order R tokenSet) f
          in f'\<lparr>tokenMembershipsByToken := sdrop x (tokenMembershipsByToken f')\<rparr>)"

definition applyDeleteToken :: "ranges \<Rightarrow> int64 option \<Rightarrow> fsm \<Rightarrow> fsm_result" where
  "applyDeleteToken R payload f =
     (case payload of
        None \<Rightarrow> (f, [], Some (UnmarshalPayload ''delete token''))
      | Some x \<Rightarrow>
          if x = 0 then rejectToken ''delete'' IDRequired f
          else case tokens f x of
            None \<Rightarrow> (f, [], None)
          | Some entry \<Rightarrow>
              let f1 = f\<lparr>tokens := (tokens f)(x := None),
                         tokensByPrefix := ldel (t_TokenPrefix entry) x (tokensByPrefix f),
                         tokensByName := mdel (t_Name entry) (tokensByName f)\<rparr>;
                  f' = cascade_token R x f1
              in (f', emit f' (TokenDeleted x), None))"

record rotate_token_payload =
  rt_ID :: int64
  rt_NewHash :: string
  rt_NewPrefix :: string

definition applyRotateToken :: "rotate_token_payload option \<Rightarrow> u64 \<Rightarrow> fsm \<Rightarrow> fsm_result" where
  "applyRotateToken payload logIndex f =
     (case payload of
        None \<Rightarrow> (f, [], Some (UnmarshalPayload ''rotate token''))
      | Some p \<Rightarrow>
          if rt_ID p = 0 then rejectToken ''rotate'' IDRequired f
          else case validateTokenHashAndPrefix (rt_NewHash p) (rt_NewPrefix p) of
            Some e \<Rightarrow> rejectToken ''rotate'' e f
          | None \<Rightarrow>
              (case tokens f (rt_ID p) of
                 None \<Rightarrow> (f, [], None)
               | Some entry \<Rightarrow>
                   let oldPrefix = t_TokenPrefix entry;
                       entry' = entry\<lparr>t_TokenHash := rt_NewHash p, t_TokenPrefix := rt_NewPrefix p,
                                      t_LSN := logIndex\<rparr>;
                       byPrefix = (if oldPrefix \<noteq> rt_NewPrefix p
                                   then ladd (rt_NewPrefix p) (rt_ID p)
                                          (ldel oldPrefix (rt_ID p) (tokensByPrefix f))
                                   else tokensByPrefix f);
                       f' = f\<lparr>tokens := (tokens f)(rt_ID p \<mapsto> entry'), tokensByPrefix := byPrefix\<rparr>
                   in (f', emit f' (TokenRotated (rt_ID p) (rt_NewHash p) (rt_NewPrefix p) logIndex), None)))"

lemmas token_handler_defs [fsm_defs] =
  applyCreateToken_def applyUpdateToken_def applyRevokeToken_def applyDeleteToken_def
  applyRotateToken_def

section \<open>Queries\<close>

definition GetTokenByID :: "int64 \<Rightarrow> fsm \<Rightarrow> token_entry option" where
  "GetTokenByID x f = tokens f x"

definition TokenCount :: "fsm \<Rightarrow> nat" where
  "TokenCount f = card (dom (tokens f))"

section \<open>The invariant is kept\<close>

text \<open>A change of the token table that keeps its ids concerns no other table.\<close>

lemma auth_ok_token_change:
  assumes "auth_ok f"
    and "tokens_tab (f\<lparr>tokens := ts, tokensByPrefix := px, tokensByName := nm\<rparr>)"
    and "dom (tokens f) \<subseteq> dom ts"
  shows "auth_ok (f\<lparr>tokens := ts, tokensByPrefix := px, tokensByName := nm\<rparr>)"
proof -
  from assms(1) have "refers m_TokenID (tokenMemberships f) (tokens f)"
    by (simp add: auth_ok_def refs_ok_def)
  with assms(3) have "refers m_TokenID (tokenMemberships f) ts"
    unfolding refers_def by blast
  with assms(1,2) show ?thesis
    by (simp add: auth_ok_def refs_ok_def orgs_tab_def teams_tab_def roles_tab_def mperms_tab_def
          members_defs)
qed

lemma valid_token_entry: "validateTokenEntry (Some t) = None \<Longrightarrow> valid_token t"
  by (auto simp: validateTokenEntry_def valid_token_def split: if_splits)

lemma tokens_tab_insert:
  assumes "tokens_tab f" and "tokens f (t_ID e) = None" and "mget (tokensByName f) (t_Name e) = None"
    and "valid_token e"
  shows "tokens_tab (f\<lparr>tokens := (tokens f)(t_ID e \<mapsto> e),
           tokensByPrefix := ladd (t_TokenPrefix e) (t_ID e) (tokensByPrefix f),
           tokensByName := mput (t_Name e) (t_ID e) (tokensByName f)\<rparr>)"
proof -
  have "t_ID e \<notin> lset (tokensByPrefix f) (t_TokenPrefix e)"
    using assms(1,2) slice_index.lookup_iff by (fastforce simp: tokens_tab_def)
  with assms show ?thesis
    by (simp add: tokens_tab_def name_index.insert_fresh slice_index.insert_fresh)
qed

lemma auth_ok_create_token:
  assumes "auth_ok f" and "fresh_id (int64_of_u64 i) f"
  shows "auth_ok (st (applyCreateToken p i f))"
proof (cases "err (applyCreateToken p i f)")
  case None
  then obtain t where p: "p = Some t" "validateTokenEntry (Some t) = None"
      "mget (tokensByName f) (t_Name t) = None"
    by (auto simp: applyCreateToken_def rejectToken_def Let_def split: option.splits if_splits)
  let ?e = "t\<lparr>t_ID := int64_of_u64 i, t_LSN := i, t_Enabled := True\<rparr>"
  from p have "valid_token ?e"
    using valid_token_entry [of t] by (simp add: valid_token_def)
  with assms p tokens_tab_insert [of f ?e]
  have "auth_ok (f\<lparr>tokens := (tokens f)(t_ID ?e \<mapsto> ?e),
          tokensByPrefix := ladd (t_TokenPrefix ?e) (t_ID ?e) (tokensByPrefix f),
          tokensByName := mput (t_Name ?e) (t_ID ?e) (tokensByName f)\<rparr>)"
    by (intro auth_ok_token_change) (auto simp: auth_ok_def fresh_id_def)
  with p None show ?thesis
    by (auto simp: applyCreateToken_def rejectToken_def Let_def split: option.splits if_splits)
next
  case (Some e)
  then have "st (applyCreateToken p i f) = f \<or> st (applyCreateToken p i f) = incRejectedTokens f"
    by (auto simp: applyCreateToken_def rejectToken_def Let_def split: option.splits if_splits)
  with assms show ?thesis by auto
qed

lemma tokens_tab_replace:
  assumes "tokens_tab f" and "tokens f x = Some e" and "t_ID e' = x" and "valid_token e'"
    and "t_TokenPrefix e' = t_TokenPrefix e"
  shows "t_Name e' = t_Name e \<Longrightarrow>
      tokens_tab (f\<lparr>tokens := (tokens f)(x \<mapsto> e'), tokensByPrefix := tokensByPrefix f,
                     tokensByName := tokensByName f\<rparr>)"
    and "mget (tokensByName f) (t_Name e') \<in> {None, Some x} \<Longrightarrow>
      tokens_tab (f\<lparr>tokens := (tokens f)(x \<mapsto> e'), tokensByPrefix := tokensByPrefix f,
                     tokensByName := mput (t_Name e') x (mdel (t_Name e) (tokensByName f))\<rparr>)"
  using assms
  by (auto simp: tokens_tab_def intro: slice_index.update_same_key name_index.update_same_key
        name_index.rename)

lemma auth_ok_update_token:
  assumes "auth_ok f"
  shows "auth_ok (st (applyUpdateToken p i f))"
proof (cases "\<exists>q e. p = Some q \<and> tokens f (ut_ID q) = Some e \<and> err (applyUpdateToken p i f) = None")
  case True
  then obtain q e where p: "p = Some q" "tokens f (ut_ID q) = Some e" "err (applyUpdateToken p i f) = None"
    by blast
  let ?named = "''name'' \<in> set (ut_ChangedFields q)" and ?e = "updated_token q i e"
  from p have guards: "ut_ID q \<noteq> 0" "first_invalid (check_token_field q) (ut_ChangedFields q) = None"
      "\<not> (?named \<and> name_taken q f)"
    by (auto simp: applyUpdateToken_def rejectToken_def split: option.splits if_splits)
  then have perms: "\<forall>x\<in>set (ut_ChangedFields q). check_token_field q x = None"
    and free: "?named \<Longrightarrow> mget (tokensByName f) (ut_Name q) \<in> {None, Some (ut_ID q)}"
    by (auto simp: name_taken_def first_invalid_None split: option.splits)
  have "t_ID e = ut_ID q" "?named \<Longrightarrow> t_Name ?e = ut_Name q"
    using p(2) assms by (auto simp: auth_ok_def tokens_tab_def updated_token_def dest: keyed_key)
  then have st: "st (applyUpdateToken p i f) =
      f\<lparr>tokens := (tokens f)(ut_ID q \<mapsto> ?e), tokensByPrefix := tokensByPrefix f,
        tokensByName := (if ?named then mput (t_Name ?e) (ut_ID q) (mdel (t_Name e) (tokensByName f))
                         else tokensByName f)\<rparr>"
    unfolding applyUpdateToken_def p(1) option.case if_not_P [OF guards(1)] guards(2) p(2)
      if_not_P [OF guards(3)] Let_def
    by simp
  from assms have tab: "tokens_tab f" by (simp add: auth_ok_def)
  with p have e: "t_ID e = ut_ID q" "valid_token e"
    by (auto simp: tokens_tab_def dest: keyed_key keyed_valid)
  have e': "t_ID ?e = ut_ID q" "t_TokenPrefix ?e = t_TokenPrefix e" "valid_token ?e"
    using e perms by (auto simp: updated_token_def valid_token_def check_token_field_def Let_def
        split: if_splits)
  have new: "tokens_tab (st (applyUpdateToken p i f))"
    unfolding st
    using tokens_tab_replace [OF tab p(2) e'(1,3,2)] free
    by (cases ?named) (simp_all add: updated_token_def Let_def)
  show ?thesis
    unfolding st by (rule auth_ok_token_change [OF assms new [unfolded st]]) auto
next
  case False
  then have "st (applyUpdateToken p i f) = f \<or> st (applyUpdateToken p i f) = incRejectedTokens f"
    by (auto simp: applyUpdateToken_def rejectToken_def Let_def split: option.splits if_splits)
  with assms show ?thesis by auto
qed

lemma auth_ok_revoke_token:
  assumes "auth_ok f"
  shows "auth_ok (st (applyRevokeToken p i f))"
proof -
  from assms have tab: "tokens_tab f" by (simp add: auth_ok_def)
  have "auth_ok (f\<lparr>tokens := (tokens f)(x \<mapsto> e\<lparr>t_Enabled := False, t_LSN := i\<rparr>),
      tokensByPrefix := tokensByPrefix f, tokensByName := tokensByName f\<rparr>)"
    if e: "tokens f x = Some e" for x e
  proof (rule auth_ok_token_change [OF assms])
    have "t_ID e = x" "valid_token e"
      using tab e by (auto simp: tokens_tab_def dest: keyed_key keyed_valid)
    then show "tokens_tab (f\<lparr>tokens := (tokens f)(x \<mapsto> e\<lparr>t_Enabled := False, t_LSN := i\<rparr>),
        tokensByPrefix := tokensByPrefix f, tokensByName := tokensByName f\<rparr>)"
      by (intro tokens_tab_replace [OF tab e]) (simp_all add: valid_token_def)
  qed auto
  with assms show ?thesis
    by (auto simp: applyRevokeToken_def rejectToken_def Let_def split: option.split)
qed

lemma auth_ok_rotate_token:
  assumes "auth_ok f"
  shows "auth_ok (st (applyRotateToken p i f))"
proof -
  from assms have tab: "tokens_tab f" by (simp add: auth_ok_def)
  have upd: "auth_ok (f\<lparr>tokens := (tokens f)(rt_ID q \<mapsto> e'), tokensByPrefix := px,
      tokensByName := tokensByName f\<rparr>)"
    if q: "validateTokenHashAndPrefix (rt_NewHash q) (rt_NewPrefix q) = None"
      and e: "tokens f (rt_ID q) = Some e"
      and e': "e' = e\<lparr>t_TokenHash := rt_NewHash q, t_TokenPrefix := rt_NewPrefix q, t_LSN := i\<rparr>"
      and px: "px = (if t_TokenPrefix e \<noteq> rt_NewPrefix q
        then ladd (rt_NewPrefix q) (rt_ID q) (ldel (t_TokenPrefix e) (rt_ID q) (tokensByPrefix f))
        else tokensByPrefix f)" for q e e' px
  proof (rule auth_ok_token_change [OF assms])
    have k: "t_ID e' = rt_ID q" "valid_token e'"
      using tab e q by (auto simp: e' tokens_tab_def valid_token_def dest: keyed_key keyed_valid)
    have notin: "rt_ID q \<notin> lset (ldel (t_TokenPrefix e) (rt_ID q) (tokensByPrefix f)) (rt_NewPrefix q)"
      if "t_TokenPrefix e \<noteq> rt_NewPrefix q"
      using tab e that slice_index.lookup_iff [of t_TokenPrefix "tokens f" "tokensByPrefix f"]
      by (auto simp: tokens_tab_def index_simps)
    have pre: "t_TokenPrefix e' = rt_NewPrefix q" by (simp add: e')
    have "fk_ok lset t_TokenPrefix ((tokens f)(rt_ID q \<mapsto> e')) px"
      using tab e pre slice_index.move [of t_TokenPrefix "tokens f" "tokensByPrefix f" "rt_ID q" e e']
        slice_index.update_same_key [of t_TokenPrefix "tokens f" "tokensByPrefix f" "rt_ID q" e e']
      by (simp add: tokens_tab_def px)
    with tab e k notin show "tokens_tab (f\<lparr>tokens := (tokens f)(rt_ID q \<mapsto> e'), tokensByPrefix := px,
        tokensByName := tokensByName f\<rparr>)"
      by (simp add: tokens_tab_def name_index.update_same_key [of _ _ _ _ e] e' px)
  qed auto
  show ?thesis
  proof (cases "\<exists>q e. p = Some q \<and> rt_ID q \<noteq> 0 \<and>
      validateTokenHashAndPrefix (rt_NewHash q) (rt_NewPrefix q) = None \<and> tokens f (rt_ID q) = Some e")
    case True
    then obtain q e where q: "p = Some q" "rt_ID q \<noteq> 0"
        "validateTokenHashAndPrefix (rt_NewHash q) (rt_NewPrefix q) = None" "tokens f (rt_ID q) = Some e"
      by blast
    from upd [OF q(3,4) refl refl] show ?thesis
      by (simp add: applyRotateToken_def Let_def q del: not_None_eq)
  next
    case False
    then have "st (applyRotateToken p i f) \<in> {f, incRejectedTokens f}"
      by (auto simp: applyRotateToken_def rejectToken_def split: option.split)
    with assms show ?thesis by auto
  qed
qed

section \<open>Deleting a token\<close>

text \<open>The state with the memberships and their indices replaced.\<close>

abbreviation with_members ::
  "fsm \<Rightarrow> (int64 \<rightharpoonup> token_membership_entry) \<Rightarrow> (int64 \<rightharpoonup> (int64 \<rightharpoonup> int64)) \<Rightarrow>
   (int64 \<rightharpoonup> int64 set) \<Rightarrow> (int64 \<rightharpoonup> int64 set) \<Rightarrow> fsm" where
  "with_members f ms pr tk tm \<equiv>
     f\<lparr>tokenMemberships := ms, tokenMembershipsByPair := pr, tokenMembershipsByToken := tk,
       tokenMembershipsByTeam := tm\<rparr>"

lemma drop_membership_of_token_step:
  assumes "members_by_pair f" and "members_by_team f"
  shows "\<exists>pr tm. drop_membership_of_token x f =
             with_members f ((tokenMemberships f)(x := None)) pr (tokenMembershipsByToken f) tm \<and>
           members_by_pair (drop_membership_of_token x f) \<and>
           members_by_team (drop_membership_of_token x f)"
proof (cases "tokenMemberships f x")
  case None
  then have same: "(tokenMemberships f)(x := None) = tokenMemberships f" by auto
  with None assms show ?thesis
    by (intro exI [of _ "tokenMembershipsByPair f"] exI [of _ "tokenMembershipsByTeam f"])
       (simp add: drop_membership_of_token_def)
next
  case (Some mem)
  with assms pair_index.delete [of member_key _ _ x mem] set_index.delete [of m_TeamID _ _ x mem]
  show ?thesis
    by (intro exI [of _ "ndel (member_key mem) (tokenMembershipsByPair f)"]
          exI [of _ "sdel (m_TeamID mem) x (tokenMembershipsByTeam f)"])
       (simp add: drop_membership_of_token_def members_by_pair_def members_by_team_def
          member_key_def [of mem])
qed

lemma drop_memberships_of_token:
  assumes "members_by_pair f" and "members_by_team f"
  shows "\<exists>pr tm. fold drop_membership_of_token ids f =
             with_members f (tokenMemberships f |` (- set ids)) pr (tokenMembershipsByToken f) tm \<and>
           members_by_pair (fold drop_membership_of_token ids f) \<and>
           members_by_team (fold drop_membership_of_token ids f)"
  using assms
proof (induction ids arbitrary: f)
  case Nil
  have "tokenMemberships f |` UNIV = tokenMemberships f" by (simp add: restrict_map_def)
  with Nil show ?case
    by (intro exI [of _ "tokenMembershipsByPair f"] exI [of _ "tokenMembershipsByTeam f"]) simp
next
  case (Cons x ids)
  let ?g = "drop_membership_of_token x f"
  from drop_membership_of_token_step [OF Cons.prems, of x] obtain pr tm where
    g: "?g = with_members f ((tokenMemberships f)(x := None)) pr (tokenMembershipsByToken f) tm"
    and ok: "members_by_pair ?g" "members_by_team ?g" by blast
  have "(tokenMemberships f)(x := None) |` (- set ids) = tokenMemberships f |` (- set (x # ids))"
    by (auto simp: restrict_map_def)
  moreover from g have "tokenMemberships ?g = (tokenMemberships f)(x := None)"
    "tokenMembershipsByToken ?g = tokenMembershipsByToken f"
    "with_members ?g ms pr' tk tm' = with_members f ms pr' tk tm'" for ms pr' tk tm'
    by simp_all
  ultimately show ?case
    using Cons.IH [OF ok] by (simp only: fold.simps comp_def)
qed

text \<open>The cascade removes exactly the memberships of the token, with their index entries.\<close>

lemma cascade_token:
  assumes "ranges_ok R" and "members_tab f"
  shows "\<exists>pr tm. cascade_token R x f =
             with_members f (keep (\<lambda>m. m_TokenID m \<noteq> x) (tokenMemberships f)) pr
               (sdrop x (tokenMembershipsByToken f)) tm \<and>
           members_tab (cascade_token R x f)"
proof (cases "tokenMembershipsByToken f x")
  case None
  then have none: "sget (tokenMembershipsByToken f) x = {}" "sdrop x (tokenMembershipsByToken f) = tokenMembershipsByToken f"
    by (auto simp: sget_def sdrop_def)
  with assms have "keep (\<lambda>m. m_TokenID m \<noteq> x) (tokenMemberships f) = tokenMemberships f"
    using set_index.drop_key_keep [of m_TokenID "tokenMemberships f" "tokenMembershipsByToken f" x]
    by (simp add: members_defs restrict_map_def)
  with None none assms show ?thesis
    by (intro exI [of _ "tokenMembershipsByPair f"] exI [of _ "tokenMembershipsByTeam f"])
       (simp add: cascade_token_def)
next
  case (Some s)
  from assms have ok: "members_by_pair f" "members_by_team f" "members_by_token f"
    by (simp_all add: members_tab_def)
  from Some ok(3) have "finite s" by (auto simp: members_by_token_def stidy_def)
  with assms(1) have ids: "set (ids_order R s) = sget (tokenMembershipsByToken f) x"
    using Some by (simp add: sget_def)
  from drop_memberships_of_token [OF ok(1,2), of "ids_order R s"] obtain pr tm where
    fold: "fold drop_membership_of_token (ids_order R s) f =
        with_members f (tokenMemberships f |` (- sget (tokenMembershipsByToken f) x)) pr
          (tokenMembershipsByToken f) tm"
    and kept: "members_by_pair (fold drop_membership_of_token (ids_order R s) f)"
      "members_by_team (fold drop_membership_of_token (ids_order R s) f)"
    unfolding ids by blast
  have "tokenMemberships f |` (- sget (tokenMembershipsByToken f) x) = keep (\<lambda>m. m_TokenID m \<noteq> x) (tokenMemberships f)"
    "fk_ok sget m_TokenID (tokenMemberships f |` (- sget (tokenMembershipsByToken f) x)) (sdrop x (tokenMembershipsByToken f))"
    using ok(3) set_index.drop_key_keep set_index.drop_key by (auto simp: members_by_token_def)
  with Some fold kept ok(3) show ?thesis
    by (intro exI [of _ pr] exI [of _ tm])
       (simp add: cascade_token_def Let_def members_defs)
qed

lemma tokens_tab_delete:
  "tokens_tab f \<Longrightarrow> tokens f x = Some e \<Longrightarrow>
   tokens_tab (f\<lparr>tokens := (tokens f)(x := None), tokensByPrefix := ldel (t_TokenPrefix e) x (tokensByPrefix f),
                tokensByName := mdel (t_Name e) (tokensByName f)\<rparr>)"
  by (simp add: tokens_tab_def slice_index.delete name_index.delete)

lemma delete_token_state:
  assumes "ranges_ok R" and "auth_ok f" and "x \<noteq> 0" and e: "tokens f x = Some e"
  shows "\<exists>pr tm. st (applyDeleteToken R (Some x) f) =
             with_members (f\<lparr>tokens := (tokens f)(x := None),
                              tokensByPrefix := ldel (t_TokenPrefix e) x (tokensByPrefix f),
                              tokensByName := mdel (t_Name e) (tokensByName f)\<rparr>)
               (keep (\<lambda>m. m_TokenID m \<noteq> x) (tokenMemberships f)) pr
               (sdrop x (tokenMembershipsByToken f)) tm \<and>
           auth_ok (st (applyDeleteToken R (Some x) f))"
proof -
  let ?f1 = "f\<lparr>tokens := (tokens f)(x := None), tokensByPrefix := ldel (t_TokenPrefix e) x (tokensByPrefix f),
              tokensByName := mdel (t_Name e) (tokensByName f)\<rparr>"
  have st: "st (applyDeleteToken R (Some x) f) = cascade_token R x ?f1"
    using assms by (simp add: applyDeleteToken_def Let_def)
  have "members_tab ?f1" using assms(2) by (simp add: auth_ok_def members_defs)
  from cascade_token [OF assms(1) this, of x] obtain pr tm where
    g: "cascade_token R x ?f1 = with_members ?f1 (keep (\<lambda>m. m_TokenID m \<noteq> x) (tokenMemberships f)) pr
          (sdrop x (tokenMembershipsByToken f)) tm"
    and mem: "members_tab (cascade_token R x ?f1)" by auto
  have tok: "tokens_tab ?f1" using tokens_tab_delete assms by (simp add: auth_ok_def)
  have "refs_ok (cascade_token R x ?f1)"
    unfolding g using assms(2) by (auto simp: auth_ok_def refs_ok_def refers_def)
  with assms(2) mem tok have ok: "auth_ok (cascade_token R x ?f1)"
    unfolding g by (simp add: auth_ok_def orgs_tab_def teams_tab_def roles_tab_def mperms_tab_def tokens_tab_def)
  show ?thesis
    unfolding st by (intro exI [of _ pr] exI [of _ tm] conjI) (rule g, rule ok)
qed

lemma auth_ok_delete_token:
  assumes "ranges_ok R" and "auth_ok f"
  shows "auth_ok (st (applyDeleteToken R p f))"
proof (cases "\<exists>x e. p = Some x \<and> x \<noteq> 0 \<and> tokens f x = Some e")
  case True
  then show ?thesis using delete_token_state [OF assms] by blast
next
  case False
  then have "st (applyDeleteToken R p f) \<in> {f, incRejectedTokens f}"
    by (auto simp: applyDeleteToken_def rejectToken_def split: option.split)
  with assms show ?thesis by auto
qed

section \<open>Properties\<close>

text \<open>
  Creating a token.  It succeeds exactly when the entry is valid, has a creation time and
  a name no token has; then the token is stored, enabled, under the log index, and found by
  id, by name and by prefix.  Otherwise nothing but the rejection counter changes.
\<close>

theorem create_token_outcome:
  assumes "auth_ok f" and "fresh_id (int64_of_u64 i) f"
    and "r = applyCreateToken (Some t) i f" and "x = int64_of_u64 i"
  shows "if validateTokenEntry (Some t) = None \<and> t_CreatedAtUnixNano t \<noteq> 0 \<and>
            t_Name t \<notin> t_Name ` ran (tokens f)
         then err r = None \<and> auth_ok (st r) \<and>
              tokens (st r) = (tokens f)(x \<mapsto> t\<lparr>t_ID := x, t_LSN := i, t_Enabled := True\<rparr>) \<and>
              tokensByName (st r) (t_Name t) = Some x \<and>
              x \<in> lset (tokensByPrefix (st r)) (t_TokenPrefix t)
         else err r \<noteq> None \<and> evs r = [] \<and> st r = incRejectedTokens f"
proof -
  have "mget (tokensByName f) (t_Name t) = None \<longleftrightarrow> t_Name t \<notin> t_Name ` ran (tokens f)"
    using assms(1) name_index.look_None_iff [of t_Name "tokens f" "tokensByName f" "t_Name t"]
    by (simp add: auth_ok_def tokens_tab_def ran_def image_iff) metis
  with auth_ok_create_token [OF assms(1,2), of "Some t"] show ?thesis
    unfolding assms(3,4)
    by (auto simp: applyCreateToken_def rejectToken_def Let_def index_simps mput_def
          split: option.split)
qed

definition example_token :: "string \<Rightarrow> string \<Rightarrow> token_entry" where
  "example_token name pre =
     \<lparr>t_ID = 0, t_Name = name, t_Description = [], t_Permissions = ''read'', t_TokenHash = ''h'',
      t_TokenPrefix = pre, t_CreatedAtUnixNano = 1, t_ExpiresAtUnixNano = 0, t_Enabled = False, t_LSN = 0\<rparr>"

lemma auth_ok_new: "auth_ok NewClusterFSM"
  by (simp add: auth_ok_def tab_defs refs_ok_def NewClusterFSM_def uniq_ok_def fk_ok_def
        index_simps mget_def)

lemma fresh_id_new: "fresh_id x NewClusterFSM"
  by (simp add: fresh_id_def NewClusterFSM_def)

lemma example_token_valid: "validateTokenEntry (Some (example_token ''a'' ''p'')) = None"
  by code_simp

theorem create_token_outcome_witness:
  "tokensByName (st (applyCreateToken (Some (example_token ''a'' ''p'')) 7 NewClusterFSM)) ''a'' = Some 7"
  using create_token_outcome [OF auth_ok_new fresh_id_new refl refl, of "example_token ''a'' ''p''" 7]
  by (simp add: example_token_valid) (simp add: example_token_def NewClusterFSM_def int64_of_u64_def)

text \<open>
  Rotating a known token with a valid hash and prefix: the token keeps everything but
  hash, prefix and log position; it is listed under its new prefix and under no other one,
  and every other token stays listed as it was.
\<close>

theorem rotate_token_reindexes:
  assumes "auth_ok f" and "rt_ID p \<noteq> 0" and "tokens f (rt_ID p) = Some e"
    and "validateTokenHashAndPrefix (rt_NewHash p) (rt_NewPrefix p) = None"
    and "g = st (applyRotateToken (Some p) i f)"
  shows "tokens g = (tokens f)(rt_ID p \<mapsto> e\<lparr>t_TokenHash := rt_NewHash p, t_TokenPrefix := rt_NewPrefix p, t_LSN := i\<rparr>) \<and>
         {pre. rt_ID p \<in> lset (tokensByPrefix g) pre} = {rt_NewPrefix p} \<and>
         (\<lambda>pre. lset (tokensByPrefix g) pre - {rt_ID p}) = (\<lambda>pre. lset (tokensByPrefix f) pre - {rt_ID p}) \<and>
         auth_ok g"
proof -
  have ok: "auth_ok g" using auth_ok_rotate_token [OF assms(1)] assms(5) by simp
  have toks: "tokens g = (tokens f)(rt_ID p \<mapsto> e\<lparr>t_TokenHash := rt_NewHash p, t_TokenPrefix := rt_NewPrefix p, t_LSN := i\<rparr>)"
    using assms by (simp add: applyRotateToken_def Let_def)
  have "x \<in> lset (tokensByPrefix h) pre \<longleftrightarrow> (\<exists>e. tokens h x = Some e \<and> t_TokenPrefix e = pre)"
    if "auth_ok h" for h x pre
    using that slice_index.lookup_iff [of t_TokenPrefix "tokens h" "tokensByPrefix h" x pre]
    by (simp add: auth_ok_def tokens_tab_def)
  from this [OF ok] this [OF assms(1)] show ?thesis
    using ok toks by auto
qed

definition example_tokens :: fsm where
  "example_tokens = st (applyCreateToken (Some (example_token ''a'' ''p'')) 7 NewClusterFSM)"

lemma example_tokens_ok: "auth_ok example_tokens"
  unfolding example_tokens_def using auth_ok_new fresh_id_new by (rule auth_ok_create_token)

lemma create_token_stores:
  "validateTokenEntry (Some t) = None \<Longrightarrow> t_CreatedAtUnixNano t \<noteq> 0 \<Longrightarrow> tokensByName f (t_Name t) = None \<Longrightarrow>
   tokens (st (applyCreateToken (Some t) i f)) =
     (tokens f)(int64_of_u64 i \<mapsto> t\<lparr>t_ID := int64_of_u64 i, t_LSN := i, t_Enabled := True\<rparr>)"
  by (simp add: applyCreateToken_def Let_def mget_def)

lemma example_tokens_7: "\<exists>e. tokens example_tokens 7 = Some e"
  using create_token_stores [OF example_token_valid, of NewClusterFSM 7]
  by (simp add: example_tokens_def NewClusterFSM_def) (simp add: example_token_def int64_of_u64_def)

theorem rotate_token_reindexes_witness:
  "{pre. 7 \<in> lset (tokensByPrefix (st (applyRotateToken
      (Some \<lparr>rt_ID = 7, rt_NewHash = ''h2'', rt_NewPrefix = ''q''\<rparr>) 8 example_tokens))) pre} = {''q''}"
proof -
  have "validateTokenHashAndPrefix ''h2'' ''q'' = None" by code_simp
  with rotate_token_reindexes [OF example_tokens_ok, of "\<lparr>rt_ID = 7, rt_NewHash = ''h2'', rt_NewPrefix = ''q''\<rparr>",
      OF _ _ _ refl, of _ 8] example_tokens_7
  show ?thesis by fastforce
qed

end
