(* ===== verification/FSM_RBAC.thy ===== *)
theory FSM_RBAC
  imports FSM_Tokens
begin

text \<open>
  Role-based access control in \<^verbatim>\<open>fsm_rbac.go\<close>: organizations, teams, roles, measurement
  permissions and token memberships.  This theory has the handlers; those that create, update
  or remove one entry keep the invariant of \<open>FSM_Tables\<close>.  The deletes that cascade are
  treated in \<open>FSM_Cascade\<close>.
\<close>

section \<open>Organizations\<close>

definition applyCreateOrganization :: "organization_entry option \<Rightarrow> u64 \<Rightarrow> fsm \<Rightarrow> fsm_result" where
  "applyCreateOrganization payload logIndex f =
     (case payload of
        None \<Rightarrow> (f, [], Some (UnmarshalPayload ''create organization''))
      | Some org \<Rightarrow>
          (case validateOrganizationEntry (Some org) of
             Some e \<Rightarrow> rejectRBAC ''create_organization'' e f
           | None \<Rightarrow>
               if o_CreatedAtUnixNano org = 0 then rejectRBAC ''create_organization'' CreatedAtRequired f
               else
                 let entry = org\<lparr>o_ID := int64_of_u64 logIndex, o_LSN := logIndex,
                                 o_UpdatedAtUnixNano :=
                                   (if o_UpdatedAtUnixNano org = 0 then o_CreatedAtUnixNano org
                                    else o_UpdatedAtUnixNano org),
                                 o_Enabled := True\<rparr>
                 in case mget (organizationsByName f) (o_Name entry) of
                      Some _ \<Rightarrow> rejectRBAC ''create_organization'' (NameExists (o_Name entry)) f
                    | None \<Rightarrow>
                        let f' = f\<lparr>organizations := (organizations f)(o_ID entry \<mapsto> entry),
                                   organizationsByName := mput (o_Name entry) (o_ID entry) (organizationsByName f)\<rparr>
                        in (f', emit f' (OrganizationCreated entry), None)))"

record update_entity_payload =
  ue_ID :: int64
  ue_Name :: string
  ue_Description :: string
  ue_Enabled :: bool
  ue_UpdatedAtUnixNano :: int64
  ue_ChangedFields :: "string list"

text \<open>
  Updates of organizations and of teams have payloads of the same shape, the same check of the
  changed fields, and the same loop that stages the changes: a rename is staged once, if the
  name differs from the stored one, and fails if the name is taken.
\<close>

definition check_entity_field :: "update_entity_payload \<Rightarrow> string \<Rightarrow> invalid option" where
  "check_entity_field p field =
     (if field = ''name'' \<and> ue_Name p = [] then Some NameCleared
      else if field = ''name'' \<and> length (ue_Name p) > rbacNameMaxLen
        then Some (NameTooLong (length (ue_Name p)))
      else if field = ''description'' \<and> length (ue_Description p) > rbacDescriptionMaxLen
        then Some (DescriptionTooLong (length (ue_Description p)))
      else None)"

fun stage_fields ::
  "('e \<Rightarrow> 'e) \<Rightarrow> (string \<Rightarrow> 'e \<Rightarrow> 'e) \<Rightarrow> bool \<Rightarrow> invalid option \<Rightarrow> string list \<Rightarrow> bool \<Rightarrow> 'e \<Rightarrow>
   invalid + (bool \<times> 'e)" where
  "stage_fields rename put differs taken [] nameChanged updated = Inr (nameChanged, updated)"
| "stage_fields rename put differs taken (field # fs) nameChanged updated =
     (if field = ''name'' then
        (if differs \<and> \<not> nameChanged then
           (case taken of
              Some e \<Rightarrow> Inl e
            | None \<Rightarrow> stage_fields rename put differs taken fs True (rename updated))
         else stage_fields rename put differs taken fs nameChanged updated)
      else stage_fields rename put differs taken fs nameChanged (put field updated))"

definition put_org_field :: "update_entity_payload \<Rightarrow> string \<Rightarrow> organization_entry \<Rightarrow> organization_entry" where
  "put_org_field p field e =
     (if field = ''description'' then e\<lparr>o_Description := ue_Description p\<rparr>
      else if field = ''enabled'' then e\<lparr>o_Enabled := ue_Enabled p\<rparr> else e)"

definition applyUpdateOrganization :: "update_entity_payload option \<Rightarrow> u64 \<Rightarrow> fsm \<Rightarrow> fsm_result" where
  "applyUpdateOrganization payload logIndex f =
     (case payload of
        None \<Rightarrow> (f, [], Some (UnmarshalPayload ''update organization''))
      | Some p \<Rightarrow>
          if ue_ID p = 0 then rejectRBAC ''update_organization'' IDRequired f
          else case first_invalid (check_entity_field p) (ue_ChangedFields p) of
            Some e \<Rightarrow> rejectRBAC ''update_organization'' e f
          | None \<Rightarrow>
              (case organizations f (ue_ID p) of
                 None \<Rightarrow> rejectRBAC ''update_organization'' (OrganizationNotFound (ue_ID p)) f
               | Some existing \<Rightarrow>
                   (case stage_fields (\<lambda>e. e\<lparr>o_Name := ue_Name p\<rparr>) (put_org_field p)
                           (ue_Name p \<noteq> o_Name existing)
                           (map_option (\<lambda>_. NameExists (ue_Name p)) (mget (organizationsByName f) (ue_Name p)))
                           (ue_ChangedFields p) False existing of
                      Inl e \<Rightarrow> rejectRBAC ''update_organization'' e f
                    | Inr (nameChanged, staged) \<Rightarrow>
                        let updated = staged\<lparr>o_UpdatedAtUnixNano :=
                                               (if ue_UpdatedAtUnixNano p \<noteq> 0 then ue_UpdatedAtUnixNano p
                                                else o_UpdatedAtUnixNano staged),
                                             o_LSN := logIndex\<rparr>;
                            byName = (if nameChanged
                                      then mput (o_Name updated) (ue_ID p)
                                             (mdel (o_Name existing) (organizationsByName f))
                                      else organizationsByName f);
                            f' = f\<lparr>organizations := (organizations f)(ue_ID p \<mapsto> updated),
                                   organizationsByName := byName\<rparr>
                        in (f', emit f' (OrganizationUpdated updated), None))))"

section \<open>Teams\<close>

definition applyCreateTeam :: "team_entry option \<Rightarrow> u64 \<Rightarrow> fsm \<Rightarrow> fsm_result" where
  "applyCreateTeam payload logIndex f =
     (case payload of
        None \<Rightarrow> (f, [], Some (UnmarshalPayload ''create team''))
      | Some team \<Rightarrow>
          (case validateTeamEntry (Some team) of
             Some e \<Rightarrow> rejectRBAC ''create_team'' e f
           | None \<Rightarrow>
               if tm_CreatedAtUnixNano team = 0 then rejectRBAC ''create_team'' CreatedAtRequired f
               else
                 let entry = team\<lparr>tm_ID := int64_of_u64 logIndex, tm_LSN := logIndex,
                                  tm_UpdatedAtUnixNano :=
                                    (if tm_UpdatedAtUnixNano team = 0 then tm_CreatedAtUnixNano team
                                     else tm_UpdatedAtUnixNano team),
                                  tm_Enabled := True\<rparr>
                 in if organizations f (tm_OrganizationID entry) = None
                    then rejectRBAC ''create_team'' (OrganizationNotFound (tm_OrganizationID entry)) f
                    else case nget (teamsByOrg f) (tm_OrganizationID entry, tm_Name entry) of
                      Some _ \<Rightarrow> rejectRBAC ''create_team'' (NameExists (tm_Name entry)) f
                    | None \<Rightarrow>
                        let f' = f\<lparr>teams := (teams f)(tm_ID entry \<mapsto> entry),
                                   teamsByOrg := nput (tm_OrganizationID entry, tm_Name entry) (tm_ID entry)
                                                   (teamsByOrg f)\<rparr>
                        in (f', emit f' (TeamCreated entry), None)))"

definition put_team_field :: "update_entity_payload \<Rightarrow> string \<Rightarrow> team_entry \<Rightarrow> team_entry" where
  "put_team_field p field e =
     (if field = ''description'' then e\<lparr>tm_Description := ue_Description p\<rparr>
      else if field = ''enabled'' then e\<lparr>tm_Enabled := ue_Enabled p\<rparr> else e)"

definition applyUpdateTeam :: "update_entity_payload option \<Rightarrow> u64 \<Rightarrow> fsm \<Rightarrow> fsm_result" where
  "applyUpdateTeam payload logIndex f =
     (case payload of
        None \<Rightarrow> (f, [], Some (UnmarshalPayload ''update team''))
      | Some p \<Rightarrow>
          if ue_ID p = 0 then rejectRBAC ''update_team'' IDRequired f
          else case first_invalid (check_entity_field p) (ue_ChangedFields p) of
            Some e \<Rightarrow> rejectRBAC ''update_team'' e f
          | None \<Rightarrow>
              (case teams f (ue_ID p) of
                 None \<Rightarrow> rejectRBAC ''update_team'' (TeamNotFound (ue_ID p)) f
               | Some existing \<Rightarrow>
                   (case stage_fields (\<lambda>e. e\<lparr>tm_Name := ue_Name p\<rparr>) (put_team_field p)
                           (ue_Name p \<noteq> tm_Name existing)
                           (map_option (\<lambda>_. NameExists (ue_Name p))
                              (nget (teamsByOrg f) (tm_OrganizationID existing, ue_Name p)))
                           (ue_ChangedFields p) False existing of
                      Inl e \<Rightarrow> rejectRBAC ''update_team'' e f
                    | Inr (nameChanged, staged) \<Rightarrow>
                        let updated = staged\<lparr>tm_UpdatedAtUnixNano :=
                                               (if ue_UpdatedAtUnixNano p \<noteq> 0 then ue_UpdatedAtUnixNano p
                                                else tm_UpdatedAtUnixNano staged),
                                             tm_LSN := logIndex\<rparr>;
                            byOrg = (if nameChanged
                                     then nput (tm_OrganizationID existing, tm_Name updated) (ue_ID p)
                                            (ndel (tm_OrganizationID existing, tm_Name existing) (teamsByOrg f))
                                     else teamsByOrg f);
                            f' = f\<lparr>teams := (teams f)(ue_ID p \<mapsto> updated), teamsByOrg := byOrg\<rparr>
                        in (f', emit f' (TeamUpdated updated), None))))"

section \<open>Roles\<close>

definition applyCreateRole :: "role_entry option \<Rightarrow> u64 \<Rightarrow> fsm \<Rightarrow> fsm_result" where
  "applyCreateRole payload logIndex f =
     (case payload of
        None \<Rightarrow> (f, [], Some (UnmarshalPayload ''create role''))
      | Some role \<Rightarrow>
          (case validateRoleEntry (Some role) of
             Some e \<Rightarrow> rejectRBAC ''create_role'' e f
           | None \<Rightarrow>
               if r_CreatedAtUnixNano role = 0 then rejectRBAC ''create_role'' CreatedAtRequired f
               else
                 let entry = role\<lparr>r_ID := int64_of_u64 logIndex, r_LSN := logIndex\<rparr>
                 in if teams f (r_TeamID entry) = None
                    then rejectRBAC ''create_role'' (TeamNotFound (r_TeamID entry)) f
                    else
                      let f' = f\<lparr>roles := (roles f)(r_ID entry \<mapsto> entry),
                                 rolesByTeam := sadd (r_TeamID entry) (r_ID entry) (rolesByTeam f)\<rparr>
                      in (f', emit f' (RoleCreated entry), None)))"

record update_role_payload =
  ur_ID :: int64
  ur_DatabasePattern :: string
  ur_Permissions :: string
  ur_ChangedFields :: "string list"

definition check_role_field :: "update_role_payload \<Rightarrow> string \<Rightarrow> invalid option" where
  "check_role_field p field =
     (if field = ''database_pattern'' then
        (if ur_DatabasePattern p = [] then Some PatternCleared
         else if length (ur_DatabasePattern p) > rbacPatternMaxLen
           then Some (PatternTooLong (length (ur_DatabasePattern p)))
         else None)
      else if field = ''permissions'' then validatePermissionString (ur_Permissions p)
      else None)"

definition put_role_field :: "update_role_payload \<Rightarrow> string \<Rightarrow> role_entry \<Rightarrow> role_entry" where
  "put_role_field p field e =
     (if field = ''database_pattern'' then e\<lparr>r_DatabasePattern := ur_DatabasePattern p\<rparr>
      else if field = ''permissions'' then e\<lparr>r_Permissions := ur_Permissions p\<rparr> else e)"

definition applyUpdateRole :: "update_role_payload option \<Rightarrow> u64 \<Rightarrow> fsm \<Rightarrow> fsm_result" where
  "applyUpdateRole payload logIndex f =
     (case payload of
        None \<Rightarrow> (f, [], Some (UnmarshalPayload ''update role''))
      | Some p \<Rightarrow>
          if ur_ID p = 0 then rejectRBAC ''update_role'' IDRequired f
          else case first_invalid (check_role_field p) (ur_ChangedFields p) of
            Some e \<Rightarrow> rejectRBAC ''update_role'' e f
          | None \<Rightarrow>
              (case roles f (ur_ID p) of
                 None \<Rightarrow> rejectRBAC ''update_role'' (RoleNotFound (ur_ID p)) f
               | Some existing \<Rightarrow>
                   let updated = (fold (put_role_field p) (ur_ChangedFields p) existing)\<lparr>r_LSN := logIndex\<rparr>;
                       f' = f\<lparr>roles := (roles f)(ur_ID p \<mapsto> updated)\<rparr>
                   in (f', emit f' (RoleUpdated updated), None)))"

section \<open>Measurement permissions\<close>

definition applyCreateMeasurementPermission ::
  "measurement_permission_entry option \<Rightarrow> u64 \<Rightarrow> fsm \<Rightarrow> fsm_result" where
  "applyCreateMeasurementPermission payload logIndex f =
     (case payload of
        None \<Rightarrow> (f, [], Some (UnmarshalPayload ''create measurement_permission''))
      | Some mperm \<Rightarrow>
          (case validateMeasurementPermissionEntry (Some mperm) of
             Some e \<Rightarrow> rejectRBAC ''create_measurement_permission'' e f
           | None \<Rightarrow>
               if mp_CreatedAtUnixNano mperm = 0
               then rejectRBAC ''create_measurement_permission'' CreatedAtRequired f
               else
                 let entry = mperm\<lparr>mp_ID := int64_of_u64 logIndex, mp_LSN := logIndex\<rparr>
                 in if roles f (mp_RoleID entry) = None
                    then rejectRBAC ''create_measurement_permission'' (RoleNotFound (mp_RoleID entry)) f
                    else
                      let f' = f\<lparr>measurementPermissions := (measurementPermissions f)(mp_ID entry \<mapsto> entry),
                                 measurementPermsByRole :=
                                   sadd (mp_RoleID entry) (mp_ID entry) (measurementPermsByRole f)\<rparr>
                      in (f', emit f' (MeasurementPermissionCreated entry), None)))"

definition applyDeleteMeasurementPermission :: "int64 option \<Rightarrow> fsm \<Rightarrow> fsm_result" where
  "applyDeleteMeasurementPermission payload f =
     (case payload of
        None \<Rightarrow> (f, [], Some (UnmarshalPayload ''delete measurement_permission''))
      | Some x \<Rightarrow>
          if x = 0 then rejectRBAC ''delete_measurement_permission'' IDRequired f
          else case measurementPermissions f x of
            None \<Rightarrow> (f, [], None)
          | Some existing \<Rightarrow>
              let f' = f\<lparr>measurementPermissions := (measurementPermissions f)(x := None),
                         measurementPermsByRole := sdel (mp_RoleID existing) x (measurementPermsByRole f)\<rparr>
              in (f', emit f' (MeasurementPermissionDeleted x), None))"

section \<open>Token memberships\<close>

definition applyAddTokenToTeam :: "token_membership_entry option \<Rightarrow> u64 \<Rightarrow> fsm \<Rightarrow> fsm_result" where
  "applyAddTokenToTeam payload logIndex f =
     (case payload of
        None \<Rightarrow> (f, [], Some (UnmarshalPayload ''add_token_to_team''))
      | Some mem \<Rightarrow>
          (case validateTokenMembershipEntry (Some mem) of
             Some e \<Rightarrow> rejectRBAC ''add_token_to_team'' e f
           | None \<Rightarrow>
               if m_CreatedAtUnixNano mem = 0 then rejectRBAC ''add_token_to_team'' CreatedAtRequired f
               else
                 let entry = mem\<lparr>m_ID := int64_of_u64 logIndex, m_LSN := logIndex\<rparr>
                 in if tokens f (m_TokenID entry) = None
                    then rejectRBAC ''add_token_to_team'' (TokenNotFound (m_TokenID entry)) f
                    else if teams f (m_TeamID entry) = None
                    then rejectRBAC ''add_token_to_team'' (TeamNotFound (m_TeamID entry)) f
                    else case nget (tokenMembershipsByPair f) (m_TokenID entry, m_TeamID entry) of
                      Some _ \<Rightarrow> rejectRBAC ''add_token_to_team'' (AlreadyMember (m_TokenID entry) (m_TeamID entry)) f
                    | None \<Rightarrow>
                        let f' = f\<lparr>tokenMemberships := (tokenMemberships f)(m_ID entry \<mapsto> entry),
                                   tokenMembershipsByPair :=
                                     nput (m_TokenID entry, m_TeamID entry) (m_ID entry) (tokenMembershipsByPair f),
                                   tokenMembershipsByToken :=
                                     sadd (m_TokenID entry) (m_ID entry) (tokenMembershipsByToken f),
                                   tokenMembershipsByTeam :=
                                     sadd (m_TeamID entry) (m_ID entry) (tokenMembershipsByTeam f)\<rparr>
                        in (f', emit f' (TokenMembershipAdded entry), None)))"

record remove_token_payload =
  rm_TokenID :: int64
  rm_TeamID :: int64

definition applyRemoveTokenFromTeam :: "remove_token_payload option \<Rightarrow> fsm \<Rightarrow> fsm_result" where
  "applyRemoveTokenFromTeam payload f =
     (case payload of
        None \<Rightarrow> (f, [], Some (UnmarshalPayload ''remove_token_from_team''))
      | Some p \<Rightarrow>
          if rm_TokenID p = 0 \<or> rm_TeamID p = 0 then rejectRBAC ''remove_token_from_team'' IDRequired f
          else case nget (tokenMembershipsByPair f) (rm_TokenID p, rm_TeamID p) of
            None \<Rightarrow> (f, [], None)
          | Some membershipID \<Rightarrow>
              let f' = f\<lparr>tokenMembershipsByPair := ndel (rm_TokenID p, rm_TeamID p) (tokenMembershipsByPair f),
                         tokenMembershipsByToken := sdel (rm_TokenID p) membershipID (tokenMembershipsByToken f),
                         tokenMembershipsByTeam := sdel (rm_TeamID p) membershipID (tokenMembershipsByTeam f),
                         tokenMemberships := (tokenMemberships f)(membershipID := None)\<rparr>
              in (f', emit f' (TokenMembershipRemoved (rm_TokenID p) (rm_TeamID p)), None))"

section \<open>Deletes that cascade\<close>

definition cascadeDeleteRoleLocked :: "ranges \<Rightarrow> int64 \<Rightarrow> fsm \<Rightarrow> fsm" where
  "cascadeDeleteRoleLocked R roleID f =
     (let f' = fold (\<lambda>x g. g\<lparr>measurementPermissions := (measurementPermissions g)(x := None)\<rparr>)
                 (ids_order R (sget (measurementPermsByRole f) roleID)) f
      in f'\<lparr>measurementPermsByRole := sdrop roleID (measurementPermsByRole f')\<rparr>)"

text \<open>A role of a team that is deleted.\<close>

definition delete_role_of_team :: "ranges \<Rightarrow> int64 \<Rightarrow> fsm \<Rightarrow> fsm" where
  "delete_role_of_team R roleID f =
     (let f' = cascadeDeleteRoleLocked R roleID f in f'\<lparr>roles := (roles f')(roleID := None)\<rparr>)"

text \<open>A membership of a team that is deleted; the index by team is dropped after the loop.\<close>

definition drop_membership_of_team :: "int64 \<Rightarrow> fsm \<Rightarrow> fsm" where
  "drop_membership_of_team membershipID f =
     (case tokenMemberships f membershipID of
        None \<Rightarrow> f
      | Some mem \<Rightarrow>
          f\<lparr>tokenMembershipsByPair := ndel (m_TokenID mem, m_TeamID mem) (tokenMembershipsByPair f),
            tokenMembershipsByToken := sdel (m_TokenID mem) membershipID (tokenMembershipsByToken f),
            tokenMemberships := (tokenMemberships f)(membershipID := None)\<rparr>)"

definition cascadeDeleteTeamLocked :: "ranges \<Rightarrow> int64 \<Rightarrow> fsm \<Rightarrow> fsm" where
  "cascadeDeleteTeamLocked R teamID f =
     (let f1 = fold (delete_role_of_team R) (ids_order R (sget (rolesByTeam f) teamID)) f;
          f2 = f1\<lparr>rolesByTeam := sdrop teamID (rolesByTeam f1)\<rparr>;
          f3 = fold drop_membership_of_team (ids_order R (sget (tokenMembershipsByTeam f2) teamID)) f2
      in f3\<lparr>tokenMembershipsByTeam := sdrop teamID (tokenMembershipsByTeam f3)\<rparr>)"

definition delete_team_of_org :: "ranges \<Rightarrow> int64 \<Rightarrow> fsm \<Rightarrow> fsm" where
  "delete_team_of_org R teamID f =
     (let f' = cascadeDeleteTeamLocked R teamID f in f'\<lparr>teams := (teams f')(teamID := None)\<rparr>)"

definition cascadeDeleteOrgLocked :: "ranges \<Rightarrow> int64 \<Rightarrow> fsm \<Rightarrow> fsm" where
  "cascadeDeleteOrgLocked R orgID f =
     (let teamMap = inner (teamsByOrg f) orgID
      in fold (delete_team_of_org R) (List.map_filter teamMap (names_order R (dom teamMap))) f)"

definition applyDeleteOrganization :: "ranges \<Rightarrow> int64 option \<Rightarrow> fsm \<Rightarrow> fsm_result" where
  "applyDeleteOrganization R payload f =
     (case payload of
        None \<Rightarrow> (f, [], Some (UnmarshalPayload ''delete organization''))
      | Some x \<Rightarrow>
          if x = 0 then rejectRBAC ''delete_organization'' IDRequired f
          else case organizations f x of
            None \<Rightarrow> (f, [], None)
          | Some existing \<Rightarrow>
              let f1 = cascadeDeleteOrgLocked R x f;
                  f' = f1\<lparr>organizations := (organizations f1)(x := None),
                          organizationsByName := mdel (o_Name existing) (organizationsByName f1),
                          teamsByOrg := (teamsByOrg f1)(x := None)\<rparr>
              in (f', emit f' (OrganizationDeleted x), None))"

definition applyDeleteTeam :: "ranges \<Rightarrow> int64 option \<Rightarrow> fsm \<Rightarrow> fsm_result" where
  "applyDeleteTeam R payload f =
     (case payload of
        None \<Rightarrow> (f, [], Some (UnmarshalPayload ''delete team''))
      | Some x \<Rightarrow>
          if x = 0 then rejectRBAC ''delete_team'' IDRequired f
          else case teams f x of
            None \<Rightarrow> (f, [], None)
          | Some existing \<Rightarrow>
              let f1 = cascadeDeleteTeamLocked R x f;
                  f' = f1\<lparr>teams := (teams f1)(x := None),
                          teamsByOrg := ndel (tm_OrganizationID existing, tm_Name existing) (teamsByOrg f1)\<rparr>
              in (f', emit f' (TeamDeleted x), None))"

definition applyDeleteRole :: "ranges \<Rightarrow> int64 option \<Rightarrow> fsm \<Rightarrow> fsm_result" where
  "applyDeleteRole R payload f =
     (case payload of
        None \<Rightarrow> (f, [], Some (UnmarshalPayload ''delete role''))
      | Some x \<Rightarrow>
          if x = 0 then rejectRBAC ''delete_role'' IDRequired f
          else case roles f x of
            None \<Rightarrow> (f, [], None)
          | Some existing \<Rightarrow>
              let f1 = cascadeDeleteRoleLocked R x f;
                  f' = f1\<lparr>roles := (roles f1)(x := None),
                          rolesByTeam := sdel (r_TeamID existing) x (rolesByTeam f1)\<rparr>
              in (f', emit f' (RoleDeleted x), None))"

lemmas rbac_handler_defs [fsm_defs] =
  applyCreateOrganization_def applyUpdateOrganization_def applyDeleteOrganization_def
  applyCreateTeam_def applyUpdateTeam_def applyDeleteTeam_def
  applyCreateRole_def applyUpdateRole_def applyDeleteRole_def
  applyCreateMeasurementPermission_def applyDeleteMeasurementPermission_def
  applyAddTokenToTeam_def applyRemoveTokenFromTeam_def

section \<open>What valid entries are\<close>

lemma valid_org_iff:
  "valid_org e \<longleftrightarrow> o_Name e \<noteq> [] \<and> length (o_Name e) \<le> rbacNameMaxLen \<and>
     length (o_Description e) \<le> rbacDescriptionMaxLen"
  by (auto simp: validateOrganizationEntry_def)

lemma valid_team_iff:
  "valid_team e \<longleftrightarrow> 0 < tm_OrganizationID e \<and> tm_Name e \<noteq> [] \<and> length (tm_Name e) \<le> rbacNameMaxLen \<and>
     length (tm_Description e) \<le> rbacDescriptionMaxLen"
  by (auto simp: validateTeamEntry_def)

lemma valid_role_iff:
  "valid_role e \<longleftrightarrow> 0 < r_TeamID e \<and> r_DatabasePattern e \<noteq> [] \<and>
     length (r_DatabasePattern e) \<le> rbacPatternMaxLen \<and> validatePermissionString (r_Permissions e) = None"
  by (auto simp: validateRoleEntry_def)

lemma valid_mperm_iff:
  "valid_mperm e \<longleftrightarrow> 0 < mp_RoleID e \<and> mp_MeasurementPattern e \<noteq> [] \<and>
     length (mp_MeasurementPattern e) \<le> rbacPatternMaxLen \<and> validatePermissionString (mp_Permissions e) = None"
  by (auto simp: validateMeasurementPermissionEntry_def)

lemma valid_member_iff: "valid_member e \<longleftrightarrow> 0 < m_TokenID e \<and> 0 < m_TeamID e"
  by (auto simp: validateTokenMembershipEntry_def)

section \<open>Refused commands\<close>

text \<open>A command that returns an error, or is dropped, changes at most the rejection counter.\<close>

lemma create_org_error:
  "err (applyCreateOrganization p i f) \<noteq> None \<Longrightarrow> st (applyCreateOrganization p i f) \<in> {f, incRejectedRBAC f}"
  by (cases p) (auto simp: applyCreateOrganization_def rejectRBAC_def Let_def split: option.split)

lemma create_team_error:
  "err (applyCreateTeam p i f) \<noteq> None \<Longrightarrow> st (applyCreateTeam p i f) \<in> {f, incRejectedRBAC f}"
  by (cases p) (auto simp: applyCreateTeam_def rejectRBAC_def Let_def split: option.split)

lemma create_role_error:
  "err (applyCreateRole p i f) \<noteq> None \<Longrightarrow> st (applyCreateRole p i f) \<in> {f, incRejectedRBAC f}"
  by (cases p) (auto simp: applyCreateRole_def rejectRBAC_def Let_def split: option.split)

lemma create_mperm_error:
  "err (applyCreateMeasurementPermission p i f) \<noteq> None \<Longrightarrow>
   st (applyCreateMeasurementPermission p i f) \<in> {f, incRejectedRBAC f}"
  by (cases p) (auto simp: applyCreateMeasurementPermission_def rejectRBAC_def Let_def split: option.split)

lemma add_member_error:
  "err (applyAddTokenToTeam p i f) \<noteq> None \<Longrightarrow> st (applyAddTokenToTeam p i f) \<in> {f, incRejectedRBAC f}"
  by (cases p) (auto simp: applyAddTokenToTeam_def rejectRBAC_def Let_def split: option.split)

section \<open>The invariant is kept\<close>

text \<open>Adding one entry to a table.\<close>

lemma auth_ok_put_org:
  "auth_ok f \<Longrightarrow> organizations f (o_ID e) = None \<Longrightarrow> valid_org e \<Longrightarrow>
   mget (organizationsByName f) (o_Name e) = None \<Longrightarrow>
   auth_ok (f\<lparr>organizations := (organizations f)(o_ID e \<mapsto> e),
              organizationsByName := mput (o_Name e) (o_ID e) (organizationsByName f)\<rparr>)"
  by (simp add: auth_ok_def tab_defs refs_ok_def name_index.insert_fresh)

lemma auth_ok_put_team:
  assumes "auth_ok f" and "teams f (tm_ID e) = None" and "valid_team e"
    and "organizations f (tm_OrganizationID e) \<noteq> None"
    and "nget (teamsByOrg f) (tm_OrganizationID e, tm_Name e) = None"
  shows "auth_ok (f\<lparr>teams := (teams f)(tm_ID e \<mapsto> e),
              teamsByOrg := nput (tm_OrganizationID e, tm_Name e) (tm_ID e) (teamsByOrg f)\<rparr>)"
  using assms pair_index.insert_fresh [of team_key "teams f" "teamsByOrg f" "tm_ID e" e]
  by (simp add: auth_ok_def tab_defs refs_ok_def team_key_def [of e])

lemma auth_ok_put_role:
  "auth_ok f \<Longrightarrow> roles f (r_ID e) = None \<Longrightarrow> valid_role e \<Longrightarrow> teams f (r_TeamID e) \<noteq> None \<Longrightarrow>
   auth_ok (f\<lparr>roles := (roles f)(r_ID e \<mapsto> e),
              rolesByTeam := sadd (r_TeamID e) (r_ID e) (rolesByTeam f)\<rparr>)"
  by (simp add: auth_ok_def tab_defs refs_ok_def set_index.insert_fresh)

lemma auth_ok_put_mperm:
  "auth_ok f \<Longrightarrow> measurementPermissions f (mp_ID e) = None \<Longrightarrow> valid_mperm e \<Longrightarrow>
   roles f (mp_RoleID e) \<noteq> None \<Longrightarrow>
   auth_ok (f\<lparr>measurementPermissions := (measurementPermissions f)(mp_ID e \<mapsto> e),
              measurementPermsByRole := sadd (mp_RoleID e) (mp_ID e) (measurementPermsByRole f)\<rparr>)"
  by (simp add: auth_ok_def tab_defs refs_ok_def set_index.insert_fresh)

lemma auth_ok_put_member:
  assumes "auth_ok f" and "tokenMemberships f (m_ID e) = None" and "valid_member e"
    and "tokens f (m_TokenID e) \<noteq> None" and "teams f (m_TeamID e) \<noteq> None"
    and "nget (tokenMembershipsByPair f) (m_TokenID e, m_TeamID e) = None"
  shows "auth_ok (f\<lparr>tokenMemberships := (tokenMemberships f)(m_ID e \<mapsto> e),
      tokenMembershipsByPair := nput (m_TokenID e, m_TeamID e) (m_ID e) (tokenMembershipsByPair f),
      tokenMembershipsByToken := sadd (m_TokenID e) (m_ID e) (tokenMembershipsByToken f),
      tokenMembershipsByTeam := sadd (m_TeamID e) (m_ID e) (tokenMembershipsByTeam f)\<rparr>)"
  using assms pair_index.insert_fresh [of member_key "tokenMemberships f" "tokenMembershipsByPair f" "m_ID e" e]
  by (simp add: auth_ok_def tab_defs refs_ok_def member_key_def [of e] set_index.insert_fresh)

lemma auth_ok_create_org:
  assumes "auth_ok f" and "fresh_id (int64_of_u64 i) f"
  shows "auth_ok (st (applyCreateOrganization p i f))"
proof (cases "err (applyCreateOrganization p i f)")
  case (Some e)
  with create_org_error [of p i f] assms show ?thesis by auto
next
  case None
  then obtain org where p: "p = Some org" "valid_org org" "o_CreatedAtUnixNano org \<noteq> 0"
      "mget (organizationsByName f) (o_Name org) = None"
    by (cases p) (auto simp: applyCreateOrganization_def rejectRBAC_def Let_def split: option.splits if_splits)
  define e where "e = org\<lparr>o_ID := int64_of_u64 i, o_LSN := i,
      o_UpdatedAtUnixNano := (if o_UpdatedAtUnixNano org = 0 then o_CreatedAtUnixNano org
                              else o_UpdatedAtUnixNano org), o_Enabled := True\<rparr>"
  have e: "o_ID e = int64_of_u64 i" "o_Name e = o_Name org" "valid_org e"
    using p(2) by (simp_all add: e_def valid_org_iff)
  have "st (applyCreateOrganization p i f) = f\<lparr>organizations := (organizations f)(o_ID e \<mapsto> e),
      organizationsByName := mput (o_Name e) (o_ID e) (organizationsByName f)\<rparr>"
    by (simp add: applyCreateOrganization_def p e_def [symmetric] e(2) Let_def)
  with auth_ok_put_org [of f e] assms p e show ?thesis by (simp add: fresh_id_def)
qed

lemma auth_ok_create_team:
  assumes "auth_ok f" and "fresh_id (int64_of_u64 i) f"
  shows "auth_ok (st (applyCreateTeam p i f))"
proof (cases "err (applyCreateTeam p i f)")
  case (Some e)
  with create_team_error [of p i f] assms show ?thesis by auto
next
  case None
  then obtain team where p: "p = Some team" "valid_team team" "tm_CreatedAtUnixNano team \<noteq> 0"
      "organizations f (tm_OrganizationID team) \<noteq> None"
      "nget (teamsByOrg f) (tm_OrganizationID team, tm_Name team) = None"
    by (cases p) (auto simp: applyCreateTeam_def rejectRBAC_def Let_def split: option.splits if_splits)
  define e where "e = team\<lparr>tm_ID := int64_of_u64 i, tm_LSN := i,
      tm_UpdatedAtUnixNano := (if tm_UpdatedAtUnixNano team = 0 then tm_CreatedAtUnixNano team
                               else tm_UpdatedAtUnixNano team), tm_Enabled := True\<rparr>"
  have e: "tm_ID e = int64_of_u64 i" "tm_OrganizationID e = tm_OrganizationID team" "tm_Name e = tm_Name team"
      "valid_team e"
    using p(2) by (simp_all add: e_def valid_team_iff)
  have "st (applyCreateTeam p i f) = f\<lparr>teams := (teams f)(tm_ID e \<mapsto> e),
      teamsByOrg := nput (tm_OrganizationID e, tm_Name e) (tm_ID e) (teamsByOrg f)\<rparr>"
    using p(4) by (simp add: applyCreateTeam_def p e_def [symmetric] e(2,3) Let_def)
  with auth_ok_put_team [of f e] assms p e show ?thesis by (simp add: fresh_id_def)
qed

lemma auth_ok_create_role:
  assumes "auth_ok f" and "fresh_id (int64_of_u64 i) f"
  shows "auth_ok (st (applyCreateRole p i f))"
proof (cases "err (applyCreateRole p i f)")
  case (Some e)
  with create_role_error [of p i f] assms show ?thesis by auto
next
  case None
  then obtain role where p: "p = Some role" "valid_role role" "r_CreatedAtUnixNano role \<noteq> 0"
      "teams f (r_TeamID role) \<noteq> None"
    by (cases p) (auto simp: applyCreateRole_def rejectRBAC_def Let_def split: option.splits if_splits)
  let ?e = "role\<lparr>r_ID := int64_of_u64 i, r_LSN := i\<rparr>"
  have "valid_role ?e" using p(2) by (simp add: valid_role_iff)
  with auth_ok_put_role [of f ?e] assms p show ?thesis
    by (auto simp: fresh_id_def applyCreateRole_def Let_def)
qed

lemma auth_ok_create_mperm:
  assumes "auth_ok f" and "fresh_id (int64_of_u64 i) f"
  shows "auth_ok (st (applyCreateMeasurementPermission p i f))"
proof (cases "err (applyCreateMeasurementPermission p i f)")
  case (Some e)
  with create_mperm_error [of p i f] assms show ?thesis by auto
next
  case None
  then obtain mp where p: "p = Some mp" "valid_mperm mp" "mp_CreatedAtUnixNano mp \<noteq> 0"
      "roles f (mp_RoleID mp) \<noteq> None"
    by (cases p) (auto simp: applyCreateMeasurementPermission_def rejectRBAC_def Let_def
        split: option.splits if_splits)
  let ?e = "mp\<lparr>mp_ID := int64_of_u64 i, mp_LSN := i\<rparr>"
  have "valid_mperm ?e" using p(2) by (simp add: valid_mperm_iff)
  with auth_ok_put_mperm [of f ?e] assms p show ?thesis
    by (auto simp: fresh_id_def applyCreateMeasurementPermission_def Let_def)
qed

lemma auth_ok_add_member:
  assumes "auth_ok f" and "fresh_id (int64_of_u64 i) f"
  shows "auth_ok (st (applyAddTokenToTeam p i f))"
proof (cases "err (applyAddTokenToTeam p i f)")
  case (Some e)
  with add_member_error [of p i f] assms show ?thesis by auto
next
  case None
  then obtain m where p: "p = Some m" "valid_member m" "m_CreatedAtUnixNano m \<noteq> 0"
      "tokens f (m_TokenID m) \<noteq> None" "teams f (m_TeamID m) \<noteq> None"
      "nget (tokenMembershipsByPair f) (m_TokenID m, m_TeamID m) = None"
    by (cases p) (auto simp: applyAddTokenToTeam_def rejectRBAC_def Let_def split: option.splits if_splits)
  let ?e = "m\<lparr>m_ID := int64_of_u64 i, m_LSN := i\<rparr>"
  have "valid_member ?e" using p(2) by (simp add: valid_member_iff)
  with auth_ok_put_member [of f ?e] assms p show ?thesis
    by (auto simp: fresh_id_def applyAddTokenToTeam_def Let_def)
qed

lemma auth_ok_delete_mperm:
  assumes "auth_ok f"
  shows "auth_ok (st (applyDeleteMeasurementPermission p f))"
proof -
  have "auth_ok (f\<lparr>measurementPermissions := (measurementPermissions f)(x := None),
      measurementPermsByRole := sdel (mp_RoleID e) x (measurementPermsByRole f)\<rparr>)"
    if "measurementPermissions f x = Some e" for x e
    using assms that by (simp add: auth_ok_def tab_defs refs_ok_def set_index.delete)
  with assms show ?thesis
    by (auto simp: applyDeleteMeasurementPermission_def rejectRBAC_def Let_def split: option.split)
qed

lemma auth_ok_remove_member:
  assumes "auth_ok f"
  shows "auth_ok (st (applyRemoveTokenFromTeam p f))"
proof -
  have "auth_ok (f\<lparr>tokenMembershipsByPair := ndel (a, b) (tokenMembershipsByPair f),
      tokenMembershipsByToken := sdel a x (tokenMembershipsByToken f),
      tokenMembershipsByTeam := sdel b x (tokenMembershipsByTeam f),
      tokenMemberships := (tokenMemberships f)(x := None)\<rparr>)"
    if pair: "nget (tokenMembershipsByPair f) (a, b) = Some x" for a b x
  proof -
    from assms have ok: "uniq_ok nget member_key (tokenMemberships f) (tokenMembershipsByPair f)"
      by (simp add: auth_ok_def tab_defs)
    with pair obtain e where e: "tokenMemberships f x = Some e" "m_TokenID e = a" "m_TeamID e = b"
      unfolding uniq_ok_def member_key_def by (metis prod.inject)
    with assms pair_index.delete [OF ok e(1)] set_index.delete [of m_TokenID _ _ x e]
      set_index.delete [of m_TeamID _ _ x e]
    show ?thesis by (simp add: auth_ok_def tab_defs refs_ok_def member_key_def [of e])
  qed
  with assms show ?thesis
    by (auto simp: applyRemoveTokenFromTeam_def rejectRBAC_def Let_def split: option.split)
qed

section \<open>Updates keep the invariant\<close>

lemma stage_fields_rule:
  assumes "stage_fields rename put differs taken fs b e = Inr (b', e')" and "Q b e"
    and "\<And>e. differs \<Longrightarrow> taken = None \<Longrightarrow> ''name'' \<in> set fs \<Longrightarrow> Q False e \<Longrightarrow> Q True (rename e)"
    and "\<And>field b e. field \<in> set fs \<Longrightarrow> Q b e \<Longrightarrow> Q b (put field e)"
  shows "Q b' e'"
  using assms
proof (induction fs arbitrary: b e)
  case Nil
  then show ?case by simp
next
  case (Cons field fs)
  show ?case
  proof (cases "field = ''name'' \<and> differs \<and> \<not> b")
    case True
    with Cons.prems(1) have "taken = None" "stage_fields rename put differs taken fs True (rename e) = Inr (b', e')"
      by (auto split: option.splits)
    with True Cons.prems Cons.IH show ?thesis by simp
  next
    case False
    then have "stage_fields rename put differs taken (field # fs) b e =
        stage_fields rename put differs taken fs b (if field = ''name'' then e else put field e)"
      by auto
    with Cons.prems Cons.IH show ?thesis by (simp split: if_splits)
  qed
qed

lemma stage_fields_Inl:
  "stage_fields rename put differs taken fs b e = Inl x \<Longrightarrow> taken = Some x \<and> differs \<and> ''name'' \<in> set fs"
  by (induction fs arbitrary: b e) (auto split: if_splits option.splits)

lemma checked_name:
  "first_invalid (check_entity_field q) fs = None \<Longrightarrow> ''name'' \<in> set fs \<Longrightarrow>
   ue_Name q \<noteq> [] \<and> length (ue_Name q) \<le> rbacNameMaxLen"
  unfolding first_invalid_None
  by (drule bspec, assumption) (simp add: check_entity_field_def split: if_splits)

lemma checked_description:
  "first_invalid (check_entity_field q) fs = None \<Longrightarrow> ''description'' \<in> set fs \<Longrightarrow>
   length (ue_Description q) \<le> rbacDescriptionMaxLen"
  unfolding first_invalid_None
  by (drule bspec, assumption) (simp add: check_entity_field_def split: if_splits)

text \<open>Replacing an entry by one with the same or with a free key.\<close>

lemma auth_ok_replace_org:
  assumes "auth_ok f" and "organizations f x = Some e" and "o_ID e' = x" and "valid_org e'"
    and "if renamed then mget (organizationsByName f) (o_Name e') = None else o_Name e' = o_Name e"
  shows "auth_ok (f\<lparr>organizations := (organizations f)(x \<mapsto> e'),
      organizationsByName := (if renamed then mput (o_Name e') x (mdel (o_Name e) (organizationsByName f))
                              else organizationsByName f)\<rparr>)"
  using assms name_index.rename [of o_Name "organizations f" "organizationsByName f" x e e']
    name_index.update_same_key [of o_Name "organizations f" "organizationsByName f" x e e']
  by (cases renamed) (simp_all add: auth_ok_def tab_defs refs_ok_def)

lemma auth_ok_replace_team:
  assumes "auth_ok f" and "teams f x = Some e" and "tm_ID e' = x" and "valid_team e'"
    and "tm_OrganizationID e' = tm_OrganizationID e"
    and "if renamed then nget (teamsByOrg f) (tm_OrganizationID e, tm_Name e') = None else tm_Name e' = tm_Name e"
  shows "auth_ok (f\<lparr>teams := (teams f)(x \<mapsto> e'),
      teamsByOrg := (if renamed then nput (tm_OrganizationID e, tm_Name e') x
                                       (ndel (tm_OrganizationID e, tm_Name e) (teamsByOrg f))
                     else teamsByOrg f)\<rparr>)"
proof -
  have "organizations f (tm_OrganizationID e) \<noteq> None"
    using assms(1,2) refers_parent by (fastforce simp: auth_ok_def refs_ok_def)
  with assms pair_index.rename [of team_key "teams f" "teamsByOrg f" x e e']
    pair_index.update_same_key [of team_key "teams f" "teamsByOrg f" x e e']
  show ?thesis
    by (cases renamed) (simp_all add: auth_ok_def tab_defs refs_ok_def team_key_def [of e] team_key_def [of e'])
qed

lemma auth_ok_replace_role:
  assumes "auth_ok f" and "roles f x = Some e" and "r_ID e' = x" and "valid_role e'" and "r_TeamID e' = r_TeamID e"
  shows "auth_ok (f\<lparr>roles := (roles f)(x \<mapsto> e')\<rparr>)"
proof -
  have "teams f (r_TeamID e) \<noteq> None"
    using assms(1,2) refers_parent by (fastforce simp: auth_ok_def refs_ok_def)
  with assms show ?thesis
    by (simp add: auth_ok_def tab_defs refs_ok_def set_index.update_same_key [of _ _ _ _ e])
qed

lemma auth_ok_update_org:
  assumes "auth_ok f"
  shows "auth_ok (st (applyUpdateOrganization p i f))"
proof (cases "\<exists>q e b u. p = Some q \<and> ue_ID q \<noteq> 0 \<and> organizations f (ue_ID q) = Some e \<and>
    first_invalid (check_entity_field q) (ue_ChangedFields q) = None \<and>
    stage_fields (\<lambda>e. e\<lparr>o_Name := ue_Name q\<rparr>) (put_org_field q) (ue_Name q \<noteq> o_Name e)
        (map_option (\<lambda>_. NameExists (ue_Name q)) (mget (organizationsByName f) (ue_Name q)))
        (ue_ChangedFields q) False e = Inr (b, u)")
  case False
  then have "st (applyUpdateOrganization p i f) \<in> {f, incRejectedRBAC f}"
    by (cases p) (auto simp: applyUpdateOrganization_def rejectRBAC_def split: option.split sum.split)
  with assms show ?thesis by auto
next
  case True
  then obtain q e b u where q: "p = Some q" "ue_ID q \<noteq> 0" "organizations f (ue_ID q) = Some e"
      "first_invalid (check_entity_field q) (ue_ChangedFields q) = None" and
    staged: "stage_fields (\<lambda>e. e\<lparr>o_Name := ue_Name q\<rparr>) (put_org_field q) (ue_Name q \<noteq> o_Name e)
        (map_option (\<lambda>_. NameExists (ue_Name q)) (mget (organizationsByName f) (ue_Name q)))
        (ue_ChangedFields q) False e = Inr (b, u)"
    by blast
  have old: "o_ID e = ue_ID q" "valid_org e"
    using assms q(3) by (auto simp: auth_ok_def orgs_tab_def dest: keyed_key keyed_valid)
  let ?Q = "\<lambda>b u. o_ID u = ue_ID q \<and> valid_org u \<and>
      (if b then o_Name u = ue_Name q \<and> mget (organizationsByName f) (ue_Name q) = None else o_Name u = o_Name e)"
  have u: "?Q b u"
  proof (rule stage_fields_rule [where Q = ?Q, OF staged])
    show "?Q False e" using old by simp
  next
    fix a assume "''name'' \<in> set (ue_ChangedFields q)" "?Q False a"
      "map_option (\<lambda>_. NameExists (ue_Name q)) (mget (organizationsByName f) (ue_Name q)) = None"
    with checked_name [OF q(4)] show "?Q True (a\<lparr>o_Name := ue_Name q\<rparr>)"
      by (simp add: valid_org_iff)
  next
    fix field c a assume "field \<in> set (ue_ChangedFields q)" "?Q c a"
    with checked_description [OF q(4)] show "?Q c (put_org_field q field a)"
      by (cases "field = ''description''"; cases "field = ''enabled''")
         (simp_all add: put_org_field_def valid_org_iff)
  qed
  define e' where "e' = u\<lparr>o_UpdatedAtUnixNano := (if ue_UpdatedAtUnixNano q \<noteq> 0 then ue_UpdatedAtUnixNano q
      else o_UpdatedAtUnixNano u), o_LSN := i\<rparr>"
  have "st (applyUpdateOrganization p i f) = f\<lparr>organizations := (organizations f)(ue_ID q \<mapsto> e'),
      organizationsByName := (if b then mput (o_Name e') (ue_ID q) (mdel (o_Name e) (organizationsByName f))
                              else organizationsByName f)\<rparr>"
    unfolding applyUpdateOrganization_def q(1) option.case if_not_P [OF q(2)] q(3,4) staged sum.case
      prod.case Let_def e'_def by simp
  moreover have "o_ID e' = ue_ID q" "valid_org e'" "o_Name e' = o_Name u"
    using u by (simp_all add: e'_def valid_org_iff)
  ultimately show ?thesis
    using auth_ok_replace_org [OF assms q(3), of e' b] u by (simp split: if_splits)
qed

lemma auth_ok_update_team:
  assumes "auth_ok f"
  shows "auth_ok (st (applyUpdateTeam p i f))"
proof (cases "\<exists>q e b u. p = Some q \<and> ue_ID q \<noteq> 0 \<and> teams f (ue_ID q) = Some e \<and>
    first_invalid (check_entity_field q) (ue_ChangedFields q) = None \<and>
    stage_fields (\<lambda>e. e\<lparr>tm_Name := ue_Name q\<rparr>) (put_team_field q) (ue_Name q \<noteq> tm_Name e)
        (map_option (\<lambda>_. NameExists (ue_Name q)) (nget (teamsByOrg f) (tm_OrganizationID e, ue_Name q)))
        (ue_ChangedFields q) False e = Inr (b, u)")
  case False
  then have "st (applyUpdateTeam p i f) \<in> {f, incRejectedRBAC f}"
    by (cases p) (auto simp: applyUpdateTeam_def rejectRBAC_def split: option.split sum.split)
  with assms show ?thesis by auto
next
  case True
  then obtain q e b u where q: "p = Some q" "ue_ID q \<noteq> 0" "teams f (ue_ID q) = Some e"
      "first_invalid (check_entity_field q) (ue_ChangedFields q) = None" and
    staged: "stage_fields (\<lambda>e. e\<lparr>tm_Name := ue_Name q\<rparr>) (put_team_field q) (ue_Name q \<noteq> tm_Name e)
        (map_option (\<lambda>_. NameExists (ue_Name q)) (nget (teamsByOrg f) (tm_OrganizationID e, ue_Name q)))
        (ue_ChangedFields q) False e = Inr (b, u)"
    by blast
  have old: "tm_ID e = ue_ID q" "valid_team e"
    using assms q(3) by (auto simp: auth_ok_def teams_tab_def dest: keyed_key keyed_valid)
  let ?Q = "\<lambda>b u. tm_ID u = ue_ID q \<and> valid_team u \<and> tm_OrganizationID u = tm_OrganizationID e \<and>
      (if b then tm_Name u = ue_Name q \<and> nget (teamsByOrg f) (tm_OrganizationID e, ue_Name q) = None
       else tm_Name u = tm_Name e)"
  have u: "?Q b u"
  proof (rule stage_fields_rule [where Q = ?Q, OF staged])
    show "?Q False e" using old by simp
  next
    fix a assume "''name'' \<in> set (ue_ChangedFields q)" "?Q False a"
      "map_option (\<lambda>_. NameExists (ue_Name q)) (nget (teamsByOrg f) (tm_OrganizationID e, ue_Name q)) = None"
    with checked_name [OF q(4)] show "?Q True (a\<lparr>tm_Name := ue_Name q\<rparr>)"
      by (simp add: valid_team_iff)
  next
    fix field c a assume "field \<in> set (ue_ChangedFields q)" "?Q c a"
    with checked_description [OF q(4)] show "?Q c (put_team_field q field a)"
      by (cases "field = ''description''"; cases "field = ''enabled''")
         (simp_all add: put_team_field_def valid_team_iff)
  qed
  define e' where "e' = u\<lparr>tm_UpdatedAtUnixNano := (if ue_UpdatedAtUnixNano q \<noteq> 0 then ue_UpdatedAtUnixNano q
      else tm_UpdatedAtUnixNano u), tm_LSN := i\<rparr>"
  have "st (applyUpdateTeam p i f) = f\<lparr>teams := (teams f)(ue_ID q \<mapsto> e'),
      teamsByOrg := (if b then nput (tm_OrganizationID e, tm_Name e') (ue_ID q)
                                 (ndel (tm_OrganizationID e, tm_Name e) (teamsByOrg f))
                     else teamsByOrg f)\<rparr>"
    unfolding applyUpdateTeam_def q(1) option.case if_not_P [OF q(2)] q(3,4) staged sum.case
      prod.case Let_def e'_def by simp
  moreover have "tm_ID e' = ue_ID q" "valid_team e'" "tm_Name e' = tm_Name u"
      "tm_OrganizationID e' = tm_OrganizationID e"
    using u by (simp_all add: e'_def valid_team_iff)
  ultimately show ?thesis
    using auth_ok_replace_team [OF assms q(3), of e' b] u by (simp split: if_splits)
qed

lemma auth_ok_update_role:
  assumes "auth_ok f"
  shows "auth_ok (st (applyUpdateRole p i f))"
proof (cases "\<exists>q e. p = Some q \<and> ur_ID q \<noteq> 0 \<and> roles f (ur_ID q) = Some e \<and>
    first_invalid (check_role_field q) (ur_ChangedFields q) = None")
  case False
  then have "st (applyUpdateRole p i f) \<in> {f, incRejectedRBAC f}"
    by (cases p) (auto simp: applyUpdateRole_def rejectRBAC_def Let_def split: option.split)
  with assms show ?thesis by auto
next
  case True
  then obtain q e where q: "p = Some q" "ur_ID q \<noteq> 0" "roles f (ur_ID q) = Some e"
      "first_invalid (check_role_field q) (ur_ChangedFields q) = None"
    by blast
  let ?P = "\<lambda>u. r_ID u = ur_ID q \<and> r_TeamID u = r_TeamID e \<and> valid_role u"
  define u where "u = fold (put_role_field q) (ur_ChangedFields q) e"
  have "?P u"
    unfolding u_def
  proof (rule fold_invariant)
    show "?P e"
      using assms q(3) by (auto simp: auth_ok_def roles_tab_def dest: keyed_key keyed_valid)
  next
    fix field a assume "field \<in> set (ur_ChangedFields q)" "?P a"
    with q(4) have "check_role_field q field = None" by (simp add: first_invalid_None)
    with \<open>?P a\<close> show "?P (put_role_field q field a)"
      by (auto simp: put_role_field_def check_role_field_def valid_role_iff split: if_splits)
  qed
  then have e': "r_ID (u\<lparr>r_LSN := i\<rparr>) = ur_ID q" "valid_role (u\<lparr>r_LSN := i\<rparr>)"
      "r_TeamID (u\<lparr>r_LSN := i\<rparr>) = r_TeamID e"
    by (simp_all add: valid_role_iff)
  from auth_ok_replace_role [OF assms q(3) e'] show ?thesis
    unfolding applyUpdateRole_def q(1) option.case if_not_P [OF q(2)] q(3,4) Let_def u_def [symmetric]
    by simp
qed

end
