(* ===== verification/FSM_Cascade.thy ===== *)
theory FSM_Cascade
  imports FSM_RBAC
begin

text \<open>
  The deletes that cascade: a role takes its measurement permissions with it, a team its roles
  (with their permissions) and its memberships, an organization its teams.  Each cascade is
  brought into closed form: the tables that are left are filters of the old ones, and the
  indices are right again.  The order in which the code ranges over its maps does not show.
\<close>

section \<open>Deleting a role\<close>

lemma delete_then_restrict: "(m(x := None)) |` (- A) = m |` (- insert x A)"
  by (auto simp: restrict_map_def)

lemma delete_mperms:
  "fold (\<lambda>x g. g\<lparr>measurementPermissions := (measurementPermissions g)(x := None)\<rparr>) ids f =
     f\<lparr>measurementPermissions := measurementPermissions f |` (- set ids)\<rparr>"
proof (induction ids arbitrary: f)
  case Nil
  then show ?case by (simp add: restrict_map_def)
next
  case (Cons x ids)
  show ?case
    unfolding fold.simps comp_def Cons.IH by (rule fsm.equality) (simp_all add: delete_then_restrict del: restrict_fun_upd)
qed

lemma cascade_role:
  assumes "ranges_ok R" and "mperms_tab f"
  shows "cascadeDeleteRoleLocked R x f =
           f\<lparr>measurementPermissions := keep (\<lambda>e. mp_RoleID e \<noteq> x) (measurementPermissions f),
             measurementPermsByRole := sdrop x (measurementPermsByRole f)\<rparr>"
    and "mperms_tab (cascadeDeleteRoleLocked R x f)"
proof -
  from assms have ids: "set (ids_order R (sget (measurementPermsByRole f) x)) = sget (measurementPermsByRole f) x"
    by (simp add: mperms_tab_def)
  show form: "cascadeDeleteRoleLocked R x f =
      f\<lparr>measurementPermissions := keep (\<lambda>e. mp_RoleID e \<noteq> x) (measurementPermissions f),
        measurementPermsByRole := sdrop x (measurementPermsByRole f)\<rparr>"
    using assms(2) set_index.drop_key_keep [of mp_RoleID "measurementPermissions f" "measurementPermsByRole f" x]
    by (simp add: cascadeDeleteRoleLocked_def Let_def delete_mperms ids mperms_tab_def)
  show "mperms_tab (cascadeDeleteRoleLocked R x f)"
    unfolding form using assms(2)
      set_index.drop_key [of mp_RoleID "measurementPermissions f" "measurementPermsByRole f" x]
      set_index.drop_key_keep [of mp_RoleID "measurementPermissions f" "measurementPermsByRole f" x, symmetric]
    by (simp add: mperms_tab_def)
qed

lemma keep_all: "(\<And>x e. m x = Some e \<Longrightarrow> P e) \<Longrightarrow> keep P m = m"
  by (intro map_eqI_Some) auto

lemma delete_roles_of_team:
  assumes "ranges_ok R" and "mperms_tab f"
  shows "\<exists>ix. fold (delete_role_of_team R) ids f =
             f\<lparr>roles := roles f |` (- set ids),
               measurementPermissions := keep (\<lambda>e. mp_RoleID e \<notin> set ids) (measurementPermissions f),
               measurementPermsByRole := ix\<rparr> \<and>
           mperms_tab (fold (delete_role_of_team R) ids f)"
  using assms(2)
proof (induction ids arbitrary: f)
  case Nil
  have "roles f |` UNIV = roles f" "keep (\<lambda>e. True) (measurementPermissions f) = measurementPermissions f"
    by (simp_all add: restrict_map_def keep_all)
  with Nil show ?case by (intro exI [of _ "measurementPermsByRole f"]) simp
next
  case (Cons x ids)
  let ?g = "delete_role_of_team R x f"
  have g: "?g = f\<lparr>roles := (roles f)(x := None),
      measurementPermissions := keep (\<lambda>e. mp_RoleID e \<noteq> x) (measurementPermissions f),
      measurementPermsByRole := sdrop x (measurementPermsByRole f)\<rparr>"
    by (simp add: delete_role_of_team_def Let_def cascade_role [OF assms(1) Cons.prems])
  have "mperms_tab ?g"
    using cascade_role(2) [OF assms(1) Cons.prems, of x]
    by (simp add: delete_role_of_team_def Let_def mperms_tab_def)
  from Cons.IH [OF this] obtain ix where
    IH: "fold (delete_role_of_team R) ids ?g =
        ?g\<lparr>roles := roles ?g |` (- set ids),
          measurementPermissions := keep (\<lambda>e. mp_RoleID e \<notin> set ids) (measurementPermissions ?g),
          measurementPermsByRole := ix\<rparr>" "mperms_tab (fold (delete_role_of_team R) ids ?g)"
    by blast
  have "(roles f)(x := None) |` (- set ids) = roles f |` (- set (x # ids))"
    "keep (\<lambda>e. mp_RoleID e \<notin> set ids) (keep (\<lambda>e. mp_RoleID e \<noteq> x) (measurementPermissions f)) =
     keep (\<lambda>e. mp_RoleID e \<notin> set (x # ids)) (measurementPermissions f)"
    by (auto simp: restrict_map_def intro: map_eqI_Some)
  with IH show ?case by (intro exI [of _ ix]) (simp add: g)
qed

section \<open>Deleting a team\<close>

lemma drop_membership_of_team_step:
  assumes "members_by_pair f" and "members_by_token f"
  shows "\<exists>pr tk. drop_membership_of_team x f =
             with_members f ((tokenMemberships f)(x := None)) pr tk (tokenMembershipsByTeam f) \<and>
           members_by_pair (drop_membership_of_team x f) \<and>
           members_by_token (drop_membership_of_team x f)"
proof (cases "tokenMemberships f x")
  case None
  then have same: "(tokenMemberships f)(x := None) = tokenMemberships f" by auto
  with None assms show ?thesis
    by (intro exI [of _ "tokenMembershipsByPair f"] exI [of _ "tokenMembershipsByToken f"])
       (simp add: drop_membership_of_team_def)
next
  case (Some mem)
  with assms pair_index.delete [of member_key _ _ x mem] set_index.delete [of m_TokenID _ _ x mem]
  show ?thesis
    by (intro exI [of _ "ndel (member_key mem) (tokenMembershipsByPair f)"]
          exI [of _ "sdel (m_TokenID mem) x (tokenMembershipsByToken f)"])
       (simp add: drop_membership_of_team_def members_by_pair_def members_by_token_def
          member_key_def [of mem])
qed

lemma drop_memberships_of_team:
  assumes "members_by_pair f" and "members_by_token f"
  shows "\<exists>pr tk. fold drop_membership_of_team ids f =
             with_members f (tokenMemberships f |` (- set ids)) pr tk (tokenMembershipsByTeam f) \<and>
           members_by_pair (fold drop_membership_of_team ids f) \<and>
           members_by_token (fold drop_membership_of_team ids f)"
  using assms
proof (induction ids arbitrary: f)
  case Nil
  have "tokenMemberships f |` UNIV = tokenMemberships f" by (simp add: restrict_map_def)
  with Nil show ?case
    by (intro exI [of _ "tokenMembershipsByPair f"] exI [of _ "tokenMembershipsByToken f"]) simp
next
  case (Cons x ids)
  let ?g = "drop_membership_of_team x f"
  from drop_membership_of_team_step [OF Cons.prems, of x] obtain pr tk where
    g: "?g = with_members f ((tokenMemberships f)(x := None)) pr tk (tokenMembershipsByTeam f)"
    and ok: "members_by_pair ?g" "members_by_token ?g" by blast
  have "(tokenMemberships f)(x := None) |` (- set ids) = tokenMemberships f |` (- set (x # ids))"
    by (auto simp: restrict_map_def)
  moreover from g have "tokenMemberships ?g = (tokenMemberships f)(x := None)"
    "tokenMembershipsByTeam ?g = tokenMembershipsByTeam f"
    "with_members ?g ms pr' tk' tm = with_members f ms pr' tk' tm" for ms pr' tk' tm
    by simp_all
  ultimately show ?case
    using Cons.IH [OF ok] by (simp only: fold.simps comp_def)
qed

text \<open>The roles of a set of teams, and the state without all that hangs on these teams.\<close>

definition roles_in :: "fsm \<Rightarrow> int64 set \<Rightarrow> int64 set" where
  "roles_in f T = {x. \<exists>e. roles f x = Some e \<and> r_TeamID e \<in> T}"

abbreviation below_teams_gone ::
  "int64 set \<Rightarrow> fsm \<Rightarrow> (int64 \<rightharpoonup> int64 set) \<Rightarrow> (int64 \<rightharpoonup> int64 set) \<Rightarrow> (int64 \<rightharpoonup> (int64 \<rightharpoonup> int64)) \<Rightarrow>
   (int64 \<rightharpoonup> int64 set) \<Rightarrow> (int64 \<rightharpoonup> int64 set) \<Rightarrow> fsm" where
  "below_teams_gone T f rt ix pr tk tm \<equiv>
     with_members
       (f\<lparr>roles := keep (\<lambda>e. r_TeamID e \<notin> T) (roles f), rolesByTeam := rt,
          measurementPermissions := keep (\<lambda>e. mp_RoleID e \<notin> roles_in f T) (measurementPermissions f),
          measurementPermsByRole := ix\<rparr>)
       (keep (\<lambda>m. m_TeamID m \<notin> T) (tokenMemberships f)) pr tk tm"

lemma cascade_team:
  assumes "ranges_ok R" and "roles_tab f" and "mperms_tab f" and "members_tab f"
  shows "\<exists>rt ix pr tk tm. cascadeDeleteTeamLocked R x f = below_teams_gone {x} f rt ix pr tk tm \<and>
           roles_tab (cascadeDeleteTeamLocked R x f) \<and> mperms_tab (cascadeDeleteTeamLocked R x f) \<and>
           members_tab (cascadeDeleteTeamLocked R x f)"
proof -
  let ?rs = "ids_order R (sget (rolesByTeam f) x)"
  from assms(1,2) have rs: "set ?rs = sget (rolesByTeam f) x" by (simp add: roles_tab_def)
  have in_x: "sget (rolesByTeam f) x = roles_in f {x}"
    using assms(2) set_index.lookup_iff [of r_TeamID "roles f" "rolesByTeam f" _ x]
    by (auto simp: roles_tab_def roles_in_def)
  then have rs_in: "set ?rs = roles_in f {x}" using rs by simp
  from delete_roles_of_team [OF assms(1,3), of ?rs] obtain ix where
    f1: "fold (delete_role_of_team R) ?rs f =
        f\<lparr>roles := roles f |` (- roles_in f {x}),
          measurementPermissions := keep (\<lambda>e. mp_RoleID e \<notin> roles_in f {x}) (measurementPermissions f),
          measurementPermsByRole := ix\<rparr>" "mperms_tab (fold (delete_role_of_team R) ?rs f)"
    unfolding rs_in by blast
  define f1 where "f1 = fold (delete_role_of_team R) ?rs f"
  define f2 where "f2 = f1\<lparr>rolesByTeam := sdrop x (rolesByTeam f1)\<rparr>"
  have f2: "f2 = f\<lparr>roles := roles f |` (- roles_in f {x}),
      measurementPermissions := keep (\<lambda>e. mp_RoleID e \<notin> roles_in f {x}) (measurementPermissions f),
      measurementPermsByRole := ix, rolesByTeam := sdrop x (rolesByTeam f)\<rparr>"
    by (simp add: f2_def f1_def f1(1))
  have roles2: "roles f |` (- roles_in f {x}) = keep (\<lambda>e. r_TeamID e \<notin> {x}) (roles f)"
    using assms(2) set_index.drop_key_keep [of r_TeamID "roles f" "rolesByTeam f" x]
    by (simp add: roles_tab_def in_x)
  have ok2: "roles_tab f2" "mperms_tab f2" "members_tab f2"
    using f1 assms set_index.drop_key [of r_TeamID "roles f" "rolesByTeam f" x]
    by (simp_all add: f2 roles_tab_def mperms_tab_def members_defs in_x [symmetric])
  let ?ms = "ids_order R (sget (tokenMembershipsByTeam f) x)"
  from assms(1,4) have ms: "set ?ms = sget (tokenMembershipsByTeam f) x"
    by (simp add: members_defs)
  from ok2(3) have "members_by_pair f2" "members_by_token f2" by (simp_all add: members_tab_def)
  from drop_memberships_of_team [OF this, of ?ms] obtain pr tk where
    f3: "fold drop_membership_of_team ?ms f2 =
        with_members f2 (tokenMemberships f2 |` (- sget (tokenMembershipsByTeam f) x)) pr tk (tokenMembershipsByTeam f2)"
      "members_by_pair (fold drop_membership_of_team ?ms f2)"
      "members_by_token (fold drop_membership_of_team ?ms f2)"
    unfolding ms by blast
  have mem: "tokenMemberships f |` (- sget (tokenMembershipsByTeam f) x) =
        keep (\<lambda>m. m_TeamID m \<notin> {x}) (tokenMemberships f)"
      "fk_ok sget m_TeamID (tokenMemberships f |` (- sget (tokenMembershipsByTeam f) x))
         (sdrop x (tokenMembershipsByTeam f))"
    using assms(4) set_index.drop_key_keep set_index.drop_key by (auto simp: members_defs)
  have same: "tokenMembershipsByTeam f2 = tokenMembershipsByTeam f" by (simp add: f2)
  then have "tokenMembershipsByTeam (fold drop_membership_of_team ?ms f2) = tokenMembershipsByTeam f"
    by (simp add: f3(1))
  with same have form: "cascadeDeleteTeamLocked R x f =
      (fold drop_membership_of_team ?ms f2)\<lparr>tokenMembershipsByTeam := sdrop x (tokenMembershipsByTeam f)\<rparr>"
    unfolding cascadeDeleteTeamLocked_def Let_def f1_def [symmetric] f2_def [symmetric] by simp
  have result: "cascadeDeleteTeamLocked R x f = below_teams_gone {x} f (sdrop x (rolesByTeam f)) ix pr tk
      (sdrop x (tokenMembershipsByTeam f))"
    unfolding form f3(1) by (rule fsm.equality) (simp_all add: f2 roles2 [simplified] mem(1) [simplified])
  have "roles_tab (cascadeDeleteTeamLocked R x f)" "mperms_tab (cascadeDeleteTeamLocked R x f)"
    unfolding form f3(1) using ok2 by (simp_all add: roles_tab_def mperms_tab_def)
  moreover have "members_tab (cascadeDeleteTeamLocked R x f)"
    unfolding form using f3 mem(2) ok2(3) assms(4) by (simp add: f2 members_defs)
  ultimately show ?thesis
    using result by blast
qed

section \<open>Deleting the teams of an organization\<close>

lemma roles_in_empty [simp]: "roles_in f {} = {}"
  by (simp add: roles_in_def)

lemma delete_teams_of_org:
  assumes "ranges_ok R" and "roles_tab f" and "mperms_tab f" and "members_tab f"
  shows "\<exists>rt ix pr tk tm. fold (delete_team_of_org R) ids f =
             (below_teams_gone (set ids) f rt ix pr tk tm)\<lparr>teams := teams f |` (- set ids)\<rparr> \<and>
           roles_tab (fold (delete_team_of_org R) ids f) \<and> mperms_tab (fold (delete_team_of_org R) ids f) \<and>
           members_tab (fold (delete_team_of_org R) ids f)"
  using assms(2-)
proof (induction ids arbitrary: f)
  case Nil
  have "f = (below_teams_gone (set []) f (rolesByTeam f) (measurementPermsByRole f) (tokenMembershipsByPair f)
      (tokenMembershipsByToken f) (tokenMembershipsByTeam f))\<lparr>teams := teams f |` (- set [])\<rparr>"
    by (rule fsm.equality) (simp_all add: keep_all restrict_map_def)
  with Nil show ?case
    by (intro exI [of _ "rolesByTeam f"] exI [of _ "measurementPermsByRole f"] exI [of _ "tokenMembershipsByPair f"]
          exI [of _ "tokenMembershipsByToken f"] exI [of _ "tokenMembershipsByTeam f"]) (simp only: fold.simps id_apply)
next
  case (Cons x ids)
  let ?g = "delete_team_of_org R x f"
  from cascade_team [OF assms(1) Cons.prems, of x] obtain rt ix pr tk tm where
    c: "cascadeDeleteTeamLocked R x f = below_teams_gone {x} f rt ix pr tk tm"
      "roles_tab (cascadeDeleteTeamLocked R x f)" "mperms_tab (cascadeDeleteTeamLocked R x f)"
      "members_tab (cascadeDeleteTeamLocked R x f)"
    by blast
  have g: "?g = (below_teams_gone {x} f rt ix pr tk tm)\<lparr>teams := (teams f)(x := None)\<rparr>"
    by (simp add: delete_team_of_org_def Let_def c(1))
  have "roles_tab ?g" "mperms_tab ?g" "members_tab ?g"
    using c(2-) by (simp_all add: delete_team_of_org_def Let_def roles_tab_def mperms_tab_def members_defs)
  from Cons.IH [OF this] obtain rt' ix' pr' tk' tm' where
    IH: "fold (delete_team_of_org R) ids ?g =
        (below_teams_gone (set ids) ?g rt' ix' pr' tk' tm')\<lparr>teams := teams ?g |` (- set ids)\<rparr>"
      "roles_tab (fold (delete_team_of_org R) ids ?g)" "mperms_tab (fold (delete_team_of_org R) ids ?g)"
      "members_tab (fold (delete_team_of_org R) ids ?g)"
    by blast
  have "keep (\<lambda>e. r_TeamID e \<notin> set ids) (keep (\<lambda>e. r_TeamID e \<notin> {x}) (roles f)) =
      keep (\<lambda>e. r_TeamID e \<notin> set (x # ids)) (roles f)"
    "keep (\<lambda>m. m_TeamID m \<notin> set ids) (keep (\<lambda>m. m_TeamID m \<notin> {x}) (tokenMemberships f)) =
      keep (\<lambda>m. m_TeamID m \<notin> set (x # ids)) (tokenMemberships f)"
    "keep (\<lambda>e. mp_RoleID e \<notin> roles_in ?g (set ids))
       (keep (\<lambda>e. mp_RoleID e \<notin> roles_in f {x}) (measurementPermissions f)) =
     keep (\<lambda>e. mp_RoleID e \<notin> roles_in f (set (x # ids))) (measurementPermissions f)"
    by (auto simp: roles_in_def g intro!: map_eqI_Some)
  then have eq: "fold (delete_team_of_org R) (x # ids) f =
      (below_teams_gone (set (x # ids)) f rt' ix' pr' tk' tm')\<lparr>teams := teams f |` (- set (x # ids))\<rparr>"
    unfolding fold.simps comp_def IH(1)
    by (intro fsm.equality) (simp_all add: g delete_then_restrict del: restrict_fun_upd)
  have "roles_tab (fold (delete_team_of_org R) (x # ids) f)" "mperms_tab (fold (delete_team_of_org R) (x # ids) f)"
      "members_tab (fold (delete_team_of_org R) (x # ids) f)"
    using IH(2-) by simp_all
  with eq show ?case by blast
qed

text \<open>Without the teams themselves no reference dangles.\<close>

lemma refers_keep: "refers fk m parents \<Longrightarrow> refers fk (keep P m) parents"
  unfolding refers_def keep_Some_iff by blast

lemma refers_parent_keep:
  "refers fk m parents \<Longrightarrow> (\<And>x e p. m x = Some e \<Longrightarrow> parents (fk e) = Some p \<Longrightarrow> P p) \<Longrightarrow>
   refers fk m (keep P parents)"
  unfolding refers_def by (metis keep_Some_iff not_None_eq)

lemma refers_parent_restrict:
  "refers fk m parents \<Longrightarrow> (\<And>x e. m x = Some e \<Longrightarrow> fk e \<in> A) \<Longrightarrow> refers fk m (parents |` A)"
  unfolding refers_def by (metis not_None_eq restrict_in)

lemma refs_below_teams_gone:
  assumes "refs_ok f"
  shows "refs_ok ((below_teams_gone T f rt ix pr tk tm)\<lparr>teams := teams f |` (- T)\<rparr>)"
proof -
  from assms have refs: "refers tm_OrganizationID (teams f) (organizations f)" "refers r_TeamID (roles f) (teams f)"
    "refers mp_RoleID (measurementPermissions f) (roles f)" "refers m_TokenID (tokenMemberships f) (tokens f)"
    "refers m_TeamID (tokenMemberships f) (teams f)"
    by (simp_all add: refs_ok_def)
  have "refers r_TeamID (keep (\<lambda>e. r_TeamID e \<notin> T) (roles f)) (teams f |` (- T))"
    by (rule refers_parent_restrict [OF refers_keep [OF refs(2)]]) simp
  moreover have "refers mp_RoleID (keep (\<lambda>e. mp_RoleID e \<notin> roles_in f T) (measurementPermissions f))
      (keep (\<lambda>e. r_TeamID e \<notin> T) (roles f))"
    by (rule refers_parent_keep [OF refers_keep [OF refs(3)]]) (auto simp: roles_in_def)
  moreover have "refers m_TeamID (keep (\<lambda>m. m_TeamID m \<notin> T) (tokenMemberships f)) (teams f |` (- T))"
    by (rule refers_parent_restrict [OF refers_keep [OF refs(5)]]) simp
  ultimately show ?thesis
    using refs by (simp add: refs_ok_def refers_keep)
qed

section \<open>The delete handlers\<close>

text \<open>The teams of an organization, through the index and in the table.\<close>

definition teams_in :: "fsm \<Rightarrow> int64 \<Rightarrow> int64 set" where
  "teams_in f x = {t. \<exists>e. teams f t = Some e \<and> tm_OrganizationID e = x}"

lemma set_map_filter: "set (List.map_filter f xs) = {y. \<exists>x\<in>set xs. f x = Some y}"
  by (induction xs) (auto simp: List.map_filter_simps split: option.splits)

lemma teams_of_org_listed:
  assumes "ranges_ok R" and "teams_tab f"
  shows "set (List.map_filter (inner (teamsByOrg f) x) (names_order R (dom (inner (teamsByOrg f) x)))) = teams_in f x"
proof -
  have "set (names_order R (dom (inner (teamsByOrg f) x))) = dom (inner (teamsByOrg f) x)"
    using assms by (simp add: teams_tab_def)
  moreover have "inner (teamsByOrg f) x n = Some t \<longleftrightarrow>
      (\<exists>e. teams f t = Some e \<and> tm_OrganizationID e = x \<and> tm_Name e = n)" for n t
    using assms(2) by (auto simp: teams_tab_def uniq_ok_def team_key_def nget_inner [symmetric])
  ultimately show ?thesis
    by (auto simp: set_map_filter teams_in_def) blast
qed

lemma auth_ok_tabs:
  "auth_ok f \<Longrightarrow> roles_tab f" "auth_ok f \<Longrightarrow> mperms_tab f" "auth_ok f \<Longrightarrow> members_tab f" "auth_ok f \<Longrightarrow> teams_tab f"
  "auth_ok f \<Longrightarrow> orgs_tab f" "auth_ok f \<Longrightarrow> tokens_tab f" "auth_ok f \<Longrightarrow> refs_ok f"
  by (simp_all add: auth_ok_def)

lemma delete_organization_state:
  assumes "ranges_ok R" and "auth_ok f" and "x \<noteq> 0" and e: "organizations f x = Some e"
  shows "\<exists>rt ix pr tk tm. st (applyDeleteOrganization R (Some x) f) =
      (below_teams_gone (teams_in f x) f rt ix pr tk tm)
        \<lparr>teams := keep (\<lambda>t. tm_OrganizationID t \<noteq> x) (teams f), teamsByOrg := (teamsByOrg f)(x := None),
         organizations := (organizations f)(x := None),
         organizationsByName := mdel (o_Name e) (organizationsByName f)\<rparr> \<and>
      auth_ok (st (applyDeleteOrganization R (Some x) f))"
proof -
  let ?ids = "List.map_filter (inner (teamsByOrg f) x) (names_order R (dom (inner (teamsByOrg f) x)))"
  note tabs = auth_ok_tabs [OF assms(2)]
  have ids: "set ?ids = teams_in f x" using teams_of_org_listed [OF assms(1) tabs(4)] .
  from delete_teams_of_org [OF assms(1) tabs(1-3), of ?ids] obtain rt ix pr tk tm where
    g: "fold (delete_team_of_org R) ?ids f =
        (below_teams_gone (teams_in f x) f rt ix pr tk tm)\<lparr>teams := teams f |` (- teams_in f x)\<rparr>"
    and ok: "roles_tab (fold (delete_team_of_org R) ?ids f)" "mperms_tab (fold (delete_team_of_org R) ?ids f)"
      "members_tab (fold (delete_team_of_org R) ?ids f)"
    unfolding ids by blast
  have left: "teams f |` (- teams_in f x) = keep (\<lambda>t. tm_OrganizationID t \<noteq> x) (teams f)"
    by (rule map_eqI_Some) (auto simp: restrict_Some_iff teams_in_def)
  let ?g = "(below_teams_gone (teams_in f x) f rt ix pr tk tm)
        \<lparr>teams := keep (\<lambda>t. tm_OrganizationID t \<noteq> x) (teams f), teamsByOrg := (teamsByOrg f)(x := None),
         organizations := (organizations f)(x := None),
         organizationsByName := mdel (o_Name e) (organizationsByName f)\<rparr>"
  have st: "st (applyDeleteOrganization R (Some x) f) = ?g"
    using assms(3) e by (simp add: applyDeleteOrganization_def cascadeDeleteOrgLocked_def Let_def g left)
  have "refs_ok ?g"
    using refs_below_teams_gone [OF tabs(7), of "teams_in f x" rt ix pr tk tm]
    by (auto simp: refs_ok_def left refers_def)
  moreover have "teams_tab ?g"
    using tabs(4) uniq_drop_outer [of team_key "teams f" "teamsByOrg f" x] keyed_restrict [of tm_ID valid_team "teams f"]
    by (simp add: teams_tab_def team_key_def left [symmetric])
  moreover have "orgs_tab ?g" "tokens_tab ?g"
    using tabs(5,6) e name_index.delete [of o_Name "organizations f" _ x e]
    by (simp_all add: orgs_tab_def tokens_tab_def)
  ultimately have ok_g: "auth_ok ?g"
    using ok unfolding g by (simp add: auth_ok_def roles_tab_def mperms_tab_def members_defs)
  show ?thesis
    unfolding st by (intro exI [of _ rt] exI [of _ ix] exI [of _ pr] exI [of _ tk] exI [of _ tm] conjI)
      (rule refl, rule ok_g)
qed

lemma delete_team_state:
  assumes "ranges_ok R" and "auth_ok f" and "x \<noteq> 0" and e: "teams f x = Some e"
  shows "\<exists>rt ix pr tk tm. st (applyDeleteTeam R (Some x) f) =
      (below_teams_gone {x} f rt ix pr tk tm)
        \<lparr>teams := (teams f)(x := None), teamsByOrg := ndel (tm_OrganizationID e, tm_Name e) (teamsByOrg f)\<rparr> \<and>
      auth_ok (st (applyDeleteTeam R (Some x) f))"
proof -
  note tabs = auth_ok_tabs [OF assms(2)]
  from cascade_team [OF assms(1) tabs(1-3), of x] obtain rt ix pr tk tm where
    g: "cascadeDeleteTeamLocked R x f = below_teams_gone {x} f rt ix pr tk tm"
    and ok: "roles_tab (cascadeDeleteTeamLocked R x f)" "mperms_tab (cascadeDeleteTeamLocked R x f)"
      "members_tab (cascadeDeleteTeamLocked R x f)"
    by blast
  let ?g = "(below_teams_gone {x} f rt ix pr tk tm)
        \<lparr>teams := (teams f)(x := None), teamsByOrg := ndel (tm_OrganizationID e, tm_Name e) (teamsByOrg f)\<rparr>"
  have st: "st (applyDeleteTeam R (Some x) f) = ?g"
    using assms(3) e by (simp add: applyDeleteTeam_def Let_def g)
  have "(teams f)(x := None) = teams f |` (- {x})" by (auto simp: restrict_map_def)
  then have "refs_ok ?g"
    using refs_below_teams_gone [OF tabs(7), of "{x}" rt ix pr tk tm] by (simp add: refs_ok_def)
  moreover have "teams_tab ?g"
    using tabs(4) e pair_index.delete [of team_key "teams f" "teamsByOrg f" x e]
    by (simp add: teams_tab_def team_key_def [of e])
  moreover have "orgs_tab ?g" "tokens_tab ?g"
    using tabs(5,6) by (simp_all add: orgs_tab_def tokens_tab_def)
  ultimately have ok_g: "auth_ok ?g"
    using ok unfolding g by (simp add: auth_ok_def roles_tab_def mperms_tab_def members_defs)
  show ?thesis
    unfolding st by (intro exI [of _ rt] exI [of _ ix] exI [of _ pr] exI [of _ tk] exI [of _ tm] conjI)
      (rule refl, rule ok_g)
qed

lemma delete_role_state:
  assumes "ranges_ok R" and "auth_ok f" and "x \<noteq> 0" and e: "roles f x = Some e"
  shows "st (applyDeleteRole R (Some x) f) =
      f\<lparr>roles := (roles f)(x := None), rolesByTeam := sdel (r_TeamID e) x (rolesByTeam f),
        measurementPermissions := keep (\<lambda>m. mp_RoleID m \<noteq> x) (measurementPermissions f),
        measurementPermsByRole := sdrop x (measurementPermsByRole f)\<rparr>"
    and "auth_ok (st (applyDeleteRole R (Some x) f))"
proof -
  note tabs = auth_ok_tabs [OF assms(2)]
  show st: "st (applyDeleteRole R (Some x) f) =
      f\<lparr>roles := (roles f)(x := None), rolesByTeam := sdel (r_TeamID e) x (rolesByTeam f),
        measurementPermissions := keep (\<lambda>m. mp_RoleID m \<noteq> x) (measurementPermissions f),
        measurementPermsByRole := sdrop x (measurementPermsByRole f)\<rparr>"
    using assms(3) e
    by (intro fsm.equality) (simp_all add: applyDeleteRole_def Let_def cascade_role(1) [OF assms(1) tabs(2)])
  have "refers mp_RoleID (keep (\<lambda>m. mp_RoleID m \<noteq> x) (measurementPermissions f)) ((roles f)(x := None))"
    using tabs(7) by (auto simp: refs_ok_def refers_def)
  with tabs e show "auth_ok (st (applyDeleteRole R (Some x) f))"
    unfolding st using cascade_role(2) [OF assms(1) tabs(2), of x]
    by (simp add: auth_ok_def cascade_role(1) [OF assms(1) tabs(2)] refs_ok_def roles_tab_def set_index.delete
          tokens_tab_def orgs_tab_def teams_tab_def mperms_tab_def members_defs)
qed

lemma auth_ok_delete_org: "ranges_ok R \<Longrightarrow> auth_ok f \<Longrightarrow> auth_ok (st (applyDeleteOrganization R p f))"
  using delete_organization_state [of R f]
  by (cases p) (auto simp: applyDeleteOrganization_def [of R None] applyDeleteOrganization_def [of R "Some 0"]
      applyDeleteOrganization_def rejectRBAC_def split: option.split)

lemma auth_ok_delete_team: "ranges_ok R \<Longrightarrow> auth_ok f \<Longrightarrow> auth_ok (st (applyDeleteTeam R p f))"
  using delete_team_state [of R f]
  by (cases p) (auto simp: applyDeleteTeam_def [of R None] applyDeleteTeam_def [of R "Some 0"]
      applyDeleteTeam_def rejectRBAC_def split: option.split)

lemma auth_ok_delete_role: "ranges_ok R \<Longrightarrow> auth_ok f \<Longrightarrow> auth_ok (st (applyDeleteRole R p f))"
  using delete_role_state(2) [of R f]
  by (cases p) (auto simp: applyDeleteRole_def [of R None] applyDeleteRole_def [of R "Some 0"]
      applyDeleteRole_def rejectRBAC_def split: option.split)

section \<open>Properties\<close>

text \<open>
  Deleting a known organization removes it, exactly its teams, exactly the roles and the
  memberships of these teams, and exactly the measurement permissions of these roles; the
  tokens stay, and no index or reference is left dangling.  The order in which the maps are
  ranged over does not matter.
\<close>

theorem delete_organization_cascades:
  assumes "ranges_ok R" and "auth_ok f" and "x \<noteq> 0" and "organizations f x \<noteq> None"
    and "g = st (applyDeleteOrganization R (Some x) f)"
  shows "organizations g = (organizations f)(x := None) \<and>
         teams g = keep (\<lambda>t. tm_OrganizationID t \<noteq> x) (teams f) \<and>
         roles g = keep (\<lambda>r. r_TeamID r \<notin> teams_in f x) (roles f) \<and>
         measurementPermissions g =
           keep (\<lambda>m. mp_RoleID m \<notin> roles_in f (teams_in f x)) (measurementPermissions f) \<and>
         tokenMemberships g = keep (\<lambda>m. m_TeamID m \<notin> teams_in f x) (tokenMemberships f) \<and>
         tokens g = tokens f \<and> auth_ok g"
proof -
  from assms(4) obtain e where "organizations f x = Some e" by blast
  from delete_organization_state [OF assms(1-3) this] show ?thesis
    unfolding assms(5) [symmetric] by auto
qed

text \<open>
  Deleting a known team removes it, exactly its roles and memberships, and exactly the
  measurement permissions of these roles; organizations and tokens stay, and no index or
  reference is left dangling.
\<close>

theorem delete_team_cascades:
  assumes "ranges_ok R" and "auth_ok f" and "x \<noteq> 0" and "teams f x \<noteq> None"
    and "g = st (applyDeleteTeam R (Some x) f)"
  shows "teams g = (teams f)(x := None) \<and>
         roles g = keep (\<lambda>r. r_TeamID r \<noteq> x) (roles f) \<and>
         measurementPermissions g =
           keep (\<lambda>m. mp_RoleID m \<notin> roles_in f {x}) (measurementPermissions f) \<and>
         tokenMemberships g = keep (\<lambda>m. m_TeamID m \<noteq> x) (tokenMemberships f) \<and>
         organizations g = organizations f \<and> tokens g = tokens f \<and> auth_ok g"
proof -
  from assms(4) obtain e where "teams f x = Some e" by blast
  from delete_team_state [OF assms(1-3) this] show ?thesis
    unfolding assms(5) [symmetric] by auto
qed

text \<open>
  Deleting a known token removes it and exactly its memberships; teams and roles stay, its
  name and prefix are free again, and no index or reference is left dangling.
\<close>

theorem delete_token_cascades:
  assumes "ranges_ok R" and "auth_ok f" and "x \<noteq> 0" and "tokens f x = Some e"
    and "g = st (applyDeleteToken R (Some x) f)"
  shows "tokens g = (tokens f)(x := None) \<and>
         tokenMemberships g = keep (\<lambda>m. m_TokenID m \<noteq> x) (tokenMemberships f) \<and>
         teams g = teams f \<and> roles g = roles f \<and>
         tokensByName g (t_Name e) = None \<and> x \<notin> lset (tokensByPrefix g) (t_TokenPrefix e) \<and>
         auth_ok g"
  using delete_token_state [OF assms(1-4)] unfolding assms(5) [symmetric]
  by (auto simp: index_simps mdel_def)

section \<open>Witnesses\<close>

definition example_org :: organization_entry where
  "example_org = \<lparr>o_ID = 0, o_Name = ''acme'', o_Description = [], o_CreatedAtUnixNano = 1,
     o_UpdatedAtUnixNano = 1, o_Enabled = True, o_LSN = 0\<rparr>"

definition example_team :: team_entry where
  "example_team = \<lparr>tm_ID = 0, tm_OrganizationID = 1, tm_Name = ''ops'', tm_Description = [],
     tm_CreatedAtUnixNano = 1, tm_UpdatedAtUnixNano = 1, tm_Enabled = True, tm_LSN = 0\<rparr>"

definition example_org_state :: fsm where
  "example_org_state = st (applyCreateOrganization (Some example_org) 1 NewClusterFSM)"

definition example_rbac :: fsm where
  "example_rbac = st (applyCreateTeam (Some example_team) 2 example_org_state)"

lemma create_org_stores:
  "valid_org org \<Longrightarrow> o_CreatedAtUnixNano org \<noteq> 0 \<Longrightarrow> organizationsByName f (o_Name org) = None \<Longrightarrow>
   \<exists>e ix. st (applyCreateOrganization (Some org) i f) =
     f\<lparr>organizations := (organizations f)(int64_of_u64 i \<mapsto> e), organizationsByName := ix\<rparr>"
  by (auto simp: applyCreateOrganization_def Let_def mget_def)

lemma create_team_stores:
  assumes "valid_team team" and "tm_CreatedAtUnixNano team \<noteq> 0"
    and "organizations f (tm_OrganizationID team) = Some org"
    and "nget (teamsByOrg f) (tm_OrganizationID team, tm_Name team) = None"
  shows "\<exists>e ix. st (applyCreateTeam (Some team) i f) =
           f\<lparr>teams := (teams f)(int64_of_u64 i \<mapsto> e), teamsByOrg := ix\<rparr> \<and>
         tm_OrganizationID e = tm_OrganizationID team"
  unfolding applyCreateTeam_def Let_def using assms
  by (intro exI [of _ "team\<lparr>tm_ID := int64_of_u64 i, tm_LSN := i,
        tm_UpdatedAtUnixNano := (if tm_UpdatedAtUnixNano team = 0 then tm_CreatedAtUnixNano team
                                 else tm_UpdatedAtUnixNano team), tm_Enabled := True\<rparr>"] exI) simp

lemma example_valid: "valid_org example_org" "valid_team example_team"
  by (simp_all add: valid_org_iff valid_team_iff example_org_def example_team_def
        rbacNameMaxLen_def rbacDescriptionMaxLen_def)

lemma example_org_state_form:
  "\<exists>e ix. example_org_state = NewClusterFSM\<lparr>organizations := [1 \<mapsto> e], organizationsByName := ix\<rparr>"
  using create_org_stores [OF example_valid(1), of NewClusterFSM 1]
  unfolding example_org_state_def [symmetric] by (auto simp: example_org_def int64_of_u64_def)

lemma example_rbac_form:
  "\<exists>o1 ix e ix'. example_rbac = NewClusterFSM\<lparr>organizations := [1 \<mapsto> o1], organizationsByName := ix,
     teams := [2 \<mapsto> e], teamsByOrg := ix'\<rparr> \<and> tm_OrganizationID e = 1"
proof -
  obtain o1 ix where f: "example_org_state = NewClusterFSM\<lparr>organizations := [1 \<mapsto> o1], organizationsByName := ix\<rparr>"
    using example_org_state_form by blast
  let ?f = "NewClusterFSM\<lparr>organizations := [1 \<mapsto> o1], organizationsByName := ix\<rparr>"
  have "tm_CreatedAtUnixNano example_team \<noteq> 0" "tm_OrganizationID example_team = 1"
    by (simp_all add: example_team_def)
  with create_team_stores [OF example_valid(2), of ?f o1 2] obtain e ix' where
    "st (applyCreateTeam (Some example_team) 2 ?f) = ?f\<lparr>teams := (teams ?f)(int64_of_u64 2 \<mapsto> e), teamsByOrg := ix'\<rparr>"
    "tm_OrganizationID e = 1"
    by (auto simp: nget_def)
  then have "example_rbac = ?f\<lparr>teams := [2 \<mapsto> e], teamsByOrg := ix'\<rparr> \<and> tm_OrganizationID e = 1"
    unfolding example_rbac_def f by (simp add: int64_of_u64_def)
  then show ?thesis by blast
qed

lemma example_rbac_ok: "auth_ok example_rbac"
proof -
  have "auth_ok example_org_state"
    unfolding example_org_state_def using auth_ok_new fresh_id_new by (rule auth_ok_create_org)
  moreover have "fresh_id (int64_of_u64 2) example_org_state"
  proof -
    obtain e ix where f: "example_org_state = NewClusterFSM\<lparr>organizations := [1 \<mapsto> e], organizationsByName := ix\<rparr>"
      using example_org_state_form by blast
    show ?thesis unfolding f by (simp add: fresh_id_def int64_of_u64_def)
  qed
  ultimately show ?thesis unfolding example_rbac_def by (rule auth_ok_create_team)
qed

theorem delete_organization_cascades_witness:
  "teams (st (applyDeleteOrganization reverse_ranges (Some 1) example_rbac)) = Map.empty"
proof -
  obtain o1 ix e ix' where f: "example_rbac = NewClusterFSM\<lparr>organizations := [1 \<mapsto> o1], organizationsByName := ix,
     teams := [2 \<mapsto> e], teamsByOrg := ix'\<rparr>" "tm_OrganizationID e = 1"
    using example_rbac_form by blast
  have "organizations example_rbac 1 \<noteq> None" unfolding f(1) by simp
  from delete_organization_cascades [OF reverse_ranges_ok example_rbac_ok _ this refl]
  have "teams (st (applyDeleteOrganization reverse_ranges (Some 1) example_rbac)) =
      keep (\<lambda>t. tm_OrganizationID t \<noteq> 1) (teams example_rbac)" by simp
  with f(2) show ?thesis unfolding f(1) by (simp add: keep_def fun_eq_iff)
qed

theorem delete_team_cascades_witness:
  "teams (st (applyDeleteTeam sorted_ranges (Some 2) example_rbac)) = Map.empty"
proof -
  obtain o1 ix e ix' where f: "example_rbac = NewClusterFSM\<lparr>organizations := [1 \<mapsto> o1], organizationsByName := ix,
     teams := [2 \<mapsto> e], teamsByOrg := ix'\<rparr>"
    using example_rbac_form by blast
  have "teams example_rbac 2 \<noteq> None" and two: "(teams example_rbac)(2 := None) = Map.empty"
    unfolding f by auto
  from delete_team_cascades [OF sorted_ranges_ok example_rbac_ok _ this(1) refl] two
  show ?thesis by simp
qed

theorem delete_token_cascades_witness:
  "tokens (st (applyDeleteToken sorted_ranges (Some 7) example_tokens)) 7 = None"
proof -
  obtain e where "tokens example_tokens 7 = Some e" using example_tokens_7 by blast
  from delete_token_cascades [OF sorted_ranges_ok example_tokens_ok _ this refl]
  show ?thesis by simp
qed

end
