(* ===== verification/FSM_Apply.thy ===== *)
theory FSM_Apply
  imports FSM_Nodes FSM_Files FSM_Cascade
begin

text \<open>
  \<open>Apply\<close> of \<^verbatim>\<open>fsm.go\<close>, the dispatch of a committed log entry to its handler, and what
  holds of every command: which part of the state a handler can touch, that the invariant is
  kept, that a refused command changes nothing, and that the outcome does not depend on the
  order in which Go ranges over its maps, so that all replicas agree.
\<close>

section \<open>The dispatch\<close>

text \<open>
  A decoded command: the constructor is the command type, the argument the decoded payload
  (\<open>None\<close> if the payload does not decode).
\<close>

datatype command =
    AddNode "node_info option"
  | RemoveNode "string option"
  | UpdateNode "node_info option"
  | UpdateNodeState "update_node_state_payload option"
  | PromoteWriter "promote_writer_payload option"
  | DemoteWriter "string option"
  | RegisterFile "file_entry option"
  | DeleteFile "delete_file_payload option"
  | AssignCompactor "assign_compactor_payload option"
  | BatchFileOps "batch_op list option"
  | UpdateFile "file_entry option"
  | CreateToken "token_entry option"
  | UpdateToken "update_token_payload option"
  | RevokeToken "int64 option"
  | DeleteToken "int64 option"
  | RotateToken "rotate_token_payload option"
  | CreateOrganization "organization_entry option"
  | UpdateOrganization "update_entity_payload option"
  | DeleteOrganization "int64 option"
  | CreateTeam "team_entry option"
  | UpdateTeam "update_entity_payload option"
  | DeleteTeam "int64 option"
  | CreateRole "role_entry option"
  | UpdateRole "update_role_payload option"
  | DeleteRole "int64 option"
  | CreateMeasurementPermission "measurement_permission_entry option"
  | DeleteMeasurementPermission "int64 option"
  | AddTokenToTeam "token_membership_entry option"
  | RemoveTokenFromTeam "remove_token_payload option"
  | OtherCommand u8

fun apply_command :: "ranges \<Rightarrow> command \<Rightarrow> u64 \<Rightarrow> fsm \<Rightarrow> fsm_result" where
  "apply_command R (AddNode p) i f = applyAddNode p f"
| "apply_command R (RemoveNode p) i f = applyRemoveNode p f"
| "apply_command R (UpdateNode p) i f = applyUpdateNode p f"
| "apply_command R (UpdateNodeState p) i f = applyUpdateNodeState p f"
| "apply_command R (PromoteWriter p) i f = applyPromoteWriter p f"
| "apply_command R (DemoteWriter p) i f = applyDemoteWriter p f"
| "apply_command R (RegisterFile p) i f = applyRegisterFile p i f"
| "apply_command R (DeleteFile p) i f = applyDeleteFile p f"
| "apply_command R (AssignCompactor p) i f = applyAssignCompactor p f"
| "apply_command R (BatchFileOps p) i f = applyBatchFileOps p i f"
| "apply_command R (UpdateFile p) i f = applyUpdateFile p i f"
| "apply_command R (CreateToken p) i f = applyCreateToken p i f"
| "apply_command R (UpdateToken p) i f = applyUpdateToken p i f"
| "apply_command R (RevokeToken p) i f = applyRevokeToken p i f"
| "apply_command R (DeleteToken p) i f = applyDeleteToken R p f"
| "apply_command R (RotateToken p) i f = applyRotateToken p i f"
| "apply_command R (CreateOrganization p) i f = applyCreateOrganization p i f"
| "apply_command R (UpdateOrganization p) i f = applyUpdateOrganization p i f"
| "apply_command R (DeleteOrganization p) i f = applyDeleteOrganization R p f"
| "apply_command R (CreateTeam p) i f = applyCreateTeam p i f"
| "apply_command R (UpdateTeam p) i f = applyUpdateTeam p i f"
| "apply_command R (DeleteTeam p) i f = applyDeleteTeam R p f"
| "apply_command R (CreateRole p) i f = applyCreateRole p i f"
| "apply_command R (UpdateRole p) i f = applyUpdateRole p i f"
| "apply_command R (DeleteRole p) i f = applyDeleteRole R p f"
| "apply_command R (CreateMeasurementPermission p) i f = applyCreateMeasurementPermission p i f"
| "apply_command R (DeleteMeasurementPermission p) i f = applyDeleteMeasurementPermission p f"
| "apply_command R (AddTokenToTeam p) i f = applyAddTokenToTeam p i f"
| "apply_command R (RemoveTokenFromTeam p) i f = applyRemoveTokenFromTeam p f"
| "apply_command R (OtherCommand t) i f = (f, [], Some (UnknownCommand t))"

text \<open>A log entry whose data does not decode to a command is \<open>None\<close>.\<close>

definition Apply :: "ranges \<Rightarrow> command option \<Rightarrow> u64 \<Rightarrow> fsm \<Rightarrow> fsm_result" where
  "Apply R cmd logIndex f =
     (case cmd of
        None \<Rightarrow> (f, [], Some UnmarshalCommand)
      | Some c \<Rightarrow> apply_command R c logIndex f)"

section \<open>What a handler leaves alone\<close>

definition nodes_view where
  "nodes_view f = (nodes f, primaryWriterID f, activeCompactorID f)"

definition manifest_view where
  "manifest_view f = (files f, filesByDB f, keysCache f)"

definition auth_view where
  "auth_view f =
     (tokens f, tokensByPrefix f, tokensByName f, organizations f, organizationsByName f,
      teams f, teamsByOrg f, roles f, rolesByTeam f, measurementPermissions f,
      measurementPermsByRole f, tokenMemberships f, tokenMembershipsByPair f,
      tokenMembershipsByToken f, tokenMembershipsByTeam f)"

lemmas view_defs = nodes_view_def manifest_view_def auth_view_def

lemma nodes_ok_view: "nodes_view f = nodes_view g \<Longrightarrow> nodes_ok f = nodes_ok g"
  by (simp add: nodes_view_def nodes_ok_def)

lemma files_ok_view: "manifest_view f = manifest_view g \<Longrightarrow> files_ok f = files_ok g"
  by (simp add: manifest_view_def files_ok_def paths_ok_def db_index_ok_def db_of_def cache_ok_def)

lemma auth_ok_view: "auth_view f = auth_view g \<Longrightarrow> auth_ok f = auth_ok g"
  by (simp add: auth_view_def auth_ok_def tab_defs refs_ok_def)

text \<open>The commands by the part of the state they are about.\<close>

fun about_nodes :: "command \<Rightarrow> bool" where
  "about_nodes (AddNode _) = True"
| "about_nodes (RemoveNode _) = True"
| "about_nodes (UpdateNode _) = True"
| "about_nodes (UpdateNodeState _) = True"
| "about_nodes (PromoteWriter _) = True"
| "about_nodes (DemoteWriter _) = True"
| "about_nodes (AssignCompactor _) = True"
| "about_nodes _ = False"

fun about_files :: "command \<Rightarrow> bool" where
  "about_files (RegisterFile _) = True"
| "about_files (DeleteFile _) = True"
| "about_files (UpdateFile _) = True"
| "about_files (BatchFileOps _) = True"
| "about_files _ = False"

lemma node_handlers_frame:
  "manifest_view (st (applyAddNode p f)) = manifest_view f" "auth_view (st (applyAddNode p f)) = auth_view f"
  "manifest_view (st (applyRemoveNode q f)) = manifest_view f" "auth_view (st (applyRemoveNode q f)) = auth_view f"
  "manifest_view (st (applyUpdateNode p f)) = manifest_view f" "auth_view (st (applyUpdateNode p f)) = auth_view f"
  "manifest_view (st (applyUpdateNodeState s f)) = manifest_view f"
  "auth_view (st (applyUpdateNodeState s f)) = auth_view f"
  "manifest_view (st (applyPromoteWriter w f)) = manifest_view f" "auth_view (st (applyPromoteWriter w f)) = auth_view f"
  "manifest_view (st (applyDemoteWriter q f)) = manifest_view f" "auth_view (st (applyDemoteWriter q f)) = auth_view f"
  "manifest_view (st (applyAssignCompactor c f)) = manifest_view f"
  "auth_view (st (applyAssignCompactor c f)) = auth_view f"
  by (simp_all add: node_handler_defs view_defs Let_def split: option.split)

lemma incRejected_views [simp]:
  "nodes_view (incRejectedPaths f) = nodes_view f" "manifest_view (incRejectedPaths f) = manifest_view f"
  "auth_view (incRejectedPaths f) = auth_view f"
  "nodes_view (incRejectedTokens f) = nodes_view f" "manifest_view (incRejectedTokens f) = manifest_view f"
  "auth_view (incRejectedTokens f) = auth_view f"
  "nodes_view (incRejectedRBAC f) = nodes_view f" "manifest_view (incRejectedRBAC f) = manifest_view f"
  "auth_view (incRejectedRBAC f) = auth_view f"
  by (simp_all add: view_defs incRejectedPaths_def incRejectedTokens_def incRejectedRBAC_def)

lemma file_struct_frame:
  "nodes_view (st (applyRegisterFileStruct e i f)) = nodes_view f"
  "auth_view (st (applyRegisterFileStruct e i f)) = auth_view f"
  "nodes_view (st (applyUpdateFileStruct e i f)) = nodes_view f"
  "auth_view (st (applyUpdateFileStruct e i f)) = auth_view f"
  "nodes_view (st (applyDeleteFileStruct d f)) = nodes_view f"
  "auth_view (st (applyDeleteFileStruct d f)) = auth_view f"
  by (simp_all add: file_struct_defs rejectManifestPath_def Let_def split: option.split)
     (simp_all add: view_defs)

lemma apply_file_ops_frame:
  "nodes_view (st (apply_file_ops n ds i f)) = nodes_view f \<and>
   auth_view (st (apply_file_ops n ds i f)) = auth_view f"
proof (induction ds arbitrary: n f)
  case Nil
  then show ?case by simp
next
  case (Cons d ds)
  have "nodes_view (st (apply_file_op d i f)) = nodes_view f \<and> auth_view (st (apply_file_op d i f)) = auth_view f"
    by (cases d) (simp_all add: file_struct_frame)
  with Cons show ?case by (simp add: Let_def split: option.split)
qed

lemma file_handlers_frame:
  "nodes_view (st (applyRegisterFile p i f)) = nodes_view f" "auth_view (st (applyRegisterFile p i f)) = auth_view f"
  "nodes_view (st (applyUpdateFile p i f)) = nodes_view f" "auth_view (st (applyUpdateFile p i f)) = auth_view f"
  "nodes_view (st (applyDeleteFile q f)) = nodes_view f" "auth_view (st (applyDeleteFile q f)) = auth_view f"
  "nodes_view (st (applyBatchFileOps b i f)) = nodes_view f" "auth_view (st (applyBatchFileOps b i f)) = auth_view f"
  using prevalidate_Inl [of 0 "the b" f]
  by (auto simp: file_handler_defs file_struct_frame apply_file_ops_frame split: option.split sum.split)

text \<open>The part of the state no token or RBAC command is about.\<close>

definition other_view where
  "other_view f = (nodes_view f, manifest_view f, rejectedPaths f, registered f)"

lemma other_view_rejected [simp]:
  "other_view (incRejectedTokens f) = other_view f" "other_view (incRejectedRBAC f) = other_view f"
  by (simp_all add: other_view_def incRejectedTokens_def incRejectedRBAC_def view_defs)

lemma other_view_update [simp]:
  "other_view (f\<lparr>tokens := a1\<rparr>) = other_view f" "other_view (f\<lparr>tokensByPrefix := a2\<rparr>) = other_view f"
  "other_view (f\<lparr>tokensByName := a3\<rparr>) = other_view f" "other_view (f\<lparr>organizations := a4\<rparr>) = other_view f"
  "other_view (f\<lparr>organizationsByName := a5\<rparr>) = other_view f" "other_view (f\<lparr>teams := a6\<rparr>) = other_view f"
  "other_view (f\<lparr>teamsByOrg := a7\<rparr>) = other_view f" "other_view (f\<lparr>roles := a8\<rparr>) = other_view f"
  "other_view (f\<lparr>rolesByTeam := a9\<rparr>) = other_view f"
  "other_view (f\<lparr>measurementPermissions := a10\<rparr>) = other_view f"
  "other_view (f\<lparr>measurementPermsByRole := a11\<rparr>) = other_view f"
  "other_view (f\<lparr>tokenMemberships := a12\<rparr>) = other_view f"
  "other_view (f\<lparr>tokenMembershipsByPair := a13\<rparr>) = other_view f"
  "other_view (f\<lparr>tokenMembershipsByToken := a14\<rparr>) = other_view f"
  "other_view (f\<lparr>tokenMembershipsByTeam := a15\<rparr>) = other_view f"
  by (simp_all add: other_view_def view_defs)

lemma other_view_cascades [simp]:
  "other_view (cascade_token R x f) = other_view f"
  "other_view (cascadeDeleteRoleLocked R x f) = other_view f"
  "other_view (cascadeDeleteTeamLocked R x f) = other_view f"
  "other_view (cascadeDeleteOrgLocked R x f) = other_view f"
proof -
  have drop: "other_view (drop_membership_of_token y g) = other_view g"
    "other_view (drop_membership_of_team y g) = other_view g" for y g
    by (simp_all add: drop_membership_of_token_def drop_membership_of_team_def split: option.split)
  show "other_view (cascade_token R x f) = other_view f"
    by (simp add: cascade_token_def Let_def drop fold_frame [where g = other_view] split: option.split)
  have role: "other_view (cascadeDeleteRoleLocked R y g) = other_view g" for y g
    by (simp add: cascadeDeleteRoleLocked_def Let_def fold_frame [where g = other_view])
  then show "other_view (cascadeDeleteRoleLocked R x f) = other_view f" .
  have team: "other_view (cascadeDeleteTeamLocked R y g) = other_view g" for y g
    by (simp add: cascadeDeleteTeamLocked_def delete_role_of_team_def Let_def role drop
          fold_frame [where g = other_view])
  then show "other_view (cascadeDeleteTeamLocked R x f) = other_view f" .
  show "other_view (cascadeDeleteOrgLocked R x f) = other_view f"
    by (simp add: cascadeDeleteOrgLocked_def delete_team_of_org_def Let_def team
          fold_frame [where g = other_view])
qed

lemma token_handlers_frame:
  "other_view (st (applyCreateToken p1 i f)) = other_view f"
  "other_view (st (applyUpdateToken p2 i f)) = other_view f"
  "other_view (st (applyRevokeToken p3 i f)) = other_view f"
  "other_view (st (applyDeleteToken R p3 f)) = other_view f"
  "other_view (st (applyRotateToken p4 i f)) = other_view f"
  by (simp_all add: token_handler_defs rejectToken_def Let_def split: option.split)

lemma rbac_handlers_frame:
  "other_view (st (applyCreateOrganization p1 i f)) = other_view f"
  "other_view (st (applyUpdateOrganization p2 i f)) = other_view f"
  "other_view (st (applyDeleteOrganization R p3 f)) = other_view f"
  "other_view (st (applyCreateTeam p4 i f)) = other_view f"
  "other_view (st (applyUpdateTeam p2 i f)) = other_view f"
  "other_view (st (applyDeleteTeam R p3 f)) = other_view f"
  "other_view (st (applyCreateRole p5 i f)) = other_view f"
  "other_view (st (applyUpdateRole p6 i f)) = other_view f"
  "other_view (st (applyDeleteRole R p3 f)) = other_view f"
  "other_view (st (applyCreateMeasurementPermission p7 i f)) = other_view f"
  "other_view (st (applyDeleteMeasurementPermission p3 f)) = other_view f"
  "other_view (st (applyAddTokenToTeam p8 i f)) = other_view f"
  "other_view (st (applyRemoveTokenFromTeam p9 f)) = other_view f"
  by (simp_all add: rbac_handler_defs rejectRBAC_def Let_def split: option.split sum.split)

section \<open>The invariant of the FSM\<close>

definition fsm_ok :: "fsm \<Rightarrow> bool" where
  "fsm_ok f \<longleftrightarrow> nodes_ok f \<and> files_ok f \<and> auth_ok f"

lemmas auth_ok_handlers =
  auth_ok_create_token auth_ok_update_token auth_ok_revoke_token auth_ok_delete_token
  auth_ok_rotate_token auth_ok_create_org auth_ok_update_org auth_ok_delete_org
  auth_ok_create_team auth_ok_update_team auth_ok_delete_team auth_ok_create_role
  auth_ok_update_role auth_ok_delete_role auth_ok_create_mperm auth_ok_delete_mperm
  auth_ok_add_member auth_ok_remove_member

lemma other_view_ok:
  "other_view f = other_view g \<Longrightarrow> nodes_ok f = nodes_ok g"
  "other_view f = other_view g \<Longrightarrow> files_ok f = files_ok g"
  using nodes_ok_view files_ok_view unfolding other_view_def by blast+

lemma fsm_ok_apply_command:
  assumes "ranges_ok R" and "fsm_ok f" and "fresh_id (int64_of_u64 i) f"
  shows "fsm_ok (st (apply_command R c i f))"
proof -
  from assms(2) have ok: "nodes_ok f" "files_ok f" "auth_ok f" by (simp_all add: fsm_ok_def)
  show ?thesis
  proof (cases "about_nodes c \<or> about_files c \<or> (\<exists>t. c = OtherCommand t)")
    case True
    with ok have "nodes_ok (st (apply_command R c i f))" "files_ok (st (apply_command R c i f))"
      by (cases c; simp_all add: files_ok_view [OF node_handlers_frame(1)] files_ok_view [OF node_handlers_frame(3)]
          files_ok_view [OF node_handlers_frame(5)] files_ok_view [OF node_handlers_frame(7)]
          files_ok_view [OF node_handlers_frame(9)] files_ok_view [OF node_handlers_frame(11)]
          files_ok_view [OF node_handlers_frame(13)] nodes_ok_view [OF file_handlers_frame(1)]
          nodes_ok_view [OF file_handlers_frame(3)] nodes_ok_view [OF file_handlers_frame(5)]
          nodes_ok_view [OF file_handlers_frame(7)])+
    moreover have "auth_view (st (apply_command R c i f)) = auth_view f"
      using True by (cases c) (simp_all add: node_handlers_frame file_handlers_frame)
    ultimately show ?thesis using ok(3) auth_ok_view unfolding fsm_ok_def by blast
  next
    case False
    then have "other_view (st (apply_command R c i f)) = other_view f"
      by (cases c) (simp_all add: token_handlers_frame rbac_handlers_frame)
    moreover have "auth_ok (st (apply_command R c i f))"
      using False ok(3) assms(1,3) by (cases c) (simp_all add: auth_ok_handlers)
    ultimately show ?thesis using ok(1,2) other_view_ok unfolding fsm_ok_def by blast
  qed
qed

section \<open>Replicas agree\<close>

text \<open>Two states in which the invariant holds are equal when all but the indices is.\<close>

lemma fsm_determined:
  assumes "auth_ok f" and "auth_ok g" and "tokens f = tokens g" and "organizations f = organizations g"
    and "teams f = teams g" and "roles f = roles g"
    and "measurementPermissions f = measurementPermissions g"
    and "tokenMemberships f = tokenMemberships g" and "tokensByPrefix f = tokensByPrefix g"
    and "other_view f = other_view g" and "rejectedTokens f = rejectedTokens g"
    and "rejectedRBAC f = rejectedRBAC g"
  shows "f = g"
  using auth_indices_determined [OF assms(1-8)] assms(3-)
  by (intro fsm.equality) (simp_all add: other_view_def view_defs)

lemma delete_token_deterministic:
  assumes "ranges_ok R" and "ranges_ok R'" and "auth_ok f"
  shows "applyDeleteToken R p f = applyDeleteToken R' p f"
proof (cases "\<exists>x e. p = Some x \<and> x \<noteq> 0 \<and> tokens f x = Some e")
  case True
  then obtain x e where x: "p = Some x" "x \<noteq> 0" "tokens f x = Some e" by blast
  note S = delete_token_state [OF assms(1,3) x(2,3)] and S' = delete_token_state [OF assms(2,3) x(2,3)]
  have "st (applyDeleteToken R (Some x) f) = st (applyDeleteToken R' (Some x) f)"
  proof (rule fsm_determined)
    show "auth_ok (st (applyDeleteToken R (Some x) f))" "auth_ok (st (applyDeleteToken R' (Some x) f))"
      using S S' by blast+
    show "other_view (st (applyDeleteToken R (Some x) f)) = other_view (st (applyDeleteToken R' (Some x) f))"
      by (simp only: token_handlers_frame)
  qed (use S S' in auto)
  then show ?thesis using x by (simp add: applyDeleteToken_def Let_def)
next
  case False
  then show ?thesis by (cases p) (auto simp: applyDeleteToken_def split: option.split)
qed

lemma delete_organization_deterministic:
  assumes "ranges_ok R" and "ranges_ok R'" and "auth_ok f"
  shows "applyDeleteOrganization R p f = applyDeleteOrganization R' p f"
proof (cases "\<exists>x e. p = Some x \<and> x \<noteq> 0 \<and> organizations f x = Some e")
  case True
  then obtain x e where x: "p = Some x" "x \<noteq> 0" "organizations f x = Some e" by blast
  note S = delete_organization_state [OF assms(1,3) x(2,3)]
    and S' = delete_organization_state [OF assms(2,3) x(2,3)]
  have "st (applyDeleteOrganization R (Some x) f) = st (applyDeleteOrganization R' (Some x) f)"
  proof (rule fsm_determined)
    show "auth_ok (st (applyDeleteOrganization R (Some x) f))"
      "auth_ok (st (applyDeleteOrganization R' (Some x) f))"
      using S S' by blast+
    show "other_view (st (applyDeleteOrganization R (Some x) f)) =
        other_view (st (applyDeleteOrganization R' (Some x) f))"
      by (simp only: rbac_handlers_frame)
  qed (use S S' in auto)
  then show ?thesis using x by (simp add: applyDeleteOrganization_def Let_def)
next
  case False
  then show ?thesis by (cases p) (auto simp: applyDeleteOrganization_def split: option.split)
qed

lemma delete_team_deterministic:
  assumes "ranges_ok R" and "ranges_ok R'" and "auth_ok f"
  shows "applyDeleteTeam R p f = applyDeleteTeam R' p f"
proof (cases "\<exists>x e. p = Some x \<and> x \<noteq> 0 \<and> teams f x = Some e")
  case True
  then obtain x e where x: "p = Some x" "x \<noteq> 0" "teams f x = Some e" by blast
  note S = delete_team_state [OF assms(1,3) x(2,3)] and S' = delete_team_state [OF assms(2,3) x(2,3)]
  have "st (applyDeleteTeam R (Some x) f) = st (applyDeleteTeam R' (Some x) f)"
  proof (rule fsm_determined)
    show "auth_ok (st (applyDeleteTeam R (Some x) f))" "auth_ok (st (applyDeleteTeam R' (Some x) f))"
      using S S' by blast+
    show "other_view (st (applyDeleteTeam R (Some x) f)) = other_view (st (applyDeleteTeam R' (Some x) f))"
      by (simp only: rbac_handlers_frame)
  qed (use S S' in auto)
  then show ?thesis using x by (simp add: applyDeleteTeam_def Let_def)
next
  case False
  then show ?thesis by (cases p) (auto simp: applyDeleteTeam_def split: option.split)
qed

lemma delete_role_deterministic:
  assumes "ranges_ok R" and "ranges_ok R'" and "auth_ok f"
  shows "applyDeleteRole R p f = applyDeleteRole R' p f"
proof -
  have eq: "cascadeDeleteRoleLocked R x f = cascadeDeleteRoleLocked R' x f" for x
    using assms cascade_role(1) auth_ok_tabs(2) by metis
  show ?thesis unfolding applyDeleteRole_def eq ..
qed

lemma apply_command_deterministic:
  "ranges_ok R \<Longrightarrow> ranges_ok R' \<Longrightarrow> auth_ok f \<Longrightarrow> apply_command R c i f = apply_command R' c i f"
  using delete_token_deterministic [of R R' f] delete_organization_deterministic [of R R' f]
    delete_team_deterministic [of R R' f] delete_role_deterministic [of R R' f]
  by (cases c) simp_all

section \<open>New ids\<close>

definition auth_ids :: "fsm \<Rightarrow> int64 set" where
  "auth_ids f = dom (tokens f) \<union> dom (organizations f) \<union> dom (teams f) \<union> dom (roles f) \<union>
                dom (measurementPermissions f) \<union> dom (tokenMemberships f)"

lemma fresh_id_iff: "fresh_id x f \<longleftrightarrow> x \<notin> auth_ids f"
  by (auto simp: fresh_id_def auth_ids_def)

lemma auth_ids_view: "auth_view f = auth_view g \<Longrightarrow> auth_ids f = auth_ids g"
  by (simp add: auth_view_def auth_ids_def)

lemma auth_ids_rejected [simp]:
  "auth_ids (incRejectedTokens f) = auth_ids f" "auth_ids (incRejectedRBAC f) = auth_ids f"
  by (simp_all add: auth_ids_def incRejectedTokens_def incRejectedRBAC_def)

lemma dom_keep: "dom (keep P m) \<subseteq> dom m"
  by auto

lemma auth_ids_tokens:
  "auth_ids (st (applyCreateToken p1 i f)) \<subseteq> insert (int64_of_u64 i) (auth_ids f)"
  "auth_ids (st (applyUpdateToken p2 i f)) \<subseteq> auth_ids f"
  "auth_ids (st (applyRevokeToken p3 i f)) \<subseteq> auth_ids f"
  "auth_ids (st (applyRotateToken p4 i f)) \<subseteq> auth_ids f"
  by (auto simp: token_handler_defs rejectToken_def Let_def split: option.split)
     (auto simp: auth_ids_def)

lemma auth_ids_rbac:
  "auth_ids (st (applyCreateOrganization p1 i f)) \<subseteq> insert (int64_of_u64 i) (auth_ids f)"
  "auth_ids (st (applyUpdateOrganization p2 i f)) \<subseteq> auth_ids f"
  "auth_ids (st (applyCreateTeam p4 i f)) \<subseteq> insert (int64_of_u64 i) (auth_ids f)"
  "auth_ids (st (applyUpdateTeam p2 i f)) \<subseteq> auth_ids f"
  "auth_ids (st (applyCreateRole p5 i f)) \<subseteq> insert (int64_of_u64 i) (auth_ids f)"
  "auth_ids (st (applyUpdateRole p6 i f)) \<subseteq> auth_ids f"
  "auth_ids (st (applyCreateMeasurementPermission p7 i f)) \<subseteq> insert (int64_of_u64 i) (auth_ids f)"
  "auth_ids (st (applyDeleteMeasurementPermission p3 f)) \<subseteq> auth_ids f"
  "auth_ids (st (applyAddTokenToTeam p8 i f)) \<subseteq> insert (int64_of_u64 i) (auth_ids f)"
  "auth_ids (st (applyRemoveTokenFromTeam p9 f)) \<subseteq> auth_ids f"
  by (auto simp: rbac_handler_defs rejectRBAC_def Let_def auth_ids_def incRejectedRBAC_def
        split: option.splits sum.splits if_splits)

lemma auth_ids_deletes:
  assumes "ranges_ok R" and "auth_ok f"
  shows "auth_ids (st (applyDeleteToken R p f)) \<subseteq> auth_ids f"
    and "auth_ids (st (applyDeleteOrganization R p f)) \<subseteq> auth_ids f"
    and "auth_ids (st (applyDeleteTeam R p f)) \<subseteq> auth_ids f"
    and "auth_ids (st (applyDeleteRole R p f)) \<subseteq> auth_ids f"
proof -
  show "auth_ids (st (applyDeleteToken R p f)) \<subseteq> auth_ids f"
  proof (cases "\<exists>x e. p = Some x \<and> x \<noteq> 0 \<and> tokens f x = Some e")
    case True
    then obtain x e where x: "p = Some x" "x \<noteq> 0" "tokens f x = Some e" by blast
    from delete_token_state [OF assms x(2,3)] show ?thesis
      by (auto simp: x(1) auth_ids_def split: if_splits)
  qed (cases p, auto simp: applyDeleteToken_def rejectToken_def split: option.split)
  show "auth_ids (st (applyDeleteOrganization R p f)) \<subseteq> auth_ids f"
  proof (cases "\<exists>x e. p = Some x \<and> x \<noteq> 0 \<and> organizations f x = Some e")
    case True
    then obtain x e where x: "p = Some x" "x \<noteq> 0" "organizations f x = Some e" by blast
    from delete_organization_state [OF assms x(2,3)] show ?thesis
      by (auto simp: x(1) auth_ids_def split: if_splits)
  qed (cases p, auto simp: applyDeleteOrganization_def rejectRBAC_def split: option.split)
  show "auth_ids (st (applyDeleteTeam R p f)) \<subseteq> auth_ids f"
  proof (cases "\<exists>x e. p = Some x \<and> x \<noteq> 0 \<and> teams f x = Some e")
    case True
    then obtain x e where x: "p = Some x" "x \<noteq> 0" "teams f x = Some e" by blast
    from delete_team_state [OF assms x(2,3)] show ?thesis
      by (auto simp: x(1) auth_ids_def split: if_splits)
  qed (cases p, auto simp: applyDeleteTeam_def rejectRBAC_def split: option.split)
  show "auth_ids (st (applyDeleteRole R p f)) \<subseteq> auth_ids f"
  proof (cases "\<exists>x e. p = Some x \<and> x \<noteq> 0 \<and> roles f x = Some e")
    case True
    then obtain x e where x: "p = Some x" "x \<noteq> 0" "roles f x = Some e" by blast
    from delete_role_state [OF assms x(2,3)] show ?thesis
      by (auto simp: x(1) auth_ids_def split: if_splits)
  qed (cases p, auto simp: applyDeleteRole_def rejectRBAC_def split: option.split)
qed

lemma auth_ids_apply_command:
  assumes "ranges_ok R" and "auth_ok f"
  shows "auth_ids (st (apply_command R c i f)) \<subseteq> insert (int64_of_u64 i) (auth_ids f)"
proof (cases "about_nodes c \<or> about_files c")
  case True
  then have "auth_view (st (apply_command R c i f)) = auth_view f"
    by (cases c) (simp_all add: node_handlers_frame file_handlers_frame)
  then show ?thesis using auth_ids_view by blast
next
  case False
  note ids = auth_ids_tokens auth_ids_rbac auth_ids_deletes [OF assms]
  from False show ?thesis
    by (cases c) (simp_all add: ids ids [THEN subset_insertI2] subset_insertI)
qed

section \<open>Properties\<close>

text \<open>Failing without a trace: no callback, and at most the counters differ.\<close>

definition no_trace :: "fsm \<Rightarrow> fsm_result \<Rightarrow> bool" where
  "no_trace f r \<longleftrightarrow> evs r = [] \<and> no_counters (st r) = no_counters f"

lemma no_trace_intros:
  "no_trace f (f, [], e)" "no_trace f (rejectManifestPath s pe f)" "no_trace f (rejectToken s v f)"
  "no_trace f (rejectRBAC s v f)"
  by (simp_all add: no_trace_def reject_defs no_counters_def)

lemma failed_node_handler:
  "err (applyAddNode p f) \<noteq> None \<longrightarrow> no_trace f (applyAddNode p f)"
  "err (applyRemoveNode q f) \<noteq> None \<longrightarrow> no_trace f (applyRemoveNode q f)"
  "err (applyUpdateNode p f) \<noteq> None \<longrightarrow> no_trace f (applyUpdateNode p f)"
  "err (applyUpdateNodeState s f) \<noteq> None \<longrightarrow> no_trace f (applyUpdateNodeState s f)"
  "err (applyAssignCompactor c f) \<noteq> None \<longrightarrow> no_trace f (applyAssignCompactor c f)"
  by (simp_all add: node_handler_defs Let_def no_trace_intros split: option.split)

lemma failed_lease_handler:
  "err (applyPromoteWriter w f) = Some e \<Longrightarrow> e \<notin> range NodeNotFound \<Longrightarrow> no_trace f (applyPromoteWriter w f)"
  "err (applyDemoteWriter q f) = Some e \<Longrightarrow> e \<notin> range NodeNotFound \<Longrightarrow> no_trace f (applyDemoteWriter q f)"
  by (auto simp: node_handler_defs Let_def no_trace_intros split: option.splits if_splits)

lemma failed_file_handler:
  "err (applyRegisterFile p i f) \<noteq> None \<longrightarrow> no_trace f (applyRegisterFile p i f)"
  "err (applyUpdateFile p i f) \<noteq> None \<longrightarrow> no_trace f (applyUpdateFile p i f)"
  "err (applyDeleteFile q f) \<noteq> None \<longrightarrow> no_trace f (applyDeleteFile q f)"
  by (simp_all add: file_handler_defs file_struct_defs Let_def no_trace_intros split: option.split)

lemma failed_batch: "err (applyBatchFileOps p i f) \<noteq> None \<longrightarrow> no_trace f (applyBatchFileOps p i f)"
proof (rule impI, cases p)
  case None
  then show "no_trace f (applyBatchFileOps p i f)" by (simp add: applyBatchFileOps_def no_trace_intros)
next
  case (Some bs)
  assume failed: "err (applyBatchFileOps p i f) \<noteq> None"
  show "no_trace f (applyBatchFileOps p i f)"
  proof (cases "prevalidate 0 bs f")
    case (Inl r)
    from prevalidate_Inl [OF Inl] show ?thesis
      using Some Inl by (auto simp: applyBatchFileOps_def no_trace_def no_counters_def incRejectedPaths_def)
  next
    case (Inr ds)
    then have "list_all valid_file_op ds" using prevalidate_Inr by blast
    from apply_file_ops_valid [OF this] failed Some Inr show ?thesis
      by (simp add: applyBatchFileOps_def Let_def)
  qed
qed

lemma failed_token_handler:
  "err (applyCreateToken p1 i f) \<noteq> None \<longrightarrow> no_trace f (applyCreateToken p1 i f)"
  "err (applyUpdateToken p2 i f) \<noteq> None \<longrightarrow> no_trace f (applyUpdateToken p2 i f)"
  "err (applyRevokeToken p3 i f) \<noteq> None \<longrightarrow> no_trace f (applyRevokeToken p3 i f)"
  "err (applyDeleteToken R p3 f) \<noteq> None \<longrightarrow> no_trace f (applyDeleteToken R p3 f)"
  "err (applyRotateToken p4 i f) \<noteq> None \<longrightarrow> no_trace f (applyRotateToken p4 i f)"
  by (simp_all add: token_handler_defs Let_def no_trace_intros split: option.split)

lemma failed_rbac_handler:
  "err (applyCreateOrganization p1 i f) \<noteq> None \<longrightarrow> no_trace f (applyCreateOrganization p1 i f)"
  "err (applyUpdateOrganization p2 i f) \<noteq> None \<longrightarrow> no_trace f (applyUpdateOrganization p2 i f)"
  "err (applyDeleteOrganization R p3 f) \<noteq> None \<longrightarrow> no_trace f (applyDeleteOrganization R p3 f)"
  "err (applyCreateTeam p4 i f) \<noteq> None \<longrightarrow> no_trace f (applyCreateTeam p4 i f)"
  "err (applyUpdateTeam p2 i f) \<noteq> None \<longrightarrow> no_trace f (applyUpdateTeam p2 i f)"
  "err (applyDeleteTeam R p3 f) \<noteq> None \<longrightarrow> no_trace f (applyDeleteTeam R p3 f)"
  "err (applyCreateRole p5 i f) \<noteq> None \<longrightarrow> no_trace f (applyCreateRole p5 i f)"
  "err (applyUpdateRole p6 i f) \<noteq> None \<longrightarrow> no_trace f (applyUpdateRole p6 i f)"
  "err (applyDeleteRole R p3 f) \<noteq> None \<longrightarrow> no_trace f (applyDeleteRole R p3 f)"
  "err (applyCreateMeasurementPermission p7 i f) \<noteq> None \<longrightarrow> no_trace f (applyCreateMeasurementPermission p7 i f)"
  "err (applyDeleteMeasurementPermission p3 f) \<noteq> None \<longrightarrow> no_trace f (applyDeleteMeasurementPermission p3 f)"
  "err (applyAddTokenToTeam p8 i f) \<noteq> None \<longrightarrow> no_trace f (applyAddTokenToTeam p8 i f)"
  "err (applyRemoveTokenFromTeam p9 f) \<noteq> None \<longrightarrow> no_trace f (applyRemoveTokenFromTeam p9 f)"
  by (simp_all add: rbac_handler_defs Let_def no_trace_intros split: option.split sum.split)

text \<open>
  C5. A committed entry that ends in an error other than "node not found" leaves no trace: it
  invokes no callback and changes nothing but the rejection counters.
\<close>

theorem failed_command_leaves_no_trace:
  assumes "err (Apply R cmd i f) = Some e" and "e \<notin> range NodeNotFound"
  shows "evs (Apply R cmd i f) = [] \<and> no_counters (st (Apply R cmd i f)) = no_counters f"
proof (cases cmd)
  case None
  then show ?thesis by (simp add: Apply_def)
next
  case (Some c)
  with assms(1) have "err (apply_command R c i f) = Some e" by (simp add: Apply_def)
  then have "no_trace f (apply_command R c i f)"
    using assms(2)
    by (cases c) (simp_all add: failed_node_handler [THEN mp] failed_lease_handler failed_batch [THEN mp]
        failed_file_handler [THEN mp] failed_token_handler [THEN mp] failed_rbac_handler [THEN mp] no_trace_intros)
  then show ?thesis using Some by (simp add: Apply_def no_trace_def)
qed

theorem failed_command_leaves_no_trace_witness:
  "no_counters (st (Apply sorted_ranges (Some (CreateToken None)) 5 example_rbac)) = no_counters example_rbac"
  using failed_command_leaves_no_trace [of sorted_ranges "Some (CreateToken None)" 5 example_rbac]
  by (simp add: Apply_def applyCreateToken_def image_iff)

text \<open>The state after a log, and what each entry did: its callbacks and its error.\<close>

fun run_log :: "ranges \<Rightarrow> (command option \<times> u64) list \<Rightarrow> fsm \<Rightarrow> fsm \<times> (event list \<times> fsm_error option) list" where
  "run_log R [] f = (f, [])"
| "run_log R ((cmd, i) # log) f =
     (let r = Apply R cmd i f; r' = run_log R log (st r) in (fst r', (evs r, err r) # snd r'))"

lemma Apply_step:
  assumes "ranges_ok R" and "fsm_ok f" and "int64_of_u64 i \<notin> auth_ids f"
  shows "fsm_ok (st (Apply R cmd i f))" and "auth_ids (st (Apply R cmd i f)) \<subseteq> insert (int64_of_u64 i) (auth_ids f)"
  using assms fsm_ok_apply_command [OF assms(1,2)] auth_ids_apply_command [OF assms(1)]
  by (auto simp: Apply_def fresh_id_iff fsm_ok_def split: option.split)

lemma Apply_deterministic:
  "ranges_ok R \<Longrightarrow> ranges_ok R' \<Longrightarrow> auth_ok f \<Longrightarrow> Apply R cmd i f = Apply R' cmd i f"
  by (simp add: Apply_def apply_command_deterministic [of R R'] split: option.split)

text \<open>
  C6. Replicas agree.  Two nodes that start from the same state, in which the invariant holds,
  and apply the same log with pairwise different indices not used before, end in the same
  state, having invoked the same callbacks and returned the same errors, whatever the order in
  which each of them ranges over its maps; and the invariant holds in that state.
\<close>

theorem replicas_agree:
  assumes "ranges_ok R" and "ranges_ok R'" and "fsm_ok f" and "distinct (map snd log)"
    and "int64_of_u64 ` snd ` set log \<inter> auth_ids f = {}"
  shows "run_log R log f = run_log R' log f \<and> fsm_ok (fst (run_log R log f))"
  using assms(3-)
proof (induction log arbitrary: f)
  case Nil
  then show ?case by simp
next
  case (Cons entry log)
  obtain cmd i where entry: "entry = (cmd, i)" by (cases entry)
  with Cons.prems have new: "int64_of_u64 i \<notin> auth_ids f" by auto
  have same: "Apply R cmd i f = Apply R' cmd i f"
    using Cons.prems(1) unfolding fsm_ok_def by (intro Apply_deterministic [OF assms(1,2)]) blast
  note step = Apply_step [OF assms(1) Cons.prems(1) new, of cmd]
  have "int64_of_u64 i \<notin> int64_of_u64 ` snd ` set log" using Cons.prems(2) by (force simp: entry)
  moreover have "int64_of_u64 ` snd ` set log \<inter> auth_ids f = {}" using Cons.prems(3) by auto
  ultimately have "int64_of_u64 ` snd ` set log \<inter> insert (int64_of_u64 i) (auth_ids f) = {}" by simp
  with step(2) have "int64_of_u64 ` snd ` set log \<inter> auth_ids (st (Apply R cmd i f)) = {}"
    by (metis Int_mono equalityE subset_empty subset_refl)
  moreover have "distinct (map snd log)" using Cons.prems(2) by simp
  ultimately have IH: "run_log R log (st (Apply R cmd i f)) = run_log R' log (st (Apply R cmd i f))"
      "fsm_ok (fst (run_log R log (st (Apply R cmd i f))))"
    using Cons.IH [OF step(1)] by blast+
  then show ?case unfolding same by (simp add: entry Let_def same)
qed

lemma fsm_ok_new: "fsm_ok NewClusterFSM"
  by (simp add: fsm_ok_def nodes_ok_def auth_ok_new files_ok_def paths_ok_def db_index_ok_def
        cache_ok_def db_of_def sget_def)

lemma auth_ids_new: "auth_ids NewClusterFSM = {}"
  by (simp add: auth_ids_def)

theorem replicas_agree_witness:
  "fsm_ok (fst (run_log sorted_ranges [(Some (CreateOrganization (Some example_org)), 1),
     (Some (CreateTeam (Some example_team)), 2), (Some (DeleteOrganization (Some 1)), 3)] NewClusterFSM))"
proof -
  let ?log = "[(Some (CreateOrganization (Some example_org)), 1),
     (Some (CreateTeam (Some example_team)), 2), (Some (DeleteOrganization (Some 1)), 3)] :: (command option \<times> u64) list"
  have "distinct (map snd ?log)" by simp
  moreover have "int64_of_u64 ` snd ` set ?log \<inter> auth_ids NewClusterFSM = {}" by (simp add: auth_ids_new)
  ultimately show ?thesis
    by (rule replicas_agree [OF sorted_ranges_ok reverse_ranges_ok fsm_ok_new, THEN conjunct2])
qed

end
