(* ===== verification/FSM_Snapshot.thy ===== *)
theory FSM_Snapshot
  imports FSM_Apply
begin

text \<open>
  Snapshots of the cluster FSM: \<open>Snapshot\<close>, the value that \<open>Persist\<close> marshals, and \<open>Restore\<close>,
  which validates every entry, quarantines (skips and counts) the bad ones and rebuilds the
  indices.  A snapshot is modelled as the value its JSON stands for; an entry that is
  \<open>null\<close> in the JSON is \<open>Some None\<close>.  A \<open>null\<close> node is outside the model: \<open>Restore\<close> does not
  check the nodes.
\<close>

section \<open>Taking a snapshot\<close>

record fsm_snapshot =
  sn_nodes :: "string \<rightharpoonup> node_info"
  sn_primaryWriterID :: string
  sn_activeCompactorID :: string
  sn_files :: "string \<rightharpoonup> file_entry"
  sn_tokens :: "int64 \<rightharpoonup> token_entry"
  sn_organizations :: "int64 \<rightharpoonup> organization_entry"
  sn_teams :: "int64 \<rightharpoonup> team_entry"
  sn_roles :: "int64 \<rightharpoonup> role_entry"
  sn_measurementPermissions :: "int64 \<rightharpoonup> measurement_permission_entry"
  sn_tokenMemberships :: "int64 \<rightharpoonup> token_membership_entry"

definition Snapshot :: "fsm \<Rightarrow> fsm_snapshot" where
  "Snapshot f =
     \<lparr>sn_nodes = nodes f, sn_primaryWriterID = primaryWriterID f,
      sn_activeCompactorID = activeCompactorID f, sn_files = files f, sn_tokens = tokens f,
      sn_organizations = organizations f, sn_teams = teams f, sn_roles = roles f,
      sn_measurementPermissions = measurementPermissions f, sn_tokenMemberships = tokenMemberships f\<rparr>"

text \<open>The wire format: a map from keys to pointers.\<close>

record FSMSnapshot =
  Nodes :: "string \<rightharpoonup> node_info"
  PrimaryWriterID :: string
  ActiveCompactorID :: string
  Files :: "string \<rightharpoonup> file_entry option"
  Tokens :: "int64 \<rightharpoonup> token_entry option"
  Organizations :: "int64 \<rightharpoonup> organization_entry option"
  Teams :: "int64 \<rightharpoonup> team_entry option"
  Roles :: "int64 \<rightharpoonup> role_entry option"
  MeasurementPermissions :: "int64 \<rightharpoonup> measurement_permission_entry option"
  TokenMemberships :: "int64 \<rightharpoonup> token_membership_entry option"

definition pointers :: "('k \<rightharpoonup> 'e) \<Rightarrow> ('k \<rightharpoonup> 'e option)" where
  "pointers m = (\<lambda>k. map_option Some (m k))"

text \<open>What \<open>Persist\<close> marshals and writes to the sink.\<close>

definition Persist :: "fsm_snapshot \<Rightarrow> FSMSnapshot" where
  "Persist s =
     \<lparr>Nodes = sn_nodes s, PrimaryWriterID = sn_primaryWriterID s,
      ActiveCompactorID = sn_activeCompactorID s, Files = pointers (sn_files s),
      Tokens = pointers (sn_tokens s), Organizations = pointers (sn_organizations s),
      Teams = pointers (sn_teams s), Roles = pointers (sn_roles s),
      MeasurementPermissions = pointers (sn_measurementPermissions s),
      TokenMemberships = pointers (sn_tokenMemberships s)\<rparr>"

section \<open>Restoring\<close>

text \<open>
  A validation loop over a map of the snapshot: the entries that are not null and are accepted
  are kept, the others counted.
\<close>

fun filter_loop ::
  "('id \<Rightarrow> 'e \<Rightarrow> bool) \<Rightarrow> ('id \<rightharpoonup> 'e option) \<Rightarrow> 'id list \<Rightarrow> ('id \<rightharpoonup> 'e) \<times> nat \<Rightarrow> ('id \<rightharpoonup> 'e) \<times> nat" where
  "filter_loop accept snap [] acc = acc"
| "filter_loop accept snap (x # xs) (m, rejected) =
     (case snap x of
        Some (Some e) \<Rightarrow>
          if accept x e then filter_loop accept snap xs (m(x \<mapsto> e), rejected)
          else filter_loop accept snap xs (m, Suc rejected)
      | _ \<Rightarrow> filter_loop accept snap xs (m, Suc rejected))"

text \<open>The same with a check for duplicate keys against the entries kept so far.\<close>

fun unique_loop ::
  "('id \<Rightarrow> 'e \<Rightarrow> bool) \<Rightarrow> ('e \<Rightarrow> 'k) \<Rightarrow> ('id \<rightharpoonup> 'e option) \<Rightarrow> 'id list \<Rightarrow>
   ('id \<rightharpoonup> 'e) \<times> ('k \<rightharpoonup> 'id) \<times> nat \<Rightarrow> ('id \<rightharpoonup> 'e) \<times> ('k \<rightharpoonup> 'id) \<times> nat" where
  "unique_loop accept key snap [] acc = acc"
| "unique_loop accept key snap (x # xs) (m, seen, rejected) =
     (case snap x of
        Some (Some e) \<Rightarrow>
          if \<not> accept x e then unique_loop accept key snap xs (m, seen, Suc rejected)
          else (case seen (key e) of
            Some dupID \<Rightarrow> unique_loop accept key snap xs (m, seen, Suc rejected)
          | None \<Rightarrow> unique_loop accept key snap xs (m(x \<mapsto> e), seen(key e \<mapsto> x), rejected))
      | _ \<Rightarrow> unique_loop accept key snap xs (m, seen, Suc rejected))"

text \<open>
  The tables a restore installs, with the number of entries refused; for the tables with a unique
  key also the keys seen so far.  The later loops read the tables of the earlier ones.
\<close>

definition r_files :: "ranges \<Rightarrow> FSMSnapshot \<Rightarrow> (string \<rightharpoonup> file_entry) \<times> nat" where
  "r_files R s = filter_loop (\<lambda>path e. ValidateManifestPath path = None) (Files s)
     (names_order R (dom (Files s))) (Map.empty, 0)"

definition r_tokens :: "ranges \<Rightarrow> FSMSnapshot \<Rightarrow> (int64 \<rightharpoonup> token_entry) \<times> nat" where
  "r_tokens R s = filter_loop (\<lambda>x e. validateTokenEntry (Some e) = None) (Tokens s)
     (ids_order R (dom (Tokens s))) (Map.empty, 0)"

definition r_orgs :: "ranges \<Rightarrow> FSMSnapshot \<Rightarrow> (int64 \<rightharpoonup> organization_entry) \<times> (string \<rightharpoonup> int64) \<times> nat" where
  "r_orgs R s = unique_loop (\<lambda>x e. valid_org e) o_Name (Organizations s)
     (ids_order R (dom (Organizations s))) (Map.empty, Map.empty, 0)"

definition r_teams :: "ranges \<Rightarrow> FSMSnapshot \<Rightarrow> (int64 \<rightharpoonup> team_entry) \<times> (int64 \<times> string \<rightharpoonup> int64) \<times> nat" where
  "r_teams R s = unique_loop (\<lambda>x e. valid_team e \<and> fst (r_orgs R s) (tm_OrganizationID e) \<noteq> None) team_key
     (Teams s) (ids_order R (dom (Teams s))) (Map.empty, Map.empty, 0)"

definition r_roles :: "ranges \<Rightarrow> FSMSnapshot \<Rightarrow> (int64 \<rightharpoonup> role_entry) \<times> nat" where
  "r_roles R s = filter_loop (\<lambda>x e. valid_role e \<and> fst (r_teams R s) (r_TeamID e) \<noteq> None) (Roles s)
     (ids_order R (dom (Roles s))) (Map.empty, 0)"

definition r_mperms :: "ranges \<Rightarrow> FSMSnapshot \<Rightarrow> (int64 \<rightharpoonup> measurement_permission_entry) \<times> nat" where
  "r_mperms R s = filter_loop (\<lambda>x e. valid_mperm e \<and> fst (r_roles R s) (mp_RoleID e) \<noteq> None)
     (MeasurementPermissions s) (ids_order R (dom (MeasurementPermissions s))) (Map.empty, 0)"

definition r_members :: "ranges \<Rightarrow> FSMSnapshot \<Rightarrow> (int64 \<rightharpoonup> token_membership_entry) \<times> (int64 \<times> int64 \<rightharpoonup> int64) \<times> nat" where
  "r_members R s = unique_loop (\<lambda>x e. valid_member e \<and> fst (r_tokens R s) (m_TokenID e) \<noteq> None \<and>
       fst (r_teams R s) (m_TeamID e) \<noteq> None) member_key (TokenMemberships s)
     (ids_order R (dom (TokenMemberships s))) (Map.empty, Map.empty, 0)"

lemmas r_defs = r_files_def r_tokens_def r_orgs_def r_teams_def r_roles_def r_mperms_def r_members_def

text \<open>The installation, under the lock: the tables, and every index rebuilt from its table.\<close>

definition install_restored :: "ranges \<Rightarrow> FSMSnapshot \<Rightarrow> fsm \<Rightarrow> fsm" where
  "install_restored R s f =
     (let fs = fst (r_files R s); ts = fst (r_tokens R s); os = fst (r_orgs R s); tms = fst (r_teams R s);
          rs = fst (r_roles R s); ps = fst (r_mperms R s); ms = fst (r_members R s)
      in f\<lparr>nodes := Nodes s, primaryWriterID := PrimaryWriterID s, activeCompactorID := ActiveCompactorID s,
           files := fs, filesByDB := build_index sadd f_Database fs (names_order R (dom fs)) Map.empty,
           tokens := ts, tokensByPrefix := build_index ladd t_TokenPrefix ts (ids_order R (dom ts)) Map.empty,
           tokensByName := build_index mput t_Name ts (ids_order R (dom ts)) Map.empty,
           organizations := os, organizationsByName := build_index mput o_Name os (ids_order R (dom os)) Map.empty,
           teams := tms, teamsByOrg := build_index nput team_key tms (ids_order R (dom tms)) Map.empty,
           roles := rs, rolesByTeam := build_index sadd r_TeamID rs (ids_order R (dom rs)) Map.empty,
           measurementPermissions := ps,
           measurementPermsByRole := build_index sadd mp_RoleID ps (ids_order R (dom ps)) Map.empty,
           tokenMemberships := ms,
           tokenMembershipsByPair := build_index nput member_key ms (ids_order R (dom ms)) Map.empty,
           tokenMembershipsByToken := build_index sadd m_TokenID ms (ids_order R (dom ms)) Map.empty,
           tokenMembershipsByTeam := build_index sadd m_TeamID ms (ids_order R (dom ms)) Map.empty,
           keysCache := None\<rparr>)"

definition Restore :: "ranges \<Rightarrow> FSMSnapshot option \<Rightarrow> fsm \<Rightarrow> fsm \<times> fsm_error option" where
  "Restore R decoded f =
     (case decoded of
        None \<Rightarrow> (f, Some (UnmarshalPayload ''snapshot''))
      | Some s \<Rightarrow>
          (install_restored R s
             (f\<lparr>rejectedPaths := rejectedPaths f + snd (r_files R s),
                rejectedTokens := rejectedTokens f + snd (r_tokens R s),
                rejectedRBAC := rejectedRBAC f + snd (snd (r_orgs R s)) + snd (snd (r_teams R s)) +
                  snd (r_roles R s) + snd (r_mperms R s) + snd (snd (r_members R s))\<rparr>), None))"

lemmas Restore_some = Restore_def [of _ "Some s" for s, unfolded option.case install_restored_def Let_def]

section \<open>What the loops keep\<close>

lemma filter_loop_fst:
  "fst (filter_loop accept snap xs (m, n)) x = Some e \<longleftrightarrow>
     (if x \<in> set xs \<and> (\<exists>e. snap x = Some (Some e) \<and> accept x e) then snap x = Some (Some e) else m x = Some e)"
  by (induction xs arbitrary: m n) (auto split: option.split)

lemma filter_loop_all:
  "\<forall>x\<in>set xs. \<exists>e. snap x = Some (Some e) \<and> accept x e \<Longrightarrow> snd (filter_loop accept snap xs (m, n)) = n"
  by (induction xs arbitrary: m n) auto

text \<open>On a map without nulls whose entries are all accepted the loop is the identity.\<close>

lemma filter_loop_id:
  assumes "set xs = dom m" and "\<And>x e. m x = Some e \<Longrightarrow> accept x e"
  shows "filter_loop accept (pointers m) xs (Map.empty, 0) = (m, 0)"
proof (rule prod_eqI)
  show "fst (filter_loop accept (pointers m) xs (Map.empty, 0)) = fst (m, 0 :: nat)"
    using assms by (intro map_eqI_Some) (auto simp: filter_loop_fst pointers_def)
  show "snd (filter_loop accept (pointers m) xs (Map.empty, 0)) = snd (m, 0 :: nat)"
    using assms by (auto intro!: filter_loop_all simp: pointers_def)
qed

text \<open>The loop with the duplicate check: what it keeps is accepted and has unique keys.\<close>

lemma unique_loop_keeps:
  assumes "uniq_ok mget key m seen" and "\<And>x e. m x = Some e \<Longrightarrow> snap x = Some (Some e) \<and> accept x e"
    and "set xs \<inter> dom m = {}" and "distinct xs"
  shows "uniq_ok mget key (fst (unique_loop accept key snap xs (m, seen, n)))
           (fst (snd (unique_loop accept key snap xs (m, seen, n)))) \<and>
         (\<forall>x e. fst (unique_loop accept key snap xs (m, seen, n)) x = Some e \<longrightarrow>
                snap x = Some (Some e) \<and> accept x e)"
  using assms
proof (induction xs arbitrary: m seen n)
  case Nil
  then show ?case by simp
next
  case (Cons x xs)
  have new: "uniq_ok mget key (m(x \<mapsto> e)) (seen(key e \<mapsto> x))" if "seen (key e) = None" for e
    using name_index.insert_fresh [of key m seen x e] Cons.prems(1,3) that
    by (auto simp: mget_def mput_def)
  show ?case
  proof (cases "\<exists>e. snap x = Some (Some e) \<and> accept x e \<and> seen (key e) = None")
    case True
    then obtain e where e: "snap x = Some (Some e)" "accept x e" "seen (key e) = None" by blast
    then have step: "unique_loop accept key snap (x # xs) (m, seen, n) =
        unique_loop accept key snap xs (m(x \<mapsto> e), seen(key e \<mapsto> x), n)"
      by simp
    have rest: "set xs \<inter> dom (m(x \<mapsto> e)) = {}" "distinct xs"
      using Cons.prems(3,4) by auto
    have kept: "snap y = Some (Some a) \<and> accept y a" if "(m(x \<mapsto> e)) y = Some a" for y a
      using that Cons.prems(2) e by (auto split: if_splits)
    show ?thesis
      unfolding step by (rule Cons.IH [OF new [OF e(3)] kept rest])
  next
    case False
    then have step: "unique_loop accept key snap (x # xs) (m, seen, n) =
        unique_loop accept key snap xs (m, seen, Suc n)"
      by (auto split: option.split)
    have rest: "set xs \<inter> dom m = {}" "distinct xs" using Cons.prems(3,4) by auto
    show ?thesis
      unfolding step by (rule Cons.IH [OF Cons.prems(1,2) rest])
  qed
qed

lemma unique_loop_id:
  assumes "uniq_ok look key m idx" and "set xs \<subseteq> dom m" and "distinct xs"
    and "\<And>x e. m x = Some e \<Longrightarrow> accept x e" and "\<And>k. seen k = None \<or> (\<exists>y e. k = key e \<and> y \<notin> set xs \<and> m y = Some e)"
  shows "\<exists>seen'. unique_loop accept key (pointers m) xs (m', seen, n) = (m' ++ (m |` set xs), seen', n)"
  using assms(2-)
proof (induction xs arbitrary: m' seen)
  case Nil
  show ?case by (intro exI [of _ seen]) (simp add: map_add_def fun_eq_iff)
next
  case (Cons x xs)
  then obtain e where e: "m x = Some e" by auto
  have "seen (key e) = None"
  proof (rule ccontr)
    assume "seen (key e) \<noteq> None"
    with Cons.prems(4) [of "key e"] obtain y e' where "key e = key e'" "y \<notin> set (x # xs)" "m y = Some e'" by auto
    with e assms(1) show False unfolding uniq_ok_def by (metis list.set_intros(1) option.inject)
  qed
  moreover have "accept x e" using Cons.prems(3) e .
  moreover have "\<exists>seen'. unique_loop accept key (pointers m) xs (m'(x \<mapsto> e), seen(key e \<mapsto> x), n) =
      (m'(x \<mapsto> e) ++ (m |` set xs), seen', n)"
  proof (rule Cons.IH)
    show "(seen(key e \<mapsto> x)) k = None \<or> (\<exists>y e. k = key e \<and> y \<notin> set xs \<and> m y = Some e)" for k
      using Cons.prems(2,4) e by (cases "k = key e") auto
  qed (use Cons.prems in auto)
  moreover have "m'(x \<mapsto> e) ++ (m |` set xs) = m' ++ (m |` set (x # xs))"
    using Cons.prems(2) e by (auto simp: map_add_def fun_eq_iff restrict_map_def split: option.split)
  ultimately show ?case
    using e by (simp add: pointers_def)
qed

text \<open>Every entry of the map is kept or counted.\<close>

lemma filter_loop_count:
  "distinct xs \<Longrightarrow> finite (dom m) \<Longrightarrow> set xs \<inter> dom m = {} \<Longrightarrow>
   finite (dom (fst (filter_loop accept snap xs (m, n)))) \<and>
   card (dom (fst (filter_loop accept snap xs (m, n)))) + snd (filter_loop accept snap xs (m, n)) =
     card (dom m) + n + length xs"
proof (induction xs arbitrary: m n)
  case Nil
  then show ?case by simp
next
  case (Cons x xs)
  have rest: "distinct xs" "set xs \<inter> dom m = {}" using Cons.prems by auto
  show ?case
  proof (cases "\<exists>e. snap x = Some (Some e) \<and> accept x e")
    case True
    then obtain e where step: "filter_loop accept snap (x # xs) (m, n) = filter_loop accept snap xs (m(x \<mapsto> e), n)"
      by auto
    have card: "card (dom (m(x \<mapsto> e))) = Suc (card (dom m))"
      and ok: "finite (dom (m(x \<mapsto> e)))" "set xs \<inter> dom (m(x \<mapsto> e)) = {}"
      using Cons.prems by (auto simp: card_insert_if)
    let ?r = "filter_loop accept snap xs (m(x \<mapsto> e), n)"
    have "finite (dom (fst ?r)) \<and> card (dom (fst ?r)) + snd ?r = card (dom (m(x \<mapsto> e))) + n + length xs"
      by (rule Cons.IH [OF rest(1) ok])
    then show ?thesis unfolding step card by (simp del: fun_upd_apply)
  next
    case False
    then have step: "filter_loop accept snap (x # xs) (m, n) = filter_loop accept snap xs (m, Suc n)"
      by (auto split: option.split)
    from Cons.IH [OF rest(1) Cons.prems(2) rest(2), of "Suc n"] show ?thesis unfolding step by simp
  qed
qed

lemma unique_loop_count:
  "distinct xs \<Longrightarrow> finite (dom m) \<Longrightarrow> set xs \<inter> dom m = {} \<Longrightarrow>
   finite (dom (fst (unique_loop accept key snap xs (m, seen, n)))) \<and>
   card (dom (fst (unique_loop accept key snap xs (m, seen, n)))) +
       snd (snd (unique_loop accept key snap xs (m, seen, n))) =
     card (dom m) + n + length xs"
proof (induction xs arbitrary: m seen n)
  case Nil
  then show ?case by simp
next
  case (Cons x xs)
  have rest: "distinct xs" "set xs \<inter> dom m = {}" using Cons.prems by auto
  show ?case
  proof (cases "\<exists>e. snap x = Some (Some e) \<and> accept x e \<and> seen (key e) = None")
    case True
    then obtain e where step: "unique_loop accept key snap (x # xs) (m, seen, n) =
        unique_loop accept key snap xs (m(x \<mapsto> e), seen(key e \<mapsto> x), n)"
      by auto
    have card: "card (dom (m(x \<mapsto> e))) = Suc (card (dom m))"
      and ok: "finite (dom (m(x \<mapsto> e)))" "set xs \<inter> dom (m(x \<mapsto> e)) = {}"
      using Cons.prems by (auto simp: card_insert_if)
    let ?r = "unique_loop accept key snap xs (m(x \<mapsto> e), seen(key e \<mapsto> x), n)"
    have "finite (dom (fst ?r)) \<and> card (dom (fst ?r)) + snd (snd ?r) = card (dom (m(x \<mapsto> e))) + n + length xs"
      by (rule Cons.IH [OF rest(1) ok])
    then show ?thesis unfolding step card by (simp del: fun_upd_apply)
  next
    case False
    then have step: "unique_loop accept key snap (x # xs) (m, seen, n) = unique_loop accept key snap xs (m, seen, Suc n)"
      by (auto split: option.split)
    from Cons.IH [OF rest(1) Cons.prems(2) rest(2), of seen "Suc n"] show ?thesis unfolding step by simp
  qed
qed

section \<open>What a restore establishes\<close>

text \<open>
  What the snapshot must satisfy because \<open>Restore\<close> does not check it: its maps are finite, each
  entry is stored under its own id, and no two tokens share a name.
\<close>

definition snapshot_ids_ok :: "FSMSnapshot \<Rightarrow> bool" where
  "snapshot_ids_ok s \<longleftrightarrow>
     finite (dom (Nodes s)) \<and> (\<forall>x n. Nodes s x = Some n \<longrightarrow> n_ID n = x) \<and>
     finite (dom (Files s)) \<and> (\<forall>x e. Files s x = Some (Some e) \<longrightarrow> f_Path e = x) \<and>
     finite (dom (Tokens s)) \<and> (\<forall>x e. Tokens s x = Some (Some e) \<longrightarrow> t_ID e = x) \<and>
     finite (dom (Organizations s)) \<and> (\<forall>x e. Organizations s x = Some (Some e) \<longrightarrow> o_ID e = x) \<and>
     finite (dom (Teams s)) \<and> (\<forall>x e. Teams s x = Some (Some e) \<longrightarrow> tm_ID e = x) \<and>
     finite (dom (Roles s)) \<and> (\<forall>x e. Roles s x = Some (Some e) \<longrightarrow> r_ID e = x) \<and>
     finite (dom (MeasurementPermissions s)) \<and>
       (\<forall>x e. MeasurementPermissions s x = Some (Some e) \<longrightarrow> mp_ID e = x) \<and>
     finite (dom (TokenMemberships s)) \<and> (\<forall>x e. TokenMemberships s x = Some (Some e) \<longrightarrow> m_ID e = x) \<and>
     (\<forall>x y a b. Tokens s x = Some (Some a) \<longrightarrow> Tokens s y = Some (Some b) \<longrightarrow> t_Name a = t_Name b \<longrightarrow> x = y)"

lemma filter_loop_keyed:
  assumes "ranges_ok R" and "finite (dom snap)" and "\<And>x e. snap x = Some (Some e) \<Longrightarrow> key e = x"
    and "\<And>x e. accept x e \<Longrightarrow> valid e" and "m = fst (filter_loop accept snap (ids_order R (dom snap)) (Map.empty, 0))"
  shows "keyed key valid m" and "\<And>x e. m x = Some e \<Longrightarrow> snap x = Some (Some e) \<and> accept x e"
proof -
  show mem: "m x = Some e \<Longrightarrow> snap x = Some (Some e) \<and> accept x e" for x e
    unfolding assms(5) filter_loop_fst by (auto split: if_splits)
  have "dom m \<subseteq> dom snap" using mem by blast
  then show "keyed key valid m"
    using assms(2,3,4) mem unfolding keyed_def by (metis finite_subset)
qed

lemma unique_loop_keyed:
  assumes "ranges_ok R" and "finite (dom snap)" and "\<And>x e. snap x = Some (Some e) \<Longrightarrow> id_of e = x"
    and "\<And>x e. accept x e \<Longrightarrow> valid e"
    and "m = fst (unique_loop accept key snap (ids_order R (dom snap)) (Map.empty, Map.empty, 0))"
  shows "keyed id_of valid m" and "\<And>x e. m x = Some e \<Longrightarrow> snap x = Some (Some e) \<and> accept x e"
    and "\<And>x y a b. m x = Some a \<Longrightarrow> m y = Some b \<Longrightarrow> key a = key b \<Longrightarrow> x = y"
proof -
  have "uniq_ok mget key Map.empty Map.empty" by (simp add: uniq_ok_def mget_def)
  from unique_loop_keeps [OF this, of snap accept "ids_order R (dom snap)" 0] assms(1,2)
  have uniq: "uniq_ok mget key m (fst (snd (unique_loop accept key snap (ids_order R (dom snap)) (Map.empty, Map.empty, 0))))"
    and mem: "\<And>x e. m x = Some e \<Longrightarrow> snap x = Some (Some e) \<and> accept x e"
    unfolding assms(5) by simp_all
  show "m x = Some e \<Longrightarrow> snap x = Some (Some e) \<and> accept x e" for x e by (rule mem)
  have "dom m \<subseteq> dom snap" using mem by blast
  then show "keyed id_of valid m"
    using assms(2,3,4) mem unfolding keyed_def by (metis finite_subset)
  show "m x = Some a \<Longrightarrow> m y = Some b \<Longrightarrow> key a = key b \<Longrightarrow> x = y" for x y a b
    by (rule name_index.keys_unique [OF uniq])
qed

lemma restore_fsm_ok:
  assumes "ranges_ok R" and ids: "snapshot_ids_ok s"
  shows "fsm_ok (fst (Restore R (Some s) f))"
proof -
  let ?h = "fst (Restore R (Some s) f)"
  from ids have fin: "finite (dom (Files s))" "finite (dom (Tokens s))" "finite (dom (Organizations s))"
    "finite (dom (Teams s))" "finite (dom (Roles s))" "finite (dom (MeasurementPermissions s))"
    "finite (dom (TokenMemberships s))"
    by (simp_all add: snapshot_ids_ok_def)
  have keys: "\<And>x e. Tokens s x = Some (Some e) \<Longrightarrow> t_ID e = x" "\<And>x e. Organizations s x = Some (Some e) \<Longrightarrow> o_ID e = x"
    "\<And>x e. Teams s x = Some (Some e) \<Longrightarrow> tm_ID e = x" "\<And>x e. Roles s x = Some (Some e) \<Longrightarrow> r_ID e = x"
    "\<And>x e. MeasurementPermissions s x = Some (Some e) \<Longrightarrow> mp_ID e = x"
    "\<And>x e. TokenMemberships s x = Some (Some e) \<Longrightarrow> m_ID e = x"
    "\<And>x e. Files s x = Some (Some e) \<Longrightarrow> f_Path e = x"
    "\<And>x y a b. Tokens s x = Some (Some a) \<Longrightarrow> Tokens s y = Some (Some b) \<Longrightarrow> t_Name a = t_Name b \<Longrightarrow> x = y"
    using ids unfolding snapshot_ids_ok_def by blast+
  have T: "keyed t_ID valid_token (fst (r_tokens R s))"
    and T_acc: "\<And>x e. fst (r_tokens R s) x = Some e \<Longrightarrow> Tokens s x = Some (Some e) \<and> validateTokenEntry (Some e) = None"
    using filter_loop_keyed [OF assms(1) fin(2) keys(1) _ r_tokens_def [THEN arg_cong [where f = fst]], where valid = "valid_token"]
    by (simp_all add: valid_token_entry)
  have O: "keyed o_ID valid_org (fst (r_orgs R s))"
    and O_acc: "\<And>x e. fst (r_orgs R s) x = Some e \<Longrightarrow> Organizations s x = Some (Some e) \<and> valid_org e"
    and O_key: "\<And>x y a b. fst (r_orgs R s) x = Some a \<Longrightarrow> fst (r_orgs R s) y = Some b \<Longrightarrow> o_Name a = o_Name b \<Longrightarrow> x = y"
    using unique_loop_keyed [OF assms(1) fin(3) keys(2) _ r_orgs_def [THEN arg_cong [where f = fst]], where valid = "valid_org"]
    by (simp_all add: valid_token_entry)
  have E: "keyed tm_ID valid_team (fst (r_teams R s))"
    and E_acc: "\<And>x e. fst (r_teams R s) x = Some e \<Longrightarrow> Teams s x = Some (Some e) \<and> valid_team e \<and> fst (r_orgs R s) (tm_OrganizationID e) \<noteq> None"
    and E_key: "\<And>x y a b. fst (r_teams R s) x = Some a \<Longrightarrow> fst (r_teams R s) y = Some b \<Longrightarrow> team_key a = team_key b \<Longrightarrow> x = y"
    using unique_loop_keyed [OF assms(1) fin(4) keys(3) _ r_teams_def [THEN arg_cong [where f = fst]], where valid = "valid_team"]
    by (simp_all add: valid_token_entry)
  have L: "keyed r_ID valid_role (fst (r_roles R s))"
    and L_acc: "\<And>x e. fst (r_roles R s) x = Some e \<Longrightarrow> Roles s x = Some (Some e) \<and> valid_role e \<and> fst (r_teams R s) (r_TeamID e) \<noteq> None"
    using filter_loop_keyed [OF assms(1) fin(5) keys(4) _ r_roles_def [THEN arg_cong [where f = fst]], where valid = "valid_role"]
    by (simp_all add: valid_token_entry)
  have P: "keyed mp_ID valid_mperm (fst (r_mperms R s))"
    and P_acc: "\<And>x e. fst (r_mperms R s) x = Some e \<Longrightarrow> MeasurementPermissions s x = Some (Some e) \<and> valid_mperm e \<and> fst (r_roles R s) (mp_RoleID e) \<noteq> None"
    using filter_loop_keyed [OF assms(1) fin(6) keys(5) _ r_mperms_def [THEN arg_cong [where f = fst]], where valid = "valid_mperm"]
    by (simp_all add: valid_token_entry)
  have M: "keyed m_ID valid_member (fst (r_members R s))"
    and M_acc: "\<And>x e. fst (r_members R s) x = Some e \<Longrightarrow> TokenMemberships s x = Some (Some e) \<and> valid_member e \<and> fst (r_tokens R s) (m_TokenID e) \<noteq> None \<and> fst (r_teams R s) (m_TeamID e) \<noteq> None"
    and M_key: "\<And>x y a b. fst (r_members R s) x = Some a \<Longrightarrow> fst (r_members R s) y = Some b \<Longrightarrow> member_key a = member_key b \<Longrightarrow> x = y"
    using unique_loop_keyed [OF assms(1) fin(7) keys(6) _ r_members_def [THEN arg_cong [where f = fst]], where valid = "valid_member"]
    by (simp_all add: valid_token_entry)
  have F: "fst (r_files R s) x = Some e \<Longrightarrow> f_Path e = x \<and> ValidateManifestPath x = None" for x e
    using keys(7) unfolding r_files_def filter_loop_fst by (auto split: if_splits)
  have "dom (fst (r_files R s)) \<subseteq> dom (Files s)"
    unfolding r_files_def by (auto simp: filter_loop_fst split: if_splits)
  then have F_fin: "finite (dom (fst (r_files R s)))" using fin(1) finite_subset by blast
  have T_key: "x = y" if "fst (r_tokens R s) x = Some a" "fst (r_tokens R s) y = Some b" "t_Name a = t_Name b" for x y a b
    using keys(8) T_acc that by blast
  have listed: "set (ids_order R (dom m)) = dom m" "distinct (ids_order R (dom m))" if "keyed k v m"
    for k :: "'e \<Rightarrow> int64" and v and m :: "int64 \<rightharpoonup> 'e"
    using assms(1) that by simp_all
  have "tokens_tab ?h"
    using T name_index.build [where key = t_Name, OF listed(1) [OF T] T_key] slice_index.build [where fk = t_TokenPrefix, OF listed(1) [OF T]]
      ltidy_build [where fk = t_TokenPrefix and m = "fst (r_tokens R s)", OF ltidy_empty listed(2) [OF T]]
    by (simp add: Restore_some Let_def tokens_tab_def index_simps)
  moreover have "orgs_tab ?h"
    using O name_index.build [where key = o_Name, OF listed(1) [OF O] O_key]
    by (simp add: Restore_some Let_def orgs_tab_def)
  moreover have "teams_tab ?h"
    using E pair_index.build [where key = team_key, OF listed(1) [OF E] E_key]
    by (simp add: Restore_some Let_def teams_tab_def)
  moreover have "roles_tab ?h"
    using L set_index.build [where fk = r_TeamID, OF listed(1) [OF L]]
    by (simp add: Restore_some Let_def roles_tab_def)
  moreover have "mperms_tab ?h"
    using P set_index.build [where fk = mp_RoleID, OF listed(1) [OF P]]
    by (simp add: Restore_some Let_def mperms_tab_def)
  moreover have "members_tab ?h"
    using M pair_index.build [where key = member_key, OF listed(1) [OF M] M_key] set_index.build [where fk = m_TokenID, OF listed(1) [OF M]]
      set_index.build [where fk = m_TeamID, OF listed(1) [OF M]]
    by (simp add: Restore_some Let_def members_defs)
  moreover have "refs_ok ?h"
    using E_acc L_acc P_acc M_acc unfolding refs_ok_def refers_def
    by (simp add: Restore_some Let_def del: not_None_eq)
  moreover have "nodes_ok ?h"
    using ids by (simp add: Restore_some Let_def nodes_ok_def snapshot_ids_ok_def)
  moreover have "files_ok ?h"
  proof -
    have "fk_ok sget f_Database (files ?h) (filesByDB ?h)"
      using set_index.build [of "names_order R (dom (fst (r_files R s)))" "fst (r_files R s)" f_Database] assms(1) F_fin
      by (simp add: Restore_some Let_def)
    then have "db_index_ok ?h"
      by (intro db_index_okI) (auto simp: db_of_def set_index.lookup_iff Restore_some Let_def)
    then show ?thesis
      using F F_fin by (simp add: files_ok_def paths_ok_def cache_ok_def Restore_some Let_def)
  qed
  ultimately show ?thesis by (simp add: fsm_ok_def auth_ok_def)
qed

section \<open>Properties\<close>

lemma filter_loop_counted:
  assumes "set xs = dom snap" and "distinct xs"
  shows "card (dom (fst (filter_loop accept snap xs (Map.empty, 0)))) +
           snd (filter_loop accept snap xs (Map.empty, 0)) = card (dom snap)"
  using filter_loop_count [OF assms(2), of Map.empty accept snap 0] distinct_card [OF assms(2)] assms(1)
  by simp

lemma unique_loop_counted:
  assumes "set xs = dom snap" and "distinct xs"
  shows "card (dom (fst (unique_loop accept key snap xs (Map.empty, Map.empty, 0)))) +
           snd (snd (unique_loop accept key snap xs (Map.empty, Map.empty, 0))) = card (dom snap)"
  using unique_loop_count [OF assms(2), of Map.empty accept key snap Map.empty 0] distinct_card [OF assms(2)] assms(1)
  by simp

text \<open>
  A restore quarantines.  From any snapshot whose entries carry their own ids (and whose
  tokens have distinct names), \<open>Restore\<close> sets up a state in which the whole invariant holds:
  every path and every token and RBAC entry is valid, names, team names and memberships are
  unique, no reference dangles, and every index is exact.  Every file of the snapshot is
  restored or counted as rejected, and so are the tokens and the RBAC entries.
\<close>

theorem restore_establishes_invariant:
  assumes "ranges_ok R" and "snapshot_ids_ok s" and "h = fst (Restore R (Some s) f)"
  shows "fsm_ok h \<and> validateTokenEntry ` Some ` ran (tokens h) \<subseteq> {None} \<and>
         card (dom (files h)) + rejectedPaths h = rejectedPaths f + card (dom (Files s)) \<and>
         card (dom (tokens h)) + rejectedTokens h = rejectedTokens f + card (dom (Tokens s)) \<and>
         card (dom (organizations h)) + card (dom (teams h)) + card (dom (roles h)) +
           card (dom (measurementPermissions h)) + card (dom (tokenMemberships h)) + rejectedRBAC h =
         rejectedRBAC f + card (dom (Organizations s)) + card (dom (Teams s)) + card (dom (Roles s)) +
           card (dom (MeasurementPermissions s)) + card (dom (TokenMemberships s))"
proof -
  from assms(2) have fin: "finite (dom (Files s))" "finite (dom (Tokens s))" "finite (dom (Organizations s))"
    "finite (dom (Teams s))" "finite (dom (Roles s))" "finite (dom (MeasurementPermissions s))"
    "finite (dom (TokenMemberships s))"
    by (simp_all add: snapshot_ids_ok_def)
  have F: "card (dom (fst (r_files R s))) + snd (r_files R s) = card (dom (Files s))"
    unfolding r_files_def by (rule filter_loop_counted) (use assms(1) fin(1) in simp_all)
  have T: "card (dom (fst (r_tokens R s))) + snd (r_tokens R s) = card (dom (Tokens s))"
    unfolding r_tokens_def by (rule filter_loop_counted) (use assms(1) fin(2) in simp_all)
  have RB: "card (dom (fst (r_orgs R s))) + snd (snd (r_orgs R s)) = card (dom (Organizations s))"
    "card (dom (fst (r_teams R s))) + snd (snd (r_teams R s)) = card (dom (Teams s))"
    "card (dom (fst (r_members R s))) + snd (snd (r_members R s)) = card (dom (TokenMemberships s))"
    unfolding r_orgs_def r_teams_def r_members_def
    by (rule unique_loop_counted; use assms(1) fin in simp)+
  have RB': "card (dom (fst (r_roles R s))) + snd (r_roles R s) = card (dom (Roles s))"
    "card (dom (fst (r_mperms R s))) + snd (r_mperms R s) = card (dom (MeasurementPermissions s))"
    unfolding r_roles_def r_mperms_def
    by (rule filter_loop_counted; use assms(1) fin in simp)+
  have "validateTokenEntry (Some e) = None" if "fst (r_tokens R s) x = Some e" for x e
    using that unfolding r_tokens_def filter_loop_fst by (auto split: if_splits)
  then have "validateTokenEntry ` Some ` ran (tokens h) \<subseteq> {None}"
    by (auto simp: assms(3) Restore_some Let_def ran_def)
  moreover have "fsm_ok h" unfolding assms(3) by (rule restore_fsm_ok [OF assms(1,2)])
  ultimately show ?thesis
    using F T RB RB' by (simp add: assms(3) Restore_some Let_def)
qed

lemma snapshot_ids_ok_of_state:
  assumes "fsm_ok f"
  shows "snapshot_ids_ok (Persist (Snapshot f))"
proof -
  have dom: "dom (pointers m) = dom m" and some: "pointers m x = Some (Some e) \<longleftrightarrow> m x = Some e" for m :: "'k \<rightharpoonup> 'e" and x e
    by (auto simp: pointers_def dom_def)
  have names: "x = y" if "tokens f x = Some a" "tokens f y = Some b" "t_Name a = t_Name b" for x y a b
    using assms that name_index.keys_unique [of t_Name "tokens f" "tokensByName f"]
    by (auto simp: fsm_ok_def auth_ok_def tokens_tab_def)
  have "finite (dom (nodes f))" "\<forall>x n. nodes f x = Some n \<longrightarrow> n_ID n = x"
    "finite (dom (files f))" "\<forall>x e. files f x = Some e \<longrightarrow> f_Path e = x"
    using assms unfolding fsm_ok_def nodes_ok_def files_ok_def paths_ok_def by blast+
  moreover have "keyed t_ID valid_token (tokens f)" "keyed o_ID valid_org (organizations f)"
    "keyed tm_ID valid_team (teams f)" "keyed r_ID valid_role (roles f)"
    "keyed mp_ID valid_mperm (measurementPermissions f)" "keyed m_ID valid_member (tokenMemberships f)"
    using assms by (simp_all add: fsm_ok_def auth_ok_def tab_defs)
  ultimately show ?thesis
    using names unfolding snapshot_ids_ok_def Persist_def Snapshot_def
    by (simp add: dom some keyed_def)
qed

text \<open>Every entry of a table is valid and has its parents.\<close>

lemma org_entry_ok: "auth_ok f \<Longrightarrow> organizations f x = Some e \<Longrightarrow> valid_org e"
  unfolding auth_ok_def orgs_tab_def keyed_def by blast

lemma team_entry_ok:
  "auth_ok f \<Longrightarrow> teams f x = Some e \<Longrightarrow> valid_team e \<and> organizations f (tm_OrganizationID e) \<noteq> None"
  unfolding auth_ok_def teams_tab_def refs_ok_def keyed_def refers_def by blast

lemma role_entry_ok:
  "auth_ok f \<Longrightarrow> roles f x = Some e \<Longrightarrow> valid_role e \<and> teams f (r_TeamID e) \<noteq> None"
  unfolding auth_ok_def roles_tab_def refs_ok_def keyed_def refers_def by blast

lemma mperm_entry_ok:
  "auth_ok f \<Longrightarrow> measurementPermissions f x = Some e \<Longrightarrow> valid_mperm e \<and> roles f (mp_RoleID e) \<noteq> None"
  unfolding auth_ok_def mperms_tab_def refs_ok_def keyed_def refers_def by blast

lemma member_entry_ok:
  "auth_ok f \<Longrightarrow> tokenMemberships f x = Some e \<Longrightarrow>
   valid_member e \<and> tokens f (m_TokenID e) \<noteq> None \<and> teams f (m_TeamID e) \<noteq> None"
  unfolding auth_ok_def members_defs refs_ok_def keyed_def refers_def by blast

lemma restored_tables:
  assumes "ranges_ok R" and "fsm_ok f" and "validateTokenEntry ` Some ` ran (tokens f) \<subseteq> {None}"
    and s: "s = Persist (Snapshot f)"
  shows "r_files R s = (files f, 0)" and "r_tokens R s = (tokens f, 0)"
    and "fst (r_orgs R s) = organizations f \<and> snd (snd (r_orgs R s)) = 0"
    and "fst (r_teams R s) = teams f \<and> snd (snd (r_teams R s)) = 0"
    and "r_roles R s = (roles f, 0)" and "r_mperms R s = (measurementPermissions f, 0)"
    and "fst (r_members R s) = tokenMemberships f \<and> snd (snd (r_members R s)) = 0"
proof -
  have dom: "dom (pointers m) = dom m" for m :: "'k \<rightharpoonup> 'e"
    by (auto simp: pointers_def dom_def)
  have auth: "auth_ok f" using assms(2) by (simp add: fsm_ok_def)
  have tabs: "orgs_tab f" "teams_tab f" "roles_tab f" "mperms_tab f" "members_tab f" "tokens_tab f" "refs_ok f"
    using assms(2) by (simp_all add: fsm_ok_def auth_ok_def)
  have "finite (dom (files f))" "files f x = Some e \<Longrightarrow> ValidateManifestPath x = None" for x e
    using assms(2) unfolding fsm_ok_def files_ok_def paths_ok_def by blast+
  then show "r_files R s = (files f, 0)"
    unfolding r_files_def s Persist_def Snapshot_def using assms(1)
    by (simp add: dom filter_loop_id)
  have "validateTokenEntry (Some e) = None" if "tokens f x = Some e" for x e
    using that assms(3) by (auto simp: ran_def)
  moreover have "finite (dom (tokens f))" using tabs(6) by (auto simp: tokens_tab_def intro: keyed_finite)
  ultimately show tok: "r_tokens R s = (tokens f, 0)"
    unfolding r_tokens_def s Persist_def Snapshot_def using assms(1)
    by (simp add: dom filter_loop_id)
  have id: "fst r = m \<and> snd (snd r) = 0"
    if r: "r = unique_loop accept key (pointers m) (ids_order R (dom m)) (Map.empty, Map.empty, 0)"
      and u: "uniq_ok look key m idx" and fin: "finite (dom m)" and acc: "\<And>x e. m x = Some e \<Longrightarrow> accept x e"
    for r look idx accept and key :: "'e \<Rightarrow> 'k" and m :: "int64 \<rightharpoonup> 'e"
  proof -
    have "\<exists>seen'. unique_loop accept key (pointers m) (ids_order R (dom m)) (Map.empty, Map.empty, 0) =
        (Map.empty ++ (m |` set (ids_order R (dom m))), seen', 0)"
      by (rule unique_loop_id [OF u]) (use acc fin assms(1) in simp_all)
    then obtain seen' where "r = (Map.empty ++ (m |` dom m), seen', 0)" using r fin assms(1) by auto
    moreover have "Map.empty ++ (m |` dom m) = m"
      by (intro map_eqI_Some) (auto simp: restrict_Some_iff)
    ultimately show ?thesis by simp
  qed
  have "r_orgs R s = unique_loop (\<lambda>x e. valid_org e) o_Name (pointers (organizations f))
      (ids_order R (dom (organizations f))) (Map.empty, Map.empty, 0)"
    by (simp add: r_orgs_def s Persist_def Snapshot_def dom)
  then show org: "fst (r_orgs R s) = organizations f \<and> snd (snd (r_orgs R s)) = 0"
  proof (rule id)
    show "uniq_ok mget o_Name (organizations f) (organizationsByName f)" "finite (dom (organizations f))"
      using tabs(1) by (auto simp: orgs_tab_def intro: keyed_finite)
  qed (rule org_entry_ok [OF auth])
  have "r_teams R s = unique_loop (\<lambda>x e. valid_team e \<and> organizations f (tm_OrganizationID e) \<noteq> None) team_key
      (pointers (teams f)) (ids_order R (dom (teams f))) (Map.empty, Map.empty, 0)"
    unfolding r_teams_def org [THEN conjunct1] by (simp add: s Persist_def Snapshot_def dom)
  then show team: "fst (r_teams R s) = teams f \<and> snd (snd (r_teams R s)) = 0"
  proof (rule id)
    show "uniq_ok nget team_key (teams f) (teamsByOrg f)" "finite (dom (teams f))"
      using tabs(2) by (auto simp: teams_tab_def intro: keyed_finite)
  qed (rule team_entry_ok [OF auth])
  note role_entry_ok [OF auth]
  moreover have "finite (dom (roles f))" using tabs(3) by (auto simp: roles_tab_def intro: keyed_finite)
  ultimately show role: "r_roles R s = (roles f, 0)"
    unfolding r_roles_def team [THEN conjunct1] using assms(1)
    by (simp add: s Persist_def Snapshot_def dom filter_loop_id del: not_None_eq)
  note mperm_entry_ok [OF auth]
  moreover have "finite (dom (measurementPermissions f))" using tabs(4) by (auto simp: mperms_tab_def intro: keyed_finite)
  ultimately show "r_mperms R s = (measurementPermissions f, 0)"
    unfolding r_mperms_def role fst_conv using assms(1)
    by (simp add: s Persist_def Snapshot_def dom filter_loop_id del: not_None_eq)
  have "r_members R s = unique_loop (\<lambda>x e. valid_member e \<and> tokens f (m_TokenID e) \<noteq> None \<and>
        teams f (m_TeamID e) \<noteq> None) member_key (pointers (tokenMemberships f))
      (ids_order R (dom (tokenMemberships f))) (Map.empty, Map.empty, 0)"
    unfolding r_members_def tok fst_conv team [THEN conjunct1] by (simp add: s Persist_def Snapshot_def dom)
  then show "fst (r_members R s) = tokenMemberships f \<and> snd (snd (r_members R s)) = 0"
  proof (rule id)
    show "uniq_ok nget member_key (tokenMemberships f) (tokenMembershipsByPair f)" "finite (dom (tokenMemberships f))"
      using tabs(5) by (auto simp: members_defs intro: keyed_finite)
  qed (rule member_entry_ok [OF auth])
qed

text \<open>
  C7. Round trip.  Restoring the snapshot of a state in which the invariant holds and every
  token entry is valid, on any node, gives that state back: nodes, leases, files and all
  tables are the same, the indices are rebuilt to what they were (the two that are not
  determined by the tables as sets), nothing is counted as rejected, and the invariant holds.
\<close>

theorem snapshot_round_trip:
  assumes "ranges_ok R" and "fsm_ok f" and "validateTokenEntry ` Some ` ran (tokens f) \<subseteq> {None}"
    and "h = fst (Restore R (Some (Persist (Snapshot f))) g)"
  shows "nodes_view h = nodes_view f \<and> files h = files f \<and>
         auth_view (h\<lparr>tokensByPrefix := tokensByPrefix f\<rparr>) = auth_view f \<and>
         lset (tokensByPrefix h) = lset (tokensByPrefix f) \<and>
         (\<lambda>db. sget (filesByDB h) db) = (\<lambda>db. {p. db_of f p = Some db}) \<and>
         rejectedPaths h = rejectedPaths g \<and> rejectedTokens h = rejectedTokens g \<and>
         rejectedRBAC h = rejectedRBAC g \<and> fsm_ok h"
proof -
  note T = restored_tables [OF assms(1-3) refl]
  have h: "nodes h = nodes f" "primaryWriterID h = primaryWriterID f" "activeCompactorID h = activeCompactorID f"
    "files h = files f" "tokens h = tokens f" "organizations h = organizations f" "teams h = teams f"
    "roles h = roles f" "measurementPermissions h = measurementPermissions f"
    "tokenMemberships h = tokenMemberships f" "rejectedPaths h = rejectedPaths g"
    "rejectedTokens h = rejectedTokens g" "rejectedRBAC h = rejectedRBAC g"
    "filesByDB h = build_index sadd f_Database (files f) (names_order R (dom (files f))) Map.empty"
    using T by (simp_all add: assms(4) Restore_some Let_def) (simp_all add: Persist_def Snapshot_def)
  have ok: "fsm_ok h"
    unfolding assms(4) by (rule restore_fsm_ok [OF assms(1) snapshot_ids_ok_of_state [OF assms(2)]])
  then have auth: "auth_ok h" "auth_ok f" using assms(2) by (simp_all add: fsm_ok_def)
  have "finite (dom (files f))" using assms(2) by (simp add: fsm_ok_def files_ok_def paths_ok_def)
  then have "sget (filesByDB h) db = {p. db_of f p = Some db}" for db
    using assms(1) by (auto simp: h(14) set_index.get_build index_simps db_of_def)
  with ok h auth_indices_determined [OF auth h(5-10)] show ?thesis
    by (simp add: view_defs)
qed

text \<open>
  An update may give a token a name that \<open>validateTokenEntry\<close> refuses, because
  \<open>applyUpdateToken\<close> does not check the name: the update succeeds, every node that applies it
  has the token under the new name, and a node that restores a snapshot taken afterwards does
  not have the token at all.
\<close>

theorem invalid_rename_is_lost_on_restore:
  assumes "fsm_ok f" and "tokens f (ut_ID p) \<noteq> None" and "ut_ID p \<noteq> 0"
    and "ut_ChangedFields p = [''name'']" and "ut_Name p = []" and "tokensByName f [] = None"
    and "f' = st (applyUpdateToken (Some p) i f)"
  shows "err (applyUpdateToken (Some p) i f) = None \<and>
         map_option t_Name (tokens f' (ut_ID p)) = Some [] \<and>
         tokens (fst (Restore R (Some (Persist (Snapshot f'))) g)) (ut_ID p) = None"
proof -
  from assms(2) obtain e where e: "tokens f (ut_ID p) = Some e" by blast
  have guards: "first_invalid (check_token_field p) (ut_ChangedFields p) = None" "\<not> name_taken p f"
    using assms(4-6) by (simp_all add: check_token_field_def name_taken_def mget_def)
  have r: "err (applyUpdateToken (Some p) i f) = None" "tokens f' (ut_ID p) = Some (updated_token p i e)"
    using assms(3) guards e unfolding assms(7) by (simp_all add: applyUpdateToken_def Let_def)
  have nm: "t_Name (updated_token p i e) = []"
    using assms(4,5) by (simp add: updated_token_def Let_def)
  then have "validateTokenEntry (Some (updated_token p i e)) \<noteq> None"
    by (simp add: validateTokenEntry_def)
  then have "fst (r_tokens R (Persist (Snapshot f'))) (ut_ID p) \<noteq> Some a" for a
    unfolding r_tokens_def filter_loop_fst using r(2)
    by (auto simp: Persist_def Snapshot_def pointers_def)
  with r nm show ?thesis
    by (simp add: Restore_some Let_def) (metis not_None_eq)
qed

section \<open>Witnesses\<close>

lemma example_rbac_fsm_ok: "fsm_ok example_rbac"
proof -
  have "other_view example_rbac = other_view NewClusterFSM"
    by (simp add: example_rbac_def example_org_state_def rbac_handlers_frame)
  with fsm_ok_new other_view_ok example_rbac_ok show ?thesis unfolding fsm_ok_def by blast
qed

lemma example_tokens_fsm_ok: "fsm_ok example_tokens"
proof -
  have "other_view example_tokens = other_view NewClusterFSM"
    by (simp add: example_tokens_def token_handlers_frame)
  with fsm_ok_new other_view_ok example_tokens_ok show ?thesis unfolding fsm_ok_def by blast
qed

text \<open>A snapshot with a null token and a file outside the storage root.\<close>

definition example_bad_snapshot :: FSMSnapshot where
  "example_bad_snapshot =
     (Persist (Snapshot NewClusterFSM))\<lparr>Tokens := [5 \<mapsto> None], Files := [''/etc/passwd'' \<mapsto> None]\<rparr>"

theorem restore_establishes_invariant_witness:
  "card (dom (tokens (fst (Restore sorted_ranges (Some example_bad_snapshot) NewClusterFSM)))) +
     rejectedTokens (fst (Restore sorted_ranges (Some example_bad_snapshot) NewClusterFSM)) = 1"
proof -
  have ids: "snapshot_ids_ok example_bad_snapshot"
    by (simp add: snapshot_ids_ok_def example_bad_snapshot_def Persist_def Snapshot_def pointers_def)
  have "Tokens example_bad_snapshot = [5 \<mapsto> None]" by (simp add: example_bad_snapshot_def)
  with restore_establishes_invariant [OF sorted_ranges_ok ids refl, of NewClusterFSM] show ?thesis
    by (simp add: NewClusterFSM_def)
qed

theorem snapshot_round_trip_witness:
  "teams (fst (Restore reverse_ranges (Some (Persist (Snapshot example_rbac))) example_tokens)) = teams example_rbac"
proof -
  obtain o1 ix e ix' where f: "example_rbac = NewClusterFSM\<lparr>organizations := [1 \<mapsto> o1],
      organizationsByName := ix, teams := [2 \<mapsto> e], teamsByOrg := ix'\<rparr>"
    using example_rbac_form by blast
  have "tokens example_rbac = Map.empty" unfolding f by simp
  then have "validateTokenEntry ` Some ` ran (tokens example_rbac) \<subseteq> {None}" by simp
  from snapshot_round_trip [OF reverse_ranges_ok example_rbac_fsm_ok this refl, of example_tokens]
  show ?thesis by (simp add: auth_view_def)
qed

lemma example_tokens_only_a: "tokensByName example_tokens [] = None"
proof (rule ccontr)
  assume "tokensByName example_tokens [] \<noteq> None"
  then obtain x e where "tokens example_tokens x = Some e" "t_Name e = []"
    using example_tokens_ok unfolding auth_ok_def tokens_tab_def uniq_ok_def mget_def by blast
  moreover have "t_CreatedAtUnixNano (example_token ''a'' ''p'') \<noteq> 0" "t_Name (example_token ''a'' ''p'') \<noteq> []"
    by (simp_all add: example_token_def)
  ultimately show False
    using create_token_stores [OF example_token_valid, of NewClusterFSM 7]
    by (auto simp: example_tokens_def split: if_splits)
qed

theorem invalid_rename_is_lost_on_restore_witness:
  "tokens (fst (Restore sorted_ranges (Some (Persist (Snapshot (st (applyUpdateToken
     (Some \<lparr>ut_ID = 7, ut_Name = [], ut_Description = [], ut_Permissions = [], ut_ExpiresAtUnixNano = 0,
            ut_ChangedFields = [''name'']\<rparr>) 8 example_tokens))))) NewClusterFSM)) 7 = None"
proof -
  let ?p = "\<lparr>ut_ID = 7, ut_Name = [], ut_Description = [], ut_Permissions = [], ut_ExpiresAtUnixNano = 0,
            ut_ChangedFields = [''name'']\<rparr>"
  have "tokens example_tokens (ut_ID ?p) \<noteq> None" using example_tokens_7 by auto
  from invalid_rename_is_lost_on_restore [OF example_tokens_fsm_ok this _ _ _ example_tokens_only_a refl,
      of 8 sorted_ranges NewClusterFSM]
  show ?thesis by simp
qed

text \<open>Two organizations that share a name, in a snapshot that is otherwise empty.\<close>

definition example_dup_snapshot :: FSMSnapshot where
  "example_dup_snapshot =
     (Persist (Snapshot NewClusterFSM))
       \<lparr>Organizations := [1 \<mapsto> Some (example_org\<lparr>o_ID := 1\<rparr>), 2 \<mapsto> Some (example_org\<lparr>o_ID := 2\<rparr>)]\<rparr>"

lemma example_dup_orgs:
  "valid_org (example_org\<lparr>o_ID := x\<rparr>)" "o_Name (example_org\<lparr>o_ID := x\<rparr>) = ''acme''"
  by (simp_all add: valid_org_iff example_org_def rbacNameMaxLen_def rbacDescriptionMaxLen_def)

text \<open>
  Restoring is not deterministic: of two entries with the same unique key the one is kept
  that the loop meets first, so that two nodes that restore the same snapshot can end up with
  different organizations.
\<close>

theorem restore_depends_on_iteration_order:
  "ranges_ok sorted_ranges \<and> ranges_ok reverse_ranges \<and> snapshot_ids_ok example_dup_snapshot \<and>
   dom (organizations (fst (Restore sorted_ranges (Some example_dup_snapshot) NewClusterFSM))) = {1} \<and>
   dom (organizations (fst (Restore reverse_ranges (Some example_dup_snapshot) NewClusterFSM))) = {2}"
proof -
  have orgs: "Organizations example_dup_snapshot =
      [1 \<mapsto> Some (example_org\<lparr>o_ID := 1\<rparr>), 2 \<mapsto> Some (example_org\<lparr>o_ID := 2\<rparr>)]"
    by (simp add: example_dup_snapshot_def)
  have "snapshot_ids_ok example_dup_snapshot"
    by (simp add: snapshot_ids_ok_def example_dup_snapshot_def Persist_def Snapshot_def pointers_def)
  moreover have "fst (r_orgs sorted_ranges example_dup_snapshot) = [1 \<mapsto> example_org\<lparr>o_ID := 1\<rparr>]"
    "fst (r_orgs reverse_ranges example_dup_snapshot) = [2 \<mapsto> example_org\<lparr>o_ID := 2\<rparr>]"
    by (simp_all add: r_orgs_def orgs sorted_ranges_def reverse_ranges_def example_dup_orgs insert_commute)
  ultimately show ?thesis
    by (simp add: Restore_some Let_def)
qed

end
