(* ===== verification/FSM_Pagination.thy ===== *)
theory FSM_Pagination
  imports FSM_Files
begin

text \<open>
  Reading the manifest: the files of a database through the secondary index, and walks over
  the whole manifest, page by page, while other handlers may change it between (and, since
  \<open>GetFilesPaginated\<close> releases the lock in the middle, during) the page calls.
\<close>

lemma map_filter_all_Some:
  "(\<And>x. x \<in> set xs \<Longrightarrow> f x \<noteq> None) \<Longrightarrow> List.map_filter f xs = map (\<lambda>x. the (f x)) xs"
  by (induction xs) (auto simp: List.map_filter_simps split: option.split)

section \<open>The files of a database\<close>

text \<open>
  For a database with a name, the lookup through the index returns, in some order, exactly
  the files of that database in the manifest, each once.
\<close>

theorem files_by_database_exact:
  assumes "ranges_ok R" and "files_ok f" and "database \<noteq> []"
  shows "set (GetFilesByDatabase R database f) = {e \<in> ran (files f). f_Database e = database} \<and>
         distinct (GetFilesByDatabase R database f)"
proof (cases "filesByDB f database")
  case None
  with assms(2,3) have "{e \<in> ran (files f). f_Database e = database} = {}"
    using db_index_complete [of f _ database]
    by (force simp: files_ok_def ran_def db_of_def sget_def)
  with None show ?thesis by (simp add: GetFilesByDatabase_def)
next
  case (Some idx)
  from assms(2) have ok: "db_index_ok f" "paths_ok f" by (auto simp: files_ok_def)
  have mem: "p \<in> idx \<longleftrightarrow> (\<exists>e. files f p = Some e \<and> f_Database e = database)" for p
    using db_index_listed [OF ok(1), of p database] db_index_complete [OF ok(1), of p database]
      assms(3) Some by (auto simp: sget_def db_of_def)
  have "finite idx" using db_index_stidy [OF ok(1)] Some by (auto simp: stidy_def)
  then have list: "set (names_order R idx) = idx" "distinct (names_order R idx)"
    using assms(1) by simp_all
  have "List.map_filter (files f) (names_order R idx) = map (\<lambda>p. the (files f p)) (names_order R idx)"
    using list(1) mem by (intro map_filter_all_Some) auto
  moreover have "inj_on (\<lambda>p. the (files f p)) idx"
    using mem ok(2) by (intro inj_on_inverseI [of _ f_Path]) (auto simp: paths_ok_def)
  moreover have "(\<lambda>p. the (files f p)) ` idx = {e \<in> ran (files f). f_Database e = database}"
  proof (intro equalityI subsetI)
    fix e assume "e \<in> (\<lambda>p. the (files f p)) ` idx"
    then obtain p where "p \<in> idx" "e = the (files f p)" by blast
    with mem [of p] show "e \<in> {e \<in> ran (files f). f_Database e = database}"
      by (auto intro: ranI)
  next
    fix e assume "e \<in> {e \<in> ran (files f). f_Database e = database}"
    then obtain p where "files f p = Some e" "f_Database e = database" by (auto simp: ran_def)
    with mem [of p] show "e \<in> (\<lambda>p. the (files f p)) ` idx" by force
  qed
  ultimately show ?thesis
    using Some list by (simp add: GetFilesByDatabase_def distinct_map)
qed

section \<open>One page\<close>

lemma sorted_filter_from:
  fixes c :: "'a::linorder"
  shows "sorted_wrt (<) ks \<Longrightarrow>
    filter (\<lambda>k. c \<le> k) ks = (if c \<in> set ks then c # filter (\<lambda>k. c < k) ks else filter (\<lambda>k. c < k) ks)"
  by (induction ks) (auto simp: less_le filter_empty_conv)

lemma drop_search_strings:
  "sorted_wrt (<) ks \<Longrightarrow> drop (search_strings ks c) ks = filter (\<lambda>k. c \<le> k) ks"
proof (induction ks)
  case Nil
  then show ?case by simp
next
  case (Cons k ks)
  show ?case
  proof (cases "k < c")
    case True
    with Cons show ?thesis by (simp add: search_strings_def)
  next
    case False
    with Cons.prems have "\<forall>k'\<in>set ks. c \<le> k'" by auto
    with False show ?thesis by (simp add: search_strings_def filter_id_conv)
  qed
qed

lemma search_strings_hit:
  assumes "sorted_wrt (<) ks"
  shows "search_strings ks c < length ks \<and> ks ! search_strings ks c = c \<longleftrightarrow> c \<in> set ks"
proof
  assume "c \<in> set ks"
  then have "drop (search_strings ks c) ks = c # filter (\<lambda>k. c < k) ks"
    using assms by (simp add: drop_search_strings sorted_filter_from)
  then show "search_strings ks c < length ks \<and> ks ! search_strings ks c = c"
    by (metis drop_all hd_drop_conv_nth list.distinct(1) list.sel(1) not_le)
next
  assume "search_strings ks c < length ks \<and> ks ! search_strings ks c = c"
  then show "c \<in> set ks" by (metis nth_mem)
qed

lemma drop_page_start:
  assumes "sorted_wrt (<) ks" and "[] \<notin> set ks"
  shows "drop (page_start ks c) ks = filter (\<lambda>k. c < k) ks"
proof (cases "c = []")
  case True
  from assms(2) have "\<forall>k\<in>set ks. [] < k"
    by (metis Nil_less_Cons neq_Nil_conv)
  with True show ?thesis by (simp add: page_start_def filter_id_conv)
next
  case False
  have "drop (search_strings ks c) ks =
      (if c \<in> set ks then c # filter (\<lambda>k. c < k) ks else filter (\<lambda>k. c < k) ks)"
    using assms(1) by (simp add: drop_search_strings sorted_filter_from)
  moreover have "drop (Suc n) ks = tl (drop n ks)" for n
    by (simp add: drop_Suc drop_tl)
  ultimately show ?thesis
    using False search_strings_hit [OF assms(1), of c]
    by (auto simp: page_start_def Let_def)
qed

lemma paginate_page_char:
  assumes "sorted_wrt (<) ks" and "[] \<notin> set ks"
  defines "rest c \<equiv> filter (\<lambda>k. c < k) ks"
  shows "paginate_page ks c limit g =
    (List.map_filter (files g) (take (page_size limit) (rest c)),
     if page_size limit < length (rest c) then last (take (page_size limit) (rest c)) else [])"
proof -
  let ?s = "page_start ks c" and ?n = "page_size limit"
  have rest: "rest c = drop ?s ks"
    using drop_page_start [OF assms(1,2)] by (simp add: rest_def)
  have n: "0 < ?n" by (simp add: page_size_def)
  show ?thesis
  proof (cases "length ks \<le> ?s")
    case True
    then show ?thesis by (simp add: paginate_page_def rest List.map_filter_simps)
  next
    case False
    have "last (take ?n (drop ?s ks)) = ks ! (?s + ?n - 1)" if "?s + ?n < length ks"
      using that n by (simp add: last_conv_nth)
    moreover have "take (length ks - ?s) (drop ?s ks) = drop ?s ks" by simp
    ultimately show ?thesis
      using False n
      by (auto simp: paginate_page_def rest Let_def min_def less_diff_conv add.commute)
  qed
qed

section \<open>A walk over the manifest\<close>

text \<open>
  A walk as its callers do it: start from the empty cursor, ask for the page after the cursor,
  stop at the page that returns no cursor.  Each call is given by the state in which it takes
  the keys and the state in which it reads the entries.  The result is the entries returned
  and whether the walk came to its end.
\<close>

fun page_run :: "ranges \<Rightarrow> int \<Rightarrow> string \<Rightarrow> (fsm \<times> fsm) list \<Rightarrow> file_entry list \<times> bool" where
  "page_run R limit cursor [] = ([], False)"
| "page_run R limit cursor ((f, g) # calls) =
     (let r = paginate_page (snd (paginate_keys R f)) cursor limit g
      in if snd r = [] then (fst r, True)
         else let r' = page_run R limit (snd r) calls in (fst r @ fst r', snd r'))"

abbreviation call_ok :: "fsm \<times> fsm \<Rightarrow> bool" where
  "call_ok c \<equiv> files_ok (fst c) \<and> files_ok (snd c)"

lemma empty_path_refused: "ValidateManifestPath [] = Some ErrPathEmpty"
  by (simp add: ValidateManifestPath_def)

lemma stored_path_valid: "files_ok f \<Longrightarrow> files f p = Some e \<Longrightarrow> f_Path e = p \<and> ValidateManifestPath p = None"
  unfolding files_ok_def paths_ok_def by blast

lemma paginate_keys_sorted:
  assumes "ranges_ok R" and "files_ok f"
  shows "snd (paginate_keys R f) = sorted_list_of_set (dom (files f))"
    and "sorted_wrt (<) (snd (paginate_keys R f))" and "[] \<notin> set (snd (paginate_keys R f))"
    and "set (snd (paginate_keys R f)) = dom (files f)"
proof -
  from assms(2) have fin: "finite (dom (files f))"
    by (simp add: files_ok_def paths_ok_def)
  with assms show keys: "snd (paginate_keys R f) = sorted_list_of_set (dom (files f))"
    by (auto simp: paginate_keys_def Let_def files_ok_def cache_ok_def
          sorted_list_of_set_sort_remdups [symmetric] distinct_remdups_id split: option.split)
       (metis distinct_remdups_id names_order_distinct names_order_set sorted_list_of_set_sort_remdups)
  show "sorted_wrt (<) (snd (paginate_keys R f))" by (simp add: keys)
  show "set (snd (paginate_keys R f)) = dom (files f)" using fin by (simp add: keys)
  moreover have "files f [] = None"
    using stored_path_valid [OF assms(2), of "[]"] by (cases "files f []") (simp_all add: empty_path_refused)
  ultimately show "[] \<notin> set (snd (paginate_keys R f))" by (simp add: domIff)
qed

lemma page_paths:
  "files_ok g \<Longrightarrow> map f_Path (List.map_filter (files g) ks) = filter (\<lambda>k. k \<in> dom (files g)) ks"
  by (induction ks) (auto simp: List.map_filter_simps files_ok_def paths_ok_def split: option.splits)

text \<open>One call: what it returns, in terms of the keys above the cursor.\<close>

lemma page_call:
  fixes c :: string
  assumes "ranges_ok R" and "files_ok f" and "files_ok g"
    and rest_def: "rest = filter (\<lambda>k. c < k) (sorted_list_of_set (dom (files f)))"
    and r_def: "r = paginate_page (snd (paginate_keys R f)) c limit g"
  shows "map f_Path (fst r) = filter (\<lambda>k. k \<in> dom (files g)) (take (page_size limit) rest)"
    and "snd r = [] \<Longrightarrow> length rest \<le> page_size limit"
    and "snd r \<noteq> [] \<Longrightarrow> page_size limit < length rest \<and> snd r = last (take (page_size limit) rest)"
    and "page_size limit < length rest \<Longrightarrow> snd r \<noteq> []"
proof -
  note keys = paginate_keys_sorted [OF assms(1,2)]
  have r: "r = (List.map_filter (files g) (take (page_size limit) rest),
      if page_size limit < length rest then last (take (page_size limit) rest) else [])"
    unfolding r_def rest_def using paginate_page_char [OF keys(2,3)] keys(1) by simp
  have ne: "last (take (page_size limit) rest) \<noteq> []" if "page_size limit < length rest"
  proof -
    have "take (page_size limit) rest \<noteq> []" using that by (auto simp: page_size_def)
    then have "last (take (page_size limit) rest) \<in> set rest"
      using in_set_takeD last_in_set by metis
    with keys show ?thesis by (auto simp: rest_def)
  qed
  show "map f_Path (fst r) = filter (\<lambda>k. k \<in> dom (files g)) (take (page_size limit) rest)"
    using r page_paths [OF assms(3)] by simp
  show "snd r = [] \<Longrightarrow> length rest \<le> page_size limit"
    and "snd r \<noteq> [] \<Longrightarrow> page_size limit < length rest \<and> snd r = last (take (page_size limit) rest)"
    and "page_size limit < length rest \<Longrightarrow> snd r \<noteq> []"
    using r ne by (auto split: if_splits)
qed

lemma take_of_sorted:
  fixes rest :: "string list"
  assumes "sorted_wrt (<) rest" and "0 < n" and "n < length rest" and "k \<in> set rest"
  shows "k \<in> set (take n rest) \<longleftrightarrow> \<not> last (take n rest) < k"
proof -
  have ne: "take n rest \<noteq> []" using assms(2,3) by auto
  have split: "sorted_wrt (<) (take n rest @ drop n rest)" using assms(1) by simp
  then have below: "\<forall>x\<in>set (take n rest). \<forall>y\<in>set (drop n rest). x < y"
    and front: "sorted_wrt (<) (take n rest)"
    by (auto simp only: sorted_wrt_append)
  show ?thesis
  proof
    assume "k \<in> set (take n rest)"
    moreover obtain ys l where ys: "take n rest = ys @ [l]" using ne by (metis rev_exhaust)
    moreover have "\<forall>y\<in>set ys. y < l" using front unfolding ys by (simp add: sorted_wrt_append)
    ultimately show "\<not> last (take n rest) < k" by auto
  next
    assume "\<not> last (take n rest) < k"
    moreover have "last (take n rest) \<in> set (take n rest)" using ne by simp
    moreover have "set rest = set (take n rest) \<union> set (drop n rest)"
      by (metis append_take_drop_id set_append)
    ultimately show "k \<in> set (take n rest)" using below assms(4) by blast
  qed
qed

lemma page_run_sorted:
  assumes "ranges_ok R" and "list_all call_ok calls"
  shows "sorted_wrt (<) (map f_Path (fst (page_run R limit c calls))) \<and>
         (\<forall>e\<in>set (fst (page_run R limit c calls)). c < f_Path e)"
  using assms(2)
proof (induction calls arbitrary: c)
  case Nil
  then show ?case by simp
next
  case (Cons call calls)
  obtain f g where call: "call = (f, g)" by (cases call)
  with Cons.prems have ok: "files_ok f" "files_ok g" by simp_all
  define rest where "rest = filter (\<lambda>k. c < k) (sorted_list_of_set (dom (files f)))"
  define r where "r = paginate_page (snd (paginate_keys R f)) c limit g"
  note page = page_call [OF assms(1) ok rest_def r_def]
  have sorted: "sorted_wrt (<) rest" by (simp add: rest_def sorted_wrt_filter)
  have fst_sorted: "sorted_wrt (<) (map f_Path (fst r))"
    unfolding page(1) using sorted by (intro sorted_wrt_filter sorted_wrt_take)
  have paths: "f_Path ` set (fst r) \<subseteq> set (take (page_size limit) rest)"
    using arg_cong [OF page(1), of set] by auto
  have above: "\<forall>e\<in>set (fst r). c < f_Path e"
    using paths set_take_subset [of "page_size limit" rest] unfolding rest_def by auto
  show ?case
  proof (cases "snd r = []")
    case True
    with fst_sorted above show ?thesis by (simp add: call r_def [symmetric])
  next
    case False
    with page(3) have cut: "page_size limit < length rest" and
      nxt: "snd r = last (take (page_size limit) rest)" by auto
    have pos: "0 < page_size limit" by (simp add: page_size_def)
    have "take (page_size limit) rest \<noteq> []" using cut pos by auto
    then have "snd r \<in> set rest"
      using nxt last_in_set in_set_takeD by metis
    then have cursor: "c < snd r" by (simp add: rest_def)
    have upto: "\<forall>e\<in>set (fst r). f_Path e \<le> snd r"
      using paths take_of_sorted [OF sorted pos cut] nxt set_take_subset [of "page_size limit" rest]
      by (metis image_subset_iff not_le subset_iff)
    let ?q = "fst (page_run R limit (snd r) calls)"
    from Cons have IH: "sorted_wrt (<) (map f_Path ?q)" "\<forall>e\<in>set ?q. snd r < f_Path e"
      by simp_all
    have "sorted_wrt (<) (map f_Path (fst r) @ map f_Path ?q)"
      using IH fst_sorted upto by (auto simp: sorted_wrt_append intro: le_less_trans)
    then show ?thesis
      using IH above cursor False by (auto simp: call r_def [symmetric] Let_def intro: less_trans)
  qed
qed

lemma page_run_finds:
  assumes "ranges_ok R" and "list_all call_ok calls" and "snd (page_run R limit c calls)"
    and "list_all (\<lambda>x. p \<in> dom (files (fst x)) \<and> p \<in> dom (files (snd x))) calls" and "c < p"
  shows "p \<in> f_Path ` set (fst (page_run R limit c calls))"
  using assms(2-)
proof (induction calls arbitrary: c)
  case Nil
  then show ?case by simp
next
  case (Cons call calls)
  obtain f g where call: "call = (f, g)" by (cases call)
  with Cons.prems have ok: "files_ok f" "files_ok g" and
    mem: "p \<in> dom (files f)" "p \<in> dom (files g)" by simp_all
  define rest where "rest = filter (\<lambda>k. c < k) (sorted_list_of_set (dom (files f)))"
  define r where "r = paginate_page (snd (paginate_keys R f)) c limit g"
  note page = page_call [OF assms(1) ok rest_def r_def]
  have "finite (dom (files f))" using ok by (simp add: files_ok_def paths_ok_def)
  with mem Cons.prems have rest: "p \<in> set rest" by (simp add: rest_def)
  have found: "p \<in> f_Path ` set (fst r)" if "p \<in> set (take (page_size limit) rest)"
    using that mem arg_cong [OF page(1), of set] by auto
  show ?case
  proof (cases "p \<in> set (take (page_size limit) rest)")
    case True
    with found show ?thesis by (auto simp: call r_def [symmetric] Let_def)
  next
    case False
    with page(2) rest have next_page: "snd r \<noteq> []" by (metis take_all)
    with page(3) have "page_size limit < length rest" "snd r = last (take (page_size limit) rest)"
      by auto
    moreover have "sorted_wrt (<) rest" by (simp add: rest_def sorted_wrt_filter)
    moreover have "0 < page_size limit" by (simp add: page_size_def)
    ultimately have "snd r < p" using take_of_sorted rest False by metis
    with Cons next_page show ?thesis
      by (auto simp: call r_def [symmetric] Let_def)
  qed
qed

lemma page_run_was_there:
  assumes "ranges_ok R" and "list_all call_ok calls" and "e \<in> set (fst (page_run R limit c calls))"
  shows "\<exists>x\<in>set calls. files (snd x) (f_Path e) = Some e"
  using assms(2,3)
proof (induction calls arbitrary: c)
  case Nil
  then show ?case by simp
next
  case (Cons call calls)
  obtain f g where call: "call = (f, g)" by (cases call)
  with Cons.prems have ok: "files_ok f" "files_ok g" by simp_all
  define r where "r = paginate_page (snd (paginate_keys R f)) c limit g"
  have "\<exists>ks. fst r = List.map_filter (files g) ks"
    unfolding r_def using paginate_page_char paginate_keys_sorted [OF assms(1) ok(1)]
    by (metis fst_conv)
  then have here: "files g (f_Path x) = Some x" if "x \<in> set (fst r)" for x
    using that stored_path_valid [OF ok(2)]
    by (force simp: List.map_filter_def)
  show ?case
  proof (cases "e \<in> set (fst r)")
    case True
    with here call show ?thesis by auto
  next
    case False
    with Cons.prems have "e \<in> set (fst (page_run R limit (snd r) calls))"
      by (auto simp: call r_def [symmetric] Let_def split: if_splits)
    with Cons show ?thesis by auto
  qed
qed

text \<open>
  C3. A walk over the manifest that came to its end, whatever other handlers did between and
  during its page calls: the paths it returned are strictly increasing, so no file is returned
  twice; each entry was in the manifest when its page was read; and no path is missed that was
  in the manifest all along.
\<close>

theorem walk_misses_no_stable_file:
  assumes "ranges_ok R" and "list_all call_ok calls" and "snd (page_run R limit [] calls)"
  shows "sorted_wrt (<) (map f_Path (fst (page_run R limit [] calls))) \<and>
         set (fst (page_run R limit [] calls)) \<subseteq> (\<Union>x\<in>set calls. ran (files (snd x))) \<and>
         (\<Inter>x\<in>set calls. dom (files (fst x)) \<inter> dom (files (snd x)))
           \<subseteq> f_Path ` set (fst (page_run R limit [] calls))"
proof (intro conjI subsetI)
  show "sorted_wrt (<) (map f_Path (fst (page_run R limit [] calls)))"
    using page_run_sorted [OF assms(1,2)] by blast
next
  fix e assume "e \<in> set (fst (page_run R limit [] calls))"
  from page_run_was_there [OF assms(1,2) this]
  show "e \<in> (\<Union>x\<in>set calls. ran (files (snd x)))" by (auto intro: ranI)
next
  fix p assume p: "p \<in> (\<Inter>x\<in>set calls. dom (files (fst x)) \<inter> dom (files (snd x)))"
  from assms(3) obtain call rest where calls: "calls = call # rest" by (cases calls) auto
  with assms(2) p have "files_ok (fst call)" "p \<in> dom (files (fst call))" by auto
  then have "p \<noteq> []" using stored_path_valid empty_path_refused by fastforce
  then have "[] < p" by (cases p) simp_all
  with p show "p \<in> f_Path ` set (fst (page_run R limit [] calls))"
    by (intro page_run_finds [OF assms]) (auto simp: list_all_iff)
qed

text \<open>
  On a manifest that stays as it is, a walk ends as soon as its pages can hold the files, and
  returns them all.
\<close>

lemma page_run_fixed:
  assumes "ranges_ok R" and "files_ok f"
    and "rest = filter (\<lambda>k. c < k) (sorted_list_of_set (dom (files f)))"
    and "length rest \<le> Suc n * page_size limit"
  shows "map f_Path (fst (page_run R limit c (replicate (Suc n) (f, f)))) = rest \<and>
         snd (page_run R limit c (replicate (Suc n) (f, f)))"
  using assms(3-)
proof (induction n arbitrary: c rest)
  case (0 c rest)
  define r where "r = paginate_page (snd (paginate_keys R f)) c limit f"
  note page = page_call [OF assms(1,2,2) 0(1) r_def]
  have "finite (dom (files f))" using assms(2) by (simp add: files_ok_def paths_ok_def)
  then have "filter (\<lambda>k. k \<in> dom (files f)) (take m rest) = take m rest" for m
    using 0(1) by (auto simp: filter_id_conv dest!: in_set_takeD)
  then have "map f_Path (fst r) = take (page_size limit) rest" by (simp only: page(1))
  moreover from 0(2) have "snd r = []" using page(3) by auto
  ultimately show ?case using 0(2) by (simp add: r_def [symmetric])
next
  case (Suc n c rest)
  define r where "r = paginate_page (snd (paginate_keys R f)) c limit f"
  note page = page_call [OF assms(1,2,2) Suc(2) r_def]
  have fin: "finite (dom (files f))" using assms(2) by (simp add: files_ok_def paths_ok_def)
  then have "filter (\<lambda>k. k \<in> dom (files f)) (take m rest) = take m rest" for m
    using Suc(2) by (auto simp: filter_id_conv dest!: in_set_takeD)
  then have here: "map f_Path (fst r) = take (page_size limit) rest" by (simp only: page(1))
  have pos: "0 < page_size limit" by (simp add: page_size_def)
  have sorted: "sorted_wrt (<) rest" using Suc(2) by (simp add: sorted_wrt_filter)
  show ?case
  proof (cases "snd r = []")
    case True
    with page(2) here show ?thesis by (simp add: r_def [symmetric])
  next
    case False
    with page(3) have cut: "page_size limit < length rest"
      and nxt: "snd r = last (take (page_size limit) rest)" by auto
    have "take (page_size limit) rest \<noteq> []" using cut pos by auto
    then have "snd r \<in> set rest" using nxt last_in_set in_set_takeD by metis
    then have cursor: "c < snd r" using Suc(2) fin by simp
    have "drop (page_size limit) rest = filter (\<lambda>k. snd r < k) rest"
    proof -
      have "filter (\<lambda>k. snd r < k) (take (page_size limit) rest) = []"
        using take_of_sorted [OF sorted pos cut] nxt
        by (auto simp: filter_empty_conv dest: in_set_takeD)
      moreover have "filter (\<lambda>k. snd r < k) (drop (page_size limit) rest) = drop (page_size limit) rest"
        using take_of_sorted [OF sorted pos cut] nxt sorted
        by (auto simp: filter_id_conv dest: in_set_dropD)
           (metis append_take_drop_id disjoint_iff distinct_append in_set_dropD strict_sorted_iff)
      ultimately show ?thesis by (metis append_take_drop_id filter_append append_Nil)
    qed
    also have "\<dots> = filter (\<lambda>k. snd r < k) (sorted_list_of_set (dom (files f)))"
      using cursor Suc(2) by (auto intro: filter_cong less_trans)
    finally have drp: "drop (page_size limit) rest = \<dots>" .
    from Suc(3) have "length (drop (page_size limit) rest) \<le> Suc n * page_size limit" by simp
    note IH = Suc.IH [OF drp this]
    have "page_run R limit c (replicate (Suc (Suc n)) (f, f)) =
        (let r' = page_run R limit (snd r) (replicate (Suc n) (f, f)) in (fst r @ fst r', snd r'))"
      using False by (subst replicate.simps) (simp only: page_run.simps r_def [symmetric] Let_def if_False)
    with IH here show ?thesis by (simp add: Let_def del: replicate.simps)
  qed
qed

text \<open>
  C4. A walk over a manifest that stays as it is ends within any number of calls, at least one,
  whose pages have room for all files, and it returns every file once, in the order of the
  paths.
\<close>

theorem walk_of_fixed_manifest:
  assumes "ranges_ok R" and "files_ok f" and "FileCount f \<le> Suc n * page_size limit"
  shows "map f_Path (fst (page_run R limit [] (replicate (Suc n) (f, f)))) =
           sorted_list_of_set (dom (files f)) \<and>
         snd (page_run R limit [] (replicate (Suc n) (f, f)))"
proof -
  note keys = paginate_keys_sorted [OF assms(1,2)]
  have "[] < k" if "k \<in> set (sorted_list_of_set (dom (files f)))" for k
  proof -
    from that keys(1,3) have "k \<noteq> []" by (metis)
    then show ?thesis by (cases k) simp_all
  qed
  then have "filter (\<lambda>k. [] < k) (sorted_list_of_set (dom (files f))) = sorted_list_of_set (dom (files f))"
    by (simp only: filter_id_conv) blast
  then show ?thesis
    using page_run_fixed [OF assms(1,2) refl, of "[]" n limit] assms(3)
    by (simp add: FileCount_def del: replicate.simps)
qed

section \<open>Witnesses\<close>

definition example_file :: "string \<Rightarrow> string \<Rightarrow> file_entry" where
  "example_file p db =
     \<lparr>f_Path = p, f_SHA256 = [], f_SizeBytes = 1, f_Database = db, f_Measurement = [],
      f_PartitionTime = Some 0, f_OriginNodeID = ''n'', f_Tier = ''hot'', f_CreatedAt = Some 1, f_LSN = 0\<rparr>"

definition example_manifest :: fsm where
  "example_manifest =
     st (applyRegisterFile (Some (example_file ''b'' ''y'')) 2
       (st (applyRegisterFile (Some (example_file ''a'' ''x'')) 1 NewClusterFSM)))"

lemma files_ok_new: "files_ok NewClusterFSM"
  by (simp add: files_ok_def paths_ok_def db_index_ok_def cache_ok_def NewClusterFSM_def
        db_of_def sget_def)

lemma files_ok_example: "files_ok example_manifest"
  by (simp add: example_manifest_def files_ok_new)

lemma example_path_ok: "ValidateManifestPath ''a'' = None" "ValidateManifestPath ''b'' = None"
  by code_simp+

lemma register_stores:
  "ValidateManifestPath (f_Path e) = None \<Longrightarrow> f_CreatedAt e \<noteq> None \<Longrightarrow>
   files (st (applyRegisterFile (Some e) i f)) = (files f)(f_Path e \<mapsto> e\<lparr>f_LSN := i\<rparr>)"
  by (auto simp: applyRegisterFile_def applyRegisterFileStruct_def Let_def)

lemma example_manifest_files:
  "files example_manifest =
     [''a'' \<mapsto> (example_file ''a'' ''x'')\<lparr>f_LSN := 1\<rparr>, ''b'' \<mapsto> (example_file ''b'' ''y'')\<lparr>f_LSN := 2\<rparr>]"
  using register_stores [of "example_file ''a'' ''x''" 1 NewClusterFSM]
    register_stores [of "example_file ''b'' ''y''" 2]
  by (simp add: example_manifest_def example_path_ok NewClusterFSM_def example_file_def)

theorem files_by_database_exact_witness:
  "distinct (GetFilesByDatabase sorted_ranges ''x'' example_manifest)"
  using files_by_database_exact [OF sorted_ranges_ok files_ok_example, of "''x''"] by simp

theorem walk_of_fixed_manifest_witness:
  "map f_Path (fst (page_run reverse_ranges 1 [] (replicate (Suc 1) (example_manifest, example_manifest)))) =
     [''a'', ''b'']"
proof -
  have "FileCount example_manifest \<le> Suc 1 * page_size 1"
    by (simp add: FileCount_def example_manifest_files page_size_def card_insert_if)
  from walk_of_fixed_manifest [OF reverse_ranges_ok files_ok_example this]
  have "map f_Path (fst (page_run reverse_ranges 1 [] (replicate (Suc 1) (example_manifest, example_manifest)))) =
      sorted_list_of_set {''a'', ''b''}"
    by (simp add: example_manifest_files insert_commute del: replicate.simps)
  also have "\<dots> = [''a'', ''b'']" by simp
  finally show ?thesis .
qed

theorem walk_misses_no_stable_file_witness:
  "\<exists>calls. snd (page_run sorted_ranges 1 [] calls) \<and>
     map f_Path (fst (page_run sorted_ranges 1 [] calls)) = [''a'', ''b''] \<and>
     sorted_wrt (<) (map f_Path (fst (page_run sorted_ranges 1 [] calls)))"
proof -
  let ?calls = "replicate (Suc 1) (example_manifest, example_manifest)"
  from page_run_fixed [OF sorted_ranges_ok files_ok_example refl, of "[]" 1 1]
  have run: "snd (page_run sorted_ranges 1 [] ?calls)"
      "map f_Path (fst (page_run sorted_ranges 1 [] ?calls)) = [''a'', ''b'']"
    by (simp_all add: example_manifest_files page_size_def insert_commute del: replicate.simps)
  have ok: "list_all call_ok ?calls" by (simp add: files_ok_example)
  from walk_misses_no_stable_file [OF sorted_ranges_ok ok run(1)]
  have "sorted_wrt (<) (map f_Path (fst (page_run sorted_ranges 1 [] ?calls)))" by (rule conjunct1)
  with run show ?thesis by (intro exI [of _ ?calls] conjI)
qed

end
