(* ===== verification/FSM_Reachable.thy ===== *)
theory FSM_Reachable
  imports FSM_Snapshot FSM_Pagination
begin

text \<open>
  The cluster FSM as a state machine.  Its state changes when Raft applies a committed entry
  (the indices of the entries a node applies increase), when a node is restored from a snapshot
  taken elsewhere in the cluster, when callbacks are registered, and when a paginated read
  rebuilds the key cache.  The invariant holds in every state it can reach.
\<close>

inductive reachable :: "u64 \<Rightarrow> fsm \<Rightarrow> bool" where
  start: "reachable 0 NewClusterFSM"
| register: "reachable i f \<Longrightarrow> reachable i (f\<lparr>registered := cb\<rparr>)"
| apply_entry: "reachable i f \<Longrightarrow> i < j \<Longrightarrow> ranges_ok R \<Longrightarrow> reachable j (st (Apply R cmd j f))"
| read_page: "reachable i f \<Longrightarrow> ranges_ok R \<Longrightarrow> reachable i (fst (GetFilesPaginated R cursor limit f))"
| restore: "reachable i f \<Longrightarrow> reachable j g \<Longrightarrow> ranges_ok R \<Longrightarrow>
    reachable i (fst (Restore R (Some (Persist (Snapshot f))) g))"

lemma fsm_ok_registered: "fsm_ok (f\<lparr>registered := cb\<rparr>) = fsm_ok f"
  by (simp add: fsm_ok_def nodes_ok_def files_ok_def paths_ok_def db_index_ok_def cache_ok_def db_of_def
        auth_ok_def tab_defs refs_ok_def)

lemma auth_ids_registered: "auth_ids (f\<lparr>registered := cb\<rparr>) = auth_ids f"
  by (simp add: auth_ids_def)

text \<open>A paginated read changes the key cache only, and leaves the right one.\<close>

lemma GetFilesPaginated_state:
  assumes "ranges_ok R" and "files_ok f"
  shows "\<exists>c. fst (GetFilesPaginated R cursor limit f) = f\<lparr>keysCache := c\<rparr> \<and>
             files_ok (f\<lparr>keysCache := c\<rparr>)"
proof (cases "keysCache f")
  case None
  have "sort (names_order R (dom (files f))) = sorted_list_of_set (dom (files f))"
    using paginate_keys_sorted(1) [OF assms] None by (simp add: paginate_keys_def Let_def)
  with None assms(2) show ?thesis
    by (intro exI [of _ "Some (sort (names_order R (dom (files f))))"])
       (simp add: GetFilesPaginated_def paginate_keys_def Let_def files_ok_def paths_ok_def db_index_ok_def
          db_of_def cache_ok_def)
next
  case (Some keys)
  then have "fst (GetFilesPaginated R cursor limit f) = f"
    by (simp add: GetFilesPaginated_def paginate_keys_def Let_def)
  moreover have "f\<lparr>keysCache := keysCache f\<rparr> = f" by simp
  ultimately show ?thesis using assms(2) by (intro exI [of _ "keysCache f"]) metis
qed

lemma fsm_ok_read_page:
  assumes "ranges_ok R" and "fsm_ok f"
  shows "fsm_ok (fst (GetFilesPaginated R cursor limit f))"
    and "auth_ids (fst (GetFilesPaginated R cursor limit f)) = auth_ids f"
proof -
  from assms(2) have "files_ok f" by (simp add: fsm_ok_def)
  from GetFilesPaginated_state [OF assms(1) this, of cursor limit] obtain c where
    g: "fst (GetFilesPaginated R cursor limit f) = f\<lparr>keysCache := c\<rparr>" "files_ok (f\<lparr>keysCache := c\<rparr>)"
    by blast
  have "auth_view (f\<lparr>keysCache := c\<rparr>) = auth_view f" "nodes_view (f\<lparr>keysCache := c\<rparr>) = nodes_view f"
    by (simp_all add: view_defs)
  then have same: "auth_ok (f\<lparr>keysCache := c\<rparr>) = auth_ok f" "nodes_ok (f\<lparr>keysCache := c\<rparr>) = nodes_ok f"
    "auth_ids (f\<lparr>keysCache := c\<rparr>) = auth_ids f"
    using auth_ok_view nodes_ok_view auth_ids_view by blast+
  with g assms(2) show "fsm_ok (fst (GetFilesPaginated R cursor limit f))"
    and "auth_ids (fst (GetFilesPaginated R cursor limit f)) = auth_ids f"
    by (simp_all add: fsm_ok_def)
qed

text \<open>A restore brings no ids the snapshot does not have.\<close>

lemma filter_loop_dom: "dom (fst (filter_loop accept snap xs (Map.empty, n))) \<subseteq> {x. \<exists>e. snap x = Some (Some e)}"
  by (auto simp: filter_loop_fst split: if_splits)

lemma unique_loop_dom:
  assumes "distinct xs"
  shows "dom (fst (unique_loop accept key snap xs (Map.empty, Map.empty, n))) \<subseteq> {x. \<exists>e. snap x = Some (Some e)}"
proof -
  have "uniq_ok mget key Map.empty Map.empty" by (simp add: uniq_ok_def mget_def)
  from unique_loop_keeps [OF this, of snap accept xs n] assms show ?thesis by auto
qed

lemma auth_ids_restore:
  assumes "ranges_ok R" and "fsm_ok f"
  shows "auth_ids (fst (Restore R (Some (Persist (Snapshot f))) g)) \<subseteq> auth_ids f"
proof -
  let ?s = "Persist (Snapshot f)"
  have ids: "snapshot_ids_ok ?s" using assms(2) by (rule snapshot_ids_ok_of_state)
  have some: "{x. \<exists>e. pointers m x = Some (Some e)} = dom m" for m :: "int64 \<rightharpoonup> 'e"
    by (auto simp: pointers_def)
  have "dom (fst (r_tokens R ?s)) \<subseteq> dom (tokens f)" "dom (fst (r_roles R ?s)) \<subseteq> dom (roles f)"
    "dom (fst (r_mperms R ?s)) \<subseteq> dom (measurementPermissions f)"
    unfolding r_tokens_def r_roles_def r_mperms_def
    by (rule order_trans [OF filter_loop_dom], simp add: Persist_def Snapshot_def some)+
  moreover have "dom (fst (r_orgs R ?s)) \<subseteq> dom (organizations f)" "dom (fst (r_teams R ?s)) \<subseteq> dom (teams f)"
    "dom (fst (r_members R ?s)) \<subseteq> dom (tokenMemberships f)"
    unfolding r_orgs_def r_teams_def r_members_def
    by (rule order_trans [OF unique_loop_dom], use ids assms(1) in \<open>simp add: snapshot_ids_ok_def\<close>,
        simp add: Persist_def Snapshot_def some)+
  moreover have eq: "auth_ids (fst (Restore R (Some ?s) g)) =
      dom (fst (r_tokens R ?s)) \<union> dom (fst (r_orgs R ?s)) \<union> dom (fst (r_teams R ?s)) \<union>
      dom (fst (r_roles R ?s)) \<union> dom (fst (r_mperms R ?s)) \<union> dom (fst (r_members R ?s))"
    by (simp add: auth_ids_def Restore_some Let_def)
  ultimately show ?thesis
    unfolding eq auth_ids_def [of f] by (intro Un_mono)
qed

section \<open>Invariant\<close>

lemma reachable_ok: "reachable i f \<Longrightarrow> fsm_ok f \<and> auth_ids f \<subseteq> int64_of_u64 ` {..i}"
proof (induction rule: reachable.induct)
  case start
  then show ?case by (simp add: fsm_ok_new auth_ids_new)
next
  case (register i f cb)
  then show ?case by (simp add: fsm_ok_registered auth_ids_registered)
next
  case (apply_entry i f j R cmd)
  then have ok: "fsm_ok f" and ids: "auth_ids f \<subseteq> int64_of_u64 ` {..i}" by simp_all
  from ids apply_entry.hyps(2) have new: "int64_of_u64 j \<notin> auth_ids f" by auto
  have grow: "int64_of_u64 ` {..i} \<subseteq> int64_of_u64 ` {..j}" "int64_of_u64 j \<in> int64_of_u64 ` {..j}"
    using apply_entry.hyps(2) by auto
  from Apply_step [OF apply_entry.hyps(3) ok new, of cmd] grow ids show ?case by blast
next
  case (read_page i f R cursor limit)
  then show ?case by (simp add: fsm_ok_read_page)
next
  case (restore i f j g R)
  then show ?case
    using restore_fsm_ok [OF restore.hyps(3) snapshot_ids_ok_of_state] auth_ids_restore [OF restore.hyps(3)]
    by (meson order_trans)
qed

lemma refers_image: "refers fk m parents \<longleftrightarrow> fk ` ran m \<subseteq> dom parents"
  by (auto simp: refers_def ran_def)

text \<open>
  C8. In every reachable state: each file is stored under its own path, and that path is one
  \<open>ValidateManifestPath\<close> accepts; no two tokens and no two organizations share a name, no two
  teams of an organization do, and no token is twice a member of a team; every team, role,
  permission and membership has its parents; every id was assigned by a log entry already
  applied; and all indices and the key cache are exact (\<open>fsm_ok\<close>).
\<close>

theorem reachable_states_are_consistent:
  assumes "reachable i f"
  shows "(\<forall>p e. files f p = Some e \<longrightarrow> f_Path e = p \<and> ValidateManifestPath p = None) \<and>
         inj_on (\<lambda>x. t_Name (the (tokens f x))) (dom (tokens f)) \<and>
         inj_on (\<lambda>x. o_Name (the (organizations f x))) (dom (organizations f)) \<and>
         inj_on (\<lambda>x. team_key (the (teams f x))) (dom (teams f)) \<and>
         inj_on (\<lambda>x. member_key (the (tokenMemberships f x))) (dom (tokenMemberships f)) \<and>
         tm_OrganizationID ` ran (teams f) \<subseteq> dom (organizations f) \<and>
         r_TeamID ` ran (roles f) \<subseteq> dom (teams f) \<and>
         mp_RoleID ` ran (measurementPermissions f) \<subseteq> dom (roles f) \<and>
         m_TokenID ` ran (tokenMemberships f) \<subseteq> dom (tokens f) \<and>
         m_TeamID ` ran (tokenMemberships f) \<subseteq> dom (teams f) \<and>
         auth_ids f \<subseteq> int64_of_u64 ` {..i} \<and> fsm_ok f"
proof -
  from reachable_ok [OF assms] have ok: "fsm_ok f" "auth_ids f \<subseteq> int64_of_u64 ` {..i}" by simp_all
  then have auth: "auth_ok f" and files: "files_ok f" by (simp_all add: fsm_ok_def)
  have inj: "inj_on (\<lambda>x. key (the (m x))) (dom m)"
    if u: "\<And>x y a b. m x = Some a \<Longrightarrow> m y = Some b \<Longrightarrow> key a = key b \<Longrightarrow> x = y"
    for m :: "int64 \<rightharpoonup> 'e" and key :: "'e \<Rightarrow> 'k"
    using u by (auto intro!: inj_onI)
  have "\<forall>p e. files f p = Some e \<longrightarrow> f_Path e = p \<and> ValidateManifestPath p = None"
    using stored_path_valid [OF files] by auto
  moreover have "inj_on (\<lambda>x. t_Name (the (tokens f x))) (dom (tokens f))"
    "inj_on (\<lambda>x. o_Name (the (organizations f x))) (dom (organizations f))"
    using auth by (auto simp: auth_ok_def tokens_tab_def orgs_tab_def intro!: inj dest: name_index.keys_unique)
  moreover have "inj_on (\<lambda>x. team_key (the (teams f x))) (dom (teams f))"
    "inj_on (\<lambda>x. member_key (the (tokenMemberships f x))) (dom (tokenMemberships f))"
    using auth by (auto simp: auth_ok_def teams_tab_def members_defs intro!: inj dest: pair_index.keys_unique)
  moreover have "refs_ok f" using auth by (simp add: auth_ok_def)
  ultimately show ?thesis
    using ok unfolding refs_ok_def refers_image by (intro conjI) simp_all
qed

theorem reachable_states_are_consistent_witness:
  "inj_on (\<lambda>x. o_Name (the (organizations example_rbac x))) (dom (organizations example_rbac))"
proof -
  have "reachable 1 example_org_state"
    using reachable.apply_entry [OF reachable.start, of 1 sorted_ranges "Some (CreateOrganization (Some example_org))"]
    by (simp add: example_org_state_def Apply_def)
  from reachable.apply_entry [OF this, of 2 sorted_ranges "Some (CreateTeam (Some example_team))"]
  have "reachable 2 example_rbac" by (simp add: example_rbac_def Apply_def)
  from reachable_states_are_consistent [OF this] show ?thesis by blast
qed

end
