(* ===== verification/Governance_Limiter.thy ===== *)
theory Governance_Limiter
  imports Main
begin

text \<open>
  What the governance manager relies on in a limiter: the contract shared by the sliding-window
  limiter and the quota tracker.  A limiter decides requests one after another, each at the time
  its clock shows (in nanoseconds).
\<close>

section \<open>Time\<close>

definition time_Millisecond :: int where "time_Millisecond = 1000000"
definition time_Second :: int where "time_Second = 1000 * time_Millisecond"
definition time_Minute :: int where "time_Minute = 60 * time_Second"
definition time_Hour :: int where "time_Hour = 60 * time_Minute"

lemmas time_units = time_Millisecond_def time_Second_def time_Minute_def time_Hour_def

text \<open>\<open>Time.Truncate\<close>; times are counted from its origin.\<close>

definition Truncate :: "int \<Rightarrow> int \<Rightarrow> int" where
  "Truncate t d = (if d \<le> 0 then t else t - t mod d)"

lemma truncate_div:
  assumes "0 < d"
  shows "Truncate t d = d * (t div d)" and "Truncate t d div d = t div d"
  using assms by (simp_all add: Truncate_def minus_mod_eq_mult_div)

lemma truncate_bounds:
  assumes "0 < d"
  shows "Truncate t d \<le> t" and "t < Truncate t d + d"
  using assms pos_mod_bound [of d t] pos_mod_sign [of d t] by (simp_all add: Truncate_def)

section \<open>Runs\<close>

text \<open>The requests at the times \<open>ts\<close> a limiter accepts, and the state it is left in.\<close>

primrec accepted :: "(int \<Rightarrow> 's \<Rightarrow> bool \<times> 's) \<Rightarrow> int list \<Rightarrow> 's \<Rightarrow> int list" where
  "accepted allow [] s = []"
| "accepted allow (t # ts) s =
     (case allow t s of (ok, s') \<Rightarrow> (if ok then [t] else []) @ accepted allow ts s')"

primrec state_after :: "(int \<Rightarrow> 's \<Rightarrow> bool \<times> 's) \<Rightarrow> int list \<Rightarrow> 's \<Rightarrow> 's" where
  "state_after allow [] s = s"
| "state_after allow (t # ts) s = state_after allow ts (snd (allow t s))"

primrec decisions :: "(int \<Rightarrow> 's \<Rightarrow> bool \<times> 's) \<Rightarrow> int list \<Rightarrow> 's \<Rightarrow> bool list" where
  "decisions allow [] s = []"
| "decisions allow (t # ts) s = (case allow t s of (ok, s') \<Rightarrow> ok # decisions allow ts s')"

section \<open>The contract\<close>

text \<open>
  \<open>rep H u s\<close>: the limiter in state \<open>s\<close> has accepted the requests at the times \<open>H\<close> (the latest
  first), and its last decision was at time \<open>u\<close>.  It never lets more than \<open>lim\<close> requests into a
  window, when \<open>lim\<close> is positive.
\<close>

locale bounded_limiter =
  fixes allow :: "int \<Rightarrow> 's \<Rightarrow> bool \<times> 's"
    and rep :: "int list \<Rightarrow> int \<Rightarrow> 's \<Rightarrow> bool"
    and window :: "(int \<Rightarrow> bool) \<Rightarrow> bool"
    and lim :: int
  assumes allow_rep: "rep H u s \<Longrightarrow> u \<le> t \<Longrightarrow> rep (if fst (allow t s) then t # H else H) t (snd (allow t s))"
    and bounded: "rep H u s \<Longrightarrow> 0 < lim \<Longrightarrow> window W \<Longrightarrow> int (length (filter W H)) \<le> lim"
begin

lemma run_rep:
  "rep H u s \<Longrightarrow> sorted (u # ts) \<Longrightarrow>
   rep (rev (accepted allow ts s) @ H) (last (u # ts)) (state_after allow ts s)"
proof (induction ts arbitrary: H u s)
  case Nil
  then show ?case by simp
next
  case (Cons t ts)
  then have "rep (if fst (allow t s) then t # H else H) t (snd (allow t s))" "sorted (t # ts)"
    by (simp_all add: allow_rep)
  from Cons.IH [OF this] show ?case by (simp add: case_prod_beta split: if_splits)
qed

lemma run_bounded:
  assumes "rep [] u s" and "sorted (u # ts)" and "0 < lim" and "window W"
  shows "int (length (filter W (accepted allow ts s))) \<le> lim"
  using bounded [OF run_rep [OF assms(1,2)] assms(3,4)] by (simp flip: rev_filter)

end

text \<open>
  A limiter with a reason: it refuses a request at time \<open>t\<close> only if it has accepted \<open>lim\<close> requests
  later than \<open>t - span\<close>.
\<close>

locale limiter = bounded_limiter +
  fixes span :: int
  assumes justified: "rep H u s \<Longrightarrow> u \<le> t \<Longrightarrow> \<not> fst (allow t s) \<Longrightarrow>
      0 < lim \<and> lim \<le> int (length (filter (\<lambda>x. t - span < x) H))"
begin

lemma refusal_justified:
  assumes "rep [] u s" and "sorted (u # ts @ [t])" and "\<not> fst (allow t (state_after allow ts s))"
  shows "0 < lim \<and> lim \<le> int (length (filter (\<lambda>x. t - span < x) (accepted allow ts s)))"
proof -
  have "sorted (u # ts)" "last (u # ts) \<le> t"
    using assms(2) by (auto simp: sorted_append)
  from justified [OF run_rep [OF assms(1) this(1)] this(2) assms(3)] show ?thesis
    by (simp flip: rev_filter)
qed

end

end
