(* ===== verification/Governance_Window.thy ===== *)
theory Governance_Window
  imports Governance_Limiter
begin

text \<open>
  The sliding-window rate limiter (\<open>internal/governance/sliding_window.go\<close>) and its refinement of
  a limiter that keeps the log of all accepted requests.  Times and durations are integers in
  nanoseconds, times counted from the origin of \<open>time.Truncate\<close>; each reading of the clock is an
  argument.  Counters are unbounded: a slot counts the requests of one slot of time.
\<close>

section \<open>The limiter\<close>

record sliding_window =
  sw_windowSize :: int
  sw_slotDuration :: int
  sw_slots :: "int list"
  sw_slotCount :: nat
  sw_currentSlot :: nat
  sw_lastSlotTime :: int
  sw_total :: int
  sw_limit :: int

definition slot_count :: "int \<Rightarrow> nat" where
  "slot_count c = (if c \<le> 0 then 60 else nat c)"

definition slot_duration :: "int \<Rightarrow> int \<Rightarrow> int" where
  "slot_duration windowSize c =
     (let d = windowSize div int (slot_count c) in if d < time_Millisecond then time_Millisecond else d)"

definition newSlidingWindowCounter :: "int \<Rightarrow> int \<Rightarrow> int \<Rightarrow> int \<Rightarrow> sliding_window" where
  "newSlidingWindowCounter windowSize slotCount lim now =
     \<lparr>sw_windowSize = windowSize, sw_slotDuration = slot_duration windowSize slotCount,
      sw_slots = replicate (slot_count slotCount) 0, sw_slotCount = slot_count slotCount,
      sw_currentSlot = 0, sw_lastSlotTime = Truncate now (slot_duration windowSize slotCount),
      sw_total = 0, sw_limit = lim\<rparr>"

text \<open>The loop of \<open>advance\<close>: one slot forward, dropping what the slot counted a window ago.\<close>

definition advance_slot :: "sliding_window \<Rightarrow> sliding_window" where
  "advance_slot s =
     (let cur = (sw_currentSlot s + 1) mod sw_slotCount s
      in s\<lparr>sw_currentSlot := cur, sw_total := sw_total s - sw_slots s ! cur,
           sw_slots := (sw_slots s)[cur := 0]\<rparr>)"

primrec advance_slots :: "nat \<Rightarrow> sliding_window \<Rightarrow> sliding_window" where
  "advance_slots 0 s = s"
| "advance_slots (Suc i) s = advance_slots i (advance_slot s)"

definition advance :: "int \<Rightarrow> sliding_window \<Rightarrow> sliding_window" where
  "advance clock s =
     (let now = Truncate clock (sw_slotDuration s); elapsed = now - sw_lastSlotTime s
      in if elapsed \<le> 0 then s
         else let k = elapsed div sw_slotDuration s;
                  s' = (if k \<ge> int (sw_slotCount s)
                        then s\<lparr>sw_slots := map (\<lambda>_. 0) (sw_slots s), sw_total := 0, sw_currentSlot := 0\<rparr>
                        else advance_slots (nat k) s)
              in s'\<lparr>sw_lastSlotTime := now\<rparr>)"

definition Allow :: "int \<Rightarrow> sliding_window \<Rightarrow> bool \<times> sliding_window" where
  "Allow clock s0 =
     (let s = advance clock s0
      in if sw_limit s > 0 \<and> sw_total s \<ge> sw_limit s then (False, s)
         else (True, s\<lparr>sw_slots := (sw_slots s)[sw_currentSlot s := sw_slots s ! sw_currentSlot s + 1],
                       sw_total := sw_total s + 1\<rparr>))"

definition Remaining :: "int \<Rightarrow> sliding_window \<Rightarrow> int \<times> sliding_window" where
  "Remaining clock s0 =
     (let s = advance clock s0; remaining = sw_limit s - sw_total s
      in (if remaining < 0 then 0 else remaining, s))"

text \<open>\<open>RetryAfterSec\<close> reads the clock twice.\<close>

definition RetryAfterSec :: "int \<Rightarrow> int \<Rightarrow> sliding_window \<Rightarrow> int \<times> sliding_window" where
  "RetryAfterSec clock clock' s0 =
     (let s = advance clock s0
      in if sw_limit s \<le> 0 \<or> sw_total s < sw_limit s then (0, s)
         else let r = sw_slotDuration s - (clock' - sw_lastSlotTime s);
                  retryAfter = (if r \<le> 0 then sw_slotDuration s else r);
                  secs = retryAfter div time_Second + 1
              in (if secs < 1 then 1 else secs, s))"

definition UpdateLimit :: "int \<Rightarrow> sliding_window \<Rightarrow> sliding_window" where
  "UpdateLimit lim s = s\<lparr>sw_limit := lim\<rparr>"

section \<open>Counting\<close>

text \<open>The number of requests of a log (of slot numbers) after slot \<open>b\<close>.\<close>

abbreviation after :: "int \<Rightarrow> int list \<Rightarrow> int" where
  "after b H \<equiv> int (length (filter (\<lambda>h. b < h) H))"

lemma after_step: "after b H = after (b + 1) H + int (count_list H (b + 1))"
  by (induction H) auto

lemma after_none: "\<forall>h\<in>set H. h \<le> b \<Longrightarrow> after b H = 0"
  by (simp add: filter_empty_conv) (meson leD)

lemma count_none: "\<forall>h\<in>set H. h \<le> (b :: int) \<Longrightarrow> b < c \<Longrightarrow> count_list H c = 0"
  by (meson count_list_0_iff leD)

section \<open>What the slots hold\<close>

text \<open>
  The state of a limiter whose current slot has number \<open>L\<close> and which accepted the requests of the
  log \<open>H\<close>: each slot counts the requests of its number.
\<close>

definition holds :: "int \<Rightarrow> int list \<Rightarrow> sliding_window \<Rightarrow> bool" where
  "holds L H s \<longleftrightarrow>
     0 < sw_slotCount s \<and> length (sw_slots s) = sw_slotCount s \<and> sw_currentSlot s < sw_slotCount s \<and>
     (\<forall>h\<in>set H. h \<le> L) \<and>
     (\<forall>j<sw_slotCount s. sw_slots s ! ((sw_currentSlot s + sw_slotCount s - j) mod sw_slotCount s) =
        int (count_list H (L - int j))) \<and>
     sw_total s = after (L - int (sw_slotCount s)) H"

definition represents :: "int list \<Rightarrow> sliding_window \<Rightarrow> bool" where
  "represents H s \<longleftrightarrow>
     0 < sw_slotDuration s \<and> sw_lastSlotTime s = sw_slotDuration s * (sw_lastSlotTime s div sw_slotDuration s) \<and>
     holds (sw_lastSlotTime s div sw_slotDuration s) H s"

lemma advance_slot_holds:
  assumes "holds L H s"
  shows "holds (L + 1) H (advance_slot s)"
proof -
  let ?n = "sw_slotCount s" and ?c = "sw_currentSlot s"
  let ?cur = "(?c + 1) mod ?n"
  from assms have n: "0 < ?n" "?c < ?n" "length (sw_slots s) = ?n" and H: "\<forall>h\<in>set H. h \<le> L"
    and slots: "\<And>j. j < ?n \<Longrightarrow> sw_slots s ! ((?c + ?n - j) mod ?n) = int (count_list H (L - int j))"
    and total: "sw_total s = after (L - int ?n) H"
    by (simp_all add: holds_def)
  have "sw_slots s ! ?cur = int (count_list H (L - int (?n - 1)))"
    using slots [of "?n - 1"] n by simp
  then have oldest: "sw_slots s ! ?cur = int (count_list H (L - int ?n + 1))"
    using n(1) by (simp add: algebra_simps of_nat_diff)
  have "(sw_slots s)[?cur := 0] ! ((?cur + ?n - j) mod ?n) = int (count_list H (L + 1 - int j))" if "j < ?n" for j
  proof (cases j)
    case 0
    then show ?thesis using n count_none [OF H, of "L + 1"] by simp
  next
    case (Suc i)
    have "(?cur + ?n - j) mod ?n = (?c + ?n - i) mod ?n"
    proof (cases "?c + 1 = ?n")
      case True
      then show ?thesis using that Suc n by (simp add: mod_if) linarith
    next
      case False
      then show ?thesis using that Suc n by simp
    qed
    moreover have "(?c + ?n - i) mod ?n \<noteq> ?cur"
    proof
      assume "(?c + ?n - i) mod ?n = ?cur"
      then show False using that Suc n by (auto simp: mod_if split: if_splits)
    qed
    moreover have "L + 1 - int j = L - int i" using Suc by simp
    ultimately show ?thesis
      using slots [of i] that Suc n by simp
  qed
  moreover have "after (L - int ?n) H - int (count_list H (L - int ?n + 1)) = after (L + 1 - int ?n) H"
    using after_step [of "L - int ?n" H] by (simp add: algebra_simps)
  ultimately show ?thesis
    using n H oldest total by (auto simp: holds_def advance_slot_def Let_def)
qed

lemma advance_slots_holds: "holds L H s \<Longrightarrow> holds (L + int k) H (advance_slots k s)"
proof (induction k arbitrary: L s)
  case (Suc k)
  from Suc.IH [OF advance_slot_holds [OF Suc.prems]] show ?case by (simp add: algebra_simps)
qed simp

lemma advance_slots_frame:
  "sw_slotCount (advance_slots k s) = sw_slotCount s" "sw_slotDuration (advance_slots k s) = sw_slotDuration s"
  "sw_limit (advance_slots k s) = sw_limit s" "sw_lastSlotTime (advance_slots k s) = sw_lastSlotTime s"
  by (induction k arbitrary: s) (simp_all add: advance_slot_def Let_def)

lemma advance_frame [simp]:
  "sw_slotCount (advance t s) = sw_slotCount s" "sw_slotDuration (advance t s) = sw_slotDuration s"
  "sw_limit (advance t s) = sw_limit s"
  by (simp_all add: advance_def Let_def advance_slots_frame)

text \<open>Resetting everything is right when the whole window has passed.\<close>

lemma reset_holds:
  assumes "holds L H s" and "int (sw_slotCount s) \<le> k"
  shows "holds (L + k) H (s\<lparr>sw_slots := map (\<lambda>_. 0) (sw_slots s), sw_total := 0, sw_currentSlot := 0\<rparr>)"
proof -
  from assms(1) have H: "\<forall>h\<in>set H. h \<le> L" by (simp add: holds_def)
  then have "\<forall>h\<in>set H. h \<le> L + k - int (sw_slotCount s)" using assms(2) by fastforce
  then have "after (L + k - int (sw_slotCount s)) H = 0" by (rule after_none)
  moreover have "count_list H (L + k - int j) = 0" if "j < sw_slotCount s" for j
    using that assms(2) by (intro count_none [OF H]) simp
  moreover have "\<forall>h\<in>set H. h \<le> L + k" using H assms(2) by fastforce
  ultimately show ?thesis
    using assms(1) by (simp add: holds_def)
qed

lemma advance_represents:
  assumes "represents H s"
  shows "represents H (advance t s)"
    and "sw_lastSlotTime (advance t s) div sw_slotDuration s =
         max (sw_lastSlotTime s div sw_slotDuration s) (t div sw_slotDuration s)"
proof -
  let ?d = "sw_slotDuration s" and ?L = "sw_lastSlotTime s div sw_slotDuration s"
  from assms have d: "0 < ?d" and last: "sw_lastSlotTime s = ?d * ?L" and holds: "holds ?L H s"
    by (simp_all add: represents_def)
  have elapsed: "Truncate t ?d - sw_lastSlotTime s = ?d * (t div ?d - ?L)"
    using d by (subst last) (simp add: truncate_div algebra_simps)
  have "represents H (advance t s) \<and> sw_lastSlotTime (advance t s) div ?d = max ?L (t div ?d)"
  proof (cases "t div ?d \<le> ?L")
    case True
    then have "Truncate t ?d - sw_lastSlotTime s \<le> 0" unfolding elapsed using d by (simp add: mult_le_0_iff)
    with True assms show ?thesis by (simp add: advance_def Let_def)
  next
    case False
    define k where "k = t div ?d - ?L"
    with False have k: "0 < k" by simp
    let ?s = "if k \<ge> int (sw_slotCount s)
        then s\<lparr>sw_slots := map (\<lambda>_. 0) (sw_slots s), sw_total := 0, sw_currentSlot := 0\<rparr>
        else advance_slots (nat k) s"
    have "\<not> Truncate t ?d - sw_lastSlotTime s \<le> 0" "(Truncate t ?d - sw_lastSlotTime s) div ?d = k"
      unfolding elapsed k_def [symmetric] using d k by (simp_all add: mult_le_0_iff)
    then have adv: "advance t s = ?s\<lparr>sw_lastSlotTime := Truncate t ?d\<rparr>"
      unfolding advance_def Let_def by simp
    have "holds (?L + k) H ?s"
      using reset_holds [OF holds, of k] advance_slots_holds [OF holds, of "nat k"] k by simp
    then have "holds (t div ?d) H (advance t s)"
      unfolding adv k_def by (simp add: holds_def)
    moreover have "sw_lastSlotTime (advance t s) = ?d * (t div ?d)"
      unfolding adv using d by (simp add: truncate_div)
    ultimately show ?thesis
      using d False by (simp add: represents_def)
  qed
  then show "represents H (advance t s)"
    and "sw_lastSlotTime (advance t s) div ?d = max ?L (t div ?d)" by simp_all
qed

section \<open>Decisions\<close>

lemma Allow_holds:
  assumes "holds L H s"
  shows "holds L (L # H) (s\<lparr>sw_slots := (sw_slots s)[sw_currentSlot s := sw_slots s ! sw_currentSlot s + 1],
                            sw_total := sw_total s + 1\<rparr>)"
proof -
  let ?n = "sw_slotCount s" and ?c = "sw_currentSlot s"
  from assms have n: "0 < ?n" "?c < ?n" "length (sw_slots s) = ?n"
    and slots: "\<And>j. j < ?n \<Longrightarrow> sw_slots s ! ((?c + ?n - j) mod ?n) = int (count_list H (L - int j))"
    by (simp_all add: holds_def)
  have "(sw_slots s)[?c := sw_slots s ! ?c + 1] ! ((?c + ?n - j) mod ?n) = int (count_list (L # H) (L - int j))"
    if "j < ?n" for j
  proof (cases "j = 0")
    case True
    then show ?thesis using slots [of 0] n by simp
  next
    case False
    then have "(?c + ?n - j) mod ?n \<noteq> ?c" using that n by (auto simp: mod_if split: if_splits)
    then show ?thesis using slots [OF that] False by simp
  qed
  then show ?thesis using assms by (simp add: holds_def)
qed

lemma Allow_represents:
  assumes "represents H s" and T_def: "T = max (sw_lastSlotTime s div sw_slotDuration s) (t div sw_slotDuration s)"
  shows "fst (Allow t s) \<longleftrightarrow> sw_limit s \<le> 0 \<or> after (T - int (sw_slotCount s)) H < sw_limit s"
    and "represents (if fst (Allow t s) then T # H else H) (snd (Allow t s))"
    and "sw_lastSlotTime (snd (Allow t s)) div sw_slotDuration s = T"
proof -
  from advance_represents [OF assms(1), of t]
  have adv: "represents H (advance t s)" and T: "sw_lastSlotTime (advance t s) div sw_slotDuration s = T"
    by (simp_all add: T_def)
  then have holds: "holds T H (advance t s)" by (simp add: represents_def)
  then have "sw_total (advance t s) = after (T - int (sw_slotCount s)) H" by (simp add: holds_def)
  then show fst: "fst (Allow t s) \<longleftrightarrow> sw_limit s \<le> 0 \<or> after (T - int (sw_slotCount s)) H < sw_limit s"
    by (auto simp: Allow_def Let_def)
  show "sw_lastSlotTime (snd (Allow t s)) div sw_slotDuration s = T"
    using T by (simp add: Allow_def Let_def)
  show "represents (if fst (Allow t s) then T # H else H) (snd (Allow t s))"
  proof (cases "fst (Allow t s)")
    case True
    then have "snd (Allow t s) = advance t s\<lparr>sw_slots := (sw_slots (advance t s))[sw_currentSlot (advance t s) :=
        sw_slots (advance t s) ! sw_currentSlot (advance t s) + 1], sw_total := sw_total (advance t s) + 1\<rparr>"
      by (auto simp: Allow_def Let_def split: if_splits)
    with True Allow_holds [OF holds] adv T show ?thesis by (simp add: represents_def)
  next
    case False
    with adv show ?thesis by (auto simp: Allow_def Let_def split: if_splits)
  qed
qed

lemma Allow_frame [simp]:
  "sw_slotCount (snd (Allow t s)) = sw_slotCount s" "sw_slotDuration (snd (Allow t s)) = sw_slotDuration s"
  "sw_limit (snd (Allow t s)) = sw_limit s"
  by (simp_all add: Allow_def Let_def)

lemma slot_duration_pos: "0 < slot_duration w c"
  by (simp add: slot_duration_def Let_def time_units)

lemma new_represents: "represents [] (newSlidingWindowCounter w c lim t)"
  using slot_duration_pos [of w c]
  by (simp add: represents_def holds_def newSlidingWindowCounter_def truncate_div slot_count_def)

section \<open>The contract of a limiter\<close>

text \<open>The slot numbers of a log of times, and the requests of \<open>n\<close> consecutive slots.\<close>

abbreviation slots_of :: "int \<Rightarrow> int list \<Rightarrow> int list" where
  "slots_of d H \<equiv> map (\<lambda>t. t div d) H"

abbreviation within :: "int \<Rightarrow> nat \<Rightarrow> int list \<Rightarrow> int" where
  "within b n S \<equiv> int (length (filter (\<lambda>h. b < h \<and> h \<le> b + int n) S))"

definition window_rep :: "nat \<Rightarrow> int \<Rightarrow> int \<Rightarrow> int list \<Rightarrow> int \<Rightarrow> sliding_window \<Rightarrow> bool" where
  "window_rep n d lim H u s \<longleftrightarrow>
     sw_slotCount s = n \<and> sw_slotDuration s = d \<and> sw_limit s = lim \<and> represents (slots_of d H) s \<and>
     sw_lastSlotTime s div d = u div d \<and> (0 < lim \<longrightarrow> (\<forall>b. within b n (slots_of d H) \<le> lim))"

text \<open>A window of time: it touches at most \<open>n\<close> slots.\<close>

definition time_window :: "nat \<Rightarrow> int \<Rightarrow> (int \<Rightarrow> bool) \<Rightarrow> bool" where
  "time_window n d W \<longleftrightarrow> (\<exists>a. W = (\<lambda>t. a \<le> t \<and> t \<le> a + (int n - 1) * d))"

lemma length_filter_mono: "(\<And>x. x \<in> set xs \<Longrightarrow> P x \<Longrightarrow> Q x) \<Longrightarrow> length (filter P xs) \<le> length (filter Q xs)"
  by (induction xs) auto

lemma within_insert:
  assumes "after (T - int n) S < lim" and "\<forall>b. within b n S \<le> lim" and "\<forall>h\<in>set S. h \<le> T"
  shows "within b n (T # S) \<le> lim"
proof (cases "b < T \<and> T \<le> b + int n")
  case True
  then have "within b n S \<le> after (T - int n) S"
    by (auto intro!: length_filter_mono)
  with True assms(1) show ?thesis by simp
next
  case False
  with assms(2) show ?thesis by auto
qed

lemma window_allow_rep:
  assumes "window_rep n d lim H u s" and "u \<le> t"
  shows "window_rep n d lim (if fst (Allow t s) then t # H else H) t (snd (Allow t s))"
proof -
  from assms(1) have f: "sw_slotCount s = n" "sw_slotDuration s = d" "sw_limit s = lim"
    and rep: "represents (slots_of d H) s" and last: "sw_lastSlotTime s div d = u div d"
    and old: "0 < lim \<Longrightarrow> \<forall>b. within b n (slots_of d H) \<le> lim"
    by (simp_all add: window_rep_def)
  from rep f have d: "0 < d" by (simp add: represents_def)
  then have le: "u div d \<le> t div d" using assms(2) by (simp add: zdiv_mono1)
  have "t div d = max (sw_lastSlotTime s div sw_slotDuration s) (t div sw_slotDuration s)"
    using le last f by simp
  from Allow_represents [OF rep this]
  have ok: "fst (Allow t s) \<longleftrightarrow> lim \<le> 0 \<or> after (t div d - int n) (slots_of d H) < lim"
    and rep': "represents (if fst (Allow t s) then t div d # slots_of d H else slots_of d H) (snd (Allow t s))"
    and last': "sw_lastSlotTime (snd (Allow t s)) div d = t div d"
    by (simp_all add: f)
  have "\<forall>h\<in>set (slots_of d H). h \<le> t div d"
    using rep le last f by (fastforce simp: represents_def holds_def)
  then have new: "\<forall>b. within b n (slots_of d (t # H)) \<le> lim" if "0 < lim" "fst (Allow t s)"
    unfolding list.map using within_insert old that ok by auto
  show ?thesis
    using f rep' last' old new unfolding window_rep_def by (cases "fst (Allow t s)") simp_all
qed

lemma window_advance_rep:
  assumes "window_rep n d lim H u s" and "u \<le> t"
  shows "window_rep n d lim H t (advance t s)"
proof -
  from assms(1) have "0 < d" by (auto simp: window_rep_def represents_def)
  with assms have "max (u div d) (t div d) = t div d" by (simp add: zdiv_mono1)
  with assms(1) advance_represents [of "slots_of d H" s t] show ?thesis by (auto simp: window_rep_def)
qed

lemma window_bounded:
  assumes "window_rep n d lim H u s" and "0 < lim" and "time_window n d W"
  shows "int (length (filter W H)) \<le> lim"
proof -
  obtain a where W: "W = (\<lambda>t. a \<le> t \<and> t \<le> a + (int n - 1) * d)"
    using assms(3) by (auto simp: time_window_def)
  have d: "0 < d" using assms(1) by (auto simp: window_rep_def represents_def)
  have "a div d - 1 < t div d \<and> t div d \<le> a div d - 1 + int n" if "W t" for t
  proof -
    from that have "a \<le> t" "t \<le> a + (int n - 1) * d" by (simp_all add: W)
    from this [THEN zdiv_mono1, OF d] show ?thesis using d by simp
  qed
  then have "int (length (filter W H)) \<le> within (a div d - 1) n (slots_of d H)"
    by (auto simp: filter_map comp_def intro!: length_filter_mono)
  also have "\<dots> \<le> lim" using assms(1,2) by (simp add: window_rep_def)
  finally show ?thesis .
qed

lemma window_justified:
  assumes "window_rep n d lim H u s" and "u \<le> t" and "\<not> fst (Allow t s)"
  shows "0 < lim \<and> lim \<le> int (length (filter (\<lambda>x. t - int n * d < x) H))"
proof -
  from assms(1) have f: "sw_slotCount s = n" "sw_slotDuration s = d" "sw_limit s = lim"
    and rep: "represents (slots_of d H) s" and last: "sw_lastSlotTime s div d = u div d"
    by (simp_all add: window_rep_def)
  from rep f have d: "0 < d" by (simp add: represents_def)
  then have "t div d = max (sw_lastSlotTime s div sw_slotDuration s) (t div sw_slotDuration s)"
    using assms(2) last f by (simp add: zdiv_mono1)
  from Allow_represents(1) [OF rep this] assms(3)
  have full: "0 < lim" "lim \<le> after (t div d - int n) (slots_of d H)" by (simp_all add: f)
  have "t - int n * d < x" if "t div d - int n < x div d" for x
  proof -
    have "d * (t div d - int n + 1) \<le> d * (x div d)" using that d by simp
    moreover have "d * (x div d) \<le> x" "t < d * (t div d) + d"
      using truncate_bounds [OF d] truncate_div(1) [OF d] by metis+
    ultimately show ?thesis by (simp add: algebra_simps)
  qed
  then have "after (t div d - int n) (slots_of d H) \<le> int (length (filter (\<lambda>x. t - int n * d < x) H))"
    by (auto simp: filter_map comp_def intro!: length_filter_mono)
  with full show ?thesis by simp
qed

interpretation window: limiter Allow "window_rep n d lim" "time_window n d" lim "int n * d" for n d lim
  by unfold_locales (fact window_allow_rep, fact window_bounded, fact window_justified)

lemma new_window_rep:
  "window_rep (slot_count c) (slot_duration w c) lim [] t (newSlidingWindowCounter w c lim t)"
  using new_represents [of w c lim t] truncate_div [OF slot_duration_pos]
  by (simp add: window_rep_def) (simp add: newSlidingWindowCounter_def)

section \<open>Properties\<close>

text \<open>The specification: a limiter that remembers the slot of every request it accepted.\<close>

fun log_decisions :: "nat \<Rightarrow> int \<Rightarrow> int \<Rightarrow> int \<Rightarrow> int list \<Rightarrow> int list \<Rightarrow> bool list" where
  "log_decisions n d lim L H [] = []"
| "log_decisions n d lim L H (t # ts) =
     (let T = max L (t div d); ok = (lim \<le> 0 \<or> after (T - int n) H < lim)
      in ok # log_decisions n d lim T (if ok then T # H else H) ts)"

lemma decisions_log:
  assumes "represents H s"
  shows "decisions Allow ts s =
    log_decisions (sw_slotCount s) (sw_slotDuration s) (sw_limit s) (sw_lastSlotTime s div sw_slotDuration s) H ts"
  using assms
proof (induction ts arbitrary: s H)
  case Nil
  then show ?case by simp
next
  case (Cons t ts)
  note A = Allow_represents [OF Cons.prems refl, of t]
  from Cons.IH [OF A(2)] A(1,3) show ?case
    by (simp add: case_prod_beta Let_def)
qed

text \<open>
  C9. The circular buffer implements a log: whatever times the clock shows (it may stand still or
  go back), the limiter accepts exactly the requests that a limiter accepts which keeps the slot
  of every accepted request and counts those of the last \<open>slotCount\<close> slots.
\<close>

theorem sliding_window_refines_log:
  "decisions Allow ts (newSlidingWindowCounter w c lim t0) =
   log_decisions (slot_count c) (slot_duration w c) lim (t0 div slot_duration w c) [] ts"
  using decisions_log [OF new_represents] truncate_div(2) [OF slot_duration_pos]
  by (simp add: newSlidingWindowCounter_def)

text \<open>
  While the clock does not go back, the limiter never accepts more than \<open>limit\<close> requests in a
  period of \<open>slotCount - 1\<close> slots, wherever the period begins.
\<close>

theorem window_never_exceeds_limit:
  assumes "sorted (t0 # ts)" and "0 < lim"
  shows "int (length (filter (\<lambda>t. a \<le> t \<and> t \<le> a + (int (slot_count c) - 1) * slot_duration w c)
           (accepted Allow ts (newSlidingWindowCounter w c lim t0)))) \<le> lim"
  by (rule window.run_bounded [OF new_window_rep assms]) (auto simp: time_window_def)

text \<open>
  It refuses no request without need: when it refuses one at time \<open>t\<close>, it has accepted \<open>limit\<close>
  requests (and more than none) in the window that ends at \<open>t\<close>.
\<close>

theorem refusal_means_window_full:
  assumes "sorted (t0 # ts @ [t])" and "f = newSlidingWindowCounter w c lim t0"
    and "\<not> fst (Allow t (state_after Allow ts f))"
  shows "0 < lim \<and> lim \<le> int (length (filter (\<lambda>x. t - int (slot_count c) * slot_duration w c < x)
           (accepted Allow ts f)))"
  unfolding assms(2) by (rule window.refusal_justified [OF new_window_rep assms(1) assms(3) [unfolded assms(2)]])

text \<open>
  The limit of a minute may be used twice within a minute: the slots are coarse, so that a
  limiter of 2 requests per minute accepts 4 within 59.1 seconds.
\<close>

theorem minute_limit_used_twice:
  "decisions Allow [900 * time_Millisecond, 900 * time_Millisecond, 60 * time_Second, 60 * time_Second]
     (newSlidingWindowCounter time_Minute 60 2 0) = [True, True, True, True]"
  unfolding decisions_log [OF new_represents]
  by (simp add: newSlidingWindowCounter_def slot_count_def slot_duration_def time_units Let_def Truncate_def)

text \<open>
  \<open>RetryAfterSec\<close> is not a time after which a request is accepted: it is the time to the next
  slot, which need not free anything.  A limiter of one request per minute that accepted a request
  at 0 s and refuses one at 1 s says \<open>2\<close>, and still refuses two seconds later.
\<close>

theorem retry_after_is_too_early:
  "decisions Allow [0, time_Second, 3 * time_Second] (newSlidingWindowCounter time_Minute 60 1 0) =
     [True, False, False] \<and>
   fst (RetryAfterSec time_Second time_Second
          (state_after Allow [0, time_Second] (newSlidingWindowCounter time_Minute 60 1 0))) = 2"
proof
  show "decisions Allow [0, time_Second, 3 * time_Second] (newSlidingWindowCounter time_Minute 60 1 0) =
      [True, False, False]"
    unfolding decisions_log [OF new_represents]
    by (simp add: newSlidingWindowCounter_def slot_count_def slot_duration_def time_units Let_def Truncate_def)
  show "fst (RetryAfterSec time_Second time_Second
      (state_after Allow [0, time_Second] (newSlidingWindowCounter time_Minute 60 1 0))) = 2"
    by code_simp
qed

theorem window_never_exceeds_limit_witness:
  "int (length (filter (\<lambda>t. 0 \<le> t \<and> t \<le> 59 * time_Second)
     (accepted Allow [0, 1, 2] (newSlidingWindowCounter time_Minute 60 2 0)))) \<le> 2"
  using window_never_exceeds_limit [of 0 "[0, 1, 2]" 2 0 60 time_Minute]
  by (simp add: slot_count_def slot_duration_def time_units Let_def)

theorem refusal_means_window_full_witness:
  "1 \<le> int (length (filter (\<lambda>x. time_Second - 60 * time_Second < x)
     (accepted Allow [0] (newSlidingWindowCounter time_Minute 60 1 0))))"
proof -
  have refused: "\<not> fst (Allow time_Second (state_after Allow [0] (newSlidingWindowCounter time_Minute 60 1 0)))"
    by code_simp
  have "sorted (0 # [0] @ [time_Second])" "int (slot_count 60) * slot_duration time_Minute 60 = 60 * time_Second"
    by (simp_all add: slot_count_def slot_duration_def time_units Let_def)
  from refusal_means_window_full [OF this(1) refl refused] this(2) show ?thesis by simp
qed

end
