(* ===== verification/Governance_Quota.thy ===== *)
theory Governance_Quota
  imports Governance_Limiter
begin

text \<open>
  The quota tracker (\<open>internal/governance/quota_tracker.go\<close>): queries per hour and per day, with
  counters that are reset by the first query after the end of the hour or day.
\<close>

section \<open>The tracker\<close>

record quota_tracker =
  q_queriesThisHour :: int
  q_queriesThisDay :: int
  q_hourResetAt :: int
  q_dayResetAt :: int
  q_maxPerHour :: int
  q_maxPerDay :: int

definition time_Day :: int where "time_Day = 24 * time_Hour"

definition newQuotaTracker :: "int \<Rightarrow> int \<Rightarrow> int \<Rightarrow> quota_tracker" where
  "newQuotaTracker maxPerHour maxPerDay now =
     \<lparr>q_queriesThisHour = 0, q_queriesThisDay = 0,
      q_hourResetAt = Truncate now time_Hour + time_Hour, q_dayResetAt = Truncate now time_Day + time_Day,
      q_maxPerHour = maxPerHour, q_maxPerDay = maxPerDay\<rparr>"

definition maybeReset :: "int \<Rightarrow> quota_tracker \<Rightarrow> quota_tracker" where
  "maybeReset now q0 =
     (let q = (if now > q_hourResetAt q0
               then q0\<lparr>q_queriesThisHour := 0, q_hourResetAt := Truncate now time_Hour + time_Hour\<rparr> else q0)
      in if now > q_dayResetAt q
         then q\<lparr>q_queriesThisDay := 0, q_dayResetAt := Truncate now time_Day + time_Day\<rparr> else q)"

definition AllowQuery :: "int \<Rightarrow> quota_tracker \<Rightarrow> (bool \<times> string) \<times> quota_tracker" where
  "AllowQuery now q0 =
     (let q = maybeReset now q0
      in if q_maxPerHour q > 0 \<and> q_queriesThisHour q \<ge> q_maxPerHour q
         then ((False, ''Hourly query quota exceeded''), q)
         else if q_maxPerDay q > 0 \<and> q_queriesThisDay q \<ge> q_maxPerDay q
         then ((False, ''Daily query quota exceeded''), q)
         else ((True, []), q\<lparr>q_queriesThisHour := q_queriesThisHour q + 1,
                             q_queriesThisDay := q_queriesThisDay q + 1\<rparr>))"

definition GetUsage :: "int \<Rightarrow> quota_tracker \<Rightarrow> (int \<times> int \<times> int \<times> int) \<times> quota_tracker" where
  "GetUsage now q0 =
     (let q = maybeReset now q0
      in ((q_queriesThisHour q, q_queriesThisDay q, q_hourResetAt q, q_dayResetAt q), q))"

definition UpdateLimits :: "int \<Rightarrow> int \<Rightarrow> quota_tracker \<Rightarrow> quota_tracker" where
  "UpdateLimits maxPerHour maxPerDay q = q\<lparr>q_maxPerHour := maxPerHour, q_maxPerDay := maxPerDay\<rparr>"

text \<open>The decision alone.\<close>

definition admit_query :: "int \<Rightarrow> quota_tracker \<Rightarrow> bool \<times> quota_tracker" where
  "admit_query now q = (case AllowQuery now q of ((ok, reason), q') \<Rightarrow> (ok, q'))"

section \<open>One period\<close>

text \<open>
  The counter of one period (an hour or a day) of length \<open>P\<close>, to be reset at \<open>r\<close>.  The latest
  \<open>n\<close> requests of the log \<open>H\<close> were counted since the last reset.  No earlier request lies in a
  period in which a request may still be counted.
\<close>

definition period_split :: "int \<Rightarrow> int list \<Rightarrow> int list \<Rightarrow> int \<Rightarrow> int \<Rightarrow> bool" where
  "period_split P H1 H2 u r \<longleftrightarrow>
     (\<forall>h\<in>set H1. r - P \<le> h \<and> h \<le> u) \<and> (\<forall>h\<in>set H2. h \<le> r - P) \<and>
     (r - P < u \<and> (\<forall>h\<in>set H1. r - P < h) \<or> (\<forall>h\<in>set H2. h \<le> r - 2 * P))"

abbreviation in_period :: "int \<Rightarrow> int \<Rightarrow> int \<Rightarrow> bool" where
  "in_period P k \<equiv> \<lambda>h. k * P < h \<and> h \<le> (k + 1) * P"

definition period_rep :: "int \<Rightarrow> int \<Rightarrow> int list \<Rightarrow> int \<Rightarrow> int \<Rightarrow> int \<Rightarrow> bool" where
  "period_rep P lim H u cnt r \<longleftrightarrow>
     P dvd r \<and> r - P \<le> u \<and> u \<le> r \<and> 0 \<le> cnt \<and> cnt \<le> int (length H) \<and>
     period_split P (take (nat cnt) H) (drop (nat cnt) H) u r \<and>
     (0 < lim \<longrightarrow> (\<forall>k. int (length (filter (in_period P k) H)) \<le> lim))"

lemma multiples_apart: "P dvd a \<Longrightarrow> P dvd b \<Longrightarrow> a < b \<Longrightarrow> a \<le> b - (P :: int)"
  using zdvd_imp_le [of P "b - a"] by (auto simp: dvd_diff)

lemma period_log_le: "period_rep P lim H u cnt r \<Longrightarrow> 0 < P \<Longrightarrow> h \<in> set H \<Longrightarrow> h \<le> u"
  using append_take_drop_id [of "nat cnt" H]
  unfolding period_rep_def period_split_def by (metis Un_iff order_trans set_append)

text \<open>Time passes: at \<open>t\<close> the counter is reset, or not.\<close>

lemma period_reset:
  assumes "0 < P" and "period_rep P lim H u cnt r" and "u \<le> t"
  shows "period_rep P lim H t (if r < t then 0 else cnt) (if r < t then Truncate t P + P else r)"
proof (cases "r < t")
  case False
  with assms show ?thesis unfolding period_rep_def period_split_def by force
next
  case True
  have le: "h \<le> r" if "h \<in> set H" for h
    using period_log_le [OF assms(2,1) that] assms(2) by (simp add: period_rep_def)
  have T: "Truncate t P \<le> t" "t < Truncate t P + P" "P dvd Truncate t P"
    using truncate_bounds [OF assms(1), of t] truncate_div(1) [OF assms(1), of t] by simp_all
  have r: "P dvd r" using assms(2) by (simp add: period_rep_def)
  have "r \<le> Truncate t P"
    using multiples_apart [of P r "Truncate t P + P"] r T True by simp
  moreover have "r \<le> Truncate t P - P" if "Truncate t P = t"
    using multiples_apart [of P r "Truncate t P"] r T True that by simp
  ultimately have "period_split P [] H t (Truncate t P + P)"
    using le T unfolding period_split_def by force
  with True T assms(2) show ?thesis by (simp add: period_rep_def)
qed

text \<open>An earlier request shares no period with one that is counted now.\<close>

lemma no_common_period:
  assumes "0 < P" and "P dvd r" and "r - P \<le> t" and "t \<le> r" and t: "in_period P k t"
    and "h \<le> r - P" and "r - P < t \<or> h \<le> r - 2 * P"
  shows "\<not> in_period P k h"
proof
  assume h: "in_period P k h"
  obtain m where r: "r = m * P" using assms(2) by (auto simp: dvd_def mult.commute)
  show False
  proof (cases "r - P < t")
    case True
    with t r have "(m - 1) * P < (k + 1) * P" by (simp add: algebra_simps)
    then have "m - 1 \<le> k" using assms(1) by (simp add: mult_less_cancel_right)
    then have "(m - 1) * P \<le> k * P" using assms(1) by (simp add: mult_right_mono)
    with h assms(6) r show False by (simp add: algebra_simps)
  next
    case False
    with assms(7) h r have "k * P < (m - 2) * P" by (simp add: algebra_simps)
    then have "k + 1 \<le> m - 2" using assms(1) by (simp add: mult_less_cancel_right)
    then have "(k + 1) * P \<le> (m - 2) * P" using assms(1) by (simp add: mult_right_mono)
    with t assms(1,3) r show False by (simp add: algebra_simps)
  qed
qed

text \<open>A request is counted.\<close>

lemma period_count:
  assumes "0 < P" and "period_rep P lim H t cnt r" and "lim \<le> 0 \<or> cnt < lim"
  shows "period_rep P lim (t # H) t (cnt + 1) r"
proof -
  let ?H1 = "take (nat cnt) H" and ?H2 = "drop (nat cnt) H"
  from assms(2) have cnt: "0 \<le> cnt" "cnt \<le> int (length H)" and r: "P dvd r" "r - P \<le> t" "t \<le> r"
    and split: "period_split P ?H1 ?H2 t r"
    and old: "0 < lim \<Longrightarrow> \<forall>k. int (length (filter (in_period P k) H)) \<le> lim"
    by (simp_all add: period_rep_def)
  have new: "int (length (filter (in_period P k) (t # H))) \<le> lim" if "0 < lim" for k
  proof (cases "in_period P k t")
    case True
    have "\<not> in_period P k h" if h: "h \<in> set ?H2" for h
    proof (rule no_common_period [OF assms(1) r True])
      show "h \<le> r - P" "r - P < t \<or> h \<le> r - 2 * P"
        using split h unfolding period_split_def by blast+
    qed
    then have "filter (in_period P k) ?H2 = []" by (simp add: filter_empty_conv)
    moreover have "filter (in_period P k) H = filter (in_period P k) ?H1 @ filter (in_period P k) ?H2"
      by (simp only: filter_append [symmetric] append_take_drop_id)
    ultimately have "length (filter (in_period P k) H) \<le> length ?H1"
      using length_filter_le [of "in_period P k" ?H1] by simp
    with True assms(3) that cnt show ?thesis by simp
  next
    case False
    with old [OF that] show ?thesis by auto
  qed
  have "take (nat (cnt + 1)) (t # H) = t # ?H1" "drop (nat (cnt + 1)) (t # H) = ?H2"
    using cnt by (simp_all add: nat_add_distrib)
  moreover have "period_split P (t # ?H1) ?H2 t r"
    using split r unfolding period_split_def by auto
  ultimately show ?thesis
    using new cnt r by (simp add: period_rep_def)
qed

section \<open>The tracker as a limiter\<close>

definition quota_rep :: "int \<Rightarrow> int \<Rightarrow> int list \<Rightarrow> int \<Rightarrow> quota_tracker \<Rightarrow> bool" where
  "quota_rep maxHour maxDay H u q \<longleftrightarrow>
     q_maxPerHour q = maxHour \<and> q_maxPerDay q = maxDay \<and>
     period_rep time_Hour maxHour H u (q_queriesThisHour q) (q_hourResetAt q) \<and>
     period_rep time_Day maxDay H u (q_queriesThisDay q) (q_dayResetAt q)"

lemma period_pos: "0 < time_Hour" "0 < time_Day"
  by (simp_all add: time_Day_def time_units)

lemma maybeReset_fields:
  "q_queriesThisHour (maybeReset t q) = (if q_hourResetAt q < t then 0 else q_queriesThisHour q)"
  "q_hourResetAt (maybeReset t q) = (if q_hourResetAt q < t then Truncate t time_Hour + time_Hour else q_hourResetAt q)"
  "q_queriesThisDay (maybeReset t q) = (if q_dayResetAt q < t then 0 else q_queriesThisDay q)"
  "q_dayResetAt (maybeReset t q) = (if q_dayResetAt q < t then Truncate t time_Day + time_Day else q_dayResetAt q)"
  "q_maxPerHour (maybeReset t q) = q_maxPerHour q" "q_maxPerDay (maybeReset t q) = q_maxPerDay q"
  by (simp_all add: maybeReset_def Let_def)

lemma quota_rep_reset:
  assumes "quota_rep mh md H u q" and "u \<le> t"
  shows "quota_rep mh md H t (maybeReset t q)"
  using assms period_reset [OF period_pos(1) _ assms(2)] period_reset [OF period_pos(2) _ assms(2)]
  by (simp add: quota_rep_def maybeReset_fields)

lemma admit_query_cases:
  obtains (refused) "fst (admit_query t q) = False" "snd (admit_query t q) = maybeReset t q"
  | (admitted) "fst (admit_query t q) = True"
      "q_maxPerHour q \<le> 0 \<or> q_queriesThisHour (maybeReset t q) < q_maxPerHour q"
      "q_maxPerDay q \<le> 0 \<or> q_queriesThisDay (maybeReset t q) < q_maxPerDay q"
      "snd (admit_query t q) = (maybeReset t q)
         \<lparr>q_queriesThisHour := q_queriesThisHour (maybeReset t q) + 1,
          q_queriesThisDay := q_queriesThisDay (maybeReset t q) + 1\<rparr>"
  by (cases "fst (admit_query t q)")
     (auto simp: admit_query_def AllowQuery_def Let_def maybeReset_fields(5,6) split: if_splits)

lemma quota_allow_rep:
  assumes "quota_rep mh md H u q" and "u \<le> t"
  shows "quota_rep mh md (if fst (admit_query t q) then t # H else H) t (snd (admit_query t q))"
proof -
  from quota_rep_reset [OF assms] have rep: "quota_rep mh md H t (maybeReset t q)" .
  have max: "q_maxPerHour q = mh" "q_maxPerDay q = md" using assms(1) by (simp_all add: quota_rep_def)
  show ?thesis
  proof (cases rule: admit_query_cases [of t q])
    case refused
    with rep show ?thesis by simp
  next
    case admitted
    with rep max show ?thesis
      using period_count [OF period_pos(1), of mh H t "q_queriesThisHour (maybeReset t q)" "q_hourResetAt (maybeReset t q)"]
        period_count [OF period_pos(2), of md H t "q_queriesThisDay (maybeReset t q)" "q_dayResetAt (maybeReset t q)"]
      by (simp add: quota_rep_def)
  qed
qed

lemma new_quota_rep: "quota_rep mh md [] t (newQuotaTracker mh md t)"
  using truncate_bounds [OF period_pos(1), of t] truncate_bounds [OF period_pos(2), of t]
    truncate_div(1) [OF period_pos(1), of t] truncate_div(1) [OF period_pos(2), of t]
  by (simp add: quota_rep_def newQuotaTracker_def period_rep_def period_split_def)

interpretation hourly: bounded_limiter admit_query "quota_rep mh md" "\<lambda>W. \<exists>k. W = in_period time_Hour k" mh for mh md
  by unfold_locales (fact quota_allow_rep, auto simp: quota_rep_def period_rep_def)

interpretation daily: bounded_limiter admit_query "quota_rep mh md" "\<lambda>W. \<exists>k. W = in_period time_Day k" md for mh md
  by unfold_locales (fact quota_allow_rep, auto simp: quota_rep_def period_rep_def)

section \<open>Properties\<close>

text \<open>
  While the clock does not go back, no hour sees more than \<open>maxPerHour\<close> queries and no day
  more than \<open>maxPerDay\<close>, when the limit is positive.  The hour that ends at a full hour includes
  that instant and excludes the instant at which it began.
\<close>

theorem quota_never_exceeded:
  assumes "sorted (t0 # ts)" and "A = accepted admit_query ts (newQuotaTracker maxPerHour maxPerDay t0)"
  shows "(maxPerHour \<le> 0 \<or> int (length (filter (\<lambda>t. k * time_Hour < t \<and> t \<le> (k + 1) * time_Hour) A)) \<le> maxPerHour) \<and>
         (maxPerDay \<le> 0 \<or> int (length (filter (\<lambda>t. k * time_Day < t \<and> t \<le> (k + 1) * time_Day) A)) \<le> maxPerDay)"
proof -
  have "int (length (filter (in_period time_Hour k) A)) \<le> maxPerHour" if "0 < maxPerHour"
    unfolding assms(2) by (rule hourly.run_bounded [OF new_quota_rep assms(1) that]) auto
  moreover have "int (length (filter (in_period time_Day k) A)) \<le> maxPerDay" if "0 < maxPerDay"
    unfolding assms(2) by (rule daily.run_bounded [OF new_quota_rep assms(1) that]) auto
  ultimately show ?thesis by linarith
qed

theorem quota_never_exceeded_witness:
  "int (length (filter (\<lambda>t. 0 < t \<and> t \<le> time_Hour) (accepted admit_query [1, 2, 3] (newQuotaTracker 2 5 0)))) \<le> 2"
  using quota_never_exceeded [of 0 "[1, 2, 3]" _ 2 5 0, OF _ refl] by simp

end
