(* ===== verification/Governance_Manager.thy ===== *)
theory Governance_Manager
  imports Prelude Governance_Window Governance_Quota
begin

text \<open>
  The governance manager (\<open>internal/governance/manager.go\<close>): policies per token with defaults, and
  the limiters and trackers it creates on demand.  Each call runs as one step; the outcome of the
  SQL statement of a call is an argument, and so is the clock: \<open>clock k\<close> is what the \<open>k\<close>-th place
  of the call reads that asks for the time.  Log lines and metrics are left out.
\<close>

section \<open>State\<close>

record policy =
  pol_ID :: int64
  pol_TokenID :: int64
  pol_TokenName :: string
  pol_RateLimitPerMinute :: int
  pol_RateLimitPerHour :: int
  pol_MaxQueriesPerHour :: int
  pol_MaxQueriesPerDay :: int
  pol_MaxRowsPerQuery :: int
  pol_MaxScanDurationSec :: int
  pol_CreatedAt :: int
  pol_UpdatedAt :: int

record token_usage =
  us_TokenID :: int64
  us_QueriesThisHour :: int
  us_QueriesThisDay :: int
  us_HourResetAt :: int
  us_DayResetAt :: int
  us_RateLimitRemainingPerMin :: int
  us_RateLimitRemainingPerHour :: int

text \<open>The reason of a refusal; the messages with a number keep the number.\<close>

datatype reason = NoReason | PerMinuteExceeded int | PerHourExceeded int | QuotaReason string

record enforcement_result =
  er_Allowed :: bool
  er_Reason :: reason
  er_RetryAfterSec :: int
  er_MaxRows :: int
  er_MaxDuration :: int

definition allowed_result :: enforcement_result where
  "allowed_result = \<lparr>er_Allowed = True, er_Reason = NoReason, er_RetryAfterSec = 0, er_MaxRows = 0, er_MaxDuration = 0\<rparr>"

record governance_config =
  g_DefaultRateLimitPerMin :: int
  g_DefaultRateLimitPerHour :: int
  g_DefaultMaxQueriesPerHour :: int
  g_DefaultMaxQueriesPerDay :: int
  g_DefaultMaxRowsPerQuery :: int

record manager =
  mg_config :: governance_config
  mg_minuteLimiters :: "int64 \<rightharpoonup> sliding_window"
  mg_hourLimiters :: "int64 \<rightharpoonup> sliding_window"
  mg_quotaTrackers :: "int64 \<rightharpoonup> quota_tracker"
  mg_policies :: "int64 \<rightharpoonup> policy"

datatype governance_error =
  CreateFailed | InsertIDFailed | UpdateFailed | DeleteFailed

text \<open>\<open>NewManager\<close> with the rows \<open>loadPolicies\<close> reads; a database error ends both.\<close>

definition loadPolicies :: "policy list \<Rightarrow> manager \<Rightarrow> manager" where
  "loadPolicies rows m = m\<lparr>mg_policies := fold (\<lambda>p ps. ps(pol_TokenID p \<mapsto> p)) rows (mg_policies m)\<rparr>"

definition NewManager :: "governance_config \<Rightarrow> policy list \<Rightarrow> manager" where
  "NewManager cfg rows =
     loadPolicies rows \<lparr>mg_config = cfg, mg_minuteLimiters = Map.empty, mg_hourLimiters = Map.empty,
                       mg_quotaTrackers = Map.empty, mg_policies = Map.empty\<rparr>"

section \<open>Policies\<close>

definition updateTrackersForToken :: "int64 \<Rightarrow> policy \<Rightarrow> manager \<Rightarrow> manager" where
  "updateTrackersForToken tokenID p m =
     m\<lparr>mg_minuteLimiters := (case mg_minuteLimiters m tokenID of
           Some l \<Rightarrow> (mg_minuteLimiters m)(tokenID \<mapsto> UpdateLimit (pol_RateLimitPerMinute p) l)
         | None \<Rightarrow> mg_minuteLimiters m),
       mg_hourLimiters := (case mg_hourLimiters m tokenID of
           Some l \<Rightarrow> (mg_hourLimiters m)(tokenID \<mapsto> UpdateLimit (pol_RateLimitPerHour p) l)
         | None \<Rightarrow> mg_hourLimiters m),
       mg_quotaTrackers := (case mg_quotaTrackers m tokenID of
           Some q \<Rightarrow> (mg_quotaTrackers m)(tokenID \<mapsto> UpdateLimits (pol_MaxQueriesPerHour p) (pol_MaxQueriesPerDay p) q)
         | None \<Rightarrow> mg_quotaTrackers m)\<rparr>"

text \<open>The insertion fails, or its id cannot be read, or it has an id.\<close>

definition CreatePolicy :: "(governance_error + int64) \<Rightarrow> int \<Rightarrow> policy \<Rightarrow> manager \<Rightarrow> (governance_error + policy) \<times> manager" where
  "CreatePolicy db now p m =
     (case db of
        Inl e \<Rightarrow> (Inl e, m)
      | Inr rowID \<Rightarrow>
          let p' = p\<lparr>pol_ID := rowID, pol_CreatedAt := now, pol_UpdatedAt := now\<rparr>
          in (Inr p', updateTrackersForToken (pol_TokenID p') p' (m\<lparr>mg_policies := (mg_policies m)(pol_TokenID p' \<mapsto> p')\<rparr>)))"

definition GetPolicy :: "int64 \<Rightarrow> manager \<Rightarrow> policy option" where
  "GetPolicy tokenID m = mg_policies m tokenID"

definition UpdatePolicy :: "bool \<Rightarrow> int \<Rightarrow> policy \<Rightarrow> manager \<Rightarrow> (governance_error + policy) \<times> manager" where
  "UpdatePolicy dbOk now p m =
     (if \<not> dbOk then (Inl UpdateFailed, m)
      else let p' = p\<lparr>pol_UpdatedAt := now\<rparr>
           in (Inr p', updateTrackersForToken (pol_TokenID p') p' (m\<lparr>mg_policies := (mg_policies m)(pol_TokenID p' \<mapsto> p')\<rparr>)))"

definition DeletePolicy :: "bool \<Rightarrow> int64 \<Rightarrow> manager \<Rightarrow> governance_error option \<times> manager" where
  "DeletePolicy dbOk tokenID m =
     (if \<not> dbOk then (Some DeleteFailed, m)
      else (None, m\<lparr>mg_policies := (mg_policies m)(tokenID := None),
                    mg_minuteLimiters := (mg_minuteLimiters m)(tokenID := None),
                    mg_hourLimiters := (mg_hourLimiters m)(tokenID := None),
                    mg_quotaTrackers := (mg_quotaTrackers m)(tokenID := None)\<rparr>))"

definition ListPolicies :: "ranges \<Rightarrow> manager \<Rightarrow> policy list" where
  "ListPolicies R m = map (\<lambda>x. the (mg_policies m x)) (ids_order R (dom (mg_policies m)))"

section \<open>Enforcement\<close>

definition getEffectivePolicy :: "manager \<Rightarrow> int64 \<Rightarrow> policy option" where
  "getEffectivePolicy m tokenID =
     (case mg_policies m tokenID of
        Some p \<Rightarrow> Some p
      | None \<Rightarrow>
          let cfg = mg_config m
          in if g_DefaultRateLimitPerMin cfg = 0 \<and> g_DefaultRateLimitPerHour cfg = 0 \<and>
                g_DefaultMaxQueriesPerHour cfg = 0 \<and> g_DefaultMaxQueriesPerDay cfg = 0 \<and>
                g_DefaultMaxRowsPerQuery cfg = 0
             then None
             else Some \<lparr>pol_ID = 0, pol_TokenID = tokenID, pol_TokenName = [],
                        pol_RateLimitPerMinute = g_DefaultRateLimitPerMin cfg,
                        pol_RateLimitPerHour = g_DefaultRateLimitPerHour cfg,
                        pol_MaxQueriesPerHour = g_DefaultMaxQueriesPerHour cfg,
                        pol_MaxQueriesPerDay = g_DefaultMaxQueriesPerDay cfg,
                        pol_MaxRowsPerQuery = g_DefaultMaxRowsPerQuery cfg,
                        pol_MaxScanDurationSec = 0, pol_CreatedAt = 0, pol_UpdatedAt = 0\<rparr>)"

definition GetCachedPolicy :: "manager \<Rightarrow> int64 \<Rightarrow> policy option" where
  "GetCachedPolicy m tokenID = getEffectivePolicy m tokenID"

definition getOrCreateMinuteLimiter :: "int \<Rightarrow> int64 \<Rightarrow> int \<Rightarrow> manager \<Rightarrow> sliding_window \<times> manager" where
  "getOrCreateMinuteLimiter now tokenID lim m =
     (case mg_minuteLimiters m tokenID of
        Some l \<Rightarrow> (l, m)
      | None \<Rightarrow> let l = newSlidingWindowCounter time_Minute 60 lim now
                in (l, m\<lparr>mg_minuteLimiters := (mg_minuteLimiters m)(tokenID \<mapsto> l)\<rparr>))"

definition getOrCreateHourLimiter :: "int \<Rightarrow> int64 \<Rightarrow> int \<Rightarrow> manager \<Rightarrow> sliding_window \<times> manager" where
  "getOrCreateHourLimiter now tokenID lim m =
     (case mg_hourLimiters m tokenID of
        Some l \<Rightarrow> (l, m)
      | None \<Rightarrow> let l = newSlidingWindowCounter time_Hour 60 lim now
                in (l, m\<lparr>mg_hourLimiters := (mg_hourLimiters m)(tokenID \<mapsto> l)\<rparr>))"

definition getOrCreateQuotaTracker :: "int \<Rightarrow> int64 \<Rightarrow> int \<Rightarrow> int \<Rightarrow> manager \<Rightarrow> quota_tracker \<times> manager" where
  "getOrCreateQuotaTracker now tokenID maxPerHour maxPerDay m =
     (case mg_quotaTrackers m tokenID of
        Some q \<Rightarrow> (q, m)
      | None \<Rightarrow> let q = newQuotaTracker maxPerHour maxPerDay now
                in (q, m\<lparr>mg_quotaTrackers := (mg_quotaTrackers m)(tokenID \<mapsto> q)\<rparr>))"

text \<open>
  One limit of \<open>CheckRateLimit\<close>: \<open>None\<close> when it does not apply or lets the query pass, the seconds
  to wait when it refuses.  The limiter is shared with the map, so that its changes are stored.
\<close>

definition check_minute :: "(nat \<Rightarrow> int) \<Rightarrow> int64 \<Rightarrow> policy \<Rightarrow> manager \<Rightarrow> int option \<times> manager" where
  "check_minute clock tokenID p m =
     (if pol_RateLimitPerMinute p > 0
      then let (limiter, m1) = getOrCreateMinuteLimiter (clock 0) tokenID (pol_RateLimitPerMinute p) m;
               (ok, limiter1) = Allow (clock 1) limiter
           in if ok then (None, m1\<lparr>mg_minuteLimiters := (mg_minuteLimiters m1)(tokenID \<mapsto> limiter1)\<rparr>)
              else let (retryAfter, limiter2) = RetryAfterSec (clock 2) (clock 3) limiter1
                   in (Some retryAfter, m1\<lparr>mg_minuteLimiters := (mg_minuteLimiters m1)(tokenID \<mapsto> limiter2)\<rparr>)
      else (None, m))"

definition check_hour :: "(nat \<Rightarrow> int) \<Rightarrow> int64 \<Rightarrow> policy \<Rightarrow> manager \<Rightarrow> int option \<times> manager" where
  "check_hour clock tokenID p m =
     (if pol_RateLimitPerHour p > 0
      then let (limiter, m1) = getOrCreateHourLimiter (clock 4) tokenID (pol_RateLimitPerHour p) m;
               (ok, limiter1) = Allow (clock 5) limiter
           in if ok then (None, m1\<lparr>mg_hourLimiters := (mg_hourLimiters m1)(tokenID \<mapsto> limiter1)\<rparr>)
              else let (retryAfter, limiter2) = RetryAfterSec (clock 6) (clock 7) limiter1
                   in (Some retryAfter, m1\<lparr>mg_hourLimiters := (mg_hourLimiters m1)(tokenID \<mapsto> limiter2)\<rparr>)
      else (None, m))"

definition CheckRateLimit :: "(nat \<Rightarrow> int) \<Rightarrow> int64 \<Rightarrow> manager \<Rightarrow> enforcement_result \<times> manager" where
  "CheckRateLimit clock tokenID m =
     (case getEffectivePolicy m tokenID of
        None \<Rightarrow> (allowed_result, m)
      | Some p \<Rightarrow>
          (case check_minute clock tokenID p m of
             (Some retryAfter, m1) \<Rightarrow>
               (allowed_result\<lparr>er_Allowed := False, er_Reason := PerMinuteExceeded (pol_RateLimitPerMinute p),
                              er_RetryAfterSec := retryAfter\<rparr>, m1)
           | (None, m1) \<Rightarrow>
               (case check_hour clock tokenID p m1 of
                  (Some retryAfter, m2) \<Rightarrow>
                    (allowed_result\<lparr>er_Allowed := False, er_Reason := PerHourExceeded (pol_RateLimitPerHour p),
                                   er_RetryAfterSec := retryAfter\<rparr>, m2)
                | (None, m2) \<Rightarrow> (allowed_result, m2))))"

text \<open>\<open>time.Duration\<close> is a signed 64-bit number of nanoseconds.\<close>

definition duration64 :: "int \<Rightarrow> int" where
  "duration64 x = sint (word_of_int x :: 64 word)"

definition quota_limits :: "policy \<Rightarrow> enforcement_result" where
  "quota_limits p =
     (let r = (if pol_MaxRowsPerQuery p > 0 then allowed_result\<lparr>er_MaxRows := pol_MaxRowsPerQuery p\<rparr> else allowed_result)
      in if pol_MaxScanDurationSec p > 0
         then r\<lparr>er_MaxDuration := duration64 (pol_MaxScanDurationSec p * time_Second)\<rparr> else r)"

definition CheckQuota :: "(nat \<Rightarrow> int) \<Rightarrow> int64 \<Rightarrow> manager \<Rightarrow> enforcement_result \<times> manager" where
  "CheckQuota clock tokenID m =
     (case getEffectivePolicy m tokenID of
        None \<Rightarrow> (allowed_result, m)
      | Some p \<Rightarrow>
          if pol_MaxQueriesPerHour p > 0 \<or> pol_MaxQueriesPerDay p > 0
          then let (tracker, m1) = getOrCreateQuotaTracker (clock 0) tokenID (pol_MaxQueriesPerHour p) (pol_MaxQueriesPerDay p) m;
                   ((ok, reason), tracker1) = AllowQuery (clock 1) tracker;
                   m2 = m1\<lparr>mg_quotaTrackers := (mg_quotaTrackers m1)(tokenID \<mapsto> tracker1)\<rparr>
               in if \<not> ok then (allowed_result\<lparr>er_Allowed := False, er_Reason := QuotaReason reason\<rparr>, m2)
                  else (quota_limits p, m2)
          else (quota_limits p, m))"

text \<open>The three parts of \<open>GetTokenUsage\<close>: the quota, the minute and the hour.\<close>

definition usage_quota :: "(nat \<Rightarrow> int) \<Rightarrow> int64 \<Rightarrow> token_usage \<times> manager \<Rightarrow> token_usage \<times> manager" where
  "usage_quota clock tokenID um =
     (case um of (usage, m) \<Rightarrow>
        (case mg_quotaTrackers m tokenID of
           Some tracker \<Rightarrow>
             (case GetUsage (clock 0) tracker of
                ((h, d, hr, dr), tracker1) \<Rightarrow>
                  (usage\<lparr>us_QueriesThisHour := h, us_QueriesThisDay := d, us_HourResetAt := hr, us_DayResetAt := dr\<rparr>,
                   m\<lparr>mg_quotaTrackers := (mg_quotaTrackers m)(tokenID \<mapsto> tracker1)\<rparr>))
         | None \<Rightarrow>
             (usage\<lparr>us_HourResetAt := Truncate (clock 0) time_Hour + time_Hour,
                    us_DayResetAt := Truncate (clock 0) time_Day + time_Day\<rparr>, m)))"

definition usage_minute ::
  "(nat \<Rightarrow> int) \<Rightarrow> int64 \<Rightarrow> policy option \<Rightarrow> token_usage \<times> manager \<Rightarrow> token_usage \<times> manager" where
  "usage_minute clock tokenID pol um =
     (case um of (usage, m) \<Rightarrow>
        (case pol of
           Some p \<Rightarrow>
             if pol_RateLimitPerMinute p > 0
             then (case mg_minuteLimiters m tokenID of
                     Some l \<Rightarrow> (case Remaining (clock 1) l of (r, l1) \<Rightarrow>
                       (usage\<lparr>us_RateLimitRemainingPerMin := r\<rparr>,
                        m\<lparr>mg_minuteLimiters := (mg_minuteLimiters m)(tokenID \<mapsto> l1)\<rparr>))
                   | None \<Rightarrow> (usage\<lparr>us_RateLimitRemainingPerMin := pol_RateLimitPerMinute p\<rparr>, m))
             else um
         | None \<Rightarrow> um))"

definition usage_hour ::
  "(nat \<Rightarrow> int) \<Rightarrow> int64 \<Rightarrow> policy option \<Rightarrow> token_usage \<times> manager \<Rightarrow> token_usage \<times> manager" where
  "usage_hour clock tokenID pol um =
     (case um of (usage, m) \<Rightarrow>
        (case pol of
           Some p \<Rightarrow>
             if pol_RateLimitPerHour p > 0
             then (case mg_hourLimiters m tokenID of
                     Some l \<Rightarrow> (case Remaining (clock 2) l of (r, l1) \<Rightarrow>
                       (usage\<lparr>us_RateLimitRemainingPerHour := r\<rparr>,
                        m\<lparr>mg_hourLimiters := (mg_hourLimiters m)(tokenID \<mapsto> l1)\<rparr>))
                   | None \<Rightarrow> (usage\<lparr>us_RateLimitRemainingPerHour := pol_RateLimitPerHour p\<rparr>, m))
             else um
         | None \<Rightarrow> um))"

definition GetTokenUsage :: "(nat \<Rightarrow> int) \<Rightarrow> int64 \<Rightarrow> manager \<Rightarrow> token_usage \<times> manager" where
  "GetTokenUsage clock tokenID m =
     (let pol = getEffectivePolicy m tokenID;
          usage = \<lparr>us_TokenID = tokenID, us_QueriesThisHour = 0, us_QueriesThisDay = 0, us_HourResetAt = 0,
                   us_DayResetAt = 0, us_RateLimitRemainingPerMin = 0, us_RateLimitRemainingPerHour = 0\<rparr>
      in usage_hour clock tokenID pol (usage_minute clock tokenID pol (usage_quota clock tokenID (usage, m))))"

section \<open>The limits in force\<close>

lemmas manager_defs = CreatePolicy_def UpdatePolicy_def DeletePolicy_def updateTrackersForToken_def
  CheckRateLimit_def check_minute_def check_hour_def CheckQuota_def GetTokenUsage_def
  getOrCreateMinuteLimiter_def getOrCreateHourLimiter_def getOrCreateQuotaTracker_def

lemma limiter_frame [simp]:
  "sw_limit (snd (RetryAfterSec c c' l)) = sw_limit l" "sw_limit (snd (Remaining c l)) = sw_limit l"
  "sw_limit (UpdateLimit lim l) = lim"
  by (simp_all add: RetryAfterSec_def Remaining_def UpdateLimit_def Let_def)

lemma new_limiter_limit [simp]: "sw_limit (newSlidingWindowCounter w c lim now) = lim"
  by (simp add: newSlidingWindowCounter_def)

definition quota_max :: "quota_tracker \<Rightarrow> int \<times> int" where
  "quota_max q = (q_maxPerHour q, q_maxPerDay q)"

lemma tracker_frame [simp]:
  "quota_max (snd (AllowQuery c q)) = quota_max q" "quota_max (snd (GetUsage c q)) = quota_max q"
  "quota_max (UpdateLimits h d q) = (h, d)" "quota_max (newQuotaTracker h d c) = (h, d)"
  by (simp_all add: quota_max_def AllowQuery_def GetUsage_def UpdateLimits_def newQuotaTracker_def Let_def
       maybeReset_fields)

text \<open>The limits a manager enforces on a token, by the limiters it holds; and those it ought to.\<close>

definition limits_of :: "policy \<Rightarrow> int \<times> int \<times> int \<times> int" where
  "limits_of p = (pol_RateLimitPerMinute p, pol_RateLimitPerHour p, pol_MaxQueriesPerHour p, pol_MaxQueriesPerDay p)"

definition limits_match :: "manager \<Rightarrow> int64 \<Rightarrow> (int \<times> int \<times> int \<times> int) option \<Rightarrow> bool" where
  "limits_match m t lims \<longleftrightarrow>
     (\<forall>l. mg_minuteLimiters m t = Some l \<longrightarrow> map_option (\<lambda>(a, b, c, d). a) lims = Some (sw_limit l)) \<and>
     (\<forall>l. mg_hourLimiters m t = Some l \<longrightarrow> map_option (\<lambda>(a, b, c, d). b) lims = Some (sw_limit l)) \<and>
     (\<forall>q. mg_quotaTrackers m t = Some q \<longrightarrow> map_option (\<lambda>(a, b, c, d). (c, d)) lims = Some (quota_max q))"

definition limits_ok :: "manager \<Rightarrow> bool" where
  "limits_ok m \<longleftrightarrow> (\<forall>t. limits_match m t (map_option limits_of (getEffectivePolicy m t)))"

text \<open>The policy of a token depends on the configuration and the policies alone.\<close>

lemma effective_cong:
  "mg_config m = mg_config m' \<Longrightarrow> mg_policies m t = mg_policies m' t \<Longrightarrow> getEffectivePolicy m t = getEffectivePolicy m' t"
  by (simp only: getEffectivePolicy_def)

text \<open>What a check and a report leave alone, limiter by limiter.\<close>

lemma check_minute_frame [simp]:
  "mg_policies (snd (check_minute c x p m)) = mg_policies m" "mg_config (snd (check_minute c x p m)) = mg_config m"
  "mg_quotaTrackers (snd (check_minute c x p m)) = mg_quotaTrackers m"
  "mg_hourLimiters (snd (check_minute c x p m)) = mg_hourLimiters m"
  by (simp_all add: check_minute_def getOrCreateMinuteLimiter_def Let_def case_prod_beta split: option.split)

lemma check_hour_frame [simp]:
  "mg_policies (snd (check_hour c x p m)) = mg_policies m" "mg_config (snd (check_hour c x p m)) = mg_config m"
  "mg_quotaTrackers (snd (check_hour c x p m)) = mg_quotaTrackers m"
  "mg_minuteLimiters (snd (check_hour c x p m)) = mg_minuteLimiters m"
  by (simp_all add: check_hour_def getOrCreateHourLimiter_def Let_def case_prod_beta split: option.split)

text \<open>\<open>CheckRateLimit\<close> is the minute check, followed by the hour check when the minute one passes.\<close>

lemma CheckRateLimit_cases:
  "snd (CheckRateLimit c x m) =
     (case getEffectivePolicy m x of
        None \<Rightarrow> m
      | Some p \<Rightarrow> (if fst (check_minute c x p m) = None then snd (check_hour c x p (snd (check_minute c x p m)))
                  else snd (check_minute c x p m)))"
  "er_Allowed (fst (CheckRateLimit c x m)) \<longleftrightarrow>
     (\<forall>p. getEffectivePolicy m x = Some p \<longrightarrow>
        fst (check_minute c x p m) = None \<and> fst (check_hour c x p (snd (check_minute c x p m))) = None)"
  by (simp_all add: CheckRateLimit_def allowed_result_def case_prod_beta split: option.split)

lemma CheckRateLimit_frame [simp]:
  "mg_policies (snd (CheckRateLimit c x m)) = mg_policies m"
  "mg_config (snd (CheckRateLimit c x m)) = mg_config m"
  "mg_quotaTrackers (snd (CheckRateLimit c x m)) = mg_quotaTrackers m"
  by (simp_all add: CheckRateLimit_cases split: option.split)

lemma CheckQuota_frame [simp]:
  "mg_policies (snd (CheckQuota c x m)) = mg_policies m"
  "mg_config (snd (CheckQuota c x m)) = mg_config m"
  "mg_minuteLimiters (snd (CheckQuota c x m)) = mg_minuteLimiters m"
  "mg_hourLimiters (snd (CheckQuota c x m)) = mg_hourLimiters m"
  by (simp_all add: CheckQuota_def getOrCreateQuotaTracker_def Let_def case_prod_beta split: option.split)

lemma usage_frame [simp]:
  "mg_policies (snd (usage_quota c x um)) = mg_policies (snd um)"
  "mg_config (snd (usage_quota c x um)) = mg_config (snd um)"
  "mg_minuteLimiters (snd (usage_quota c x um)) = mg_minuteLimiters (snd um)"
  "mg_hourLimiters (snd (usage_quota c x um)) = mg_hourLimiters (snd um)"
  "mg_policies (snd (usage_minute c x pol um)) = mg_policies (snd um)"
  "mg_config (snd (usage_minute c x pol um)) = mg_config (snd um)"
  "mg_quotaTrackers (snd (usage_minute c x pol um)) = mg_quotaTrackers (snd um)"
  "mg_hourLimiters (snd (usage_minute c x pol um)) = mg_hourLimiters (snd um)"
  "mg_policies (snd (usage_hour c x pol um)) = mg_policies (snd um)"
  "mg_config (snd (usage_hour c x pol um)) = mg_config (snd um)"
  "mg_quotaTrackers (snd (usage_hour c x pol um)) = mg_quotaTrackers (snd um)"
  "mg_minuteLimiters (snd (usage_hour c x pol um)) = mg_minuteLimiters (snd um)"
  by (simp_all add: usage_quota_def usage_minute_def usage_hour_def case_prod_beta split: option.split)

lemma GetTokenUsage_frame [simp]:
  "mg_policies (snd (GetTokenUsage c x m)) = mg_policies m" "mg_config (snd (GetTokenUsage c x m)) = mg_config m"
  by (simp_all add: GetTokenUsage_def Let_def)

text \<open>Each operation changes the limiters of one token, and keeps the limits of the others.\<close>

lemma limits_match_cong:
  "mg_minuteLimiters m t = mg_minuteLimiters m' t \<Longrightarrow> mg_hourLimiters m t = mg_hourLimiters m' t \<Longrightarrow>
   mg_quotaTrackers m t = mg_quotaTrackers m' t \<Longrightarrow> limits_match m t lims = limits_match m' t lims"
  by (simp only: limits_match_def)

lemma check_minute_limits:
  assumes "limits_match m t lims" and "t = x \<Longrightarrow> lims = Some (limits_of p)"
  shows "limits_match (snd (check_minute c x p m)) t lims"
  using assms unfolding limits_match_def check_minute_frame
  by (auto simp: check_minute_def getOrCreateMinuteLimiter_def Let_def case_prod_beta limits_of_def
      split: option.splits if_splits)

lemma check_hour_limits:
  assumes "limits_match m t lims" and "t = x \<Longrightarrow> lims = Some (limits_of p)"
  shows "limits_match (snd (check_hour c x p m)) t lims"
  using assms unfolding limits_match_def check_hour_frame
  by (auto simp: check_hour_def getOrCreateHourLimiter_def Let_def case_prod_beta limits_of_def
      split: option.splits if_splits)

lemma limits_ok_same_policies:
  assumes "limits_ok m" and "mg_config m' = mg_config m" and "mg_policies m' = mg_policies m"
    and "\<And>t. limits_match m t (map_option limits_of (getEffectivePolicy m t)) \<Longrightarrow>
             limits_match m' t (map_option limits_of (getEffectivePolicy m t))"
  shows "limits_ok m'"
proof -
  have "getEffectivePolicy m' t = getEffectivePolicy m t" for t
    by (rule effective_cong) (simp_all add: assms(2,3))
  with assms(1,4) show ?thesis by (simp add: limits_ok_def)
qed

lemma limits_ok_CheckRateLimit: "limits_ok m \<Longrightarrow> limits_ok (snd (CheckRateLimit c x m))"
  by (erule limits_ok_same_policies)
     (auto simp: CheckRateLimit_cases intro: check_minute_limits check_hour_limits split: option.split)

lemma limits_ok_CheckQuota: "limits_ok m \<Longrightarrow> limits_ok (snd (CheckQuota c x m))"
proof (erule limits_ok_same_policies)
  fix t
  assume "limits_match m t (map_option limits_of (getEffectivePolicy m t))"
  then show "limits_match (snd (CheckQuota c x m)) t (map_option limits_of (getEffectivePolicy m t))"
    unfolding limits_match_def CheckQuota_frame
    by (auto simp: CheckQuota_def getOrCreateQuotaTracker_def Let_def case_prod_beta limits_of_def
        split: option.splits if_splits)
qed simp_all

lemma usage_limits:
  "limits_match (snd um) t lims \<Longrightarrow> limits_match (snd (usage_quota c x um)) t lims"
  "limits_match (snd um) t lims \<Longrightarrow> limits_match (snd (usage_minute c x pol um)) t lims"
  "limits_match (snd um) t lims \<Longrightarrow> limits_match (snd (usage_hour c x pol um)) t lims"
  unfolding limits_match_def usage_frame
  by (auto simp: usage_quota_def usage_minute_def usage_hour_def case_prod_beta split: option.splits if_splits)

lemma limits_ok_GetTokenUsage: "limits_ok m \<Longrightarrow> limits_ok (snd (GetTokenUsage c x m))"
  by (erule limits_ok_same_policies) (auto simp: GetTokenUsage_def Let_def intro!: usage_limits)

text \<open>Storing a policy updates the limiters of its token.\<close>

lemma limits_ok_store:
  assumes "limits_ok m"
  shows "limits_ok (updateTrackersForToken (pol_TokenID p) p (m\<lparr>mg_policies := (mg_policies m)(pol_TokenID p \<mapsto> p)\<rparr>))"
    (is "limits_ok ?m")
  unfolding limits_ok_def
proof
  fix t
  show "limits_match ?m t (map_option limits_of (getEffectivePolicy ?m t))"
  proof (cases "t = pol_TokenID p")
    case True
    then have "getEffectivePolicy ?m t = Some p"
      by (simp add: getEffectivePolicy_def updateTrackersForToken_def)
    with True show ?thesis
      by (auto simp: limits_match_def limits_of_def updateTrackersForToken_def split: option.splits)
  next
    case False
    then have "getEffectivePolicy ?m t = getEffectivePolicy m t"
      by (intro effective_cong) (simp_all add: updateTrackersForToken_def)
    moreover have "limits_match ?m t lims = limits_match m t lims" for lims
      using False by (intro limits_match_cong) (simp_all add: updateTrackersForToken_def split: option.split)
    ultimately show ?thesis using assms by (simp add: limits_ok_def)
  qed
qed

lemma limits_ok_DeletePolicy: "limits_ok m \<Longrightarrow> limits_ok (snd (DeletePolicy dbOk x m))"
proof (cases dbOk)
  case True
  assume ok: "limits_ok m"
  let ?m = "snd (DeletePolicy dbOk x m)"
  have "limits_match ?m t (map_option limits_of (getEffectivePolicy ?m t))" for t
  proof (cases "t = x")
    case False
    with True have "getEffectivePolicy ?m t = getEffectivePolicy m t"
      by (intro effective_cong) (simp_all add: DeletePolicy_def)
    moreover have "limits_match ?m t lims = limits_match m t lims" for lims
      using False True by (intro limits_match_cong) (simp_all add: DeletePolicy_def)
    ultimately show ?thesis using ok by (simp add: limits_ok_def)
  qed (use True in \<open>simp add: DeletePolicy_def limits_match_def\<close>)
  then show ?thesis by (simp add: limits_ok_def)
qed (simp add: DeletePolicy_def)

section \<open>The manager over time\<close>

inductive governed :: "manager \<Rightarrow> bool" where
  start: "governed (NewManager cfg rows)"
| create: "governed m \<Longrightarrow> governed (snd (CreatePolicy db now p m))"
| update: "governed m \<Longrightarrow> governed (snd (UpdatePolicy dbOk now p m))"
| delete: "governed m \<Longrightarrow> governed (snd (DeletePolicy dbOk x m))"
| check_rate: "governed m \<Longrightarrow> governed (snd (CheckRateLimit c x m))"
| check_quota: "governed m \<Longrightarrow> governed (snd (CheckQuota c x m))"
| report: "governed m \<Longrightarrow> governed (snd (GetTokenUsage c x m))"

lemma governed_limits: "governed m \<Longrightarrow> limits_ok m"
proof (induction rule: governed.induct)
  case (start cfg rows)
  then show ?case by (simp add: limits_ok_def limits_match_def NewManager_def loadPolicies_def)
next
  case (create m db now p)
  then show ?case
    using limits_ok_store [of m "p\<lparr>pol_ID := projr db, pol_CreatedAt := now, pol_UpdatedAt := now\<rparr>"]
    by (cases db) (simp_all add: CreatePolicy_def Let_def)
next
  case (update m dbOk now p)
  then show ?case
    using limits_ok_store [of m "p\<lparr>pol_UpdatedAt := now\<rparr>"] by (simp add: UpdatePolicy_def Let_def)
qed (simp_all add: limits_ok_DeletePolicy limits_ok_CheckRateLimit limits_ok_CheckQuota limits_ok_GetTokenUsage)

text \<open>
  The limits in force are those of the policy: whatever policies were created, changed and
  deleted, and in whatever order limiters and trackers were made, a token that has a limiter has a
  policy (its own or the default one), and its limiters and tracker enforce that policy's limits.
\<close>

theorem limits_in_force:
  assumes "governed m"
  shows "(\<forall>l. mg_minuteLimiters m t = Some l \<longrightarrow>
            map_option pol_RateLimitPerMinute (getEffectivePolicy m t) = Some (sw_limit l)) \<and>
         (\<forall>l. mg_hourLimiters m t = Some l \<longrightarrow>
            map_option pol_RateLimitPerHour (getEffectivePolicy m t) = Some (sw_limit l)) \<and>
         (\<forall>q. mg_quotaTrackers m t = Some q \<longrightarrow>
            map_option (\<lambda>p. (pol_MaxQueriesPerHour p, pol_MaxQueriesPerDay p)) (getEffectivePolicy m t) =
            Some (q_maxPerHour q, q_maxPerDay q))"
proof -
  from governed_limits [OF assms] have "limits_match m t (map_option limits_of (getEffectivePolicy m t))"
    by (simp add: limits_ok_def)
  then show ?thesis
    by (simp add: limits_match_def option.map_comp comp_def limits_of_def quota_max_def)
qed

section \<open>The limits over a run of checks\<close>

text \<open>
  A limiter that may not have been made yet, which last decided at some time up to \<open>u\<close>; and the
  limiter a check uses.
\<close>

definition opt_rep :: "nat \<Rightarrow> int \<Rightarrow> int \<Rightarrow> int list \<Rightarrow> int \<Rightarrow> sliding_window option \<Rightarrow> bool" where
  "opt_rep n d lim H u lo \<longleftrightarrow>
     (case lo of None \<Rightarrow> H = [] | Some l \<Rightarrow> \<exists>v\<le>u. window_rep n d lim H v l)"

lemma opt_rep_later: "opt_rep n d lim H u lo \<Longrightarrow> u \<le> u' \<Longrightarrow> opt_rep n d lim H u' lo"
  by (auto simp: opt_rep_def split: option.splits) (meson order_trans)

lemma opt_rep_new:
  assumes "opt_rep (slot_count c) (slot_duration w c) lim H u lo" and "u \<le> t"
  shows "\<exists>v\<le>t. window_rep (slot_count c) (slot_duration w c) lim H v
            (case lo of Some l \<Rightarrow> l | None \<Rightarrow> newSlidingWindowCounter w c lim t)"
  using assms new_window_rep [of c w lim t] by (auto simp: opt_rep_def split: option.splits) (meson order_trans)

lemma opt_rep_check:
  assumes "\<exists>v\<le>t. window_rep n d lim H v l" and "t \<le> t1" and "t1 \<le> t2" and "t2 \<le> t3"
  shows "opt_rep n d lim (if fst (Allow t1 l) then t1 # H else H) t3
           (Some (if fst (Allow t1 l) then snd (Allow t1 l) else snd (RetryAfterSec t2 t3 (snd (Allow t1 l)))))"
proof -
  from assms(1) obtain v where v: "v \<le> t" "window_rep n d lim H v l" by blast
  from window_allow_rep [OF v(2) order_trans [OF v(1) assms(2)]]
  have rep: "window_rep n d lim (if fst (Allow t1 l) then t1 # H else H) t1 (snd (Allow t1 l))" .
  have retry: "snd (RetryAfterSec t2 t3 l') = advance t2 l'" for l' by (simp add: RetryAfterSec_def Let_def)
  show ?thesis
  proof (cases "fst (Allow t1 l)")
    case True
    moreover have "t1 \<le> t3" using assms(3,4) by simp
    ultimately show ?thesis using rep unfolding opt_rep_def by auto
  next
    case False
    with window_advance_rep [OF rep assms(3)] assms(4) show ?thesis
      unfolding opt_rep_def retry by auto
  qed
qed

lemma minute_slots: "slot_count 60 = 60" "slot_duration time_Minute 60 = time_Second" "slot_duration time_Hour 60 = time_Minute"
  by (simp_all add: slot_count_def slot_duration_def time_units Let_def)

text \<open>The minute and the hour check on the token's own limiter; other tokens' limiters stay.\<close>

lemma check_minute_rep:
  assumes "opt_rep 60 time_Second (pol_RateLimitPerMinute p) H u (mg_minuteLimiters m x)"
    and "0 < pol_RateLimitPerMinute p" and "u \<le> c 0" and "mono c"
  shows "opt_rep 60 time_Second (pol_RateLimitPerMinute p) (if fst (check_minute c x p m) = None then c 1 # H else H)
           (c 3) (mg_minuteLimiters (snd (check_minute c x p m)) x)"
proof -
  let ?l = "case mg_minuteLimiters m x of Some l \<Rightarrow> l | None \<Rightarrow> newSlidingWindowCounter time_Minute 60 (pol_RateLimitPerMinute p) (c 0)"
  have mono: "c 0 \<le> c 1" "c 1 \<le> c 2" "c 2 \<le> c 3" using assms(4) by (simp_all add: monoD)
  have "fst (check_minute c x p m) = None \<longleftrightarrow> fst (Allow (c 1) ?l)"
    and "mg_minuteLimiters (snd (check_minute c x p m)) x =
      Some (if fst (Allow (c 1) ?l) then snd (Allow (c 1) ?l) else snd (RetryAfterSec (c 2) (c 3) (snd (Allow (c 1) ?l))))"
    using assms(2)
    by (simp_all add: check_minute_def getOrCreateMinuteLimiter_def Let_def case_prod_beta split: option.split)
  moreover from opt_rep_new [of 60 time_Minute, unfolded minute_slots, OF assms(1,3)]
  have "\<exists>v\<le>c 0. window_rep 60 time_Second (pol_RateLimitPerMinute p) H v ?l" .
  ultimately show ?thesis using opt_rep_check [OF _ mono] by simp
qed

lemma check_hour_rep:
  assumes "opt_rep 60 time_Minute (pol_RateLimitPerHour p) H u (mg_hourLimiters m x)"
    and "0 < pol_RateLimitPerHour p" and "u \<le> c 4" and "mono c"
  shows "opt_rep 60 time_Minute (pol_RateLimitPerHour p) (if fst (check_hour c x p m) = None then c 5 # H else H)
           (c 7) (mg_hourLimiters (snd (check_hour c x p m)) x)"
proof -
  let ?l = "case mg_hourLimiters m x of Some l \<Rightarrow> l | None \<Rightarrow> newSlidingWindowCounter time_Hour 60 (pol_RateLimitPerHour p) (c 4)"
  have mono: "c 4 \<le> c 5" "c 5 \<le> c 6" "c 6 \<le> c 7" using assms(4) by (simp_all add: monoD)
  have "fst (check_hour c x p m) = None \<longleftrightarrow> fst (Allow (c 5) ?l)"
    and "mg_hourLimiters (snd (check_hour c x p m)) x =
      Some (if fst (Allow (c 5) ?l) then snd (Allow (c 5) ?l) else snd (RetryAfterSec (c 6) (c 7) (snd (Allow (c 5) ?l))))"
    using assms(2)
    by (simp_all add: check_hour_def getOrCreateHourLimiter_def Let_def case_prod_beta split: option.split)
  moreover from opt_rep_new [of 60 time_Hour, unfolded minute_slots, OF assms(1,3)]
  have "\<exists>v\<le>c 4. window_rep 60 time_Minute (pol_RateLimitPerHour p) H v ?l" .
  ultimately show ?thesis using opt_rep_check [OF _ mono] by simp
qed

lemma check_others:
  "x \<noteq> t \<Longrightarrow> mg_minuteLimiters (snd (CheckRateLimit c x m)) t = mg_minuteLimiters m t"
  "x \<noteq> t \<Longrightarrow> mg_hourLimiters (snd (CheckRateLimit c x m)) t = mg_hourLimiters m t"
  by (simp_all add: CheckRateLimit_def check_minute_def check_hour_def getOrCreateMinuteLimiter_def
      getOrCreateHourLimiter_def Let_def case_prod_beta split: option.split)

text \<open>
  A run of checks of several tokens, with the result of each; and clocks that never go back, within
  a check and from one to the next.
\<close>

fun rate_checks :: "(int64 \<times> (nat \<Rightarrow> int)) list \<Rightarrow> manager \<Rightarrow> (int64 \<times> (nat \<Rightarrow> int) \<times> bool) list" where
  "rate_checks [] m = []"
| "rate_checks ((x, c) # cs) m =
     (case CheckRateLimit c x m of (r, m') \<Rightarrow> (x, c, er_Allowed r) # rate_checks cs m')"

fun ticking :: "int \<Rightarrow> (int64 \<times> (nat \<Rightarrow> int)) list \<Rightarrow> bool" where
  "ticking u [] = True"
| "ticking u ((x, c) # cs) = (u \<le> c 0 \<and> mono c \<and> ticking (c 7) cs)"

text \<open>The \<open>k\<close>-th clock readings of the checks of a token that passed.\<close>

definition passed :: "nat \<Rightarrow> int64 \<Rightarrow> (int64 \<times> (nat \<Rightarrow> int) \<times> bool) list \<Rightarrow> int list" where
  "passed k t rs = map (\<lambda>(x, c, ok). c k) (filter (\<lambda>(x, c, ok). x = t \<and> ok) rs)"

lemma passed_simps [simp]:
  "passed k t [] = []" "passed k t ((x, c, ok) # rs) = (if x = t \<and> ok then [c k] else []) @ passed k t rs"
  by (simp_all add: passed_def)

text \<open>A log that grows with every check that passes bounds the checks that pass.\<close>

lemma rate_checks_log:
  assumes step: "\<And>m H u x c. I m \<Longrightarrow> rep H u m \<Longrightarrow> u \<le> c 0 \<Longrightarrow> mono c \<Longrightarrow>
      I (snd (CheckRateLimit c x m)) \<and>
      (\<exists>H'. rep H' (c 7) (snd (CheckRateLimit c x m)) \<and>
            (H' = c k # H \<or> H' = H \<and> \<not> (x = t \<and> er_Allowed (fst (CheckRateLimit c x m)))))"
    and "I m" and "rep H u m" and "ticking u cs"
  shows "\<exists>H' u' m'. rep H' u' m' \<and>
           (\<forall>W. length (filter W (passed k t (rate_checks cs m))) + length (filter W H) \<le> length (filter W H'))"
  using assms(2-)
proof (induction cs arbitrary: m H u)
  case Nil
  then show ?case by (intro exI [of _ H] exI [of _ u] exI [of _ m]) simp
next
  case (Cons xc cs)
  obtain x c where xc: "xc = (x, c)" by (cases xc)
  let ?r = "CheckRateLimit c x m"
  from step [OF Cons.prems(1,2), of c x] Cons.prems(3) obtain H1 where
    H1: "I (snd ?r)" "rep H1 (c 7) (snd ?r)" "H1 = c k # H \<or> H1 = H \<and> \<not> (x = t \<and> er_Allowed (fst ?r))"
    unfolding xc by auto
  from Cons.IH [OF H1(1,2)] Cons.prems(3) obtain H' u' m' where
    "rep H' u' m'" "\<And>W. length (filter W (passed k t (rate_checks cs (snd ?r)))) + length (filter W H1) \<le> length (filter W H')"
    unfolding xc by auto
  moreover have "length (filter W (passed k t (rate_checks (xc # cs) m))) + length (filter W H) \<le>
      length (filter W (passed k t (rate_checks cs (snd ?r)))) + length (filter W H1)" for W
    using H1(3) unfolding xc by (auto simp: case_prod_beta)
  ultimately show ?case by (meson order_trans)
qed

lemma effective_CheckRateLimit [simp]: "getEffectivePolicy (snd (CheckRateLimit c x m)) t = getEffectivePolicy m t"
  by (rule effective_cong) simp_all

lemma minute_step:
  assumes "getEffectivePolicy m t = Some p" and "0 < pol_RateLimitPerMinute p"
    and "opt_rep 60 time_Second (pol_RateLimitPerMinute p) H u (mg_minuteLimiters m t)" and "u \<le> c 0" and "mono c"
  shows "\<exists>H'. opt_rep 60 time_Second (pol_RateLimitPerMinute p) H' (c 7)
           (mg_minuteLimiters (snd (CheckRateLimit c x m)) t) \<and>
           (H' = c 1 # H \<or> H' = H \<and> \<not> (x = t \<and> er_Allowed (fst (CheckRateLimit c x m))))"
proof (cases "x = t")
  case True
  have "c 3 \<le> c 7" using assms(5) by (simp add: monoD)
  note rep = opt_rep_later [OF check_minute_rep [OF assms(3,2,4,5)] this]
  from assms(1) have "mg_minuteLimiters (snd (CheckRateLimit c t m)) t = mg_minuteLimiters (snd (check_minute c t p m)) t"
    by (simp add: CheckRateLimit_cases)
  moreover have "er_Allowed (fst (CheckRateLimit c t m)) \<Longrightarrow> fst (check_minute c t p m) = None"
    using assms(1) by (simp add: CheckRateLimit_cases)
  ultimately show ?thesis
    using rep True by (intro exI [of _ "if fst (check_minute c t p m) = None then c 1 # H else H"]) auto
next
  case False
  have "c 0 \<le> c 7" using assms(5) by (simp add: monoD)
  with False assms(3,4) show ?thesis
    by (intro exI [of _ H]) (auto simp: check_others intro: opt_rep_later)
qed

lemma hour_step:
  assumes "getEffectivePolicy m t = Some p" and "0 < pol_RateLimitPerHour p"
    and "opt_rep 60 time_Minute (pol_RateLimitPerHour p) H u (mg_hourLimiters m t)" and "u \<le> c 0" and "mono c"
  shows "\<exists>H'. opt_rep 60 time_Minute (pol_RateLimitPerHour p) H' (c 7)
           (mg_hourLimiters (snd (CheckRateLimit c x m)) t) \<and>
           (H' = c 5 # H \<or> H' = H \<and> \<not> (x = t \<and> er_Allowed (fst (CheckRateLimit c x m))))"
proof (cases "x = t \<and> fst (check_minute c t p m) = None")
  case True
  let ?m = "snd (check_minute c t p m)"
  have "u \<le> c 4" using assms(4,5) monoD [OF assms(5), of 0 4] by simp
  then have rep: "opt_rep 60 time_Minute (pol_RateLimitPerHour p) (if fst (check_hour c t p ?m) = None then c 5 # H else H)
      (c 7) (mg_hourLimiters (snd (check_hour c t p ?m)) t)"
    using check_hour_rep [of p H u ?m t c] assms(2,3,5) by simp
  have "snd (CheckRateLimit c t m) = snd (check_hour c t p ?m)"
    "er_Allowed (fst (CheckRateLimit c t m)) \<longleftrightarrow> fst (check_hour c t p ?m) = None"
    using assms(1) True by (simp_all add: CheckRateLimit_cases)
  with rep True show ?thesis
    by (intro exI [of _ "if fst (check_hour c t p ?m) = None then c 5 # H else H"]) auto
next
  case False
  then have "mg_hourLimiters (snd (CheckRateLimit c x m)) t = mg_hourLimiters m t \<and>
      \<not> (x = t \<and> er_Allowed (fst (CheckRateLimit c x m)))"
    using assms(1) by (cases "x = t") (auto simp: check_others, simp_all add: CheckRateLimit_cases)
  moreover have "u \<le> c 7" using assms(4) monoD [OF assms(5), of 0 7] by simp
  ultimately show ?thesis using assms(3) by (intro exI [of _ H]) (auto intro: opt_rep_later)
qed

lemma opt_rep_bounded:
  assumes "opt_rep n d lim H u lo" and "0 < lim" and "time_window n d W"
  shows "int (length (filter W H)) \<le> lim"
  using assms window.bounded [of n d lim H _ _ W] by (auto simp: opt_rep_def split: option.splits)

lemma window_of_60: "time_window 60 d (\<lambda>x. a \<le> x \<and> x \<le> a + 59 * d)"
  by (auto simp: time_window_def)


text \<open>
  C30. A refused query is charged all the same: when the hour limit refuses a query, the minute
  limiter has already counted it.  With 2 queries per minute and 1 per hour, a second query at once
  is refused for the hour, and a third is refused for the minute although only one has passed.
\<close>

definition example_limits :: policy where
  "example_limits = \<lparr>pol_ID = 1, pol_TokenID = 7, pol_TokenName = [], pol_RateLimitPerMinute = 2,
     pol_RateLimitPerHour = 1, pol_MaxQueriesPerHour = 0, pol_MaxQueriesPerDay = 0, pol_MaxRowsPerQuery = 0,
     pol_MaxScanDurationSec = 0, pol_CreatedAt = 0, pol_UpdatedAt = 0\<rparr>"

definition no_defaults :: governance_config where
  "no_defaults = \<lparr>g_DefaultRateLimitPerMin = 0, g_DefaultRateLimitPerHour = 0, g_DefaultMaxQueriesPerHour = 0,
     g_DefaultMaxQueriesPerDay = 0, g_DefaultMaxRowsPerQuery = 0\<rparr>"

theorem refused_queries_are_charged:
  "let m0 = NewManager no_defaults [example_limits];
       (r1, m1) = CheckRateLimit (\<lambda>_. 0) 7 m0;
       (r2, m2) = CheckRateLimit (\<lambda>_. 0) 7 m1;
       (r3, m3) = CheckRateLimit (\<lambda>_. 0) 7 m2
   in map er_Allowed [r1, r2, r3] = [True, False, False] \<and>
      er_Reason r2 = PerHourExceeded 1 \<and> er_Reason r3 = PerMinuteExceeded 2"
  by code_simp

theorem limits_in_force_witness:
  "map_option sw_limit (mg_minuteLimiters (snd (CheckRateLimit (\<lambda>_. 0) 7 (NewManager no_defaults [example_limits]))) 7)
     \<in> {None, Some 2}"
proof -
  let ?m = "snd (CheckRateLimit (\<lambda>_. 0) 7 (NewManager no_defaults [example_limits]))"
  have "governed ?m" by (intro governed.intros)
  from limits_in_force [OF this, of 7] have "\<forall>l. mg_minuteLimiters ?m 7 = Some l \<longrightarrow> sw_limit l = 2"
    by (simp add: NewManager_def loadPolicies_def getEffectivePolicy_def example_limits_def)
  then show ?thesis by (cases "mg_minuteLimiters ?m 7") simp_all
qed


end
