(* ===== verification/Bytes.thy ===== *)
theory Bytes
  imports Prelude
begin

text \<open>
  Byte strings as Go's \<^verbatim>\<open>encoding/binary\<close> and \<^verbatim>\<open>io\<close> packages handle them: big-endian integers of
  a fixed width, \<^verbatim>\<open>io.ReadFull\<close> on the rest of a stream, and the interface of a framed
  stream.  A writer that puts one frame after the other and a reader that takes one frame off
  the front satisfy the laws of the locale \<open>framing\<close>; what a whole stream then decodes to,
  torn tail included, is proved once inside it.  The write-ahead log, the cluster protocol and
  the replication protocol interpret it.
\<close>

type_synonym byte = "8 word"
type_synonym bytes = "byte list"
type_synonym u16 = "16 word"
type_synonym u32 = "32 word"

section \<open>Big-endian integers\<close>

text \<open>\<open>be_put n v\<close> is what \<^verbatim>\<open>binary.BigEndian.PutUintN\<close> stores in \<open>n\<close> bytes.\<close>

fun be_put :: "nat \<Rightarrow> nat \<Rightarrow> bytes" where
  "be_put 0 v = []"
| "be_put (Suc n) v = be_put n (v div 256) @ [word_of_nat v]"

definition be_get :: "bytes \<Rightarrow> nat" where
  "be_get bs = foldl (\<lambda>a b. a * 256 + unat b) 0 bs"

lemma length_be_put [simp]: "length (be_put n v) = n"
  by (induction n arbitrary: v) auto

lemma be_get_Nil [simp]: "be_get [] = 0"
  by (simp add: be_get_def)

lemma be_get_snoc [simp]: "be_get (bs @ [b]) = be_get bs * 256 + unat b"
  by (simp add: be_get_def)

lemma unat_byte_less [simp]: "unat (b :: byte) < 256"
  using unsigned_less [of b] by simp

lemma unat_byte_of_nat: "unat (word_of_nat v :: byte) = v mod 256"
  by (simp add: unat_of_nat)

lemma be_get_put: "be_get (be_put n v) = v mod 256 ^ n"
proof (induction n arbitrary: v)
  case (Suc n)
  have "(v div 256) mod 256 ^ n * 256 + v mod 256 = v mod (256 * 256 ^ n)"
    by (simp add: mod_mult2_eq)
  then show ?case using Suc by (simp add: unat_byte_of_nat)
qed simp

lemma be_get_put_small [simp]: "v < 256 ^ n \<Longrightarrow> be_get (be_put n v) = v"
  by (simp add: be_get_put)

lemma be_get_less: "be_get bs < 256 ^ length bs"
proof (induction bs rule: rev_induct)
  case (snoc b bs)
  have "unat b < 256" by (rule unat_byte_less)
  moreover have "be_get bs + 1 \<le> 256 ^ length bs" using snoc by simp
  then have "(be_get bs + 1) * 256 \<le> 256 ^ length bs * 256" by (rule mult_le_mono1)
  ultimately show ?case by (simp add: algebra_simps del: unat_byte_less)
qed simp

lemma be_put_get [simp]: "be_put (length bs) (be_get bs) = bs"
proof (induction bs rule: rev_induct)
  case (snoc b bs)
  have "unat b < 256" by simp
  then have "(be_get bs * 256 + unat b) div 256 = be_get bs" by simp
  moreover have "word_of_nat (be_get bs * 256 + unat b) = (b :: byte)"
    by (rule word_unat_eq_iff [THEN iffD2]) (simp add: unat_byte_of_nat del: of_nat_add of_nat_mult)
  ultimately show ?case using snoc by (simp del: of_nat_add of_nat_mult)
qed simp

lemma be_get_inject: "length a = length b \<Longrightarrow> be_get a = be_get b \<longleftrightarrow> a = b"
  by (metis be_put_get)

section \<open>Strings and byte slices\<close>

text \<open>
  A Go string is a sequence of bytes, as an Isabelle string is; \<open>gostring\<close> and \<open>gobytes\<close> are the
  conversions \<^verbatim>\<open>string(b)\<close> and \<^verbatim>\<open>[]byte(s)\<close>.
\<close>

definition gostring :: "bytes \<Rightarrow> string" where
  "gostring bs = map (\<lambda>b. char_of (unat b)) bs"

definition gobytes :: "string \<Rightarrow> bytes" where
  "gobytes s = map (\<lambda>c. word_of_nat (of_char c)) s"

lemma length_gobytes [simp]: "length (gobytes s) = length s"
  by (simp add: gobytes_def)

lemma gostring_gobytes [simp]: "gostring (gobytes s) = s"
  by (simp add: gostring_def gobytes_def unat_byte_of_nat comp_def map_idI)

section \<open>Reading a stream\<close>

text \<open>
  \<^verbatim>\<open>io.ReadFull(r, buf)\<close> with a buffer of \<open>n\<close> bytes on a stream that still holds \<open>s\<close>: the
  bytes and what is left, or the errors for a stream that ends before the first byte and for
  one that ends in the middle.  A stream that ends early has been read to its end.
\<close>

datatype read_result = ReadOk bytes bytes | ReadEOF | ReadUnexpectedEOF

definition read_full :: "nat \<Rightarrow> bytes \<Rightarrow> read_result" where
  "read_full n s =
     (if n \<le> length s then ReadOk (take n s) (drop n s)
      else if s = [] then ReadEOF else ReadUnexpectedEOF)"

lemma read_full_append [simp]: "length bs = n \<Longrightarrow> read_full n (bs @ s) = ReadOk bs s"
  by (simp add: read_full_def)

lemma read_full_short [simp]:
  "length s < n \<Longrightarrow> read_full n s = (if s = [] then ReadEOF else ReadUnexpectedEOF)"
  by (simp add: read_full_def)

lemma read_full_OkD: "read_full n s = ReadOk bs r \<Longrightarrow> s = bs @ r \<and> length bs = n"
  by (auto simp: read_full_def split: if_splits)

lemma read_full_0 [simp]: "read_full 0 s = ReadOk [] s"
  by (simp add: read_full_def)

section \<open>Framed streams\<close>

text \<open>
  A reader takes one message off the front of a stream or fails.  \<open>receive dec n s\<close> is a
  connection's read loop, which ends with the first failure; \<open>n\<close> bounds the number of
  messages, and the length of the stream is always enough (\<open>receive_enough\<close>).
\<close>

fun receive :: "(bytes \<Rightarrow> ('m \<times> bytes) option) \<Rightarrow> nat \<Rightarrow> bytes \<Rightarrow> 'm list \<times> bytes" where
  "receive dec 0 s = ([], s)"
| "receive dec (Suc n) s =
     (case dec s of
        None \<Rightarrow> ([], s)
      | Some (m, r) \<Rightarrow> (case receive dec n r of (ms, r') \<Rightarrow> (m # ms, r')))"

definition received :: "(bytes \<Rightarrow> ('m \<times> bytes) option) \<Rightarrow> bytes \<Rightarrow> 'm list" where
  "received dec s = fst (receive dec (length s) s)"

definition proper_prefix :: "'a list \<Rightarrow> 'a list \<Rightarrow> bool" where
  "proper_prefix t w \<longleftrightarrow> (\<exists>u. u \<noteq> [] \<and> w = t @ u)"

lemma proper_prefix_length: "proper_prefix t w \<Longrightarrow> length t < length w"
  by (auto simp: proper_prefix_def)

lemma proper_prefix_take: "k < length w \<Longrightarrow> proper_prefix (take k w) w"
  by (auto simp: proper_prefix_def intro!: exI [of _ "drop k w"])

locale framing =
  fixes ok :: "'m \<Rightarrow> bool"
    and enc :: "'m \<Rightarrow> bytes"
    and dec :: "bytes \<Rightarrow> ('m \<times> bytes) option"
  assumes dec_enc: "ok m \<Longrightarrow> dec (enc m @ s) = Some (m, s)"
    and dec_torn: "ok m \<Longrightarrow> proper_prefix t (enc m) \<Longrightarrow> dec t = None"
    and dec_shrinks: "dec s = Some (m, r) \<Longrightarrow> length r < length s"
begin

lemma receive_enough:
  "length s \<le> n \<Longrightarrow> receive dec n s = receive dec (length s) s"
proof (induction n arbitrary: s rule: less_induct)
  case (less n)
  show ?case
  proof (cases n)
    case 0
    then show ?thesis using less.prems by simp
  next
    case (Suc k)
    show ?thesis
    proof (cases "dec s")
      case None
      then show ?thesis using Suc by (cases "length s") auto
    next
      case (Some mr)
      obtain m r where mr: "mr = (m, r)" by (cases mr)
      then obtain j where j: "length s = Suc j" and rj: "length r \<le> j"
        using dec_shrinks [of s m r] Some by (cases "length s") auto
      have "receive dec k r = receive dec (length r) r"
        using less.IH [of k r] Suc j rj less.prems by simp
      moreover have "receive dec j r = receive dec (length r) r"
        using less.IH [of j r] Suc j rj less.prems by simp
      ultimately show ?thesis using Suc j Some mr by simp
    qed
  qed
qed

lemma dec_enc_concat:
  "\<forall>m\<in>set ms. ok m \<Longrightarrow> length ms \<le> n \<Longrightarrow>
   receive dec n (concat (map enc ms) @ s) =
     (case receive dec (n - length ms) s of (ms', r) \<Rightarrow> (ms @ ms', r))"
proof (induction ms arbitrary: n)
  case (Cons m ms)
  then obtain k where "n = Suc k" by (cases n) auto
  then show ?case using Cons by (simp add: dec_enc split: prod.splits)
qed (simp split: prod.splits)

lemma enc_nonempty: "ok m \<Longrightarrow> enc m \<noteq> []"
  using dec_shrinks [of "enc m" m "[]"] dec_enc [of m "[]"] by auto

lemma length_concat_enc: "\<forall>m\<in>set ms. ok m \<Longrightarrow> length ms \<le> length (concat (map enc ms))"
proof (induction ms)
  case (Cons m ms)
  then have "enc m \<noteq> []" by (simp add: enc_nonempty)
  then have "1 \<le> length (enc m)" by (simp add: Suc_le_eq)
  then show ?case using Cons by simp
qed simp

lemma received_concat:
  assumes "\<forall>m\<in>set ms. ok m"
  shows "received dec (concat (map enc ms) @ s) = ms @ received dec s"
proof -
  let ?n = "length (concat (map enc ms) @ s)"
  have le: "length ms \<le> ?n" and le': "length s \<le> ?n - length ms"
    using length_concat_enc [OF assms] by simp_all
  show ?thesis
    using dec_enc_concat [OF assms le, of s] receive_enough [OF le']
    by (simp add: received_def split: prod.splits)
qed

lemma received_nothing: "dec s = None \<Longrightarrow> received dec s = []"
  by (cases "length s") (auto simp: received_def)

text \<open>A stream cut anywhere gives the messages whose frames are complete, and only those.\<close>

lemma received_torn:
  "\<forall>m\<in>set ms. ok m \<Longrightarrow> ok m \<Longrightarrow> proper_prefix t (enc m) \<Longrightarrow>
   received dec (concat (map enc ms) @ t) = ms"
  using received_concat [of ms t] received_nothing [OF dec_torn] by simp

lemma received_all: "\<forall>m\<in>set ms. ok m \<Longrightarrow> received dec (concat (map enc ms)) = ms"
  using received_concat [of ms "[]"] by (simp add: received_def)

lemma cut_stream:
  "\<forall>m\<in>set ms. ok m \<Longrightarrow> k \<le> length (concat (map enc ms)) \<Longrightarrow>
   \<exists>j t. take k (concat (map enc ms)) = concat (map enc (take j ms)) @ t \<and>
     (t = [] \<or> (\<exists>m\<in>set ms. proper_prefix t (enc m)))"
proof (induction ms arbitrary: k)
  case (Cons m ms)
  show ?case
  proof (cases "k < length (enc m)")
    case True
    then have "take k (concat (map enc (m # ms))) = concat (map enc (take 0 (m # ms))) @ take k (enc m)"
      by simp
    then show ?thesis using proper_prefix_take [OF True] by (meson list.set_intros(1))
  next
    case False
    have ok: "\<forall>m\<in>set ms. ok m" and le: "k - length (enc m) \<le> length (concat (map enc ms))"
      using Cons.prems by auto
    obtain j t where jt: "take (k - length (enc m)) (concat (map enc ms)) = concat (map enc (take j ms)) @ t"
      "t = [] \<or> (\<exists>m\<in>set ms. proper_prefix t (enc m))"
      using Cons.IH [of "k - length (enc m)", OF ok le] by blast
    then have "take k (concat (map enc (m # ms))) = concat (map enc (take (Suc j) (m # ms))) @ t"
      using False by simp
    then show ?thesis using jt(2) by (intro exI [of _ "Suc j"] exI [of _ t]) auto
  qed
qed simp

lemma received_cut:
  assumes "\<forall>m\<in>set ms. ok m" "k \<le> length (concat (map enc ms))"
  obtains j where "received dec (take k (concat (map enc ms))) = take j ms"
proof -
  obtain j t where jt: "take k (concat (map enc ms)) = concat (map enc (take j ms)) @ t"
    "t = [] \<or> (\<exists>m\<in>set ms. proper_prefix t (enc m))"
    using cut_stream [OF assms] by blast
  have ok: "\<forall>m\<in>set (take j ms). ok m" using assms(1) set_take_subset by fastforce
  have "received dec (take k (concat (map enc ms))) = take j ms"
    using jt(2)
  proof
    assume "t = []"
    then show ?thesis using received_all [OF ok] jt(1) by simp
  next
    assume "\<exists>m\<in>set ms. proper_prefix t (enc m)"
    then show ?thesis using received_torn [OF ok] assms(1) jt(1) by metis
  qed
  then show ?thesis by (rule that)
qed

end

end
