(* ===== verification/Encodings.thy ===== *)
theory Encodings
  imports Bytes
begin

text \<open>
  Textual encodings of Go's standard library (\<^verbatim>\<open>fmt\<close>, \<^verbatim>\<open>encoding/hex\<close>), and fields joined by NUL
  bytes: the canonical form that the cluster's MACs are computed of, and the form of the concrete
  encodings at which theorems about JSON messages are applied.
\<close>

section \<open>Numbers and hexadecimal digits\<close>

text \<open>Decimal numbers, as \<open>%d\<close> prints them.\<close>

fun show_nat :: "nat \<Rightarrow> string" where
  "show_nat n = (if n < 10 then [char_of (48 + n)] else show_nat (n div 10) @ [char_of (48 + n mod 10)])"

declare show_nat.simps [simp del]

definition show_int :: "int \<Rightarrow> string" where
  "show_int i = (if i < 0 then CHR ''-'' # show_nat (nat (- i)) else show_nat (nat i))"

definition digits_value :: "string \<Rightarrow> nat" where
  "digits_value s = fold (\<lambda>c v. v * 10 + (of_char c - 48)) s 0"

lemma digits_value_show [simp]: "digits_value (show_nat n) = n"
proof (induction n rule: show_nat.induct)
  case (1 n)
  then show ?case by (subst show_nat.simps) (simp add: digits_value_def of_char_of)
qed

lemma show_nat_inj [simp]: "show_nat m = show_nat n \<longleftrightarrow> m = n"
  by (metis digits_value_show)

lemma show_nat_digits: "c \<in> set (show_nat n) \<Longrightarrow> 48 \<le> (of_char c :: nat)"
proof (induction n rule: show_nat.induct)
  case (1 n)
  then show ?case by (subst (asm) show_nat.simps) (auto simp: of_char_of split: if_splits)
qed

lemma show_int_inj [simp]: "show_int i = show_int j \<longleftrightarrow> i = j"
proof -
  have "CHR ''-'' \<notin> set (show_nat n)" for n
    using show_nat_digits [of "CHR ''-''" n] by auto
  then have "CHR ''-'' # s \<noteq> show_nat n" for s n by (metis list.set_intros(1))
  from this this [symmetric] show ?thesis by (auto simp: show_int_def)
qed

lemma show_nat_no_nul [simp]: "CHR 0x00 \<notin> set (show_nat n)"
  using show_nat_digits [of "CHR 0x00" n] by auto

lemma show_int_no_nul [simp]: "CHR 0x00 \<notin> set (show_int i)"
  by (simp add: show_int_def)

text \<open>\<open>hex.EncodeToString\<close> and \<open>hex.DecodeString\<close>.\<close>

definition hex_digit :: "nat \<Rightarrow> char" where
  "hex_digit n = char_of (if n < 10 then 48 + n else 87 + n)"

definition hex_value :: "char \<Rightarrow> nat option" where
  "hex_value c =
     (let n = of_char c
      in if 48 \<le> n \<and> n \<le> 57 then Some (n - 48)
         else if 97 \<le> n \<and> n \<le> 102 then Some (n - 87)
         else if 65 \<le> n \<and> n \<le> 70 then Some (n - 55) else None)"

definition EncodeToString :: "string \<Rightarrow> string" where
  "EncodeToString bs = concat (map (\<lambda>b. [hex_digit (of_char b div 16), hex_digit (of_char b mod 16)]) bs)"

fun DecodeString :: "string \<Rightarrow> string option" where
  "DecodeString [] = Some []"
| "DecodeString [a] = None"
| "DecodeString (a # b # cs) =
     (case (hex_value a, hex_value b, DecodeString cs) of
        (Some x, Some y, Some bs) \<Rightarrow> Some (char_of (16 * x + y) # bs)
      | _ \<Rightarrow> None)"

lemma hex_value_digit [simp]: "n < 16 \<Longrightarrow> hex_value (hex_digit n) = Some n"
  by (auto simp: hex_value_def hex_digit_def Let_def of_char_of)

lemma hex_no_nul [simp]: "CHR 0x00 \<notin> set (EncodeToString bs)"
proof -
  have nz: "hex_digit n \<noteq> CHR 0x00" if "n < 16" for n
    using hex_value_digit [OF that] by (auto simp: hex_value_def)
  have ne: "hex_digit (of_char b div 16) \<noteq> CHR 0x00" "hex_digit (of_char b mod 16) \<noteq> CHR 0x00" for b :: char
  proof -
    have "(of_char b :: nat) < 256" by simp
    then have "(of_char b :: nat) div 16 < 16" by (simp add: less_mult_imp_div_less)
    then show "hex_digit (of_char b div 16) \<noteq> CHR 0x00" "hex_digit (of_char b mod 16) \<noteq> CHR 0x00"
      using nz by simp_all
  qed
  show ?thesis by (simp add: EncodeToString_def ne [symmetric])
qed

lemma DecodeString_Encode [simp]: "DecodeString (EncodeToString bs) = Some bs"
proof (induction bs)
  case (Cons b bs)
  have "(of_char b :: nat) < 256" by simp
  then have "(of_char b :: nat) div 16 < 16" by (simp add: less_mult_imp_div_less)
  moreover have "char_of (16 * (of_char b div 16 :: nat) + of_char b mod 16) = b" by simp
  ultimately show ?case using Cons by (simp add: EncodeToString_def)
qed (simp add: EncodeToString_def)

lemma EncodeToString_inj [simp]: "EncodeToString a = EncodeToString b \<longleftrightarrow> a = b"
  by (metis DecodeString_Encode option.inject)

text \<open>The canonical form of a message: its fields with NUL bytes between them.\<close>

fun nul_join :: "string list \<Rightarrow> string" where
  "nul_join [] = []"
| "nul_join [x] = x"
| "nul_join (x # y # xs) = x @ CHR 0x00 # nul_join (y # xs)"

lemma nul_prefix:
  assumes "CHR 0x00 \<notin> set a" and "CHR 0x00 \<notin> set b"
  shows "a @ CHR 0x00 # x = b @ CHR 0x00 # y \<longleftrightarrow> a = b \<and> x = y"
  using assms
proof (induction a arbitrary: b)
  case Nil
  then show ?case by (cases b) auto
next
  case (Cons c a)
  then show ?case by (cases b) auto
qed

lemma nul_join_inj:
  assumes "\<forall>x\<in>set (a # as). CHR 0x00 \<notin> set x" and "\<forall>x\<in>set (b # bs). CHR 0x00 \<notin> set x"
    and "nul_join (a # as) = nul_join (b # bs)"
  shows "a = b \<and> as = bs"
  using assms
proof (induction as arbitrary: a b bs)
  case Nil
  then show ?case by (cases bs) (auto dest: arg_cong [where f = set])
next
  case (Cons a' as)
  show ?case
  proof (cases bs)
    case Nil
    with Cons.prems show ?thesis by (auto dest: arg_cong [where f = set])
  next
    case (Cons b' bs')
    with Cons.prems have "a = b" "nul_join (a' # as) = nul_join (b' # bs')"
      by (auto simp: nul_prefix)
    with Cons.IH [of a' b' bs'] Cons Cons.prems show ?thesis by simp
  qed
qed

section \<open>Reading fields back\<close>

fun nul_split :: "string \<Rightarrow> string list" where
  "nul_split [] = [[]]"
| "nul_split (c # s) = (if c = CHR 0x00 then [] # nul_split s
     else (case nul_split s of [] \<Rightarrow> [[c]] | f # fs \<Rightarrow> (c # f) # fs))"

lemma nul_split_field: "CHR 0x00 \<notin> set x \<Longrightarrow> nul_split x = [x]"
  by (induction x) auto

lemma nul_split_append: "CHR 0x00 \<notin> set x \<Longrightarrow> nul_split (x @ CHR 0x00 # s) = x # nul_split s"
  by (induction x) auto

lemma nul_split_join: "\<forall>x\<in>set (x # xs). CHR 0x00 \<notin> set x \<Longrightarrow> nul_split (nul_join (x # xs)) = x # xs"
  by (induction xs arbitrary: x) (simp_all add: nul_split_field nul_split_append)

definition word_text :: "u64 \<Rightarrow> string" where
  "word_text w = show_nat (unat w)"

definition text_word :: "string \<Rightarrow> u64" where
  "text_word s = word_of_nat (digits_value s)"

definition text_int :: "string \<Rightarrow> int" where
  "text_int s = (if take 1 s = ''-'' then - int (digits_value (drop 1 s)) else int (digits_value s))"

lemma text_word [simp]: "text_word (word_text w) = w"
  by (simp add: text_word_def word_text_def)

lemma word_text_no_nul [simp]: "CHR 0x00 \<notin> set (word_text w)"
  by (simp add: word_text_def)

lemma text_int [simp]: "text_int (show_int i) = i"
proof -
  have "take 1 (show_nat n) \<noteq> ''-''" for n
    using show_nat_digits [of "CHR ''-''" n] by (cases "show_nat n") auto
  then show ?thesis by (simp add: text_int_def show_int_def)
qed

end
