(* ===== verification/Cluster_Auth.thy ===== *)
theory Cluster_Auth
  imports Encodings
begin

text \<open>
  Authentication between the nodes of a cluster: the HMACs of
  \<^verbatim>\<open>internal/cluster/security/auth.go\<close> and the replay cache of \<^verbatim>\<open>nonce_cache.go\<close>.
  HMAC-SHA-256, SHA-256 and HKDF are parameters; a byte string is a \<open>string\<close>.  The clock
  is an argument, in nanoseconds since the Unix epoch.
\<close>

section \<open>Freshness\<close>

definition wrap64 :: "int \<Rightarrow> int64" where
  "wrap64 x = sint (word_of_int x :: 64 word)"

datatype auth_error = TimestampExpired int64 int64 | MACMismatch

definition HMACTimestampTolerance :: int where
  "HMACTimestampTolerance = 5 * 60 * 1000000000"

text \<open>The check every validator begins with; \<open>drift\<close> is an \<open>int64\<close>.\<close>

definition check_freshness :: "int64 \<Rightarrow> int \<Rightarrow> int \<Rightarrow> auth_error option" where
  "check_freshness timestamp tolerance clock =
     (let now = clock div 1000000000;
          drift0 = wrap64 (now - timestamp);
          drift = (if drift0 < 0 then wrap64 (- drift0) else drift0)
      in if drift > tolerance div 1000000000 then Some (TimestampExpired drift (tolerance div 1000000000)) else None)"

section \<open>The message authentication codes\<close>

text \<open>
  The primitives: \<open>hmac_sha256 key message\<close>, \<open>sha256\<close>, and HKDF with the namespace string of the
  replication session, \<open>hkdf secret salt info length\<close>.
\<close>

record crypto =
  hmac_sha256 :: "string \<Rightarrow> string \<Rightarrow> string"
  sha256 :: "string \<Rightarrow> string"
  hkdf :: "string \<Rightarrow> string \<Rightarrow> string \<Rightarrow> nat \<Rightarrow> string option"

definition computeRawHMAC :: "crypto \<Rightarrow> string \<Rightarrow> string \<Rightarrow> string" where
  "computeRawHMAC K sharedSecret message = hmac_sha256 K sharedSecret message"

definition constantTimeHexEqual :: "string \<Rightarrow> string \<Rightarrow> bool" where
  "constantTimeHexEqual expectedRaw receivedHex =
     (case DecodeString receivedHex of None \<Rightarrow> False | Some receivedRaw \<Rightarrow> expectedRaw = receivedRaw)"

text \<open>What every validator does with the MAC it expects.\<close>

definition check_mac :: "string \<Rightarrow> string \<Rightarrow> int64 \<Rightarrow> int \<Rightarrow> int \<Rightarrow> auth_error option" where
  "check_mac expected receivedMAC timestamp tolerance clock =
     (case check_freshness timestamp tolerance clock of
        Some e \<Rightarrow> Some e
      | None \<Rightarrow> if constantTimeHexEqual expected receivedMAC then None else Some MACMismatch)"

datatype msg_type = MsgTypeJoin | MsgTypeLeave | MsgTypeHeartbeat

fun msg_label :: "msg_type \<Rightarrow> string" where
  "msg_label MsgTypeJoin = ''join''"
| "msg_label MsgTypeLeave = ''leave''"
| "msg_label MsgTypeHeartbeat = ''heartbeat''"

subsection \<open>Join, leave and heartbeat\<close>

definition computeJoinFamilyHMACRaw :: "crypto \<Rightarrow> string \<Rightarrow> msg_type \<Rightarrow> string \<Rightarrow> string \<Rightarrow> string \<Rightarrow> int64 \<Rightarrow> string" where
  "computeJoinFamilyHMACRaw K secret msgType nonce nodeID clusterName timestamp =
     computeRawHMAC K secret (nul_join [msg_label msgType, nonce, nodeID, clusterName, show_int timestamp])"

definition ComputeHMAC :: "crypto \<Rightarrow> string \<Rightarrow> msg_type \<Rightarrow> string \<Rightarrow> string \<Rightarrow> string \<Rightarrow> int64 \<Rightarrow> string" where
  "ComputeHMAC K secret msgType nonce nodeID clusterName timestamp =
     EncodeToString (computeJoinFamilyHMACRaw K secret msgType nonce nodeID clusterName timestamp)"

definition ValidateHMAC ::
  "crypto \<Rightarrow> string \<Rightarrow> msg_type \<Rightarrow> string \<Rightarrow> string \<Rightarrow> string \<Rightarrow> int64 \<Rightarrow> string \<Rightarrow> int \<Rightarrow> int \<Rightarrow> auth_error option" where
  "ValidateHMAC K secret msgType nonce nodeID clusterName timestamp receivedMAC tolerance clock =
     check_mac (computeJoinFamilyHMACRaw K secret msgType nonce nodeID clusterName timestamp) receivedMAC
       timestamp tolerance clock"

subsection \<open>Fetching a file\<close>

definition computeFetchHMACRaw :: "crypto \<Rightarrow> string \<Rightarrow> string \<Rightarrow> string \<Rightarrow> string \<Rightarrow> string \<Rightarrow> int64 \<Rightarrow> string" where
  "computeFetchHMACRaw K secret nonce nodeID clusterName path timestamp =
     computeRawHMAC K secret (nul_join [nonce, nodeID, clusterName, path, show_int timestamp])"

definition ComputeFetchHMAC :: "crypto \<Rightarrow> string \<Rightarrow> string \<Rightarrow> string \<Rightarrow> string \<Rightarrow> string \<Rightarrow> int64 \<Rightarrow> string" where
  "ComputeFetchHMAC K secret nonce nodeID clusterName path timestamp =
     EncodeToString (computeFetchHMACRaw K secret nonce nodeID clusterName path timestamp)"

definition ValidateFetchHMAC ::
  "crypto \<Rightarrow> string \<Rightarrow> string \<Rightarrow> string \<Rightarrow> string \<Rightarrow> string \<Rightarrow> int64 \<Rightarrow> string \<Rightarrow> int \<Rightarrow> int \<Rightarrow> auth_error option" where
  "ValidateFetchHMAC K secret nonce nodeID clusterName path timestamp receivedMAC tolerance clock =
     check_mac (computeFetchHMACRaw K secret nonce nodeID clusterName path timestamp) receivedMAC
       timestamp tolerance clock"

subsection \<open>Forwarding a command to the leader\<close>

definition computeForwardHMACRaw :: "crypto \<Rightarrow> string \<Rightarrow> string \<Rightarrow> string \<Rightarrow> string \<Rightarrow> string \<Rightarrow> int64 \<Rightarrow> string" where
  "computeForwardHMACRaw K secret nonce nodeID clusterName payload timestamp =
     computeRawHMAC K secret
       (nul_join [nonce, nodeID, clusterName, EncodeToString (sha256 K payload), show_int timestamp])"

definition ComputeForwardHMAC :: "crypto \<Rightarrow> string \<Rightarrow> string \<Rightarrow> string \<Rightarrow> string \<Rightarrow> string \<Rightarrow> int64 \<Rightarrow> string" where
  "ComputeForwardHMAC K secret nonce nodeID clusterName payload timestamp =
     EncodeToString (computeForwardHMACRaw K secret nonce nodeID clusterName payload timestamp)"

definition ValidateForwardHMAC ::
  "crypto \<Rightarrow> string \<Rightarrow> string \<Rightarrow> string \<Rightarrow> string \<Rightarrow> string \<Rightarrow> int64 \<Rightarrow> string \<Rightarrow> int \<Rightarrow> int \<Rightarrow> auth_error option" where
  "ValidateForwardHMAC K secret nonce nodeID clusterName payload timestamp receivedMAC tolerance clock =
     check_mac (computeForwardHMACRaw K secret nonce nodeID clusterName payload timestamp) receivedMAC
       timestamp tolerance clock"

subsection \<open>Invalidating caches\<close>

definition computeCacheInvalidateHMACRaw :: "crypto \<Rightarrow> string \<Rightarrow> string \<Rightarrow> string \<Rightarrow> string \<Rightarrow> int64 \<Rightarrow> string" where
  "computeCacheInvalidateHMACRaw K secret nonce nodeID clusterName timestamp =
     computeRawHMAC K secret (nul_join [''cache-invalidate'', nonce, nodeID, clusterName, show_int timestamp])"

definition ComputeCacheInvalidateHMAC :: "crypto \<Rightarrow> string \<Rightarrow> string \<Rightarrow> string \<Rightarrow> string \<Rightarrow> int64 \<Rightarrow> string" where
  "ComputeCacheInvalidateHMAC K secret nonce nodeID clusterName timestamp =
     EncodeToString (computeCacheInvalidateHMACRaw K secret nonce nodeID clusterName timestamp)"

definition ValidateCacheInvalidateHMAC ::
  "crypto \<Rightarrow> string \<Rightarrow> string \<Rightarrow> string \<Rightarrow> string \<Rightarrow> int64 \<Rightarrow> string \<Rightarrow> int \<Rightarrow> int \<Rightarrow> auth_error option" where
  "ValidateCacheInvalidateHMAC K secret nonce nodeID clusterName timestamp receivedMAC tolerance clock =
     check_mac (computeCacheInvalidateHMACRaw K secret nonce nodeID clusterName timestamp) receivedMAC
       timestamp tolerance clock"

subsection \<open>The replication handshake and its checkpoints\<close>

definition computeReplicateSyncHMACRaw :: "crypto \<Rightarrow> string \<Rightarrow> string \<Rightarrow> string \<Rightarrow> string \<Rightarrow> u64 \<Rightarrow> int64 \<Rightarrow> string" where
  "computeReplicateSyncHMACRaw K secret nonce readerID clusterName lastKnownSeq timestamp =
     computeRawHMAC K secret
       (nul_join [''replicate-sync'', nonce, readerID, clusterName, show_nat (unat lastKnownSeq), show_int timestamp])"

definition ComputeReplicateSyncHMAC :: "crypto \<Rightarrow> string \<Rightarrow> string \<Rightarrow> string \<Rightarrow> string \<Rightarrow> u64 \<Rightarrow> int64 \<Rightarrow> string" where
  "ComputeReplicateSyncHMAC K secret nonce readerID clusterName lastKnownSeq timestamp =
     EncodeToString (computeReplicateSyncHMACRaw K secret nonce readerID clusterName lastKnownSeq timestamp)"

definition ValidateReplicateSyncHMAC ::
  "crypto \<Rightarrow> string \<Rightarrow> string \<Rightarrow> string \<Rightarrow> string \<Rightarrow> u64 \<Rightarrow> int64 \<Rightarrow> string \<Rightarrow> int \<Rightarrow> int \<Rightarrow> auth_error option" where
  "ValidateReplicateSyncHMAC K secret nonce readerID clusterName lastKnownSeq timestamp receivedMAC tolerance clock =
     check_mac (computeReplicateSyncHMACRaw K secret nonce readerID clusterName lastKnownSeq timestamp) receivedMAC
       timestamp tolerance clock"

definition computeReplicationCheckpointHMACRaw ::
  "crypto \<Rightarrow> string \<Rightarrow> string \<Rightarrow> string \<Rightarrow> string \<Rightarrow> string \<Rightarrow> u64 \<Rightarrow> int64 \<Rightarrow> string" where
  "computeReplicationCheckpointHMACRaw K secret nonce senderNodeID clusterName cumulativeHash lastSeq timestamp =
     computeRawHMAC K secret
       (nul_join [''replicate-checkpoint'', nonce, senderNodeID, clusterName, EncodeToString cumulativeHash,
                  show_nat (unat lastSeq), show_int timestamp])"

definition ComputeReplicationCheckpointHMAC ::
  "crypto \<Rightarrow> string \<Rightarrow> string \<Rightarrow> string \<Rightarrow> string \<Rightarrow> string \<Rightarrow> u64 \<Rightarrow> int64 \<Rightarrow> string" where
  "ComputeReplicationCheckpointHMAC K secret nonce senderNodeID clusterName cumulativeHash lastSeq timestamp =
     EncodeToString (computeReplicationCheckpointHMACRaw K secret nonce senderNodeID clusterName cumulativeHash lastSeq timestamp)"

definition ValidateReplicationCheckpointHMAC ::
  "crypto \<Rightarrow> string \<Rightarrow> string \<Rightarrow> string \<Rightarrow> string \<Rightarrow> string \<Rightarrow> u64 \<Rightarrow> int64 \<Rightarrow> string \<Rightarrow> int \<Rightarrow> int \<Rightarrow> auth_error option" where
  "ValidateReplicationCheckpointHMAC K secret nonce senderNodeID clusterName cumulativeHash lastSeq timestamp receivedMAC tolerance clock =
     check_mac (computeReplicationCheckpointHMACRaw K secret nonce senderNodeID clusterName cumulativeHash lastSeq timestamp)
       receivedMAC timestamp tolerance clock"

subsection \<open>The tags of a replication stream\<close>

definition DeriveReplicationSessionKey :: "crypto \<Rightarrow> string \<Rightarrow> string \<Rightarrow> string option" where
  "DeriveReplicationSessionKey K sharedSecret handshakeNonce =
     hkdf K sharedSecret handshakeNonce ''iedb-replication-session:'' 32"

definition ReplicationEntryTagLen :: nat where "ReplicationEntryTagLen = 8"

text \<open>\<open>binary.BigEndian.PutUint64\<close>.\<close>

definition PutUint64 :: "u64 \<Rightarrow> string" where
  "PutUint64 w = map (\<lambda>i. char_of (unat (drop_bit (8 * i) w) :: nat)) [7, 6, 5, 4, 3, 2, 1, 0]"

definition ComputeReplicationEntryTagFromHash :: "crypto \<Rightarrow> string \<Rightarrow> u64 \<Rightarrow> string \<Rightarrow> string" where
  "ComputeReplicationEntryTagFromHash K sessionKey sequence payloadHash =
     take ReplicationEntryTagLen
       (hmac_sha256 K sessionKey (''entry-frame:'' @ PutUint64 sequence @ take 8 payloadHash))"

definition ComputeReplicationEntryTag :: "crypto \<Rightarrow> string \<Rightarrow> u64 \<Rightarrow> string \<Rightarrow> string" where
  "ComputeReplicationEntryTag K sessionKey sequence payload =
     ComputeReplicationEntryTagFromHash K sessionKey sequence (sha256 K payload)"

datatype tag_error = WrongTagLength nat | TagMismatch

definition ValidateReplicationEntryTag :: "crypto \<Rightarrow> string \<Rightarrow> u64 \<Rightarrow> string \<Rightarrow> string \<Rightarrow> tag_error option" where
  "ValidateReplicationEntryTag K sessionKey sequence payload receivedTag =
     (if length receivedTag \<noteq> ReplicationEntryTagLen then Some (WrongTagLength (length receivedTag))
      else if ComputeReplicationEntryTagFromHash K sessionKey sequence (sha256 K payload) = receivedTag then None
      else Some TagMismatch)"

section \<open>The replay cache\<close>

definition nonceCacheEvictInterval :: int where
  "nonceCacheEvictInterval = 60 * 1000000000"

record nonce_cache =
  nc_entries :: "string \<rightharpoonup> int"
  nc_ttl :: int
  nc_lastEvict :: int

definition NewNonceCache :: "int \<Rightarrow> int \<Rightarrow> nonce_cache" where
  "NewNonceCache ttl now = \<lparr>nc_entries = Map.empty, nc_ttl = ttl, nc_lastEvict = now\<rparr>"

definition evictExpiredLocked :: "int \<Rightarrow> nonce_cache \<Rightarrow> nonce_cache" where
  "evictExpiredLocked now nc =
     nc\<lparr>nc_entries := (\<lambda>k. case nc_entries nc k of None \<Rightarrow> None | Some expiry \<Rightarrow> if now \<ge> expiry then None else Some expiry)\<rparr>"

definition nonce_key :: "string \<Rightarrow> string \<Rightarrow> string" where
  "nonce_key nodeID nonce = nodeID @ CHR 0x00 # nonce"

definition Track :: "int \<Rightarrow> string \<Rightarrow> string \<Rightarrow> nonce_cache \<Rightarrow> bool \<times> nonce_cache" where
  "Track now nodeID nonce nc =
     (let key = nonce_key nodeID nonce; expiry = now + nc_ttl nc;
          replay = (case nc_entries nc key of Some existingExpiry \<Rightarrow> now < existingExpiry | None \<Rightarrow> False)
      in if replay then (False, nc)
         else let nc1 = nc\<lparr>nc_entries := (nc_entries nc)(key \<mapsto> expiry)\<rparr>
              in if now - nc_lastEvict nc > nonceCacheEvictInterval
                 then (True, (evictExpiredLocked now nc1)\<lparr>nc_lastEvict := now\<rparr>)
                 else (True, nc1))"

definition Len :: "nonce_cache \<Rightarrow> nat" where
  "Len nc = card (dom (nc_entries nc))"

section \<open>What a MAC binds\<close>

text \<open>
  The messages whose canonical form begins with a label: the handshake messages, the cache
  invalidation, and the two of the replication stream, with their MACs.
\<close>

datatype signed =
    Handshake msg_type string string string int64
  | CacheInvalidation string string string int64
  | SyncRequest string string string u64 int64
  | Checkpoint string string string string u64 int64

fun mac_of :: "crypto \<Rightarrow> string \<Rightarrow> signed \<Rightarrow> string" where
  "mac_of K secret (Handshake mt n i c t) = ComputeHMAC K secret mt n i c t"
| "mac_of K secret (CacheInvalidation n i c t) = ComputeCacheInvalidateHMAC K secret n i c t"
| "mac_of K secret (SyncRequest n i c s t) = ComputeReplicateSyncHMAC K secret n i c s t"
| "mac_of K secret (Checkpoint n i c h s t) = ComputeReplicationCheckpointHMAC K secret n i c h s t"

fun fields_of :: "signed \<Rightarrow> string list" where
  "fields_of (Handshake mt n i c t) = [msg_label mt, n, i, c, show_int t]"
| "fields_of (CacheInvalidation n i c t) = [''cache-invalidate'', n, i, c, show_int t]"
| "fields_of (SyncRequest n i c s t) = [''replicate-sync'', n, i, c, show_nat (unat s), show_int t]"
| "fields_of (Checkpoint n i c h s t) =
     [''replicate-checkpoint'', n, i, c, EncodeToString h, show_nat (unat s), show_int t]"

definition nul_free :: "signed \<Rightarrow> bool" where
  "nul_free m \<longleftrightarrow> (\<forall>x\<in>set (fields_of m). CHR 0x00 \<notin> set x)"

lemmas compute_defs = ComputeHMAC_def computeJoinFamilyHMACRaw_def ComputeFetchHMAC_def computeFetchHMACRaw_def
  ComputeForwardHMAC_def computeForwardHMACRaw_def ComputeCacheInvalidateHMAC_def computeCacheInvalidateHMACRaw_def
  ComputeReplicateSyncHMAC_def computeReplicateSyncHMACRaw_def ComputeReplicationCheckpointHMAC_def
  computeReplicationCheckpointHMACRaw_def computeRawHMAC_def

lemma mac_of_fields: "mac_of K secret m = EncodeToString (hmac_sha256 K secret (nul_join (fields_of m)))"
  by (cases m) (simp_all add: compute_defs)

lemma msg_label_inj [simp]: "msg_label a = msg_label b \<longleftrightarrow> a = b"
  by (cases a; cases b) simp_all

lemma msg_label_other [simp]:
  "msg_label a \<noteq> ''cache-invalidate''" "msg_label a \<noteq> ''replicate-sync''" "msg_label a \<noteq> ''replicate-checkpoint''"
  "''cache-invalidate'' \<noteq> msg_label a" "''replicate-sync'' \<noteq> msg_label a" "''replicate-checkpoint'' \<noteq> msg_label a"
  by (cases a; simp)+

lemma fields_of_inj: "fields_of a = fields_of b \<Longrightarrow> a = b"
  by (cases a; cases b) (simp_all add: word_unat_eq_iff)

lemma fields_of_Cons: "\<exists>x xs. fields_of m = x # xs"
  by (cases m) simp_all

text \<open>
  The labels separate the messages.  If HMAC-SHA-256 has no collisions under the shared
  secret, two labelled messages whose fields contain no NUL byte have the same MAC only if they are
  the same message: a MAC binds the kind of the message and every field of it.
\<close>

theorem labelled_macs_distinct:
  assumes "inj (hmac_sha256 K secret)" and "nul_free a" and "nul_free b"
  shows "mac_of K secret a = mac_of K secret b \<longleftrightarrow> a = b"
proof
  assume "mac_of K secret a = mac_of K secret b"
  then have "nul_join (fields_of a) = nul_join (fields_of b)"
    using assms(1) by (simp add: mac_of_fields inj_eq)
  moreover obtain x xs y ys where "fields_of a = x # xs" "fields_of b = y # ys"
    using fields_of_Cons [of a] fields_of_Cons [of b] by blast
  ultimately have "fields_of a = fields_of b"
    using nul_join_inj [of x xs y ys] assms(2,3) by (simp add: nul_free_def)
  then show "a = b" by (rule fields_of_inj)
qed simp

text \<open>
  Without labels they do not.  The message of a fetch request has the same layout as that of a
  forwarded command: the MAC of a fetch request for a path that is the digest of a command is a MAC
  of that command, and the MACs of join, leave and heartbeat messages and of cache invalidations
  are MACs of fetch requests.
\<close>

theorem fetch_macs_collide:
  "ComputeFetchHMAC K secret nonce nodeID clusterName (EncodeToString (sha256 K payload)) ts =
     ComputeForwardHMAC K secret nonce nodeID clusterName payload ts \<and>
   ComputeHMAC K secret mt nonce nodeID clusterName ts =
     ComputeFetchHMAC K secret (msg_label mt) nonce nodeID clusterName ts \<and>
   ComputeCacheInvalidateHMAC K secret nonce nodeID clusterName ts =
     ComputeFetchHMAC K secret ''cache-invalidate'' nonce nodeID clusterName ts"
  by (simp add: compute_defs)

text \<open>A validator accepts exactly the MAC that its message has, hexadecimal digits of either case.\<close>

lemma constantTimeHexEqual_iff: "constantTimeHexEqual raw hex \<longleftrightarrow> DecodeString hex = Some raw"
  by (auto simp: constantTimeHexEqual_def split: option.split)

lemma check_mac_ok:
  "check_mac raw hex ts tol clock = None \<longleftrightarrow> check_freshness ts tol clock = None \<and> DecodeString hex = Some raw"
  by (auto simp: check_mac_def constantTimeHexEqual_iff split: option.split)

section \<open>The window of freshness\<close>

lemma wrap64_id: "- (2 ^ 63) \<le> x \<Longrightarrow> x < 2 ^ 63 \<Longrightarrow> wrap64 x = x"
  unfolding wrap64_def sint_sbintrunc' by (rule signed_take_bit_int_eq_self) simp_all

lemma wrap64_high: "2 ^ 63 \<le> x \<Longrightarrow> x < 2 ^ 64 + 2 ^ 63 \<Longrightarrow> wrap64 x = x - 2 ^ 64"
proof -
  assume x: "2 ^ 63 \<le> x" "x < 2 ^ 64 + 2 ^ 63"
  have "(word_of_int x :: 64 word) = word_of_int (x - 2 ^ 64)"
    by (simp add: word_of_int_eq_iff take_bit_eq_mod)
  then have "wrap64 x = wrap64 (x - 2 ^ 64)" by (simp only: wrap64_def)
  also have "\<dots> = x - 2 ^ 64" using x by (intro wrap64_id) simp_all
  finally show ?thesis .
qed

text \<open>
  A timestamp is accepted when it is within the tolerance of the clock, and when it lies exactly
  \<open>2 ^ 63\<close> seconds before it, where the drift overflows.
\<close>

lemma check_freshness_iff:
  fixes clock ts tol :: int
  defines "now \<equiv> clock div 1000000000"
  assumes now: "0 \<le> now" "now < 2 ^ 62" and ts: "- (2 ^ 63) \<le> ts" "ts < 2 ^ 63"
    and tol: "0 \<le> tol div 1000000000" "tol div 1000000000 < 2 ^ 62"
  shows "check_freshness ts tol clock = None \<longleftrightarrow> \<bar>now - ts\<bar> \<le> tol div 1000000000 \<or> now - ts = 2 ^ 63"
proof (cases "now - ts < 2 ^ 63")
  case True
  then have "wrap64 (now - ts) = now - ts" "now - ts < 0 \<Longrightarrow> wrap64 (ts - now) = ts - now"
    using now ts by (simp_all add: wrap64_id)
  with True show ?thesis by (auto simp: check_freshness_def Let_def now_def)
next
  case False
  then have w: "wrap64 (now - ts) = now - ts - 2 ^ 64" using now ts by (intro wrap64_high) simp_all
  show ?thesis
  proof (cases "now - ts = 2 ^ 63")
    case True
    then have "wrap64 (- (now - ts - 2 ^ 64)) = - (2 ^ 63)" by (simp add: wrap64_def)
    with w True tol show ?thesis by (simp add: check_freshness_def Let_def now_def)
  next
    case neq: False
    with False now ts have "wrap64 (- (now - ts - 2 ^ 64)) = 2 ^ 64 - (now - ts)"
      by (subst wrap64_id) simp_all
    with w neq False now ts tol show ?thesis by (simp add: check_freshness_def Let_def now_def)
  qed
qed

section \<open>The cache forgets nothing that matters\<close>

text \<open>
  The cache after accepting the nonces of the log \<open>H\<close> (keys with the times of acceptance), at time
  \<open>u\<close>: it has the latest acceptance of every key, except of those that are past their time.
\<close>

definition remembers :: "(string \<times> int) list \<Rightarrow> int \<Rightarrow> nonce_cache \<Rightarrow> bool" where
  "remembers H u nc \<longleftrightarrow>
     (\<forall>k. (\<forall>x. nc_entries nc k = Some x \<longrightarrow>
              (\<exists>v. x = v + nc_ttl nc \<and> (k, v) \<in> set H \<and> (\<forall>w. (k, w) \<in> set H \<longrightarrow> w \<le> v))) \<and>
          (nc_entries nc k = None \<longrightarrow> (\<forall>w. (k, w) \<in> set H \<longrightarrow> w + nc_ttl nc \<le> u))) \<and>
     (\<forall>k w. (k, w) \<in> set H \<longrightarrow> w \<le> u)"

lemma remembers_evict:
  assumes "remembers H u nc"
  shows "remembers H u (evictExpiredLocked u nc)"
  unfolding remembers_def
proof (intro conjI allI impI)
  fix k x w
  show "nc_entries (evictExpiredLocked u nc) k = Some x \<Longrightarrow>
      \<exists>v. x = v + nc_ttl (evictExpiredLocked u nc) \<and> (k, v) \<in> set H \<and> (\<forall>w. (k, w) \<in> set H \<longrightarrow> w \<le> v)"
    using assms by (auto simp: remembers_def evictExpiredLocked_def split: option.splits if_splits)
  show "w \<le> u" if "(k, w) \<in> set H" using assms that by (auto simp: remembers_def)
  show "w + nc_ttl (evictExpiredLocked u nc) \<le> u"
    if none: "nc_entries (evictExpiredLocked u nc) k = None" and mem: "(k, w) \<in> set H"
  proof (cases "nc_entries nc k")
    case None
    with assms mem show ?thesis by (simp add: remembers_def evictExpiredLocked_def)
  next
    case (Some x)
    with none have "x \<le> u" by (simp add: evictExpiredLocked_def split: if_splits)
    moreover have "w + nc_ttl nc \<le> x" using assms Some mem by (fastforce simp: remembers_def)
    ultimately show ?thesis by (simp add: evictExpiredLocked_def)
  qed
qed

lemma remembers_add:
  assumes "remembers H u nc" and "u \<le> t"
  shows "remembers ((k, t) # H) t (nc\<lparr>nc_entries := (nc_entries nc)(k \<mapsto> t + nc_ttl nc)\<rparr>)"
  using assms unfolding remembers_def by (auto intro: order_trans split: if_splits) fastforce+

lemma remembers_later: "remembers H u nc \<Longrightarrow> u \<le> t \<Longrightarrow> remembers H t nc"
  unfolding remembers_def by (meson order_trans)

lemma remembers_lastEvict [simp]: "remembers H u (nc\<lparr>nc_lastEvict := x\<rparr>) = remembers H u nc"
  by (simp add: remembers_def)

lemma Track_remembers:
  assumes "remembers H u nc" and "u \<le> t"
  shows "fst (Track t nodeID nonce nc) \<longleftrightarrow>
           (\<forall>w. (nonce_key nodeID nonce, w) \<in> set H \<longrightarrow> w + nc_ttl nc \<le> t)"
    and "remembers (if fst (Track t nodeID nonce nc) then (nonce_key nodeID nonce, t) # H else H) t
           (snd (Track t nodeID nonce nc))"
    and "nc_ttl (snd (Track t nodeID nonce nc)) = nc_ttl nc"
proof -
  let ?k = "nonce_key nodeID nonce"
  show "nc_ttl (snd (Track t nodeID nonce nc)) = nc_ttl nc"
    by (simp add: Track_def Let_def evictExpiredLocked_def)
  show dec: "fst (Track t nodeID nonce nc) \<longleftrightarrow> (\<forall>w. (?k, w) \<in> set H \<longrightarrow> w + nc_ttl nc \<le> t)"
  proof (cases "nc_entries nc ?k")
    case None
    then show ?thesis using assms by (auto simp: Track_def Let_def remembers_def intro: order_trans)
  next
    case (Some x)
    then obtain v where v: "x = v + nc_ttl nc" "(?k, v) \<in> set H" "\<And>w. (?k, w) \<in> set H \<Longrightarrow> w \<le> v"
      using assms(1) unfolding remembers_def by blast
    have "fst (Track t nodeID nonce nc) \<longleftrightarrow> x \<le> t" using Some by (auto simp: Track_def Let_def)
    with v show ?thesis by fastforce
  qed
  show "remembers (if fst (Track t nodeID nonce nc) then (?k, t) # H else H) t (snd (Track t nodeID nonce nc))"
  proof (cases "fst (Track t nodeID nonce nc)")
    case True
    let ?nc = "nc\<lparr>nc_entries := (nc_entries nc)(?k \<mapsto> t + nc_ttl nc)\<rparr>"
    have "snd (Track t nodeID nonce nc) = (if t - nc_lastEvict nc > nonceCacheEvictInterval
        then (evictExpiredLocked t ?nc)\<lparr>nc_lastEvict := t\<rparr> else ?nc)"
      using True by (simp add: Track_def Let_def split: if_splits)
    with True remembers_add [OF assms, of ?k] show ?thesis by (simp add: remembers_evict)
  next
    case False
    then have "snd (Track t nodeID nonce nc) = nc" by (auto simp: Track_def Let_def split: if_splits)
    with False remembers_later [OF assms] show ?thesis by simp
  qed
qed

text \<open>A run of the cache, and the specification: a log of all accepted nonces.\<close>

fun track_decisions :: "(int \<times> string \<times> string) list \<Rightarrow> nonce_cache \<Rightarrow> bool list" where
  "track_decisions [] nc = []"
| "track_decisions ((t, nodeID, nonce) # cs) nc =
     (case Track t nodeID nonce nc of (ok, nc') \<Rightarrow> ok # track_decisions cs nc')"

fun nonce_log_decisions :: "int \<Rightarrow> (string \<times> int) list \<Rightarrow> (int \<times> string \<times> string) list \<Rightarrow> bool list" where
  "nonce_log_decisions ttl H [] = []"
| "nonce_log_decisions ttl H ((t, nodeID, nonce) # cs) =
     (let ok = (\<forall>e\<in>set H. fst e = nonce_key nodeID nonce \<longrightarrow> snd e + ttl \<le> t)
      in ok # nonce_log_decisions ttl (if ok then (nonce_key nodeID nonce, t) # H else H) cs)"

lemma track_log:
  "remembers H u nc \<Longrightarrow> sorted (u # map fst cs) \<Longrightarrow> track_decisions cs nc = nonce_log_decisions (nc_ttl nc) H cs"
proof (induction cs arbitrary: H u nc)
  case Nil
  then show ?case by simp
next
  case (Cons c cs)
  obtain t nodeID nonce where c: "c = (t, nodeID, nonce)" by (cases c)
  note T = Track_remembers [OF Cons.prems(1), of t nodeID nonce]
  have t: "u \<le> t" "sorted (t # map fst cs)" using Cons.prems(2) c by simp_all
  have ok: "fst (Track t nodeID nonce nc) = (\<forall>e\<in>set H. fst e = nonce_key nodeID nonce \<longrightarrow> snd e + nc_ttl nc \<le> t)"
    using T(1) t(1) by force
  from Cons.IH [OF T(2) [OF t(1)] t(2)] T(3) t(1) show ?case
    unfolding c by (simp add: case_prod_beta Let_def ok)
qed

text \<open>
  C11. Lazy eviction is not observable: while the clock does not go back, the cache accepts and
  refuses the nonces of any number of nodes exactly as a log would that never forgets one, in which
  a nonce may be used again when the time to live has passed since it was last accepted.
\<close>

theorem nonce_cache_refines_log:
  assumes "sorted (t0 # map fst cs)"
  shows "track_decisions cs (NewNonceCache ttl t0) = nonce_log_decisions ttl [] cs"
  using track_log [OF _ assms, of "[]" "NewNonceCache ttl t0"] by (simp add: remembers_def NewNonceCache_def)

theorem labelled_macs_distinct_witness:
  "mac_of \<lparr>hmac_sha256 = \<lambda>k m. m, sha256 = \<lambda>m. m, hkdf = \<lambda>s n i l. None\<rparr> ''key'' (Handshake MsgTypeLeave ''n'' ''i'' ''c'' 1) \<noteq>
   mac_of \<lparr>hmac_sha256 = \<lambda>k m. m, sha256 = \<lambda>m. m, hkdf = \<lambda>s n i l. None\<rparr> ''key'' (Handshake MsgTypeHeartbeat ''n'' ''i'' ''c'' 1)"
  by (subst labelled_macs_distinct) (simp_all add: inj_def nul_free_def)

theorem nonce_cache_refines_log_witness:
  "track_decisions [(0, ''a'', ''x''), (5, ''a'', ''x''), (10, ''a'', ''x'')] (NewNonceCache 10 0) = [True, False, True]"
  by (subst nonce_cache_refines_log) (simp_all add: Let_def)

end
