(* ===== verification/Cluster_Forward.thy ===== *)
theory Cluster_Forward
  imports Cluster_Auth FSM_Apply
begin

text \<open>
  Forwarding a command to the Raft leader: the roles of nodes (\<^verbatim>\<open>internal/cluster/role.go\<close>), the
  request a follower signs and the handler of the leader (\<^verbatim>\<open>internal/cluster/forward_apply.go\<close>).
  Decoding the JSON of a command, the registry, leadership and Raft itself are parameters; the
  handler's calls of \<open>Node.Apply\<close> are recorded.  A handler runs as one step.
\<close>

section \<open>Roles\<close>

definition RoleStandalone :: string where "RoleStandalone = ''standalone''"
definition RoleWriter :: string where "RoleWriter = ''writer''"
definition RoleReader :: string where "RoleReader = ''reader''"
definition RoleCompactor :: string where "RoleCompactor = ''compactor''"

lemmas role_defs = RoleStandalone_def RoleWriter_def RoleReader_def RoleCompactor_def

record role_capabilities =
  CanIngest :: bool
  CanQuery :: bool
  CanCompact :: bool
  CanCoordinate :: bool

definition GetCapabilities :: "string \<Rightarrow> role_capabilities" where
  "GetCapabilities r =
     (if r = RoleWriter then \<lparr>CanIngest = True, CanQuery = True, CanCompact = False, CanCoordinate = True\<rparr>
      else if r = RoleReader then \<lparr>CanIngest = False, CanQuery = True, CanCompact = False, CanCoordinate = False\<rparr>
      else if r = RoleCompactor then \<lparr>CanIngest = False, CanQuery = False, CanCompact = True, CanCoordinate = False\<rparr>
      else if r = RoleStandalone then \<lparr>CanIngest = True, CanQuery = True, CanCompact = True, CanCoordinate = False\<rparr>
      else \<lparr>CanIngest = False, CanQuery = False, CanCompact = False, CanCoordinate = False\<rparr>)"

definition IsValid :: "string \<Rightarrow> bool" where
  "IsValid r \<longleftrightarrow> r = RoleStandalone \<or> r = RoleWriter \<or> r = RoleReader \<or> r = RoleCompactor"

definition ParseRole :: "string \<Rightarrow> string" where
  "ParseRole role = (if role = [] then RoleStandalone else if IsValid role then role else RoleStandalone)"

definition AllRoles :: "string list" where
  "AllRoles = [RoleStandalone, RoleWriter, RoleReader, RoleCompactor]"

section \<open>Requests and acknowledgements\<close>

record forward_request =
  fr_CommandJSON :: string
  fr_NodeID :: string
  fr_Nonce :: string
  fr_Timestamp :: int64
  fr_HMAC :: string

datatype forward_code =
  ForwardCodeAuth | ForwardCodeRaftUnavailable | ForwardCodeNotLeader | ForwardCodeInvalidCommand | ForwardCodeApplyFailed

datatype forward_ack = AckOK | AckError forward_code string

text \<open>The request a follower sends for a marshalled command.\<close>

definition build_forward_request :: "crypto \<Rightarrow> string \<Rightarrow> string \<Rightarrow> string \<Rightarrow> string \<Rightarrow> int \<Rightarrow> string \<Rightarrow> forward_request" where
  "build_forward_request K sharedSecret clusterName localID nonce clock cmdJSON =
     (let ts = clock div 1000000000
      in \<lparr>fr_CommandJSON = cmdJSON, fr_NodeID = localID, fr_Nonce = nonce, fr_Timestamp = ts,
          fr_HMAC = ComputeForwardHMAC K sharedSecret nonce localID clusterName cmdJSON ts\<rparr>)"

section \<open>The handler of the leader\<close>

text \<open>
  The Raft node of a coordinator: whether it leads, and the outcome of \<open>Node.Apply\<close> (an error
  text, or none).  The registry gives the role of a known node.
\<close>

record raft_node =
  rn_IsLeader :: bool
  rn_Apply :: "command \<Rightarrow> string option"

record coordinator =
  co_SharedSecret :: string
  co_ClusterName :: string
  co_nonceCache :: "nonce_cache option"
  co_raftNode :: "raft_node option"
  co_registry :: "string \<rightharpoonup> string"

fun is_manifest_command :: "command \<Rightarrow> bool" where
  "is_manifest_command (RegisterFile _) = True"
| "is_manifest_command (DeleteFile _) = True"
| "is_manifest_command (BatchFileOps _) = True"
| "is_manifest_command _ = False"

fun is_auth_command :: "command \<Rightarrow> bool" where
  "is_auth_command (CreateToken _) = True"
| "is_auth_command (UpdateToken _) = True"
| "is_auth_command (RevokeToken _) = True"
| "is_auth_command (DeleteToken _) = True"
| "is_auth_command (RotateToken _) = True"
| "is_auth_command _ = False"

fun is_rbac_command :: "command \<Rightarrow> bool" where
  "is_rbac_command (CreateOrganization _) = True"
| "is_rbac_command (UpdateOrganization _) = True"
| "is_rbac_command (DeleteOrganization _) = True"
| "is_rbac_command (CreateTeam _) = True"
| "is_rbac_command (UpdateTeam _) = True"
| "is_rbac_command (DeleteTeam _) = True"
| "is_rbac_command (CreateRole _) = True"
| "is_rbac_command (UpdateRole _) = True"
| "is_rbac_command (DeleteRole _) = True"
| "is_rbac_command (CreateMeasurementPermission _) = True"
| "is_rbac_command (DeleteMeasurementPermission _) = True"
| "is_rbac_command (AddTokenToTeam _) = True"
| "is_rbac_command (RemoveTokenFromTeam _) = True"
| "is_rbac_command _ = False"

text \<open>The replay check; without a cache nothing is a replay.\<close>

definition track_nonce :: "int \<Rightarrow> forward_request \<Rightarrow> coordinator \<Rightarrow> bool \<times> coordinator" where
  "track_nonce clock req c =
     (case co_nonceCache c of
        None \<Rightarrow> (True, c)
      | Some nc \<Rightarrow> (case Track clock (fr_NodeID req) (fr_Nonce req) nc of
          (ok, nc') \<Rightarrow> (ok, c\<lparr>co_nonceCache := Some nc'\<rparr>)))"

text \<open>The checks of the decoded command against the capabilities of the sender.\<close>

definition command_allowed :: "role_capabilities \<Rightarrow> command \<Rightarrow> forward_ack option" where
  "command_allowed caps cmd =
     (if \<not> is_manifest_command cmd \<and> \<not> is_auth_command cmd \<and> \<not> is_rbac_command cmd
      then Some (AckError ForwardCodeInvalidCommand ''command type not allowed via forwarding'')
      else if is_manifest_command cmd \<and> \<not> CanIngest caps \<and> \<not> CanCompact caps
      then Some (AckError ForwardCodeAuth ''unauthorized role'')
      else None)"

text \<open>The clock is read by the HMAC validation and by the replay check.\<close>

definition handleForwardApply ::
  "crypto \<Rightarrow> (string \<Rightarrow> command option) \<Rightarrow> (nat \<Rightarrow> int) \<Rightarrow> forward_request \<Rightarrow> coordinator \<Rightarrow>
   forward_ack \<times> command list \<times> coordinator" where
  "handleForwardApply K decode clock req c =
     (if co_SharedSecret c = [] then (AckError ForwardCodeAuth ''leader has no shared_secret configured'', [], c)
      else if ValidateForwardHMAC K (co_SharedSecret c) (fr_Nonce req) (fr_NodeID req) (co_ClusterName c)
                (fr_CommandJSON req) (fr_Timestamp req) (fr_HMAC req) HMACTimestampTolerance (clock 0) \<noteq> None
      then (AckError ForwardCodeAuth ''authentication failed'', [], c)
      else (case track_nonce (clock 1) req c of
        (False, c1) \<Rightarrow> (AckError ForwardCodeAuth ''nonce replay'', [], c1)
      | (True, c1) \<Rightarrow>
          (case co_raftNode c1 of
             None \<Rightarrow> (AckError ForwardCodeRaftUnavailable ''raft not initialized'', [], c1)
           | Some raft \<Rightarrow>
               (case co_registry c1 (fr_NodeID req) of
                  None \<Rightarrow> (AckError ForwardCodeAuth ''unknown node'', [], c1)
                | Some role \<Rightarrow>
                    if \<not> rn_IsLeader raft then (AckError ForwardCodeNotLeader ''not the current leader'', [], c1)
                    else (case decode (fr_CommandJSON req) of
                      None \<Rightarrow> (AckError ForwardCodeInvalidCommand ''invalid command'', [], c1)
                    | Some cmd \<Rightarrow>
                        (case command_allowed (GetCapabilities role) cmd of
                           Some refusal \<Rightarrow> (refusal, [], c1)
                         | None \<Rightarrow>
                             (case rn_Apply raft cmd of
                                Some e \<Rightarrow> (AckError ForwardCodeApplyFailed e, [cmd], c1)
                              | None \<Rightarrow> (AckOK, [cmd], c1))))))))"

section \<open>What is applied\<close>

lemma passed_pair: "fst p \<Longrightarrow> \<exists>c. p = (True, c)"
  by (cases p) simp

lemma track_nonce_frame [simp]:
  "co_registry (snd (track_nonce t req c)) = co_registry c" "co_raftNode (snd (track_nonce t req c)) = co_raftNode c"
  "co_SharedSecret (snd (track_nonce t req c)) = co_SharedSecret c"
  "co_ClusterName (snd (track_nonce t req c)) = co_ClusterName c"
  by (simp_all add: track_nonce_def case_prod_beta split: option.split)

definition authorised :: "string \<Rightarrow> command \<Rightarrow> bool" where
  "authorised role cmd \<longleftrightarrow> is_auth_command cmd \<or> is_rbac_command cmd \<or>
     is_manifest_command cmd \<and> (CanIngest (GetCapabilities role) \<or> CanCompact (GetCapabilities role))"

lemma kinds_disjoint: "is_manifest_command cmd \<Longrightarrow> \<not> is_auth_command cmd \<and> \<not> is_rbac_command cmd"
  by (cases cmd) simp_all

lemma command_allowed_None: "command_allowed (GetCapabilities role) cmd = None \<longleftrightarrow> authorised role cmd"
  using kinds_disjoint [of cmd] by (auto simp: command_allowed_def authorised_def)

text \<open>Exactly when a request is applied.\<close>

lemma handleForwardApply_applies:
  "fst (snd (handleForwardApply K decode clock req c)) = [cmd] \<longleftrightarrow>
     co_SharedSecret c \<noteq> [] \<and>
     ValidateForwardHMAC K (co_SharedSecret c) (fr_Nonce req) (fr_NodeID req) (co_ClusterName c)
       (fr_CommandJSON req) (fr_Timestamp req) (fr_HMAC req) HMACTimestampTolerance (clock 0) = None \<and>
     fst (track_nonce (clock 1) req c) \<and>
     (\<exists>raft role. co_raftNode c = Some raft \<and> rn_IsLeader raft \<and> co_registry c (fr_NodeID req) = Some role \<and>
        decode (fr_CommandJSON req) = Some cmd \<and> authorised role cmd)"
  using track_nonce_frame [of "clock 1" req c]
  by (auto simp: handleForwardApply_def case_prod_beta command_allowed_None [symmetric] split: option.splits bool.splits
      simp del: track_nonce_frame)

text \<open>No forwarded command touches the nodes, and only a manifest command touches the manifest.\<close>

lemma not_manifest_frame:
  "authorised role cmd \<Longrightarrow> \<not> is_manifest_command cmd \<Longrightarrow> other_view (st (Apply R (Some cmd) i f)) = other_view f"
  by (cases cmd) (simp_all add: authorised_def Apply_def token_handlers_frame rbac_handlers_frame)

lemma manifest_frame:
  "is_manifest_command cmd \<Longrightarrow> nodes_view (st (Apply R (Some cmd) i f)) = nodes_view f"
  by (cases cmd) (simp_all add: Apply_def file_handlers_frame)

lemma authorised_frame:
  assumes "authorised role cmd"
  shows "nodes_view (st (Apply R (Some cmd) i f)) = nodes_view f"
    and "CanIngest (GetCapabilities role) \<or> CanCompact (GetCapabilities role) \<or>
         manifest_view (st (Apply R (Some cmd) i f)) = manifest_view f"
  using manifest_frame [of cmd R i f] not_manifest_frame [OF assms, of R i f] kinds_disjoint [of cmd] assms
  by (auto simp: other_view_def authorised_def)

text \<open>
  C12. A forwarded request cannot change more than its sender may.  Whatever the request says, the
  leader applies at most one command; it is one of a node in the registry; applied to the cluster
  state it leaves all nodes and the writer and compactor assignments alone, and unless the sender's
  role may ingest or compact it leaves the file manifest alone too.
\<close>

theorem forwarded_commands_confined:
  assumes "cmd \<in> set (fst (snd (handleForwardApply K decode clock req c)))"
  shows "fst (snd (handleForwardApply K decode clock req c)) = [cmd] \<and>
         nodes_view (st (Apply R (Some cmd) i f)) = nodes_view f \<and>
         (\<exists>role. co_registry c (fr_NodeID req) = Some role \<and>
            (CanIngest (GetCapabilities role) \<or> CanCompact (GetCapabilities role) \<or>
             manifest_view (st (Apply R (Some cmd) i f)) = manifest_view f))"
proof -
  have one: "fst (snd (handleForwardApply K decode clock req c)) = [cmd]"
    using assms by (auto simp: handleForwardApply_def case_prod_beta split: if_splits option.splits bool.splits)
  then obtain role where role: "co_registry c (fr_NodeID req) = Some role" "authorised role cmd"
    unfolding handleForwardApply_applies by blast
  with one show ?thesis
    using authorised_frame [OF role(2)] by blast
qed

text \<open>
  A follower cannot update a file: \<open>UpdateFileInManifest\<close> forwards an \<open>UpdateFile\<close> command as
  the other manifest operations do, and the leader refuses every request with such a command.
\<close>

theorem forwarded_update_file_refused:
  "let (ack, cmds, c') = handleForwardApply K (\<lambda>_. Some (UpdateFile p)) clock req c in cmds = [] \<and> ack \<noteq> AckOK"
  by (auto simp: handleForwardApply_def command_allowed_def split: option.split prod.split bool.split)

section \<open>Liveness\<close>

lemma fresh_within:
  assumes "0 \<le> clock div 1000000000" and "clock div 1000000000 < 2 ^ 62"
    and "\<bar>clock div 1000000000 - ts\<bar> \<le> 300" and "0 \<le> ts"
  shows "check_freshness ts HMACTimestampTolerance clock = None"
proof -
  have "ts < 2 ^ 63" using assms(2,3) by simp
  then show ?thesis
    using check_freshness_iff [OF assms(1,2), of ts HMACTimestampTolerance] assms(3,4)
    by (simp add: HMACTimestampTolerance_def)
qed

text \<open>
  An honest follower gets through: when its clock and the leader's are within 300 seconds of
  each other, its nonce is not in the cache and the leader has not lost the leadership, the request
  it builds for a command it may send is applied, and acknowledged with the outcome.
\<close>

theorem honest_forward_applied:
  assumes "co_SharedSecret c \<noteq> []" and "req = build_forward_request K (co_SharedSecret c) (co_ClusterName c) nodeID nonce t json"
    and "0 \<le> clock 0 div 1000000000" and "clock 0 div 1000000000 < 2 ^ 62"
    and "\<bar>clock 0 div 1000000000 - t div 1000000000\<bar> \<le> 300" and "0 \<le> t"
    and "\<forall>nc. co_nonceCache c = Some nc \<longrightarrow> nc_entries nc (nonce_key nodeID nonce) = None"
    and "co_raftNode c = Some raft" and "rn_IsLeader raft"
    and "co_registry c nodeID = Some role" and "decode json = Some cmd" and "authorised role cmd"
  shows "fst (handleForwardApply K decode clock req c) =
           (case rn_Apply raft cmd of None \<Rightarrow> AckOK | Some e \<Rightarrow> AckError ForwardCodeApplyFailed e) \<and>
         fst (snd (handleForwardApply K decode clock req c)) = [cmd]"
proof -
  have req: "fr_NodeID req = nodeID" "fr_Nonce req = nonce" "fr_CommandJSON req = json"
    "fr_Timestamp req = t div 1000000000"
    "fr_HMAC req = ComputeForwardHMAC K (co_SharedSecret c) nonce nodeID (co_ClusterName c) json (t div 1000000000)"
    by (simp_all add: assms(2) build_forward_request_def Let_def)
  have "check_freshness (t div 1000000000) HMACTimestampTolerance (clock 0) = None"
    using fresh_within [OF assms(3-5)] assms(6) by (simp add: pos_imp_zdiv_nonneg_iff)
  then have valid: "ValidateForwardHMAC K (co_SharedSecret c) (fr_Nonce req) (fr_NodeID req) (co_ClusterName c)
      (fr_CommandJSON req) (fr_Timestamp req) (fr_HMAC req) HMACTimestampTolerance (clock 0) = None"
    unfolding ValidateForwardHMAC_def check_mac_ok req by (simp add: ComputeForwardHMAC_def)
  have track: "fst (track_nonce (clock 1) req c)"
    using assms(7) by (auto simp: track_nonce_def req Track_def Let_def case_prod_beta split: option.split)
  obtain c1 where c1: "track_nonce (clock 1) req c = (True, c1)" using track passed_pair by blast
  have "co_raftNode c1 = Some raft" "co_registry c1 nodeID = Some role"
    using track_nonce_frame(1,2) [of "clock 1" req c] assms(8,10) unfolding c1 by simp_all
  moreover have "command_allowed (GetCapabilities role) cmd = None"
    using assms(12) by (simp add: command_allowed_None)
  ultimately show ?thesis
    using valid assms(1,9,11) c1 by (simp add: handleForwardApply_def req split: option.split)
qed

section \<open>Replay\<close>

text \<open>The requests a run of the handler applies, each with the clock of its replay check.\<close>

fun applied_requests ::
  "crypto \<Rightarrow> (string \<Rightarrow> command option) \<Rightarrow> ((nat \<Rightarrow> int) \<times> forward_request) list \<Rightarrow> coordinator \<Rightarrow>
   (forward_request \<times> int) list" where
  "applied_requests K decode [] c = []"
| "applied_requests K decode ((clock, req) # rs) c =
     (case handleForwardApply K decode clock req c of
        (ack, cmds, c') \<Rightarrow> (if cmds = [] then [] else [(req, clock 1)]) @ applied_requests K decode rs c')"

definition req_key :: "forward_request \<Rightarrow> string" where
  "req_key r = nonce_key (fr_NodeID r) (fr_Nonce r)"

definition spaced :: "int \<Rightarrow> (forward_request \<times> int) \<Rightarrow> (forward_request \<times> int) \<Rightarrow> bool" where
  "spaced ttl a b \<longleftrightarrow> (req_key (fst a) = req_key (fst b) \<longrightarrow> snd a + ttl \<le> snd b)"

text \<open>The handler tracks the nonce of a request before it applies it.\<close>

lemma handle_remembers:
  assumes "remembers H u nc" and "u \<le> t" and "co_nonceCache c = Some nc" and "t = clock 1"
    and "r = handleForwardApply K decode clock req c"
  shows "\<exists>H' nc'. co_nonceCache (snd (snd r)) = Some nc' \<and> nc_ttl nc' = nc_ttl nc \<and> remembers H' t nc' \<and>
           set H \<subseteq> set H' \<and>
           (fst (snd r) \<noteq> [] \<longrightarrow> (req_key req, t) \<in> set H' \<and> (\<forall>w. (req_key req, w) \<in> set H \<longrightarrow> w + nc_ttl nc \<le> t))"
proof -
  let ?t = "Track t (fr_NodeID req) (fr_Nonce req) nc"
  have dec: "fst ?t \<Longrightarrow> \<forall>w. (req_key req, w) \<in> set H \<longrightarrow> w + nc_ttl nc \<le> t"
    and rem: "remembers (if fst ?t then (req_key req, t) # H else H) t (snd ?t)" and ttl: "nc_ttl (snd ?t) = nc_ttl nc"
    unfolding req_key_def using Track_remembers [OF assms(1,2), of "fr_NodeID req" "fr_Nonce req"] by blast+
  have tn: "track_nonce (clock 1) req c = (fst ?t, c\<lparr>co_nonceCache := Some (snd ?t)\<rparr>)"
    by (simp add: track_nonce_def assms(3,4) case_prod_beta)
  have "snd (snd r) = c \<and> fst (snd r) = [] \<or>
      co_nonceCache (snd (snd r)) = Some (snd ?t) \<and> (fst (snd r) \<noteq> [] \<longrightarrow> fst ?t)"
    unfolding assms(5) handleForwardApply_def tn by (auto split: option.split bool.split)
  then show ?thesis
  proof (elim disjE conjE)
    assume "snd (snd r) = c" "fst (snd r) = []"
    with assms(3) remembers_later [OF assms(1,2)] show ?thesis by (intro exI [of _ H] exI [of _ nc]) simp
  next
    assume r: "co_nonceCache (snd (snd r)) = Some (snd ?t)" "fst (snd r) \<noteq> [] \<longrightarrow> fst ?t"
    show ?thesis
    proof (intro exI conjI)
      show "co_nonceCache (snd (snd r)) = Some (snd ?t)" "nc_ttl (snd ?t) = nc_ttl nc" by (fact r(1), fact ttl)
      show "remembers (if fst ?t then (req_key req, t) # H else H) t (snd ?t)" by (fact rem)
    qed (use r(2) dec in auto)
  qed
qed

lemma applied_requests_spaced_from:
  assumes "remembers H u nc" and "co_nonceCache c = Some nc" and "sorted (u # map (\<lambda>(clock, req). clock 1) rs)"
  shows "sorted_wrt (spaced (nc_ttl nc)) (applied_requests K decode rs c) \<and>
         (\<forall>(r, t)\<in>set (applied_requests K decode rs c). \<forall>w. (req_key r, w) \<in> set H \<longrightarrow> w + nc_ttl nc \<le> t)"
  using assms
proof (induction rs arbitrary: H u nc c)
  case Nil
  then show ?case by simp
next
  case (Cons x rs)
  obtain clock req where x: "x = (clock, req)" by (cases x)
  let ?r = "handleForwardApply K decode clock req c"
  have t: "u \<le> clock 1" "sorted (clock 1 # map (\<lambda>(clock, req). clock 1) rs)"
    using Cons.prems(3) by (simp_all add: x)
  obtain H' nc' where h: "co_nonceCache (snd (snd ?r)) = Some nc'" "nc_ttl nc' = nc_ttl nc" "remembers H' (clock 1) nc'"
    "set H \<subseteq> set H'" "fst (snd ?r) \<noteq> [] \<Longrightarrow> (req_key req, clock 1) \<in> set H'"
    "fst (snd ?r) \<noteq> [] \<Longrightarrow> \<forall>w. (req_key req, w) \<in> set H \<longrightarrow> w + nc_ttl nc \<le> clock 1"
    using handle_remembers [where t = "clock 1" and clock = clock, OF Cons.prems(1) t(1) Cons.prems(2) refl refl, of K decode req] by blast
  have IH: "sorted_wrt (spaced (nc_ttl nc)) (applied_requests K decode rs (snd (snd ?r)))"
    "\<forall>(r, t)\<in>set (applied_requests K decode rs (snd (snd ?r))). \<forall>w. (req_key r, w) \<in> set H' \<longrightarrow> w + nc_ttl nc \<le> t"
    using Cons.IH [OF h(3,1) t(2)] unfolding h(2) by blast+
  have weaker: "\<forall>(r, t)\<in>set (applied_requests K decode rs (snd (snd ?r))). \<forall>w. (req_key r, w) \<in> set H \<longrightarrow> w + nc_ttl nc \<le> t"
    using IH(2) h(4) by (intro ballI, elim bspec [elim_format]) blast+
  have unfolded: "applied_requests K decode (x # rs) c =
      (if fst (snd ?r) = [] then [] else [(req, clock 1)]) @ applied_requests K decode rs (snd (snd ?r))"
    by (simp add: x case_prod_beta)
  show ?case
  proof (cases "fst (snd ?r) = []")
    case True
    with IH(1) weaker show ?thesis unfolding unfolded by simp
  next
    case False
    then have "\<forall>b\<in>set (applied_requests K decode rs (snd (snd ?r))). spaced (nc_ttl nc) (req, clock 1) b"
      using IH(2) h(5) by (auto simp: spaced_def)
    with False IH(1) weaker h(6) show ?thesis unfolding unfolded by simp
  qed
qed

text \<open>
  Replay protection.  Over any run of requests, as long as the clock does not go back, the
  leader applies two requests of the same node with the same nonce only if the time to live of the
  cache has passed between them.
\<close>

theorem replays_are_spaced:
  assumes "co_nonceCache c = Some (NewNonceCache ttl t0)"
    and "sorted (t0 # map (\<lambda>(clock, req). clock 1) rs)"
  shows "sorted_wrt (\<lambda>(r1, t1) (r2, t2). fr_NodeID r1 = fr_NodeID r2 \<and> fr_Nonce r1 = fr_Nonce r2 \<longrightarrow> t1 + ttl \<le> t2)
           (applied_requests K decode rs c)"
proof -
  have "remembers [] t0 (NewNonceCache ttl t0)" by (simp add: remembers_def NewNonceCache_def)
  from applied_requests_spaced_from [OF this assms, of K decode]
  have "sorted_wrt (spaced ttl) (applied_requests K decode rs c)" by (simp add: NewNonceCache_def)
  then show ?thesis by (rule sorted_wrt_mono_rel [rotated]) (auto simp: spaced_def req_key_def)
qed

section \<open>Examples\<close>

definition example_time :: int where "example_time = 1700000000 * 1000000000"

definition example_coordinator :: coordinator where
  "example_coordinator =
     \<lparr>co_SharedSecret = ''s'', co_ClusterName = ''prod'',
      co_nonceCache = Some (NewNonceCache HMACTimestampTolerance example_time),
      co_raftNode = Some \<lparr>rn_IsLeader = True, rn_Apply = \<lambda>_. None\<rparr>,
      co_registry = [''w1'' \<mapsto> RoleWriter, ''r1'' \<mapsto> RoleReader]\<rparr>"

abbreviation example_request :: "crypto \<Rightarrow> forward_request" where
  "example_request K \<equiv> build_forward_request K ''s'' ''prod'' ''w1'' ''n'' example_time ''{}''"

abbreviation example_decode :: "string \<Rightarrow> command option" where
  "example_decode \<equiv> \<lambda>_. Some (DeleteToken (Some 7))"

lemma example_mac_valid:
  assumes "\<bar>d\<bar> \<le> 300"
  shows "ValidateForwardHMAC K ''s'' ''n'' ''w1'' ''prod'' ''{}'' 1700000000
           (ComputeForwardHMAC K ''s'' ''n'' ''w1'' ''prod'' ''{}'' 1700000000) HMACTimestampTolerance
           ((1700000000 + d) * 1000000000) = None"
proof -
  have "check_freshness 1700000000 HMACTimestampTolerance ((1700000000 + d) * 1000000000) = None"
    using assms by (intro fresh_within) simp_all
  then show ?thesis
    unfolding ValidateForwardHMAC_def check_mac_ok by (simp add: ComputeForwardHMAC_def)
qed

lemma example_handle:
  assumes "\<bar>d\<bar> \<le> 300" and "co_SharedSecret c = ''s''" "co_ClusterName c = ''prod''" "co_raftNode c = co_raftNode example_coordinator"
    "co_registry c = co_registry example_coordinator" and "t = (1700000000 + d) * 1000000000"
    and "track_nonce t (example_request K) c = (True, c')"
  shows "handleForwardApply K example_decode (\<lambda>_. t) (example_request K) c = (AckOK, [DeleteToken (Some 7)], c')"
proof -
  have "co_raftNode c' = co_raftNode example_coordinator" "co_registry c' = co_registry example_coordinator"
    using track_nonce_frame(1,2) [of t "example_request K" c] assms(4,5) unfolding assms(7) by simp_all
  moreover have "command_allowed (GetCapabilities RoleWriter) (DeleteToken (Some 7)) = None"
    by (simp add: command_allowed_def)
  moreover have "example_request K = \<lparr>fr_CommandJSON = ''{}'', fr_NodeID = ''w1'', fr_Nonce = ''n'', fr_Timestamp = 1700000000,
      fr_HMAC = ComputeForwardHMAC K ''s'' ''n'' ''w1'' ''prod'' ''{}'' 1700000000\<rparr>"
    by (simp add: build_forward_request_def example_time_def)
  ultimately show ?thesis
    using example_mac_valid [OF assms(1), of K] assms(2,3,7) unfolding assms(6)
    by (simp add: handleForwardApply_def) (simp add: example_coordinator_def)
qed

text \<open>
  The leader's cache keeps a nonce for \<open>HMACTimestampTolerance\<close>, 300 seconds, but timestamps are
  compared in whole seconds, so that a MAC may outlive its nonce: a request that was received the
  moment it was signed is applied again when it is received once more 300 seconds later.
\<close>

theorem request_applied_twice:
  "let (ack1, cmds1, c1) = handleForwardApply K example_decode (\<lambda>_. example_time) (example_request K) example_coordinator;
       (ack2, cmds2, c2) = handleForwardApply K example_decode (\<lambda>_. example_time + 300 * 1000000000) (example_request K) c1
   in (ack1, cmds1) = (AckOK, [DeleteToken (Some 7)]) \<and> (ack2, cmds2) = (AckOK, [DeleteToken (Some 7)])"
proof -
  let ?nc = "(NewNonceCache HMACTimestampTolerance example_time)
    \<lparr>nc_entries := [nonce_key ''w1'' ''n'' \<mapsto> example_time + 300 * 1000000000]\<rparr>"
  let ?c1 = "example_coordinator\<lparr>co_nonceCache := Some ?nc\<rparr>"
  have t1: "track_nonce example_time (example_request K) example_coordinator = (True, ?c1)"
    by (simp add: track_nonce_def example_coordinator_def build_forward_request_def Track_def NewNonceCache_def
        HMACTimestampTolerance_def nonceCacheEvictInterval_def Let_def)
  have 1: "handleForwardApply K example_decode (\<lambda>_. example_time) (example_request K) example_coordinator =
      (AckOK, [DeleteToken (Some 7)], ?c1)"
    by (rule example_handle [where d = 0, OF _ _ _ _ _ _ t1]) (simp_all add: example_coordinator_def example_time_def)
  have "fst (track_nonce (example_time + 300 * 1000000000) (example_request K) ?c1)"
    by (simp add: track_nonce_def build_forward_request_def Track_def Let_def case_prod_beta)
  then obtain c2 where t2: "track_nonce (example_time + 300 * 1000000000) (example_request K) ?c1 = (True, c2)"
    using passed_pair by blast
  have 2: "handleForwardApply K example_decode (\<lambda>_. example_time + 300 * 1000000000) (example_request K) ?c1 =
      (AckOK, [DeleteToken (Some 7)], c2)"
    by (rule example_handle [where d = 300, OF _ _ _ _ _ _ t2]) (simp_all add: example_coordinator_def example_time_def)
  show ?thesis by (simp only: 1 2 Let_def prod.case)
qed

lemma example_first:
  "fst (snd (handleForwardApply K example_decode (\<lambda>_. example_time) (example_request K) example_coordinator)) =
     [DeleteToken (Some 7)]"
proof -
  have "fst (track_nonce example_time (example_request K) example_coordinator)"
    by (simp add: track_nonce_def example_coordinator_def NewNonceCache_def Track_def Let_def case_prod_beta)
  then obtain c1 where t: "track_nonce example_time (example_request K) example_coordinator = (True, c1)"
    using passed_pair by blast
  show ?thesis
    by (subst example_handle [where d = 0, OF _ _ _ _ _ _ t]) (simp_all add: example_coordinator_def example_time_def)
qed

definition plain_crypto :: crypto where
  "plain_crypto = \<lparr>hmac_sha256 = \<lambda>k m. m, sha256 = \<lambda>m. m, hkdf = \<lambda>s n i l. None\<rparr>"

theorem forwarded_commands_confined_witness:
  "nodes_view (st (Apply sorted_ranges (Some (DeleteToken (Some 7))) 1 NewClusterFSM)) = nodes_view NewClusterFSM"
proof -
  have "DeleteToken (Some 7) \<in> set (fst (snd (handleForwardApply plain_crypto example_decode (\<lambda>_. example_time)
      (example_request plain_crypto) example_coordinator)))"
    by (simp add: example_first)
  from forwarded_commands_confined [OF this] show ?thesis by blast
qed

theorem honest_forward_applied_witness:
  "fst (handleForwardApply plain_crypto example_decode (\<lambda>_. example_time) (example_request plain_crypto) example_coordinator) = AckOK"
proof -
  have "co_SharedSecret example_coordinator = ''s''" "co_ClusterName example_coordinator = ''prod''"
    "co_registry example_coordinator ''w1'' = Some RoleWriter"
    "co_raftNode example_coordinator = Some \<lparr>rn_IsLeader = True, rn_Apply = \<lambda>_. None\<rparr>"
    "\<forall>nc. co_nonceCache example_coordinator = Some nc \<longrightarrow> nc_entries nc (nonce_key ''w1'' ''n'') = None"
    by (simp_all add: example_coordinator_def NewNonceCache_def)
  with honest_forward_applied [of example_coordinator "example_request plain_crypto" plain_crypto "''w1''" "''n''"
      example_time "''{}''" "\<lambda>_. example_time" "\<lparr>rn_IsLeader = True, rn_Apply = \<lambda>_. None\<rparr>" RoleWriter
      example_decode "DeleteToken (Some 7)"]
  show ?thesis by (simp add: example_time_def authorised_def)
qed

theorem replays_are_spaced_witness:
  "sorted_wrt (\<lambda>(r1, t1) (r2, t2). fr_NodeID r1 = fr_NodeID r2 \<and> fr_Nonce r1 = fr_Nonce r2 \<longrightarrow>
       t1 + HMACTimestampTolerance \<le> t2)
     (applied_requests plain_crypto example_decode
        [(\<lambda>_. example_time, example_request plain_crypto), (\<lambda>_. example_time + 1, example_request plain_crypto)]
        example_coordinator)"
  by (rule replays_are_spaced [of _ _ example_time]) (simp_all add: example_coordinator_def)

end
