(* ===== verification/WAL_Checksum.thy ===== *)
theory WAL_Checksum
  imports Bytes
begin

text \<open>
  The checksum of a WAL entry (\<^verbatim>\<open>internal/wal\<close>): \<^verbatim>\<open>crc32.ChecksumIEEE\<close> of the Go standard
  library, table-driven on the reflected IEEE polynomial.  The table is computed here from
  its defining loop.  The update is linear and invertible, from which it follows that an
  error burst of at most four bytes is always detected.
\<close>

unbundle bit_operations_syntax

section \<open>The checksum\<close>

definition crc_poly :: u32 where
  "crc_poly = 0xEDB88320"

text \<open>One round of the loop that fills the table, and the table.\<close>

definition crc_bit :: "u32 \<Rightarrow> u32" where
  "crc_bit c = (if bit c 0 then drop_bit 1 c XOR crc_poly else drop_bit 1 c)"

definition crc_table :: "byte \<Rightarrow> u32" where
  "crc_table i = (crc_bit ^^ 8) (ucast i)"

definition crc_update :: "byte \<Rightarrow> u32 \<Rightarrow> u32" where
  "crc_update v c = crc_table (ucast c XOR v) XOR drop_bit 8 c"

definition crc32 :: "bytes \<Rightarrow> u32" where
  "crc32 p = NOT (fold crc_update p (NOT 0))"

section \<open>The update is linear and invertible\<close>

lemma word_xor_eq_0_iff: "a XOR b = 0 \<longleftrightarrow> a = (b :: 'a::len word)"
proof
  assume "a XOR b = 0"
  then have "(a XOR b) XOR b = 0 XOR b" by simp
  then show "a = b" by (simp only: xor.assoc xor_self_eq xor.left_neutral xor.right_neutral)
qed simp

lemma word_xor_cancel [simp]: "a XOR c = b XOR c \<longleftrightarrow> a = (b :: 'a::len word)"
proof
  assume "a XOR c = b XOR c"
  then have "(a XOR c) XOR c = (b XOR c) XOR c" by simp
  then show "a = b" by (simp only: xor.assoc xor_self_eq xor.right_neutral)
qed simp

lemma crc_bit_xor: "crc_bit (a XOR b) = crc_bit a XOR crc_bit b"
  by (auto simp: crc_bit_def bit_simps ac_simps)

lemma crc_bit_0 [simp]: "crc_bit 0 = 0"
  by (simp add: crc_bit_def)

lemma crc_bit_zeroD: "crc_bit x = 0 \<Longrightarrow> x = 0"
proof -
  assume x: "crc_bit x = 0"
  have "\<not> bit x 0"
  proof
    assume "bit x 0"
    then have "drop_bit 1 x = crc_poly" using x by (simp add: crc_bit_def word_xor_eq_0_iff)
    moreover have "bit crc_poly 31" by (simp add: crc_poly_def)
    moreover have "\<not> bit (drop_bit 1 x) 31"
      using bit_imp_le_length [of x 32] by (auto simp: bit_simps)
    ultimately show False by simp
  qed
  then have "drop_bit 1 x = 0" using x by (simp add: crc_bit_def)
  then have "\<not> bit (drop_bit 1 x) m" for m by simp
  then have "\<not> bit x (Suc m)" for m by (simp add: bit_drop_bit_eq)
  then have "\<not> bit x n" for n using \<open>\<not> bit x 0\<close> by (cases n) auto
  then show "x = 0" by (simp add: bit_eq_iff)
qed

lemma crc_bits_xor: "(crc_bit ^^ n) (a XOR b) = (crc_bit ^^ n) a XOR (crc_bit ^^ n) b"
  by (induction n arbitrary: a b) (auto simp: crc_bit_xor)

lemma crc_bits_zeroD: "(crc_bit ^^ n) x = 0 \<Longrightarrow> x = 0"
  by (induction n) (auto dest: crc_bit_zeroD)

lemma crc_bits_inject [simp]: "(crc_bit ^^ n) a = (crc_bit ^^ n) b \<longleftrightarrow> a = b"
  using crc_bits_zeroD [of n "a XOR b"] by (auto simp: crc_bits_xor word_xor_eq_0_iff)

lemma drop_push_1: "\<not> bit z 31 \<Longrightarrow> drop_bit 1 (push_bit 1 z) = (z :: u32)"
proof (rule bit_word_eqI)
  fix n assume "\<not> bit z 31" "n < LENGTH(32)"
  moreover have "n = 31 \<or> n < 31" using \<open>n < LENGTH(32)\<close> by auto
  ultimately show "bit (drop_bit 1 (push_bit 1 z)) n = bit z n"
    by (auto simp only: bit_drop_bit_eq bit_push_bit_iff comp_apply possible_bit_word)
      (use bit_imp_le_length [of z 32] in simp_all)
qed

lemma crc_bits_push:
  "(\<And>i. 32 - n \<le> i \<Longrightarrow> \<not> bit y i) \<Longrightarrow> (crc_bit ^^ n) (push_bit n y) = y"
proof (induction n arbitrary: y)
  case (Suc n)
  have "crc_bit (push_bit 1 (push_bit n y)) = push_bit n y"
  proof -
    have "\<not> bit (push_bit n y) 31" using Suc.prems [of "31 - n"] by (auto simp: bit_simps)
    then have "drop_bit 1 (push_bit 1 (push_bit n y)) = push_bit n y"
      by (rule drop_push_1)
    moreover have "\<not> bit (push_bit 1 (push_bit n y)) 0" by (simp only: bit_push_bit_iff) simp
    ultimately show ?thesis by (simp only: crc_bit_def if_False)
  qed
  moreover have "(crc_bit ^^ n) (push_bit n y) = y" using Suc by simp
  moreover have "push_bit (Suc n) y = push_bit 1 (push_bit n y)" by (simp only: push_bit_push_bit) simp
  ultimately show ?case by (simp only: funpow_Suc_right comp_apply)
qed simp

text \<open>The table lookup is eight rounds of the bitwise division on the whole register.\<close>

lemma crc_update_bits: "crc_update v c = (crc_bit ^^ 8) (c XOR ucast v)"
proof -
  have "(crc_bit ^^ 8) (push_bit 8 (drop_bit 8 c)) = drop_bit 8 c"
    by (rule crc_bits_push) (auto simp: bit_simps dest: bit_imp_le_length)
  moreover have "c XOR ucast v = ucast (ucast c XOR v) XOR push_bit 8 (drop_bit 8 c)"
    by (rule bit_word_eqI) (auto simp: bit_simps)
  ultimately show ?thesis by (simp add: crc_update_def crc_table_def crc_bits_xor)
qed

lemma crc_fold_inject [simp]: "fold crc_update p a = fold crc_update p b \<longleftrightarrow> a = b"
  by (induction p arbitrary: a b) (auto simp: crc_update_bits)

section \<open>Evaluation\<close>

text \<open>
  Rules with which \<open>simp\<close> computes a checksum, one per case of the lowest bit, and the check
  value of the algorithm's catalogue entry: the checksum of the digits 1 to 9.
\<close>

lemma drop_1_of_nat: "n < 2 ^ 32 \<Longrightarrow> drop_bit 1 (word_of_nat n) = (word_of_nat (n div 2) :: u32)"
  by (simp add: word_unat_eq_iff unat_div unat_of_nat drop_bit_eq_div)

lemma drop_1_even: "numeral (num.Bit0 k) < (2 :: nat) ^ 32 \<Longrightarrow> drop_bit 1 (numeral (num.Bit0 k)) = (numeral k :: u32)"
  using drop_1_of_nat [of "numeral (num.Bit0 k)"] by (simp del: power_numeral)

lemma drop_1_odd: "numeral (num.Bit1 k) < (2 :: nat) ^ 32 \<Longrightarrow> drop_bit 1 (numeral (num.Bit1 k)) = (numeral k :: u32)"
  using drop_1_of_nat [of "numeral (num.Bit1 k)"] by (simp del: power_numeral)

lemma crc_bit_numerals:
  "numeral (num.Bit0 k) < (2 :: nat) ^ 32 \<Longrightarrow> crc_bit (numeral (num.Bit0 k)) = numeral k"
  "numeral (num.Bit1 k) < (2 :: nat) ^ 32 \<Longrightarrow> crc_bit (numeral (num.Bit1 k)) = numeral k XOR 0xEDB88320"
  "crc_bit 1 = 0xEDB88320"
  by (simp_all add: crc_bit_def crc_poly_def drop_1_even [simplified] drop_1_odd [simplified])

lemma crc_bits_8: "(crc_bit ^^ 8) c =
    crc_bit (crc_bit (crc_bit (crc_bit (crc_bit (crc_bit (crc_bit (crc_bit c)))))))"
  by (simp add: numeral_eq_Suc)

lemma crc32_ones: "crc32 p = fold crc_update p 0xFFFFFFFF XOR 0xFFFFFFFF"
proof -
  have "(0xFFFFFFFF :: u32) = -1" by simp
  then show ?thesis by (simp only: crc32_def bit.xor_one_right) simp
qed

lemmas crc_eval = crc32_ones crc_update_bits crc_bits_8 crc_bit_numerals

lemma crc32_check: "crc32 [0x31, 0x32, 0x33, 0x34, 0x35, 0x36, 0x37, 0x38, 0x39] = 0xCBF43926"
  by (simp add: crc_eval)

section \<open>Bursts\<close>

text \<open>The bytes of a burst as one number, least significant byte first.\<close>

fun le_word :: "bytes \<Rightarrow> u32" where
  "le_word [] = 0"
| "le_word (b # bs) = ucast b XOR push_bit 8 (le_word bs)"

lemma le_word_high: "8 * length bs \<le> i \<Longrightarrow> \<not> bit (le_word bs) i"
  by (induction bs arbitrary: i) (auto simp: bit_simps dest: bit_imp_le_length)

lemma le_word_inject:
  "length a = length b \<Longrightarrow> length a \<le> 4 \<Longrightarrow> le_word a = le_word b \<Longrightarrow> a = b"
proof (induction a b rule: list_induct2)
  case (Cons x xs y ys)
  have bits: "bit (le_word (x # xs)) i = bit (le_word (y # ys)) i" for i
    using Cons.prems by simp
  have "x = y"
  proof (rule bit_word_eqI)
    fix i assume "i < LENGTH(8)"
    then show "bit x i = bit y i" using bits [of i] by (simp add: bit_simps)
  qed
  moreover have "le_word xs = le_word ys"
  proof (rule bit_word_eqI)
    fix i :: nat assume "i < LENGTH(32)"
    show "bit (le_word xs) i = bit (le_word ys) i"
    proof (cases "i < 24")
      case True
      then show ?thesis using bits [of "i + 8"] bit_imp_le_length [of x "i + 8"] bit_imp_le_length [of y "i + 8"]
        by (auto simp: bit_simps)
    next
      case False
      then show ?thesis using le_word_high [of xs i] le_word_high [of ys i] Cons by simp
    qed
  qed
  ultimately show ?case using Cons by simp
qed simp

lemma crc_fold_burst:
  "length bs \<le> 4 \<Longrightarrow> fold crc_update bs c = (crc_bit ^^ (8 * length bs)) (c XOR le_word bs)"
proof (induction bs arbitrary: c)
  case (Cons b bs)
  have *: "(crc_bit ^^ 8) (push_bit 8 (le_word bs)) = le_word bs"
    using Cons.prems by (intro crc_bits_push le_word_high) simp
  have "fold crc_update (b # bs) c =
    (crc_bit ^^ (8 * length bs)) ((crc_bit ^^ 8) (c XOR ucast b) XOR (crc_bit ^^ 8) (push_bit 8 (le_word bs)))"
    using Cons * by (simp add: crc_update_bits [of b])
  also have "\<dots> = (crc_bit ^^ (8 * length bs)) ((crc_bit ^^ 8) (c XOR le_word (b # bs)))"
    by (simp add: crc_bits_xor xor.assoc)
  also have "\<dots> = (crc_bit ^^ (8 * length bs + 8)) (c XOR le_word (b # bs))"
    by (simp only: funpow_add comp_apply)
  finally show ?case by (simp add: add.commute)
qed simp

lemma crc32_detects_burst:
  assumes "length b = length b'" "length b \<le> 4" "b \<noteq> b'"
  shows "crc32 (a @ b @ c) \<noteq> crc32 (a @ b' @ c)"
proof
  let ?s = "fold crc_update a (NOT 0)"
  assume "crc32 (a @ b @ c) = crc32 (a @ b' @ c)"
  then have "fold crc_update b ?s = fold crc_update b' ?s"
    by (simp add: crc32_def)
  then have "?s XOR le_word b = ?s XOR le_word b'"
    using assms by (simp add: crc_fold_burst)
  then have "?s XOR (?s XOR le_word b) = ?s XOR (?s XOR le_word b')" by simp
  then have "le_word b = le_word b'" by (simp flip: xor.assoc)
  then show False using le_word_inject [OF assms(1,2)] assms(3) by simp
qed

end
