(* ===== verification/WAL_Format.thy ===== *)
theory WAL_Format
  imports WAL_Checksum
begin

text \<open>
  The write-ahead log's file format and its reader (\<^verbatim>\<open>internal/wal/wal.go\<close>,
  \<^verbatim>\<open>internal/wal/reader.go\<close>): the file header, the framing of one entry, the envelope that
  carries the database name, and \<open>ReadAll\<close> with its loop, which skips what it cannot read.
  MessagePack is a third-party package: its two uses are the fields of the parameter
  \<open>msgpack\<close>.
\<close>

section \<open>Constants\<close>

definition wal_magic :: bytes where
  "wal_magic = [0x49, 0x45, 0x44, 0x42]"

definition wal_version :: nat where
  "wal_version = 1"

definition file_header_size :: nat where
  "file_header_size = 7"

definition entry_header_size :: nat where
  "entry_header_size = 16"

definition max_wal_payload :: nat where
  "max_wal_payload = 104857600"

definition envelope_marker :: byte where
  "envelope_marker = 1"

text \<open>The header \<open>rotate\<close> writes: magic, version, checksum type.\<close>

definition file_header :: bytes where
  "file_header = wal_magic @ be_put 2 wal_version @ [1]"

lemma length_file_header [simp]: "length file_header = file_header_size"
  by (simp add: file_header_def wal_magic_def file_header_size_def)

section \<open>The envelope\<close>

text \<open>A computation that may panic on a slice expression out of range.\<close>

datatype 'a go = Ret 'a | Panic

text \<open>
  \<open>ParseEnvelope\<close>.  The sum \<^verbatim>\<open>3+dbLen\<close> has the type of \<^verbatim>\<open>dbLen\<close>, 16 bits, and wraps before
  it is converted; \<^verbatim>\<open>payload[3:end]\<close> panics for an end below 3.
\<close>

definition parse_envelope :: "bytes \<Rightarrow> string \<Rightarrow> (string \<times> bytes) go" where
  "parse_envelope payload default_db =
     (if 3 < length payload \<and> payload ! 0 = envelope_marker then
        let db_len = word_of_nat (be_get (take 2 (drop 1 payload))) :: u16;
            end = unat (3 + db_len)
        in if end \<le> length payload then
             if 3 \<le> end then Ret (gostring (take (end - 3) (drop 3 payload)), drop end payload)
             else Panic
           else Ret (default_db, payload)
      else Ret (default_db, payload))"

text \<open>The header \<open>AppendRawWithMeta\<close> puts in front of a payload.\<close>

definition envelope :: "string \<Rightarrow> bytes" where
  "envelope database = envelope_marker # be_put 2 (length database) @ gobytes database"

lemma length_envelope [simp]: "length (envelope database) = 3 + length database"
  by (simp add: envelope_def)

section \<open>Decoded entries\<close>

datatype mval = MStr string | MArr "mval list" | MMap "string \<Rightarrow> mval option" | MOther int

type_synonym row = "string \<rightharpoonup> mval"

record columnar =
  c_database :: string
  c_measurement :: string
  c_columns :: "string \<rightharpoonup> mval list"

text \<open>A nil slice of records is \<^term>\<open>None\<close>, an empty one \<^term>\<open>Some []\<close>.\<close>

record wal_entry =
  e_timestamp :: u64
  e_records :: "row list option"
  e_columnar :: "columnar option"

record msgpack =
  unmarshal_rows :: "bytes \<Rightarrow> row list option option"
  unmarshal_map :: "bytes \<Rightarrow> row option"

definition parse_columnar_entry :: "row \<Rightarrow> columnar option" where
  "parse_columnar_entry raw =
     (case raw ''m'' of
        Some (MStr m) \<Rightarrow>
          (case raw ''columns'' of
             Some (MMap cols) \<Rightarrow>
               Some \<lparr>c_database = [], c_measurement = m,
                 c_columns = (\<lambda>k. case cols k of Some (MArr vs) \<Rightarrow> Some vs | _ \<Rightarrow> None)\<rparr>
           | _ \<Rightarrow> None)
      | _ \<Rightarrow> None)"

text \<open>The part of \<open>readEntry\<close> that decodes a payload whose checksum was right.\<close>

definition decode_entry :: "msgpack \<Rightarrow> u64 \<Rightarrow> bytes \<Rightarrow> wal_entry option go" where
  "decode_entry M ts payload =
     (case parse_envelope payload [] of
        Panic \<Rightarrow> Panic
      | Ret (db, data) \<Rightarrow>
          Ret (case unmarshal_rows M data of
                 Some rows \<Rightarrow> Some \<lparr>e_timestamp = ts, e_records = rows, e_columnar = None\<rparr>
               | None \<Rightarrow>
                   (case unmarshal_map M data of
                      None \<Rightarrow> None
                    | Some raw \<Rightarrow>
                        map_option (\<lambda>c. \<lparr>e_timestamp = ts, e_records = None,
                                         e_columnar = Some (c\<lparr>c_database := db\<rparr>)\<rparr>)
                          (parse_columnar_entry raw))))"

section \<open>Reading one entry\<close>

text \<open>
  The framing half of \<open>readEntry\<close>: what it reads, and how much it counts in \<open>TotalBytes\<close>.  An
  entry whose length is over the limit is given up after its header; one whose payload is cut
  short has read the stream to its end.
\<close>

datatype frame_read =
    FrameEOF
  | FrameBad nat bytes
  | FrameOk u64 bytes bytes

definition read_frame :: "bytes \<Rightarrow> frame_read" where
  "read_frame s =
     (case read_full entry_header_size s of
        ReadOk h r \<Rightarrow>
          let len = be_get (take 4 h); ts = word_of_nat (be_get (take 8 (drop 4 h)));
              sum = word_of_nat (be_get (take 4 (drop 12 h))) :: u32
          in if max_wal_payload < len then FrameBad 0 r
             else (case read_full len r of
                     ReadOk p r' \<Rightarrow>
                       if crc32 p = sum then FrameOk ts p r'
                       else FrameBad (entry_header_size + length p) r'
                   | _ \<Rightarrow> FrameBad 0 [])
      | _ \<Rightarrow> FrameEOF)"

datatype entry_read =
    EntryEOF
  | EntryBad nat bytes
  | EntryOk nat wal_entry bytes
  | EntryPanic

definition read_entry :: "msgpack \<Rightarrow> bytes \<Rightarrow> entry_read" where
  "read_entry M s =
     (case read_frame s of
        FrameEOF \<Rightarrow> EntryEOF
      | FrameBad n r \<Rightarrow> EntryBad n r
      | FrameOk ts p r \<Rightarrow>
          (case decode_entry M ts p of
             Panic \<Rightarrow> EntryPanic
           | Ret None \<Rightarrow> EntryBad (entry_header_size + length p) r
           | Ret (Some e) \<Rightarrow> EntryOk (entry_header_size + length p) e r))"

lemma read_frame_shrinks:
  "read_frame s = FrameBad n r \<Longrightarrow> length r < length s"
  "read_frame s = FrameOk ts p r \<Longrightarrow> length r < length s"
  by (auto simp: read_frame_def Let_def entry_header_size_def dest!: read_full_OkD
      split: read_result.splits if_splits)

lemma read_entry_shrinks:
  "read_entry M s = EntryBad n r \<Longrightarrow> length r < length s"
  "read_entry M s = EntryOk n e r \<Longrightarrow> length r < length s"
  by (auto simp: read_entry_def dest: read_frame_shrinks
      split: frame_read.splits go.splits option.splits)

section \<open>Reading a file\<close>

record reader =
  total_entries :: nat
  total_bytes :: nat
  corrupted_entries :: nat

definition new_reader :: reader where
  "new_reader = \<lparr>total_entries = 0, total_bytes = 0, corrupted_entries = 0\<rparr>"

text \<open>The loop of \<open>ReadAll\<close>: an entry that cannot be read is counted and skipped.\<close>

function read_entries :: "msgpack \<Rightarrow> bytes \<Rightarrow> wal_entry list \<Rightarrow> reader \<Rightarrow> (wal_entry list \<times> reader) go" where
  "read_entries M s es rd =
     (case read_entry M s of
        EntryEOF \<Rightarrow> Ret (es, rd)
      | EntryPanic \<Rightarrow> Panic
      | EntryBad n r \<Rightarrow>
          read_entries M r es
            (rd\<lparr>total_bytes := total_bytes rd + n, corrupted_entries := corrupted_entries rd + 1\<rparr>)
      | EntryOk n e r \<Rightarrow>
          read_entries M r (es @ [e])
            (rd\<lparr>total_bytes := total_bytes rd + n, total_entries := total_entries rd + 1\<rparr>))"
  by pat_completeness auto
termination
  by (relation "measure (\<lambda>(M, s, es, rd). length s)") (auto dest: read_entry_shrinks)

declare read_entries.simps [simp del]

datatype read_error = BadMagic

text \<open>A version other than ours is only logged.\<close>

definition read_all :: "msgpack \<Rightarrow> bytes \<Rightarrow> (read_error + wal_entry list \<times> reader) go" where
  "read_all M f =
     (case read_full file_header_size f of
        ReadOk h r \<Rightarrow>
          if take 4 h \<noteq> wal_magic then Ret (Inl BadMagic)
          else (case read_entries M r [] new_reader of Panic \<Rightarrow> Panic | Ret x \<Rightarrow> Ret (Inr x))
      | _ \<Rightarrow> Ret (Inr ([], new_reader)))"

end
