(* ===== verification/WAL_Reader.thy ===== *)
theory WAL_Reader
  imports WAL_Format
begin

text \<open>
  What the reader of \<open>WAL_Format\<close> makes of what the writer puts on disk.  A frame reads back,
  a torn one ends the file, and one whose payload was damaged is skipped without touching its
  neighbours; a file with its tail cut off anywhere gives the entries that are complete.
\<close>

section \<open>Frames\<close>

text \<open>
  The bytes \<open>AppendRaw\<close> and \<open>AppendRawWithMeta\<close> queue for one entry.  \<open>damaged_frame\<close> is a
  frame whose payload on disk is no longer the one its header was computed for.
\<close>

definition damaged_frame :: "u64 \<Rightarrow> bytes \<Rightarrow> bytes \<Rightarrow> bytes" where
  "damaged_frame ts p p' =
     be_put 4 (length p) @ be_put 8 (unat ts) @ be_put 4 (unat (crc32 p)) @ p'"

definition entry_frame :: "u64 \<times> bytes \<Rightarrow> bytes" where
  "entry_frame = (\<lambda>(ts, p). be_put 4 (length p) @ be_put 8 (unat ts) @ be_put 4 (unat (crc32 p)) @ p)"

definition fits :: "u64 \<times> bytes \<Rightarrow> bool" where
  "fits = (\<lambda>(ts, p). length p \<le> max_wal_payload)"

lemma entry_frame_damaged: "entry_frame (ts, p) = damaged_frame ts p p"
  by (simp add: entry_frame_def damaged_frame_def)

lemma length_damaged_frame [simp]: "length (damaged_frame ts p p') = 16 + length p'"
  by (simp add: damaged_frame_def)

lemma length_entry_frame [simp]: "length (entry_frame f) = 16 + length (snd f)"
  by (cases f) (simp add: entry_frame_damaged)

lemma unat_u32_less: "unat (w :: u32) < 256 ^ 4"
  using unsigned_less [of w] by simp

lemma unat_u64_less: "unat (w :: u64) < 256 ^ 8"
  using unsigned_less [of w] by simp

lemma read_damaged_frame:
  assumes "length p \<le> max_wal_payload" "length p' = length p"
  shows "read_frame (damaged_frame ts p p' @ s) =
    (if crc32 p' = crc32 p then FrameOk ts p' s else FrameBad (entry_header_size + length p) s)"
proof -
  let ?h = "be_put 4 (length p) @ be_put 8 (unat ts) @ be_put 4 (unat (crc32 p))"
  have "read_full entry_header_size (damaged_frame ts p p' @ s) = ReadOk ?h (p' @ s)"
    using read_full_append [of ?h entry_header_size "p' @ s"]
    by (simp add: damaged_frame_def entry_header_size_def)
  moreover have "length p < 256 ^ 4" using assms by (simp add: max_wal_payload_def)
  ultimately show ?thesis
    using assms be_get_put_small [OF unat_u32_less [of "crc32 p"]] be_get_put_small [OF unat_u64_less [of ts]]
    by (simp add: read_frame_def Let_def)
qed

lemma read_entry_frame [simp]: "fits f \<Longrightarrow> read_frame (entry_frame f @ s) = FrameOk (fst f) (snd f) s"
  by (cases f) (simp add: fits_def entry_frame_damaged read_damaged_frame)

text \<open>A frame cut short is the end of the file, or an unreadable entry after which it ends.\<close>

lemma read_torn_frame:
  assumes "fits f" "proper_prefix t (entry_frame f)"
  shows "read_frame t = FrameEOF \<or> read_frame t = FrameBad 0 []"
proof (cases "length t < 16")
  case True
  then show ?thesis by (simp add: read_frame_def entry_header_size_def)
next
  case False
  obtain ts p where f: "f = (ts, p)" by (cases f)
  let ?h = "be_put 4 (length p) @ be_put 8 (unat ts) @ be_put 4 (unat (crc32 p))"
  obtain u where u: "?h @ p = t @ u" "u \<noteq> []"
    using assms(2) f by (auto simp: proper_prefix_def entry_frame_def)
  have t: "take 16 t = ?h" "p = drop 16 t @ u"
    using arg_cong [OF u(1), of "take 16"] arg_cong [OF u(1), of "drop 16"] False by simp_all
  have "read_full entry_header_size t = ReadOk ?h (drop 16 t)"
    using False t(1) by (simp add: read_full_def entry_header_size_def)
  moreover have "length p < 256 ^ 4" "length p \<le> max_wal_payload"
    using assms(1) f by (simp_all add: fits_def max_wal_payload_def)
  moreover have "length p = length (drop 16 t) + length u" using arg_cong [OF t(2), of length] by simp
  then have "length (drop 16 t) < length p" using u(2) by (cases u) auto
  ultimately show ?thesis by (simp add: read_frame_def Let_def)
qed

text \<open>The framed-stream interface, on the reader's frames.\<close>

definition next_frame :: "bytes \<Rightarrow> ((u64 \<times> bytes) \<times> bytes) option" where
  "next_frame s = (case read_frame s of FrameOk ts p r \<Rightarrow> Some ((ts, p), r) | _ \<Rightarrow> None)"

interpretation wal: framing fits entry_frame next_frame
proof
  fix m s assume "fits m"
  then show "next_frame (entry_frame m @ s) = Some (m, s)" by (simp add: next_frame_def)
next
  fix m t assume "fits m" "proper_prefix t (entry_frame m)"
  then show "next_frame t = None" using read_torn_frame by (fastforce simp: next_frame_def)
next
  fix s m r assume "next_frame s = Some (m, r)"
  then show "length r < length s"
    by (auto simp: next_frame_def dest: read_frame_shrinks split: frame_read.splits)
qed

section \<open>Files\<close>

text \<open>
  The entry a frame decodes to; \<open>decodes\<close> says that it does: the payload fits, the envelope
  parses and the MessagePack library returns one of the two shapes.
\<close>

definition entry_of :: "msgpack \<Rightarrow> u64 \<times> bytes \<Rightarrow> wal_entry" where
  "entry_of M f = (case decode_entry M (fst f) (snd f) of Ret (Some e) \<Rightarrow> e
                   | _ \<Rightarrow> \<lparr>e_timestamp = fst f, e_records = None, e_columnar = None\<rparr>)"

definition decodes :: "msgpack \<Rightarrow> u64 \<times> bytes \<Rightarrow> bool" where
  "decodes M f \<longleftrightarrow> fits f \<and> decode_entry M (fst f) (snd f) = Ret (Some (entry_of M f))"

lemma decodes_fits: "decodes M f \<Longrightarrow> fits f"
  by (simp add: decodes_def)

definition counted :: "(u64 \<times> bytes) list \<Rightarrow> reader \<Rightarrow> reader" where
  "counted fs rd = rd\<lparr>total_bytes := total_bytes rd + length (concat (map entry_frame fs)),
     total_entries := total_entries rd + length fs\<rparr>"

definition one_corrupted :: "nat \<Rightarrow> reader \<Rightarrow> reader" where
  "one_corrupted n rd = rd\<lparr>total_bytes := total_bytes rd + n, corrupted_entries := corrupted_entries rd + 1\<rparr>"

lemma read_entries_frame:
  "decodes M f \<Longrightarrow> read_entries M (entry_frame f @ s) es rd =
     read_entries M s (es @ [entry_of M f]) (counted [f] rd)"
  by (subst read_entries.simps)
    (simp add: read_entry_def decodes_def counted_def entry_header_size_def)

lemma counted_append: "counted gs (counted fs rd) = counted (fs @ gs) rd"
  by (simp add: counted_def algebra_simps)

lemma read_entries_frames:
  "\<forall>f\<in>set fs. decodes M f \<Longrightarrow> read_entries M (concat (map entry_frame fs) @ s) es rd =
     read_entries M s (es @ map (entry_of M) fs) (counted fs rd)"
proof (induction fs arbitrary: es rd)
  case Nil
  then show ?case by (simp add: counted_def)
next
  case (Cons f fs)
  then show ?case by (simp add: read_entries_frame counted_append)
qed

lemma read_entries_bad:
  "read_frame s = FrameBad n r \<Longrightarrow> read_entries M s es rd = read_entries M r es (one_corrupted n rd)"
  by (subst read_entries.simps) (simp add: read_entry_def one_corrupted_def)

lemma read_entries_eof: "read_frame s = FrameEOF \<Longrightarrow> read_entries M s es rd = Ret (es, rd)"
  by (subst read_entries.simps) (simp add: read_entry_def)

lemma read_entries_Nil [simp]: "read_entries M [] es rd = Ret (es, rd)"
  by (rule read_entries_eof) (simp add: read_frame_def entry_header_size_def)

text \<open>A torn tail costs at most one count of a corrupted entry.\<close>

lemma read_entries_torn:
  assumes "fits f" "proper_prefix t (entry_frame f)"
  shows "\<exists>k\<le>1. read_entries M t es rd = Ret (es, rd\<lparr>corrupted_entries := corrupted_entries rd + k\<rparr>)"
  using read_torn_frame [OF assms]
proof
  assume "read_frame t = FrameEOF"
  then show ?thesis by (intro exI [of _ 0]) (simp add: read_entries_eof)
next
  assume "read_frame t = FrameBad 0 []"
  then show ?thesis by (intro exI [of _ 1]) (simp add: read_entries_bad one_corrupted_def)
qed

definition torn_tail :: "bytes \<Rightarrow> bool" where
  "torn_tail t \<longleftrightarrow> t = [] \<or> (\<exists>f. fits f \<and> proper_prefix t (entry_frame f))"

lemma torn_tail_Nil [simp]: "torn_tail []"
  by (simp add: torn_tail_def)

lemma read_entries_tail:
  "torn_tail t \<Longrightarrow> \<exists>k\<le>1. read_entries M t es rd = Ret (es, rd\<lparr>corrupted_entries := corrupted_entries rd + k\<rparr>)"
  using read_entries_torn [of _ t M es rd] by (auto simp: torn_tail_def)

lemma read_all_body: "read_all M (file_header @ s) =
    (case read_entries M s [] new_reader of Panic \<Rightarrow> Panic | Ret x \<Rightarrow> Ret (Inr x))"
  by (simp add: read_all_def) (simp add: file_header_def wal_magic_def)

lemma read_all_frames:
  assumes "\<forall>f\<in>set fs. decodes M f" "torn_tail t"
  obtains rd where "read_all M (file_header @ concat (map entry_frame fs) @ t) = Ret (Inr (map (entry_of M) fs, rd))"
    "total_entries rd = length fs" "corrupted_entries rd \<le> 1" "t = [] \<Longrightarrow> corrupted_entries rd = 0"
proof -
  obtain k where k: "k \<le> 1"
    "read_entries M t (map (entry_of M) fs) (counted fs new_reader) =
      Ret (map (entry_of M) fs, (counted fs new_reader)\<lparr>corrupted_entries := corrupted_entries (counted fs new_reader) + k\<rparr>)"
    using read_entries_tail [OF assms(2)] by blast
  show ?thesis
  proof (rule that)
    show "read_all M (file_header @ concat (map entry_frame fs) @ t) = Ret (Inr (map (entry_of M) fs,
        (counted fs new_reader)\<lparr>corrupted_entries := corrupted_entries (counted fs new_reader) + k\<rparr>))"
      using assms(1) k(2) by (simp add: read_all_body read_entries_frames)
    show "t = [] \<Longrightarrow> corrupted_entries ((counted fs new_reader)
        \<lparr>corrupted_entries := corrupted_entries (counted fs new_reader) + k\<rparr>) = 0"
      using k(2) by (simp add: counted_def new_reader_def)
  qed (use k in \<open>simp_all add: counted_def new_reader_def\<close>)
qed

section \<open>A crash while the file is written\<close>

text \<open>Every frame that is complete within the first \<open>k\<close> bytes comes back.\<close>

lemma complete_frames_le:
  assumes "take k (concat (map entry_frame fs)) = concat (map entry_frame (take j fs)) @ t"
    "torn_tail t" "\<forall>f\<in>set fs. fits f" "i \<le> length fs" "j \<le> length fs"
    "length (concat (map entry_frame (take i fs))) \<le> k"
  shows "i \<le> j"
proof (rule ccontr)
  assume "\<not> i \<le> j"
  define gs where "gs = take (i - j) (drop j fs)"
  have take_i: "take i fs = take j fs @ gs"
    using \<open>\<not> i \<le> j\<close> assms(4) by (simp add: gs_def take_add [symmetric])
  have ok: "\<forall>f\<in>set gs. fits f"
    using assms(3) by (auto simp: gs_def dest: in_set_takeD in_set_dropD)
  have "gs \<noteq> []" using \<open>\<not> i \<le> j\<close> assms(4) by (simp add: gs_def)
  have "take (length (concat (map entry_frame (take i fs)))) (take k (concat (map entry_frame fs))) =
      concat (map entry_frame (take i fs))"
  proof -
    have "concat (map entry_frame fs) = concat (map entry_frame (take i fs)) @ concat (map entry_frame (drop i fs))"
      by (simp flip: map_append concat_append)
    then show ?thesis using assms(6) by (simp add: min_absorb1)
  qed
  then have "take (length (concat (map entry_frame gs))) t = concat (map entry_frame gs)"
    using assms(1) by (simp add: take_i)
  then have t: "t = concat (map entry_frame gs) @ drop (length (concat (map entry_frame gs))) t"
    by (metis append_take_drop_id)
  obtain g gs' where gs: "gs = g # gs'" using \<open>gs \<noteq> []\<close> by (cases gs) auto
  then have "next_frame t \<noteq> None"
    using wal.dec_enc [of g] ok t by (metis (no_types, lifting) append.assoc concat.simps(2) list.set_intros(1) list.simps(9) option.distinct(1))
  moreover have "next_frame t = None"
    using assms(2) wal.dec_torn by (auto simp: torn_tail_def next_frame_def read_frame_def entry_header_size_def)
  ultimately show False by simp
qed

lemma cut_file:
  assumes "\<forall>f\<in>set fs. fits f" "file_header_size \<le> k"
  obtains j t where "take k (file_header @ concat (map entry_frame fs)) =
      file_header @ concat (map entry_frame (take j fs)) @ t"
    "j \<le> length fs" "torn_tail t"
    "\<And>i. i \<le> length fs \<Longrightarrow> file_header_size + length (concat (map entry_frame (take i fs))) \<le> k \<Longrightarrow> i \<le> j"
proof -
  define n where "n = min (k - file_header_size) (length (concat (map entry_frame fs)))"
  obtain j t where jt: "take n (concat (map entry_frame fs)) = concat (map entry_frame (take j fs)) @ t"
    "t = [] \<or> (\<exists>f\<in>set fs. proper_prefix t (entry_frame f))"
    using wal.cut_stream [OF assms(1), of n] by (auto simp: n_def)
  define j' where "j' = min j (length fs)"
  have j': "take j fs = take j' fs" "j' \<le> length fs" by (auto simp: j'_def min_def)
  have t: "torn_tail t" using jt(2) assms(1) by (auto simp: torn_tail_def)
  have cut: "take k (file_header @ concat (map entry_frame fs)) = file_header @ concat (map entry_frame (take j' fs)) @ t"
    using jt(1) j'(1) assms(2) by (auto simp: n_def min_def split: if_splits)
  show ?thesis
  proof (rule that [OF cut j'(2) t])
    fix i assume i: "i \<le> length fs" "file_header_size + length (concat (map entry_frame (take i fs))) \<le> k"
    have "length (concat (map entry_frame (take i fs))) \<le> length (concat (map entry_frame fs))"
      by (metis append_take_drop_id concat_append le_add1 length_append map_append)
    then show "i \<le> j'"
      using complete_frames_le [OF jt(1) [unfolded j'(1)] t assms(1) i(1) j'(2)] i(2) by (simp add: n_def)
  qed
qed

lemma read_cut_file:
  assumes "\<forall>f\<in>set fs. decodes M f"
  obtains j rd where "read_all M (take k (file_header @ concat (map entry_frame fs))) =
      Ret (Inr (map (entry_of M) (take j fs), rd))" "j \<le> length fs"
    "\<And>i. i \<le> length fs \<Longrightarrow> file_header_size + length (concat (map entry_frame (take i fs))) \<le> k \<Longrightarrow> i \<le> j"
    "total_entries rd = j" "corrupted_entries rd \<le> 1"
proof (cases "k < file_header_size")
  case True
  then have "read_all M (take k (file_header @ concat (map entry_frame fs))) = Ret (Inr ([], new_reader))"
    by (simp add: read_all_def)
  then show ?thesis using True
    by (intro that [of 0 new_reader]) (simp_all add: new_reader_def)
next
  case False
  have "\<forall>f\<in>set fs. fits f" using assms by (auto dest: decodes_fits)
  then obtain j t where jt: "take k (file_header @ concat (map entry_frame fs)) =
      file_header @ concat (map entry_frame (take j fs)) @ t" "j \<le> length fs" "torn_tail t"
    "\<And>i. i \<le> length fs \<Longrightarrow> file_header_size + length (concat (map entry_frame (take i fs))) \<le> k \<Longrightarrow> i \<le> j"
    using cut_file [of fs k] False by (metis not_less)
  have "\<forall>f\<in>set (take j fs). decodes M f" using assms by (auto dest: in_set_takeD)
  then obtain rd where "read_all M (file_header @ concat (map entry_frame (take j fs)) @ t) =
      Ret (Inr (map (entry_of M) (take j fs), rd))"
    "total_entries rd = length (take j fs)" "corrupted_entries rd \<le> 1"
    using read_all_frames jt(3) by blast
  then show ?thesis using jt by (intro that [of j rd]) auto
qed

text \<open>
  C13. A log file cut off at any byte, as a crash or a full disk leaves it, is read without an
  error or a panic: \<open>ReadAll\<close> returns a prefix of the entries written, in order, that contains
  every entry whose frame lies within the cut, and counts at most one corrupted entry.
\<close>

theorem truncated_file_reads_back:
  assumes "\<forall>f\<in>set fs. decodes M f"
  shows "\<exists>j rd. read_all M (take k (file_header @ concat (map entry_frame fs))) =
      Ret (Inr (map (entry_of M) (take j fs), rd)) \<and>
    (\<forall>i\<le>length fs. file_header_size + length (concat (map entry_frame (take i fs))) \<le> k \<longrightarrow> i \<le> j) \<and>
    total_entries rd = j \<and> corrupted_entries rd \<le> 1"
  using read_cut_file [OF assms, of k] by metis

text \<open>A codec for the examples: one payload, the empty array, decodes to no rows.\<close>

definition sample_codec :: msgpack where
  "sample_codec = \<lparr>unmarshal_rows = (\<lambda>b. if b = [0x90] then Some (Some []) else None),
                   unmarshal_map = (\<lambda>b. None)\<rparr>"

lemma sample_decodes [simp]: "decodes sample_codec (ts, [0x90])"
  by (simp add: decodes_def fits_def max_wal_payload_def entry_of_def decode_entry_def
      parse_envelope_def sample_codec_def)

theorem truncated_file_reads_back_witness:
  "\<exists>j rd. read_all sample_codec (take 30 (file_header @ concat (map entry_frame [(5, [0x90]), (6, [0x90])]))) =
      Ret (Inr (map (entry_of sample_codec) (take j [(5, [0x90]), (6, [0x90])]), rd)) \<and>
    total_entries rd = j \<and> 1 \<le> j"
proof -
  let ?fs = "[(5, [0x90]), (6, [0x90])] :: (u64 \<times> bytes) list"
  have "\<forall>f\<in>set ?fs. decodes sample_codec f" by simp
  then obtain j rd where j: "read_all sample_codec (take 30 (file_header @ concat (map entry_frame ?fs))) =
      Ret (Inr (map (entry_of sample_codec) (take j ?fs), rd))" "total_entries rd = j"
    "\<forall>i\<le>length ?fs. file_header_size + length (concat (map entry_frame (take i ?fs))) \<le> 30 \<longrightarrow> i \<le> j"
    using truncated_file_reads_back [of ?fs sample_codec 30] by blast
  have "1 \<le> j" using spec [OF j(3), of 1] by (simp add: file_header_size_def)
  then show ?thesis using j(1,2) by blast
qed

section \<open>Damage inside the file\<close>

text \<open>
  An entry whose payload was damaged within four consecutive bytes is never returned and
  never hides another: the checksum refuses it, the reader counts it, and every entry before
  and after it comes back unchanged.
\<close>

theorem damaged_payload_is_skipped:
  assumes "\<forall>f\<in>set before. decodes M f" "\<forall>f\<in>set after. decodes M f"
    and "length (a @ b @ c) \<le> max_wal_payload"
    and "length b' = length b" "length b \<le> 4" "b' \<noteq> b"
  shows "\<exists>rd. read_all M (file_header @ concat (map entry_frame before) @
      damaged_frame ts (a @ b @ c) (a @ b' @ c) @ concat (map entry_frame after)) =
    Ret (Inr (map (entry_of M) (before @ after), rd)) \<and> corrupted_entries rd = 1"
proof -
  let ?d = "damaged_frame ts (a @ b @ c) (a @ b' @ c)" and ?n = "entry_header_size + length (a @ b @ c)"
  have "read_frame (?d @ s) = FrameBad ?n s" for s
    using assms(3-6) crc32_detects_burst [of b' b a c] by (simp add: read_damaged_frame)
  then have bad: "read_entries M (?d @ s) es rd = read_entries M s es (one_corrupted ?n rd)" for s es rd
    by (rule read_entries_bad)
  have "read_entries M (concat (map entry_frame before) @ ?d @ concat (map entry_frame after)) [] new_reader =
      read_entries M (concat (map entry_frame after) @ []) (map (entry_of M) before)
        (one_corrupted ?n (counted before new_reader))"
    using assms(1) bad by (simp add: read_entries_frames)
  also have "\<dots> = Ret (map (entry_of M) (before @ after), counted after (one_corrupted ?n (counted before new_reader)))"
    using assms(2) by (subst read_entries_frames) simp_all
  finally show ?thesis
    by (simp add: read_all_body counted_def one_corrupted_def new_reader_def)
qed

theorem damaged_payload_is_skipped_witness:
  "\<exists>rd. read_all sample_codec (file_header @ concat (map entry_frame [(5, [0x90])]) @
      damaged_frame 6 ([] @ [0x90] @ []) ([] @ [0x91] @ []) @ concat (map entry_frame [(7, [0x90])])) =
    Ret (Inr (map (entry_of sample_codec) ([(5, [0x90])] @ [(7, [0x90])]), rd)) \<and> corrupted_entries rd = 1"
  by (rule damaged_payload_is_skipped) (simp_all add: max_wal_payload_def)

section \<open>The envelope\<close>

lemma parse_envelope_plain: "payload = [] \<or> hd payload \<noteq> envelope_marker \<Longrightarrow> parse_envelope payload d = Ret (d, payload)"
  by (cases payload) (auto simp: parse_envelope_def)

lemma parse_envelope_envelope:
  assumes "length database < 65533" "database \<noteq> [] \<or> data \<noteq> []"
  shows "parse_envelope (envelope database @ data) d = Ret (database, data)"
proof -
  let ?p = "envelope database @ data"
  have len: "3 < length ?p" using assms(2) by auto
  have small: "be_get (be_put 2 (length database)) = length database"
    using assms(1) by simp
  then have n: "be_get (take 2 (drop 1 ?p)) = length database"
    by (simp add: envelope_def)
  have "unat (3 + word_of_nat (length database) :: u16) = 3 + length database"
    using assms(1) unat_of_nat [of "3 + length database", where 'a = 16] by (simp add: take_bit_nat_def)
  then have "parse_envelope ?p d = Ret (gostring (take (length database) (drop 3 ?p)), drop (3 + length database) ?p)"
    using len small by (simp add: parse_envelope_def Let_def) (simp add: envelope_def)
  moreover have "drop (3 + length database) ?p = data"
    using drop_append [of "3 + length database" "envelope database" data] by simp
  ultimately show ?thesis by (simp add: envelope_def)
qed

text \<open>
  \<open>ParseEnvelope\<close> returns for every payload but those that carry the marker and a name
  length of 65533 or more: there the 16-bit sum of the bounds check wraps around, the check
  passes and the slice expression panics.
\<close>

theorem parse_envelope_panics_iff:
  "parse_envelope payload d = Panic \<longleftrightarrow>
     3 < length payload \<and> payload ! 0 = envelope_marker \<and> 65533 \<le> be_get (take 2 (drop 1 payload))"
proof (cases "3 < length payload \<and> payload ! 0 = envelope_marker")
  case True
  let ?n = "be_get (take 2 (drop 1 payload))"
  have "length (take 2 (drop 1 payload)) = 2" using True by auto
  then have n: "?n < 65536" using be_get_less [of "take 2 (drop 1 payload)"] by (simp del: length_take)
  have e: "unat (3 + word_of_nat ?n :: u16) = (3 + ?n) mod 65536"
    using unat_of_nat [of "3 + ?n", where 'a = 16] by (simp add: take_bit_nat_def)
  show ?thesis
  proof (cases "?n < 65533")
    case True
    then show ?thesis using e by (simp add: parse_envelope_def Let_def)
  next
    case False
    then have "(3 + ?n) mod 65536 = ?n - 65533" using n by (simp add: mod_if)
    then show ?thesis using True False n e by (simp add: parse_envelope_def Let_def)
  qed
qed (auto simp: parse_envelope_def)

text \<open>One such entry, with a correct checksum, stops every later recovery of its file.\<close>

lemma crafted_entry_panics:
  "read_all M (file_header @ entry_frame (ts, [1, 0xFF, 0xFD, 0x90]) @ s) = Panic"
proof -
  have "decode_entry M ts [1, 0xFF, 0xFD, 0x90] = Panic"
    by (simp add: decode_entry_def parse_envelope_def envelope_marker_def be_get_def)
  moreover have "read_frame (entry_frame (ts, [1, 0xFF, 0xFD, 0x90]) @ s) = FrameOk ts [1, 0xFF, 0xFD, 0x90] s"
    by (simp add: fits_def max_wal_payload_def)
  ultimately show ?thesis
    by (simp add: read_all_body read_entries.simps [of M "entry_frame _ @ s"] read_entry_def)
qed

end
