(* ===== verification/WAL_Writer.thy ===== *)
theory WAL_Writer
  imports WAL_Reader
begin

text \<open>
  The WAL writer (\<^verbatim>\<open>internal/wal/wal.go\<close>): the non-blocking append paths with their bounded
  queue, and the background goroutine that takes one entry at a time, writes it to the current
  file, syncs by bytes or by time, and rotates by size, by age or after a failed write.  The
  mutex makes each step atomic, so a run is a sequence of steps.  What the operating system
  answers (a write that fails after some bytes, a file that cannot be created, a sync that
  fails) and the clock readings are inputs of the steps.
\<close>

section \<open>The directory\<close>

text \<open>
  The WAL directory lists its files in the order of their creation.  \<open>durable\<close> is the length
  of the prefix a successful sync has put on stable storage.
\<close>

record disk_file =
  content :: bytes
  durable :: nat

type_synonym dir = "(string \<times> disk_file) list"

definition empty_file :: disk_file where
  "empty_file = \<lparr>content = [], durable = 0\<rparr>"

fun upd_file :: "string \<Rightarrow> (disk_file \<Rightarrow> disk_file) \<Rightarrow> dir \<Rightarrow> dir" where
  "upd_file p g [] = []"
| "upd_file p g ((q, f) # d) = (if q = p then (q, g f) # d else (q, f) # upd_file p g d)"

text \<open>\<^verbatim>\<open>OpenFile\<close> with \<^verbatim>\<open>O_CREATE|O_APPEND\<close>, and what \<^verbatim>\<open>Write\<close> does to the file.\<close>

definition open_append :: "string \<Rightarrow> dir \<Rightarrow> dir" where
  "open_append p d = (if p \<in> fst ` set d then d else d @ [(p, empty_file)])"

datatype write_outcome = Written | WriteFails nat

definition append_bytes :: "bytes \<Rightarrow> write_outcome \<Rightarrow> disk_file \<Rightarrow> disk_file" where
  "append_bytes bs out f =
     f\<lparr>content := content f @ (case out of Written \<Rightarrow> bs | WriteFails n \<Rightarrow> take n bs)\<rparr>"

definition sync_file :: "disk_file \<Rightarrow> disk_file" where
  "sync_file f = f\<lparr>durable := length (content f)\<rparr>"

section \<open>Configuration and state\<close>

datatype sync_mode = Fsync | Fdatasync | Async | OtherMode string

text \<open>Durations and times are nanoseconds.\<close>

record wal_config =
  sync_mode :: sync_mode
  max_size_bytes :: int
  max_age :: int
  sync_interval :: int
  sync_bytes :: int
  buffer_size :: int

text \<open>The defaults \<open>NewWriter\<close> fills in.\<close>

definition with_defaults :: "wal_config \<Rightarrow> wal_config" where
  "with_defaults c =
     c\<lparr>sync_mode := (if sync_mode c = OtherMode [] then Fdatasync else sync_mode c),
       max_size_bytes := (if max_size_bytes c = 0 then 100 * 1024 * 1024 else max_size_bytes c),
       max_age := (if max_age c = 0 then 3600000000000 else max_age c),
       sync_interval := (if sync_interval c = 0 then 100000000 else sync_interval c),
       sync_bytes := (if sync_bytes c = 0 then 1024 * 1024 else sync_bytes c),
       buffer_size := (if buffer_size c < 1 then 10000
                       else if 1000000 < buffer_size c then 1000000 else buffer_size c)\<rparr>"

record wal_writer =
  dir :: dir
  current_path :: string
  current_size :: int
  start_time :: int
  last_sync_time :: int
  bytes_since_sync :: int
  entry_chan :: "bytes list"
  sequence :: u64
  hooked :: bool
  written_entries :: int
  written_bytes :: int
  total_syncs :: int
  total_rotations :: int
  dropped_entries :: int
  failed_writes :: int

section \<open>Sync and rotation\<close>

text \<open>\<open>sync\<close>: a failure is logged and nothing else; in async mode nothing is done.\<close>

definition wal_sync :: "wal_config \<Rightarrow> bool \<Rightarrow> wal_writer \<Rightarrow> wal_writer" where
  "wal_sync c ok w =
     (case sync_mode c of
        Fsync \<Rightarrow> if ok then w\<lparr>dir := upd_file (current_path w) sync_file (dir w)\<rparr> else w
      | Fdatasync \<Rightarrow> if ok then w\<lparr>dir := upd_file (current_path w) sync_file (dir w)\<rparr> else w
      | _ \<Rightarrow> w)"

record rotation =
  r_path :: string
  r_opens :: bool
  r_header :: write_outcome
  r_sync :: bool
  r_now :: int

definition wal_rotate :: "wal_config \<Rightarrow> rotation \<Rightarrow> wal_writer \<Rightarrow> bool \<times> wal_writer" where
  "wal_rotate c r w =
     (if \<not> r_opens r then (False, w)
      else let w1 = w\<lparr>dir := upd_file (r_path r) (append_bytes file_header (r_header r))
                               (open_append (r_path r) (dir w))\<rparr>
           in case r_header r of
                WriteFails _ \<Rightarrow> (False, w1)
              | Written \<Rightarrow>
                  let w2 = (if 0 < bytes_since_sync w1
                            then (wal_sync c (r_sync r) w1)\<lparr>total_syncs := total_syncs w1 + 1\<rparr> else w1)
                  in (True, w2\<lparr>current_path := r_path r, current_size := int (length file_header),
                        start_time := r_now r, last_sync_time := r_now r, bytes_since_sync := 0,
                        total_rotations := total_rotations w2 + 1\<rparr>))"

text \<open>The first file: \<open>NewWriter\<close> rotates with no current file, so nothing is synced.\<close>

definition new_writer :: "wal_config \<Rightarrow> rotation \<Rightarrow> dir \<Rightarrow> wal_writer option" where
  "new_writer c r d =
     (let w = \<lparr>dir = d, current_path = [], current_size = 0, start_time = 0, last_sync_time = r_now r,
               bytes_since_sync = 0, entry_chan = [], sequence = 0, hooked = False, written_entries = 0,
               written_bytes = 0, total_syncs = 0, total_rotations = 0, dropped_entries = 0,
               failed_writes = 0\<rparr>
      in case wal_rotate c r w of (True, w') \<Rightarrow> Some w' | (False, _) \<Rightarrow> None)"

section \<open>Appending\<close>

datatype append_error = PayloadTooLarge | WALDropped

text \<open>An entry the replication hook is called with: sequence, timestamp, payload.\<close>

type_synonym replicated = "u64 \<times> u64 \<times> bytes"

definition try_enqueue :: "wal_config \<Rightarrow> bytes \<Rightarrow> wal_writer \<Rightarrow> append_error option \<times> wal_writer" where
  "try_enqueue c d w =
     (if int (length (entry_chan w)) < buffer_size c then (None, w\<lparr>entry_chan := entry_chan w @ [d]\<rparr>)
      else (Some WALDropped, w\<lparr>dropped_entries := dropped_entries w + 1\<rparr>))"

text \<open>The hook is called before the entry is queued, and whether or not it will be.\<close>

definition call_hook :: "u64 \<Rightarrow> bytes \<Rightarrow> wal_writer \<Rightarrow> replicated list \<times> wal_writer" where
  "call_hook ts payload w =
     (if hooked w then ([(sequence w + 1, ts, payload)], w\<lparr>sequence := sequence w + 1\<rparr>) else ([], w))"

definition append_raw ::
  "wal_config \<Rightarrow> u64 \<Rightarrow> bytes \<Rightarrow> wal_writer \<Rightarrow> append_error option \<times> replicated list \<times> wal_writer" where
  "append_raw c ts payload w =
     (if max_wal_payload < length payload then (Some PayloadTooLarge, [], w)
      else (case call_hook ts payload w of
              (calls, w1) \<Rightarrow> (case try_enqueue c (entry_frame (ts, payload)) w1 of
                 (err, w2) \<Rightarrow> (err, calls, w2))))"

text \<open>
  \<open>AppendRawWithMeta\<close> builds the envelope in an array of 258 bytes; a database name that does
  not fit makes the slice expression on it panic.
\<close>

definition append_raw_with_meta ::
  "wal_config \<Rightarrow> u64 \<Rightarrow> string \<Rightarrow> bytes \<Rightarrow> wal_writer \<Rightarrow>
   (append_error option \<times> replicated list \<times> wal_writer) go" where
  "append_raw_with_meta c ts database payload w =
     (let p = envelope database @ payload
      in if max_wal_payload < length p then Ret (Some PayloadTooLarge, [], w)
         else if 258 < length (envelope database) then Panic
         else (case call_hook ts p w of
                 (calls, w1) \<Rightarrow> (case try_enqueue c (entry_frame (ts, p)) w1 of
                    (err, w2) \<Rightarrow> Ret (err, calls, w2))))"

section \<open>The writer goroutine\<close>

text \<open>What the operating system answers while one entry is written.\<close>

record write_env =
  first_write :: write_outcome
  after_failure :: rotation
  second_write :: write_outcome
  threshold_sync :: bool
  after_write :: rotation
  now :: int

text \<open>The accounting after a successful write, with the byte threshold and the rotation.\<close>

definition written :: "wal_config \<Rightarrow> write_env \<Rightarrow> nat \<Rightarrow> wal_writer \<Rightarrow> wal_writer" where
  "written c e n w =
     (let w1 = w\<lparr>current_size := current_size w + int n, bytes_since_sync := bytes_since_sync w + int n,
                 written_entries := written_entries w + 1, written_bytes := written_bytes w + int n\<rparr>;
          w2 = (if sync_bytes c \<le> bytes_since_sync w1
                then (wal_sync c (threshold_sync e) w1)
                  \<lparr>last_sync_time := now e, bytes_since_sync := 0, total_syncs := total_syncs w1 + 1\<rparr>
                else w1)
      in if max_size_bytes c \<le> current_size w2 \<or> max_age c \<le> now e - start_time w2
         then snd (wal_rotate c (after_write e) w2) else w2)"

definition put_bytes :: "bytes \<Rightarrow> write_outcome \<Rightarrow> wal_writer \<Rightarrow> wal_writer" where
  "put_bytes bs out w = w\<lparr>dir := upd_file (current_path w) (append_bytes bs out) (dir w)\<rparr>"

definition write_entry :: "wal_config \<Rightarrow> write_env \<Rightarrow> bytes \<Rightarrow> wal_writer \<Rightarrow> wal_writer" where
  "write_entry c e d w =
     (let w1 = put_bytes d (first_write e) w
      in case first_write e of
           Written \<Rightarrow> written c e (length d) w1
         | WriteFails _ \<Rightarrow>
             (case wal_rotate c (after_failure e) (w1\<lparr>failed_writes := failed_writes w1 + 1\<rparr>) of
                (False, w2) \<Rightarrow> w2
              | (True, w2) \<Rightarrow>
                  let w3 = put_bytes d (second_write e) w2
                  in case second_write e of
                       Written \<Rightarrow> written c e (length d) w3
                     | WriteFails _ \<Rightarrow> w3\<lparr>failed_writes := failed_writes w3 + 1\<rparr>))"

text \<open>The periodic sync, which \<open>Close\<close> also makes after it has drained the queue.\<close>

definition ticker_sync :: "wal_config \<Rightarrow> bool \<Rightarrow> int \<Rightarrow> wal_writer \<Rightarrow> wal_writer" where
  "ticker_sync c ok t w =
     (if 0 < bytes_since_sync w
      then (wal_sync c ok w)\<lparr>last_sync_time := t, bytes_since_sync := 0, total_syncs := total_syncs w + 1\<rparr>
      else w)"

section \<open>Purging\<close>

text \<open>\<open>purgeWALFiles\<close>, for a directory in which every removal succeeds.\<close>

definition is_wal :: "string \<Rightarrow> bool" where
  "is_wal p \<longleftrightarrow> (\<exists>q. p = q @ ''.wal'')"

lemma is_wal_code [code]: "is_wal p \<longleftrightarrow> 4 \<le> length p \<and> drop (length p - 4) p = ''.wal''"
proof
  assume "4 \<le> length p \<and> drop (length p - 4) p = ''.wal''"
  then have "p = take (length p - 4) p @ ''.wal''" by (metis append_take_drop_id)
  then show "is_wal p" unfolding is_wal_def by blast
qed (auto simp: is_wal_def)

definition purge_wal_files :: "(string \<Rightarrow> bool) \<Rightarrow> wal_writer \<Rightarrow> int \<times> wal_writer" where
  "purge_wal_files del w =
     (let gone = [(p, f) \<leftarrow> dir w. is_wal p \<and> del p]
      in (int (length gone), w\<lparr>dir := [(p, f) \<leftarrow> dir w. \<not> (is_wal p \<and> del p)]\<rparr>))"

definition purge_all :: "wal_writer \<Rightarrow> int \<times> wal_writer" where
  "purge_all = purge_wal_files (\<lambda>_. True)"

definition purge_inactive :: "wal_writer \<Rightarrow> int \<times> wal_writer" where
  "purge_inactive w = purge_wal_files (\<lambda>p. p \<noteq> current_path w) w"

text \<open>\<open>mtime\<close> is what \<^verbatim>\<open>os.Stat\<close> answers; a file it fails on is kept.\<close>

definition purge_older_than :: "(string \<Rightarrow> int option) \<Rightarrow> int \<Rightarrow> int \<Rightarrow> wal_writer \<Rightarrow> int \<times> wal_writer" where
  "purge_older_than mtime t min_age w =
     purge_wal_files (\<lambda>p. p \<noteq> current_path w \<and>
       (case mtime p of None \<Rightarrow> False | Some m \<Rightarrow> min_age < t - m)) w"

end
