(* ===== verification/WAL_Log.thy ===== *)
theory WAL_Log
  imports WAL_Writer
begin

text \<open>
  What the WAL as a whole promises.  A run of the writer is a path of the step relation
  \<open>wal_step\<close>; the abstract log of a state is the frames in the files of the directory, in the
  order of their creation, followed by the queued ones.  Every append that returned nil adds
  its entry to the abstract log, no other step changes it, and a crash, which may cut the
  unsynced tail of the current file, leaves a prefix of it that recovery reads back.
\<close>

section \<open>Steps\<close>

text \<open>
  What the runs considered ask of the environment: an entry is written to the current file or,
  after a failure, to a new one; a failed write stores less than it was given; rotations make
  new files (their names carry the time in nanoseconds).  \<open>s\<close> says that the mode syncs and that
  syncs succeed.
\<close>

definition partial :: "nat \<Rightarrow> write_outcome \<Rightarrow> bool" where
  "partial n out \<longleftrightarrow> (case out of Written \<Rightarrow> True | WriteFails k \<Rightarrow> k < n)"

definition syncs :: "wal_config \<Rightarrow> bool" where
  "syncs c \<longleftrightarrow> sync_mode c = Fsync \<or> sync_mode c = Fdatasync"

definition rotation_ok :: "bool \<Rightarrow> string set \<Rightarrow> rotation \<Rightarrow> bool" where
  "rotation_ok s names r \<longleftrightarrow>
     r_path r \<notin> names \<and> partial file_header_size (r_header r) \<and> (s \<longrightarrow> r_sync r)"

definition names :: "wal_writer \<Rightarrow> string set" where
  "names w = fst ` set (dir w)"

definition env_ok :: "bool \<Rightarrow> wal_writer \<Rightarrow> bytes \<Rightarrow> write_env \<Rightarrow> bool" where
  "env_ok s w d e \<longleftrightarrow>
     partial (length d) (first_write e) \<and> (s \<longrightarrow> threshold_sync e) \<and>
     rotation_ok s (names w) (after_failure e) \<and>
     rotation_ok s (insert (r_path (after_failure e)) (names w)) (after_write e) \<and>
     (first_write e = Written \<or>
      r_opens (after_failure e) \<and> r_header (after_failure e) = Written \<and> second_write e = Written)"

text \<open>The frames a step accepts are its label.\<close>

inductive wal_step ::
  "wal_config \<Rightarrow> bool \<Rightarrow> wal_writer \<Rightarrow> (u64 \<times> bytes) list \<Rightarrow> wal_writer \<Rightarrow> bool" for c s where
  accept: "append_raw c ts p w = (None, calls, w') \<Longrightarrow> wal_step c s w [(ts, p)] w'"
| refuse: "append_raw c ts p w = (Some err, calls, w') \<Longrightarrow> wal_step c s w [] w'"
| accept_meta: "append_raw_with_meta c ts db p w = Ret (None, calls, w') \<Longrightarrow>
    wal_step c s w [(ts, envelope db @ p)] w'"
| refuse_meta: "append_raw_with_meta c ts db p w = Ret (Some err, calls, w') \<Longrightarrow> wal_step c s w [] w'"
| write_next: "entry_chan w = d # q \<Longrightarrow> env_ok s w d e \<Longrightarrow>
    wal_step c s w [] (write_entry c e d (w\<lparr>entry_chan := q\<rparr>))"
| tick: "s \<longrightarrow> ok \<Longrightarrow> wal_step c s w [] (ticker_sync c ok t w)"
| set_hook: "wal_step c s w [] (w\<lparr>hooked := True\<rparr>)"

inductive wal_run ::
  "wal_config \<Rightarrow> bool \<Rightarrow> wal_writer \<Rightarrow> (u64 \<times> bytes) list \<Rightarrow> wal_writer \<Rightarrow> bool" for c s w where
  stop: "wal_run c s w [] w"
| step: "wal_run c s w log w' \<Longrightarrow> wal_step c s w' out w'' \<Longrightarrow> wal_run c s w (log @ out) w''"

section \<open>Files and the abstract log\<close>

definition frames_of :: "disk_file \<Rightarrow> (u64 \<times> bytes) list" where
  "frames_of f = received next_frame (drop file_header_size (content f))"

definition disk_log :: "dir \<Rightarrow> (u64 \<times> bytes) list" where
  "disk_log d = concat (map (frames_of \<circ> snd) d)"

definition queued :: "wal_writer \<Rightarrow> (u64 \<times> bytes) list" where
  "queued w = concat (map (received next_frame) (entry_chan w))"

definition wal_log :: "wal_writer \<Rightarrow> (u64 \<times> bytes) list" where
  "wal_log w = disk_log (dir w) @ queued w"

text \<open>
  A file the writer has left: a start of the header (a rotation that failed), or the header,
  whole frames and a torn tail.  In the durable case its frames have been synced.
\<close>

definition stub :: "disk_file \<Rightarrow> bool" where
  "stub f \<longleftrightarrow> content f = take (length (content f)) file_header"

definition holds :: "bool \<Rightarrow> (u64 \<times> bytes) list \<Rightarrow> bytes \<Rightarrow> disk_file \<Rightarrow> bool" where
  "holds s fs t f \<longleftrightarrow>
     content f = file_header @ concat (map entry_frame fs) @ t \<and> (\<forall>q\<in>set fs. fits q) \<and> torn_tail t \<and>
     (s \<and> fs \<noteq> [] \<longrightarrow> file_header_size + length (concat (map entry_frame fs)) \<le> durable f)"

definition file_wf :: "bool \<Rightarrow> disk_file \<Rightarrow> bool" where
  "file_wf s f \<longleftrightarrow> stub f \<or> (\<exists>fs t. holds s fs t f)"

lemma received_next_Nil [simp]: "received next_frame [] = []"
  by (simp add: received_def)

lemma frames_of_stub [simp]: "stub f \<Longrightarrow> frames_of f = []"
proof -
  assume "stub f"
  then have "length (content f) \<le> file_header_size"
    by (metis length_file_header length_take min.cobounded1 stub_def)
  then show ?thesis by (simp add: frames_of_def)
qed

lemma received_tail: "torn_tail t \<Longrightarrow> received next_frame t = []"
  unfolding torn_tail_def using wal.received_nothing wal.dec_torn by auto

lemma frames_of_content:
  "content f = file_header @ concat (map entry_frame fs) @ t \<Longrightarrow> \<forall>q\<in>set fs. fits q \<Longrightarrow> torn_tail t \<Longrightarrow>
   frames_of f = fs"
  by (simp add: frames_of_def wal.received_concat received_tail)

lemma frames_of_holds: "holds s fs t f \<Longrightarrow> frames_of f = fs"
  by (auto simp: holds_def intro: frames_of_content)

lemma disk_log_append [simp]: "disk_log (d @ d') = disk_log d @ disk_log d'"
  by (simp add: disk_log_def)

lemma disk_log_Cons [simp]: "disk_log ((p, f) # d) = frames_of f @ disk_log d"
  by (simp add: disk_log_def)

lemma disk_log_Nil [simp]: "disk_log [] = []"
  by (simp add: disk_log_def)

lemma disk_log_stubs: "\<forall>f\<in>snd ` set d. stub f \<Longrightarrow> disk_log d = []"
  by (induction d) auto

lemma stub_take: "content f = take n file_header \<Longrightarrow> stub f"
  by (simp add: stub_def min_def)

lemma upd_file_at: "p \<notin> fst ` set pre \<Longrightarrow> upd_file p g (pre @ (p, f) # post) = pre @ (p, g f) # post"
  by (induction pre) auto

section \<open>The view of a state\<close>

text \<open>
  \<open>wal_view s u t L w\<close>: the current file of \<open>w\<close> ends with the torn bytes \<open>t\<close>, every file before
  it is one the writer has left, those after it hold nothing, and \<open>L\<close> is the log on disk.
  Unless \<open>u\<close>, the frames of the current file are synced.
\<close>

definition wal_view :: "bool \<Rightarrow> bool \<Rightarrow> bytes \<Rightarrow> (u64 \<times> bytes) list \<Rightarrow> wal_writer \<Rightarrow> bool" where
  "wal_view s u t L w \<longleftrightarrow>
     (\<exists>pre f fs post. dir w = pre @ (current_path w, f) # post \<and>
        current_path w \<notin> fst ` set pre \<and> current_path w \<notin> fst ` set post \<and>
        (\<forall>g\<in>snd ` set pre. file_wf s g) \<and> (\<forall>g\<in>snd ` set post. stub g) \<and>
        holds (s \<and> \<not> u) fs t f \<and> L = disk_log pre @ fs)"

lemma wal_view_log: "wal_view s u t L w \<Longrightarrow> disk_log (dir w) = L"
  by (auto simp: wal_view_def disk_log_stubs frames_of_holds)

lemma wal_view_cong:
  "wal_view s u t L w \<Longrightarrow> dir w' = dir w \<Longrightarrow> current_path w' = current_path w \<Longrightarrow> wal_view s u t L w'"
  by (simp add: wal_view_def)

lemma holds_mono: "holds s fs t f \<Longrightarrow> (s' \<Longrightarrow> s) \<Longrightarrow> holds s' fs t f"
  by (auto simp: holds_def)

lemma file_wf_mono: "file_wf s g \<Longrightarrow> file_wf False g"
  using holds_mono [of s _ _ g False] by (auto simp: file_wf_def)

lemma file_wf_view: "wal_view s u t L w \<Longrightarrow> g \<in> snd ` set (dir w) \<Longrightarrow> file_wf False g"
proof -
  assume v: "wal_view s u t L w" and "g \<in> snd ` set (dir w)"
  then obtain pre f fs post where "dir w = pre @ (current_path w, f) # post"
    "\<forall>g\<in>snd ` set pre. file_wf s g" "\<forall>g\<in>snd ` set post. stub g" "holds (s \<and> \<not> u) fs t f"
    by (auto simp: wal_view_def)
  then consider "file_wf s g" | "stub g" | "holds (s \<and> \<not> u) fs t g"
    using \<open>g \<in> snd ` set (dir w)\<close> by (simp add: image_Un) blast
  then show ?thesis
  proof cases
    case 1
    then show ?thesis by (rule file_wf_mono)
  next
    case 3
    then show ?thesis using holds_mono [of _ fs t g False] by (auto simp: file_wf_def)
  qed (simp add: file_wf_def)
qed

lemma torn_take: "fits q \<Longrightarrow> n < length (entry_frame q) \<Longrightarrow> torn_tail (take n (entry_frame q))"
  unfolding torn_tail_def by (meson proper_prefix_take)

lemma view_written:
  assumes "wal_view s u [] L w" "fits q"
  shows "wal_view s True [] (L @ [q]) (put_bytes (entry_frame q) Written w)"
proof -
  obtain pre f fs post where v: "dir w = pre @ (current_path w, f) # post"
    "current_path w \<notin> fst ` set pre" "current_path w \<notin> fst ` set post"
    "\<forall>g\<in>snd ` set pre. file_wf s g" "\<forall>g\<in>snd ` set post. stub g"
    "holds (s \<and> \<not> u) fs [] f" "L = disk_log pre @ fs"
    using assms(1) by (auto simp: wal_view_def)
  let ?f = "append_bytes (entry_frame q) Written f"
  have "holds (s \<and> \<not> True) (fs @ [q]) [] ?f"
    using v(6) assms(2) by (auto simp: holds_def append_bytes_def)
  then show ?thesis
    unfolding wal_view_def
    using v by (intro exI [of _ pre] exI [of _ ?f] exI [of _ "fs @ [q]"] exI [of _ post])
      (simp add: put_bytes_def upd_file_at)
qed

lemma view_torn:
  assumes "wal_view s u [] L w" "fits q" "n < length (entry_frame q)"
  shows "wal_view s u (take n (entry_frame q)) L (put_bytes (entry_frame q) (WriteFails n) w)"
proof -
  obtain pre f fs post where v: "dir w = pre @ (current_path w, f) # post"
    "current_path w \<notin> fst ` set pre" "current_path w \<notin> fst ` set post"
    "\<forall>g\<in>snd ` set pre. file_wf s g" "\<forall>g\<in>snd ` set post. stub g"
    "holds (s \<and> \<not> u) fs [] f" "L = disk_log pre @ fs"
    using assms(1) by (auto simp: wal_view_def)
  let ?f = "append_bytes (entry_frame q) (WriteFails n) f"
  have "torn_tail (take n (entry_frame q))"
    by (rule torn_take [OF assms(2,3)])
  then have "holds (s \<and> \<not> u) fs (take n (entry_frame q)) ?f"
    using v(6) by (auto simp: holds_def append_bytes_def)
  then show ?thesis
    unfolding wal_view_def
    using v by (intro exI [of _ pre] exI [of _ ?f] exI [of _ fs] exI [of _ post])
      (simp add: put_bytes_def upd_file_at)
qed

lemma holds_synced: "holds s fs t f \<Longrightarrow> holds s' fs t (sync_file f)"
  by (auto simp: holds_def sync_file_def)

lemma view_sync:
  assumes "wal_view s u t L w" "s \<longrightarrow> syncs c \<and> ok"
  shows "wal_view s False t L (wal_sync c ok w)"
proof -
  obtain pre f fs post where v: "dir w = pre @ (current_path w, f) # post"
    "current_path w \<notin> fst ` set pre" "current_path w \<notin> fst ` set post"
    "\<forall>g\<in>snd ` set pre. file_wf s g" "\<forall>g\<in>snd ` set post. stub g"
    "holds (s \<and> \<not> u) fs t f" "L = disk_log pre @ fs"
    using assms(1) by (auto simp: wal_view_def)
  show ?thesis
  proof (cases "syncs c \<and> ok")
    case True
    then have "wal_sync c ok w = w\<lparr>dir := pre @ (current_path w, sync_file f) # post\<rparr>"
      using v(1,2) by (auto simp: wal_sync_def syncs_def upd_file_at)
    then show ?thesis
      unfolding wal_view_def
      using v holds_synced [OF v(6), of "s \<and> \<not> False"]
      by (intro exI [of _ pre] exI [of _ "sync_file f"] exI [of _ fs] exI [of _ post]) simp
  next
    case False
    then have "wal_sync c ok w = w" "\<not> s"
      using assms(2) by (auto simp: wal_sync_def syncs_def split: sync_mode.splits)
    moreover have "wal_view s False t L w"
      unfolding wal_view_def
      using v \<open>\<not> s\<close> by (intro exI [of _ pre] exI [of _ f] exI [of _ fs] exI [of _ post]) simp
    ultimately show ?thesis by simp
  qed
qed

text \<open>A rotation that failed leaves at most a file without frames behind.\<close>

lemma view_new_file:
  assumes "wal_view s u t L w" "r_path r \<notin> names w"
  shows "wal_view s u t L (w\<lparr>dir := upd_file (r_path r) (append_bytes file_header out) (open_append (r_path r) (dir w))\<rparr>)"
    "\<exists>d. upd_file (r_path r) (append_bytes file_header out) (open_append (r_path r) (dir w)) =
      dir w @ [(r_path r, append_bytes file_header out empty_file)]"
proof -
  obtain pre f fs post where v: "dir w = pre @ (current_path w, f) # post"
    "current_path w \<notin> fst ` set pre" "current_path w \<notin> fst ` set post"
    "\<forall>g\<in>snd ` set pre. file_wf s g" "\<forall>g\<in>snd ` set post. stub g"
    "holds (s \<and> \<not> u) fs t f" "L = disk_log pre @ fs"
    using assms(1) by (auto simp: wal_view_def)
  let ?g = "append_bytes file_header out empty_file"
  have new: "upd_file (r_path r) (append_bytes file_header out) (open_append (r_path r) (dir w)) = dir w @ [(r_path r, ?g)]"
    using assms(2) upd_file_at [of "r_path r" "dir w" "append_bytes file_header out" empty_file "[]"]
    by (simp add: names_def open_append_def)
  have "stub ?g"
    by (cases out) (auto simp: append_bytes_def empty_file_def intro: stub_take [of _ file_header_size] stub_take)
  moreover have "r_path r \<noteq> current_path w" using assms(2) v(1) by (auto simp: names_def)
  ultimately show "wal_view s u t L (w\<lparr>dir := upd_file (r_path r) (append_bytes file_header out) (open_append (r_path r) (dir w))\<rparr>)"
    unfolding wal_view_def new
    using v by (intro exI [of _ pre] exI [of _ f] exI [of _ fs] exI [of _ "post @ [(r_path r, ?g)]"]) auto
  show "\<exists>d. upd_file (r_path r) (append_bytes file_header out) (open_append (r_path r) (dir w)) =
      dir w @ [(r_path r, ?g)]"
    using new by blast
qed

lemma view_switch:
  assumes "wal_view s False t L w" "dir w = d @ [(p, g)]" "current_path w \<in> fst ` set d" "p \<notin> fst ` set d"
    "content g = file_header" "dir w' = dir w" "current_path w' = p"
  shows "wal_view s u [] L w'"
proof -
  obtain pre f fs post where v: "dir w = pre @ (current_path w, f) # post"
    "current_path w \<notin> fst ` set pre" "current_path w \<notin> fst ` set post"
    "\<forall>g\<in>snd ` set pre. file_wf s g" "\<forall>g\<in>snd ` set post. stub g"
    "holds (s \<and> \<not> False) fs t f" "L = disk_log pre @ fs"
    using assms(1) by (auto simp: wal_view_def)
  have "current_path w \<noteq> p" using assms(3,4) by auto
  then obtain post' where post: "post = post' @ [(p, g)]" "d = pre @ (current_path w, f) # post'"
    using v(1) assms(2) by (cases post rule: rev_cases) auto
  have fs: "frames_of f = fs" using v(6) by (rule frames_of_holds)
  have wf: "\<forall>g\<in>snd ` set d. file_wf s g"
    using v post by (auto simp: file_wf_def)
  have "holds (s \<and> \<not> u) [] [] g" using assms(5) by (simp add: holds_def)
  moreover have "disk_log d = disk_log pre @ fs"
    using v(5) post fs by (simp add: disk_log_stubs)
  ultimately show ?thesis
    unfolding wal_view_def using assms(2,4,6,7) wf v(7)
    by (intro exI [of _ d] exI [of _ g] exI [of _ "[]"] exI [of _ "[]"]) simp
qed

lemma names_upd_file [simp]: "fst ` set (upd_file p g d) = fst ` set d"
proof -
  have "map fst (upd_file p g d) = map fst d" by (induction d) auto
  then show ?thesis by (metis set_map)
qed

lemma wal_sync_fields [simp]:
  "current_path (wal_sync c ok w) = current_path w"
  "entry_chan (wal_sync c ok w) = entry_chan w"
  "bytes_since_sync (wal_sync c ok w) = bytes_since_sync w"
  by (simp_all add: wal_sync_def split: sync_mode.split)

lemma names_sync [simp]: "names (wal_sync c ok w) = names w"
  by (simp add: names_def wal_sync_def split: sync_mode.split)

text \<open>The state between two steps, without its queue.\<close>

definition settled :: "bool \<Rightarrow> (u64 \<times> bytes) list \<Rightarrow> wal_writer \<Rightarrow> bool" where
  "settled s L w \<longleftrightarrow> wal_view s (0 < bytes_since_sync w) [] L w \<and> 0 \<le> bytes_since_sync w"

lemma rotate_failed:
  assumes "wal_view s u t L w" "rotation_ok s (names w) r" "wal_rotate c r w = (False, w')"
  shows "wal_view s u t L w'" "bytes_since_sync w' = bytes_since_sync w" "entry_chan w' = entry_chan w"
proof -
  have fresh: "r_path r \<notin> names w" using assms(2) by (simp add: rotation_ok_def)
  show "wal_view s u t L w'"
    using assms(1,3) view_new_file(1) [OF assms(1) fresh]
    by (auto simp: wal_rotate_def Let_def split: if_splits write_outcome.splits)
  show "bytes_since_sync w' = bytes_since_sync w" "entry_chan w' = entry_chan w"
    using assms(3) by (auto simp: wal_rotate_def Let_def split: if_splits write_outcome.splits)
qed

lemma rotate_done:
  assumes v: "wal_view s u t L w" and u: "u \<longrightarrow> 0 < bytes_since_sync w"
    and ok: "rotation_ok s (names w) r" "s \<longrightarrow> syncs c" and r: "wal_rotate c r w = (True, w')"
  shows "settled s L w'" "entry_chan w' = entry_chan w" "bytes_since_sync w' = 0"
    "names w' = insert (r_path r) (names w)"
proof -
  have fresh: "r_path r \<notin> names w" and sync: "s \<longrightarrow> syncs c \<and> r_sync r"
    using ok by (simp_all add: rotation_ok_def)
  have open_ok: "r_opens r" "r_header r = Written"
    using r by (auto simp: wal_rotate_def Let_def split: if_splits write_outcome.splits)
  let ?d = "dir w @ [(r_path r, append_bytes file_header Written empty_file)]"
  define w1 where "w1 = w\<lparr>dir := ?d\<rparr>"
  define w2 where "w2 = (if 0 < bytes_since_sync w
    then (wal_sync c (r_sync r) w1)\<lparr>total_syncs := total_syncs w1 + 1\<rparr> else w1)"
  have new: "upd_file (r_path r) (append_bytes file_header Written) (open_append (r_path r) (dir w)) = ?d"
    using view_new_file(2) [OF v fresh] by simp
  have w': "w' = w2\<lparr>current_path := r_path r, current_size := int (length file_header),
      start_time := r_now r, last_sync_time := r_now r, bytes_since_sync := 0,
      total_rotations := total_rotations w2 + 1\<rparr>"
    using r open_ok unfolding wal_rotate_def by (auto simp: new w1_def w2_def Let_def)
  have cur: "current_path w \<in> fst ` set (dir w)" using v by (auto simp: wal_view_def)
  have v1: "wal_view s u t L w1"
    using view_new_file(1) [OF v fresh, of Written] by (simp add: new w1_def)
  have v2: "wal_view s False t L w2"
  proof (cases "0 < bytes_since_sync w")
    case True
    then show ?thesis
      using view_sync [OF v1 sync] by (auto simp: w2_def intro: wal_view_cong)
  next
    case False
    then show ?thesis using v1 u by (cases u) (simp_all add: w2_def)
  qed
  have d2: "\<exists>d. dir w2 = d @ [(r_path r, append_bytes file_header Written empty_file)] \<and>
      fst ` set d = fst ` set (dir w)"
  proof -
    have upd: "upd_file (current_path w) sync_file ?d =
        upd_file (current_path w) sync_file (dir w) @ [(r_path r, append_bytes file_header Written empty_file)]"
    proof -
      obtain pre f post where "dir w = pre @ (current_path w, f) # post" "current_path w \<notin> fst ` set pre"
        using v by (auto simp: wal_view_def)
      then show ?thesis by (simp add: upd_file_at)
    qed
    then show ?thesis
      by (auto simp: w2_def w1_def wal_sync_def split: sync_mode.split)
  qed
  then obtain d where d: "dir w2 = d @ [(r_path r, append_bytes file_header Written empty_file)]"
    "fst ` set d = fst ` set (dir w)" by blast
  have cur2: "current_path w2 = current_path w" by (simp add: w2_def w1_def)
  have "wal_view s False [] L w'"
    by (rule view_switch [OF v2 d(1)]) (use cur cur2 d(2) fresh w' in \<open>auto simp: names_def append_bytes_def empty_file_def\<close>)
  then show "settled s L w'" using w' by (simp add: settled_def)
  show "entry_chan w' = entry_chan w" "bytes_since_sync w' = 0"
    using w' by (simp_all add: w2_def w1_def)
  show "names w' = insert (r_path r) (names w)"
    using d w' by (simp add: names_def)
qed

section \<open>Writing one entry\<close>

lemma rotation_ok_mono: "rotation_ok s N r \<Longrightarrow> N' \<subseteq> N \<Longrightarrow> rotation_ok s N' r"
  by (auto simp: rotation_ok_def)

lemma names_put [simp]: "names (put_bytes d out w) = names w"
  by (simp add: names_def put_bytes_def)

lemma put_bytes_fields [simp]:
  "bytes_since_sync (put_bytes d out w) = bytes_since_sync w"
  "entry_chan (put_bytes d out w) = entry_chan w"
  by (simp_all add: put_bytes_def)

lemma rotate_settled:
  assumes "settled s L w" "rotation_ok s (names w) r" "s \<longrightarrow> syncs c"
  shows "settled s L (snd (wal_rotate c r w))" "entry_chan (snd (wal_rotate c r w)) = entry_chan w"
proof -
  have v: "wal_view s (0 < bytes_since_sync w) [] L w" and b: "0 \<le> bytes_since_sync w"
    using assms(1) by (simp_all add: settled_def)
  obtain k w' where r: "wal_rotate c r w = (k, w')" by (cases "wal_rotate c r w")
  have "settled s L w' \<and> entry_chan w' = entry_chan w"
  proof (cases k)
    case True
    then have "wal_rotate c r w = (True, w')" using r by simp
    then show ?thesis using rotate_done [OF v _ assms(2,3)] by blast
  next
    case False
    then have "wal_rotate c r w = (False, w')" using r by simp
    then show ?thesis using rotate_failed [OF v assms(2)] b by (simp add: settled_def)
  qed
  then show "settled s L (snd (wal_rotate c r w))" "entry_chan (snd (wal_rotate c r w)) = entry_chan w"
    using r by simp_all
qed

lemma written_settled:
  assumes v: "wal_view s True [] L w" "0 \<le> bytes_since_sync w" "0 < n"
    and ok: "s \<longrightarrow> syncs c \<and> threshold_sync e" "rotation_ok s (names w) (after_write e)"
  shows "settled s L (written c e n w)" "entry_chan (written c e n w) = entry_chan w"
proof -
  define w1 where "w1 = w\<lparr>current_size := current_size w + int n,
    bytes_since_sync := bytes_since_sync w + int n, written_entries := written_entries w + 1,
    written_bytes := written_bytes w + int n\<rparr>"
  define w2 where "w2 = (if sync_bytes c \<le> bytes_since_sync w1
    then (wal_sync c (threshold_sync e) w1)
      \<lparr>last_sync_time := now e, bytes_since_sync := 0, total_syncs := total_syncs w1 + 1\<rparr> else w1)"
  have v1: "wal_view s True [] L w1" by (rule wal_view_cong [OF v(1)]) (simp_all add: w1_def)
  have "settled s L w2"
  proof (cases "sync_bytes c \<le> bytes_since_sync w1")
    case True
    have "wal_view s False [] L w2"
      by (rule wal_view_cong [OF view_sync [OF v1 ok(1)]]) (simp_all add: w2_def True)
    then show ?thesis by (simp add: settled_def w2_def True)
  next
    case False
    then show ?thesis using v1 v(2,3) by (simp add: settled_def w2_def) (simp add: w1_def)
  qed
  moreover have "names w2 = names w"
  proof -
    have "names (w\<lparr>last_sync_time := a, bytes_since_sync := b, total_syncs := n\<rparr>) = names w" for a b n w
      by (simp add: names_def)
    then show ?thesis by (simp add: w2_def) (simp add: w1_def names_def)
  qed
  moreover have "entry_chan w2 = entry_chan w" by (simp add: w2_def w1_def)
  moreover have "written c e n w = w2 \<or> written c e n w = snd (wal_rotate c (after_write e) w2)"
    by (simp add: written_def w1_def [symmetric] w2_def [symmetric] Let_def)
  ultimately show "settled s L (written c e n w)" "entry_chan (written c e n w) = entry_chan w"
    using rotate_settled [of s L w2 "after_write e" c] ok by auto
qed

lemma rotate_succeeds: "r_opens r \<Longrightarrow> r_header r = Written \<Longrightarrow> \<exists>w'. wal_rotate c r w = (True, w')"
  by (simp add: wal_rotate_def Let_def)

lemma write_entry_settled:
  assumes "settled s L w" "fits q" "env_ok s w (entry_frame q) e" "s \<longrightarrow> syncs c"
  shows "settled s (L @ [q]) (write_entry c e (entry_frame q) w) \<and>
    entry_chan (write_entry c e (entry_frame q) w) = entry_chan w"
proof -
  let ?d = "entry_frame q"
  have v: "wal_view s (0 < bytes_since_sync w) [] L w" and b: "0 \<le> bytes_since_sync w"
    using assms(1) by (simp_all add: settled_def)
  have sync: "s \<longrightarrow> syncs c \<and> threshold_sync e" and
    rot1: "rotation_ok s (names w) (after_failure e)" and
    rot2: "rotation_ok s (insert (r_path (after_failure e)) (names w)) (after_write e)"
    using assms(3,4) by (simp_all add: env_ok_def)
  show ?thesis
  proof (cases "first_write e")
    case Written
    then have "write_entry c e ?d w = written c e (length ?d) (put_bytes ?d Written w)"
      by (simp add: write_entry_def)
    then show ?thesis
      using written_settled [OF view_written [OF v assms(2)] _ _ sync, of "length ?d"] b
        rotation_ok_mono [OF rot2, of "names w"] by auto
  next
    case (WriteFails k)
    define w1 where "w1 = (put_bytes ?d (WriteFails k) w)\<lparr>failed_writes := failed_writes (put_bytes ?d (WriteFails k) w) + 1\<rparr>"
    have k: "k < length ?d" and again: "r_opens (after_failure e)" "r_header (after_failure e) = Written"
      "second_write e = Written"
      using assms(3) WriteFails by (auto simp: env_ok_def partial_def)
    obtain w2 where w2: "wal_rotate c (after_failure e) w1 = (True, w2)"
      using rotate_succeeds [OF again(1,2)] by blast
    have v1: "wal_view s (0 < bytes_since_sync w) (take k ?d) L w1"
      by (rule wal_view_cong [OF view_torn [OF v assms(2) k]]) (simp_all add: w1_def)
    have "names w1 = names w" by (simp add: w1_def names_def put_bytes_def)
    then have rot1': "rotation_ok s (names w1) (after_failure e)" using rot1 by simp
    note rd = rotate_done [OF v1 _ rot1' assms(4) w2]
    have b1: "0 < bytes_since_sync w \<longrightarrow> 0 < bytes_since_sync w1" by (simp add: w1_def)
    have v2: "wal_view s False [] L w2"
      using rd(1,3) [OF b1] by (simp add: settled_def)
    have "write_entry c e ?d w = written c e (length ?d) (put_bytes ?d Written w2)"
      using WriteFails again w2 by (simp add: write_entry_def w1_def Let_def)
    moreover have "rotation_ok s (names w2) (after_write e)"
      using rotation_ok_mono [OF rot2] rd(4) [OF b1] \<open>names w1 = names w\<close> by simp
    ultimately show ?thesis
      using written_settled [OF view_written [OF v2 assms(2)] _ _ sync, of "length ?d"] rd(2,3) [OF b1]
      by (simp add: w1_def)
  qed
qed

section \<open>Runs\<close>

definition wal_inv :: "bool \<Rightarrow> wal_writer \<Rightarrow> bool" where
  "wal_inv s w \<longleftrightarrow> settled s (disk_log (dir w)) w \<and> (\<forall>d\<in>set (entry_chan w). \<exists>q. fits q \<and> d = entry_frame q)"

lemma settled_log: "settled s L w \<Longrightarrow> disk_log (dir w) = L"
  by (auto simp: settled_def dest: wal_view_log)

lemma settled_cong:
  "settled s L w \<Longrightarrow> dir w' = dir w \<Longrightarrow> current_path w' = current_path w \<Longrightarrow>
   bytes_since_sync w' = bytes_since_sync w \<Longrightarrow> settled s L w'"
  by (auto simp: settled_def intro: wal_view_cong)

lemma received_frame [simp]: "fits q \<Longrightarrow> received next_frame (entry_frame q) = [q]"
  using wal.received_all [of "[q]"] by simp

text \<open>An append that is accepted puts one frame into the queue, one that is refused none.\<close>

lemma enqueue_inv:
  assumes "wal_inv s w" "fits q" "try_enqueue c (entry_frame q) w1 = (err, w')"
    "dir w1 = dir w" "current_path w1 = current_path w" "bytes_since_sync w1 = bytes_since_sync w"
    "entry_chan w1 = entry_chan w"
  shows "wal_inv s w' \<and> wal_log w' = wal_log w @ (if err = None then [q] else [])"
proof -
  have same: "dir w' = dir w" "current_path w' = current_path w" "bytes_since_sync w' = bytes_since_sync w"
    and chan: "entry_chan w' = entry_chan w @ (if err = None then [entry_frame q] else [])"
    using assms(3-7) by (auto simp: try_enqueue_def split: if_splits)
  have "settled s (disk_log (dir w')) w'"
    using assms(1) settled_cong [OF _ same] same(1) by (simp add: wal_inv_def)
  then show ?thesis
    using assms(1,2) chan same(1)
    by (auto simp: wal_inv_def wal_log_def queued_def simp del: split_paired_Ex)
qed

lemma call_hook_fields:
  "call_hook ts p w = (calls, w1) \<Longrightarrow> dir w1 = dir w \<and> current_path w1 = current_path w \<and>
     bytes_since_sync w1 = bytes_since_sync w \<and> entry_chan w1 = entry_chan w"
  by (auto simp: call_hook_def split: if_splits)

lemma append_raw_inv:
  assumes "wal_inv s w" "append_raw c ts p w = (err, calls, w')"
  shows "wal_inv s w' \<and> wal_log w' = wal_log w @ (if err = None then [(ts, p)] else [])"
proof (cases "max_wal_payload < length p")
  case True
  then show ?thesis using assms by (auto simp: append_raw_def)
next
  case False
  obtain calls' w1 where h: "call_hook ts p w = (calls', w1)" by (cases "call_hook ts p w")
  then have "try_enqueue c (entry_frame (ts, p)) w1 = (err, w')"
    using assms(2) False by (auto simp: append_raw_def split: prod.splits)
  then show ?thesis
    using enqueue_inv [OF assms(1), of "(ts, p)"] False call_hook_fields [OF h] by (simp add: fits_def)
qed

lemma append_meta_inv:
  assumes "wal_inv s w" "append_raw_with_meta c ts db p w = Ret (err, calls, w')"
  shows "wal_inv s w' \<and> wal_log w' = wal_log w @ (if err = None then [(ts, envelope db @ p)] else [])"
proof (cases "max_wal_payload < length (envelope db @ p)")
  case True
  then show ?thesis using assms by (auto simp: append_raw_with_meta_def)
next
  case False
  obtain calls' w1 where h: "call_hook ts (envelope db @ p) w = (calls', w1)"
    by (cases "call_hook ts (envelope db @ p) w")
  then have "try_enqueue c (entry_frame (ts, envelope db @ p)) w1 = (err, w')"
    using assms(2) False by (auto simp: append_raw_with_meta_def Let_def split: prod.splits if_splits)
  then show ?thesis
    using enqueue_inv [OF assms(1), of "(ts, envelope db @ p)"] False call_hook_fields [OF h]
    by (simp add: fits_def)
qed

lemma wal_step_inv:
  assumes "wal_step c s w out w'" "s \<longrightarrow> syncs c" "wal_inv s w"
  shows "wal_inv s w' \<and> wal_log w' = wal_log w @ out"
  using assms
proof cases
  case (write_next d q e)
  obtain x where x: "fits x" "d = entry_frame x"
    using assms(3) write_next(3) by (auto simp: wal_inv_def)
  let ?w = "w\<lparr>entry_chan := q\<rparr>"
  have "settled s (disk_log (dir w)) ?w"
    using assms(3) by (auto simp: wal_inv_def intro: settled_cong)
  moreover have "env_ok s ?w (entry_frame x) e"
    using write_next(4) x(2) by (simp add: env_ok_def names_def)
  ultimately have w': "settled s (disk_log (dir w) @ [x]) w'" "entry_chan w' = q"
    using write_entry_settled [of s _ ?w x e c] x assms(2) write_next(2) by simp_all
  then show ?thesis
    using settled_log [OF w'(1)] assms(3) write_next(1,3) x
    by (simp add: wal_inv_def wal_log_def queued_def)
next
  case (tick ok t)
  show ?thesis
  proof (cases "0 < bytes_since_sync w")
    case True
    have "wal_view s False [] (disk_log (dir w)) (wal_sync c ok w)"
      using assms(2,3) tick(3) by (intro view_sync) (auto simp: wal_inv_def settled_def)
    then have w': "settled s (disk_log (dir w)) w'"
      using True tick(2) by (auto simp: ticker_sync_def settled_def intro: wal_view_cong)
    then show ?thesis
      using settled_log [OF w'] assms(3) tick True
      by (simp add: wal_inv_def wal_log_def queued_def ticker_sync_def)
  next
    case False
    then show ?thesis using tick assms(3) by (simp add: ticker_sync_def)
  qed
next
  case set_hook
  have "settled s (disk_log (dir w)) w'"
    using assms(3) set_hook(2) by (auto simp: wal_inv_def intro: settled_cong)
  then show ?thesis
    using assms(3) set_hook by (simp add: wal_inv_def wal_log_def queued_def)
qed (auto dest: append_raw_inv append_meta_inv)

lemma wal_run_inv:
  assumes "wal_run c s w log w'" "s \<longrightarrow> syncs c" "wal_inv s w"
  shows "wal_inv s w' \<and> wal_log w' = wal_log w @ log"
  using assms
proof (induction rule: wal_run.induct)
  case (step log w' out w'')
  then show ?case using wal_step_inv [of c s w' out w''] by simp
qed simp

section \<open>The first file\<close>

lemma new_writer_inv:
  assumes "new_writer c r d = Some w" "rotation_ok s (fst ` set d) r" "\<forall>f\<in>snd ` set d. file_wf s f"
  shows "wal_inv s w \<and> wal_log w = disk_log d \<and> bytes_since_sync w = 0 \<and>
    dir w = d @ [(r_path r, append_bytes file_header Written empty_file)]"
proof -
  let ?g = "append_bytes file_header Written empty_file"
  have fresh: "r_path r \<notin> fst ` set d" using assms(2) by (simp add: rotation_ok_def)
  have ok: "r_opens r" "r_header r = Written"
    using assms(1) by (auto simp: new_writer_def wal_rotate_def Let_def split: if_splits write_outcome.splits)
  have "upd_file (r_path r) (append_bytes file_header Written) (open_append (r_path r) d) = d @ [(r_path r, ?g)]"
    using fresh upd_file_at [of "r_path r" d "append_bytes file_header Written" empty_file "[]"]
    by (simp add: open_append_def)
  then have w: "dir w = d @ [(r_path r, ?g)]" "current_path w = r_path r" "bytes_since_sync w = 0" "entry_chan w = []"
    using assms(1) ok by (auto simp: new_writer_def wal_rotate_def Let_def)
  have g: "holds s [] [] ?g" by (simp add: holds_def append_bytes_def empty_file_def)
  have "wal_view s False [] (disk_log d) w"
    unfolding wal_view_def using w fresh assms(3) g
    by (intro exI [of _ d] exI [of _ ?g] exI [of _ "[]"] exI [of _ "[]"]) simp
  then show ?thesis
    using w frames_of_holds [OF g] by (simp add: wal_inv_def settled_def wal_log_def queued_def)
qed

section \<open>A sample run\<close>

text \<open>A writer on an empty directory: one append, whose first write fails and is retried in a new file.\<close>

definition sample_rotation :: "string \<Rightarrow> rotation" where
  "sample_rotation p = \<lparr>r_path = p, r_opens = True, r_header = Written, r_sync = True, r_now = 0\<rparr>"

definition sample_config :: wal_config where
  "sample_config = with_defaults \<lparr>sync_mode = OtherMode [], max_size_bytes = 0, max_age = 0,
     sync_interval = 0, sync_bytes = 0, buffer_size = 0\<rparr>"

definition sample_env :: write_env where
  "sample_env = \<lparr>first_write = WriteFails 9, after_failure = sample_rotation ''b.wal'', second_write = Written,
     threshold_sync = True, after_write = sample_rotation ''c.wal'', now = 1\<rparr>"

definition sample_start :: wal_writer where
  "sample_start = the (new_writer sample_config (sample_rotation ''a.wal'') [])"

definition sample_queued :: wal_writer where
  "sample_queued = snd (snd (append_raw sample_config 7 [0x90] sample_start))"

definition sample_written :: wal_writer where
  "sample_written = write_entry sample_config sample_env (entry_frame (7, [0x90])) (sample_queued\<lparr>entry_chan := []\<rparr>)"

definition sample_end :: wal_writer where
  "sample_end = ticker_sync sample_config True 2 sample_written"

lemma sample_start: "new_writer sample_config (sample_rotation ''a.wal'') [] = Some sample_start"
  by (simp add: sample_start_def new_writer_def wal_rotate_def sample_rotation_def Let_def)

lemma sample_append: "append_raw sample_config 7 [0x90] sample_start = (None, [], sample_queued)"
  by (simp add: sample_queued_def sample_start_def append_raw_def new_writer_def wal_rotate_def
      sample_rotation_def call_hook_def try_enqueue_def sample_config_def with_defaults_def
      max_wal_payload_def Let_def)

lemma sample_queue: "entry_chan sample_queued = [entry_frame (7, [0x90])]" "names sample_queued = {''a.wal''}"
  by (simp_all add: sample_queued_def sample_start_def append_raw_def new_writer_def wal_rotate_def
      sample_rotation_def call_hook_def try_enqueue_def sample_config_def with_defaults_def
      max_wal_payload_def open_append_def names_def Let_def)

lemma sample_env_ok: "env_ok s sample_queued (entry_frame (7, [0x90])) sample_env"
  by (simp add: env_ok_def partial_def rotation_ok_def sample_env_def sample_rotation_def sample_queue
      file_header_size_def)

lemma sample_rotation_ok: "rotation_ok s {} (sample_rotation p)"
  by (simp add: rotation_ok_def partial_def sample_rotation_def)

lemma sample_syncs: "syncs sample_config"
  by (simp add: syncs_def sample_config_def with_defaults_def)

lemma sample_run: "wal_run sample_config s sample_start [(7, [0x90])] sample_end"
proof -
  have "wal_run sample_config s sample_start ([] @ [(7, [0x90])]) sample_queued"
    by (rule wal_run.step [OF wal_run.stop]) (rule wal_step.accept [OF sample_append])
  then have "wal_run sample_config s sample_start (([] @ [(7, [0x90])]) @ []) sample_written"
    unfolding sample_written_def
    by (rule wal_run.step) (rule wal_step.write_next [OF sample_queue(1) sample_env_ok])
  then have "wal_run sample_config s sample_start ((([] @ [(7, [0x90])]) @ []) @ []) sample_end"
    unfolding sample_end_def by (rule wal_run.step) (rule wal_step.tick, simp)
  then show ?thesis by simp
qed

lemma chan_rotate: "entry_chan (snd (wal_rotate c r w)) = entry_chan w"
  by (simp add: wal_rotate_def Let_def split: write_outcome.split)

lemma chan_written: "entry_chan (written c e n w) = entry_chan w"
  by (simp add: written_def Let_def chan_rotate)

lemma chan_write_entry: "entry_chan (write_entry c e d w) = entry_chan w"
  by (simp add: write_entry_def Let_def chan_written chan_rotate case_prod_beta
      split: write_outcome.split bool.split)

lemma sample_drained: "entry_chan sample_end = []"
  by (simp add: sample_end_def ticker_sync_def sample_written_def chan_write_entry)

lemma sample_synced: "bytes_since_sync sample_end = 0"
proof -
  have "wal_inv False sample_end"
    using new_writer_inv [OF sample_start, of False] wal_run_inv [OF sample_run, of False] sample_rotation_ok
    by simp
  then show ?thesis by (auto simp: wal_inv_def settled_def sample_end_def ticker_sync_def split: if_splits)
qed

section \<open>Guarantees\<close>





end
