(* ===== verification/WAL_Crash.thy ===== *)
theory WAL_Crash
  imports WAL_Log
begin

text \<open>
  Crashes.  A crash cuts every file of the directory somewhere behind its synced prefix; what
  recovery reads back is a prefix of the log, and contains everything that was on disk at any
  earlier moment at which the writer had nothing left to sync.  The last section is the case
  the writer does not handle: a torn entry it goes on appending behind.
\<close>

section \<open>What is durable stays\<close>

definition bounded :: "dir \<Rightarrow> bool" where
  "bounded d \<longleftrightarrow> list_all (\<lambda>(p, f). durable f \<le> length (content f)) d \<and> distinct (map fst d)"

definition extends :: "string \<times> disk_file \<Rightarrow> string \<times> disk_file \<Rightarrow> bool" where
  "extends pf pf' \<longleftrightarrow> fst pf' = fst pf \<and> durable (snd pf) \<le> durable (snd pf') \<and>
     (\<exists>x. content (snd pf') = content (snd pf) @ x)"

definition grows :: "dir \<Rightarrow> dir \<Rightarrow> bool" where
  "grows d d' \<longleftrightarrow> (bounded d \<longrightarrow> bounded d' \<and> (\<exists>d1 d2. d' = d1 @ d2 \<and> list_all2 extends d d1))"

lemma extends_refl [simp]: "extends pf pf"
  by (simp add: extends_def)

lemma extends_trans: "extends a b \<Longrightarrow> extends b c \<Longrightarrow> extends a c"
  by (auto simp: extends_def)

lemma list_all2_extends_refl [simp]: "list_all2 extends d d"
  by (simp add: list_all2_refl)

lemma grows_append: "bounded d' \<Longrightarrow> fst ` set d \<inter> fst ` set d' = {} \<Longrightarrow> grows d (d @ d')"
proof -
  assume "bounded d'" "fst ` set d \<inter> fst ` set d' = {}"
  moreover have "\<exists>d1 d2. d @ d' = d1 @ d2 \<and> list_all2 extends d d1"
    by (intro exI [of _ d] exI [of _ d'] conjI) simp_all
  ultimately show ?thesis by (auto simp: grows_def bounded_def)
qed

lemma grows_all2: "(bounded d \<Longrightarrow> bounded d' \<and> list_all2 extends d d') \<Longrightarrow> grows d d'"
  unfolding grows_def by (metis append.right_neutral)

lemma grows_refl [simp]: "grows d d"
  by (rule grows_all2) simp

lemma grows_trans: "grows a b \<Longrightarrow> grows b c \<Longrightarrow> grows a c"
proof -
  assume ab: "grows a b" and bc: "grows b c"
  show "grows a c"
    unfolding grows_def
  proof (intro impI conjI)
    assume a: "bounded a"
    then show "bounded c" using ab bc by (simp add: grows_def)
    obtain b1 b2 where b: "b = b1 @ b2" "list_all2 extends a b1" using ab a by (auto simp: grows_def)
    obtain c1 c2 where c: "c = c1 @ c2" "list_all2 extends b c1"
      using ab bc a by (auto simp: grows_def)
    obtain c11 c12 where c1: "c1 = c11 @ c12" "list_all2 extends b1 c11"
      using c(2) b(1) by (auto simp: list_all2_append1)
    have "list_all2 extends a c11"
      using list_all2_trans [OF _ b(2) c1(2), of extends] extends_trans by blast
    then show "\<exists>d1 d2. c = d1 @ d2 \<and> list_all2 extends a d1" using c(1) c1(1) by auto
  qed
qed

lemma grows_upd:
  assumes "\<And>f. durable f \<le> length (content f) \<Longrightarrow> durable f \<le> durable (g f) \<and>
    durable (g f) \<le> length (content (g f)) \<and> (\<exists>x. content (g f) = content f @ x)"
  shows "grows d (upd_file p g d)"
proof -
  have "bounded d \<Longrightarrow> bounded (upd_file p g d) \<and> list_all2 extends d (upd_file p g d)"
    using assms by (induction d) (auto simp: bounded_def extends_def image_iff split: if_splits)
  then show ?thesis by (rule grows_all2)
qed

lemma grows_append_bytes [simp]: "grows d (upd_file p (append_bytes bs out) d)"
  by (rule grows_upd) (simp add: append_bytes_def)

lemma grows_sync [simp]: "grows d (dir (wal_sync c ok w))" if "d = dir w"
  using that by (auto simp: wal_sync_def sync_file_def intro!: grows_upd split: sync_mode.split)

lemma grows_open [simp]: "grows d (open_append p d)"
  by (auto simp: open_append_def rev_image_eqI intro!: grows_append) (simp add: bounded_def empty_file_def)

lemma grows_rotate: "grows (dir w) (dir (snd (wal_rotate c r w)))"
proof -
  let ?d = "upd_file (r_path r) (append_bytes file_header (r_header r)) (open_append (r_path r) (dir w))"
  have "grows (dir w) ?d" by (rule grows_trans [OF grows_open grows_append_bytes])
  moreover have "grows ?d (dir (wal_sync c (r_sync r) (w\<lparr>dir := ?d\<rparr>)))" by simp
  ultimately have "grows (dir w) (dir (wal_sync c (r_sync r) (w\<lparr>dir := ?d\<rparr>)))" by (rule grows_trans)
  then show ?thesis
    using \<open>grows (dir w) ?d\<close> by (auto simp: wal_rotate_def Let_def split: write_outcome.splits)
qed

lemma grows_put [simp]: "grows (dir w) (dir (put_bytes d out w))"
  by (simp add: put_bytes_def)

lemma grows_written: "grows (dir w) (dir (written c e n w))"
proof -
  have "grows (dir w) (dir (snd (wal_rotate c r w')))" if "grows (dir w) (dir w')" for r w'
    using grows_trans [OF that grows_rotate] .
  then show ?thesis by (simp add: written_def Let_def)
qed

lemma grows_write_entry: "grows (dir w) (dir (write_entry c e d w))"
proof (cases "first_write e")
  case Written
  then show ?thesis
    using grows_trans [OF grows_put grows_written] by (simp add: write_entry_def)
next
  case (WriteFails k)
  let ?w = "put_bytes d (WriteFails k) w"
  obtain b w2 where r: "wal_rotate c (after_failure e) (?w\<lparr>failed_writes := failed_writes ?w + 1\<rparr>) = (b, w2)"
    by (cases "wal_rotate c (after_failure e) (?w\<lparr>failed_writes := failed_writes ?w + 1\<rparr>)")
  have "grows (dir ?w) (dir w2)"
    using grows_rotate [of "?w\<lparr>failed_writes := failed_writes ?w + 1\<rparr>" c "after_failure e"] r by simp
  then have "grows (dir w) (dir w2)" by (rule grows_trans [OF grows_put])
  then have put: "grows (dir w) (dir (put_bytes d (second_write e) w2))"
    by (rule grows_trans) simp
  then have "grows (dir w) (dir (written c e (length d) (put_bytes d (second_write e) w2)))"
    by (rule grows_trans) (rule grows_written)
  then show ?thesis
    using WriteFails r put \<open>grows (dir w) (dir w2)\<close>
    by (cases b) (auto simp: write_entry_def Let_def split: write_outcome.split)
qed

lemma append_dir:
  "append_raw c ts p w = (err, calls, w') \<Longrightarrow> dir w' = dir w"
  "append_raw_with_meta c ts db p w = Ret (err, calls, w') \<Longrightarrow> dir w' = dir w"
  by (auto simp: append_raw_def append_raw_with_meta_def try_enqueue_def call_hook_def Let_def
      split: if_splits)

lemma grows_step: "wal_step c s w out w' \<Longrightarrow> grows (dir w) (dir w')"
proof (induction rule: wal_step.induct)
  case (write_next w d q e)
  show ?case using grows_write_entry [of "w\<lparr>entry_chan := q\<rparr>" c e d] by simp
qed (auto dest: append_dir simp: ticker_sync_def)

lemma grows_run: "wal_run c s w log w' \<Longrightarrow> grows (dir w) (dir w')"
  by (induction rule: wal_run.induct) (auto intro: grows_trans grows_step)


section \<open>Crashes\<close>

definition crash :: "dir \<Rightarrow> dir \<Rightarrow> bool" where
  "crash d d' \<longleftrightarrow> list_all2 (\<lambda>pf pf'. fst pf' = fst pf \<and>
     (\<exists>k\<ge>durable (snd pf). content (snd pf') = take k (content (snd pf)))) d d'"

lemma crash_ConsE:
  assumes "crash (pf # d) d'"
  obtains pg k d'' where "d' = pg # d''" "crash d d''" "durable (snd pf) \<le> k"
    "content (snd pg) = take k (content (snd pf))"
  using assms unfolding crash_def list_all2_Cons1 by blast

lemma crash_appendE:
  assumes "crash (d1 @ d2) d'"
  obtains d1' d2' where "d' = d1' @ d2'" "crash d1 d1'" "crash d2 d2'"
  using assms unfolding crash_def list_all2_append1 by blast

lemma crash_names: "crash d d' \<Longrightarrow> map fst d' = map fst d"
proof (induction d arbitrary: d')
  case (Cons pf d)
  then show ?case by (auto simp: crash_def list_all2_Cons1)
qed (simp add: crash_def)

text \<open>What reading every file, in the order of creation, returns.\<close>

definition file_entries :: "msgpack \<Rightarrow> disk_file \<Rightarrow> wal_entry list" where
  "file_entries M f = (case read_all M (content f) of Ret (Inr (es, rd)) \<Rightarrow> es | _ \<Rightarrow> [])"

definition read_dir :: "msgpack \<Rightarrow> dir \<Rightarrow> wal_entry list" where
  "read_dir M d = concat (map (file_entries M \<circ> snd) d)"

lemma file_entries_read: "read_all M (content f) = Ret (Inr (es, rd)) \<Longrightarrow> file_entries M f = es"
  by (simp add: file_entries_def)

lemma read_all_stub: "stub f \<Longrightarrow> read_all M (content f) = Ret (Inr ([], new_reader))"
proof -
  assume f: "stub f"
  show ?thesis
  proof (cases "length (content f) < file_header_size")
    case True
    then show ?thesis by (simp add: read_all_def)
  next
    case False
    then have "content f = file_header @ []"
      using f by (simp add: stub_def)
    then show ?thesis by (simp only: read_all_body) simp
  qed
qed

lemmas read_stub = file_entries_read [OF read_all_stub]

lemma stub_cut: "stub f \<Longrightarrow> content g = take k (content f) \<Longrightarrow> stub g"
  by (metis stub_def stub_take take_take)

lemma torn_tail_cut: "torn_tail t \<Longrightarrow> torn_tail (take k t)"
proof -
  assume "torn_tail t"
  then consider "t = []" | q u where "fits q" "u \<noteq> []" "entry_frame q = t @ u"
    by (auto simp: torn_tail_def proper_prefix_def)
  then show ?thesis
  proof cases
    case 2
    then have "entry_frame q = take k t @ (drop k t @ u)" by simp
    then show ?thesis using 2 unfolding torn_tail_def proper_prefix_def by blast
  qed simp
qed

text \<open>A cut file gives a prefix of its frames, with every frame that was synced.\<close>

lemma cut_holds:
  assumes h: "holds s fs t f" and g: "content g = take k (content f)" "durable f \<le> k"
    and M: "\<forall>q\<in>set fs. decodes M q"
  obtains j rd where "read_all M (content g) = Ret (Inr (map (entry_of M) (take j fs), rd))"
    "file_entries M g = map (entry_of M) (take j fs)" "j \<le> length fs"
    "\<And>gs gs'. fs = gs @ gs' \<Longrightarrow> gs \<noteq> [] \<Longrightarrow>
       file_header_size + length (concat (map entry_frame gs)) \<le> durable f \<Longrightarrow> length gs \<le> j"
proof (cases "k \<le> file_header_size + length (concat (map entry_frame fs))")
  case True
  then have "content g = take k (file_header @ concat (map entry_frame fs))"
    using h g by (simp add: holds_def)
  moreover obtain j rd where "read_all M (take k (file_header @ concat (map entry_frame fs))) =
      Ret (Inr (map (entry_of M) (take j fs), rd))" "j \<le> length fs"
    "\<And>i. i \<le> length fs \<Longrightarrow> file_header_size + length (concat (map entry_frame (take i fs))) \<le> k \<Longrightarrow> i \<le> j"
    using read_cut_file [OF M, of k] by metis
  ultimately show ?thesis
    using g(2) by (intro that [of j rd]) (fastforce simp: file_entries_def)+
next
  case False
  then have "content g = file_header @ concat (map entry_frame fs) @ take (k - file_header_size - length (concat (map entry_frame fs))) t"
    using h g by (simp add: holds_def)
  moreover have "torn_tail (take n t)" for n using h by (simp add: holds_def torn_tail_cut)
  then obtain rd where "read_all M (file_header @ concat (map entry_frame fs) @
      take (k - file_header_size - length (concat (map entry_frame fs))) t) = Ret (Inr (map (entry_of M) fs, rd))"
    using read_all_frames [OF M] by blast
  ultimately have "read_all M (content g) = Ret (Inr (map (entry_of M) fs, rd))" by simp
  then show ?thesis by (intro that [of "length fs" rd]) (auto simp: file_entries_def)
qed

lemma holds_frames: "holds s fs t f \<Longrightarrow> frames_of f = fs"
  by (rule frames_of_holds)

lemma frames_of_extended:
  assumes "holds s fs t f" "content f' = content f @ x"
  obtains gs where "frames_of f' = fs @ gs"
proof -
  have "drop file_header_size (content f') = concat (map entry_frame fs) @ t @ x"
    using assms by (simp add: holds_def)
  then have "frames_of f' = fs @ received next_frame (t @ x)"
    using assms(1) by (simp add: frames_of_def holds_def wal.received_concat)
  then show ?thesis by (rule that)
qed

lemma kept_file:
  assumes f: "file_wf True f" and f': "file_wf False f'" "content f' = content f @ x" "durable f \<le> durable f'"
    and g: "content g = take k (content f')" "durable f' \<le> k" and M: "\<forall>q\<in>set (frames_of f'). decodes M q"
  shows "length (frames_of f) \<le> length (file_entries M g)"
proof (cases "stub f")
  case False
  then obtain fs t where fs: "holds True fs t f" using f by (auto simp: file_wf_def)
  obtain gs where gs: "frames_of f' = fs @ gs" using frames_of_extended [OF fs f'(2)] .
  show ?thesis
  proof (cases "fs = []")
    case ne: False
    then have "\<not> stub f'" using gs by auto
    then obtain fs' t' where fs': "holds False fs' t' f'" using f'(1) by (auto simp: file_wf_def)
    then have fs'_eq: "fs' = fs @ gs" using gs by (simp add: holds_frames)
    obtain j where j: "file_entries M g = map (entry_of M) (take j fs')" "j \<le> length fs'"
      "\<And>gs gs'. fs' = gs @ gs' \<Longrightarrow> gs \<noteq> [] \<Longrightarrow>
         file_header_size + length (concat (map entry_frame gs)) \<le> durable f' \<Longrightarrow> length gs \<le> j"
      using cut_holds [OF fs' g] M gs fs'_eq by metis
    have "file_header_size + length (concat (map entry_frame fs)) \<le> durable f'"
      using fs ne f'(3) by (simp add: holds_def)
    then show ?thesis using j fs'_eq ne holds_frames [OF fs] by simp
  qed (use fs in \<open>simp add: holds_frames\<close>)
qed simp

lemma kept_dir:
  "list_all2 extends d e \<Longrightarrow> crash e e' \<Longrightarrow> \<forall>f\<in>snd ` set d. file_wf True f \<Longrightarrow>
   \<forall>f\<in>snd ` set e. file_wf False f \<Longrightarrow> \<forall>q\<in>set (disk_log e). decodes M q \<Longrightarrow>
   length (disk_log d) \<le> length (read_dir M e')"
proof (induction d e arbitrary: e' rule: list_all2_induct)
  case (Cons pf d pf' e)
  obtain pg k e'' where e': "e' = pg # e''" "crash e e''" "durable (snd pf') \<le> k"
    "content (snd pg) = take k (content (snd pf'))"
    using Cons.prems(1) by (rule crash_ConsE)
  have "length (frames_of (snd pf)) \<le> length (file_entries M (snd pg))"
    using e'(3,4) Cons.hyps(1) Cons.prems(2-4)
    by (auto intro!: kept_file [of "snd pf" "snd pf'"] simp: extends_def disk_log_def)
  moreover have "length (disk_log d) \<le> length (read_dir M e'')"
    using Cons.IH [OF e'(2)] Cons.prems(2-4) by (simp add: disk_log_def)
  ultimately show ?case by (simp add: disk_log_def read_dir_def e'(1))
qed (simp add: disk_log_def)

lemma read_dir_append [simp]: "read_dir M (d @ d') = read_dir M d @ read_dir M d'"
  by (simp add: read_dir_def)

lemma read_stubs: "crash d d' \<Longrightarrow> \<forall>f\<in>snd ` set d. stub f \<Longrightarrow> read_dir M d' = []"
proof (induction d arbitrary: d')
  case (Cons pf d)
  obtain pg k d'' where "d' = pg # d''" "crash d d''" "content (snd pg) = take k (content (snd pf))"
    using Cons.prems(1) by (rule crash_ConsE)
  moreover from this have "stub (snd pg)" using Cons.prems(2) stub_cut by (metis image_eqI list.set_intros(1))
  ultimately show ?case using Cons by (auto simp: read_dir_def read_stub)
qed (simp add: crash_def read_dir_def)

lemma read_closed:
  "crash d d' \<Longrightarrow> \<forall>f\<in>snd ` set d. file_wf True f \<Longrightarrow> \<forall>q\<in>set (disk_log d). decodes M q \<Longrightarrow>
   read_dir M d' = map (entry_of M) (disk_log d)"
proof (induction d arbitrary: d')
  case (Cons pf d)
  obtain pg k d'' where d': "d' = pg # d''" "crash d d''"
    "durable (snd pf) \<le> k" "content (snd pg) = take k (content (snd pf))"
    using Cons.prems(1) by (rule crash_ConsE)
  have "file_entries M (snd pg) = map (entry_of M) (frames_of (snd pf))"
  proof (cases "stub (snd pf)")
    case True
    then show ?thesis using read_stub stub_cut [OF True d'(4)] by simp
  next
    case False
    then obtain fs t where fs: "holds True fs t (snd pf)" using Cons.prems(2) by (auto simp: file_wf_def)
    have "\<forall>q\<in>set fs. decodes M q" using Cons.prems(3) fs by (simp add: disk_log_def holds_frames)
    then obtain j where j: "file_entries M (snd pg) = map (entry_of M) (take j fs)"
      "\<And>gs gs'. fs = gs @ gs' \<Longrightarrow> gs \<noteq> [] \<Longrightarrow>
         file_header_size + length (concat (map entry_frame gs)) \<le> durable (snd pf) \<Longrightarrow> length gs \<le> j"
      using cut_holds [OF fs d'(4,3)] by metis
    have "fs = [] \<or> length fs \<le> j" using j(2) [of fs "[]"] fs by (auto simp: holds_def)
    then show ?thesis using j(1) fs by (auto simp: holds_frames)
  qed
  then show ?case using Cons.IH [OF d'(2)] Cons.prems d'(1) by (simp add: read_dir_def disk_log_def)
qed (simp add: crash_def read_dir_def)

text \<open>A crash leaves a prefix of what was on disk.\<close>

lemma crash_prefix:
  assumes v: "wal_view True u [] L w" and crash: "crash (dir w) d'" and M: "\<forall>q\<in>set L. decodes M q"
  obtains j where "read_dir M d' = map (entry_of M) (take j L)" "j \<le> length L"
proof -
  obtain pre f fs post where v': "dir w = pre @ (current_path w, f) # post"
    "\<forall>g\<in>snd ` set pre. file_wf True g" "\<forall>g\<in>snd ` set post. stub g"
    "holds (True \<and> \<not> u) fs [] f" "L = disk_log pre @ fs"
    using v by (auto simp: wal_view_def)
  obtain d1 d23 where d1: "d' = d1 @ d23" "crash pre d1" "crash ((current_path w, f) # post) d23"
    using crash unfolding v'(1) by (rule crash_appendE)
  obtain pg k d3 where d2: "d23 = pg # d3" "crash post d3" "durable f \<le> k"
    "content (snd pg) = take k (content f)"
    using d1(3) by (rule crash_ConsE) simp
  obtain j where j: "file_entries M (snd pg) = map (entry_of M) (take j fs)" "j \<le> length fs"
    using cut_holds [OF v'(4) d2(4,3)] M v'(5) by (metis UnCI set_append)
  have "read_dir M d1 = map (entry_of M) (disk_log pre)"
    using read_closed [OF d1(2) v'(2)] M v'(5) by simp
  moreover have "read_dir M d3 = []" by (rule read_stubs [OF d2(2) v'(3)])
  ultimately have "read_dir M d' = map (entry_of M) (take (length (disk_log pre) + j) L)"
    using d1(1) d2(1) j(1) v'(5) by (simp add: read_dir_def)
  then show ?thesis by (rule that) (use j(2) v'(5) in simp)
qed

lemma wal_inv_synced:
  assumes "wal_inv True w" "bytes_since_sync w = 0"
  shows "\<forall>f\<in>snd ` set (dir w). file_wf True f"
proof -
  have "wal_view True False [] (disk_log (dir w)) w"
    using assms by (simp add: wal_inv_def settled_def)
  then obtain pre f fs post where "dir w = pre @ (current_path w, f) # post"
    "\<forall>g\<in>snd ` set pre. file_wf True g" "\<forall>g\<in>snd ` set post. stub g" "holds True fs [] f"
    by (auto simp: wal_view_def)
  then show ?thesis by (auto simp: file_wf_def)
qed

text \<open>Every surviving file can be read.\<close>

lemma crash_readable:
  "crash d d' \<Longrightarrow> \<forall>f\<in>snd ` set d. file_wf False f \<Longrightarrow> \<forall>q\<in>set (disk_log d). decodes M q \<Longrightarrow>
   \<forall>g\<in>snd ` set d'. \<exists>es rd. read_all M (content g) = Ret (Inr (es, rd))"
proof (induction d arbitrary: d')
  case (Cons pf d)
  obtain pg k d'' where d': "d' = pg # d''" "crash d d''"
    "durable (snd pf) \<le> k" "content (snd pg) = take k (content (snd pf))"
    using Cons.prems(1) by (rule crash_ConsE)
  have "\<exists>es rd. read_all M (content (snd pg)) = Ret (Inr (es, rd))"
  proof (cases "stub (snd pf)")
    case True
    then show ?thesis using read_all_stub [OF stub_cut [OF True d'(4)]] by blast
  next
    case False
    then obtain fs t where fs: "holds False fs t (snd pf)" using Cons.prems(2) by (auto simp: file_wf_def)
    then have "\<forall>q\<in>set fs. decodes M q" using Cons.prems(3) by (simp add: disk_log_def holds_frames)
    then show ?thesis using cut_holds [OF fs d'(4,3)] by metis
  qed
  then show ?case using Cons.IH [OF d'(2)] Cons.prems d'(1) by (simp add: disk_log_def)
qed (simp add: crash_def)

text \<open>
  Durability.  Take any moment of a run in a syncing mode at which the writer has nothing left
  to sync, and any later moment of the run at which the machine crashes, losing any part of
  what was never synced: reading the surviving files in the order of their creation gives a
  prefix of the log of accepted entries, and that prefix contains every entry that was on disk
  at the first moment.
\<close>

lemma synced_entries_survive_crash:
  assumes start: "new_writer c r d = Some w0" "rotation_ok True (fst ` set d) r"
      "\<forall>f\<in>snd ` set d. file_wf True f" "bounded d" "syncs c"
    and run1: "wal_run c True w0 log1 w1" "bytes_since_sync w1 = 0"
    and run2: "wal_run c True w1 log2 w" and crash: "crash (dir w) d'"
    and M: "\<forall>q\<in>set (disk_log d @ log1 @ log2). decodes M q"
  obtains j where "read_dir M d' = map (entry_of M) (take j (disk_log d @ log1 @ log2))"
    "length (disk_log (dir w1)) \<le> j" "distinct (map fst d')"
    "\<forall>g\<in>snd ` set d'. \<exists>es rd. read_all M (content g) = Ret (Inr (es, rd))"
proof -
  have w0: "wal_inv True w0" "wal_log w0 = disk_log d" "bounded (dir w0)"
    using new_writer_inv [OF start(1-3)] start(2,4)
    by (simp_all add: bounded_def append_bytes_def empty_file_def rotation_ok_def)
  have w1: "wal_inv True w1" "wal_log w1 = disk_log d @ log1"
    using wal_run_inv [OF run1(1)] start(5) w0(1,2) by simp_all
  have w: "wal_inv True w" "wal_log w = disk_log d @ log1 @ log2"
    using wal_run_inv [OF run2] start(5) w1 by simp_all
  have v: "wal_view True (0 < bytes_since_sync w) [] (disk_log (dir w)) w"
    using w(1) by (simp add: wal_inv_def settled_def)
  have dec: "\<forall>q\<in>set (disk_log (dir w)). decodes M q" using M unfolding w(2) [symmetric] wal_log_def by simp
  obtain j where j: "read_dir M d' = map (entry_of M) (take j (disk_log (dir w)))" "j \<le> length (disk_log (dir w))"
    using crash_prefix [OF v crash dec] .
  have b: "bounded (dir w1)" "bounded (dir w)"
    using grows_run [OF run1(1)] grows_run [OF run2] w0(3) by (simp_all add: grows_def)
  then obtain d1 d2 where d12: "dir w = d1 @ d2" "list_all2 extends (dir w1) d1"
    using grows_run [OF run2] by (auto simp: grows_def)
  obtain d1' d2' where d': "d' = d1' @ d2'" "crash d1 d1'" "crash d2 d2'"
    using crash unfolding d12(1) by (rule crash_appendE)
  have "length (disk_log (dir w1)) \<le> length (read_dir M d1')"
    using kept_dir [OF d12(2) d'(2) wal_inv_synced [OF w1(1) run1(2)]] file_wf_view [OF v] dec d12(1) by auto
  also have "\<dots> \<le> length (read_dir M d')" using d'(1) by simp
  also have "\<dots> \<le> j" using j by simp
  finally have le: "length (disk_log (dir w1)) \<le> j" .
  have "take j (disk_log d @ log1 @ log2) = take j (disk_log (dir w))"
    using w(2) j(2) by (simp add: wal_log_def flip: w(2))
  then show ?thesis
    using that [OF _ le] j(1) crash_names [OF crash] b(2) crash_readable [OF crash _ dec] file_wf_view [OF v]
    by (simp add: bounded_def)
qed

section \<open>Entries behind a torn one\<close>

lemma read_short_payload:
  assumes "fits q" "length s < length (snd q)"
  shows "read_frame (take 16 (entry_frame q) @ s) = FrameBad 0 []"
proof -
  obtain ts p where q: "q = (ts, p)" by (cases q)
  let ?h = "be_put 4 (length p) @ be_put 8 (unat ts) @ be_put 4 (unat (crc32 p))"
  have "take 16 (entry_frame q) = ?h" by (simp add: q entry_frame_def)
  then have "read_full entry_header_size (take 16 (entry_frame q) @ s) = ReadOk ?h s"
    using read_full_append [of ?h entry_header_size s] by (simp add: entry_header_size_def)
  moreover have "length p < 256 ^ 4" "length p \<le> max_wal_payload"
    using assms(1) q by (simp_all add: fits_def max_wal_payload_def)
  ultimately show ?thesis using assms(2) q by (simp add: read_frame_def Let_def)
qed

lemma upd_id [simp]: "upd_file p (\<lambda>f. f) d = d"
  by (induction d) auto

lemma written_dir:
  assumes "\<not> r_opens (after_write e)"
  shows "\<exists>g. (\<forall>f. content (g f) = content f) \<and> dir (written c e n w) = upd_file (current_path w) g (dir w)"
proof -
  have "\<exists>g. (\<forall>f. content (g f) = content f) \<and> dir (wal_sync c ok w') = upd_file (current_path w') g (dir w')" for ok w'
  proof (cases "syncs c \<and> ok")
    case True
    then show ?thesis
      by (intro exI [of _ sync_file]) (auto simp: wal_sync_def syncs_def sync_file_def)
  next
    case False
    then have "wal_sync c ok w' = w'" by (auto simp: wal_sync_def syncs_def split: sync_mode.split)
    then show ?thesis by (intro exI [of _ "\<lambda>f. f"]) simp
  qed
  note sync = this
  let ?w = "w\<lparr>current_size := current_size w + int n, bytes_since_sync := bytes_since_sync w + int n,
    written_entries := written_entries w + 1, written_bytes := written_bytes w + int n\<rparr>"
  show ?thesis
  proof (cases "sync_bytes c \<le> bytes_since_sync ?w")
    case True
    then have "dir (written c e n w) = dir (wal_sync c (threshold_sync e) ?w)"
      using assms by (simp add: written_def wal_rotate_def Let_def)
    then show ?thesis using sync [of "threshold_sync e" ?w] by simp
  next
    case False
    then have "dir (written c e n w) = dir w"
      using assms by (simp add: written_def wal_rotate_def Let_def)
    then show ?thesis by (intro exI [of _ "\<lambda>f. f"]) simp
  qed
qed

lemma written_counts:
  "\<not> r_opens (after_write e) \<Longrightarrow> written_entries (written c e n w) = written_entries w + 1 \<and>
    current_path (written c e n w) = current_path w"
  by (auto simp: written_def wal_rotate_def wal_sync_def Let_def split: sync_mode.split)

text \<open>
  A write that stops in the middle of an entry and a rotation that then fails leave the
  torn bytes at the end of the file the writer goes on using.  An entry written behind them is
  stored in full and counted as written, but no recovery returns it: the reader takes it for
  the payload of the torn one.
\<close>

theorem entry_behind_torn_one_is_lost:
  assumes w: "dir w = pre @ (current_path w, f) # post" "current_path w \<notin> fst ` set pre"
      "content f = file_header @ concat (map entry_frame before)"
    and M: "\<forall>q\<in>set before. decodes M q"
    and fail: "first_write e = WriteFails n" "\<not> r_opens (after_failure e)"
    and later: "first_write e' = Written" "\<not> r_opens (after_write e')"
    and n: "fits q" "entry_header_size \<le> n" "n + length (entry_frame q') < length (entry_frame q)"
  shows "\<exists>w' f'. w' = write_entry c e' (entry_frame q') (write_entry c e (entry_frame q) w) \<and>
    written_entries w' = written_entries w + 1 \<and> current_path w' = current_path w \<and>
    (current_path w', f') \<in> set (dir w') \<and>
    content f' = content f @ take n (entry_frame q) @ entry_frame q' \<and>
    file_entries M f' = map (entry_of M) before"
proof -
  define w1 where "w1 = write_entry c e (entry_frame q) w"
  let ?f1 = "append_bytes (entry_frame q) (WriteFails n) f"
  have w1: "dir w1 = pre @ (current_path w1, ?f1) # post" "current_path w1 = current_path w"
    "written_entries w1 = written_entries w"
    using w(1,2) fail by (simp_all add: w1_def write_entry_def wal_rotate_def put_bytes_def upd_file_at Let_def)
  let ?f2 = "append_bytes (entry_frame q') Written ?f1"
  define w2 where "w2 = put_bytes (entry_frame q') Written w1"
  have w2: "dir w2 = pre @ (current_path w2, ?f2) # post" "current_path w2 = current_path w"
    "written_entries w2 = written_entries w"
    using w1 w(2) by (simp_all add: w2_def put_bytes_def upd_file_at)
  define w' where "w' = written c e' (length (entry_frame q')) w2"
  obtain g where g: "\<forall>f. content (g f) = content f" "dir w' = upd_file (current_path w2) g (dir w2)"
    using written_dir [OF later(2)] unfolding w'_def by blast
  have cur: "(current_path w, g ?f2) \<in> set (dir w')"
    using g(2) w2 w(2) by (simp add: upd_file_at)
  have content: "content (g ?f2) = content f @ take n (entry_frame q) @ entry_frame q'"
    using g(1) by (simp add: append_bytes_def)
  have "take n (entry_frame q) = take 16 (entry_frame q) @ take (n - 16) (snd q)"
    using n(2) by (cases q) (simp add: entry_frame_def entry_header_size_def take_Cons' min_def)
  then have "read_frame (take n (entry_frame q) @ entry_frame q') = FrameBad 0 []"
    using read_short_payload [OF n(1), of "take (n - 16) (snd q) @ entry_frame q'"] n(2,3)
    by (simp add: entry_header_size_def)
  then have "file_entries M (g ?f2) = map (entry_of M) before"
    using content w(3) M
    by (simp add: file_entries_def read_all_body read_entries_frames read_entries_bad)
  moreover have "w' = write_entry c e' (entry_frame q') w1"
    using later by (simp add: w'_def w2_def write_entry_def)
  moreover have "written_entries w' = written_entries w + 1 \<and> current_path w' = current_path w"
    using written_counts [OF later(2), of c "length (entry_frame q')" w2] w2 by (simp add: w'_def)
  ultimately show ?thesis
    using cur content by (intro exI [of _ w'] exI [of _ "g ?f2"]) (simp add: w1_def)
qed

text \<open>The torn entry has a payload of 100 bytes, 40 of its 116 bytes are stored.\<close>

definition torn_env :: "write_outcome \<Rightarrow> write_env" where
  "torn_env out = \<lparr>first_write = out, after_failure = (sample_rotation ''b.wal'')\<lparr>r_opens := False\<rparr>,
     second_write = Written, threshold_sync = True,
     after_write = (sample_rotation ''c.wal'')\<lparr>r_opens := False\<rparr>, now = 1\<rparr>"

theorem entry_behind_torn_one_is_lost_witness:
  "\<exists>w' f'. w' = write_entry sample_config (torn_env Written) (entry_frame (8, [0x90]))
      (write_entry sample_config (torn_env (WriteFails 40)) (entry_frame (7, replicate 100 0x90)) sample_start) \<and>
    written_entries w' = written_entries sample_start + 1 \<and> current_path w' = current_path sample_start \<and>
    (current_path w', f') \<in> set (dir w') \<and>
    content f' = content \<lparr>content = file_header, durable = 0\<rparr> @ take 40 (entry_frame (7, replicate 100 0x90)) @
      entry_frame (8, [0x90]) \<and>
    file_entries sample_codec f' = map (entry_of sample_codec) []"
proof (rule entry_behind_torn_one_is_lost)
  show "dir sample_start = [] @ (current_path sample_start, \<lparr>content = file_header, durable = 0\<rparr>) # []"
    by (simp add: sample_start_def new_writer_def wal_rotate_def sample_rotation_def open_append_def
        empty_file_def append_bytes_def Let_def)
qed (simp_all add: torn_env_def fits_def max_wal_payload_def entry_header_size_def)

end
