(* ===== verification/WAL_Recovery.thy ===== *)
theory WAL_Recovery
  imports WAL_Crash
begin

text \<open>
  Recovery (\<^verbatim>\<open>internal/wal/recovery.go\<close>): \<open>RecoverWithOptions\<close> reads the log files one after the
  other, hands every entry to a callback, in batches where a batch size is set, and removes a
  file once all its entries were taken.  The callbacks are parameters that act on a state of
  their own; what they are called with is compared with a reference: the list of calls an
  entry stands for.
\<close>

section \<open>Callbacks and options\<close>

datatype wal_call = RowsCall "row list" | ColumnarCall string string "string \<rightharpoonup> mval list"

text \<open>A callback answers whether it succeeded.  \<open>on_columnar\<close> may be unset.\<close>

record 'st callbacks =
  on_rows :: "row list \<Rightarrow> 'st \<Rightarrow> bool \<times> 'st"
  on_columnar :: "(string \<Rightarrow> string \<Rightarrow> (string \<rightharpoonup> mval list) \<Rightarrow> 'st \<Rightarrow> bool \<times> 'st) option"

record recovery_options =
  skip_active_file :: string
  batch_size :: int

record recovery_stats =
  recovered_files :: int
  recovered_batches :: int
  recovered_entries :: int
  corrupted :: int
  skipped_files :: int

definition no_stats :: recovery_stats where
  "no_stats = \<lparr>recovered_files = 0, recovered_batches = 0, recovered_entries = 0, corrupted = 0, skipped_files = 0\<rparr>"

section \<open>Replaying one entry\<close>

text \<open>
  The batch loop.  It is entered with a positive batch size.  The counters are the batches and
  the rows taken so far in this file.
\<close>

function replay_batches ::
  "(row list \<Rightarrow> 'st \<Rightarrow> bool \<times> 'st) \<Rightarrow> nat \<Rightarrow> row list \<Rightarrow> 'st \<times> int \<times> int \<Rightarrow> bool \<times> 'st \<times> int \<times> int" where
  "replay_batches cb n rows (st, b, k) =
     (if rows = [] \<or> n = 0 then (True, st, b, k)
      else let batch = take n rows
           in case cb batch st of
                (False, st') \<Rightarrow> (False, st', b, k)
              | (True, st') \<Rightarrow> replay_batches cb n (drop n rows) (st', b + 1, k + int (length batch)))"
  by pat_completeness auto
termination
  by (relation "measure (\<lambda>(cb, n, rows, s). length rows)") auto

declare replay_batches.simps [simp del]

text \<open>The rows of a columnar entry are counted by whichever column the range visits first.\<close>

definition first_column_length :: "ranges \<Rightarrow> (string \<rightharpoonup> mval list) \<Rightarrow> int" where
  "first_column_length R cols =
     (case names_order R (dom cols) of [] \<Rightarrow> 0 | k # _ \<Rightarrow> int (length (the (cols k))))"

definition replay_entry ::
  "ranges \<Rightarrow> 'st callbacks \<Rightarrow> recovery_options \<Rightarrow> wal_entry \<Rightarrow> 'st \<times> int \<times> int \<Rightarrow> bool \<times> 'st \<times> int \<times> int" where
  "replay_entry R cb opts e s =
     (case s of (st, b, k) \<Rightarrow>
       (case (e_columnar e, on_columnar cb) of
          (Some c, Some f) \<Rightarrow>
            (case f (c_database c) (c_measurement c) (c_columns c) st of
               (False, st') \<Rightarrow> (False, st', b, k)
             | (True, st') \<Rightarrow> (True, st', b + 1, k + first_column_length R (c_columns c)))
        | _ \<Rightarrow>
            (case e_records e of
               None \<Rightarrow> (True, st, b, k)
             | Some rows \<Rightarrow>
                 if 0 < batch_size opts \<and> batch_size opts < int (length rows)
                 then replay_batches (on_rows cb) (nat (batch_size opts)) rows (st, b, k)
                 else (case on_rows cb rows st of
                         (False, st') \<Rightarrow> (False, st', b, k)
                       | (True, st') \<Rightarrow> (True, st', b + 1, k + int (length rows))))))"

fun replay_entries ::
  "ranges \<Rightarrow> 'st callbacks \<Rightarrow> recovery_options \<Rightarrow> wal_entry list \<Rightarrow> 'st \<times> int \<times> int \<Rightarrow> bool \<times> 'st \<times> int \<times> int" where
  "replay_entries R cb opts [] s = (True, s)"
| "replay_entries R cb opts (e # es) s =
     (case replay_entry R cb opts e s of
        (False, s') \<Rightarrow> (False, s')
      | (True, s') \<Rightarrow> replay_entries R cb opts es s')"

section \<open>Recovering the files\<close>

text \<open>
  What the environment answers for a file: whether the context is done when it is reached,
  whether it can be opened, and whether it can be removed.
\<close>

record recovery_env =
  ctx_done :: "string \<Rightarrow> bool"
  opens :: "string \<Rightarrow> bool"
  removes :: "string \<Rightarrow> bool"

record 'st recovery =
  rec_dir :: dir
  rec_stats :: recovery_stats
  rec_st :: 'st

definition remove_file :: "string \<Rightarrow> dir \<Rightarrow> dir" where
  "remove_file p d = [(q, f) \<leftarrow> d. q \<noteq> p]"

definition recover_file ::
  "msgpack \<Rightarrow> ranges \<Rightarrow> 'st callbacks \<Rightarrow> recovery_options \<Rightarrow> recovery_env \<Rightarrow> string \<Rightarrow> 'st recovery \<Rightarrow> 'st recovery go" where
  "recover_file M R cb opts env p s =
     (if skip_active_file opts \<noteq> [] \<and> p = skip_active_file opts
      then Ret (s\<lparr>rec_stats := (rec_stats s)\<lparr>skipped_files := skipped_files (rec_stats s) + 1\<rparr>\<rparr>)
      else (case (if opens env p then map_of (rec_dir s) p else None) of
          None \<Rightarrow> Ret s
        | Some f \<Rightarrow>
            (case read_all M (content f) of
               Panic \<Rightarrow> Panic
             | Ret (Inl _) \<Rightarrow> Ret s
             | Ret (Inr (es, rd)) \<Rightarrow>
                 (case replay_entries R cb opts es (rec_st s, 0, 0) of (all_ok, st, b, k) \<Rightarrow>
                    let stats = (rec_stats s)\<lparr>corrupted := corrupted (rec_stats s) + int (corrupted_entries rd)\<rparr>;
                        gone = (if removes env p then remove_file p (rec_dir s) else rec_dir s)
                    in Ret (if all_ok \<and> 0 < length es
                            then \<lparr>rec_dir = gone,
                                  rec_stats = stats\<lparr>recovered_batches := recovered_batches stats + b,
                                    recovered_entries := recovered_entries stats + k,
                                    recovered_files := recovered_files stats + 1\<rparr>,
                                  rec_st = st\<rparr>
                            else if all_ok then \<lparr>rec_dir = gone, rec_stats = stats, rec_st = st\<rparr>
                            else \<lparr>rec_dir = rec_dir s, rec_stats = stats, rec_st = st\<rparr>)))))"

text \<open>The loop over the files; the flag says that the context ended it.\<close>

fun recover_files ::
  "msgpack \<Rightarrow> ranges \<Rightarrow> 'st callbacks \<Rightarrow> recovery_options \<Rightarrow> recovery_env \<Rightarrow> string list \<Rightarrow> 'st recovery \<Rightarrow>
   (bool \<times> 'st recovery) go" where
  "recover_files M R cb opts env [] s = Ret (False, s)"
| "recover_files M R cb opts env (p # ps) s =
     (if ctx_done env p then Ret (True, s)
      else (case recover_file M R cb opts env p s of
              Panic \<Rightarrow> Panic
            | Ret s' \<Rightarrow> recover_files M R cb opts env ps s'))"

text \<open>
  \<open>findWALFiles\<close>: the names that match, by modification time.  The order of files with the same
  time is not specified; \<open>recover\<close> takes the list as it comes.
\<close>

definition lists_wal_files :: "(string \<Rightarrow> int) \<Rightarrow> dir \<Rightarrow> string list \<Rightarrow> bool" where
  "lists_wal_files mtime d ps \<longleftrightarrow>
     distinct ps \<and> set ps = {p \<in> fst ` set d. is_wal p} \<and> sorted (map mtime ps)"

definition find_wal_files :: "(string \<Rightarrow> int) \<Rightarrow> dir \<Rightarrow> string list" where
  "find_wal_files mtime d = sort_key mtime (sort (remdups (filter is_wal (map fst d))))"

lemma find_wal_files_ok: "lists_wal_files mtime d (find_wal_files mtime d)"
  by (auto simp: lists_wal_files_def find_wal_files_def distinct_sort)

definition recover ::
  "msgpack \<Rightarrow> ranges \<Rightarrow> 'st callbacks \<Rightarrow> recovery_options \<Rightarrow> recovery_env \<Rightarrow> string list \<Rightarrow> dir \<Rightarrow> 'st \<Rightarrow>
   (bool \<times> 'st recovery) go" where
  "recover M R cb opts env ps d st =
     recover_files M R cb opts env ps \<lparr>rec_dir = d, rec_stats = no_stats, rec_st = st\<rparr>"

section \<open>The reference: a list of calls\<close>

text \<open>The chunks of at most \<open>n\<close> rows.\<close>

function chunks :: "nat \<Rightarrow> 'a list \<Rightarrow> 'a list list" where
  "chunks n xs = (if xs = [] \<or> n = 0 then [] else take n xs # chunks n (drop n xs))"
  by pat_completeness auto
termination
  by (relation "measure (\<lambda>(n, xs). length xs)") auto

declare chunks.simps [simp del]

lemma concat_chunks: "0 < n \<Longrightarrow> concat (chunks n xs) = xs"
  by (induction n xs rule: chunks.induct) (subst chunks.simps, auto)

lemma length_chunk: "c \<in> set (chunks n xs) \<Longrightarrow> c \<noteq> [] \<and> length c \<le> n"
proof (induction n xs rule: chunks.induct)
  case (1 n xs)
  then show ?case by (subst (asm) (2) chunks.simps) (auto split: if_splits)
qed

definition row_calls :: "int \<Rightarrow> row list option \<Rightarrow> wal_call list" where
  "row_calls batch records =
     (case records of
        None \<Rightarrow> []
      | Some rows \<Rightarrow>
          map RowsCall (if 0 < batch \<and> batch < int (length rows) then chunks (nat batch) rows else [rows]))"

definition calls_of :: "bool \<Rightarrow> int \<Rightarrow> wal_entry \<Rightarrow> wal_call list" where
  "calls_of columnar_cb batch e =
     (case (e_columnar e, columnar_cb) of
        (Some c, True) \<Rightarrow> [ColumnarCall (c_database c) (c_measurement c) (c_columns c)]
      | _ \<Rightarrow> row_calls batch (e_records e))"

fun invoke :: "'st callbacks \<Rightarrow> wal_call \<Rightarrow> 'st \<Rightarrow> bool \<times> 'st" where
  "invoke cb (RowsCall rows) st = on_rows cb rows st"
| "invoke cb (ColumnarCall db m cols) st =
     (case on_columnar cb of None \<Rightarrow> (True, st) | Some f \<Rightarrow> f db m cols st)"

fun run_calls :: "'st callbacks \<Rightarrow> wal_call list \<Rightarrow> 'st \<Rightarrow> bool \<times> 'st" where
  "run_calls cb [] st = (True, st)"
| "run_calls cb (c # cs) st =
     (case invoke cb c st of (False, st') \<Rightarrow> (False, st') | (True, st') \<Rightarrow> run_calls cb cs st')"

lemma run_calls_append:
  "run_calls cb (cs @ cs') st =
     (case run_calls cb cs st of (False, st') \<Rightarrow> (False, st') | (True, st') \<Rightarrow> run_calls cb cs' st')"
  by (induction cs arbitrary: st) (auto split: prod.split bool.split)

definition outcome :: "bool \<times> 'st \<times> int \<times> int \<Rightarrow> bool \<times> 'st" where
  "outcome r = (fst r, fst (snd r))"

lemma replay_batches_calls:
  "outcome (replay_batches (on_rows cb) n rows (st, b, k)) = run_calls cb (map RowsCall (chunks n rows)) st"
proof (induction n rows arbitrary: st b k rule: chunks.induct)
  case (1 n xs)
  then show ?case
    by (subst replay_batches.simps, subst chunks.simps)
      (auto simp: outcome_def Let_def split: prod.split bool.split)
qed

lemma replay_entry_calls:
  "outcome (replay_entry R cb opts e (st, b, k)) =
     run_calls cb (calls_of (on_columnar cb \<noteq> None) (batch_size opts) e) st"
  by (cases "e_columnar e"; cases "on_columnar cb"; cases "e_records e")
    (auto simp: replay_entry_def calls_of_def row_calls_def replay_batches_calls,
     auto simp: outcome_def split: prod.split bool.split)

lemma replay_entries_calls:
  "outcome (replay_entries R cb opts es (st, b, k)) =
     run_calls cb (concat (map (calls_of (on_columnar cb \<noteq> None) (batch_size opts)) es)) st"
proof (induction es arbitrary: st b k)
  case (Cons e es)
  obtain ok st' b' k' where r: "replay_entry R cb opts e (st, b, k) = (ok, st', b', k')"
    by (cases "replay_entry R cb opts e (st, b, k)")
  then have "run_calls cb (calls_of (on_columnar cb \<noteq> None) (batch_size opts) e) st = (ok, st')"
    using replay_entry_calls [of R cb opts e st b k] by (simp add: outcome_def)
  then show ?case using Cons r by (cases ok) (simp_all add: run_calls_append, simp add: outcome_def)
qed (simp add: outcome_def)

section \<open>What recovery does\<close>

text \<open>Callbacks that record what they were called with, and succeed where \<open>good\<close> says so.\<close>

definition recorder :: "(wal_call \<Rightarrow> bool) \<Rightarrow> bool \<Rightarrow> wal_call list callbacks" where
  "recorder good columnar_cb =
     \<lparr>on_rows = (\<lambda>rows tr. (good (RowsCall rows), tr @ [RowsCall rows])),
      on_columnar = (if columnar_cb
        then Some (\<lambda>db m cols tr. (good (ColumnarCall db m cols), tr @ [ColumnarCall db m cols]))
        else None)\<rparr>"

lemma recorder_columnar [simp]:
  "on_columnar (recorder good b) \<noteq> None \<longleftrightarrow> b" "(\<exists>f. on_columnar (recorder good b) = Some f) \<longleftrightarrow> b"
  by (simp_all add: recorder_def)

text \<open>The calls that are possible: no columnar one without its callback.\<close>

definition callable :: "bool \<Rightarrow> wal_call \<Rightarrow> bool" where
  "callable b c \<longleftrightarrow> b \<or> (\<exists>rows. c = RowsCall rows)"

lemma callable_calls_of: "c \<in> set (calls_of b n e) \<Longrightarrow> callable b c"
  by (auto simp: calls_of_def row_calls_def callable_def split: option.splits bool.splits if_splits)

lemma invoke_recorder: "callable b c \<Longrightarrow> invoke (recorder good b) c tr = (good c, tr @ [c])"
  by (cases c) (auto simp: recorder_def callable_def)

lemma run_recorder:
  "\<forall>c\<in>set cs. callable b c \<Longrightarrow> run_calls (recorder good b) cs tr = (ok, tr') \<Longrightarrow>
   (\<exists>x. tr' = tr @ x) \<and> (ok \<longrightarrow> tr' = tr @ cs \<and> (\<forall>c\<in>set cs. good c))"
proof (induction cs arbitrary: tr)
  case (Cons c cs)
  then show ?case
    by (cases "good c") (fastforce simp: invoke_recorder)+
qed simp

lemma run_recorder_good:
  "\<forall>c\<in>set cs. callable b c \<Longrightarrow> run_calls (recorder (\<lambda>_. True) b) cs tr = (True, tr @ cs)"
  by (induction cs arbitrary: tr) (simp_all add: invoke_recorder)

definition file_calls :: "bool \<Rightarrow> recovery_options \<Rightarrow> wal_entry list \<Rightarrow> wal_call list" where
  "file_calls b opts es = concat (map (calls_of b (batch_size opts)) es)"

lemma callable_file_calls: "\<forall>c\<in>set (file_calls b opts es). callable b c"
  by (auto simp: file_calls_def intro: callable_calls_of)

lemma replay_recorder:
  assumes "replay_entries R (recorder good b) opts es (tr, 0, 0) = (ok, tr', n, k)"
  shows "run_calls (recorder good b) (file_calls b opts es) tr = (ok, tr')"
  using replay_entries_calls [of R "recorder good b" opts es tr 0 0] assms
  by (simp add: outcome_def file_calls_def)

lemma map_of_remove: "p \<noteq> q \<Longrightarrow> map_of (remove_file q d) p = map_of d p"
  by (induction d) (auto simp: remove_file_def)

text \<open>One file: the directory stays or loses the file, and a file that goes was replayed.\<close>

lemma recover_file_cases:
  assumes "recover_file M R (recorder good b) opts env p s = Ret s'"
  obtains x where "rec_st s' = rec_st s @ x" and
    "rec_dir s' = rec_dir s \<or> (rec_dir s' = remove_file p (rec_dir s) \<and>
      (\<exists>f es rd. map_of (rec_dir s) p = Some f \<and> read_all M (content f) = Ret (Inr (es, rd)) \<and>
        x = file_calls b opts es \<and> (\<forall>c\<in>set x. good c)) \<and>
      \<not> (skip_active_file opts \<noteq> [] \<and> p = skip_active_file opts))"
proof (cases "skip_active_file opts \<noteq> [] \<and> p = skip_active_file opts \<or> \<not> opens env p \<or> map_of (rec_dir s) p = None")
  case True
  then show ?thesis using assms that [of "[]"] by (auto simp: recover_file_def split: if_splits)
next
  case False
  then obtain f where f: "map_of (rec_dir s) p = Some f" by auto
  have active: "\<not> (skip_active_file opts \<noteq> [] \<and> p = skip_active_file opts)" using False by blast
  show ?thesis
  proof (cases "read_all M (content f)")
    case Panic
    then show ?thesis using assms False f by (auto simp: recover_file_def split: if_splits)
  next
    case (Ret r)
    show ?thesis
    proof (cases r)
      case (Inl err)
      then show ?thesis using assms False f Ret that [of "[]"] by (auto simp: recover_file_def split: if_splits)
    next
      case (Inr er)
      obtain es rd where er: "er = (es, rd)" by (cases er)
      obtain ok tr n k where rp: "replay_entries R (recorder good b) opts es (rec_st s, 0, 0) = (ok, tr, n, k)"
        by (cases "replay_entries R (recorder good b) opts es (rec_st s, 0, 0)")
      note run = run_recorder [OF callable_file_calls replay_recorder [OF rp]]
      obtain x where x: "tr = rec_st s @ x" using run by blast
      have st: "rec_st s' = tr" and dir: "rec_dir s' = (if ok \<and> removes env p then remove_file p (rec_dir s) else rec_dir s)"
        using assms active False f Ret Inr er rp by (auto simp: recover_file_def Let_def split: if_splits)
      show ?thesis
      proof (rule that [of x])
        show "rec_st s' = rec_st s @ x" using st x by simp
        show "rec_dir s' = rec_dir s \<or> (rec_dir s' = remove_file p (rec_dir s) \<and>
          (\<exists>f es rd. map_of (rec_dir s) p = Some f \<and> read_all M (content f) = Ret (Inr (es, rd)) \<and>
            x = file_calls b opts es \<and> (\<forall>c\<in>set x. good c)) \<and>
          \<not> (skip_active_file opts \<noteq> [] \<and> p = skip_active_file opts))"
          using dir run x f Ret Inr er active by (cases ok) auto
      qed
    qed
  qed
qed

lemma recover_files_removed:
  "recover_files M R (recorder good b) opts env ps s = Ret (c, s') \<Longrightarrow>
   (\<exists>x. rec_st s' = rec_st s @ x) \<and>
   (\<forall>p f. map_of (rec_dir s) p = Some f \<longrightarrow> p \<notin> fst ` set (rec_dir s') \<longrightarrow>
     (\<exists>es rd u v. read_all M (content f) = Ret (Inr (es, rd)) \<and>
        rec_st s' = u @ file_calls b opts es @ v \<and> (\<forall>c\<in>set (file_calls b opts es). good c) \<and>
        \<not> (skip_active_file opts \<noteq> [] \<and> p = skip_active_file opts)))"
proof (induction ps arbitrary: s)
  case Nil
  then show ?case by (auto dest: map_of_SomeD simp: rev_image_eqI)
next
  case (Cons q ps)
  show ?case
  proof (cases "ctx_done env q")
    case True
    then show ?thesis using Cons.prems by (auto dest: map_of_SomeD simp: rev_image_eqI)
  next
    case False
    then obtain s1 where s1: "recover_file M R (recorder good b) opts env q s = Ret s1"
      "recover_files M R (recorder good b) opts env ps s1 = Ret (c, s')"
      using Cons.prems by (auto split: go.splits)
    obtain x where x: "rec_st s1 = rec_st s @ x" and d: "rec_dir s1 = rec_dir s \<or>
      (rec_dir s1 = remove_file q (rec_dir s) \<and>
      (\<exists>f es rd. map_of (rec_dir s) q = Some f \<and> read_all M (content f) = Ret (Inr (es, rd)) \<and>
        x = file_calls b opts es \<and> (\<forall>c\<in>set x. good c)) \<and>
      \<not> (skip_active_file opts \<noteq> [] \<and> q = skip_active_file opts))"
      using recover_file_cases [OF s1(1)] .
    note IH = Cons.IH [OF s1(2)]
    obtain y where y: "rec_st s' = rec_st s1 @ y" using IH by blast
    show ?thesis
    proof (intro conjI allI impI)
      show "\<exists>x. rec_st s' = rec_st s @ x" using x y by simp
    next
      fix p f assume p: "map_of (rec_dir s) p = Some f" "p \<notin> fst ` set (rec_dir s')"
      show "\<exists>es rd u v. read_all M (content f) = Ret (Inr (es, rd)) \<and>
        rec_st s' = u @ file_calls b opts es @ v \<and> (\<forall>c\<in>set (file_calls b opts es). good c) \<and>
        \<not> (skip_active_file opts \<noteq> [] \<and> p = skip_active_file opts)"
      proof (cases "rec_dir s1 = rec_dir s \<or> p \<noteq> q")
        case True
        then have "map_of (rec_dir s1) p = Some f" using d p(1) map_of_remove by metis
        then show ?thesis using IH p(2) by blast
      next
        case False
        then obtain es rd where e: "read_all M (content f) = Ret (Inr (es, rd))" "x = file_calls b opts es"
          "\<forall>c\<in>set x. good c" "\<not> (skip_active_file opts \<noteq> [] \<and> p = skip_active_file opts)"
          using d p(1) by auto
        then show ?thesis using x y by (intro exI [of _ es] exI [of _ rd] exI [of _ "rec_st s"] exI [of _ y]) auto
      qed
    qed
  qed
qed


section \<open>Recovery after a crash\<close>

definition all_good :: "recovery_env \<Rightarrow> bool" where
  "all_good env \<longleftrightarrow> (\<forall>p. \<not> ctx_done env p \<and> opens env p \<and> removes env p)"

lemma recover_file_good:
  assumes "all_good env" "skip_active_file opts = []" "map_of (rec_dir s) p = Some f"
    "read_all M (content f) = Ret (Inr (es, rd))"
  obtains s' where "recover_file M R (recorder (\<lambda>_. True) b) opts env p s = Ret s'"
    "rec_dir s' = remove_file p (rec_dir s)" "rec_st s' = rec_st s @ file_calls b opts es"
proof -
  obtain ok tr n k where rp: "replay_entries R (recorder (\<lambda>_. True) b) opts es (rec_st s, 0, 0) = (ok, tr, n, k)"
    by (cases "replay_entries R (recorder (\<lambda>_. True) b) opts es (rec_st s, 0, 0)")
  then have "ok" "tr = rec_st s @ file_calls b opts es"
    using replay_recorder [OF rp] run_recorder_good [OF callable_file_calls, of b opts es "rec_st s"] by simp_all
  then show ?thesis
    using that assms rp by (simp add: recover_file_def all_good_def Let_def)
qed

lemma recover_files_good:
  assumes "all_good env" "skip_active_file opts = []"
  shows "distinct (map fst d) \<Longrightarrow> rec_dir s = d \<Longrightarrow>
    \<forall>g\<in>snd ` set d. \<exists>es rd. read_all M (content g) = Ret (Inr (es, rd)) \<Longrightarrow>
    \<exists>s'. recover_files M R (recorder (\<lambda>_. True) b) opts env (map fst d) s = Ret (False, s') \<and>
      rec_st s' = rec_st s @ file_calls b opts (read_dir M d) \<and> rec_dir s' = []"
proof (induction d arbitrary: s)
  case (Cons pf d)
  obtain p f where pf: "pf = (p, f)" by (cases pf)
  obtain es rd where r: "read_all M (content f) = Ret (Inr (es, rd))"
    using Cons.prems(3) pf by auto
  have "map_of (rec_dir s) p = Some f" using Cons.prems(2) pf by simp
  then obtain s1 where s1: "recover_file M R (recorder (\<lambda>_. True) b) opts env p s = Ret s1"
    "rec_dir s1 = remove_file p (rec_dir s)" "rec_st s1 = rec_st s @ file_calls b opts es"
    using recover_file_good [OF assms _ r] by metis
  have "rec_dir s1 = d"
    using s1(2) Cons.prems(1,2) pf by (auto simp: remove_file_def rev_image_eqI intro!: filter_True)
  then obtain s' where s': "recover_files M R (recorder (\<lambda>_. True) b) opts env (map fst d) s1 = Ret (False, s')"
    "rec_st s' = rec_st s1 @ file_calls b opts (read_dir M d)" "rec_dir s' = []"
    using Cons.IH [of s1] Cons.prems(1,3) by auto
  have "read_dir M (pf # d) = es @ read_dir M d"
    using file_entries_read [OF r] pf by (simp add: read_dir_def)
  then show ?case
    using s' s1 pf assms(1) by (auto simp: file_calls_def all_good_def)
qed (simp add: read_dir_def file_calls_def)

lemma listing_is_creation_order:
  assumes "lists_wal_files mtime d ps" "\<forall>p\<in>fst ` set d. is_wal p" "sorted_wrt (<) (map (mtime \<circ> fst) d)"
  shows "ps = map fst d"
proof -
  have inj: "inj_on mtime (fst ` set d)" and srt: "sorted (map mtime (map fst d))" "distinct (map mtime (map fst d))"
    using assms(3) by (auto simp: strict_sorted_iff distinct_map inj_on_def)
  have ps: "set ps = fst ` set d" "sorted (map mtime ps)" "distinct ps"
    using assms(1,2) by (auto simp: lists_wal_files_def)
  have "distinct (map mtime ps)" using ps inj by (simp add: distinct_map)
  then have "map mtime ps = map mtime (map fst d)"
    using sorted_distinct_set_unique [OF ps(2) _ srt] ps(1) by (simp add: image_comp)
  then show ?thesis using inj ps(1) by (intro map_inj_on [of mtime ps]) simp_all
qed


text \<open>The sample run, with everything unsynced lost.\<close>

definition good_env :: recovery_env where
  "good_env = \<lparr>ctx_done = (\<lambda>_. False), opens = (\<lambda>_. True), removes = (\<lambda>_. True)\<rparr>"

definition plain_options :: recovery_options where
  "plain_options = \<lparr>skip_active_file = [], batch_size = 0\<rparr>"

definition sample_crash :: dir where
  "sample_crash = map (\<lambda>(p, f). (p, f\<lparr>content := take (durable f) (content f)\<rparr>)) (dir sample_end)"

definition sample_mtime :: "string \<Rightarrow> int" where
  "sample_mtime p = (if p = ''a.wal'' then 1 else 2)"

lemma map_fst_upd_file [simp]: "map fst (upd_file p g d) = map fst d"
  by (induction d) auto

lemma sample_names: "map fst sample_crash = [''a.wal'', ''b.wal'']"
  by (simp add: sample_crash_def comp_def case_prod_beta)
    (simp add: sample_end_def ticker_sync_def sample_written_def write_entry_def written_def wal_sync_def
      sample_queued_def sample_start_def append_raw_def new_writer_def wal_rotate_def sample_rotation_def
      call_hook_def try_enqueue_def sample_config_def with_defaults_def sample_env_def open_append_def
      put_bytes_def max_wal_payload_def file_header_size_def Let_def)


definition sample_file :: disk_file where
  "sample_file = \<lparr>content = file_header @ concat (map entry_frame [(5, [0x90])]) @ [], durable = 0\<rparr>"


section \<open>Columnar entries without a callback\<close>

text \<open>
  \<open>Recover\<close> passes no columnar callback: a file whose entries are columnar, as
  \<open>AppendRawWithMeta\<close> writes them, is removed without a single call.
\<close>

lemma columnar_entries_dropped:
  assumes "map_of d p = Some f" "read_all M (content f) = Ret (Inr (es, rd))"
    "\<forall>e\<in>set es. e_records e = None" "on_columnar cb = None" "all_good env"
  shows "\<exists>s. recover M R cb \<lparr>skip_active_file = [], batch_size = 0\<rparr> env [p] d st = Ret (False, s) \<and>
    rec_st s = st \<and> rec_dir s = remove_file p d"
proof -
  have "replay_entries R cb \<lparr>skip_active_file = [], batch_size = 0\<rparr> es (st, 0, 0) = (True, st, 0, 0)"
    using assms(3,4) by (induction es) (auto simp: replay_entry_def split: option.splits)
  then show ?thesis
    using assms by (simp add: recover_def recover_file_def all_good_def Let_def)
qed

end
