(* ===== verification/Cluster_Wire.thy ===== *)
theory Cluster_Wire
  imports Bytes
begin

text \<open>
  The two wire formats between nodes: the cluster protocol
  (\<^verbatim>\<open>internal/cluster/protocol/codec.go\<close>) and the replication protocol
  (\<^verbatim>\<open>internal/cluster/replication/protocol.go\<close>).  Both put a length of four bytes and a type of
  one byte in front of a JSON payload, with different limits.  The JSON encoding of a payload
  is a parameter; what is modelled is the framing, on whose laws a whole connection rests.
\<close>

section \<open>The cluster protocol\<close>

definition max_cluster_message :: nat where
  "max_cluster_message = 1048576"

datatype message_type =
    MsgJoinRequest | MsgJoinResponse | MsgLeaderInfo | MsgHeartbeat | MsgHeartbeatAck | MsgLeaveNotify
  | MsgReplicateSync | MsgReplicateSyncAck | MsgFetchFile | MsgFetchFileAck | MsgForwardApply | MsgForwardApplyAck

fun type_byte :: "message_type \<Rightarrow> byte" where
  "type_byte MsgJoinRequest = 1"
| "type_byte MsgJoinResponse = 2"
| "type_byte MsgLeaderInfo = 3"
| "type_byte MsgHeartbeat = 4"
| "type_byte MsgHeartbeatAck = 5"
| "type_byte MsgLeaveNotify = 6"
| "type_byte MsgReplicateSync = 0x10"
| "type_byte MsgReplicateSyncAck = 0x11"
| "type_byte MsgFetchFile = 0x20"
| "type_byte MsgFetchFileAck = 0x21"
| "type_byte MsgForwardApply = 0x30"
| "type_byte MsgForwardApplyAck = 0x31"

definition all_types :: "message_type list" where
  "all_types = [MsgJoinRequest, MsgJoinResponse, MsgLeaderInfo, MsgHeartbeat, MsgHeartbeatAck, MsgLeaveNotify,
     MsgReplicateSync, MsgReplicateSyncAck, MsgFetchFile, MsgFetchFileAck, MsgForwardApply, MsgForwardApplyAck]"

text \<open>The switch of \<open>unmarshalPayload\<close>: a byte that is no known type is an error.\<close>

definition type_of_byte :: "byte \<Rightarrow> message_type option" where
  "type_of_byte b = find (\<lambda>t. type_byte t = b) all_types"

lemma type_of_byte [simp]: "type_of_byte (type_byte t) = Some t"
  by (cases t) (simp_all add: type_of_byte_def all_types_def)

text \<open>\<^verbatim>\<open>json.Marshal\<close> and \<^verbatim>\<open>json.Unmarshal\<close> of the payloads, by type.\<close>

record 'p payload_json =
  marshal :: "message_type \<Rightarrow> 'p \<Rightarrow> bytes option"
  unmarshal :: "message_type \<Rightarrow> bytes \<Rightarrow> 'p option"

datatype wire_error =
    MarshalFailed | TooLarge nat | ReadFailed | InvalidLength | UnknownType byte | UnmarshalFailed

definition encode_message :: "'p payload_json \<Rightarrow> message_type \<times> 'p \<Rightarrow> wire_error + bytes" where
  "encode_message J m =
     (case marshal J (fst m) (snd m) of
        None \<Rightarrow> Inl MarshalFailed
      | Some payload \<Rightarrow>
          let total = 1 + length payload
          in if max_cluster_message < total then Inl (TooLarge total)
             else Inr (be_put 4 total @ [type_byte (fst m)] @ payload))"

definition unmarshal_payload :: "'p payload_json \<Rightarrow> byte \<Rightarrow> bytes \<Rightarrow> wire_error + message_type \<times> 'p" where
  "unmarshal_payload J b payload =
     (case type_of_byte b of
        None \<Rightarrow> Inl (UnknownType b)
      | Some t \<Rightarrow> (case unmarshal J t payload of None \<Rightarrow> Inl UnmarshalFailed | Some p \<Rightarrow> Inr (t, p)))"

definition decode_message :: "'p payload_json \<Rightarrow> bytes \<Rightarrow> wire_error + (message_type \<times> 'p) \<times> bytes" where
  "decode_message J s =
     (case read_full 4 s of
        ReadOk h r \<Rightarrow>
          let len = be_get h
          in if len = 0 then Inl InvalidLength
             else if max_cluster_message < len then Inl (TooLarge len)
             else (case read_full 1 r of
                     ReadOk t r1 \<Rightarrow>
                       (case read_full (len - 1) r1 of
                          ReadOk payload r2 \<Rightarrow>
                            (case unmarshal_payload J (hd t) payload of
                               Inl e \<Rightarrow> Inl e
                             | Inr m \<Rightarrow> Inr (m, r2))
                        | _ \<Rightarrow> Inl ReadFailed)
                   | _ \<Rightarrow> Inl ReadFailed)
      | _ \<Rightarrow> Inl ReadFailed)"

section \<open>The replication protocol\<close>

definition max_replication_message :: nat where
  "max_replication_message = 104857600"

definition write_message :: "byte \<Rightarrow> bytes \<Rightarrow> wire_error + bytes" where
  "write_message t payload =
     (let total = 1 + length payload
      in if max_replication_message < total then Inl (TooLarge total)
         else Inr (be_put 4 total @ [t] @ payload))"

definition read_message :: "bytes \<Rightarrow> wire_error + (byte \<times> bytes) \<times> bytes" where
  "read_message s =
     (case read_full 4 s of
        ReadOk h r \<Rightarrow>
          let len = be_get h
          in if max_replication_message < len then Inl (TooLarge len)
             else if len < 1 then Inl InvalidLength
             else (case read_full 1 r of
                     ReadOk t r1 \<Rightarrow>
                       (case read_full (len - 1) r1 of
                          ReadOk payload r2 \<Rightarrow> Inr ((hd t, payload), r2)
                        | _ \<Rightarrow> Inl ReadFailed)
                   | _ \<Rightarrow> Inl ReadFailed)
      | _ \<Rightarrow> Inl ReadFailed)"

section \<open>Both are framed streams\<close>

text \<open>The common frame, with the limit as a parameter.\<close>

definition wire_frame :: "byte \<times> bytes \<Rightarrow> bytes" where
  "wire_frame m = be_put 4 (1 + length (snd m)) @ fst m # snd m"

definition wire_fits :: "nat \<Rightarrow> byte \<times> bytes \<Rightarrow> bool" where
  "wire_fits limit m \<longleftrightarrow> 1 + length (snd m) \<le> limit \<and> limit < 256 ^ 4"

definition wire_next :: "nat \<Rightarrow> bytes \<Rightarrow> ((byte \<times> bytes) \<times> bytes) option" where
  "wire_next limit s =
     (case read_full 4 s of
        ReadOk h r \<Rightarrow>
          if be_get h = 0 \<or> limit < be_get h then None
          else (case read_full 1 r of
                  ReadOk t r1 \<Rightarrow>
                    (case read_full (be_get h - 1) r1 of
                       ReadOk payload r2 \<Rightarrow> Some ((hd t, payload), r2) | _ \<Rightarrow> None)
                | _ \<Rightarrow> None)
      | _ \<Rightarrow> None)"

lemma wire_next_frame: "wire_fits limit m \<Longrightarrow> wire_next limit (wire_frame m @ s) = Some (m, s)"
  using read_full_append [of "[fst m]" 1 "snd m @ s"]
  by (simp add: wire_next_def wire_frame_def wire_fits_def)

lemma wire_next_torn:
  assumes "wire_fits limit m" "proper_prefix t (wire_frame m)"
  shows "wire_next limit t = None"
proof -
  obtain u where u: "be_put 4 (1 + length (snd m)) @ fst m # snd m = t @ u" "u \<noteq> []"
    using assms(2) by (auto simp: proper_prefix_def wire_frame_def)
  have len: "length t < 5 + length (snd m)"
    using arg_cong [OF u(1), of length] u(2) by (cases u) auto
  have hd: "read_full 4 t = ReadOk (be_put 4 (1 + length (snd m))) (drop 4 t)" if "4 \<le> length t"
    using arg_cong [OF u(1), of "take 4"] that by (simp add: read_full_def)
  show ?thesis
  proof (cases "4 \<le> length t")
    case True
    then show ?thesis
      using hd assms(1) len
      by (auto simp: wire_next_def wire_fits_def read_full_def split: read_result.splits)
  qed (simp add: wire_next_def)
qed

lemma wire_next_shrinks: "wire_next limit s = Some (m, r) \<Longrightarrow> length r < length s"
  by (auto simp: wire_next_def dest!: read_full_OkD split: read_result.splits if_splits)

interpretation wire: framing "wire_fits limit" wire_frame "wire_next limit" for limit
  by unfold_locales (simp_all add: wire_next_frame wire_next_torn wire_next_shrinks)

lemma write_message_frame:
  "write_message t p = Inr w \<longleftrightarrow> wire_fits max_replication_message (t, p) \<and> w = wire_frame (t, p)"
  by (auto simp: write_message_def wire_fits_def wire_frame_def Let_def max_replication_message_def)

lemma read_message_next:
  "wire_next max_replication_message s = (case read_message s of Inl _ \<Rightarrow> None | Inr x \<Rightarrow> Some x)"
  by (auto simp: wire_next_def read_message_def Let_def split: read_result.splits)

lemma encode_message_frame:
  "encode_message J m = Inr w \<longleftrightarrow> (\<exists>p. marshal J (fst m) (snd m) = Some p \<and>
     wire_fits max_cluster_message (type_byte (fst m), p) \<and> w = wire_frame (type_byte (fst m), p))"
  by (auto simp: encode_message_def wire_fits_def wire_frame_def Let_def max_cluster_message_def split: option.splits)

lemma decode_message_next:
  "decode_message J s = Inr (m, r) \<longleftrightarrow>
     (\<exists>b p. wire_next max_cluster_message s = Some ((b, p), r) \<and> unmarshal_payload J b p = Inr m)"
  by (auto simp: wire_next_def decode_message_def Let_def split: read_result.splits sum.splits)

text \<open>A message that was encoded is decoded again, whatever follows it on the connection.\<close>

lemma cluster_message_round_trip:
  assumes "encode_message J m = Inr w" "unmarshal J (fst m) (the (marshal J (fst m) (snd m))) = Some (snd m)"
  shows "decode_message J (w @ s) = Inr (m, s)"
  using assms by (auto simp: encode_message_frame decode_message_next wire_next_frame unmarshal_payload_def)

text \<open>A message is never accepted from a truncated frame.\<close>

lemma cluster_message_torn:
  assumes "encode_message J m = Inr w" "proper_prefix t w"
  shows "\<exists>e. decode_message J t = Inl e"
proof (cases "decode_message J t")
  case (Inr x)
  then show ?thesis
    using assms decode_message_next [of J t "fst x" "snd x"]
    by (auto simp: encode_message_frame dest: wire_next_torn)
qed simp

end
