(* ===== verification/Replication_Sender.thy ===== *)
theory Replication_Sender
  imports Cluster_Wire Cluster_Auth
begin

text \<open>
  The writer's side of WAL replication (\<^verbatim>\<open>internal/cluster/replication/sender.go\<close>): the
  connections of the readers, the bounded queue of entries, their distribution with a MAC tag
  per entry and a signed checkpoint every so many entries.  A connection is an object that the
  table of readers and its own receive loop refer to, so connections live in a store and the
  table holds their addresses.  JSON encodings, random nonces, clock readings and the results
  of writes are parameters.
\<close>

section \<open>Messages\<close>

record entry_msg =
  en_seq :: u64
  en_ts :: u64
  en_payload :: string
  en_tag :: string

record checkpoint_msg =
  cp_hash :: string
  cp_last :: u64
  cp_nonce :: string
  cp_sender :: string
  cp_cluster :: string
  cp_timestamp :: int64
  cp_hmac :: string

definition MsgReplicateEntry :: byte where "MsgReplicateEntry = 0x10"
definition MsgReplicateAck :: byte where "MsgReplicateAck = 0x11"
definition MsgReplicateCheckpoint :: byte where "MsgReplicateCheckpoint = 0x14"
definition MsgReplicateError :: byte where "MsgReplicateError = 0x1F"

text \<open>\<^verbatim>\<open>json.Marshal\<close>, \<open>ParseEntry\<close>, \<open>ParseCheckpoint\<close>, \<open>ParseAck\<close> and \<open>ParseError\<close>.\<close>

record repl_json =
  m_entry :: "entry_msg \<Rightarrow> bytes"
  m_checkpoint :: "checkpoint_msg \<Rightarrow> bytes"
  p_entry :: "bytes \<Rightarrow> entry_msg option"
  p_checkpoint :: "bytes \<Rightarrow> checkpoint_msg option"
  p_ack :: "bytes \<Rightarrow> u64 option"
  p_error :: "bytes \<Rightarrow> (string \<times> string) option"

section \<open>Configuration and state\<close>

record sender_config =
  sc_buffer :: int
  sc_secret :: string
  sc_cluster :: string
  sc_node :: string
  sc_interval :: int

definition sender_defaults :: "sender_config \<Rightarrow> sender_config" where
  "sender_defaults c =
     c\<lparr>sc_buffer := (if sc_buffer c \<le> 0 then 10000 else sc_buffer c),
       sc_interval := (if sc_interval c \<le> 0 then 1024 else sc_interval c)\<rparr>"

text \<open>
  A connection.  \<open>rc_cumulative\<close> is what the running SHA-256 has absorbed, \<open>rc_closed\<close> covers
  the cancelled context and the closed socket, \<open>rc_out\<close> is what was written to the socket.
\<close>

record reader_conn =
  rc_id :: string
  rc_key :: string
  rc_last_ack :: u64
  rc_cumulative :: string
  rc_since :: int
  rc_closed :: bool
  rc_out :: bytes
  rc_sent :: int
  rc_errors :: int

record sender =
  s_readers :: "string \<rightharpoonup> nat"
  s_conns :: "nat \<rightharpoonup> reader_conn"
  s_loops :: "nat set"
  s_chan :: "entry_msg list"
  s_seq :: u64
  s_running :: bool
  s_received :: int
  s_dropped :: int

definition new_sender :: sender where
  "new_sender = \<lparr>s_readers = Map.empty, s_conns = Map.empty, s_loops = {}, s_chan = [], s_seq = 0,
     s_running = True, s_received = 0, s_dropped = 0\<rparr>"

section \<open>Accepting a reader\<close>

datatype sender_error = SharedSecretRequired | HandshakeNonceRequired | KeyDerivationFailed

definition PrepareReader ::
  "crypto \<Rightarrow> sender_config \<Rightarrow> string \<Rightarrow> string \<Rightarrow> u64 \<Rightarrow> sender_error + reader_conn" where
  "PrepareReader K c readerID nonce lastKnown =
     (if sc_secret c = [] then Inl SharedSecretRequired
      else if nonce = [] then Inl HandshakeNonceRequired
      else (case DeriveReplicationSessionKey K (sc_secret c) nonce of
              None \<Rightarrow> Inl KeyDerivationFailed
            | Some key \<Rightarrow> Inr \<lparr>rc_id = readerID, rc_key = key, rc_last_ack = lastKnown, rc_cumulative = [],
                rc_since = 0, rc_closed = False, rc_out = [], rc_sent = 0, rc_errors = 0\<rparr>))"

text \<open>Whether the reader can resume, in the arithmetic of \<^verbatim>\<open>uint64\<close>.\<close>

definition CanResume :: "sender_config \<Rightarrow> u64 \<Rightarrow> u64 \<Rightarrow> bool" where
  "CanResume c current lastKnown \<longleftrightarrow>
     lastKnown = 0 \<or> current - word_of_int (sc_buffer c) \<le> lastKnown"

definition close_conn :: "nat \<Rightarrow> sender \<Rightarrow> sender" where
  "close_conn n s =
     s\<lparr>s_conns := (case s_conns s n of None \<Rightarrow> s_conns s
                  | Some rc \<Rightarrow> (s_conns s)(n \<mapsto> rc\<lparr>rc_closed := True\<rparr>))\<rparr>"

text \<open>\<open>ActivateReader\<close>, for a prepared connection stored at the address \<open>n\<close>.\<close>

definition ActivateReader :: "nat \<Rightarrow> reader_conn \<Rightarrow> sender \<Rightarrow> sender" where
  "ActivateReader n rc s =
     (let s1 = (case s_readers s (rc_id rc) of None \<Rightarrow> s | Some old \<Rightarrow> close_conn old s)
      in s1\<lparr>s_conns := (s_conns s1)(n \<mapsto> rc), s_readers := (s_readers s1)(rc_id rc \<mapsto> n),
            s_loops := insert n (s_loops s1)\<rparr>)"

definition RemoveReader :: "string \<Rightarrow> sender \<Rightarrow> sender" where
  "RemoveReader readerID s =
     (case s_readers s readerID of
        None \<Rightarrow> s
      | Some n \<Rightarrow> (close_conn n s)\<lparr>s_readers := (s_readers s)(readerID := None)\<rparr>)"

text \<open>
  The receive loop of the connection at \<open>n\<close>: an acknowledgement, and its end, which happens when
  the socket is closed and runs the deferred removal.
\<close>

definition handle_ack :: "repl_json \<Rightarrow> nat \<Rightarrow> byte \<times> bytes \<Rightarrow> sender \<Rightarrow> sender" where
  "handle_ack J n m s =
     (if fst m = MsgReplicateAck then
        (case (p_ack J (snd m), s_conns s n) of
           (Some q, Some rc) \<Rightarrow> s\<lparr>s_conns := (s_conns s)(n \<mapsto> rc\<lparr>rc_last_ack := q\<rparr>)\<rparr>
         | _ \<Rightarrow> s)
      else s)"

definition loop_ends :: "nat \<Rightarrow> sender \<Rightarrow> sender" where
  "loop_ends n s =
     (case s_conns s n of
        None \<Rightarrow> s
      | Some rc \<Rightarrow> RemoveReader (rc_id rc) (s\<lparr>s_loops := s_loops s - {n}\<rparr>))"

section \<open>Queueing an entry\<close>

text \<open>
  \<open>Replicate\<close> takes a number and then offers the entry to the channel.  No lock covers the two, and
  the WAL calls it from every goroutine that appends.
\<close>

definition take_number :: "entry_msg \<Rightarrow> sender \<Rightarrow> entry_msg \<times> sender" where
  "take_number e s =
     (let n = s_seq s + 1
      in (e\<lparr>en_seq := n\<rparr>, s\<lparr>s_seq := n, s_received := s_received s + 1\<rparr>))"

definition offer :: "sender_config \<Rightarrow> entry_msg \<Rightarrow> sender \<Rightarrow> sender" where
  "offer c e s =
     (if int (length (s_chan s)) < sc_buffer c then s\<lparr>s_chan := s_chan s @ [e]\<rparr>
      else s\<lparr>s_dropped := s_dropped s + 1\<rparr>)"

definition Replicate :: "sender_config \<Rightarrow> entry_msg \<Rightarrow> sender \<Rightarrow> sender" where
  "Replicate c e s =
     (if \<not> s_running s then s else let (e', s1) = take_number e s in offer c e' s1)"

section \<open>Sending an entry\<close>

text \<open>
  What the world answers while an entry is sent: the number of bytes after which the write of
  the entry (or of the checkpoint) fails, if it does, the nonce of the checkpoint, and the time.
\<close>

record send_env =
  se_entry_fails :: "nat option"
  se_cp_fails :: "nat option"
  se_nonce :: "string option"
  se_unix :: int64

definition write_out :: "nat option \<Rightarrow> byte \<Rightarrow> bytes \<Rightarrow> reader_conn \<Rightarrow> bool \<times> reader_conn" where
  "write_out fails t payload rc =
     (case write_message t payload of
        Inl _ \<Rightarrow> (False, rc)
      | Inr w \<Rightarrow>
          (case fails of
             None \<Rightarrow> (True, rc\<lparr>rc_out := rc_out rc @ w\<rparr>)
           | Some k \<Rightarrow> (False, rc\<lparr>rc_out := rc_out rc @ take k w\<rparr>)))"

definition make_checkpoint :: "crypto \<Rightarrow> sender_config \<Rightarrow> string \<Rightarrow> int64 \<Rightarrow> u64 \<Rightarrow> string \<Rightarrow> checkpoint_msg" where
  "make_checkpoint K c nonce unix lastSeq cumulative =
     \<lparr>cp_hash = EncodeToString (sha256 K cumulative), cp_last = lastSeq, cp_nonce = nonce,
      cp_sender = sc_node c, cp_cluster = sc_cluster c, cp_timestamp = unix,
      cp_hmac = ComputeReplicationCheckpointHMAC K (sc_secret c) nonce (sc_node c) (sc_cluster c)
        (sha256 K cumulative) lastSeq unix\<rparr>"

definition emitCheckpointLocked ::
  "crypto \<Rightarrow> repl_json \<Rightarrow> sender_config \<Rightarrow> send_env \<Rightarrow> u64 \<Rightarrow> reader_conn \<Rightarrow> bool \<times> reader_conn" where
  "emitCheckpointLocked K J c env lastSeq rc =
     (if sc_secret c = [] then (False, rc)
      else (case se_nonce env of
              None \<Rightarrow> (False, rc)
            | Some nonce \<Rightarrow>
                (case write_out (se_cp_fails env) MsgReplicateCheckpoint
                        (m_checkpoint J (make_checkpoint K c nonce (se_unix env) lastSeq (rc_cumulative rc))) rc of
                   (False, rc1) \<Rightarrow> (False, rc1)
                 | (True, rc1) \<Rightarrow> (True, rc1\<lparr>rc_since := 0\<rparr>))))"

definition stamp :: "crypto \<Rightarrow> string \<Rightarrow> entry_msg \<Rightarrow> entry_msg" where
  "stamp K key e =
     e\<lparr>en_tag := EncodeToString (ComputeReplicationEntryTagFromHash K key (en_seq e) (sha256 K (en_payload e)))\<rparr>"

definition sendToReader ::
  "crypto \<Rightarrow> repl_json \<Rightarrow> sender_config \<Rightarrow> send_env \<Rightarrow> entry_msg \<Rightarrow> reader_conn \<Rightarrow> bool \<times> reader_conn" where
  "sendToReader K J c env e rc =
     (if rc_closed rc then (False, rc)
      else let rc1 = rc\<lparr>rc_cumulative := rc_cumulative rc @ en_payload e, rc_since := rc_since rc + 1\<rparr>
           in case write_out (se_entry_fails env) MsgReplicateEntry (m_entry J (stamp K (rc_key rc) e)) rc1 of
                (False, rc2) \<Rightarrow> (False, rc2)
              | (True, rc2) \<Rightarrow>
                  let rc3 = rc2\<lparr>rc_sent := rc_sent rc2 + 1\<rparr>
                  in if sc_interval c \<le> rc_since rc3 then emitCheckpointLocked K J c env (en_seq e) rc3
                     else (True, rc3))"

text \<open>\<open>broadcastEntry\<close>, over the connections in the order in which the table was ranged over.\<close>

definition send_one ::
  "crypto \<Rightarrow> repl_json \<Rightarrow> sender_config \<Rightarrow> (nat \<Rightarrow> send_env) \<Rightarrow> entry_msg \<Rightarrow> nat \<Rightarrow> sender \<Rightarrow> sender" where
  "send_one K J c env e n s =
     (case s_conns s n of
        None \<Rightarrow> s
      | Some rc \<Rightarrow>
          (case sendToReader K J c (env n) e rc of
             (True, rc1) \<Rightarrow> s\<lparr>s_conns := (s_conns s)(n \<mapsto> rc1)\<rparr>
           | (False, rc1) \<Rightarrow>
               RemoveReader (rc_id rc) (s\<lparr>s_conns := (s_conns s)(n \<mapsto> rc1\<lparr>rc_errors := rc_errors rc1 + 1\<rparr>)\<rparr>)))"

definition broadcastEntry ::
  "crypto \<Rightarrow> repl_json \<Rightarrow> sender_config \<Rightarrow> (nat \<Rightarrow> send_env) \<Rightarrow> (string set \<Rightarrow> string list) \<Rightarrow> entry_msg \<Rightarrow> sender \<Rightarrow> sender" where
  "broadcastEntry K J c env order e s =
     fold (send_one K J c env e) (map (\<lambda>r. the (s_readers s r)) (order (dom (s_readers s)))) s"

text \<open>One round of \<open>distributionLoop\<close>.\<close>

definition distribute ::
  "crypto \<Rightarrow> repl_json \<Rightarrow> sender_config \<Rightarrow> (nat \<Rightarrow> send_env) \<Rightarrow> (string set \<Rightarrow> string list) \<Rightarrow> sender \<Rightarrow> sender" where
  "distribute K J c env order s =
     (case s_chan s of [] \<Rightarrow> s | e # q \<Rightarrow> broadcastEntry K J c env order e (s\<lparr>s_chan := q\<rparr>))"

section \<open>A reader that reconnects\<close>

text \<open>
  A reader that reconnects while its old connection is still registered is thrown out
  again.  \<open>ActivateReader\<close> closes the old connection and puts the new one into the table; the
  old connection's receive loop, which the closing ends, then removes the reader by its name:
  the new connection is closed and the reader is no longer in the table.
\<close>

theorem reconnected_reader_is_removed:
  assumes "s_readers s r = Some old" "s_conns s old = Some orc" "rc_id orc = r"
    and "rc_id rc = r" "n \<noteq> old"
  shows "\<exists>s' rc'. s' = loop_ends old (ActivateReader n rc s) \<and>
    s_readers (ActivateReader n rc s) r = Some n \<and>
    rc_closed (the (s_conns (ActivateReader n rc s) old)) \<and>
    s_readers s' r = None \<and> s_conns s' n = Some rc' \<and> rc_closed rc'"
  using assms
  by (simp add: ActivateReader_def loop_ends_def RemoveReader_def close_conn_def Let_def)

section \<open>Resuming\<close>

text \<open>
  Before the sender has numbered as many entries as its buffer holds, the subtraction wraps
  around and a reader that is only a few entries behind is told that it cannot resume.
\<close>

lemma CanResume_iff:
  assumes "0 \<le> sc_buffer c" "sc_buffer c < 2 ^ 64" "lastKnown \<noteq> 0"
  shows "CanResume c current lastKnown \<longleftrightarrow>
    (if sc_buffer c \<le> int (unat current) then int (unat current) - sc_buffer c \<le> int (unat lastKnown)
     else 2 ^ 64 + int (unat current) - sc_buffer c \<le> int (unat lastKnown))"
proof -
  have u: "uint (word_of_int (sc_buffer c) :: u64) = sc_buffer c"
    using assms(1,2) by (simp add: uint_word_of_int)
  have c: "uint current < 2 ^ 64" using uint_lt2p [of current] by simp
  have "uint (current - word_of_int (sc_buffer c)) = (uint current - sc_buffer c) mod 2 ^ 64"
    by (simp add: uint_word_ariths u)
  also have "\<dots> = (if sc_buffer c \<le> uint current then uint current - sc_buffer c
      else 2 ^ 64 + uint current - sc_buffer c)"
  proof (cases "sc_buffer c \<le> uint current")
    case True
    then show ?thesis using assms(1) c by (simp add: mod_pos_pos_trivial)
  next
    case False
    have "(uint current - sc_buffer c) mod 2 ^ 64 = (uint current - sc_buffer c + 2 ^ 64) mod 2 ^ 64"
      by (rule mod_add_self2 [symmetric])
    also have "\<dots> = uint current - sc_buffer c + 2 ^ 64"
    proof (rule mod_pos_pos_trivial)
      have "0 \<le> uint current" by simp
      then show "0 \<le> uint current - sc_buffer c + 2 ^ 64" using assms(2) by linarith
      show "uint current - sc_buffer c + 2 ^ 64 < 2 ^ 64" using False by linarith
    qed
    finally show ?thesis using False by simp
  qed
  finally show ?thesis
    using assms(3) by (simp add: CanResume_def word_le_def)
qed

lemma resume_refused: "\<not> CanResume (sender_defaults \<lparr>sc_buffer = 0, sc_secret = [], sc_cluster = [], sc_node = [], sc_interval = 0\<rparr>) 5 3"
  by (simp add: CanResume_def sender_defaults_def word_le_def)

end
