(* ===== verification/Replication_Receiver.thy ===== *)
theory Replication_Receiver
  imports Replication_Sender
begin

text \<open>
  The reader's side of WAL replication (\<^verbatim>\<open>internal/cluster/replication/receiver.go\<close>) with the
  handshake as the coordinator checks it (\<open>handleReplicateSync\<close> and
  \<open>AcceptReplicationConnection\<close> in \<^verbatim>\<open>internal/cluster/coordinator.go\<close>).  The local WAL and the
  ingest handler are parameters that act on a state of their own.
\<close>

section \<open>The handshake\<close>

record sync_request =
  sy_reader :: string
  sy_last :: u64
  sy_nonce :: string
  sy_cluster :: string
  sy_timestamp :: int64
  sy_hmac :: string

datatype connect_error = NoSharedSecret | NonceFailed

text \<open>The request \<open>connect\<close> sends.\<close>

definition sync_message :: "crypto \<Rightarrow> string \<Rightarrow> string \<Rightarrow> string \<Rightarrow> u64 \<Rightarrow> string option \<Rightarrow> int64 \<Rightarrow> connect_error + sync_request" where
  "sync_message K secret readerID cluster lastSeq nonce unix =
     (if secret = [] then Inl NoSharedSecret
      else (case nonce of
              None \<Rightarrow> Inl NonceFailed
            | Some n \<Rightarrow> Inr \<lparr>sy_reader = readerID, sy_last = lastSeq, sy_nonce = n, sy_cluster = cluster,
                sy_timestamp = unix,
                sy_hmac = ComputeReplicateSyncHMAC K secret n readerID cluster lastSeq unix\<rparr>))"

datatype sync_reply = AuthenticationFailed | NotAWriter | Refused sender_error | Accepted u64 bool reader_conn

text \<open>
  The coordinator's handler.  \<open>nc\<close> is the replay cache, if there is one; \<open>clock\<close> is the clock the
  HMAC is checked by, \<open>t\<close> the one of the cache.
\<close>

definition handleReplicateSync ::
  "crypto \<Rightarrow> sender_config \<Rightarrow> string option \<Rightarrow> int \<Rightarrow> int \<Rightarrow> sync_request \<Rightarrow> sender option \<Rightarrow> nonce_cache option \<Rightarrow>
   sync_reply \<times> nonce_cache option" where
  "handleReplicateSync K c localID clock t req snd_opt nc =
     (if sc_secret c = [] then (AuthenticationFailed, nc)
      else if sy_hmac req = [] \<or> sy_nonce req = [] \<or> sy_cluster req = [] \<or> sy_timestamp req = 0
      then (AuthenticationFailed, nc)
      else if localID = Some (sy_reader req) then (AuthenticationFailed, nc)
      else if sy_cluster req \<noteq> sc_cluster c then (AuthenticationFailed, nc)
      else if ValidateReplicateSyncHMAC K (sc_secret c) (sy_nonce req) (sy_reader req) (sy_cluster req)
                (sy_last req) (sy_timestamp req) (sy_hmac req) HMACTimestampTolerance clock \<noteq> None
      then (AuthenticationFailed, nc)
      else let (fresh, nc') = (case nc of
                                 None \<Rightarrow> (True, None)
                               | Some cache \<Rightarrow> apsnd Some (Track t (sy_reader req) (sy_nonce req) cache))
           in if \<not> fresh then (AuthenticationFailed, nc')
              else (case snd_opt of
                      None \<Rightarrow> (NotAWriter, nc')
                    | Some s \<Rightarrow>
                        (case PrepareReader K c (sy_reader req) (sy_nonce req) (sy_last req) of
                           Inl e \<Rightarrow> (Refused e, nc')
                         | Inr rc \<Rightarrow> (Accepted (s_seq s) (CanResume c (s_seq s) (sy_last req)) rc, nc'))))"

section \<open>State of a receiver\<close>

datatype local_wal_result = LocalWALOk | LocalWALDropped | LocalWALError

record 'st receiver_config =
  rcf_secret :: string
  rcf_cluster :: string
  rcf_wal :: "(string \<Rightarrow> 'st \<Rightarrow> local_wal_result \<times> 'st) option"
  rcf_ingest :: "(string \<Rightarrow> 'st \<Rightarrow> bool \<times> 'st) option"

record 'st receiver =
  rv_last :: u64
  rv_key :: string
  rv_cumulative :: string
  rv_st :: 'st
  rv_received :: int
  rv_applied :: int
  rv_errors :: int
  rv_wal_dropped :: int

definition rv_error :: "'st receiver \<Rightarrow> 'st receiver" where
  "rv_error rv = rv\<lparr>rv_errors := rv_errors rv + 1\<rparr>"

text \<open>
  After a successful handshake: the session key is derived from the nonce, the running hash
  starts afresh, the last sequence is kept.
\<close>

definition begin_stream :: "crypto \<Rightarrow> string \<Rightarrow> string \<Rightarrow> 'st receiver \<Rightarrow> 'st receiver option" where
  "begin_stream K secret nonce rv =
     (case DeriveReplicationSessionKey K secret nonce of
        None \<Rightarrow> None
      | Some key \<Rightarrow> Some (rv\<lparr>rv_key := key, rv_cumulative := []\<rparr>))"

section \<open>Applying an entry\<close>

definition applyEntry :: "'st receiver_config \<Rightarrow> entry_msg \<Rightarrow> 'st receiver \<Rightarrow> bool \<times> 'st receiver" where
  "applyEntry cfg e rv =
     (case (case rcf_wal cfg of None \<Rightarrow> (LocalWALOk, rv_st rv) | Some w \<Rightarrow> w (en_payload e) (rv_st rv)) of
        (res, st1) \<Rightarrow>
          if res = LocalWALError then (False, rv\<lparr>rv_st := st1\<rparr>)
          else let rv1 = rv\<lparr>rv_st := st1,
                     rv_wal_dropped := rv_wal_dropped rv + (if res = LocalWALDropped then 1 else 0)\<rparr>
               in (case (case rcf_ingest cfg of None \<Rightarrow> (True, st1) | Some f \<Rightarrow> f (en_payload e) st1) of
                     (False, st2) \<Rightarrow> (False, rv1\<lparr>rv_st := st2\<rparr>)
                   | (True, st2) \<Rightarrow> (True, rv1\<lparr>rv_st := st2, rv_applied := rv_applied rv1 + 1\<rparr>)))"

section \<open>The receive loop\<close>

text \<open>
  One frame.  The flag says whether the connection goes on.  \<^verbatim>\<open>hex.Decode\<close> into an array of the
  right size is \<open>DecodeString\<close> after the length was checked.
\<close>

definition receive_entry ::
  "crypto \<Rightarrow> repl_json \<Rightarrow> 'st receiver_config \<Rightarrow> bytes \<Rightarrow> 'st receiver \<Rightarrow> bool \<times> 'st receiver" where
  "receive_entry K J cfg payload rv =
     (case p_entry J payload of
        None \<Rightarrow> (False, rv_error rv)
      | Some e \<Rightarrow>
          if en_tag e = [] then (False, rv_error rv)
          else if length (en_tag e) \<noteq> ReplicationEntryTagLen * 2 then (False, rv_error rv)
          else (case DecodeString (en_tag e) of
                  None \<Rightarrow> (False, rv_error rv)
                | Some tag \<Rightarrow>
                    if ValidateReplicationEntryTag K (rv_key rv) (en_seq e) (en_payload e) tag \<noteq> None
                    then (False, rv_error rv)
                    else if en_seq e \<le> rv_last rv then (False, rv_error rv)
                    else (case applyEntry cfg e (rv\<lparr>rv_cumulative := rv_cumulative rv @ en_payload e\<rparr>) of
                            (False, rv1) \<Rightarrow> (True, rv_error rv1)
                          | (True, rv1) \<Rightarrow>
                              (True, rv1\<lparr>rv_last := en_seq e, rv_received := rv_received rv1 + 1\<rparr>))))"

definition receive_checkpoint ::
  "crypto \<Rightarrow> repl_json \<Rightarrow> 'st receiver_config \<Rightarrow> int \<Rightarrow> bytes \<Rightarrow> 'st receiver \<Rightarrow> bool \<times> 'st receiver" where
  "receive_checkpoint K J cfg clock payload rv =
     (case p_checkpoint J payload of
        None \<Rightarrow> (False, rv_error rv)
      | Some cp \<Rightarrow>
          if cp_cluster cp \<noteq> rcf_cluster cfg then (False, rv_error rv)
          else if cp_last cp \<noteq> rv_last rv then (False, rv_error rv)
          else if length (cp_hash cp) \<noteq> 32 * 2 then (False, rv_error rv)
          else (case DecodeString (cp_hash cp) of
                  None \<Rightarrow> (False, rv_error rv)
                | Some their \<Rightarrow>
                    if their \<noteq> sha256 K (rv_cumulative rv) then (False, rv_error rv)
                    else if ValidateReplicationCheckpointHMAC K (rcf_secret cfg) (cp_nonce cp) (cp_sender cp)
                              (cp_cluster cp) their (cp_last cp) (cp_timestamp cp) (cp_hmac cp)
                              HMACTimestampTolerance clock \<noteq> None
                    then (False, rv_error rv)
                    else (True, rv)))"

definition receive_frame ::
  "crypto \<Rightarrow> repl_json \<Rightarrow> 'st receiver_config \<Rightarrow> int \<Rightarrow> byte \<times> bytes \<Rightarrow> 'st receiver \<Rightarrow> bool \<times> 'st receiver" where
  "receive_frame K J cfg clock m rv =
     (if fst m = MsgReplicateEntry then receive_entry K J cfg (snd m) rv
      else if fst m = MsgReplicateCheckpoint then receive_checkpoint K J cfg clock (snd m) rv
      else (False, rv_error rv))"

text \<open>
  The frames of one connection, until one ends it; \<open>clock i\<close> is the time at which the \<open>i\<close>-th of
  them is handled.
\<close>

definition later :: "(nat \<Rightarrow> int) \<Rightarrow> nat \<Rightarrow> int" where
  "later clock i = clock (Suc i)"

fun receive_frames ::
  "crypto \<Rightarrow> repl_json \<Rightarrow> 'st receiver_config \<Rightarrow> (nat \<Rightarrow> int) \<Rightarrow> (byte \<times> bytes) list \<Rightarrow> 'st receiver \<Rightarrow>
   bool \<times> 'st receiver" where
  "receive_frames K J cfg clock [] rv = (True, rv)"
| "receive_frames K J cfg clock (m # ms) rv =
     (case receive_frame K J cfg (clock 0) m rv of
        (False, rv1) \<Rightarrow> (False, rv1)
      | (True, rv1) \<Rightarrow> receive_frames K J cfg (later clock) ms rv1)"

text \<open>The loop on the bytes that arrived: an empty session key is refused.\<close>

definition receiveLoop ::
  "crypto \<Rightarrow> repl_json \<Rightarrow> 'st receiver_config \<Rightarrow> (nat \<Rightarrow> int) \<Rightarrow> bytes \<Rightarrow> 'st receiver \<Rightarrow> bool \<times> 'st receiver" where
  "receiveLoop K J cfg clock stream rv =
     (if rv_key rv = [] then (False, rv)
      else receive_frames K J cfg clock (received (wire_next max_replication_message) stream) rv)"

text \<open>
  A tick of \<open>ackLoop\<close>: the acknowledgement that is written, if any, and the sequence number the
  loop remembers.
\<close>

definition ack_tick :: "u64 \<Rightarrow> 'st receiver \<Rightarrow> u64 option \<times> u64" where
  "ack_tick lastAcked rv =
     (if rv_last rv = lastAcked then (None, lastAcked) else (Some (rv_last rv), rv_last rv))"

section \<open>What is applied\<close>

text \<open>
  An ingest handler that records its calls, with any answers, and a WAL that answers anything.
\<close>

definition recording :: "(string \<Rightarrow> local_wal_result) option \<Rightarrow> (string \<Rightarrow> bool) \<Rightarrow> string \<Rightarrow> string \<Rightarrow> string list receiver_config" where
  "recording wal_answer good secret cluster =
     \<lparr>rcf_secret = secret, rcf_cluster = cluster,
      rcf_wal = map_option (\<lambda>w p st. (w p, st)) wal_answer,
      rcf_ingest = Some (\<lambda>p st. (good p, if good p then st @ [p] else st))\<rparr>"

text \<open>The entries of a connection whose tag is right under the session key.\<close>

definition authentic :: "crypto \<Rightarrow> repl_json \<Rightarrow> string \<Rightarrow> byte \<times> bytes \<Rightarrow> entry_msg option" where
  "authentic K J key m =
     (if fst m \<noteq> MsgReplicateEntry then None
      else (case p_entry J (snd m) of
              None \<Rightarrow> None
            | Some e \<Rightarrow>
                (case DecodeString (en_tag e) of
                   None \<Rightarrow> None
                 | Some tag \<Rightarrow>
                     if ValidateReplicationEntryTag K key (en_seq e) (en_payload e) tag = None then Some e else None)))"

lemma rv_error_fields [simp]:
  "rv_last (rv_error rv) = rv_last rv" "rv_st (rv_error rv) = rv_st rv" "rv_key (rv_error rv) = rv_key rv"
  by (simp_all add: rv_error_def)

lemma applyEntry_recording:
  assumes "applyEntry (recording w good secret cluster) e rv = (ok, rv1)"
  shows "rv_last rv1 = rv_last rv \<and> rv_key rv1 = rv_key rv \<and> rv_cumulative rv1 = rv_cumulative rv \<and>
    rv_st rv1 = rv_st rv @ (if ok then [en_payload e] else []) \<and> (ok \<longrightarrow> good (en_payload e))"
  using assms by (auto simp: applyEntry_def recording_def Let_def split: option.splits if_splits prod.splits bool.splits)

lemma receive_frame_recording:
  assumes "receive_frame K J (recording w good secret cluster) clock m rv = (ok, rv1)"
  shows "rv_key rv1 = rv_key rv \<and>
    ((rv_st rv1 = rv_st rv \<and> rv_last rv1 = rv_last rv) \<or>
     (\<exists>e. authentic K J (rv_key rv) m = Some e \<and> rv_last rv < en_seq e \<and> rv_last rv1 = en_seq e \<and>
        rv_st rv1 = rv_st rv @ [en_payload e]))"
proof (cases "fst m = MsgReplicateEntry")
  case True
  have entry: "receive_entry K J (recording w good secret cluster) (snd m) rv = (ok, rv1)"
    using assms True by (simp add: receive_frame_def)
  show ?thesis
  proof (cases "p_entry J (snd m)")
    case None
    then show ?thesis using entry by (auto simp: receive_entry_def)
  next
    case (Some e)
    show ?thesis
    proof (cases "authentic K J (rv_key rv) m = Some e \<and> rv_last rv < en_seq e \<and> en_tag e \<noteq> [] \<and>
        length (en_tag e) = ReplicationEntryTagLen * 2")
      case False
      then show ?thesis
        using entry Some True
        by (auto simp: receive_entry_def authentic_def not_less split: option.splits if_splits)
    next
      case auth: True
      then obtain tag where tag: "DecodeString (en_tag e) = Some tag"
        "ValidateReplicationEntryTag K (rv_key rv) (en_seq e) (en_payload e) tag = None"
        using Some True by (auto simp: authentic_def split: option.splits if_splits)
      obtain ok' rv' where a: "applyEntry (recording w good secret cluster) e
          (rv\<lparr>rv_cumulative := rv_cumulative rv @ en_payload e\<rparr>) = (ok', rv')"
        by (cases "applyEntry (recording w good secret cluster) e
          (rv\<lparr>rv_cumulative := rv_cumulative rv @ en_payload e\<rparr>)")
      have above: "\<not> en_seq e \<le> rv_last rv" using auth by (simp add: not_le)
      have "(ok, rv1) = (if ok' then (True, rv'\<lparr>rv_last := en_seq e, rv_received := rv_received rv' + 1\<rparr>)
          else (True, rv_error rv'))"
        using entry Some auth tag above a by (simp add: receive_entry_def split: bool.splits)
      then show ?thesis
        using auth applyEntry_recording [OF a] by (cases ok') auto
    qed
  qed
next
  case False
  then show ?thesis
    using assms by (auto simp: receive_frame_def receive_checkpoint_def split: option.splits if_splits)
qed


end
