(* ===== verification/Replication_Stream.thy ===== *)
theory Replication_Stream
  imports Replication_Receiver
begin

text \<open>
  Both ends of a replication stream together: what a sender wrote for a reader, cut at any byte,
  is what the reader's loop accepts, entry by entry and checkpoint by checkpoint.  The JSON
  encoding is assumed to round-trip on ASCII strings (\<^verbatim>\<open>encoding/json\<close> replaces what is not valid
  UTF-8) and the primitives to have the lengths they have.
\<close>

section \<open>What is assumed of the parameters\<close>

definition ascii :: "string \<Rightarrow> bool" where
  "ascii s = list_all (\<lambda>c. of_char c < (128 :: nat)) s"

definition json_faithful :: "repl_json \<Rightarrow> bool" where
  "json_faithful J \<longleftrightarrow>
     (\<forall>e. ascii (en_tag e) \<longrightarrow> p_entry J (m_entry J e) = Some e) \<and>
     (\<forall>cp. ascii (cp_hash cp) \<and> ascii (cp_nonce cp) \<and> ascii (cp_sender cp) \<and> ascii (cp_cluster cp) \<and> ascii (cp_hmac cp)
        \<longrightarrow> p_checkpoint J (m_checkpoint J cp) = Some cp)"

definition crypto_lengths :: "crypto \<Rightarrow> bool" where
  "crypto_lengths K \<longleftrightarrow> (\<forall>m. length (sha256 K m) = 32) \<and> (\<forall>k m. length (hmac_sha256 K k m) = 32) \<and>
     (\<forall>secret salt info n k. hkdf K secret salt info n = Some k \<longrightarrow> length k = n)"

lemma hex_digit_ascii: "n < 16 \<Longrightarrow> of_char (hex_digit n) < (128 :: nat)"
  by (simp add: hex_digit_def of_char_of)

lemma ascii_Encode [simp]: "ascii (EncodeToString bs)"
proof (induction bs)
  case (Cons b bs)
  have "(of_char b :: nat) < 256" by simp
  then have "(of_char b :: nat) div 16 < 16" by (simp add: less_mult_imp_div_less)
  then show ?case using Cons by (simp add: EncodeToString_def ascii_def hex_digit_ascii)
qed (simp add: EncodeToString_def ascii_def)

lemma length_EncodeToString [simp]: "length (EncodeToString bs) = 2 * length bs"
  by (induction bs) (simp_all add: EncodeToString_def)

lemma tag_length: "crypto_lengths K \<Longrightarrow> length (ComputeReplicationEntryTagFromHash K key n h) = ReplicationEntryTagLen"
  by (simp add: crypto_lengths_def ComputeReplicationEntryTagFromHash_def ReplicationEntryTagLen_def)

section \<open>The stream of one reader\<close>

text \<open>The successive \<open>sendToReader\<close> calls for one connection; the first that fails is the last.\<close>

fun send_all ::
  "crypto \<Rightarrow> repl_json \<Rightarrow> sender_config \<Rightarrow> (send_env \<times> entry_msg) list \<Rightarrow> reader_conn \<Rightarrow> bool \<times> reader_conn" where
  "send_all K J c [] rc = (True, rc)"
| "send_all K J c ((env, e) # xs) rc =
     (case sendToReader K J c env e rc of
        (False, rc1) \<Rightarrow> (False, rc1)
      | (True, rc1) \<Rightarrow> send_all K J c xs rc1)"

definition entry_frame_of :: "crypto \<Rightarrow> repl_json \<Rightarrow> entry_msg \<Rightarrow> reader_conn \<Rightarrow> byte \<times> bytes" where
  "entry_frame_of K J e rc = (MsgReplicateEntry, m_entry J (stamp K (rc_key rc) e))"

definition checkpoint_frames ::
  "crypto \<Rightarrow> repl_json \<Rightarrow> sender_config \<Rightarrow> send_env \<Rightarrow> entry_msg \<Rightarrow> reader_conn \<Rightarrow> (byte \<times> bytes) list" where
  "checkpoint_frames K J c env e rc =
     (if sc_interval c \<le> rc_since rc + 1
      then [(MsgReplicateCheckpoint, m_checkpoint J (make_checkpoint K c (the (se_nonce env)) (se_unix env) (en_seq e)
               (rc_cumulative rc @ en_payload e)))]
      else [])"

fun reader_frames ::
  "crypto \<Rightarrow> repl_json \<Rightarrow> sender_config \<Rightarrow> (send_env \<times> entry_msg) list \<Rightarrow> reader_conn \<Rightarrow> (byte \<times> bytes) list" where
  "reader_frames K J c [] rc = []"
| "reader_frames K J c ((env, e) # xs) rc =
     entry_frame_of K J e rc # checkpoint_frames K J c env e rc
       @ reader_frames K J c xs (snd (sendToReader K J c env e rc))"

lemma write_out_True:
  "write_out fails t p rc = (True, rc') \<longleftrightarrow>
     fails = None \<and> wire_fits max_replication_message (t, p) \<and> rc' = rc\<lparr>rc_out := rc_out rc @ wire_frame (t, p)\<rparr>"
  by (auto simp: write_out_def write_message_frame split: sum.splits option.splits)
    (use write_message_frame in \<open>metis Inl_Inr_False\<close>)

lemma sendToReader_True:
  assumes "sendToReader K J c env e rc = (True, rc')"
  shows "(\<forall>m\<in>set (entry_frame_of K J e rc # checkpoint_frames K J c env e rc). wire_fits max_replication_message m) \<and>
    rc_out rc' = rc_out rc @ concat (map wire_frame (entry_frame_of K J e rc # checkpoint_frames K J c env e rc)) \<and>
    rc_key rc' = rc_key rc \<and> rc_cumulative rc' = rc_cumulative rc @ en_payload e \<and>
    rc_since rc' = (if sc_interval c \<le> rc_since rc + 1 then 0 else rc_since rc + 1)"
  using assms
  by (auto simp: sendToReader_def emitCheckpointLocked_def write_out_True Let_def entry_frame_of_def checkpoint_frames_def
      split: if_splits prod.splits bool.splits option.splits)

lemma send_all_True:
  assumes "send_all K J c xs rc = (True, rc')"
  shows "(\<forall>m\<in>set (reader_frames K J c xs rc). wire_fits max_replication_message m) \<and>
    rc_out rc' = rc_out rc @ concat (map wire_frame (reader_frames K J c xs rc))"
  using assms
proof (induction xs arbitrary: rc)
  case (Cons x xs)
  obtain env e where x: "x = (env, e)" by (cases x)
  obtain ok rc1 where s: "sendToReader K J c env e rc = (ok, rc1)" by (cases "sendToReader K J c env e rc")
  then have "ok" using Cons.prems x by (cases ok) auto
  with s sendToReader_True [of K J c env e rc rc1] Cons.IH [of rc1] Cons.prems x show ?case by auto
qed simp

section \<open>The reader accepts it\<close>

text \<open>Both ends have the same key and have absorbed the same payloads.\<close>

definition in_step :: "reader_conn \<Rightarrow> 'st receiver \<Rightarrow> bool" where
  "in_step rc rv \<longleftrightarrow> rc_key rc = rv_key rv \<and> rc_cumulative rc = rv_cumulative rv"

text \<open>What a reader looks like after it applied the entries \<open>es\<close>.\<close>

definition after :: "entry_msg list \<Rightarrow> string list receiver \<Rightarrow> string list receiver \<Rightarrow> bool" where
  "after es rv rv1 \<longleftrightarrow> rv_st rv1 = rv_st rv @ map en_payload es \<and>
     rv_last rv1 = last (rv_last rv # map en_seq es) \<and> rv_errors rv1 = rv_errors rv"

definition accepting :: "(string \<Rightarrow> local_wal_result) option \<Rightarrow> bool" where
  "accepting w \<longleftrightarrow> (\<forall>f. w = Some f \<longrightarrow> (\<forall>p. f p \<noteq> LocalWALError))"

lemma stamp_fields [simp]:
  "en_seq (stamp K key e) = en_seq e" "en_payload (stamp K key e) = en_payload e"
  "en_tag (stamp K key e) =
     EncodeToString (ComputeReplicationEntryTagFromHash K key (en_seq e) (sha256 K (en_payload e)))"
  by (simp_all add: stamp_def)

lemma receive_stamped:
  assumes "json_faithful J" "crypto_lengths K"
  shows "receive_frame K J cfg clock (MsgReplicateEntry, m_entry J (stamp K (rv_key rv) e)) rv =
    (if en_seq e \<le> rv_last rv then (False, rv_error rv)
     else (case applyEntry cfg (stamp K (rv_key rv) e) (rv\<lparr>rv_cumulative := rv_cumulative rv @ en_payload e\<rparr>) of
             (False, rv1) \<Rightarrow> (True, rv_error rv1)
           | (True, rv1) \<Rightarrow> (True, rv1\<lparr>rv_last := en_seq e, rv_received := rv_received rv1 + 1\<rparr>)))"
proof -
  let ?tag = "ComputeReplicationEntryTagFromHash K (rv_key rv) (en_seq e) (sha256 K (en_payload e))"
  have len: "length ?tag = ReplicationEntryTagLen" using assms(2) by (rule tag_length)
  then have ne: "EncodeToString ?tag \<noteq> []" by (auto simp: ReplicationEntryTagLen_def dest: arg_cong [of _ _ length])
  have p: "p_entry J (m_entry J (stamp K (rv_key rv) e)) = Some (stamp K (rv_key rv) e)"
    using assms(1) by (simp add: json_faithful_def)
  show ?thesis
    using len ne p
    by (simp add: receive_frame_def receive_entry_def ValidateReplicationEntryTag_def split: prod.split bool.split)
qed

lemma receive_own_entry:
  assumes "json_faithful J" "crypto_lengths K" "accepting w" "in_step rc rv" "rv_last rv < en_seq e"
  shows "\<exists>rv1. receive_frame K J (recording w (\<lambda>_. True) secret cluster) clock (entry_frame_of K J e rc) rv = (True, rv1) \<and>
    after [e] rv rv1 \<and> rv_key rv1 = rv_key rv \<and> rv_cumulative rv1 = rv_cumulative rv @ en_payload e"
  using assms(3-)
  by (auto simp: entry_frame_of_def in_step_def receive_stamped [OF assms(1,2)] applyEntry_def recording_def after_def
      accepting_def Let_def not_le split: option.splits prod.splits)

lemma receive_own_checkpoint:
  assumes "json_faithful J" "crypto_lengths K"
    and "ascii (sc_node c)" "ascii (sc_cluster c)" "ascii nonce" "check_freshness unix HMACTimestampTolerance clock = None"
  shows "receive_frame K J (recording w good (sc_secret c) (sc_cluster c)) clock
    (MsgReplicateCheckpoint, m_checkpoint J (make_checkpoint K c nonce unix (rv_last rv) (rv_cumulative rv))) rv = (True, rv)"
proof -
  let ?cp = "make_checkpoint K c nonce unix (rv_last rv) (rv_cumulative rv)"
  have "p_checkpoint J (m_checkpoint J ?cp) = Some ?cp"
    using assms by (simp add: json_faithful_def make_checkpoint_def ComputeReplicationCheckpointHMAC_def)
  moreover have "length (sha256 K (rv_cumulative rv)) = 32" using assms(2) by (simp add: crypto_lengths_def)
  ultimately show ?thesis
    using assms(6)
    by (simp add: receive_frame_def receive_checkpoint_def MsgReplicateCheckpoint_def MsgReplicateEntry_def
        make_checkpoint_def recording_def ValidateReplicationCheckpointHMAC_def ComputeReplicationCheckpointHMAC_def
        check_mac_def constantTimeHexEqual_iff)
qed

text \<open>
  What a timely connection is: a checkpoint is handled within the tolerance of the time at which
  it was made, and its nonce is a plain string.
\<close>

fun timely :: "sender_config \<Rightarrow> (nat \<Rightarrow> int) \<Rightarrow> int \<Rightarrow> (send_env \<times> entry_msg) list \<Rightarrow> bool" where
  "timely c clock since [] \<longleftrightarrow> True"
| "timely c clock since ((env, e) # xs) \<longleftrightarrow>
     (if sc_interval c \<le> since + 1
      then ascii (the (se_nonce env)) \<and> check_freshness (se_unix env) HMACTimestampTolerance (later clock 0) = None \<and>
        timely c (later (later clock)) 0 xs
      else timely c (later clock) (since + 1) xs)"

lemma after_trans: "after es rv rv1 \<Longrightarrow> after es' rv1 rv2 \<Longrightarrow> after (es @ es') rv rv2"
  by (cases es'; cases es) (auto simp: after_def)

lemma after_Nil [simp]: "after [] rv rv"
  by (simp add: after_def)

lemma reader_accepts_frames:
  assumes "json_faithful J" "crypto_lengths K" "accepting w" "ascii (sc_node c)" "ascii (sc_cluster c)"
    and "send_all K J c xs rc = (True, rc')" "in_step rc rv" "sorted_wrt (<) (rv_last rv # map (en_seq \<circ> snd) xs)"
    and "timely c clock (rc_since rc) xs"
  shows "\<exists>i rv1. i \<le> length xs \<and> (length (reader_frames K J c xs rc) \<le> j \<longrightarrow> i = length xs) \<and>
    receive_frames K J (recording w (\<lambda>_. True) (sc_secret c) (sc_cluster c)) clock (take j (reader_frames K J c xs rc)) rv
      = (True, rv1) \<and>
    after (map snd (take i xs)) rv rv1"
  using assms(6-)
proof (induction xs arbitrary: rc rv clock j)
  case Nil
  then show ?case by simp
next
  case (Cons x xs)
  let ?cfg = "recording w (\<lambda>_. True) (sc_secret c) (sc_cluster c)"
  obtain env e where x: "x = (env, e)" by (cases x)
  obtain ok rc1 where s: "sendToReader K J c env e rc = (ok, rc1)" by (cases "sendToReader K J c env e rc")
  have ok: "ok = True" using s Cons.prems(1) x by (cases ok) auto
  have rest: "send_all K J c xs rc1 = (True, rc')" using s ok Cons.prems(1) x by simp
  note sent = sendToReader_True [OF s [unfolded ok]]
  have "rv_last rv < en_seq e" using Cons.prems(3) x by simp
  then obtain rv1 where rv1: "receive_frame K J ?cfg (clock 0) (entry_frame_of K J e rc) rv = (True, rv1)"
    "after [e] rv rv1" "rv_key rv1 = rv_key rv" "rv_cumulative rv1 = rv_cumulative rv @ en_payload e"
    using receive_own_entry [OF assms(1-3) Cons.prems(2)] by metis
  have step1: "in_step rc1 rv1" using sent rv1 Cons.prems(2) by (simp add: in_step_def)
  have last1: "rv_last rv1 = en_seq e" using rv1(2) by (simp add: after_def)
  have sorted1: "sorted_wrt (<) (rv_last rv1 # map (en_seq \<circ> snd) xs)" using Cons.prems(3) x last1 by (simp add: comp_def)
  show ?case
  proof (cases j)
    case 0
    then show ?thesis by (intro exI [of _ 0] exI [of _ rv]) (simp add: x)
  next
    case (Suc j')
    show ?thesis
    proof (cases "sc_interval c \<le> rc_since rc + 1")
      case False
      then have "checkpoint_frames K J c env e rc = []" by (simp add: checkpoint_frames_def)
      moreover obtain i rv2 where "i \<le> length xs" "length (reader_frames K J c xs rc1) \<le> j' \<longrightarrow> i = length xs"
        "receive_frames K J ?cfg (later clock) (take j' (reader_frames K J c xs rc1)) rv1 = (True, rv2)"
        "after (map snd (take i xs)) rv1 rv2"
        using Cons.IH [OF rest step1 sorted1, of "later clock" j'] Cons.prems(4) x False sent by auto
      ultimately show ?thesis
        using x Suc s rv1 after_trans [OF rv1(2)] by (intro exI [of _ "Suc i"] exI [of _ rv2]) simp
    next
      case True
      then obtain cp where cp: "checkpoint_frames K J c env e rc = [cp]"
        "receive_frame K J ?cfg (later clock 0) cp rv1 = (True, rv1)"
        using receive_own_checkpoint [OF assms(1,2,4,5), of "the (se_nonce env)" "se_unix env" "later clock 0" w "\<lambda>_. True" rv1]
          Cons.prems(2,4) x last1 rv1(4) by (simp add: checkpoint_frames_def in_step_def)
      show ?thesis
      proof (cases j')
        case 0
        then show ?thesis
          using x Suc s rv1 cp by (intro exI [of _ "1"] exI [of _ rv1]) simp
      next
        case (Suc j'')
        obtain i rv2 where "i \<le> length xs" "length (reader_frames K J c xs rc1) \<le> j'' \<longrightarrow> i = length xs"
          "receive_frames K J ?cfg (later (later clock)) (take j'' (reader_frames K J c xs rc1)) rv1 = (True, rv2)"
          "after (map snd (take i xs)) rv1 rv2"
          using Cons.IH [OF rest step1 sorted1, of "later (later clock)" j''] Cons.prems(4) x True sent by auto
        then show ?thesis
          using x \<open>j = Suc j'\<close> Suc s rv1 cp after_trans [OF rv1(2)]
          by (intro exI [of _ "Suc i"] exI [of _ rv2]) simp
      qed
    qed
  qed
qed

section \<open>A connection, cut anywhere\<close>

lemma connection_in_step:
  assumes "crypto_lengths K" "PrepareReader K c r nonce lastKnown = Inr rc"
    and "begin_stream K (sc_secret c) nonce rv0 = Some rv"
  shows "in_step rc rv" "rc_since rc = 0" "rc_out rc = []" "rv_key rv \<noteq> []" "rv_last rv = rv_last rv0" "rv_st rv = rv_st rv0"
proof -
  obtain key where key: "DeriveReplicationSessionKey K (sc_secret c) nonce = Some key"
    using assms(3) by (auto simp: begin_stream_def split: option.splits)
  then have "length key = 32" using assms(1) unfolding DeriveReplicationSessionKey_def crypto_lengths_def by blast
  then have "key \<noteq> []" by auto
  then show "in_step rc rv" "rc_since rc = 0" "rc_out rc = []" "rv_key rv \<noteq> []" "rv_last rv = rv_last rv0" "rv_st rv = rv_st rv0"
    using assms(2,3) key by (auto simp: PrepareReader_def begin_stream_def in_step_def split: if_splits)
qed


section \<open>A writer that restarts\<close>

definition numbered :: "nat \<Rightarrow> sender \<Rightarrow> bool" where
  "numbered k s \<longleftrightarrow> unat (s_seq s) \<le> k \<and> (\<forall>e\<in>set (s_chan s). unat (en_seq e) \<le> k)"

lemma numbered_Replicate:
  assumes "numbered k s"
  shows "numbered (Suc k) (Replicate c e s)"
proof -
  have "unat (s_seq s + 1) \<le> unat (s_seq s) + 1"
    using mod_less_eq_dividend [of "unat (s_seq s) + 1" "2 ^ 64"] by (simp add: unat_word_ariths)
  then have "unat (s_seq s + 1) \<le> Suc k" using assms by (simp add: numbered_def)
  then show ?thesis using assms by (auto simp: numbered_def Replicate_def take_number_def offer_def Let_def le_SucI)
qed

lemma Replicate_numbers:
  assumes "length es \<le> unat n" "e \<in> set (s_chan (fold (Replicate c) es new_sender))"
  shows "en_seq e \<le> n"
proof -
  have new: "numbered 0 new_sender" by (simp add: numbered_def new_sender_def)
  have "numbered (length xs) (fold (Replicate c) xs new_sender)" for xs
    by (induction xs rule: rev_induct) (simp_all add: numbered_Replicate new)
  then show ?thesis using assms by (fastforce simp: numbered_def word_le_nat_alt)
qed

text \<open>
  A sender numbers its entries from 1 each time the writer starts; a reader keeps its last
  sequence number as long as it runs and nothing in the handshake changes it.  So after a restart
  of the writer the reader drops the connection at the first entry it is sent, applies nothing
  and keeps its number; the same happens on every reconnection, for as many entries as it had
  received before.
\<close>

theorem restarted_writer_starves_reader:
  assumes "json_faithful J" "crypto_lengths K"
    and "length es \<le> unat (rv_last rv0)" "e \<in> set (s_chan (fold (Replicate c) es new_sender))"
    and "PrepareReader K c r nonce (rv_last rv0) = Inr rc" "begin_stream K (sc_secret c) nonce rv0 = Some rv"
    and "send_all K J c ((env, e) # xs) rc = (True, rc')"
  shows "receiveLoop K J cfg clock (rc_out rc') rv = (False, rv_error rv) \<and> rv_st rv = rv_st rv0 \<and> rv_last rv = rv_last rv0"
proof -
  note con = connection_in_step [OF assms(2,5,6)]
  let ?ms = "reader_frames K J c ((env, e) # xs) rc"
  have ok: "\<forall>m\<in>set ?ms. wire_fits max_replication_message m" and out: "rc_out rc' = concat (map wire_frame ?ms)"
    using send_all_True [OF assms(7)] con(3) by auto
  have "en_seq e \<le> rv_last rv" using Replicate_numbers [OF assms(3,4)] con(5) by simp
  then have "receive_frame K J cfg (clock 0) (entry_frame_of K J e rc) rv = (False, rv_error rv)"
    using con(1) by (simp add: entry_frame_of_def in_step_def receive_stamped [OF assms(1,2)])
  then show ?thesis
    using wire.received_all [OF ok] con(4-6) by (simp add: receiveLoop_def out)
qed

section \<open>Two appends at once\<close>

text \<open>
  Two appends that overlap can enter the queue in the opposite order of their numbers.  The
  reader then applies the later one, takes the earlier one for a replay and drops the connection:
  the earlier entry never reaches it.
\<close>

theorem overlapping_appends_break_stream:
  assumes "json_faithful J" "crypto_lengths K" "accepting w"
    and "take_number a s = (a1, s1)" "take_number b s1 = (b1, s2)"
    and "int (length (s_chan s)) + 2 \<le> sc_buffer c" "unat (s_seq s) + 2 < 2 ^ 64" "rv_last rv0 \<le> s_seq s" "1 < sc_interval c"
    and "PrepareReader K c r nonce (rv_last rv0) = Inr rc" "begin_stream K (sc_secret c) nonce rv0 = Some rv"
    and "send_all K J c [(env, b1), (env', a1)] rc = (True, rc')"
  shows "s_chan (offer c a1 (offer c b1 s2)) = s_chan s @ [b1, a1] \<and>
    (\<exists>rv1. receiveLoop K J (recording w (\<lambda>_. True) secret cluster) clock (rc_out rc') rv = (False, rv1) \<and>
       rv_st rv1 = rv_st rv0 @ [en_payload b] \<and> rv_last rv1 = en_seq b1)"
proof -
  note con = connection_in_step [OF assms(2,10,11)]
  let ?cfg = "recording w (\<lambda>_. True) secret cluster"
  have queue: "s_chan (offer c a1 (offer c b1 s2)) = s_chan s @ [b1, a1]"
    using assms(4-6) by (auto simp: take_number_def offer_def Let_def)
  have seqs: "en_seq a1 = s_seq s + 1" "en_seq b1 = s_seq s + 2" "en_payload b1 = en_payload b"
    using assms(4,5) by (auto simp: take_number_def Let_def)
  have "unat (s_seq s + 1) = unat (s_seq s) + 1" "unat (s_seq s + 2) = unat (s_seq s) + 2"
    using assms(7) by (simp_all add: unat_word_ariths)
  then have order: "rv_last rv < en_seq b1" "en_seq a1 \<le> en_seq b1"
    using assms(8) con(5) seqs by (simp_all add: word_less_nat_alt word_le_nat_alt)
  let ?ms = "reader_frames K J c [(env, b1), (env', a1)] rc"
  have ok: "\<forall>m\<in>set ?ms. wire_fits max_replication_message m" and out: "rc_out rc' = concat (map wire_frame ?ms)"
    using send_all_True [OF assms(12)] con(3) by auto
  obtain rc1 where rc1: "sendToReader K J c env b1 rc = (True, rc1)"
    using assms(12) by (auto split: prod.splits bool.splits)
  obtain ms where ms: "?ms = entry_frame_of K J b1 rc # entry_frame_of K J a1 rc1 # ms"
    using assms(9) con(2) rc1 by (simp add: checkpoint_frames_def)
  obtain rv1 where rv1: "receive_frame K J ?cfg (clock 0) (entry_frame_of K J b1 rc) rv = (True, rv1)"
    "after [b1] rv rv1" "rv_key rv1 = rv_key rv"
    using receive_own_entry [OF assms(1-3) con(1) order(1)] by metis
  have key: "rc_key rc1 = rv_key rv1" "rv_last rv1 = en_seq b1"
    using sendToReader_True [OF rc1] con(1) rv1(2,3) by (simp_all add: in_step_def after_def)
  then have "receive_frame K J ?cfg (later clock 0) (entry_frame_of K J a1 rc1) rv1 = (False, rv_error rv1)"
    using order(2) by (simp add: entry_frame_of_def receive_stamped [OF assms(1,2)])
  moreover have recv: "received (wire_next max_replication_message) (rc_out rc') = ?ms"
    unfolding out by (rule wire.received_all [OF ok])
  ultimately have "receiveLoop K J ?cfg clock (rc_out rc') rv = (False, rv_error rv1)"
    unfolding receiveLoop_def recv ms using con(4) rv1(1) by simp
  then show ?thesis using queue key(2) rv1(2) con(6) seqs(3) by (simp add: after_def)
qed

section \<open>An entry that cannot be applied\<close>

text \<open>
  The entry is passed over, and the acknowledgement of a later one covers it; the checkpoint that
  follows such an entry does not match the reader's number and drops the connection.
\<close>

lemma failed_apply_is_acknowledged:
  assumes "json_faithful J" "crypto_lengths K" "in_step rc rv" "rv_last rv < en_seq e1" "en_seq e1 < en_seq e2"
    and "\<not> good (en_payload e1)" "good (en_payload e2)" "rc_key rc1 = rc_key rc"
  shows "\<exists>rv1. receive_frames K J (recording None good secret cluster) clock [entry_frame_of K J e1 rc, entry_frame_of K J e2 rc1] rv
      = (True, rv1) \<and> rv_st rv1 = rv_st rv @ [en_payload e2] \<and> ack_tick (rv_last rv) rv1 = (Some (en_seq e2), en_seq e2)"
proof -
  let ?cfg = "recording None good secret cluster"
  let ?rv1 = "rv_error (rv\<lparr>rv_cumulative := rv_cumulative rv @ en_payload e1\<rparr>)"
  have keys: "rc_key rc = rv_key rv" "rc_key rc1 = rv_key ?rv1" using assms(3,8) by (simp_all add: in_step_def)
  have "receive_frame K J ?cfg (clock 0) (entry_frame_of K J e1 rc) rv = (True, ?rv1)"
    unfolding entry_frame_of_def keys receive_stamped [OF assms(1,2)]
    using assms(4,6) by (simp add: applyEntry_def recording_def rv_error_def Let_def not_le)
  moreover have "\<exists>rv2. receive_frame K J ?cfg (later clock 0) (entry_frame_of K J e2 rc1) ?rv1 = (True, rv2) \<and>
      rv_st rv2 = rv_st rv @ [en_payload e2] \<and> rv_last rv2 = en_seq e2"
    unfolding entry_frame_of_def keys receive_stamped [OF assms(1,2)]
    using assms(4,5,7) by (simp add: applyEntry_def recording_def rv_error_def Let_def not_le)
  ultimately show ?thesis using assms(4,5) by (force simp: ack_tick_def)
qed

section \<open>A concrete instance\<close>

text \<open>
  Encodings that satisfy the laws: the fields in hexadecimal with NUL bytes between them.
\<close>

definition sample_json :: repl_json where
  "sample_json =
     \<lparr>m_entry = (\<lambda>e. gobytes (nul_join [word_text (en_seq e), word_text (en_ts e), EncodeToString (en_payload e), EncodeToString (en_tag e)])),
      m_checkpoint = (\<lambda>cp. gobytes (nul_join [EncodeToString (cp_hash cp), word_text (cp_last cp), EncodeToString (cp_nonce cp),
        EncodeToString (cp_sender cp), EncodeToString (cp_cluster cp), show_int (cp_timestamp cp), EncodeToString (cp_hmac cp)])),
      p_entry = (\<lambda>bs. case nul_split (gostring bs) of
          [a, b, p, t] \<Rightarrow> Some \<lparr>en_seq = text_word a, en_ts = text_word b, en_payload = the (DecodeString p), en_tag = the (DecodeString t)\<rparr>
        | _ \<Rightarrow> None),
      p_checkpoint = (\<lambda>bs. case nul_split (gostring bs) of
          [h, q, n, s, c, t, m] \<Rightarrow> Some \<lparr>cp_hash = the (DecodeString h), cp_last = text_word q, cp_nonce = the (DecodeString n),
            cp_sender = the (DecodeString s), cp_cluster = the (DecodeString c), cp_timestamp = text_int t, cp_hmac = the (DecodeString m)\<rparr>
        | _ \<Rightarrow> None),
      p_ack = (\<lambda>_. None), p_error = (\<lambda>_. None)\<rparr>"

lemma sample_json_faithful: "json_faithful sample_json"
  by (simp add: json_faithful_def sample_json_def nul_split_join del: nul_join.simps)

definition pad32 :: "string \<Rightarrow> string" where
  "pad32 s = take 32 (s @ replicate 32 (CHR 0x00))"

definition sample_crypto :: crypto where
  "sample_crypto = \<lparr>hmac_sha256 = (\<lambda>k m. pad32 (rev m @ k)), sha256 = pad32, hkdf = (\<lambda>k s i n. if n = 32 then Some (pad32 (s @ k)) else None)\<rparr>"

lemma sample_crypto_lengths: "crypto_lengths sample_crypto"
  by (simp add: crypto_lengths_def sample_crypto_def pad32_def min_def)

definition sample_config :: sender_config where
  "sample_config = \<lparr>sc_buffer = 16, sc_secret = ''s'', sc_cluster = ''c'', sc_node = ''w'', sc_interval = 2\<rparr>"

definition sample_receiver :: "u64 \<Rightarrow> string list receiver" where
  "sample_receiver n = \<lparr>rv_last = n, rv_key = [], rv_cumulative = [], rv_st = [], rv_received = 0, rv_applied = 0,
     rv_errors = 0, rv_wal_dropped = 0\<rparr>"

definition sample_sends :: "u64 \<Rightarrow> (send_env \<times> entry_msg) list" where
  "sample_sends n = map (\<lambda>i. (\<lparr>se_entry_fails = None, se_cp_fails = None, se_nonce = Some ''n'', se_unix = 100\<rparr>,
     \<lparr>en_seq = n + word_of_nat i, en_ts = 7, en_payload = ''p'', en_tag = []\<rparr>)) [1, 2, 3]"

definition sample_conn :: "u64 \<Rightarrow> reader_conn" where
  "sample_conn n = \<lparr>rc_id = ''r'', rc_key = pad32 ''hs'', rc_last_ack = n, rc_cumulative = [], rc_since = 0,
     rc_closed = False, rc_out = [], rc_sent = 0, rc_errors = 0\<rparr>"

lemma sample_prepare: "PrepareReader sample_crypto sample_config ''r'' ''h'' n = Inr (sample_conn n)"
  by (simp add: PrepareReader_def DeriveReplicationSessionKey_def sample_crypto_def sample_config_def sample_conn_def)

lemma sample_begin:
  "begin_stream sample_crypto (sc_secret sample_config) ''h'' (sample_receiver n) =
     Some ((sample_receiver n)\<lparr>rv_key := pad32 ''hs'', rv_cumulative := []\<rparr>)"
  by (simp add: begin_stream_def DeriveReplicationSessionKey_def sample_crypto_def sample_config_def sample_receiver_def)

lemma length_nul_join: "length (nul_join (x # xs)) = length x + (\<Sum>y\<leftarrow>xs. Suc (length y))"
  by (induction xs arbitrary: x) simp_all

lemma length_show_nat: "length (show_nat n) \<le> Suc n"
proof (induction n rule: show_nat.induct)
  case (1 n)
  then show ?case by (subst show_nat.simps) auto
qed

lemma length_word_text: "unat w \<le> 1000 \<Longrightarrow> length (word_text w) \<le> 1001"
  using length_show_nat [of "unat w"] by (simp add: word_text_def)

lemma length_show_int: "\<bar>i\<bar> \<le> 1000 \<Longrightarrow> length (show_int i) \<le> 1002"
  using length_show_nat [of "nat i"] length_show_nat [of "nat (- i)"] by (auto simp: show_int_def)

lemma sample_entry_fits:
  assumes "unat (en_seq e) \<le> 1000" "unat (en_ts e) \<le> 1000" "length (en_payload e) \<le> 1000" "length (en_tag e) \<le> 1000"
  shows "wire_fits max_replication_message (t, m_entry sample_json e)"
  using assms length_word_text [OF assms(1)] length_word_text [OF assms(2)]
  by (simp add: wire_fits_def max_replication_message_def sample_json_def length_nul_join del: nul_join.simps)

lemma sample_checkpoint_fits:
  assumes "unat (cp_last cp) \<le> 1000" "\<bar>cp_timestamp cp\<bar> \<le> 1000" "length (cp_hash cp) \<le> 1000" "length (cp_nonce cp) \<le> 1000"
    "length (cp_sender cp) \<le> 1000" "length (cp_cluster cp) \<le> 1000" "length (cp_hmac cp) \<le> 1000"
  shows "wire_fits max_replication_message (t, m_checkpoint sample_json cp)"
  using assms length_word_text [OF assms(1)] length_show_int [OF assms(2)]
  by (simp add: wire_fits_def max_replication_message_def sample_json_def length_nul_join del: nul_join.simps)

lemma length_pad32 [simp]: "length (pad32 s) = 32"
  by (simp add: pad32_def min_def)

text \<open>Sends that meet no failure succeed, when the encodings fit a message.\<close>

definition small_send :: "crypto \<Rightarrow> repl_json \<Rightarrow> sender_config \<Rightarrow> send_env \<times> entry_msg \<Rightarrow> bool" where
  "small_send K J c x \<longleftrightarrow>
     se_entry_fails (fst x) = None \<and> se_cp_fails (fst x) = None \<and> se_nonce (fst x) \<noteq> None \<and>
     (\<forall>key. wire_fits max_replication_message (MsgReplicateEntry, m_entry J (stamp K key (snd x)))) \<and>
     (\<forall>cum. wire_fits max_replication_message
        (MsgReplicateCheckpoint, m_checkpoint J (make_checkpoint K c (the (se_nonce (fst x))) (se_unix (fst x)) (en_seq (snd x)) cum)))"

lemma write_out_fits:
  "wire_fits max_replication_message (t, p) \<Longrightarrow> write_out None t p rc = (True, rc\<lparr>rc_out := rc_out rc @ wire_frame (t, p)\<rparr>)"
  by (simp add: write_out_True)

lemma small_send_ok:
  assumes "small_send K J c (env, e)" "\<not> rc_closed rc" "sc_secret c \<noteq> []"
  shows "\<exists>rc1. sendToReader K J c env e rc = (True, rc1) \<and> \<not> rc_closed rc1"
  using assms by (auto simp: small_send_def sendToReader_def emitCheckpointLocked_def Let_def write_out_fits)

lemma small_sends_ok:
  assumes "list_all (small_send K J c) xs" "\<not> rc_closed rc" "sc_secret c \<noteq> []"
  shows "\<exists>rc'. send_all K J c xs rc = (True, rc')"
  using assms(1,2)
proof (induction xs arbitrary: rc)
  case (Cons x xs)
  obtain env e where x: "x = (env, e)" by (cases x)
  obtain rc1 where "sendToReader K J c env e rc = (True, rc1)" "\<not> rc_closed rc1"
    using small_send_ok [of K J c env e rc] Cons.prems assms(3) x by auto
  then show ?case using Cons.IH [of rc1] Cons.prems x by simp
qed simp

lemma sample_small: "n \<in> {0, 4} \<Longrightarrow> list_all (small_send sample_crypto sample_json sample_config) (sample_sends n)"
  using tag_length [OF sample_crypto_lengths]
  by (auto simp: sample_sends_def small_send_def make_checkpoint_def sample_config_def sample_crypto_def stamp_def
      ReplicationEntryTagLen_def ComputeReplicationCheckpointHMAC_def computeReplicationCheckpointHMACRaw_def computeRawHMAC_def
      intro!: sample_entry_fits sample_checkpoint_fits)

lemma sample_sent: "n \<in> {0, 4} \<Longrightarrow>
    \<exists>rc'. send_all sample_crypto sample_json sample_config (sample_sends n) (sample_conn m) = (True, rc')"
  using small_sends_ok [OF sample_small, of n "sample_conn m"] by (simp add: sample_conn_def sample_config_def)


theorem restarted_writer_starves_reader_witness:
  "\<exists>rc' rv. send_all sample_crypto sample_json sample_config (sample_sends 0) (sample_conn 4) = (True, rc') \<and>
     receiveLoop sample_crypto sample_json (recording None (\<lambda>_. True) ''s'' ''c'') (\<lambda>_. 0) (rc_out rc') rv = (False, rv_error rv) \<and>
     rv_st rv = [] \<and> rv_last rv = 4"
proof -
  obtain env e xs where s: "sample_sends 0 = (env, e) # xs"
    "e = \<lparr>en_seq = 1, en_ts = 7, en_payload = ''p'', en_tag = []\<rparr>"
    by (simp add: sample_sends_def)
  obtain rc' where rc': "send_all sample_crypto sample_json sample_config ((env, e) # xs) (sample_conn 4) = (True, rc')"
    using sample_sent [of 0 4] s(1) by auto
  have len: "length [e] \<le> unat (rv_last (sample_receiver 4))" by (simp add: sample_receiver_def)
  have queued: "e \<in> set (s_chan (fold (Replicate sample_config) [e] new_sender))"
    by (simp add: Replicate_def take_number_def offer_def new_sender_def sample_config_def s(2) Let_def)
  have prep: "PrepareReader sample_crypto sample_config ''r'' ''h'' (rv_last (sample_receiver 4)) = Inr (sample_conn 4)"
    using sample_prepare [of 4] by (simp add: sample_receiver_def)
  have start: "rv_st (sample_receiver 4) = [] \<and> rv_last (sample_receiver 4) = 4" by (simp add: sample_receiver_def)
  from restarted_writer_starves_reader [OF sample_json_faithful sample_crypto_lengths len queued prep sample_begin rc']
  show ?thesis using rc' start unfolding s(1) by metis
qed

theorem reconnected_reader_is_removed_witness:
  "\<exists>s' rc'. s' = loop_ends 0 (ActivateReader 1 (sample_conn 0) (ActivateReader 0 (sample_conn 0) new_sender)) \<and>
     s_readers s' ''r'' = None \<and> s_conns s' 1 = Some rc' \<and> rc_closed rc'"
  using reconnected_reader_is_removed [of "ActivateReader 0 (sample_conn 0) new_sender" "''r''" 0 "sample_conn 0" "sample_conn 0" 1]
  by (auto simp: ActivateReader_def new_sender_def sample_conn_def Let_def)


theorem overlapping_appends_break_stream_witness:
  "\<exists>rc' rv rv1 a b. send_all sample_crypto sample_json sample_config
       [(\<lparr>se_entry_fails = None, se_cp_fails = None, se_nonce = Some ''n'', se_unix = 100\<rparr>, b),
        (\<lparr>se_entry_fails = None, se_cp_fails = None, se_nonce = Some ''n'', se_unix = 100\<rparr>, a)] (sample_conn 0) = (True, rc') \<and>
     en_seq a = 1 \<and> en_seq b = 2 \<and>
     receiveLoop sample_crypto sample_json (recording None (\<lambda>_. True) ''s'' ''c'') (\<lambda>_. 0) (rc_out rc') rv = (False, rv1) \<and>
     rv_st rv1 = [''q'']"
proof -
  let ?env = "\<lparr>se_entry_fails = None, se_cp_fails = None, se_nonce = Some ''n'', se_unix = 100\<rparr>"
  let ?e = "\<lambda>p. \<lparr>en_seq = 0, en_ts = 7, en_payload = p, en_tag = []\<rparr>"
  obtain a s1 where a: "take_number (?e ''p'') new_sender = (a, s1)" by (cases "take_number (?e ''p'') new_sender")
  obtain b s2 where b: "take_number (?e ''q'') s1 = (b, s2)" by (cases "take_number (?e ''q'') s1")
  have ab: "a = \<lparr>en_seq = 1, en_ts = 7, en_payload = ''p'', en_tag = []\<rparr>" "b = \<lparr>en_seq = 2, en_ts = 7, en_payload = ''q'', en_tag = []\<rparr>"
    using a b by (auto simp: take_number_def new_sender_def Let_def)
  have "small_send sample_crypto sample_json sample_config (?env, x)" if "x \<in> {a, b}" for x
    using that tag_length [OF sample_crypto_lengths]
    by (auto simp: ab small_send_def make_checkpoint_def sample_config_def sample_crypto_def stamp_def
        ReplicationEntryTagLen_def ComputeReplicationCheckpointHMAC_def computeReplicationCheckpointHMACRaw_def computeRawHMAC_def
        intro!: sample_entry_fits sample_checkpoint_fits)
  then obtain rc' where rc': "send_all sample_crypto sample_json sample_config [(?env, b), (?env, a)] (sample_conn 0) = (True, rc')"
    using small_sends_ok [of sample_crypto sample_json sample_config "[(?env, b), (?env, a)]" "sample_conn 0"]
    by (auto simp: sample_conn_def sample_config_def)
  have num: "int (length (s_chan new_sender)) + 2 \<le> sc_buffer sample_config" "unat (s_seq new_sender) + 2 < 2 ^ 64"
    "rv_last (sample_receiver 0) \<le> s_seq new_sender" "1 < sc_interval sample_config"
    by (simp_all add: new_sender_def sample_config_def sample_receiver_def)
  have acc: "accepting None" by (simp add: accepting_def)
  have prep: "PrepareReader sample_crypto sample_config ''r'' ''h'' (rv_last (sample_receiver 0)) = Inr (sample_conn 0)"
    using sample_prepare [of 0] by (simp add: sample_receiver_def)
  have start: "rv_st (sample_receiver 0) @ [en_payload (?e ''q'')] = [''q'']" by (simp add: sample_receiver_def)
  from overlapping_appends_break_stream [OF sample_json_faithful sample_crypto_lengths acc a b num prep sample_begin rc',
      of "''s''" "''c''" "\<lambda>_. 0", unfolded start]
  obtain rv1 where "receiveLoop sample_crypto sample_json (recording None (\<lambda>_. True) ''s'' ''c'') (\<lambda>_. 0) (rc_out rc')
      ((sample_receiver 0)\<lparr>rv_key := pad32 ''hs'', rv_cumulative := []\<rparr>) = (False, rv1)" "rv_st rv1 = [''q'']"
    by (elim conjE exE) (rule that)
  moreover have "en_seq a = 1" "en_seq b = 2" by (simp_all add: ab)
  ultimately show ?thesis using rc' by (intro exI conjI)
qed

end
