(* ===== verification/Compaction_Storage.thy ===== *)
theory Compaction_Storage
  imports Bytes
begin

text \<open>
  The storage backend as compaction uses it (\<^verbatim>\<open>internal/storage/backend.go\<close>): an object store
  whose operations can fail, and a process that can die at any of them.  A world holds the
  objects, the node's local files, and a script with the answers the operating system and the
  network are going to give, one for each operation; after the script everything works.  A dead
  process changes nothing any more, so what the code does after its death does not matter.
\<close>

section \<open>Answers\<close>

text \<open>
  \<open>Works\<close>: the operation is done and succeeds.  \<open>Fails\<close>: it is not done and fails.  \<open>Wrote\<close>: a
  write is done but its confirmation is lost.  \<open>Torn\<close>: a write left only the given number of bytes.
  \<open>Deleted\<close>: a deletion failed after the objects at the given positions were deleted.  The flag
  says whether the process dies.
\<close>

datatype answer =
    Works
  | Fails (dies: bool)
  | Wrote (dies: bool)
  | Torn nat (dies: bool)
  | Deleted "nat list" (dies: bool)
  where "dies Works = False"

record 'c world =
  w_store :: "string \<rightharpoonup> bytes"
  w_temp :: "string \<rightharpoonup> bytes"
  w_comp :: "string \<rightharpoonup> 'c"
  w_script :: "answer list"
  w_dead :: bool

definition next_answer :: "'c world \<Rightarrow> answer \<times> 'c world" where
  "next_answer w =
     (if w_dead w then (Fails True, w)
      else case w_script w of
             [] \<Rightarrow> (Works, w)
           | a # as \<Rightarrow> (a, w\<lparr>w_script := as, w_dead := dies a\<rparr>))"

section \<open>Operations\<close>

definition be_write :: "string \<Rightarrow> bytes \<Rightarrow> 'c world \<Rightarrow> bool \<times> 'c world" where
  "be_write p c w =
     (case next_answer w of
        (Works, w1) \<Rightarrow> (True, w1\<lparr>w_store := (w_store w1)(p \<mapsto> c)\<rparr>)
      | (Wrote _, w1) \<Rightarrow> (False, w1\<lparr>w_store := (w_store w1)(p \<mapsto> c)\<rparr>)
      | (Torn k _, w1) \<Rightarrow> (False, w1\<lparr>w_store := (w_store w1)(p \<mapsto> take k c)\<rparr>)
      | (_, w1) \<Rightarrow> (False, w1))"

definition be_read :: "string \<Rightarrow> 'c world \<Rightarrow> bytes option \<times> 'c world" where
  "be_read p w =
     (case next_answer w of
        (Works, w1) \<Rightarrow> (w_store w1 p, w1)
      | (_, w1) \<Rightarrow> (None, w1))"

definition be_exists :: "string \<Rightarrow> 'c world \<Rightarrow> bool option \<times> 'c world" where
  "be_exists p w =
     (case next_answer w of
        (Works, w1) \<Rightarrow> (Some (w_store w1 p \<noteq> None), w1)
      | (_, w1) \<Rightarrow> (None, w1))"

text \<open>
  \<open>ListObjects\<close> of the path of an object, as the sizes it reports; the object itself comes first
  in the listing of its own path.
\<close>

definition be_sizes :: "string \<Rightarrow> 'c world \<Rightarrow> int list option \<times> 'c world" where
  "be_sizes p w =
     (case next_answer w of
        (Works, w1) \<Rightarrow> (Some (case w_store w1 p of None \<Rightarrow> [] | Some c \<Rightarrow> [int (length c)]), w1)
      | (_, w1) \<Rightarrow> (None, w1))"

text \<open>\<open>List\<close> of a prefix, in the order of the backend.\<close>

definition be_list :: "(string set \<Rightarrow> string list) \<Rightarrow> string \<Rightarrow> 'c world \<Rightarrow> string list option \<times> 'c world" where
  "be_list listing prefix w =
     (case next_answer w of
        (Works, w1) \<Rightarrow> (Some (listing {p \<in> dom (w_store w1). take (length prefix) p = prefix}), w1)
      | (_, w1) \<Rightarrow> (None, w1))"

definition drop_keys :: "string set \<Rightarrow> (string \<rightharpoonup> bytes) \<Rightarrow> (string \<rightharpoonup> bytes)" where
  "drop_keys D s = s |` (- D)"

text \<open>Deleting what is not there succeeds; of a batch any part may be deleted when it fails.\<close>

definition be_delete :: "string \<Rightarrow> 'c world \<Rightarrow> bool \<times> 'c world" where
  "be_delete p w =
     (case next_answer w of
        (Works, w1) \<Rightarrow> (True, w1\<lparr>w_store := drop_keys {p} (w_store w1)\<rparr>)
      | (Deleted _ _, w1) \<Rightarrow> (False, w1\<lparr>w_store := drop_keys {p} (w_store w1)\<rparr>)
      | (_, w1) \<Rightarrow> (False, w1))"

definition be_delete_batch :: "string list \<Rightarrow> 'c world \<Rightarrow> bool \<times> 'c world" where
  "be_delete_batch ps w =
     (case next_answer w of
        (Works, w1) \<Rightarrow> (True, w1\<lparr>w_store := drop_keys (set ps) (w_store w1)\<rparr>)
      | (Deleted is _, w1) \<Rightarrow>
          (False, w1\<lparr>w_store := drop_keys (set (map ((!) ps) (filter (\<lambda>i. i < length ps) is))) (w_store w1)\<rparr>)
      | (_, w1) \<Rightarrow> (False, w1))"

text \<open>A call on local files and DuckDB: it works or it does not.\<close>

definition os_ok :: "'c world \<Rightarrow> bool \<times> 'c world" where
  "os_ok w = (case next_answer w of (Works, w1) \<Rightarrow> (True, w1) | (_, w1) \<Rightarrow> (False, w1))"

definition temp_write :: "string \<Rightarrow> bytes \<Rightarrow> 'c world \<Rightarrow> 'c world" where
  "temp_write p c w = (if w_dead w then w else w\<lparr>w_temp := (w_temp w)(p \<mapsto> c)\<rparr>)"

text \<open>
  A completion manifest on the local disk, written with a temporary file and a rename, so that it
  is there as a whole or not at all.
\<close>

definition comp_write :: "string \<Rightarrow> 'c \<Rightarrow> 'c world \<Rightarrow> bool \<times> 'c world" where
  "comp_write p c w =
     (case next_answer w of
        (Works, w1) \<Rightarrow> (True, w1\<lparr>w_comp := (w_comp w1)(p \<mapsto> c)\<rparr>)
      | (Wrote _, w1) \<Rightarrow> (False, w1\<lparr>w_comp := (w_comp w1)(p \<mapsto> c)\<rparr>)
      | (_, w1) \<Rightarrow> (False, w1))"

definition comp_read :: "string \<Rightarrow> 'c world \<Rightarrow> 'c option \<times> 'c world" where
  "comp_read p w =
     (case next_answer w of
        (Works, w1) \<Rightarrow> (w_comp w1 p, w1)
      | (_, w1) \<Rightarrow> (None, w1))"

section \<open>What the operations keep\<close>

text \<open>
  A property of the stores (of objects and of completion manifests) that every single operation
  keeps is kept by a whole program.  The facts below reduce an operation to its possible
  effects, whatever its answer was.
\<close>

named_theorems op_cases \<open>the possible effects of the operations\<close>

definition stores :: "'c world \<Rightarrow> (string \<rightharpoonup> bytes) \<times> (string \<rightharpoonup> 'c)" where
  "stores w = (w_store w, w_comp w)"

text \<open>
  A script without torn writes (the backends write atomically: a rename, or one request); a strict
  one has no write either whose confirmation is lost.
\<close>

definition mild_answer :: "bool \<Rightarrow> answer \<Rightarrow> bool" where
  "mild_answer strict a = (case a of Torn _ _ \<Rightarrow> False | Wrote _ \<Rightarrow> \<not> strict | _ \<Rightarrow> True)"

definition mild :: "bool \<Rightarrow> 'c world \<Rightarrow> bool" where
  "mild strict w \<longleftrightarrow> list_all (mild_answer strict) (w_script w)"

lemma next_answer_frame:
  assumes "next_answer w = (a, w1)"
  shows "w_store w1 = w_store w" "w_comp w1 = w_comp w" "w_temp w1 = w_temp w" "mild strict w \<Longrightarrow> mild strict w1"
  using assms by (auto simp: next_answer_def mild_def split: if_splits list.splits)

lemma next_answer_mild: "mild strict w \<Longrightarrow> next_answer w = (a, w1) \<Longrightarrow> mild_answer strict a"
  by (auto simp: next_answer_def mild_def mild_answer_def split: if_splits list.splits)

lemma be_write_cases [op_cases]:
  assumes "be_write p c w = (ok, w1)" "mild strict w"
  shows "mild strict w1 \<and> w_comp w1 = w_comp w \<and> w_temp w1 = w_temp w \<and>
    (w_store w1 = (w_store w)(p \<mapsto> c) \<and> (strict \<longrightarrow> ok) \<or> (\<not> ok \<and> w_store w1 = w_store w))"
proof -
  obtain a w0 where a: "next_answer w = (a, w0)" by (cases "next_answer w")
  show ?thesis
    using assms a next_answer_frame [OF a] next_answer_mild [OF assms(2) a]
    by (cases a) (auto simp: be_write_def mild_def mild_answer_def)
qed

lemma be_read_cases [op_cases]:
  assumes "be_read p w = (r, w1)"
  shows "(mild strict w \<longrightarrow> mild strict w1) \<and> stores w1 = stores w \<and> w_temp w1 = w_temp w \<and> (r = None \<or> r = w_store w p)"
proof -
  obtain a w0 where a: "next_answer w = (a, w0)" by (cases "next_answer w")
  show ?thesis using assms a next_answer_frame [OF a] by (cases a) (auto simp: be_read_def stores_def)
qed

lemma be_exists_cases [op_cases]:
  assumes "be_exists p w = (r, w1)"
  shows "(mild strict w \<longrightarrow> mild strict w1) \<and> stores w1 = stores w \<and> w_temp w1 = w_temp w \<and>
    (r = None \<or> r = Some (w_store w p \<noteq> None))"
proof -
  obtain a w0 where a: "next_answer w = (a, w0)" by (cases "next_answer w")
  show ?thesis using assms a next_answer_frame [OF a] by (cases a) (auto simp: be_exists_def stores_def)
qed

lemma be_sizes_cases [op_cases]:
  assumes "be_sizes p w = (r, w1)"
  shows "(mild strict w \<longrightarrow> mild strict w1) \<and> stores w1 = stores w \<and> w_temp w1 = w_temp w \<and>
    (r = None \<or> r = Some (case w_store w p of None \<Rightarrow> [] | Some c \<Rightarrow> [int (length c)]))"
proof -
  obtain a w0 where a: "next_answer w = (a, w0)" by (cases "next_answer w")
  show ?thesis using assms a next_answer_frame [OF a] by (cases a) (auto simp: be_sizes_def stores_def)
qed

lemma be_list_cases [op_cases]:
  assumes "be_list listing prefix w = (r, w1)"
  shows "(mild strict w \<longrightarrow> mild strict w1) \<and> stores w1 = stores w \<and> w_temp w1 = w_temp w \<and>
    (r = None \<or> r = Some (listing {p \<in> dom (w_store w). take (length prefix) p = prefix}))"
proof -
  obtain a w0 where a: "next_answer w = (a, w0)" by (cases "next_answer w")
  show ?thesis using assms a next_answer_frame [OF a] by (cases a) (auto simp: be_list_def stores_def)
qed

lemma be_delete_cases [op_cases]:
  assumes "be_delete p w = (ok, w1)"
  shows "(mild strict w \<longrightarrow> mild strict w1) \<and> w_comp w1 = w_comp w \<and> w_temp w1 = w_temp w \<and>
    (w_store w1 = drop_keys {p} (w_store w) \<or> (\<not> ok \<and> w_store w1 = w_store w))"
proof -
  obtain a w0 where a: "next_answer w = (a, w0)" by (cases "next_answer w")
  show ?thesis
    using assms a next_answer_frame [OF a] by (cases a) (auto simp: be_delete_def mild_def)
qed

lemma be_delete_batch_cases [op_cases]:
  assumes "be_delete_batch ps w = (ok, w1)"
  shows "(mild strict w \<longrightarrow> mild strict w1) \<and> w_comp w1 = w_comp w \<and> w_temp w1 = w_temp w \<and>
    (\<exists>D. D \<subseteq> set ps \<and> w_store w1 = drop_keys D (w_store w) \<and> (ok \<longrightarrow> D = set ps))"
proof -
  obtain a w0 where a: "next_answer w = (a, w0)" by (cases "next_answer w")
  have none: "w_store w = drop_keys {} (w_store w)" by (simp add: drop_keys_def restrict_map_def)
  have part: "set (map ((!) ps) (filter (\<lambda>i. i < length ps) is)) \<subseteq> set ps" for "is" by auto
  have torn: "mild strict w \<longrightarrow> mild strict w0" using next_answer_frame(4) [OF a] by blast
  show ?thesis
  proof (cases a)
    case (Deleted "is" d)
    then have "w1 = w0\<lparr>w_store := drop_keys (set (map ((!) ps) (filter (\<lambda>i. i < length ps) is))) (w_store w0)\<rparr>" "\<not> ok"
      using assms a by (auto simp: be_delete_batch_def)
    then show ?thesis
      using next_answer_frame(1-3) [OF a] torn part [of "is"]
      by (intro conjI exI [of _ "set (map ((!) ps) (filter (\<lambda>i. i < length ps) is))"]) (auto simp: mild_def)
  qed (use assms a next_answer_frame(1-3) [OF a] torn none in \<open>auto simp: be_delete_batch_def mild_def\<close>)
qed

lemma os_ok_cases [op_cases]:
  assumes "os_ok w = (ok, w1)"
  shows "(mild strict w \<longrightarrow> mild strict w1) \<and> stores w1 = stores w \<and> w_temp w1 = w_temp w"
proof -
  obtain a w0 where a: "next_answer w = (a, w0)" by (cases "next_answer w")
  show ?thesis using assms a next_answer_frame [OF a] by (cases a) (auto simp: os_ok_def stores_def)
qed

lemma comp_write_cases [op_cases]:
  assumes "comp_write p c w = (ok, w1)"
  shows "(mild strict w \<longrightarrow> mild strict w1) \<and> w_store w1 = w_store w \<and> w_temp w1 = w_temp w \<and>
    (w_comp w1 = (w_comp w)(p \<mapsto> c) \<or> (\<not> ok \<and> w_comp w1 = w_comp w))"
proof -
  obtain a w0 where a: "next_answer w = (a, w0)" by (cases "next_answer w")
  show ?thesis using assms a next_answer_frame [OF a] by (cases a) (auto simp: comp_write_def mild_def)
qed

lemma comp_read_cases [op_cases]:
  assumes "comp_read p w = (r, w1)"
  shows "(mild strict w \<longrightarrow> mild strict w1) \<and> stores w1 = stores w \<and> w_temp w1 = w_temp w \<and> (r = None \<or> r = w_comp w p)"
proof -
  obtain a w0 where a: "next_answer w = (a, w0)" by (cases "next_answer w")
  show ?thesis using assms a next_answer_frame [OF a] by (cases a) (auto simp: comp_read_def stores_def)
qed

lemma temp_write_frame [simp]:
  "stores (temp_write p c w) = stores w" "w_store (temp_write p c w) = w_store w" "w_comp (temp_write p c w) = w_comp w"
  "mild strict (temp_write p c w) = mild strict w"
  by (simp_all add: temp_write_def stores_def mild_def)

text \<open>With an empty script everything works.\<close>

definition calm :: "'c world \<Rightarrow> bool" where
  "calm w \<longleftrightarrow> w_script w = [] \<and> \<not> w_dead w"

lemma calm_answer [simp]: "calm w \<Longrightarrow> next_answer w = (Works, w)"
  by (simp add: calm_def next_answer_def)

lemma calm_ops:
  assumes "calm w"
  shows "be_write p c w = (True, w\<lparr>w_store := (w_store w)(p \<mapsto> c)\<rparr>)"
    "be_read p w = (w_store w p, w)" "be_exists p w = (Some (w_store w p \<noteq> None), w)"
    "be_sizes p w = (Some (case w_store w p of None \<Rightarrow> [] | Some c \<Rightarrow> [int (length c)]), w)"
    "be_list listing prefix w = (Some (listing {p \<in> dom (w_store w). take (length prefix) p = prefix}), w)"
    "be_delete p w = (True, w\<lparr>w_store := drop_keys {p} (w_store w)\<rparr>)"
    "be_delete_batch ps w = (True, w\<lparr>w_store := drop_keys (set ps) (w_store w)\<rparr>)"
    "os_ok w = (True, w)" "comp_read p w = (w_comp w p, w)"
    "comp_write p d w = (True, w\<lparr>w_comp := (w_comp w)(p \<mapsto> d)\<rparr>)"
  using assms
  by (simp_all add: be_write_def be_read_def be_exists_def be_sizes_def be_list_def be_delete_def be_delete_batch_def
      os_ok_def comp_read_def comp_write_def)

lemma calm_update [simp]:
  "calm (w\<lparr>w_store := s\<rparr>) = calm w" "calm (w\<lparr>w_comp := c\<rparr>) = calm w"
  by (simp_all add: calm_def)

end
