(* ===== verification/Compaction_Manifest.thy ===== *)
theory Compaction_Manifest
  imports Compaction_Storage
begin

text \<open>
  The manifests of compaction jobs and their recovery (\<^verbatim>\<open>internal/compaction/manifest.go\<close>).  The
  JSON encoding is a parameter.  A manager is a cache; the state of its operations is the pair of
  the manager and the world.
\<close>

section \<open>Manifests\<close>

datatype manifest_status = ManifestStatusPending

record manifest =
  mf_output :: string
  mf_size :: int
  mf_inputs :: "string list"
  mf_database :: string
  mf_measurement :: string
  mf_partition :: string
  mf_tier :: string
  mf_status :: manifest_status
  mf_created :: int
  mf_job :: string

record manifest_json =
  mj_marshal :: "manifest \<Rightarrow> bytes"
  mj_parse :: "bytes \<Rightarrow> manifest option"

definition ManifestBasePath :: string where
  "ManifestBasePath = ''_compaction_state''"

definition ManifestMaxAge :: int where
  "ManifestMaxAge = 7 * 24 * 3600 * 1000000000"

text \<open>The path is joined from components that contain nothing to clean.\<close>

definition GenerateManifestPath :: "string \<Rightarrow> string \<Rightarrow> string \<Rightarrow> string \<Rightarrow> string" where
  "GenerateManifestPath tier database partitionPath jobID =
     ManifestBasePath @ ''/'' @ tier @ ''/'' @ database @ ''/'' @
       map (\<lambda>c. if c = CHR ''/'' then CHR ''_'' else c) partitionPath @ ''_'' @ jobID @ ''.json''"

section \<open>The manager\<close>

record manifest_manager =
  mm_cache :: "string \<rightharpoonup> string set"
  mm_time :: int

definition NewManifestManager :: manifest_manager where
  "NewManifestManager = \<lparr>mm_cache = Map.empty, mm_time = 0\<rparr>"

definition invalidateCache :: "manifest_manager \<Rightarrow> manifest_manager" where
  "invalidateCache mm = mm\<lparr>mm_cache := Map.empty, mm_time := 0\<rparr>"

definition WriteManifest ::
  "manifest_json \<Rightarrow> manifest \<Rightarrow> manifest_manager \<times> 'c world \<Rightarrow> string option \<times> manifest_manager \<times> 'c world" where
  "WriteManifest J m st =
     (let path = GenerateManifestPath (mf_tier m) (mf_database m) (mf_partition m) (mf_job m)
      in case be_write path (mj_marshal J m) (snd st) of
           (False, w1) \<Rightarrow> (None, fst st, w1)
         | (True, w1) \<Rightarrow> (Some path, invalidateCache (fst st), w1))"

definition DeleteManifest :: "string \<Rightarrow> manifest_manager \<times> 'c world \<Rightarrow> bool \<times> manifest_manager \<times> 'c world" where
  "DeleteManifest path st =
     (case be_delete path (snd st) of
        (False, w1) \<Rightarrow> (False, fst st, w1)
      | (True, w1) \<Rightarrow> (True, invalidateCache (fst st), w1))"

definition ReadManifest :: "manifest_json \<Rightarrow> string \<Rightarrow> 'c world \<Rightarrow> manifest option \<times> 'c world" where
  "ReadManifest J path w =
     (case be_read path w of
        (None, w1) \<Rightarrow> (None, w1)
      | (Some data, w1) \<Rightarrow> (mj_parse J data, w1))"

definition has_suffix :: "string \<Rightarrow> string \<Rightarrow> bool" where
  "has_suffix suf s \<longleftrightarrow> length suf \<le> length s \<and> drop (length s - length suf) s = suf"

definition ListManifests :: "(string set \<Rightarrow> string list) \<Rightarrow> 'c world \<Rightarrow> string list option \<times> 'c world" where
  "ListManifests listing w =
     (case be_list listing (ManifestBasePath @ ''/'') w of
        (None, w1) \<Rightarrow> (None, w1)
      | (Some objects, w1) \<Rightarrow> (Some (filter (has_suffix ''.json'') objects), w1))"

section \<open>Recovery\<close>

text \<open>The number of inputs that could not be deleted.\<close>

fun delete_inputs :: "string list \<Rightarrow> 'c world \<Rightarrow> nat \<times> 'c world" where
  "delete_inputs [] w = (0, w)"
| "delete_inputs (f # fs) w =
     (case be_delete f w of
        (True, w1) \<Rightarrow> delete_inputs fs w1
      | (False, w1) \<Rightarrow>
          (case be_exists f w1 of
             (Some False, w2) \<Rightarrow> delete_inputs fs w2
           | (_, w2) \<Rightarrow> (case delete_inputs fs w2 of (n, w3) \<Rightarrow> (Suc n, w3))))"

definition size_differs :: "int list option \<Rightarrow> int \<Rightarrow> bool" where
  "size_differs sizes expected \<longleftrightarrow> (case sizes of Some (actual # _) \<Rightarrow> actual \<noteq> expected | _ \<Rightarrow> False)"

definition recoverManifest ::
  "manifest_json \<Rightarrow> string \<Rightarrow> manifest_manager \<times> 'c world \<Rightarrow> bool \<times> manifest_manager \<times> 'c world" where
  "recoverManifest J path st =
     (case ReadManifest J path (snd st) of
        (None, w1) \<Rightarrow> DeleteManifest path (fst st, w1)
      | (Some m, w1) \<Rightarrow>
          (case be_exists (mf_output m) w1 of
             (None, w2) \<Rightarrow> (False, fst st, w2)
           | (Some False, w2) \<Rightarrow> DeleteManifest path (fst st, w2)
           | (Some True, w2) \<Rightarrow>
               (case be_sizes (mf_output m) w2 of
                  (sizes, w3) \<Rightarrow>
                    if size_differs sizes (mf_size m)
                    then DeleteManifest path (fst st, snd (be_delete (mf_output m) w3))
                    else (case delete_inputs (mf_inputs m) w3 of
                            (n, w4) \<Rightarrow>
                              if 0 < n then (False, fst st, w4)
                              else DeleteManifest path (fst st, w4)))))"

fun recover_each ::
  "manifest_json \<Rightarrow> string list \<Rightarrow> manifest_manager \<times> 'c world \<Rightarrow> nat \<times> manifest_manager \<times> 'c world" where
  "recover_each J [] st = (0, st)"
| "recover_each J (p # ps) st =
     (case recoverManifest J p st of
        (ok, st1) \<Rightarrow> (case recover_each J ps st1 of (n, st2) \<Rightarrow> ((if ok then Suc n else n), st2)))"

definition RecoverOrphanedManifests ::
  "manifest_json \<Rightarrow> (string set \<Rightarrow> string list) \<Rightarrow> manifest_manager \<times> 'c world \<Rightarrow> nat option \<times> manifest_manager \<times> 'c world" where
  "RecoverOrphanedManifests J listing st =
     (case ListManifests listing (snd st) of
        (None, w1) \<Rightarrow> (None, fst st, w1)
      | (Some paths, w1) \<Rightarrow> (case recover_each J paths (fst st, w1) of (n, st2) \<Rightarrow> (Some n, st2)))"

section \<open>The files that manifests name\<close>

fun read_for_cache ::
  "manifest_json \<Rightarrow> string list \<Rightarrow> 'c world \<Rightarrow> (string set \<times> (string \<rightharpoonup> string set)) \<times> 'c world" where
  "read_for_cache J [] w = (({}, Map.empty), w)"
| "read_for_cache J (p # ps) w =
     (case ReadManifest J p w of
        (None, w1) \<Rightarrow> read_for_cache J ps w1
      | (Some m, w1) \<Rightarrow>
          (case read_for_cache J ps w1 of
             ((result, cache), w2) \<Rightarrow>
               ((insert (mf_output m) (set (mf_inputs m)) \<union> result,
                 (\<lambda>q. if q = p \<and> cache q = None then Some (set (mf_inputs m)) else cache q)), w2)))"

definition cacheTTL :: int where "cacheTTL = 30000000000"

definition GetFilesInManifests ::
  "manifest_json \<Rightarrow> (string set \<Rightarrow> string list) \<Rightarrow> int \<Rightarrow> manifest_manager \<times> 'c world \<Rightarrow>
   string set option \<times> manifest_manager \<times> 'c world" where
  "GetFilesInManifests J listing now st =
     (let mm = fst st
      in if now - mm_time mm < cacheTTL \<and> mm_cache mm \<noteq> Map.empty
         then (Some (\<Union> (ran (mm_cache mm))), st)
         else (case ListManifests listing (snd st) of
                 (None, w1) \<Rightarrow> (None, mm, w1)
               | (Some paths, w1) \<Rightarrow>
                   (case read_for_cache J paths w1 of
                      ((result, cache), w2) \<Rightarrow> (Some result, mm\<lparr>mm_cache := cache, mm_time := now\<rparr>, w2))))"

text \<open>\<open>filterCandidateFiles\<close>: the files of a candidate that no manifest names, if the lookup succeeds.\<close>

definition filterCandidateFiles ::
  "manifest_json \<Rightarrow> (string set \<Rightarrow> string list) \<Rightarrow> int \<Rightarrow> string list \<Rightarrow> manifest_manager \<times> 'c world \<Rightarrow>
   string list option \<times> manifest_manager \<times> 'c world" where
  "filterCandidateFiles J listing now files st =
     (case GetFilesInManifests J listing now st of
        (None, st1) \<Rightarrow> (None, st1)
      | (Some known, st1) \<Rightarrow>
          (let rest = filter (\<lambda>f. f \<notin> known) files
           in (if rest = [] then None else Some rest, st1)))"

text \<open>
  The cached answer leaves out the output of a pending job, which the first answer contains and
  which was to be kept from being compacted again.
\<close>

lemma cached_lookup_omits_output:
  assumes "calm w" "w_store w = [path \<mapsto> mj_marshal J m]" "mj_parse J (mj_marshal J m) = Some m"
    and "lists_set listing" "take (length (ManifestBasePath @ ''/'')) path = ManifestBasePath @ ''/''" "has_suffix ''.json'' path"
    and "mf_output m \<notin> set (mf_inputs m)" "30000000000 \<le> now" "now \<le> now'" "now' < now + 30000000000"
    and "GetFilesInManifests J listing now (NewManifestManager, w) = (r, st)"
    and "GetFilesInManifests J listing now' st = (r', st')"
  shows "r = Some (insert (mf_output m) (set (mf_inputs m))) \<and> r' = Some (set (mf_inputs m))"
proof -
  have l: "ListManifests listing w = (Some [path], w)"
  proof -
    have dom: "{p \<in> dom (w_store w). take (length (ManifestBasePath @ ''/'')) p = ManifestBasePath @ ''/''} = {path}"
      using assms(2,5) by (auto split: if_splits)
    have "set (listing {path}) = {path}" "distinct (listing {path})" using assms(4) by (auto simp: lists_set_def)
    then have "listing {path} = [path]"
      by (cases "listing {path}") (auto simp: subset_singleton_iff split: if_splits)
    then show ?thesis
      using assms(6) unfolding ListManifests_def calm_ops(5) [OF assms(1)] dom by simp
  qed
  have c: "read_for_cache J [path] w = ((insert (mf_output m) (set (mf_inputs m)), [path \<mapsto> set (mf_inputs m)]), w)"
    using assms(1-3) by (auto simp: ReadManifest_def calm_ops)
  have "r = Some (insert (mf_output m) (set (mf_inputs m)))"
    "st = (NewManifestManager\<lparr>mm_cache := [path \<mapsto> set (mf_inputs m)], mm_time := now\<rparr>, w)"
    using assms(8,11) l c by (auto simp: GetFilesInManifests_def NewManifestManager_def cacheTTL_def Let_def)
  then show ?thesis using assms(9,10,12) by (auto simp: GetFilesInManifests_def cacheTTL_def Let_def)
qed

end
