(* ===== verification/Compaction_Job.thy ===== *)
theory Compaction_Job
  imports Compaction_Manifest
begin

text \<open>
  A compaction job (\<^verbatim>\<open>internal/compaction/job.go\<close>) and the completion manifests it leaves for the
  cluster (\<^verbatim>\<open>completion.go\<close>).  What DuckDB makes of a list of Parquet files is a parameter, as are
  the file name (made of the clock), the clock, the digest and the order in which the parallel
  downloads finish.
\<close>

section \<open>Completion manifests\<close>

datatype completion_state = WritingOutput | OutputWritten | SourcesDeleted

record compacted_output =
  co_path :: string
  co_sha :: string
  co_size :: int
  co_database :: string
  co_measurement :: string
  co_ptime :: int
  co_tier :: string
  co_created :: int

record completion =
  cm_job :: string
  cm_database :: string
  cm_measurement :: string
  cm_partition :: string
  cm_tier :: string
  cm_state :: completion_state
  cm_outputs :: "compacted_output list"
  cm_deleted :: "string list"
  cm_created :: int
  cm_updated :: int

fun contains :: "string \<Rightarrow> string \<Rightarrow> bool" where
  "contains pat [] = (pat = [])"
| "contains pat (c # s) = (take (length pat) (c # s) = pat \<or> contains pat s)"

definition validateJobID :: "string \<Rightarrow> bool" where
  "validateJobID jid \<longleftrightarrow> jid \<noteq> [] \<and> CHR ''/'' \<notin> set jid \<and> CHR 0x5C \<notin> set jid \<and> CHR 0x00 \<notin> set jid \<and>
     \<not> contains ''..'' jid \<and> take 1 jid \<noteq> ''.''"

definition completion_path :: "string \<Rightarrow> string" where
  "completion_path jid = jid @ ''.json''"

definition writeCompletionManifest :: "completion \<Rightarrow> completion world \<Rightarrow> bool \<times> completion world" where
  "writeCompletionManifest m w =
     (if \<not> validateJobID (cm_job m) then (False, w) else comp_write (completion_path (cm_job m)) m w)"

section \<open>Jobs\<close>

record job =
  jb_files :: "string list"
  jb_partition :: string
  jb_database :: string
  jb_measurement :: string
  jb_tier :: string
  jb_id :: string
  jb_cluster :: bool
  jb_managed :: bool
  jb_ptime :: int

record job_env =
  ev_merge :: "bytes list \<Rightarrow> bytes option"
  ev_name :: string
  ev_now :: int
  ev_sha :: "bytes \<Rightarrow> string"
  ev_order :: "nat list"

datatype job_status = JobCompleted | JobFailed

text \<open>\<^verbatim>\<open>filepath.Base\<close>.\<close>

definition Base :: "string \<Rightarrow> string" where
  "Base p =
     (if p = [] then ''.''
      else let t = rev (dropWhile (\<lambda>c. c = CHR ''/'') (rev p))
           in if t = [] then ''/'' else rev (takeWhile (\<lambda>c. c \<noteq> CHR ''/'') (rev t)))"

definition parquet_magic :: bytes where
  "parquet_magic = [0x50, 0x41, 0x52, 0x31]"

definition validateParquetFile :: "bytes \<Rightarrow> bool" where
  "validateParquetFile c \<longleftrightarrow> 12 \<le> length c \<and> take 4 c = parquet_magic \<and> drop (length c - 4) c = parquet_magic"

section \<open>Downloading\<close>

datatype download_result = Downloaded string | Skipped | DownloadFailed

definition temp_remove :: "string \<Rightarrow> 'c world \<Rightarrow> 'c world" where
  "temp_remove p w = (if w_dead w then w else w\<lparr>w_temp := (w_temp w)(p := None)\<rparr>)"

definition downloadSingleFile :: "string \<Rightarrow> 'c world \<Rightarrow> download_result \<times> 'c world" where
  "downloadSingleFile key w =
     (let path = Base key
      in case os_ok w of
           (False, w1) \<Rightarrow> (DownloadFailed, w1)
         | (True, w1) \<Rightarrow>
             (case be_read key (temp_write path [] w1) of
                (None, w2) \<Rightarrow>
                  (case be_exists key (temp_remove path w2) of
                     (Some False, w3) \<Rightarrow> (Skipped, w3)
                   | (_, w3) \<Rightarrow> (DownloadFailed, w3))
              | (Some c, w2) \<Rightarrow>
                  (case os_ok (temp_write path c w2) of
                     (False, w3) \<Rightarrow> (DownloadFailed, w3)
                   | (True, w3) \<Rightarrow>
                       (case os_ok w3 of
                          (False, w4) \<Rightarrow> (DownloadFailed, w4)
                        | (True, w4) \<Rightarrow> (Downloaded path, w4)))))"

fun download_each :: "string list \<Rightarrow> nat list \<Rightarrow> 'c world \<Rightarrow> (nat \<times> download_result) list \<times> 'c world" where
  "download_each files [] w = ([], w)"
| "download_each files (i # is) w =
     (case downloadSingleFile (files ! i) w of
        (r, w1) \<Rightarrow> (case download_each files is w1 of (rs, w2) \<Rightarrow> ((i, r) # rs, w2)))"

text \<open>The files that were downloaded, in the order of the job, with the local paths.\<close>

definition downloaded_files :: "string list \<Rightarrow> (nat \<times> download_result) list \<Rightarrow> (string \<times> string) list" where
  "downloaded_files files rs =
     concat (map (\<lambda>i. case map_of rs i of Some (Downloaded path) \<Rightarrow> [(files ! i, path)] | _ \<Rightarrow> []) [0..<length files])"

definition downloadFiles :: "string list \<Rightarrow> nat list \<Rightarrow> 'c world \<Rightarrow> (string \<times> string) list option \<times> 'c world" where
  "downloadFiles files order w =
     (case download_each files order w of
        (rs, w1) \<Rightarrow>
          if list_ex (\<lambda>x. snd x = DownloadFailed) rs then (None, w1)
          else (Some (downloaded_files files rs), w1))"

section \<open>Merging\<close>

definition local_content :: "'c world \<Rightarrow> string \<Rightarrow> bytes" where
  "local_content w path = (case w_temp w path of None \<Rightarrow> [] | Some c \<Rightarrow> c)"

text \<open>The merged content and the storage keys of the files that went into it.\<close>

definition compactFiles :: "job_env \<Rightarrow> (string \<times> string) list \<Rightarrow> 'c world \<Rightarrow> (bytes \<times> string list) option" where
  "compactFiles ev files w =
     (let valid = filter (\<lambda>x. validateParquetFile (local_content w (snd x))) files
      in if valid = [] then None
         else (case ev_merge ev (map (\<lambda>x. local_content w (snd x)) valid) of
                 None \<Rightarrow> None
               | Some c \<Rightarrow> Some (c, map fst valid)))"

section \<open>The stages of a job\<close>

type_synonym job_state = "manifest_manager \<times> completion world"

definition output_key :: "job \<Rightarrow> job_env \<Rightarrow> string" where
  "output_key j ev = jb_partition j @ ''/'' @ ev_name ev"

definition job_manifest :: "job \<Rightarrow> job_env \<Rightarrow> bytes \<Rightarrow> string list \<Rightarrow> manifest" where
  "job_manifest j ev c compacted =
     \<lparr>mf_output = output_key j ev, mf_size = int (length c), mf_inputs = compacted, mf_database = jb_database j,
      mf_measurement = jb_measurement j, mf_partition = jb_partition j, mf_tier = jb_tier j,
      mf_status = ManifestStatusPending, mf_created = ev_now ev, mf_job = jb_id j\<rparr>"

definition initial_completion :: "job \<Rightarrow> job_env \<Rightarrow> completion" where
  "initial_completion j ev =
     \<lparr>cm_job = jb_id j, cm_database = jb_database j, cm_measurement = jb_measurement j, cm_partition = jb_partition j,
      cm_tier = jb_tier j, cm_state = WritingOutput, cm_outputs = [], cm_deleted = [],
      cm_created = ev_now ev, cm_updated = ev_now ev\<rparr>"

definition job_output :: "job \<Rightarrow> job_env \<Rightarrow> bytes \<Rightarrow> compacted_output" where
  "job_output j ev c =
     \<lparr>co_path = output_key j ev, co_sha = ev_sha ev c, co_size = int (length c), co_database = jb_database j,
      co_measurement = jb_measurement j, co_ptime = jb_ptime j, co_tier = jb_tier j, co_created = ev_now ev\<rparr>"

text \<open>\<open>writeOutputWrittenManifest\<close>: the local file is opened and hashed first.\<close>

definition writeOutputWrittenManifest :: "job \<Rightarrow> job_env \<Rightarrow> bytes \<Rightarrow> completion world \<Rightarrow> bool \<times> completion world" where
  "writeOutputWrittenManifest j ev c w =
     (case os_ok w of
        (False, w1) \<Rightarrow> (False, w1)
      | (True, w1) \<Rightarrow>
          writeCompletionManifest ((initial_completion j ev)\<lparr>cm_state := OutputWritten, cm_outputs := [job_output j ev c]\<rparr>) w1)"

definition writeSourcesDeletedManifest :: "job \<Rightarrow> job_env \<Rightarrow> string list \<Rightarrow> completion world \<Rightarrow> bool \<times> completion world" where
  "writeSourcesDeletedManifest j ev compacted w =
     (case comp_read (completion_path (jb_id j)) w of
        (None, w1) \<Rightarrow> (False, w1)
      | (Some prev, w1) \<Rightarrow>
          writeCompletionManifest (prev\<lparr>cm_state := SourcesDeleted, cm_deleted := compacted, cm_updated := ev_now ev\<rparr>) w1)"

definition deleteOldFiles :: "string list \<Rightarrow> 'c world \<Rightarrow> bool \<times> 'c world" where
  "deleteOldFiles compacted w = (if compacted = [] then (True, w) else be_delete_batch compacted w)"

definition uploadFile :: "string \<Rightarrow> bytes \<Rightarrow> 'c world \<Rightarrow> bool \<times> 'c world" where
  "uploadFile key c w = (case os_ok w of (False, w1) \<Rightarrow> (False, w1) | (True, w1) \<Rightarrow> be_write key c w1)"

text \<open>From the upload's success on.\<close>

definition run_delete :: "job \<Rightarrow> job_env \<Rightarrow> string option \<Rightarrow> string list \<Rightarrow> job_state \<Rightarrow> job_status \<times> job_state" where
  "run_delete j ev mpath compacted st =
     (case deleteOldFiles compacted (snd st) of
        (False, w1) \<Rightarrow> (JobCompleted, fst st, w1)
      | (True, w1) \<Rightarrow>
          let st2 = (case mpath of None \<Rightarrow> (fst st, w1) | Some p \<Rightarrow> snd (DeleteManifest p (fst st, w1)))
          in (JobCompleted, fst st2,
              if jb_cluster j then snd (writeSourcesDeletedManifest j ev compacted (snd st2)) else snd st2))"

definition run_upload ::
  "job \<Rightarrow> job_env \<Rightarrow> string option \<Rightarrow> bytes \<Rightarrow> string list \<Rightarrow> job_state \<Rightarrow> job_status \<times> job_state" where
  "run_upload j ev mpath c compacted st =
     (case uploadFile (output_key j ev) c (snd st) of
        (False, w1) \<Rightarrow>
          (JobFailed, case mpath of None \<Rightarrow> (fst st, w1) | Some p \<Rightarrow> snd (DeleteManifest p (fst st, w1)))
      | (True, w1) \<Rightarrow>
          if jb_cluster j then
            (case writeOutputWrittenManifest j ev c w1 of
               (False, w2) \<Rightarrow> (JobFailed, fst st, w2)
             | (True, w2) \<Rightarrow> run_delete j ev mpath compacted (fst st, w2))
          else run_delete j ev mpath compacted (fst st, w1))"

definition run_manifest :: "manifest_json \<Rightarrow> job \<Rightarrow> job_env \<Rightarrow> bytes \<Rightarrow> string list \<Rightarrow> job_state \<Rightarrow> job_status \<times> job_state" where
  "run_manifest J j ev c compacted st =
     (if jb_managed j then
        (case WriteManifest J (job_manifest j ev c compacted) st of
           (None, st1) \<Rightarrow> (JobFailed, st1)
         | (Some p, st1) \<Rightarrow> run_upload j ev (Some p) c compacted st1)
      else run_upload j ev None c compacted st)"

text \<open>\<open>Run\<close>, from the beginning; the temporary directory is made by one call.\<close>

definition Run :: "manifest_json \<Rightarrow> job \<Rightarrow> job_env \<Rightarrow> job_state \<Rightarrow> job_status \<times> job_state" where
  "Run J j ev st =
     (let w0 = (if jb_cluster j then snd (writeCompletionManifest (initial_completion j ev) (snd st)) else snd st)
      in case os_ok w0 of
           (False, w1) \<Rightarrow> (JobFailed, fst st, w1)
         | (True, w1) \<Rightarrow>
             (case downloadFiles (jb_files j) (ev_order ev) w1 of
                (None, w2) \<Rightarrow> (JobFailed, fst st, w2)
              | (Some files, w2) \<Rightarrow>
                  if files = [] then (JobCompleted, fst st, w2)
                  else (case compactFiles ev files w2 of
                          None \<Rightarrow> (JobFailed, fst st, w2)
                        | Some (c, compacted) \<Rightarrow>
                            (case os_ok w2 of
                               (False, w3) \<Rightarrow> (JobFailed, fst st, w3)
                             | (True, w3) \<Rightarrow> run_manifest J j ev c compacted (fst st, w3)))))"

text \<open>The stages in a row, of a job that begins with the given manager and world.\<close>

lemma Run_stages:
  "Run J j ev (mm, w) =
     (case os_ok (if jb_cluster j then snd (writeCompletionManifest (initial_completion j ev) w) else w) of
        (False, w1) \<Rightarrow> (JobFailed, mm, w1)
      | (True, w1) \<Rightarrow>
          (case downloadFiles (jb_files j) (ev_order ev) w1 of
             (None, w2) \<Rightarrow> (JobFailed, mm, w2)
           | (Some fls, w2) \<Rightarrow>
               if fls = [] then (JobCompleted, mm, w2)
               else (case compactFiles ev fls w2 of
                       None \<Rightarrow> (JobFailed, mm, w2)
                     | Some (c, compacted) \<Rightarrow>
                         (case os_ok w2 of
                            (False, w3) \<Rightarrow> (JobFailed, mm, w3)
                          | (True, w3) \<Rightarrow> run_manifest J j ev c compacted (mm, w3)))))"
  by (simp only: Run_def Let_def fst_conv snd_conv)

end
