(* ===== verification/Compaction_Recovery.thy ===== *)
theory Compaction_Recovery
  imports Compaction_Job
begin

text \<open>
  A job that fails or dies at any operation, and any number of recoveries that may fail or die as
  well: no row is lost, and a recovery that meets no failure finishes what the job began.
\<close>

section \<open>The shapes of the store\<close>

text \<open>
  Between the stages of a job the store differs from the first one in three things: the manifest,
  the output and the inputs that are gone.
\<close>

definition shape :: "(string \<rightharpoonup> bytes) \<Rightarrow> string \<Rightarrow> bytes option \<Rightarrow> string \<Rightarrow> bytes option \<Rightarrow> string set \<Rightarrow> (string \<rightharpoonup> bytes)" where
  "shape s0 mp mo out oc D = (\<lambda>p. if p = mp then mo else if p = out then oc else if p \<in> D then None else s0 p)"

text \<open>The manifest \<open>m\<close> at \<open>mp\<close>, with an output and inputs of its own.\<close>

definition apart :: "(string \<rightharpoonup> bytes) \<Rightarrow> string \<Rightarrow> manifest \<Rightarrow> bool" where
  "apart s0 mp m \<longleftrightarrow> s0 mp = None \<and> s0 (mf_output m) = None \<and> mp \<noteq> mf_output m \<and>
     mp \<notin> set (mf_inputs m) \<and> mf_output m \<notin> set (mf_inputs m)"

definition in_phase :: "bool \<Rightarrow> manifest_json \<Rightarrow> (string \<rightharpoonup> bytes) \<Rightarrow> string \<Rightarrow> manifest \<Rightarrow> bytes \<Rightarrow> (string \<rightharpoonup> bytes) \<Rightarrow> bool" where
  "in_phase strict J s0 mp m c s \<longleftrightarrow>
     (\<exists>mo oc D. s = shape s0 mp mo (mf_output m) oc D \<and> (mo = None \<or> mo = Some (mj_marshal J m)) \<and>
        D \<subseteq> set (mf_inputs m) \<and> (oc = Some c \<or> oc = None \<and> D = {}) \<and>
        (strict \<longrightarrow> mo \<noteq> None \<or> oc = None \<or> D = set (mf_inputs m)))"

text \<open>Whether everything of the first store is still there, some of it in the merged output.\<close>

definition nothing_lost :: "(string \<rightharpoonup> bytes) \<Rightarrow> (string \<Rightarrow> bool) \<Rightarrow> string \<Rightarrow> bytes \<Rightarrow> (string \<rightharpoonup> bytes) \<Rightarrow> bool" where
  "nothing_lost s0 merged out c s \<longleftrightarrow> (\<forall>p d. s0 p = Some d \<longrightarrow> s p = Some d \<or> (merged p \<and> s out = Some c))"

lemma in_phase_nothing_lost:
  assumes "apart s0 mp m" "in_phase strict J s0 mp m c s"
  shows "nothing_lost s0 (\<lambda>p. p \<in> set (mf_inputs m)) (mf_output m) c s"
  using assms by (auto simp: in_phase_def apart_def nothing_lost_def shape_def split: if_splits)

lemma shape_start: "apart s0 mp m \<Longrightarrow> shape s0 mp None (mf_output m) None {} = s0"
  by (auto simp: shape_def apart_def)

lemma shape_write_manifest: "(shape s0 mp mo out oc D)(mp \<mapsto> d) = shape s0 mp (Some d) out oc D"
  by (auto simp: shape_def)

lemma shape_write_output: "mp \<noteq> out \<Longrightarrow> (shape s0 mp mo out oc D)(out \<mapsto> d) = shape s0 mp mo out (Some d) D"
  by (auto simp: shape_def)

lemma shape_drop_manifest: "mp \<noteq> out \<Longrightarrow> drop_keys {mp} (shape s0 mp mo out oc D) = shape s0 mp None out oc D"
  by (auto simp: shape_def drop_keys_def restrict_map_def)

lemma shape_drop_inputs:
  "mp \<notin> E \<Longrightarrow> out \<notin> E \<Longrightarrow> drop_keys E (shape s0 mp mo out oc D) = shape s0 mp mo out oc (D \<union> E)"
  by (auto simp: shape_def drop_keys_def restrict_map_def)

lemmas shape_ops = shape_write_manifest shape_write_output shape_drop_manifest shape_drop_inputs

section \<open>Recovery\<close>

lemma DeleteManifest_cases:
  assumes "DeleteManifest path (mm, w) = (ok, mm1, w1)"
  shows "(mild strict w \<longrightarrow> mild strict w1) \<and> w_comp w1 = w_comp w \<and>
    (w_store w1 = drop_keys {path} (w_store w) \<or> (\<not> ok \<and> w_store w1 = w_store w))"
proof -
  obtain b w2 where d: "be_delete path w = (b, w2)" by (cases "be_delete path w")
  show ?thesis using assms be_delete_cases [OF d, of strict] d by (cases b) (auto simp: DeleteManifest_def)
qed

lemma delete_inputs_shape:
  assumes "delete_inputs fs w = (n, w1)" "mild strict w"
    and "w_store w = shape s0 mp mo out (Some c) D" "mp \<notin> set fs" "out \<notin> set fs"
  shows "\<exists>E. E \<subseteq> set fs \<and> w_store w1 = shape s0 mp mo out (Some c) (D \<union> E) \<and> w_comp w1 = w_comp w \<and> mild strict w1 \<and>
    (n = 0 \<longrightarrow> (\<forall>f\<in>set fs. w_store w1 f = None))"
  using assms
proof (induction fs arbitrary: w D n w1)
  case Nil
  then show ?case by (intro exI [of _ "{}"]) simp
next
  case (Cons f fs)
  obtain b w2 where d: "be_delete f w = (b, w2)" by (cases "be_delete f w")
  note dc = be_delete_cases [OF d, of strict]
  have fne: "mp \<noteq> f" "out \<noteq> f" "mp \<notin> set fs" "out \<notin> set fs" using Cons.prems(4,5) by auto
  obtain E0 where E0: "E0 \<subseteq> {f}" "w_store w2 = shape s0 mp mo out (Some c) (D \<union> E0)" "b \<longrightarrow> f \<in> E0"
  proof (cases "w_store w2 = drop_keys {f} (w_store w)")
    case True
    have "w_store w2 = shape s0 mp mo out (Some c) (D \<union> {f})"
      unfolding True Cons.prems(3) by (rule shape_drop_inputs) (use fne in auto)
    then show ?thesis by (intro that [of "{f}"]) auto
  next
    case False
    then have "\<not> b" "w_store w2 = w_store w" using dc by auto
    then show ?thesis using Cons.prems(3) by (intro that [of "{}"]) auto
  qed
  obtain e w3 where e: "be_exists f w2 = (e, w3)" by (cases "be_exists f w2")
  note ec = be_exists_cases [OF e, of strict]
  define w4 where "w4 = (if b then w2 else w3)"
  have w4: "mild strict w4" "w_comp w4 = w_comp w" "w_store w4 = shape s0 mp mo out (Some c) (D \<union> E0)"
    using dc ec Cons.prems(2) E0(2) by (auto simp: w4_def stores_def)
  obtain n' w5 where r: "delete_inputs fs w4 = (n', w5)" by (cases "delete_inputs fs w4")
  obtain E where E: "E \<subseteq> set fs" "w_store w5 = shape s0 mp mo out (Some c) (D \<union> E0 \<union> E)" "w_comp w5 = w_comp w4" "mild strict w5"
    "n' = 0 \<longrightarrow> (\<forall>f\<in>set fs. w_store w5 f = None)"
    using Cons.IH [OF r w4(1,3) fne(3,4)] by blast
  have w1: "w1 = w5 \<and> (n = 0 \<longrightarrow> n' = 0 \<and> (b \<or> e = Some False))"
    using Cons.prems(1) d e r by (auto simp: w4_def split: if_splits option.splits bool.splits prod.splits)
  have gone: "w_store w5 f = None" if "n = 0"
  proof -
    have "b \<or> w_store w2 f = None" using w1 that ec by auto
    then have "f \<in> D \<union> E0 \<or> s0 f = None"
    proof
      assume "b" then show ?thesis using E0(3) by simp
    next
      assume "w_store w2 f = None"
      then show ?thesis unfolding E0(2) using fne(1,2) by (auto simp: shape_def split: if_splits)
    qed
    then show ?thesis unfolding E(2) using fne(1,2) by (auto simp: shape_def)
  qed
  have "D \<union> E0 \<union> E = D \<union> (E0 \<union> E)" by blast
  then show ?case
    using w1 gone E E0(1) w4(2) by (intro exI [of _ "E0 \<union> E"]) auto
qed

text \<open>One manifest, whatever happens.\<close>

lemma in_phaseI:
  "s = shape s0 mp mo (mf_output m) oc D \<Longrightarrow> mo = None \<or> mo = Some (mj_marshal J m) \<Longrightarrow> D \<subseteq> set (mf_inputs m) \<Longrightarrow>
   oc = Some c \<or> oc = None \<and> D = {} \<Longrightarrow>
   strict \<longrightarrow> mo \<noteq> None \<or> oc = None \<or> D = set (mf_inputs m) \<Longrightarrow> in_phase strict J s0 mp m c s"
  unfolding in_phase_def by blast

lemma in_phase_drop_manifest:
  assumes "in_phase False J s0 mp m c s" "mp \<noteq> mf_output m"
  shows "in_phase False J s0 mp m c (drop_keys {mp} s)"
proof -
  obtain mo oc D where sh: "s = shape s0 mp mo (mf_output m) oc D" "D \<subseteq> set (mf_inputs m)" "oc = Some c \<or> oc = None \<and> D = {}"
    using assms(1) by (auto simp: in_phase_def)
  have "drop_keys {mp} s = shape s0 mp None (mf_output m) oc D" unfolding sh(1) by (rule shape_drop_manifest [OF assms(2)])
  then show ?thesis by (rule in_phaseI) (use sh in auto)
qed

lemma DeleteManifest_phase:
  assumes "DeleteManifest mp (mm, w) = (ok, mm1, w1)" "in_phase False J s0 mp m c (w_store w)" "mp \<noteq> mf_output m" "mild strict w"
  shows "in_phase False J s0 mp m c (w_store w1) \<and> mild strict w1 \<and> w_comp w1 = w_comp w"
  using DeleteManifest_cases [OF assms(1), of strict] in_phase_drop_manifest [OF assms(2,3)] assms(2,4) by auto

lemma recoverManifest_phase:
  assumes "recoverManifest J mp (mm, w) = (ok, mm1, w1)" "mild strict w" "in_phase False J s0 mp m c (w_store w)"
    and "apart s0 mp m" "mj_parse J (mj_marshal J m) = Some m" "mf_size m = int (length c)"
  shows "in_phase False J s0 mp m c (w_store w1) \<and> mild strict w1 \<and> w_comp w1 = w_comp w"
proof -
  have ne: "mp \<noteq> mf_output m" and ins: "mp \<notin> set (mf_inputs m)" "mf_output m \<notin> set (mf_inputs m)"
    using assms(4) by (auto simp: apart_def)
  obtain r w2 where read: "be_read mp w = (r, w2)" by (cases "be_read mp w")
  note rc = be_read_cases [OF read, of strict]
  have w2: "mild strict w2" "w_store w2 = w_store w" "w_comp w2 = w_comp w" using rc assms(2) by (auto simp: stores_def)
  obtain mo oc D where sh: "w_store w = shape s0 mp mo (mf_output m) oc D" "mo = None \<or> mo = Some (mj_marshal J m)"
    "D \<subseteq> set (mf_inputs m)" "oc = Some c \<or> oc = None \<and> D = {}"
    using assms(3) by (auto simp: in_phase_def)
  show ?thesis
  proof (cases r)
    case None
    then have "DeleteManifest mp (mm, w2) = (ok, mm1, w1)" using assms(1) read by (simp add: recoverManifest_def ReadManifest_def)
    from DeleteManifest_phase [OF this _ ne w2(1), of J s0 c] show ?thesis using assms(3) w2 by simp
  next
    case (Some data)
    then have "mo = Some (mj_marshal J m)" "data = mj_marshal J m"
      using rc sh(1,2) by (auto simp: shape_def)
    then have rm: "ReadManifest J mp w = (Some m, w2)" using read Some assms(5) by (simp add: ReadManifest_def)
    obtain e w3 where e: "be_exists (mf_output m) w2 = (e, w3)" by (cases "be_exists (mf_output m) w2")
    note ec = be_exists_cases [OF e, of strict]
    have w3: "mild strict w3" "w_store w3 = w_store w" "w_comp w3 = w_comp w" using ec w2 by (auto simp: stores_def)
    obtain sizes w4 where sz: "be_sizes (mf_output m) w3 = (sizes, w4)" by (cases "be_sizes (mf_output m) w3")
    note sc = be_sizes_cases [OF sz, of strict]
    have w4: "mild strict w4" "w_store w4 = w_store w" "w_comp w4 = w_comp w" using sc w3 by (auto simp: stores_def)
    consider "e = None" | "e = Some False" | "e = Some True" by (cases e) auto
    then show ?thesis
    proof cases
      case 1
      then show ?thesis using assms(1,3) rm e w3 by (simp add: recoverManifest_def)
    next
      case 2
      then have "DeleteManifest mp (mm, w3) = (ok, mm1, w1)" using assms(1) rm e by (simp add: recoverManifest_def)
      from DeleteManifest_phase [OF this _ ne w3(1), of J s0 c] show ?thesis using assms(3) w3 by simp
    next
      case 3
      then have "w_store w2 (mf_output m) \<noteq> None" using ec by auto
      then have oc: "oc = Some c" using sh(1,4) w2 ne by (auto simp: shape_def)
      then have "w_store w3 (mf_output m) = Some c" using sh(1) w3 ne by (simp add: shape_def)
      then have "\<not> size_differs sizes (mf_size m)" using sc assms(6) by (auto simp: size_differs_def)
      obtain n w5 where d: "delete_inputs (mf_inputs m) w4 = (n, w5)" by (cases "delete_inputs (mf_inputs m) w4")
      obtain E where E: "E \<subseteq> set (mf_inputs m)" "w_store w5 = shape s0 mp mo (mf_output m) (Some c) (D \<union> E)"
        "w_comp w5 = w_comp w4" "mild strict w5"
        using delete_inputs_shape [OF d w4(1) _ ins] sh(1) w4(2) oc by metis
      have ph: "in_phase False J s0 mp m c (w_store w5)"
        by (rule in_phaseI [OF E(2)]) (use sh E in auto)
      have "(if 0 < n then (False, mm, w5) else DeleteManifest mp (mm, w5)) = (ok, mm1, w1)"
        using assms(1) rm e 3 sz \<open>\<not> size_differs _ _\<close> d by (cases "0 < n") (simp_all add: recoverManifest_def)
      then show ?thesis
        using DeleteManifest_phase [OF _ ph ne E(4)] ph E w4 by (cases "0 < n") auto
    qed
  qed
qed

text \<open>All manifests, when there is no other one, and rounds of it by processes that may die.\<close>

definition is_manifest_path :: "string \<Rightarrow> bool" where
  "is_manifest_path p \<longleftrightarrow> take (length (ManifestBasePath @ ''/'')) p = ManifestBasePath @ ''/''"

definition lone_manifest :: "(string \<rightharpoonup> bytes) \<Rightarrow> manifest \<Rightarrow> bool" where
  "lone_manifest s0 m \<longleftrightarrow> (\<forall>p. is_manifest_path p \<longrightarrow> s0 p = None) \<and> \<not> is_manifest_path (mf_output m)"

lemma phase_manifests:
  assumes "in_phase False J s0 mp m c s" "lone_manifest s0 m" "lists_set listing"
  shows "set (listing {p \<in> dom s. is_manifest_path p}) = {p \<in> dom s. is_manifest_path p}"
    "{p \<in> dom s. is_manifest_path p} \<subseteq> {mp}"
proof -
  show sub: "{p \<in> dom s. is_manifest_path p} \<subseteq> {mp}"
    using assms(1,2) by (auto simp: in_phase_def lone_manifest_def shape_def split: if_splits)
  then have "finite {p \<in> dom s. is_manifest_path p}" by (rule finite_subset) simp
  then show "set (listing {p \<in> dom s. is_manifest_path p}) = {p \<in> dom s. is_manifest_path p}"
    using assms(3) by (simp add: lists_set_def)
qed

lemma recover_each_phase:
  assumes "recover_each J ps (mm, w) = (n, mm1, w1)" "set ps \<subseteq> {mp}" "mild strict w" "in_phase False J s0 mp m c (w_store w)"
    and "apart s0 mp m" "mj_parse J (mj_marshal J m) = Some m" "mf_size m = int (length c)"
  shows "in_phase False J s0 mp m c (w_store w1) \<and> mild strict w1 \<and> w_comp w1 = w_comp w"
  using assms(1-4)
proof (induction ps arbitrary: mm w n)
  case (Cons p ps)
  obtain ok mm2 w2 where r: "recoverManifest J p (mm, w) = (ok, mm2, w2)" by (cases "recoverManifest J p (mm, w)")
  obtain n' where rest: "recover_each J ps (mm2, w2) = (n', mm1, w1)"
    using Cons.prems(1) r by (auto split: prod.splits)
  have "p = mp" using Cons.prems(2) by simp
  then have "in_phase False J s0 mp m c (w_store w2) \<and> mild strict w2 \<and> w_comp w2 = w_comp w"
    using recoverManifest_phase [OF _ Cons.prems(3,4) assms(5-7)] r by blast
  then show ?case using Cons.IH [OF rest] Cons.prems(2) by simp
qed simp

lemma RecoverOrphanedManifests_phase:
  assumes "RecoverOrphanedManifests J listing (mm, w) = (r, mm1, w1)" "mild strict w" "in_phase False J s0 mp m c (w_store w)"
    and "apart s0 mp m" "lone_manifest s0 m" "lists_set listing"
    and "mj_parse J (mj_marshal J m) = Some m" "mf_size m = int (length c)"
  shows "in_phase False J s0 mp m c (w_store w1) \<and> mild strict w1 \<and> w_comp w1 = w_comp w"
proof -
  obtain l w2 where l: "be_list listing (ManifestBasePath @ ''/'') w = (l, w2)" by (cases "be_list listing (ManifestBasePath @ ''/'') w")
  note lc = be_list_cases [OF l, of strict]
  have w2: "mild strict w2" "w_store w2 = w_store w" "w_comp w2 = w_comp w" using lc assms(2) by (auto simp: stores_def)
  show ?thesis
  proof (cases l)
    case None
    then show ?thesis using assms(1,3) l w2 by (simp add: RecoverOrphanedManifests_def ListManifests_def)
  next
    case (Some objects)
    let ?paths = "filter (has_suffix ''.json'') objects"
    have "objects = listing {p \<in> dom (w_store w). is_manifest_path p}" using lc Some by (simp add: is_manifest_path_def)
    then have sub: "set ?paths \<subseteq> {mp}" using phase_manifests [OF assms(3,5,6)] by auto
    obtain n where "recover_each J ?paths (mm, w2) = (n, mm1, w1)"
      using assms(1) l Some by (auto simp: RecoverOrphanedManifests_def ListManifests_def split: prod.splits)
    from recover_each_phase [OF this sub w2(1) _ assms(4,7,8)] show ?thesis using assms(3) w2 by simp
  qed
qed

text \<open>
  What later processes do: each starts alive, with a manager and a script of its own, and runs one
  recovery.
\<close>

inductive later :: "manifest_json \<Rightarrow> (string set \<Rightarrow> string list) \<Rightarrow> 'c world \<Rightarrow> 'c world \<Rightarrow> bool" for J listing w where
  refl: "later J listing w w"
| round: "later J listing w w1 \<Longrightarrow> mild strict (w1\<lparr>w_script := sc, w_dead := False\<rparr>) \<Longrightarrow>
    RecoverOrphanedManifests J listing (mm, w1\<lparr>w_script := sc, w_dead := False\<rparr>) = (r, mm2, w2) \<Longrightarrow>
    later J listing w w2"

lemma later_phase:
  assumes "later J listing w w'" "in_phase False J s0 mp m c (w_store w)"
    and "apart s0 mp m" "lone_manifest s0 m" "lists_set listing" "mj_parse J (mj_marshal J m) = Some m" "mf_size m = int (length c)"
  shows "in_phase False J s0 mp m c (w_store w') \<and> w_comp w' = w_comp w"
  using assms(1)
proof (induction rule: later.induct)
  case (round w1 sc mm r mm2 w2)
  from RecoverOrphanedManifests_phase [OF round.hyps(3,2) _ assms(3-7)] round.IH
  show ?case by simp
qed (use assms(2) in simp)

section \<open>The job\<close>

lemma writeCompletion_frame:
  "writeCompletionManifest m w = (ok, w1) \<Longrightarrow> w_store w1 = w_store w \<and> (mild strict w \<longrightarrow> mild strict w1)"
  using comp_write_cases by (fastforce simp: writeCompletionManifest_def split: if_splits)

lemma writeOutputWritten_frame:
  "writeOutputWrittenManifest j ev c w = (ok, w1) \<Longrightarrow> w_store w1 = w_store w \<and> (mild strict w \<longrightarrow> mild strict w1)"
  using os_ok_cases writeCompletion_frame
  by (fastforce simp: writeOutputWrittenManifest_def stores_def split: prod.splits bool.splits)

lemma writeSourcesDeleted_frame:
  "writeSourcesDeletedManifest j ev ins w = (ok, w1) \<Longrightarrow> w_store w1 = w_store w \<and> (mild strict w \<longrightarrow> mild strict w1)"
  using comp_read_cases writeCompletion_frame
  by (fastforce simp: writeSourcesDeletedManifest_def stores_def split: prod.splits option.splits)

definition job_path :: "job \<Rightarrow> string" where
  "job_path j = GenerateManifestPath (jb_tier j) (jb_database j) (jb_partition j) (jb_id j)"

lemma job_manifest_fields [simp]:
  "mf_output (job_manifest j ev c ins) = output_key j ev" "mf_inputs (job_manifest j ev c ins) = ins"
  "mf_size (job_manifest j ev c ins) = int (length c)"
  by (simp_all add: job_manifest_def)

text \<open>The job's manifest and output are new, and different from its inputs.\<close>

definition job_apart :: "(string \<rightharpoonup> bytes) \<Rightarrow> job \<Rightarrow> job_env \<Rightarrow> bool" where
  "job_apart s0 j ev \<longleftrightarrow> s0 (job_path j) = None \<and> s0 (output_key j ev) = None \<and> job_path j \<noteq> output_key j ev \<and>
     job_path j \<notin> set (jb_files j) \<and> output_key j ev \<notin> set (jb_files j)"

lemma job_apart_apart: "job_apart s0 j ev \<Longrightarrow> set ins \<subseteq> set (jb_files j) \<Longrightarrow> apart s0 (job_path j) (job_manifest j ev c ins)"
  by (auto simp: job_apart_def apart_def)

lemma DeleteManifest_shape:
  assumes "DeleteManifest mp (mm, w) = (ok, mm1, w1)" "w_store w = shape s0 mp mo out oc D" "mp \<noteq> out"
  shows "\<exists>mo'. (mo' = mo \<or> mo' = None) \<and> w_store w1 = shape s0 mp mo' out oc D"
  using DeleteManifest_cases [OF assms(1), of True] shape_drop_manifest [OF assms(3)] assms(2) by auto

text \<open>A strict run is one of a job with a manifest.\<close>

definition job_start :: "bool \<Rightarrow> manifest_json \<Rightarrow> job \<Rightarrow> manifest \<Rightarrow> string option \<Rightarrow> bytes option \<Rightarrow> bool" where
  "job_start strict J j m mpath mo \<longleftrightarrow>
     (mpath = None \<and> mo = None \<and> \<not> strict \<or> mpath = Some (job_path j) \<and> mo = Some (mj_marshal J m))"

lemma run_delete_phase:
  assumes "run_delete j ev mpath ins (mm, w) = (r, mm1, w1)" "mild strict w"
    and "job_start strict J j (job_manifest j ev c ins) mpath mo"
    and "w_store w = shape s0 (job_path j) mo (output_key j ev) (Some c) {}"
    and "apart s0 (job_path j) (job_manifest j ev c ins)"
  shows "in_phase strict J s0 (job_path j) (job_manifest j ev c ins) c (w_store w1)"
proof -
  let ?m = "job_manifest j ev c ins" and ?mp = "job_path j"
  have ne: "?mp \<noteq> output_key j ev" "?mp \<notin> set ins" "output_key j ev \<notin> set ins" using assms(5) by (auto simp: apart_def)
  have mo: "mo = None \<or> mo = Some (mj_marshal J ?m)" "strict \<longrightarrow> mo \<noteq> None" using assms(3) by (auto simp: job_start_def)
  obtain ok w2 where d: "deleteOldFiles ins w = (ok, w2)" by (cases "deleteOldFiles ins w")
  obtain D where D: "D \<subseteq> set ins" "w_store w2 = drop_keys D (w_store w)" "ok \<longrightarrow> D = set ins"
  proof (cases "ins = []")
    case True
    then have "w2 = w" using d by (simp add: deleteOldFiles_def)
    then show ?thesis using True by (intro that [of "{}"]) (auto simp: drop_keys_def restrict_map_def)
  next
    case False
    then show ?thesis using d be_delete_batch_cases [of ins w ok w2] that by (auto simp: deleteOldFiles_def)
  qed
  have "w_store w2 = shape s0 ?mp mo (output_key j ev) (Some c) ({} \<union> D)"
    unfolding D(2) assms(4) by (rule shape_drop_inputs) (use D(1) ne in auto)
  then have sh: "w_store w2 = shape s0 ?mp mo (output_key j ev) (Some c) D" by simp
  show ?thesis
  proof (cases ok)
    case False
    then have "w1 = w2" using assms(1) d by (simp add: run_delete_def)
    then show ?thesis using sh by (intro in_phaseI [of _ s0 ?mp mo _ "Some c" D]) (use D(1) mo in auto)
  next
    case True
    define st2 where "st2 = (case mpath of None \<Rightarrow> (mm, w2) | Some p \<Rightarrow> snd (DeleteManifest p (mm, w2)))"
    obtain mo' where mo': "mo' = mo \<or> mo' = None" "w_store (snd st2) = shape s0 ?mp mo' (output_key j ev) (Some c) D"
    proof (cases mpath)
      case None
      then show ?thesis using sh that [of mo] by (simp add: st2_def)
    next
      case (Some p)
      then have p: "p = ?mp" using assms(3) by (auto simp: job_start_def)
      obtain b mm3 w3 where dm: "DeleteManifest ?mp (mm, w2) = (b, mm3, w3)" by (cases "DeleteManifest ?mp (mm, w2)")
      show ?thesis using DeleteManifest_shape [OF dm sh ne(1)] dm that Some p by (auto simp: st2_def)
    qed
    obtain b w4 where wd: "writeSourcesDeletedManifest j ev ins (snd st2) = (b, w4)"
      by (cases "writeSourcesDeletedManifest j ev ins (snd st2)")
    have "w1 = (if jb_cluster j then w4 else snd st2)"
      using assms(1) d True wd by (cases "jb_cluster j"; cases mpath) (auto simp: run_delete_def st2_def Let_def)
    then have "w_store w1 = w_store (snd st2)" using writeSourcesDeleted_frame [OF wd] by simp
    then show ?thesis using mo'(2) by (intro in_phaseI [of _ s0 ?mp mo' _ "Some c" D]) (use True D mo mo'(1) in auto)
  qed
qed

lemma run_upload_phase:
  assumes "run_upload j ev mpath c ins (mm, w) = (r, mm1, w1)" "mild strict w"
    and "job_start strict J j (job_manifest j ev c ins) mpath mo"
    and "w_store w = shape s0 (job_path j) mo (output_key j ev) None {}"
    and "apart s0 (job_path j) (job_manifest j ev c ins)"
  shows "in_phase strict J s0 (job_path j) (job_manifest j ev c ins) c (w_store w1)"
proof -
  let ?m = "job_manifest j ev c ins" and ?mp = "job_path j"
  have ne: "?mp \<noteq> output_key j ev" using assms(5) by (auto simp: apart_def)
  have mo: "mo = None \<or> mo = Some (mj_marshal J ?m)" "strict \<longrightarrow> mo \<noteq> None" using assms(3) by (auto simp: job_start_def)
  obtain ok w2 where u: "uploadFile (output_key j ev) c w = (ok, w2)" by (cases "uploadFile (output_key j ev) c w")
  have w2: "mild strict w2 \<and> (w_store w2 = shape s0 ?mp mo (output_key j ev) (Some c) {} \<and> (strict \<longrightarrow> ok) \<or> (\<not> ok \<and> w_store w2 = w_store w))"
  proof -
    obtain b w3 where o: "os_ok w = (b, w3)" by (cases "os_ok w")
    show ?thesis
      using u o os_ok_cases [OF o, of strict] assms(2) be_write_cases [of "output_key j ev" c w3 ok w2 strict] shape_write_output [OF ne]
      by (cases b) (auto simp: uploadFile_def stores_def assms(4))
  qed
  show ?thesis
  proof (cases ok)
    case False
    then obtain oc where oc: "w_store w2 = shape s0 ?mp mo (output_key j ev) oc {}" "oc = Some c \<or> oc = None" "strict \<longrightarrow> oc = None"
      using w2 assms(4) by auto
    have w1: "w1 = (case mpath of None \<Rightarrow> w2 | Some p \<Rightarrow> snd (snd (DeleteManifest p (mm, w2))))"
      using assms(1) u False by (auto simp: run_upload_def split: option.splits)
    obtain mo' where "mo' = mo \<or> mo' = None" "w_store w1 = shape s0 ?mp mo' (output_key j ev) oc {}"
    proof (cases mpath)
      case None
      then show ?thesis using oc(1) w1 that [of mo] by simp
    next
      case (Some p)
      then have p: "p = ?mp" using assms(3) by (auto simp: job_start_def)
      obtain b mm3 w3 where dm: "DeleteManifest ?mp (mm, w2) = (b, mm3, w3)" by (cases "DeleteManifest ?mp (mm, w2)")
      show ?thesis using DeleteManifest_shape [OF dm oc(1) ne] dm that Some p w1 by auto
    qed
    then show ?thesis by (intro in_phaseI [of _ s0 ?mp mo' _ oc "{}"]) (use mo oc in auto)
  next
    case True
    then have st: "w_store w2 = shape s0 ?mp mo (output_key j ev) (Some c) {}" "mild strict w2" using w2 by auto
    obtain b w3 where o: "writeOutputWrittenManifest j ev c w2 = (b, w3)" by (cases "writeOutputWrittenManifest j ev c w2")
    note oc = writeOutputWritten_frame [OF o, of strict]
    consider "jb_cluster j" "\<not> b" "w1 = w3" | "jb_cluster j" "run_delete j ev mpath ins (mm, w3) = (r, mm1, w1)"
      | "\<not> jb_cluster j" "run_delete j ev mpath ins (mm, w2) = (r, mm1, w1)"
      using assms(1) u True o by (auto simp: run_upload_def split: if_splits bool.splits)
    then show ?thesis
    proof cases
      case 1
      then show ?thesis using oc st(1) by (intro in_phaseI [of _ s0 ?mp mo _ "Some c" "{}"]) (use mo in auto)
    next
      case 2
      from run_delete_phase [OF 2(2) _ assms(3) _ assms(5)] oc st show ?thesis by simp
    next
      case 3
      from run_delete_phase [OF 3(2) st(2) assms(3) st(1) assms(5)] show ?thesis .
    qed
  qed
qed

text \<open>The downloads leave the contents of the files at their local paths.\<close>

lemma downloadSingleFile_frame:
  assumes "downloadSingleFile key w = (r, w1)"
  shows "(mild strict w \<longrightarrow> mild strict w1) \<and> w_store w1 = w_store w \<and> (\<forall>q. q \<noteq> Base key \<longrightarrow> w_temp w1 q = w_temp w q) \<and>
    (\<forall>p. r = Downloaded p \<longrightarrow> p = Base key \<and> w_temp w1 p = w_store w key \<and> w_store w key \<noteq> None)"
proof -
  obtain b1 w1' where o1: "os_ok w = (b1, w1')" by (cases "os_ok w")
  note c1 = os_ok_cases [OF o1, of strict]
  show ?thesis
  proof (cases b1)
    case False
    then show ?thesis using assms o1 c1 by (auto simp: downloadSingleFile_def stores_def)
  next
    case True
    let ?w = "temp_write (Base key) [] w1'"
    obtain d w2 where rd: "be_read key ?w = (d, w2)" by (cases "be_read key ?w")
    note c2 = be_read_cases [OF rd, of strict]
    have t1: "\<forall>q. q \<noteq> Base key \<longrightarrow> w_temp w2 q = w_temp w q" "w_store w2 = w_store w" "mild strict w \<longrightarrow> mild strict w2"
      using c1 c2 by (auto simp: temp_write_def stores_def mild_def split: if_splits)
    show ?thesis
    proof (cases d)
      case None
      obtain e w3 where ex: "be_exists key (temp_remove (Base key) w2) = (e, w3)" by (cases "be_exists key (temp_remove (Base key) w2)")
      note c3 = be_exists_cases [OF ex, of strict]
      have "w1 = w3" "\<forall>p. r \<noteq> Downloaded p"
        using assms o1 True rd None ex by (auto simp: downloadSingleFile_def Let_def split: option.splits bool.splits)
      then show ?thesis using c3 t1 by (auto simp: temp_remove_def stores_def mild_def)
    next
      case (Some c)
      have key: "w_store w key = Some c" using c1 c2 Some by (auto simp: stores_def)
      have live: "\<not> w_dead w2" using rd Some by (auto simp: be_read_def next_answer_def split: if_splits list.splits answer.splits prod.splits)
      let ?w2 = "temp_write (Base key) c w2"
      obtain b3 w3 where o3: "os_ok ?w2 = (b3, w3)" by (cases "os_ok ?w2")
      note c3 = os_ok_cases [OF o3, of strict]
      obtain b4 w4 where o4: "os_ok w3 = (b4, w4)" by (cases "os_ok w3")
      note c4 = os_ok_cases [OF o4, of strict]
      have t: "w_temp ?w2 = (w_temp w2)(Base key \<mapsto> c)" using live by (simp add: temp_write_def)
      consider "b3" "b4" "r = Downloaded (Base key)" "w1 = w4" | "r = DownloadFailed" "w1 = w3 \<or> w1 = w4"
        using assms o1 True rd Some o3 o4 by (auto simp: downloadSingleFile_def Let_def split: bool.splits)
      then show ?thesis using c3 c4 t t1 key by cases (auto simp: stores_def)
    qed
  qed
qed

lemma download_each_ok:
  assumes "download_each files is w = (rs, w1)" "distinct is" "set is \<subseteq> {..<length files}" "distinct (map Base files)"
  shows "(mild strict w \<longrightarrow> mild strict w1) \<and> w_store w1 = w_store w \<and> map fst rs = is \<and>
    (\<forall>q. q \<notin> (\<lambda>i. Base (files ! i)) ` set is \<longrightarrow> w_temp w1 q = w_temp w q) \<and>
    (\<forall>i p. (i, Downloaded p) \<in> set rs \<longrightarrow> w_temp w1 p = w_store w (files ! i) \<and> w_store w (files ! i) \<noteq> None)"
  using assms(1-3)
proof (induction "is" arbitrary: w rs)
  case (Cons i "is")
  obtain r w2 where d: "downloadSingleFile (files ! i) w = (r, w2)" by (cases "downloadSingleFile (files ! i) w")
  obtain rs' where rest: "download_each files is w2 = (rs', w1)" "rs = (i, r) # rs'"
    using Cons.prems(1) d by (auto split: prod.splits)
  note f = downloadSingleFile_frame [OF d]
  have other: "Base (files ! i) \<notin> (\<lambda>i. Base (files ! i)) ` set is"
  proof
    assume "Base (files ! i) \<in> (\<lambda>i. Base (files ! i)) ` set is"
    then obtain k where "k \<in> set is" "map Base files ! i = map Base files ! k" using Cons.prems(3) by auto
    then show False using Cons.prems(2,3) nth_eq_iff_index_eq [OF assms(4)] by auto
  qed
  have ih: "(mild strict w2 \<longrightarrow> mild strict w1) \<and> w_store w1 = w_store w2 \<and> map fst rs' = is \<and>
    (\<forall>q. q \<notin> (\<lambda>i. Base (files ! i)) ` set is \<longrightarrow> w_temp w1 q = w_temp w2 q) \<and>
    (\<forall>i p. (i, Downloaded p) \<in> set rs' \<longrightarrow> w_temp w1 p = w_store w2 (files ! i) \<and> w_store w2 (files ! i) \<noteq> None)"
    using Cons.IH [OF rest(1)] Cons.prems(2,3) by simp
  have "w_temp w1 p = w_store w (files ! i) \<and> w_store w (files ! i) \<noteq> None" if "r = Downloaded p" for p
    using f ih other that by metis
  then show ?case using f ih rest(2) by auto
qed simp

lemma downloadFiles_ok:
  assumes "downloadFiles files order w = (Some fs, w1)" "distinct order" "set order \<subseteq> {..<length files}" "distinct (map Base files)"
  shows "(mild strict w \<longrightarrow> mild strict w1) \<and> w_store w1 = w_store w \<and> set (map fst fs) \<subseteq> set files \<and>
    (\<forall>x\<in>set fs. w_store w (fst x) = Some (local_content w1 (snd x)))"
proof -
  obtain rs where rs: "download_each files order w = (rs, w1)" "fs = downloaded_files files rs"
    using assms(1) by (auto simp: downloadFiles_def split: prod.splits if_splits)
  note d = download_each_ok [OF rs(1) assms(2-4)]
  have "fst x \<in> set files \<and> w_store w (fst x) = Some (local_content w1 (snd x))" if "x \<in> set fs" for x
  proof -
    obtain i p where x: "i < length files" "x = (files ! i, p)" "map_of rs i = Some (Downloaded p)"
      using \<open>x \<in> set fs\<close> rs(2) by (auto simp: downloaded_files_def split: option.splits download_result.splits)
    then have "w_temp w1 p = w_store w (files ! i) \<and> w_store w (files ! i) \<noteq> None" using d by (blast dest: map_of_SomeD)
    then show ?thesis using x(1,2) by (auto simp: local_content_def)
  qed
  then show ?thesis using d by auto
qed

lemma run_manifest_phase:
  assumes "run_manifest J j ev c ins (mm, w) = (r, mm1, w1)" "mild strict w" "strict \<longrightarrow> jb_managed j"
    and "w_store w = s0" "job_apart s0 j ev" "set ins \<subseteq> set (jb_files j)"
  shows "in_phase strict J s0 (job_path j) (job_manifest j ev c ins) c (w_store w1)"
proof -
  let ?m = "job_manifest j ev c ins" and ?mp = "job_path j"
  have ap: "apart s0 ?mp ?m" by (rule job_apart_apart [OF assms(5,6)])
  have st: "w_store w = shape s0 ?mp None (output_key j ev) None {}" using shape_start [OF ap] assms(4) by simp
  show ?thesis
  proof (cases "jb_managed j")
    case False
    then have "run_upload j ev None c ins (mm, w) = (r, mm1, w1)" using assms(1) by (simp add: run_manifest_def)
    from run_upload_phase [OF this assms(2) _ st ap] show ?thesis using False assms(3) by (simp add: job_start_def)
  next
    case True
    have path: "GenerateManifestPath (mf_tier ?m) (mf_database ?m) (mf_partition ?m) (mf_job ?m) = ?mp"
      by (simp add: job_path_def job_manifest_def)
    obtain ok w2 where wr: "be_write ?mp (mj_marshal J ?m) w = (ok, w2)" by (cases "be_write ?mp (mj_marshal J ?m) w")
    note wc = be_write_cases [OF wr assms(2)]
    show ?thesis
    proof (cases ok)
      case False
      then have "w1 = w2" using assms(1) True wr by (simp add: run_manifest_def WriteManifest_def path Let_def)
      moreover have "w_store w2 = shape s0 ?mp (Some (mj_marshal J ?m)) (output_key j ev) None {} \<or>
          w_store w2 = shape s0 ?mp None (output_key j ev) None {}"
        using wc st by (auto simp: shape_write_manifest)
      ultimately show ?thesis by (auto intro: in_phaseI)
    next
      case ok: True
      then have "run_upload j ev (Some ?mp) c ins (invalidateCache mm, w2) = (r, mm1, w1)"
        using assms(1) True wr by (simp add: run_manifest_def WriteManifest_def path Let_def)
      moreover have "w_store w2 = shape s0 ?mp (Some (mj_marshal J ?m)) (output_key j ev) None {}" "mild strict w2"
        using wc st ok by (auto simp: shape_write_manifest)
      ultimately show ?thesis using run_upload_phase [of j ev "Some ?mp" c ins "invalidateCache mm" w2 r mm1 w1 strict J "Some (mj_marshal J ?m)" s0] ap
        by (simp add: job_start_def)
    qed
  qed
qed

text \<open>What is known of the merged content.\<close>

definition merged_from :: "(string \<rightharpoonup> bytes) \<Rightarrow> job \<Rightarrow> job_env \<Rightarrow> string list \<Rightarrow> bytes \<Rightarrow> bool" where
  "merged_from s0 j ev ins c \<longleftrightarrow> set ins \<subseteq> set (jb_files j) \<and> (\<forall>f\<in>set ins. s0 f \<noteq> None) \<and> (ins = [] \<or> ev_merge ev (map (\<lambda>f. the (s0 f)) ins) = Some c)"

definition downloads_apart :: "job \<Rightarrow> job_env \<Rightarrow> bool" where
  "downloads_apart j ev \<longleftrightarrow> distinct (map Base (jb_files j)) \<and> distinct (ev_order ev) \<and> set (ev_order ev) \<subseteq> {..<length (jb_files j)}"

lemma compactFiles_merged:
  assumes "compactFiles ev fs w = Some (c, ins)" "\<forall>x\<in>set fs. s0 (fst x) = Some (local_content w (snd x))" "set (map fst fs) \<subseteq> set (jb_files j)"
  shows "merged_from s0 j ev ins c \<and> ins \<noteq> []"
proof -
  let ?valid = "filter (\<lambda>x. validateParquetFile (local_content w (snd x))) fs"
  have v: "ins = map fst ?valid" "ev_merge ev (map (\<lambda>x. local_content w (snd x)) ?valid) = Some c" "?valid \<noteq> []"
    using assms(1) by (auto simp: compactFiles_def Let_def split: if_splits option.splits)
  moreover have "map (\<lambda>x. local_content w (snd x)) ?valid = map (\<lambda>f. the (s0 f)) (map fst ?valid)"
    using assms(2) by simp
  ultimately show ?thesis using assms(2,3) by (auto simp: merged_from_def simp del: map_map)
qed

lemma Run_phase:
  assumes "Run J j ev (mm, w) = (r, mm1, w1)" "mild strict w" "strict \<longrightarrow> jb_managed j"
    and "w_store w = s0" "job_apart s0 j ev" "downloads_apart j ev"
  shows "\<exists>ins c. merged_from s0 j ev ins c \<and> in_phase strict J s0 (job_path j) (job_manifest j ev c ins) c (w_store w1) \<and>
    (ins = [] \<longrightarrow> w_store w1 = s0)"
proof -
  define w0 where "w0 = (if jb_cluster j then snd (writeCompletionManifest (initial_completion j ev) w) else w)"
  note run = assms(1) [unfolded Run_stages, folded w0_def]
  have w0: "w_store w0 = s0" "mild strict w0"
    using writeCompletion_frame [of "initial_completion j ev" w _ _ strict] assms(2,4)
    by (cases "writeCompletionManifest (initial_completion j ev) w"; auto simp: w0_def)+
  have early: ?thesis if "w_store w1 = s0"
  proof (intro exI [of _ "[]"] exI conjI)
    show "merged_from s0 j ev [] []" by (simp add: merged_from_def)
    have "s0 = shape s0 (job_path j) None (mf_output (job_manifest j ev [] [])) None {}"
      using shape_start [OF job_apart_apart [OF assms(5), of "[]" "[]"]] by simp
    then show "in_phase strict J s0 (job_path j) (job_manifest j ev [] []) [] (w_store w1)"
      unfolding that by (rule in_phaseI) auto
    show "[] = [] \<longrightarrow> w_store w1 = s0" using that by simp
  qed
  obtain b1 w1' where o1: "os_ok w0 = (b1, w1')" by (cases "os_ok w0")
  have w1': "w_store w1' = s0" "mild strict w1'" using os_ok_cases [OF o1, of strict] w0 by (auto simp: stores_def)
  obtain fso w2 where dl: "downloadFiles (jb_files j) (ev_order ev) w1' = (fso, w2)" by (cases "downloadFiles (jb_files j) (ev_order ev) w1'")
  have frame: "w_store w2 = s0 \<and> mild strict w2"
    using dl download_each_ok [of "jb_files j" "ev_order ev" w1' _ _ strict] assms(6) w1'
    by (auto simp: downloadFiles_def downloads_apart_def split: prod.splits if_splits)
  show ?thesis
  proof (cases "b1 \<and> fso \<noteq> None \<and> fso \<noteq> Some [] \<and> compactFiles ev (the fso) w2 \<noteq> None")
    case False
    then have "w1 = w1' \<or> w1 = w2"
      using run o1 dl by (auto split: bool.splits option.splits if_splits)
    then show ?thesis using early frame w1' by auto
  next
    case True
    then obtain fs c ins where go: "b1" "fso = Some fs" "fs \<noteq> []" "compactFiles ev fs w2 = Some (c, ins)" by (cases fso) auto
    have d: "set (map fst fs) \<subseteq> set (jb_files j)" "\<forall>x\<in>set fs. s0 (fst x) = Some (local_content w2 (snd x))"
      using downloadFiles_ok [OF dl [unfolded go(2)]] assms(6) w1'(1) by (auto simp: downloads_apart_def)
    have m: "merged_from s0 j ev ins c \<and> ins \<noteq> []" by (rule compactFiles_merged [OF go(4) d(2,1)])
    obtain b3 w3 where o3: "os_ok w2 = (b3, w3)" by (cases "os_ok w2")
    have w3: "w_store w3 = s0" "mild strict w3" using os_ok_cases [OF o3, of strict] frame by (auto simp: stores_def)
    show ?thesis
    proof (cases b3)
      case False
      then have "w1 = w3" using run o1 dl go o3 by simp
      then show ?thesis using early w3 by simp
    next
      case True
      then have "run_manifest J j ev c ins (mm, w3) = (r, mm1, w1)"
        using run o1 dl go o3 by simp
      from run_manifest_phase [OF this w3(2) assms(3) w3(1) assms(5)] m show ?thesis by (auto simp: merged_from_def)
    qed
  qed
qed

section \<open>What compaction guarantees\<close>

definition json_round_trip :: "manifest_json \<Rightarrow> bool" where
  "json_round_trip J \<longleftrightarrow> (\<forall>m. mj_parse J (mj_marshal J m) = Some m)"

definition no_manifests :: "(string \<rightharpoonup> bytes) \<Rightarrow> job \<Rightarrow> job_env \<Rightarrow> bool" where
  "no_manifests s0 j ev \<longleftrightarrow> (\<forall>p. is_manifest_path p \<longrightarrow> s0 p = None) \<and> \<not> is_manifest_path (output_key j ev)"

text \<open>
  C20. Compaction loses nothing: however the operations of a job are answered, wherever its
  process dies, and however many recoveries follow, each of which may fail or die at any
  operation, every object that was there at the beginning is still there with its content, or it
  is one of the merged inputs and the output holds the merge of all of them.
\<close>

theorem compaction_loses_nothing:
  assumes "Run J j ev (mm, w) = (r, mm1, w1)" "later J listing w1 w2" "mild False w"
    and "job_apart (w_store w) j ev" "downloads_apart j ev" "no_manifests (w_store w) j ev"
    and "lists_set listing" "json_round_trip J"
  shows "\<exists>ins c. merged_from (w_store w) j ev ins c \<and>
    nothing_lost (w_store w) (\<lambda>p. p \<in> set ins) (output_key j ev) c (w_store w2)"
proof -
  obtain ins c where m: "merged_from (w_store w) j ev ins c"
    "in_phase False J (w_store w) (job_path j) (job_manifest j ev c ins) c (w_store w1)"
    using Run_phase [OF assms(1,3) _ HOL.refl assms(4,5)] by auto
  have ap: "apart (w_store w) (job_path j) (job_manifest j ev c ins)"
    using job_apart_apart [OF assms(4)] m(1) by (simp add: merged_from_def)
  have "in_phase False J (w_store w) (job_path j) (job_manifest j ev c ins) c (w_store w2)"
    using later_phase [OF assms(2) m(2) ap _ assms(7)] assms(6,8)
    by (simp add: lone_manifest_def no_manifests_def json_round_trip_def)
  from in_phase_nothing_lost [OF ap this] m(1) show ?thesis by auto
qed

text \<open>A recovery that meets no failure, from any phase of a strict job.\<close>

lemma delete_inputs_calm: "calm w \<Longrightarrow> delete_inputs fs w = (0, w\<lparr>w_store := drop_keys (set fs) (w_store w)\<rparr>)"
proof (induction fs arbitrary: w)
  case Nil
  then show ?case by (simp add: drop_keys_def restrict_map_def)
next
  case (Cons f fs)
  have "drop_keys (set fs) (drop_keys {f} s) = drop_keys (insert f (set fs)) s" for s
    by (auto simp: drop_keys_def restrict_map_def)
  then show ?case using Cons by (simp add: calm_ops)
qed

lemma recoverManifest_calm:
  assumes "calm w" "w_store w = shape s0 mp (Some (mj_marshal J m)) (mf_output m) oc D"
    and "apart s0 mp m" "json_round_trip J" "mf_size m = int (length c)" "oc = Some c \<or> oc = None \<and> D = {}" "D \<subseteq> set (mf_inputs m)"
    and "recoverManifest J mp (mm, w) = (ok, mm1, w1)"
  shows "w_store w1 = (if oc = None then s0 else shape s0 mp None (mf_output m) (Some c) (set (mf_inputs m)))"
proof -
  have ne: "mp \<noteq> mf_output m" "mp \<notin> set (mf_inputs m)" "mf_output m \<notin> set (mf_inputs m)" using assms(3) by (auto simp: apart_def)
  have at: "w_store w mp = Some (mj_marshal J m)" "w_store w (mf_output m) = oc" using assms(2) ne by (auto simp: shape_def)
  have rm: "ReadManifest J mp w = (Some m, w)" using assms(1,4) at by (simp add: ReadManifest_def calm_ops json_round_trip_def)
  show ?thesis
  proof (cases oc)
    case None
    then have "w_store w1 = shape s0 mp None (mf_output m) None {}"
      using assms(1,2,6,8) rm at ne shape_drop_manifest [OF ne(1)]
      by (auto simp: recoverManifest_def calm_ops DeleteManifest_def)
    then show ?thesis using None shape_start [OF assms(3)] by simp
  next
    case (Some c')
    then have oc: "oc = Some c" using assms(6) by auto
    let ?w = "w\<lparr>w_store := drop_keys (set (mf_inputs m)) (w_store w)\<rparr>"
    have "(ok, mm1, w1) = DeleteManifest mp (mm, ?w)"
      using assms(1,5,8) rm at oc by (auto simp: recoverManifest_def calm_ops delete_inputs_calm size_differs_def)
    then have "w_store w1 = drop_keys {mp} (drop_keys (set (mf_inputs m)) (w_store w))"
      using assms(1) by (simp add: DeleteManifest_def calm_ops)
    also have "drop_keys (set (mf_inputs m)) (w_store w) = shape s0 mp (Some (mj_marshal J m)) (mf_output m) oc (D \<union> set (mf_inputs m))"
      unfolding assms(2) by (rule shape_drop_inputs [OF ne(2,3)])
    also have "drop_keys {mp} \<dots> = shape s0 mp None (mf_output m) oc (D \<union> set (mf_inputs m))"
      by (rule shape_drop_manifest [OF ne(1)])
    finally show ?thesis using oc assms(7) by (simp add: Un_absorb1)
  qed
qed

lemma lists_singleton: "lists_set listing \<Longrightarrow> listing {p} = [p]"
proof -
  assume "lists_set listing"
  then have "set (listing {p}) = {p}" "distinct (listing {p})" by (auto simp: lists_set_def)
  then show ?thesis by (cases "listing {p}") (auto simp: subset_singleton_iff split: if_splits)
qed

text \<open>Where the job stands when nothing of it is left to do: nowhere, or done.\<close>

definition done_or_undone :: "(string \<rightharpoonup> bytes) \<Rightarrow> string list \<Rightarrow> string \<Rightarrow> bytes \<Rightarrow> (string \<rightharpoonup> bytes) \<Rightarrow> bool" where
  "done_or_undone s0 ins out c s \<longleftrightarrow> s = s0 \<or> (s out = Some c \<and> (\<forall>p. p \<noteq> out \<longrightarrow> s p = (if p \<in> set ins then None else s0 p)))"

lemma recovery_result:
  assumes "in_phase True J s0 mp m c (w_store w)" "calm w" "apart s0 mp m" "lone_manifest s0 m" "lists_set listing"
    and "json_round_trip J" "mf_size m = int (length c)" "is_manifest_path mp" "has_suffix ''.json'' mp"
    and "RecoverOrphanedManifests J listing (mm, w) = (r, mm1, w1)"
  shows "w_store w1 = (if w_store w (mf_output m) = None then s0 else shape s0 mp None (mf_output m) (Some c) (set (mf_inputs m)))"
proof -
  obtain mo oc D where sh: "w_store w = shape s0 mp mo (mf_output m) oc D" "mo = None \<or> mo = Some (mj_marshal J m)"
    "D \<subseteq> set (mf_inputs m)" "oc = Some c \<or> oc = None \<and> D = {}" "mo \<noteq> None \<or> oc = None \<or> D = set (mf_inputs m)"
    using assms(1) by (auto simp: in_phase_def)
  have oc: "w_store w (mf_output m) = oc" using sh(1) assms(3) by (auto simp: shape_def apart_def)
  have dom: "{p \<in> dom (w_store w). take (length (ManifestBasePath @ ''/'')) p = ManifestBasePath @ ''/''} = (if mo = None then {} else {mp})"
    using sh(1) assms(4,8) by (auto simp: lone_manifest_def shape_def is_manifest_path_def split: if_splits)
  show ?thesis
  proof (cases mo)
    case None
    have "listing {} = []" using assms(5) by (auto simp: lists_set_def)
    then have "ListManifests listing w = (Some [], w)"
      unfolding ListManifests_def calm_ops(5) [OF assms(2)] dom using None by simp
    then have "w1 = w" using assms(10) by (simp add: RecoverOrphanedManifests_def)
    then show ?thesis unfolding oc using sh None shape_start [OF assms(3)] by auto
  next
    case (Some d)
    then have mo: "mo = Some (mj_marshal J m)" using sh(2) by simp
    have "ListManifests listing w = (Some [mp], w)"
      unfolding ListManifests_def calm_ops(5) [OF assms(2)] dom using assms(9) mo lists_singleton [OF assms(5)] by simp
    then obtain ok mm2 where "recoverManifest J mp (mm, w) = (ok, mm2, w1)"
      using assms(10) by (auto simp: RecoverOrphanedManifests_def split: prod.splits)
    from recoverManifest_calm [OF assms(2) _ assms(3,6,7) sh(4,3) this] sh(1) mo show ?thesis unfolding oc by simp
  qed
qed

lemma recovery_finishes:
  assumes "in_phase True J s0 mp m c (w_store w)" "calm w" "apart s0 mp m" "lone_manifest s0 m" "lists_set listing"
    and "json_round_trip J" "mf_size m = int (length c)" "is_manifest_path mp" "has_suffix ''.json'' mp"
    and "RecoverOrphanedManifests J listing (mm, w) = (r, mm1, w1)"
  shows "done_or_undone s0 (mf_inputs m) (mf_output m) c (w_store w1)"
  using recovery_result [OF assms] assms(3) by (auto simp: done_or_undone_def shape_def apart_def)

lemma job_path_form: "is_manifest_path (job_path j)" "has_suffix ''.json'' (job_path j)"
proof -
  have suffix: "has_suffix suf (x @ suf)" for suf x by (simp add: has_suffix_def)
  obtain x where x: "job_path j = x @ ''.json''"
    by (rule that [of "ManifestBasePath @ ''/'' @ jb_tier j @ ''/'' @ jb_database j @ ''/'' @
          map (\<lambda>c. if c = CHR ''/'' then CHR ''_'' else c) (jb_partition j) @ ''_'' @ jb_id j"])
      (simp add: job_path_def GenerateManifestPath_def)
  show "has_suffix ''.json'' (job_path j)" unfolding x by (rule suffix)
  show "is_manifest_path (job_path j)" by (simp add: is_manifest_path_def job_path_def GenerateManifestPath_def)
qed

text \<open>
  One recovery that meets no failure finishes an interrupted job: if no write of the job lost
  its confirmation, then afterwards the job is undone (the store is as it was) or done (the
  output is there and none of the merged inputs is), and never half of both.
\<close>

theorem recovery_completes_job:
  assumes "Run J j ev (mm, w) = (r, mm1, w1)" "mild True w" "jb_managed j"
    and "job_apart (w_store w) j ev" "downloads_apart j ev" "no_manifests (w_store w) j ev"
    and "lists_set listing" "json_round_trip J"
    and "RecoverOrphanedManifests J listing (mm', w1\<lparr>w_script := [], w_dead := False\<rparr>) = (r', mm2, w2)"
  shows "\<exists>ins c. merged_from (w_store w) j ev ins c \<and> done_or_undone (w_store w) ins (output_key j ev) c (w_store w2)"
proof -
  obtain ins c where m: "merged_from (w_store w) j ev ins c"
    "in_phase True J (w_store w) (job_path j) (job_manifest j ev c ins) c (w_store w1)"
    using Run_phase [OF assms(1,2) _ HOL.refl assms(4,5)] assms(3) by auto
  have ap: "apart (w_store w) (job_path j) (job_manifest j ev c ins)"
    using job_apart_apart [OF assms(4)] m(1) by (simp add: merged_from_def)
  have "calm (w1\<lparr>w_script := [], w_dead := False\<rparr>)" by (simp add: calm_def)
  moreover have "is_manifest_path (job_path j)" "has_suffix ''.json'' (job_path j)" by (rule job_path_form)+
  ultimately have "done_or_undone (w_store w) (mf_inputs (job_manifest j ev c ins)) (mf_output (job_manifest j ev c ins)) c (w_store w2)"
    using recovery_finishes [OF _ _ ap _ assms(7,8) _ _ _ assms(9)] m(2) assms(6)
    by (simp add: lone_manifest_def no_manifests_def)
  then show ?thesis using m(1) by auto
qed

end
