(* ===== verification/Compaction_Watcher.thy ===== *)
theory Compaction_Watcher
  imports Compaction_Recovery FSM_Files
begin

text \<open>
  The way from a compaction job to the cluster's file manifest: the watcher that applies
  completion manifests (\<^verbatim>\<open>internal/compaction/watcher.go\<close>), the bridge that makes a batch of file
  operations of one (\<^verbatim>\<open>internal/cluster/compaction_bridge.go\<close>), and the sweep of abandoned ones
  (\<open>CleanupOrphanedCompletionManifests\<close>).  The batch is the command of the cluster FSM.
\<close>

section \<open>The bridge\<close>

text \<open>
  What becomes of a proposed batch: it is committed at an index, committed although the caller is
  told otherwise, refused for want of a leader, or fails.
\<close>

datatype raft_answer = Committed u64 | CommittedUnknown u64 | NoLeader | RaftFailed

datatype bridge_result = BridgeOk | ErrNotLeader | BridgeFailed

definition file_entry_of :: "string \<Rightarrow> compacted_output \<Rightarrow> file_entry" where
  "file_entry_of nodeID out =
     \<lparr>f_Path = co_path out, f_SHA256 = co_sha out, f_SizeBytes = co_size out, f_Database = co_database out,
      f_Measurement = co_measurement out, f_PartitionTime = Some (co_ptime out), f_OriginNodeID = nodeID,
      f_Tier = co_tier out, f_CreatedAt = Some (co_created out), f_LSN = 0\<rparr>"

definition bridge_ops :: "string \<Rightarrow> compacted_output list \<Rightarrow> (string \<times> string) list \<Rightarrow> batch_op list" where
  "bridge_ops nodeID registers deletes =
     map (\<lambda>out. BatchRegister (Some (file_entry_of nodeID out))) registers @
     map (\<lambda>d. BatchDelete (Some \<lparr>df_Path = fst d, df_Reason = snd d\<rparr>)) deletes"

text \<open>\<open>BatchFileOpsInManifest\<close>, on the leader or through it.\<close>

definition BatchFileOpsInManifest :: "raft_answer \<Rightarrow> batch_op list \<Rightarrow> fsm \<Rightarrow> bridge_result \<times> fsm" where
  "BatchFileOpsInManifest ans ops f =
     (case ans of
        Committed i \<Rightarrow>
          (let r = applyBatchFileOps (Some ops) i f
           in (if err r = None then BridgeOk else BridgeFailed, st r))
      | CommittedUnknown i \<Rightarrow> (BridgeFailed, st (applyBatchFileOps (Some ops) i f))
      | NoLeader \<Rightarrow> (ErrNotLeader, f)
      | RaftFailed \<Rightarrow> (BridgeFailed, f))"

definition BatchFileOps ::
  "string \<Rightarrow> raft_answer \<Rightarrow> compacted_output list \<Rightarrow> (string \<times> string) list \<Rightarrow> fsm \<Rightarrow> bridge_result \<times> fsm" where
  "BatchFileOps nodeID ans registers deletes f =
     (let ops = bridge_ops nodeID registers deletes
      in if ops = [] then (BridgeOk, f) else BatchFileOpsInManifest ans ops f)"

section \<open>The watcher\<close>

record watcher =
  wa_dir :: "string \<rightharpoonup> completion"
  wa_registered :: "string set"
  wa_fsm :: fsm

text \<open>
  What the environment answers for one manifest: whether the file can be read, what becomes of
  the batch, and whether the file can be removed.
\<close>

record watch_env =
  we_readable :: bool
  we_raft :: raft_answer
  we_remove :: bool

definition delete_reason :: "completion \<Rightarrow> string" where
  "delete_reason m = ''compaction:'' @ cm_job m"

definition applyOne :: "string \<Rightarrow> watch_env \<Rightarrow> string \<Rightarrow> watcher \<Rightarrow> watcher" where
  "applyOne nodeID env path wa =
     (case (if we_readable env then wa_dir wa path else None) of
        None \<Rightarrow> wa
      | Some m \<Rightarrow>
          if cm_state m = WritingOutput then wa
          else
            let registers = (if cm_job m \<in> wa_registered wa then [] else cm_outputs m);
                deletes = (if cm_state m = SourcesDeleted then map (\<lambda>p. (p, delete_reason m)) (cm_deleted m) else [])
            in if registers = [] \<and> deletes = [] then wa
               else (case BatchFileOps nodeID (we_raft env) registers deletes (wa_fsm wa) of
                       (BridgeOk, f) \<Rightarrow>
                         let wa1 = wa\<lparr>wa_fsm := f,
                               wa_registered := (if registers = [] then wa_registered wa else insert (cm_job m) (wa_registered wa))\<rparr>
                         in if cm_state m \<noteq> SourcesDeleted then wa1
                            else if we_remove env
                            then wa1\<lparr>wa_dir := (wa_dir wa1)(path := None), wa_registered := wa_registered wa1 - {cm_job m}\<rparr>
                            else wa1
                     | (_, f) \<Rightarrow> wa\<lparr>wa_fsm := f\<rparr>))"

definition poll :: "string \<Rightarrow> (string set \<Rightarrow> string list) \<Rightarrow> (string \<Rightarrow> watch_env) \<Rightarrow> watcher \<Rightarrow> watcher" where
  "poll nodeID listing env wa =
     fold (\<lambda>p. applyOne nodeID (env p) p) (filter (has_suffix ''.json'') (listing (dom (wa_dir wa)))) wa"

text \<open>The sweep of manifests that never got beyond their first state.\<close>

definition sweep_one :: "int \<Rightarrow> int \<Rightarrow> watch_env \<Rightarrow> string \<Rightarrow> watcher \<Rightarrow> watcher" where
  "sweep_one now timeout env path wa =
     (case (if we_readable env then wa_dir wa path else None) of
        None \<Rightarrow> wa
      | Some m \<Rightarrow>
          if cm_state m \<noteq> WritingOutput \<or> now - timeout < cm_updated m \<or> \<not> we_remove env then wa
          else wa\<lparr>wa_dir := (wa_dir wa)(path := None)\<rparr>)"

definition CleanupOrphanedCompletionManifests ::
  "int \<Rightarrow> int \<Rightarrow> (string set \<Rightarrow> string list) \<Rightarrow> (string \<Rightarrow> watch_env) \<Rightarrow> watcher \<Rightarrow> watcher" where
  "CleanupOrphanedCompletionManifests now timeout listing env wa =
     (let t = (if timeout \<le> 0 then 600000000000 else timeout)
      in fold (\<lambda>p. sweep_one now t (env p) p) (filter (has_suffix ''.json'') (listing (dom (wa_dir wa)))) wa)"

section \<open>Effect of a batch on the manifest\<close>

definition known_entry :: "string \<Rightarrow> u64 \<Rightarrow> compacted_output \<Rightarrow> file_entry" where
  "known_entry nodeID i out = (file_entry_of nodeID out)\<lparr>f_LSN := i\<rparr>"

definition registered_in :: "string \<Rightarrow> u64 \<Rightarrow> compacted_output list \<Rightarrow> (string \<rightharpoonup> file_entry) \<Rightarrow> (string \<rightharpoonup> file_entry)" where
  "registered_in nodeID i outs fs = fold (\<lambda>out fs. fs(co_path out \<mapsto> known_entry nodeID i out)) outs fs"

definition removed_from :: "string set \<Rightarrow> (string \<rightharpoonup> file_entry) \<Rightarrow> (string \<rightharpoonup> file_entry)" where
  "removed_from D fs = fs |` (- D)"

lemma prevalidate_append:
  "prevalidate i bs f = Inr ds \<Longrightarrow> prevalidate (i + length bs) bs' f = Inr ds' \<Longrightarrow> prevalidate i (bs @ bs') f = Inr (ds @ ds')"
  by (induction bs arbitrary: i ds) (auto split: sum.splits)

lemma prevalidate_registers:
  "list_all (\<lambda>out. ValidateManifestPath (co_path out) = None) outs \<Longrightarrow>
   prevalidate i (map (\<lambda>out. BatchRegister (Some (file_entry_of n out))) outs) f = Inr (map (\<lambda>out. DoRegister (file_entry_of n out)) outs)"
  by (induction outs arbitrary: i) (simp_all add: prevalidate_file_def file_entry_of_def)

lemma prevalidate_deletes:
  "list_all (\<lambda>d. fst d \<noteq> []) ds \<Longrightarrow>
   prevalidate i (map (\<lambda>d. BatchDelete (Some \<lparr>df_Path = fst d, df_Reason = snd d\<rparr>)) ds) f =
     Inr (map (\<lambda>d. DoDelete \<lparr>df_Path = fst d, df_Reason = snd d\<rparr>) ds)"
  by (induction ds arbitrary: i) simp_all

lemma apply_append:
  "err (apply_file_ops i ds li f) = None \<Longrightarrow>
   err (apply_file_ops i (ds @ ds') li f) = err (apply_file_ops (i + length ds) ds' li (st (apply_file_ops i ds li f))) \<and>
   st (apply_file_ops i (ds @ ds') li f) = st (apply_file_ops (i + length ds) ds' li (st (apply_file_ops i ds li f)))"
  by (induction ds arbitrary: i f) (auto simp: Let_def split: option.splits)

lemma apply_registers:
  "list_all (\<lambda>out. ValidateManifestPath (co_path out) = None) outs \<Longrightarrow>
   err (apply_file_ops k (map (\<lambda>out. DoRegister (file_entry_of n out)) outs) li f) = None \<and>
   files (st (apply_file_ops k (map (\<lambda>out. DoRegister (file_entry_of n out)) outs) li f)) = registered_in n li outs (files f)"
  by (induction outs arbitrary: k f)
    (simp_all add: registered_in_def applyRegisterFileStruct_def file_entry_of_def known_entry_def Let_def)

lemma apply_deletes:
  "list_all (\<lambda>d. fst d \<noteq> []) ds \<Longrightarrow>
   err (apply_file_ops k (map (\<lambda>d. DoDelete \<lparr>df_Path = fst d, df_Reason = snd d\<rparr>) ds) li f) = None \<and>
   files (st (apply_file_ops k (map (\<lambda>d. DoDelete \<lparr>df_Path = fst d, df_Reason = snd d\<rparr>) ds) li f)) =
     removed_from (fst ` set ds) (files f)"
proof (induction ds arbitrary: k f)
  case Nil
  then show ?case by (simp add: removed_from_def restrict_map_def)
next
  case (Cons d ds)
  let ?r = "applyDeleteFileStruct \<lparr>df_Path = fst d, df_Reason = snd d\<rparr> f"
  have "err ?r = None \<and> files (st ?r) = (files f)(fst d := None)"
    using Cons.prems by (auto simp: applyDeleteFileStruct_def Let_def fun_upd_idem split: option.splits)
  moreover have "removed_from (fst ` set ds) ((files f)(fst d := None)) = removed_from (insert (fst d) (fst ` set ds)) (files f)"
    by (auto simp: removed_from_def restrict_map_def)
  ultimately show ?case using Cons by (simp add: Let_def)
qed

text \<open>A batch of valid operations succeeds, and does what its parts say.\<close>

lemma bridge_batch:
  assumes "list_all (\<lambda>out. ValidateManifestPath (co_path out) = None) outs" "list_all (\<lambda>d. fst d \<noteq> []) ds"
  shows "err (applyBatchFileOps (Some (bridge_ops n outs ds)) li f) = None \<and>
    files (st (applyBatchFileOps (Some (bridge_ops n outs ds)) li f)) =
      removed_from (fst ` set ds) (registered_in n li outs (files f))"
proof -
  have "prevalidate 0 (bridge_ops n outs ds) f =
      Inr (map (\<lambda>out. DoRegister (file_entry_of n out)) outs @ map (\<lambda>d. DoDelete \<lparr>df_Path = fst d, df_Reason = snd d\<rparr>) ds)"
    unfolding bridge_ops_def by (rule prevalidate_append [OF prevalidate_registers [OF assms(1)] prevalidate_deletes [OF assms(2)]])
  then show ?thesis
    using apply_registers [OF assms(1)] apply_deletes [OF assms(2)] apply_append
    by (simp add: applyBatchFileOps_def)
qed

text \<open>Whatever a batch holds, and wherever it stops: a file it takes away is one that it deletes.\<close>

lemma apply_op_removes:
  "files f p \<noteq> None \<Longrightarrow> files (st (apply_file_op d li f)) p = None \<Longrightarrow> \<exists>x. d = DoDelete x \<and> df_Path x = p"
  by (cases d) (auto simp: file_struct_defs rejectManifestPath_def incRejectedPaths_def Let_def split: if_splits option.splits)

lemma apply_ops_remove:
  "files f p \<noteq> None \<Longrightarrow> files (st (apply_file_ops i ds li f)) p = None \<Longrightarrow> \<exists>x. DoDelete x \<in> set ds \<and> df_Path x = p"
proof (induction ds arbitrary: i f)
  case (Cons d ds)
  show ?case
  proof (cases "files (st (apply_file_op d li f)) p = None")
    case True
    then show ?thesis using apply_op_removes [OF Cons.prems(1)] by fastforce
  next
    case False
    then have "\<exists>x. DoDelete x \<in> set ds \<and> df_Path x = p"
      using Cons.prems Cons.IH [OF False, of "Suc i"] by (auto simp: Let_def split: option.splits)
    then show ?thesis by auto
  qed
qed auto

lemma prevalidate_op_ok: "prevalidate_op i b f = Inr (DoDelete x) \<Longrightarrow> b = BatchDelete (Some x)"
  by (cases b) (auto simp: prevalidate_file_def split: option.splits if_splits)

lemma prevalidate_op_refused: "prevalidate_op i b f = Inl r \<Longrightarrow> files (st r) = files f"
  by (cases b) (auto simp: prevalidate_file_def incRejectedPaths_def split: option.splits if_splits)

lemma prevalidate_ok: "prevalidate i bs f = Inr ds \<Longrightarrow> DoDelete x \<in> set ds \<Longrightarrow> BatchDelete (Some x) \<in> set bs"
proof (induction bs arbitrary: i ds)
  case (Cons b bs)
  then obtain d ds' where d: "prevalidate_op i b f = Inr d" "prevalidate (Suc i) bs f = Inr ds'" "ds = d # ds'"
    by (auto split: sum.splits)
  show ?case
  proof (cases "DoDelete x \<in> set ds'")
    case True
    from Cons.IH [OF d(2) this] show ?thesis by simp
  next
    case False
    then show ?thesis using Cons.prems(2) d prevalidate_op_ok by auto
  qed
qed simp

lemma prevalidate_refused: "prevalidate i bs f = Inl r \<Longrightarrow> files (st r) = files f"
  by (induction bs arbitrary: i) (auto dest: prevalidate_op_refused split: sum.splits)

lemma batch_removes:
  assumes "files f p \<noteq> None" "files (st (applyBatchFileOps (Some (bridge_ops n outs ds)) li f)) p = None"
  shows "p \<in> fst ` set ds"
proof -
  obtain dops where d: "prevalidate 0 (bridge_ops n outs ds) f = Inr dops"
    using assms prevalidate_refused by (cases "prevalidate 0 (bridge_ops n outs ds) f") (auto simp: applyBatchFileOps_def)
  then obtain x where x: "DoDelete x \<in> set dops" "df_Path x = p"
    using assms apply_ops_remove by (fastforce simp: applyBatchFileOps_def)
  from prevalidate_ok [OF d x(1)] x(2) show ?thesis by (force simp: bridge_ops_def)
qed

lemma BatchFileOps_removes:
  assumes "BatchFileOps n ans outs ds f = (r, f')" "files f p \<noteq> None" "files f' p = None"
  shows "p \<in> fst ` set ds"
  using assms batch_removes [of f p n outs ds]
  by (auto simp: BatchFileOps_def BatchFileOpsInManifest_def Let_def split: if_splits raft_answer.splits)

section \<open>A life of the watcher\<close>

text \<open>
  It polls, sweeps, is restarted (and forgets what it registered), while jobs write their
  completion manifests.
\<close>

definition restarted :: "watcher \<Rightarrow> watcher" where
  "restarted wa = wa\<lparr>wa_registered := {}\<rparr>"

datatype watch_event =
    Poll "string \<Rightarrow> watch_env"
  | Sweep int int "string \<Rightarrow> watch_env"
  | Restart
  | Advance string completion

fun watch_step :: "string \<Rightarrow> (string set \<Rightarrow> string list) \<Rightarrow> watch_event \<Rightarrow> watcher \<Rightarrow> watcher" where
  "watch_step nodeID listing (Poll env) wa = poll nodeID listing env wa"
| "watch_step nodeID listing (Sweep now timeout env) wa = CleanupOrphanedCompletionManifests now timeout listing env wa"
| "watch_step nodeID listing Restart wa = restarted wa"
| "watch_step nodeID listing (Advance path m) wa = wa\<lparr>wa_dir := (wa_dir wa)(path \<mapsto> m)\<rparr>"

text \<open>What a step takes from the cluster's manifest, a completion manifest lists as deleted.\<close>

definition listed_deleted :: "(string \<rightharpoonup> completion) \<Rightarrow> string \<Rightarrow> bool" where
  "listed_deleted dir p \<longleftrightarrow> (\<exists>q m. dir q = Some m \<and> cm_state m = SourcesDeleted \<and> p \<in> set (cm_deleted m))"

definition drops_listed :: "(string \<Rightarrow> bool) \<Rightarrow> watcher \<Rightarrow> watcher \<Rightarrow> bool" where
  "drops_listed P wa wa' \<longleftrightarrow> wa_dir wa' \<subseteq>\<^sub>m wa_dir wa \<and>
     (\<forall>p. files (wa_fsm wa) p \<noteq> None \<longrightarrow> files (wa_fsm wa') p = None \<longrightarrow> P p)"

lemma drops_listed_refl [simp]: "drops_listed P wa wa"
  by (auto simp: drops_listed_def)

lemma drops_listed_trans: "drops_listed P wa wa1 \<Longrightarrow> drops_listed P wa1 wa2 \<Longrightarrow> drops_listed P wa wa2"
  unfolding drops_listed_def by (blast intro: map_le_trans)

lemma listed_deleted_mono: "dir' \<subseteq>\<^sub>m dir \<Longrightarrow> listed_deleted dir' p \<Longrightarrow> listed_deleted dir p"
  by (force simp: listed_deleted_def map_le_def)

lemma applyOne_drops: "\<forall>p. listed_deleted (wa_dir wa) p \<longrightarrow> P p \<Longrightarrow> drops_listed P wa (applyOne n env path wa)"
proof -
  assume P: "\<forall>p. listed_deleted (wa_dir wa) p \<longrightarrow> P p"
  have less: "(wa_dir wa)(path := None) \<subseteq>\<^sub>m wa_dir wa" by (simp add: map_le_def)
  show ?thesis
  proof (cases "if we_readable env then wa_dir wa path else None")
    case None
    then show ?thesis by (simp add: applyOne_def del: if_split)
  next
    case (Some m)
    define regs where "regs = (if cm_job m \<in> wa_registered wa then [] else cm_outputs m)"
    define dels where "dels = (if cm_state m = SourcesDeleted then map (\<lambda>p. (p, delete_reason m)) (cm_deleted m) else [])"
    obtain r f where b: "BatchFileOps n (we_raft env) regs dels (wa_fsm wa) = (r, f)" by (cases "BatchFileOps n (we_raft env) regs dels (wa_fsm wa)")
    have keep: "\<forall>p. files (wa_fsm wa) p \<noteq> None \<longrightarrow> files f p = None \<longrightarrow> P p"
    proof (intro allI impI)
      fix p
      assume that: "files (wa_fsm wa) p \<noteq> None" "files f p = None"
      have "p \<in> fst ` set dels" by (rule BatchFileOps_removes [OF b that])
      moreover have "wa_dir wa path = Some m" using Some by (simp split: if_splits)
      ultimately have "listed_deleted (wa_dir wa) p"
        by (auto simp: dels_def listed_deleted_def intro!: exI [of _ path] split: if_splits)
      then show "P p" using P by blast
    qed
    let ?wa = "applyOne n env path wa"
    have "wa_fsm ?wa = wa_fsm wa \<or> wa_fsm ?wa = f" "wa_dir ?wa = wa_dir wa \<or> wa_dir ?wa = (wa_dir wa)(path := None)"
      using Some b by (cases r; simp add: applyOne_def Let_def regs_def [symmetric] dels_def [symmetric])+
    then show ?thesis using less keep unfolding drops_listed_def by fastforce
  qed
qed

lemma fold_drops:
  assumes "\<And>x wa. \<forall>p. listed_deleted (wa_dir wa) p \<longrightarrow> P p \<Longrightarrow> drops_listed P wa (g x wa)"
    and "\<forall>p. listed_deleted (wa_dir wa) p \<longrightarrow> P p"
  shows "drops_listed P wa (fold g xs wa)"
  using assms(2)
proof (induction xs arbitrary: wa)
  case (Cons x xs)
  have one: "drops_listed P wa (g x wa)" by (rule assms(1) [OF Cons.prems])
  then have "\<forall>p. listed_deleted (wa_dir (g x wa)) p \<longrightarrow> P p"
    using Cons.prems listed_deleted_mono unfolding drops_listed_def by blast
  from drops_listed_trans [OF one Cons.IH [OF this]] show ?case by simp
qed simp

lemma sweep_one_drops: "drops_listed P wa (sweep_one now t env path wa)"
  by (auto simp: sweep_one_def drops_listed_def map_le_def split: option.splits)

lemma watch_step_drops:
  assumes "\<forall>p. listed_deleted (wa_dir wa) p \<longrightarrow> P p" "\<forall>q m. e \<noteq> Advance q m"
  shows "drops_listed P wa (watch_step n listing e wa)"
proof (cases e)
  case (Poll env)
  then show ?thesis
    by (simp add: poll_def) (rule fold_drops, erule applyOne_drops, rule assms(1))
next
  case (Sweep now t env)
  then show ?thesis
    by (simp only: watch_step.simps CleanupOrphanedCompletionManifests_def Let_def)
      (rule fold_drops, rule sweep_one_drops, rule assms(1))
qed (use assms(2) in \<open>auto simp: restarted_def drops_listed_def\<close>)

lemma watch_steps_drop:
  assumes "\<forall>p. listed_deleted (wa_dir wa) p \<longrightarrow> P p" "list_all (\<lambda>e. case e of Advance _ _ \<Rightarrow> False | _ \<Rightarrow> True) es"
  shows "drops_listed P wa (fold (watch_step n listing) es wa)"
  using assms
proof (induction es arbitrary: wa)
  case (Cons e es)
  have "\<forall>q m. e \<noteq> Advance q m" using Cons.prems(2) by auto
  note one = watch_step_drops [OF Cons.prems(1) this]
  then have "\<forall>p. listed_deleted (wa_dir (watch_step n listing e wa)) p \<longrightarrow> P p"
    using Cons.prems(1) listed_deleted_mono unfolding drops_listed_def by blast
  from drops_listed_trans [OF one Cons.IH [OF this]] Cons.prems(2) show ?case by simp
qed simp

end
