(* ===== verification/Reconcile_Diff.thy ===== *)
theory Reconcile_Diff
  imports Compaction_Watcher
begin

text \<open>
  Reconciliation of the file manifest with the storage, first half
  (\<^verbatim>\<open>internal/reconciliation\<close>): the configuration, the walk over the storage (\<^verbatim>\<open>walk.go\<close>) and the
  difference of the two (\<^verbatim>\<open>diff.go\<close>).
\<close>

section \<open>Configuration\<close>

datatype backend_kind = BackendShared | BackendLocal | BackendStandalone

record rec_config =
  cf_Enabled :: bool
  cf_BackendKind :: backend_kind
  cf_LocalNodeID :: string
  cf_GraceWindow :: int
  cf_ClockSkewAllowance :: int
  cf_MaxManifestSize :: int
  cf_MaxDeletesPerRun :: int
  cf_BatchSize :: int
  cf_DeletePreManifestOrphans :: bool
  cf_SamplePathsCap :: int
  cf_MaxRootWalkDatabases :: int

definition maxRootWalkDatabasesCap :: int where "maxRootWalkDatabasesCap = 1000000"

text \<open>Durations in nanoseconds; the timeouts of calls and the number of workers are left out.\<close>

definition applyDefaults :: "rec_config \<Rightarrow> rec_config" where
  "applyDefaults c =
     c\<lparr>cf_GraceWindow := (if cf_GraceWindow c \<le> 0 then 24 * 3600 * 1000000000 else cf_GraceWindow c),
       cf_ClockSkewAllowance := (if cf_ClockSkewAllowance c \<le> 0 then 300 * 1000000000 else cf_ClockSkewAllowance c),
       cf_MaxManifestSize := (if cf_MaxManifestSize c \<le> 0 then 200000 else cf_MaxManifestSize c),
       cf_MaxDeletesPerRun := (if cf_MaxDeletesPerRun c \<le> 0 then 10000 else cf_MaxDeletesPerRun c),
       cf_BatchSize := (if cf_BatchSize c \<le> 0 then 1000 else cf_BatchSize c),
       cf_SamplePathsCap := (if cf_SamplePathsCap c \<le> 0 then 10 else cf_SamplePathsCap c),
       cf_MaxRootWalkDatabases :=
         (if cf_MaxRootWalkDatabases c < 0 then 1000
          else if maxRootWalkDatabasesCap < cf_MaxRootWalkDatabases c then maxRootWalkDatabasesCap
          else cf_MaxRootWalkDatabases c)\<rparr>"

section \<open>The manifest as keys\<close>

record object_key =
  ok_Path :: string
  ok_Database :: string
  ok_Measurement :: string
  ok_OriginNodeID :: string

definition fileEntriesToKeys :: "file_entry list \<Rightarrow> object_key list" where
  "fileEntriesToKeys entries =
     map (\<lambda>e. \<lparr>ok_Path = f_Path e, ok_Database = f_Database e, ok_Measurement = f_Measurement e, ok_OriginNodeID = f_OriginNodeID e\<rparr>) entries"

definition manifestToKeys :: "rec_config \<Rightarrow> object_key list \<Rightarrow> object_key list" where
  "manifestToKeys cfg keys =
     (if cf_BackendKind cfg \<noteq> BackendLocal then keys
      else filter (\<lambda>e. ok_OriginNodeID e = [] \<or> ok_OriginNodeID e = cf_LocalNodeID cfg) keys)"

datatype rec_error = ErrDisabled | ErrAlreadyRunning | ErrGated | ErrManifestTooLarge | ErrGateRevoked | CtxErr | ErrManifestApply

definition snapshotManifest :: "rec_config \<Rightarrow> bool \<Rightarrow> ranges \<Rightarrow> fsm \<Rightarrow> rec_error + file_entry list" where
  "snapshotManifest cfg ctx R f =
     (if \<not> ctx then Inl CtxErr
      else if cf_BackendKind cfg = BackendStandalone then Inr []
      else let m = GetAllFiles R f
           in if cf_MaxManifestSize cfg < int (length m) then Inl ErrManifestTooLarge else Inr m)"

section \<open>The walk\<close>

record object_record =
  or_path :: string
  or_lastModified :: "int option"

text \<open>\<^verbatim>\<open>strings.Split\<close> at a slash.\<close>

fun split_slash :: "string \<Rightarrow> string list" where
  "split_slash [] = [[]]"
| "split_slash (c # s) =
     (if c = CHR ''/'' then [] # split_slash s
      else case split_slash s of [] \<Rightarrow> [[c]] | x # xs \<Rightarrow> (c # x) # xs)"

definition has_prefix :: "string \<Rightarrow> string \<Rightarrow> bool" where
  "has_prefix pre s \<longleftrightarrow> take (length pre) s = pre"

definition isParquetCandidate :: "string \<Rightarrow> bool" where
  "isParquetCandidate p \<longleftrightarrow>
     has_suffix ''.parquet'' p \<and> \<not> (has_prefix ''.tmp.'' (Base p) \<or> has_prefix ''.'' (Base p)) \<and>
     ''_compaction_state'' \<notin> set (split_slash p)"

text \<open>
  What the walk meets: the order in which it ranges over its set of prefixes and in which the
  backend lists, whether the backend lists directories and modification times, what it answers
  to \<open>ListDirectories\<close>, the modification times, and where the context ends.
\<close>

record walk_env =
  wk_order :: "string set \<Rightarrow> string list"
  wk_listing :: "string set \<Rightarrow> string list"
  wk_hasDirs :: bool
  wk_hasObjects :: bool
  wk_dirs :: "string \<Rightarrow> string list option"
  wk_mtime :: "string \<Rightarrow> int option"
  wk_rootCtx :: "nat \<Rightarrow> bool"
  wk_prefixCtx :: "string \<Rightarrow> bool"

datatype run_error = RootListFailed | RootCanceled nat | InnerListFailed string | PrefixFailed string | ExistsFailed string | DeleteFailed string

definition trim_slash :: "string \<Rightarrow> string" where
  "trim_slash d = (if has_suffix ''/'' d then take (length d - 1) d else d)"

definition key_prefix :: "object_key \<Rightarrow> string" where
  "key_prefix e = ok_Database e @ ''/'' @ ok_Measurement e @ ''/''"

definition known_prefixes :: "object_key list \<Rightarrow> string set" where
  "known_prefixes keys = key_prefix ` set (filter (\<lambda>e. ok_Database e \<noteq> [] \<and> ok_Measurement e \<noteq> []) keys)"

definition known_databases :: "object_key list \<Rightarrow> string set" where
  "known_databases keys = (\<lambda>e. ok_Database e @ ''/'') ` set (filter (\<lambda>e. ok_Database e \<noteq> [] \<and> ok_Measurement e \<noteq> []) keys)"

type_synonym discovery = "string list \<times> bool \<times> run_error list"

text \<open>The loop over the top-level directories: \<open>i\<close> counts them, \<open>inspected\<close> the unknown ones.\<close>

fun root_walk :: "walk_env \<Rightarrow> nat \<Rightarrow> string set \<Rightarrow> string set \<Rightarrow> nat \<Rightarrow> nat \<Rightarrow> string list \<Rightarrow> discovery" where
  "root_walk V cap dbs pres i inspected [] = ([], False, [])"
| "root_walk V cap dbs pres i inspected (d # ds) =
     (if \<not> wk_rootCtx V i then ([], True, [RootCanceled i])
      else if cap \<le> inspected then ([], True, [])
      else let key = trim_slash d @ ''/''
           in if key \<in> dbs then root_walk V cap dbs pres (Suc i) inspected ds
              else (case wk_dirs V key of
                      None \<Rightarrow> (case root_walk V cap dbs pres (Suc i) (Suc inspected) ds of
                                 (ps, partial, es) \<Rightarrow> (ps, True, InnerListFailed key # es))
                    | Some ms \<Rightarrow>
                        (case root_walk V cap dbs pres (Suc i) (Suc inspected) ds of
                           (ps, partial, es) \<Rightarrow>
                             (filter (\<lambda>k. k \<notin> pres) (map (\<lambda>m. trim_slash d @ ''/'' @ trim_slash m @ ''/'') ms) @ ps, partial, es))))"

definition derivePrefixes :: "rec_config \<Rightarrow> walk_env \<Rightarrow> object_key list \<Rightarrow> discovery" where
  "derivePrefixes cfg V keys =
     (let pres = known_prefixes keys;
          known = wk_order V pres
      in if cf_MaxRootWalkDatabases cfg \<le> 0 \<or> \<not> wk_hasDirs V then (known, False, [])
         else case wk_dirs V [] of
                None \<Rightarrow> (known, True, [RootListFailed])
              | Some dirs \<Rightarrow>
                  let cap = nat (cf_MaxRootWalkDatabases cfg);
                      scanLimit = min (cap * 4) (length dirs)
                  in (case root_walk V cap (known_databases keys) pres 0 0 (take scanLimit dirs) of
                        (ps, partial, es) \<Rightarrow> (known @ ps, partial \<or> scanLimit < length dirs, es)))"

definition listPrefix :: "walk_env \<Rightarrow> string \<Rightarrow> 'c world \<Rightarrow> object_record list option \<times> 'c world" where
  "listPrefix V prefix w =
     (case be_list (wk_listing V) prefix w of
        (None, w1) \<Rightarrow> (None, w1)
      | (Some paths, w1) \<Rightarrow>
          (Some (map (\<lambda>p. \<lparr>or_path = p, or_lastModified = (if wk_hasObjects V then wk_mtime V p else None)\<rparr>)
             (filter isParquetCandidate paths)), w1))"

fun fresh_records :: "string set \<Rightarrow> object_record list \<Rightarrow> object_record list \<times> string set" where
  "fresh_records seen [] = ([], seen)"
| "fresh_records seen (r # rs) =
     (if or_path r \<in> seen then fresh_records seen rs
      else case fresh_records (insert (or_path r) seen) rs of (out, seen') \<Rightarrow> (r # out, seen'))"

text \<open>\<open>None\<close> for the records: the context ended.\<close>

fun walk_prefixes ::
  "walk_env \<Rightarrow> string list \<Rightarrow> string set \<Rightarrow> 'c world \<Rightarrow> (object_record list \<times> bool \<times> run_error list) option \<times> 'c world" where
  "walk_prefixes V [] seen w = (Some ([], False, []), w)"
| "walk_prefixes V (p # ps) seen w =
     (if \<not> wk_prefixCtx V p then (None, w)
      else case listPrefix V p w of
             (None, w1) \<Rightarrow>
               (case walk_prefixes V ps seen w1 of
                  (None, w2) \<Rightarrow> (None, w2)
                | (Some (rs, partial, es), w2) \<Rightarrow> (Some (rs, True, PrefixFailed p # es), w2))
           | (Some records, w1) \<Rightarrow>
               (case fresh_records seen records of
                  (new, seen') \<Rightarrow>
                    (case walk_prefixes V ps seen' w1 of
                       (None, w2) \<Rightarrow> (None, w2)
                     | (Some (rs, partial, es), w2) \<Rightarrow> (Some (new @ rs, partial, es), w2))))"

definition walkStorage ::
  "rec_config \<Rightarrow> walk_env \<Rightarrow> object_key list \<Rightarrow> 'c world \<Rightarrow> (object_record list \<times> bool \<times> run_error list) option \<times> 'c world" where
  "walkStorage cfg V keys w =
     (case derivePrefixes cfg V keys of
        (prefixes, partial, es) \<Rightarrow>
          (case walk_prefixes V prefixes {} w of
             (None, w1) \<Rightarrow> (None, w1)
           | (Some (rs, partial', es'), w1) \<Rightarrow> (Some (rs, partial \<or> partial', es @ es'), w1)))"

section \<open>The difference\<close>

definition isYoungerThan :: "int option \<Rightarrow> int \<Rightarrow> int \<Rightarrow> bool" where
  "isYoungerThan mtime now grace = (case mtime of None \<Rightarrow> True | Some t \<Rightarrow> now - t < grace)"

record diff_result =
  di_orphanManifest :: "string list"
  di_orphanStorage :: "object_record list"
  di_skippedGraceCount :: nat

fun scan_storage :: "int \<Rightarrow> int \<Rightarrow> object_record list \<Rightarrow> (string \<rightharpoonup> bool) \<Rightarrow> (string \<rightharpoonup> bool) \<times> nat \<times> object_record list" where
  "scan_storage now grace [] seen = (seen, 0, [])"
| "scan_storage now grace (r # rs) seen =
     (if seen (or_path r) \<noteq> None then scan_storage now grace rs (seen(or_path r \<mapsto> True))
      else case scan_storage now grace rs seen of
             (seen', young, out) \<Rightarrow>
               if isYoungerThan (or_lastModified r) now grace then (seen', Suc young, out)
               else (seen', young, r # out))"

definition computeDiff ::
  "(string set \<Rightarrow> string list) \<Rightarrow> object_key list \<Rightarrow> object_record list \<Rightarrow> int \<Rightarrow> int \<Rightarrow> diff_result" where
  "computeDiff order manifest storage now grace =
     (case scan_storage now grace storage (fold (\<lambda>e m. m(ok_Path e \<mapsto> False)) manifest Map.empty) of
        (seen, young, out) \<Rightarrow>
          \<lparr>di_orphanManifest = sort (filter (\<lambda>p. seen p = Some False) (order (dom seen))),
           di_orphanStorage = sort_key or_path out,
           di_skippedGraceCount = young\<rparr>)"

text \<open>The difference as sets.\<close>

lemma scan_storage_spec:
  "scan_storage now grace storage seen =
     ((\<lambda>p. if p \<in> or_path ` set storage \<and> seen p \<noteq> None then Some True else seen p),
      length (filter (\<lambda>r. seen (or_path r) = None \<and> isYoungerThan (or_lastModified r) now grace) storage),
      filter (\<lambda>r. seen (or_path r) = None \<and> \<not> isYoungerThan (or_lastModified r) now grace) storage)"
proof (induction storage arbitrary: seen)
  case (Cons r rs)
  show ?case
  proof (cases "seen (or_path r)")
    case None
    then show ?thesis using Cons [of seen] by (auto split: if_splits)
  next
    case (Some b)
    then have same: "((seen(or_path r \<mapsto> True)) x = None) = (seen x = None)" for x by auto
    have "scan_storage now grace (r # rs) seen = scan_storage now grace rs (seen(or_path r \<mapsto> True))" using Some by simp
    also have "\<dots> = ((\<lambda>p. if p \<in> or_path ` set (r # rs) \<and> seen p \<noteq> None then Some True else seen p),
        length (filter (\<lambda>r. seen (or_path r) = None \<and> isYoungerThan (or_lastModified r) now grace) rs),
        filter (\<lambda>r. seen (or_path r) = None \<and> \<not> isYoungerThan (or_lastModified r) now grace) rs)"
      unfolding Cons same using Some by auto
    finally show ?thesis using Some by simp
  qed
qed simp

lemma manifest_seen_from:
  "fold (\<lambda>e m. m(ok_Path e \<mapsto> False)) keys m0 = (\<lambda>p. if p \<in> ok_Path ` set keys then Some False else m0 p)"
  by (induction keys arbitrary: m0) auto

lemma manifest_seen:
  "fold (\<lambda>e m. m(ok_Path e \<mapsto> False)) keys Map.empty = (\<lambda>p. if p \<in> ok_Path ` set keys then Some False else None)"
  by (simp add: manifest_seen_from)

lemma computeDiff_spec:
  assumes "lists_set order"
  shows "set (di_orphanManifest (computeDiff order manifest storage now grace)) = ok_Path ` set manifest - or_path ` set storage"
    and "sorted (di_orphanManifest (computeDiff order manifest storage now grace))"
    and "distinct (di_orphanManifest (computeDiff order manifest storage now grace))"
    and "set (di_orphanStorage (computeDiff order manifest storage now grace)) =
      {r \<in> set storage. or_path r \<notin> ok_Path ` set manifest \<and> \<not> isYoungerThan (or_lastModified r) now grace}"
proof -
  let ?seen = "\<lambda>p. if p \<in> or_path ` set storage \<and> p \<in> ok_Path ` set manifest then Some True
      else if p \<in> ok_Path ` set manifest then Some False else None"
  have none: "((if p \<in> ok_Path ` set manifest then Some False else None) = None) = (p \<notin> ok_Path ` set manifest)" for p by simp
  have d: "computeDiff order manifest storage now grace =
      \<lparr>di_orphanManifest = sort (filter (\<lambda>p. ?seen p = Some False) (order (dom ?seen))),
       di_orphanStorage = sort_key or_path (filter (\<lambda>r. or_path r \<notin> ok_Path ` set manifest \<and> \<not> isYoungerThan (or_lastModified r) now grace) storage),
       di_skippedGraceCount = length (filter (\<lambda>r. or_path r \<notin> ok_Path ` set manifest \<and> isYoungerThan (or_lastModified r) now grace) storage)\<rparr>"
    unfolding computeDiff_def scan_storage_spec manifest_seen by (simp only: none not_not prod.case)
  have dom: "dom ?seen = ok_Path ` set manifest" by (auto split: if_splits)
  then have "set (order (dom ?seen)) = ok_Path ` set manifest" "distinct (order (dom ?seen))"
    using assms by (auto simp: lists_set_def)
  then show "set (di_orphanManifest (computeDiff order manifest storage now grace)) = ok_Path ` set manifest - or_path ` set storage"
      "sorted (di_orphanManifest (computeDiff order manifest storage now grace))"
      "distinct (di_orphanManifest (computeDiff order manifest storage now grace))"
    unfolding d by (auto split: if_splits)
  show "set (di_orphanStorage (computeDiff order manifest storage now grace)) =
      {r \<in> set storage. or_path r \<notin> ok_Path ` set manifest \<and> \<not> isYoungerThan (or_lastModified r) now grace}"
    unfolding d by auto
qed

end
