(* ===== verification/Reconcile_Sweep.thy ===== *)
theory Reconcile_Sweep
  imports Reconcile_Diff
begin

text \<open>
  Reconciliation, second half: the sweeps over the two kinds of orphans (\<^verbatim>\<open>sweep_manifest.go\<close>,
  \<^verbatim>\<open>sweep_storage.go\<close>) and a whole run (\<^verbatim>\<open>reconciler.go\<close>).  Other nodes and other parts of this
  node go on changing the file manifest and the storage: before every chunk of a sweep the state
  is what an arbitrary function makes of it.
\<close>

section \<open>Runs\<close>

datatype abort_reason = AbortRaftQuorumLoss | AbortLeaseLost | AbortCtxCanceled | AbortManifestTooLarge | AbortUnknown

record run =
  ru_ID :: string
  ru_DryRun :: bool
  ru_BackendKind :: backend_kind
  ru_ManifestFileCount :: int
  ru_StorageFileCount :: int
  ru_OrphanManifestCount :: int
  ru_OrphanStorageCount :: int
  ru_ManifestDeletes :: int
  ru_StorageDeletes :: int
  ru_SkippedGrace :: int
  ru_SkippedRecheck :: int
  ru_OrphanManifestSample :: "string list"
  ru_OrphanStorageSample :: "string list"
  ru_Errors :: "run_error list"
  ru_Aborted :: "abort_reason option"
  ru_CapHit :: bool
  ru_WalkPartial :: bool

definition appendBounded :: "'a list \<Rightarrow> 'a \<Rightarrow> int \<Rightarrow> 'a list" where
  "appendBounded s msg limit = (if 0 < limit \<and> limit \<le> int (length s) then s else s @ [msg])"

definition sampleSlice :: "'a list \<Rightarrow> int \<Rightarrow> ('a \<Rightarrow> string) \<Rightarrow> string list" where
  "sampleSlice xs limit key =
     (if xs = [] then []
      else let n = (if limit \<le> 0 \<or> int (length xs) < limit then length xs else nat limit) in map key (take n xs))"

definition note_error :: "run_error \<Rightarrow> run \<Rightarrow> run" where
  "note_error e r = r\<lparr>ru_Errors := appendBounded (ru_Errors r) e 32\<rparr>"

definition markAborted :: "rec_error \<Rightarrow> run \<Rightarrow> run" where
  "markAborted e r =
     r\<lparr>ru_Aborted := Some (case e of
         ErrManifestTooLarge \<Rightarrow> AbortManifestTooLarge
       | CtxErr \<Rightarrow> AbortCtxCanceled
       | ErrGateRevoked \<Rightarrow> AbortLeaseLost
       | ErrManifestApply \<Rightarrow> AbortRaftQuorumLoss
       | _ \<Rightarrow> AbortUnknown)\<rparr>"

section \<open>Sweeps\<close>

function chunks_of :: "nat \<Rightarrow> 'a list \<Rightarrow> 'a list list" where
  "chunks_of n xs = (if xs = [] \<or> n = 0 then [] else take n xs # chunks_of n (drop n xs))"
  by auto
termination by (relation "measure (length \<circ> snd)") auto

declare chunks_of.simps [simp del]

definition batch_size :: "rec_config \<Rightarrow> nat" where
  "batch_size cfg = (if cf_BatchSize cfg \<le> 0 then 1000 else nat (cf_BatchSize cfg))"

text \<open>
  What a chunk meets: whether the context is alive and the gate open, what others did to the
  manifest and the storage since the chunk before, and what becomes of the batch.
\<close>

record chunk_env =
  ch_ctx :: bool
  ch_gate :: bool
  ch_fsm :: "fsm \<Rightarrow> fsm"
  ch_store :: "(string \<rightharpoonup> bytes) \<Rightarrow> (string \<rightharpoonup> bytes)"
  ch_raft :: raft_answer

datatype flow = Continue | StopSweep | AbortSweep rec_error

type_synonym 'c sweep_state = "run \<times> fsm \<times> 'c world"

definition deletes_so_far :: "run \<Rightarrow> int" where
  "deletes_so_far r = ru_ManifestDeletes r + ru_StorageDeletes r"

definition cap_flow :: "bool \<Rightarrow> flow" where
  "cap_flow capReached = (if capReached then StopSweep else Continue)"

subsection \<open>Manifest entries without an object\<close>

text \<open>\<open>parallelExists\<close>; an error is \<open>None\<close>.\<close>

fun parallelExists :: "string list \<Rightarrow> 'c world \<Rightarrow> bool option list \<times> 'c world" where
  "parallelExists [] w = ([], w)"
| "parallelExists (p # ps) w =
     (case be_exists p w of (r, w1) \<Rightarrow> (case parallelExists ps w1 of (rs, w2) \<Rightarrow> (r # rs, w2)))"

definition recheck_paths :: "rec_config \<Rightarrow> run \<Rightarrow> string list \<Rightarrow> string list" where
  "recheck_paths cfg r chunk =
     (let remainingCap = cf_MaxDeletesPerRun cfg - deletes_so_far r
      in if remainingCap < int (length chunk) then take (nat remainingCap) chunk else chunk)"

fun count_recheck :: "(string \<times> bool option) list \<Rightarrow> run \<Rightarrow> run" where
  "count_recheck [] r = r"
| "count_recheck ((p, None) # xs) r = count_recheck xs (note_error (ExistsFailed p) r)"
| "count_recheck ((p, Some True) # xs) r = count_recheck xs (r\<lparr>ru_SkippedRecheck := ru_SkippedRecheck r + 1\<rparr>)"
| "count_recheck ((p, Some False) # xs) r = count_recheck xs r"

definition absent_paths :: "(string \<times> bool option) list \<Rightarrow> string list" where
  "absent_paths xs = map fst (filter (\<lambda>x. snd x = Some False) xs)"

definition reconcile_reason :: string where
  "reconcile_reason = ''reconcile-orphan-manifest''"

definition delete_ops :: "string list \<Rightarrow> batch_op list" where
  "delete_ops ps = map (\<lambda>p. BatchDelete (Some \<lparr>df_Path = p, df_Reason = reconcile_reason\<rparr>)) ps"

definition manifest_chunk :: "rec_config \<Rightarrow> bool \<Rightarrow> chunk_env \<Rightarrow> string list \<Rightarrow> 'c sweep_state \<Rightarrow> flow \<times> 'c sweep_state" where
  "manifest_chunk cfg dryRun env chunk s =
     (case s of (r, f, w) \<Rightarrow>
        if \<not> ch_ctx env then (AbortSweep CtxErr, s)
        else if \<not> ch_gate env then (AbortSweep ErrGateRevoked, s)
        else if cf_MaxDeletesPerRun cfg \<le> deletes_so_far r then (StopSweep, r\<lparr>ru_CapHit := True\<rparr>, f, w)
        else
          let capReached = cf_MaxDeletesPerRun cfg - deletes_so_far r < int (length chunk);
              paths = recheck_paths cfg r chunk
          in (case parallelExists paths w of (results, w1) \<Rightarrow>
                let found = zip paths results;
                    r1 = count_recheck found r;
                    r2 = (if capReached then r1\<lparr>ru_CapHit := True\<rparr> else r1);
                    applied = absent_paths found;
                    r3 = r2\<lparr>ru_ManifestDeletes := ru_ManifestDeletes r2 + int (length applied)\<rparr>
                in if applied = [] then (cap_flow capReached, r2, f, w1)
                   else if dryRun then (cap_flow capReached, r3, f, w1)
                   else (case BatchFileOpsInManifest (ch_raft env) (delete_ops applied) f of
                           (BridgeOk, f1) \<Rightarrow> (cap_flow capReached, r3, f1, w1)
                         | (_, f1) \<Rightarrow> (AbortSweep ErrManifestApply, r2, f1, w1))))"

definition interfere :: "chunk_env \<Rightarrow> 'c sweep_state \<Rightarrow> 'c sweep_state" where
  "interfere env s = (case s of (r, f, w) \<Rightarrow> (r, ch_fsm env f, w\<lparr>w_store := ch_store env (w_store w)\<rparr>))"

text \<open>The loop over the chunks; \<open>i\<close> counts them.\<close>

fun sweep_chunks ::
  "(chunk_env \<Rightarrow> 'a list \<Rightarrow> 'c sweep_state \<Rightarrow> flow \<times> 'c sweep_state) \<Rightarrow> (nat \<Rightarrow> chunk_env) \<Rightarrow> nat \<Rightarrow> 'a list list \<Rightarrow>
   'c sweep_state \<Rightarrow> rec_error option \<times> 'c sweep_state" where
  "sweep_chunks body env i [] s = (None, s)"
| "sweep_chunks body env i (chunk # chunks) s =
     (case body (env i) chunk (interfere (env i) s) of
        (Continue, s1) \<Rightarrow> sweep_chunks body env (Suc i) chunks s1
      | (StopSweep, s1) \<Rightarrow> (None, s1)
      | (AbortSweep e, s1) \<Rightarrow> (Some e, s1))"

definition sweepOrphanManifest ::
  "rec_config \<Rightarrow> bool \<Rightarrow> (nat \<Rightarrow> chunk_env) \<Rightarrow> string list \<Rightarrow> 'c sweep_state \<Rightarrow> rec_error option \<times> 'c sweep_state" where
  "sweepOrphanManifest cfg dryRun env paths s =
     (if paths = [] \<or> cf_BackendKind cfg = BackendStandalone then (None, s)
      else sweep_chunks (manifest_chunk cfg dryRun) env 0 (chunks_of (batch_size cfg) paths) s)"

subsection \<open>Objects without a manifest entry\<close>

definition looksLikeManagedPath :: "string \<Rightarrow> bool" where
  "looksLikeManagedPath p \<longleftrightarrow>
     7 \<le> length (split_slash p) \<and> list_all (\<lambda>seg. seg \<noteq> [] \<and> seg \<noteq> ''.'' \<and> seg \<noteq> ''..'') (split_slash p)"

text \<open>
  The candidates of a chunk that the manifest still does not know, up to the rest of the cap; the
  number of those it knows by now; whether the cap ended the choice.
\<close>

fun pick_deletes :: "nat \<Rightarrow> fsm \<Rightarrow> string list \<Rightarrow> string list \<times> nat \<times> bool" where
  "pick_deletes remaining f [] = ([], 0, False)"
| "pick_deletes remaining f (p # ps) =
     (if remaining = 0 then ([], 0, True)
      else if GetFile p f \<noteq> None
      then (case pick_deletes remaining f ps of (ds, k, cap) \<Rightarrow> (ds, Suc k, cap))
      else (case pick_deletes (remaining - 1) f ps of (ds, k, cap) \<Rightarrow> (p # ds, k, cap)))"

text \<open>The deletes one by one: how many succeeded, and the errors.\<close>

fun delete_each :: "string list \<Rightarrow> run \<Rightarrow> 'c world \<Rightarrow> int \<times> run \<times> 'c world" where
  "delete_each [] r w = (0, r, w)"
| "delete_each (p # ps) r w =
     (case be_delete p w of
        (False, w1) \<Rightarrow> delete_each ps (note_error (DeleteFailed p) r) w1
      | (True, w1) \<Rightarrow> (case delete_each ps r w1 of (n, r2, w2) \<Rightarrow> (n + 1, r2, w2)))"

definition applyStorageDeletes :: "bool \<Rightarrow> string list \<Rightarrow> run \<Rightarrow> 'c world \<Rightarrow> int \<times> run \<times> 'c world" where
  "applyStorageDeletes hasBatchDelete paths r w =
     (if hasBatchDelete \<and> 1 < length paths
      then (case be_delete_batch paths w of
              (True, w1) \<Rightarrow> (int (length paths), r, w1)
            | (False, w1) \<Rightarrow> delete_each paths r w1)
      else delete_each paths r w)"

definition storage_chunk ::
  "rec_config \<Rightarrow> bool \<Rightarrow> bool \<Rightarrow> chunk_env \<Rightarrow> object_record list \<Rightarrow> 'c sweep_state \<Rightarrow> flow \<times> 'c sweep_state" where
  "storage_chunk cfg hasBatchDelete dryRun env chunk s =
     (case s of (r, f, w) \<Rightarrow>
        if \<not> ch_ctx env then (AbortSweep CtxErr, s)
        else if \<not> ch_gate env then (AbortSweep ErrGateRevoked, s)
        else if cf_MaxDeletesPerRun cfg \<le> deletes_so_far r then (StopSweep, r\<lparr>ru_CapHit := True\<rparr>, f, w)
        else
          (case pick_deletes (nat (cf_MaxDeletesPerRun cfg - deletes_so_far r)) f (map or_path chunk) of
             (toDelete, skipped, capReached) \<Rightarrow>
               let r1 = r\<lparr>ru_SkippedRecheck := ru_SkippedRecheck r + int skipped\<rparr>;
                   capped = (\<lambda>r. if capReached then r\<lparr>ru_CapHit := True\<rparr> else r)
               in if toDelete = [] then (cap_flow capReached, capped r1, f, w)
                  else if dryRun
                  then (cap_flow capReached, capped (r1\<lparr>ru_StorageDeletes := ru_StorageDeletes r1 + int (length toDelete)\<rparr>), f, w)
                  else (case applyStorageDeletes hasBatchDelete toDelete r1 w of
                          (n, r2, w1) \<Rightarrow>
                            (cap_flow capReached, capped (r2\<lparr>ru_StorageDeletes := ru_StorageDeletes r2 + n\<rparr>), f, w1))))"

definition storage_candidates :: "rec_config \<Rightarrow> object_record list \<Rightarrow> object_record list" where
  "storage_candidates cfg cs = filter (\<lambda>c. cf_DeletePreManifestOrphans cfg \<or> looksLikeManagedPath (or_path c)) cs"

definition sweepOrphanStorage ::
  "rec_config \<Rightarrow> bool \<Rightarrow> bool \<Rightarrow> (nat \<Rightarrow> chunk_env) \<Rightarrow> object_record list \<Rightarrow> 'c sweep_state \<Rightarrow> rec_error option \<times> 'c sweep_state" where
  "sweepOrphanStorage cfg hasBatchDelete dryRun env candidates s =
     (if candidates = [] \<or> cf_BackendKind cfg = BackendStandalone then (None, s)
      else sweep_chunks (storage_chunk cfg hasBatchDelete dryRun) env 0
             (chunks_of (batch_size cfg) (storage_candidates cfg candidates)) s)"

section \<open>A run\<close>

record rec_env =
  re_id :: string
  re_gateStorage :: bool
  re_gateManifest :: bool
  re_ctx :: bool
  re_ranges :: ranges
  re_walk :: walk_env
  re_during :: chunk_env
  re_now :: int
  re_order :: "string set \<Rightarrow> string list"
  re_manifest :: "nat \<Rightarrow> chunk_env"
  re_storage :: "nat \<Rightarrow> chunk_env"
  re_hasBatchDelete :: bool

definition new_run :: "rec_config \<Rightarrow> bool \<Rightarrow> string \<Rightarrow> run" where
  "new_run cfg dryRun runID =
     \<lparr>ru_ID = runID, ru_DryRun = dryRun, ru_BackendKind = cf_BackendKind cfg, ru_ManifestFileCount = 0, ru_StorageFileCount = 0,
      ru_OrphanManifestCount = 0, ru_OrphanStorageCount = 0, ru_ManifestDeletes = 0, ru_StorageDeletes = 0, ru_SkippedGrace = 0,
      ru_SkippedRecheck = 0, ru_OrphanManifestSample = [], ru_OrphanStorageSample = [], ru_Errors = [], ru_Aborted = None,
      ru_CapHit = False, ru_WalkPartial = False\<rparr>"

definition with_diff :: "rec_config \<Rightarrow> diff_result \<Rightarrow> run \<Rightarrow> run" where
  "with_diff cfg d r =
     r\<lparr>ru_OrphanManifestCount := int (length (di_orphanManifest d)),
       ru_OrphanStorageCount := int (length (di_orphanStorage d)),
       ru_SkippedGrace := int (di_skippedGraceCount d),
       ru_OrphanManifestSample := sampleSlice (di_orphanManifest d) (cf_SamplePathsCap cfg) (\<lambda>s. s),
       ru_OrphanStorageSample := sampleSlice (di_orphanStorage d) (cf_SamplePathsCap cfg) or_path\<rparr>"

definition finish_sweep :: "rec_error option \<times> 'c sweep_state \<Rightarrow> rec_error option \<times> run option \<times> fsm \<times> 'c world" where
  "finish_sweep x =
     (case x of
        (None, r, f, w) \<Rightarrow> (None, Some r, f, w)
      | (Some e, r, f, w) \<Rightarrow> (Some e, Some (markAborted e r), f, w))"

text \<open>The sweeps, from the difference on.\<close>

definition reconcile_sweeps ::
  "rec_config \<Rightarrow> bool \<Rightarrow> rec_env \<Rightarrow> diff_result \<Rightarrow> 'c sweep_state \<Rightarrow> rec_error option \<times> run option \<times> fsm \<times> 'c world" where
  "reconcile_sweeps cfg dryRun E d s =
     (case sweepOrphanManifest cfg dryRun (re_manifest E) (di_orphanManifest d) s of
        (Some e, s1) \<Rightarrow> finish_sweep (Some e, s1)
      | (None, s1) \<Rightarrow> finish_sweep (sweepOrphanStorage cfg (re_hasBatchDelete E) dryRun (re_storage E) (di_orphanStorage d) s1))"

definition Reconcile ::
  "rec_config \<Rightarrow> bool \<Rightarrow> bool \<Rightarrow> rec_env \<Rightarrow> fsm \<Rightarrow> 'c world \<Rightarrow> rec_error option \<times> run option \<times> fsm \<times> 'c world" where
  "Reconcile cfg running dryRun E f w =
     (if \<not> cf_Enabled cfg then (Some ErrDisabled, None, f, w)
      else if running then (Some ErrAlreadyRunning, None, f, w)
      else if \<not> re_gateStorage E \<and> \<not> re_gateManifest E then (Some ErrGated, None, f, w)
      else
        let r = new_run cfg dryRun (re_id E)
        in (case snapshotManifest cfg (re_ctx E) (re_ranges E) f of
              Inl e \<Rightarrow> (Some e, Some (markAborted e r), f, w)
            | Inr m \<Rightarrow>
                let r1 = r\<lparr>ru_ManifestFileCount := int (length m)\<rparr>;
                    keys = manifestToKeys cfg (fileEntriesToKeys m)
                in (case walkStorage cfg (re_walk E) keys w of
                      (None, w1) \<Rightarrow> (Some CtxErr, Some (markAborted CtxErr r1), f, w1)
                    | (Some (records, partial, errors), w1) \<Rightarrow>
                        let r2 = fold note_error errors (r1\<lparr>ru_StorageFileCount := int (length records), ru_WalkPartial := partial\<rparr>);
                            d = computeDiff (re_order E) keys records (re_now E) (cf_GraceWindow cfg + cf_ClockSkewAllowance cfg)
                        in reconcile_sweeps cfg dryRun E d (interfere (re_during E) (with_diff cfg d r2, f, w1)))))"

section \<open>What the parts of a sweep do\<close>

lemma sweep_chunks_invariant:
  assumes "sweep_chunks body env i chunks s = (e, s')" "I s"
    and "\<And>k s. I s \<Longrightarrow> I (interfere (env k) s)"
    and "\<And>k chunk s fl s'. body (env k) chunk s = (fl, s') \<Longrightarrow> chunk \<in> set chunks \<Longrightarrow> I s \<Longrightarrow> I s'"
  shows "I s'"
  using assms(1,2,4)
proof (induction chunks arbitrary: i s)
  case (Cons chunk chunks)
  obtain fl s1 where b: "body (env i) chunk (interfere (env i) s) = (fl, s1)" by (cases "body (env i) chunk (interfere (env i) s)")
  have s1: "I s1" by (rule Cons.prems(3) [OF b]) (use assms(3) Cons.prems(2) in auto)
  show ?case
  proof (cases fl)
    case Continue
    then have "sweep_chunks body env (Suc i) chunks s1 = (e, s')" using Cons.prems(1) b by simp
    from Cons.IH [OF this s1] Cons.prems(3) show ?thesis by simp
  qed (use Cons.prems(1) b s1 in auto)
qed simp

lemma concat_chunks_of: "0 < n \<Longrightarrow> concat (chunks_of n xs) = xs"
  by (induction n xs rule: chunks_of.induct) (subst chunks_of.simps, auto)

lemma chunks_subset: "chunk \<in> set (chunks_of n xs) \<Longrightarrow> set chunk \<subseteq> set xs"
proof (induction n xs rule: chunks_of.induct)
  case (1 n xs)
  then show ?case by (subst (asm) chunks_of.simps) (auto split: if_splits dest: in_set_takeD in_set_dropD)
qed

lemma batch_size_pos: "0 < batch_size cfg"
  by (simp add: batch_size_def)

lemma note_error_simps [simp]:
  "deletes_so_far (note_error e r) = deletes_so_far r" "ru_ManifestDeletes (note_error e r) = ru_ManifestDeletes r"
  "ru_StorageDeletes (note_error e r) = ru_StorageDeletes r" "ru_CapHit (note_error e r) = ru_CapHit r"
  by (simp_all add: note_error_def deletes_so_far_def)

lemma count_recheck_simps [simp]:
  "ru_ManifestDeletes (count_recheck xs r) = ru_ManifestDeletes r" "ru_StorageDeletes (count_recheck xs r) = ru_StorageDeletes r"
  by (induction xs r rule: count_recheck.induct) simp_all

lemma parallelExists_stores:
  "parallelExists ps w = (rs, w1) \<Longrightarrow> stores w1 = stores w \<and> length rs = length ps \<and>
     (\<forall>x\<in>set (zip ps rs). snd x = None \<or> snd x = Some (w_store w (fst x) \<noteq> None))"
proof (induction ps arbitrary: w rs)
  case (Cons p ps)
  obtain r w2 where b: "be_exists p w = (r, w2)" by (cases "be_exists p w")
  obtain rs' where rest: "parallelExists ps w2 = (rs', w1)" "rs = r # rs'"
    using Cons.prems b by (auto split: prod.splits)
  from be_exists_cases [OF b, of True] Cons.IH [OF rest(1)] rest(2) show ?case by (auto simp: stores_def)
qed simp

lemma absent_paths_gone:
  assumes "parallelExists ps w = (rs, w1)" "p \<in> set (absent_paths (zip ps rs))"
  shows "p \<in> set ps" "w_store w p = None"
  using assms parallelExists_stores [OF assms(1)] by (auto simp: absent_paths_def dest: set_zip_leftD)

lemma length_absent: "length (absent_paths (zip ps rs)) \<le> length ps"
  unfolding absent_paths_def length_map by (rule order_trans [OF length_filter_le]) simp

text \<open>A batch of deletions, committed or not, removes nothing but its paths.\<close>

lemma delete_ops_bridge: "delete_ops ps = bridge_ops n [] (map (\<lambda>p. (p, reconcile_reason)) ps)"
  by (simp add: delete_ops_def bridge_ops_def)

lemma batch_deletes_listed:
  assumes "BatchFileOpsInManifest ans (delete_ops ps) f = (r, f')" "files f p \<noteq> None" "files f' p = None"
  shows "p \<in> set ps"
  using assms batch_removes [of f p "[]" "[]" "map (\<lambda>p. (p, reconcile_reason)) ps"] delete_ops_bridge [of ps "[]"]
  by (auto simp: BatchFileOpsInManifest_def Let_def image_image split: raft_answer.splits if_splits)

text \<open>One chunk of the first sweep: what it removes it has seen absent, and it counts within the cap.\<close>

lemma manifest_chunk_effect:
  assumes "manifest_chunk cfg dryRun env chunk (r, f, w) = (fl, r', f', w')"
  shows "stores w' = stores w"
    and "files f p \<noteq> None \<Longrightarrow> files f' p = None \<Longrightarrow> w_store w p = None \<and> \<not> dryRun"
    and "ru_StorageDeletes r' = ru_StorageDeletes r" "ru_ManifestDeletes r \<le> ru_ManifestDeletes r'"
    and "deletes_so_far r \<le> cf_MaxDeletesPerRun cfg \<Longrightarrow> deletes_so_far r' \<le> cf_MaxDeletesPerRun cfg"
proof -
  let ?paths = "recheck_paths cfg r chunk"
  obtain rs w1 where x: "parallelExists ?paths w = (rs, w1)" by (cases "parallelExists ?paths w")
  let ?found = "zip ?paths rs"
  let ?applied = "absent_paths ?found"
  obtain br f1 where b: "BatchFileOpsInManifest (ch_raft env) (delete_ops ?applied) f = (br, f1)"
    by (cases "BatchFileOpsInManifest (ch_raft env) (delete_ops ?applied) f")
  note st = parallelExists_stores [OF x]
  have len: "deletes_so_far r \<le> cf_MaxDeletesPerRun cfg \<Longrightarrow> deletes_so_far r + int (length ?applied) \<le> cf_MaxDeletesPerRun cfg"
    using length_absent [of ?paths rs] by (auto simp: recheck_paths_def Let_def split: if_splits)
  note defs = assms [unfolded manifest_chunk_def Let_def prod.case x]
  show "stores w' = stores w" using defs st b by (auto split: if_splits prod.splits bridge_result.splits)
  show "w_store w p = None \<and> \<not> dryRun" if "files f p \<noteq> None" "files f' p = None"
  proof -
    have "f' = f1 \<and> \<not> dryRun" using defs that b by (auto split: if_splits prod.splits bridge_result.splits)
    then show ?thesis using batch_deletes_listed [OF b that(1)] that(2) absent_paths_gone(2) [OF x] by blast
  qed
  show "ru_StorageDeletes r' = ru_StorageDeletes r" "ru_ManifestDeletes r \<le> ru_ManifestDeletes r'"
    "deletes_so_far r \<le> cf_MaxDeletesPerRun cfg \<Longrightarrow> deletes_so_far r' \<le> cf_MaxDeletesPerRun cfg"
    using defs b len by (auto simp: deletes_so_far_def split: if_splits prod.splits bridge_result.splits)
qed

text \<open>One chunk of the second sweep.\<close>

lemma pick_deletes_spec:
  "pick_deletes n f ps = (ds, k, cap) \<Longrightarrow> set ds \<subseteq> {p \<in> set ps. files f p = None} \<and> length ds \<le> n"
proof (induction ps arbitrary: n ds k cap)
  case (Cons p ps)
  consider "n = 0" | "n \<noteq> 0" "files f p \<noteq> None" | "n \<noteq> 0" "files f p = None" by blast
  then show ?case
  proof cases
    case 2
    obtain k' where "pick_deletes n f ps = (ds, k', cap)" using Cons.prems 2 by (auto simp: GetFile_def split: prod.splits)
    from Cons.IH [OF this] show ?thesis by auto
  next
    case 3
    obtain ds' where d: "pick_deletes (n - 1) f ps = (ds', k, cap)" "ds = p # ds'"
      using Cons.prems 3 by (auto simp: GetFile_def split: prod.splits)
    from Cons.IH [OF d(1)] d(2) 3 show ?thesis by auto
  qed (use Cons.prems in auto)
qed simp

lemma delete_each_effect:
  "delete_each ps r w = (n, r', w') \<Longrightarrow> w_comp w' = w_comp w \<and> 0 \<le> n \<and> n \<le> int (length ps) \<and>
     deletes_so_far r' = deletes_so_far r \<and> ru_ManifestDeletes r' = ru_ManifestDeletes r \<and> ru_StorageDeletes r' = ru_StorageDeletes r \<and>
     (\<forall>p. w_store w p \<noteq> None \<longrightarrow> w_store w' p = None \<longrightarrow> p \<in> set ps)"
proof (induction ps arbitrary: n r w)
  case (Cons q ps)
  obtain ok w1 where d: "be_delete q w = (ok, w1)" by (cases "be_delete q w")
  note c = be_delete_cases [OF d, of True]
  have one: "w_comp w1 = w_comp w \<and> (\<forall>p. w_store w p \<noteq> None \<longrightarrow> w_store w1 p = None \<longrightarrow> p = q)"
    using c by (auto simp: drop_keys_def restrict_map_def split: if_splits)
  show ?case
  proof (cases ok)
    case False
    then have "delete_each ps (note_error (DeleteFailed q) r) w1 = (n, r', w')" using Cons.prems d by simp
    from Cons.IH [OF this] one show ?thesis by auto
  next
    case True
    then obtain n' where "delete_each ps r w1 = (n', r', w')" "n = n' + 1" using Cons.prems d by (auto split: prod.splits)
    from Cons.IH [OF this(1)] one this(2) show ?thesis by auto
  qed
qed simp

lemma applyStorageDeletes_effect:
  assumes "applyStorageDeletes hb ps r w = (n, r', w')"
  shows "w_comp w' = w_comp w \<and> 0 \<le> n \<and> n \<le> int (length ps) \<and> deletes_so_far r' = deletes_so_far r \<and>
    ru_ManifestDeletes r' = ru_ManifestDeletes r \<and> ru_StorageDeletes r' = ru_StorageDeletes r \<and>
    (\<forall>p. w_store w p \<noteq> None \<longrightarrow> w_store w' p = None \<longrightarrow> p \<in> set ps)"
proof (cases "hb \<and> 1 < length ps")
  case False
  then show ?thesis using assms delete_each_effect by (simp add: applyStorageDeletes_def split: if_splits)
next
  case True
  obtain ok w1 where d: "be_delete_batch ps w = (ok, w1)" by (cases "be_delete_batch ps w")
  have one: "w_comp w1 = w_comp w \<and> (\<forall>p. w_store w p \<noteq> None \<longrightarrow> w_store w1 p = None \<longrightarrow> p \<in> set ps)"
    using be_delete_batch_cases [OF d, of True] by (auto simp: drop_keys_def restrict_map_def split: if_splits)
  show ?thesis
  proof (cases ok)
    case False
    then have "delete_each ps r w1 = (n, r', w')" using assms True d by (simp add: applyStorageDeletes_def)
    from delete_each_effect [OF this] one show ?thesis by auto
  next
    case ok: True
    then show ?thesis using assms True d one by (auto simp: applyStorageDeletes_def)
  qed
qed

lemma storage_chunk_effect:
  assumes "storage_chunk cfg hb dryRun env chunk (r, f, w) = (fl, r', f', w')"
  shows "f' = f"
    and "w_store w p \<noteq> None \<Longrightarrow> w_store w' p = None \<Longrightarrow> p \<in> or_path ` set chunk \<and> files f p = None \<and> \<not> dryRun"
    and "deletes_so_far r \<le> cf_MaxDeletesPerRun cfg \<Longrightarrow> deletes_so_far r' \<le> cf_MaxDeletesPerRun cfg"
    and "ru_ManifestDeletes r' = ru_ManifestDeletes r" "ru_StorageDeletes r \<le> ru_StorageDeletes r'"
proof -
  let ?n = "nat (cf_MaxDeletesPerRun cfg - deletes_so_far r)"
  obtain ds k cap where pk: "pick_deletes ?n f (map or_path chunk) = (ds, k, cap)" by (cases "pick_deletes ?n f (map or_path chunk)")
  let ?r = "r\<lparr>ru_SkippedRecheck := ru_SkippedRecheck r + int k\<rparr>"
  obtain n r2 w2 where ap: "applyStorageDeletes hb ds ?r w = (n, r2, w2)" by (cases "applyStorageDeletes hb ds ?r w")
  note ps = pick_deletes_spec [OF pk] and ae = applyStorageDeletes_effect [OF ap]
  have len: "deletes_so_far r \<le> cf_MaxDeletesPerRun cfg \<Longrightarrow> deletes_so_far r + int (length ds) \<le> cf_MaxDeletesPerRun cfg" using ps by auto
  note defs = assms [unfolded storage_chunk_def Let_def prod.case pk ap]
  show "f' = f" using defs by (auto split: if_splits)
  show "p \<in> or_path ` set chunk \<and> files f p = None \<and> \<not> dryRun" if "w_store w p \<noteq> None" "w_store w' p = None"
  proof -
    have "w' = w2 \<and> \<not> dryRun" using defs that by (auto split: if_splits)
    then show ?thesis using ae that ps by auto
  qed
  show "deletes_so_far r \<le> cf_MaxDeletesPerRun cfg \<Longrightarrow> deletes_so_far r' \<le> cf_MaxDeletesPerRun cfg"
    "ru_ManifestDeletes r' = ru_ManifestDeletes r" "ru_StorageDeletes r \<le> ru_StorageDeletes r'"
    using defs ae len by (auto simp: deletes_so_far_def split: if_splits)
qed

end
