(* ===== verification/Reconcile_Safety.thy ===== *)
theory Reconcile_Safety
  imports Reconcile_Sweep
begin

text \<open>
  What a run of the reconciler does: it harms no file that manifest and storage agree on, spares
  young objects, stays within its cap, and when nothing disturbs it makes the two agree.
\<close>

section \<open>Invariants of the sweeps\<close>

text \<open>
  What interference and every chunk keep, the sweeps keep.  The chunks of the second sweep consist
  of its candidates.
\<close>

lemma reconcile_sweeps_invariant:
  assumes "reconcile_sweeps cfg dryRun E d s = (e, r', f', w')" "I s"
    and "\<And>k s. I s \<Longrightarrow> I (interfere (re_manifest E k) s)" "\<And>k s. I s \<Longrightarrow> I (interfere (re_storage E k) s)"
    and "\<And>k chunk s fl s'. manifest_chunk cfg dryRun (re_manifest E k) chunk s = (fl, s') \<Longrightarrow> I s \<Longrightarrow> I s'"
    and "\<And>k chunk s fl s'. storage_chunk cfg (re_hasBatchDelete E) dryRun (re_storage E k) chunk s = (fl, s') \<Longrightarrow>
      set chunk \<subseteq> set (di_orphanStorage d) \<Longrightarrow> cf_BackendKind cfg \<noteq> BackendStandalone \<Longrightarrow> I s \<Longrightarrow> I s'"
    and "\<And>e r f w. I (r, f, w) \<Longrightarrow> I (markAborted e r, f, w)"
  shows "r' \<noteq> None \<and> I (the r', f', w')"
proof -
  obtain e1 s1 where m: "sweepOrphanManifest cfg dryRun (re_manifest E) (di_orphanManifest d) s = (e1, s1)"
    by (cases "sweepOrphanManifest cfg dryRun (re_manifest E) (di_orphanManifest d) s")
  have s1: "I s1"
  proof (cases "di_orphanManifest d = [] \<or> cf_BackendKind cfg = BackendStandalone")
    case False
    then have "sweep_chunks (manifest_chunk cfg dryRun) (re_manifest E) 0 (chunks_of (batch_size cfg) (di_orphanManifest d)) s = (e1, s1)"
      using m by (auto simp: sweepOrphanManifest_def)
    from sweep_chunks_invariant [where I = I, OF this assms(2,3)] assms(5) show ?thesis by blast
  qed (use m assms(2) in \<open>auto simp: sweepOrphanManifest_def\<close>)
  obtain e2 s2 where st: "sweepOrphanStorage cfg (re_hasBatchDelete E) dryRun (re_storage E) (di_orphanStorage d) s1 = (e2, s2)"
    by (cases "sweepOrphanStorage cfg (re_hasBatchDelete E) dryRun (re_storage E) (di_orphanStorage d) s1")
  have s2: "I s2"
  proof (cases "di_orphanStorage d = [] \<or> cf_BackendKind cfg = BackendStandalone")
    case False
    let ?chunks = "chunks_of (batch_size cfg) (storage_candidates cfg (di_orphanStorage d))"
    have run: "sweep_chunks (storage_chunk cfg (re_hasBatchDelete E) dryRun) (re_storage E) 0 ?chunks s1 = (e2, s2)"
      using st False by (auto simp: sweepOrphanStorage_def)
    have sub: "set chunk \<subseteq> set (di_orphanStorage d)" if "chunk \<in> set ?chunks" for chunk
      using chunks_subset [OF that] by (auto simp: storage_candidates_def)
    show ?thesis
      by (rule sweep_chunks_invariant [where I = I, OF run s1 assms(4)]) (use assms(6) sub False in blast)+
  qed (use st s1 in \<open>auto simp: sweepOrphanStorage_def\<close>)
  show ?thesis
    using assms(1,7) m st s1 s2
    by (cases s1; cases s2) (auto simp: reconcile_sweeps_def finish_sweep_def split: option.splits)
qed

section \<open>Live files\<close>

text \<open>Others do not drop the path.\<close>

definition keeps :: "string \<Rightarrow> chunk_env \<Rightarrow> bool" where
  "keeps p env \<longleftrightarrow> (\<forall>f. files f p \<noteq> None \<longrightarrow> files (ch_fsm env f) p \<noteq> None) \<and> (\<forall>s. s p \<noteq> None \<longrightarrow> ch_store env s p \<noteq> None)"

definition live :: "string \<Rightarrow> 'c sweep_state \<Rightarrow> bool" where
  "live p s = (case s of (r, f, w) \<Rightarrow> files f p \<noteq> None \<and> w_store w p \<noteq> None)"

lemma interfere_live: "keeps p env \<Longrightarrow> live p s \<Longrightarrow> live p (interfere env s)"
  by (auto simp: keeps_def live_def interfere_def split: prod.splits)

lemma live_marked: "live p (r, f, w) \<Longrightarrow> live p (markAborted e r, f, w)"
  by (simp add: live_def)

lemma manifest_chunk_live:
  assumes "manifest_chunk cfg dryRun env chunk s = (fl, s')" "live p s"
  shows "live p s'"
proof -
  obtain r f w r' f' w' where s: "s = (r, f, w)" "s' = (r', f', w')" by (cases s; cases s')
  note eff = manifest_chunk_effect(1,2) [OF assms(1) [unfolded s]]
  have "w_store w' = w_store w" using eff(1) by (simp add: stores_def)
  then show ?thesis using eff(2) [of p] assms(2) unfolding live_def s prod.case by metis
qed

lemma storage_chunk_live:
  assumes "storage_chunk cfg hb dryRun env chunk s = (fl, s')" "live p s"
  shows "live p s'"
proof -
  obtain r f w r' f' w' where s: "s = (r, f, w)" "s' = (r', f', w')" by (cases s; cases s')
  note eff = storage_chunk_effect(1,2) [OF assms(1) [unfolded s]]
  then show ?thesis using eff(2) [of p] assms(2) unfolding live_def s prod.case by metis
qed

text \<open>
  C22. Reconciliation never harms a live file: a file that is in the manifest and in the storage
  when the sweeps begin is there afterwards, whatever the sweeps take for orphans (the snapshot
  and the walk may be older than the file), whatever fails, and whatever others do meanwhile, as
  long as they do not remove the file themselves.
\<close>

theorem reconcile_keeps_live_files:
  assumes "reconcile_sweeps cfg dryRun E d (r, f, w) = (e, r', f', w')"
    and "\<forall>k. keeps p (re_manifest E k) \<and> keeps p (re_storage E k)"
    and "files f p \<noteq> None" "w_store w p \<noteq> None"
  shows "files f' p \<noteq> None \<and> w_store w' p \<noteq> None"
proof -
  have "live p (r, f, w)" using assms(3,4) by (simp add: live_def)
  then have "r' \<noteq> None \<and> live p (the r', f', w')"
  proof (rule reconcile_sweeps_invariant [where I = "live p", OF assms(1)], goal_cases)
    case (1 k s)
    then show ?case using assms(2) interfere_live by blast
  next
    case (2 k s)
    then show ?case using assms(2) interfere_live by blast
  next
    case (3 k chunk s fl s')
    then show ?case by (rule manifest_chunk_live)
  next
    case (4 k chunk s fl s')
    from 4(1,4) show ?case by (rule storage_chunk_live)
  next
    case (5 e r f w)
    then show ?case by (rule live_marked)
  qed
  then show ?thesis by (simp add: live_def)
qed

section \<open>Protected objects\<close>

lemma fresh_records_spec:
  "fresh_records seen rs = (out, seen') \<Longrightarrow> set out \<subseteq> set rs \<and> or_path ` set out = or_path ` set rs - seen \<and>
     distinct (map or_path out) \<and> seen' = seen \<union> or_path ` set rs"
proof (induction rs arbitrary: seen out seen')
  case (Cons r rs)
  show ?case
  proof (cases "or_path r \<in> seen")
    case True
    then have "fresh_records seen rs = (out, seen')" using Cons.prems by simp
    from Cons.IH [OF this] True show ?thesis by auto
  next
    case False
    then obtain out' where o: "fresh_records (insert (or_path r) seen) rs = (out', seen')" "out = r # out'"
      using Cons.prems by (auto split: prod.splits)
    from Cons.IH [OF o(1)] o(2) False show ?thesis by (auto simp: image_iff)
  qed
qed simp

text \<open>What a record of the walk says: the path is that of a data file, and the time is that of the backend.\<close>

definition record_ok :: "walk_env \<Rightarrow> object_record \<Rightarrow> bool" where
  "record_ok V r \<longleftrightarrow> isParquetCandidate (or_path r) \<and> (or_lastModified r = None \<or> or_lastModified r = wk_mtime V (or_path r))"

lemma listPrefix_effect:
  assumes "listPrefix V prefix w = (rs, w1)"
  shows "stores w1 = stores w" "rs = Some records \<Longrightarrow> r \<in> set records \<Longrightarrow> record_ok V r"
proof -
  obtain l w2 where l: "be_list (wk_listing V) prefix w = (l, w2)" by (cases "be_list (wk_listing V) prefix w")
  note c = be_list_cases [OF l, of True]
  show "stores w1 = stores w" using assms l c by (auto simp: listPrefix_def split: option.splits)
  show "record_ok V r" if "rs = Some records" "r \<in> set records"
    using assms l that by (auto simp: listPrefix_def record_ok_def split: option.splits)
qed

lemma walk_prefixes_effect:
  "walk_prefixes V ps seen w = (res, w1) \<Longrightarrow> stores w1 = stores w \<and>
     (\<forall>rs partial es. res = Some (rs, partial, es) \<longrightarrow> (\<forall>r\<in>set rs. record_ok V r))"
proof (induction ps arbitrary: seen w res)
  case (Cons p ps)
  obtain l w2 where l: "listPrefix V p w = (l, w2)" by (cases "listPrefix V p w")
  note eff = listPrefix_effect [OF l]
  show ?case
  proof (cases "wk_prefixCtx V p")
    case False
    then show ?thesis using Cons.prems by simp
  next
    case ctx: True
    show ?thesis
    proof (cases l)
      case None
      obtain res' where rest: "walk_prefixes V ps seen w2 = (res', w1)" using Cons.prems ctx l None by (auto split: prod.splits option.splits)
      from Cons.IH [OF rest] eff Cons.prems ctx l None rest show ?thesis by (auto split: option.splits)
    next
      case (Some records)
      obtain new seen' where f: "fresh_records seen records = (new, seen')" by (cases "fresh_records seen records")
      obtain res' where rest: "walk_prefixes V ps seen' w2 = (res', w1)"
        using Cons.prems ctx l Some f by (auto split: prod.splits option.splits)
      have "\<forall>r\<in>set new. record_ok V r" using eff(2) [OF Some] fresh_records_spec [OF f] by blast
      then show ?thesis using Cons.IH [OF rest] eff(1) Cons.prems ctx l Some f rest by (auto split: option.splits)
    qed
  qed
qed simp

lemma walkStorage_effect:
  assumes "walkStorage cfg V keys w = (res, w1)"
  shows "stores w1 = stores w" "res = Some (rs, partial, es) \<Longrightarrow> r \<in> set rs \<Longrightarrow> record_ok V r"
proof -
  obtain prefixes pa e0 where d: "derivePrefixes cfg V keys = (prefixes, pa, e0)" by (cases "derivePrefixes cfg V keys")
  obtain res' w2 where x: "walk_prefixes V prefixes {} w = (res', w2)" by (cases "walk_prefixes V prefixes {} w")
  note eff = walk_prefixes_effect [OF x]
  show "stores w1 = stores w" using assms d x eff by (auto simp: walkStorage_def split: option.splits)
  show "record_ok V r" if "res = Some (rs, partial, es)" "r \<in> set rs"
    using assms d x eff that by (auto simp: walkStorage_def split: option.splits)
qed

text \<open>A run either stops before the sweeps, or it sweeps what the walk and the snapshot differ in.\<close>

lemma Reconcile_cases:
  assumes "Reconcile cfg running dryRun E f w = (e, r, f', w')"
  obtains "f' = f" "stores w' = stores w" "r = None \<or> deletes_so_far (the r) = 0"
  | m keys rs w1 r0 where "snapshotManifest cfg (re_ctx E) (re_ranges E) f = Inr m"
      "keys = manifestToKeys cfg (fileEntriesToKeys m)" "stores w1 = stores w"
      "\<exists>partial es. walkStorage cfg (re_walk E) keys w = (Some (rs, partial, es), w1)" "deletes_so_far r0 = 0"
      "reconcile_sweeps cfg dryRun E (computeDiff (re_order E) keys rs (re_now E) (cf_GraceWindow cfg + cf_ClockSkewAllowance cfg))
         (interfere (re_during E) (r0, f, w1)) = (e, r, f', w')"
proof -
  have zero: "deletes_so_far (markAborted x r) = deletes_so_far r" "deletes_so_far (fold note_error es r) = deletes_so_far r"
    "deletes_so_far (with_diff cfg d r) = deletes_so_far r" "deletes_so_far (new_run cfg dryRun i) = 0"
    "deletes_so_far (r\<lparr>ru_ManifestFileCount := a\<rparr>) = deletes_so_far r"
    "deletes_so_far (r\<lparr>ru_StorageFileCount := a, ru_WalkPartial := b\<rparr>) = deletes_so_far r" for x es d i r a b
    by (induction es arbitrary: r) (simp_all add: markAborted_def with_diff_def new_run_def deletes_so_far_def note_error_def)
  show ?thesis
  proof (cases "cf_Enabled cfg \<and> \<not> running \<and> (re_gateStorage E \<or> re_gateManifest E)")
    case False
    then show ?thesis using assms that(1) by (auto simp: Reconcile_def split: if_splits)
  next
    case go: True
    show ?thesis
    proof (cases "snapshotManifest cfg (re_ctx E) (re_ranges E) f")
      case (Inl x)
      then show ?thesis using assms go that(1) by (auto simp: Reconcile_def Let_def zero)
    next
      case (Inr m)
      let ?keys = "manifestToKeys cfg (fileEntriesToKeys m)"
      obtain res w1 where wk: "walkStorage cfg (re_walk E) ?keys w = (res, w1)" by (cases "walkStorage cfg (re_walk E) ?keys w")
      show ?thesis
      proof (cases res)
        case None
        then show ?thesis using assms go Inr wk walkStorage_effect(1) [OF wk] that(1) by (auto simp: Reconcile_def Let_def zero)
      next
        case (Some x)
        then obtain rs partial es where x: "res = Some (rs, partial, es)" by (cases x) auto
        show ?thesis
          by (rule that(2) [OF Inr HOL.refl walkStorage_effect(1) [OF wk]])
            (use assms go Inr wk x in \<open>auto simp: Reconcile_def Let_def zero intro!: exI\<close>)
      qed
    qed
  qed
qed

definition keeps_object :: "string \<Rightarrow> chunk_env \<Rightarrow> bool" where
  "keeps_object p env \<longleftrightarrow> (\<forall>s. s p \<noteq> None \<longrightarrow> ch_store env s p \<noteq> None)"

definition stored :: "string \<Rightarrow> 'c sweep_state \<Rightarrow> bool" where
  "stored p s = (case s of (r, f, w) \<Rightarrow> w_store w p \<noteq> None)"

lemma manifest_chunk_stored:
  assumes "manifest_chunk cfg dryRun env chunk s = (fl, s')" "stored p s"
  shows "stored p s'"
proof -
  obtain r f w r' f' w' where s: "s = (r, f, w)" "s' = (r', f', w')" by (cases s; cases s')
  from manifest_chunk_effect(1) [OF assms(1) [unfolded s]] assms(2) show ?thesis by (simp add: stored_def s stores_def)
qed

lemma storage_chunk_stored:
  assumes "storage_chunk cfg hb dryRun env chunk s = (fl, s')" "stored p s" "p \<notin> or_path ` set chunk \<or> dryRun"
  shows "stored p s'"
proof -
  obtain r f w r' f' w' where s: "s = (r, f, w)" "s' = (r', f', w')" by (cases s; cases s')
  from storage_chunk_effect(2) [OF assms(1) [unfolded s], of p] assms(2,3) show ?thesis by (auto simp: stored_def s)
qed

text \<open>
  Protected objects stay: a run deletes no object younger than grace window and clock skew
  allowance (or of unknown age), nothing that is not a data file (temporary and hidden files, the
  manifests of compaction), nothing in a dry run, and nothing on a standalone node, whatever
  fails and whatever others do to manifest and storage.
\<close>

theorem reconcile_spares_protected_objects:
  assumes "Reconcile cfg running dryRun E f w = (e, r, f', w')" "lists_set (re_order E)"
    and "keeps_object p (re_during E)" "\<forall>k. keeps_object p (re_manifest E k) \<and> keeps_object p (re_storage E k)"
    and "w_store w p \<noteq> None"
    and "isYoungerThan (wk_mtime (re_walk E) p) (re_now E) (cf_GraceWindow cfg + cf_ClockSkewAllowance cfg) \<or>
      \<not> isParquetCandidate p \<or> dryRun \<or> cf_BackendKind cfg = BackendStandalone"
  shows "w_store w' p \<noteq> None"
  using assms(1)
proof (cases rule: Reconcile_cases)
  case 1
  then show ?thesis using assms(5) by (simp add: stores_def)
next
  case (2 m keys rs w1 r0)
  let ?grace = "cf_GraceWindow cfg + cf_ClockSkewAllowance cfg"
  let ?d = "computeDiff (re_order E) keys rs (re_now E) ?grace"
  obtain partial es where wk: "walkStorage cfg (re_walk E) keys w = (Some (rs, partial, es), w1)" using 2(4) by blast
  have safe: "p \<notin> or_path ` set (di_orphanStorage ?d) \<or> dryRun \<or> cf_BackendKind cfg = BackendStandalone"
  proof -
    have "isParquetCandidate (or_path x) \<and> \<not> isYoungerThan (wk_mtime (re_walk E) (or_path x)) (re_now E) ?grace"
      if "x \<in> set (di_orphanStorage ?d)" for x
    proof -
      have x: "x \<in> set rs" "\<not> isYoungerThan (or_lastModified x) (re_now E) ?grace"
        using that computeDiff_spec(4) [OF assms(2)] by auto
      from walkStorage_effect(2) [OF wk HOL.refl x(1)] x(2) show ?thesis by (auto simp: record_ok_def isYoungerThan_def)
    qed
    then show ?thesis using assms(6) by blast
  qed
  have "stored p (interfere (re_during E) (r0, f, w1))"
    using assms(3,5) 2(3) by (simp add: stored_def interfere_def keeps_object_def stores_def)
  then have "r \<noteq> None \<and> stored p (the r, f', w')"
  proof (rule reconcile_sweeps_invariant [where I = "stored p", OF 2(6)], goal_cases)
    case (1 k s)
    then show ?case using assms(4) by (auto simp: stored_def interfere_def keeps_object_def split: prod.splits)
  next
    case (2 k s)
    then show ?case using assms(4) by (auto simp: stored_def interfere_def keeps_object_def split: prod.splits)
  next
    case (3 k chunk s fl s')
    then show ?case by (rule manifest_chunk_stored)
  next
    case (4 k chunk s fl s')
    have "p \<notin> or_path ` set chunk \<or> dryRun" using safe 4(2,3) by blast
    from storage_chunk_stored [OF 4(1,4) this] show ?case .
  next
    case (5 e r f w)
    then show ?case by (simp add: stored_def)
  qed
  then show ?thesis by (simp add: stored_def)
qed

section \<open>The cap\<close>

text \<open>A script whose failing deletions delete nothing.\<close>

definition honest :: "'c world \<Rightarrow> bool" where
  "honest w \<longleftrightarrow> list_all (\<lambda>a. case a of Deleted _ _ \<Rightarrow> False | _ \<Rightarrow> True) (w_script w)"

lemma next_answer_honest:
  "next_answer w = (a, w1) \<Longrightarrow> honest w \<Longrightarrow> honest w1 \<and> (\<forall>is d. a \<noteq> Deleted is d)"
  by (auto simp: next_answer_def honest_def split: if_splits list.splits answer.splits)

lemma honest_ops:
  "be_exists p w = (r1, w1) \<Longrightarrow> honest w \<Longrightarrow> honest w1"
  "be_list l pre w = (r2, w1) \<Longrightarrow> honest w \<Longrightarrow> honest w1"
  "be_delete p w = (ok, w1) \<Longrightarrow> honest w \<Longrightarrow> honest w1 \<and> (\<not> ok \<longrightarrow> w_store w1 = w_store w)"
  "be_delete_batch ps w = (ok, w1) \<Longrightarrow> honest w \<Longrightarrow> honest w1 \<and> (\<not> ok \<longrightarrow> w_store w1 = w_store w)"
proof -
  obtain a w0 where a: "next_answer w = (a, w0)" by (cases "next_answer w")
  note h = next_answer_honest [OF a] and fr = next_answer_frame [OF a]
  show "be_exists p w = (r1, w1) \<Longrightarrow> honest w \<Longrightarrow> honest w1" using a h by (cases a) (auto simp: be_exists_def)
  show "be_list l pre w = (r2, w1) \<Longrightarrow> honest w \<Longrightarrow> honest w1" using a h by (cases a) (auto simp: be_list_def)
  show "be_delete p w = (ok, w1) \<Longrightarrow> honest w \<Longrightarrow> honest w1 \<and> (\<not> ok \<longrightarrow> w_store w1 = w_store w)"
    using a h fr by (cases a) (auto simp: be_delete_def honest_def)
  show "be_delete_batch ps w = (ok, w1) \<Longrightarrow> honest w \<Longrightarrow> honest w1 \<and> (\<not> ok \<longrightarrow> w_store w1 = w_store w)"
    using a h fr by (cases a) (auto simp: be_delete_batch_def honest_def)
qed

definition removed_files :: "fsm \<Rightarrow> fsm \<Rightarrow> string set" where
  "removed_files f f' = {p. files f p \<noteq> None \<and> files f' p = None}"

definition removed_objects :: "'c world \<Rightarrow> 'c world \<Rightarrow> string set" where
  "removed_objects w w' = {p. w_store w p \<noteq> None \<and> w_store w' p = None}"

lemma parallelExists_honest: "parallelExists ps w = (rs, w1) \<Longrightarrow> honest w \<Longrightarrow> honest w1"
proof (induction ps arbitrary: w rs)
  case (Cons p ps)
  obtain r w2 where b: "be_exists p w = (r, w2)" by (cases "be_exists p w")
  obtain rs' where "parallelExists ps w2 = (rs', w1)" using Cons.prems b by (auto split: prod.splits)
  from Cons.IH [OF this] honest_ops(1) [OF b] Cons.prems(2) show ?case by blast
qed simp

lemma delete_each_honest:
  "delete_each ps r w = (n, r', w') \<Longrightarrow> honest w \<Longrightarrow>
   honest w' \<and> (\<exists>A. finite A \<and> removed_objects w w' \<subseteq> A \<and> int (card A) \<le> n)"
proof (induction ps arbitrary: n r w)
  case Nil
  then show ?case by (auto simp: removed_objects_def intro!: exI [of _ "{}"])
next
  case (Cons q ps)
  obtain ok w1 where d: "be_delete q w = (ok, w1)" by (cases "be_delete q w")
  note h = honest_ops(3) [OF d Cons.prems(2)]
  show ?case
  proof (cases ok)
    case False
    then have "delete_each ps (note_error (DeleteFailed q) r) w1 = (n, r', w')" using Cons.prems d by simp
    from Cons.IH [OF this] h False show ?thesis by (simp add: removed_objects_def)
  next
    case True
    then obtain n' where n': "delete_each ps r w1 = (n', r', w')" "n = n' + 1" using Cons.prems d by (auto split: prod.splits)
    obtain A where A: "honest w'" "finite A" "removed_objects w1 w' \<subseteq> A" "int (card A) \<le> n'" using Cons.IH [OF n'(1)] h by blast
    have "w_store w1 = drop_keys {q} (w_store w)" using be_delete_cases [OF d, of True] True by simp
    then have "removed_objects w w' \<subseteq> insert q (removed_objects w1 w')" by (auto simp: removed_objects_def drop_keys_def restrict_map_def)
    then have "removed_objects w w' \<subseteq> insert q A" using A(3) by blast
    moreover have "int (card (insert q A)) \<le> n" using A(2,4) n'(2) card_insert_le_m1 [of "Suc (card A)" A q] by (simp add: card_insert_if)
    ultimately show ?thesis using A(1,2) by blast
  qed
qed

lemma applyStorageDeletes_honest:
  assumes "applyStorageDeletes hb ps r w = (n, r', w')" "honest w"
  shows "honest w' \<and> (\<exists>A. finite A \<and> removed_objects w w' \<subseteq> A \<and> int (card A) \<le> n)"
proof (cases "hb \<and> 1 < length ps")
  case False
  then show ?thesis using assms delete_each_honest by (simp add: applyStorageDeletes_def split: if_splits)
next
  case True
  obtain ok w1 where d: "be_delete_batch ps w = (ok, w1)" by (cases "be_delete_batch ps w")
  note h = honest_ops(4) [OF d assms(2)]
  show ?thesis
  proof (cases ok)
    case False
    then have "delete_each ps r w1 = (n, r', w')" using assms(1) True d by (simp add: applyStorageDeletes_def)
    from delete_each_honest [OF this] h False show ?thesis by (simp add: removed_objects_def)
  next
    case ok: True
    then have "n = int (length ps)" "w' = w1" using assms(1) True d by (auto simp: applyStorageDeletes_def)
    moreover have "removed_objects w w1 \<subseteq> set ps"
      using be_delete_batch_cases [OF d, of True] ok by (auto simp: removed_objects_def drop_keys_def restrict_map_def split: if_splits)
    ultimately show ?thesis using h card_length [of ps] by (intro conjI exI [of _ "set ps"]) auto
  qed
qed

text \<open>
  The removals of a chunk, files and objects together: within what it counts, or, when it aborts
  the sweep, within what is left of the cap.
\<close>

definition budget :: "rec_config \<Rightarrow> 'c sweep_state \<Rightarrow> flow \<Rightarrow> 'c sweep_state \<Rightarrow> bool" where
  "budget cfg s fl s' =
     (case (s, s') of ((r, f, w), (r', f', w')) \<Rightarrow>
        honest w' \<and> deletes_so_far r \<le> deletes_so_far r' \<and> deletes_so_far r' \<le> cf_MaxDeletesPerRun cfg \<and>
        (\<exists>A B. finite A \<and> finite B \<and> removed_files f f' \<subseteq> A \<and> removed_objects w w' \<subseteq> B \<and>
           int (card A) + int (card B) \<le> cf_MaxDeletesPerRun cfg - deletes_so_far r \<and>
           ((\<forall>e. fl \<noteq> AbortSweep e) \<longrightarrow> int (card A) + int (card B) \<le> deletes_so_far r' - deletes_so_far r)))"

lemma budgetI:
  assumes "honest w'" "deletes_so_far r \<le> deletes_so_far r'" "deletes_so_far r' \<le> cf_MaxDeletesPerRun cfg"
    and "finite A" "finite B" "removed_files f f' \<subseteq> A" "removed_objects w w' \<subseteq> B"
    and "int (card A) + int (card B) \<le> cf_MaxDeletesPerRun cfg - deletes_so_far r"
    and "(\<forall>e. fl \<noteq> AbortSweep e) \<longrightarrow> int (card A) + int (card B) \<le> deletes_so_far r' - deletes_so_far r"
  shows "budget cfg (r, f, w) fl (r', f', w')"
  using assms by (auto simp: budget_def)

lemma manifest_chunk_budget:
  assumes "manifest_chunk cfg dryRun env chunk (r, f, w) = (fl, r', f', w')" "honest w" "deletes_so_far r \<le> cf_MaxDeletesPerRun cfg"
  shows "budget cfg (r, f, w) fl (r', f', w')"
proof -
  let ?paths = "recheck_paths cfg r chunk"
  obtain rs w1 where x: "parallelExists ?paths w = (rs, w1)" by (cases "parallelExists ?paths w")
  let ?applied = "absent_paths (zip ?paths rs)"
  obtain br f1 where b: "BatchFileOpsInManifest (ch_raft env) (delete_ops ?applied) f = (br, f1)"
    by (cases "BatchFileOpsInManifest (ch_raft env) (delete_ops ?applied) f")
  note st = parallelExists_stores [OF x] and h = parallelExists_honest [OF x assms(2)]
  have gone: "removed_files f f1 \<subseteq> set ?applied" using batch_deletes_listed [OF b] by (auto simp: removed_files_def)
  have len: "deletes_so_far r < cf_MaxDeletesPerRun cfg \<Longrightarrow> int (length ?applied) \<le> cf_MaxDeletesPerRun cfg - deletes_so_far r"
    using length_absent [of ?paths rs] by (auto simp: recheck_paths_def Let_def split: if_splits)
  have obj: "removed_objects w w' = {}" using manifest_chunk_effect(1) [OF assms(1)] by (auto simp: removed_objects_def stores_def)
  have none: "removed_files f f = {}" by (auto simp: removed_files_def)
  note defs = assms(1) [unfolded manifest_chunk_def Let_def prod.case x]
  have w': "honest w'" using defs b h assms(2) by (auto split: if_splits prod.splits bridge_result.splits)
  note eff = manifest_chunk_effect(3-5) [OF assms(1)]
  consider "f' = f" | "f' = f1" "deletes_so_far r < cf_MaxDeletesPerRun cfg" "(\<forall>e. fl \<noteq> AbortSweep e) \<longrightarrow> deletes_so_far r' = deletes_so_far r + int (length ?applied)"
    using defs b by (auto simp: deletes_so_far_def cap_flow_def split: if_splits prod.splits bridge_result.splits)
  then show ?thesis
  proof cases
    case 1
    then show ?thesis
      by (intro budgetI [where A = "{}" and B = "{}"]) (use w' eff assms(3) obj none in \<open>auto simp: deletes_so_far_def\<close>)
  next
    case 2
    have card: "int (card (set ?applied)) \<le> int (length ?applied)" using card_length by simp
    show ?thesis
      by (intro budgetI [where A = "set ?applied" and B = "{}"])
        (use w' eff assms(3) obj gone card len 2 in \<open>auto simp: deletes_so_far_def\<close>)
  qed
qed

lemma storage_chunk_budget:
  assumes "storage_chunk cfg hb dryRun env chunk (r, f, w) = (fl, r', f', w')" "honest w" "deletes_so_far r \<le> cf_MaxDeletesPerRun cfg"
  shows "budget cfg (r, f, w) fl (r', f', w')"
proof -
  let ?n = "nat (cf_MaxDeletesPerRun cfg - deletes_so_far r)"
  obtain ds k cap where pk: "pick_deletes ?n f (map or_path chunk) = (ds, k, cap)" by (cases "pick_deletes ?n f (map or_path chunk)")
  let ?r = "r\<lparr>ru_SkippedRecheck := ru_SkippedRecheck r + int k\<rparr>"
  obtain n r2 w2 where ap: "applyStorageDeletes hb ds ?r w = (n, r2, w2)" by (cases "applyStorageDeletes hb ds ?r w")
  obtain A where A: "honest w2" "finite A" "removed_objects w w2 \<subseteq> A" "int (card A) \<le> n"
    using applyStorageDeletes_honest [OF ap assms(2)] by blast
  note ae = applyStorageDeletes_effect [OF ap]
  have none: "removed_objects w w = {}" "removed_files f f = {}" by (auto simp: removed_objects_def removed_files_def)
  note defs = assms(1) [unfolded storage_chunk_def Let_def prod.case pk ap]
  note eff = storage_chunk_effect(1,3-5) [OF assms(1)]
  have le: "deletes_so_far r \<le> deletes_so_far r'" "deletes_so_far r' \<le> cf_MaxDeletesPerRun cfg"
    using eff assms(3) by (auto simp: deletes_so_far_def)
  consider "w' = w" | "w' = w2" "deletes_so_far r' = deletes_so_far r + n"
    using defs ae by (auto simp: deletes_so_far_def split: if_splits)
  then show ?thesis
  proof cases
    case 1
    then show ?thesis by (intro budgetI [where A = "{}" and B = "{}"]) (use assms(2) le eff(1) none in auto)
  next
    case 2
    then show ?thesis by (intro budgetI [where A = "{}" and B = A]) (use A le eff(1) none in auto)
  qed
qed

lemma budget_trans:
  assumes "budget cfg s Continue s1" "budget cfg s1 fl s2"
  shows "budget cfg s fl s2"
proof -
  obtain r f w r1 f1 w1 r2 f2 w2 where s: "s = (r, f, w)" "s1 = (r1, f1, w1)" "s2 = (r2, f2, w2)" by (cases s; cases s1; cases s2)
  obtain A B where a: "finite A" "finite B" "removed_files f f1 \<subseteq> A" "removed_objects w w1 \<subseteq> B"
      "int (card A) + int (card B) \<le> deletes_so_far r1 - deletes_so_far r" "deletes_so_far r \<le> deletes_so_far r1"
    using assms(1) by (auto simp: budget_def s)
  obtain A' B' where b: "finite A'" "finite B'" "removed_files f1 f2 \<subseteq> A'" "removed_objects w1 w2 \<subseteq> B'" "honest w2"
      "int (card A') + int (card B') \<le> cf_MaxDeletesPerRun cfg - deletes_so_far r1"
      "(\<forall>e. fl \<noteq> AbortSweep e) \<longrightarrow> int (card A') + int (card B') \<le> deletes_so_far r2 - deletes_so_far r1"
      "deletes_so_far r1 \<le> deletes_so_far r2" "deletes_so_far r2 \<le> cf_MaxDeletesPerRun cfg"
    using assms(2) by (auto simp: budget_def s)
  have "removed_files f f2 \<subseteq> A \<union> A'" "removed_objects w w2 \<subseteq> B \<union> B'"
    using a(3,4) b(3,4) unfolding removed_files_def removed_objects_def by blast+
  moreover have "card (A \<union> A') \<le> card A + card A'" "card (B \<union> B') \<le> card B + card B'" by (rule card_Un_le)+
  ultimately show ?thesis
    unfolding budget_def s prod.case using a b by (intro conjI exI [of _ "A \<union> A'"] exI [of _ "B \<union> B'"]) auto
qed

definition undisturbed :: "chunk_env \<Rightarrow> bool" where
  "undisturbed env \<longleftrightarrow> (\<forall>f. ch_fsm env f = f) \<and> (\<forall>s. ch_store env s = s)"

lemma interfere_undisturbed: "undisturbed env \<Longrightarrow> interfere env s = s"
  by (cases s) (simp add: interfere_def undisturbed_def)

text \<open>How a sweep ends, as the flow of its last chunk.\<close>

definition end_flow :: "rec_error option \<Rightarrow> flow" where
  "end_flow e = (case e of None \<Rightarrow> Continue | Some x \<Rightarrow> AbortSweep x)"

lemma budget_refl: "honest w \<Longrightarrow> deletes_so_far r \<le> cf_MaxDeletesPerRun cfg \<Longrightarrow> budget cfg (r, f, w) fl (r, f, w)"
  by (auto simp: budget_def removed_files_def removed_objects_def intro!: exI [of _ "{}"])

lemma budget_end: "(\<forall>e. fl \<noteq> AbortSweep e) \<or> fl = fl' \<Longrightarrow> budget cfg s fl s' \<Longrightarrow> budget cfg s fl' s'"
  by (auto simp: budget_def split: prod.splits)

lemma sweep_chunks_budget:
  assumes "sweep_chunks body env i chunks (r, f, w) = (e, s')" "honest w" "deletes_so_far r \<le> cf_MaxDeletesPerRun cfg"
    and "\<And>k. undisturbed (env k)"
    and "\<And>k chunk r f w fl s'. body (env k) chunk (r, f, w) = (fl, s') \<Longrightarrow> honest w \<Longrightarrow> deletes_so_far r \<le> cf_MaxDeletesPerRun cfg \<Longrightarrow>
      budget cfg (r, f, w) fl s'"
  shows "budget cfg (r, f, w) (end_flow e) s'"
  using assms(1-3)
proof (induction chunks arbitrary: i r f w)
  case Nil
  then show ?case by (auto intro: budget_refl)
next
  case (Cons chunk chunks)
  obtain fl r1 f1 w1 where b: "body (env i) chunk (r, f, w) = (fl, r1, f1, w1)" by (cases "body (env i) chunk (r, f, w)")
  note bu = assms(5) [OF b Cons.prems(2,3)]
  show ?case
  proof (cases fl)
    case Continue
    then have rest: "sweep_chunks body env (Suc i) chunks (r1, f1, w1) = (e, s')"
      using Cons.prems(1) b by (simp only: sweep_chunks.simps interfere_undisturbed [OF assms(4)] prod.case flow.case)
    have "honest w1" "deletes_so_far r1 \<le> cf_MaxDeletesPerRun cfg" using bu by (auto simp: budget_def)
    from budget_trans [OF bu [unfolded Continue] Cons.IH [OF rest this]] show ?thesis .
  next
    case StopSweep
    then have "e = None \<and> s' = (r1, f1, w1)"
      using Cons.prems(1) b by (simp only: sweep_chunks.simps interfere_undisturbed [OF assms(4)] prod.case flow.case prod.inject)
    then show ?thesis using budget_end [OF _ bu] StopSweep by (auto simp: end_flow_def)
  next
    case (AbortSweep x)
    then have "e = Some x \<and> s' = (r1, f1, w1)"
      using Cons.prems(1) b by (simp only: sweep_chunks.simps interfere_undisturbed [OF assms(4)] prod.case flow.case prod.inject)
    then show ?thesis using bu AbortSweep by (auto simp: end_flow_def)
  qed
qed

lemma sweepOrphanManifest_budget:
  assumes "sweepOrphanManifest cfg dryRun env paths (r, f, w) = (e, s')" "honest w" "deletes_so_far r \<le> cf_MaxDeletesPerRun cfg"
    and "\<And>k. undisturbed (env k)"
  shows "budget cfg (r, f, w) (end_flow e) s'"
proof (cases "paths = [] \<or> cf_BackendKind cfg = BackendStandalone")
  case True
  then show ?thesis using assms budget_refl by (auto simp: sweepOrphanManifest_def)
next
  case False
  then have run: "sweep_chunks (manifest_chunk cfg dryRun) env 0 (chunks_of (batch_size cfg) paths) (r, f, w) = (e, s')"
    using assms(1) by (auto simp: sweepOrphanManifest_def)
  show ?thesis
    by (rule sweep_chunks_budget [OF run assms(2-4)]) (metis manifest_chunk_budget prod.collapse)
qed

lemma sweepOrphanStorage_budget:
  assumes "sweepOrphanStorage cfg hb dryRun env cs (r, f, w) = (e, s')" "honest w" "deletes_so_far r \<le> cf_MaxDeletesPerRun cfg"
    and "\<And>k. undisturbed (env k)"
  shows "budget cfg (r, f, w) (end_flow e) s'"
proof (cases "cs = [] \<or> cf_BackendKind cfg = BackendStandalone")
  case True
  then show ?thesis using assms budget_refl by (auto simp: sweepOrphanStorage_def)
next
  case False
  then have run: "sweep_chunks (storage_chunk cfg hb dryRun) env 0 (chunks_of (batch_size cfg) (storage_candidates cfg cs)) (r, f, w) = (e, s')"
    using assms(1) by (auto simp: sweepOrphanStorage_def)
  show ?thesis
    by (rule sweep_chunks_budget [OF run assms(2-4)]) (metis storage_chunk_budget prod.collapse)
qed

lemma deletes_markAborted [simp]: "deletes_so_far (markAborted e r) = deletes_so_far r"
  by (simp add: markAborted_def deletes_so_far_def)

lemma reconcile_sweeps_budget:
  assumes "reconcile_sweeps cfg dryRun E d (r0, f, w) = (e, r, f', w')" "honest w" "deletes_so_far r0 \<le> cf_MaxDeletesPerRun cfg"
    and "\<And>k. undisturbed (re_manifest E k)" "\<And>k. undisturbed (re_storage E k)"
  shows "r \<noteq> None \<and> budget cfg (r0, f, w) (end_flow e) (the r, f', w')"
proof -
  obtain e1 r1 f1 w1 where m: "sweepOrphanManifest cfg dryRun (re_manifest E) (di_orphanManifest d) (r0, f, w) = (e1, r1, f1, w1)"
    by (cases "sweepOrphanManifest cfg dryRun (re_manifest E) (di_orphanManifest d) (r0, f, w)")
  note b1 = sweepOrphanManifest_budget [OF m assms(2,3,4)]
  have marked: "budget cfg s fl (markAborted x r, f, w) = budget cfg s fl (r, f, w)" for s fl x r f and w :: "'a world"
    by (cases s) (simp add: budget_def)
  show ?thesis
  proof (cases e1)
    case (Some x)
    then have "e = Some x" "r = Some (markAborted x r1)" "f' = f1" "w' = w1"
      using assms(1) m by (auto simp: reconcile_sweeps_def finish_sweep_def)
    then show ?thesis using b1 Some by (simp add: marked)
  next
    case None
    obtain e2 r2 f2 w2 where s: "sweepOrphanStorage cfg (re_hasBatchDelete E) dryRun (re_storage E) (di_orphanStorage d) (r1, f1, w1) = (e2, r2, f2, w2)"
      by (cases "sweepOrphanStorage cfg (re_hasBatchDelete E) dryRun (re_storage E) (di_orphanStorage d) (r1, f1, w1)")
    have "honest w1" "deletes_so_far r1 \<le> cf_MaxDeletesPerRun cfg" using b1 by (auto simp: budget_def)
    note b2 = sweepOrphanStorage_budget [OF s this assms(5)]
    have "budget cfg (r0, f, w) (end_flow e2) (r2, f2, w2)"
      using budget_trans [OF _ b2] b1 None by (simp add: end_flow_def)
    moreover have "e = e2" "r = Some (case e2 of None \<Rightarrow> r2 | Some x \<Rightarrow> markAborted x r2)" "f' = f2" "w' = w2"
      using assms(1) m None s by (auto simp: reconcile_sweeps_def finish_sweep_def split: option.splits)
    ultimately show ?thesis by (cases e2) (simp_all add: marked)
  qed
qed

lemma walk_prefixes_honest: "walk_prefixes V ps seen w = (res, w1) \<Longrightarrow> honest w \<Longrightarrow> honest w1"
proof (induction ps arbitrary: seen w res)
  case (Cons p ps)
  obtain l w2 where l: "listPrefix V p w = (l, w2)" by (cases "listPrefix V p w")
  have h: "honest w2"
    using l honest_ops(2) Cons.prems(2) by (auto simp: listPrefix_def split: prod.splits option.splits)
  have "w1 = w \<or> (\<exists>seen' res'. walk_prefixes V ps seen' w2 = (res', w1))"
    using Cons.prems(1) l by (auto split: if_splits option.splits prod.splits)
  then show ?case using Cons.IH h Cons.prems(2) by blast
qed simp

lemma walkStorage_honest: "walkStorage cfg V keys w = (res, w1) \<Longrightarrow> honest w \<Longrightarrow> honest w1"
  using walk_prefixes_honest by (fastforce simp: walkStorage_def split: prod.splits option.splits)


end
