(* ===== verification/Compaction_Cluster.thy ===== *)
theory Compaction_Cluster
  imports Compaction_Watcher
begin

text \<open>
  Compaction and the cluster together: what a job does to the storage, what its completion
  manifest makes of the cluster's file manifest, and where the two come apart.
\<close>

section \<open>What a completion manifest says of the storage\<close>

text \<open>
  The files that a completion manifest lists as deleted are gone, and none of them is a path that
  the job is going to write.
\<close>

definition deleted_gone :: "string set \<Rightarrow> completion world \<Rightarrow> bool" where
  "deleted_gone K w \<longleftrightarrow> (\<forall>p. listed_deleted (w_comp w) p \<longrightarrow> w_store w p = None \<and> p \<notin> K)"

lemma deleted_gone_store:
  assumes "deleted_gone K w" "w_comp w1 = w_comp w" "\<forall>p. p \<notin> K \<longrightarrow> w_store w p = None \<longrightarrow> w_store w1 p = None"
  shows "deleted_gone K w1"
  using assms by (auto simp: deleted_gone_def)

lemma deleted_gone_comp:
  assumes "deleted_gone K w" "w_store w1 = w_store w" "w_comp w1 = w_comp w \<or> w_comp w1 = (w_comp w)(q \<mapsto> m)"
    and "cm_state m = SourcesDeleted \<longrightarrow> (\<forall>p\<in>set (cm_deleted m). w_store w p = None \<and> p \<notin> K)"
  shows "deleted_gone K w1"
proof -
  have "listed_deleted (w_comp w) p \<or> (cm_state m = SourcesDeleted \<and> p \<in> set (cm_deleted m))"
    if "listed_deleted (w_comp w1) p" for p
    using that assms(3) by (auto simp: listed_deleted_def split: if_splits)
  then show ?thesis using assms(1,2,4) unfolding deleted_gone_def by metis
qed

lemma drop_keys_None: "s p = None \<Longrightarrow> drop_keys D s p = None"
  by (simp add: drop_keys_def restrict_map_def)

lemma writeCompletion_comp:
  "writeCompletionManifest m w = (ok, w1) \<Longrightarrow> w_store w1 = w_store w \<and>
   (w_comp w1 = w_comp w \<or> w_comp w1 = (w_comp w)(completion_path (cm_job m) \<mapsto> m))"
  using comp_write_cases by (fastforce simp: writeCompletionManifest_def split: if_splits)

lemma writeOutputWritten_gone:
  assumes "writeOutputWrittenManifest j ev c w = (ok, w1)" "deleted_gone K w"
  shows "deleted_gone K w1"
proof -
  let ?m = "(initial_completion j ev)\<lparr>cm_state := OutputWritten, cm_outputs := [job_output j ev c]\<rparr>"
  obtain b w2 where o: "os_ok w = (b, w2)" by (cases "os_ok w")
  have w2: "w_store w2 = w_store w" "w_comp w2 = w_comp w" using os_ok_cases [OF o] by (auto simp: stores_def)
  show ?thesis
  proof (cases b)
    case True
    then have "writeCompletionManifest ?m w2 = (ok, w1)" using assms(1) o by (simp add: writeOutputWrittenManifest_def)
    from writeCompletion_comp [OF this] w2 show ?thesis by (intro deleted_gone_comp [OF assms(2)]) auto
  qed (use assms o w2 in \<open>auto simp: writeOutputWrittenManifest_def deleted_gone_def\<close>)
qed

lemma writeSourcesDeleted_gone:
  assumes "writeSourcesDeletedManifest j ev ins w = (ok, w1)" "deleted_gone K w"
    and "\<forall>p\<in>set ins. w_store w p = None \<and> p \<notin> K"
  shows "deleted_gone K w1"
proof -
  obtain prev w2 where r: "comp_read (completion_path (jb_id j)) w = (prev, w2)" by (cases "comp_read (completion_path (jb_id j)) w")
  have w2: "w_store w2 = w_store w" "w_comp w2 = w_comp w" using comp_read_cases [OF r] by (auto simp: stores_def)
  show ?thesis
  proof (cases prev)
    case None
    then show ?thesis using assms(1,2) r w2 by (auto simp: writeSourcesDeletedManifest_def deleted_gone_def)
  next
    case (Some m)
    let ?m = "m\<lparr>cm_state := SourcesDeleted, cm_deleted := ins, cm_updated := ev_now ev\<rparr>"
    have "writeCompletionManifest ?m w2 = (ok, w1)" using assms(1) r Some by (simp add: writeSourcesDeletedManifest_def)
    from writeCompletion_comp [OF this] w2 assms(3) show ?thesis by (intro deleted_gone_comp [OF assms(2)]) auto
  qed
qed

lemma DeleteManifest_gone:
  assumes "DeleteManifest p (mm, w) = (ok, mm1, w1)" "deleted_gone K w"
  shows "deleted_gone K w1" "w_store w q = None \<Longrightarrow> w_store w1 q = None"
proof -
  obtain b w2 where d: "be_delete p w = (b, w2)" by (cases "be_delete p w")
  then have "w1 = w2" using assms(1) by (auto simp: DeleteManifest_def split: bool.splits)
  moreover have "w_comp w2 = w_comp w" "\<And>q. w_store w q = None \<Longrightarrow> w_store w2 q = None"
    using be_delete_cases [OF d, of True] drop_keys_None by auto
  ultimately show "deleted_gone K w1" "w_store w q = None \<Longrightarrow> w_store w1 q = None"
    using deleted_gone_store [OF assms(2)] by auto
qed

text \<open>A write changes one path at most.\<close>

lemma be_write_gone:
  assumes "be_write p c w = (ok, w1)" "deleted_gone K w" "p \<in> K"
  shows "deleted_gone K w1"
proof -
  obtain a w0 where a: "next_answer w = (a, w0)" by (cases "next_answer w")
  have "w_comp w1 = w_comp w \<and> (\<forall>q. q \<noteq> p \<longrightarrow> w_store w1 q = w_store w q)"
    using assms(1) a next_answer_frame [OF a] by (cases a) (auto simp: be_write_def)
  then show ?thesis using assms(3) by (intro deleted_gone_store [OF assms(2)]) auto
qed

section \<open>The stages of a job\<close>

lemma run_delete_gone:
  assumes "run_delete j ev mpath ins (mm, w) = (r, mm1, w1)" "deleted_gone K w" "set ins \<inter> K = {}"
  shows "deleted_gone K w1"
proof -
  obtain ok w2 where d: "deleteOldFiles ins w = (ok, w2)" by (cases "deleteOldFiles ins w")
  have w2: "w_comp w2 = w_comp w \<and> (\<forall>p. w_store w p = None \<longrightarrow> w_store w2 p = None) \<and> (ok \<longrightarrow> (\<forall>p\<in>set ins. w_store w2 p = None))"
  proof (cases "ins = []")
    case False
    then have "be_delete_batch ins w = (ok, w2)" using d by (simp add: deleteOldFiles_def)
    note c = be_delete_batch_cases [OF this, of True]
    then show ?thesis by (auto simp: drop_keys_def restrict_map_def)
  qed (use d in \<open>auto simp: deleteOldFiles_def\<close>)
  then have g2: "deleted_gone K w2" by (intro deleted_gone_store [OF assms(2)]) auto
  show ?thesis
  proof (cases ok)
    case False
    then show ?thesis using assms(1) d g2 by (simp add: run_delete_def)
  next
    case True
    define st2 where "st2 = (case mpath of None \<Rightarrow> (mm, w2) | Some p \<Rightarrow> snd (DeleteManifest p (mm, w2)))"
    have st2: "deleted_gone K (snd st2)" "\<forall>p\<in>set ins. w_store (snd st2) p = None"
      using g2 w2 True DeleteManifest_gone by (auto simp: st2_def split: option.splits) (metis prod.collapse)+
    obtain b w4 where wd: "writeSourcesDeletedManifest j ev ins (snd st2) = (b, w4)"
      by (cases "writeSourcesDeletedManifest j ev ins (snd st2)")
    have "w1 = (if jb_cluster j then w4 else snd st2)"
      using assms(1) d True wd by (cases "jb_cluster j"; cases mpath) (auto simp: run_delete_def st2_def Let_def)
    then show ?thesis using st2 writeSourcesDeleted_gone [OF wd st2(1)] assms(3) by auto
  qed
qed

lemma run_upload_gone:
  assumes "run_upload j ev mpath c ins (mm, w) = (r, mm1, w1)" "deleted_gone K w" "set ins \<inter> K = {}" "output_key j ev \<in> K"
  shows "deleted_gone K w1"
proof -
  obtain ok w2 where u: "uploadFile (output_key j ev) c w = (ok, w2)" by (cases "uploadFile (output_key j ev) c w")
  obtain b w0 where o: "os_ok w = (b, w0)" by (cases "os_ok w")
  have "deleted_gone K w0" using os_ok_cases [OF o] assms(2) by (auto simp: stores_def deleted_gone_def)
  then have g2: "deleted_gone K w2"
    using u o be_write_gone [OF _ _ assms(4)] by (cases b) (auto simp: uploadFile_def)
  show ?thesis
  proof (cases ok)
    case False
    then show ?thesis
      using assms(1) u g2 DeleteManifest_gone(1) by (auto simp: run_upload_def split: option.splits) (metis prod.collapse)
  next
    case True
    obtain b w3 where ow: "writeOutputWrittenManifest j ev c w2 = (b, w3)" by (cases "writeOutputWrittenManifest j ev c w2")
    note g3 = writeOutputWritten_gone [OF ow g2]
    consider "w1 = w3" | "run_delete j ev mpath ins (mm, w3) = (r, mm1, w1)" | "run_delete j ev mpath ins (mm, w2) = (r, mm1, w1)"
      using assms(1) u True ow by (auto simp: run_upload_def split: if_splits bool.splits)
    then show ?thesis using run_delete_gone [OF _ _ assms(3)] g2 g3 by cases blast+
  qed
qed

lemma run_manifest_gone:
  assumes "run_manifest J j ev c ins (mm, w) = (r, mm1, w1)" "deleted_gone K w" "set ins \<inter> K = {}" "{job_path j, output_key j ev} \<subseteq> K"
  shows "deleted_gone K w1"
proof (cases "jb_managed j")
  case False
  then show ?thesis using assms run_upload_gone by (auto simp: run_manifest_def)
next
  case True
  let ?m = "job_manifest j ev c ins"
  have path: "GenerateManifestPath (mf_tier ?m) (mf_database ?m) (mf_partition ?m) (mf_job ?m) = job_path j"
    by (simp add: job_path_def job_manifest_def)
  obtain ok w2 where wr: "be_write (job_path j) (mj_marshal J ?m) w = (ok, w2)" by (cases "be_write (job_path j) (mj_marshal J ?m) w")
  have "deleted_gone K w2" by (rule be_write_gone [OF wr assms(2)]) (use assms(4) in auto)
  then show ?thesis
    using assms(1,3,4) True wr run_upload_gone
    by (cases ok) (auto simp: run_manifest_def WriteManifest_def path Let_def)
qed

text \<open>Before its manifest a job changes nothing but the first completion manifest.\<close>

lemma downloadSingleFile_stores:
  assumes "downloadSingleFile key w = (r, w1)"
  shows "stores w1 = stores w"
proof -
  obtain b1 w2 where o1: "os_ok w = (b1, w2)" by (cases "os_ok w")
  obtain d w3 where rd: "be_read key (temp_write (Base key) [] w2) = (d, w3)" by (cases "be_read key (temp_write (Base key) [] w2)")
  obtain e w4 where ex: "be_exists key (temp_remove (Base key) w3) = (e, w4)" by (cases "be_exists key (temp_remove (Base key) w3)")
  have s3: "stores w2 = stores w" "stores w3 = stores w"
    using os_ok_cases [OF o1, of True] be_read_cases [OF rd, of True] by auto
  have "stores w4 = stores w" using be_exists_cases [OF ex, of True] s3 by (auto simp: temp_remove_def stores_def)
  moreover have o5: "stores w5 = stores w" if "os_ok (temp_write (Base key) c w3) = (b5, w5)" for c b5 w5
    using os_ok_cases [OF that, of True] s3 by auto
  moreover have "stores w6 = stores w" if "os_ok (temp_write (Base key) c w3) = (b5, w5)" "os_ok w5 = (b6, w6)" for c b5 w5 b6 w6
    using os_ok_cases [OF that(2), of True] o5 [OF that(1)] by simp
  ultimately show ?thesis
    using assms o1 rd ex s3
    by (auto simp: downloadSingleFile_def Let_def split: bool.splits option.splits prod.splits)
qed

lemma download_each_stores: "download_each fls is w = (rs, w1) \<Longrightarrow> stores w1 = stores w"
proof (induction "is" arbitrary: w rs)
  case (Cons i "is")
  obtain r w2 where d: "downloadSingleFile (fls ! i) w = (r, w2)" by (cases "downloadSingleFile (fls ! i) w")
  obtain rs' where "download_each fls is w2 = (rs', w1)" using Cons.prems d by (auto split: prod.splits)
  from Cons.IH [OF this] downloadSingleFile_stores [OF d] show ?case by simp
qed simp

lemma compactFiles_inputs: "compactFiles ev fs w = Some (c, ins) \<Longrightarrow> set ins \<subseteq> set (map fst fs)"
  by (auto simp: compactFiles_def Let_def split: if_splits option.splits)

lemma downloadFiles_stores:
  assumes "downloadFiles fls order w = (fso, w1)"
  shows "stores w1 = stores w" "fso = Some fs \<Longrightarrow> set (map fst fs) \<subseteq> set fls"
proof -
  obtain rs where rs: "download_each fls order w = (rs, w1)"
    using assms by (auto simp: downloadFiles_def split: prod.splits if_splits)
  show "stores w1 = stores w" by (rule download_each_stores [OF rs])
  show "set (map fst fs) \<subseteq> set fls" if "fso = Some fs"
    using assms rs that
    by (auto simp: downloadFiles_def downloaded_files_def split: if_splits option.splits download_result.splits)
qed

text \<open>
  A job either ends with the first completion manifest as its only effect, or it reaches its
  manifest with that and goes on from there.
\<close>

lemma Run_reaches:
  assumes "Run J j ev (mm, w) = (r, mm1, w1)"
  obtains w3 where "w_store w3 = w_store w"
      "w_comp w3 = w_comp w \<or> w_comp w3 = (w_comp w)(completion_path (jb_id j) \<mapsto> initial_completion j ev)"
      "w1 = w3 \<or> (\<exists>c ins. set ins \<subseteq> set (jb_files j) \<and> run_manifest J j ev c ins (mm, w3) = (r, mm1, w1))"
proof -
  let ?comp = "\<lambda>w'. w_store w' = w_store w \<and>
      (w_comp w' = w_comp w \<or> w_comp w' = (w_comp w)(completion_path (jb_id j) \<mapsto> initial_completion j ev))"
  define w0 where "w0 = (if jb_cluster j then snd (writeCompletionManifest (initial_completion j ev) w) else w)"
  note run = assms [unfolded Run_stages, folded w0_def]
  have w0: "?comp w0"
    using writeCompletion_comp [of "initial_completion j ev" w]
    by (cases "writeCompletionManifest (initial_completion j ev) w") (auto simp: w0_def initial_completion_def)
  obtain b1 w1' where o1: "os_ok w0 = (b1, w1')" by (cases "os_ok w0")
  obtain fso w2 where dl: "downloadFiles (jb_files j) (ev_order ev) w1' = (fso, w2)" by (cases "downloadFiles (jb_files j) (ev_order ev) w1'")
  obtain b3 w3 where o3: "os_ok w2 = (b3, w3)" by (cases "os_ok w2")
  have keep: "?comp w'" if "stores w' = stores w0" for w' using that w0 by (simp add: stores_def)
  have s: "stores w1' = stores w0" "stores w2 = stores w0" "stores w3 = stores w0"
    using os_ok_cases [OF o1, of True] os_ok_cases [OF o3, of True] downloadFiles_stores(1) [OF dl] by auto
  have "w1 = w1' \<or> w1 = w2 \<or> w1 = w3 \<or> (\<exists>c ins. set ins \<subseteq> set (jb_files j) \<and> run_manifest J j ev c ins (mm, w3) = (r, mm1, w1))"
  proof (cases "b1 \<and> fso \<noteq> None \<and> fso \<noteq> Some [] \<and> compactFiles ev (the fso) w2 \<noteq> None \<and> b3")
    case True
    then obtain fs c ins where go: "fso = Some fs" "fs \<noteq> []" "compactFiles ev fs w2 = Some (c, ins)" by (cases fso) auto
    then have "run_manifest J j ev c ins (mm, w3) = (r, mm1, w1)"
      using run o1 dl o3 True by simp
    moreover have "set ins \<subseteq> set (jb_files j)"
      using compactFiles_inputs [OF go(3)] downloadFiles_stores(2) [OF dl go(1)] by blast
    ultimately show ?thesis by blast
  next
    case False
    then show ?thesis
      using run o1 dl o3 by (auto split: bool.splits option.splits if_splits)
  qed
  then show ?thesis using that s keep by metis
qed

lemma Run_gone:
  assumes "Run J j ev (mm, w) = (r, mm1, w1)" "deleted_gone K w" "set (jb_files j) \<inter> K = {}" "{job_path j, output_key j ev} \<subseteq> K"
  shows "deleted_gone K w1"
proof -
  from Run_reaches [OF assms(1)] obtain w3 where w3: "w_store w3 = w_store w"
      "w_comp w3 = w_comp w \<or> w_comp w3 = (w_comp w)(completion_path (jb_id j) \<mapsto> initial_completion j ev)"
      "w1 = w3 \<or> (\<exists>c ins. set ins \<subseteq> set (jb_files j) \<and> run_manifest J j ev c ins (mm, w3) = (r, mm1, w1))" .
  have "deleted_gone K w3" by (rule deleted_gone_comp [OF assms(2) w3(1,2)]) (simp add: initial_completion_def)
  then show ?thesis using w3(3) run_manifest_gone [OF _ _ _ assms(4)] assms(3) by blast
qed

section \<open>The manifest never drops a file that is stored\<close>

definition watching :: "watch_event \<Rightarrow> bool" where
  "watching e = (case e of Advance _ _ \<Rightarrow> False | _ \<Rightarrow> True)"

text \<open>
  C21. A file leaves the cluster's file manifest only when the storage no longer holds it: at
  whatever operation of a job one looks (its process may be dead by then), and however often the
  watcher polls, sweeps and is restarted, with whatever answers, a path that the manifest knew
  before and does not know afterwards has no object.
\<close>

theorem cluster_keeps_stored_files:
  assumes "Run J j ev (mm, w) = (r, mm1, w1)" "deleted_gone {job_path j, output_key j ev} w"
    and "job_apart (w_store w) j ev" "wa_dir wa = w_comp w1" "list_all watching es"
    and "wa' = fold (watch_step nodeID listing) es wa"
    and "files (wa_fsm wa) p \<noteq> None" "files (wa_fsm wa') p = None"
  shows "w_store w1 p = None"
proof -
  have "set (jb_files j) \<inter> {job_path j, output_key j ev} = {}" using assms(3) by (auto simp: job_apart_def)
  from Run_gone [OF assms(1,2) this] have g: "deleted_gone {job_path j, output_key j ev} w1" by simp
  then have "\<forall>q. listed_deleted (wa_dir wa) q \<longrightarrow> w_store w1 q = None" using assms(4) by (simp add: deleted_gone_def)
  from watch_steps_drop [OF this assms(5) [unfolded watching_def]] assms(6-8) show ?thesis
    unfolding drops_listed_def by blast
qed

section \<open>A finished job reaches the cluster\<close>

text \<open>The manifest is read, its batch committed, and it can be removed.\<close>

definition good_env :: "watch_env \<Rightarrow> bool" where
  "good_env env \<longleftrightarrow> we_readable env \<and> we_remove env \<and> (case we_raft env of Committed _ \<Rightarrow> True | _ \<Rightarrow> False)"

definition with_output :: "string \<Rightarrow> compacted_output \<Rightarrow> (string \<rightharpoonup> file_entry) \<Rightarrow> u64 \<Rightarrow> (string \<rightharpoonup> file_entry)" where
  "with_output n out fs i = fs(co_path out \<mapsto> known_entry n i out)"

text \<open>
  How far the cluster is with a job whose completion manifest \<open>m\<close> is at \<open>path\<close>; \<open>fs\<close> is its file
  manifest of before.
\<close>

definition applied :: "string \<Rightarrow> compacted_output \<Rightarrow> (string \<rightharpoonup> file_entry) \<Rightarrow> string set \<Rightarrow> (string \<rightharpoonup> file_entry) \<Rightarrow> bool" where
  "applied n out fs D fs' \<longleftrightarrow> (\<exists>i. fs' = removed_from D (with_output n out fs i))"

definition progress :: "string \<Rightarrow> compacted_output \<Rightarrow> (string \<rightharpoonup> file_entry) \<Rightarrow> string \<Rightarrow> completion \<Rightarrow> watcher \<Rightarrow> bool" where
  "progress n out fs path m wa \<longleftrightarrow>
     (wa_dir wa = [path \<mapsto> m] \<and>
        (files (wa_fsm wa) = fs \<and> cm_job m \<notin> wa_registered wa \<or> applied n out fs {} (files (wa_fsm wa)) \<or>
         cm_state m = SourcesDeleted \<and> applied n out fs (set (cm_deleted m)) (files (wa_fsm wa)))) \<or>
     (wa_dir wa = Map.empty \<and> cm_state m = SourcesDeleted \<and> applied n out fs (set (cm_deleted m)) (files (wa_fsm wa)))"

lemma removed_from_empty [simp]: "removed_from {} fs = fs"
  by (simp add: removed_from_def restrict_map_def)

text \<open>Applying once more, or only now.\<close>

lemma with_output_again:
  "co_path out \<notin> D \<Longrightarrow> (removed_from D (with_output n out fs k))(co_path out \<mapsto> known_entry n i out) = removed_from D (with_output n out fs i)"
  by (auto simp: removed_from_def restrict_map_def with_output_def)

lemma removed_twice [simp]: "removed_from D (removed_from D fs) = removed_from D fs"
  by (simp add: removed_from_def)

text \<open>
  A batch with all that is left to do: the output, unless it is registered, and the files to be
  deleted, if the job has come that far.
\<close>

lemma batch_progress:
  assumes "co_path out \<notin> set dels"
    and "fs' = fs \<and> regs = [out] \<or> (applied n out fs {} fs' \<or> D = set dels \<and> applied n out fs (set dels) fs') \<and> (regs = [] \<or> regs = [out])"
    and "D = {} \<or> D = set dels"
  shows "applied n out fs D (removed_from D (registered_in n i regs fs'))"
proof -
  note again = with_output_again [of out "{}" n fs, unfolded removed_from_empty] with_output_again [OF assms(1), of n fs]
  have "registered_in n i regs fs' = with_output n out fs i \<or> (\<exists>k. registered_in n i regs fs' = with_output n out fs k) \<or>
      D = set dels \<and> (\<exists>k. registered_in n i regs fs' = removed_from D (with_output n out fs k))"
    using assms(2) again by (auto simp: applied_def registered_in_def with_output_def)
  then show ?thesis using assms(3) by (auto simp: applied_def)
qed

lemma listing_dir: "lists_set listing \<Longrightarrow> listing (dom [path \<mapsto> m]) = [path]" "lists_set listing \<Longrightarrow> listing (dom Map.empty) = []"
  using lists_singleton by (auto simp: lists_set_def)

lemma BatchFileOps_result:
  assumes "ValidateManifestPath (co_path out) = None" "regs = [] \<or> regs = [out]" "list_all (\<lambda>d. fst d \<noteq> []) ds"
    and "\<not> (regs = [] \<and> ds = [])" "BatchFileOps n ans regs ds f = (r, f')"
  shows "(\<exists>i. files f' = removed_from (fst ` set ds) (registered_in n i regs (files f))) \<or> r \<noteq> BridgeOk \<and> f' = f"
    and "(case ans of Committed _ \<Rightarrow> True | _ \<Rightarrow> False) \<Longrightarrow> r = BridgeOk"
proof -
  have ok: "err (applyBatchFileOps (Some (bridge_ops n regs ds)) i f) = None \<and>
      files (st (applyBatchFileOps (Some (bridge_ops n regs ds)) i f)) = removed_from (fst ` set ds) (registered_in n i regs (files f))" for i
    by (rule bridge_batch) (use assms in auto)
  have ne: "bridge_ops n regs ds \<noteq> []" using assms(4) by (simp add: bridge_ops_def)
  show "(\<exists>i. files f' = removed_from (fst ` set ds) (registered_in n i regs (files f))) \<or> r \<noteq> BridgeOk \<and> f' = f"
    using assms(5) ne ok by (cases ans) (auto simp: BatchFileOps_def BatchFileOpsInManifest_def Let_def)
  show "r = BridgeOk" if "case ans of Committed _ \<Rightarrow> True | _ \<Rightarrow> False"
    using that assms(5) ne ok by (cases ans) (auto simp: BatchFileOps_def BatchFileOpsInManifest_def Let_def)
qed

lemma applyOne_progress:
  assumes "progress n out fs path m wa" "wa_dir wa = [path \<mapsto> m]" "cm_outputs m = [out]" "ValidateManifestPath (co_path out) = None"
    and "cm_state m \<noteq> WritingOutput" "[] \<notin> set (cm_deleted m)" "co_path out \<notin> set (cm_deleted m)"
  shows "progress n out fs path m (applyOne n env path wa) \<and>
    (good_env env \<and> cm_state m = SourcesDeleted \<and> cm_deleted m \<noteq> [] \<longrightarrow> wa_dir (applyOne n env path wa) = Map.empty)"
proof -
  let ?D = "if cm_state m = SourcesDeleted then set (cm_deleted m) else {}"
  define regs where "regs = (if cm_job m \<in> wa_registered wa then [] else cm_outputs m)"
  define dels where "dels = (if cm_state m = SourcesDeleted then map (\<lambda>p. (p, delete_reason m)) (cm_deleted m) else [])"
  have regs: "regs = [] \<or> regs = [out]" "regs = [] \<longleftrightarrow> cm_job m \<in> wa_registered wa" using assms(3) by (auto simp: regs_def)
  have dels: "list_all (\<lambda>d. fst d \<noteq> []) dels" "fst ` set dels = ?D" using assms(6) by (auto simp: dels_def list_all_iff image_image)
  have st: "files (wa_fsm wa) = fs \<and> cm_job m \<notin> wa_registered wa \<or> applied n out fs {} (files (wa_fsm wa)) \<or>
      ?D = set (cm_deleted m) \<and> applied n out fs (set (cm_deleted m)) (files (wa_fsm wa))"
    using assms(1,2) by (auto simp: progress_def)
  show ?thesis
  proof (cases "we_readable env \<and> \<not> (regs = [] \<and> dels = [])")
    case False
    then have "applyOne n env path wa = wa" using assms(2,5) by (auto simp: applyOne_def Let_def regs_def [symmetric] dels_def [symmetric])
    moreover have "\<not> (good_env env \<and> cm_state m = SourcesDeleted \<and> cm_deleted m \<noteq> [])"
      using False by (auto simp: good_env_def dels_def)
    ultimately show ?thesis using assms(1) by argo
  next
    case True
    obtain r f where b: "BatchFileOps n (we_raft env) regs dels (wa_fsm wa) = (r, f)" by (cases "BatchFileOps n (we_raft env) regs dels (wa_fsm wa)")
    have nr: "\<not> (regs = [] \<and> dels = [])" using True by blast
    note res = BatchFileOps_result [OF assms(4) regs(1) dels(1) nr b, unfolded dels(2)]
    have f: "applied n out fs ?D (files f) \<or> r \<noteq> BridgeOk \<and> f = wa_fsm wa"
    proof -
      have "applied n out fs ?D (removed_from ?D (registered_in n i regs (files (wa_fsm wa))))" for i
        by (rule batch_progress [OF assms(7)]) (use st regs in auto)
      then show ?thesis using res(1) by metis
    qed
    let ?after = "\<lambda>f. let wa1 = wa\<lparr>wa_fsm := f, wa_registered := (if regs = [] then wa_registered wa else insert (cm_job m) (wa_registered wa))\<rparr>
        in if cm_state m \<noteq> SourcesDeleted then wa1
           else if we_remove env then wa1\<lparr>wa_dir := (wa_dir wa1)(path := None), wa_registered := wa_registered wa1 - {cm_job m}\<rparr>
           else wa1"
    have "applyOne n env path wa = (if regs = [] \<and> dels = [] then wa
        else case BatchFileOps n (we_raft env) regs dels (wa_fsm wa) of (BridgeOk, f) \<Rightarrow> ?after f | (_, f) \<Rightarrow> wa\<lparr>wa_fsm := f\<rparr>)"
      unfolding regs_def dels_def using True assms(2,5) by (simp only: applyOne_def fun_upd_same if_True option.case Let_def simp_thms if_False)
    then have "applyOne n env path wa = (case r of BridgeOk \<Rightarrow> ?after f | _ \<Rightarrow> wa\<lparr>wa_fsm := f\<rparr>)"
      by (simp only: if_not_P [OF nr] b prod.case)
    then show ?thesis
      using f st assms(2) res(2) by (cases r) (auto simp: progress_def good_env_def Let_def split: if_splits)
  qed
qed

text \<open>What a job's completion manifest is like: one output, with a valid path and none of the inputs.\<close>

definition well_formed :: "completion \<Rightarrow> compacted_output \<Rightarrow> bool" where
  "well_formed m out \<longleftrightarrow> cm_outputs m = [out] \<and> ValidateManifestPath (co_path out) = None \<and> cm_state m \<noteq> WritingOutput \<and>
     [] \<notin> set (cm_deleted m) \<and> co_path out \<notin> set (cm_deleted m)"

lemma poll_lone:
  assumes "lists_set listing" "has_suffix ''.json'' path"
  shows "wa_dir wa = [path \<mapsto> m] \<Longrightarrow> poll n listing env wa = applyOne n (env path) path wa"
    "wa_dir wa = Map.empty \<Longrightarrow> poll n listing env wa = wa"
  using assms listing_dir [OF assms(1)] by (simp_all add: poll_def)

lemma watch_step_progress:
  assumes "progress n out fs path m wa" "well_formed m out" "lists_set listing" "has_suffix ''.json'' path" "watching e"
  shows "progress n out fs path m (watch_step n listing e wa)"
proof (cases e)
  case (Poll env)
  note poll = poll_lone [OF assms(3,4), where n = n and env = env]
  from assms(1) consider "wa_dir wa = [path \<mapsto> m]" | "wa_dir wa = Map.empty" by (auto simp: progress_def)
  then show ?thesis
  proof cases
    case 1
    from applyOne_progress [OF assms(1) 1, of "env path"] assms(2) show ?thesis
      by (simp add: Poll poll(1) [OF 1] well_formed_def)
  next
    case 2
    then show ?thesis using assms(1) by (simp add: Poll poll(2))
  qed
next
  case (Sweep now t env)
  have "sweep_one now t' env' q wa' = wa'" if "wa_dir wa' = [path \<mapsto> m]" for t' env' q wa'
    using that assms(2) by (auto simp: sweep_one_def well_formed_def split: option.splits if_splits)
  then have "fold (\<lambda>p. sweep_one now t' (env p) p) ps wa = wa" if "wa_dir wa = [path \<mapsto> m]" for t' ps
    using that by (induction ps) auto
  moreover have "fold (\<lambda>p. sweep_one now t' (env p) p) ps wa = wa" if "wa_dir wa = Map.empty" for t' ps
    using that by (induction ps) (auto simp: sweep_one_def)
  ultimately have "CleanupOrphanedCompletionManifests now t listing env wa = wa"
    using assms(1) by (auto simp: CleanupOrphanedCompletionManifests_def Let_def progress_def)
  then show ?thesis using assms(1) Sweep by simp
qed (use assms in \<open>auto simp: progress_def restarted_def watching_def\<close>)

lemma watch_steps_progress:
  assumes "progress n out fs path m wa" "well_formed m out" "lists_set listing" "has_suffix ''.json'' path" "list_all watching es"
  shows "progress n out fs path m (fold (watch_step n listing) es wa)"
  using assms(1,5) watch_step_progress [OF _ assms(2-4)] by (induction es arbitrary: wa) auto

text \<open>
  What a finished job did reaches the cluster, whatever went wrong on the way: the watcher
  may have polled any number of times before and after the job deleted its inputs, been restarted,
  found manifests unreadable, been without a leader, seen batches fail, or be committed although
  it was told otherwise.  One poll that succeeds then leaves the file manifest as it was before
  the job, with the output in it and without the inputs, and no completion manifest behind.
\<close>

theorem watcher_completes_job:
  assumes "wa_dir wa = [path \<mapsto> m1]" "cm_state m1 = OutputWritten" "cm_job m1 \<notin> wa_registered wa"
    and "m2 = m1\<lparr>cm_state := SourcesDeleted, cm_deleted := ins, cm_updated := t\<rparr>"
    and "well_formed m1 out" "well_formed m2 out" "ins \<noteq> []" "lists_set listing" "has_suffix ''.json'' path"
    and "list_all watching es1" "list_all watching es2" "good_env (env path)"
    and "wa' = fold (watch_step n listing) (es1 @ Advance path m2 # es2 @ [Poll env]) wa"
  shows "wa_dir wa' = Map.empty \<and>
    (\<exists>i. files (wa_fsm wa') = removed_from (set ins) ((files (wa_fsm wa))(co_path out \<mapsto> known_entry n i out)))"
proof -
  let ?fs = "files (wa_fsm wa)"
  define wa1 where "wa1 = fold (watch_step n listing) es1 wa"
  define wa2 where "wa2 = fold (watch_step n listing) es2 (wa1\<lparr>wa_dir := (wa_dir wa1)(path \<mapsto> m2)\<rparr>)"
  have m2: "cm_state m2 = SourcesDeleted" "cm_deleted m2 = ins" "cm_job m2 = cm_job m1" using assms(4) by auto
  have "progress n out ?fs path m1 wa" using assms(1,3) by (simp add: progress_def)
  then have "progress n out ?fs path m1 wa1"
    unfolding wa1_def by (rule watch_steps_progress [OF _ assms(5,8-10)])
  then have "progress n out ?fs path m2 (wa1\<lparr>wa_dir := (wa_dir wa1)(path \<mapsto> m2)\<rparr>)"
    using assms(2) m2 by (auto simp: progress_def)
  then have p2: "progress n out ?fs path m2 wa2"
    unfolding wa2_def by (rule watch_steps_progress [OF _ assms(6,8,9,11)])
  have wa': "wa' = poll n listing env wa2" using assms(13) by (simp add: wa1_def wa2_def)
  have p3: "progress n out ?fs path m2 wa'"
    using watch_step_progress [OF p2 assms(6,8,9), of "Poll env"] wa' by (simp add: watching_def)
  have "wa_dir wa' = Map.empty"
  proof (cases "wa_dir wa2 = Map.empty")
    case True
    then show ?thesis using wa' poll_lone(2) [OF assms(8,9)] by simp
  next
    case False
    then have d: "wa_dir wa2 = [path \<mapsto> m2]" using p2 by (auto simp: progress_def)
    from applyOne_progress [OF p2 d, of "env path"] assms(6,7,12) m2 show ?thesis
      unfolding wa' poll_lone(1) [OF assms(8,9) d] by (simp add: well_formed_def)
  qed
  moreover have "Map.empty \<noteq> [path \<mapsto> m2]" by (metis fun_upd_same option.distinct(1))
  ultimately show ?thesis using p3 m2 by (simp add: progress_def applied_def with_output_def)
qed

section \<open>Where storage and cluster come apart\<close>

lemma fold_writing:
  assumes "\<And>x wa. (\<forall>q m. wa_dir wa q = Some m \<longrightarrow> cm_state m = WritingOutput) \<Longrightarrow>
      wa_fsm (g x wa) = wa_fsm wa \<and> (\<forall>q m. wa_dir (g x wa) q = Some m \<longrightarrow> cm_state m = WritingOutput)"
    and "\<forall>q m. wa_dir wa q = Some m \<longrightarrow> cm_state m = WritingOutput"
  shows "wa_fsm (fold g xs wa) = wa_fsm wa \<and> (\<forall>q m. wa_dir (fold g xs wa) q = Some m \<longrightarrow> cm_state m = WritingOutput)"
  using assms(2)
proof (induction xs arbitrary: wa)
  case (Cons x xs)
  from assms(1) [OF Cons.prems] Cons.IH [of "g x wa"] show ?case by simp
qed simp

lemma watch_step_writing:
  assumes "\<forall>q m. wa_dir wa q = Some m \<longrightarrow> cm_state m = WritingOutput" "watching e"
  shows "wa_fsm (watch_step n listing e wa) = wa_fsm wa \<and> (\<forall>q m. wa_dir (watch_step n listing e wa) q = Some m \<longrightarrow> cm_state m = WritingOutput)"
proof (cases e)
  case (Poll env)
  have "wa_fsm (applyOne n env path wa) = wa_fsm wa \<and> (\<forall>q m. wa_dir (applyOne n env path wa) q = Some m \<longrightarrow> cm_state m = WritingOutput)"
    if "\<forall>q m. wa_dir wa q = Some m \<longrightarrow> cm_state m = WritingOutput" for env path wa
    using that by (simp add: applyOne_def split: option.splits)
  note one = this
  show ?thesis unfolding Poll watch_step.simps poll_def by (rule fold_writing [OF one assms(1)])
next
  case (Sweep now t env)
  have "wa_fsm (sweep_one now t env path wa) = wa_fsm wa \<and> (\<forall>q m. wa_dir (sweep_one now t env path wa) q = Some m \<longrightarrow> cm_state m = WritingOutput)"
    if "\<forall>q m. wa_dir wa q = Some m \<longrightarrow> cm_state m = WritingOutput" for now t env path wa
    using that by (auto simp: sweep_one_def split: option.splits)
  note one = this
  show ?thesis unfolding Sweep watch_step.simps CleanupOrphanedCompletionManifests_def Let_def
    by (rule fold_writing [OF one assms(1)])
qed (use assms in \<open>auto simp: restarted_def watching_def\<close>)

lemma watch_steps_writing:
  assumes "\<forall>q m. wa_dir wa q = Some m \<longrightarrow> cm_state m = WritingOutput" "list_all watching es"
  shows "wa_fsm (fold (watch_step n listing) es wa) = wa_fsm wa"
  using assms
proof (induction es arbitrary: wa)
  case (Cons e es)
  have e: "watching e" "list_all watching es" using Cons.prems(2) by simp_all
  note one = watch_step_writing [OF Cons.prems(1) e(1), of n listing]
  from Cons.IH [OF conjunct2 [OF one] e(2)] one show ?case by simp
qed simp

text \<open>Of a job that was interrupted with its output stored.\<close>

lemma interrupted_after_upload:
  assumes "Run J j ev (mm, w) = (r, mm1, w1)" "mild True w" "jb_managed j"
    and "job_apart (w_store w) j ev" "downloads_apart j ev" "w_store w1 (output_key j ev) \<noteq> None"
  obtains ins c mo D where "merged_from (w_store w) j ev ins c" "ins \<noteq> []"
    "in_phase True J (w_store w) (job_path j) (job_manifest j ev c ins) c (w_store w1)"
    "apart (w_store w) (job_path j) (job_manifest j ev c ins)"
    "w_store w1 = shape (w_store w) (job_path j) mo (output_key j ev) (Some c) D"
proof -
  obtain ins c where m: "merged_from (w_store w) j ev ins c" "ins = [] \<longrightarrow> w_store w1 = w_store w"
    "in_phase True J (w_store w) (job_path j) (job_manifest j ev c ins) c (w_store w1)"
    using Run_phase [OF assms(1,2) _ HOL.refl assms(4,5)] assms(3) by auto
  have ap: "apart (w_store w) (job_path j) (job_manifest j ev c ins)"
    using job_apart_apart [OF assms(4)] m(1) by (simp add: merged_from_def)
  obtain mo oc D where sh: "w_store w1 = shape (w_store w) (job_path j) mo (output_key j ev) oc D" "oc = Some c \<or> oc = None"
    using m(3) by (auto simp: in_phase_def)
  then have "oc = Some c" using assms(6) ap by (auto simp: shape_def apart_def)
  moreover have "ins \<noteq> []" using m(2) assms(4,6) by (auto simp: job_apart_def)
  ultimately show ?thesis using that m ap sh(1) by blast
qed

lemma crash_after_upload_hides:
  assumes "Run J j ev (mm, w) = (r, mm1, w1)" "mild True w" "jb_managed j"
    and "job_apart (w_store w) j ev" "downloads_apart j ev" "no_manifests (w_store w) j ev"
    and "lists_set listing" "json_round_trip J"
    and "w_store w1 (output_key j ev) \<noteq> None" "w_comp w1 = [path \<mapsto> cm]" "cm_state cm = WritingOutput"
    and "RecoverOrphanedManifests J listing (mm', w1\<lparr>w_script := [], w_dead := False\<rparr>) = (r', mm2, w2)"
    and "wa_dir wa = w_comp w2" "list_all watching es"
  shows "\<exists>ins c. ins \<noteq> [] \<and> merged_from (w_store w) j ev ins c \<and>
    w_store w2 (output_key j ev) = Some c \<and> (\<forall>p\<in>set ins. w_store w2 p = None) \<and>
    wa_fsm (fold (watch_step n listing) es wa) = wa_fsm wa \<and> dom (w_store w2) \<subseteq> insert (output_key j ev) (dom (w_store w))"
proof -
  from interrupted_after_upload [OF assms(1-5,9)] obtain ins c mo D where m: "merged_from (w_store w) j ev ins c" "ins \<noteq> []"
    "in_phase True J (w_store w) (job_path j) (job_manifest j ev c ins) c (w_store w1)"
    "apart (w_store w) (job_path j) (job_manifest j ev c ins)"
    "w_store w1 = shape (w_store w) (job_path j) mo (output_key j ev) (Some c) D" .
  have lone: "lone_manifest (w_store w) (job_manifest j ev c ins)" using assms(6) by (simp add: lone_manifest_def no_manifests_def)
  let ?w = "w1\<lparr>w_script := [], w_dead := False\<rparr>"
  have final: "w_store w2 = shape (w_store w) (job_path j) None (output_key j ev) (Some c) (set ins)"
    using recovery_result [OF _ _ m(4) lone assms(7,8) _ job_path_form assms(12)] m(3) assms(9) by (simp add: calm_def)
  then have store: "w_store w2 (output_key j ev) = Some c \<and> (\<forall>p\<in>set ins. w_store w2 p = None)"
    using m(4) by (auto simp: shape_def apart_def)
  have "in_phase False J (w_store w) (job_path j) (job_manifest j ev c ins) c (w_store ?w)"
    using m(3) by (auto simp: in_phase_def)
  from RecoverOrphanedManifests_phase [OF assms(12) _ this m(4) lone assms(7)] assms(8)
  have "w_comp w2 = w_comp w1" by (simp add: mild_def json_round_trip_def)
  then have "wa_fsm (fold (watch_step n listing) es wa) = wa_fsm wa"
    using assms(10,11,13,14) by (intro watch_steps_writing) (auto split: if_splits)
  moreover have "dom (w_store w2) \<subseteq> insert (output_key j ev) (dom (w_store w))"
    unfolding final by (auto simp: shape_def split: if_splits)
  ultimately show ?thesis using m(1,2) store by blast
qed

text \<open>
  A crash between upload and confirmation hides rows from the cluster: when the process dies
  after it stored the output but before its completion manifest said so, recovery deletes the
  inputs and the manifest, but tells the cluster nothing, and the watcher never acts on the
  completion manifest left behind.  From then on the file manifest names inputs that are gone and
  not the output that holds their rows.
\<close>

theorem crash_after_upload_hides_output:
  assumes "Run J j ev (mm, w) = (r, mm1, w1)" "mild True w" "jb_managed j"
    and "job_apart (w_store w) j ev" "downloads_apart j ev" "no_manifests (w_store w) j ev"
    and "lists_set listing" "json_round_trip J"
    and "w_store w1 (output_key j ev) \<noteq> None" "w_comp w1 = [path \<mapsto> cm]" "cm_state cm = WritingOutput"
    and "RecoverOrphanedManifests J listing (mm', w1\<lparr>w_script := [], w_dead := False\<rparr>) = (r', mm2, w2)"
    and "wa_dir wa = w_comp w2" "list_all watching es"
  shows "\<exists>ins c. ins \<noteq> [] \<and> merged_from (w_store w) j ev ins c \<and>
    w_store w2 (output_key j ev) = Some c \<and> (\<forall>p\<in>set ins. w_store w2 p = None) \<and>
    wa_fsm (fold (watch_step n listing) es wa) = wa_fsm wa"
  using crash_after_upload_hides [OF assms] by blast

lemma later_without_manifests:
  assumes "later J listing w w'" "\<forall>p. is_manifest_path p \<longrightarrow> w_store w p = None" "lists_set listing"
  shows "w_store w' = w_store w"
  using assms(1)
proof (induction rule: later.induct)
  case (round w1 strict sc mm r mm2 w2)
  obtain l w3 where l: "be_list listing (ManifestBasePath @ ''/'') (w1\<lparr>w_script := sc, w_dead := False\<rparr>) = (l, w3)"
    by (cases "be_list listing (ManifestBasePath @ ''/'') (w1\<lparr>w_script := sc, w_dead := False\<rparr>)")
  note c = be_list_cases [OF l, of strict, folded is_manifest_path_def]
  have none: "{p \<in> dom (w_store (w1\<lparr>w_script := sc, w_dead := False\<rparr>)). is_manifest_path p} = {}"
    using assms(2) round.IH by auto
  have "listing {} = []" using assms(3) by (auto simp: lists_set_def)
  then have "l = None \<or> l = Some []" using c unfolding none by simp
  then have "w2 = w3" using round.hyps(3) l by (auto simp: RecoverOrphanedManifests_def ListManifests_def)
  then show ?case using c round.IH by (simp add: stores_def)
qed simp

text \<open>
  One failed read doubles rows: a recovery that cannot read the manifest of a job
  interrupted between upload and deletion, once, deletes that manifest.  The output and all its
  inputs then stay in the storage, and no later recovery changes it.
\<close>

theorem failed_read_doubles_rows:
  assumes "Run J j ev (mm, w) = (r, mm1, w1)" "mild True w" "jb_managed j"
    and "job_apart (w_store w) j ev" "downloads_apart j ev" "no_manifests (w_store w) j ev"
    and "lists_set listing"
    and "w_store w1 (output_key j ev) \<noteq> None" "w_store w1 (job_path j) \<noteq> None"
    and "list_all (\<lambda>p. w_store w1 p = w_store w p) (jb_files j)"
    and "RecoverOrphanedManifests J listing (mm', w1\<lparr>w_script := [Works, Fails False], w_dead := False\<rparr>) = (r', mm2, w2)"
    and "later J listing w2 w3"
  shows "\<exists>ins c. ins \<noteq> [] \<and> merged_from (w_store w) j ev ins c \<and>
    w_store w3 (output_key j ev) = Some c \<and> (\<forall>p\<in>set ins. w_store w3 p = w_store w p)"
proof -
  from interrupted_after_upload [OF assms(1-5,8)] obtain ins c mo D where m: "merged_from (w_store w) j ev ins c" "ins \<noteq> []"
    "in_phase True J (w_store w) (job_path j) (job_manifest j ev c ins) c (w_store w1)"
    "apart (w_store w) (job_path j) (job_manifest j ev c ins)"
    "w_store w1 = shape (w_store w) (job_path j) mo (output_key j ev) (Some c) D" .
  let ?w = "w1\<lparr>w_script := [Works, Fails False], w_dead := False\<rparr>"
  let ?w' = "w1\<lparr>w_script := [Fails False], w_dead := False\<rparr>"
  let ?calm = "w1\<lparr>w_script := [], w_dead := False\<rparr>"
  have ne: "job_path j \<noteq> output_key j ev" using m(4) by (simp add: apart_def)
  have works: "next_answer ?w = (Works, ?w')" by (simp add: next_answer_def)
  have dom: "{p \<in> dom (w_store ?w'). take (length (ManifestBasePath @ ''/'')) p = ManifestBasePath @ ''/''} = {job_path j}"
    using m(5) assms(6,9) job_path_form(1) [of j] by (auto simp: shape_def no_manifests_def is_manifest_path_def split: if_splits)
  have "ListManifests listing ?w = (Some [job_path j], ?w')"
    using lists_singleton [OF assms(7)] job_path_form(2) [of j]
    unfolding ListManifests_def be_list_def works prod.case answer.case dom by simp
  moreover have "ReadManifest J (job_path j) ?w' = (None, ?calm)"
    by (simp add: ReadManifest_def be_read_def next_answer_def)
  ultimately have "w2 = ?calm\<lparr>w_store := drop_keys {job_path j} (w_store w1)\<rparr>"
    using assms(11) calm_ops(6) [of ?calm] by (simp add: RecoverOrphanedManifests_def recoverManifest_def DeleteManifest_def calm_def)
  then have w2: "w_store w2 = shape (w_store w) (job_path j) None (output_key j ev) (Some c) D"
    using m(5) shape_drop_manifest [OF ne] by simp
  moreover have "\<forall>p. is_manifest_path p \<longrightarrow> w_store w2 p = None"
    using w2 assms(6) by (auto simp: shape_def no_manifests_def)
  ultimately have w3: "w_store w3 = shape (w_store w) (job_path j) None (output_key j ev) (Some c) D"
    using later_without_manifests [OF assms(12) _ assms(7)] by simp
  have "w_store w3 p = w_store w p" if "p \<in> set ins" for p
  proof -
    have "p \<in> set (jb_files j)" "p \<noteq> job_path j" "p \<noteq> output_key j ev" using that m(1,4) by (auto simp: merged_from_def apart_def)
    then show ?thesis using assms(10) w3 m(5) by (auto simp: shape_def list_all_iff)
  qed
  moreover have "w_store w3 (output_key j ev) = Some c" using w3 ne by (simp add: shape_def)
  ultimately show ?thesis using m(1,2) by blast
qed

end
