(* ===== verification/Reconcile_Result.thy ===== *)
theory Reconcile_Result
  imports Reconcile_Safety Compaction_Cluster
begin

text \<open>
  What a run of the reconciler achieves when nothing disturbs it: manifest and storage agree.
\<close>

section \<open>A run that nothing disturbs\<close>

definition quiet :: "chunk_env \<Rightarrow> bool" where
  "quiet env \<longleftrightarrow> ch_ctx env \<and> ch_gate env \<and> undisturbed env \<and> (case ch_raft env of Committed _ \<Rightarrow> True | _ \<Rightarrow> False)"

lemma parallelExists_calm: "calm w \<Longrightarrow> parallelExists ps w = (map (\<lambda>p. Some (w_store w p \<noteq> None)) ps, w)"
  by (induction ps) (simp_all add: calm_ops)

lemma absent_calm: "absent_paths (zip ps (map (\<lambda>p. Some (w_store w p \<noteq> None)) ps)) = filter (\<lambda>p. w_store w p = None) ps"
  by (induction ps) (simp_all add: absent_paths_def)

lemma batch_calm:
  assumes "[] \<notin> set ps" "case ans of Committed _ \<Rightarrow> True | _ \<Rightarrow> False"
  shows "\<exists>f'. BatchFileOpsInManifest ans (delete_ops ps) f = (BridgeOk, f') \<and> files f' = removed_from (set ps) (files f)"
proof -
  obtain i where i: "ans = Committed i" using assms(2) by (cases ans) auto
  have "err (applyBatchFileOps (Some (delete_ops ps)) i f) = None \<and>
      files (st (applyBatchFileOps (Some (delete_ops ps)) i f)) = removed_from (set ps) (files f)"
    using bridge_batch [of "[]" "map (\<lambda>p. (p, reconcile_reason)) ps" "[]" i f] assms(1)
    by (simp add: delete_ops_bridge [of ps "[]"] list_all_iff image_image registered_in_def)
       (metis (mono_tags, lifting) image_iff)
  then show ?thesis by (simp add: BatchFileOpsInManifest_def i Let_def)
qed

lemma manifest_chunk_calm:
  assumes "quiet env" "calm w" "chunk \<noteq> []" "[] \<notin> set chunk" "deletes_so_far r + int (length chunk) \<le> cf_MaxDeletesPerRun cfg"
  shows "\<exists>r' f'. manifest_chunk cfg False env chunk (r, f, w) = (Continue, r', f', w) \<and>
    files f' = removed_from {p \<in> set chunk. w_store w p = None} (files f) \<and>
    deletes_so_far r' \<le> deletes_so_far r + int (length chunk)"
proof -
  let ?gone = "filter (\<lambda>p. w_store w p = None) chunk"
  have more: "\<not> cf_MaxDeletesPerRun cfg \<le> deletes_so_far r" "\<not> cf_MaxDeletesPerRun cfg - deletes_so_far r < int (length chunk)"
    using assms(3,5) by (cases chunk; simp)+
  have paths: "recheck_paths cfg r chunk = chunk" using more(2) by (simp add: recheck_paths_def Let_def)
  obtain f1 where f1: "BatchFileOpsInManifest (ch_raft env) (delete_ops ?gone) f = (BridgeOk, f1)" "files f1 = removed_from (set ?gone) (files f)"
    using batch_calm [of ?gone "ch_raft env" f] assms(1,4) by (auto simp: quiet_def)
  have empty: "removed_from {} (files f) = files f" by (simp add: removed_from_def restrict_map_def)
  have len: "length ?gone \<le> length chunk" by simp
  have px: "parallelExists chunk w = (map (\<lambda>p. Some (w_store w p \<noteq> None)) chunk, w)" by (rule parallelExists_calm [OF assms(2)])
  have count: "deletes_so_far (count_recheck xs r) = deletes_so_far r" for xs by (simp add: deletes_so_far_def)
  note unf = manifest_chunk_def prod.case Let_def paths px absent_calm
  have ok: "ch_ctx env" "ch_gate env" using assms(1) by (simp_all add: quiet_def)
  show ?thesis
  proof (cases "?gone = []")
    case True
    then have e: "{p \<in> set chunk. w_store w p = None} = {}" by (auto simp: filter_empty_conv)
    show ?thesis unfolding unf e using ok more True empty count by (simp add: cap_flow_def del: not_None_eq)
  next
    case False
    then show ?thesis unfolding unf using ok more f1 len count by (simp add: cap_flow_def deletes_so_far_def del: not_None_eq)
  qed
qed


lemma pick_deletes_all:
  "length ps \<le> n \<Longrightarrow> \<exists>k. pick_deletes n f ps = (filter (\<lambda>p. files f p = None) ps, k, False)"
proof (induction ps arbitrary: n)
  case (Cons p ps)
  have "length ps \<le> n" "length ps \<le> n - 1" "n \<noteq> 0" using Cons.prems by auto
  then show ?case using Cons.IH [of n] Cons.IH [of "n - 1"] by (auto simp: GetFile_def)
qed simp

lemma delete_each_calm:
  "calm w \<Longrightarrow> delete_each ps r w = (int (length ps), r, w\<lparr>w_store := drop_keys (set ps) (w_store w)\<rparr>)"
proof (induction ps arbitrary: w)
  case Nil
  then show ?case by (simp add: drop_keys_def restrict_map_def)
next
  case (Cons p ps)
  have "calm (w\<lparr>w_store := drop_keys {p} (w_store w)\<rparr>)" using Cons.prems by (simp add: calm_def)
  from Cons.IH [OF this] Cons.prems show ?case by (simp add: calm_ops drop_keys_def restrict_map_def fun_eq_iff)
qed

lemma applyStorageDeletes_calm:
  assumes "calm w"
  shows "applyStorageDeletes hb ps r w = (int (length ps), r, w\<lparr>w_store := drop_keys (set ps) (w_store w)\<rparr>)"
  using assms by (simp add: applyStorageDeletes_def delete_each_calm calm_ops)

lemma storage_chunk_calm:
  assumes "quiet env" "calm w" "chunk \<noteq> []" "deletes_so_far r + int (length chunk) \<le> cf_MaxDeletesPerRun cfg"
  shows "\<exists>r'. storage_chunk cfg hb False env chunk (r, f, w) =
      (Continue, r', f, w\<lparr>w_store := drop_keys {p \<in> or_path ` set chunk. files f p = None} (w_store w)\<rparr>) \<and>
    deletes_so_far r' \<le> deletes_so_far r + int (length chunk)"
proof -
  let ?ds = "filter (\<lambda>p. files f p = None) (map or_path chunk)"
  have more: "\<not> cf_MaxDeletesPerRun cfg \<le> deletes_so_far r" using assms(3,4) by (cases chunk) simp_all
  have le: "length (map or_path chunk) \<le> nat (cf_MaxDeletesPerRun cfg - deletes_so_far r)" using assms(4) by simp
  from pick_deletes_all [OF le, of f]
  obtain k where pk: "pick_deletes (nat (cf_MaxDeletesPerRun cfg - deletes_so_far r)) f (map or_path chunk) = (?ds, k, False)" by blast
  have ok: "ch_ctx env" "ch_gate env" using assms(1) by (simp_all add: quiet_def)
  have ds: "set ?ds = {p \<in> or_path ` set chunk. files f p = None}" by auto
  have len: "length ?ds \<le> length chunk" using length_filter_le [of _ "map or_path chunk"] by simp
  have same: "w\<lparr>w_store := drop_keys {} (w_store w)\<rparr> = w" by (simp add: drop_keys_def restrict_map_def)
  note unf = storage_chunk_def prod.case Let_def pk applyStorageDeletes_calm [OF assms(2)] ds [symmetric]
  show ?thesis
  proof (cases "?ds = []")
    case True
    show ?thesis unfolding unf using ok more same unfolding True by (simp add: cap_flow_def deletes_so_far_def)
  next
    case False
    then show ?thesis unfolding unf using ok more len by (simp add: cap_flow_def deletes_so_far_def)
  qed
qed


subsection \<open>The loops\<close>

lemma chunks_nonempty: "chunk \<in> set (chunks_of n xs) \<Longrightarrow> chunk \<noteq> []"
proof (induction n xs rule: chunks_of.induct)
  case (1 n xs)
  then show ?case by (subst (asm) chunks_of.simps) (auto split: if_splits)
qed

lemma quiet_undisturbed: "quiet env \<Longrightarrow> undisturbed env"
  by (simp add: quiet_def)

lemma manifest_sweep_calm:
  assumes "\<And>k. quiet (env k)" "calm w"
  shows "\<lbrakk>\<forall>chunk\<in>set chunks. chunk \<noteq> [] \<and> [] \<notin> set chunk; deletes_so_far r + int (length (concat chunks)) \<le> cf_MaxDeletesPerRun cfg\<rbrakk> \<Longrightarrow>
    \<exists>r' f'. sweep_chunks (manifest_chunk cfg False) env i chunks (r, f, w) = (None, r', f', w) \<and>
      files f' = removed_from {p \<in> set (concat chunks). w_store w p = None} (files f) \<and>
      deletes_so_far r' \<le> deletes_so_far r + int (length (concat chunks))"
proof (induction chunks arbitrary: i r f)
  case Nil
  then show ?case by (simp add: removed_from_def restrict_map_def)
next
  case (Cons chunk chunks)
  have c: "chunk \<noteq> []" "[] \<notin> set chunk" "deletes_so_far r + int (length chunk) \<le> cf_MaxDeletesPerRun cfg" using Cons.prems by auto
  obtain r1 f1 where one: "manifest_chunk cfg False (env i) chunk (r, f, w) = (Continue, r1, f1, w)"
      "files f1 = removed_from {p \<in> set chunk. w_store w p = None} (files f)" "deletes_so_far r1 \<le> deletes_so_far r + int (length chunk)"
    using manifest_chunk_calm [OF assms c] by blast
  have "deletes_so_far r1 + int (length (concat chunks)) \<le> cf_MaxDeletesPerRun cfg" using Cons.prems(2) one(3) by simp
  then obtain r2 f2 where rest: "sweep_chunks (manifest_chunk cfg False) env (Suc i) chunks (r1, f1, w) = (None, r2, f2, w)"
      "files f2 = removed_from {p \<in> set (concat chunks). w_store w p = None} (files f1)"
      "deletes_so_far r2 \<le> deletes_so_far r1 + int (length (concat chunks))"
    using Cons.IH [of r1 "Suc i" f1] Cons.prems(1) by auto
  have "files f2 = removed_from {p \<in> set (concat (chunk # chunks)). w_store w p = None} (files f)"
    unfolding rest(2) one(2) by (auto simp: removed_from_def restrict_map_def fun_eq_iff)
  then show ?case
    using one rest by (simp add: interfere_undisturbed [OF quiet_undisturbed [OF assms(1)]])
qed

lemma storage_sweep_calm:
  assumes "\<And>k. quiet (env k)"
  shows "\<lbrakk>calm w; \<forall>chunk\<in>set chunks. chunk \<noteq> []; deletes_so_far r + int (length (concat chunks)) \<le> cf_MaxDeletesPerRun cfg\<rbrakk> \<Longrightarrow>
    \<exists>r'. sweep_chunks (storage_chunk cfg hb False) env i chunks (r, f, w) =
        (None, r', f, w\<lparr>w_store := drop_keys {p \<in> or_path ` set (concat chunks). files f p = None} (w_store w)\<rparr>) \<and>
      deletes_so_far r' \<le> deletes_so_far r + int (length (concat chunks))"
proof (induction chunks arbitrary: i r w)
  case Nil
  then show ?case by (simp add: drop_keys_def restrict_map_def)
next
  case (Cons chunk chunks)
  have c: "chunk \<noteq> []" "deletes_so_far r + int (length chunk) \<le> cf_MaxDeletesPerRun cfg" using Cons.prems by auto
  let ?w = "w\<lparr>w_store := drop_keys {p \<in> or_path ` set chunk. files f p = None} (w_store w)\<rparr>"
  obtain r1 where one: "storage_chunk cfg hb False (env i) chunk (r, f, w) = (Continue, r1, f, ?w)"
      "deletes_so_far r1 \<le> deletes_so_far r + int (length chunk)"
    using storage_chunk_calm [OF assms Cons.prems(1) c] by blast
  have "deletes_so_far r1 + int (length (concat chunks)) \<le> cf_MaxDeletesPerRun cfg" using Cons.prems(3) one(2) by simp
  moreover have "calm ?w" using Cons.prems(1) by simp
  ultimately obtain r2 where rest: "sweep_chunks (storage_chunk cfg hb False) env (Suc i) chunks (r1, f, ?w) =
        (None, r2, f, ?w\<lparr>w_store := drop_keys {p \<in> or_path ` set (concat chunks). files f p = None} (w_store ?w)\<rparr>)"
      "deletes_so_far r2 \<le> deletes_so_far r1 + int (length (concat chunks))"
    using Cons.IH [of ?w r1 "Suc i"] Cons.prems(2) by auto
  have "drop_keys {p \<in> or_path ` set (concat chunks). files f p = None} (w_store ?w) =
      drop_keys {p \<in> or_path ` set (concat (chunk # chunks)). files f p = None} (w_store w)"
    by (auto simp: drop_keys_def restrict_map_def fun_eq_iff)
  then show ?case
    using one rest by (simp add: interfere_undisturbed [OF quiet_undisturbed [OF assms(1)]])
qed


lemma sweepOrphanManifest_calm:
  assumes "\<And>k. quiet (env k)" "calm w" "cf_BackendKind cfg \<noteq> BackendStandalone" "[] \<notin> set paths"
    and "deletes_so_far r + int (length paths) \<le> cf_MaxDeletesPerRun cfg"
  shows "\<exists>r' f'. sweepOrphanManifest cfg False env paths (r, f, w) = (None, r', f', w) \<and>
    files f' = removed_from {p \<in> set paths. w_store w p = None} (files f) \<and> deletes_so_far r' \<le> deletes_so_far r + int (length paths)"
proof (cases "paths = []")
  case True
  then show ?thesis by (simp add: sweepOrphanManifest_def removed_from_def restrict_map_def)
next
  case False
  have chunks: "\<forall>chunk\<in>set (chunks_of (batch_size cfg) paths). chunk \<noteq> [] \<and> [] \<notin> set chunk"
    using chunks_nonempty chunks_subset assms(4) by blast
  show ?thesis
    using manifest_sweep_calm [OF assms(1,2) chunks, of r cfg] False assms(3,5)
    by (simp add: concat_chunks_of [OF batch_size_pos] sweepOrphanManifest_def)
qed

lemma sweepOrphanStorage_calm:
  assumes "\<And>k. quiet (env k)" "calm w" "cf_BackendKind cfg \<noteq> BackendStandalone"
    and "deletes_so_far r + int (length (storage_candidates cfg cs)) \<le> cf_MaxDeletesPerRun cfg"
  shows "\<exists>r'. sweepOrphanStorage cfg hb False env cs (r, f, w) =
    (None, r', f, w\<lparr>w_store := drop_keys {p \<in> or_path ` set (storage_candidates cfg cs). files f p = None} (w_store w)\<rparr>)"
proof (cases "cs = []")
  case True
  then show ?thesis by (simp add: sweepOrphanStorage_def storage_candidates_def drop_keys_def restrict_map_def)
next
  case False
  have "\<forall>chunk\<in>set (chunks_of (batch_size cfg) (storage_candidates cfg cs)). chunk \<noteq> []" using chunks_nonempty by blast
  then show ?thesis
    using storage_sweep_calm [where env = env and i = 0 and chunks = "chunks_of (batch_size cfg) (storage_candidates cfg cs)" and r = r and cfg = cfg and hb = hb and f = f, OF assms(1,2)] False assms(3,4)
    by (auto simp: concat_chunks_of [OF batch_size_pos] sweepOrphanStorage_def)
qed

lemma reconcile_sweeps_calm:
  assumes "\<forall>k. quiet (re_manifest E k) \<and> quiet (re_storage E k)" "calm w" "cf_BackendKind cfg \<noteq> BackendStandalone"
    and "[] \<notin> set (di_orphanManifest d)" "deletes_so_far r = 0"
    and "int (length (di_orphanManifest d)) + int (length (storage_candidates cfg (di_orphanStorage d))) \<le> cf_MaxDeletesPerRun cfg"
  shows "\<exists>r' f'. reconcile_sweeps cfg False E d (r, f, w) =
      (None, Some r', f', w\<lparr>w_store :=
         drop_keys {p \<in> or_path ` set (storage_candidates cfg (di_orphanStorage d)). files f' p = None} (w_store w)\<rparr>) \<and>
    files f' = removed_from {p \<in> set (di_orphanManifest d). w_store w p = None} (files f)"
proof -
  obtain r1 f1 where m: "sweepOrphanManifest cfg False (re_manifest E) (di_orphanManifest d) (r, f, w) = (None, r1, f1, w)"
      "files f1 = removed_from {p \<in> set (di_orphanManifest d). w_store w p = None} (files f)"
      "deletes_so_far r1 \<le> int (length (di_orphanManifest d))"
    using sweepOrphanManifest_calm [of "re_manifest E" w cfg "di_orphanManifest d" r f] assms by auto
  show ?thesis
    using sweepOrphanStorage_calm [of "re_storage E" w cfg r1 "di_orphanStorage d" "re_hasBatchDelete E" f1] assms m
    by (auto simp: reconcile_sweeps_def finish_sweep_def)
qed

section \<open>The walk\<close>

text \<open>A walk whose listings are complete and which the context does not end.\<close>

definition full_walk :: "walk_env \<Rightarrow> bool" where
  "full_walk V \<longleftrightarrow> lists_set (wk_listing V) \<and> wk_hasObjects V \<and> (\<forall>p. wk_prefixCtx V p)"

definition walked :: "string list \<Rightarrow> 'c world \<Rightarrow> string set" where
  "walked prefixes w = {p \<in> dom (w_store w). isParquetCandidate p \<and> (\<exists>pre\<in>set prefixes. has_prefix pre p)}"

lemma walk_prefixes_calm:
  assumes "full_walk V" "calm w" "finite (dom (w_store w))"
  shows "\<exists>rs. walk_prefixes V ps seen w = (Some (rs, False, []), w) \<and> or_path ` set rs = walked ps w - seen \<and>
    distinct (map or_path rs) \<and> (\<forall>r\<in>set rs. or_lastModified r = wk_mtime V (or_path r))"
proof (induction ps arbitrary: seen)
  case Nil
  then show ?case by (simp add: walked_def)
next
  case (Cons p ps)
  let ?found = "{q \<in> dom (w_store w). take (length p) q = p}"
  let ?rs = "map (\<lambda>q. \<lparr>or_path = q, or_lastModified = wk_mtime V q\<rparr>) (filter isParquetCandidate (wk_listing V ?found))"
  have "set (wk_listing V ?found) = ?found" using assms(1,3) by (simp add: full_walk_def lists_set_def)
  then have paths: "or_path ` set ?rs = walked [p] w" by (auto simp: walked_def has_prefix_def image_iff)
  have l: "listPrefix V p w = (Some ?rs, w)" using assms(1,2) by (simp add: listPrefix_def calm_ops full_walk_def)
  obtain new seen' where n: "fresh_records seen ?rs = (new, seen')" by (cases "fresh_records seen ?rs")
  note new = fresh_records_spec [OF n, unfolded paths]
  obtain rs where rest: "walk_prefixes V ps seen' w = (Some (rs, False, []), w)" "or_path ` set rs = walked ps w - seen'"
      "distinct (map or_path rs)" "\<forall>r\<in>set rs. or_lastModified r = wk_mtime V (or_path r)"
    using Cons.IH [of seen'] by blast
  have times: "\<forall>r\<in>set new. or_lastModified r = wk_mtime V (or_path r)" using new by auto
  have paths: "or_path ` set (new @ rs) = walked (p # ps) w - seen" "distinct (map or_path (new @ rs))"
  proof -
    have u: "walked (p # ps) w = walked [p] w \<union> walked ps w" by (auto simp: walked_def)
    show "or_path ` set (new @ rs) = walked (p # ps) w - seen" unfolding set_append image_Un u rest(2) using new by blast
    have "or_path ` set new \<inter> or_path ` set rs = {}" unfolding rest(2) using new by blast
    then show "distinct (map or_path (new @ rs))" using new rest(3) by simp
  qed
  have ctx: "wk_prefixCtx V p" using assms(1) by (simp add: full_walk_def)
  have "walk_prefixes V (p # ps) seen w = (Some (new @ rs, False, []), w)"
    by (simp only: walk_prefixes.simps ctx not_True_eq_False if_False l n rest(1) prod.case option.case)
  then show ?case using paths times rest(4) by (intro exI [of _ "new @ rs"] conjI) auto
qed

text \<open>The prefixes of the walk do not depend on the storage.\<close>

definition walk_roots :: "rec_config \<Rightarrow> rec_env \<Rightarrow> file_entry list \<Rightarrow> string list" where
  "walk_roots cfg E m = fst (derivePrefixes cfg (re_walk E) (manifestToKeys cfg (fileEntriesToKeys m)))"

lemma walkStorage_calm:
  assumes "full_walk V" "calm w" "finite (dom (w_store w))"
  shows "\<exists>rs partial es. walkStorage cfg V keys w = (Some (rs, partial, es), w) \<and> or_path ` set rs = walked (fst (derivePrefixes cfg V keys)) w \<and>
    distinct (map or_path rs) \<and> (\<forall>r\<in>set rs. or_lastModified r = wk_mtime V (or_path r))"
  using walk_prefixes_calm [OF assms, of "fst (derivePrefixes cfg V keys)" "{}"]
  by (cases "derivePrefixes cfg V keys") (auto simp: walkStorage_def)

lemma fold_note_error [simp]:
  "ru_ManifestDeletes (fold note_error es r) = ru_ManifestDeletes r" "ru_StorageDeletes (fold note_error es r) = ru_StorageDeletes r"
  by (induction es arbitrary: r) simp_all

lemma length_orphanStorage: "length (di_orphanStorage (computeDiff order manifest storage now grace)) \<le> length storage"
  by (simp add: computeDiff_def scan_storage_spec)

lemma GetAllFiles_entries:
  assumes "ranges_ok R" "paths_ok f"
  shows "f_Path ` set (GetAllFiles R f) = dom (files f)"
proof -
  have "finite (dom (files f))" using assms(2) unfolding paths_ok_def by blast
  then have n: "set (names_order R (dom (files f))) = dom (files f)" using assms(1) unfolding ranges_ok_def lists_set_def by blast
  have own: "f_Path e = p" if "files f p = Some e" for p e using assms(2) that unfolding paths_ok_def by blast
  have "set (GetAllFiles R f) = {e. \<exists>p\<in>dom (files f). files f p = Some e}" 
    unfolding GetAllFiles_def List.map_filter_def by (auto simp: n image_iff) (metis domI option.sel)
  also have "f_Path ` \<dots> = dom (files f)" (is "?A = ?B")
  proof (rule equalityI)
    show "?A \<subseteq> ?B" using own by blast
    show "?B \<subseteq> ?A"
    proof
      fix p assume "p \<in> ?B"
      then obtain e where "files f p = Some e" by blast
      with own [OF this] show "p \<in> ?A" by (intro image_eqI [of _ _ e]) auto
    qed
  qed
  finally show ?thesis .
qed

text \<open>A run that is allowed to happen, that nothing disturbs and that its limits do not stop.\<close>

definition calm_run :: "rec_config \<Rightarrow> rec_env \<Rightarrow> fsm \<Rightarrow> 'c world \<Rightarrow> bool" where
  "calm_run cfg E f w \<longleftrightarrow>
     cf_Enabled cfg \<and> (re_gateStorage E \<or> re_gateManifest E) \<and> re_ctx E \<and> cf_BackendKind cfg = BackendShared \<and>
     ranges_ok (re_ranges E) \<and> paths_ok f \<and> calm w \<and> finite (dom (w_store w)) \<and>
     lists_set (re_order E) \<and> full_walk (re_walk E) \<and> undisturbed (re_during E) \<and>
     (\<forall>k. quiet (re_manifest E k) \<and> quiet (re_storage E k)) \<and>
     int (length (GetAllFiles (re_ranges E) f)) \<le> cf_MaxManifestSize cfg \<and>
     int (card (dom (files f))) + int (card (dom (w_store w))) \<le> cf_MaxDeletesPerRun cfg"

text \<open>The objects a run takes for orphans: walked, unknown to the manifest, old, and of this system.\<close>

definition orphans :: "rec_config \<Rightarrow> rec_env \<Rightarrow> fsm \<Rightarrow> 'c world \<Rightarrow> string set" where
  "orphans cfg E f w =
     {p \<in> walked (walk_roots cfg E (GetAllFiles (re_ranges E) f)) w. files f p = None \<and>
        \<not> isYoungerThan (wk_mtime (re_walk E) p) (re_now E) (cf_GraceWindow cfg + cf_ClockSkewAllowance cfg) \<and>
        (cf_DeletePreManifestOrphans cfg \<or> looksLikeManagedPath p)}"

lemma calm_run_result:
  assumes "calm_run cfg E f w"
  shows "\<exists>r f'. Reconcile cfg False False E f w = (None, Some r, f', w\<lparr>w_store := drop_keys (orphans cfg E f w) (w_store w)\<rparr>) \<and>
    files f' = removed_from {p. w_store w p = None} (files f)"
proof -
  have h: "cf_Enabled cfg" "re_gateStorage E \<or> re_gateManifest E" "re_ctx E" "cf_BackendKind cfg = BackendShared"
    "ranges_ok (re_ranges E)" "paths_ok f" "calm w" "finite (dom (w_store w))"
    "lists_set (re_order E)" "full_walk (re_walk E)" "undisturbed (re_during E)"
    "\<forall>k. quiet (re_manifest E k) \<and> quiet (re_storage E k)" "int (length (GetAllFiles (re_ranges E) f)) \<le> cf_MaxManifestSize cfg"
    "int (card (dom (files f))) + int (card (dom (w_store w))) \<le> cf_MaxDeletesPerRun cfg"
    using assms by (simp_all add: calm_run_def)
  let ?found = "walked (walk_roots cfg E (GetAllFiles (re_ranges E) f)) w"
  let ?m = "GetAllFiles (re_ranges E) f" and ?grace = "cf_GraceWindow cfg + cf_ClockSkewAllowance cfg"
  let ?keys = "manifestToKeys cfg (fileEntriesToKeys ?m)"
  have snap: "snapshotManifest cfg (re_ctx E) (re_ranges E) f = Inr ?m"
    using h(3,4,13) by (simp add: snapshotManifest_def Let_def)
  have keys: "ok_Path ` set ?keys = dom (files f)"
    using GetAllFiles_entries [OF h(5,6)] h(4) by (simp add: manifestToKeys_def fileEntriesToKeys_def image_image)
  obtain rs partial es where wk: "walkStorage cfg (re_walk E) ?keys w = (Some (rs, partial, es), w)"
      "or_path ` set rs = ?found" "distinct (map or_path rs)" "\<forall>r\<in>set rs. or_lastModified r = wk_mtime (re_walk E) (or_path r)"
    using walkStorage_calm [OF h(10,7,8), of cfg ?keys] unfolding walk_roots_def by blast
  let ?d = "computeDiff (re_order E) ?keys rs (re_now E) ?grace"
  note diff = computeDiff_spec [OF h(9), of ?keys rs "re_now E" ?grace, unfolded keys wk(2)]
  let ?s = "interfere (re_during E) (with_diff cfg ?d (fold note_error es
      ((new_run cfg False (re_id E))\<lparr>ru_ManifestFileCount := int (length ?m), ru_StorageFileCount := int (length rs), ru_WalkPartial := partial\<rparr>)), f, w)"
  obtain r0 where s: "?s = (r0, f, w)" "deletes_so_far r0 = 0" 
    unfolding interfere_undisturbed [OF h(11)] by (simp add: with_diff_def new_run_def deletes_so_far_def)
  have run: "Reconcile cfg False False E f w = reconcile_sweeps cfg False E ?d (r0, f, w)"
    unfolding s(1) [symmetric] using h(2) by (auto simp: Reconcile_def Let_def h(1) snap wk(1))
  have fin: "finite (dom (files f))" using h(6) unfolding paths_ok_def by blast
  let ?om = "di_orphanManifest ?d" and ?os = "storage_candidates cfg (di_orphanStorage ?d)"
  have bs: "0 < batch_size cfg" by (rule batch_size_pos)
  have lm: "length ?om \<le> card (dom (files f))"
  proof -
    have "length ?om = card (set ?om)" using diff(3) by (simp add: distinct_card)
    also have "\<dots> \<le> card (dom (files f))" unfolding diff(1) using fin by (intro card_mono) auto
    finally show ?thesis .
  qed
  have ls: "length ?os \<le> card (dom (w_store w))"
  proof -
    have "length ?os \<le> length (di_orphanStorage ?d)" by (simp add: storage_candidates_def)
    also have "\<dots> \<le> length rs" by (rule length_orphanStorage)
    also have "\<dots> = card ?found" using wk(2,3) distinct_card by fastforce
    also have "\<dots> \<le> card (dom (w_store w))" using h(8) by (intro card_mono) (auto simp: walked_def)
    finally show ?thesis .
  qed
  have valid: "[] \<notin> dom (files f)"
  proof
    assume "[] \<in> dom (files f)"
    then have "ValidateManifestPath [] = None" using h(6) unfolding paths_ok_def by blast
    then show False by (simp add: ValidateManifestPath_def)
  qed
  have "[] \<notin> set ?om" using diff(1) valid by blast
  then obtain r' f' where sw: "reconcile_sweeps cfg False E ?d (r0, f, w) =
      (None, Some r', f', w\<lparr>w_store := drop_keys {p \<in> or_path ` set ?os. files f' p = None} (w_store w)\<rparr>)"
      "files f' = removed_from {p \<in> set ?om. w_store w p = None} (files f)"
    using reconcile_sweeps_calm [OF h(12,7), of cfg ?d r0 f] s(2) lm ls h(4,14) by auto
  have stored: "w_store w p \<noteq> None" if "p \<in> ?found" for p using that by (auto simp: walked_def)
  have "files f' = removed_from {p. w_store w p = None} (files f)"
    unfolding sw(2) diff(1) using stored by (fastforce simp: removed_from_def restrict_map_def fun_eq_iff)
  moreover have "set ?os = {r \<in> set rs. files f (or_path r) = None \<and> \<not> isYoungerThan (wk_mtime (re_walk E) (or_path r)) (re_now E) ?grace \<and>
      (cf_DeletePreManifestOrphans cfg \<or> looksLikeManagedPath (or_path r))}"
    unfolding storage_candidates_def set_filter diff(4) using wk(4) by auto
  then have "{p \<in> or_path ` set ?os. files f' p = None} = {p \<in> ?found. files f p = None \<and>
      \<not> isYoungerThan (wk_mtime (re_walk E) p) (re_now E) ?grace \<and> (cf_DeletePreManifestOrphans cfg \<or> looksLikeManagedPath p)}"
    unfolding wk(2) [symmetric] sw(2) by (auto simp: removed_from_def restrict_map_def)
  ultimately show ?thesis using sw(1) run unfolding orphans_def by auto
qed

text \<open>
  C24. When nothing disturbs a run on shared storage, it makes manifest and storage agree.  It
  ends without an error; the manifest loses exactly the entries whose objects are gone; and the
  storage loses exactly the data files under the prefixes of the walk that the manifest does not
  know, that are older than grace window and clock skew allowance, and that either look like
  files of this system or fall under the setting that deletes any orphan.
\<close>

theorem reconcile_result:
  assumes "calm_run cfg E f w"
  shows "\<exists>r f' w'. Reconcile cfg False False E f w = (None, Some r, f', w') \<and>
    (\<forall>p. files f' p = (if w_store w p = None then None else files f p)) \<and>
    (\<forall>p. w_store w' p = (if p \<in> orphans cfg E f w then None else w_store w p))"
  using calm_run_result [OF assms] by (auto simp: removed_from_def drop_keys_def restrict_map_def)

text \<open>
  C25. The reconciler completes what a crash began: when a compaction process dies between storing
  its output and confirming it, recovery deletes the inputs, the cluster never learns of the
  output, and the next undisturbed run of the reconciler after the grace window deletes the output
  too.  Every row of the job is gone, although no operation after the crash failed.
\<close>

theorem crashed_compaction_loses_rows:
  assumes "Run J j ev (mm, w) = (r, mm1, w1)" "mild True w" "jb_managed j"
    and "job_apart (w_store w) j ev" "downloads_apart j ev" "no_manifests (w_store w) j ev"
    and "lists_set listing" "json_round_trip J"
    and "w_store w1 (output_key j ev) \<noteq> None" "w_comp w1 = [path \<mapsto> cm]" "cm_state cm = WritingOutput"
    and "RecoverOrphanedManifests J listing (mm', w1\<lparr>w_script := [], w_dead := False\<rparr>) = (r', mm2, w2)"
    and "wa_dir wa = w_comp w2" "list_all watching es"
    and "f = wa_fsm (fold (watch_step n listing) es wa)" "calm_run cfg E f (w2\<lparr>w_script := [], w_dead := False\<rparr>)"
    and "output_key j ev \<in> orphans cfg E (wa_fsm wa) (w2\<lparr>w_script := [], w_dead := False\<rparr>)"
  shows "\<exists>ins c run f' w3. ins \<noteq> [] \<and> merged_from (w_store w) j ev ins c \<and>
    Reconcile cfg False False E f (w2\<lparr>w_script := [], w_dead := False\<rparr>) = (None, Some run, f', w3) \<and>
    w_store w3 (output_key j ev) = None \<and> (\<forall>p\<in>set ins. w_store w3 p = None)"
proof -
  obtain ins c where hidden: "ins \<noteq> []" "merged_from (w_store w) j ev ins c" "\<forall>p\<in>set ins. w_store w2 p = None"
      "wa_fsm (fold (watch_step n listing) es wa) = wa_fsm wa"
    using crash_after_upload_hides [OF assms(1-14)] by blast
  obtain run f' where run: "Reconcile cfg False False E f (w2\<lparr>w_script := [], w_dead := False\<rparr>) = (None, Some run, f',
      w2\<lparr>w_script := [], w_dead := False, w_store := drop_keys (orphans cfg E f (w2\<lparr>w_script := [], w_dead := False\<rparr>)) (w_store w2)\<rparr>)"
    using calm_run_result [OF assms(16)] by auto
  have "output_key j ev \<in> orphans cfg E f (w2\<lparr>w_script := [], w_dead := False\<rparr>)" using assms(15,17) hidden(4) by simp
  then have "drop_keys (orphans cfg E f (w2\<lparr>w_script := [], w_dead := False\<rparr>)) (w_store w2) (output_key j ev) = None"
      "\<forall>p\<in>set ins. drop_keys (orphans cfg E f (w2\<lparr>w_script := [], w_dead := False\<rparr>)) (w_store w2) p = None"
    using hidden(3) by (simp_all add: drop_keys_def restrict_map_def)
  then show ?thesis using hidden(1,2) run by (intro exI conjI) (assumption | simp)+
qed

end
