(* ===== verification/Compaction_Instance.thy ===== *)
theory Compaction_Instance
  imports Compaction_Cluster Encodings
begin

text \<open>
  The theorems of compaction at a concrete job: two files of one partition, merged into their
  concatenation, with a process that dies at a chosen operation.
\<close>

section \<open>Manifests as text\<close>

text \<open>The fields in hexadecimal with NUL bytes between them.\<close>

definition sample_mj :: manifest_json where
  "sample_mj =
     \<lparr>mj_marshal = (\<lambda>m. gobytes (nul_join (EncodeToString (mf_output m) # show_int (mf_size m) # EncodeToString (mf_database m) #
        EncodeToString (mf_measurement m) # EncodeToString (mf_partition m) # EncodeToString (mf_tier m) # show_int (mf_created m) #
        EncodeToString (mf_job m) # map EncodeToString (mf_inputs m)))),
      mj_parse = (\<lambda>bs. case nul_split (gostring bs) of
          out # sz # db # me # part # tier # created # jid # ins \<Rightarrow>
            Some \<lparr>mf_output = the (DecodeString out), mf_size = text_int sz, mf_inputs = map (the \<circ> DecodeString) ins,
              mf_database = the (DecodeString db), mf_measurement = the (DecodeString me), mf_partition = the (DecodeString part),
              mf_tier = the (DecodeString tier), mf_status = ManifestStatusPending, mf_created = text_int created,
              mf_job = the (DecodeString jid)\<rparr>
        | _ \<Rightarrow> None)\<rparr>"

lemma map_decode [simp]: "map ((the \<circ> DecodeString) \<circ> EncodeToString) xs = xs"
  by (induction xs) auto

lemma sample_mj_round_trip: "json_round_trip sample_mj"
proof -
  have "mf_status m = ManifestStatusPending" for m :: manifest by (cases "mf_status m")
  then show ?thesis
    by (auto simp: json_round_trip_def sample_mj_def nul_split_join intro!: manifest.equality simp del: nul_join.simps)
qed

section \<open>A job\<close>

definition sample_file :: "byte \<Rightarrow> bytes" where
  "sample_file b = parquet_magic @ [b, b, b, b] @ parquet_magic"

definition sample_job :: job where
  "sample_job = \<lparr>jb_files = [''d/m/a'', ''d/m/b''], jb_partition = ''d/m'', jb_database = ''d'', jb_measurement = ''m'',
     jb_tier = ''t'', jb_id = ''j'', jb_cluster = True, jb_managed = True, jb_ptime = 0\<rparr>"

definition sample_env :: job_env where
  "sample_env = \<lparr>ev_merge = (\<lambda>cs. Some (concat cs)), ev_name = ''c.parquet'', ev_now = 1, ev_sha = (\<lambda>_. ''h''), ev_order = [1, 0]\<rparr>"

definition sample_world :: "answer list \<Rightarrow> completion world" where
  "sample_world script = \<lparr>w_store = [''d/m/a'' \<mapsto> sample_file 1, ''d/m/b'' \<mapsto> sample_file 2], w_temp = Map.empty,
     w_comp = Map.empty, w_script = script, w_dead = False\<rparr>"

lemma sample_apart: "job_apart (w_store (sample_world sc)) sample_job sample_env" "downloads_apart sample_job sample_env"
    "no_manifests (w_store (sample_world sc)) sample_job sample_env"
  by (auto simp: job_apart_def downloads_apart_def no_manifests_def is_manifest_path_def sample_world_def sample_job_def sample_env_def
      job_path_def GenerateManifestPath_def ManifestBasePath_def output_key_def Base_def)

definition sample_output :: bytes where
  "sample_output = sample_file 1 @ sample_file 2"

text \<open>Fourteen operations work, and the process dies after the upload.\<close>

definition sample_crash :: "answer list" where
  "sample_crash = replicate 14 Works @ [Fails True]"

definition sample_completion :: completion where
  "sample_completion = (initial_completion sample_job sample_env)\<lparr>cm_state := SourcesDeleted,
     cm_outputs := [job_output sample_job sample_env sample_output], cm_deleted := [''d/m/a'', ''d/m/b'']\<rparr>"

lemmas sample_run_defs =
  Run_def sample_job_def sample_env_def sample_world_def sample_crash_def writeCompletionManifest_def
  comp_write_def be_write_def be_read_def os_ok_def next_answer_def downloadFiles_def downloadSingleFile_def temp_write_def
  downloaded_files_def compactFiles_def local_content_def run_manifest_def WriteManifest_def run_upload_def uploadFile_def
  Base_def validateJobID_def initial_completion_def completion_path_def sample_output_def sample_file_def parquet_magic_def
  validateParquetFile_def writeOutputWrittenManifest_def output_key_def job_path_def job_manifest_def Let_def
  numeral_nat upt_rec run_delete_def deleteOldFiles_def DeleteManifest_def be_delete_def be_delete_batch_def
  writeSourcesDeletedManifest_def comp_read_def sample_completion_def job_output_def drop_keys_def

lemma sample_done_run:
  "Run sample_mj sample_job sample_env (NewManifestManager, sample_world []) =
     (JobCompleted, invalidateCache (invalidateCache NewManifestManager),
      \<lparr>w_store = [''d/m/c.parquet'' \<mapsto> sample_output],
       w_temp = [''b'' \<mapsto> sample_file 2, ''a'' \<mapsto> sample_file 1], w_comp = [''j.json'' \<mapsto> sample_completion],
       w_script = [], w_dead = False\<rparr>)"
  by (simp add: sample_run_defs GenerateManifestPath_def ManifestBasePath_def)

lemma sample_crash_run:
  "Run sample_mj sample_job sample_env (NewManifestManager, sample_world sample_crash) =
     (JobFailed, invalidateCache NewManifestManager,
      \<lparr>w_store = [''d/m/a'' \<mapsto> sample_file 1, ''d/m/b'' \<mapsto> sample_file 2,
          job_path sample_job \<mapsto> mj_marshal sample_mj (job_manifest sample_job sample_env sample_output [''d/m/a'', ''d/m/b'']),
          ''d/m/c.parquet'' \<mapsto> sample_output],
       w_temp = [''b'' \<mapsto> sample_file 2, ''a'' \<mapsto> sample_file 1], w_comp = [''j.json'' \<mapsto> initial_completion sample_job sample_env],
       w_script = [], w_dead = True\<rparr>)"
  by (simp add: sample_run_defs)

section \<open>The theorems at this job\<close>

lemma sample_listing: "lists_set (sorted_list_of_set :: string set \<Rightarrow> string list)"
  by (simp add: lists_set_def)

text \<open>The world in which the process died.\<close>

definition sample_dead :: "completion world" where
  "sample_dead = snd (snd (Run sample_mj sample_job sample_env (NewManifestManager, sample_world sample_crash)))"

lemma sample_dead_run:
  "Run sample_mj sample_job sample_env (NewManifestManager, sample_world sample_crash) =
     (JobFailed, invalidateCache NewManifestManager, sample_dead)"
  by (simp add: sample_dead_def sample_crash_run)

lemma sample_dead_stores:
  "w_store sample_dead ''d/m/c.parquet'' = Some sample_output" "w_store sample_dead (job_path sample_job) \<noteq> None"
  "list_all (\<lambda>p. w_store sample_dead p = w_store (sample_world sample_crash) p) (jb_files sample_job)"
  "w_comp sample_dead = [''j.json'' \<mapsto> initial_completion sample_job sample_env]"
  unfolding sample_dead_def sample_crash_run
  by (simp_all add: sample_job_def sample_world_def job_path_def GenerateManifestPath_def ManifestBasePath_def)

lemma sample_mild: "mild strict (sample_world sample_crash)"
  by (simp add: mild_def sample_world_def sample_crash_def mild_answer_def numeral_nat)

theorem compaction_loses_nothing_witness:
  "\<exists>r mm2 w2 ins c. RecoverOrphanedManifests sample_mj sorted_list_of_set (NewManifestManager, sample_dead\<lparr>w_script := [Works], w_dead := False\<rparr>) = (r, mm2, w2) \<and>
     merged_from (w_store (sample_world sample_crash)) sample_job sample_env ins c \<and>
     nothing_lost (w_store (sample_world sample_crash)) (\<lambda>p. p \<in> set ins) (output_key sample_job sample_env) c (w_store w2)"
proof -
  obtain r mm2 w2 where rec: "RecoverOrphanedManifests sample_mj sorted_list_of_set
      (NewManifestManager, sample_dead\<lparr>w_script := [Works], w_dead := False\<rparr>) = (r, mm2, w2)"
    by (metis prod.exhaust)
  have "later sample_mj sorted_list_of_set sample_dead w2"
    by (rule later.round [OF later.refl _ rec, of False]) (simp add: mild_def mild_answer_def)
  from compaction_loses_nothing [OF sample_dead_run this sample_mild sample_apart sample_listing sample_mj_round_trip] rec
  show ?thesis by blast
qed

theorem recovery_completes_job_witness:
  "\<exists>r mm2 w2 ins c. RecoverOrphanedManifests sample_mj sorted_list_of_set (NewManifestManager, sample_dead\<lparr>w_script := [], w_dead := False\<rparr>) = (r, mm2, w2) \<and>
     merged_from (w_store (sample_world sample_crash)) sample_job sample_env ins c \<and>
     done_or_undone (w_store (sample_world sample_crash)) ins (output_key sample_job sample_env) c (w_store w2)"
proof -
  obtain r mm2 w2 where rec: "RecoverOrphanedManifests sample_mj sorted_list_of_set
      (NewManifestManager, sample_dead\<lparr>w_script := [], w_dead := False\<rparr>) = (r, mm2, w2)"
    by (metis prod.exhaust)
  have "jb_managed sample_job" by (simp add: sample_job_def)
  from recovery_completes_job [OF sample_dead_run sample_mild this sample_apart sample_listing sample_mj_round_trip rec] rec
  show ?thesis by blast
qed

theorem crash_after_upload_hides_output_witness:
  "\<exists>r mm2 w2 ins c. RecoverOrphanedManifests sample_mj sorted_list_of_set (NewManifestManager, sample_dead\<lparr>w_script := [], w_dead := False\<rparr>) = (r, mm2, w2) \<and>
     ins \<noteq> [] \<and> merged_from (w_store (sample_world sample_crash)) sample_job sample_env ins c \<and>
     w_store w2 ''d/m/c.parquet'' = Some c \<and> list_all (\<lambda>p. w_store w2 p = None) ins \<and>
     wa_fsm (fold (watch_step ''n'' sorted_list_of_set) [Poll (\<lambda>_. \<lparr>we_readable = True, we_raft = Committed 7, we_remove = True\<rparr>), Restart]
       \<lparr>wa_dir = w_comp w2, wa_registered = {}, wa_fsm = NewClusterFSM\<rparr>) = NewClusterFSM"
proof -
  obtain r mm2 w2 where rec: "RecoverOrphanedManifests sample_mj sorted_list_of_set
      (NewManifestManager, sample_dead\<lparr>w_script := [], w_dead := False\<rparr>) = (r, mm2, w2)"
    by (metis prod.exhaust)
  have "jb_managed sample_job" by (simp add: sample_job_def)
  moreover have key: "output_key sample_job sample_env = ''d/m/c.parquet''" by (simp add: output_key_def sample_job_def sample_env_def)
  then have "w_store sample_dead (output_key sample_job sample_env) \<noteq> None" by (simp add: sample_dead_stores)
  moreover have "cm_state (initial_completion sample_job sample_env) = WritingOutput" by (simp add: initial_completion_def)
  ultimately obtain ins c where "ins \<noteq> []" "merged_from (w_store (sample_world sample_crash)) sample_job sample_env ins c"
      "w_store w2 ''d/m/c.parquet'' = Some c" "\<forall>p\<in>set ins. w_store w2 p = None"
      "wa_fsm (fold (watch_step ''n'' sorted_list_of_set) [Poll (\<lambda>_. \<lparr>we_readable = True, we_raft = Committed 7, we_remove = True\<rparr>), Restart]
       \<lparr>wa_dir = w_comp w2, wa_registered = {}, wa_fsm = NewClusterFSM\<rparr>) = NewClusterFSM"
    using crash_after_upload_hides_output [OF sample_dead_run sample_mild _ sample_apart sample_listing sample_mj_round_trip
        _ sample_dead_stores(4) _ rec, of "\<lparr>wa_dir = w_comp w2, wa_registered = {}, wa_fsm = NewClusterFSM\<rparr>"
          "[Poll (\<lambda>_. \<lparr>we_readable = True, we_raft = Committed 7, we_remove = True\<rparr>), Restart]" "''n''"]
    by (auto simp: watching_def key)
  with rec show ?thesis by (intro exI [of _ r] exI [of _ mm2] exI [of _ w2] exI [of _ ins] exI [of _ c]) (simp add: list_all_iff)
qed

theorem failed_read_doubles_rows_witness:
  "\<exists>r mm2 w2 ins c. RecoverOrphanedManifests sample_mj sorted_list_of_set (NewManifestManager, sample_dead\<lparr>w_script := [Works, Fails False], w_dead := False\<rparr>) = (r, mm2, w2) \<and>
     ins \<noteq> [] \<and> merged_from (w_store (sample_world sample_crash)) sample_job sample_env ins c \<and>
     w_store w2 ''d/m/c.parquet'' = Some c \<and> list_all (\<lambda>p. w_store w2 p = w_store (sample_world sample_crash) p) ins"
proof -
  obtain r mm2 w2 where rec: "RecoverOrphanedManifests sample_mj sorted_list_of_set
      (NewManifestManager, sample_dead\<lparr>w_script := [Works, Fails False], w_dead := False\<rparr>) = (r, mm2, w2)"
    by (metis prod.exhaust)
  have man: "jb_managed sample_job" by (simp add: sample_job_def)
  have key: "output_key sample_job sample_env = ''d/m/c.parquet''" by (simp add: output_key_def sample_job_def sample_env_def)
  then have stored: "w_store sample_dead (output_key sample_job sample_env) \<noteq> None" by (simp add: sample_dead_stores)
  from failed_read_doubles_rows [OF sample_dead_run sample_mild man sample_apart sample_listing stored sample_dead_stores(2,3) rec later.refl] rec
  show ?thesis unfolding key list_all_iff by blast
qed

text \<open>The job that nothing disturbs, and a cluster that knows its two files.\<close>

definition sample_good :: watch_env where
  "sample_good = \<lparr>we_readable = True, we_raft = Committed 7, we_remove = True\<rparr>"

definition sample_fsm :: fsm where
  "sample_fsm = NewClusterFSM\<lparr>files :=
     [''d/m/a'' \<mapsto> known_entry ''n'' 1 ((job_output sample_job sample_env [])\<lparr>co_path := ''d/m/a''\<rparr>),
      ''d/m/b'' \<mapsto> known_entry ''n'' 2 ((job_output sample_job sample_env [])\<lparr>co_path := ''d/m/b''\<rparr>)]\<rparr>"

definition sample_watcher :: "completion \<Rightarrow> watcher" where
  "sample_watcher m = \<lparr>wa_dir = [''j.json'' \<mapsto> m], wa_registered = {}, wa_fsm = sample_fsm\<rparr>"

abbreviation sample_out :: compacted_output where
  "sample_out \<equiv> job_output sample_job sample_env sample_output"

lemma sample_out_path: "co_path sample_out = ''d/m/c.parquet''"
  by (simp add: job_output_def output_key_def sample_job_def sample_env_def)

lemma sample_path_valid: "ValidateManifestPath ''d/m/c.parquet'' = None"
  by code_simp

lemma sample_completion_fields:
  "cm_state sample_completion = SourcesDeleted" "cm_outputs sample_completion = [sample_out]" "cm_deleted sample_completion = [''d/m/a'', ''d/m/b'']"
  by (simp_all add: sample_completion_def)

lemma sample_well_formed: "well_formed sample_completion sample_out"
  "well_formed (sample_completion\<lparr>cm_state := OutputWritten, cm_deleted := []\<rparr>) sample_out"
  by (simp_all add: well_formed_def sample_completion_fields sample_out_path sample_path_valid)

lemma sample_poll:
  assumes "wa' = fold (watch_step ''n'' sorted_list_of_set) [Poll (\<lambda>_. sample_good)] (sample_watcher sample_completion)"
  shows "files (wa_fsm wa') ''d/m/a'' = None"
proof -
  let ?wa = "sample_watcher sample_completion"
  have d: "wa_dir ?wa = [''j.json'' \<mapsto> sample_completion]" by (simp add: sample_watcher_def)
  have suffix: "has_suffix ''.json'' ''j.json''" by (simp add: has_suffix_def)
  have start: "progress ''n'' sample_out (files sample_fsm) ''j.json'' sample_completion ?wa"
    by (simp add: progress_def sample_watcher_def)
  have good: "good_env sample_good" by (simp add: good_env_def sample_good_def)
  have "wa' = applyOne ''n'' sample_good ''j.json'' ?wa"
    using assms poll_lone(1) [OF sample_listing suffix d] by simp
  then have "progress ''n'' sample_out (files sample_fsm) ''j.json'' sample_completion wa'" "wa_dir wa' = Map.empty"
    using applyOne_progress [OF start d, of sample_good] sample_well_formed(1) good by (auto simp: well_formed_def sample_completion_fields)
  moreover have "Map.empty \<noteq> [''j.json'' \<mapsto> sample_completion]" by (metis fun_upd_same option.distinct(1))
  ultimately show ?thesis
    by (auto simp: progress_def applied_def removed_from_def restrict_map_def sample_completion_fields)
qed

theorem cluster_keeps_stored_files_witness:
  "\<exists>mm1 w1. Run sample_mj sample_job sample_env (NewManifestManager, sample_world []) = (JobCompleted, mm1, w1) \<and>
     files (wa_fsm (sample_watcher sample_completion)) ''d/m/a'' \<noteq> None \<and>
     files (wa_fsm (fold (watch_step ''n'' sorted_list_of_set) [Poll (\<lambda>_. sample_good)] (sample_watcher sample_completion))) ''d/m/a'' = None \<and>
     w_store w1 ''d/m/a'' = None"
proof -
  have gone: "deleted_gone {job_path sample_job, output_key sample_job sample_env} (sample_world [])"
    by (simp add: deleted_gone_def listed_deleted_def sample_world_def)
  have before: "files (wa_fsm (sample_watcher sample_completion)) ''d/m/a'' \<noteq> None"
    by (simp add: sample_watcher_def sample_fsm_def)
  note after = sample_poll [OF HOL.refl]
  have dir: "wa_dir (sample_watcher sample_completion) = [''j.json'' \<mapsto> sample_completion]" by (simp add: sample_watcher_def)
  have "list_all watching [Poll (\<lambda>_. sample_good)]" by (simp add: watching_def)
  from cluster_keeps_stored_files [OF sample_done_run gone sample_apart(1) _ this HOL.refl before after] dir sample_done_run before after
  show ?thesis by auto
qed

theorem watcher_completes_job_witness:
  "\<exists>wa' i. wa' = fold (watch_step ''n'' sorted_list_of_set)
       ([Poll (\<lambda>_. sample_good\<lparr>we_raft := NoLeader\<rparr>), Poll (\<lambda>_. sample_good), Restart] @
        Advance ''j.json'' sample_completion # [Poll (\<lambda>_. sample_good\<lparr>we_raft := CommittedUnknown 3\<rparr>)] @ [Poll (\<lambda>_. sample_good)])
       (sample_watcher (sample_completion\<lparr>cm_state := OutputWritten, cm_deleted := []\<rparr>)) \<and>
     wa_dir wa' = Map.empty \<and>
     files (wa_fsm wa') = removed_from (set [''d/m/a'', ''d/m/b'']) ((files sample_fsm)(''d/m/c.parquet'' \<mapsto> known_entry ''n'' i sample_out))"
proof -
  let ?m1 = "sample_completion\<lparr>cm_state := OutputWritten, cm_deleted := []\<rparr>"
  let ?es1 = "[Poll (\<lambda>_. sample_good\<lparr>we_raft := NoLeader\<rparr>), Poll (\<lambda>_. sample_good), Restart]"
  let ?es2 = "[Poll (\<lambda>_. sample_good\<lparr>we_raft := CommittedUnknown 3\<rparr>)]"
  have m2: "sample_completion = ?m1\<lparr>cm_state := SourcesDeleted, cm_deleted := [''d/m/a'', ''d/m/b''], cm_updated := cm_updated sample_completion\<rparr>"
    by (simp add: sample_completion_def)
  have dir: "wa_dir (sample_watcher ?m1) = [''j.json'' \<mapsto> ?m1]" "cm_state ?m1 = OutputWritten" "cm_job ?m1 \<notin> wa_registered (sample_watcher ?m1)"
    by (simp_all add: sample_watcher_def)
  have "has_suffix ''.json'' ''j.json''" "list_all watching ?es1" "list_all watching ?es2" "good_env ((\<lambda>_. sample_good) ''j.json'')"
    by (simp_all add: has_suffix_def watching_def good_env_def sample_good_def)
  from watcher_completes_job [OF dir m2 sample_well_formed(2,1) _ sample_listing this HOL.refl, of "''n''"]
  show ?thesis by (auto simp: sample_out_path sample_watcher_def)
qed

end
