(* ===== verification/Reconcile_Instance.thy ===== *)
theory Reconcile_Instance
  imports Reconcile_Result Compaction_Instance
begin

text \<open>
  The theorems of reconciliation at a concrete cluster: two files of which one is gone, an object
  that no manifest entry names, and the job whose process died.
\<close>

section \<open>Runs\<close>

definition sample_cfg :: rec_config where
  "sample_cfg = \<lparr>cf_Enabled = True, cf_BackendKind = BackendShared, cf_LocalNodeID = ''n'', cf_GraceWindow = 10,
     cf_ClockSkewAllowance = 1, cf_MaxManifestSize = 100, cf_MaxDeletesPerRun = 100, cf_BatchSize = 2,
     cf_DeletePreManifestOrphans = True, cf_SamplePathsCap = 10, cf_MaxRootWalkDatabases = 1000\<rparr>"

definition sample_walk :: walk_env where
  "sample_walk = \<lparr>wk_order = sorted_list_of_set, wk_listing = sorted_list_of_set, wk_hasDirs = True, wk_hasObjects = True,
     wk_dirs = (\<lambda>p. if p = [] then Some [''d/''] else Some [''m/'']), wk_mtime = (\<lambda>_. Some 0),
     wk_rootCtx = (\<lambda>_. True), wk_prefixCtx = (\<lambda>_. True)\<rparr>"

definition sample_chunk :: chunk_env where
  "sample_chunk = \<lparr>ch_ctx = True, ch_gate = True, ch_fsm = id, ch_store = id, ch_raft = Committed 9\<rparr>"

definition sample_rec :: rec_env where
  "sample_rec = \<lparr>re_id = ''r'', re_gateStorage = True, re_gateManifest = True, re_ctx = True, re_ranges = sorted_ranges,
     re_walk = sample_walk, re_during = sample_chunk, re_now = 100, re_order = sorted_list_of_set,
     re_manifest = (\<lambda>_. sample_chunk), re_storage = (\<lambda>_. sample_chunk), re_hasBatchDelete = True\<rparr>"

lemma sample_quiet: "quiet sample_chunk" "undisturbed sample_chunk" "keeps p sample_chunk" "keeps_object p sample_chunk"
  by (simp_all add: quiet_def undisturbed_def sample_chunk_def keeps_def keeps_object_def)

lemma sample_full_walk: "full_walk sample_walk"
  by (simp add: full_walk_def sample_walk_def sample_listing)

lemma sample_files: "dom (files sample_fsm) = {''d/m/a'', ''d/m/b''}"
  by (simp add: sample_fsm_def insert_commute)

lemma sample_paths_ok: "paths_ok sample_fsm"
proof -
  have "ValidateManifestPath ''d/m/a'' = None" "ValidateManifestPath ''d/m/b'' = None" by code_simp+
  then show ?thesis by (auto simp: paths_ok_def sample_files) (auto simp: sample_fsm_def known_entry_def file_entry_of_def split: if_splits)
qed

lemma sample_calm_run:
  assumes "calm w" "finite (dom (w_store w))" "card (dom (w_store w)) \<le> 98"
  shows "calm_run sample_cfg sample_rec sample_fsm w"
proof -
  have sorted: "sorted_list_of_set {''d/m/a'', ''d/m/b''} = [''d/m/a'', ''d/m/b'']" by code_simp
  have "length (GetAllFiles sorted_ranges sample_fsm) \<le> 100"
    by (simp add: GetAllFiles_def sample_files sorted_ranges_def sorted List.map_filter_simps split: option.split)
  moreover have "card (dom (files sample_fsm)) = 2" unfolding sample_files by simp
  moreover have "ranges_ok sorted_ranges" by (rule sorted_ranges_ok)
  ultimately show ?thesis
    using assms sample_quiet sample_full_walk sample_paths_ok sample_listing
    by (simp add: calm_run_def sample_cfg_def sample_rec_def)
qed

section \<open>Orphans\<close>

lemma sample_roots: "''d/m/'' \<in> set (walk_roots sample_cfg sample_rec (GetAllFiles sorted_ranges sample_fsm))"
proof -
  have sorted: "sorted_list_of_set {''d/m/a'', ''d/m/b''} = [''d/m/a'', ''d/m/b'']" by code_simp
  have keys: "manifestToKeys sample_cfg (fileEntriesToKeys (GetAllFiles sorted_ranges sample_fsm)) =
      [\<lparr>ok_Path = ''d/m/a'', ok_Database = ''d'', ok_Measurement = ''m'', ok_OriginNodeID = ''n''\<rparr>,
       \<lparr>ok_Path = ''d/m/b'', ok_Database = ''d'', ok_Measurement = ''m'', ok_OriginNodeID = ''n''\<rparr>]"
    by (simp add: GetAllFiles_def sample_files sorted_ranges_def sorted List.map_filter_simps manifestToKeys_def fileEntriesToKeys_def
        sample_cfg_def sample_fsm_def known_entry_def file_entry_of_def job_output_def sample_job_def)
  have pres: "known_prefixes (manifestToKeys sample_cfg (fileEntriesToKeys (GetAllFiles sorted_ranges sample_fsm))) = {''d/m/''}"
    unfolding keys by (simp add: known_prefixes_def key_prefix_def)
  show ?thesis
    unfolding walk_roots_def derivePrefixes_def pres Let_def
    by (auto simp: sample_rec_def sample_walk_def split: option.splits prod.splits)
qed

lemma sample_orphan:
  assumes "w_store w p \<noteq> None" "files sample_fsm p = None" "isParquetCandidate p" "has_prefix ''d/m/'' p"
  shows "p \<in> orphans sample_cfg sample_rec sample_fsm w"
proof -
  have "p \<in> walked (walk_roots sample_cfg sample_rec (GetAllFiles sorted_ranges sample_fsm)) w"
    using assms(1,3,4) sample_roots by (auto simp: walked_def)
  then show ?thesis
    using assms(2) by (simp add: orphans_def sample_rec_def sample_walk_def isYoungerThan_def sample_cfg_def)
qed

definition sample_store :: "unit world" where
  "sample_store = \<lparr>w_store = [''d/m/a'' \<mapsto> sample_file 1, ''d/m/x.parquet'' \<mapsto> sample_file 3], w_temp = Map.empty,
     w_comp = Map.empty, w_script = [], w_dead = False\<rparr>"

lemma sample_candidates: "isParquetCandidate ''d/m/x.parquet''" "isParquetCandidate ''d/m/c.parquet''" "\<not> isParquetCandidate ''d/m/a''"
    "has_prefix ''d/m/'' ''d/m/x.parquet''" "has_prefix ''d/m/'' ''d/m/c.parquet''"
  by code_simp+

section \<open>The theorems at this cluster\<close>

theorem reconcile_result_witness:
  "\<exists>r f' w'. Reconcile sample_cfg False False sample_rec sample_fsm sample_store = (None, Some r, f', w') \<and>
     files f' ''d/m/a'' \<noteq> None \<and> files f' ''d/m/b'' = None \<and> w_store w' ''d/m/a'' \<noteq> None \<and> w_store w' ''d/m/x.parquet'' = None"
proof -
  have "calm_run sample_cfg sample_rec sample_fsm sample_store"
    by (rule sample_calm_run) (simp_all add: sample_store_def calm_def)
  from reconcile_result [OF this] obtain r f' w' where
    r: "Reconcile sample_cfg False False sample_rec sample_fsm sample_store = (None, Some r, f', w')"
      "\<forall>p. files f' p = (if w_store sample_store p = None then None else files sample_fsm p)"
      "\<forall>p. w_store w' p = (if p \<in> orphans sample_cfg sample_rec sample_fsm sample_store then None else w_store sample_store p)" by blast
  have "''d/m/x.parquet'' \<in> orphans sample_cfg sample_rec sample_fsm sample_store"
    using sample_candidates by (intro sample_orphan) (simp_all add: sample_store_def sample_fsm_def)
  moreover have "''d/m/a'' \<notin> orphans sample_cfg sample_rec sample_fsm sample_store" by (simp add: orphans_def sample_fsm_def)
  ultimately show ?thesis using r by (simp add: sample_store_def sample_fsm_def)
qed

theorem reconcile_keeps_live_files_witness:
  "\<exists>e r' f' w'. reconcile_sweeps sample_cfg False sample_rec
       \<lparr>di_orphanManifest = [''d/m/a''], di_orphanStorage = [\<lparr>or_path = ''d/m/a'', or_lastModified = None\<rparr>], di_skippedGraceCount = 0\<rparr>
       (new_run sample_cfg False ''r'', sample_fsm, sample_store) = (e, r', f', w') \<and>
     files f' ''d/m/a'' \<noteq> None \<and> w_store w' ''d/m/a'' \<noteq> None"
proof -
  let ?d = "\<lparr>di_orphanManifest = [''d/m/a''], di_orphanStorage = [\<lparr>or_path = ''d/m/a'', or_lastModified = None\<rparr>], di_skippedGraceCount = 0\<rparr>"
  obtain e r' f' w' where run: "reconcile_sweeps sample_cfg False sample_rec ?d (new_run sample_cfg False ''r'', sample_fsm, sample_store) = (e, r', f', w')"
    by (metis prod.exhaust)
  have "\<forall>k. keeps ''d/m/a'' (re_manifest sample_rec k) \<and> keeps ''d/m/a'' (re_storage sample_rec k)"
    by (simp add: sample_rec_def sample_quiet)
  from reconcile_keeps_live_files [OF run this] run show ?thesis by (auto simp: sample_fsm_def sample_store_def)
qed

theorem reconcile_spares_protected_objects_witness:
  "\<exists>e r f' w'. Reconcile sample_cfg False False (sample_rec\<lparr>re_now := 5\<rparr>) sample_fsm sample_store = (e, r, f', w') \<and>
     w_store w' ''d/m/x.parquet'' \<noteq> None"
proof -
  obtain e r f' w' where run: "Reconcile sample_cfg False False (sample_rec\<lparr>re_now := 5\<rparr>) sample_fsm sample_store = (e, r, f', w')"
    by (metis prod.exhaust)
  have "w_store w' ''d/m/x.parquet'' \<noteq> None"
    by (rule reconcile_spares_protected_objects [OF run])
      (simp_all add: sample_rec_def sample_quiet sample_listing sample_store_def sample_walk_def isYoungerThan_def sample_cfg_def)
  then show ?thesis using run by blast
qed


text \<open>The process of compaction dies after the upload; everything after that works.\<close>

theorem crashed_compaction_loses_rows_witness:
  "\<exists>r mm2 w2 ins c run f' w3. RecoverOrphanedManifests sample_mj sorted_list_of_set (NewManifestManager, sample_dead\<lparr>w_script := [], w_dead := False\<rparr>) = (r, mm2, w2) \<and>
     ins \<noteq> [] \<and> merged_from (w_store (sample_world sample_crash)) sample_job sample_env ins c \<and>
     Reconcile sample_cfg False False sample_rec
       (wa_fsm (fold (watch_step ''n'' sorted_list_of_set) [Poll (\<lambda>_. sample_good), Restart]
          \<lparr>wa_dir = w_comp w2, wa_registered = {}, wa_fsm = sample_fsm\<rparr>))
       (w2\<lparr>w_script := [], w_dead := False\<rparr>) = (None, Some run, f', w3) \<and>
     w_store w3 ''d/m/c.parquet'' = None \<and> list_all (\<lambda>p. w_store w3 p = None) ins"
proof -
  obtain r mm2 w2 where rec: "RecoverOrphanedManifests sample_mj sorted_list_of_set
      (NewManifestManager, sample_dead\<lparr>w_script := [], w_dead := False\<rparr>) = (r, mm2, w2)"
    by (metis prod.exhaust)
  let ?w = "w2\<lparr>w_script := [], w_dead := False\<rparr>" and ?wa = "\<lparr>wa_dir = w_comp w2, wa_registered = {}, wa_fsm = sample_fsm\<rparr>"
  let ?es = "[Poll (\<lambda>_. sample_good), Restart]"
  let ?f = "wa_fsm (fold (watch_step ''n'' sorted_list_of_set) ?es ?wa)"
  have key: "output_key sample_job sample_env = ''d/m/c.parquet''" by (simp add: output_key_def sample_job_def sample_env_def)
  have man: "jb_managed sample_job" by (simp add: sample_job_def)
  have stored: "w_store sample_dead (output_key sample_job sample_env) \<noteq> None" by (simp add: sample_dead_stores key)
  have writing: "cm_state (initial_completion sample_job sample_env) = WritingOutput" by (simp add: initial_completion_def)
  have watched: "wa_dir ?wa = w_comp w2" "list_all watching ?es" by (simp_all add: watching_def)
  note crash = sample_dead_run sample_mild man sample_apart sample_listing sample_mj_round_trip stored sample_dead_stores(4) writing rec watched
  from crash_after_upload_hides [OF crash, of "''n''"] obtain ins c where hidden:
    "merged_from (w_store (sample_world sample_crash)) sample_job sample_env ins c"
    "w_store w2 ''d/m/c.parquet'' = Some c" "?f = sample_fsm"
      "dom (w_store w2) \<subseteq> insert ''d/m/c.parquet'' (dom (w_store (sample_world sample_crash)))" unfolding key by (metis (no_types, lifting) watcher.select_convs(3))
  have sub: "dom (w_store ?w) \<subseteq> {''d/m/a'', ''d/m/b'', ''d/m/c.parquet''}" using hidden(4) by (auto simp: sample_world_def split: if_splits)
  have "card {''d/m/a'', ''d/m/b'', ''d/m/c.parquet''} \<le> 98" by simp
  then have small: "finite (dom (w_store ?w)) \<and> card (dom (w_store ?w)) \<le> 98"
    using finite_subset [OF sub] card_mono [OF _ sub] by (meson finite.emptyI finite.insertI order_trans)
  then have "calm_run sample_cfg sample_rec ?f ?w" unfolding hidden(3) by (intro sample_calm_run) (simp_all add: calm_def)
  moreover have "output_key sample_job sample_env \<in> orphans sample_cfg sample_rec (wa_fsm ?wa) ?w"
    unfolding key watcher.simps by (rule sample_orphan) (use hidden(2) sample_candidates in \<open>simp_all add: sample_fsm_def\<close>)
  ultimately show ?thesis
    using crashed_compaction_loses_rows [OF crash HOL.refl] rec unfolding key list_all_iff by blast
qed

end
