(* ===== verification/Reconcile_History.thy ===== *)
theory Reconcile_History
  imports Reconcile_Sweep
begin

text \<open>
  The runs a reconciler remembers (\<^verbatim>\<open>reconciler.go\<close>): its construction and the ring buffer of recent
  runs, which answers like the complete list of runs cut to its ten newest.
\<close>

section \<open>The ring\<close>

definition runHistoryCap :: nat where "runHistoryCap = 10"

text \<open>A Go slice that is not allocated yet is the empty list.\<close>

record reconciler =
  rc_cfg :: rec_config
  rc_history :: "run option list"
  rc_head :: nat
  rc_size :: nat
  rc_last :: "run option"

datatype new_error = StorageRequired | BackendKindMissing | CoordinatorRequired | LocalNodeIDRequired

text \<open>\<open>NewReconciler\<close>: the kind of backend is \<open>None\<close> when it is the empty string.\<close>

definition NewReconciler :: "rec_config \<Rightarrow> backend_kind option \<Rightarrow> bool \<Rightarrow> bool \<Rightarrow> new_error + reconciler" where
  "NewReconciler c kind hasStore hasCoord =
     (let cfg = applyDefaults c
      in if \<not> hasStore then Inl StorageRequired
         else case kind of
                None \<Rightarrow> Inl BackendKindMissing
              | Some k \<Rightarrow>
                  if k \<noteq> BackendStandalone \<and> \<not> hasCoord then Inl CoordinatorRequired
                  else if k = BackendLocal \<and> cf_LocalNodeID cfg = [] then Inl LocalNodeIDRequired
                  else Inr \<lparr>rc_cfg = cfg\<lparr>cf_BackendKind := k\<rparr>, rc_history = [], rc_head = 0, rc_size = 0, rc_last = None\<rparr>)"

definition recordRun :: "run \<Rightarrow> reconciler \<Rightarrow> reconciler" where
  "recordRun r rc =
     (let h = (if rc_history rc = [] then replicate runHistoryCap None else rc_history rc)
      in rc\<lparr>rc_last := Some r, rc_history := h[rc_head rc := Some r], rc_head := (rc_head rc + 1) mod runHistoryCap,
            rc_size := (if rc_size rc < runHistoryCap then rc_size rc + 1 else rc_size rc)\<rparr>)"

text \<open>The slot of the \<open>i\<close>-th newest run.\<close>

definition slot :: "reconciler \<Rightarrow> nat \<Rightarrow> nat" where
  "slot rc i = (rc_head rc + runHistoryCap - 1 - i) mod runHistoryCap"

definition snapshotHistoryLocked :: "reconciler \<Rightarrow> run list" where
  "snapshotHistoryLocked rc = List.map_filter (\<lambda>i. rc_history rc ! slot rc i) [0..<rc_size rc]"

definition FindRun :: "string \<Rightarrow> reconciler \<Rightarrow> run option" where
  "FindRun k rc =
     (case List.find (\<lambda>i. case rc_history rc ! slot rc i of None \<Rightarrow> False | Some r \<Rightarrow> ru_ID r = k) [0..<rc_size rc] of
        None \<Rightarrow> None | Some i \<Rightarrow> rc_history rc ! slot rc i)"

text \<open>A call of \<open>Reconcile\<close> with \<open>finalizeRun\<close>: what has become a run is recorded.\<close>

definition run_and_record ::
  "bool \<Rightarrow> bool \<Rightarrow> rec_env \<Rightarrow> reconciler \<times> fsm \<times> 'c world \<Rightarrow> rec_error option \<times> reconciler \<times> fsm \<times> 'c world" where
  "run_and_record running dryRun E s =
     (case s of (rc, f, w) \<Rightarrow>
        (case Reconcile (rc_cfg rc) running dryRun E f w of
           (e, None, f', w') \<Rightarrow> (e, rc, f', w')
         | (e, Some r, f', w') \<Rightarrow> (e, recordRun r rc, f', w')))"

section \<open>The ring as a list\<close>

text \<open>\<open>log\<close> holds all runs, the newest first.\<close>

definition ring_of :: "run list \<Rightarrow> reconciler \<Rightarrow> bool" where
  "ring_of log rc \<longleftrightarrow>
     rc_head rc = length log mod runHistoryCap \<and> rc_size rc = min (length log) runHistoryCap \<and>
     rc_history rc = (if log = [] then [] else rc_history rc) \<and> (log \<noteq> [] \<longrightarrow> length (rc_history rc) = runHistoryCap) \<and>
     rc_last rc = (case log of [] \<Rightarrow> None | r # _ \<Rightarrow> Some r) \<and>
     (\<forall>i<rc_size rc. rc_history rc ! slot rc i = Some (log ! i))"

lemma slot_bound: "slot rc i < runHistoryCap"
  by (simp add: slot_def runHistoryCap_def)

lemma mod_small: "x < 20 \<Longrightarrow> x mod 10 = (if x < 10 then x else x - 10)" for x :: nat
  by (simp add: le_mod_geq)

lemma slot_next:
  assumes "rc_head rc < runHistoryCap" "rc_head rc' = (rc_head rc + 1) mod runHistoryCap"
  shows "slot rc' 0 = rc_head rc" "i + 1 < runHistoryCap \<Longrightarrow> slot rc' (Suc i) = slot rc i \<and> slot rc i \<noteq> rc_head rc"
  using assms by (auto simp: slot_def runHistoryCap_def mod_small)

lemma recordRun_ring:
  assumes "ring_of log rc"
  shows "ring_of (r # log) (recordRun r rc)"
proof -
  let ?rc = "recordRun r rc"
  have head: "rc_head rc < runHistoryCap" using assms by (simp add: ring_of_def runHistoryCap_def)
  have adv: "rc_head ?rc = (rc_head rc + 1) mod runHistoryCap" by (simp add: recordRun_def Let_def)
  have len: "length (rc_history ?rc) = runHistoryCap"
    using assms by (auto simp: ring_of_def recordRun_def Let_def runHistoryCap_def)
  have size: "rc_size ?rc = min (length (r # log)) runHistoryCap" using assms by (auto simp: ring_of_def recordRun_def Let_def)
  have new: "rc_history ?rc ! rc_head rc = Some r"
    using head len by (auto simp: recordRun_def Let_def)
  have old: "rc_history ?rc ! k = rc_history rc ! k" if "k \<noteq> rc_head rc" "log \<noteq> []" for k
    using that assms by (auto simp: ring_of_def recordRun_def Let_def runHistoryCap_def)
  have "rc_history ?rc ! slot ?rc i = Some ((r # log) ! i)" if i: "i < rc_size ?rc" for i
  proof (cases i)
    case 0
    then show ?thesis using slot_next(1) [OF head adv] new by simp
  next
    case (Suc k)
    then have k: "k + 1 < runHistoryCap" "k < length log" "log \<noteq> []" using i size by auto
    then have "rc_history rc ! slot rc k = Some (log ! k)" using assms by (auto simp: ring_of_def)
    then show ?thesis using slot_next(2) [OF head adv k(1)] old [of "slot rc k"] k(3) Suc by auto
  qed
  moreover have "rc_head ?rc = length (r # log) mod runHistoryCap"
    using assms unfolding adv by (simp add: ring_of_def mod_Suc_eq)
  moreover have "rc_last ?rc = Some r" by (simp add: recordRun_def Let_def)
  ultimately show ?thesis using size len unfolding ring_of_def by simp
qed

lemma find_nth: "List.find P xs = map_option ((!) xs) (List.find (\<lambda>i. P (xs ! i)) [0..<length xs])"
proof -
  have "List.find P (map f l) = map_option f (List.find (\<lambda>i. P (f i)) l)" for f :: "nat \<Rightarrow> 'a" and l
    by (induction l) auto
  from this [of "(!) xs" "[0..<length xs]"] show ?thesis by (simp only: map_nth)
qed

lemma ring_answers:
  assumes "ring_of log rc"
  shows "snapshotHistoryLocked rc = take runHistoryCap log"
    and "FindRun k rc = List.find (\<lambda>r. ru_ID r = k) (take runHistoryCap log)"
    and "rc_last rc = (case log of [] \<Rightarrow> None | r # _ \<Rightarrow> Some r)"
proof -
  have n: "rc_size rc = length (take runHistoryCap log)" using assms by (simp add: ring_of_def)
  have at: "rc_history rc ! slot rc i = Some (take runHistoryCap log ! i)" if "i < rc_size rc" for i
    using assms that by (simp add: ring_of_def)
  have filter: "List.map_filter (\<lambda>i. rc_history rc ! slot rc i) [0..<rc_size rc] = map ((!) (take runHistoryCap log)) [0..<rc_size rc]"
    by (auto simp: List.map_filter_def at cong: map_cong intro!: filter_True)
  then show "snapshotHistoryLocked rc = take runHistoryCap log" unfolding snapshotHistoryLocked_def n by (simp only: map_nth)
  have "List.find (\<lambda>i. case rc_history rc ! slot rc i of None \<Rightarrow> False | Some r \<Rightarrow> ru_ID r = k) [0..<rc_size rc] =
      List.find (\<lambda>i. ru_ID (take runHistoryCap log ! i) = k) [0..<rc_size rc]"
    by (rule find_cong) (auto simp: at)
  then have q: "FindRun k rc = (case List.find (\<lambda>i. ru_ID (take runHistoryCap log ! i) = k) [0..<rc_size rc] of
      None \<Rightarrow> None | Some i \<Rightarrow> rc_history rc ! slot rc i)" by (simp only: FindRun_def)
  show "FindRun k rc = List.find (\<lambda>r. ru_ID r = k) (take runHistoryCap log)"
  proof (cases "List.find (\<lambda>i. ru_ID (take runHistoryCap log ! i) = k) [0..<rc_size rc]")
    case None
    then show ?thesis unfolding q find_nth [of _ "take runHistoryCap log"] n [symmetric] by simp
  next
    case (Some i)
    then have "i < rc_size rc" by (auto simp: find_Some_iff)
    then show ?thesis unfolding q find_nth [of _ "take runHistoryCap log"] n [symmetric] Some by (simp only: option.case option.map at)
  qed
  show "rc_last rc = (case log of [] \<Rightarrow> None | r # _ \<Rightarrow> Some r)" using assms by (simp add: ring_of_def)
qed

section \<open>A reconciler at work\<close>

text \<open>The limits of a reconciler are positive and its sums cannot overflow.\<close>

lemma applyDefaults_limits:
  "0 < cf_GraceWindow (applyDefaults c)" "0 < cf_ClockSkewAllowance (applyDefaults c)" "0 < cf_MaxManifestSize (applyDefaults c)"
  "0 < cf_MaxDeletesPerRun (applyDefaults c)" "0 < cf_BatchSize (applyDefaults c)"
  "0 \<le> cf_MaxRootWalkDatabases (applyDefaults c) \<and> cf_MaxRootWalkDatabases (applyDefaults c) \<le> 1000000"
  by (simp_all add: applyDefaults_def maxRootWalkDatabasesCap_def)

lemma NewReconciler_cases:
  assumes "NewReconciler c kind hasStore hasCoord = Inr rc"
  obtains k where "rc = \<lparr>rc_cfg = (applyDefaults c)\<lparr>cf_BackendKind := k\<rparr>, rc_history = [], rc_head = 0, rc_size = 0, rc_last = None\<rparr>"
    "k = BackendLocal \<Longrightarrow> cf_LocalNodeID (applyDefaults c) \<noteq> []"
  using assms unfolding NewReconciler_def Let_def by (cases kind) (auto split: if_split_asm)

lemma new_reconciler_limits:
  assumes "NewReconciler c kind hasStore hasCoord = Inr rc"
  shows "0 < cf_GraceWindow (rc_cfg rc)" "0 < cf_ClockSkewAllowance (rc_cfg rc)" "0 < cf_MaxManifestSize (rc_cfg rc)"
    "0 < cf_MaxDeletesPerRun (rc_cfg rc)" "0 < cf_BatchSize (rc_cfg rc)"
    "0 \<le> cf_MaxRootWalkDatabases (rc_cfg rc) \<and> cf_MaxRootWalkDatabases (rc_cfg rc) \<le> 1000000"
    "cf_BackendKind (rc_cfg rc) = BackendLocal \<Longrightarrow> cf_LocalNodeID (rc_cfg rc) \<noteq> []" "ring_of [] rc"
  by (rule NewReconciler_cases [OF assms]; simp add: applyDefaults_limits ring_of_def)+

text \<open>A sequence of calls, with the runs that came of them.\<close>

fun serve ::
  "(bool \<times> bool \<times> rec_env) list \<Rightarrow> reconciler \<times> fsm \<times> 'c world \<Rightarrow> run list \<times> reconciler \<times> fsm \<times> 'c world" where
  "serve [] s = ([], s)"
| "serve ((running, dryRun, E) # calls) s =
     (case serve calls (snd (run_and_record running dryRun E s)) of
        (rs, s') \<Rightarrow>
          ((case s of (rc, f, w) \<Rightarrow>
              (case fst (snd (Reconcile (rc_cfg rc) running dryRun E f w)) of None \<Rightarrow> [] | Some r \<Rightarrow> [r])) @ rs, s'))"

lemma run_and_record_ring:
  assumes "ring_of log rc"
  shows "\<exists>rc'. fst (snd (run_and_record running dryRun E (rc, f, w))) = rc' \<and> rc_cfg rc' = rc_cfg rc \<and>
    ring_of ((case fst (snd (Reconcile (rc_cfg rc) running dryRun E f w)) of None \<Rightarrow> [] | Some r \<Rightarrow> [r]) @ log) rc'"
proof -
  obtain e r f' w' where r: "Reconcile (rc_cfg rc) running dryRun E f w = (e, r, f', w')"
    by (metis prod.exhaust)
  show ?thesis
  proof (cases r)
    case None
    then show ?thesis using assms r by (simp add: run_and_record_def)
  next
    case (Some x)
    then show ?thesis using recordRun_ring [OF assms] r by (simp add: run_and_record_def) (simp add: recordRun_def Let_def)
  qed
qed

lemma serve_ring:
  "serve calls (rc, f, w) = (rs, rc', f', w') \<Longrightarrow> ring_of log rc \<Longrightarrow> ring_of (rev rs @ log) rc' \<and> rc_cfg rc' = rc_cfg rc"
proof (induction calls arbitrary: rc f w rs log)
  case (Cons call calls)
  obtain running dryRun E where call: "call = (running, dryRun, E)" by (cases call)
  obtain rc1 f1 w1 where s1: "snd (run_and_record running dryRun E (rc, f, w)) = (rc1, f1, w1)"
    by (metis prod.exhaust)
  let ?new = "case fst (snd (Reconcile (rc_cfg rc) running dryRun E f w)) of None \<Rightarrow> [] | Some r \<Rightarrow> [r]"
  have ring: "ring_of (?new @ log) rc1" "rc_cfg rc1 = rc_cfg rc"
    using run_and_record_ring [OF Cons.prems(2), of running dryRun E f w] s1 by auto
  obtain rs1 where rest: "serve calls (rc1, f1, w1) = (rs1, rc', f', w')" "rs = ?new @ rs1"
    using Cons.prems(1) call s1 by (auto split: prod.splits)
  have "rev ?new = ?new" by (simp split: option.split)
  then show ?case using Cons.IH [OF rest(1) ring(1)] ring(2) rest(2) by simp
qed simp

text \<open>
  A reconciler remembers its runs: after any sequence of calls the recent runs are the ten
  newest runs that came of them, the newest first, a run is found by its id exactly when it is
  among these, and the last run is the newest.
\<close>

theorem reconciler_remembers:
  assumes "NewReconciler c kind hasStore hasCoord = Inr rc" "serve calls (rc, f, w) = (rs, rc', f', w')"
  shows "snapshotHistoryLocked rc' = take 10 (rev rs) \<and> FindRun k rc' = List.find (\<lambda>r. ru_ID r = k) (take 10 (rev rs)) \<and>
    rc_last rc' = (if rs = [] then None else Some (last rs))"
proof -
  have ring: "ring_of (rev rs) rc'" using serve_ring [OF assms(2) new_reconciler_limits(8) [OF assms(1)]] by simp
  have "(case rev rs of [] \<Rightarrow> None | r # _ \<Rightarrow> Some r) = (if rs = [] then None else Some (last rs))"
    by (cases rs rule: rev_cases) auto
  then show ?thesis using ring_answers [OF ring] by (simp add: runHistoryCap_def)
qed

end
