(* ===== verification/Ingest_UTF8.thy ===== *)
theory Ingest_UTF8
  imports Prelude
begin

text \<open>
  UTF-8 as Go's \<^verbatim>\<open>unicode/utf8\<close> decodes it, and the repair of strings at ingestion
  (\<^verbatim>\<open>internal/ingest/utf8.go\<close>, \<^verbatim>\<open>utf8_sanitize.go\<close>).  A Go string is a list of bytes, here characters.
\<close>

section \<open>Runes\<close>

abbreviation byte_of :: "char \<Rightarrow> nat" where "byte_of c \<equiv> of_char c"

definition in_range :: "nat \<Rightarrow> nat \<Rightarrow> char \<Rightarrow> bool" where
  "in_range lo hi c \<longleftrightarrow> lo \<le> byte_of c \<and> byte_of c \<le> hi"

abbreviation continuation :: "char \<Rightarrow> bool" where "continuation \<equiv> in_range 0x80 0xBF"

text \<open>The bounds of the second byte, which depend on the first.\<close>

definition second_low :: "char \<Rightarrow> nat" where
  "second_low c = (if byte_of c = 0xE0 then 0xA0 else if byte_of c = 0xF0 then 0x90 else 0x80)"

definition second_high :: "char \<Rightarrow> nat" where
  "second_high c = (if byte_of c = 0xED then 0x9F else if byte_of c = 0xF4 then 0x8F else 0xBF)"

definition second_ok :: "char \<Rightarrow> char \<Rightarrow> bool" where
  "second_ok a b \<longleftrightarrow> in_range (second_low a) (second_high a) b"

text \<open>The size of the rune at the start of a string; \<open>None\<close> is \<^verbatim>\<open>RuneError\<close> of size 1.\<close>

fun rune_size :: "string \<Rightarrow> nat option" where
  "rune_size [] = None"
| "rune_size (a # s) =
     (if byte_of a < 0x80 then Some 1
      else if in_range 0xC2 0xDF a
      then (case s of b # _ \<Rightarrow> if second_ok a b then Some 2 else None | [] \<Rightarrow> None)
      else if in_range 0xE0 0xEF a
      then (case s of b # c # _ \<Rightarrow> if second_ok a b \<and> continuation c then Some 3 else None | _ \<Rightarrow> None)
      else if in_range 0xF0 0xF4 a
      then (case s of b # c # d # _ \<Rightarrow> if second_ok a b \<and> continuation c \<and> continuation d then Some 4 else None | _ \<Rightarrow> None)
      else None)"

lemma second_ok_continuation: "second_ok a b \<Longrightarrow> continuation b"
  by (auto simp: second_ok_def second_low_def second_high_def in_range_def split: if_splits)

text \<open>A rune is its first byte and continuation bytes, and no byte after it matters.\<close>

lemma rune_size_cases:
  assumes "rune_size s = Some n"
  obtains a r t where "s = a # r @ t" "n = Suc (length r)" "list_all continuation r" "\<not> continuation a" "r = [] \<longleftrightarrow> byte_of a < 0x80"
    "\<forall>t. rune_size (a # r @ t) = Some n"
proof (cases s)
  case (Cons a s')
  consider "byte_of a < 0x80" | "in_range 0xC2 0xDF a" | "in_range 0xE0 0xEF a" | "in_range 0xF0 0xF4 a"
    using assms Cons by (auto split: if_splits)
  then show ?thesis
  proof cases
    case 1
    show ?thesis by (rule that [of a "[]" s']) (use assms Cons 1 in \<open>auto simp: in_range_def\<close>)
  next
    case 2
    then obtain b t where t: "s' = b # t" "second_ok a b" "n = 2" using assms Cons by (auto simp: in_range_def split: list.splits if_splits)
    show ?thesis by (rule that [of a "[b]" t]) (use Cons 2 t second_ok_continuation [OF t(2)] in \<open>auto simp: in_range_def\<close>)
  next
    case 3
    then obtain b c t where t: "s' = b # c # t" "second_ok a b" "continuation c" "n = 3"
      using assms Cons by (auto simp: in_range_def split: list.splits if_splits)
    show ?thesis by (rule that [of a "[b, c]" t]) (use Cons 3 t second_ok_continuation [OF t(2)] in \<open>auto simp: in_range_def\<close>)
  next
    case 4
    then obtain b c d t where t: "s' = b # c # d # t" "second_ok a b" "continuation c" "continuation d" "n = 4"
      using assms Cons by (auto simp: in_range_def split: list.splits if_splits)
    show ?thesis by (rule that [of a "[b, c, d]" t]) (use Cons 4 t second_ok_continuation [OF t(2)] in \<open>auto simp: in_range_def\<close>)
  qed
qed (use assms in simp)

lemma rune_size_bounds: "rune_size s = Some n \<Longrightarrow> 0 < n \<and> n \<le> length s"
  by (erule rune_size_cases) simp

declare rune_size.simps(2) [simp del]

section \<open>Validity\<close>

function ValidateUTF8 :: "string \<Rightarrow> bool" where
  "ValidateUTF8 s =
     (if s = [] then True
      else case rune_size s of None \<Rightarrow> False | Some n \<Rightarrow> ValidateUTF8 (drop n s))"
  by auto
termination
  by (relation "measure length") (auto dest: rune_size_bounds)

declare ValidateUTF8.simps [simp del]

lemma valid_Nil [simp]: "ValidateUTF8 []"
  by (simp add: ValidateUTF8.simps)

lemma valid_rune:
  assumes "rune_size (a # r @ t) = Some (Suc (length r))"
  shows "ValidateUTF8 (a # r @ t) = ValidateUTF8 t"
  using assms by (subst ValidateUTF8.simps) simp

text \<open>A string falls into runes.\<close>

lemma valid_induct [consumes 1, case_names empty rune]:
  assumes "ValidateUTF8 s" "P []"
    and "\<And>a r t. \<forall>u. rune_size (a # r @ u) = Some (Suc (length r)) \<Longrightarrow> list_all continuation r \<Longrightarrow> \<not> continuation a \<Longrightarrow>
      (r = [] \<longleftrightarrow> byte_of a < 0x80) \<Longrightarrow> ValidateUTF8 t \<Longrightarrow> P t \<Longrightarrow> P (a # r @ t)"
  shows "P s"
  using assms(1)
proof (induction s rule: ValidateUTF8.induct)
  case (1 s)
  show ?case
  proof (cases "s = []")
    case False
    then obtain n where n: "rune_size s = Some n" "ValidateUTF8 (drop n s)" using 1(2) by (auto simp: ValidateUTF8.simps [of s] split: option.splits)
    from n(1) obtain a r t where r: "s = a # r @ t" "n = Suc (length r)" "list_all continuation r" "\<not> continuation a"
        "r = [] \<longleftrightarrow> byte_of a < 0x80" "\<forall>t. rune_size (a # r @ t) = Some n" by (rule rune_size_cases)
    have "ValidateUTF8 t" "P t" using 1(1) [OF False n] n(2) r(1,2) by auto
    then show ?thesis unfolding r(1) using r(2-6) by (intro assms(3)) auto
  qed (use assms(2) in simp)
qed

lemma valid_cases:
  assumes "ValidateUTF8 s"
  obtains "s = []"
  | a r t where "s = a # r @ t" "\<forall>u. rune_size (a # r @ u) = Some (Suc (length r))" "list_all continuation r" "\<not> continuation a"
      "r = [] \<longleftrightarrow> byte_of a < 0x80" "ValidateUTF8 t"
  using assms by (induction rule: valid_induct) blast+

lemma valid_append: "ValidateUTF8 a \<Longrightarrow> ValidateUTF8 (a @ b) = ValidateUTF8 b"
  by (induction rule: valid_induct) (simp_all add: valid_rune)

lemma valid_ascii: "byte_of c < 0x80 \<Longrightarrow> ValidateUTF8 (c # s) = ValidateUTF8 s"
  using valid_rune [of c "[]" s] by (simp add: rune_size.simps)

text \<open>A valid string may be cut where a rune begins.\<close>

lemma valid_cut:
  assumes "ValidateUTF8 (a @ c # b)" "\<not> continuation c"
  shows "ValidateUTF8 a \<and> ValidateUTF8 (c # b)"
proof -
  obtain s where s: "ValidateUTF8 s" "a @ c # b = s" using assms(1) by simp
  then show ?thesis
  proof (induction arbitrary: a rule: valid_induct)
    case (rune x r t)
    show ?case
    proof (cases a)
      case Nil
      then show ?thesis using rune by (simp add: valid_rune)
    next
      case (Cons y a')
      then have eq: "y = x" "a' @ c # b = r @ t" using rune.prems by auto
      have "c \<notin> set r" using rune.hyps(2) assms(2) by (auto simp: list_all_iff)
      then obtain u where u: "a' = r @ u" "u @ c # b = t" using eq(2) by (auto simp: append_eq_append_conv2 append_eq_Cons_conv Cons_eq_append_conv)
      from rune.IH [OF u(2)] show ?thesis using rune.hyps(1) Cons eq(1) u(1) by (simp add: valid_rune)
    qed
  qed simp
qed

lemma valid_cut_ascii: "ValidateUTF8 (a @ c # b) \<Longrightarrow> byte_of c < 0x80 \<Longrightarrow> ValidateUTF8 a \<and> ValidateUTF8 b"
  using valid_cut [of a c b] by (auto simp: valid_ascii in_range_def)

section \<open>Repair\<close>

definition replacement :: string where
  "replacement = [CHR 0xEF, CHR 0xBF, CHR 0xBD]"

function sanitizeUTF8SlowPath :: "string \<Rightarrow> string" where
  "sanitizeUTF8SlowPath s =
     (if s = [] then []
      else case rune_size s of
             None \<Rightarrow> replacement @ sanitizeUTF8SlowPath (tl s)
           | Some n \<Rightarrow> take n s @ sanitizeUTF8SlowPath (drop n s))"
  by auto
termination
  by (relation "measure length") (auto dest: rune_size_bounds)

declare sanitizeUTF8SlowPath.simps [simp del]

definition SanitizeUTF8 :: "string \<Rightarrow> string \<times> bool" where
  "SanitizeUTF8 s = (if ValidateUTF8 s then (s, False) else (sanitizeUTF8SlowPath s, True))"

lemma valid_replacement: "ValidateUTF8 replacement"
  by (simp add: replacement_def ValidateUTF8.simps rune_size.simps second_ok_def second_low_def second_high_def in_range_def)

lemma sanitize_valid: "ValidateUTF8 (sanitizeUTF8SlowPath s)"
proof (induction s rule: sanitizeUTF8SlowPath.induct)
  case (1 s)
  show ?case
  proof (cases "s = []")
    case False
    show ?thesis
    proof (cases "rune_size s")
      case None
      then show ?thesis using 1(1) [OF False None] False valid_append [OF valid_replacement] by (simp add: sanitizeUTF8SlowPath.simps [of s])
    next
      case (Some n)
      from Some obtain a r t where r: "s = a # r @ t" "n = Suc (length r)" "\<forall>t. rune_size (a # r @ t) = Some n" by (rule rune_size_cases) blast
      have "ValidateUTF8 (a # r)" using valid_rune [of a r "[]"] spec [OF r(3), of "[]"] r(2) by simp
      then show ?thesis
        using 1(2) [OF False Some] False Some r(1,2) valid_append [of "a # r"] by (subst sanitizeUTF8SlowPath.simps) simp
    qed
  qed (simp add: sanitizeUTF8SlowPath.simps)
qed

lemma SanitizeUTF8_valid: "ValidateUTF8 (fst (SanitizeUTF8 s))"
  by (simp add: SanitizeUTF8_def sanitize_valid)

text \<open>What is valid the slow path would leave as it is, too.\<close>

lemma sanitize_id: "ValidateUTF8 s \<Longrightarrow> sanitizeUTF8SlowPath s = s"
proof (induction rule: valid_induct)
  case (rune a r t)
  then show ?case by (simp add: sanitizeUTF8SlowPath.simps [of "a # r @ t"])
qed (simp add: sanitizeUTF8SlowPath.simps)

lemma invalid_first: "rune_size (c # s) = None \<Longrightarrow> \<not> ValidateUTF8 (c # s)"
  by (subst ValidateUTF8.simps) simp

lemma sanitize_steps:
  "sanitizeUTF8SlowPath [] = []"
  "byte_of c < 0x80 \<Longrightarrow> sanitizeUTF8SlowPath (c # s) = c # sanitizeUTF8SlowPath s"
  "rune_size (c # s) = None \<Longrightarrow> sanitizeUTF8SlowPath (c # s) = replacement @ sanitizeUTF8SlowPath s"
  by (subst sanitizeUTF8SlowPath.simps, simp add: rune_size.simps)+

end
