(* ===== verification/Ingest_LineProtocol.thy ===== *)
theory Ingest_LineProtocol
  imports Ingest_UTF8 Encodings "HOL-Library.Sublist"
begin

text \<open>
  The parser of the InfluxDB line protocol (\<^verbatim>\<open>internal/ingest/lineprotocol.go\<close>): lines, their three
  parts, tags, fields and timestamps.
\<close>

section \<open>Standard library\<close>

text \<open>White space of \<^verbatim>\<open>bytes.TrimSpace\<close>: the runes of \<^verbatim>\<open>unicode.IsSpace\<close> in UTF-8.\<close>

definition spaces :: "string list" where
  "spaces =
     [[CHR 0x09], [CHR 0x0A], [CHR 0x0B], [CHR 0x0C], [CHR 0x0D], [CHR 0x20], [CHR 0xC2, CHR 0x85], [CHR 0xC2, CHR 0xA0],
      [CHR 0xE1, CHR 0x9A, CHR 0x80]] @
     map (\<lambda>n. [CHR 0xE2, CHR 0x80, char_of n]) [0x80..<0x8B] @
     [[CHR 0xE2, CHR 0x80, CHR 0xA8], [CHR 0xE2, CHR 0x80, CHR 0xA9], [CHR 0xE2, CHR 0x80, CHR 0xAF],
      [CHR 0xE2, CHR 0x81, CHR 0x9F], [CHR 0xE3, CHR 0x80, CHR 0x80]]"

lemma spaces_nonempty: "p \<in> set spaces \<Longrightarrow> p \<noteq> []"
  by (auto simp: spaces_def)

lemma find_space:
  "List.find (\<lambda>p. P p) spaces = Some p \<Longrightarrow> p \<in> set spaces \<and> P p"
  by (auto simp: find_Some_iff)

function trim_left :: "string \<Rightarrow> string" where
  "trim_left s = (case List.find (\<lambda>p. prefix p s) spaces of None \<Rightarrow> s | Some p \<Rightarrow> trim_left (drop (length p) s))"
  by auto
termination
  by (relation "measure length") (auto dest!: find_space spaces_nonempty simp: prefix_def)

function trim_right :: "string \<Rightarrow> string" where
  "trim_right s = (case List.find (\<lambda>p. suffix p s) spaces of None \<Rightarrow> s | Some p \<Rightarrow> trim_right (take (length s - length p) s))"
  by auto
termination
  by (relation "measure length") (auto dest!: find_space spaces_nonempty simp: suffix_def)

declare trim_left.simps [simp del] trim_right.simps [simp del]

definition TrimSpace :: "string \<Rightarrow> string" where
  "TrimSpace s = trim_right (trim_left s)"

text \<open>Text that begins and ends with graphic ASCII characters is not trimmed.\<close>

abbreviation graphic :: "char \<Rightarrow> bool" where "graphic \<equiv> in_range 33 126"

lemma space_ends: "p \<in> set spaces \<Longrightarrow> p \<noteq> [] \<and> \<not> graphic (hd p) \<and> \<not> graphic (last p)"
  by (auto simp: spaces_def in_range_def of_char_of)

lemma trim_left_id: "\<forall>p\<in>set spaces. \<not> prefix p s \<Longrightarrow> trim_left s = s"
  by (subst trim_left.simps) (auto simp: find_None_iff split: option.split dest!: find_space)

lemma trim_right_id: "\<forall>p\<in>set spaces. \<not> suffix p s \<Longrightarrow> trim_right s = s"
  by (subst trim_right.simps) (auto simp: find_None_iff split: option.split dest!: find_space)

lemma trim_right_graphic: "graphic (last s) \<Longrightarrow> trim_right s = s"
  by (rule trim_right_id) (use space_ends in \<open>fastforce simp: suffix_def\<close>)

lemma TrimSpace_graphic: "s = [] \<or> graphic (hd s) \<and> graphic (last s) \<Longrightarrow> TrimSpace s = s"
proof -
  assume s: "s = [] \<or> graphic (hd s) \<and> graphic (last s)"
  have "trim_left s = s" by (rule trim_left_id) (use s space_ends in \<open>fastforce simp: prefix_def\<close>)
  moreover have "trim_right s = s" by (rule trim_right_id) (use s space_ends in \<open>fastforce simp: suffix_def\<close>)
  ultimately show ?thesis by (simp add: TrimSpace_def)
qed

text \<open>\<^verbatim>\<open>bytes.Split\<close> at one byte.\<close>

fun split_at :: "char \<Rightarrow> string \<Rightarrow> string list" where
  "split_at d [] = [[]]"
| "split_at d (c # s) =
     (if c = d then [] # split_at d s
      else case split_at d s of [] \<Rightarrow> [[c]] | x # xs \<Rightarrow> (c # x) # xs)"

text \<open>\<^verbatim>\<open>strconv.ParseUint\<close> and \<^verbatim>\<open>strconv.ParseInt\<close> for base 10 and 64 bits.\<close>

definition ParseUint :: "string \<Rightarrow> nat option" where
  "ParseUint s = (if s \<noteq> [] \<and> list_all (in_range 48 57) s \<and> digits_value s < 2 ^ 64 then Some (digits_value s) else None)"

definition ParseInt :: "string \<Rightarrow> int option" where
  "ParseInt s =
     (if s = [] then None
      else let neg = hd s = CHR ''-'';
               digits = (if hd s = CHR ''+'' \<or> hd s = CHR ''-'' then tl s else s)
           in (case ParseUint digits of
                 None \<Rightarrow> None
               | Some n \<Rightarrow>
                   if \<not> neg \<and> 2 ^ 63 \<le> n then None
                   else if neg \<and> 2 ^ 63 < n then None
                   else Some (if neg then - int n else int n)))"

text \<open>Go's division of integers truncates towards zero.\<close>

definition go_div :: "int \<Rightarrow> int \<Rightarrow> int" where
  "go_div a b = (if a < 0 then - ((- a) div b) else a div b)"

abbreviation MaxInt64 :: int where "MaxInt64 \<equiv> 2 ^ 63 - 1"
abbreviation MinInt64 :: int where "MinInt64 \<equiv> - (2 ^ 63)"

section \<open>The parser\<close>

text \<open>\<^verbatim>\<open>strconv.ParseFloat\<close> on what is not an integer, and the clock, which may differ from line to line.\<close>

record 'f lp_env =
  le_float :: "string \<Rightarrow> 'f option"
  le_now :: "nat \<Rightarrow> int"

datatype 'f lp_value = VBool bool | VInt int | VUint nat | VFloat 'f | VString string

record 'f lp_record =
  lr_Measurement :: string
  lr_Tags :: "string \<rightharpoonup> string"
  lr_Fields :: "string \<rightharpoonup> 'f lp_value"
  lr_Timestamp :: int

text \<open>The loop of \<open>splitOnDelimiter\<close>; \<open>cur\<close> is the part since \<open>start\<close>.\<close>

fun split_loop :: "char \<Rightarrow> bool \<Rightarrow> string \<Rightarrow> string \<Rightarrow> string list" where
  "split_loop d inQuotes cur [] = (if cur = [] then [] else [cur])"
| "split_loop d inQuotes cur (c # s) =
     (if c = CHR 0x5C \<and> s \<noteq> [] then split_loop d inQuotes (cur @ [c, hd s]) (tl s)
      else if c = CHR 0x22 then split_loop d (\<not> inQuotes) (cur @ [c]) s
      else if c = d \<and> \<not> inQuotes then (if cur = [] then [] else [cur]) @ split_loop d inQuotes [] s
      else split_loop d inQuotes (cur @ [c]) s)"

definition splitOnDelimiter :: "string \<Rightarrow> char \<Rightarrow> string list" where
  "splitOnDelimiter s d = split_loop d False [] s"

definition splitLine :: "string \<Rightarrow> string list" where
  "splitLine s = splitOnDelimiter s CHR '' ''"

definition splitOnComma :: "string \<Rightarrow> string list" where
  "splitOnComma s = splitOnDelimiter s CHR '',''"

definition special :: "char \<Rightarrow> bool" where
  "special c \<longleftrightarrow> c \<in> {CHR '','', CHR '' '', CHR ''='', CHR 0x22, CHR 0x5C}"

fun unescape :: "string \<Rightarrow> string" where
  "unescape [] = []"
| "unescape [c] = [c]"
| "unescape (c # x # s) = (if c = CHR 0x5C \<and> special x then x # unescape s else c # unescape (x # s))"

text \<open>What stands before and behind the first \<open>=\<close>, when that is not the first byte.\<close>

definition cut_equals :: "string \<Rightarrow> (string \<times> string) option" where
  "cut_equals s =
     (let k = takeWhile (\<lambda>c. c \<noteq> CHR ''='') s
      in if k = [] \<or> k = s then None else Some (k, drop (Suc (length k)) s))"

text \<open>Assignments to a Go map, one after the other.\<close>

definition assign_all :: "('k \<times> 'v) list \<Rightarrow> 'k \<rightharpoonup> 'v" where
  "assign_all kvs = fold (\<lambda>(k, v) m. m(k \<mapsto> v)) kvs Map.empty"

definition parseMeasurementTags :: "string \<Rightarrow> string \<times> (string \<rightharpoonup> string)" where
  "parseMeasurementTags part =
     (case splitOnComma part of
        [] \<Rightarrow> ([], Map.empty)
      | m # components \<Rightarrow>
          (unescape m, assign_all (List.map_filter (\<lambda>c. map_option (\<lambda>(k, v). (unescape k, unescape v)) (cut_equals c)) components)))"

definition lower_ascii :: "char \<Rightarrow> char" where
  "lower_ascii c = (if in_range 65 90 c then char_of (byte_of c + 32) else c)"

definition bytesEqualFold :: "string \<Rightarrow> string \<Rightarrow> bool" where
  "bytesEqualFold a b \<longleftrightarrow> length a = length b \<and> map lower_ascii a = b"

definition trim_quotes :: "string \<Rightarrow> string" where
  "trim_quotes s = rev (dropWhile (\<lambda>c. c = CHR 0x22) (rev (dropWhile (\<lambda>c. c = CHR 0x22) s)))"

definition string_value :: "bool \<Rightarrow> string \<Rightarrow> 'f lp_value" where
  "string_value validUTF8 s = VString (if validUTF8 then s else fst (SanitizeUTF8 s))"

definition parseFieldValue :: "'f lp_env \<Rightarrow> bool \<Rightarrow> string \<Rightarrow> 'f lp_value option" where
  "parseFieldValue E validUTF8 raw =
     (let value = TrimSpace raw
      in if value = [] then None
         else if value = ''t'' \<or> value = ''T'' then Some (VBool True)
         else if value = ''f'' \<or> value = ''F'' then Some (VBool False)
         else if length value = 4 \<and> bytesEqualFold value ''true'' then Some (VBool True)
         else if length value = 5 \<and> bytesEqualFold value ''false'' then Some (VBool False)
         else if hd value = CHR 0x22
         then if 1 < length value \<and> last value = CHR 0x22
              then Some (string_value validUTF8 (unescape (butlast (tl value))))
              else Some (string_value validUTF8 (trim_quotes value))
         else if last value = CHR ''i'' then map_option VInt (ParseInt (butlast value))
         else if last value = CHR ''u'' then map_option VUint (ParseUint (butlast value))
         else case le_float E value of
                Some x \<Rightarrow> Some (VFloat x)
              | None \<Rightarrow> Some (string_value validUTF8 value))"

text \<open>The fields in the order in which the code assigns them.\<close>

definition field_assignments :: "'f lp_env \<Rightarrow> bool \<Rightarrow> string \<Rightarrow> (string \<times> 'f lp_value) list" where
  "field_assignments E validUTF8 part =
     List.map_filter (\<lambda>c. case cut_equals c of
         None \<Rightarrow> None
       | Some (k, v) \<Rightarrow> (case parseFieldValue E validUTF8 v of None \<Rightarrow> None | Some x \<Rightarrow> Some (unescape k, x)))
       (splitOnComma part)"

definition parseFields :: "'f lp_env \<Rightarrow> bool \<Rightarrow> string \<Rightarrow> (string \<rightharpoonup> 'f lp_value)" where
  "parseFields E validUTF8 part = assign_all (field_assignments E validUTF8 part)"

text \<open>The precisions as the code compares them; anything else means nanoseconds.\<close>

definition to_micros :: "string \<Rightarrow> int \<Rightarrow> int \<Rightarrow> int" where
  "to_micros precision now rawTs =
     (if precision = ''us'' then rawTs
      else if precision = ''ms''
      then (if rawTs \<le> go_div MaxInt64 1000 \<and> go_div MinInt64 1000 \<le> rawTs then rawTs * 1000 else now)
      else if precision = ''s''
      then (if rawTs \<le> go_div MaxInt64 1000000 \<and> go_div MinInt64 1000000 \<le> rawTs then rawTs * 1000000 else now)
      else go_div rawTs 1000)"

definition parse_timestamp :: "string \<Rightarrow> int \<Rightarrow> string list \<Rightarrow> int" where
  "parse_timestamp precision now parts =
     (if 3 \<le> length parts
      then (case ParseInt (TrimSpace (parts ! 2)) of None \<Rightarrow> now | Some rawTs \<Rightarrow> to_micros precision now rawTs)
      else now)"

definition parseLineWithPrecision :: "'f lp_env \<Rightarrow> int \<Rightarrow> string \<Rightarrow> bool \<Rightarrow> string \<Rightarrow> 'f lp_record option" where
  "parseLineWithPrecision E now precision validUTF8 raw =
     (let line = TrimSpace raw
      in if line = [] \<or> hd line = CHR ''#'' then None
         else let parts = splitLine line
              in if length parts < 2 then None
                 else case parseMeasurementTags (parts ! 0) of
                        (measurement, tags) \<Rightarrow>
                          if measurement = [] then None
                          else if field_assignments E validUTF8 (parts ! 1) = [] then None
                               else Some \<lparr>lr_Measurement = measurement, lr_Tags = tags,
                                         lr_Fields = parseFields E validUTF8 (parts ! 1),
                                         lr_Timestamp = parse_timestamp precision now parts\<rparr>)"

definition parseBatchInternal :: "'f lp_env \<Rightarrow> string \<Rightarrow> bool \<Rightarrow> string \<Rightarrow> 'f lp_record list" where
  "parseBatchInternal E precision validUTF8 data =
     List.map_filter (\<lambda>(i, line). parseLineWithPrecision E (le_now E i) precision validUTF8 line) (enumerate 0 (split_at (CHR 0x0A) data))"

definition ParseLine :: "'f lp_env \<Rightarrow> string \<Rightarrow> 'f lp_record option" where
  "ParseLine E line = parseLineWithPrecision E (le_now E 0) ''ns'' False line"

definition ParseBatch :: "'f lp_env \<Rightarrow> string \<Rightarrow> 'f lp_record list" where
  "ParseBatch E data = parseBatchInternal E ''ns'' False data"

definition ParseBatchWithPrecision :: "'f lp_env \<Rightarrow> string \<Rightarrow> string \<Rightarrow> 'f lp_record list" where
  "ParseBatchWithPrecision E data precision =
     parseBatchInternal E (if precision = [] then ''ns'' else precision) (ValidateUTF8 data) data"

end
