(* ===== verification/Ingest_Validity.thy ===== *)
theory Ingest_Validity
  imports Ingest_LineProtocol
begin

text \<open>
  What the line protocol parser makes of arbitrary bytes: its string fields are UTF-8, and
  timestamps are converted exactly or replaced.
\<close>

section \<open>Cutting valid text\<close>

lemma space_runes: "p \<in> set spaces \<Longrightarrow> ValidateUTF8 p \<and> p \<noteq> [] \<and> \<not> continuation (hd p)"
proof -
  have "list_all (\<lambda>p. ValidateUTF8 p \<and> p \<noteq> [] \<and> \<not> continuation (hd p)) spaces"
    by (simp add: spaces_def upt_rec ValidateUTF8.simps rune_size.simps second_ok_def second_low_def second_high_def in_range_def of_char_of)
  then show "p \<in> set spaces \<Longrightarrow> ValidateUTF8 p \<and> p \<noteq> [] \<and> \<not> continuation (hd p)" by (simp add: list_all_iff)
qed

lemma trim_left_valid: "ValidateUTF8 s \<Longrightarrow> ValidateUTF8 (trim_left s)"
proof (induction s rule: trim_left.induct)
  case (1 s)
  show ?case
  proof (cases "List.find (\<lambda>p. prefix p s) spaces")
    case None
    then show ?thesis using 1(2) by (subst trim_left.simps) simp
  next
    case (Some p)
    then obtain r where r: "s = p @ r" "ValidateUTF8 p" using find_space space_runes by (metis prefixE)
    then have "ValidateUTF8 r" using 1(2) valid_append by simp
    then show ?thesis using 1(1) [OF Some] Some r(1) by (subst trim_left.simps) simp
  qed
qed

lemma trim_right_valid: "ValidateUTF8 s \<Longrightarrow> ValidateUTF8 (trim_right s)"
proof (induction s rule: trim_right.induct)
  case (1 s)
  show ?case
  proof (cases "List.find (\<lambda>p. suffix p s) spaces")
    case None
    then show ?thesis using 1(2) by (subst trim_right.simps) simp
  next
    case (Some p)
    then obtain r where r: "s = r @ p" "p \<noteq> []" "\<not> continuation (hd p)" using find_space space_runes by (metis suffixE)
    then have "ValidateUTF8 r" using 1(2) valid_cut [of r "hd p" "tl p"] by simp
    then show ?thesis using 1(1) [OF Some] Some r(1) by (subst trim_right.simps) simp
  qed
qed

lemma TrimSpace_valid: "ValidateUTF8 s \<Longrightarrow> ValidateUTF8 (TrimSpace s)"
  by (simp add: TrimSpace_def trim_left_valid trim_right_valid)

lemma split_at_valid: "byte_of d < 0x80 \<Longrightarrow> ValidateUTF8 s \<Longrightarrow> x \<in> set (split_at d s) \<Longrightarrow> ValidateUTF8 x"
proof (induction "length s" arbitrary: s x rule: less_induct)
  case less
  have one: "d \<notin> set t \<Longrightarrow> split_at d t = [t]" for t by (induction t) auto
  have more: "d \<notin> set a \<Longrightarrow> split_at d (a @ d # b) = a # split_at d b" for a b by (induction a) auto
  show ?case
  proof (cases "d \<in> set s")
    case False
    then show ?thesis using less.prems one by simp
  next
    case True
    then obtain a b where s: "s = a @ d # b" "d \<notin> set a" by (metis split_list_first)
    then have "ValidateUTF8 a" "ValidateUTF8 b" using valid_cut_ascii [of a d b] less.prems(1,2) by auto
    then show ?thesis using less.hyps [of b x] less.prems(1,3) s more by auto
  qed
qed

lemma split_loop_valid:
  "byte_of d < 0x80 \<Longrightarrow> ValidateUTF8 (cur @ s) \<Longrightarrow> x \<in> set (split_loop d q cur s) \<Longrightarrow> ValidateUTF8 x"
proof (induction d q cur s rule: split_loop.induct)
  case (2 d q cur c s)
  consider "c = CHR 0x5C \<and> s \<noteq> []" | "\<not> (c = CHR 0x5C \<and> s \<noteq> [])" "c = CHR 0x22"
    | "\<not> (c = CHR 0x5C \<and> s \<noteq> [])" "c \<noteq> CHR 0x22" "c = d \<and> \<not> q"
    | "\<not> (c = CHR 0x5C \<and> s \<noteq> [])" "c \<noteq> CHR 0x22" "\<not> (c = d \<and> \<not> q)" by blast
  then show ?case
  proof cases
    case 3
    then have "ValidateUTF8 cur" "ValidateUTF8 s" using valid_cut_ascii [of cur c s] 2(5,6) by auto
    then show ?thesis using 2(3) [OF 3] 2(5,7) 3 by (auto split: if_splits)
  qed (use 2 in auto)
qed (simp split: if_splits)

lemma split_valid: "byte_of d < 0x80 \<Longrightarrow> ValidateUTF8 s \<Longrightarrow> x \<in> set (splitOnDelimiter s d) \<Longrightarrow> ValidateUTF8 x"
  unfolding splitOnDelimiter_def by (rule split_loop_valid) auto

lemma cut_equals_form:
  assumes "cut_equals s = Some (k, v)"
  shows "s = k @ CHR ''='' # v \<and> k \<noteq> [] \<and> CHR ''='' \<notin> set k"
proof -
  let ?k = "takeWhile (\<lambda>c. c \<noteq> CHR ''='') s"
  have k: "k = ?k" "v = drop (Suc (length ?k)) s" "?k \<noteq> []" "?k \<noteq> s"
    using assms by (auto simp: cut_equals_def Let_def split: if_splits)
  obtain c r where d: "dropWhile (\<lambda>c. c \<noteq> CHR ''='') s = c # r" using k(4) by (metis append_Nil2 list.exhaust takeWhile_dropWhile_id)
  then have "c = CHR ''=''" using hd_dropWhile [of "\<lambda>c. c \<noteq> CHR ''=''" s] by simp
  then have s: "s = ?k @ CHR ''='' # r" using d takeWhile_dropWhile_id by metis
  have "v = r" unfolding k(2) by (subst s) simp
  then show ?thesis using s k by (auto dest: set_takeWhileD)
qed

lemma cut_equals_valid: "cut_equals s = Some (k, v) \<Longrightarrow> ValidateUTF8 s \<Longrightarrow> ValidateUTF8 k \<and> ValidateUTF8 v"
  using cut_equals_form valid_cut_ascii [of k "CHR ''=''" v] by auto

lemma unescape_append: "CHR 0x5C \<notin> set a \<Longrightarrow> unescape (a @ s) = a @ unescape s"
proof (induction a)
  case (Cons c a)
  then show ?case by (cases "a @ s") auto
qed simp

lemma unescape_valid: "ValidateUTF8 s \<Longrightarrow> ValidateUTF8 (unescape s)"
proof (induction "length s" arbitrary: s rule: less_induct)
  case less
  show ?case
    using less.prems
  proof (cases rule: valid_cases)
    case (2 a r t)
    note rune = this
    show ?thesis
    proof (cases "a = CHR 0x5C \<and> t \<noteq> []")
      case True
      then obtain x u where t: "t = x # u" "a = CHR 0x5C" by (cases t) auto
      then have r: "r = []" using rune(5) by simp
      have "ValidateUTF8 (unescape t)" by (rule less.hyps) (use rune t r in auto)
      moreover have "special x \<Longrightarrow> ValidateUTF8 (unescape u) \<and> byte_of x < 0x80"
        using less.hyps [of u] rune(1,6) t r by (auto simp: special_def valid_ascii)
      ultimately show ?thesis unfolding rune(1) t r by (auto simp: valid_ascii)
    next
      case False
      have "ValidateUTF8 (unescape t)" by (rule less.hyps) (use rune in auto)
      moreover have "unescape (a # r @ t) = a # r @ unescape t"
      proof (cases "a = CHR 0x5C")
        case True
        then show ?thesis using False rune(5) by simp
      next
        case no: False
        then have "CHR 0x5C \<notin> set (a # r)" using rune(3) by (auto simp: list_all_iff in_range_def)
        from unescape_append [OF this] show ?thesis by simp
      qed
      ultimately show ?thesis unfolding rune(1) using rune(2) by (simp add: valid_rune)
    qed
  qed simp
qed

section \<open>Strings of records\<close>

lemma assign_all_from: "fold (\<lambda>(k, v) m. m(k \<mapsto> v)) kvs m k = Some v \<Longrightarrow> (k, v) \<in> set kvs \<or> m k = Some v"
  by (induction kvs arbitrary: m) (force split: if_splits)+

lemma assign_all_in: "assign_all kvs k = Some v \<Longrightarrow> (k, v) \<in> set kvs"
  using assign_all_from [of kvs Map.empty] by (auto simp: assign_all_def)

lemma in_map_filter: "y \<in> set (List.map_filter f xs) \<longleftrightarrow> (\<exists>x\<in>set xs. f x = Some y)"
  by (induction xs) (auto simp: List.map_filter_simps split: option.splits)

lemma string_value_valid: "string_value b s = VString v \<Longrightarrow> (b \<Longrightarrow> ValidateUTF8 s) \<Longrightarrow> ValidateUTF8 v"
  by (auto simp: string_value_def SanitizeUTF8_valid split: if_splits)

lemma valid_dropWhile: "ValidateUTF8 s \<Longrightarrow> ValidateUTF8 (dropWhile (\<lambda>c. c = CHR 0x22) s)"
  by (induction s) (auto simp: valid_ascii)

lemma valid_dropWhile_end: "ValidateUTF8 s \<Longrightarrow> ValidateUTF8 (rev (dropWhile (\<lambda>c. c = CHR 0x22) (rev s)))"
proof (induction s rule: rev_induct)
  case (snoc c s)
  then show ?case using valid_cut_ascii [of s c "[]"] by (cases "c = CHR 0x22") auto
qed simp

lemma field_value_valid:
  assumes "parseFieldValue E b raw = Some (VString v)" "b \<Longrightarrow> ValidateUTF8 raw"
  shows "ValidateUTF8 v"
proof -
  let ?val = "TrimSpace raw"
  have valid: "ValidateUTF8 ?val" if b using that assms(2) TrimSpace_valid by blast
  have quoted: "ValidateUTF8 (unescape (butlast (tl ?val)))" if q: b "hd ?val = CHR 0x22" "1 < length ?val" "last ?val = CHR 0x22"
  proof -
    obtain t where t: "?val = CHR 0x22 # t" "t \<noteq> []" using q(2,3) by (cases ?val) auto
    then have "last t = CHR 0x22" using q(4) by simp
    then have "?val = CHR 0x22 # butlast t @ [CHR 0x22]" using t by (metis append_butlast_last_id)
    then have "ValidateUTF8 (butlast t @ [CHR 0x22])" using valid [OF q(1)] valid_ascii [of "CHR 0x22" "butlast t @ [CHR 0x22]"] by simp
    then have "ValidateUTF8 (butlast t)" using valid_cut_ascii [of "butlast t" "CHR 0x22" "[]"] by simp
    then show ?thesis using t(1) by (simp add: unescape_valid)
  qed
  have trimmed: "ValidateUTF8 (trim_quotes ?val)" if b
    unfolding trim_quotes_def by (intro valid_dropWhile_end valid_dropWhile valid that)
  have step: "string_value b s = (VString v :: 'a lp_value) \<Longrightarrow> (b \<Longrightarrow> ValidateUTF8 s) \<Longrightarrow> ValidateUTF8 v" for s
    by (rule string_value_valid)
  show ?thesis
    using assms(1) step [of "unescape (butlast (tl ?val))"] step [of "trim_quotes ?val"] step [of ?val] valid quoted trimmed
    unfolding parseFieldValue_def Let_def by (auto split: if_split_asm option.splits)
qed

lemma parts_valid:
  assumes "ValidateUTF8 raw" "x \<in> set (splitLine (TrimSpace raw))"
  shows "ValidateUTF8 x"
  using split_valid [OF _ TrimSpace_valid [OF assms(1)] assms(2) [unfolded splitLine_def]] by simp

lemma components_valid: "ValidateUTF8 s \<Longrightarrow> x \<in> set (splitOnComma s) \<Longrightarrow> ValidateUTF8 x"
  unfolding splitOnComma_def by (rule split_valid) auto

lemma tags_valid:
  assumes "parseMeasurementTags part = (m, tags)" "ValidateUTF8 part"
  shows "ValidateUTF8 m" "tags k = Some v \<Longrightarrow> ValidateUTF8 k \<and> ValidateUTF8 v"
proof -
  show "ValidateUTF8 m"
    using assms components_valid [of part] unescape_valid by (auto simp: parseMeasurementTags_def split: list.splits)
  show "ValidateUTF8 k \<and> ValidateUTF8 v" if "tags k = Some v"
  proof (cases "splitOnComma part")
    case (Cons c cs)
    then have "(k, v) \<in> set (List.map_filter (\<lambda>c. map_option (\<lambda>(k, v). (unescape k, unescape v)) (cut_equals c)) cs)"
      using assms(1) that assign_all_in by (fastforce simp: parseMeasurementTags_def)
    then obtain c' k' v' where c: "c' \<in> set cs" "cut_equals c' = Some (k', v')" "k = unescape k'" "v = unescape v'"
      by (auto simp: in_map_filter)
    then show ?thesis using cut_equals_valid [OF c(2)] components_valid [OF assms(2), of c'] Cons unescape_valid by simp
  qed (use assms(1) that in \<open>auto simp: parseMeasurementTags_def\<close>)
qed

lemma fields_valid:
  assumes "parseFields E b part k = Some x"
  shows "x = VString v \<Longrightarrow> (b \<Longrightarrow> ValidateUTF8 part) \<Longrightarrow> ValidateUTF8 v" "ValidateUTF8 part \<Longrightarrow> ValidateUTF8 k"
proof -
  have listed: "(k, x) \<in> set (field_assignments E b part)" using assms assign_all_in by (fastforce simp: parseFields_def)
  obtain c k' raw where c: "c \<in> set (splitOnComma part)" "cut_equals c = Some (k', raw)" "parseFieldValue E b raw = Some x" "k = unescape k'"
  proof -
    obtain c where c: "c \<in> set (splitOnComma part)"
      "(case cut_equals c of None \<Rightarrow> None
        | Some (k, v) \<Rightarrow> (case parseFieldValue E b v of None \<Rightarrow> None | Some x \<Rightarrow> Some (unescape k, x))) = Some (k, x)"
      using listed unfolding field_assignments_def in_map_filter by blast
    then obtain k' raw where "cut_equals c = Some (k', raw)" by (cases "cut_equals c") auto
    then show ?thesis using c that [of c k' raw] by (cases "parseFieldValue E b raw") auto
  qed
  have raw: "ValidateUTF8 raw \<and> ValidateUTF8 k'" if "ValidateUTF8 part" using cut_equals_valid [OF c(2)] components_valid [OF that c(1)] by simp
  show "ValidateUTF8 v" if "x = VString v" "b \<Longrightarrow> ValidateUTF8 part"
    by (rule field_value_valid [OF c(3) [unfolded that(1)]]) (use raw that(2) in blast)
  show "ValidateUTF8 k" if "ValidateUTF8 part" using raw [OF that] c(4) unescape_valid by simp
qed

lemma parse_line_cases:
  assumes "parseLineWithPrecision E now precision b raw = Some r"
  obtains p0 p1 m tags where "p0 \<in> set (splitLine (TrimSpace raw))" "p1 \<in> set (splitLine (TrimSpace raw))"
    "parseMeasurementTags p0 = (m, tags)" "lr_Measurement r = m" "lr_Tags r = tags" "lr_Fields r = parseFields E b p1"
    "lr_Timestamp r = parse_timestamp precision now (splitLine (TrimSpace raw))"
proof -
  let ?parts = "splitLine (TrimSpace raw)"
  have "2 \<le> length ?parts" using assms by (auto simp: parseLineWithPrecision_def Let_def split: if_splits)
  then have "0 < length ?parts" "1 < length ?parts" by auto
  then have "?parts ! 0 \<in> set ?parts" "?parts ! 1 \<in> set ?parts" by (auto intro: nth_mem)
  then show ?thesis using assms that [of "?parts ! 0" "?parts ! 1"]
    by (auto simp: parseLineWithPrecision_def Let_def split: if_splits prod.splits)
qed

text \<open>
  The string fields of a parsed batch are valid UTF-8, whatever the bytes of the payload; of
  a valid payload the names of measurements, tags and fields and the values of tags are valid, too.
\<close>

theorem parsed_strings_are_utf8:
  assumes "r \<in> set (ParseBatchWithPrecision E data precision)" "lr_Fields r k = Some x" "x = VString v"
  shows "ValidateUTF8 v \<and>
    (ValidateUTF8 data \<longrightarrow> ValidateUTF8 (lr_Measurement r) \<and> ValidateUTF8 k \<and>
       (\<forall>t u. lr_Tags r t = Some u \<longrightarrow> ValidateUTF8 t \<and> ValidateUTF8 u))"
proof -
  obtain i raw p where raw: "raw \<in> set (split_at (CHR 0x0A) data)" "parseLineWithPrecision E (le_now E i) p (ValidateUTF8 data) raw = Some r"
    using assms(1) by (auto simp: ParseBatchWithPrecision_def parseBatchInternal_def in_map_filter in_set_enumerate_eq) (metis nth_mem)
  then have line: "ValidateUTF8 raw" if "ValidateUTF8 data" using that split_at_valid [of "CHR 0x0A" data raw] by simp
  from raw(2) obtain p0 p1 m tags where r: "p0 \<in> set (splitLine (TrimSpace raw))" "p1 \<in> set (splitLine (TrimSpace raw))"
    "parseMeasurementTags p0 = (m, tags)" "lr_Measurement r = m" "lr_Tags r = tags" "lr_Fields r = parseFields E (ValidateUTF8 data) p1"
    by (rule parse_line_cases)
  have parts: "ValidateUTF8 p0 \<and> ValidateUTF8 p1" if "ValidateUTF8 data" using parts_valid [OF line [OF that]] r(1,2) by blast
  note field = fields_valid [OF assms(2) [unfolded r(6)]]
  show ?thesis using field(1) [OF assms(3)] field(2) parts tags_valid [OF r(3)] r(4,5) by blast
qed

text \<open>What the repair leaves out: tag values of an invalid payload.\<close>

definition no_floats :: "nat lp_env" where
  "no_floats = \<lparr>le_float = (\<lambda>_. None), le_now = (\<lambda>_. 0)\<rparr>"

lemma tags_are_not_repaired:
  "map (\<lambda>r. (lr_Tags r ''t'', lr_Fields r ''v'')) (ParseBatchWithPrecision no_floats (''m,t='' @ [CHR 0xFF] @ '' v='' @ [CHR 0x22, CHR 0xFF, CHR 0x22] @ '' 1'') ''us'') =
     [(Some [CHR 0xFF], Some (VString replacement))]"
proof -
  let ?line = "''m,t='' @ [CHR 0xFF] @ '' v='' @ [CHR 0x22, CHR 0xFF, CHR 0x22] @ '' 1''"
  have parts: "splitLine (TrimSpace ?line) = [''m,t='' @ [CHR 0xFF], ''v='' @ [CHR 0x22, CHR 0xFF, CHR 0x22], ''1'']"
    by (simp add: TrimSpace_graphic in_range_def splitLine_def splitOnDelimiter_def)
  have tags: "parseMeasurementTags (''m,t='' @ [CHR 0xFF]) = (''m'', [''t'' \<mapsto> [CHR 0xFF]])"
    by (simp add: parseMeasurementTags_def splitOnComma_def splitOnDelimiter_def List.map_filter_simps cut_equals_def Let_def assign_all_def)
  have fields: "field_assignments no_floats False (''v='' @ [CHR 0x22, CHR 0xFF, CHR 0x22]) = [(''v'', VString replacement)]"
    by (simp add: field_assignments_def splitOnComma_def splitOnDelimiter_def List.map_filter_simps cut_equals_def Let_def
        parseFieldValue_def bytesEqualFold_def no_floats_def string_value_def SanitizeUTF8_def valid_ascii invalid_first rune_size.simps
        sanitize_steps in_range_def TrimSpace_graphic unescape.simps)
  have "\<not> ValidateUTF8 ?line" by (simp add: valid_ascii invalid_first rune_size.simps in_range_def)
  moreover have "split_at (CHR 0x0A) ?line = [?line]" by simp
  moreover have "TrimSpace ?line \<noteq> []" "hd (TrimSpace ?line) \<noteq> CHR ''#''" by (simp_all add: TrimSpace_graphic in_range_def)
  ultimately show ?thesis
    by (simp only: ParseBatchWithPrecision_def parseBatchInternal_def enumerate_simps List.map_filter_simps prod.case
        parseLineWithPrecision_def Let_def parts tags)
      (simp add: tags [simplified] fields [simplified] parseFields_def assign_all_def)
qed

theorem parsed_strings_are_utf8_witness:
  "\<exists>r v. r \<in> set (ParseBatchWithPrecision no_floats (''m,t='' @ [CHR 0xFF] @ '' v='' @ [CHR 0x22, CHR 0xFF, CHR 0x22] @ '' 1'') ''us'') \<and>
     lr_Fields r ''v'' = Some (VString v) \<and> ValidateUTF8 v"
proof -
  obtain r where r: "r \<in> set (ParseBatchWithPrecision no_floats (''m,t='' @ [CHR 0xFF] @ '' v='' @ [CHR 0x22, CHR 0xFF, CHR 0x22] @ '' 1'') ''us'')"
      "lr_Fields r ''v'' = Some (VString replacement)"
    using map_eq_Cons_D [OF tags_are_not_repaired] by (metis (no_types, lifting) list.set_intros(1) prod.inject)
  from parsed_strings_are_utf8 [OF r HOL.refl] r show ?thesis by blast
qed

section \<open>Timestamps\<close>

definition exact_micros :: "string \<Rightarrow> int \<Rightarrow> int" where
  "exact_micros precision t =
     (if precision = ''us'' then t else if precision = ''ms'' then t * 1000 else if precision = ''s'' then t * 1000000
      else sgn t * (\<bar>t\<bar> div 1000))"

text \<open>
  Timestamps are converted exactly or replaced by the present: a number of the line that fits
  64 bits becomes the microseconds it stands for, cut towards zero for nanoseconds, when these fit
  64 bits again, and otherwise the time of ingestion; nothing wraps around.
\<close>

theorem timestamps_never_wrap:
  assumes "MinInt64 \<le> t" "t \<le> MaxInt64"
  shows "to_micros precision now t =
    (if MinInt64 \<le> exact_micros precision t \<and> exact_micros precision t \<le> MaxInt64 then exact_micros precision t else now)"
proof -
  have bounds: "go_div MaxInt64 1000 = 9223372036854775" "go_div MinInt64 1000 = -9223372036854775"
    "go_div MaxInt64 1000000 = 9223372036854" "go_div MinInt64 1000000 = -9223372036854"
    by (simp_all add: go_div_def)
  consider "precision = ''us''" | "precision = ''ms''" | "precision = ''s''" | "precision \<notin> {''us'', ''ms'', ''s''}" by blast
  then show ?thesis
  proof cases
    case 4
    then have p: "to_micros precision now t = go_div t 1000" "exact_micros precision t = go_div t 1000"
      by (auto simp: to_micros_def exact_micros_def go_div_def sgn_if)
    have "MinInt64 \<le> go_div t 1000 \<and> go_div t 1000 \<le> MaxInt64" using assms by (auto simp: go_div_def)
    then show ?thesis unfolding p by simp
  qed (use assms in \<open>auto simp: to_micros_def exact_micros_def go_div_def\<close>)
qed

theorem timestamps_never_wrap_witness:
  "to_micros ''s'' 7 (2 ^ 60) = 7 \<and> to_micros ''ms'' 7 (- 5) = - 5000 \<and> to_micros ''ns'' 7 (- 1999) = - 1"
  using timestamps_never_wrap [of "2 ^ 60" "''s''" 7] timestamps_never_wrap [of "- 5" "''ms''" 7] timestamps_never_wrap [of "- 1999" "''ns''" 7]
  by (simp add: exact_micros_def)

end
