(* ===== verification/Ingest_RoundTrip.thy ===== *)
theory Ingest_RoundTrip
  imports Ingest_Validity
begin

text \<open>
  The line protocol as a client writes it, with its escapes, and the parser on it: every point
  arrives as it was sent.
\<close>

section \<open>Writing lines\<close>

definition escape :: "string \<Rightarrow> string" where
  "escape s = concat (map (\<lambda>c. if special c then [CHR 0x5C, c] else [c]) s)"

definition quote_string :: "string \<Rightarrow> string" where
  "quote_string s = concat (map (\<lambda>c. if c = CHR 0x22 \<or> c = CHR 0x5C then [CHR 0x5C, c] else [c]) s)"

fun value_text :: "('f \<Rightarrow> string) \<Rightarrow> 'f lp_value \<Rightarrow> string" where
  "value_text pf (VBool b) = (if b then ''true'' else ''false'')"
| "value_text pf (VInt i) = show_int i @ ''i''"
| "value_text pf (VUint n) = show_nat n @ ''u''"
| "value_text pf (VFloat x) = pf x"
| "value_text pf (VString s) = CHR 0x22 # quote_string s @ [CHR 0x22]"

fun join :: "char \<Rightarrow> string list \<Rightarrow> string" where
  "join d [] = []"
| "join d [x] = x"
| "join d (x # y # ys) = x @ d # join d (y # ys)"

record 'f lp_point =
  pt_measurement :: string
  pt_tags :: "(string \<times> string) list"
  pt_fields :: "(string \<times> 'f lp_value) list"
  pt_time :: int

definition tag_text :: "string \<times> string \<Rightarrow> string" where
  "tag_text kv = escape (fst kv) @ CHR ''='' # escape (snd kv)"

definition field_text :: "('f \<Rightarrow> string) \<Rightarrow> string \<times> 'f lp_value \<Rightarrow> string" where
  "field_text pf kv = escape (fst kv) @ CHR ''='' # value_text pf (snd kv)"

definition line_of :: "('f \<Rightarrow> string) \<Rightarrow> 'f lp_point \<Rightarrow> string" where
  "line_of pf pt =
     join (CHR '' '') [join (CHR '','') (escape (pt_measurement pt) # map tag_text (pt_tags pt)),
       join (CHR '','') (map (field_text pf) (pt_fields pt)), show_int (pt_time pt)]"

text \<open>What can be written: keys without \<open>=\<close>, names that do not begin like a comment or with a space.\<close>

definition key_ok :: "string \<Rightarrow> bool" where
  "key_ok k \<longleftrightarrow> k \<noteq> [] \<and> CHR ''='' \<notin> set k \<and> CHR 0x0A \<notin> set k"

definition float_char :: "char \<Rightarrow> bool" where
  "float_char c \<longleftrightarrow> in_range 48 57 c \<or> c \<in> set ''+-.eE''"

definition value_ok :: "'f lp_env \<Rightarrow> ('f \<Rightarrow> string) \<Rightarrow> 'f lp_value \<Rightarrow> bool" where
  "value_ok E pf v =
     (case v of
        VBool b \<Rightarrow> True
      | VInt i \<Rightarrow> MinInt64 \<le> i \<and> i \<le> MaxInt64
      | VUint n \<Rightarrow> n < 2 ^ 64
      | VFloat x \<Rightarrow> le_float E (pf x) = Some x \<and> pf x \<noteq> [] \<and> list_all float_char (pf x)
      | VString s \<Rightarrow> ValidateUTF8 s \<and> CHR 0x0A \<notin> set s)"

definition point_ok :: "'f lp_env \<Rightarrow> ('f \<Rightarrow> string) \<Rightarrow> 'f lp_point \<Rightarrow> bool" where
  "point_ok E pf pt \<longleftrightarrow>
     pt_measurement pt \<noteq> [] \<and> hd (pt_measurement pt) \<noteq> CHR ''#'' \<and> CHR 0x0A \<notin> set (pt_measurement pt) \<and>
     list_all (\<lambda>p. \<not> prefix p (pt_measurement pt)) spaces \<and>
     list_all (\<lambda>kv. key_ok (fst kv) \<and> CHR 0x0A \<notin> set (snd kv)) (pt_tags pt) \<and>
     pt_fields pt \<noteq> [] \<and> list_all (\<lambda>kv. key_ok (fst kv) \<and> value_ok E pf (snd kv)) (pt_fields pt) \<and>
     MinInt64 \<le> pt_time pt \<and> pt_time pt \<le> MaxInt64"

section \<open>Escapes\<close>

lemma escape_Nil [simp]: "escape [] = []"
  by (simp add: escape_def)

lemma escape_Cons: "escape (c # s) = (if special c then [CHR 0x5C, c] else [c]) @ escape s"
  by (simp add: escape_def)

lemma quote_Cons: "quote_string (c # s) = (if c = CHR 0x22 \<or> c = CHR 0x5C then [CHR 0x5C, c] else [c]) @ quote_string s"
  by (simp add: quote_string_def)

lemma unescape_other: "c \<noteq> CHR 0x5C \<Longrightarrow> unescape (c # s) = c # unescape s"
  by (cases s) auto

lemma special_simps [simp]: "special (CHR 0x5C)" "special (CHR 0x22)" "special (CHR '','')" "special (CHR '' '')" "special (CHR ''='')"
  by (simp_all add: special_def)

lemma unescape_escape [simp]: "unescape (escape s) = s"
proof (induction s)
  case (Cons c s)
  have "\<not> special c \<Longrightarrow> c \<noteq> CHR 0x5C" by auto
  then show ?case using Cons by (auto simp: escape_Cons unescape_other)
qed simp

lemma unescape_quote [simp]: "unescape (quote_string s) = s"
  by (induction s) (auto simp: quote_Cons unescape_other quote_string_def [of "[]"])

lemma escape_eq_Nil [simp]: "escape s = [] \<longleftrightarrow> s = []"
  by (cases s) (auto simp: escape_Cons)

lemma set_escape: "set (escape s) \<subseteq> insert (CHR 0x5C) (set s)"
  by (induction s) (auto simp: escape_Cons split: if_splits)

lemma cut_equals_key: "key_ok k \<Longrightarrow> cut_equals (escape k @ CHR ''='' # v) = Some (escape k, v)"
proof -
  assume k: "key_ok k"
  then have "CHR ''='' \<notin> set (escape k)" using set_escape [of k] by (auto simp: key_ok_def)
  then have t: "takeWhile (\<lambda>c. c \<noteq> CHR ''='') (escape k @ CHR ''='' # v) = escape k" by (simp add: takeWhile_append2 takeWhile_append)
  show ?thesis using k unfolding cut_equals_def t Let_def by (simp add: key_ok_def)
qed

section \<open>Splitting what was joined\<close>

text \<open>
  The quote state behind a text in which no delimiter ends a part; \<open>None\<close> if there is one, or a
  backslash at the end.
\<close>

fun scan :: "char \<Rightarrow> bool \<Rightarrow> string \<Rightarrow> bool option" where
  "scan d q [] = Some q"
| "scan d q (c # s) =
     (if c = CHR 0x5C then (case s of [] \<Rightarrow> None | x # t \<Rightarrow> scan d q t)
      else if c = CHR 0x22 then scan d (\<not> q) s
      else if c = d \<and> \<not> q then None else scan d q s)"

lemma split_loop_scan: "scan d q s = Some q' \<Longrightarrow> split_loop d q cur (s @ t) = split_loop d q' (cur @ s) t"
proof (induction d q s arbitrary: cur rule: scan.induct)
  case (2 d q c s)
  show ?case
  proof (cases "c = CHR 0x5C")
    case True
    then obtain x u where s: "s = x # u" using 2(4) by (cases s) auto
    from 2(1) [OF True s, of "cur @ [c, x]"] 2(4) True s show ?thesis by simp
  qed (use 2 in \<open>auto split: if_splits\<close>)
qed simp

lemma scan_append: "scan d q s = Some q' \<Longrightarrow> scan d q (s @ t) = scan d q' t"
proof (induction d q s rule: scan.induct)
  case (2 d q c s)
  show ?case
  proof (cases "c = CHR 0x5C")
    case True
    then obtain x u where s: "s = x # u" using 2(4) by (cases s) auto
    from 2(1) [OF True s] 2(4) True s show ?thesis by simp
  qed (use 2 in \<open>auto split: if_splits\<close>)
qed simp

lemma split_join:
  assumes "list_all (\<lambda>p. p \<noteq> [] \<and> scan d False p = Some False) ps" "d \<noteq> CHR 0x5C" "d \<noteq> CHR 0x22"
  shows "splitOnDelimiter (join d ps) d = ps"
  using assms(1) unfolding splitOnDelimiter_def
proof (induction ps rule: induct_list012)
  case (2 x)
  then show ?case using split_loop_scan [of d False x False "[]" "[]"] by simp
next
  case (3 x y ys)
  then show ?case using split_loop_scan [of d False x False "[]" "d # join d (y # ys)"] assms(2,3) by simp
qed simp

lemma scan_plain: "list_all (\<lambda>c. c \<noteq> CHR 0x5C \<and> c \<noteq> CHR 0x22 \<and> c \<noteq> d) s \<Longrightarrow> scan d q s = Some q"
  by (induction s) auto

lemma scan_escape: "special d \<Longrightarrow> scan d False (escape s) = Some False"
proof (induction s)
  case (Cons c s)
  then show ?case by (auto simp: escape_Cons special_def)
qed simp

lemma scan_quote: "scan d True (quote_string s) = Some True"
  by (induction s) (auto simp: quote_Cons quote_string_def [of "[]"])

lemma scan_join:
  assumes "list_all (\<lambda>p. scan d False p = Some False) ps" "e \<noteq> CHR 0x5C" "e \<noteq> CHR 0x22" "e \<noteq> d"
  shows "scan d False (join e ps) = Some False"
  using assms(1)
proof (induction ps rule: induct_list012)
  case (3 x y ys)
  then show ?case using assms(2-4) by (simp add: scan_append)
qed simp_all

section \<open>Numbers\<close>

lemma show_nat_range: "list_all (in_range 48 57) (show_nat n)"
proof (induction n rule: show_nat.induct)
  case (1 n)
  have digit: "m < 10 \<Longrightarrow> in_range 48 57 (char_of (48 + m))" for m :: nat by (simp add: in_range_def of_char_of)
  show ?case using 1 digit [of n] digit [of "n mod 10"] by (subst show_nat.simps) simp
qed

lemma show_nat_nonempty [simp]: "show_nat n \<noteq> []"
  by (subst show_nat.simps) simp

lemma ParseUint_show: "n < 2 ^ 64 \<Longrightarrow> ParseUint (show_nat n) = Some n"
  by (simp add: ParseUint_def show_nat_range)

lemma hd_show_nat: "in_range 48 57 (hd (show_nat n))" "in_range 48 57 (last (show_nat n))"
  using show_nat_range [of n] by (simp_all add: list_all_iff)

lemma ParseInt_show: "MinInt64 \<le> i \<Longrightarrow> i \<le> MaxInt64 \<Longrightarrow> ParseInt (show_int i) = Some i"
proof -
  assume i: "MinInt64 \<le> i" "i \<le> MaxInt64"
  have no: "hd (show_nat n) \<noteq> CHR ''-''" "hd (show_nat n) \<noteq> CHR ''+''" for n using hd_show_nat [of n] by (auto simp: in_range_def)
  have "nat i < 2 ^ 64" "nat (- i) < 2 ^ 64" using i by auto
  then show ?thesis using i by (auto simp: ParseInt_def Let_def show_int_def ParseUint_show no)
qed

text \<open>Numbers have no character that splits, and they begin and end with graphic characters.\<close>

definition number_char :: "char \<Rightarrow> bool" where
  "number_char c \<longleftrightarrow> float_char c \<or> c = CHR ''i'' \<or> c = CHR ''u''"

lemma number_texts:
  "list_all number_char (show_nat n)" "list_all number_char (show_int i)"
proof -
  show n: "list_all number_char (show_nat n)" for n
    by (rule list.pred_mono_strong [OF show_nat_range]) (simp add: number_char_def float_char_def)
  show "list_all number_char (show_int i)" using n by (simp add: show_int_def number_char_def float_char_def)
qed

lemma number_char_plain: "number_char c \<Longrightarrow> c \<noteq> CHR 0x5C \<and> c \<noteq> CHR 0x22 \<and> c \<noteq> CHR '','' \<and> c \<noteq> CHR '' '' \<and> c \<noteq> CHR 0x0A \<and> graphic c"
  by (auto simp: number_char_def float_char_def in_range_def)

section \<open>Values\<close>

lemma lower_ascii_inv: "lower_ascii c = d \<Longrightarrow> c = d \<or> byte_of c + 32 = byte_of d"
  by (auto simp: lower_ascii_def in_range_def of_char_of split: if_splits)

lemma upper_letters: "byte_of c + 32 = byte_of (CHR ''t'') \<Longrightarrow> c = CHR ''T''" "byte_of c + 32 = byte_of (CHR ''f'') \<Longrightarrow> c = CHR ''F''"
proof -
  show "c = CHR ''T''" if "byte_of c + 32 = byte_of (CHR ''t'')"
    by (rule of_char_eq_iff [THEN iffD1]) (use that in simp)
  show "c = CHR ''F''" if "byte_of c + 32 = byte_of (CHR ''f'')"
    by (rule of_char_eq_iff [THEN iffD1]) (use that in simp)
qed

lemma not_boolean:
  assumes "hd s \<notin> set ''tTfF''"
  shows "s \<noteq> ''t''" "s \<noteq> ''T''" "s \<noteq> ''f''" "s \<noteq> ''F''" "\<not> bytesEqualFold s ''true''" "\<not> bytesEqualFold s ''false''"
proof -
  have no: "lower_ascii (hd s) \<noteq> CHR ''t''" "lower_ascii (hd s) \<noteq> CHR ''f''"
    using lower_ascii_inv [of "hd s" "CHR ''t''"] lower_ascii_inv [of "hd s" "CHR ''f''"] upper_letters [of "hd s"] assms by auto
  then show "\<not> bytesEqualFold s ''true''" "\<not> bytesEqualFold s ''false''" by (cases s; auto simp: bytesEqualFold_def)+
qed (use assms in auto)

lemma number_not_boolean: "number_char c \<Longrightarrow> c \<notin> set ''tTfF''"
  by (auto simp: number_char_def float_char_def in_range_def)

lemma number_trim: "s \<noteq> [] \<Longrightarrow> list_all number_char s \<Longrightarrow> TrimSpace s = s"
  by (rule TrimSpace_graphic) (simp add: list_all_iff number_char_plain)

lemma parse_value_text:
  assumes "value_ok E pf v"
  shows "parseFieldValue E b (value_text pf v) = Some v"
proof (cases v)
  case (VBool x)
  then show ?thesis
    by (simp add: parseFieldValue_def Let_def TrimSpace_graphic in_range_def bytesEqualFold_def lower_ascii_def)
next
  case (VInt i)
  let ?s = "show_int i @ ''i''"
  have ne: "show_int i \<noteq> []" by (simp add: show_int_def)
  have chars: "list_all number_char ?s" using number_texts(2) [of i] by (simp add: number_char_def)
  have hd: "number_char (hd ?s)" using chars by (metis hd_in_set list_all_iff append_is_Nil_conv not_Cons_self2)
  show ?thesis
    using assms VInt ne not_boolean [OF number_not_boolean [OF hd(1)]] number_char_plain [OF hd(1)] number_trim [OF _ chars] ParseInt_show [of i]
    by (simp add: parseFieldValue_def Let_def value_ok_def butlast_append)
next
  case (VUint n)
  let ?s = "show_nat n @ ''u''"
  have chars: "list_all number_char ?s" using number_texts(1) [of n] by (simp add: number_char_def)
  have hd: "number_char (hd ?s)" using chars by (metis hd_in_set list_all_iff append_is_Nil_conv not_Cons_self2)
  show ?thesis
    using assms VUint not_boolean [OF number_not_boolean [OF hd(1)]] number_char_plain [OF hd(1)] number_trim [OF _ chars] ParseUint_show [of n]
    by (simp add: parseFieldValue_def Let_def value_ok_def butlast_append)
next
  case (VFloat x)
  let ?s = "pf x"
  have ok: "le_float E ?s = Some x" "?s \<noteq> []" "list_all float_char ?s" using assms VFloat by (simp_all add: value_ok_def)
  have chars: "list_all number_char ?s" by (rule list.pred_mono_strong [OF ok(3)]) (simp add: number_char_def)
  have "float_char (hd ?s)" "float_char (last ?s)" using ok(2,3) by (simp_all add: list_all_iff)
  then have hd: "number_char (hd ?s)" "last ?s \<noteq> CHR ''i''" "last ?s \<noteq> CHR ''u''"
    by (auto simp: number_char_def float_char_def in_range_def)
  show ?thesis
    using VFloat ok not_boolean [OF number_not_boolean [OF hd(1)]] number_char_plain [OF hd(1)] number_trim [OF ok(2) chars] hd
    by (simp add: parseFieldValue_def Let_def)
next
  case (VString s)
  let ?s = "CHR 0x22 # quote_string s @ [CHR 0x22]"
  have trim: "TrimSpace ?s = ?s" by (rule TrimSpace_graphic) (simp add: in_range_def)
  have hd: "hd ?s \<notin> set ''tTfF''" by simp
  show ?thesis
    using assms VString trim not_boolean [OF hd]
    by (simp add: parseFieldValue_def Let_def value_ok_def string_value_def SanitizeUTF8_def)
qed

section \<open>Lines\<close>

lemma scan_key: "special d \<Longrightarrow> d \<noteq> CHR ''='' \<Longrightarrow> scan d False t = Some False \<Longrightarrow> scan d False (escape k @ CHR ''='' # t) = Some False"
  using scan_append [OF scan_escape [of d k]] by simp

lemma scan_number:
  assumes "list_all number_char s" "d = CHR '','' \<or> d = CHR '' ''"
  shows "scan d q s = Some q"
  by (rule scan_plain) (use assms number_char_plain in \<open>auto simp: list_all_iff\<close>)

lemma scan_value:
  assumes "value_ok E pf v" "d = CHR '','' \<or> d = CHR '' ''"
  shows "scan d False (value_text pf v) = Some False"
proof (cases v)
  case (VBool b)
  then show ?thesis using assms(2) by auto
next
  case (VInt i)
  show ?thesis using VInt number_texts(2) [of i] assms(2) by (simp add: scan_number number_char_def)
next
  case (VUint n)
  show ?thesis using VUint number_texts(1) [of n] assms(2) by (simp add: scan_number number_char_def)
next
  case (VFloat x)
  have "list_all float_char (pf x)" using assms(1) VFloat by (simp add: value_ok_def)
  then have "list_all number_char (pf x)" by (rule list.pred_mono_strong) (simp add: number_char_def)
  then show ?thesis using VFloat assms(2) by (simp add: scan_number)
next
  case (VString s)
  then show ?thesis using assms(2) scan_append [OF scan_quote [of d s], of "[CHR 0x22]"] by auto
qed

lemma scan_texts:
  assumes "d = CHR '','' \<or> d = CHR '' ''"
  shows "scan d False (tag_text tag) = Some False" "value_ok E pf (snd kv) \<Longrightarrow> scan d False (field_text pf kv) = Some False"
proof -
  have d: "special d" "d \<noteq> CHR ''=''" using assms by auto
  show "scan d False (tag_text tag) = Some False" unfolding tag_text_def by (rule scan_key [OF d scan_escape [OF d(1)]])
  show "scan d False (field_text pf kv) = Some False" if "value_ok E pf (snd kv)"
    unfolding field_text_def by (rule scan_key [OF d scan_value [OF that assms]])
qed

lemma text_nonempty: "tag_text tag \<noteq> []" "field_text pf kv \<noteq> []"
  by (simp_all add: tag_text_def field_text_def)

lemma parse_tags:
  assumes "list_all (\<lambda>kv. key_ok (fst kv)) tags" "m \<noteq> []"
  shows "parseMeasurementTags (join (CHR '','') (escape m # map tag_text tags)) = (m, assign_all tags)"
proof -
  have parts: "splitOnComma (join (CHR '','') (escape m # map tag_text tags)) = escape m # map tag_text tags"
    unfolding splitOnComma_def using assms(2) by (intro split_join) (simp_all add: scan_escape scan_texts text_nonempty list_all_iff)
  have "List.map_filter (\<lambda>c. map_option (\<lambda>(k, v). (unescape k, unescape v)) (cut_equals c)) (map tag_text tags) = tags"
    using assms(1)
  proof (induction tags)
    case (Cons kv tags)
    then show ?case using cut_equals_key [of "fst kv" "escape (snd kv)"] by (simp add: List.map_filter_simps tag_text_def)
  qed (simp add: List.map_filter_simps)
  then show ?thesis by (simp add: parseMeasurementTags_def parts)
qed

lemma parse_fields:
  assumes "list_all (\<lambda>kv. key_ok (fst kv) \<and> value_ok E pf (snd kv)) kvs"
  shows "field_assignments E b (join (CHR '','') (map (field_text pf) kvs)) = kvs"
proof -
  have parts: "splitOnComma (join (CHR '','') (map (field_text pf) kvs)) = map (field_text pf) kvs"
    unfolding splitOnComma_def using assms by (intro split_join) (auto simp: scan_texts text_nonempty list_all_iff)
  show ?thesis
    unfolding field_assignments_def parts using assms
  proof (induction kvs)
    case (Cons kv kvs)
    then show ?case
      using cut_equals_key [of "fst kv" "value_text pf (snd kv)"] parse_value_text [of E pf "snd kv" b]
      by (simp add: List.map_filter_simps field_text_def)
  qed (simp add: List.map_filter_simps)
qed

lemma join_Cons: "join d (x # xs) = x @ (if xs = [] then [] else d # join d xs)"
  by (cases xs) auto

lemma escape_prefix:
  "prefix p (escape m @ r) \<Longrightarrow> list_all (\<lambda>c. \<not> special c) p \<Longrightarrow> r = [] \<or> special (hd r) \<Longrightarrow> prefix p m"
proof (induction p arbitrary: m)
  case (Cons c p)
  show ?case
  proof (cases m)
    case Nil
    then show ?thesis using Cons.prems by (cases r) auto
  next
    case (Cons x m')
    then show ?thesis using Cons.prems Cons.IH [of m'] by (auto simp: escape_Cons split: if_splits)
  qed
qed simp

lemma spaces_plain: "p \<in> set spaces \<Longrightarrow> p = '' '' \<or> list_all (\<lambda>c. \<not> special c) p"
  by (auto simp: spaces_def special_def char_of_def upt_rec)

lemma line_shape:
  "\<exists>r. line_of pf pt = escape (pt_measurement pt) @ r \<and> r \<noteq> [] \<and> special (hd r) \<and> last r = last (show_int (pt_time pt))"
proof -
  have "show_int (pt_time pt) \<noteq> []" by (simp add: show_int_def)
  then show ?thesis by (simp add: line_of_def join_Cons)
qed

lemma line_trim:
  assumes "point_ok E pf pt"
  shows "TrimSpace (line_of pf pt) = line_of pf pt" "line_of pf pt \<noteq> []" "hd (line_of pf pt) \<noteq> CHR ''#''"
proof -
  obtain r where r: "line_of pf pt = escape (pt_measurement pt) @ r" "r \<noteq> []" "special (hd r)" "last r = last (show_int (pt_time pt))"
    using line_shape by blast
  obtain c m where m: "pt_measurement pt = c # m" using assms by (cases "pt_measurement pt") (auto simp: point_ok_def)
  then have c: "c \<noteq> CHR ''#''" using assms by (simp add: point_ok_def)
  show "line_of pf pt \<noteq> []" "hd (line_of pf pt) \<noteq> CHR ''#''" using c unfolding r(1) m by (auto simp: escape_Cons)
  have "graphic (last (line_of pf pt))"
  proof -
    have "last (show_int (pt_time pt)) \<in> set (show_int (pt_time pt))" by (simp add: show_int_def)
    then have "graphic (last r)" using r(4) number_texts(2) [of "pt_time pt"] number_char_plain by (auto simp: list_all_iff)
    then show ?thesis using r(1,2) by simp
  qed
  moreover have "trim_left (line_of pf pt) = line_of pf pt"
  proof (rule trim_left_id, safe)
    fix p assume p: "p \<in> set spaces" "prefix p (line_of pf pt)"
    then show False
    proof (cases "p = '' ''")
      case True
      then show ?thesis using p(2) unfolding r(1) m by (auto simp: escape_Cons split: if_splits)
    next
      case False
      then have "list_all (\<lambda>c. \<not> special c) p" using spaces_plain [OF p(1)] by blast
      then have "prefix p (pt_measurement pt)" using escape_prefix p(2) [unfolded r(1)] r(3) by blast
      then show ?thesis using assms p(1) by (auto simp: point_ok_def list_all_iff)
    qed
  qed
  ultimately show "TrimSpace (line_of pf pt) = line_of pf pt" by (simp add: TrimSpace_def trim_right_graphic)
qed

definition record_of :: "string \<Rightarrow> int \<Rightarrow> 'f lp_point \<Rightarrow> 'f lp_record" where
  "record_of precision now pt =
     \<lparr>lr_Measurement = pt_measurement pt, lr_Tags = assign_all (pt_tags pt), lr_Fields = assign_all (pt_fields pt),
      lr_Timestamp = to_micros precision now (pt_time pt)\<rparr>"

lemma parse_line_of:
  assumes "point_ok E pf pt"
  shows "parseLineWithPrecision E now precision b (line_of pf pt) = Some (record_of precision now pt)"
proof -
  let ?M = "join (CHR '','') (escape (pt_measurement pt) # map tag_text (pt_tags pt))"
  let ?F = "join (CHR '','') (map (field_text pf) (pt_fields pt))" and ?T = "show_int (pt_time pt)"
  note ok = assms [unfolded point_ok_def]
  have T: "?T \<noteq> []" "list_all number_char ?T" using number_texts(2) by (simp_all add: show_int_def)
  have "?M \<noteq> []" using ok by (simp add: join_Cons)
  moreover have "?F \<noteq> []" using ok by (cases "pt_fields pt") (auto simp: join_Cons text_nonempty)
  moreover have "scan (CHR '' '') False ?M = Some False"
    by (rule scan_join) (auto simp: scan_escape scan_texts list_all_iff)
  moreover have "scan (CHR '' '') False ?F = Some False"
    by (rule scan_join) (use ok in \<open>auto simp: scan_texts list_all_iff\<close>)
  moreover have "scan (CHR '' '') False ?T = Some False" using T(2) by (simp add: scan_number)
  ultimately have parts: "splitLine (line_of pf pt) = [?M, ?F, ?T]"
    unfolding splitLine_def line_of_def using T(1) by (intro split_join) simp_all
  have tags: "parseMeasurementTags ?M = (pt_measurement pt, assign_all (pt_tags pt))"
    by (rule parse_tags) (use ok in \<open>auto simp: list_all_iff\<close>)
  have fields: "field_assignments E b ?F = pt_fields pt" by (rule parse_fields) (use ok in \<open>auto simp: list_all_iff\<close>)
  have time: "parse_timestamp precision now [?M, ?F, ?T] = to_micros precision now (pt_time pt)"
    using ok number_trim [OF T] ParseInt_show [of "pt_time pt"] by (simp add: parse_timestamp_def)
  show ?thesis
    unfolding parseLineWithPrecision_def Let_def line_trim(1) [OF assms] parts
    using ok line_trim(2,3) [OF assms] by (simp add: tags fields time parseFields_def record_of_def)
qed

section \<open>Batches\<close>

lemma split_at_join:
  assumes "list_all (\<lambda>l. d \<notin> set l) ls" "ls \<noteq> []"
  shows "split_at d (join d ls) = ls"
proof -
  have one: "d \<notin> set t \<Longrightarrow> split_at d t = [t]" for t by (induction t) auto
  have more: "d \<notin> set a \<Longrightarrow> split_at d (a @ d # b) = a # split_at d b" for a b by (induction a) auto
  show ?thesis using assms by (induction ls rule: induct_list012) (simp_all add: one more)
qed

lemma escape_no_newline: "CHR 0x0A \<notin> set s \<Longrightarrow> CHR 0x0A \<notin> set (escape s)"
  using set_escape [of s] by auto

lemma join_set: "set (join d xs) \<subseteq> insert d (\<Union>x\<in>set xs. set x)"
  by (induction xs rule: induct_list012) auto

lemma value_no_newline: "value_ok E pf v \<Longrightarrow> CHR 0x0A \<notin> set (value_text pf v)"
proof (cases v)
  case (VString s)
  have "set (quote_string s) \<subseteq> insert (CHR 0x5C) (set s)" by (induction s) (auto simp: quote_Cons quote_string_def [of "[]"])
  then show "value_ok E pf v \<Longrightarrow> CHR 0x0A \<notin> set (value_text pf v)" using VString by (auto simp: value_ok_def)
next
  case (VFloat x)
  then show "value_ok E pf v \<Longrightarrow> CHR 0x0A \<notin> set (value_text pf v)" by (auto simp: value_ok_def list_all_iff float_char_def in_range_def)
next
  case (VInt i)
  then show ?thesis using number_texts(2) [of i] number_char_plain by (auto simp: list_all_iff)
next
  case (VUint n)
  then show ?thesis using number_texts(1) [of n] number_char_plain by (auto simp: list_all_iff)
qed simp

lemma line_no_newline:
  assumes "point_ok E pf pt"
  shows "CHR 0x0A \<notin> set (line_of pf pt)"
proof -
  note ok = assms [unfolded point_ok_def list_all_iff key_ok_def]
  have m: "CHR 0x0A \<notin> set (escape (pt_measurement pt))" using ok escape_no_newline by blast
  have t: "CHR 0x0A \<notin> set (tag_text tag)" if "tag \<in> set (pt_tags pt)" for tag
    using ok that escape_no_newline by (auto simp: tag_text_def)
  have f: "CHR 0x0A \<notin> set (field_text pf kv)" if "kv \<in> set (pt_fields pt)" for kv
    using ok that escape_no_newline value_no_newline [of E pf "snd kv"] by (auto simp: field_text_def)
  have n: "CHR 0x0A \<notin> set (show_int (pt_time pt))" using number_texts(2) [of "pt_time pt"] number_char_plain by (auto simp: list_all_iff)
  show ?thesis
    using m t f n join_set [of "CHR '','' :: char" "escape (pt_measurement pt) # map tag_text (pt_tags pt)"]
      join_set [of "CHR '','' :: char" "map (field_text pf) (pt_fields pt)"]
    by (auto simp: line_of_def)
qed


definition sample_floats :: "nat lp_env" where
  "sample_floats = \<lparr>le_float = (\<lambda>s. if s = ''0.5'' then Some 5 else None), le_now = (\<lambda>_. 0)\<rparr>"

definition sample_point :: "nat lp_point" where
  "sample_point =
     \<lparr>pt_measurement = ''c,p u'', pt_tags = [(''h o'', ''a=b'' @ [CHR 0x22])],
      pt_fields = [(''v'', VInt (-3)), (''s'', VString (''x, '' @ [CHR 0x5C, CHR 0x22])), (''f'', VFloat 5), (''b'', VBool True), (''u'', VUint 7)],
      pt_time = 1609459200000000000\<rparr>"

lemma sample_point_ok: "point_ok sample_floats (\<lambda>_. ''0.5'') sample_point"
  by (simp add: point_ok_def sample_point_def sample_floats_def key_ok_def value_ok_def float_char_def in_range_def spaces_def upt_rec
      valid_ascii)


section \<open>Equal signs in keys\<close>

lemma unescape_escape_append: "unescape (escape a @ t) = a @ unescape t"
proof (induction a)
  case (Cons c a)
  have "\<not> special c \<Longrightarrow> c \<noteq> CHR 0x5C" by auto
  then show ?case using Cons by (auto simp: escape_Cons unescape_other)
qed simp

text \<open>
  An escaped \<open>=\<close> in a key is not understood: the key ends there, with the backslash as its last
  character, and the rest of the key becomes part of the value.
\<close>

theorem escaped_equals_ends_key:
  assumes "a \<noteq> []" "CHR ''='' \<notin> set a" "m \<noteq> []"
  shows "parseMeasurementTags (join (CHR '','') [escape m, tag_text (a @ CHR ''='' # b, v)]) =
    (m, [a @ [CHR 0x5C] \<mapsto> b @ CHR ''='' # v])"
proof -
  have written: "tag_text (a @ CHR ''='' # b, v) = (escape a @ [CHR 0x5C]) @ CHR ''='' # (escape b @ CHR ''='' # escape v)"
    by (simp add: tag_text_def escape_def)
  have "CHR ''='' \<notin> set (escape a @ [CHR 0x5C])" using set_escape [of a] assms(2) by auto
  then have t: "takeWhile (\<lambda>c. c \<noteq> CHR ''='') (tag_text (a @ CHR ''='' # b, v)) = escape a @ [CHR 0x5C]"
    unfolding written by (simp add: takeWhile_append2 takeWhile_append)
  have cut: "cut_equals (tag_text (a @ CHR ''='' # b, v)) = Some (escape a @ [CHR 0x5C], escape b @ CHR ''='' # escape v)"
    unfolding cut_equals_def t Let_def by (simp add: written)
  have parts: "splitOnComma (join (CHR '','') [escape m, tag_text (a @ CHR ''='' # b, v)]) = [escape m, tag_text (a @ CHR ''='' # b, v)]"
    unfolding splitOnComma_def using assms(3) by (intro split_join) (simp_all add: scan_escape scan_texts text_nonempty)
  show ?thesis
    unfolding parseMeasurementTags_def parts
    by (simp add: List.map_filter_simps cut assign_all_def unescape_escape_append unescape_other)
qed

theorem escaped_equals_ends_key_witness:
  "parseMeasurementTags (''m,a'' @ [CHR 0x5C] @ ''=b=1'') = (''m'', [''a'' @ [CHR 0x5C] \<mapsto> ''b=1''])"
  using escaped_equals_ends_key [of "''a''" "''m''" "''b''" "''1''"] by (simp add: tag_text_def escape_def special_def)

end
