(* ===== verification/Ingest_Columnar.thy ===== *)
theory Ingest_Columnar
  imports Ingest_RoundTrip
begin

text \<open>
  From records to columns (\<^verbatim>\<open>ToFlatRecord\<close>, \<^verbatim>\<open>BatchToColumnar\<close> of \<^verbatim>\<open>internal/ingest/lineprotocol.go\<close>).
  The code writes into slices it has made before; a write to a missing slice or beyond its end
  would panic, which is \<open>None\<close> here.
\<close>

section \<open>Operations\<close>

datatype 'f cell = CTime int | CMeasurement string | CTag string | CField "'f lp_value"

text \<open>The column of a field: a field that is named like a tag of its record gets a suffix.\<close>

definition field_column :: "'f lp_record \<Rightarrow> string \<Rightarrow> string" where
  "field_column r k = (if lr_Tags r k \<noteq> None then k @ ''_value'' else k)"

text \<open>The writes for a record, in the orders in which Go ranges over its two maps.\<close>

definition tag_writes :: "(string set \<Rightarrow> string list) \<Rightarrow> 'f lp_record \<Rightarrow> (string \<times> 'f cell) list" where
  "tag_writes order r = map (\<lambda>k. (k, CTag (the (lr_Tags r k)))) (order (dom (lr_Tags r)))"

definition field_writes :: "(string set \<Rightarrow> string list) \<Rightarrow> 'f lp_record \<Rightarrow> (string \<times> 'f cell) list" where
  "field_writes order r = map (\<lambda>k. (field_column r k, CField (the (lr_Fields r k)))) (order (dom (lr_Fields r)))"

definition ToFlatRecord :: "(string set \<Rightarrow> string list) \<Rightarrow> 'f lp_record \<Rightarrow> (string \<rightharpoonup> 'f cell)" where
  "ToFlatRecord order r =
     assign_all ((''time'', CTime (lr_Timestamp r)) # (''measurement'', CMeasurement (lr_Measurement r)) #
       tag_writes order r @ field_writes order r)"

definition row_writes :: "(string set \<Rightarrow> string list) \<Rightarrow> 'f lp_record \<Rightarrow> (string \<times> 'f cell) list" where
  "row_writes order r = (''time'', CTime (lr_Timestamp r)) # tag_writes order r @ field_writes order r"

type_synonym 'f columns = "string \<rightharpoonup> 'f cell option list"

fun write_cells :: "nat \<Rightarrow> (string \<times> 'f cell) list \<Rightarrow> 'f columns \<Rightarrow> 'f columns option" where
  "write_cells i [] cols = Some cols"
| "write_cells i ((c, v) # ws) cols =
     (case cols c of
        None \<Rightarrow> None
      | Some xs \<Rightarrow> if i < length xs then write_cells i ws (cols(c \<mapsto> xs[i := Some v])) else None)"

fun fill_rows :: "(nat \<Rightarrow> string set \<Rightarrow> string list) \<Rightarrow> nat \<Rightarrow> 'f lp_record list \<Rightarrow> 'f columns \<Rightarrow> 'f columns option" where
  "fill_rows order i [] cols = Some cols"
| "fill_rows order i (r # rs) cols =
     (case write_cells i (row_writes (order i) r) cols of
        None \<Rightarrow> None
      | Some cols' \<Rightarrow> fill_rows order (Suc i) rs cols')"

definition all_tags :: "'f lp_record list \<Rightarrow> string set" where
  "all_tags rs = (\<Union>r\<in>set rs. dom (lr_Tags r))"

definition column_names :: "'f lp_record list \<Rightarrow> string set" where
  "column_names rs = insert ''time'' (all_tags rs \<union> (\<Union>r\<in>set rs. field_column r ` dom (lr_Fields r)))"

record 'f lp_columnar =
  cr_Measurement :: string
  cr_Columns :: "'f columns"
  cr_TagColumns :: "string list"

definition columnar_of ::
  "(nat \<Rightarrow> string set \<Rightarrow> string list) \<Rightarrow> (string set \<Rightarrow> string list) \<Rightarrow> string \<Rightarrow> 'f lp_record list \<Rightarrow> 'f lp_columnar option" where
  "columnar_of order tag_order m rs =
     (case fill_rows order 0 rs (\<lambda>c. if c \<in> column_names rs then Some (replicate (length rs) None) else None) of
        None \<Rightarrow> None
      | Some cols \<Rightarrow> Some \<lparr>cr_Measurement = m, cr_Columns = cols, cr_TagColumns = tag_order (all_tags rs)\<rparr>)"

text \<open>For every measurement what becomes of its records; outside, measurements without records.\<close>

definition BatchToColumnar ::
  "(nat \<Rightarrow> string set \<Rightarrow> string list) \<Rightarrow> (string set \<Rightarrow> string list) \<Rightarrow> 'f lp_record list \<Rightarrow> string \<rightharpoonup> 'f lp_columnar option" where
  "BatchToColumnar order tag_order records =
     (\<lambda>m. let rs = filter (\<lambda>r. lr_Measurement r = m) records
          in if rs = [] then None else Some (columnar_of order tag_order m rs))"

section \<open>The table that results\<close>

definition record_finite :: "'f lp_record \<Rightarrow> bool" where
  "record_finite r \<longleftrightarrow> finite (dom (lr_Tags r)) \<and> finite (dom (lr_Fields r))"

lemma assign_all_rev: "assign_all kvs = map_of (rev kvs)"
proof -
  have "fold (\<lambda>(k, v) m. m(k \<mapsto> v)) kvs m = m ++ map_of (rev kvs)" for m
    by (induction kvs arbitrary: m) auto
  then show ?thesis by (simp add: assign_all_def)
qed

lemma assign_all_Cons: "assign_all ((k, v) # kvs) c = (case assign_all kvs c of None \<Rightarrow> if c = k then Some v else None | Some x \<Rightarrow> Some x)"
  by (simp add: assign_all_rev map_add_def split: option.split)

lemma assign_all_lookup: "distinct (map fst kvs) \<Longrightarrow> (k, v) \<in> set kvs \<Longrightarrow> assign_all kvs k = Some v"
  unfolding assign_all_rev by (rule map_of_is_SomeI) (simp_all add: rev_map [symmetric])

lemma assign_all_None: "assign_all kvs c = None \<longleftrightarrow> c \<notin> fst ` set kvs"
  by (simp add: assign_all_rev map_of_eq_None_iff)

lemma assign_all_append: "assign_all (xs @ ys) = assign_all xs ++ assign_all ys"
  by (simp add: assign_all_rev)

text \<open>All writes of a row succeed, and of several to one cell the last stays.\<close>

lemma write_cells_spec:
  "\<lbrakk>fst ` set ws \<subseteq> dom cols; \<forall>c xs. cols c = Some xs \<longrightarrow> length xs = n; i < n\<rbrakk> \<Longrightarrow>
    write_cells i ws cols = Some (\<lambda>c. case cols c of
      None \<Rightarrow> None
    | Some xs \<Rightarrow> Some (case assign_all ws c of None \<Rightarrow> xs | Some v \<Rightarrow> xs[i := Some v]))"
proof (induction ws arbitrary: cols)
  case Nil
  then show ?case by (auto simp: assign_all_def fun_eq_iff split: option.split)
next
  case (Cons w ws)
  obtain c v where w: "w = (c, v)" by (cases w)
  then obtain xs where xs: "cols c = Some xs" "length xs = n" using Cons.prems by force
  let ?cols = "cols(c \<mapsto> xs[i := Some v])"
  have "write_cells i ws ?cols = Some (\<lambda>c. case ?cols c of
      None \<Rightarrow> None
    | Some xs \<Rightarrow> Some (case assign_all ws c of None \<Rightarrow> xs | Some v \<Rightarrow> xs[i := Some v]))"
    by (rule Cons.IH) (use Cons.prems xs in auto)
  then show ?case using xs Cons.prems(3) w by (auto simp: assign_all_Cons fun_eq_iff split: option.split)
qed

definition row_of :: "(nat \<Rightarrow> string set \<Rightarrow> string list) \<Rightarrow> nat \<Rightarrow> 'f lp_record \<Rightarrow> (string \<rightharpoonup> 'f cell)" where
  "row_of order j r = assign_all (row_writes (order j) r)"

lemma fill_rows_spec:
  "\<lbrakk>\<forall>r\<in>set rs. \<forall>j. fst ` set (row_writes (order j) r) \<subseteq> dom cols; \<forall>c xs. cols c = Some xs \<longrightarrow> length xs = n; i + length rs \<le> n\<rbrakk> \<Longrightarrow>
    \<exists>cols'. fill_rows order i rs cols = Some cols' \<and> dom cols' = dom cols \<and>
      (\<forall>c xs ys. cols c = Some xs \<longrightarrow> cols' c = Some ys \<longrightarrow> length ys = n \<and>
         (\<forall>j<n. ys ! j = (if i \<le> j \<and> j < i + length rs
            then (case row_of order j (rs ! (j - i)) c of None \<Rightarrow> xs ! j | Some v \<Rightarrow> Some v) else xs ! j)))"
proof (induction rs arbitrary: i cols)
  case Nil
  then show ?case by auto
next
  case (Cons r rs)
  let ?ws = "row_writes (order i) r"
  let ?cols = "\<lambda>c. case cols c of None \<Rightarrow> None | Some xs \<Rightarrow> Some (case assign_all ?ws c of None \<Rightarrow> xs | Some v \<Rightarrow> xs[i := Some v])"
  have w: "write_cells i ?ws cols = Some ?cols"
    by (rule write_cells_spec) (use Cons.prems in auto)
  have dom: "dom ?cols = dom cols" by (auto split: option.splits)
  have len: "\<forall>c xs. ?cols c = Some xs \<longrightarrow> length xs = n" using Cons.prems(2) by (auto split: option.splits)
  obtain cols' where c: "fill_rows order (Suc i) rs ?cols = Some cols'" "dom cols' = dom ?cols"
      "\<And>c xs ys. ?cols c = Some xs \<Longrightarrow> cols' c = Some ys \<Longrightarrow> length ys = n \<and>
         (\<forall>j<n. ys ! j = (if Suc i \<le> j \<and> j < Suc i + length rs
            then (case row_of order j (rs ! (j - Suc i)) c of None \<Rightarrow> xs ! j | Some v \<Rightarrow> Some v) else xs ! j))"
    using Cons.IH [of ?cols "Suc i"] Cons.prems(1,3) len unfolding dom by auto
  have "length ys = n \<and> (\<forall>j<n. ys ! j = (if i \<le> j \<and> j < i + length (r # rs)
            then (case row_of order j ((r # rs) ! (j - i)) c of None \<Rightarrow> xs ! j | Some v \<Rightarrow> Some v) else xs ! j))"
    if h: "cols c = Some xs" "cols' c = Some ys" for c xs ys
  proof -
    let ?xs = "case assign_all ?ws c of None \<Rightarrow> xs | Some v \<Rightarrow> xs[i := Some v]"
    have "?cols c = Some ?xs" using h(1) by simp
    note y = c(3) [OF this h(2)]
    have "length xs = n" using Cons.prems(2) h(1) by blast
    then show ?thesis using y Cons.prems(3) by (auto simp: row_of_def nth_Cons' nth_list_update Suc_le_eq split: option.split)
  qed
  then show ?case using w c(1,2) dom by auto
qed

lemma row_writes_columns:
  assumes "record_finite r" "lists_set order"
  shows "fst ` set (row_writes order r) = insert ''time'' (dom (lr_Tags r) \<union> field_column r ` dom (lr_Fields r))"
proof -
  have "set (order (dom (lr_Tags r))) = dom (lr_Tags r)" "set (order (dom (lr_Fields r))) = dom (lr_Fields r)"
    using assms unfolding record_finite_def lists_set_def by blast+
  then show ?thesis by (simp add: row_writes_def tag_writes_def field_writes_def image_Un image_image)
qed

text \<open>The cell of a column in a row; \<open>None\<close> for a missing column and for a missing value (nil).\<close>

definition cell_at :: "'f lp_columnar \<Rightarrow> string \<Rightarrow> nat \<Rightarrow> 'f cell option" where
  "cell_at tab c j = (case cr_Columns tab c of None \<Rightarrow> None | Some xs \<Rightarrow> xs ! j)"

lemma columnar_of_spec:
  assumes "\<forall>r\<in>set rs. record_finite r" "\<forall>j. lists_set (order j)" "lists_set tag_order"
  shows "\<exists>tab. columnar_of order tag_order m rs = Some tab \<and> cr_Measurement tab = m \<and> dom (cr_Columns tab) = column_names rs \<and>
    set (cr_TagColumns tab) = all_tags rs \<and> (\<forall>c xs. cr_Columns tab c = Some xs \<longrightarrow> length xs = length rs) \<and>
    (\<forall>c. \<forall>j<length rs. cell_at tab c j = row_of order j (rs ! j) c)"
proof -
  let ?cols = "\<lambda>c. if c \<in> column_names rs then Some (replicate (length rs) None) else None :: 'a cell option list option"
  have dom: "dom ?cols = column_names rs" by (auto split: if_splits)
  have cols: "fst ` set (row_writes (order j) r) \<subseteq> column_names rs" if "r \<in> set rs" for r j
  proof -
    have "fst ` set (row_writes (order j) r) = insert ''time'' (dom (lr_Tags r) \<union> field_column r ` dom (lr_Fields r))"
      by (rule row_writes_columns) (use assms(1,2) that in blast)+
    moreover have "dom (lr_Tags r) \<subseteq> all_tags rs" using that unfolding all_tags_def by (rule UN_upper)
    moreover have "field_column r ` dom (lr_Fields r) \<subseteq> (\<Union>r\<in>set rs. field_column r ` dom (lr_Fields r))" using that by (rule UN_upper)
    ultimately show ?thesis unfolding column_names_def by (simp add: le_supI1 le_supI2 subset_insertI2)
  qed
  have p: "\<forall>r\<in>set rs. \<forall>j. fst ` set (row_writes (order j) r) \<subseteq> dom ?cols" unfolding dom using cols by blast
  have q: "\<forall>c xs. ?cols c = Some xs \<longrightarrow> length xs = length rs" by (simp split: if_split)
  have "0 + length rs \<le> length rs" by simp
  from fill_rows_spec [OF p q this] obtain cols' where f: "fill_rows order 0 rs ?cols = Some cols'" "dom cols' = column_names rs"
      "\<And>c xs ys. ?cols c = Some xs \<Longrightarrow> cols' c = Some ys \<Longrightarrow> length ys = length rs \<and>
         (\<forall>j<length rs. ys ! j = (if 0 \<le> j \<and> j < 0 + length rs
            then (case row_of order j (rs ! (j - 0)) c of None \<Rightarrow> xs ! j | Some v \<Rightarrow> Some v) else xs ! j))"
    unfolding dom by blast
  let ?tab = "\<lparr>cr_Measurement = m, cr_Columns = cols', cr_TagColumns = tag_order (all_tags rs)\<rparr>"
  have tab: "columnar_of order tag_order m rs = Some ?tab" using f(1) by (simp add: columnar_of_def)
  have column: "length ys = length rs \<and> (\<forall>j<length rs. ys ! j = row_of order j (rs ! j) c)" if "cols' c = Some ys" for c ys
  proof -
    have "c \<in> column_names rs" using f(2) that by blast
    then show ?thesis using f(3) [of c "replicate (length rs) None" ys] that by (auto split: option.split)
  qed
  have "cell_at ?tab c j = row_of order j (rs ! j) c" if j: "j < length rs" for c j
  proof (cases "cols' c")
    case None
    then have "c \<notin> column_names rs" using f(2) by blast
    then have "row_of order j (rs ! j) c = None" using cols [of "rs ! j" j] j by (auto simp: row_of_def assign_all_None)
    then show ?thesis using None by (simp add: cell_at_def)
  next
    case (Some ys)
    then show ?thesis using column j by (simp add: cell_at_def)
  qed
  moreover have "set (tag_order (all_tags rs)) = all_tags rs"
    using assms(1,3) unfolding lists_set_def by (auto simp: all_tags_def record_finite_def)
  ultimately show ?thesis using tab f(2) column by (intro exI [of _ ?tab]) auto
qed

text \<open>A record whose columns do not collide with each other or with the time.\<close>

definition unambiguous :: "'f lp_record \<Rightarrow> bool" where
  "unambiguous r \<longleftrightarrow>
     ''time'' \<notin> dom (lr_Tags r) \<and> inj_on (field_column r) (dom (lr_Fields r)) \<and>
     field_column r ` dom (lr_Fields r) \<inter> insert ''time'' (dom (lr_Tags r)) = {}"

lemma row_of_unambiguous:
  assumes "record_finite r" "lists_set (order j)" "unambiguous r"
  shows "row_of order j r ''time'' = Some (CTime (lr_Timestamp r))"
    and "lr_Tags r k = Some t \<Longrightarrow> row_of order j r k = Some (CTag t)"
    and "lr_Fields r k = Some v \<Longrightarrow> row_of order j r (field_column r k) = Some (CField v)"
    and "c \<notin> insert ''time'' (dom (lr_Tags r) \<union> field_column r ` dom (lr_Fields r)) \<Longrightarrow> row_of order j r c = None"
proof -
  have o: "set (order j (dom (lr_Tags r))) = dom (lr_Tags r)" "distinct (order j (dom (lr_Tags r)))"
    "set (order j (dom (lr_Fields r))) = dom (lr_Fields r)" "distinct (order j (dom (lr_Fields r)))"
    using assms(1,2) unfolding record_finite_def lists_set_def by blast+
  have names: "map fst (row_writes (order j) r) = ''time'' # order j (dom (lr_Tags r)) @ map (field_column r) (order j (dom (lr_Fields r)))"
    by (simp add: row_writes_def tag_writes_def field_writes_def comp_def)
  have d: "distinct (map fst (row_writes (order j) r))"
    using assms(3) unfolding names unambiguous_def distinct.simps distinct_append distinct_map set_append set_map o(1,3)
    using o(2,4) by blast
  note look = assign_all_lookup [OF d, folded row_of_def]
  show "row_of order j r ''time'' = Some (CTime (lr_Timestamp r))" by (rule look) (simp add: row_writes_def)
  show "row_of order j r k = Some (CTag t)" if "lr_Tags r k = Some t"
    by (rule look) (use that o(1) in \<open>force simp: row_writes_def tag_writes_def\<close>)
  show "row_of order j r (field_column r k) = Some (CField v)" if "lr_Fields r k = Some v"
    by (rule look) (use that o(3) in \<open>force simp: row_writes_def field_writes_def\<close>)
  show "row_of order j r c = None" if "c \<notin> insert ''time'' (dom (lr_Tags r) \<union> field_column r ` dom (lr_Fields r))"
    using that row_writes_columns [OF assms(1,2)] by (simp add: row_of_def assign_all_None)
qed

text \<open>
  The conversion of a batch to columns keeps every value: it never writes outside a column,
  every column of a measurement has one cell for each of its records in their order, and a record
  whose names do not collide is found again in its row, with nothing in the other columns; the tag
  columns are the tags that occur.
\<close>

theorem columns_keep_records:
  assumes "\<forall>r\<in>set records. record_finite r" "\<forall>j. lists_set (order j)" "lists_set tag_order"
    and "rs = filter (\<lambda>r. lr_Measurement r = m) records" "rs \<noteq> []"
  shows "\<exists>tab. BatchToColumnar order tag_order records m = Some (Some tab) \<and> cr_Measurement tab = m \<and>
    set (cr_TagColumns tab) = all_tags rs \<and> (\<forall>c xs. cr_Columns tab c = Some xs \<longrightarrow> length xs = length rs) \<and>
    (\<forall>j<length rs. unambiguous (rs ! j) \<longrightarrow>
       cell_at tab ''time'' j = Some (CTime (lr_Timestamp (rs ! j))) \<and>
       (\<forall>k t. lr_Tags (rs ! j) k = Some t \<longrightarrow> cell_at tab k j = Some (CTag t)) \<and>
       (\<forall>k v. lr_Fields (rs ! j) k = Some v \<longrightarrow> cell_at tab (field_column (rs ! j) k) j = Some (CField v)) \<and>
       (\<forall>c. c \<notin> insert ''time'' (dom (lr_Tags (rs ! j)) \<union> field_column (rs ! j) ` dom (lr_Fields (rs ! j))) \<longrightarrow> cell_at tab c j = None))"
proof -
  have fin: "\<forall>r\<in>set rs. record_finite r" using assms(1,4) by auto
  obtain tab where tab: "columnar_of order tag_order m rs = Some tab" "cr_Measurement tab = m"
      "set (cr_TagColumns tab) = all_tags rs" "\<forall>c xs. cr_Columns tab c = Some xs \<longrightarrow> length xs = length rs"
      "\<And>c j. j < length rs \<Longrightarrow> cell_at tab c j = row_of order j (rs ! j) c"
    using columnar_of_spec [OF fin assms(2,3)] by blast
  have "BatchToColumnar order tag_order records m = Some (Some tab)"
    using tab(1) assms(5) unfolding BatchToColumnar_def assms(4) Let_def by simp
  moreover have "unambiguous (rs ! j) \<longrightarrow>
       cell_at tab ''time'' j = Some (CTime (lr_Timestamp (rs ! j))) \<and>
       (\<forall>k t. lr_Tags (rs ! j) k = Some t \<longrightarrow> cell_at tab k j = Some (CTag t)) \<and>
       (\<forall>k v. lr_Fields (rs ! j) k = Some v \<longrightarrow> cell_at tab (field_column (rs ! j) k) j = Some (CField v)) \<and>
       (\<forall>c. c \<notin> insert ''time'' (dom (lr_Tags (rs ! j)) \<union> field_column (rs ! j) ` dom (lr_Fields (rs ! j))) \<longrightarrow> cell_at tab c j = None)"
    if j: "j < length rs" for j
    using row_of_unambiguous [of "rs ! j" order j] fin assms(2) j unfolding tab(5) [OF j] by (metis nth_mem)
  ultimately show ?thesis using tab(2-4) by blast
qed

definition sample_record :: "string \<Rightarrow> int \<Rightarrow> nat lp_record" where
  "sample_record k t = \<lparr>lr_Measurement = ''m'', lr_Tags = [''h'' \<mapsto> ''a''], lr_Fields = [k \<mapsto> VInt 1], lr_Timestamp = t\<rparr>"

lemma sample_orders: "\<forall>j. lists_set ((\<lambda>_. sorted_list_of_set) j :: string set \<Rightarrow> string list)" "lists_set (sorted_list_of_set :: string set \<Rightarrow> string list)"
  by (simp_all add: lists_set_def)

theorem columns_keep_records_witness:
  "\<exists>tab. BatchToColumnar (\<lambda>_. sorted_list_of_set) sorted_list_of_set [sample_record ''v'' 5, sample_record ''h'' 6] ''m'' = Some (Some tab) \<and>
     cell_at tab ''time'' 0 = Some (CTime 5) \<and> cell_at tab ''h'' 1 = Some (CTag ''a'') \<and>
     cell_at tab ''h_value'' 1 = Some (CField (VInt 1)) \<and> cell_at tab ''v'' 1 = None"
proof -
  let ?rs = "[sample_record ''v'' 5, sample_record ''h'' 6]"
  have fin: "\<forall>r\<in>set ?rs. record_finite r" by (simp add: record_finite_def sample_record_def)
  have rs: "?rs = filter (\<lambda>r. lr_Measurement r = ''m'') ?rs" "?rs \<noteq> []" by (simp_all add: sample_record_def)
  have u: "unambiguous (?rs ! 0)" "unambiguous (?rs ! 1)" by (auto simp: unambiguous_def sample_record_def field_column_def)
  have f: "field_column (?rs ! 1) ''h'' = ''h_value''" by (simp add: field_column_def sample_record_def)
  have v: "''v'' \<notin> insert ''time'' (dom (lr_Tags (?rs ! 1)) \<union> field_column (?rs ! 1) ` dom (lr_Fields (?rs ! 1)))"
    by (simp add: field_column_def sample_record_def)
  have n: "0 < length ?rs" "1 < length ?rs" by simp_all
  have cells: "lr_Timestamp (?rs ! 0) = 5" "lr_Tags (?rs ! 1) ''h'' = Some ''a''" "lr_Fields (?rs ! 1) ''h'' = Some (VInt 1)"
    by (simp_all add: sample_record_def)
  show ?thesis
    using columns_keep_records [OF fin sample_orders rs]
  proof (elim exE conjE, goal_cases)
    case (1 tab)
    note row0 = 1(5) [rule_format, OF n(1) u(1)] and row1 = 1(5) [rule_format, OF n(2) u(2)]
    have "cell_at tab ''time'' 0 = Some (CTime 5)" using row0 cells(1) by simp
    moreover have "cell_at tab ''h'' 1 = Some (CTag ''a'')" using row1 cells(2) by blast
    moreover have "cell_at tab ''h_value'' 1 = Some (CField (VInt 1))" using row1 cells(3) f by metis
    moreover have "cell_at tab ''v'' 1 = None" using row1 v by blast
    ultimately show ?case using 1(1) by blast
  qed
qed

text \<open>
  A tag named \<open>time\<close> takes the place of the timestamp: the time column of its row holds the
  value of the tag.
\<close>

theorem time_tag_replaces_timestamp:
  assumes "\<forall>r\<in>set records. record_finite r" "\<forall>j. lists_set (order j)" "lists_set tag_order"
    and "rs = filter (\<lambda>r. lr_Measurement r = m) records" "j < length rs"
    and "lr_Tags (rs ! j) ''time'' = Some t" "''time'' \<notin> field_column (rs ! j) ` dom (lr_Fields (rs ! j))"
  shows "\<exists>tab. BatchToColumnar order tag_order records m = Some (Some tab) \<and> cell_at tab ''time'' j = Some (CTag t)"
proof -
  have fin: "\<forall>r\<in>set rs. record_finite r" using assms(1,4) by auto
  obtain tab where tab: "columnar_of order tag_order m rs = Some tab" "\<And>c. cell_at tab c j = row_of order j (rs ! j) c"
    using columnar_of_spec [OF fin assms(2,3), of m] assms(5) by blast
  let ?r = "rs ! j"
  have r: "record_finite ?r" using fin assms(5) by simp
  then have o: "set (order j (dom (lr_Tags ?r))) = dom (lr_Tags ?r)" "distinct (order j (dom (lr_Tags ?r)))"
      "set (order j (dom (lr_Fields ?r))) = dom (lr_Fields ?r)"
    using assms(2) unfolding record_finite_def lists_set_def by blast+
  have "assign_all (field_writes (order j) ?r) ''time'' = None"
    using assms(7) o(3) by (auto simp: assign_all_None field_writes_def)
  moreover have "assign_all (tag_writes (order j) ?r) ''time'' = Some (CTag t)"
  proof (rule assign_all_lookup)
    show "distinct (map fst (tag_writes (order j) ?r))" using o(2) by (simp add: tag_writes_def comp_def)
    show "(''time'', CTag t) \<in> set (tag_writes (order j) ?r)" using o(1) assms(6) by (force simp: tag_writes_def)
  qed
  ultimately have "row_of order j ?r ''time'' = Some (CTag t)"
    by (simp add: row_of_def row_writes_def assign_all_Cons assign_all_append map_add_def)
  moreover have "BatchToColumnar order tag_order records m = Some (Some tab)"
    using tab(1) assms(5) unfolding BatchToColumnar_def assms(4) Let_def by auto
  ultimately show ?thesis using tab(2) by auto
qed

theorem time_tag_replaces_timestamp_witness:
  "\<exists>tab. BatchToColumnar (\<lambda>_. sorted_list_of_set) sorted_list_of_set [(sample_record ''v'' 5)\<lparr>lr_Tags := [''time'' \<mapsto> ''x'']\<rparr>] ''m'' = Some (Some tab) \<and>
     cell_at tab ''time'' 0 = Some (CTag ''x'')"
proof -
  let ?rs = "[(sample_record ''v'' 5)\<lparr>lr_Tags := [''time'' \<mapsto> ''x'']\<rparr>]"
  have fin: "\<forall>r\<in>set ?rs. record_finite r" by (simp add: record_finite_def sample_record_def)
  have rs: "?rs = filter (\<lambda>r. lr_Measurement r = ''m'') ?rs" by (simp add: sample_record_def)
  show ?thesis
    by (rule time_tag_replaces_timestamp [OF fin sample_orders rs]) (simp_all add: sample_record_def field_column_def)
qed

end
