(* ===== verification/Cluster_Node.thy ===== *)
theory Cluster_Node
  imports Cluster_Forward
begin

text \<open>
  A node as the other members see it, and the registry of nodes
  (\<^verbatim>\<open>internal/cluster/node.go\<close>, \<^verbatim>\<open>registry.go\<close>).  The mutex of a node makes each of its
  methods one step.  A \<^verbatim>\<open>NodeState\<close> is a string, since it is taken from messages unchecked.  The
  runtime statistics are only stored and copied; their type is the parameter \<open>'s\<close>.
\<close>

section \<open>Nodes\<close>

record 's node =
  nd_ID :: string
  nd_Name :: string
  nd_Role :: string
  nd_ClusterName :: string
  nd_Address :: string
  nd_APIAddress :: string
  nd_State :: string
  nd_LastHeartbeat :: gotime
  nd_LastHealthy :: gotime
  nd_FailedChecks :: int
  nd_Version :: string
  nd_StartedAt :: gotime
  nd_JoinedAt :: gotime
  nd_WriterSt :: string
  nd_Stats :: 's

definition StateUnknown :: string where "StateUnknown = ''unknown''"
definition StateHealthy :: string where "StateHealthy = ''healthy''"
definition StateUnhealthy :: string where "StateUnhealthy = ''unhealthy''"
definition StateDead :: string where "StateDead = ''dead''"
definition StateJoining :: string where "StateJoining = ''joining''"
definition StateLeaving :: string where "StateLeaving = ''leaving''"

lemmas node_state_defs =
  StateUnknown_def StateHealthy_def StateUnhealthy_def StateDead_def StateJoining_def StateLeaving_def

definition WriterStatePrimary :: string where "WriterStatePrimary = ''primary''"
definition WriterStateStandby :: string where "WriterStateStandby = ''standby''"
definition WriterStateNone :: string where "WriterStateNone = []"

lemmas writer_state_defs = WriterStatePrimary_def WriterStateStandby_def WriterStateNone_def

lemma writer_states_distinct [simp]:
  "WriterStatePrimary \<noteq> WriterStateNone" "WriterStateNone \<noteq> WriterStatePrimary"
  "WriterStatePrimary \<noteq> WriterStateStandby" "WriterStateStandby \<noteq> WriterStatePrimary"
  by (simp_all add: writer_state_defs)

lemma node_states_distinct [simp]:
  "StateHealthy \<noteq> StateUnhealthy" "StateUnhealthy \<noteq> StateHealthy" "StateHealthy \<noteq> StateDead" "StateDead \<noteq> StateHealthy"
  "StateUnhealthy \<noteq> StateDead" "StateDead \<noteq> StateUnhealthy" "StateHealthy \<noteq> StateJoining" "StateJoining \<noteq> StateHealthy"
  "StateJoining \<noteq> StateUnhealthy" "StateUnhealthy \<noteq> StateJoining" "StateJoining \<noteq> StateDead" "StateDead \<noteq> StateJoining"
  by (simp_all add: node_state_defs)

definition NewNode :: "'s \<Rightarrow> int \<Rightarrow> string \<Rightarrow> string \<Rightarrow> string \<Rightarrow> string \<Rightarrow> 's node" where
  "NewNode zero_stats now i name role clusterName =
     \<lparr>nd_ID = i, nd_Name = name, nd_Role = role, nd_ClusterName = clusterName, nd_Address = [], nd_APIAddress = [],
      nd_State = StateUnknown, nd_LastHeartbeat = None, nd_LastHealthy = None, nd_FailedChecks = 0, nd_Version = [],
      nd_StartedAt = Some now, nd_JoinedAt = None, nd_WriterSt = WriterStateNone, nd_Stats = zero_stats\<rparr>"

definition IsHealthy :: "'s node \<Rightarrow> bool" where
  "IsHealthy n \<longleftrightarrow> nd_State n = StateHealthy"

definition IsAvailable :: "'s node \<Rightarrow> bool" where
  "IsAvailable n \<longleftrightarrow> nd_State n = StateHealthy \<or> nd_State n = StateJoining"

definition UpdateState :: "int \<Rightarrow> string \<Rightarrow> 's node \<Rightarrow> 's node" where
  "UpdateState now state n =
     (let n' = n\<lparr>nd_State := state\<rparr>
      in if state = StateHealthy then n'\<lparr>nd_LastHealthy := Some now\<rparr> else n')"

definition node_RecordHeartbeat :: "int \<Rightarrow> 's \<Rightarrow> 's node \<Rightarrow> 's node" where
  "node_RecordHeartbeat now stats n =
     (let n' = n\<lparr>nd_LastHeartbeat := Some now, nd_Stats := stats, nd_FailedChecks := 0\<rparr>
      in if nd_State n = StateHealthy then n'\<lparr>nd_LastHealthy := Some now\<rparr> else n')"

definition RecordFailedCheck :: "'s node \<Rightarrow> int \<times> 's node" where
  "RecordFailedCheck n = (nd_FailedChecks n + 1, n\<lparr>nd_FailedChecks := nd_FailedChecks n + 1\<rparr>)"

definition SetAddresses :: "string \<Rightarrow> string \<Rightarrow> 's node \<Rightarrow> 's node" where
  "SetAddresses coordinatorAddr apiAddr n = n\<lparr>nd_Address := coordinatorAddr, nd_APIAddress := apiAddr\<rparr>"

definition SetVersion :: "string \<Rightarrow> 's node \<Rightarrow> 's node" where
  "SetVersion version n = n\<lparr>nd_Version := version\<rparr>"

definition MarkJoined :: "int \<Rightarrow> 's node \<Rightarrow> 's node" where
  "MarkJoined now n = n\<lparr>nd_JoinedAt := Some now, nd_State := StateHealthy, nd_LastHealthy := Some now\<rparr>"

definition SetWriterState :: "string \<Rightarrow> 's node \<Rightarrow> 's node" where
  "SetWriterState state n = n\<lparr>nd_WriterSt := state\<rparr>"

definition node_IsPrimaryWriter :: "'s node \<Rightarrow> bool" where
  "node_IsPrimaryWriter n \<longleftrightarrow> nd_Role n = RoleWriter \<and> nd_WriterSt n = WriterStatePrimary"

record state_transition =
  tr_OldState :: string
  tr_NewState :: string
  tr_FailedChecks :: int

definition ProcessHealthCheckResult ::
  "int \<Rightarrow> bool \<Rightarrow> int \<Rightarrow> int \<Rightarrow> 's node \<Rightarrow> state_transition option \<times> 's node" where
  "ProcessHealthCheckResult now healthy unhealthyThreshold deadThreshold n =
     (let oldState = nd_State n
      in if healthy
         then let n' = n\<lparr>nd_FailedChecks := 0\<rparr>
              in if oldState \<noteq> StateHealthy \<and> oldState \<noteq> StateJoining
                 then (Some \<lparr>tr_OldState = oldState, tr_NewState = StateHealthy, tr_FailedChecks = 0\<rparr>,
                       n'\<lparr>nd_State := StateHealthy, nd_LastHealthy := Some now\<rparr>)
                 else (None, n')
         else let n' = n\<lparr>nd_FailedChecks := nd_FailedChecks n + 1\<rparr>
              in if unhealthyThreshold \<le> nd_FailedChecks n' \<and> oldState = StateHealthy
                 then (Some \<lparr>tr_OldState = oldState, tr_NewState = StateUnhealthy, tr_FailedChecks = nd_FailedChecks n'\<rparr>,
                       n'\<lparr>nd_State := StateUnhealthy\<rparr>)
                 else if deadThreshold \<le> nd_FailedChecks n' \<and> oldState \<noteq> StateDead
                 then (Some \<lparr>tr_OldState = oldState, tr_NewState = StateDead, tr_FailedChecks = nd_FailedChecks n'\<rparr>,
                       n'\<lparr>nd_State := StateDead\<rparr>)
                 else (None, n'))"

text \<open>What the methods leave alone: identity and role always, the writer state except by its setter.\<close>

definition identity_of :: "'s node \<Rightarrow> string \<times> string \<times> string" where
  "identity_of n = (nd_ID n, nd_Role n, nd_WriterSt n)"

lemma identity_kept [simp]:
  "identity_of (UpdateState now s n) = identity_of n"
  "identity_of (node_RecordHeartbeat now x n) = identity_of n"
  "identity_of (snd (RecordFailedCheck n)) = identity_of n"
  "identity_of (SetAddresses a b n) = identity_of n"
  "identity_of (SetVersion v n) = identity_of n"
  "identity_of (MarkJoined now n) = identity_of n"
  "identity_of (snd (ProcessHealthCheckResult now h u d n)) = identity_of n"
  by (simp_all add: identity_of_def UpdateState_def node_RecordHeartbeat_def RecordFailedCheck_def SetAddresses_def
      SetVersion_def MarkJoined_def ProcessHealthCheckResult_def Let_def)

lemma identity_of_eq:
  "identity_of m = identity_of n \<Longrightarrow> nd_ID m = nd_ID n \<and> nd_Role m = nd_Role n \<and> nd_WriterSt m = nd_WriterSt n"
  by (simp add: identity_of_def)

section \<open>The registry\<close>

text \<open>
  The registry holds pointers.  \<open>rg_heap\<close> are the node objects, a pointer is an index; the local
  node is an object the coordinator keeps a pointer to, whatever the map holds.
\<close>

record 's registry =
  rg_nodes :: "string \<rightharpoonup> nat"
  rg_heap :: "'s node list"
  rg_localNode :: "nat option"
  rg_maxNodes :: int

definition DefaultMaxNodes :: int where "DefaultMaxNodes = 1000"

definition NewRegistry :: "'s node option \<Rightarrow> int \<Rightarrow> 's registry" where
  "NewRegistry local cfgMaxNodes =
     \<lparr>rg_nodes = (case local of None \<Rightarrow> Map.empty | Some n \<Rightarrow> [nd_ID n \<mapsto> 0]),
      rg_heap = (case local of None \<Rightarrow> [] | Some n \<Rightarrow> [n]),
      rg_localNode = map_option (\<lambda>_. 0) local,
      rg_maxNodes = (if cfgMaxNodes \<le> 0 then DefaultMaxNodes else cfgMaxNodes)\<rparr>"

text \<open>\<open>Get\<close> returns a clone, which is a value here.\<close>

definition registry_Get :: "string \<Rightarrow> 's registry \<Rightarrow> 's node option" where
  "registry_Get i rg = map_option (\<lambda>p. rg_heap rg ! p) (rg_nodes rg i)"

text \<open>
  \<open>Register\<close> is always called with an object of its own (a new node or a clone), so that it is
  added to the heap.  It returns the callback to invoke, if any.
\<close>

datatype registry_error = ErrTooManyNodes

datatype 's notification = Joined "'s node" | Left "'s node" | Healthy "'s node" | Unhealthy "'s node"

definition Register :: "'s node \<Rightarrow> 's registry \<Rightarrow> registry_error option \<times> 's notification list \<times> 's registry" where
  "Register n rg =
     (let exists = rg_nodes rg (nd_ID n) \<noteq> None
      in if \<not> exists \<and> rg_maxNodes rg \<le> int (card (dom (rg_nodes rg)))
         then (Some ErrTooManyNodes, [], rg)
         else (None, if exists then [] else [Joined n],
               rg\<lparr>rg_nodes := (rg_nodes rg)(nd_ID n \<mapsto> length (rg_heap rg)), rg_heap := rg_heap rg @ [n]\<rparr>))"

definition Unregister :: "string \<Rightarrow> 's registry \<Rightarrow> 's notification list \<times> 's registry" where
  "Unregister i rg =
     (case registry_Get i rg of
        None \<Rightarrow> ([], rg)
      | Some n \<Rightarrow> ([Left n], rg\<lparr>rg_nodes := (rg_nodes rg)(i := None)\<rparr>))"

text \<open>A method on the real node of the registry, behind its pointer.\<close>

definition on_node :: "string \<Rightarrow> ('s node \<Rightarrow> 's node) \<Rightarrow> 's registry \<Rightarrow> 's registry" where
  "on_node i g rg =
     (case rg_nodes rg i of
        None \<Rightarrow> rg
      | Some p \<Rightarrow> rg\<lparr>rg_heap := (rg_heap rg)[p := g (rg_heap rg ! p)]\<rparr>)"

definition RecordHeartbeat :: "int \<Rightarrow> string \<Rightarrow> 's \<Rightarrow> 's registry \<Rightarrow> bool \<times> 's registry" where
  "RecordHeartbeat now i stats rg = (rg_nodes rg i \<noteq> None, on_node i (node_RecordHeartbeat now stats) rg)"

definition registry_UpdateNodeState :: "int \<Rightarrow> string \<Rightarrow> string \<Rightarrow> 's registry \<Rightarrow> 's registry" where
  "registry_UpdateNodeState now i state rg = on_node i (UpdateState now state) rg"

definition GetLastHeartbeat :: "string \<Rightarrow> 's registry \<Rightarrow> gotime" where
  "GetLastHeartbeat i rg = (case registry_Get i rg of None \<Rightarrow> None | Some n \<Rightarrow> nd_LastHeartbeat n)"

definition ProcessHealthCheck ::
  "int \<Rightarrow> string \<Rightarrow> bool \<Rightarrow> int \<Rightarrow> int \<Rightarrow> 's registry \<Rightarrow> state_transition option \<times> 's registry" where
  "ProcessHealthCheck now i healthy unhealthyThreshold deadThreshold rg =
     (case registry_Get i rg of
        None \<Rightarrow> (None, rg)
      | Some n \<Rightarrow> (fst (ProcessHealthCheckResult now healthy unhealthyThreshold deadThreshold n),
                  on_node i (\<lambda>n. snd (ProcessHealthCheckResult now healthy unhealthyThreshold deadThreshold n)) rg))"

text \<open>The queries; \<open>order\<close> is the order in which Go ranges over the map.\<close>

definition filterNodes :: "(string set \<Rightarrow> string list) \<Rightarrow> ('s node \<Rightarrow> bool) \<Rightarrow> 's registry \<Rightarrow> 's node list" where
  "filterNodes order pred rg = filter pred (List.map_filter (\<lambda>i. registry_Get i rg) (order (dom (rg_nodes rg))))"

definition countNodes :: "(string set \<Rightarrow> string list) \<Rightarrow> ('s node \<Rightarrow> bool) \<Rightarrow> 's registry \<Rightarrow> nat" where
  "countNodes order pred rg = length (filterNodes order pred rg)"

definition GetAll :: "(string set \<Rightarrow> string list) \<Rightarrow> 's registry \<Rightarrow> 's node list" where
  "GetAll order = filterNodes order (\<lambda>n. True)"

definition GetByRole :: "(string set \<Rightarrow> string list) \<Rightarrow> string \<Rightarrow> 's registry \<Rightarrow> 's node list" where
  "GetByRole order role = filterNodes order (\<lambda>n. nd_Role n = role)"

definition GetByState :: "(string set \<Rightarrow> string list) \<Rightarrow> string \<Rightarrow> 's registry \<Rightarrow> 's node list" where
  "GetByState order state = filterNodes order (\<lambda>n. nd_State n = state)"

definition GetHealthy :: "(string set \<Rightarrow> string list) \<Rightarrow> 's registry \<Rightarrow> 's node list" where
  "GetHealthy order = filterNodes order IsHealthy"

definition GetAvailable :: "(string set \<Rightarrow> string list) \<Rightarrow> 's registry \<Rightarrow> 's node list" where
  "GetAvailable order = filterNodes order IsAvailable"

definition GetWriters :: "(string set \<Rightarrow> string list) \<Rightarrow> 's registry \<Rightarrow> 's node list" where
  "GetWriters order = filterNodes order (\<lambda>n. nd_Role n = RoleWriter \<and> IsHealthy n)"

definition GetReaders :: "(string set \<Rightarrow> string list) \<Rightarrow> 's registry \<Rightarrow> 's node list" where
  "GetReaders order = filterNodes order (\<lambda>n. nd_Role n = RoleReader \<and> IsHealthy n)"

definition GetCompactors :: "(string set \<Rightarrow> string list) \<Rightarrow> 's registry \<Rightarrow> 's node list" where
  "GetCompactors order = filterNodes order (\<lambda>n. nd_Role n = RoleCompactor \<and> IsHealthy n)"

definition GetStandbyWriters :: "(string set \<Rightarrow> string list) \<Rightarrow> 's registry \<Rightarrow> 's node list" where
  "GetStandbyWriters order = filterNodes order (\<lambda>n. nd_Role n = RoleWriter \<and> nd_WriterSt n = WriterStateStandby \<and> IsHealthy n)"

definition GetPrimaryWriter :: "(string set \<Rightarrow> string list) \<Rightarrow> 's registry \<Rightarrow> 's node option" where
  "GetPrimaryWriter order rg = List.find (\<lambda>n. node_IsPrimaryWriter n \<and> IsHealthy n) (GetAll order rg)"

definition registry_Count :: "'s registry \<Rightarrow> nat" where
  "registry_Count rg = card (dom (rg_nodes rg))"

definition CountByRole :: "(string set \<Rightarrow> string list) \<Rightarrow> string \<Rightarrow> 's registry \<Rightarrow> nat" where
  "CountByRole order role = countNodes order (\<lambda>n. nd_Role n = role)"

definition CountHealthy :: "(string set \<Rightarrow> string list) \<Rightarrow> 's registry \<Rightarrow> nat" where
  "CountHealthy order = countNodes order IsHealthy"

definition Local :: "'s registry \<Rightarrow> 's node option" where
  "Local rg = map_option (\<lambda>p. rg_heap rg ! p) (rg_localNode rg)"

text \<open>A method of the coordinator on its local node.\<close>

definition on_local :: "('s node \<Rightarrow> 's node) \<Rightarrow> 's registry \<Rightarrow> 's registry" where
  "on_local g rg =
     (case rg_localNode rg of
        None \<Rightarrow> rg
      | Some p \<Rightarrow> rg\<lparr>rg_heap := (rg_heap rg)[p := g (rg_heap rg ! p)]\<rparr>)"

section \<open>The registry as a map\<close>

definition registry_ok :: "'s registry \<Rightarrow> bool" where
  "registry_ok rg \<longleftrightarrow>
     finite (dom (rg_nodes rg)) \<and>
     (\<forall>i p. rg_nodes rg i = Some p \<longrightarrow> p < length (rg_heap rg) \<and> nd_ID (rg_heap rg ! p) = i) \<and>
     (\<forall>p. rg_localNode rg = Some p \<longrightarrow> p < length (rg_heap rg))"

lemma registry_okD:
  assumes "registry_ok rg"
  shows "finite (dom (rg_nodes rg))"
    and "rg_nodes rg i = Some p \<Longrightarrow> p < length (rg_heap rg)"
    and "rg_nodes rg i = Some p \<Longrightarrow> nd_ID (rg_heap rg ! p) = i"
    and "rg_localNode rg = Some p \<Longrightarrow> p < length (rg_heap rg)"
  using assms by (auto simp: registry_ok_def)

lemma NewRegistry_ok: "registry_ok (NewRegistry local m)"
  by (auto simp: registry_ok_def NewRegistry_def split: option.splits if_splits)

lemma Register_ok: "registry_ok rg \<Longrightarrow> registry_ok (snd (snd (Register n rg)))"
  by (auto simp: registry_ok_def Register_def Let_def nth_append less_Suc_eq split: if_splits)

lemma Unregister_ok: "registry_ok rg \<Longrightarrow> registry_ok (snd (Unregister i rg))"
  by (auto simp: registry_ok_def Unregister_def split: option.splits if_splits intro: finite_subset)

lemma on_pointer_ok:
  assumes "registry_ok rg" "\<And>n. nd_ID (g n) = nd_ID n"
  shows "registry_ok (rg\<lparr>rg_heap := (rg_heap rg)[p := g (rg_heap rg ! p)]\<rparr>)"
proof (cases "p < length (rg_heap rg)")
  case True
  then show ?thesis using registry_okD [OF assms(1)] assms(2) by (auto simp: registry_ok_def nth_list_update)
next
  case False
  then show ?thesis using assms(1) by (simp add: list_update_beyond)
qed

lemma on_node_ok: "\<lbrakk>registry_ok rg; \<And>n. nd_ID (g n) = nd_ID n\<rbrakk> \<Longrightarrow> registry_ok (on_node i g rg)"
  by (simp add: on_node_def on_pointer_ok split: option.split)

lemma on_local_ok: "\<lbrakk>registry_ok rg; \<And>n. nd_ID (g n) = nd_ID n\<rbrakk> \<Longrightarrow> registry_ok (on_local g rg)"
  by (simp add: on_local_def on_pointer_ok split: option.split)

text \<open>Each operation as an update of the map from names to nodes.\<close>

lemma Get_id: "registry_ok rg \<Longrightarrow> registry_Get i rg = Some n \<Longrightarrow> nd_ID n = i"
  by (auto simp: registry_Get_def registry_okD)

lemma Get_Register:
  assumes "registry_ok rg"
  shows "registry_Get i (snd (snd (Register n rg))) =
    (if fst (Register n rg) = None \<and> i = nd_ID n then Some n else registry_Get i rg)"
  using registry_okD(2) [OF assms, of i]
  by (cases "rg_nodes rg i") (auto simp: Register_def Let_def registry_Get_def nth_append)

lemma Register_known: "rg_nodes rg (nd_ID n) \<noteq> None \<Longrightarrow> fst (Register n rg) = None"
  by (simp add: Register_def)

lemma Get_Unregister: "registry_Get i (snd (Unregister j rg)) = (if i = j then None else registry_Get i rg)"
  by (auto simp: Unregister_def registry_Get_def split: option.split)

lemma Get_None: "registry_Get i rg = None \<longleftrightarrow> rg_nodes rg i = None"
  by (simp add: registry_Get_def)

lemma Get_on_node:
  assumes "registry_ok rg"
  shows "registry_Get i (on_node j g rg) = (if i = j then map_option g (registry_Get i rg) else registry_Get i rg)"
proof (cases "rg_nodes rg i"; cases "rg_nodes rg j")
  fix p q
  assume pq: "rg_nodes rg i = Some p" "rg_nodes rg j = Some q"
  then have "i = j \<longleftrightarrow> p = q" using registry_okD(3) [OF assms] by (metis option.inject)
  then show ?thesis using pq registry_okD(2) [OF assms pq(1)] by (auto simp: on_node_def registry_Get_def)
qed (use registry_okD(2) [OF assms] in \<open>auto simp: on_node_def registry_Get_def\<close>)

lemma dom_on_node [simp]: "dom (rg_nodes (on_node i g rg)) = dom (rg_nodes rg)"
  by (simp add: on_node_def split: option.split)

lemma filterNodes_set:
  assumes "registry_ok rg" "lists_set order"
  shows "set (filterNodes order P rg) = {n. P n \<and> registry_Get (nd_ID n) rg = Some n}"
proof -
  have o: "set (order (dom (rg_nodes rg))) = dom (rg_nodes rg)"
    using assms registry_okD(1) by (auto simp: lists_set_def)
  have "n \<in> set (List.map_filter (\<lambda>i. registry_Get i rg) (order (dom (rg_nodes rg)))) \<longleftrightarrow> registry_Get (nd_ID n) rg = Some n" for n
  proof
    assume "n \<in> set (List.map_filter (\<lambda>i. registry_Get i rg) (order (dom (rg_nodes rg))))"
    then obtain i where "registry_Get i rg = Some n" by (auto simp: map_filter_def)
    then show "registry_Get (nd_ID n) rg = Some n" using Get_id [OF assms(1)] by blast
  next
    assume n: "registry_Get (nd_ID n) rg = Some n"
    then have "nd_ID n \<in> dom (rg_nodes rg)" by (auto simp: registry_Get_def)
    then show "n \<in> set (List.map_filter (\<lambda>i. registry_Get i rg) (order (dom (rg_nodes rg))))"
      using n o by (force simp: map_filter_def)
  qed
  then show ?thesis by (auto simp: filterNodes_def)
qed

end
