(* ===== verification/Cluster_Health.thy ===== *)
theory Cluster_Health
  imports Cluster_Node
begin

text \<open>
  The health checker of \<^verbatim>\<open>internal/cluster/health.go\<close>.  Times are nanoseconds.  Between the reading
  of a heartbeat and the update of the node others may change the registry: \<open>during\<close>.
\<close>

section \<open>Operations\<close>

record health_checker =
  hc_checkInterval :: int
  hc_checkTimeout :: int
  hc_unhealthyThreshold :: int
  hc_warnIfNoCompactor :: bool
  hc_lastNoCompactorWarnAt :: int
  hc_lastMultiCompactorWarnAt :: int
  hc_running :: bool
  hc_stopClosed :: bool

definition compactorWarnInterval :: int where "compactorWarnInterval = 60 * 1000000000"

definition NewHealthChecker :: "int \<Rightarrow> int \<Rightarrow> int \<Rightarrow> bool \<Rightarrow> health_checker" where
  "NewHealthChecker interval timeout threshold warn =
     \<lparr>hc_checkInterval = (if interval = 0 then 5 * 1000000000 else interval),
      hc_checkTimeout = (if timeout = 0 then 3 * 1000000000 else timeout),
      hc_unhealthyThreshold = (if threshold = 0 then 3 else threshold),
      hc_warnIfNoCompactor = warn, hc_lastNoCompactorWarnAt = 0, hc_lastMultiCompactorWarnAt = 0,
      hc_running = False, hc_stopClosed = False\<rparr>"

text \<open>Whether a loop is started.  It ends at once when the stop channel has been closed.\<close>

definition health_Start :: "health_checker \<Rightarrow> bool \<times> health_checker" where
  "health_Start h = (if hc_running h then (False, h) else (True, h\<lparr>hc_running := True\<rparr>))"

text \<open>\<open>None\<close> is the panic of closing a closed channel.\<close>

definition health_Stop :: "health_checker \<Rightarrow> health_checker option" where
  "health_Stop h =
     (if \<not> hc_running h then Some h
      else if hc_stopClosed h then None
      else Some (h\<lparr>hc_running := False, hc_stopClosed := True\<rparr>))"

text \<open>The clock is read twice: to compare, and for the new stamp.\<close>

definition claimWarnSlot :: "int \<Rightarrow> int \<Rightarrow> int \<Rightarrow> bool \<times> int" where
  "claimWarnSlot t0 t1 slot =
     (if slot \<noteq> 0 \<and> t0 - slot < compactorWarnInterval then (False, slot) else (True, t1))"

datatype compactor_warning = NoCompactorElected | MultipleCompactorsElected "string list"

definition checkCompactorElected ::
  "(string set \<Rightarrow> string list) \<Rightarrow> fsm option \<Rightarrow> int \<Rightarrow> int \<Rightarrow> 's registry \<Rightarrow> health_checker \<Rightarrow>
   compactor_warning option \<times> health_checker" where
  "checkCompactorElected order raftFSM t0 t1 rg h =
     (let compactors = GetCompactors order rg;
          activeCompactorID = (case raftFSM of None \<Rightarrow> [] | Some f \<Rightarrow> GetActiveCompactorID f)
      in if length compactors = 1 \<or> compactors = [] \<and> activeCompactorID \<noteq> []
         then (None, h\<lparr>hc_lastNoCompactorWarnAt := 0, hc_lastMultiCompactorWarnAt := 0\<rparr>)
         else if compactors = []
         then (case claimWarnSlot t0 t1 (hc_lastNoCompactorWarnAt h) of
                 (False, _) \<Rightarrow> (None, h)
               | (True, slot) \<Rightarrow> (Some NoCompactorElected, h\<lparr>hc_lastNoCompactorWarnAt := slot\<rparr>))
         else (case claimWarnSlot t0 t1 (hc_lastMultiCompactorWarnAt h) of
                 (False, _) \<Rightarrow> (None, h)
               | (True, slot) \<Rightarrow> (Some (MultipleCompactorsElected (map nd_ID compactors)), h\<lparr>hc_lastMultiCompactorWarnAt := slot\<rparr>)))"

definition performHealthCheck :: "health_checker \<Rightarrow> bool \<Rightarrow> int \<Rightarrow> string \<Rightarrow> 's registry \<Rightarrow> bool" where
  "performHealthCheck h expired now i rg =
     (if expired then False
      else case GetLastHeartbeat i rg of
             None \<Rightarrow> False
           | Some t \<Rightarrow> now - t < 3 * hc_checkInterval h)"

text \<open>\<open>node\<close> is the clone that \<open>checkAllNodes\<close> has taken; it is what a notification carries.\<close>

definition checkNode ::
  "health_checker \<Rightarrow> bool \<Rightarrow> int \<Rightarrow> ('s registry \<Rightarrow> 's registry) \<Rightarrow> 's node \<Rightarrow> 's registry \<Rightarrow>
   's notification list \<times> 's registry" where
  "checkNode h expired now during node rg =
     (let healthy = performHealthCheck h expired now (nd_ID node) rg;
          deadThreshold = hc_unhealthyThreshold h * 2
      in case ProcessHealthCheck now (nd_ID node) healthy (hc_unhealthyThreshold h) deadThreshold (during rg) of
           (transition, rg') \<Rightarrow>
             ((case transition of
                 None \<Rightarrow> []
               | Some t \<Rightarrow> if tr_NewState t = StateHealthy then [Healthy node]
                           else if tr_NewState t = StateUnhealthy then [Unhealthy node] else []), rg'))"

definition nodes_to_check :: "(string set \<Rightarrow> string list) \<Rightarrow> 's registry \<Rightarrow> 's node list" where
  "nodes_to_check order rg =
     filter (\<lambda>n. case Local rg of None \<Rightarrow> True | Some l \<Rightarrow> nd_ID n \<noteq> nd_ID l) (GetAll order rg)"

text \<open>One tick: the checks of the nodes in the order in which their goroutines run.\<close>

definition checkAllNodes ::
  "health_checker \<Rightarrow> (string set \<Rightarrow> string list) \<Rightarrow> (string \<Rightarrow> int) \<Rightarrow> 's registry \<Rightarrow> 's notification list \<times> 's registry" where
  "checkAllNodes h order clock rg =
     fold (\<lambda>n (ns, r). case checkNode h False (clock (nd_ID n)) (\<lambda>r. r) n r of (ns', r') \<Rightarrow> (ns @ ns', r'))
       (nodes_to_check order rg) ([], rg)"

definition CheckNow :: "health_checker \<Rightarrow> int \<Rightarrow> string \<Rightarrow> 's registry \<Rightarrow> bool" where
  "CheckNow h now i rg = (registry_Get i rg \<noteq> None \<and> performHealthCheck h False now i rg)"

lemma checker_restart_panics:
  "health_Stop (snd (health_Start (the (health_Stop (snd (health_Start (NewHealthChecker i t u w))))))) = None"
  by (simp add: health_Start_def health_Stop_def NewHealthChecker_def)

section \<open>A node under observation\<close>

text \<open>
  What happens to one node in the registry of another: a heartbeat with the state the node reports,
  or a check.
\<close>

datatype observation = Beat int string | Check int

fun observe :: "health_checker \<Rightarrow> 's \<Rightarrow> string \<Rightarrow> observation \<Rightarrow> 's registry \<Rightarrow> 's registry" where
  "observe h stats i (Beat t s) rg = registry_UpdateNodeState t i s (snd (RecordHeartbeat t i stats rg))"
| "observe h stats i (Check t) rg =
     (case registry_Get i rg of None \<Rightarrow> rg | Some n \<Rightarrow> snd (checkNode h False t (\<lambda>r. r) n rg))"

definition observe_all :: "health_checker \<Rightarrow> 's \<Rightarrow> string \<Rightarrow> observation list \<Rightarrow> 's registry \<Rightarrow> 's registry" where
  "observe_all h stats i = fold (observe h stats i)"

lemma observe_ok: "registry_ok rg \<Longrightarrow> registry_ok (observe h stats i ob rg)"
proof (cases ob)
  case (Beat t s)
  then show "registry_ok rg \<Longrightarrow> ?thesis"
    by (simp add: registry_UpdateNodeState_def RecordHeartbeat_def on_node_ok UpdateState_def node_RecordHeartbeat_def Let_def)
next
  case (Check t)
  have "nd_ID (snd (ProcessHealthCheckResult t b u d n)) = nd_ID n" for b u d and n :: "'a node"
    using identity_of_eq [OF identity_kept(7)] by blast
  then show "registry_ok rg \<Longrightarrow> ?thesis"
    using Check by (auto simp: checkNode_def ProcessHealthCheck_def Let_def on_node_ok split: option.split prod.split)
qed

text \<open>The same on the node alone.\<close>

fun observe_node :: "health_checker \<Rightarrow> 's \<Rightarrow> observation \<Rightarrow> 's node \<Rightarrow> 's node" where
  "observe_node h stats (Beat t s) n = UpdateState t s (node_RecordHeartbeat t stats n)"
| "observe_node h stats (Check t) n =
     snd (ProcessHealthCheckResult t (case nd_LastHeartbeat n of None \<Rightarrow> False | Some u \<Rightarrow> t - u < 3 * hc_checkInterval h)
            (hc_unhealthyThreshold h) (hc_unhealthyThreshold h * 2) n)"

lemma observe_Get:
  assumes "registry_ok rg" "registry_Get i rg = Some n"
  shows "registry_Get i (observe h stats i ob rg) = Some (observe_node h stats ob n)"
proof (cases ob)
  case (Beat t s)
  have "registry_ok (on_node i (node_RecordHeartbeat t stats) rg)"
    by (rule on_node_ok [OF assms(1)]) (simp add: node_RecordHeartbeat_def Let_def)
  then show ?thesis
    using assms Beat by (simp add: registry_UpdateNodeState_def RecordHeartbeat_def Get_on_node)
next
  case (Check t)
  have "nd_ID n = i" using Get_id assms by blast
  then show ?thesis using assms Check
    by (simp add: checkNode_def performHealthCheck_def ProcessHealthCheck_def GetLastHeartbeat_def Get_on_node Let_def)
qed

lemma observe_all_Get:
  "\<lbrakk>registry_ok rg; registry_Get i rg = Some n\<rbrakk> \<Longrightarrow>
    registry_Get i (observe_all h stats i obs rg) = Some (fold (observe_node h stats) obs n)"
proof (induction obs arbitrary: rg n)
  case (Cons ob obs)
  show ?case unfolding observe_all_def fold.simps comp_apply
    using Cons.IH [OF observe_ok [OF Cons.prems(1)] observe_Get [OF Cons.prems], unfolded observe_all_def] .
qed (simp add: observe_all_def)

text \<open>Checks of a node that has fallen silent.\<close>

definition silent_state :: "int \<Rightarrow> int \<Rightarrow> string" where
  "silent_state u k = (if k < u then StateHealthy else if k < 2 * u then StateUnhealthy else StateDead)"

lemma silent_check:
  assumes "nd_LastHeartbeat n = Some t0" "t0 + 3 * hc_checkInterval h \<le> t" "0 < hc_unhealthyThreshold h" "0 \<le> k"
    "nd_FailedChecks n = k" "nd_State n = silent_state (hc_unhealthyThreshold h) k"
  shows "let n' = observe_node h stats (Check t) n
    in nd_LastHeartbeat n' = Some t0 \<and> nd_FailedChecks n' = k + 1 \<and> nd_State n' = silent_state (hc_unhealthyThreshold h) (k + 1)"
  using assms by (auto simp: silent_state_def ProcessHealthCheckResult_def Let_def)

lemma silent_checks:
  assumes "0 < hc_unhealthyThreshold h"
  shows "\<lbrakk>nd_LastHeartbeat n = Some t0; list_all (\<lambda>t. t0 + 3 * hc_checkInterval h \<le> t) ts; 0 \<le> k;
     nd_FailedChecks n = k; nd_State n = silent_state (hc_unhealthyThreshold h) k\<rbrakk> \<Longrightarrow>
    nd_State (fold (observe_node h stats) (map Check ts) n) = silent_state (hc_unhealthyThreshold h) (k + int (length ts))"
proof (induction ts arbitrary: n k)
  case (Cons t ts)
  note s = silent_check [OF Cons.prems(1) _ assms Cons.prems(3,4,5), of t stats, unfolded Let_def]
  show ?case using Cons.IH [of "observe_node h stats (Check t) n" "k + 1"] s Cons.prems by (simp add: algebra_simps)
qed simp

text \<open>Every check comes less than three intervals after a heartbeat, which reports a healthy node.\<close>

fun heard_in_time :: "health_checker \<Rightarrow> int \<Rightarrow> observation list \<Rightarrow> bool" where
  "heard_in_time h seen [] = True"
| "heard_in_time h seen (Beat t s # obs) \<longleftrightarrow> s = StateHealthy \<and> heard_in_time h t obs"
| "heard_in_time h seen (Check t # obs) \<longleftrightarrow> t - seen < 3 * hc_checkInterval h \<and> heard_in_time h seen obs"

lemma timely_healthy:
  "\<lbrakk>heard_in_time h seen obs; nd_LastHeartbeat n = Some seen; nd_State n = StateHealthy\<rbrakk> \<Longrightarrow>
    nd_State (fold (observe_node h stats) obs n) = StateHealthy"
proof (induction h seen obs arbitrary: n rule: heard_in_time.induct)
  case (2 h seen t s obs)
  then show ?case by (simp add: UpdateState_def node_RecordHeartbeat_def Let_def)
next
  case (3 h seen t obs)
  then show ?case by (simp add: ProcessHealthCheckResult_def Let_def)
qed simp

text \<open>
  C27. The health checker is a failure detector.  A healthy node whose heartbeats stop is still called
  healthy while fewer checks than the threshold have found it silent for three intervals, unhealthy
  from the threshold on, and dead from twice the threshold on; and a node that is never silent that
  long, and reports itself healthy, is never called anything else.
\<close>

theorem failure_detector:
  assumes "registry_ok rg" "registry_Get i rg = Some n" "nd_State n = StateHealthy" "nd_LastHeartbeat n = Some t0"
  shows "(0 < hc_unhealthyThreshold h \<and> nd_FailedChecks n = 0 \<and> list_all (\<lambda>t. t0 + 3 * hc_checkInterval h \<le> t) ts \<longrightarrow>
      map_option nd_State (registry_Get i (observe_all h stats i (map Check ts) rg)) =
        Some (if int (length ts) < hc_unhealthyThreshold h then StateHealthy
              else if int (length ts) < 2 * hc_unhealthyThreshold h then StateUnhealthy else StateDead)) \<and>
    (heard_in_time h t0 obs \<longrightarrow> map_option nd_State (registry_Get i (observe_all h stats i obs rg)) = Some StateHealthy)"
proof (intro conjI impI)
  assume "0 < hc_unhealthyThreshold h \<and> nd_FailedChecks n = 0 \<and> list_all (\<lambda>t. t0 + 3 * hc_checkInterval h \<le> t) ts"
  then show "map_option nd_State (registry_Get i (observe_all h stats i (map Check ts) rg)) =
        Some (if int (length ts) < hc_unhealthyThreshold h then StateHealthy
              else if int (length ts) < 2 * hc_unhealthyThreshold h then StateUnhealthy else StateDead)"
    using silent_checks [of h n t0 ts 0 stats] assms(3,4) observe_all_Get [OF assms(1,2)] by (simp add: silent_state_def)
next
  assume "heard_in_time h t0 obs"
  then show "map_option nd_State (registry_Get i (observe_all h stats i obs rg)) = Some StateHealthy"
    using timely_healthy assms(3,4) observe_all_Get [OF assms(1,2)] by simp
qed

definition example_member :: "string \<Rightarrow> string \<Rightarrow> unit node" where
  "example_member i role = UpdateState 0 StateHealthy (NewNode () 0 i i role ''c'')"

definition example_registry :: "unit registry" where
  "example_registry =
     snd (RecordHeartbeat 7 ''b'' () (snd (snd (Register (example_member ''b'' RoleWriter) (NewRegistry (Some (example_member ''a'' RoleWriter)) 0)))))"

lemma example_registry_Get:
  "registry_ok example_registry"
  "registry_Get ''b'' example_registry = Some (node_RecordHeartbeat 7 () (example_member ''b'' RoleWriter))"
proof -
  let ?rg = "snd (snd (Register (example_member ''b'' RoleWriter) (NewRegistry (Some (example_member ''a'' RoleWriter)) 0)))"
  have ok: "registry_ok ?rg" by (intro Register_ok NewRegistry_ok)
  have id: "nd_ID (example_member i r) = i" for i r
    by (simp add: example_member_def UpdateState_def NewNode_def Let_def)
  have "fst (Register (example_member ''b'' RoleWriter) (NewRegistry (Some (example_member ''a'' RoleWriter)) 0)) = None"
    by (simp add: Register_def NewRegistry_def DefaultMaxNodes_def id)
  then have "registry_Get ''b'' ?rg = Some (example_member ''b'' RoleWriter)"
    by (simp add: Get_Register NewRegistry_ok id)
  then show "registry_ok example_registry"
    "registry_Get ''b'' example_registry = Some (node_RecordHeartbeat 7 () (example_member ''b'' RoleWriter))"
    using ok by (simp_all add: example_registry_def RecordHeartbeat_def on_node_ok Get_on_node node_RecordHeartbeat_def Let_def)
qed

definition example_checker :: health_checker where
  "example_checker = NewHealthChecker 0 0 0 False"

theorem failure_detector_witness:
  "map_option nd_State (registry_Get ''b'' (observe_all example_checker () ''b'' (map Check [15000000007, 20000000007, 25000000007]) example_registry)) = Some StateUnhealthy \<and>
   map_option nd_State (registry_Get ''b'' (observe_all example_checker () ''b'' [Check 5000000000, Beat 6000000000 StateHealthy, Check 10000000000] example_registry)) = Some StateHealthy"
proof -
  have n: "nd_State (node_RecordHeartbeat 7 () (example_member ''b'' RoleWriter)) = StateHealthy"
    "nd_LastHeartbeat (node_RecordHeartbeat 7 () (example_member ''b'' RoleWriter)) = Some 7"
    "nd_FailedChecks (node_RecordHeartbeat 7 () (example_member ''b'' RoleWriter)) = 0"
    by (simp_all add: node_RecordHeartbeat_def example_member_def UpdateState_def NewNode_def Let_def)
  have h: "hc_unhealthyThreshold example_checker = 3" "hc_checkInterval example_checker = 5000000000"
    by (simp_all add: example_checker_def NewHealthChecker_def)
  note d = failure_detector [OF example_registry_Get n(1,2)]
  show ?thesis
    using d [of example_checker "[15000000007, 20000000007, 25000000007]" "()"
        "[Check 5000000000, Beat 6000000000 StateHealthy, Check 10000000000]"] n(3) h
    by simp
qed

end
