(* ===== verification/Cluster_Sync.thy ===== *)
theory Cluster_Sync
  imports Cluster_Health
begin

text \<open>
  How the coordinator keeps its registry in step with the cluster: messages of peers and the
  callbacks of the state machine (\<^verbatim>\<open>internal/cluster/coordinator.go\<close>), and which node takes itself
  for the primary writer.
\<close>

section \<open>Messages of peers\<close>

record coordinator_config =
  cc_SharedSecret :: string
  cc_ClusterName :: string
  cc_SharedStorageMode :: bool
  cc_WriterFailover :: bool

record peer_message =
  sg_NodeID :: string
  sg_Nonce :: string
  sg_Timestamp :: int64
  sg_HMAC :: string

text \<open>The check with which the handlers begin; nothing is checked without a secret.\<close>

definition peer_authentic :: "crypto \<Rightarrow> coordinator_config \<Rightarrow> msg_type \<Rightarrow> int \<Rightarrow> peer_message \<Rightarrow> bool" where
  "peer_authentic K cfg ty clock m \<longleftrightarrow>
     cc_SharedSecret cfg = [] \<or>
     (sg_HMAC m \<noteq> [] \<and>
      ValidateHMAC K (cc_SharedSecret cfg) ty (sg_Nonce m) (sg_NodeID m) (cc_ClusterName cfg) (sg_Timestamp m) (sg_HMAC m)
        HMACTimestampTolerance clock = None)"

text \<open>Returns whether the heartbeat was acknowledged.\<close>

definition handleHeartbeat ::
  "crypto \<Rightarrow> coordinator_config \<Rightarrow> 's \<Rightarrow> int \<Rightarrow> int \<Rightarrow> int \<Rightarrow> peer_message \<Rightarrow> string \<Rightarrow> 's registry \<Rightarrow> bool \<times> 's registry" where
  "handleHeartbeat K cfg zero_stats t0 t1 t2 m state rg =
     (if \<not> peer_authentic K cfg MsgTypeHeartbeat t0 m then (False, rg)
      else (True, registry_UpdateNodeState t2 (sg_NodeID m) state (snd (RecordHeartbeat t1 (sg_NodeID m) zero_stats rg))))"

text \<open>Returns the commands it proposes as the leader, and the notifications of the registry.\<close>

definition handleLeaveNotify ::
  "crypto \<Rightarrow> coordinator_config \<Rightarrow> bool \<Rightarrow> int \<Rightarrow> peer_message \<Rightarrow> 's registry \<Rightarrow> command list \<times> 's notification list \<times> 's registry" where
  "handleLeaveNotify K cfg leader t0 m rg =
     (if \<not> peer_authentic K cfg MsgTypeLeave t0 m then ([], [], rg)
      else (if leader then [RemoveNode (Some (sg_NodeID m))] else [], Unregister (sg_NodeID m) rg))"

record join_request =
  jr_NodeID :: string
  jr_NodeName :: string
  jr_Role :: string
  jr_ClusterName :: string
  jr_APIAddr :: string
  jr_CoordAddr :: string
  jr_Version :: string
  jr_CoreCount :: int
  jr_Nonce :: string
  jr_Timestamp :: int64
  jr_HMAC :: string

record license =
  li_MaxCores :: int

datatype join_reply = JoinError string | JoinRedirect | JoinSuccess

text \<open>The licence: no client, no licence yet, or a licence.\<close>

definition validateCoreLimitForJoin :: "ranges \<Rightarrow> license option option \<Rightarrow> fsm option \<Rightarrow> string \<Rightarrow> int \<Rightarrow> string option" where
  "validateCoreLimitForJoin R client raftFSM nodeID coreCount =
     (case client of
        None \<Rightarrow> None
      | Some None \<Rightarrow> Some ''license required''
      | Some (Some lic) \<Rightarrow>
          if li_MaxCores lic = 0 then None
          else let currentTotal = (case raftFSM of
                      None \<Rightarrow> 0
                    | Some f \<Rightarrow> TotalCores R f - (case GetNode nodeID f of None \<Rightarrow> 0 | Some n \<Rightarrow> n_CoreCount n))
               in if li_MaxCores lic < currentTotal + coreCount then Some ''core limit exceeded'' else None)"

text \<open>
  \<open>leader\<close> is \<open>None\<close> without Raft; \<open>voter\<close> whether Raft takes the node as a voter.  What the clock
  shows is given for the check and for the new node.
\<close>

definition handleJoinRequest ::
  "crypto \<Rightarrow> ranges \<Rightarrow> coordinator_config \<Rightarrow> license option option \<Rightarrow> fsm option \<Rightarrow> bool option \<Rightarrow> bool \<Rightarrow> 's \<Rightarrow> int \<Rightarrow> int \<Rightarrow>
   join_request \<Rightarrow> 's registry \<Rightarrow> join_reply \<times> command list \<times> 's notification list \<times> 's registry" where
  "handleJoinRequest K R cfg client raftFSM leader voter zero_stats t0 t1 req rg =
     (if jr_ClusterName req \<noteq> cc_ClusterName cfg then (JoinError ''cluster name mismatch'', [], [], rg)
      else if cc_SharedSecret cfg \<noteq> [] \<and> jr_HMAC req = [] then (JoinError ''shared secret authentication required'', [], [], rg)
      else if cc_SharedSecret cfg \<noteq> [] \<and>
              ValidateHMAC K (cc_SharedSecret cfg) MsgTypeJoin (jr_Nonce req) (jr_NodeID req) (jr_ClusterName req)
                (jr_Timestamp req) (jr_HMAC req) HMACTimestampTolerance t0 \<noteq> None
      then (JoinError ''authentication failed: invalid shared secret'', [], [], rg)
      else if leader = Some False then (JoinRedirect, [], [], rg)
      else case validateCoreLimitForJoin R client raftFSM (jr_NodeID req) (jr_CoreCount req) of
             Some e \<Rightarrow> (JoinError e, [], [], rg)
           | None \<Rightarrow>
               (case leader of
                  Some _ \<Rightarrow>
                    if \<not> voter then (JoinError ''failed to add to Raft cluster'', [], [], rg)
                    else (JoinSuccess,
                          [AddNode (Some \<lparr>n_ID = jr_NodeID req, n_Name = jr_NodeName req, n_Role = jr_Role req,
                             n_ClusterName = jr_ClusterName req, n_Address = jr_CoordAddr req, n_APIAddress = jr_APIAddr req,
                             n_State = StateHealthy, n_Version = jr_Version req, n_WriterState = [],
                             n_CoreCount = jr_CoreCount req\<rparr>)], [], rg)
                | None \<Rightarrow>
                    let node = UpdateState t1 StateHealthy (SetVersion (jr_Version req) (SetAddresses (jr_CoordAddr req) (jr_APIAddr req)
                          (NewNode zero_stats t1 (jr_NodeID req) (jr_NodeName req) (ParseRole (jr_Role req)) (jr_ClusterName req))))
                    in (case Register node rg of
                          (Some _, ns, rg') \<Rightarrow> (JoinError ''failed to register node'', [], ns, rg')
                        | (None, ns, rg') \<Rightarrow> (JoinSuccess, [], ns, rg'))))"

record peer_info =
  pi_ID :: string
  pi_Name :: string
  pi_Role :: string
  pi_State :: string
  pi_APIAddr :: string
  pi_CoordAddr :: string

definition node_of_peer :: "'s \<Rightarrow> int \<Rightarrow> string \<Rightarrow> peer_info \<Rightarrow> 's node" where
  "node_of_peer zero_stats now clusterName p =
     UpdateState now (pi_State p) (SetAddresses (pi_CoordAddr p) (pi_APIAddr p)
       (NewNode zero_stats now (pi_ID p) (pi_Name p) (ParseRole (pi_Role p)) clusterName))"

text \<open>A successful answer to a join request: the peers are registered, the node itself is healthy.\<close>

definition accept_join :: "'s \<Rightarrow> int \<Rightarrow> string \<Rightarrow> peer_info list \<Rightarrow> 's registry \<Rightarrow> 's registry" where
  "accept_join zero_stats now clusterName peers rg =
     on_local (UpdateState now StateHealthy)
       (fold (\<lambda>p r. snd (snd (Register (node_of_peer zero_stats now clusterName p) r))) peers rg)"

section \<open>Callbacks of the state machine\<close>

definition node_of_info :: "'s \<Rightarrow> int \<Rightarrow> node_info \<Rightarrow> 's node" where
  "node_of_info zero_stats now n =
     UpdateState now (n_State n) (SetVersion (n_Version n) (SetAddresses (n_Address n) (n_APIAddress n)
       (NewNode zero_stats now (n_ID n) (n_Name n) (ParseRole (n_Role n)) (n_ClusterName n))))"

definition onRaftNodeAdded :: "'s \<Rightarrow> int \<Rightarrow> node_info \<Rightarrow> 's registry \<Rightarrow> 's registry" where
  "onRaftNodeAdded zero_stats now n rg = snd (snd (Register (node_of_info zero_stats now n) rg))"

definition onRaftNodeRemoved :: "string \<Rightarrow> 's registry \<Rightarrow> 's registry" where
  "onRaftNodeRemoved i rg = snd (Unregister i rg)"

definition onRaftNodeUpdated :: "'s \<Rightarrow> int \<Rightarrow> node_info \<Rightarrow> 's registry \<Rightarrow> 's registry" where
  "onRaftNodeUpdated zero_stats now n rg =
     (case registry_Get (n_ID n) rg of
        None \<Rightarrow> onRaftNodeAdded zero_stats now n rg
      | Some node \<Rightarrow> snd (snd (Register (UpdateState now (n_State n) node) rg)))"

definition set_writer :: "string \<Rightarrow> string \<Rightarrow> 's registry \<Rightarrow> 's registry" where
  "set_writer i ws rg =
     (case registry_Get i rg of None \<Rightarrow> rg | Some node \<Rightarrow> snd (snd (Register (SetWriterState ws node) rg)))"

definition onWriterPromoted :: "string \<Rightarrow> string \<Rightarrow> 's registry \<Rightarrow> 's registry" where
  "onWriterPromoted newPrimaryID oldPrimaryID rg =
     set_writer newPrimaryID WriterStatePrimary
       (if oldPrimaryID \<noteq> [] then set_writer oldPrimaryID WriterStateStandby rg else rg)"

datatype compaction_hook = BecomeCompactor | LoseCompactor

definition onCompactorAssigned :: "string \<Rightarrow> string \<Rightarrow> string \<Rightarrow> compaction_hook list" where
  "onCompactorAssigned localID newCompactorID oldCompactorID =
     (if newCompactorID = localID \<and> oldCompactorID \<noteq> localID then [BecomeCompactor] else []) @
     (if oldCompactorID = localID \<and> newCompactorID \<noteq> localID then [LoseCompactor] else [])"

definition IsActiveCompactor :: "fsm option \<Rightarrow> string \<Rightarrow> bool" where
  "IsActiveCompactor raftFSM localID = (case raftFSM of None \<Rightarrow> False | Some f \<Rightarrow> GetActiveCompactorID f = localID)"

text \<open>What the coordinator does with the events of an applied command.\<close>

fun on_event :: "'s \<Rightarrow> int \<Rightarrow> event \<Rightarrow> 's registry \<Rightarrow> 's registry" where
  "on_event z now (NodeAdded n) rg = onRaftNodeAdded z now n rg"
| "on_event z now (NodeRemoved i) rg = onRaftNodeRemoved i rg"
| "on_event z now (NodeUpdated n) rg = onRaftNodeUpdated z now n rg"
| "on_event z now (WriterPromoted p q) rg = onWriterPromoted p q rg"
| "on_event z now _ rg = rg"

definition on_events :: "'s \<Rightarrow> int \<Rightarrow> event list \<Rightarrow> 's registry \<Rightarrow> 's registry" where
  "on_events z now es rg = fold (on_event z now) es rg"

text \<open>The singleton gate of the schedulers; \<open>leader\<close> as above.\<close>

definition IsPrimaryWriter :: "coordinator_config \<Rightarrow> bool option \<Rightarrow> 's registry \<Rightarrow> bool" where
  "IsPrimaryWriter cfg leader rg =
     (if cc_SharedStorageMode cfg
      then leader = Some True \<and> (case Local rg of None \<Rightarrow> False | Some n \<Rightarrow> nd_Role n = RoleWriter)
      else case Local rg of
             None \<Rightarrow> False
           | Some n \<Rightarrow> if \<not> cc_WriterFailover cfg then nd_Role n = RoleWriter else node_IsPrimaryWriter n)"

section \<open>What they keep\<close>

lemma UpdateState_ID [simp]: "nd_ID (UpdateState t s n) = nd_ID n"
  by (simp add: UpdateState_def Let_def)

lemma on_event_ok: "registry_ok rg \<Longrightarrow> registry_ok (on_event z now ev rg)"
  by (cases ev)
    (auto simp: onRaftNodeAdded_def onRaftNodeRemoved_def onRaftNodeUpdated_def onWriterPromoted_def set_writer_def
      Register_ok Unregister_ok split: option.split)

lemma on_events_ok: "registry_ok rg \<Longrightarrow> registry_ok (on_events z now es rg)"
  by (induction es arbitrary: rg) (simp_all add: on_events_def on_event_ok)

lemma handleHeartbeat_ok: "registry_ok rg \<Longrightarrow> registry_ok (snd (handleHeartbeat K cfg z t0 t1 t2 m s rg))"
  by (simp add: handleHeartbeat_def registry_UpdateNodeState_def RecordHeartbeat_def on_node_ok node_RecordHeartbeat_def Let_def)

text \<open>
  None of these ever sets a node to primary, except \<open>onWriterPromoted\<close>, and that one writes only to
  copies, never to the object of the local node.
\<close>

definition no_primary :: "'s registry \<Rightarrow> bool" where
  "no_primary rg \<longleftrightarrow> list_all (\<lambda>n. nd_WriterSt n = WriterStateNone) (rg_heap rg)"

definition local_unaware :: "'s registry \<Rightarrow> bool" where
  "local_unaware rg \<longleftrightarrow>
     (case rg_localNode rg of None \<Rightarrow> True
      | Some p \<Rightarrow> p < length (rg_heap rg) \<and> nd_WriterSt (rg_heap rg ! p) = WriterStateNone)"

lemma WriterSt_kept [simp]:
  "nd_WriterSt (UpdateState t s n) = nd_WriterSt n"
  "nd_WriterSt (node_RecordHeartbeat t x n) = nd_WriterSt n"
  "nd_WriterSt (SetAddresses a b n) = nd_WriterSt n"
  "nd_WriterSt (SetVersion v n) = nd_WriterSt n"
  "nd_WriterSt (MarkJoined t n) = nd_WriterSt n"
  "nd_WriterSt (snd (ProcessHealthCheckResult t h u d n)) = nd_WriterSt n"
  "nd_WriterSt (NewNode z t i nm role c) = WriterStateNone"
  by (simp_all add: UpdateState_def node_RecordHeartbeat_def SetAddresses_def SetVersion_def MarkJoined_def
      ProcessHealthCheckResult_def NewNode_def Let_def)

lemma no_primary_Register: "\<lbrakk>no_primary rg; nd_WriterSt n = WriterStateNone\<rbrakk> \<Longrightarrow> no_primary (snd (snd (Register n rg)))"
  by (simp add: no_primary_def Register_def Let_def)

lemma no_primary_Get: "\<lbrakk>no_primary rg; registry_ok rg; registry_Get i rg = Some n\<rbrakk> \<Longrightarrow> nd_WriterSt n = WriterStateNone"
  using registry_okD(2) by (fastforce simp: no_primary_def registry_Get_def list_all_length)

lemma no_primary_pointer:
  "\<lbrakk>no_primary rg; \<And>n. nd_WriterSt (g n) = nd_WriterSt n\<rbrakk> \<Longrightarrow> no_primary (rg\<lparr>rg_heap := (rg_heap rg)[p := g (rg_heap rg ! p)]\<rparr>)"
  by (cases "p < length (rg_heap rg)") (auto simp: no_primary_def list_all_length nth_list_update)

lemma no_primary_on_node: "\<lbrakk>no_primary rg; \<And>n. nd_WriterSt (g n) = nd_WriterSt n\<rbrakk> \<Longrightarrow> no_primary (on_node i g rg)"
  by (simp add: on_node_def no_primary_pointer split: option.split)

lemma no_primary_on_local: "\<lbrakk>no_primary rg; \<And>n. nd_WriterSt (g n) = nd_WriterSt n\<rbrakk> \<Longrightarrow> no_primary (on_local g rg)"
  by (simp add: on_local_def no_primary_pointer split: option.split)

lemma no_primary_Unregister: "no_primary rg \<Longrightarrow> no_primary (snd (Unregister i rg))"
  by (simp add: no_primary_def Unregister_def split: option.split)

lemma unaware_Register: "local_unaware rg \<Longrightarrow> local_unaware (snd (snd (Register n rg)))"
  by (auto simp: local_unaware_def Register_def Let_def nth_append split: option.splits)

lemma unaware_pointer:
  "\<lbrakk>local_unaware rg; \<And>n. nd_WriterSt (g n) = nd_WriterSt n\<rbrakk> \<Longrightarrow> local_unaware (rg\<lparr>rg_heap := (rg_heap rg)[p := g (rg_heap rg ! p)]\<rparr>)"
  by (cases "p < length (rg_heap rg)") (auto simp: local_unaware_def nth_list_update split: option.splits)

lemma unaware_on_node: "\<lbrakk>local_unaware rg; \<And>n. nd_WriterSt (g n) = nd_WriterSt n\<rbrakk> \<Longrightarrow> local_unaware (on_node i g rg)"
  by (simp add: on_node_def unaware_pointer split: option.split)

lemma unaware_on_local: "\<lbrakk>local_unaware rg; \<And>n. nd_WriterSt (g n) = nd_WriterSt n\<rbrakk> \<Longrightarrow> local_unaware (on_local g rg)"
  by (simp add: on_local_def unaware_pointer split: option.split)

lemma unaware_Unregister: "local_unaware rg \<Longrightarrow> local_unaware (snd (Unregister i rg))"
  by (cases "registry_Get i rg") (simp_all add: local_unaware_def Unregister_def split: option.splits)

lemma unaware_on_events: "local_unaware rg \<Longrightarrow> local_unaware (on_events z now es rg)"
proof (induction es arbitrary: rg)
  case (Cons ev es)
  have "local_unaware (on_event z now ev rg)" using Cons.prems
    by (cases ev)
      (auto simp: onRaftNodeAdded_def onRaftNodeRemoved_def onRaftNodeUpdated_def onWriterPromoted_def set_writer_def
        unaware_Register unaware_Unregister split: option.split)
  then show ?case using Cons.IH by (simp add: on_events_def)
qed (simp add: on_events_def)

lemma no_primary_on_events:
  "\<lbrakk>no_primary rg; registry_ok rg; \<forall>p q. WriterPromoted p q \<notin> set es\<rbrakk> \<Longrightarrow> no_primary (on_events z now es rg)"
proof (induction es arbitrary: rg)
  case (Cons ev es)
  have "no_primary (on_event z now ev rg)"
  proof (cases ev)
    case (NodeUpdated n)
    then show ?thesis using Cons.prems(1,2)
      by (auto simp: onRaftNodeUpdated_def onRaftNodeAdded_def node_of_info_def no_primary_Register no_primary_Get
          intro: no_primary_Register split: option.split)
  qed (use Cons.prems in \<open>auto simp: onRaftNodeAdded_def onRaftNodeRemoved_def node_of_info_def no_primary_Register no_primary_Unregister\<close>)
  then show ?case using Cons.IH on_event_ok [OF Cons.prems(2)] Cons.prems(3) by (simp add: on_events_def)
qed (simp add: on_events_def)

lemma unaware_not_primary: "\<lbrakk>local_unaware rg; cc_WriterFailover cfg; \<not> cc_SharedStorageMode cfg\<rbrakk> \<Longrightarrow> \<not> IsPrimaryWriter cfg leader rg"
  by (auto simp: IsPrimaryWriter_def Local_def local_unaware_def node_IsPrimaryWriter_def split: option.splits)

end
