(* ===== verification/Cluster_Failover.thy ===== *)
theory Cluster_Failover
  imports Cluster_Sync
begin

text \<open>
  The failover managers of the writer and of the compactor
  (\<^verbatim>\<open>internal/cluster/writer_failover.go\<close>, \<^verbatim>\<open>compactor_failover.go\<close>), which act on the leader only.
  The goroutine of a failover is a task with three phases: choose, propose to Raft, complete.
\<close>

section \<open>What both managers share\<close>

record failover_config =
  fc_HealthCheckInterval :: int
  fc_FailoverTimeout :: int
  fc_CooldownPeriod :: int
  fc_UnhealthyThreshold :: int

definition failover_defaults :: "int \<Rightarrow> failover_config \<Rightarrow> failover_config" where
  "failover_defaults interval c =
     \<lparr>fc_HealthCheckInterval = (if fc_HealthCheckInterval c = 0 then interval else fc_HealthCheckInterval c),
      fc_FailoverTimeout = (if fc_FailoverTimeout c = 0 then 30 * 1000000000 else fc_FailoverTimeout c),
      fc_CooldownPeriod = (if fc_CooldownPeriod c = 0 then 60 * 1000000000 else fc_CooldownPeriod c),
      fc_UnhealthyThreshold = (if fc_UnhealthyThreshold c = 0 then 3 else fc_UnhealthyThreshold c)\<rparr>"

record failover =
  fo_consecutiveFails :: int
  fo_failoverInProg :: bool
  fo_lastFailoverAt :: gotime

record writer_failover = failover +
  fo_primaryID :: string

definition NewWriterFailoverManager :: "failover_config \<Rightarrow> failover_config \<times> writer_failover" where
  "NewWriterFailoverManager c =
     (failover_defaults (5 * 1000000000) c,
      \<lparr>fo_consecutiveFails = 0, fo_failoverInProg = False, fo_lastFailoverAt = None, fo_primaryID = []\<rparr>)"

definition NewCompactorFailoverManager :: "failover_config \<Rightarrow> failover_config \<times> failover" where
  "NewCompactorFailoverManager c =
     (failover_defaults (10 * 1000000000) c, \<lparr>fo_consecutiveFails = 0, fo_failoverInProg = False, fo_lastFailoverAt = None\<rparr>)"

definition cooling :: "failover_config \<Rightarrow> int \<Rightarrow> 'a failover_scheme \<Rightarrow> bool" where
  "cooling cfg now m = (case fo_lastFailoverAt m of None \<Rightarrow> False | Some t \<Rightarrow> now - t < fc_CooldownPeriod cfg)"

definition go_first :: "string \<Rightarrow> 's node list \<Rightarrow> string option" where
  "go_first exclude ns = map_option nd_ID (List.find (\<lambda>n. nd_ID n \<noteq> exclude) ns)"

section \<open>The writer\<close>

text \<open>The result is the old primary of the failover that starts, if one does.\<close>

definition writer_triggerFailoverLocked :: "failover_config \<Rightarrow> int \<Rightarrow> writer_failover \<Rightarrow> string option \<times> writer_failover" where
  "writer_triggerFailoverLocked cfg now m =
     (if cooling cfg now m then (None, m) else (Some (fo_primaryID m), m\<lparr>fo_failoverInProg := True\<rparr>))"

definition count_fail :: "failover_config \<Rightarrow> int \<Rightarrow> writer_failover \<Rightarrow> string option \<times> writer_failover" where
  "count_fail cfg now m =
     (let m' = m\<lparr>fo_consecutiveFails := fo_consecutiveFails m + 1\<rparr>
      in if fc_UnhealthyThreshold cfg \<le> fo_consecutiveFails m' then writer_triggerFailoverLocked cfg now m' else (None, m'))"

definition checkPrimaryHealth ::
  "failover_config \<Rightarrow> (string set \<Rightarrow> string list) \<Rightarrow> bool \<Rightarrow> int \<Rightarrow> 's registry \<Rightarrow> writer_failover \<Rightarrow> string option \<times> writer_failover" where
  "checkPrimaryHealth cfg order leader now rg m =
     (if \<not> leader \<or> fo_failoverInProg m then (None, m)
      else case GetPrimaryWriter order rg of
             None \<Rightarrow> if GetWriters order rg \<noteq> [] \<and> fo_primaryID m \<noteq> [] then count_fail cfg now m else (None, m)
           | Some primary \<Rightarrow> (None, m\<lparr>fo_primaryID := nd_ID primary, fo_consecutiveFails := 0\<rparr>))"

definition HandleWriterUnhealthy ::
  "failover_config \<Rightarrow> bool \<Rightarrow> int \<Rightarrow> 's node \<Rightarrow> writer_failover \<Rightarrow> string option \<times> writer_failover" where
  "HandleWriterUnhealthy cfg leader now node m =
     (if nd_Role node \<noteq> RoleWriter \<or> \<not> leader \<or> nd_WriterSt node \<noteq> WriterStatePrimary \<or> fo_failoverInProg m then (None, m)
      else count_fail cfg now (m\<lparr>fo_primaryID := nd_ID node\<rparr>))"

definition selectNewPrimary :: "(string set \<Rightarrow> string list) \<Rightarrow> string \<Rightarrow> 's registry \<Rightarrow> string" where
  "selectNewPrimary order exclude rg =
     (case go_first exclude (GetStandbyWriters order rg) of
        Some i \<Rightarrow> i
      | None \<Rightarrow> (case go_first exclude (GetWriters order rg) of Some i \<Rightarrow> i | None \<Rightarrow> []))"

definition writer_completeFailover :: "int \<Rightarrow> string \<Rightarrow> bool \<Rightarrow> writer_failover \<Rightarrow> writer_failover" where
  "writer_completeFailover now newPrimaryID success m =
     (let m' = m\<lparr>fo_failoverInProg := False, fo_lastFailoverAt := Some now\<rparr>
      in if success then m'\<lparr>fo_primaryID := newPrimaryID, fo_consecutiveFails := 0\<rparr> else m')"

text \<open>\<open>executeFailover\<close>: what it proposes, or the end when there is nobody to promote; then its end.\<close>

definition writer_execute ::
  "(string set \<Rightarrow> string list) \<Rightarrow> int \<Rightarrow> 's registry \<Rightarrow> string \<Rightarrow> writer_failover \<Rightarrow> string option \<times> writer_failover" where
  "writer_execute order now rg oldPrimaryID m =
     (let newPrimaryID = selectNewPrimary order oldPrimaryID rg
      in if newPrimaryID = [] then (None, writer_completeFailover now [] False m) else (Some newPrimaryID, m))"

definition promotion :: "string \<Rightarrow> string \<Rightarrow> command" where
  "promotion newPrimaryID oldPrimaryID = PromoteWriter (Some \<lparr>pw_NodeID = newPrimaryID, pw_OldPrimaryID = oldPrimaryID\<rparr>)"

text \<open>Raft's answer, and whether the context ended while the code waited for propagation.\<close>

definition writer_finish :: "int \<Rightarrow> string \<Rightarrow> bool \<Rightarrow> bool \<Rightarrow> writer_failover \<Rightarrow> writer_failover" where
  "writer_finish now newPrimaryID accepted timed_out = writer_completeFailover now newPrimaryID (accepted \<and> \<not> timed_out)"

datatype failover_error = AlreadyInProgress | NoPrimary | NoCompactor

definition writer_TriggerManualFailover ::
  "(string set \<Rightarrow> string list) \<Rightarrow> 's registry \<Rightarrow> writer_failover \<Rightarrow> (failover_error + string) \<times> writer_failover" where
  "writer_TriggerManualFailover order rg m =
     (if fo_failoverInProg m then (Inl AlreadyInProgress, m)
      else case GetPrimaryWriter order rg of
             None \<Rightarrow> (Inl NoPrimary, m)
           | Some p \<Rightarrow> (Inr (nd_ID p), m\<lparr>fo_primaryID := nd_ID p, fo_failoverInProg := True\<rparr>))"

section \<open>The compactor\<close>

definition selectNewCompactor :: "(string set \<Rightarrow> string list) \<Rightarrow> string \<Rightarrow> 's registry \<Rightarrow> string" where
  "selectNewCompactor order exclude rg =
     (case go_first exclude (filter IsHealthy (GetCompactors order rg)) of
        Some i \<Rightarrow> i
      | None \<Rightarrow> (case go_first exclude (filter IsHealthy (GetWriters order rg)) of Some i \<Rightarrow> i | None \<Rightarrow> []))"

definition compactor_triggerFailoverLocked :: "failover_config \<Rightarrow> int \<Rightarrow> failover \<Rightarrow> bool \<times> failover" where
  "compactor_triggerFailoverLocked cfg now m =
     (if cooling cfg now m then (False, m) else (True, m\<lparr>fo_failoverInProg := True\<rparr>))"

datatype compactor_start = NoStart | AssignFirst string | FailoverFrom string

definition tryInitialAssignment :: "(string set \<Rightarrow> string list) \<Rightarrow> 's registry \<Rightarrow> failover \<Rightarrow> compactor_start \<times> failover" where
  "tryInitialAssignment order rg m =
     (let newID = selectNewCompactor order [] rg
      in if newID = [] then (NoStart, m) else (AssignFirst newID, m\<lparr>fo_failoverInProg := True\<rparr>))"

definition checkCompactorHealth ::
  "failover_config \<Rightarrow> (string set \<Rightarrow> string list) \<Rightarrow> bool \<Rightarrow> int \<Rightarrow> fsm \<Rightarrow> 's registry \<Rightarrow> failover \<Rightarrow> compactor_start \<times> failover" where
  "checkCompactorHealth cfg order leader now f rg m =
     (if \<not> leader \<or> fo_failoverInProg m then (NoStart, m)
      else let activeID = GetActiveCompactorID f
           in if activeID = [] then tryInitialAssignment order rg m
              else if (case registry_Get activeID rg of None \<Rightarrow> True | Some n \<Rightarrow> nd_State n \<noteq> StateHealthy)
              then let m' = m\<lparr>fo_consecutiveFails := fo_consecutiveFails m + 1\<rparr>
                   in if fc_UnhealthyThreshold cfg \<le> fo_consecutiveFails m'
                      then (case compactor_triggerFailoverLocked cfg now m' of
                              (True, m2) \<Rightarrow> (FailoverFrom activeID, m2)
                            | (False, m2) \<Rightarrow> (NoStart, m2))
                      else (NoStart, m')
              else (NoStart, m\<lparr>fo_consecutiveFails := 0\<rparr>))"

definition compactor_completeFailover :: "int \<Rightarrow> bool \<Rightarrow> failover \<Rightarrow> failover" where
  "compactor_completeFailover now success m =
     (let m' = m\<lparr>fo_failoverInProg := False\<rparr>
      in if success then m'\<lparr>fo_lastFailoverAt := Some now, fo_consecutiveFails := 0\<rparr> else m')"

definition compactor_execute ::
  "(string set \<Rightarrow> string list) \<Rightarrow> int \<Rightarrow> 's registry \<Rightarrow> string \<Rightarrow> failover \<Rightarrow> string option \<times> failover" where
  "compactor_execute order now rg oldCompactorID m =
     (let newCompactorID = selectNewCompactor order oldCompactorID rg
      in if newCompactorID = [] then (None, compactor_completeFailover now False m) else (Some newCompactorID, m))"

definition assignment :: "string \<Rightarrow> string \<Rightarrow> command" where
  "assignment newID oldID = AssignCompactor (Some \<lparr>ac_NodeID = newID, ac_OldCompactorID = oldID\<rparr>)"

definition compactor_TriggerManualFailover :: "fsm \<Rightarrow> failover \<Rightarrow> (failover_error + string) \<times> failover" where
  "compactor_TriggerManualFailover f m =
     (if fo_failoverInProg m then (Inl AlreadyInProgress, m)
      else if GetActiveCompactorID f = [] then (Inl NoCompactor, m)
      else (Inr (GetActiveCompactorID f), m\<lparr>fo_failoverInProg := True\<rparr>))"

section \<open>Whom they choose\<close>

lemma go_first_Some: "go_first ex ns = Some i \<Longrightarrow> \<exists>n\<in>set ns. nd_ID n = i \<and> i \<noteq> ex"
  by (auto simp: go_first_def find_Some_iff)

lemma go_first_None: "go_first ex ns = None \<longleftrightarrow> (\<forall>n\<in>set ns. nd_ID n = ex)"
  by (auto simp: go_first_def find_None_iff)

text \<open>A node of a kind, healthy and with another name, as the registry shows it.\<close>

definition candidate :: "'s registry \<Rightarrow> string \<Rightarrow> ('s node \<Rightarrow> bool) \<Rightarrow> string \<Rightarrow> bool" where
  "candidate rg exclude kind i \<longleftrightarrow> i \<noteq> exclude \<and> (\<exists>n. registry_Get i rg = Some n \<and> IsHealthy n \<and> kind n)"

abbreviation is_writer :: "'s node \<Rightarrow> bool" where "is_writer n \<equiv> nd_Role n = RoleWriter"
abbreviation is_standby :: "'s node \<Rightarrow> bool" where "is_standby n \<equiv> nd_Role n = RoleWriter \<and> nd_WriterSt n = WriterStateStandby"
abbreviation is_compactor :: "'s node \<Rightarrow> bool" where "is_compactor n \<equiv> nd_Role n = RoleCompactor"

lemma first_candidate:
  assumes "registry_ok rg" "lists_set order" "ns = filterNodes order (\<lambda>n. kind n \<and> IsHealthy n) rg"
  shows "go_first ex ns = Some i \<Longrightarrow> candidate rg ex kind i" and "go_first ex ns = None \<longleftrightarrow> (\<forall>i. \<not> candidate rg ex kind i)"
proof -
  have ns: "set ns = {n. (kind n \<and> IsHealthy n) \<and> registry_Get (nd_ID n) rg = Some n}"
    unfolding assms(3) by (rule filterNodes_set [OF assms(1,2)])
  show "candidate rg ex kind i" if "go_first ex ns = Some i"
    using go_first_Some [OF that] unfolding ns candidate_def by blast
  show "go_first ex ns = None \<longleftrightarrow> (\<forall>i. \<not> candidate rg ex kind i)"
  proof
    assume none: "go_first ex ns = None"
    show "\<forall>i. \<not> candidate rg ex kind i"
    proof (intro allI notI)
      fix i assume "candidate rg ex kind i"
      then obtain n where n: "i \<noteq> ex" "registry_Get i rg = Some n" "IsHealthy n" "kind n" unfolding candidate_def by blast
      then have "nd_ID n = i" using Get_id [OF assms(1)] by blast
      then show False using none n unfolding go_first_None ns by blast
    qed
  next
    assume none: "\<forall>i. \<not> candidate rg ex kind i"
    have "nd_ID n = ex" if "n \<in> set ns" for n
      using that none unfolding ns candidate_def by blast
    then show "go_first ex ns = None" unfolding go_first_None by blast
  qed
qed

lemma no_ex_name: "candidate rg ex kind i \<Longrightarrow> registry_Get [] rg = None \<Longrightarrow> i \<noteq> []"
  by (auto simp: candidate_def)

text \<open>The names of nodes are not empty.\<close>

lemma selectNewPrimary_spec:
  assumes "registry_ok rg" "lists_set order" "registry_Get [] rg = None"
  shows "(\<exists>i. candidate rg ex is_standby i) \<Longrightarrow> candidate rg ex is_standby (selectNewPrimary order ex rg)"
    and "(\<exists>i. candidate rg ex is_writer i) \<Longrightarrow> candidate rg ex is_writer (selectNewPrimary order ex rg)"
    and "selectNewPrimary order ex rg = [] \<longleftrightarrow> (\<forall>i. \<not> candidate rg ex is_writer i)"
proof -
  have g: "GetStandbyWriters order rg = filterNodes order (\<lambda>n. is_standby n \<and> IsHealthy n) rg"
    "GetWriters order rg = filterNodes order (\<lambda>n. is_writer n \<and> IsHealthy n) rg"
    by (simp_all add: GetStandbyWriters_def GetWriters_def conj_assoc)
  note s = first_candidate [OF assms(1,2) g(1), of ex] and w = first_candidate [OF assms(1,2) g(2), of ex]
  have sw: "candidate rg ex is_standby i \<Longrightarrow> candidate rg ex is_writer i" for i by (auto simp: candidate_def)
  show 1: "(\<exists>i. candidate rg ex is_standby i) \<Longrightarrow> candidate rg ex is_standby (selectNewPrimary order ex rg)"
    using s by (cases "go_first ex (GetStandbyWriters order rg)") (auto simp: selectNewPrimary_def)
  show 2: "(\<exists>i. candidate rg ex is_writer i) \<Longrightarrow> candidate rg ex is_writer (selectNewPrimary order ex rg)"
    using s w sw by (cases "go_first ex (GetStandbyWriters order rg)"; cases "go_first ex (GetWriters order rg)")
      (auto simp: selectNewPrimary_def)
  show "selectNewPrimary order ex rg = [] \<longleftrightarrow> (\<forall>i. \<not> candidate rg ex is_writer i)"
  proof
    assume "selectNewPrimary order ex rg = []"
    then show "\<forall>i. \<not> candidate rg ex is_writer i" using 2 no_ex_name [OF _ assms(3)] by metis
  next
    assume none: "\<forall>i. \<not> candidate rg ex is_writer i"
    then have "go_first ex (GetStandbyWriters order rg) = None" "go_first ex (GetWriters order rg) = None"
      using s(2) w(2) sw by blast+
    then show "selectNewPrimary order ex rg = []" by (simp add: selectNewPrimary_def)
  qed
qed

lemma selectNewCompactor_spec:
  assumes "registry_ok rg" "lists_set order" "registry_Get [] rg = None"
  shows "(\<exists>i. candidate rg ex is_compactor i) \<Longrightarrow> candidate rg ex is_compactor (selectNewCompactor order ex rg)"
    and "selectNewCompactor order ex rg \<noteq> [] \<Longrightarrow>
      candidate rg ex is_compactor (selectNewCompactor order ex rg) \<or> candidate rg ex is_writer (selectNewCompactor order ex rg)"
    and "selectNewCompactor order ex rg = [] \<longleftrightarrow> (\<forall>i. \<not> candidate rg ex is_compactor i \<and> \<not> candidate rg ex is_writer i)"
proof -
  have g: "filter IsHealthy (GetCompactors order rg) = filterNodes order (\<lambda>n. is_compactor n \<and> IsHealthy n) rg"
    "filter IsHealthy (GetWriters order rg) = filterNodes order (\<lambda>n. is_writer n \<and> IsHealthy n) rg"
    by (auto simp: GetCompactors_def GetWriters_def filterNodes_def intro!: filter_cong)
  note c = first_candidate [OF assms(1,2) g(1), of ex] and w = first_candidate [OF assms(1,2) g(2), of ex]
  show 1: "(\<exists>i. candidate rg ex is_compactor i) \<Longrightarrow> candidate rg ex is_compactor (selectNewCompactor order ex rg)"
    using c by (cases "go_first ex (filter IsHealthy (GetCompactors order rg))") (auto simp: selectNewCompactor_def)
  show 2: "selectNewCompactor order ex rg \<noteq> [] \<Longrightarrow>
      candidate rg ex is_compactor (selectNewCompactor order ex rg) \<or> candidate rg ex is_writer (selectNewCompactor order ex rg)"
    using c(1) w(1) by (auto simp: selectNewCompactor_def split: option.splits)
  show "selectNewCompactor order ex rg = [] \<longleftrightarrow> (\<forall>i. \<not> candidate rg ex is_compactor i \<and> \<not> candidate rg ex is_writer i)"
  proof
    assume e: "selectNewCompactor order ex rg = []"
    have "go_first ex (filter IsHealthy (GetCompactors order rg)) \<noteq> Some []" "go_first ex (filter IsHealthy (GetWriters order rg)) \<noteq> Some []"
      using c(1) w(1) no_ex_name [OF _ assms(3)] by blast+
    then have "go_first ex (filter IsHealthy (GetCompactors order rg)) = None" "go_first ex (filter IsHealthy (GetWriters order rg)) = None"
      using e by (auto simp: selectNewCompactor_def split: option.splits)
    then show "\<forall>i. \<not> candidate rg ex is_compactor i \<and> \<not> candidate rg ex is_writer i" using c(2) w(2) by blast
  next
    assume "\<forall>i. \<not> candidate rg ex is_compactor i \<and> \<not> candidate rg ex is_writer i"
    then show "selectNewCompactor order ex rg = []" using c(2) w(2) by (simp add: selectNewCompactor_def)
  qed
qed

end
