(* ===== verification/Cluster_Election.thy ===== *)
theory Cluster_Election
  imports Cluster_Failover
begin

text \<open>
  The cluster as a whole: every member applies one log to its state machine, keeps its registry and
  runs its failover managers, in any interleaving.  What becomes of the primary writer.
\<close>

section \<open>Which commands promote\<close>

definition no_promotion :: "fsm_result \<Rightarrow> bool" where
  "no_promotion r \<longleftrightarrow> (\<forall>p q. WriterPromoted p q \<notin> set (evs r))"

lemma quiet_auth: "\<lbrakk>\<not> about_nodes c; \<not> about_files c\<rbrakk> \<Longrightarrow> no_promotion (apply_command R c i f)"
  by (cases c) (auto simp: no_promotion_def emit_def fsm_defs Let_def split: option.splits if_splits sum.splits)

lemma quiet_nodes: "\<lbrakk>about_nodes c; c \<notin> range PromoteWriter\<rbrakk> \<Longrightarrow> no_promotion (apply_command R c i f)"
  by (cases c) (auto simp: no_promotion_def emit_def fsm_defs Let_def split: option.splits if_splits)

lemma quiet_file_op: "no_promotion (apply_file_op d i f)"
  by (cases d) (auto simp: no_promotion_def emit_def fsm_defs file_struct_defs Let_def split: option.splits if_splits)

lemma quiet_file_ops: "no_promotion (apply_file_ops n ds i f)"
proof (induction n ds i f rule: apply_file_ops.induct)
  case (2 n d ds i f)
  then show ?case using quiet_file_op [of d i f] by (auto simp: no_promotion_def Let_def split: option.split)
qed (simp add: no_promotion_def)

lemma quiet_prevalidate: "prevalidate n bs f = Inl r \<Longrightarrow> no_promotion r"
proof (induction n bs f rule: prevalidate.induct)
  case (2 n b bs f)
  have "prevalidate_op n b f = Inl r \<Longrightarrow> no_promotion r"
    by (cases b) (auto simp: no_promotion_def fsm_defs prevalidate_file_def split: option.splits if_splits)
  then show ?case using 2 by (auto split: sum.splits)
qed simp

lemma quiet_files: "about_files c \<Longrightarrow> no_promotion (apply_command R c i f)"
proof (cases c)
  case (BatchFileOps p)
  then show ?thesis
    by (auto simp: applyBatchFileOps_def quiet_file_ops quiet_prevalidate split: option.split sum.split) (simp add: no_promotion_def)
qed (auto simp: no_promotion_def emit_def fsm_defs file_struct_defs Let_def split: option.splits if_splits)

lemma quiet_Apply: "c \<notin> range PromoteWriter \<Longrightarrow> no_promotion (Apply R (Some c) i f)"
  using quiet_auth quiet_nodes quiet_files by (cases "about_nodes c"; cases "about_files c") (simp_all add: Apply_def)

section \<open>Members\<close>

text \<open>
  The goroutine of a failover of the writer: choosing a successor of the old primary, proposing the
  promotion, waiting for its propagation.  That of the compactor likewise.
\<close>

datatype writer_task = NoTask | Choosing string | Proposing string string | Waiting string bool

datatype compactor_task = NoAssignment | ChoosingCompactor string | Assigning string string

record 's member =
  mb_fsm :: fsm
  mb_applied :: nat
  mb_registry :: "'s registry"
  mb_checks :: "'s node list"
  mb_notices :: "'s notification list"
  mb_writer :: writer_failover
  mb_wtask :: writer_task
  mb_compactor :: failover
  mb_ctask :: compactor_task

type_synonym order = "string set \<Rightarrow> string list"

text \<open>
  What a member can do.  An answer of Raft is whether the command reaches the log and whether the
  proposer learns of success; either can happen without the other.
\<close>

datatype action =
    ApplyNext int
  | HeartbeatFrom int int int peer_message string
  | LeaveFrom bool int peer_message
  | JoinAccepted int "peer_info list"
  | StartChecks order
  | RunCheck nat bool int
  | LocalState int string
  | LocalJoined int
  | WriterTick order bool int
  | DeliverNotice bool int
  | WriterManual order
  | Choose order int
  | Propose bool bool
  | FinishWriter int bool
  | CompactorTick order bool int
  | CompactorManual
  | ChooseCompactor order int
  | Assign bool bool int

record 's surroundings =
  su_crypto :: crypto
  su_ranges :: ranges
  su_config :: coordinator_config
  su_checker :: health_checker
  su_writer :: failover_config
  su_compactor :: failover_config
  su_zero_stats :: 's

definition started :: "string option \<times> writer_failover \<Rightarrow> 's member \<Rightarrow> 's member" where
  "started r m = (case r of
     (None, w) \<Rightarrow> m\<lparr>mb_writer := w\<rparr>
   | (Some old, w) \<Rightarrow> m\<lparr>mb_writer := w, mb_wtask := Choosing old\<rparr>)"

fun act :: "'s surroundings \<Rightarrow> command list \<Rightarrow> action \<Rightarrow> 's member \<Rightarrow> 's member \<times> command list" where
  "act E log (ApplyNext now) m =
     (if mb_applied m < length log
      then (case Apply (su_ranges E) (Some (log ! mb_applied m)) (of_nat (Suc (mb_applied m))) (mb_fsm m) of
              (f, es, _) \<Rightarrow> (m\<lparr>mb_fsm := f, mb_applied := Suc (mb_applied m),
                              mb_registry := on_events (su_zero_stats E) now es (mb_registry m)\<rparr>, []))
      else (m, []))"
| "act E log (HeartbeatFrom t0 t1 t2 msg state) m =
     (m\<lparr>mb_registry := snd (handleHeartbeat (su_crypto E) (su_config E) (su_zero_stats E) t0 t1 t2 msg state (mb_registry m))\<rparr>, [])"
| "act E log (LeaveFrom leader t0 msg) m =
     (case handleLeaveNotify (su_crypto E) (su_config E) leader t0 msg (mb_registry m) of
        (cmds, _, rg) \<Rightarrow> (m\<lparr>mb_registry := rg\<rparr>, cmds))"
| "act E log (JoinAccepted now peers) m =
     (m\<lparr>mb_registry := accept_join (su_zero_stats E) now (cc_ClusterName (su_config E)) peers (mb_registry m)\<rparr>, [])"
| "act E log (StartChecks order) m = (m\<lparr>mb_checks := mb_checks m @ nodes_to_check order (mb_registry m)\<rparr>, [])"
| "act E log (RunCheck k expired now) m =
     (if k < length (mb_checks m)
      then (case checkNode (su_checker E) expired now (\<lambda>rg. rg) (mb_checks m ! k) (mb_registry m) of
              (ns, rg) \<Rightarrow> (m\<lparr>mb_checks := take k (mb_checks m) @ drop (Suc k) (mb_checks m),
                            mb_notices := mb_notices m @ ns, mb_registry := rg\<rparr>, []))
      else (m, []))"
| "act E log (LocalState now state) m = (m\<lparr>mb_registry := on_local (UpdateState now state) (mb_registry m)\<rparr>, [])"
| "act E log (LocalJoined now) m = (m\<lparr>mb_registry := on_local (MarkJoined now) (mb_registry m)\<rparr>, [])"
| "act E log (WriterTick order leader now) m =
     (started (checkPrimaryHealth (su_writer E) order leader now (mb_registry m) (mb_writer m)) m, [])"
| "act E log (DeliverNotice leader now) m =
     (case mb_notices m of
        Unhealthy n # ns \<Rightarrow>
          (started (HandleWriterUnhealthy (su_writer E) leader now n (mb_writer m)) (m\<lparr>mb_notices := ns\<rparr>), [])
      | ns \<Rightarrow> (m\<lparr>mb_notices := tl ns\<rparr>, []))"
| "act E log (WriterManual order) m =
     (case writer_TriggerManualFailover order (mb_registry m) (mb_writer m) of
        (Inl _, _) \<Rightarrow> (m, [])
      | (Inr old, w) \<Rightarrow> (started (Some old, w) m, []))"
| "act E log (Choose order now) m =
     (case mb_wtask m of
        Choosing old \<Rightarrow>
          (case writer_execute order now (mb_registry m) old (mb_writer m) of
             (None, w) \<Rightarrow> (m\<lparr>mb_writer := w, mb_wtask := NoTask\<rparr>, [])
           | (Some new, w) \<Rightarrow> (m\<lparr>mb_writer := w, mb_wtask := Proposing new old\<rparr>, []))
      | _ \<Rightarrow> (m, []))"
| "act E log (Propose reaches accepted) m =
     (case mb_wtask m of
        Proposing new old \<Rightarrow> (m\<lparr>mb_wtask := Waiting new accepted\<rparr>, if reaches then [promotion new old] else [])
      | _ \<Rightarrow> (m, []))"
| "act E log (FinishWriter now timed_out) m =
     (case mb_wtask m of
        Waiting new accepted \<Rightarrow>
          (m\<lparr>mb_writer := writer_finish now new accepted timed_out (mb_writer m), mb_wtask := NoTask\<rparr>, [])
      | _ \<Rightarrow> (m, []))"
| "act E log (CompactorTick order leader now) m =
     (case checkCompactorHealth (su_compactor E) order leader now (mb_fsm m) (mb_registry m) (mb_compactor m) of
        (NoStart, c) \<Rightarrow> (m\<lparr>mb_compactor := c\<rparr>, [])
      | (AssignFirst new, c) \<Rightarrow> (m\<lparr>mb_compactor := c, mb_ctask := Assigning new []\<rparr>, [])
      | (FailoverFrom old, c) \<Rightarrow> (m\<lparr>mb_compactor := c, mb_ctask := ChoosingCompactor old\<rparr>, []))"
| "act E log CompactorManual m =
     (case compactor_TriggerManualFailover (mb_fsm m) (mb_compactor m) of
        (Inl _, _) \<Rightarrow> (m, [])
      | (Inr old, c) \<Rightarrow> (m\<lparr>mb_compactor := c, mb_ctask := ChoosingCompactor old\<rparr>, []))"
| "act E log (ChooseCompactor order now) m =
     (case mb_ctask m of
        ChoosingCompactor old \<Rightarrow>
          (case compactor_execute order now (mb_registry m) old (mb_compactor m) of
             (None, c) \<Rightarrow> (m\<lparr>mb_compactor := c, mb_ctask := NoAssignment\<rparr>, [])
           | (Some new, c) \<Rightarrow> (m\<lparr>mb_compactor := c, mb_ctask := Assigning new old\<rparr>, []))
      | _ \<Rightarrow> (m, []))"
| "act E log (Assign reaches accepted now) m =
     (case mb_ctask m of
        Assigning new old \<Rightarrow>
          (m\<lparr>mb_compactor := compactor_completeFailover now accepted (mb_compactor m), mb_ctask := NoAssignment\<rparr>,
           if reaches then [assignment new old] else [])
      | _ \<Rightarrow> (m, []))"

text \<open>A member when it starts.\<close>

definition new_member :: "'s node \<Rightarrow> int \<Rightarrow> (callback \<Rightarrow> bool) \<Rightarrow> 's member" where
  "new_member n maxNodes cbs =
     \<lparr>mb_fsm = NewClusterFSM\<lparr>registered := cbs\<rparr>, mb_applied = 0, mb_registry = NewRegistry (Some n) maxNodes,
      mb_checks = [], mb_notices = [],
      mb_writer = \<lparr>fo_consecutiveFails = 0, fo_failoverInProg = False, fo_lastFailoverAt = None, fo_primaryID = []\<rparr>,
      mb_wtask = NoTask,
      mb_compactor = \<lparr>fo_consecutiveFails = 0, fo_failoverInProg = False, fo_lastFailoverAt = None\<rparr>,
      mb_ctask = NoAssignment\<rparr>"

text \<open>
  The cluster: a log and members.  \<open>outside\<close> says which commands others may propose (clients, other
  components, operators).  Members can restart.
\<close>

type_synonym 's cluster = "command list \<times> (string \<Rightarrow> 's member)"

inductive cluster_step :: "'s surroundings \<Rightarrow> (command \<Rightarrow> bool) \<Rightarrow> 's cluster \<Rightarrow> 's cluster \<Rightarrow> bool" for E outside where
  member_acts: "act E log a (ms i) = (m, cmds) \<Longrightarrow> cluster_step E outside (log, ms) (log @ cmds, ms(i := m))"
| proposal: "outside c \<Longrightarrow> cluster_step E outside (log, ms) (log @ [c], ms)"
| restart: "nd_WriterSt n = WriterStateNone \<Longrightarrow> cluster_step E outside (log, ms) (log, ms(i := new_member n k cbs))"

inductive cluster_reachable :: "'s surroundings \<Rightarrow> (command \<Rightarrow> bool) \<Rightarrow> 's cluster \<Rightarrow> bool" for E outside where
  start: "(\<And>i. \<exists>n k cbs. nd_WriterSt n = WriterStateNone \<and> ms i = new_member n k cbs) \<Longrightarrow> cluster_reachable E outside ([], ms)"
| further: "cluster_reachable E outside s \<Longrightarrow> cluster_step E outside s s' \<Longrightarrow> cluster_reachable E outside s'"

inductive_cases cluster_stepE [elim]: "cluster_step E outside s s'"

section \<open>Nobody becomes the first primary\<close>

lemma accept_join_ok: "registry_ok rg \<Longrightarrow> registry_ok (accept_join z now c ps rg)"
proof -
  have "registry_ok rg \<Longrightarrow> registry_ok (fold (\<lambda>p r. snd (snd (Register (node_of_peer z now c p) r))) ps rg)"
    by (induction ps arbitrary: rg) (simp_all add: Register_ok)
  then show "registry_ok rg \<Longrightarrow> ?thesis" by (simp add: accept_join_def on_local_ok)
qed

lemma accept_join_no_primary: "no_primary rg \<Longrightarrow> no_primary (accept_join z now c ps rg)"
proof -
  have "no_primary rg \<Longrightarrow> no_primary (fold (\<lambda>p r. snd (snd (Register (node_of_peer z now c p) r))) ps rg)"
    by (induction ps arbitrary: rg) (simp_all add: no_primary_Register node_of_peer_def)
  then show "no_primary rg \<Longrightarrow> ?thesis" by (simp add: accept_join_def no_primary_on_local)
qed

lemma accept_join_unaware: "local_unaware rg \<Longrightarrow> local_unaware (accept_join z now c ps rg)"
proof -
  have "local_unaware rg \<Longrightarrow> local_unaware (fold (\<lambda>p r. snd (snd (Register (node_of_peer z now c p) r))) ps rg)"
    by (induction ps arbitrary: rg) (simp_all add: unaware_Register)
  then show "local_unaware rg \<Longrightarrow> ?thesis" by (simp add: accept_join_def unaware_on_local)
qed

lemma checkNode_result:
  assumes "checkNode h e now (\<lambda>rg. rg) n rg = (ns, rg')"
  obtains b where "rg' = rg \<or> rg' = on_node (nd_ID n) (\<lambda>n. snd (ProcessHealthCheckResult now b (hc_unhealthyThreshold h) (hc_unhealthyThreshold h * 2) n)) rg"
    and "ns = [] \<or> ns = [Healthy n] \<or> ns = [Unhealthy n]"
  using assms by (auto simp: checkNode_def ProcessHealthCheck_def Let_def split: option.splits prod.splits if_splits)

lemma heartbeat_no_primary: "no_primary rg \<Longrightarrow> no_primary (snd (handleHeartbeat K cfg z t0 t1 t2 m s rg))"
  by (simp add: handleHeartbeat_def registry_UpdateNodeState_def RecordHeartbeat_def no_primary_on_node)

lemma heartbeat_unaware: "local_unaware rg \<Longrightarrow> local_unaware (snd (handleHeartbeat K cfg z t0 t1 t2 m s rg))"
  by (simp add: handleHeartbeat_def registry_UpdateNodeState_def RecordHeartbeat_def unaware_on_node)

lemma ProcessHealthCheckResult_ID [simp]: "nd_ID (snd (ProcessHealthCheckResult now b u d n)) = nd_ID n"
  by (simp add: ProcessHealthCheckResult_def Let_def)

lemma MarkJoined_ID [simp]: "nd_ID (MarkJoined now n) = nd_ID n"
  by (simp add: MarkJoined_def)

lemma filterNodes_subset: "n \<in> set (filterNodes order P rg) \<Longrightarrow> P n \<and> (\<exists>i. registry_Get i rg = Some n)"
  by (auto simp: filterNodes_def map_filter_def)

lemma no_primary_none: "\<lbrakk>no_primary rg; registry_ok rg\<rbrakk> \<Longrightarrow> GetPrimaryWriter order rg = None"
  by (auto simp: GetPrimaryWriter_def GetAll_def find_None_iff node_IsPrimaryWriter_def
      dest!: filterNodes_subset no_primary_Get)

definition none_writer :: "'s node \<Rightarrow> bool" where "none_writer n \<longleftrightarrow> nd_WriterSt n = WriterStateNone"

fun harmless :: "'s notification \<Rightarrow> bool" where
  "harmless (Unhealthy n) = none_writer n"
| "harmless _ = True"

definition member_quiet :: "'s member \<Rightarrow> bool" where
  "member_quiet m \<longleftrightarrow> registry_ok (mb_registry m) \<and> no_primary (mb_registry m) \<and> list_all none_writer (mb_checks m) \<and>
     list_all harmless (mb_notices m) \<and> fo_primaryID (mb_writer m) = [] \<and> mb_wtask m = NoTask"

lemma new_member_quiet: "nd_WriterSt n = WriterStateNone \<Longrightarrow> member_quiet (new_member n k cbs)"
  by (simp add: member_quiet_def new_member_def NewRegistry_ok) (simp add: no_primary_def NewRegistry_def)

lemma quiet_ticks:
  assumes "member_quiet m"
  shows "checkPrimaryHealth cfg order leader now (mb_registry m) (mb_writer m) = (None, mb_writer m)"
    and "none_writer n \<Longrightarrow> HandleWriterUnhealthy cfg leader now n (mb_writer m) = (None, mb_writer m)"
    and "\<exists>e. writer_TriggerManualFailover order (mb_registry m) (mb_writer m) = (Inl e, mb_writer m)"
  using assms no_primary_none [of "mb_registry m"]
  by (auto simp: member_quiet_def checkPrimaryHealth_def HandleWriterUnhealthy_def writer_TriggerManualFailover_def none_writer_def)

lemma nodes_to_check_none:
  "\<lbrakk>no_primary rg; registry_ok rg\<rbrakk> \<Longrightarrow> list_all none_writer (nodes_to_check order rg)"
  by (auto simp: list_all_iff nodes_to_check_def GetAll_def none_writer_def dest!: filterNodes_subset no_primary_Get)

lemma act_quiet:
  assumes q: "member_quiet m" and log: "list_all (\<lambda>c. c \<notin> range PromoteWriter) log" and a: "act E log a m = (m', cmds)"
  shows "member_quiet m' \<and> list_all (\<lambda>c. c \<notin> range PromoteWriter) cmds"
proof -
  note q' = q [unfolded member_quiet_def]
  show ?thesis
  proof (cases a)
    case (ApplyNext now)
    show ?thesis
    proof (cases "mb_applied m < length log")
      case True
      obtain f es e where ap: "Apply (su_ranges E) (Some (log ! mb_applied m)) (of_nat (Suc (mb_applied m))) (mb_fsm m) = (f, es, e)"
        by (cases "Apply (su_ranges E) (Some (log ! mb_applied m)) (of_nat (Suc (mb_applied m))) (mb_fsm m)")
      have "log ! mb_applied m \<notin> range PromoteWriter" using log True by (simp add: list_all_length)
      then have "\<forall>p q. WriterPromoted p q \<notin> set es" using quiet_Apply ap by (metis no_promotion_def fst_conv snd_conv)
      then show ?thesis using a ApplyNext True ap q'
        by (auto simp: member_quiet_def on_events_ok no_primary_on_events)
    qed (use a ApplyNext q in simp)
  next
    case (RunCheck k expired now)
    show ?thesis
    proof (cases "k < length (mb_checks m)")
      case True
      obtain ns rg where c: "checkNode (su_checker E) expired now (\<lambda>rg. rg) (mb_checks m ! k) (mb_registry m) = (ns, rg)" by force
      have n: "none_writer (mb_checks m ! k)" using q' True by (simp add: list_all_length)
      have "registry_ok rg \<and> no_primary rg \<and> list_all harmless ns"
        by (rule checkNode_result [OF c]) (use q' n in \<open>auto simp: on_node_ok no_primary_on_node\<close>)
      moreover have "list_all none_writer (take k (mb_checks m) @ drop (Suc k) (mb_checks m))"
        using q' by (auto simp: list_all_iff dest: in_set_takeD in_set_dropD)
      ultimately show ?thesis using a RunCheck True c q' by (auto simp: member_quiet_def)
    qed (use a RunCheck q in simp)
  next
    case (DeliverNotice leader now)
    show ?thesis
    proof (cases "mb_notices m")
      case (Cons n ns)
      then show ?thesis using a DeliverNotice q'
        by (cases n) (auto simp: member_quiet_def started_def quiet_ticks(2) [OF q])
    qed (use a DeliverNotice q in \<open>auto simp: member_quiet_def\<close>)
  next
    case (WriterManual order)
    then show ?thesis using a q quiet_ticks(3) [OF q, of order] by auto
  next
    case (LeaveFrom leader t0 msg)
    then show ?thesis using a q'
      by (auto simp: member_quiet_def handleLeaveNotify_def Unregister_ok no_primary_Unregister split: if_splits prod.splits)
        (metis Unregister_ok no_primary_Unregister snd_conv)+
  qed (use a q' q in \<open>auto simp: member_quiet_def handleHeartbeat_ok heartbeat_no_primary accept_join_ok accept_join_no_primary
      nodes_to_check_none on_local_ok no_primary_on_local quiet_ticks(1) started_def assignment_def
      split: prod.splits compactor_start.splits sum.splits compactor_task.splits option.splits\<close>)
qed

definition promotes :: "command \<Rightarrow> bool" where "promotes c \<longleftrightarrow> c \<in> range PromoteWriter"

lemma reachable_quiet:
  "cluster_reachable E (\<lambda>c. \<not> promotes c) s \<Longrightarrow> list_all (\<lambda>c. c \<notin> range PromoteWriter) (fst s) \<and> (\<forall>i. member_quiet (snd s i))"
proof (induction rule: cluster_reachable.induct)
  case (start ms)
  then have "member_quiet (ms i)" for i using new_member_quiet by metis
  then show ?case by simp
next
  case (further s s')
  from further.hyps(2) show ?case
  proof cases
    case (member_acts log a ms i m cmds)
    then show ?thesis using further.IH act_quiet [OF _ _ member_acts(3)] by simp
  next
    case (proposal c log ms)
    then show ?thesis using further.IH by (simp add: promotes_def)
  next
    case (restart n log ms i k cbs)
    then show ?thesis using further.IH new_member_quiet by simp
  qed
qed

text \<open>
  C28. With writer failover no writer is ever made the primary, unless somebody outside the cluster
  proposes it: whatever the members do, in any order, with any messages, failures and restarts, no
  promotion reaches the log, no failover starts, no registry shows a primary, and no node takes
  itself for the primary.
\<close>

theorem no_writer_is_ever_promoted:
  assumes "cluster_reachable E (\<lambda>c. \<not> promotes c) (log, ms)"
  shows "list_all (\<lambda>c. \<not> promotes c) log \<and> mb_wtask (ms i) = NoTask \<and>
    GetPrimaryWriter order (mb_registry (ms i)) = None"
  using reachable_quiet [OF assms] no_primary_none by (auto simp: member_quiet_def promotes_def)

section \<open>A promoted writer does not learn of it\<close>

lemma act_unaware:
  assumes u: "local_unaware (mb_registry m)" and a: "act E log a m = (m', cmds)"
  shows "local_unaware (mb_registry m')"
proof (cases a)
  case (ApplyNext now)
  then show ?thesis using a u by (auto simp: unaware_on_events split: if_splits prod.splits)
next
  case (RunCheck k expired now)
  show ?thesis
  proof (cases "k < length (mb_checks m)")
    case True
    obtain ns rg where c: "checkNode (su_checker E) expired now (\<lambda>rg. rg) (mb_checks m ! k) (mb_registry m) = (ns, rg)" by force
    have "local_unaware rg" by (rule checkNode_result [OF c]) (use u in \<open>auto simp: unaware_on_node\<close>)
    then show ?thesis using a RunCheck True c by auto
  qed (use a RunCheck u in simp)
next
  case (LeaveFrom leader t0 msg)
  then show ?thesis using a u unaware_Unregister [OF u, of "sg_NodeID msg"]
    by (auto simp: handleLeaveNotify_def split: if_splits prod.splits)
next
  case (DeliverNotice leader now)
  then show ?thesis using a u
    by (auto simp: started_def split: list.splits notification.splits prod.splits option.splits)
next
  case (WriterTick order leader now)
  then show ?thesis using a u by (auto simp: started_def split: prod.splits option.splits)
next
  case (WriterManual order)
  then show ?thesis using a u by (auto simp: started_def split: prod.splits option.splits sum.splits)
qed (use a u in \<open>auto simp: heartbeat_unaware accept_join_unaware unaware_on_local
    split: prod.splits compactor_start.splits sum.splits compactor_task.splits writer_task.splits option.splits\<close>)

lemma new_member_unaware: "nd_WriterSt n = WriterStateNone \<Longrightarrow> local_unaware (mb_registry (new_member n k cbs))"
  by (simp add: new_member_def local_unaware_def NewRegistry_def)

lemma reachable_unaware: "cluster_reachable E outside s \<Longrightarrow> local_unaware (mb_registry (snd s i))"
proof (induction rule: cluster_reachable.induct)
  case (start ms)
  then show ?case using new_member_unaware by (metis snd_conv)
next
  case (further s s')
  from further.hyps(2) show ?case
  proof cases
    case (member_acts log a ms j m cmds)
    then show ?thesis using further.IH act_unaware [OF _ member_acts(3)] by (cases "i = j") auto
  next
    case (restart n log ms j k cbs)
    then show ?thesis using further.IH new_member_unaware by (cases "i = j") auto
  qed (use further.IH in auto)
qed

text \<open>
  With writer failover no node ever takes itself for the primary writer, not even the one that a
  promotion in the log has made the primary and that every registry shows as such: the callback
  replaces the node in the registry by a copy, and the coordinator goes on to ask the old object.
\<close>

theorem promoted_writer_stays_unaware:
  assumes "cluster_reachable E outside (log, ms)" "cc_WriterFailover (su_config E)" "\<not> cc_SharedStorageMode (su_config E)"
  shows "\<not> IsPrimaryWriter (su_config E) leader (mb_registry (ms i))"
  using unaware_not_primary reachable_unaware [OF assms(1), of i] assms(2,3) by simp

section \<open>An example\<close>

definition example_surroundings :: "unit surroundings" where
  "example_surroundings =
     \<lparr>su_crypto = plain_crypto, su_ranges = sorted_ranges,
      su_config = \<lparr>cc_SharedSecret = [], cc_ClusterName = ''c'', cc_SharedStorageMode = False, cc_WriterFailover = True\<rparr>,
      su_checker = example_checker,
      su_writer = fst (NewWriterFailoverManager \<lparr>fc_HealthCheckInterval = 0, fc_FailoverTimeout = 0, fc_CooldownPeriod = 0, fc_UnhealthyThreshold = 0\<rparr>),
      su_compactor = fst (NewCompactorFailoverManager \<lparr>fc_HealthCheckInterval = 0, fc_FailoverTimeout = 0, fc_CooldownPeriod = 0, fc_UnhealthyThreshold = 0\<rparr>),
      su_zero_stats = ()\<rparr>"

definition example_info :: node_info where
  "example_info = \<lparr>n_ID = ''b'', n_Name = ''b'', n_Role = RoleWriter, n_ClusterName = ''c'', n_Address = ''b:1'', n_APIAddress = ''b:2'',
     n_State = StateHealthy, n_Version = ''1'', n_WriterState = [], n_CoreCount = 4\<rparr>"

definition example_start :: "string \<Rightarrow> unit member" where
  "example_start i = new_member (example_member i RoleWriter) 0 (\<lambda>_. True)"

definition example_log :: "command list" where
  "example_log = [AddNode (Some example_info), promotion ''b'' []]"

definition example_promoted :: "unit member" where
  "example_promoted = fst (act example_surroundings example_log (ApplyNext 2)
     (fst (act example_surroundings example_log (ApplyNext 1) (example_start ''b''))))"

lemma example_member_writer: "nd_WriterSt (example_member i r) = WriterStateNone"
  by (simp add: example_member_def)

lemma example_reachable:
  "cluster_reachable example_surroundings (\<lambda>c. True) (example_log, example_start(''b'' := example_promoted))"
proof -
  let ?E = example_surroundings and ?start = "example_start :: string \<Rightarrow> unit member"
  have 0: "cluster_reachable ?E (\<lambda>c. True) ([], ?start)"
    by (rule cluster_reachable.start) (use example_member_writer in \<open>auto simp: example_start_def\<close>)
  have 1: "cluster_reachable ?E (\<lambda>c. True) ([] @ [AddNode (Some example_info)], ?start)"
    by (rule cluster_reachable.further [OF 0 cluster_step.proposal]) simp
  have 2: "cluster_reachable ?E (\<lambda>c. True) (([] @ [AddNode (Some example_info)]) @ [promotion ''b'' []], ?start)"
    by (rule cluster_reachable.further [OF 1 cluster_step.proposal]) simp
  then have 3: "cluster_reachable ?E (\<lambda>c. True) (example_log, ?start)" by (simp add: example_log_def)
  have s: "snd (act ?E log (ApplyNext t) m) = []" for log t and m :: "unit member"
    by (simp split: prod.split)
  have act: "act ?E log (ApplyNext t) m = (fst (act ?E log (ApplyNext t) m), [])" for log t and m :: "unit member"
    unfolding prod_eq_iff using s by (simp del: act.simps)
  let ?m = "fst (act ?E example_log (ApplyNext 1) (?start ''b''))"
  have 4: "cluster_reachable ?E (\<lambda>c. True) (example_log @ [], ?start(''b'' := ?m))"
    by (rule cluster_reachable.further [OF 3 cluster_step.member_acts]) (rule act)
  let ?ms = "?start(''b'' := ?m)"
  have b: "?ms ''b'' = ?m" by simp
  have 5: "cluster_reachable ?E (\<lambda>c. True) (example_log @ [], ?ms(''b'' := example_promoted))"
    unfolding example_promoted_def
    by (rule cluster_reachable.further [OF 4 [unfolded append_Nil2] cluster_step.member_acts]) (unfold b, rule act)
  then show ?thesis by simp
qed

lemma example_promotion:
  "GetPrimaryWriterID (mb_fsm example_promoted) = ''b''"
  "map_option nd_WriterSt (registry_Get ''b'' (mb_registry example_promoted)) = Some WriterStatePrimary"
proof -
  have n: "nd_ID (example_member ''b'' RoleWriter) = ''b''" "nd_ID (node_of_info () t example_info) = ''b''" for t
    by (simp_all add: example_member_def NewNode_def node_of_info_def example_info_def SetVersion_def SetAddresses_def)
  show "GetPrimaryWriterID (mb_fsm example_promoted) = ''b''"
    by (simp add: example_promoted_def example_log_def example_start_def new_member_def Apply_def applyAddNode_def
        promotion_def applyPromoteWriter_def wrong_role_def mark_writer_def example_info_def RoleWriter_def GetPrimaryWriterID_def Let_def
        example_surroundings_def)
  show "map_option nd_WriterSt (registry_Get ''b'' (mb_registry example_promoted)) = Some WriterStatePrimary"
    by (simp add: example_promoted_def example_log_def example_start_def new_member_def Apply_def applyAddNode_def
        promotion_def applyPromoteWriter_def wrong_role_def mark_writer_def example_info_def RoleWriter_def Let_def
        example_surroundings_def on_events_def emit_def onRaftNodeAdded_def onWriterPromoted_def set_writer_def
        NewRegistry_def Register_def registry_Get_def n [unfolded example_info_def RoleWriter_def] SetWriterState_def)
qed

theorem no_writer_is_ever_promoted_witness:
  "GetPrimaryWriter sorted_list_of_set (mb_registry (example_start ''a'')) = None"
proof -
  have "cluster_reachable example_surroundings (\<lambda>c. \<not> promotes c) ([], example_start)"
    by (rule cluster_reachable.start) (use example_member_writer in \<open>auto simp: example_start_def\<close>)
  from no_writer_is_ever_promoted [OF this] show ?thesis by blast
qed

theorem promoted_writer_stays_unaware_witness:
  "GetPrimaryWriterID (mb_fsm example_promoted) = ''b'' \<and>
   map_option nd_WriterSt (registry_Get ''b'' (mb_registry example_promoted)) = Some WriterStatePrimary \<and>
   \<not> IsPrimaryWriter (su_config example_surroundings) (Some True) (mb_registry example_promoted)"
  using promoted_writer_stays_unaware [OF example_reachable, of "Some True" "''b''"] example_promotion
  by (simp add: example_surroundings_def)

end
