(* ===== verification/Cluster_Takeover.thy ===== *)
theory Cluster_Takeover
  imports Cluster_Election
begin

text \<open>
  That failovers do what they are for: of the writer, once there is a primary, and of the compactor.
\<close>

section \<open>The writer\<close>

text \<open>Ticks of the leader until a failover starts; every tick sees the registry of its time.\<close>

fun writer_ticks :: "failover_config \<Rightarrow> (order \<times> int \<times> 's registry) list \<Rightarrow> writer_failover \<Rightarrow> string option \<times> writer_failover" where
  "writer_ticks cfg [] m = (None, m)"
| "writer_ticks cfg ((order, t, rg) # ts) m =
     (case checkPrimaryHealth cfg order True t rg m of
        (Some p, m') \<Rightarrow> (Some p, m')
      | (None, m') \<Rightarrow> writer_ticks cfg ts m')"

text \<open>The registry shows no healthy primary, but some healthy writer, and no failover was too recent.\<close>

definition primary_lost :: "failover_config \<Rightarrow> gotime \<Rightarrow> order \<times> int \<times> 's registry \<Rightarrow> bool" where
  "primary_lost cfg last_at x \<longleftrightarrow> (case x of (order, t, rg) \<Rightarrow>
     GetPrimaryWriter order rg = None \<and> GetWriters order rg \<noteq> [] \<and>
     (case last_at of None \<Rightarrow> True | Some t0 \<Rightarrow> fc_CooldownPeriod cfg \<le> t - t0))"

lemma lost_tick:
  assumes "primary_lost cfg (fo_lastFailoverAt m) (order, t, rg)" "\<not> fo_failoverInProg m" "fo_primaryID m \<noteq> []"
  shows "checkPrimaryHealth cfg order True t rg m =
    (if fc_UnhealthyThreshold cfg \<le> fo_consecutiveFails m + 1
     then (Some (fo_primaryID m), m\<lparr>fo_consecutiveFails := fo_consecutiveFails m + 1, fo_failoverInProg := True\<rparr>)
     else (None, m\<lparr>fo_consecutiveFails := fo_consecutiveFails m + 1\<rparr>))"
  using assms
  by (auto simp: primary_lost_def checkPrimaryHealth_def count_fail_def writer_triggerFailoverLocked_def cooling_def Let_def
      split: option.splits)

lemma lost_ticks:
  "\<lbrakk>list_all (primary_lost cfg (fo_lastFailoverAt m)) ts; \<not> fo_failoverInProg m; fo_primaryID m \<noteq> [];
    fo_consecutiveFails m < fc_UnhealthyThreshold cfg\<rbrakk> \<Longrightarrow>
   fst (writer_ticks cfg ts m) =
     (if fc_UnhealthyThreshold cfg \<le> fo_consecutiveFails m + int (length ts) then Some (fo_primaryID m) else None)"
proof (induction ts arbitrary: m)
  case (Cons x ts)
  obtain order t rg where x: "x = (order, t, rg)" by (cases x)
  have lost: "primary_lost cfg (fo_lastFailoverAt m) (order, t, rg)" using Cons.prems(1) x by simp
  show ?case
  proof (cases "fc_UnhealthyThreshold cfg \<le> fo_consecutiveFails m + 1")
    case True
    then show ?thesis using lost_tick [OF lost Cons.prems(2,3)] x by simp
  next
    case False
    let ?m = "m\<lparr>fo_consecutiveFails := fo_consecutiveFails m + 1\<rparr>"
    have "fst (writer_ticks cfg ts ?m) =
     (if fc_UnhealthyThreshold cfg \<le> fo_consecutiveFails ?m + int (length ts) then Some (fo_primaryID ?m) else None)"
      by (rule Cons.IH) (use Cons.prems False in auto)
    then show ?thesis using lost_tick [OF lost Cons.prems(2,3)] x False by (simp add: add.assoc)
  qed
qed simp

text \<open>What a promotion does to the state machine and to every registry that knows the node.\<close>

lemma promotion_applied:
  assumes "nodes f q = Some x" "n_Role x = RoleWriter" "q \<noteq> []" "registered f OnWriterPromoted"
  shows "err (Apply R (Some (promotion q p)) idx f) = None"
    and "GetPrimaryWriterID (st (Apply R (Some (promotion q p)) idx f)) = q"
    and "evs (Apply R (Some (promotion q p)) idx f) = [WriterPromoted q (primaryWriterID f)]"
  using assms
  by (auto simp: Apply_def promotion_def applyPromoteWriter_def wrong_role_def RoleWriter_def GetPrimaryWriterID_def
      mark_writer_def emit_def Let_def split: option.splits)

lemma set_writer_Get:
  assumes "registry_ok rg"
  shows "registry_Get i (set_writer j ws rg) = (if i = j then map_option (SetWriterState ws) (registry_Get i rg) else registry_Get i rg)"
proof (cases "registry_Get j rg")
  case (Some n)
  have j: "nd_ID (SetWriterState ws n) = j" using Get_id [OF assms Some] by (simp add: SetWriterState_def)
  then have "fst (Register (SetWriterState ws n) rg) = None" using Register_known Some by (metis Get_None option.distinct(1))
  then show ?thesis using Get_Register [OF assms] Some j by (auto simp: set_writer_def)
qed (simp add: set_writer_def)

lemma set_writer_ok: "registry_ok rg \<Longrightarrow> registry_ok (set_writer i ws rg)"
  by (simp add: set_writer_def Register_ok split: option.split)

lemma promotion_in_registry:
  assumes "registry_ok rg" "q \<noteq> []"
  shows "registry_Get q (onWriterPromoted q old rg) = map_option (\<lambda>n. SetWriterState WriterStatePrimary
      (if old = q then SetWriterState WriterStateStandby n else n)) (registry_Get q rg)"
    and "old \<noteq> q \<Longrightarrow> old \<noteq> [] \<Longrightarrow> registry_Get old (onWriterPromoted q old rg) = map_option (SetWriterState WriterStateStandby) (registry_Get old rg)"
  using assms by (auto simp: onWriterPromoted_def set_writer_Get set_writer_ok option.map_comp comp_def)


section \<open>The compactor\<close>


section \<open>A cluster of two\<close>

text \<open>Node \<open>a\<close> is dead, \<open>b\<close> a healthy standby.\<close>

definition dead_node :: "string \<Rightarrow> unit node" where
  "dead_node role = SetWriterState WriterStatePrimary (UpdateState 0 StateDead (NewNode () 0 ''a'' ''a'' role ''c''))"

definition standby_node :: "unit node" where
  "standby_node = SetWriterState WriterStateStandby (UpdateState 0 StateHealthy (NewNode () 0 ''b'' ''b'' RoleWriter ''c''))"

definition two_nodes :: "string \<Rightarrow> unit registry" where
  "two_nodes role = snd (snd (Register standby_node (NewRegistry (Some (dead_node role)) 0)))"

lemma two_nodes_fields [simp]:
  "nd_ID (dead_node role) = ''a''" "nd_ID standby_node = ''b''" "nd_Role (dead_node role) = role" "nd_Role standby_node = RoleWriter"
  "nd_State (dead_node role) = StateDead" "nd_State standby_node = StateHealthy" "nd_WriterSt standby_node = WriterStateStandby"
  by (simp_all add: dead_node_def standby_node_def SetWriterState_def UpdateState_def NewNode_def Let_def)

lemma two_nodes:
  "registry_ok (two_nodes role)"
  "registry_Get i (two_nodes role) = (if i = ''a'' then Some (dead_node role) else if i = ''b'' then Some standby_node else None)"
proof -
  have "fst (Register standby_node (NewRegistry (Some (dead_node role)) 0)) = None"
    by (simp add: Register_def NewRegistry_def DefaultMaxNodes_def)
  then show "registry_ok (two_nodes role)"
    "registry_Get i (two_nodes role) = (if i = ''a'' then Some (dead_node role) else if i = ''b'' then Some standby_node else None)"
    by (simp_all add: two_nodes_def Register_ok NewRegistry_ok Get_Register) (simp add: registry_Get_def NewRegistry_def)
qed

lemma two_nodes_candidates:
  "candidate (two_nodes role) ''a'' is_writer i \<longleftrightarrow> i = ''b''"
  "candidate (two_nodes role) ''a'' is_standby i \<longleftrightarrow> i = ''b''"
  "candidate (two_nodes RoleCompactor) ''a'' is_compactor i \<longleftrightarrow> False"
  by (auto simp: candidate_def two_nodes IsHealthy_def RoleWriter_def RoleCompactor_def)

lemma sorted_lists: "lists_set sorted_list_of_set"
  by (simp add: lists_set_def)

lemma two_nodes_lost: "primary_lost cfg None (sorted_list_of_set, t, two_nodes RoleWriter)"
proof -
  have "GetPrimaryWriter sorted_list_of_set (two_nodes RoleWriter) = None"
    by (auto simp: GetPrimaryWriter_def GetAll_def find_None_iff filterNodes_set [OF two_nodes(1) sorted_lists] two_nodes(2)
        node_IsPrimaryWriter_def IsHealthy_def split: if_splits)
  moreover have "standby_node \<in> set (GetWriters sorted_list_of_set (two_nodes RoleWriter))"
    by (simp add: GetWriters_def filterNodes_set [OF two_nodes(1) sorted_lists] two_nodes(2) IsHealthy_def)
  then have "GetWriters sorted_list_of_set (two_nodes RoleWriter) \<noteq> []" by fastforce
  ultimately show ?thesis by (simp add: primary_lost_def)
qed

definition two_nodes_fsm :: fsm where
  "two_nodes_fsm = NewClusterFSM\<lparr>nodes := [''a'' \<mapsto> example_info\<lparr>n_ID := ''a''\<rparr>, ''b'' \<mapsto> example_info],
     primaryWriterID := ''a'', activeCompactorID := ''a'', registered := (\<lambda>_. True)\<rparr>"

definition two_nodes_manager :: writer_failover where
  "two_nodes_manager = \<lparr>fo_consecutiveFails = 0, fo_failoverInProg = False, fo_lastFailoverAt = None, fo_primaryID = ''a''\<rparr>"



end
