(* ===== verification/Circuit_Breaker.thy ===== *)
theory Circuit_Breaker
  imports Prelude
begin

text \<open>
  The circuit breaker (\<^verbatim>\<open>internal/circuitbreaker/circuitbreaker.go\<close>) and the debouncer
  (\<^verbatim>\<open>internal/throttle/throttle.go\<close>).  A request reads the state under the read lock and decides
  in a second step; between the two, and while it runs, others may act.
\<close>

section \<open>The breaker\<close>

datatype breaker_state = StateClosed | StateOpen | StateHalfOpen

record breaker_config =
  bc_MaxFailures :: int
  bc_Timeout :: int
  bc_HalfOpenMaxRequests :: int

definition DefaultConfig :: breaker_config where
  "DefaultConfig = \<lparr>bc_MaxFailures = 5, bc_Timeout = 30 * 1000000000, bc_HalfOpenMaxRequests = 3\<rparr>"

text \<open>\<open>halfOpenCount\<close> is an \<^verbatim>\<open>int32\<close>; a time that was never set is \<open>None\<close>.\<close>

record breaker =
  cb_state :: breaker_state
  cb_failures :: int
  cb_successes :: int
  cb_lastFailureTime :: "int option"
  cb_halfOpenCount :: "32 word"

definition new_breaker :: "breaker_config option \<Rightarrow> breaker_config \<times> breaker" where
  "new_breaker cfg =
     ((case cfg of None \<Rightarrow> DefaultConfig | Some c \<Rightarrow> c),
      \<lparr>cb_state = StateClosed, cb_failures = 0, cb_successes = 0, cb_lastFailureTime = None, cb_halfOpenCount = 0\<rparr>)"

definition setState :: "breaker_state \<Rightarrow> breaker \<Rightarrow> breaker" where
  "setState new b = (if cb_state b = new then b else b\<lparr>cb_state := new, cb_failures := 0, cb_successes := 0\<rparr>)"

text \<open>The decision on the state and the failure time that were read; Go's \<^verbatim>\<open>Since\<close> saturates on the zero time.\<close>

definition timed_out :: "breaker_config \<Rightarrow> int \<Rightarrow> int option \<Rightarrow> bool" where
  "timed_out cfg now lastFailure = (case lastFailure of None \<Rightarrow> True | Some t \<Rightarrow> bc_Timeout cfg < now - t)"

definition allowRequest :: "breaker_config \<Rightarrow> int \<Rightarrow> breaker_state \<Rightarrow> int option \<Rightarrow> breaker \<Rightarrow> bool \<times> breaker" where
  "allowRequest cfg now state lastFailure b =
     (case state of
        StateClosed \<Rightarrow> (True, b)
      | StateOpen \<Rightarrow>
          if timed_out cfg now lastFailure
          then (True, if cb_state b = StateOpen then (setState StateHalfOpen b)\<lparr>cb_halfOpenCount := 0\<rparr> else b)
          else (False, b)
      | StateHalfOpen \<Rightarrow>
          let count = cb_halfOpenCount b + 1
          in (sint count \<le> sint (word_of_int (bc_HalfOpenMaxRequests cfg) :: 32 word), b\<lparr>cb_halfOpenCount := count\<rparr>))"

definition recordFailure :: "breaker_config \<Rightarrow> int \<Rightarrow> breaker \<Rightarrow> breaker" where
  "recordFailure cfg now b =
     (let b' = b\<lparr>cb_failures := cb_failures b + 1, cb_successes := 0, cb_lastFailureTime := Some now\<rparr>
      in case cb_state b' of
           StateClosed \<Rightarrow> if bc_MaxFailures cfg \<le> cb_failures b' then setState StateOpen b' else b'
         | StateHalfOpen \<Rightarrow> setState StateOpen b'
         | StateOpen \<Rightarrow> b')"

definition recordSuccess :: "breaker_config \<Rightarrow> breaker \<Rightarrow> breaker" where
  "recordSuccess cfg b =
     (let b' = b\<lparr>cb_successes := cb_successes b + 1\<rparr>
      in case cb_state b' of
           StateClosed \<Rightarrow> b'\<lparr>cb_failures := 0\<rparr>
         | StateHalfOpen \<Rightarrow> if bc_HalfOpenMaxRequests cfg \<le> cb_successes b' then setState StateClosed b' else b'
         | StateOpen \<Rightarrow> b')"

definition recordResult :: "breaker_config \<Rightarrow> int \<Rightarrow> bool \<Rightarrow> breaker \<Rightarrow> breaker" where
  "recordResult cfg now failed b = (if failed then recordFailure cfg now b else recordSuccess cfg b)"

definition breaker_Reset :: "breaker \<Rightarrow> breaker" where
  "breaker_Reset b = (setState StateClosed b)\<lparr>cb_failures := 0, cb_successes := 0\<rparr>"

definition IsOpen :: "breaker \<Rightarrow> bool" where
  "IsOpen b \<longleftrightarrow> cb_state b = StateOpen"

text \<open>A request that nobody interrupts: its result at a time, or \<open>None\<close> when the function panics.\<close>

definition breaker_Execute :: "breaker_config \<Rightarrow> int \<Rightarrow> int \<Rightarrow> bool option \<Rightarrow> breaker \<Rightarrow> bool \<times> breaker" where
  "breaker_Execute cfg t0 t1 result b =
     (case allowRequest cfg t0 (cb_state b) (cb_lastFailureTime b) b of
        (False, b') \<Rightarrow> (False, b')
      | (True, b') \<Rightarrow> (True, case result of None \<Rightarrow> b' | Some failed \<Rightarrow> recordResult cfg t1 failed b'))"

section \<open>Requests that overlap\<close>

datatype flight = Reading breaker_state "int option" | Running

datatype breaker_action = Begin | Decide nat int | Finish nat int bool | Panic nat | ResetNow

definition drop_at :: "nat \<Rightarrow> 'a list \<Rightarrow> 'a list" where
  "drop_at k xs = take k xs @ drop (Suc k) xs"

fun breaker_act :: "breaker_config \<Rightarrow> breaker_action \<Rightarrow> breaker \<times> flight list \<Rightarrow> breaker \<times> flight list" where
  "breaker_act cfg Begin (b, fs) = (b, fs @ [Reading (cb_state b) (cb_lastFailureTime b)])"
| "breaker_act cfg (Decide k now) (b, fs) =
     (if k < length fs
      then (case fs ! k of
              Reading s t \<Rightarrow> (case allowRequest cfg now s t b of
                  (True, b') \<Rightarrow> (b', fs[k := Running])
                | (False, b') \<Rightarrow> (b', drop_at k fs))
            | Running \<Rightarrow> (b, fs))
      else (b, fs))"
| "breaker_act cfg (Finish k now failed) (b, fs) =
     (if k < length fs \<and> fs ! k = Running then (recordResult cfg now failed b, drop_at k fs) else (b, fs))"
| "breaker_act cfg (Panic k) (b, fs) = (if k < length fs \<and> fs ! k = Running then (b, drop_at k fs) else (b, fs))"
| "breaker_act cfg ResetNow (b, fs) = (breaker_Reset b, fs)"

definition breaker_run :: "breaker_config \<Rightarrow> breaker_action list \<Rightarrow> breaker \<times> flight list \<Rightarrow> breaker \<times> flight list" where
  "breaker_run cfg = fold (breaker_act cfg)"

text \<open>What holds at every moment, however requests overlap.\<close>

definition breaker_ok :: "breaker_config \<Rightarrow> breaker \<Rightarrow> bool" where
  "breaker_ok cfg b \<longleftrightarrow> 0 \<le> cb_failures b \<and> 0 \<le> cb_successes b \<and>
     (cb_state b = StateClosed \<longrightarrow> cb_failures b < bc_MaxFailures cfg) \<and>
     (cb_state b = StateOpen \<longrightarrow> cb_lastFailureTime b \<noteq> None) \<and>
     (cb_state b = StateHalfOpen \<longrightarrow> cb_successes b < bc_HalfOpenMaxRequests cfg)"

definition config_ok :: "breaker_config \<Rightarrow> bool" where
  "config_ok cfg \<longleftrightarrow> 0 < bc_MaxFailures cfg \<and> 0 < bc_HalfOpenMaxRequests cfg \<and> bc_HalfOpenMaxRequests cfg < 2 ^ 31"

lemma new_breaker_ok: "config_ok cfg \<Longrightarrow> breaker_ok cfg (snd (new_breaker c))"
  by (simp add: breaker_ok_def new_breaker_def config_ok_def)

lemma allowRequest_ok: "\<lbrakk>config_ok cfg; breaker_ok cfg b\<rbrakk> \<Longrightarrow> breaker_ok cfg (snd (allowRequest cfg now s t b))"
  by (auto simp: breaker_ok_def allowRequest_def setState_def config_ok_def Let_def split: breaker_state.split)

lemma recordResult_ok: "\<lbrakk>config_ok cfg; breaker_ok cfg b\<rbrakk> \<Longrightarrow> breaker_ok cfg (recordResult cfg now failed b)"
  by (cases "cb_state b")
    (auto simp: breaker_ok_def recordResult_def recordFailure_def recordSuccess_def setState_def config_ok_def Let_def)

lemma breaker_act_ok:
  assumes "config_ok cfg" "breaker_ok cfg (fst x)"
  shows "breaker_ok cfg (fst (breaker_act cfg a x))"
proof -
  obtain b fs where x: "x = (b, fs)" by (cases x)
  show ?thesis
  proof (cases a)
    case (Decide k now)
    then show ?thesis using assms allowRequest_ok [OF assms(1), of b now] x
      by (auto split: flight.split prod.split bool.split) (metis snd_conv)+
  qed (use assms x recordResult_ok in \<open>auto simp: breaker_Reset_def setState_def breaker_ok_def config_ok_def\<close>)
qed

lemma breaker_run_ok: "\<lbrakk>config_ok cfg; breaker_ok cfg (fst x)\<rbrakk> \<Longrightarrow> breaker_ok cfg (fst (breaker_run cfg as x))"
  by (induction as arbitrary: x) (simp_all add: breaker_run_def breaker_act_ok)

section \<open>One request after the other\<close>

text \<open>The results of requests that are all admitted, each with its time.\<close>

definition execute_all :: "breaker_config \<Rightarrow> (int \<times> bool) list \<Rightarrow> breaker \<Rightarrow> breaker" where
  "execute_all cfg = fold (\<lambda>(t, failed) b. snd (breaker_Execute cfg t t (Some failed) b))"

text \<open>The failures since the last success.\<close>

definition last_failures :: "bool list \<Rightarrow> int" where
  "last_failures rs = int (length (takeWhile (\<lambda>x. x) (rev rs)))"

lemma last_failures_snoc [simp]: "last_failures (rs @ [x]) = (if x then last_failures rs + 1 else 0)"
  by (simp add: last_failures_def)

lemma closed_step:
  assumes "cb_state b = StateClosed" "cb_failures b = k" "k < bc_MaxFailures cfg"
  shows "let b' = snd (breaker_Execute cfg t t (Some failed) b)
    in if failed \<and> k + 1 = bc_MaxFailures cfg then cb_state b' = StateOpen \<and> cb_lastFailureTime b' = Some t
       else cb_state b' = StateClosed \<and> cb_failures b' = (if failed then k + 1 else 0)"
  using assms by (auto simp: breaker_Execute_def allowRequest_def recordResult_def recordFailure_def recordSuccess_def setState_def Let_def)

lemma closed_run:
  assumes "cb_state b = StateClosed" "cb_failures b = 0" "config_ok cfg"
    and "\<forall>n\<le>length rs. last_failures (map snd (take n rs)) < bc_MaxFailures cfg"
  shows "cb_state (execute_all cfg rs b) = StateClosed \<and> cb_failures (execute_all cfg rs b) = last_failures (map snd rs)"
  using assms(4)
proof (induction rs rule: rev_induct)
  case Nil
  then show ?case using assms(1,2) by (simp add: execute_all_def last_failures_def)
next
  case (snoc x rs)
  have "\<forall>n\<le>length rs. last_failures (map snd (take n rs)) < bc_MaxFailures cfg"
    using snoc.prems by (metis butlast_snoc le_SucI length_append_singleton take_butlast order.trans le_less_Suc_eq less_Suc_eq_le nat_less_le)
  note ih = snoc.IH [OF this]
  have "last_failures (map snd rs @ [snd x]) < bc_MaxFailures cfg"
    using snoc.prems [rule_format, of "length (rs @ [x])"] by simp
  moreover have "last_failures (map snd rs) < bc_MaxFailures cfg"
    using snoc.prems [rule_format, of "length rs"] by simp
  ultimately show ?case using closed_step [of "execute_all cfg rs b" "last_failures (map snd rs)" cfg "fst x" "snd x"] ih
    by (auto simp: execute_all_def case_prod_beta Let_def split: if_splits)
qed

lemma sint_small: "\<lbrakk>0 \<le> k; k < 2 ^ 31\<rbrakk> \<Longrightarrow> sint (word_of_int k :: 32 word) = k"
  unfolding sint_sbintrunc' by (rule signed_take_bit_int_eq_self) simp_all

lemma open_refuses:
  "\<lbrakk>cb_state b = StateOpen; \<not> timed_out cfg t0 (cb_lastFailureTime b)\<rbrakk> \<Longrightarrow> breaker_Execute cfg t0 t1 r b = (False, b)"
  by (simp add: breaker_Execute_def allowRequest_def)

lemma open_probe:
  assumes "cb_state b = StateOpen" "timed_out cfg t (cb_lastFailureTime b)" "0 < bc_HalfOpenMaxRequests cfg"
  shows "let b' = snd (breaker_Execute cfg t t (Some failed) b)
    in if failed then cb_state b' = StateOpen \<and> cb_lastFailureTime b' = Some t
       else if bc_HalfOpenMaxRequests cfg = 1 then cb_state b' = StateClosed \<and> cb_failures b' = 0
       else cb_state b' = StateHalfOpen \<and> cb_successes b' = 1 \<and> cb_halfOpenCount b' = 0"
  using assms by (auto simp: breaker_Execute_def allowRequest_def recordResult_def recordFailure_def recordSuccess_def setState_def Let_def)

lemma half_open_step:
  assumes "cb_state b = StateHalfOpen" "cb_successes b = j" "cb_halfOpenCount b = word_of_int (j - 1)" "1 \<le> j"
    "j < bc_HalfOpenMaxRequests cfg" "config_ok cfg"
  shows "let b' = snd (breaker_Execute cfg t t (Some failed) b)
    in if failed then cb_state b' = StateOpen \<and> cb_lastFailureTime b' = Some t
       else if j + 1 = bc_HalfOpenMaxRequests cfg then cb_state b' = StateClosed \<and> cb_failures b' = 0
       else cb_state b' = StateHalfOpen \<and> cb_successes b' = j + 1 \<and> cb_halfOpenCount b' = word_of_int j"
proof -
  have c: "cb_halfOpenCount b + 1 = word_of_int j" using assms(3) by (simp add: wi_hom_add [symmetric] word_of_int_minus)
  have "sint (word_of_int j :: 32 word) \<le> sint (word_of_int (bc_HalfOpenMaxRequests cfg) :: 32 word)"
    using assms(4-6) by (simp add: sint_small config_ok_def)
  then have "allowRequest cfg t StateHalfOpen x b = (True, b\<lparr>cb_halfOpenCount := word_of_int j\<rparr>)" for x
    by (simp add: allowRequest_def c Let_def)
  then show ?thesis using assms
    by (auto simp: breaker_Execute_def recordResult_def recordFailure_def recordSuccess_def setState_def Let_def)
qed

text \<open>The state after \<open>m\<close> successful probes.\<close>

definition probed :: "breaker_config \<Rightarrow> nat \<Rightarrow> breaker \<Rightarrow> bool" where
  "probed cfg m b \<longleftrightarrow>
     (if int m < bc_HalfOpenMaxRequests cfg
      then cb_state b = StateHalfOpen \<and> cb_successes b = int m \<and> cb_halfOpenCount b = word_of_int (int m - 1)
      else cb_state b = StateClosed \<and> cb_failures b = 0)"

lemma probes:
  assumes "cb_state b = StateOpen" "timed_out cfg t (cb_lastFailureTime b)" "config_ok cfg"
    "int (Suc (length ts)) \<le> bc_HalfOpenMaxRequests cfg"
  shows "probed cfg (Suc (length ts)) (execute_all cfg ((t, False) # map (\<lambda>t. (t, False)) ts) b)"
  using assms(4)
proof (induction ts rule: rev_induct)
  case Nil
  have "0 < bc_HalfOpenMaxRequests cfg" using assms(3) by (simp add: config_ok_def)
  then show ?case using open_probe [OF assms(1,2), of False] by (auto simp: execute_all_def probed_def Let_def split: if_splits)
next
  case (snoc u ts)
  let ?b = "execute_all cfg ((t, False) # map (\<lambda>t. (t, False)) ts) b"
  have p: "probed cfg (Suc (length ts)) ?b" and m: "int (Suc (length ts)) < bc_HalfOpenMaxRequests cfg"
    using snoc by simp_all
  have "probed cfg (Suc (Suc (length ts))) (snd (breaker_Execute cfg u u (Some False) ?b))"
    using half_open_step [of ?b "int (Suc (length ts))" cfg u False] p m assms(3)
    by (auto simp: probed_def Let_def add.commute split: if_splits)
  then show ?case by (simp add: execute_all_def case_prod_beta)
qed

text \<open>
  Used by one request at a time the breaker goes through its cycle: it opens with the failure
  that completes the configured number of failures in a row and is closed until then; while it is
  open and the timeout has not passed it admits nothing and changes nothing; after the timeout it
  admits requests, closes with the configured number of successes and not before, and opens again
  with the first failure.
\<close>

theorem breaker_cycle:
  assumes "config_ok cfg"
  shows "(cb_state b = StateClosed \<and> cb_failures b = 0 \<and> (\<forall>n\<le>length rs. last_failures (map snd (take n rs)) < bc_MaxFailures cfg) \<longrightarrow>
      cb_state (execute_all cfg rs b) = StateClosed \<and>
      (last_failures (map snd rs) + 1 = bc_MaxFailures cfg \<longrightarrow>
        cb_state (execute_all cfg (rs @ [(t, True)]) b) = StateOpen \<and>
        cb_lastFailureTime (execute_all cfg (rs @ [(t, True)]) b) = Some t)) \<and>
    (cb_state b = StateOpen \<and> cb_lastFailureTime b = Some t \<longrightarrow>
      (now - t \<le> bc_Timeout cfg \<longrightarrow> breaker_Execute cfg now t1 r b = (False, b)) \<and>
      (bc_Timeout cfg < now - t \<and> int (length ts) < bc_HalfOpenMaxRequests cfg \<longrightarrow>
        cb_state (execute_all cfg ((now, False) # map (\<lambda>t. (t, False)) ts) b) =
          (if int (length ts) + 1 = bc_HalfOpenMaxRequests cfg then StateClosed else StateHalfOpen) \<and>
        cb_state (execute_all cfg [(now, True)] b) = StateOpen \<and>
        (int (length ts) + 1 < bc_HalfOpenMaxRequests cfg \<longrightarrow>
          cb_state (execute_all cfg ((now, False) # map (\<lambda>t. (t, False)) ts @ [(u, True)]) b) = StateOpen)))"
proof (intro conjI impI; (elim conjE)?)
  assume c: "cb_state b = StateClosed" "cb_failures b = 0" "\<forall>n\<le>length rs. last_failures (map snd (take n rs)) < bc_MaxFailures cfg"
  note run = closed_run [OF c(1,2) assms c(3)]
  then show "cb_state (execute_all cfg rs b) = StateClosed" by blast
  assume l: "last_failures (map snd rs) + 1 = bc_MaxFailures cfg"
  have "last_failures (map snd rs) < bc_MaxFailures cfg" using l by simp
  from closed_step [OF _ _ this, of "execute_all cfg rs b" t True] run l
  show "cb_state (execute_all cfg (rs @ [(t, True)]) b) = StateOpen"
    "cb_lastFailureTime (execute_all cfg (rs @ [(t, True)]) b) = Some t"
    by (simp_all add: execute_all_def Let_def)
next
  assume "cb_state b = StateOpen" "cb_lastFailureTime b = Some t" "now - t \<le> bc_Timeout cfg"
  then show "breaker_Execute cfg now t1 r b = (False, b)" by (simp add: open_refuses timed_out_def)
next
  assume o: "cb_state b = StateOpen" "cb_lastFailureTime b = Some t" "bc_Timeout cfg < now - t"
    and len: "int (length ts) < bc_HalfOpenMaxRequests cfg"
  have t: "timed_out cfg now (cb_lastFailureTime b)" using o by (simp add: timed_out_def)
  have p: "probed cfg (Suc (length ts)) (execute_all cfg ((now, False) # map (\<lambda>t. (t, False)) ts) b)"
    by (rule probes [OF o(1) t assms]) (use len in simp)
  then show "cb_state (execute_all cfg ((now, False) # map (\<lambda>t. (t, False)) ts) b) =
          (if int (length ts) + 1 = bc_HalfOpenMaxRequests cfg then StateClosed else StateHalfOpen)"
    using len by (auto simp: probed_def split: if_splits)
  show "cb_state (execute_all cfg [(now, True)] b) = StateOpen"
    using open_probe [OF o(1) t, of True] assms by (simp add: execute_all_def config_ok_def Let_def)
  assume m: "int (length ts) + 1 < bc_HalfOpenMaxRequests cfg"
  let ?b = "execute_all cfg ((now, False) # map (\<lambda>t. (t, False)) ts) b"
  have "cb_state (snd (breaker_Execute cfg u u (Some True) ?b)) = StateOpen"
    using half_open_step [of ?b "int (length ts) + 1" cfg u True] p m assms by (simp add: probed_def Let_def add.commute)
  then show "cb_state (execute_all cfg ((now, False) # map (\<lambda>t. (t, False)) ts @ [(u, True)]) b) = StateOpen"
    by (simp add: execute_all_def case_prod_beta)
qed

theorem breaker_cycle_witness:
  "cb_state (execute_all DefaultConfig [(1, True), (2, False), (3, True), (4, True), (5, True), (6, True)] (snd (new_breaker None))) = StateClosed \<and>
   cb_state (execute_all DefaultConfig ([(1, True), (2, False), (3, True), (4, True), (5, True), (6, True)] @ [(7, True)]) (snd (new_breaker None))) = StateOpen"
proof -
  have c: "config_ok DefaultConfig" by (simp add: config_ok_def DefaultConfig_def)
  let ?rs = "[(1, True), (2, False), (3, True), (4, True), (5, True), (6, True)] :: (int \<times> bool) list"
  have n: "cb_state (snd (new_breaker None)) = StateClosed \<and> cb_failures (snd (new_breaker None)) = 0" by (simp add: new_breaker_def)
  have "last_failures (map snd (take n ?rs)) < 5" if "n \<le> 6" for n
  proof -
    have "n \<in> {0, 1, 2, 3, 4, 5, 6}" using that by auto
    then show ?thesis by (auto simp: last_failures_def)
  qed
  then show ?thesis using breaker_cycle [OF c, of "snd (new_breaker None)" ?rs 7] n
    by (simp add: last_failures_def DefaultConfig_def)
qed

section \<open>Lost results\<close>

text \<open>Requests of any kind, one after the other; how many were admitted.\<close>

fun execute_any :: "breaker_config \<Rightarrow> (int \<times> int \<times> bool option) list \<Rightarrow> breaker \<Rightarrow> nat \<times> breaker" where
  "execute_any cfg [] b = (0, b)"
| "execute_any cfg ((t0, t1, r) # xs) b =
     (case breaker_Execute cfg t0 t1 r b of
        (ok, b') \<Rightarrow> (case execute_any cfg xs b' of (n, b'') \<Rightarrow> ((if ok then Suc n else n), b'')))"

lemma exhausted_refuses:
  "\<lbrakk>cb_state b = StateHalfOpen; cb_halfOpenCount b = word_of_int c; bc_HalfOpenMaxRequests cfg \<le> c; config_ok cfg;
    c + int (length xs) < 2 ^ 31\<rbrakk> \<Longrightarrow>
   execute_any cfg xs b = (0, b\<lparr>cb_halfOpenCount := word_of_int (c + int (length xs))\<rparr>)"
proof (induction xs arbitrary: b c)
  case (Cons x xs)
  obtain t0 t1 r where x: "x = (t0, t1, r)" by (cases x)
  have w: "cb_halfOpenCount b + 1 = word_of_int (c + 1)" using Cons.prems(2) by (simp add: wi_hom_add [symmetric])
  have "sint (word_of_int (c + 1) :: 32 word) = c + 1" "sint (word_of_int (bc_HalfOpenMaxRequests cfg) :: 32 word) = bc_HalfOpenMaxRequests cfg"
    by (rule sint_small, use Cons.prems in \<open>auto simp: config_ok_def\<close>)+
  then have "\<not> sint (word_of_int (c + 1) :: 32 word) \<le> sint (word_of_int (bc_HalfOpenMaxRequests cfg) :: 32 word)"
    using Cons.prems(3) by linarith
  then have e: "breaker_Execute cfg t0 t1 r b = (False, b\<lparr>cb_halfOpenCount := word_of_int (c + 1)\<rparr>)"
    using Cons.prems(1) w by (simp add: breaker_Execute_def allowRequest_def Let_def)
  have "execute_any cfg xs (b\<lparr>cb_halfOpenCount := word_of_int (c + 1)\<rparr>) =
      (0, b\<lparr>cb_halfOpenCount := word_of_int (c + 1)\<rparr>\<lparr>cb_halfOpenCount := word_of_int (c + 1 + int (length xs))\<rparr>)"
    by (rule Cons.IH) (use Cons.prems in auto)
  then show ?case using e x by (simp add: add.assoc)
qed simp

lemma panics_exhaust:
  "\<lbrakk>cb_state b = StateHalfOpen; cb_halfOpenCount b = word_of_int c; 0 \<le> c; c + int n \<le> bc_HalfOpenMaxRequests cfg; config_ok cfg\<rbrakk> \<Longrightarrow>
   execute_any cfg (replicate n (t0, t1, None)) b = (n, b\<lparr>cb_halfOpenCount := word_of_int (c + int n)\<rparr>)"
proof (induction n arbitrary: b c)
  case (Suc n)
  have w: "cb_halfOpenCount b + 1 = word_of_int (c + 1)" using Suc.prems(2) by (simp add: wi_hom_add [symmetric])
  have "sint (word_of_int (c + 1) :: 32 word) = c + 1" "sint (word_of_int (bc_HalfOpenMaxRequests cfg) :: 32 word) = bc_HalfOpenMaxRequests cfg"
    by (rule sint_small, use Suc.prems in \<open>auto simp: config_ok_def\<close>)+
  then have "sint (word_of_int (c + 1) :: 32 word) \<le> sint (word_of_int (bc_HalfOpenMaxRequests cfg) :: 32 word)"
    using Suc.prems(4) by simp
  then have e: "breaker_Execute cfg t0 t1 None b = (True, b\<lparr>cb_halfOpenCount := word_of_int (c + 1)\<rparr>)"
    using Suc.prems(1) w by (simp add: breaker_Execute_def allowRequest_def Let_def)
  have "execute_any cfg (replicate n (t0, t1, None)) (b\<lparr>cb_halfOpenCount := word_of_int (c + 1)\<rparr>) =
      (n, b\<lparr>cb_halfOpenCount := word_of_int (c + 1)\<rparr>\<lparr>cb_halfOpenCount := word_of_int (c + 1 + int n)\<rparr>)"
    by (rule Suc.IH) (use Suc.prems in auto)
  then show ?case using e by (simp add: add.assoc)
qed simp

text \<open>
  Results that are lost wedge the breaker.  When the requests it admits after the timeout do not
  report back (the function panics), it admits one more than configured, and then nothing, however
  long one waits, until its counter of 32 bits wraps around.
\<close>

theorem lost_results_wedge_breaker:
  assumes "config_ok cfg" "cb_state b = StateOpen" "timed_out cfg t0 (cb_lastFailureTime b)"
    and "m = nat (bc_HalfOpenMaxRequests cfg)" "int m + int (length xs) < 2 ^ 31"
  shows "fst (execute_any cfg (replicate (Suc m) (t0, t1, None) @ xs) b) = Suc m \<and>
    cb_state (snd (execute_any cfg (replicate (Suc m) (t0, t1, None) @ xs) b)) = StateHalfOpen"
proof -
  have app: "execute_any cfg (xs @ ys) b = (case execute_any cfg xs b of (n, b') \<Rightarrow> case execute_any cfg ys b' of (k, b'') \<Rightarrow> (n + k, b''))"
    for xs ys b by (induction xs arbitrary: b) (auto split: prod.split)
  let ?h = "b\<lparr>cb_state := StateHalfOpen, cb_failures := 0, cb_successes := 0, cb_halfOpenCount := word_of_int 0\<rparr>"
  have m: "int m = bc_HalfOpenMaxRequests cfg" using assms(1,4) by (simp add: config_ok_def)
  have first: "breaker_Execute cfg t0 t1 None b = (True, ?h)"
    using assms(2,3) by (simp add: breaker_Execute_def allowRequest_def setState_def)
  have "execute_any cfg (replicate m (t0, t1, None)) ?h = (m, ?h\<lparr>cb_halfOpenCount := word_of_int (0 + int m)\<rparr>)"
    by (rule panics_exhaust) (use m assms(1) in auto)
  then have probes: "execute_any cfg (replicate (Suc m) (t0, t1, None)) b = (Suc m, ?h\<lparr>cb_halfOpenCount := word_of_int (int m)\<rparr>)"
    using first by simp
  have "execute_any cfg xs (?h\<lparr>cb_halfOpenCount := word_of_int (int m)\<rparr>) =
      (0, ?h\<lparr>cb_halfOpenCount := word_of_int (int m)\<rparr>\<lparr>cb_halfOpenCount := word_of_int (int m + int (length xs))\<rparr>)"
    by (rule exhausted_refuses) (use m assms(1,5) in auto)
  then show ?thesis unfolding app probes by simp
qed

theorem lost_results_wedge_breaker_witness:
  "fst (execute_any DefaultConfig (replicate 4 (40 * 1000000000, 0, None) @ [(1000000000 * 1000000000, 0, Some False)])
     (execute_all DefaultConfig (replicate 5 (1, True)) (snd (new_breaker None)))) = 4"
proof -
  let ?b = "execute_all DefaultConfig (replicate 5 (1, True)) (snd (new_breaker None))"
  have c: "config_ok DefaultConfig" by (simp add: config_ok_def DefaultConfig_def)
  have b: "cb_state ?b = StateOpen \<and> cb_lastFailureTime ?b = Some 1"
    by (simp add: execute_all_def breaker_Execute_def allowRequest_def recordResult_def recordFailure_def setState_def
        new_breaker_def DefaultConfig_def Let_def numeral_eq_Suc)
  have t: "timed_out DefaultConfig (40 * 1000000000) (cb_lastFailureTime ?b)" using b by (simp add: timed_out_def DefaultConfig_def)
  have m: "3 = nat (bc_HalfOpenMaxRequests DefaultConfig)" by (simp add: DefaultConfig_def)
  have "Suc 3 = 4" by simp
  then show ?thesis
    using lost_results_wedge_breaker [OF c conjunct1 [OF b] t m, of "[(1000000000 * 1000000000, 0, Some False)]" 0] by simp
qed

section \<open>The debouncer\<close>

record debouncer =
  db_interval :: int
  db_lastNanos :: int

definition new_debouncer :: "int \<Rightarrow> debouncer" where
  "new_debouncer interval = \<lparr>db_interval = (if interval < 1000000 then 1000000 else interval), db_lastNanos = 0\<rparr>"

text \<open>\<open>TryAcquire\<close>: the clock, the load of the last time, and the compare-and-swap.\<close>

definition may_acquire :: "debouncer \<Rightarrow> int \<Rightarrow> int \<Rightarrow> bool" where
  "may_acquire d now seen \<longleftrightarrow> seen = 0 \<or> db_interval d \<le> now - seen"

definition compare_and_swap :: "int \<Rightarrow> int \<Rightarrow> debouncer \<Rightarrow> bool \<times> debouncer" where
  "compare_and_swap seen now d = (if db_lastNanos d = seen then (True, d\<lparr>db_lastNanos := now\<rparr>) else (False, d))"

definition TryAcquire :: "int \<Rightarrow> int \<Rightarrow> debouncer \<Rightarrow> bool \<times> debouncer" where
  "TryAcquire now seen d = (if \<not> may_acquire d now seen then (False, d) else compare_and_swap seen now d)"

definition debouncer_Remaining :: "int \<Rightarrow> debouncer \<Rightarrow> int" where
  "debouncer_Remaining now d =
     (if db_lastNanos d = 0 then 0
      else let elapsed = now - db_lastNanos d in if db_interval d \<le> elapsed then 0 else db_interval d - elapsed)"

text \<open>Calls in the order of their compare-and-swap, each with what it has seen; the times of the winners.\<close>

fun winners :: "(int \<times> int) list \<Rightarrow> debouncer \<Rightarrow> int list" where
  "winners [] d = []"
| "winners ((now, seen) # cs) d = (case TryAcquire now seen d of (ok, d') \<Rightarrow> (if ok then [now] else []) @ winners cs d')"

fun spaced_by :: "int \<Rightarrow> int list \<Rightarrow> bool" where
  "spaced_by w (s # t # ts) \<longleftrightarrow> (s = 0 \<or> w \<le> t - s) \<and> spaced_by w (t # ts)"
| "spaced_by w _ = True"

lemma winners_spaced: "spaced_by (db_interval d) (db_lastNanos d # winners cs d)"
proof (induction cs d rule: winners.induct)
  case (2 now seen cs d)
  show ?case
  proof (cases "fst (TryAcquire now seen d)")
    case True
    then have "db_lastNanos d = seen" "seen = 0 \<or> db_interval d \<le> now - seen"
        and d: "snd (TryAcquire now seen d) = d\<lparr>db_lastNanos := now\<rparr>"
      by (auto simp: TryAcquire_def compare_and_swap_def may_acquire_def split: if_splits)
    moreover have "spaced_by (db_interval d) (now # winners cs (d\<lparr>db_lastNanos := now\<rparr>))"
      using 2 [of True "d\<lparr>db_lastNanos := now\<rparr>"] d True by (simp add: prod_eq_iff)
    moreover have "TryAcquire now seen d = (True, d\<lparr>db_lastNanos := now\<rparr>)" using True d by (simp add: prod_eq_iff)
    ultimately show ?thesis by auto
  next
    case False
    then have "TryAcquire now seen d = (False, d)"
      by (auto simp: TryAcquire_def compare_and_swap_def split: if_splits)
    then show ?thesis using 2 [of False d] by simp
  qed
qed simp

text \<open>
  Of any calls of the debouncer, however they overlap and whatever values of the last time they
  have seen, two that win one after the other are at least the interval apart, except after a win
  at the very start of the process, whose time is taken for "never".
\<close>

theorem debouncer_spaces_winners:
  "spaced_by (db_interval (new_debouncer interval)) (winners cs (new_debouncer interval))"
  using winners_spaced [of "new_debouncer interval" cs] by (cases "winners cs (new_debouncer interval)") simp_all

end
