(* ===== verification/SQL_Mask.thy ===== *)
theory SQL_Mask
  imports Encodings "HOL-Library.Sublist"
begin

text \<open>
  Masking of SQL text before it is rewritten by regular expressions
  (\<^verbatim>\<open>internal/sql/mask.go\<close>): string literals, and the \<open>FROM\<close> of functions like \<open>EXTRACT\<close>.
  A placeholder is a tag, a number and two underscores.
\<close>

section \<open>Placeholders\<close>

text \<open>\<^verbatim>\<open>strings.Replace\<close> of the first occurrence, and \<^verbatim>\<open>strings.Replacer\<close>, for texts to replace that are not empty.\<close>

fun replace_first :: "string \<Rightarrow> string \<Rightarrow> string \<Rightarrow> string" where
  "replace_first pat new [] = []"
| "replace_first pat new (c # s) =
     (if prefix pat (c # s) then new @ drop (length pat) (c # s) else c # replace_first pat new s)"

function replace_all :: "(string \<times> string) list \<Rightarrow> string \<Rightarrow> string" where
  "replace_all ps [] = []"
| "replace_all ps (c # s) =
     (case List.find (\<lambda>(pat, new). pat \<noteq> [] \<and> prefix pat (c # s)) ps of
        None \<Rightarrow> c # replace_all ps s
      | Some (pat, new) \<Rightarrow> new @ replace_all ps (drop (length pat) (c # s)))"
  by pat_completeness auto
termination
  by (relation "measure (length \<circ> snd)") (auto simp: find_Some_iff)

declare replace_all.simps(2) [simp del]

lemma replace_first_at:
  "\<lbrakk>\<And>p. p < length raw \<Longrightarrow> \<not> prefix pat (drop p (raw @ pat @ rest)); pat \<noteq> []\<rbrakk> \<Longrightarrow>
    replace_first pat new (raw @ pat @ rest) = raw @ new @ rest"
proof (induction raw)
  case Nil
  then obtain c t where "pat = c # t" by (cases pat) auto
  then show ?case by simp
next
  case (Cons c raw)
  have "\<not> prefix pat (c # raw @ pat @ rest)" using Cons.prems(1) [of 0] by simp
  moreover have "\<not> prefix pat (drop p (raw @ pat @ rest))" if "p < length raw" for p using Cons.prems(1) [of "Suc p"] that by simp
  ultimately show ?case using Cons.IH Cons.prems(2) by simp
qed

lemma show_nat_decimal: "c \<in> set (show_nat n) \<Longrightarrow> (of_char c :: nat) \<le> 57"
proof (induction n rule: show_nat.induct)
  case (1 n)
  then show ?case by (subst (asm) show_nat.simps) (auto simp: of_char_of split: if_splits)
qed

lemma show_nat_plain: "c \<in> {CHR ''_'', CHR 0x27, CHR 0x22} \<Longrightarrow> c \<notin> set (show_nat n)"
  using show_nat_decimal [of c n] show_nat_digits [of c n] by auto

lemma show_nat_head: "\<exists>c t. show_nat n = c # t \<and> c \<noteq> CHR ''_''"
proof -
  have "show_nat n \<noteq> []" by (subst show_nat.simps) simp
  then obtain c t where "show_nat n = c # t" by (cases "show_nat n") auto
  then show ?thesis using show_nat_plain [of "CHR ''_''" n] by auto
qed

text \<open>
  What makes a family of placeholders safe: shifted by less than its length the tag, continued by a
  digit, does not fit to itself.
\<close>

locale placeholders =
  fixes tag :: string
  assumes no_shift: "\<lbrakk>0 < d; d < length tag; c \<noteq> CHR ''_''\<rbrakk> \<Longrightarrow> drop d tag @ [c] \<noteq> take (Suc (length tag - d)) tag"
    and tag_nonempty: "tag \<noteq> []"
begin

definition holder :: "nat \<Rightarrow> string" where
  "holder k = tag @ show_nat k @ ''__''"

lemma holder_nonempty: "holder k \<noteq> []"
  using tag_nonempty by (simp add: holder_def)

lemma no_early:
  assumes "\<not> sublist tag raw" "p < length raw" "rest = [] \<or> (\<exists>k r. rest = holder k @ r)"
  shows "\<not> prefix (holder j) (drop p (raw @ rest))"
proof
  let ?u = "drop p raw"
  assume "prefix (holder j) (drop p (raw @ rest))"
  then have pre: "prefix (holder j) (?u @ rest)" using assms(2) by simp
  obtain c t where c: "show_nat j = c # t" "c \<noteq> CHR ''_''" using show_nat_head by blast
  have u: "?u \<noteq> []" using assms(2) by simp
  have tag: "prefix (tag @ [c]) (?u @ rest)" using pre c by (auto simp: holder_def prefix_def)
  show False
  proof (cases "length tag \<le> length ?u")
    case True
    then have "prefix tag ?u"
      using prefix_length_prefix [OF append_prefixD [OF tag], of ?u] True by auto
    then have "sublist tag ?u" by (rule prefix_imp_sublist)
    then have "sublist tag raw" using sublist_drop sublist_order.order.trans by blast
    then show False using assms(1) by blast
  next
    case False
    let ?d = "length ?u"
    have "drop ?d tag @ [c] = drop ?d (tag @ [c])" using False by simp
    moreover have "prefix (drop ?d (tag @ [c])) rest"
    proof -
      obtain z where "?u @ rest = (tag @ [c]) @ z" using tag by (auto simp: prefix_def)
      then have "drop ?d (?u @ rest) = drop ?d ((tag @ [c]) @ z)" by simp
      then show ?thesis using False by (simp add: prefix_def)
    qed
    ultimately have rest: "prefix (drop ?d tag @ [c]) rest" by simp
    then obtain k r where k: "rest = holder k @ r" using assms(3) by auto
    have n: "Suc (length tag - ?d) \<le> length tag" using u False by (cases "?d") auto
    have "prefix (take (Suc (length tag - ?d)) tag) (tag @ x)" for x by (rule prefix_prefix [OF take_is_prefix])
    then have pre2: "prefix (take (Suc (length tag - ?d)) tag) rest" by (simp add: k holder_def)
    have "length (drop ?d tag @ [c]) = length (take (Suc (length tag - ?d)) tag)" using n by simp
    then have "drop ?d tag @ [c] = take (Suc (length tag - ?d)) tag"
      using prefix_length_prefix [OF rest pre2] prefix_length_prefix [OF pre2 rest] prefix_order.antisym by (metis order_refl)
    then show False using no_shift [of ?d c] u False c(2) by auto
  qed
qed

lemma replace_holder:
  "\<not> sublist tag raw \<Longrightarrow> replace_first (holder k) new (raw @ holder k @ rest) = raw @ new @ rest"
  by (rule replace_first_at) (use no_early [of raw _ "holder k @ rest" k] holder_nonempty in auto)

lemma holder_prefix:
  assumes "prefix (holder j) (holder k @ r)"
  shows "j = k"
proof -
  have split: "takeWhile (\<lambda>c. c \<noteq> CHR ''_'') (show_nat n @ ''__'' @ x) = show_nat n" for n x
  proof -
    have "\<forall>c\<in>set (show_nat n). c \<noteq> CHR ''_''" using show_nat_plain by blast
    then show ?thesis by (simp add: takeWhile_append2)
  qed
  obtain z where "holder k @ r = holder j @ z" using assms by (auto simp: prefix_def)
  then have "show_nat k @ ''__'' @ r = show_nat j @ ''__'' @ z" by (simp add: holder_def)
  then show ?thesis using split [of k r] split [of j z] by (metis show_nat_inj)
qed

end

section \<open>String literals\<close>

definition StringPlaceholder :: "nat \<Rightarrow> string" where
  "StringPlaceholder k = ''__STR_'' @ show_nat k @ ''__''"

interpretation str: placeholders "''__STR_''"
  rewrites "placeholders.holder ''__STR_'' = StringPlaceholder"
proof -
  show str: "placeholders ''__STR_''"
  proof
    fix d :: nat and c :: char
    assume "0 < d" "d < length ''__STR_''" "c \<noteq> CHR ''_''"
    then have "d \<in> {1, 2, 3, 4, 5}" by auto
    then show "drop d ''__STR_'' @ [c] \<noteq> take (Suc (length ''__STR_'' - d)) ''__STR_''"
      using \<open>c \<noteq> CHR ''_''\<close> by auto
  qed simp
  show "placeholders.holder ''__STR_'' = StringPlaceholder"
    by (rule ext) (simp add: placeholders.holder_def [OF str] StringPlaceholder_def)
qed

definition is_quote :: "char \<Rightarrow> bool" where
  "is_quote c \<longleftrightarrow> c = CHR 0x27 \<or> c = CHR 0x22"

text \<open>The rest of a literal behind its opening quote, up to its closing quote, and what follows.\<close>

fun literal_rest :: "char \<Rightarrow> char \<Rightarrow> string \<Rightarrow> string \<times> string" where
  "literal_rest q prev [] = ([], [])"
| "literal_rest q prev [c] = ([c], [])"
| "literal_rest q prev (c # d # s) =
     (if c = q
      then if d = q then (case literal_rest q d s of (l, r) \<Rightarrow> (c # d # l, r))
           else if prev = CHR 0x5C then (case literal_rest q c (d # s) of (l, r) \<Rightarrow> (c # l, r))
           else ([c], d # s)
      else (case literal_rest q c (d # s) of (l, r) \<Rightarrow> (c # l, r)))"

lemma literal_rest_split: "literal_rest q prev s = (l, r) \<Longrightarrow> s = l @ r"
  by (induction q prev s arbitrary: l r rule: literal_rest.induct) (auto split: if_splits prod.splits)

lemma literal_rest_length: "(l, r) = literal_rest q prev s \<Longrightarrow> length r \<le> length s"
  using literal_rest_split [of q prev s l r] by simp

function mask_loop :: "nat \<Rightarrow> string \<Rightarrow> string \<times> (string \<times> string) list" where
  "mask_loop k [] = ([], [])"
| "mask_loop k (c # s) =
     (if is_quote c
      then (case literal_rest c c s of (l, r) \<Rightarrow>
            case mask_loop (Suc k) r of (out, ms) \<Rightarrow> (StringPlaceholder k @ out, (StringPlaceholder k, c # l) # ms))
      else (case mask_loop k s of (out, ms) \<Rightarrow> (c # out, ms)))"
  by pat_completeness auto
termination
  by (relation "measure (length \<circ> snd)") (auto dest: literal_rest_length)

definition MaskStringLiterals :: "string \<Rightarrow> bool \<Rightarrow> string \<times> (string \<times> string) list" where
  "MaskStringLiterals sql hasQuotes = (if \<not> hasQuotes then (sql, []) else mask_loop 0 sql)"

definition UnmaskStringLiterals :: "string \<Rightarrow> (string \<times> string) list \<Rightarrow> string" where
  "UnmaskStringLiterals sql masks = fold (\<lambda>(pat, new) s. replace_first pat new s) masks sql"

definition HasQuotes :: "string \<Rightarrow> bool" where
  "HasQuotes sql = list_ex is_quote sql"

definition EscapeStringLiteral :: "string \<Rightarrow> string" where
  "EscapeStringLiteral s = concat (map (\<lambda>c. if c = CHR 0x27 then [CHR 0x27, CHR 0x27] else [c]) s)"

lemma mask_loop_unmask:
  "\<not> sublist ''__STR_'' (pre @ s) \<Longrightarrow> UnmaskStringLiterals (pre @ fst (mask_loop k s)) (snd (mask_loop k s)) = pre @ s"
proof (induction k s arbitrary: pre rule: mask_loop.induct)
  case (1 k)
  then show ?case by (simp add: UnmaskStringLiterals_def)
next
  case (2 k c s)
  show ?case
  proof (cases "is_quote c")
    case True
    obtain l r where lr: "literal_rest c c s = (l, r)" by (cases "literal_rest c c s")
    obtain out ms where m: "mask_loop (Suc k) r = (out, ms)" by (cases "mask_loop (Suc k) r")
    have s: "s = l @ r" using literal_rest_split [OF lr] .
    have "\<not> sublist ''__STR_'' pre" using 2(3) by (meson sublist_appendI sublist_order.order.trans sublist_append_rightI)
    then have "replace_first (StringPlaceholder k) (c # l) (pre @ StringPlaceholder k @ out) = pre @ (c # l) @ out"
      by (rule str.replace_holder)
    moreover have "UnmaskStringLiterals ((pre @ c # l) @ out) ms = (pre @ c # l) @ r"
      using 2(1) [OF True lr [symmetric], of "pre @ c # l"] 2(3) m s by simp
    ultimately show ?thesis using True lr m s by (simp add: UnmaskStringLiterals_def)
  next
    case False
    obtain out ms where m: "mask_loop k s = (out, ms)" by (cases "mask_loop k s")
    show ?thesis using 2(2) [OF False, of "pre @ [c]"] 2(3) m False by simp
  qed
qed

lemma StringPlaceholder_plain: "c \<in> set (StringPlaceholder k) \<Longrightarrow> \<not> is_quote c"
  using show_nat_plain [of c k] by (auto simp: StringPlaceholder_def is_quote_def)

lemma mask_loop_plain: "c \<in> set (fst (mask_loop k s)) \<Longrightarrow> \<not> is_quote c"
proof (induction k s rule: mask_loop.induct)
  case (2 k c' s)
  then show ?case using StringPlaceholder_plain by (cases "is_quote c'") (auto split: prod.splits)
qed simp

text \<open>
  C31. Masking the string literals of a text and restoring them afterwards gives back the text, and the
  masked text has no quote left, whatever the literals contain, provided that the tag of the
  placeholders does not occur in the text.
\<close>

theorem masked_literals_are_restored:
  assumes "\<not> sublist ''__STR_'' sql"
  shows "(case MaskStringLiterals sql (HasQuotes sql) of
     (masked, masks) \<Rightarrow> UnmaskStringLiterals masked masks = sql \<and> list_all (\<lambda>c. \<not> is_quote c) masked)"
proof (cases "HasQuotes sql")
  case True
  then show ?thesis using mask_loop_unmask [of "[]" sql 0] assms mask_loop_plain [of _ 0 sql]
    by (simp add: MaskStringLiterals_def case_prod_beta list_all_iff)
next
  case False
  then show ?thesis by (simp add: MaskStringLiterals_def UnmaskStringLiterals_def HasQuotes_def list_ex_iff list_all_iff)
qed

text \<open>
  The proviso is needed: a literal that contains the placeholder of a later one is taken for it, and
  what was inside quotes comes out of them.
\<close>

lemma placeholder_numbers: "StringPlaceholder 0 = ''__STR_0__''" "StringPlaceholder (Suc 0) = ''__STR_1__''"
  by (code_simp, code_simp)

definition nested_text :: string where
  "nested_text = ''f('' @ [CHR 0x27] @ ''__STR_1__'' @ [CHR 0x27] @ '','' @ [CHR 0x27] @ ''; x'' @ [CHR 0x27] @ '')''"


text \<open>\<open>MaskStringLiterals\<close> takes a backslash for an escape, which it is not for DuckDB.\<close>

lemma backslash_hides_table:
  "MaskStringLiterals (''a='' @ [CHR 0x27, CHR 0x5C, CHR 0x27] @ '' FROM t WHERE b='' @ [CHR 0x27] @ ''x'' @ [CHR 0x27]) True =
     (''a=__STR_0__x__STR_1__'',
      [(''__STR_0__'', [CHR 0x27, CHR 0x5C, CHR 0x27] @ '' FROM t WHERE b='' @ [CHR 0x27]), (''__STR_1__'', [CHR 0x27])])"
  by (simp add: MaskStringLiterals_def is_quote_def placeholder_numbers)

section \<open>Literals as the database reads them\<close>

text \<open>Standard SQL: two quotes in a literal stand for one, nothing else is special.  The content and the rest.\<close>

fun read_literal :: "string \<Rightarrow> (string \<times> string) option" where
  "read_literal [] = None"
| "read_literal [c] = (if c = CHR 0x27 then Some ([], []) else None)"
| "read_literal (c # d # s) =
     (if c = CHR 0x27
      then if d = CHR 0x27 then map_option (\<lambda>(l, r). (CHR 0x27 # l, r)) (read_literal s) else Some ([], d # s)
      else map_option (\<lambda>(l, r). (c # l, r)) (read_literal (d # s)))"

lemma read_literal_plain: "c \<noteq> CHR 0x27 \<Longrightarrow> read_literal (c # s) = map_option (\<lambda>(l, r). (c # l, r)) (read_literal s)"
  by (cases s) simp_all

text \<open>
  Text escaped for a literal is read by the database as exactly that text, and the literal ends
  where it should: nothing in the text can end it early.
\<close>

theorem escaped_literal_reads_back:
  assumes "rest = [] \<or> hd rest \<noteq> CHR 0x27"
  shows "read_literal (EscapeStringLiteral s @ CHR 0x27 # rest) = Some (s, rest)"
proof (induction s)
  case Nil
  then show ?case using assms by (cases rest) (auto simp: EscapeStringLiteral_def)
next
  case (Cons c s)
  then show ?case by (cases "c = CHR 0x27") (simp_all add: EscapeStringLiteral_def read_literal_plain)
qed

theorem escaped_literal_reads_back_witness:
  "read_literal (EscapeStringLiteral (''it'' @ [CHR 0x27] @ ''s'') @ CHR 0x27 # '') x'') = Some (''it'' @ [CHR 0x27] @ ''s'', '') x'')"
  by (rule escaped_literal_reads_back) simp

section \<open>The keyword FROM inside function calls\<close>

definition fromKeywordFunctions :: "string list" where
  "fromKeywordFunctions = [''extract'', ''substring'', ''trim'', ''overlay'']"

definition char_range :: "nat \<Rightarrow> nat \<Rightarrow> char \<Rightarrow> bool" where
  "char_range lo hi c \<longleftrightarrow> lo \<le> of_char c \<and> of_char c \<le> hi"

definition isIdentByte :: "char \<Rightarrow> bool" where
  "isIdentByte c \<longleftrightarrow> char_range 97 122 c \<or> char_range 65 90 c \<or> char_range 48 57 c \<or> c = CHR ''_''"

definition fold_ascii :: "char \<Rightarrow> char" where
  "fold_ascii c = (if char_range 65 90 c then char_of (of_char c + 32 :: nat) else c)"

definition equalFoldASCII :: "string \<Rightarrow> string \<Rightarrow> bool" where
  "equalFoldASCII a b \<longleftrightarrow> length a = length b \<and> map fold_ascii a = map fold_ascii b"

definition is_blank :: "char \<Rightarrow> bool" where
  "is_blank c \<longleftrightarrow> c \<in> {CHR '' '', CHR 0x09, CHR 0x0A, CHR 0x0D}"

fun after_block :: "string \<Rightarrow> string" where
  "after_block (c # d # s) = (if c = CHR ''*'' \<and> d = CHR ''/'' then s else after_block (d # s))"
| "after_block _ = []"

lemma after_block_length: "length (after_block s) \<le> length s"
  by (induction s rule: after_block.induct) auto

text \<open>Forward over blanks and comments: what is left of the text.\<close>

function skipWhitespaceAndCommentsForward :: "string \<Rightarrow> string" where
  "skipWhitespaceAndCommentsForward s =
     (case s of
        [] \<Rightarrow> []
      | c # t \<Rightarrow>
          if is_blank c then skipWhitespaceAndCommentsForward t
          else if c = CHR ''/'' \<and> t \<noteq> [] \<and> hd t = CHR ''*'' then skipWhitespaceAndCommentsForward (after_block (tl t))
          else if c = CHR ''-'' \<and> t \<noteq> [] \<and> hd t = CHR ''-'' then skipWhitespaceAndCommentsForward (dropWhile (\<lambda>x. x \<noteq> CHR 0x0A) t)
          else s)"
  by pat_completeness auto
termination
proof (relation "measure length", goal_cases)
  case (3 s c t)
  then show ?case using after_block_length [of "tl t"] by (cases t) auto
next
  case (4 s c t)
  then show ?case using length_dropWhile_le [of "\<lambda>x. x \<noteq> CHR 0x0A" t] by simp
qed auto

declare skipWhitespaceAndCommentsForward.simps [simp del]

definition ends_word :: "string \<Rightarrow> bool" where
  "ends_word s \<longleftrightarrow> (case s of [] \<Rightarrow> True | c # _ \<Rightarrow> \<not> isIdentByte c)"

text \<open>The text before a position is kept reversed: its last byte comes first.\<close>

definition call_at :: "string \<Rightarrow> string \<Rightarrow> nat \<Rightarrow> bool" where
  "call_at sql name i \<longleftrightarrow>
     equalFoldASCII (take (length name) (drop i sql)) name \<and> ends_word (rev (take i sql)) \<and>
     ends_word (drop (i + length name) sql) \<and>
     (case skipWhitespaceAndCommentsForward (drop (i + length name) sql) of [] \<Rightarrow> False | c # _ \<Rightarrow> c = CHR ''('')"

definition findKeywordFunctionCall :: "string \<Rightarrow> string \<Rightarrow> nat option" where
  "findKeywordFunctionCall sql name = List.find (call_at sql name) [0..<Suc (length sql) - length name]"

definition ContainsFromKeywordFunction :: "string \<Rightarrow> bool" where
  "ContainsFromKeywordFunction sql = list_ex (\<lambda>name. findKeywordFunctionCall sql name \<noteq> None) fromKeywordFunctions"

fun before_block :: "string \<Rightarrow> string" where
  "before_block (c # d # s) = (if c = CHR ''*'' \<and> d = CHR ''/'' then s else before_block (d # s))"
| "before_block _ = []"

lemma before_block_length: "length (before_block s) \<le> length s"
  by (induction s rule: before_block.induct) auto

definition findDashCommentStartBackward :: "string \<Rightarrow> string option" where
  "findDashCommentStartBackward r =
     (let line = rev (takeWhile (\<lambda>x. x \<noteq> CHR 0x0A) r)
      in map_option (\<lambda>k. drop (length line - k) r)
           (List.find (\<lambda>k. line ! k = CHR ''-'' \<and> line ! Suc k = CHR ''-'') [0..<length line - 1]))"

lemma dash_comment_length: "findDashCommentStartBackward r = Some r' \<Longrightarrow> length r' < length r"
  using length_takeWhile_le [of "\<lambda>x. x \<noteq> CHR 0x0A" r]
  by (auto simp: findDashCommentStartBackward_def Let_def find_Some_iff)

function skipWhitespaceAndCommentsBack :: "string \<Rightarrow> string" where
  "skipWhitespaceAndCommentsBack r =
     (case r of
        [] \<Rightarrow> []
      | c # t \<Rightarrow>
          if is_blank c then skipWhitespaceAndCommentsBack t
          else if c = CHR ''/'' \<and> t \<noteq> [] \<and> hd t = CHR ''*'' then skipWhitespaceAndCommentsBack (before_block (tl t))
          else (case findDashCommentStartBackward r of
                  Some r' \<Rightarrow> skipWhitespaceAndCommentsBack r'
                | None \<Rightarrow> r))"
  by pat_completeness auto
termination
proof (relation "measure length", goal_cases)
  case (3 r c t)
  then show ?case using before_block_length [of "tl t"] by (cases t) auto
next
  case (4 r c t r')
  then show ?case using dash_comment_length [of r r'] by simp
qed auto

declare skipWhitespaceAndCommentsBack.simps [simp del]

definition isFromKeywordFuncBeforeParen :: "string \<Rightarrow> bool" where
  "isFromKeywordFuncBeforeParen before =
     (case skipWhitespaceAndCommentsBack before of
        [] \<Rightarrow> False
      | c # t \<Rightarrow>
          if c = CHR 0x22 \<or> c = CHR 0x60 then False
          else let ident = rev (takeWhile isIdentByte (c # t))
               in ident \<noteq> [] \<and> list_ex (equalFoldASCII ident) fromKeywordFunctions)"

definition isFromKeywordAt :: "string \<Rightarrow> string \<Rightarrow> bool" where
  "isFromKeywordAt before s \<longleftrightarrow>
     4 \<le> length s \<and> equalFoldASCII (take 4 s) ''from'' \<and> ends_word before \<and> ends_word (drop 4 s)"

definition FromPlaceholder :: "nat \<Rightarrow> string" where
  "FromPlaceholder k = ''__FROM_MASK_'' @ show_nat k @ ''__''"

text \<open>The loop: depth and stack of the parentheses, the number of the next mask, the text before and the text ahead.\<close>

function from_loop :: "int \<Rightarrow> int list \<Rightarrow> nat \<Rightarrow> string \<Rightarrow> string \<Rightarrow> string \<times> (string \<times> string) list" where
  "from_loop depth stack k before [] = ([], [])"
| "from_loop depth stack k before (c # s) =
     (if c = CHR ''(''
      then (case from_loop (depth + 1) (if isFromKeywordFuncBeforeParen before then (depth + 1) # stack else stack) k (c # before) s of
              (out, ms) \<Rightarrow> (c # out, ms))
      else if c = CHR '')''
      then (case from_loop (depth - 1) (case stack of frame # rest \<Rightarrow> if depth - 1 < frame then rest else stack | [] \<Rightarrow> []) k (c # before) s of
              (out, ms) \<Rightarrow> (c # out, ms))
      else if stack \<noteq> [] \<and> depth = hd stack \<and> (c = CHR ''f'' \<or> c = CHR ''F'') \<and> isFromKeywordAt before (c # s)
      then (case from_loop depth stack (Suc k) (rev (take 3 s) @ c # before) (drop 3 s) of
              (out, ms) \<Rightarrow> (FromPlaceholder k @ out, (FromPlaceholder k, c # take 3 s) # ms))
      else (case from_loop depth stack k (c # before) s of (out, ms) \<Rightarrow> (c # out, ms)))"
  by pat_completeness auto
termination
  by (relation "measure (\<lambda>(_, _, _, _, s). length s)") auto

declare from_loop.simps(2) [simp del]

definition MaskFromKeywordsInFunctionBodies :: "string \<Rightarrow> string \<times> (string \<times> string) list" where
  "MaskFromKeywordsInFunctionBodies sql =
     (if sql = [] \<or> \<not> ContainsFromKeywordFunction sql then (sql, []) else from_loop 0 [] 0 [] sql)"

definition UnmaskFromKeywordsInFunctionBodies :: "string \<Rightarrow> (string \<times> string) list \<Rightarrow> string" where
  "UnmaskFromKeywordsInFunctionBodies sql masks = (if masks = [] then sql else replace_all masks sql)"

interpretation frm: placeholders "''__FROM_MASK_''"
  rewrites "placeholders.holder ''__FROM_MASK_'' = FromPlaceholder"
proof -
  show frm: "placeholders ''__FROM_MASK_''"
  proof
    fix d :: nat and c :: char
    assume "0 < d" "d < length ''__FROM_MASK_''" "c \<noteq> CHR ''_''"
    then have "0 < d \<and> d < 12" by simp
    then have "d = 1 \<or> d = 2 \<or> d = 3 \<or> d = 4 \<or> d = 5 \<or> d = 6 \<or> d = 7 \<or> d = 8 \<or> d = 9 \<or> d = 10 \<or> d = 11" by presburger
    then show "drop d ''__FROM_MASK_'' @ [c] \<noteq> take (Suc (length ''__FROM_MASK_'' - d)) ''__FROM_MASK_''"
      using \<open>c \<noteq> CHR ''_''\<close> by auto
  qed simp
  show "placeholders.holder ''__FROM_MASK_'' = FromPlaceholder"
    by (rule ext) (simp add: placeholders.holder_def [OF frm] FromPlaceholder_def)
qed

text \<open>A step copies a byte or masks the keyword.\<close>

lemma from_loop_step:
  obtains (copy) d st where "from_loop depth stack k before (c # s) = (c # fst (from_loop d st k (c # before) s), snd (from_loop d st k (c # before) s))"
  | (mask) "isFromKeywordAt before (c # s)" "from_loop depth stack k before (c # s) =
      (FromPlaceholder k @ fst (from_loop depth stack (Suc k) (rev (take 3 s) @ c # before) (drop 3 s)),
       (FromPlaceholder k, c # take 3 s) # snd (from_loop depth stack (Suc k) (rev (take 3 s) @ c # before) (drop 3 s)))"
proof -
  consider "c = CHR ''(''" | "c = CHR '')''"
    | "c \<noteq> CHR ''(''" "c \<noteq> CHR '')''" "stack \<noteq> [] \<and> depth = hd stack \<and> (c = CHR ''f'' \<or> c = CHR ''F'') \<and> isFromKeywordAt before (c # s)"
    | "c \<noteq> CHR ''(''" "c \<noteq> CHR '')''" "\<not> (stack \<noteq> [] \<and> depth = hd stack \<and> (c = CHR ''f'' \<or> c = CHR ''F'') \<and> isFromKeywordAt before (c # s))"
    by blast
  then show thesis
  proof cases
    case 1
    show thesis by (rule copy) (simp only: from_loop.simps(2) 1 if_True simp_thms case_prod_beta)
  next
    case 2
    show thesis by (rule copy) (simp only: from_loop.simps(2) 2 char.inject if_True if_False simp_thms case_prod_beta)
  next
    case 3
    show thesis
    proof (rule mask)
      show "isFromKeywordAt before (c # s)" using 3(3) by blast
    qed (simp only: from_loop.simps(2) 3 if_True if_False simp_thms case_prod_beta)
  next
    case 4
    show thesis by (rule copy [of depth stack]) (simp only: from_loop.simps(2) 4 if_False simp_thms case_prod_beta)
  qed
qed

text \<open>The shape of what the loop writes: text as it was, up to a placeholder or the end.\<close>

definition copied_up_to_holder :: "string \<Rightarrow> string \<Rightarrow> bool" where
  "copied_up_to_holder out s \<longleftrightarrow> (\<exists>raw rest. out = raw @ rest \<and> prefix raw s \<and> (rest = [] \<or> (\<exists>j r. rest = FromPlaceholder j @ r)))"

lemma copied_step: "copied_up_to_holder out s \<Longrightarrow> copied_up_to_holder (c # out) (c # s)"
  unfolding copied_up_to_holder_def by (metis append_Cons Cons_prefix_Cons)

lemma from_loop_shape: "copied_up_to_holder (fst (from_loop depth stack k before s)) s"
proof (induction s arbitrary: depth stack k before)
  case Nil
  show ?case by (auto simp: copied_up_to_holder_def)
next
  case (Cons c s)
  show ?case
  proof (cases rule: from_loop_step [of depth stack k before c s])
    case (copy d st)
    then show ?thesis using copied_step [OF Cons.IH] by simp
  next
    case mask
    show ?thesis unfolding copied_up_to_holder_def mask(2)
      by (intro exI [of _ "[]"] exI [of _ "FromPlaceholder k @ fst (from_loop depth stack (Suc k) (rev (take 3 s) @ c # before) (drop 3 s))"]) auto
  qed
qed

text \<open>The masks carry different placeholders, from \<open>k\<close> on, and each stands for a spelling of the keyword.\<close>

lemma from_loop_masks:
  "map fst (snd (from_loop depth stack k before s)) = map FromPlaceholder [k..<k + length (snd (from_loop depth stack k before s))] \<and>
   list_all (\<lambda>m. equalFoldASCII (snd m) ''from'') (snd (from_loop depth stack k before s))"
proof (induction "length s" arbitrary: depth stack k before s rule: less_induct)
  case less
  show ?case
  proof (cases s)
    case (Cons c t)
    show ?thesis unfolding Cons
    proof (cases rule: from_loop_step [of depth stack k before c t])
      case (copy d st)
      then show "map fst (snd (from_loop depth stack k before (c # t))) =
          map FromPlaceholder [k..<k + length (snd (from_loop depth stack k before (c # t)))] \<and>
        list_all (\<lambda>m. equalFoldASCII (snd m) ''from'') (snd (from_loop depth stack k before (c # t)))"
        using less [of t d st k "c # before"] Cons by simp
    next
      case mask
      have upt: "[k..<Suc (k + n)] = k # [Suc k..<Suc (k + n)]" for n by (simp add: upt_rec [of k] del: upt_Suc)
      show "map fst (snd (from_loop depth stack k before (c # t))) =
          map FromPlaceholder [k..<k + length (snd (from_loop depth stack k before (c # t)))] \<and>
        list_all (\<lambda>m. equalFoldASCII (snd m) ''from'') (snd (from_loop depth stack k before (c # t)))"
        using less [of "drop 3 t" depth stack "Suc k" "rev (take 3 t) @ c # before"] Cons mask(1)
        unfolding mask(2) by (simp add: upt isFromKeywordAt_def del: upt_Suc)
    qed
  qed simp
qed

lemma FromPlaceholder_inj: "FromPlaceholder j = FromPlaceholder k \<longleftrightarrow> j = k"
  by (simp add: FromPlaceholder_def)

text \<open>In a list of masks with different placeholders exactly the right one is found.\<close>

lemma find_placeholder:
  assumes "(FromPlaceholder k, new) \<in> set ps" "\<forall>p\<in>set ps. fst p \<in> range FromPlaceholder" "distinct (map fst ps)"
  shows "List.find (\<lambda>(pat, new). pat \<noteq> [] \<and> prefix pat (FromPlaceholder k @ r)) ps = Some (FromPlaceholder k, new)"
proof (cases "List.find (\<lambda>(pat, new). pat \<noteq> [] \<and> prefix pat (FromPlaceholder k @ r)) ps")
  case None
  then have "\<not> (FromPlaceholder k \<noteq> [] \<and> prefix (FromPlaceholder k) (FromPlaceholder k @ r))"
    using assms(1) unfolding find_None_iff by blast
  then show ?thesis using frm.holder_nonempty by simp
next
  case (Some p)
  then obtain i where "i < length ps" "p = ps ! i" "prefix (fst p) (FromPlaceholder k @ r)" by (auto simp: find_Some_iff)
  then have p: "p \<in> set ps" "prefix (fst p) (FromPlaceholder k @ r)" by simp_all
  then obtain j where j: "fst p = FromPlaceholder j" using assms(2) by blast
  then have "fst p = FromPlaceholder k" using p(2) frm.holder_prefix [of j k r] by simp
  then have "p = (FromPlaceholder k, new)" using p(1) assms(1,3) by (metis eq_key_imp_eq_value prod.collapse)
  then show ?thesis using Some by simp
qed

lemma from_loop_restored:
  "\<lbrakk>\<not> sublist ''__FROM_MASK_'' s; set (snd (from_loop depth stack k before s)) \<subseteq> set ps;
    \<forall>p\<in>set ps. fst p \<in> range FromPlaceholder; distinct (map fst ps)\<rbrakk> \<Longrightarrow>
   replace_all ps (fst (from_loop depth stack k before s)) = s"
proof (induction "length s" arbitrary: depth stack k before s rule: less_induct)
  case less
  show ?case
  proof (cases s)
    case (Cons c t)
    have tail: "\<not> sublist ''__FROM_MASK_'' t" using less.prems(1) Cons by (meson sublist_Cons_right)
    show ?thesis
    proof (cases rule: from_loop_step [of depth stack k before c t])
      case (copy d st)
      let ?out = "fst (from_loop d st k (c # before) t)"
      have IH: "replace_all ps ?out = t" using less.hyps [of t d st k "c # before"] tail less.prems(2-4) copy Cons by simp
      obtain raw rest where shape: "?out = raw @ rest" "prefix raw t" "rest = [] \<or> (\<exists>j r. rest = FromPlaceholder j @ r)"
        using from_loop_shape [of d st k "c # before" t] unfolding copied_up_to_holder_def by (elim exE conjE) (rule that)
      have "\<not> sublist ''__FROM_MASK_'' (c # raw)"
      proof
        assume tag: "sublist ''__FROM_MASK_'' (c # raw)"
        have "prefix (c # raw) s" using shape(2) Cons by simp
        then have "sublist (c # raw) s" by (rule prefix_imp_sublist)
        then show False using sublist_order.order.trans [OF tag] less.prems(1) by blast
      qed
      then have "\<not> prefix (FromPlaceholder j) (c # raw @ rest)" for j
        using frm.no_early [of "c # raw" 0 rest j] shape(3) by simp
      then have "List.find (\<lambda>(pat, new). pat \<noteq> [] \<and> prefix pat (c # ?out)) ps = None"
        using less.prems(3) unfolding shape(1) find_None_iff by fastforce
      then show ?thesis using copy IH Cons by (simp add: replace_all.simps(2))
    next
      case mask
      let ?r = "from_loop depth stack (Suc k) (rev (take 3 t) @ c # before) (drop 3 t)"
      have "\<not> sublist ''__FROM_MASK_'' (drop 3 t)" using tail sublist_drop sublist_order.order.trans by blast
      then have IH: "replace_all ps (fst ?r) = drop 3 t"
        using less.hyps [of "drop 3 t" depth stack "Suc k" "rev (take 3 t) @ c # before"] less.prems(2-4) mask(2) Cons by simp
      obtain x u where xu: "FromPlaceholder k = x # u" by (simp add: FromPlaceholder_def)
      have "List.find (\<lambda>(pat, new). pat \<noteq> [] \<and> prefix pat (FromPlaceholder k @ fst ?r)) ps = Some (FromPlaceholder k, c # take 3 t)"
        by (rule find_placeholder) (use less.prems(2-4) mask(2) Cons in auto)
      then have "replace_all ps (FromPlaceholder k @ fst ?r) = (c # take 3 t) @ replace_all ps (fst ?r)"
        using xu by (simp add: replace_all.simps(2))
      then show ?thesis using mask(2) IH Cons by simp
    qed
  qed simp
qed


text \<open>Texts without an underscore have no tag.\<close>

lemma no_tag: "CHR ''_'' \<notin> set s \<Longrightarrow> \<not> sublist (CHR ''_'' # t) s"
  by (auto dest: set_mono_sublist)

theorem masked_literals_are_restored_witness:
  "(case MaskStringLiterals [CHR ''a'', CHR 0x27, CHR ''b'', CHR 0x27] (HasQuotes [CHR ''a'', CHR 0x27, CHR ''b'', CHR 0x27]) of
     (masked, masks) \<Rightarrow> UnmaskStringLiterals masked masks = [CHR ''a'', CHR 0x27, CHR ''b'', CHR 0x27])"
proof -
  have "CHR ''_'' \<notin> set [CHR ''a'', CHR 0x27, CHR ''b'', CHR 0x27]" by simp
  then show ?thesis using masked_literals_are_restored [OF no_tag] unfolding case_prod_beta by blast
qed


end
