(* ===== verification/Flush_Sort.thy ===== *)
theory Flush_Sort
  imports Prelude "HOL-Library.Multiset"
begin

text \<open>
  The order in which rows are written (\<^verbatim>\<open>permuteByTime\<close> and the radix sort below it, of
  \<^verbatim>\<open>internal/ingest/arrow_writer.go\<close>).  A permutation is the list of the table_row numbers in their
  new order; \<open>None\<close> is the nil slice, which stands for the identity.
\<close>

unbundle bit_operations_syntax

section \<open>sort.Slice\<close>

text \<open>
  \<^verbatim>\<open>sort.Slice\<close> is a parameter, for it is documented to be unstable: it permutes, and the result is
  ordered when the comparison is a strict weak order.
\<close>

type_synonym sorter = "(nat \<Rightarrow> nat \<Rightarrow> bool) \<Rightarrow> nat list \<Rightarrow> nat list"

definition weak_order :: "('a \<Rightarrow> 'a \<Rightarrow> bool) \<Rightarrow> bool" where
  "weak_order lt \<longleftrightarrow> (\<forall>a. \<not> lt a a) \<and> (\<forall>a b c. lt a b \<longrightarrow> lt b c \<longrightarrow> lt a c) \<and>
     (\<forall>a b c. lt a b \<longrightarrow> lt a c \<or> lt c b)"

definition sorts :: "sorter \<Rightarrow> bool" where
  "sorts srt \<longleftrightarrow> (\<forall>lt xs. mset (srt lt xs) = mset xs \<and>
     (weak_order lt \<longrightarrow> sorted_wrt (\<lambda>a b. \<not> lt b a) (srt lt xs)))"

lemma sorts_mset: "sorts srt \<Longrightarrow> mset (srt lt xs) = mset xs"
  by (simp add: sorts_def)

lemma sorts_sorted: "\<lbrakk>sorts srt; weak_order lt\<rbrakk> \<Longrightarrow> sorted_wrt (\<lambda>a b. \<not> lt b a) (srt lt xs)"
  by (simp add: sorts_def)

lemma weak_order_key: "weak_order (\<lambda>a b. (f a :: 'b::linorder) < f b)"
  by (auto simp: weak_order_def)

text \<open>Insertion sort, which is what the library does with short slices, has the documented behaviour.\<close>

fun insert_by :: "('a \<Rightarrow> 'a \<Rightarrow> bool) \<Rightarrow> 'a \<Rightarrow> 'a list \<Rightarrow> 'a list" where
  "insert_by lt x [] = [x]"
| "insert_by lt x (y # ys) = (if lt y x then y # insert_by lt x ys else x # y # ys)"

definition insertion_sort :: sorter where
  "insertion_sort lt xs = foldr (insert_by lt) xs []"

lemma mset_insert_by: "mset (insert_by lt x ys) = add_mset x (mset ys)"
  by (induction ys) auto

lemma set_insert_by: "set (insert_by lt x ys) = insert x (set ys)"
  by (induction ys) auto

lemma sorted_insert_by:
  assumes "weak_order lt"
  shows "sorted_wrt (\<lambda>a b. \<not> lt b a) ys \<Longrightarrow> sorted_wrt (\<lambda>a b. \<not> lt b a) (insert_by lt x ys)"
proof (induction ys)
  case (Cons y ys)
  show ?case
  proof (cases "lt y x")
    case True
    then have "\<not> lt x y" using assms unfolding weak_order_def by blast
    then show ?thesis using Cons True by (simp add: set_insert_by)
  next
    case False
    have "\<not> lt z x" if "z \<in> set ys" for z
    proof
      assume "lt z x"
      then have "lt z y \<or> lt y x" using assms unfolding weak_order_def by blast
      then show False using False Cons.prems that by simp
    qed
    then show ?thesis using Cons.prems False by simp
  qed
qed simp

lemma insertion_sort_sorts: "sorts insertion_sort"
proof -
  have "mset (insertion_sort lt xs) = mset xs" for lt xs
    by (induction xs) (simp_all add: insertion_sort_def mset_insert_by)
  moreover have "weak_order lt \<Longrightarrow> sorted_wrt (\<lambda>a b. \<not> lt b a) (insertion_sort lt xs)" for lt xs
    by (induction xs) (simp_all add: insertion_sort_def sorted_insert_by)
  ultimately show ?thesis by (simp add: sorts_def)
qed

section \<open>The radix sort\<close>

definition radixSortBias :: "64 word \<Rightarrow> 64 word" where
  "radixSortBias t = t XOR 0x8000000000000000"

definition digit :: "64 word list \<Rightarrow> nat \<Rightarrow> nat \<Rightarrow> nat" where
  "digit ts shift ix = unat (drop_bit shift (radixSortBias (ts ! ix)) AND 0xff)"

definition count_digits :: "(nat \<Rightarrow> nat) \<Rightarrow> nat list \<Rightarrow> nat \<Rightarrow> nat" where
  "count_digits d src = fold (\<lambda>ix cnt. cnt(d ix := cnt (d ix) + 1)) src (\<lambda>_. 0)"

definition prefix_sums :: "(nat \<Rightarrow> nat) \<Rightarrow> nat \<Rightarrow> nat" where
  "prefix_sums cnt = snd (fold (\<lambda>i (sum, c). (sum + c i, c(i := sum))) [0..<256] (0, cnt))"

definition place_step :: "(nat \<Rightarrow> nat) \<Rightarrow> nat \<Rightarrow> nat list \<times> (nat \<Rightarrow> nat) \<Rightarrow> nat list \<times> (nat \<Rightarrow> nat)" where
  "place_step d ix = (\<lambda>(dst, c). (dst[c (d ix) := ix], c(d ix := c (d ix) + 1)))"

definition radix_pass :: "(nat \<Rightarrow> nat) \<Rightarrow> nat list \<times> nat list \<Rightarrow> nat list \<times> nat list" where
  "radix_pass d = (\<lambda>(src, dst).
     let cnt = count_digits d src
     in if cnt (d (src ! 0)) = length src then (src, dst)
        else (fst (fold (place_step d) src (dst, prefix_sums cnt)), src))"

definition radixPermuteByTime :: "64 word list \<Rightarrow> nat list option" where
  "radixPermuteByTime ts =
     (let n = length ts
      in if n = 0 then None
         else Some (fst (fold (\<lambda>shift. radix_pass (digit ts shift)) [0, 8, 16, 24, 32, 40, 48, 56] ([0..<n], replicate n 0))))"

definition permuteByTimeSort :: "sorter \<Rightarrow> 64 word list \<Rightarrow> nat list" where
  "permuteByTimeSort srt ts = srt (\<lambda>i j. ts ! i <s ts ! j) [0..<length ts]"

definition radixSkipThreshold :: nat where
  "radixSkipThreshold = 4096"

definition permuteByTime :: "sorter \<Rightarrow> 64 word list \<Rightarrow> nat list option" where
  "permuteByTime srt ts =
     (let n = length ts
      in if n = 0 then None
         else if list_all (\<lambda>i. \<not> ts ! i <s ts ! (i - 1)) [1..<n] then None
         else if n < radixSkipThreshold then Some (permuteByTimeSort srt ts)
         else radixPermuteByTime ts)"

section \<open>A pass sorts by its digit\<close>

lemma count_digits: "count_digits d src k = length (filter (\<lambda>x. d x = k) src)"
proof -
  have "fold (\<lambda>ix cnt. cnt(d ix := cnt (d ix) + 1)) src c k = c k + length (filter (\<lambda>x. d x = k) src)" for c
    by (induction src arbitrary: c) auto
  then show ?thesis by (simp add: count_digits_def)
qed

lemma prefix_sums: "k < 256 \<Longrightarrow> prefix_sums cnt k = sum cnt {..<k}"
proof -
  have "fold (\<lambda>i (sum, c). (sum + c i, c(i := sum))) [0..<m] (0, cnt) =
      (sum cnt {..<m}, \<lambda>k. if k < m then sum cnt {..<k} else cnt k)" for m
    by (induction m) (auto simp: lessThan_Suc fun_eq_iff less_Suc_eq)
  then show "k < 256 \<Longrightarrow> prefix_sums cnt k = sum cnt {..<k}" by (simp add: prefix_sums_def)
qed

definition below :: "(nat \<Rightarrow> nat) \<Rightarrow> nat list \<Rightarrow> nat \<Rightarrow> nat" where
  "below d src k = length (filter (\<lambda>x. d x < k) src)"

lemma below_Suc: "below d src (Suc k) = below d src k + length (filter (\<lambda>x. d x = k) src)"
  by (induction src) (auto simp: below_def less_Suc_eq)

lemma below_sum: "(\<Sum>i<k. length (filter (\<lambda>x. d x = i) src)) = below d src k"
  by (induction k) (simp_all add: below_Suc, simp add: below_def)

lemma below_mono: "j < k \<Longrightarrow> below d src j + length (filter (\<lambda>x. d x = j) src) \<le> below d src k"
proof -
  assume "j < k"
  then have "below d src (Suc j) \<le> below d src k" by (induction src) (auto simp: below_def)
  then show ?thesis by (simp add: below_Suc)
qed

lemma below_le: "below d src k + length (filter (\<lambda>x. d x = k) src) \<le> length src"
  using length_filter_le [of "\<lambda>x. d x < Suc k" src] by (simp add: below_Suc [symmetric]) (simp add: below_def)

lemma take_drop_update: "p < b \<or> b + a \<le> p \<Longrightarrow> take a (drop b (xs[p := x])) = take a (drop b xs)"
  by (rule nth_equalityI) (auto simp: nth_list_update)

text \<open>While the items of \<open>src\<close> are placed one by one, every bucket holds those of its digit so far, in their order.\<close>

definition filled :: "(nat \<Rightarrow> nat) \<Rightarrow> nat list \<Rightarrow> nat list \<Rightarrow> nat list \<times> (nat \<Rightarrow> nat) \<Rightarrow> bool" where
  "filled d src xs = (\<lambda>(dst, c). length dst = length src \<and>
     (\<forall>k<256. c k = below d src k + length (filter (\<lambda>x. d x = k) xs) \<and>
       take (length (filter (\<lambda>x. d x = k) xs)) (drop (below d src k) dst) = filter (\<lambda>x. d x = k) xs))"

lemma filled_step:
  assumes "filled d src xs (dst, c)" "src = xs @ x # ys" "d x < 256"
  shows "filled d src (xs @ [x]) (place_step d x (dst, c))"
proof -
  let ?m = "length (filter (\<lambda>z. d z = d x) xs)" and ?b = "below d src (d x)"
  have len: "length dst = length src" using assms(1) by (simp add: filled_def)
  have c: "c (d x) = ?b + ?m" using assms(1,3) by (simp add: filled_def)
  have "?m < length (filter (\<lambda>z. d z = d x) src)" unfolding assms(2) by simp
  then have room: "?b + ?m < length src" and own: "?b + ?m < ?b + length (filter (\<lambda>z. d z = d x) src)"
    using below_le [of d src "d x"] by simp_all
  have same: "take (Suc ?m) (drop ?b (dst[?b + ?m := x])) = filter (\<lambda>z. d z = d x) xs @ [x]"
  proof -
    have "take ?m (drop ?b (dst[?b + ?m := x])) = filter (\<lambda>z. d z = d x) xs"
      using assms(1,3) by (simp add: filled_def take_drop_update)
    moreover have "?m < length (drop ?b (dst[?b + ?m := x]))" "drop ?b (dst[?b + ?m := x]) ! ?m = x"
      using room len by simp_all
    ultimately show ?thesis by (simp add: take_Suc_conv_app_nth)
  qed
  have other: "take (length (filter (\<lambda>z. d z = k) xs)) (drop (below d src k) (dst[?b + ?m := x])) = filter (\<lambda>z. d z = k) xs"
    if "k \<noteq> d x" "k < 256" for k
  proof -
    have "length (filter (\<lambda>z. d z = k) xs) \<le> length (filter (\<lambda>z. d z = k) src)" unfolding assms(2) by simp
    then have "?b + ?m < below d src k \<or> below d src k + length (filter (\<lambda>z. d z = k) xs) \<le> ?b + ?m"
      using that(1) below_mono [of k "d x" d src] below_mono [of "d x" k d src] own by (cases "k < d x") auto
    then show ?thesis using assms(1) that(2) by (simp add: filled_def take_drop_update)
  qed
  show ?thesis
    using assms(1) len c same other by (auto simp: filled_def place_step_def)
qed

lemma filled_all:
  assumes "\<forall>x\<in>set src. d x < 256" "length dst = length src" "\<forall>k<256. c k = below d src k"
  shows "src = xs @ ys \<Longrightarrow> filled d src xs (fold (place_step d) xs (dst, c))"
proof (induction xs arbitrary: ys rule: rev_induct)
  case Nil
  then show ?case using assms by (simp add: filled_def)
next
  case (snoc x xs)
  obtain dst' c' where f: "fold (place_step d) xs (dst, c) = (dst', c')" by fastforce
  then have "filled d src xs (dst', c')" using snoc.IH [of "x # ys"] snoc.prems by simp
  then show ?case using filled_step [of d src xs dst' c' x ys] f snoc.prems assms(1) by simp
qed

lemma filled_result:
  assumes "filled d src src (dst, c)" "\<forall>x\<in>set src. d x < 256"
  shows "dst = concat (map (\<lambda>k. filter (\<lambda>x. d x = k) src) [0..<256])"
proof -
  have "m \<le> 256 \<Longrightarrow> take (below d src m) dst = concat (map (\<lambda>k. filter (\<lambda>x. d x = k) src) [0..<m])" for m
  proof (induction m)
    case 0
    show ?case by (simp add: below_def)
  next
    case (Suc m)
    then show ?case using assms(1) by (simp add: below_Suc take_add filled_def)
  qed
  moreover have "below d src 256 = length dst" using assms by (simp add: below_def filled_def)
  ultimately show ?thesis by (metis order_refl take_all)
qed

lemma buckets_are_sorted:
  assumes "\<forall>x\<in>set src. d x < (m::nat)"
  shows "concat (map (\<lambda>k. filter (\<lambda>x. d x = k) src) [0..<m]) = sort_key d src"
proof (rule properties_for_sort_key [symmetric])
  have f: "filter (\<lambda>x. d x = j) (concat (map (\<lambda>k. filter (\<lambda>x. d x = k) src) [0..<n])) =
      (if j < n then filter (\<lambda>x. d x = j) src else [])" for n j
    by (induction n) (auto simp: less_Suc_eq intro!: filter_cong)
  show "filter (\<lambda>x. d k = d x) (concat (map (\<lambda>k. filter (\<lambda>x. d x = k) src) [0..<m])) = filter (\<lambda>x. d k = d x) src"
    if "k \<in> set (concat (map (\<lambda>k. filter (\<lambda>x. d x = k) src) [0..<m]))" for k
    using f [of "d k" m] that assms by (auto simp: eq_commute [of "d k"])
  have "sorted (map d (concat (map (\<lambda>k. filter (\<lambda>x. d x = k) src) [0..<n])))" for n
  proof (induction n)
    case (Suc n)
    have "sorted (map d (filter (\<lambda>x. d x = n) src))" by (induction src) auto
    then show ?case using Suc by (auto simp: sorted_append)
  qed simp
  then show "sorted (map d (concat (map (\<lambda>k. filter (\<lambda>x. d x = k) src) [0..<m])))" .
  show "mset (concat (map (\<lambda>k. filter (\<lambda>x. d x = k) src) [0..<m])) = mset src"
  proof (rule multiset_eqI)
    fix x
    have "count (mset (concat (map (\<lambda>k. filter (\<lambda>x. d x = k) src) [0..<n]))) x = (if d x < n then count (mset src) x else 0)" for n
      by (induction n) (auto simp: less_Suc_eq count_filter_mset)
    then show "count (mset (concat (map (\<lambda>k. filter (\<lambda>x. d x = k) src) [0..<m]))) x = count (mset src) x"
      using assms by (auto simp: count_mset_0_iff)
  qed
qed

lemma sort_key_constant: "\<forall>x\<in>set xs. f x = c \<Longrightarrow> sort_key f xs = xs"
  using sort_key_stable [of f c xs] by (simp add: filter_id_conv)

lemma radix_pass_sorts:
  assumes "\<forall>x\<in>set src. d x < 256" "length dst = length src" "src \<noteq> []"
  shows "radix_pass d (src, dst) = (sort_key d src, if sort_key d src = src then snd (radix_pass d (src, dst)) else src) \<and>
    length (snd (radix_pass d (src, dst))) = length src"
proof (cases "count_digits d src (d (src ! 0)) = length src")
  case True
  then have "length (filter (\<lambda>x. d x = d (src ! 0)) src) = length src" by (simp add: count_digits)
  then have "\<forall>x\<in>set src. d x = d (src ! 0)"
    by (metis (mono_tags, lifting) filter_id_conv length_filter_less less_irrefl)
  then have "sort_key d src = src" by (rule sort_key_constant)
  then show ?thesis using True assms(2) by (simp add: radix_pass_def)
next
  case False
  have c: "\<forall>k<256. prefix_sums (count_digits d src) k = below d src k"
    by (simp add: prefix_sums count_digits below_sum)
  obtain out c' where out: "fold (place_step d) src (dst, prefix_sums (count_digits d src)) = (out, c')" by fastforce
  have "filled d src src (out, c')" using filled_all [OF assms(1,2) c, of src "[]"] out by simp
  then have "out = sort_key d src" using filled_result assms(1) buckets_are_sorted by metis
  then show ?thesis using False out by (simp add: radix_pass_def)
qed

section \<open>The passes together\<close>

lemma sort_key_lex:
  fixes f g :: "'a \<Rightarrow> nat"
  assumes "\<And>x. g x < m"
  shows "sort_key f (sort_key g xs) = sort_key (\<lambda>x. f x * m + g x) xs"
proof (rule properties_for_sort_key [symmetric])
  have split: "f x * m + g x = f y * m + g y \<longleftrightarrow> f x = f y \<and> g x = g y" for x y
    using assms by (metis (no_types, lifting) add_right_cancel div_mult_self3 div_less less_nat_zero_code mod_less mod_mult_self3 add.left_neutral)
  show "filter (\<lambda>x. f k * m + g k = f x * m + g x) (sort_key f (sort_key g xs)) = filter (\<lambda>x. f k * m + g k = f x * m + g x) xs" for k
  proof -
    have a: "filter (\<lambda>x. f k * m + g k = f x * m + g x) ys = filter (\<lambda>x. g x = g k) (filter (\<lambda>x. f x = f k) ys)" for ys
      by (auto simp: split intro: filter_cong)
    have b: "filter (\<lambda>x. g x = g k) (filter (\<lambda>x. f x = f k) ys) = filter (\<lambda>x. f x = f k) (filter (\<lambda>x. g x = g k) ys)" for ys
      by (auto intro: filter_cong)
    show ?thesis unfolding a by (simp only: sort_key_stable b)
  qed
  have "sorted (map g (filter (\<lambda>x. f x = c) (sort_key f (sort_key g xs))))" for c
    by (simp add: sort_key_stable sorted_filter)
  moreover have "sorted (map f (sort_key f (sort_key g xs)))" by simp
  moreover have "\<lbrakk>sorted (map f ys); \<And>c. sorted (map g (filter (\<lambda>x. f x = c) ys))\<rbrakk> \<Longrightarrow> sorted (map (\<lambda>x. f x * m + g x) ys)" for ys
  proof (induction ys)
    case (Cons y ys)
    have g: "sorted (map g (filter (\<lambda>x. f x = c) ys))" for c
      using Cons.prems(2) [of c] by (cases "f y = c") auto
    have "f y * m + g y \<le> f x * m + g x" if "x \<in> set ys" for x
    proof (cases "f x = f y")
      case True
      then show ?thesis using Cons.prems(2) [of "f y"] that by simp
    next
      case False
      then have "Suc (f y) * m \<le> f x * m" using Cons.prems(1) that by (intro mult_le_mono1) (force simp: Suc_le_eq)
      then show ?thesis using assms [of y] by simp
    qed
    then show ?case using Cons.IH g Cons.prems(1) by simp
  qed simp
  ultimately show "sorted (map (\<lambda>x. f x * m + g x) (sort_key f (sort_key g xs)))" by blast
qed simp

lemma sort_key_iso:
  fixes f :: "'a \<Rightarrow> 'b::linorder" and h :: "'a \<Rightarrow> 'c::linorder"
  assumes "\<And>x y. f x \<le> f y \<longleftrightarrow> h x \<le> h y"
  shows "sort_key f xs = sort_key h xs"
proof -
  have "insort_key f x ys = insort_key h x ys" for x ys by (induction ys) (simp_all add: assms)
  then show ?thesis by (induction xs) simp_all
qed

definition bias :: "64 word list \<Rightarrow> nat \<Rightarrow> nat" where
  "bias ts i = unat (radixSortBias (ts ! i))"

lemma digit_bias: "digit ts shift i = bias ts i div 2 ^ shift mod 256"
proof -
  have a: "w AND 0xff = take_bit 8 w" for w :: "64 word" by (simp add: take_bit_eq_mask mask_eq_exp_minus_1)
  show ?thesis unfolding digit_def bias_def a by (simp add: unat_drop_bit_eq unsigned_take_bit_eq) (simp add: take_bit_eq_mod drop_bit_eq_div)
qed

lemma digit_bound: "digit ts shift i < 256"
  by (simp add: digit_bias)

lemma radix_passes:
  assumes "src = sort_key (\<lambda>i. bias ts i mod 2 ^ shift) [0..<n]" "length dst = n" "0 < n"
  shows "fst (radix_pass (digit ts shift) (src, dst)) = sort_key (\<lambda>i. bias ts i mod 2 ^ (shift + 8)) [0..<n] \<and>
    length (snd (radix_pass (digit ts shift) (src, dst))) = n"
proof -
  have src: "src \<noteq> []" "length src = n" using assms by (auto simp: length_0_conv [symmetric] simp del: length_0_conv)
  have "fst (radix_pass (digit ts shift) (src, dst)) = sort_key (digit ts shift) src \<and>
      length (snd (radix_pass (digit ts shift) (src, dst))) = n"
    using radix_pass_sorts [of src "digit ts shift" dst] digit_bound src assms(2) by (metis fst_conv)
  moreover have "sort_key (digit ts shift) src = sort_key (\<lambda>i. digit ts shift i * 2 ^ shift + bias ts i mod 2 ^ shift) [0..<n]"
    unfolding assms(1) by (rule sort_key_lex) simp
  moreover have "digit ts shift i * 2 ^ shift + bias ts i mod 2 ^ shift = bias ts i mod 2 ^ (shift + 8)" for i
    by (simp add: digit_bias power_add mod_mult2_eq)
  ultimately show ?thesis by simp
qed

text \<open>The biased keys are in the order of the timestamps.\<close>

lemma top_bit: "bit t 63 \<longleftrightarrow> 2 ^ 63 \<le> uint t" for t :: "64 word"
proof -
  have "uint t < 2 ^ 64" using uint_lt2p [of t] by simp
  then have d: "uint t div 2 ^ 63 = (if 2 ^ 63 \<le> uint t then 1 else 0)"
    using int_div_pos_eq [of "uint t" "2 ^ 63" 1 "uint t - 2 ^ 63"] by auto
  have "bit t 63 \<longleftrightarrow> bit (uint t) 63" by (simp add: bit_uint_iff)
  also have "\<dots> \<longleftrightarrow> odd (uint t div 2 ^ 63)" by (rule bit_iff_odd)
  finally show ?thesis unfolding d by simp
qed

lemma sint_split: "sint t = uint t - (if bit t 63 then 2 ^ 64 else 0)" for t :: "64 word"
proof -
  have "uint t < 2 ^ 64" using uint_lt2p [of t] by simp
  then have "take_bit (Suc 63) (uint t) = uint t" by (simp add: take_bit_int_eq_self_iff)
  then show ?thesis by (simp add: sint_uint signed_take_bit_eq_take_bit_minus bit_uint_iff)
qed

lemma bit_sign: "bit (0x8000000000000000 :: 64 word) n \<longleftrightarrow> n = 63"
proof -
  have "(0x8000000000000000 :: 64 word) = push_bit 63 1" by (simp add: push_bit_eq_mult)
  moreover have "bit (push_bit 63 1 :: 64 word) n \<longleftrightarrow> n = 63" unfolding bit_push_bit_iff bit_1_iff by auto
  ultimately show ?thesis by simp
qed

lemma flip_top: "\<not> bit t 63 \<Longrightarrow> uint (radixSortBias t) = uint t + 2 ^ 63"
proof -
  assume low: "\<not> bit t 63"
  have "t AND 0x8000000000000000 = 0"
  proof (rule bit_word_eqI)
    show "bit (t AND 0x8000000000000000) n = bit 0 n" for n unfolding bit_and_iff bit_sign using low by auto
  qed
  then have "radixSortBias t = t + 0x8000000000000000"
    unfolding radixSortBias_def by (simp add: disjunctive_add_eq_xor)
  then have "uint (radixSortBias t) = (uint t + 2 ^ 63) mod 2 ^ 64"
    by (simp add: uint_word_ariths)
  moreover have "0 \<le> uint t" "uint t < 2 ^ 63" using low by (simp_all add: top_bit)
  ultimately show ?thesis by simp
qed

lemma radixSortBias_sint: "int (unat (radixSortBias t)) = sint t + 2 ^ 63"
proof (cases "bit t 63")
  case False
  then show ?thesis by (simp add: flip_top sint_split)
next
  case True
  have twice: "radixSortBias (radixSortBias t) = t" by (simp add: radixSortBias_def xor.assoc)
  have "\<not> bit (radixSortBias t) 63"
    using True unfolding radixSortBias_def by (simp add: bit_xor_iff bit_sign)
  then have "uint t = uint (radixSortBias t) + 2 ^ 63" using flip_top [of "radixSortBias t"] twice by simp
  then show ?thesis using True by (simp add: sint_split)
qed

lemma radixPermuteByTime_sorts:
  "radixPermuteByTime ts = (if ts = [] then None else Some (sort_key (\<lambda>i. sint (ts ! i)) [0..<length ts]))"
proof (cases "ts = []")
  case False
  let ?n = "length ts" and ?p = "\<lambda>s. sort_key (\<lambda>i. bias ts i mod 2 ^ s) [0..<length ts]"
  have pass: "fst sd = ?p s \<and> length (snd sd) = ?n \<Longrightarrow>
      fst (radix_pass (digit ts s) sd) = ?p (s + 8) \<and> length (snd (radix_pass (digit ts s) sd)) = ?n" for s sd
    using radix_passes [of "fst sd" ts s ?n "snd sd"] False unfolding prod.collapse by simp
  have zero: "fst ([0..<?n], replicate ?n 0) = ?p 0 \<and> length (snd ([0..<?n], replicate ?n 0)) = ?n"
    by (simp add: sort_key_const)
  have "fst (fold (\<lambda>shift. radix_pass (digit ts shift)) [0, 8, 16, 24, 32, 40, 48, 56] ([0..<?n], replicate ?n 0)) = ?p 64"
    using pass [OF pass [OF pass [OF pass [OF pass [OF pass [OF pass [OF pass [OF zero]]]]]]]] by simp
  moreover have "bias ts i mod 2 ^ 64 = bias ts i" for i
  proof -
    have "unat (radixSortBias (ts ! i)) < 2 ^ 64" using unsigned_less [of "radixSortBias (ts ! i)", where 'a = nat] by simp
    then show ?thesis by (simp add: bias_def)
  qed
  moreover have "sort_key (bias ts) [0..<?n] = sort_key (\<lambda>i. sint (ts ! i)) [0..<?n]"
  proof (rule sort_key_iso)
    fix i j
    have "bias ts i \<le> bias ts j \<longleftrightarrow> int (bias ts i) \<le> int (bias ts j)" by (rule of_nat_le_iff [symmetric])
    also have "\<dots> \<longleftrightarrow> sint (ts ! i) \<le> sint (ts ! j)" unfolding bias_def radixSortBias_sint by simp
    finally show "bias ts i \<le> bias ts j \<longleftrightarrow> sint (ts ! i) \<le> sint (ts ! j)" .
  qed
  ultimately show ?thesis using False by (simp add: radixPermuteByTime_def Let_def)
qed (simp add: radixPermuteByTime_def)

section \<open>The permutation by time\<close>

definition in_time :: "64 word list \<Rightarrow> nat list \<Rightarrow> bool" where
  "in_time ts is = sorted (map (\<lambda>i. sint (ts ! i)) is)"

lemma permuteByTime_sorts:
  assumes "sorts srt"
  shows "case permuteByTime srt ts of None \<Rightarrow> in_time ts [0..<length ts]
    | Some is \<Rightarrow> mset is = mset [0..<length ts] \<and> in_time ts is"
proof -
  have small: "in_time ts (permuteByTimeSort srt ts)"
  proof -
    have "sorted_wrt (\<lambda>a b. \<not> sint (ts ! b) < sint (ts ! a)) (permuteByTimeSort srt ts)"
      using sorts_sorted [OF assms weak_order_key [of "\<lambda>i. sint (ts ! i)"], of "[0..<length ts]"]
      by (simp add: permuteByTimeSort_def word_sless_alt)
    then show ?thesis by (simp add: in_time_def sorted_map linorder_not_less)
  qed
  have none: "in_time ts [0..<length ts]" if "list_all (\<lambda>i. \<not> ts ! i <s ts ! (i - 1)) [1..<length ts]"
  proof -
    have "sint (ts ! i) \<le> sint (ts ! Suc i)" if "Suc i < length ts" for i
      using \<open>list_all _ _\<close> that by (auto simp: list_all_iff word_sless_alt dest: bspec [of _ _ "Suc i"])
    then show ?thesis by (simp add: in_time_def sorted_iff_nth_Suc)
  qed
  show ?thesis
    using small none sorts_mset [OF assms]
    by (auto simp: permuteByTime_def Let_def radixPermuteByTime_sorts in_time_def permuteByTimeSort_def split: if_splits)
qed

text \<open>
  C34. The radix sort permutes the rows exactly as a stable sort by the signed timestamp does,
  timestamps before 1970 included.
\<close>

theorem radix_is_stable_sort:
  "radixPermuteByTime ts = (if ts = [] then None else Some (sort_key (\<lambda>i. sint (ts ! i)) [0..<length ts]))"
  by (rule radixPermuteByTime_sorts)

end
