(* ===== verification/Flush_Batch.thy ===== *)
theory Flush_Batch
  imports Flush_Sort
begin

text \<open>
  Batches of typed columns and how the batches of a buffer become one
  (\<^verbatim>\<open>TypedColumnBatch\<close>, \<^verbatim>\<open>mergeBatches\<close>, \<^verbatim>\<open>getColumnSignature\<close> of
  \<^verbatim>\<open>internal/ingest/arrow_writer.go\<close>).  A Go map from column names is the list of its entries in
  the order in which the code ranges over it; a nil entry of \<^verbatim>\<open>Validity\<close> is an absent one, for both
  mean that everything is valid.
\<close>

section \<open>Typed columns\<close>

text \<open>A typed slice: the type of its elements and the elements.  Floating point numbers are their bits.\<close>

datatype kind = KInt64 | KFloat64 | KString | KBool | KDecimal

datatype element = EInt "64 word" | EFloat "64 word" | EString string | EBool bool | EDecimal int

record typed_column =
  col_kind :: kind
  col_elems :: "element list"

record typed_batch =
  tb_Data :: "(string \<times> typed_column) list"
  tb_Validity :: "(string \<times> bool list) list"
  tb_TagColumns :: "string list"
  tb_DedupTime :: bool
  tb_Signature :: string

fun kind_zero :: "kind \<Rightarrow> element" where
  "kind_zero KInt64 = EInt 0"
| "kind_zero KFloat64 = EFloat 0"
| "kind_zero KString = EString []"
| "kind_zero KBool = EBool False"
| "kind_zero KDecimal = EDecimal 0"

fun as_int64 :: "element \<Rightarrow> 64 word" where
  "as_int64 (EInt w) = w"
| "as_int64 _ = 0"

definition int64s :: "typed_column \<Rightarrow> 64 word list option" where
  "int64s c = (if col_kind c = KInt64 then Some (map as_int64 (col_elems c)) else None)"

definition time_column :: "(string \<times> typed_column) list \<Rightarrow> 64 word list option" where
  "time_column cols = (case map_of cols ''time'' of Some c \<Rightarrow> int64s c | None \<Rightarrow> None)"

definition batch_rows :: "typed_batch \<Rightarrow> nat" where
  "batch_rows b = (case time_column (tb_Data b) of Some ts \<Rightarrow> length ts | None \<Rightarrow> 0)"

section \<open>Signatures\<close>

fun kind_name :: "kind \<Rightarrow> string" where
  "kind_name KInt64 = ''i64''"
| "kind_name KFloat64 = ''f64''"
| "kind_name KString = ''str''"
| "kind_name KBool = ''bool''"
| "kind_name KDecimal = ''dec''"

fun join_commas :: "string list \<Rightarrow> string" where
  "join_commas [] = []"
| "join_commas [s] = s"
| "join_commas (s # t # ss) = s @ '','' @ join_commas (t # ss)"

definition internal_column :: "string \<Rightarrow> bool" where
  "internal_column name \<longleftrightarrow> name = [] \<or> hd name = CHR ''_''"

definition getColumnSignature :: "(string \<times> typed_column) list \<Rightarrow> string" where
  "getColumnSignature cols =
     join_commas (map (\<lambda>(name, c). name @ '':'' @ kind_name (col_kind c))
       (sort_key fst (filter (\<lambda>(name, c). \<not> internal_column name) cols)))"

section \<open>Merging\<close>

text \<open>\<open>MergePanic\<close>: a type assertion of the code fails, which ends the process.\<close>

datatype merge_outcome = Merged typed_batch | NoBatches | MergePanic

text \<open>The column types: of the first batch that has the column.\<close>

definition column_types :: "typed_batch list \<Rightarrow> (string \<times> kind) list" where
  "column_types batches =
     fold (\<lambda>b. fold (\<lambda>(name, c) types. if map_of types name = None then types @ [(name, col_kind c)] else types) (tb_Data b))
       batches []"

text \<open>Go's \<^verbatim>\<open>copy(dst[off:], src)\<close>.\<close>

definition copy_at :: "nat \<Rightarrow> 'a list \<Rightarrow> 'a list \<Rightarrow> 'a list" where
  "copy_at off src dst = take off dst @ take (length dst - off) src @ drop (off + length src) dst"

definition merge_data :: "nat \<Rightarrow> typed_batch \<Rightarrow> (string \<times> typed_column) list \<Rightarrow> (string \<times> typed_column) list" where
  "merge_data off b =
     map (\<lambda>(name, d).
       (name, case map_of (tb_Data b) name of None \<Rightarrow> d | Some c \<Rightarrow> d\<lparr>col_elems := copy_at off (col_elems c) (col_elems d)\<rparr>))"

definition merge_validity :: "nat \<Rightarrow> typed_batch \<Rightarrow> (string \<times> bool list) list \<Rightarrow> (string \<times> bool list) list" where
  "merge_validity off b =
     map (\<lambda>(name, v).
       (name, case map_of (tb_Data b) name of
                None \<Rightarrow> v
              | Some _ \<Rightarrow> copy_at off (case map_of (tb_Validity b) name of
                                    Some w \<Rightarrow> take (batch_rows b) w
                                  | None \<Rightarrow> replicate (batch_rows b) True) v))"

definition merge_batch ::
  "typed_batch \<Rightarrow> nat \<times> (string \<times> typed_column) list \<times> (string \<times> bool list) list \<Rightarrow>
   nat \<times> (string \<times> typed_column) list \<times> (string \<times> bool list) list" where
  "merge_batch b = (\<lambda>(off, data, valid). (off + batch_rows b, merge_data off b data, merge_validity off b valid))"

definition kind_clash :: "(string \<times> kind) list \<Rightarrow> typed_batch \<Rightarrow> bool" where
  "kind_clash types b = list_ex (\<lambda>(name, c). map_of types name \<noteq> Some (col_kind c)) (tb_Data b)"

definition needs_validity :: "(string \<times> kind) list \<Rightarrow> typed_batch list \<Rightarrow> bool" where
  "needs_validity types batches =
     (list_ex (\<lambda>b. tb_Validity b \<noteq> []) batches \<or> list_ex (\<lambda>b. length (tb_Data b) < length types) batches)"

definition mergeBatches :: "typed_batch list \<Rightarrow> merge_outcome" where
  "mergeBatches batches =
     (case batches of
        [] \<Rightarrow> NoBatches
      | [b] \<Rightarrow> Merged b
      | _ \<Rightarrow>
          let types = column_types batches;
              total = sum_list (map batch_rows batches);
              needs = needs_validity types batches
          in if list_ex (kind_clash types) batches then MergePanic
             else case fold merge_batch batches
                    (0, map (\<lambda>(name, k). (name, \<lparr>col_kind = k, col_elems = replicate total (kind_zero k)\<rparr>)) types,
                     if needs then map (\<lambda>(name, k). (name, replicate total False)) types else []) of
                    (off, data, valid) \<Rightarrow>
                      Merged \<lparr>tb_Data = data, tb_Validity = filter (\<lambda>(name, v). \<not> list_all id v) valid,
                              tb_TagColumns = remdups (concat (map tb_TagColumns batches)),
                              tb_DedupTime = list_ex tb_DedupTime batches, tb_Signature = []\<rparr>)"

section \<open>Rows\<close>

text \<open>What a batch stands for: a list of rows, partial functions from columns to elements.\<close>

type_synonym table_row = "string \<rightharpoonup> element"

definition valid_at :: "typed_batch \<Rightarrow> string \<Rightarrow> nat \<Rightarrow> bool" where
  "valid_at b name i = (case map_of (tb_Validity b) name of None \<Rightarrow> True | Some v \<Rightarrow> v ! i)"

definition row_at :: "typed_batch \<Rightarrow> nat \<Rightarrow> table_row" where
  "row_at b i = (\<lambda>name. case map_of (tb_Data b) name of
     None \<Rightarrow> None
   | Some c \<Rightarrow> if valid_at b name i then Some (col_elems c ! i) else None)"

definition rows :: "typed_batch \<Rightarrow> table_row list" where
  "rows b = map (row_at b) [0..<batch_rows b]"

text \<open>What \<^verbatim>\<open>convertColumnsToTyped\<close> makes: columns of the length of the time column, whose values are all there.\<close>

definition batch_ok :: "typed_batch \<Rightarrow> bool" where
  "batch_ok b \<longleftrightarrow>
     distinct (map fst (tb_Data b)) \<and> distinct (map fst (tb_Validity b)) \<and> time_column (tb_Data b) \<noteq> None \<and>
     (\<forall>(name, c)\<in>set (tb_Data b). length (col_elems c) = batch_rows b) \<and>
     (\<forall>(name, v)\<in>set (tb_Validity b). length v = batch_rows b \<and> name \<noteq> ''time'' \<and> name \<in> fst ` set (tb_Data b))"

definition same_kinds :: "typed_batch list \<Rightarrow> bool" where
  "same_kinds batches \<longleftrightarrow>
     (\<forall>b\<in>set batches. \<forall>(name, c)\<in>set (tb_Data b). \<forall>b'\<in>set batches. \<forall>(name', c')\<in>set (tb_Data b').
        name = name' \<longrightarrow> col_kind c = col_kind c')"

lemma copy_at_append:
  "\<lbrakk>length pre = off; length xs = n\<rbrakk> \<Longrightarrow> copy_at off xs (pre @ replicate n z @ replicate m z) = pre @ xs @ replicate m z"
  by (simp add: copy_at_def)

text \<open>The part of a merged column that comes from one batch.\<close>

definition data_part :: "string \<Rightarrow> kind \<Rightarrow> typed_batch \<Rightarrow> element list" where
  "data_part name k b = (case map_of (tb_Data b) name of None \<Rightarrow> replicate (batch_rows b) (kind_zero k) | Some c \<Rightarrow> col_elems c)"

definition valid_part :: "string \<Rightarrow> typed_batch \<Rightarrow> bool list" where
  "valid_part name b =
     (case map_of (tb_Data b) name of
        None \<Rightarrow> replicate (batch_rows b) False
      | Some _ \<Rightarrow> (case map_of (tb_Validity b) name of Some w \<Rightarrow> w | None \<Rightarrow> replicate (batch_rows b) True))"

lemma well_formed_lengths:
  assumes "batch_ok b"
  shows "length (data_part name k b) = batch_rows b" "length (valid_part name b) = batch_rows b"
    "map_of (tb_Validity b) name = Some w \<Longrightarrow> length w = batch_rows b"
    "map_of (tb_Data b) name = Some c \<Longrightarrow> length (col_elems c) = batch_rows b"
  using assms
  by (auto simp: batch_ok_def data_part_def valid_part_def split: option.splits dest!: map_of_SomeD)

lemma merge_parts:
  assumes "\<forall>b\<in>set bs. batch_ok b" "\<And>name k. length (pre name k) = off" "\<And>name. length (vpre name) = off"
  shows "fold merge_batch bs
      (off, map (\<lambda>(name, k). (name, \<lparr>col_kind = k, col_elems = pre name k @ replicate (sum_list (map batch_rows bs)) (kind_zero k)\<rparr>)) types,
       map (\<lambda>(name, k). (name, vpre name @ replicate (sum_list (map batch_rows bs)) False)) vtypes) =
     (off + sum_list (map batch_rows bs),
      map (\<lambda>(name, k). (name, \<lparr>col_kind = k, col_elems = pre name k @ concat (map (data_part name k) bs)\<rparr>)) types,
      map (\<lambda>(name, k). (name, vpre name @ concat (map (valid_part name) bs))) vtypes)"
  using assms
proof (induction bs arbitrary: off pre vpre)
  case (Cons b bs)
  let ?n = "batch_rows b" and ?m = "sum_list (map batch_rows bs)"
  have wf: "batch_ok b" using Cons.prems(1) by simp
  have d: "merge_data off b (map (\<lambda>(name, k). (name, \<lparr>col_kind = k, col_elems = pre name k @ replicate (?n + ?m) (kind_zero k)\<rparr>)) types) =
      map (\<lambda>(name, k). (name, \<lparr>col_kind = k, col_elems = (pre name k @ data_part name k b) @ replicate ?m (kind_zero k)\<rparr>)) types"
    using Cons.prems(2) well_formed_lengths(4) [OF wf]
    by (auto simp: merge_data_def data_part_def copy_at_append replicate_add split: option.splits)
  have v: "merge_validity off b (map (\<lambda>(name, k). (name, vpre name @ replicate (?n + ?m) False)) vtypes) =
      map (\<lambda>(name, k). (name, (vpre name @ valid_part name b) @ replicate ?m False)) vtypes"
    using Cons.prems(3) well_formed_lengths(3) [OF wf]
    by (auto simp: merge_validity_def valid_part_def copy_at_append replicate_add split: option.splits)
  show ?case
    using Cons.IH [of "\<lambda>name k. pre name k @ data_part name k b" "off + ?n" "\<lambda>name. vpre name @ valid_part name b"]
      Cons.prems well_formed_lengths(1,2) [OF wf]
    by (simp add: merge_batch_def d v add.assoc)
qed simp

section \<open>The types of the columns\<close>

lemma column_types_fold:
  "distinct (map fst types) \<Longrightarrow>
   distinct (map fst (fold (\<lambda>(name, c) types. if map_of types name = None then types @ [(name, col_kind c)] else types) cols types)) \<and>
   (\<forall>name. map_of (fold (\<lambda>(name, c) types. if map_of types name = None then types @ [(name, col_kind c)] else types) cols types) name =
     (case map_of types name of Some k \<Rightarrow> Some k | None \<Rightarrow> map_option col_kind (map_of cols name)))"
proof (induction cols arbitrary: types)
  case (Cons nc cols)
  obtain n c where nc: "nc = (n, c)" by (cases nc)
  show ?case
  proof (cases "map_of types n")
    case None
    then have "n \<notin> fst ` set types" by (simp add: map_of_eq_None_iff)
    then have "distinct (map fst (types @ [(n, col_kind c)]))" using Cons.prems by simp
    then show ?thesis using Cons.IH [of "types @ [(n, col_kind c)]"] None nc
      by (auto simp: map_add_def map_of_append split: option.splits)
  next
    case (Some k)
    then show ?thesis using Cons.IH [OF Cons.prems] nc by (auto split: option.splits)
  qed
qed (simp split: option.splits)

lemma column_types_step:
  "distinct (map fst types) \<Longrightarrow>
   distinct (map fst (fold (\<lambda>b. fold (\<lambda>(name, c) types. if map_of types name = None then types @ [(name, col_kind c)] else types) (tb_Data b)) bs types)) \<and>
   (\<forall>name. map_of (fold (\<lambda>b. fold (\<lambda>(name, c) types. if map_of types name = None then types @ [(name, col_kind c)] else types) (tb_Data b)) bs types) name =
     (case map_of types name of Some k \<Rightarrow> Some k
      | None \<Rightarrow> map_option (\<lambda>b. col_kind (the (map_of (tb_Data b) name))) (List.find (\<lambda>b. map_of (tb_Data b) name \<noteq> None) bs)))"
proof (induction bs arbitrary: types)
  case (Cons b bs)
  note f = column_types_fold [OF Cons.prems, of "tb_Data b"]
  show ?case using Cons.IH [OF conjunct1 [OF f]] conjunct2 [OF f] by (auto split: option.splits)
qed (simp split: option.splits)

lemma column_types_distinct: "distinct (map fst (column_types bs))"
  using column_types_step [of "[]" bs] by (simp add: column_types_def)

lemma column_types_first:
  "map_of (column_types bs) name =
     map_option (\<lambda>b. col_kind (the (map_of (tb_Data b) name))) (List.find (\<lambda>b. map_of (tb_Data b) name \<noteq> None) bs)"
  using column_types_step [of "[]" bs] by (simp add: column_types_def)

lemma same_kindsD:
  assumes "same_kinds bs" "b \<in> set bs" "b' \<in> set bs" "(name, c) \<in> set (tb_Data b)" "(name, c') \<in> set (tb_Data b')"
  shows "col_kind c = col_kind c'"
proof -
  have "\<forall>b\<in>set bs. \<forall>x\<in>set (tb_Data b). \<forall>b'\<in>set bs. \<forall>y\<in>set (tb_Data b'). fst x = fst y \<longrightarrow> col_kind (snd x) = col_kind (snd y)"
    using assms(1) unfolding same_kinds_def case_prod_beta .
  from bspec [OF bspec [OF bspec [OF bspec [OF this assms(2)] assms(4)] assms(3)] assms(5)] show ?thesis by simp
qed

lemma column_types_None: "map_of (column_types bs) name = None \<longleftrightarrow> (\<forall>b\<in>set bs. map_of (tb_Data b) name = None)"
  by (auto simp: column_types_first find_None_iff)

lemma column_types_Some:
  assumes "same_kinds bs" "b \<in> set bs" "map_of (tb_Data b) name = Some c"
  shows "map_of (column_types bs) name = Some (col_kind c)"
proof -
  have "List.find (\<lambda>b. map_of (tb_Data b) name \<noteq> None) bs \<noteq> None"
    using assms(2,3) by (auto simp: find_None_iff)
  then obtain b' where b': "List.find (\<lambda>b. map_of (tb_Data b) name \<noteq> None) bs = Some b'" by blast
  then obtain c' where c': "b' \<in> set bs" "map_of (tb_Data b') name = Some c'" by (auto simp: find_Some_iff)
  have "col_kind c' = col_kind c"
    by (rule same_kindsD [OF assms(1) c'(1) assms(2) map_of_SomeD [OF c'(2)] map_of_SomeD [OF assms(3)]])
  then show ?thesis using b' \<open>map_of (tb_Data b') name = Some c'\<close> by (simp add: column_types_first)
qed

lemma no_kind_clash:
  assumes "same_kinds bs" "\<forall>b\<in>set bs. batch_ok b"
  shows "\<not> list_ex (kind_clash (column_types bs)) bs"
proof -
  have "map_of (column_types bs) name = Some (col_kind c)" if "b \<in> set bs" "(name, c) \<in> set (tb_Data b)" for b name c
    using column_types_Some [OF assms(1) that(1)] that assms(2) by (simp add: batch_ok_def)
  then show ?thesis by (auto simp: list_ex_iff kind_clash_def)
qed

section \<open>Merging keeps the rows\<close>

text \<open>The places of the rows: which batch and which row of it.\<close>

definition places :: "typed_batch list \<Rightarrow> (typed_batch \<times> nat) list" where
  "places bs = concat (map (\<lambda>b. map (Pair b) [0..<batch_rows b]) bs)"

lemma length_places: "length (places bs) = sum_list (map batch_rows bs)"
  by (simp add: places_def length_concat comp_def)

lemma concat_places:
  "(\<And>b. b \<in> set bs \<Longrightarrow> length (f b) = batch_rows b) \<Longrightarrow> concat (map f bs) = map (\<lambda>(b, j). f b ! j) (places bs)"
proof (induction bs)
  case (Cons b bs)
  have "f b = map (\<lambda>j. f b ! j) [0..<batch_rows b]" using Cons.prems [of b] by (metis list.set_intros(1) map_nth)
  then show ?case using Cons by (simp add: places_def comp_def)
qed (simp add: places_def)

lemma place_bound: "(b, j) \<in> set (places bs) \<Longrightarrow> b \<in> set bs \<and> j < batch_rows b"
  by (auto simp: places_def)

lemma rows_places: "concat (map rows bs) = map (\<lambda>(b, j). row_at b j) (places bs)"
  by (subst concat_places) (auto simp: rows_def dest: place_bound)

lemma map_of_map_entries: "map_of (map (\<lambda>(n, k). (n, f n k)) xs) name = map_option (f name) (map_of xs name)"
  by (induction xs) auto

lemma map_of_filter_entries:
  "distinct (map fst xs) \<Longrightarrow>
   map_of (filter P xs) name = (case map_of xs name of Some v \<Rightarrow> if P (name, v) then Some v else None | None \<Rightarrow> None)"
proof (induction xs)
  case (Cons x xs)
  then show ?case by (cases x) (auto simp: map_of_eq_None_iff split: option.splits)
qed simp

definition merged :: "typed_batch list \<Rightarrow> typed_batch" where
  "merged bs =
     \<lparr>tb_Data = map (\<lambda>(n, k). (n, \<lparr>col_kind = k, col_elems = concat (map (data_part n k) bs)\<rparr>)) (column_types bs),
      tb_Validity = filter (\<lambda>(n, v). \<not> list_all id v)
        (map (\<lambda>(n, k). (n, concat (map (valid_part n) bs))) (if needs_validity (column_types bs) bs then column_types bs else [])),
      tb_TagColumns = remdups (concat (map tb_TagColumns bs)), tb_DedupTime = list_ex tb_DedupTime bs, tb_Signature = []\<rparr>"

lemma mergeBatches_merged:
  assumes "2 \<le> length bs" "\<forall>b\<in>set bs. batch_ok b" "same_kinds bs"
  shows "mergeBatches bs = Merged (merged bs)"
proof -
  obtain b b' bs' where bs: "bs = b # b' # bs'" using assms(1) by (cases bs rule: list.exhaust [case_product list.exhaust]) (auto simp: Suc_le_length_iff numeral_2_eq_2)
  have "mergeBatches bs = (let types = column_types bs; total = sum_list (map batch_rows bs); needs = needs_validity types bs
          in if list_ex (kind_clash types) bs then MergePanic
             else case fold merge_batch bs
                    (0, map (\<lambda>(name, k). (name, \<lparr>col_kind = k, col_elems = replicate total (kind_zero k)\<rparr>)) types,
                     if needs then map (\<lambda>(name, k). (name, replicate total False)) types else []) of
                    (off, data, valid) \<Rightarrow>
                      Merged \<lparr>tb_Data = data, tb_Validity = filter (\<lambda>(name, v). \<not> list_all id v) valid,
                              tb_TagColumns = remdups (concat (map tb_TagColumns bs)),
                              tb_DedupTime = list_ex tb_DedupTime bs, tb_Signature = []\<rparr>)"
    unfolding bs mergeBatches_def list.case ..
  moreover have "fold merge_batch bs
      (0, map (\<lambda>(name, k). (name, \<lparr>col_kind = k, col_elems = replicate (sum_list (map batch_rows bs)) (kind_zero k)\<rparr>)) types,
       if needs then map (\<lambda>(name, k). (name, replicate (sum_list (map batch_rows bs)) False)) types else []) =
     (sum_list (map batch_rows bs),
      map (\<lambda>(name, k). (name, \<lparr>col_kind = k, col_elems = concat (map (data_part name k) bs)\<rparr>)) types,
      map (\<lambda>(name, k). (name, concat (map (valid_part name) bs))) (if needs then types else []))" for types needs
    using merge_parts [OF assms(2), of "\<lambda>_ _. []" 0 "\<lambda>_. []" types "if needs then types else []"] by (simp split: if_splits)
  ultimately show ?thesis using no_kind_clash [OF assms(3,2)] by (simp add: Let_def merged_def)
qed

lemma all_valid_without_validity:
  assumes "\<not> needs_validity (column_types bs) bs" "\<forall>b\<in>set bs. batch_ok b" "b \<in> set bs" "map_of (column_types bs) name \<noteq> None"
  shows "valid_part name b = replicate (batch_rows b) True"
proof -
  have v: "tb_Validity b = []" and l: "length (column_types bs) \<le> length (tb_Data b)"
    using assms(1,3) by (auto simp: needs_validity_def list_ex_iff linorder_not_less)
  let ?N = "fst ` set (tb_Data b)" and ?T = "fst ` set (column_types bs)"
  have sub: "?N \<subseteq> ?T"
  proof
    fix n assume "n \<in> ?N"
    then have "map_of (tb_Data b) n \<noteq> None" by (simp add: map_of_eq_None_iff)
    then have "map_of (column_types bs) n \<noteq> None" unfolding column_types_None using assms(3) by auto
    then show "n \<in> ?T" by (simp add: map_of_eq_None_iff)
  qed
  have "card ?N = length (tb_Data b)" using assms(2,3) by (metis distinct_card length_map list.set_map batch_ok_def)
  moreover have "card ?T = length (column_types bs)" using column_types_distinct by (metis distinct_card length_map list.set_map)
  ultimately have "?N = ?T" using sub l by (intro card_seteq) auto
  moreover have "name \<in> ?T" using assms(4) by (simp add: map_of_eq_None_iff)
  ultimately have "map_of (tb_Data b) name \<noteq> None" by (simp add: map_of_eq_None_iff)
  then show ?thesis using v by (auto simp: valid_part_def)
qed

lemma merged_validity:
  assumes "\<forall>b\<in>set bs. batch_ok b" "map_of (column_types bs) name \<noteq> None" "i < length (places bs)"
  shows "valid_at (merged bs) name i = (case places bs ! i of (b, j) \<Rightarrow> valid_part name b ! j)"
proof -
  obtain b j where p: "places bs ! i = (b, j)" by fastforce
  then have bj: "b \<in> set bs" "j < batch_rows b" using place_bound [of b j bs] nth_mem [OF assms(3)] by simp_all
  have "concat (map (valid_part name) bs) = map (\<lambda>(b, j). valid_part name b ! j) (places bs)"
    by (rule concat_places) (use assms(1) well_formed_lengths(2) in blast)
  then have at: "concat (map (valid_part name) bs) ! i = valid_part name b ! j" "length (concat (map (valid_part name) bs)) = length (places bs)"
    using assms(3) p by simp_all
  let ?V = "\<lambda>ts. map (\<lambda>(n, k). (n, concat (map (valid_part n) bs))) ts"
  have vt: "distinct (map fst (?V ts)) \<longleftrightarrow> distinct (map fst ts)" for ts :: "(string \<times> kind) list" by (simp add: comp_def case_prod_beta)
  show ?thesis
  proof (cases "needs_validity (column_types bs) bs")
    case True
    then have "map_of (tb_Validity (merged bs)) name =
        (if list_all id (concat (map (valid_part name) bs)) then None else Some (concat (map (valid_part name) bs)))"
      using assms(2) map_of_filter_entries [of "?V (column_types bs)" "\<lambda>(n, v). \<not> list_all id v" name] column_types_distinct [of bs]
      unfolding merged_def by (auto simp only: typed_batch.simps vt map_of_map_entries True if_True split: option.splits if_splits prod.splits)
    moreover have "list_all id (concat (map (valid_part name) bs)) \<Longrightarrow> concat (map (valid_part name) bs) ! i"
      using at(2) assms(3) by (simp add: list_all_length)
    ultimately show ?thesis using at p by (auto simp: valid_at_def)
  next
    case False
    then show ?thesis using all_valid_without_validity [OF False assms(1) bj(1) assms(2)] p bj(2)
      by (simp add: valid_at_def merged_def)
  qed
qed

lemma merged_row:
  assumes "\<forall>b\<in>set bs. batch_ok b" "same_kinds bs" "i < length (places bs)"
  shows "row_at (merged bs) i = (case places bs ! i of (b, j) \<Rightarrow> row_at b j)"
proof
  fix name
  obtain b j where p: "places bs ! i = (b, j)" by fastforce
  then have bj: "b \<in> set bs" "j < batch_rows b" using place_bound [of b j bs] nth_mem [OF assms(3)] by simp_all
  have wf: "batch_ok b" using assms(1) bj(1) by blast
  show "row_at (merged bs) i name = (case places bs ! i of (b, j) \<Rightarrow> row_at b j) name"
  proof (cases "map_of (column_types bs) name")
    case None
    then have "map_of (tb_Data b) name = None" using bj(1) column_types_None by blast
    then show ?thesis using None p by (simp add: row_at_def merged_def map_of_map_entries)
  next
    case (Some k)
    have "concat (map (data_part name k) bs) = map (\<lambda>(b, j). data_part name k b ! j) (places bs)"
      by (rule concat_places) (use assms(1) well_formed_lengths(1) in blast)
    then have "concat (map (data_part name k) bs) ! i = data_part name k b ! j" using assms(3) p by simp
    then have "row_at (merged bs) i name = (if valid_part name b ! j then Some (data_part name k b ! j) else None)"
      using Some merged_validity [OF assms(1) _ assms(3), of name] p
      by (simp add: row_at_def) (simp add: merged_def map_of_map_entries)
    also have "\<dots> = row_at b j name"
      using bj(2) by (simp add: row_at_def data_part_def valid_part_def valid_at_def split: option.splits)
    finally show ?thesis using p by simp
  qed
qed

lemma well_formed_time:
  assumes "batch_ok b"
  obtains c where "map_of (tb_Data b) ''time'' = Some c" "col_kind c = KInt64" "valid_part ''time'' b = replicate (batch_rows b) True"
proof -
  obtain c where c: "map_of (tb_Data b) ''time'' = Some c" "int64s c \<noteq> None"
    using assms by (auto simp: batch_ok_def time_column_def split: option.splits)
  moreover have "map_of (tb_Validity b) ''time'' = None"
    using assms by (auto simp: batch_ok_def map_of_eq_None_iff)
  ultimately show thesis using that [of c] by (simp add: int64s_def valid_part_def split: if_splits)
qed

lemma merged_time:
  assumes "\<forall>b\<in>set bs. batch_ok b" "same_kinds bs" "bs \<noteq> []"
  shows "map_of (column_types bs) ''time'' = Some KInt64" "batch_rows (merged bs) = length (places bs)"
    "time_column (tb_Data (merged bs)) \<noteq> None"
proof -
  obtain b where b: "b \<in> set bs" using assms(3) by (cases bs) auto
  obtain c where c: "map_of (tb_Data b) ''time'' = Some c" "col_kind c = KInt64" using well_formed_time assms(1) b by metis
  show k: "map_of (column_types bs) ''time'' = Some KInt64" using column_types_Some [OF assms(2) b c(1)] c(2) by simp
  have "length (concat (map (data_part ''time'' KInt64) bs)) = length (places bs)"
  proof -
    have "concat (map (data_part ''time'' KInt64) bs) = map (\<lambda>(b, j). data_part ''time'' KInt64 b ! j) (places bs)"
      by (rule concat_places) (use assms(1) well_formed_lengths(1) in blast)
    then show ?thesis by simp
  qed
  then show "batch_rows (merged bs) = length (places bs)" "time_column (tb_Data (merged bs)) \<noteq> None"
    using k by (simp_all add: batch_rows_def time_column_def int64s_def merged_def map_of_map_entries)
qed

lemma merged_well_formed:
  assumes "\<forall>b\<in>set bs. batch_ok b" "same_kinds bs" "bs \<noteq> []"
  shows "batch_ok (merged bs)"
proof -
  note t = merged_time [OF assms]
  let ?V = "map (\<lambda>(n, k). (n, concat (map (valid_part n) bs))) (column_types bs)"
  have dl: "length (concat (map (data_part n k) bs)) = length (places bs)" for n k
  proof -
    have "concat (map (data_part n k) bs) = map (\<lambda>(b, j). data_part n k b ! j) (places bs)"
      by (rule concat_places) (use assms(1) well_formed_lengths(1) in blast)
    then show ?thesis by simp
  qed
  have vl: "length (concat (map (valid_part n) bs)) = length (places bs)" for n
  proof -
    have "concat (map (valid_part n) bs) = map (\<lambda>(b, j). valid_part n b ! j) (places bs)"
      by (rule concat_places) (use assms(1) well_formed_lengths(2) in blast)
    then show ?thesis by simp
  qed
  have tv: "list_all id (concat (map (valid_part ''time'') bs))"
  proof -
    have "\<forall>x\<in>set (valid_part ''time'' b). x" if "b \<in> set bs" for b
    proof -
      have "batch_ok b" using assms(1) that by blast
      then show ?thesis by (rule well_formed_time) simp
    qed
    then show ?thesis by (auto simp: list_all_iff)
  qed
  have dd: "distinct (map fst (tb_Data (merged bs)))" using column_types_distinct [of bs] by (simp add: merged_def comp_def case_prod_beta)
  have "distinct (map fst ?V)" using column_types_distinct [of bs] by (simp add: comp_def case_prod_beta)
  then have dv: "distinct (map fst (tb_Validity (merged bs)))" by (simp add: merged_def distinct_map_filter)
  have d: "length (col_elems c) = batch_rows (merged bs)" if "(n, c) \<in> set (tb_Data (merged bs))" for n c
    using that t(2) dl by (auto simp: merged_def)
  have v: "length v = batch_rows (merged bs) \<and> n \<noteq> ''time'' \<and> n \<in> fst ` set (tb_Data (merged bs))"
    if "(n, v) \<in> set (tb_Validity (merged bs))" for n v
  proof -
    have nv: "v = concat (map (valid_part n) bs)" "\<not> list_all id v" "n \<in> fst ` set (column_types bs)"
      using that by (force simp: merged_def split: if_splits)+
    moreover have "fst ` set (tb_Data (merged bs)) = fst ` set (column_types bs)" by (force simp: merged_def)
    ultimately show ?thesis using t(2) vl tv by auto
  qed
  show ?thesis unfolding batch_ok_def using dd dv t(3) d v by blast
qed

lemma merge_keeps_rows:
  assumes "bs \<noteq> []" "\<forall>b\<in>set bs. batch_ok b" "same_kinds bs"
  obtains m where "mergeBatches bs = Merged m" "batch_ok m" "rows m = concat (map rows bs)"
proof (cases "length bs = 1")
  case True
  then obtain b where bs: "bs = [b]" by (cases bs) auto
  show thesis by (rule that [of b]) (use assms(2) bs in \<open>simp_all add: mergeBatches_def\<close>)
next
  case False
  then have two: "2 \<le> length bs" using assms(1) by (cases bs) (auto simp: Suc_le_eq)
  have "rows (merged bs) = map (row_at (merged bs)) [0..<length (places bs)]"
    by (simp add: rows_def merged_time(2) [OF assms(2,3,1)])
  also have "\<dots> = map (\<lambda>i. case places bs ! i of (b, j) \<Rightarrow> row_at b j) [0..<length (places bs)]"
    by (rule map_cong) (simp_all add: merged_row [OF assms(2,3)])
  also have "\<dots> = map (\<lambda>(b, j). row_at b j) (map ((!) (places bs)) [0..<length (places bs)])" by (simp add: comp_def)
  also have "\<dots> = concat (map rows bs)" by (simp only: map_nth rows_places)
  finally show thesis using that [of "merged bs"] mergeBatches_merged [OF two assms(2,3)] merged_well_formed [OF assms(2,3,1)] by blast
qed

section \<open>Signatures do not protect the merge\<close>

text \<open>
  Batches in one buffer have the same signature; the comment of \<^verbatim>\<open>getColumnSignature\<close> says that
  therefore the types agree and the merge cannot panic.  Columns whose names begin with an
  underscore are left out of the signature, but not out of the merge.
\<close>

definition counter_batch :: "kind \<Rightarrow> element \<Rightarrow> typed_batch" where
  "counter_batch k e =
     \<lparr>tb_Data = [(''time'', \<lparr>col_kind = KInt64, col_elems = [EInt 1700000000000000]\<rparr>), (''_x'', \<lparr>col_kind = k, col_elems = [e]\<rparr>)],
      tb_Validity = [], tb_TagColumns = [], tb_DedupTime = False, tb_Signature = ''time:i64''\<rparr>"


text \<open>The signature is ambiguous, too: names may contain its separators.\<close>

definition named_column :: "string \<times> kind \<Rightarrow> string \<times> typed_column" where
  "named_column nk = (fst nk, \<lparr>col_kind = snd nk, col_elems = [kind_zero (snd nk)]\<rparr>)"

lemma ambiguous_signature:
  "(let a = map named_column [(''a:bool,c:str,d'', KFloat64), (''c'', KInt64)];
        b = map named_column [(''a'', KBool), (''c'', KString), (''d:f64,c'', KInt64)]
    in getColumnSignature a = getColumnSignature b \<and> map_of a ''c'' \<noteq> map_of b ''c'')"
  by code_simp

end
