(* ===== verification/Flush_Schema.thy ===== *)
theory Flush_Schema
  imports Flush_Batch
begin

text \<open>
  From a batch of columns to the table of a Parquet file: schema inference, its LRU cache and the
  building of the columns (\<^verbatim>\<open>schemaLRUCache\<close>, \<^verbatim>\<open>getSchema\<close>, \<^verbatim>\<open>inferSchema\<close>,
  \<^verbatim>\<open>WriteParquetColumnar\<close>).  The Arrow and Parquet libraries are third party: a table stands for
  the file they make of it, and whether they fail is an argument.
\<close>

section \<open>The LRU cache\<close>

text \<open>The linked list of the cache, most recently used entry first; the map is the lookup in it.\<close>

type_synonym 's lru = "(string \<times> 's) list"

definition lru_get :: "string \<Rightarrow> 's lru \<Rightarrow> 's option \<times> 's lru" where
  "lru_get key c =
     (case map_of c key of
        None \<Rightarrow> (None, c)
      | Some s \<Rightarrow> (Some s, (key, s) # filter (\<lambda>e. fst e \<noteq> key) c))"

definition lru_set :: "nat \<Rightarrow> string \<Rightarrow> 's \<Rightarrow> 's lru \<Rightarrow> 's lru" where
  "lru_set capacity key s c =
     (if map_of c key \<noteq> None then (key, s) # filter (\<lambda>e. fst e \<noteq> key) c
      else let c' = (key, s) # c in if capacity < length c' then butlast c' else c')"

definition lru_ok :: "nat \<Rightarrow> 's lru \<Rightarrow> bool" where
  "lru_ok capacity c \<longleftrightarrow> distinct (map fst c) \<and> length c \<le> capacity"

lemma filter_key_length: "map_of c key \<noteq> None \<Longrightarrow> length (filter (\<lambda>e. fst e \<noteq> key) c) < length c"
proof -
  assume "map_of c key \<noteq> None"
  then obtain s where "(key, s) \<in> set c" using map_of_SomeD by fastforce
  then show ?thesis by (intro length_filter_less [of "(key, s)"]) auto
qed

lemma front_ok: "\<lbrakk>lru_ok capacity c; map_of c key \<noteq> None\<rbrakk> \<Longrightarrow> lru_ok capacity ((key, s) # filter (\<lambda>e. fst e \<noteq> key) c)"
  using filter_key_length [of c key] by (auto simp: lru_ok_def distinct_map_filter simp del: not_None_eq)

lemma lru_get_ok: "lru_ok capacity c \<Longrightarrow> lru_ok capacity (snd (lru_get key c))"
  using front_ok [of capacity c key] by (auto simp: lru_get_def split: option.splits)

lemma lru_set_ok: "lru_ok capacity c \<Longrightarrow> lru_ok capacity (lru_set capacity key s c)"
proof (cases "map_of c key")
  case None
  assume ok: "lru_ok capacity c"
  have "distinct (map fst ((key, s) # c))" using None ok by (simp add: lru_ok_def map_of_eq_None_iff)
  then have "distinct (map fst (butlast ((key, s) # c)))" by (simp only: map_butlast distinct_butlast)
  then show ?thesis using None ok \<open>distinct (map fst ((key, s) # c))\<close> by (simp add: lru_set_def lru_ok_def Let_def)
next
  case (Some x)
  assume "lru_ok capacity c"
  then show ?thesis using front_ok [of capacity c key s] Some by (simp add: lru_set_def)
qed

lemma lru_set_get: "0 < capacity \<Longrightarrow> fst (lru_get key (lru_set capacity key s c)) = Some s"
  by (cases c) (auto simp: lru_get_def lru_set_def Let_def)

section \<open>Schemas\<close>

datatype 'a write_outcome = Ok 'a | Failed | Panicked

datatype arrow_type = FTimestamp | FInt64 | FFloat64 | FString | FBool | FDecimal int int

type_synonym decimal_specs = "(string \<times> int \<times> int) list"

record arrow_schema =
  as_fields :: "(string \<times> arrow_type) list"
  as_tags :: "string list"
  as_dedup :: bool
  as_decimals :: decimal_specs

definition visible_columns :: "(string \<times> typed_column) list \<Rightarrow> (string \<times> typed_column) list" where
  "visible_columns cols = filter (\<lambda>(name, c). \<not> internal_column name) cols"

fun field_type :: "decimal_specs \<Rightarrow> string \<Rightarrow> kind \<Rightarrow> arrow_type option" where
  "field_type decimals name k =
     (if name = ''time'' then (if k = KInt64 then Some FTimestamp else None)
      else case k of
             KInt64 \<Rightarrow> Some FInt64
           | KFloat64 \<Rightarrow> Some FFloat64
           | KString \<Rightarrow> Some FString
           | KBool \<Rightarrow> Some FBool
           | KDecimal \<Rightarrow> (case map_of decimals name of Some (p, s) \<Rightarrow> Some (FDecimal p s) | None \<Rightarrow> Some (FDecimal 38 18)))"

text \<open>The code looks at the first byte of every name, which panics for the empty name.\<close>

definition inferSchema ::
  "(string \<times> typed_column) list \<Rightarrow> string list \<Rightarrow> bool \<Rightarrow> decimal_specs \<Rightarrow> arrow_schema write_outcome" where
  "inferSchema cols tags dedup decimals =
     (if list_ex (\<lambda>(name, c). name = []) cols then Panicked
      else if list_ex (\<lambda>(name, c). field_type decimals name (col_kind c) = None) (visible_columns cols) then Failed
      else Ok \<lparr>as_fields = map (\<lambda>(name, c). (name, the (field_type decimals name (col_kind c)))) (visible_columns cols),
               as_tags = sort_key id tags, as_dedup = dedup, as_decimals = decimals\<rparr>)"

fun join_blanks :: "string list \<Rightarrow> string" where
  "join_blanks [] = []"
| "join_blanks [s] = s"
| "join_blanks (s # t # ss) = s @ '' '' @ join_blanks (t # ss)"

text \<open>What \<^verbatim>\<open>%v\<close> prints for a slice of strings.\<close>

definition fmt_strings :: "string list \<Rightarrow> string" where
  "fmt_strings ss = ''['' @ join_blanks ss @ '']''"

fun type_name :: "string \<Rightarrow> kind \<Rightarrow> string" where
  "type_name name k =
     (case k of
        KInt64 \<Rightarrow> (if name = ''time'' then ''timestamp'' else ''int64'')
      | KFloat64 \<Rightarrow> ''float64''
      | KString \<Rightarrow> ''string''
      | KBool \<Rightarrow> ''bool''
      | KDecimal \<Rightarrow> ''decimal128'')"

definition cache_key :: "string \<Rightarrow> (string \<times> typed_column) list \<Rightarrow> string list \<Rightarrow> bool \<Rightarrow> string" where
  "cache_key measurement cols tags dedup =
     measurement @ '':'' @ fmt_strings (map fst (visible_columns cols)) @ '':'' @
     fmt_strings (map (\<lambda>(name, c). type_name name (col_kind c)) (visible_columns cols)) @ '':'' @
     fmt_strings tags @ '':'' @ (if dedup then ''true'' else ''false'')"

definition schemaCacheCapacity :: nat where
  "schemaCacheCapacity = 1000"

definition getSchema ::
  "string \<Rightarrow> (string \<times> typed_column) list \<Rightarrow> string list \<Rightarrow> bool \<Rightarrow> decimal_specs \<Rightarrow> arrow_schema lru \<Rightarrow>
   arrow_schema write_outcome \<times> arrow_schema lru" where
  "getSchema measurement cols tags dedup decimals cache =
     (if list_ex (\<lambda>(name, c). name = []) cols then (Panicked, cache)
      else let key = cache_key measurement cols tags dedup
           in case lru_get key cache of
                (Some s, cache') \<Rightarrow> (Ok s, cache')
              | (None, cache') \<Rightarrow>
                  (case inferSchema cols tags dedup decimals of
                     Ok s \<Rightarrow> (Ok s, lru_set schemaCacheCapacity key s cache')
                   | err \<Rightarrow> (err, cache')))"

section \<open>Tables\<close>

text \<open>The Go type that the builder of a field accepts.\<close>

fun field_kind :: "arrow_type \<Rightarrow> kind" where
  "field_kind FTimestamp = KInt64"
| "field_kind FInt64 = KInt64"
| "field_kind FFloat64 = KFloat64"
| "field_kind FString = KString"
| "field_kind FBool = KBool"
| "field_kind (FDecimal p s) = KDecimal"

definition builds :: "(string \<times> typed_column) list \<Rightarrow> string \<times> arrow_type \<Rightarrow> bool" where
  "builds cols f = (case map_of cols (fst f) of Some c \<Rightarrow> col_kind c = field_kind (snd f) | None \<Rightarrow> False)"

text \<open>The table of a file: the columns of the schema, with their bitmaps.\<close>

definition table_of :: "arrow_schema \<Rightarrow> typed_batch \<Rightarrow> typed_batch" where
  "table_of s b =
     \<lparr>tb_Data = map (\<lambda>(name, t). (name, the (map_of (tb_Data b) name))) (as_fields s),
      tb_Validity = filter (\<lambda>(name, v). name \<in> fst ` set (as_fields s)) (tb_Validity b),
      tb_TagColumns = as_tags s, tb_DedupTime = as_dedup s, tb_Signature = []\<rparr>"

definition WriteParquetColumnar ::
  "(typed_batch \<Rightarrow> bool) \<Rightarrow> string \<Rightarrow> typed_batch \<Rightarrow> decimal_specs \<Rightarrow> arrow_schema lru \<Rightarrow>
   typed_batch write_outcome \<times> arrow_schema lru" where
  "WriteParquetColumnar encodes measurement b decimals cache =
     (case getSchema measurement (tb_Data b) (tb_TagColumns b) (tb_DedupTime b) decimals cache of
        (Ok s, cache') \<Rightarrow>
          (if list_all (builds (tb_Data b)) (as_fields s) \<and> encodes (table_of s b) then Ok (table_of s b) else Failed, cache')
      | (Failed, cache') \<Rightarrow> (Failed, cache')
      | (Panicked, cache') \<Rightarrow> (Panicked, cache'))"

text \<open>
  The key of the cache does not determine the columns, for names may contain blanks: after a
  batch with the columns \<open>a b\<close> and \<open>c\<close> every batch of the measurement with the columns \<open>a\<close> and
  \<open>b c\<close> fails, for it gets the schema of the other one, although it can be written on its own.
\<close>

definition float_batch :: "string list \<Rightarrow> typed_batch" where
  "float_batch names =
     \<lparr>tb_Data = (''time'', \<lparr>col_kind = KInt64, col_elems = [EInt 0]\<rparr>) # map (\<lambda>n. (n, \<lparr>col_kind = KFloat64, col_elems = [EFloat 0]\<rparr>)) names,
      tb_Validity = [], tb_TagColumns = [], tb_DedupTime = False, tb_Signature = []\<rparr>"

theorem schema_cache_confuses_columns:
  "(case WriteParquetColumnar (\<lambda>_. True) ''cpu'' (float_batch [''a b'', ''c'']) [] [] of
      (first, cache) \<Rightarrow> first \<noteq> Failed \<and> fst (WriteParquetColumnar (\<lambda>_. True) ''cpu'' (float_batch [''a'', ''b c'']) [] cache) = Failed) \<and>
   fst (WriteParquetColumnar (\<lambda>_. True) ''cpu'' (float_batch [''a'', ''b c'']) [] []) \<noteq> Failed"
  by code_simp

section \<open>Tables keep the rows\<close>

text \<open>The cache is no obstacle when what it holds for the batch is the schema of the batch.\<close>

definition cache_fits :: "string \<Rightarrow> typed_batch \<Rightarrow> decimal_specs \<Rightarrow> arrow_schema lru \<Rightarrow> bool" where
  "cache_fits measurement b decimals cache =
     (case map_of cache (cache_key measurement (tb_Data b) (tb_TagColumns b) (tb_DedupTime b)) of
        Some s \<Rightarrow> inferSchema (tb_Data b) (tb_TagColumns b) (tb_DedupTime b) decimals = Ok s
      | None \<Rightarrow> True)"

definition visible_row :: "table_row \<Rightarrow> table_row" where
  "visible_row r = r |` {name. \<not> internal_column name}"

definition named :: "typed_batch \<Rightarrow> bool" where
  "named b = list_all (\<lambda>(name, c). name \<noteq> []) (tb_Data b)"

lemma time_visible [simp]: "\<not> internal_column ''time''"
  by (simp add: internal_column_def)

lemma schema_inferred:
  assumes "batch_ok b" "named b"
  obtains s where "inferSchema (tb_Data b) tags dedup decimals = Ok s"
    "as_fields s = map (\<lambda>(name, c). (name, the (field_type decimals name (col_kind c)))) (visible_columns (tb_Data b))"
    "list_all (builds (tb_Data b)) (as_fields s)"
proof -
  let ?s = "\<lparr>as_fields = map (\<lambda>(name, c). (name, the (field_type decimals name (col_kind c)))) (visible_columns (tb_Data b)),
               as_tags = sort_key id tags, as_dedup = dedup, as_decimals = decimals\<rparr>"
  have some: "\<exists>t. field_type decimals name (col_kind c) = Some t \<and> field_kind t = col_kind c"
    if "(name, c) \<in> set (tb_Data b)" for name c
  proof (cases "name = ''time''")
    case True
    obtain c' where "map_of (tb_Data b) ''time'' = Some c'" "col_kind c' = KInt64" using well_formed_time [OF assms(1)] by blast
    then have "col_kind c = KInt64" using that True assms(1) by (simp add: batch_ok_def)
    then show ?thesis using True by simp
  next
    case False
    then show ?thesis by (cases "col_kind c") (auto split: option.splits)
  qed
  have "inferSchema (tb_Data b) tags dedup decimals = Ok ?s"
    using assms(2) some by (fastforce simp: inferSchema_def named_def list_ex_iff list_all_iff visible_columns_def)
  moreover have "list_all (builds (tb_Data b)) (as_fields ?s)"
  proof -
    have "map_of (tb_Data b) name = Some c" if "(name, c) \<in> set (tb_Data b)" for name c
      using that assms(1) by (simp add: batch_ok_def)
    then show ?thesis using some by (fastforce simp: list_all_iff visible_columns_def builds_def)
  qed
  ultimately show thesis using that [of ?s] by simp
qed

lemma map_of_map_snd: "(\<And>n k. (n, k) \<in> set xs \<Longrightarrow> f n k = g n) \<Longrightarrow> map_of (map (\<lambda>(n, k). (n, f n k)) xs) name = (if name \<in> fst ` set xs then Some (g name) else None)"
  by (induction xs) force+

lemma table_rows:
  assumes "batch_ok b" "as_fields s = map (\<lambda>(name, c). (name, h name c)) (visible_columns (tb_Data b))"
  shows "rows (table_of s b) = map visible_row (rows b)" "batch_ok (table_of s b)"
proof -
  have f: "fst ` set (as_fields s) = {n \<in> fst ` set (tb_Data b). \<not> internal_column n}"
    unfolding assms(2) by (force simp: visible_columns_def)
  have d: "map_of (tb_Data (table_of s b)) name = (if internal_column name then None else map_of (tb_Data b) name)" for name
  proof -
    have "map_of (tb_Data (table_of s b)) name = (if name \<in> fst ` set (as_fields s) then Some (the (map_of (tb_Data b) name)) else None)"
      by (simp add: table_of_def map_of_map_snd)
    moreover have "name \<in> fst ` set (tb_Data b) \<longleftrightarrow> map_of (tb_Data b) name \<noteq> None" by (simp add: map_of_eq_None_iff)
    ultimately show ?thesis using f by auto
  qed
  have v: "map_of (tb_Validity (table_of s b)) name = map_of (tb_Validity b) name" if "map_of (tb_Data (table_of s b)) name \<noteq> None" for name
  proof -
    have "map_of (tb_Data b) name \<noteq> None" "\<not> internal_column name" using that d [of name] by (simp_all split: if_splits)
    then have "name \<in> fst ` set (as_fields s)" unfolding f by (simp add: map_of_eq_None_iff del: not_None_eq)
    moreover have "distinct (map fst (tb_Validity b))" using assms(1) by (simp add: batch_ok_def)
    ultimately show ?thesis by (auto simp: table_of_def map_of_filter_entries split: option.splits)
  qed
  have t: "time_column (tb_Data (table_of s b)) = time_column (tb_Data b)" by (simp add: time_column_def d)
  then have n: "batch_rows (table_of s b) = batch_rows b" by (simp add: batch_rows_def)
  have "row_at (table_of s b) i = visible_row (row_at b i)" for i
  proof
    fix name
    show "row_at (table_of s b) i name = visible_row (row_at b i) name"
      using d [of name] v [of name] by (auto simp: row_at_def visible_row_def valid_at_def split: option.splits)
  qed
  then show "rows (table_of s b) = map visible_row (rows b)" by (simp add: rows_def n)
  have "map fst (tb_Data (table_of s b)) = map fst (visible_columns (tb_Data b))"
    by (simp add: table_of_def assms(2) comp_def case_prod_beta)
  then have dd: "distinct (map fst (tb_Data (table_of s b)))" using assms(1) by (simp add: visible_columns_def batch_ok_def distinct_map_filter)
  have dv: "distinct (map fst (tb_Validity (table_of s b)))" using assms(1) by (simp add: table_of_def batch_ok_def distinct_map_filter)
  have l: "length (col_elems c) = batch_rows (table_of s b)" if "(name, c) \<in> set (tb_Data (table_of s b))" for name c
  proof -
    have "map_of (tb_Data (table_of s b)) name = Some c" using that dd by simp
    then have "map_of (tb_Data b) name = Some c" using d [of name] by (simp split: if_splits)
    then show ?thesis using well_formed_lengths(4) [OF assms(1)] n by simp
  qed
  have w: "length v = batch_rows (table_of s b) \<and> name \<noteq> ''time'' \<and> name \<in> fst ` set (tb_Data (table_of s b))"
    if "(name, v) \<in> set (tb_Validity (table_of s b))" for name v
  proof -
    have "(name, v) \<in> set (tb_Validity b)" "name \<in> fst ` set (as_fields s)" using that by (auto simp: table_of_def)
    moreover have "fst ` set (tb_Data (table_of s b)) = fst ` set (as_fields s)" by (force simp: table_of_def)
    ultimately show ?thesis using assms(1) n by (auto simp: batch_ok_def)
  qed
  show "batch_ok (table_of s b)" unfolding batch_ok_def using dd dv l w t assms(1) by (auto simp: batch_ok_def)
qed

text \<open>A batch that is written becomes a table with its visible rows.\<close>

lemma written_rows:
  assumes "batch_ok b" "named b" "cache_fits measurement b decimals cache" "\<And>t. encodes t"
  obtains t cache' where "WriteParquetColumnar encodes measurement b decimals cache = (Ok t, cache')"
    "batch_ok t" "rows t = map visible_row (rows b)" "cache_fits measurement b decimals cache'"
proof -
  let ?key = "cache_key measurement (tb_Data b) (tb_TagColumns b) (tb_DedupTime b)"
  obtain s where s: "inferSchema (tb_Data b) (tb_TagColumns b) (tb_DedupTime b) decimals = Ok s"
    "as_fields s = map (\<lambda>(name, c). (name, the (field_type decimals name (col_kind c)))) (visible_columns (tb_Data b))"
    "list_all (builds (tb_Data b)) (as_fields s)"
    by (rule schema_inferred [OF assms(1,2), of "tb_TagColumns b" "tb_DedupTime b" decimals])
  have e: "\<not> list_ex (\<lambda>(name, c). name = []) (tb_Data b)" using assms(2) by (auto simp: named_def list_ex_iff list_all_iff)
  have "\<exists>cache'. getSchema measurement (tb_Data b) (tb_TagColumns b) (tb_DedupTime b) decimals cache = (Ok s, cache') \<and>
      map_of cache' ?key = Some s"
  proof (cases "map_of cache ?key")
    case None
    have "map_of (lru_set schemaCacheCapacity ?key s cache) ?key = Some s"
      using lru_set_get [of schemaCacheCapacity ?key s cache] by (auto simp: lru_get_def schemaCacheCapacity_def split: option.splits)
    then show ?thesis using None s(1) e by (simp add: getSchema_def lru_get_def Let_def)
  next
    case (Some s')
    then have "s' = s" using assms(3) s(1) by (simp add: cache_fits_def)
    then show ?thesis using Some e by (simp add: getSchema_def lru_get_def Let_def)
  qed
  then obtain cache' where g: "getSchema measurement (tb_Data b) (tb_TagColumns b) (tb_DedupTime b) decimals cache = (Ok s, cache')"
    "map_of cache' ?key = Some s" by blast
  show thesis
  proof (rule that [of "table_of s b" cache'])
    show "WriteParquetColumnar encodes measurement b decimals cache = (Ok (table_of s b), cache')"
      using g(1) s(3) assms(4) by (simp add: WriteParquetColumnar_def)
    show "cache_fits measurement b decimals cache'" using g(2) s(1) by (simp add: cache_fits_def)
  qed (use table_rows [OF assms(1) s(2)] in simp_all)
qed

end
