(* ===== verification/Flush_Partition.thy ===== *)
theory Flush_Partition
  imports Flush_Schema
begin

text \<open>
  A flush: the batches of a buffer are merged, split by hour, sorted and written
  (\<^verbatim>\<open>flushRecordsAsync\<close>, \<^verbatim>\<open>flushPartitionedData\<close> and the functions below them in
  \<^verbatim>\<open>internal/ingest/arrow_writer.go\<close>).  Indices are within the columns of well formed batches, so
  that no access is out of range.
\<close>

unbundle bit_operations_syntax

section \<open>Sorting by several columns\<close>

definition float_magnitude :: "64 word \<Rightarrow> int" where
  "float_magnitude w = uint (w AND 0x7FFFFFFFFFFFFFFF)"

definition is_nan :: "64 word \<Rightarrow> bool" where
  "is_nan w \<longleftrightarrow> 0x7FF0000000000000 < float_magnitude w"

definition float_key :: "64 word \<Rightarrow> int" where
  "float_key w = (if bit w 63 then - float_magnitude w else float_magnitude w)"

fun element_less :: "element \<Rightarrow> element \<Rightarrow> bool" where
  "element_less (EInt a) (EInt b) = (a <s b)"
| "element_less (EFloat a) (EFloat b) = (\<not> is_nan a \<and> \<not> is_nan b \<and> float_key a < float_key b)"
| "element_less (EString a) (EString b) = (a < b)"
| "element_less (EBool a) (EBool b) = (\<not> a \<and> b)"
| "element_less (EDecimal a) (EDecimal b) = (a < b)"
| "element_less _ _ = False"

fun compareMultiKeyCached :: "typed_column list \<Rightarrow> nat \<Rightarrow> nat \<Rightarrow> bool" where
  "compareMultiKeyCached [] i j = False"
| "compareMultiKeyCached (c # cs) i j =
     (if element_less (col_elems c ! i) (col_elems c ! j) then True
      else if element_less (col_elems c ! j) (col_elems c ! i) then False
      else compareMultiKeyCached cs i j)"

definition applyPermutation :: "nat list \<Rightarrow> typed_column \<Rightarrow> typed_column" where
  "applyPermutation is c = c\<lparr>col_elems := map (\<lambda>i. col_elems c ! i) is\<rparr>"

definition permute_columns :: "nat list \<Rightarrow> (string \<times> typed_column) list \<Rightarrow> (string \<times> typed_column) list" where
  "permute_columns is cols = map (\<lambda>(name, c). (name, applyPermutation is c)) cols"

text \<open>\<open>None\<close> is an error; without indices the columns were in order already.\<close>

definition sortColumnsByTimeOnlyWithPermutation ::
  "sorter \<Rightarrow> (string \<times> typed_column) list \<Rightarrow> ((string \<times> typed_column) list \<times> nat list option) option" where
  "sortColumnsByTimeOnlyWithPermutation srt cols =
     (case time_column cols of
        None \<Rightarrow> None
      | Some ts \<Rightarrow>
          (case permuteByTime srt ts of
             None \<Rightarrow> Some (cols, None)
           | Some is \<Rightarrow> Some (permute_columns is cols, Some is)))"

definition row_count :: "(string \<times> typed_column) list \<Rightarrow> nat" where
  "row_count cols = (case List.find (\<lambda>(name, c). col_elems c \<noteq> []) cols of Some (name, c) \<Rightarrow> length (col_elems c) | None \<Rightarrow> 0)"

definition sortColumnsByKeysWithPermutation ::
  "sorter \<Rightarrow> (string \<times> typed_column) list \<Rightarrow> string list \<Rightarrow> ((string \<times> typed_column) list \<times> nat list option) option" where
  "sortColumnsByKeysWithPermutation srt cols keys =
     (if keys = [] then None
      else if keys = [''time''] then sortColumnsByTimeOnlyWithPermutation srt cols
      else if list_ex (\<lambda>k. map_of cols k = None) keys then None
      else let n = row_count cols
           in if n = 0 then Some (cols, None)
              else let is = srt (compareMultiKeyCached (map (\<lambda>k. the (map_of cols k)) keys)) [0..<n]
                   in Some (permute_columns is cols, Some is))"

definition sortTypedColumnBatchByKeys :: "sorter \<Rightarrow> typed_batch \<Rightarrow> string list \<Rightarrow> typed_batch" where
  "sortTypedColumnBatchByKeys srt b keys =
     (case sortColumnsByKeysWithPermutation srt (tb_Data b) keys of
        None \<Rightarrow> b
      | Some (sorted_cols, None) \<Rightarrow> b\<lparr>tb_Data := sorted_cols\<rparr>
      | Some (sorted_cols, Some is) \<Rightarrow>
          b\<lparr>tb_Data := sorted_cols, tb_Validity := map (\<lambda>(name, v). (name, map (\<lambda>i. v ! i) is)) (tb_Validity b)\<rparr>)"

definition sliceColumnsByIndices :: "(string \<times> typed_column) list \<Rightarrow> nat list \<Rightarrow> (string \<times> typed_column) list" where
  "sliceColumnsByIndices cols is =
     map (\<lambda>(name, c). (name, c\<lparr>col_elems := map (\<lambda>i. if i < length (col_elems c) then col_elems c ! i else kind_zero (col_kind c)) is\<rparr>)) cols"

definition sliceTypedColumnBatchByIndices :: "typed_batch \<Rightarrow> nat list \<Rightarrow> typed_batch" where
  "sliceTypedColumnBatchByIndices b is =
     b\<lparr>tb_Data := sliceColumnsByIndices (tb_Data b) is,
       tb_Validity := map (\<lambda>(name, v). (name, map (\<lambda>i. i < length v \<and> v ! i) is)) (tb_Validity b)\<rparr>"

definition getSortKeys :: "(string \<rightharpoonup> string list) \<Rightarrow> string list \<Rightarrow> string \<Rightarrow> string list" where
  "getSortKeys config default_keys measurement =
     (let keys = (case config measurement of Some ks \<Rightarrow> ks | None \<Rightarrow> default_keys)
      in if ''time'' \<in> set keys then keys else keys @ [''time''])"

section \<open>Grouping by hour\<close>

definition microPerHour :: int where
  "microPerHour = 3600000000"

text \<open>Go's division truncates.\<close>

definition HourBucketID :: "64 word \<Rightarrow> int" where
  "HourBucketID t =
     (let h = (if sint t < 0 then - ((- sint t) div microPerHour) else sint t div microPerHour)
      in if sint t < 0 \<and> (- sint t) mod microPerHour \<noteq> 0 then h - 1 else h)"

definition hourIDToTime :: "int \<Rightarrow> 64 word" where
  "hourIDToTime h = word_of_int (h * microPerHour)"

record hour_bucket =
  hb_hourID :: int
  hb_indices :: "nat list"
  hb_minTime :: "64 word"
  hb_maxTime :: "64 word"

text \<open>The cached last bucket of the code is the same object as the one in the map.\<close>

definition group_row :: "64 word list \<Rightarrow> nat \<Rightarrow> (int \<times> hour_bucket) list \<Rightarrow> (int \<times> hour_bucket) list" where
  "group_row ts i buckets =
     (let t = ts ! i; h = HourBucketID t
      in case map_of buckets h of
           None \<Rightarrow> buckets @ [(h, \<lparr>hb_hourID = h, hb_indices = [i], hb_minTime = t, hb_maxTime = t\<rparr>)]
         | Some _ \<Rightarrow>
             map (\<lambda>(h', bk). (h', if h' = h
               then bk\<lparr>hb_indices := hb_indices bk @ [i],
                       hb_minTime := (if t <s hb_minTime bk then t else hb_minTime bk),
                       hb_maxTime := (if hb_maxTime bk <s t then t else hb_maxTime bk)\<rparr>
               else bk)) buckets)"

definition min_time :: "64 word list \<Rightarrow> 64 word" where
  "min_time ts = fold (\<lambda>t m. if t <s m then t else m) ts (hd ts)"

definition max_time :: "64 word list \<Rightarrow> 64 word" where
  "max_time ts = fold (\<lambda>t m. if m <s t then t else m) ts (hd ts)"

definition groupByHour :: "64 word list \<Rightarrow> ((int \<times> hour_bucket) list \<times> 64 word \<times> 64 word) option" where
  "groupByHour ts =
     (if ts = [] then None else Some (fold (group_row ts) [0..<length ts] [], min_time ts, max_time ts))"

section \<open>Writing\<close>

text \<open>
  A storage path: database, measurement, the hour its directories name and the stamp of its file
  name, which is the clock when it was made.
\<close>

record storage_path =
  sp_database :: string
  sp_measurement :: string
  sp_hour :: int
  sp_stamp :: nat

definition generateStoragePath :: "string \<Rightarrow> string \<Rightarrow> 64 word \<Rightarrow> nat \<Rightarrow> storage_path" where
  "generateStoragePath database measurement partitionTime now =
     \<lparr>sp_database = database, sp_measurement = measurement, sp_hour = sint partitionTime div microPerHour, sp_stamp = now\<rparr>"

text \<open>
  What a flush meets: the sorting function, the configuration, the order in which Go visits the
  hours, the clock at its \<open>k\<close>-th file, and which encodings and storage writes succeed.
\<close>

record flush_env =
  fe_sort :: sorter
  fe_keys :: "string \<Rightarrow> string list"
  fe_decimals :: "string \<Rightarrow> decimal_specs"
  fe_visit :: "(int \<times> hour_bucket) list \<Rightarrow> (int \<times> hour_bucket) list"
  fe_clock :: "nat \<Rightarrow> nat"
  fe_encodes :: "typed_batch \<Rightarrow> bool"
  fe_stores :: "storage_path \<Rightarrow> bool"

record flush_result =
  fr_written :: "(storage_path \<times> typed_batch) list"
  fr_registered :: "storage_path list"
  fr_outcome :: "nat write_outcome"
  fr_cache :: "arrow_schema lru"

text \<open>One file: encoded, then stored.\<close>

definition write_file ::
  "flush_env \<Rightarrow> string \<Rightarrow> typed_batch \<Rightarrow> storage_path \<Rightarrow> arrow_schema lru \<Rightarrow> typed_batch write_outcome \<times> arrow_schema lru" where
  "write_file env measurement b path cache =
     (case WriteParquetColumnar (fe_encodes env) measurement b (fe_decimals env measurement) cache of
        (Ok t, cache') \<Rightarrow> (if fe_stores env path then Ok t else Failed, cache')
      | (err, cache') \<Rightarrow> (err, cache'))"

text \<open>The loop over the hours stops at the first error, with the files before it written.\<close>

fun write_hours ::
  "flush_env \<Rightarrow> string \<Rightarrow> string \<Rightarrow> typed_batch \<Rightarrow> nat \<Rightarrow> (int \<times> hour_bucket) list \<Rightarrow> arrow_schema lru \<Rightarrow>
   (storage_path \<times> typed_batch) list \<times> unit write_outcome \<times> arrow_schema lru" where
  "write_hours env db m b k [] cache = ([], Ok (), cache)"
| "write_hours env db m b k ((h, bk) # bks) cache =
     (let sorted_batch = sortTypedColumnBatchByKeys (fe_sort env) (sliceTypedColumnBatchByIndices b (hb_indices bk)) (fe_keys env m);
          path = generateStoragePath db m (hourIDToTime h) (fe_clock env k)
      in case write_file env m sorted_batch path cache of
           (Ok t, cache') \<Rightarrow>
             (case write_hours env db m b (Suc k) bks cache' of (files, res, cache'') \<Rightarrow> ((path, t) # files, res, cache''))
         | (Failed, cache') \<Rightarrow> ([], Failed, cache')
         | (Panicked, cache') \<Rightarrow> ([], Panicked, cache'))"

definition flushPartitionedData ::
  "flush_env \<Rightarrow> string \<Rightarrow> string \<Rightarrow> typed_batch \<Rightarrow> nat \<Rightarrow> arrow_schema lru \<Rightarrow> flush_result" where
  "flushPartitionedData env db m b recordCount cache =
     (case time_column (tb_Data b) of
        None \<Rightarrow> \<lparr>fr_written = [], fr_registered = [], fr_outcome = Failed, fr_cache = cache\<rparr>
      | Some ts \<Rightarrow>
          if ts = [] then \<lparr>fr_written = [], fr_registered = [], fr_outcome = Failed, fr_cache = cache\<rparr>
          else if sint (min_time ts) div microPerHour = sint (max_time ts) div microPerHour
          then let path = generateStoragePath db m (min_time ts) (fe_clock env 0)
               in case write_file env m (sortTypedColumnBatchByKeys (fe_sort env) b (fe_keys env m)) path cache of
                    (Ok t, cache') \<Rightarrow> \<lparr>fr_written = [(path, t)], fr_registered = [path], fr_outcome = Ok recordCount, fr_cache = cache'\<rparr>
                  | (Failed, cache') \<Rightarrow> \<lparr>fr_written = [], fr_registered = [], fr_outcome = Failed, fr_cache = cache'\<rparr>
                  | (Panicked, cache') \<Rightarrow> \<lparr>fr_written = [], fr_registered = [], fr_outcome = Panicked, fr_cache = cache'\<rparr>
          else case groupByHour ts of
                 None \<Rightarrow> \<lparr>fr_written = [], fr_registered = [], fr_outcome = Failed, fr_cache = cache\<rparr>
               | Some (buckets, _, _) \<Rightarrow>
                   (case write_hours env db m b 0 (fe_visit env buckets) cache of
                      (files, Ok _, cache') \<Rightarrow>
                        \<lparr>fr_written = files, fr_registered = map fst files,
                         fr_outcome = Ok (sum_list (map (length \<circ> hb_indices \<circ> snd) (fe_visit env buckets))), fr_cache = cache'\<rparr>
                    | (files, Failed, cache') \<Rightarrow> \<lparr>fr_written = files, fr_registered = [], fr_outcome = Failed, fr_cache = cache'\<rparr>
                    | (files, Panicked, cache') \<Rightarrow> \<lparr>fr_written = files, fr_registered = [], fr_outcome = Panicked, fr_cache = cache'\<rparr>))"

text \<open>The worker: a merge that panics ends the process.\<close>

definition flushRecords ::
  "flush_env \<Rightarrow> string \<Rightarrow> string \<Rightarrow> typed_batch list \<Rightarrow> nat \<Rightarrow> arrow_schema lru \<Rightarrow> flush_result" where
  "flushRecords env db m batches recordCount cache =
     (case mergeBatches batches of
        Merged b \<Rightarrow> flushPartitionedData env db m b recordCount cache
      | NoBatches \<Rightarrow> \<lparr>fr_written = [], fr_registered = [], fr_outcome = Failed, fr_cache = cache\<rparr>
      | MergePanic \<Rightarrow> \<lparr>fr_written = [], fr_registered = [], fr_outcome = Panicked, fr_cache = cache\<rparr>)"

section \<open>Rows under reordering\<close>

definition reindex :: "nat list \<Rightarrow> typed_batch \<Rightarrow> typed_batch" where
  "reindex is b =
     b\<lparr>tb_Data := permute_columns is (tb_Data b), tb_Validity := map (\<lambda>(name, v). (name, map (\<lambda>i. v ! i) is)) (tb_Validity b)\<rparr>"

lemma slice_reindex:
  assumes "batch_ok b" "\<forall>i\<in>set is. i < batch_rows b"
  shows "sliceTypedColumnBatchByIndices b is = reindex is b"
proof -
  have "sliceColumnsByIndices (tb_Data b) is = permute_columns is (tb_Data b)"
    using assms by (auto simp: sliceColumnsByIndices_def permute_columns_def applyPermutation_def batch_ok_def)
  moreover have "map (\<lambda>(name, v). (name, map (\<lambda>i. i < length v \<and> v ! i) is)) (tb_Validity b) =
      map (\<lambda>(name, v). (name, map (\<lambda>i. v ! i) is)) (tb_Validity b)"
    using assms by (auto simp: batch_ok_def)
  ultimately show ?thesis by (simp add: sliceTypedColumnBatchByIndices_def reindex_def)
qed

lemma reindex_data: "map_of (tb_Data (reindex is b)) name = map_option (applyPermutation is) (map_of (tb_Data b) name)"
  by (simp add: reindex_def permute_columns_def map_of_map_entries)

lemma reindex_validity: "map_of (tb_Validity (reindex is b)) name = map_option (\<lambda>v. map (\<lambda>i. v ! i) is) (map_of (tb_Validity b) name)"
  by (simp add: reindex_def map_of_map_entries)

lemma reindex_time:
  assumes "time_column (tb_Data b) = Some ts" "\<forall>i\<in>set is. i < length ts"
  shows "time_column (tb_Data (reindex is b)) = Some (map (\<lambda>i. ts ! i) is)" "batch_rows (reindex is b) = length is"
proof -
  obtain c where "map_of (tb_Data b) ''time'' = Some c" "col_kind c = KInt64" "ts = map as_int64 (col_elems c)"
    using assms(1) by (auto simp: time_column_def int64s_def split: option.splits if_splits)
  then show t: "time_column (tb_Data (reindex is b)) = Some (map (\<lambda>i. ts ! i) is)"
    using assms(2) by (simp add: time_column_def reindex_data int64s_def applyPermutation_def)
  show "batch_rows (reindex is b) = length is" by (simp add: batch_rows_def t)
qed

lemma well_formed_times:
  assumes "batch_ok b"
  obtains ts where "time_column (tb_Data b) = Some ts" "length ts = batch_rows b"
  using assms by (auto simp: batch_ok_def batch_rows_def)

lemma reindex_rows:
  assumes "batch_ok b" "\<forall>i\<in>set is. i < batch_rows b"
  shows "batch_ok (reindex is b)" "rows (reindex is b) = map (row_at b) is"
proof -
  obtain ts where ts: "time_column (tb_Data b) = Some ts" "length ts = batch_rows b" by (rule well_formed_times [OF assms(1)])
  note t = reindex_time [OF ts(1), of "is"]
  have n: "batch_rows (reindex is b) = length is" using t(2) ts(2) assms(2) by simp
  have keys: "map fst (tb_Data (reindex is b)) = map fst (tb_Data b)" "map fst (tb_Validity (reindex is b)) = map fst (tb_Validity b)"
    by (simp_all add: reindex_def permute_columns_def comp_def case_prod_beta)
  then have keyset: "fst ` set (tb_Data (reindex is b)) = fst ` set (tb_Data b)" by (metis list.set_map)
  have "length (col_elems c) = length is" if "(name, c) \<in> set (tb_Data (reindex is b))" for name c
    using that by (auto simp: reindex_def permute_columns_def applyPermutation_def)
  moreover have "length v = length is \<and> name \<noteq> ''time'' \<and> name \<in> fst ` set (tb_Data b)" if "(name, v) \<in> set (tb_Validity (reindex is b))" for name v
    using that assms(1) by (auto simp: reindex_def batch_ok_def)
  ultimately show "batch_ok (reindex is b)"
    unfolding batch_ok_def keys keyset n using assms t(1) ts(2) by (auto simp: batch_ok_def)
  have "row_at (reindex is b) k = row_at b (is ! k)" if "k < length is" for k
  proof
    fix name
    show "row_at (reindex is b) k name = row_at b (is ! k) name"
      using that by (auto simp: row_at_def valid_at_def reindex_data reindex_validity applyPermutation_def split: option.splits)
  qed
  then show "rows (reindex is b) = map (row_at b) is"
    by (intro nth_equalityI) (simp_all add: rows_def n)
qed

text \<open>The shape of a batch, which the schema and its cache depend on.\<close>

definition batch_shape :: "typed_batch \<Rightarrow> (string \<times> kind) list \<times> string list \<times> bool" where
  "batch_shape b = (map (\<lambda>(name, c). (name, col_kind c)) (tb_Data b), tb_TagColumns b, tb_DedupTime b)"

lemma shape_visible:
  "map (\<lambda>(name, c). (name, col_kind c)) (visible_columns cols) = filter (\<lambda>(name, k). \<not> internal_column name) (map (\<lambda>(name, c). (name, col_kind c)) cols)"
  by (induction cols) (auto simp: visible_columns_def)

lemma shape_functions:
  assumes "map (\<lambda>(name, c). (name, col_kind c)) cols = map (\<lambda>(name, c). (name, col_kind c)) cols'"
  shows "cache_key m cols tags dd = cache_key m cols' tags dd" "inferSchema cols tags dd ds = inferSchema cols' tags dd ds"
    "list_all (\<lambda>(name, c). name \<noteq> []) cols = list_all (\<lambda>(name, c). name \<noteq> []) cols'"
proof -
  have v: "map (\<lambda>(name, c). (name, col_kind c)) (visible_columns cols) = map (\<lambda>(name, c). (name, col_kind c)) (visible_columns cols')"
    by (simp add: shape_visible assms)
  have n: "map fst xs = map fst (map (\<lambda>(name, c). (name, col_kind c)) xs)" for xs :: "(string \<times> typed_column) list" by (simp add: comp_def case_prod_beta)
  have f: "map (\<lambda>(name, c). f name (col_kind c)) xs = map (\<lambda>(name, k). f name k) (map (\<lambda>(name, c). (name, col_kind c)) xs)"
    for f :: "string \<Rightarrow> kind \<Rightarrow> 'x" and xs by (simp add: comp_def case_prod_beta)
  have e: "list_ex (\<lambda>(name, c). P name (col_kind c)) xs = list_ex (\<lambda>(name, k). P name k) (map (\<lambda>(name, c). (name, col_kind c)) xs)"
    for P :: "string \<Rightarrow> kind \<Rightarrow> bool" and xs by (simp add: list_ex_iff case_prod_beta)
  have a: "list_all (\<lambda>(name, c). P name (col_kind c)) xs = list_all (\<lambda>(name, k). P name k) (map (\<lambda>(name, c). (name, col_kind c)) xs)"
    for P :: "string \<Rightarrow> kind \<Rightarrow> bool" and xs by (simp add: list_all_iff case_prod_beta)
  show "cache_key m cols tags dd = cache_key m cols' tags dd"
    unfolding cache_key_def n [of "visible_columns cols"] n [of "visible_columns cols'"] f [of type_name] v ..
  show "inferSchema cols tags dd ds = inferSchema cols' tags dd ds"
    unfolding inferSchema_def f [of "\<lambda>name k. (name, the (field_type ds name k))"] e [of "\<lambda>name k. field_type ds name k = None"]
      e [of "\<lambda>name k. name = []"] v assms ..
  show "list_all (\<lambda>(name, c). name \<noteq> []) cols = list_all (\<lambda>(name, c). name \<noteq> []) cols'"
    unfolding a [of "\<lambda>name k. name \<noteq> []"] assms ..
qed

lemma shape_fits:
  assumes "batch_shape b = batch_shape b'"
  shows "cache_fits m b ds cache = cache_fits m b' ds cache" "named b = named b'"
proof -
  have s: "map (\<lambda>(name, c). (name, col_kind c)) (tb_Data b) = map (\<lambda>(name, c). (name, col_kind c)) (tb_Data b')"
    "tb_TagColumns b = tb_TagColumns b'" "tb_DedupTime b = tb_DedupTime b'" using assms by (simp_all add: batch_shape_def)
  show "cache_fits m b ds cache = cache_fits m b' ds cache"
    unfolding cache_fits_def shape_functions(1,2) [OF s(1)] s(2,3) ..
  show "named b = named b'" unfolding named_def by (rule shape_functions(3) [OF s(1)])
qed

lemma reindex_shape: "batch_shape (reindex is b) = batch_shape b"
  by (auto simp: batch_shape_def reindex_def permute_columns_def applyPermutation_def)

section \<open>Sorting keeps the rows\<close>

lemma sort_reindexes:
  assumes "batch_ok b" "sorts srt"
  obtains "sortTypedColumnBatchByKeys srt b keys = b" "keys = [''time''] \<Longrightarrow> in_time (the (time_column (tb_Data b))) [0..<batch_rows b]"
  | "is" where "sortTypedColumnBatchByKeys srt b keys = reindex is b" "mset is = mset [0..<batch_rows b]"
     "keys = [''time''] \<Longrightarrow> in_time (the (time_column (tb_Data b))) is"
proof -
  obtain ts where ts: "time_column (tb_Data b) = Some ts" "length ts = batch_rows b" by (rule well_formed_times [OF assms(1)])
  have count: "row_count (tb_Data b) = batch_rows b"
  proof (cases "List.find (\<lambda>(name, c). col_elems c \<noteq> []) (tb_Data b)")
    case None
    obtain c where "map_of (tb_Data b) ''time'' = Some c" using well_formed_time [OF assms(1)] by blast
    then have "(''time'', c) \<in> set (tb_Data b)" by (rule map_of_SomeD)
    then have "col_elems c = []" "length (col_elems c) = batch_rows b" using None assms(1) by (auto simp: find_None_iff batch_ok_def)
    then show ?thesis using None by (simp add: row_count_def)
  next
    case (Some x)
    then obtain i where "i < length (tb_Data b)" "x = tb_Data b ! i" by (auto simp: find_Some_iff)
    then have "x \<in> set (tb_Data b)" by simp
    then have "length (col_elems (snd x)) = batch_rows b" using assms(1) by (auto simp: batch_ok_def)
    then show ?thesis using Some by (simp add: row_count_def case_prod_beta)
  qed
  show thesis
  proof (cases "keys = [''time'']")
    case True
    note p = permuteByTime_sorts [OF assms(2), of ts]
    show thesis
    proof (cases "permuteByTime srt ts")
      case None
      then show thesis using that(1) p ts True
        by (simp add: sortTypedColumnBatchByKeys_def sortColumnsByKeysWithPermutation_def sortColumnsByTimeOnlyWithPermutation_def)
    next
      case (Some "is")
      then show thesis using that(2) [of "is"] p ts True
        by (simp add: sortTypedColumnBatchByKeys_def sortColumnsByKeysWithPermutation_def sortColumnsByTimeOnlyWithPermutation_def reindex_def)
    qed
  next
    case False
    let ?is = "srt (compareMultiKeyCached (map (\<lambda>k. the (map_of (tb_Data b) k)) keys)) [0..<batch_rows b]"
    show thesis
    proof (cases "keys = [] \<or> list_ex (\<lambda>k. map_of (tb_Data b) k = None) keys \<or> batch_rows b = 0")
      case True
      then show thesis using that(1) False count by (auto simp: sortTypedColumnBatchByKeys_def sortColumnsByKeysWithPermutation_def Let_def)
    next
      case nontrivial: False
      then have "sortTypedColumnBatchByKeys srt b keys = reindex ?is b"
        using False count by (simp add: sortTypedColumnBatchByKeys_def sortColumnsByKeysWithPermutation_def reindex_def Let_def)
      then show thesis using that(2) [of ?is] sorts_mset [OF assms(2)] False by simp
    qed
  qed
qed

definition row_time :: "table_row \<Rightarrow> int" where
  "row_time r = (case r ''time'' of Some e \<Rightarrow> sint (as_int64 e) | None \<Rightarrow> 0)"

lemma row_time_visible [simp]: "row_time (visible_row r) = row_time r"
  by (simp add: row_time_def visible_row_def)

lemma row_time_at:
  assumes "batch_ok b" "time_column (tb_Data b) = Some ts" "i < batch_rows b"
  shows "row_time (row_at b i) = sint (ts ! i)"
proof -
  obtain c where c: "map_of (tb_Data b) ''time'' = Some c" "ts = map as_int64 (col_elems c)"
    using assms(2) by (auto simp: time_column_def int64s_def split: option.splits if_splits)
  have "map_of (tb_Validity b) ''time'' = None" using assms(1) by (auto simp: batch_ok_def map_of_eq_None_iff)
  then show ?thesis using c assms(3) well_formed_lengths(4) [OF assms(1) c(1)] by (simp add: row_time_def row_at_def valid_at_def)
qed

lemma sort_result:
  assumes "batch_ok b" "sorts srt"
  shows "batch_ok (sortTypedColumnBatchByKeys srt b keys)" "batch_shape (sortTypedColumnBatchByKeys srt b keys) = batch_shape b"
    "mset (rows (sortTypedColumnBatchByKeys srt b keys)) = mset (rows b)"
    "keys = [''time''] \<Longrightarrow> sorted (map row_time (rows (sortTypedColumnBatchByKeys srt b keys)))"
proof -
  obtain ts where ts: "time_column (tb_Data b) = Some ts" "length ts = batch_rows b" by (rule well_formed_times [OF assms(1)])
  have "batch_ok (sortTypedColumnBatchByKeys srt b keys) \<and> batch_shape (sortTypedColumnBatchByKeys srt b keys) = batch_shape b \<and>
    mset (rows (sortTypedColumnBatchByKeys srt b keys)) = mset (rows b) \<and>
    (keys = [''time''] \<longrightarrow> sorted (map row_time (rows (sortTypedColumnBatchByKeys srt b keys))))"
  proof (rule sort_reindexes [OF assms, of keys], goal_cases)
    case 1
    have "map row_time (rows b) = map (\<lambda>i. sint (ts ! i)) [0..<batch_rows b]"
      by (simp add: rows_def row_time_at [OF assms(1) ts(1)])
    then show ?case unfolding 1(1) using 1(2) assms(1) ts(1) by (simp add: in_time_def)
  next
    case (2 "is")
    have set: "set is = {0..<batch_rows b}" using arg_cong [OF 2(2), of set_mset] by simp
    then have bound: "\<forall>i\<in>set is. i < batch_rows b" by simp
    have "mset (map (row_at b) is) = mset (map (row_at b) [0..<batch_rows b])" unfolding mset_map 2(2) ..
    moreover have m: "map row_time (map (row_at b) is) = map (\<lambda>i. sint (ts ! i)) is"
      using bound row_time_at [OF assms(1) ts(1)] by simp
    moreover have "keys = [''time''] \<longrightarrow> sorted (map row_time (rows (reindex is b)))"
      unfolding reindex_rows(2) [OF assms(1) bound] m using 2(3) ts(1) by (simp add: in_time_def)
    ultimately show ?case unfolding 2(1) using reindex_rows [OF assms(1) bound] reindex_shape ts(1) by (simp add: rows_def [of b] in_time_def)
  qed
  then show "batch_ok (sortTypedColumnBatchByKeys srt b keys)" "batch_shape (sortTypedColumnBatchByKeys srt b keys) = batch_shape b"
    "mset (rows (sortTypedColumnBatchByKeys srt b keys)) = mset (rows b)"
    "keys = [''time''] \<Longrightarrow> sorted (map row_time (rows (sortTypedColumnBatchByKeys srt b keys)))" by blast+
qed

section \<open>Hours\<close>

lemma HourBucketID_floor: "HourBucketID t = sint t div microPerHour"
  using zdiv_zminus1_eq_if [of microPerHour "- sint t"] by (auto simp: HourBucketID_def Let_def microPerHour_def)

text \<open>What the loop over the rows has made of the first \<open>k\<close> of them.\<close>

definition grouped :: "64 word list \<Rightarrow> nat \<Rightarrow> (int \<times> hour_bucket) list \<Rightarrow> bool" where
  "grouped ts k buckets \<longleftrightarrow>
     distinct (map fst buckets) \<and> mset (concat (map (hb_indices \<circ> snd) buckets)) = mset [0..<k] \<and>
     (\<forall>(h, bk)\<in>set buckets. hb_indices bk \<noteq> [] \<and> (\<forall>i\<in>set (hb_indices bk). HourBucketID (ts ! i) = h))"

lemma add_to_bucket:
  assumes "distinct (map fst buckets)" "h \<in> fst ` set buckets"
  shows "mset (concat (map (hb_indices \<circ> snd) (map (\<lambda>(h', bk). (h', if h' = h then bk\<lparr>hb_indices := hb_indices bk @ [i], hb_minTime := x bk, hb_maxTime := y bk\<rparr> else bk)) buckets))) =
    add_mset i (mset (concat (map (hb_indices \<circ> snd) buckets)))"
  using assms
proof (induction buckets)
  case (Cons hb buckets)
  obtain h' bk where hb: "hb = (h', bk)" by (cases hb)
  show ?case
  proof (cases "h' = h")
    case True
    then have "map (\<lambda>(h', bk). (h', if h' = h then bk\<lparr>hb_indices := hb_indices bk @ [i], hb_minTime := x bk, hb_maxTime := y bk\<rparr> else bk)) buckets = buckets"
      using Cons.prems(1) hb by (intro map_idI) force
    then show ?thesis using hb True by simp
  next
    case False
    then show ?thesis using Cons hb by simp
  qed
qed simp

lemma group_row_grouped:
  assumes "grouped ts k buckets" "k < length ts"
  shows "grouped ts (Suc k) (group_row ts k buckets)"
proof (cases "map_of buckets (HourBucketID (ts ! k))")
  case None
  define bk where "bk = \<lparr>hb_hourID = HourBucketID (ts ! k), hb_indices = [k], hb_minTime = ts ! k, hb_maxTime = ts ! k\<rparr>"
  have g: "group_row ts k buckets = buckets @ [(HourBucketID (ts ! k), bk)]"
    using None by (simp add: group_row_def Let_def bk_def)
  have "HourBucketID (ts ! k) \<notin> fst ` set buckets" using None by (simp add: map_of_eq_None_iff)
  then show ?thesis using assms(1) unfolding grouped_def g by (auto simp: bk_def)
next
  case (Some bk)
  then have "HourBucketID (ts ! k) \<in> fst ` set buckets" by (force dest: map_of_SomeD)
  note m = add_to_bucket [OF _ this]
  have d: "map fst (map (\<lambda>(h', bk). (h', f h' bk)) buckets) = map fst buckets" for f :: "int \<Rightarrow> hour_bucket \<Rightarrow> hour_bucket"
    by (simp add: comp_def case_prod_beta)
  define upd where "upd = (\<lambda>h' (bk :: hour_bucket). if h' = HourBucketID (ts ! k)
    then bk\<lparr>hb_indices := hb_indices bk @ [k], hb_minTime := (if ts ! k <s hb_minTime bk then ts ! k else hb_minTime bk),
      hb_maxTime := (if hb_maxTime bk <s ts ! k then ts ! k else hb_maxTime bk)\<rparr> else bk)"
  have g: "group_row ts k buckets = map (\<lambda>(h', bk). (h', upd h' bk)) buckets"
    using Some by (simp add: group_row_def Let_def upd_def)
  have dist: "distinct (map fst buckets)" using assms(1) by (simp add: grouped_def)
  have "mset (concat (map (hb_indices \<circ> snd) (group_row ts k buckets))) = add_mset k (mset (concat (map (hb_indices \<circ> snd) buckets)))"
    unfolding g upd_def by (rule m [OF dist])
  moreover have "distinct (map fst (group_row ts k buckets))" unfolding g d by (rule dist)
  moreover have "hb_indices bk \<noteq> [] \<and> (\<forall>i\<in>set (hb_indices bk). HourBucketID (ts ! i) = h)" if hb: "(h, bk) \<in> set (group_row ts k buckets)" for h bk
  proof -
    obtain bk' where "(h, bk') \<in> set buckets" "bk = upd h bk'" using hb unfolding g by auto
    moreover from this have "hb_indices bk' \<noteq> [] \<and> (\<forall>i\<in>set (hb_indices bk'). HourBucketID (ts ! i) = h)"
      using assms(1) by (auto simp: grouped_def)
    ultimately show ?thesis by (auto simp: upd_def)
  qed
  ultimately show ?thesis using assms(1) by (auto simp: grouped_def)
qed

lemma groupByHour_groups:
  assumes "ts \<noteq> []"
  obtains buckets where "groupByHour ts = Some (buckets, min_time ts, max_time ts)" "grouped ts (length ts) buckets"
proof -
  have "k \<le> length ts \<Longrightarrow> grouped ts k (fold (group_row ts) [0..<k] [])" for k
  proof (induction k)
    case 0
    show ?case by (simp add: grouped_def)
  next
    case (Suc k)
    then show ?case using group_row_grouped [of ts k] by simp
  qed
  then show thesis using that assms by (simp add: groupByHour_def)
qed

lemma min_max_time:
  assumes "t \<in> set ts"
  shows "sint (min_time ts) \<le> sint t" "sint t \<le> sint (max_time ts)"
proof -
  have mn: "sint (fold (\<lambda>t m. if t <s m then t else m) xs m) \<le> sint m \<and>
      (\<forall>t\<in>set xs. sint (fold (\<lambda>t m. if t <s m then t else m) xs m) \<le> sint t)" for xs :: "64 word list" and m
  proof (induction xs arbitrary: m)
    case (Cons a xs)
    let ?m = "if a <s m then a else m"
    have "sint ?m \<le> sint m" "sint ?m \<le> sint a" by (auto simp: word_sless_alt)
    then show ?case using Cons.IH [of ?m] unfolding fold_simps by (auto simp del: if_split intro: order_trans)
  qed simp
  have mx: "sint m \<le> sint (fold (\<lambda>t m. if m <s t then t else m) xs m) \<and>
      (\<forall>t\<in>set xs. sint t \<le> sint (fold (\<lambda>t m. if m <s t then t else m) xs m))" for xs :: "64 word list" and m
  proof (induction xs arbitrary: m)
    case (Cons a xs)
    let ?m = "if m <s a then a else m"
    have "sint m \<le> sint ?m" "sint a \<le> sint ?m" by (auto simp: word_sless_alt)
    then show ?case using Cons.IH [of ?m] unfolding fold_simps by (auto simp del: if_split intro: order_trans)
  qed simp
  show "sint (min_time ts) \<le> sint t" "sint t \<le> sint (max_time ts)"
    using mn [of ts "hd ts"] mx [of "hd ts" ts] assms by (simp_all add: min_time_def max_time_def)
qed

definition time_in_range :: "int \<Rightarrow> bool" where
  "time_in_range t \<longleftrightarrow> - (2 ^ 63) + microPerHour \<le> t"

lemma hourIDToTime_hour:
  assumes "time_in_range (sint t)"
  shows "sint (hourIDToTime (HourBucketID t)) div microPerHour = HourBucketID t"
proof -
  let ?x = "sint t div microPerHour * microPerHour"
  have "- (2 ^ 63) \<le> ?x" "?x \<le> sint t"
    using assms by (simp_all add: time_in_range_def microPerHour_def minus_mod_eq_div_mult [symmetric])
  moreover have "sint t < 2 ^ 63" using sint_lt [of t] by simp
  ultimately have "signed_take_bit 63 ?x = ?x" by (intro signed_take_bit_int_eq_self) auto
  then have "sint (word_of_int ?x :: 64 word) = ?x" by (simp add: signed_of_int del: of_int_mult)
  then have "sint (hourIDToTime (HourBucketID t)) = ?x"
    unfolding hourIDToTime_def HourBucketID_floor .
  then show ?thesis by (simp add: HourBucketID_floor microPerHour_def)
qed

section \<open>A flush writes every row\<close>

definition flush_env_ok :: "flush_env \<Rightarrow> bool" where
  "flush_env_ok env \<longleftrightarrow> sorts (fe_sort env) \<and> (\<forall>bks. mset (fe_visit env bks) = mset bks)"

definition env_succeeds :: "flush_env \<Rightarrow> bool" where
  "env_succeeds env \<longleftrightarrow> (\<forall>t. fe_encodes env t) \<and> (\<forall>p. fe_stores env p)"

lemma write_file_success:
  assumes "batch_ok b" "named b" "cache_fits m b (fe_decimals env m) cache" "env_succeeds env"
  obtains t cache' where "write_file env m b path cache = (Ok t, cache')" "rows t = map visible_row (rows b)"
    "cache_fits m b (fe_decimals env m) cache'"
proof -
  obtain t cache' where "WriteParquetColumnar (fe_encodes env) m b (fe_decimals env m) cache = (Ok t, cache')"
    "rows t = map visible_row (rows b)" "cache_fits m b (fe_decimals env m) cache'"
    by (rule written_rows [OF assms(1,2,3), of "fe_encodes env"]) (use assms(4) in \<open>auto simp: env_succeeds_def\<close>)
  then show thesis using that assms(4) by (simp add: write_file_def env_succeeds_def)
qed

text \<open>What is in the file of an hour.\<close>

definition hour_file :: "flush_env \<Rightarrow> string \<Rightarrow> string \<Rightarrow> typed_batch \<Rightarrow> int \<times> hour_bucket \<Rightarrow> storage_path \<times> typed_batch \<Rightarrow> bool" where
  "hour_file env db m b = (\<lambda>(h, bk) (p, t).
     sp_database p = db \<and> sp_measurement p = m \<and> sp_hour p = sint (hourIDToTime h) div microPerHour \<and>
     mset (rows t) = mset (map (visible_row \<circ> row_at b) (hb_indices bk)) \<and>
     (fe_keys env m = [''time''] \<longrightarrow> sorted (map row_time (rows t))))"

lemma sorted_file:
  assumes "batch_ok b" "named b" "cache_fits m b (fe_decimals env m) cache" "env_succeeds env" "flush_env_ok env"
  obtains t cache' where "write_file env m (sortTypedColumnBatchByKeys (fe_sort env) b (fe_keys env m)) path cache = (Ok t, cache')"
    "mset (rows t) = mset (map visible_row (rows b))" "fe_keys env m = [''time''] \<longrightarrow> sorted (map row_time (rows t))"
    "cache_fits m b (fe_decimals env m) cache'"
proof -
  let ?s = "sortTypedColumnBatchByKeys (fe_sort env) b (fe_keys env m)"
  have srt: "sorts (fe_sort env)" using assms(5) by (simp add: flush_env_ok_def)
  note s = sort_result [OF assms(1) srt, of "fe_keys env m"]
  obtain t cache' where t: "write_file env m ?s path cache = (Ok t, cache')" "rows t = map visible_row (rows ?s)"
    "cache_fits m ?s (fe_decimals env m) cache'"
    by (rule write_file_success [OF s(1), of m env cache path]) (use assms(2,3,4) shape_fits [OF s(2)] in simp_all)
  have m: "mset (rows t) = mset (map visible_row (rows b))" using t(2) s(3) by simp
  have o: "fe_keys env m = [''time''] \<longrightarrow> sorted (map row_time (rows t))" using s(4) t(2) by (simp add: comp_def)
  show thesis by (rule that [OF t(1) m o]) (use t(3) shape_fits(1) [OF s(2)] in simp_all)
qed

lemma write_hours_success:
  assumes "batch_ok b" "named b" "env_succeeds env" "flush_env_ok env"
  shows "\<lbrakk>cache_fits m b (fe_decimals env m) cache; \<forall>(h, bk)\<in>set bks. \<forall>i\<in>set (hb_indices bk). i < batch_rows b\<rbrakk> \<Longrightarrow>
    \<exists>files cache'. write_hours env db m b k bks cache = (files, Ok (), cache') \<and> list_all2 (hour_file env db m b) bks files"
proof (induction bks arbitrary: k cache)
  case (Cons hb bks)
  obtain h bk where hb: "hb = (h, bk)" by (cases hb)
  let ?b = "reindex (hb_indices bk) b" and ?path = "generateStoragePath db m (hourIDToTime h) (fe_clock env k)"
  have bound: "\<forall>i\<in>set (hb_indices bk). i < batch_rows b" using Cons.prems(2) hb by simp
  note r = reindex_rows [OF assms(1) bound]
  note sh = shape_fits [OF reindex_shape [of "hb_indices bk" b]]
  obtain t cache' where t: "write_file env m (sortTypedColumnBatchByKeys (fe_sort env) ?b (fe_keys env m)) ?path cache = (Ok t, cache')"
    "mset (rows t) = mset (map visible_row (rows ?b))" "fe_keys env m = [''time''] \<longrightarrow> sorted (map row_time (rows t))"
    "cache_fits m ?b (fe_decimals env m) cache'"
    by (rule sorted_file [OF r(1) _ _ assms(3,4), of m cache ?path]) (use assms(2) Cons.prems(1) sh in simp_all)
  have "cache_fits m b (fe_decimals env m) cache'" using t(4) sh(1) by simp
  then obtain files cache'' where f: "write_hours env db m b (Suc k) bks cache' = (files, Ok (), cache'')" "list_all2 (hour_file env db m b) bks files"
    using Cons.IH [of cache' "Suc k"] Cons.prems(2) by auto
  have "hour_file env db m b (h, bk) (?path, t)"
    using t(2,3) r(2) by (simp add: hour_file_def generateStoragePath_def multiset.map_comp comp_def)
  then show ?case using f t(1) slice_reindex [OF assms(1) bound] hb by (simp add: Let_def)
qed simp

lemma all2_visible:
  "list_all2 (hour_file env db m b) bks files \<Longrightarrow>
   mset (concat (map (rows \<circ> snd) files)) = mset (map (visible_row \<circ> row_at b) (concat (map (hb_indices \<circ> snd) bks)))"
  by (induction bks files rule: list_all2_induct) (auto simp: hour_file_def comp_def)

lemma all2_hours:
  "list_all2 (hour_file env db m b) bks files \<Longrightarrow>
   map (sp_hour \<circ> fst) files = map (\<lambda>(h, bk). sint (hourIDToTime h) div microPerHour) bks"
  by (induction bks files rule: list_all2_induct) (auto simp: hour_file_def)

lemma mset_concat_perm: "mset xs = mset ys \<Longrightarrow> mset (concat (map f xs)) = mset (concat (map f ys))"
proof -
  assume "mset xs = mset ys"
  then have "image_mset (\<lambda>x. mset (f x)) (mset xs) = image_mset (\<lambda>x. mset (f x)) (mset ys)" by simp
  moreover have "mset (concat (map f zs)) = (\<Sum>x\<in>#mset zs. mset (f x))" for zs by (induction zs) simp_all
  ultimately show ?thesis by simp
qed

lemma merge_named:
  assumes "mergeBatches bs = Merged b" "\<forall>b\<in>set bs. named b" "\<forall>b\<in>set bs. batch_ok b" "same_kinds bs"
  shows "named b"
proof (cases "2 \<le> length bs")
  case True
  have "b = merged bs" using mergeBatches_merged [OF True assms(3,4)] assms(1) by simp
  moreover have "name \<noteq> []" if "(name, k) \<in> set (column_types bs)" for name k
  proof -
    have "name \<in> fst ` set (column_types bs)" using that by force
    then have "map_of (column_types bs) name \<noteq> None" by (simp add: map_of_eq_None_iff del: not_None_eq)
    then obtain b' where "b' \<in> set bs" "map_of (tb_Data b') name \<noteq> None" unfolding column_types_None by blast
    then show ?thesis using assms(2) by (auto simp: named_def list_all_iff dest!: map_of_SomeD)
  qed
  ultimately show ?thesis by (auto simp: named_def list_all_iff merged_def)
next
  case False
  then obtain b' where "bs = [b']" using assms(1) by (cases bs) (auto simp: mergeBatches_def Suc_le_eq)
  then show ?thesis using assms by (simp add: mergeBatches_def)
qed

text \<open>What a flush of a batch must do.\<close>

definition flushed :: "flush_env \<Rightarrow> string \<Rightarrow> string \<Rightarrow> table_row list \<Rightarrow> flush_result \<Rightarrow> bool" where
  "flushed env db m rs r \<longleftrightarrow>
     (\<exists>n. fr_outcome r = Ok n) \<and> fr_registered r = map fst (fr_written r) \<and>
     mset (concat (map (rows \<circ> snd) (fr_written r))) = mset (map visible_row rs) \<and>
     distinct (map (sp_hour \<circ> fst) (fr_written r)) \<and>
     (\<forall>(p, t)\<in>set (fr_written r). sp_database p = db \<and> sp_measurement p = m \<and>
        (\<forall>x\<in>set (rows t). row_time x div microPerHour = sp_hour p) \<and>
        (fe_keys env m = [''time''] \<longrightarrow> sorted (map row_time (rows t))))"

lemma flush_single_hour:
  assumes "batch_ok b" "named b" "cache_fits m b (fe_decimals env m) cache" "env_succeeds env" "flush_env_ok env"
    "time_column (tb_Data b) = Some ts" "ts \<noteq> []" "sint (min_time ts) div microPerHour = sint (max_time ts) div microPerHour"
  shows "flushed env db m (rows b) (flushPartitionedData env db m b n cache)"
proof -
  let ?path = "generateStoragePath db m (min_time ts) (fe_clock env 0)"
  obtain t cache' where t: "write_file env m (sortTypedColumnBatchByKeys (fe_sort env) b (fe_keys env m)) ?path cache = (Ok t, cache')"
    "mset (rows t) = mset (map visible_row (rows b))" "fe_keys env m = [''time''] \<longrightarrow> sorted (map row_time (rows t))"
    "cache_fits m b (fe_decimals env m) cache'"
    by (rule sorted_file [OF assms(1-5), of ?path])
  have len: "length ts = batch_rows b" using assms(6) by (simp add: batch_rows_def)
  have "sint (ts ! i) div microPerHour = sint (min_time ts) div microPerHour" if "i < batch_rows b" for i
  proof -
    have "ts ! i \<in> set ts" using that len by simp
    then have "sint (min_time ts) div microPerHour \<le> sint (ts ! i) div microPerHour" "sint (ts ! i) div microPerHour \<le> sint (max_time ts) div microPerHour"
      using min_max_time by (auto intro!: zdiv_mono1 simp: microPerHour_def)
    then show ?thesis using assms(8) by simp
  qed
  moreover have "set (rows t) = visible_row ` row_at b ` {0..<batch_rows b}"
    using arg_cong [OF t(2), of set_mset] by (simp add: rows_def [of b] image_image)
  ultimately have "\<forall>x\<in>set (rows t). row_time x div microPerHour = sp_hour ?path"
    using row_time_at [OF assms(1,6)] by (auto simp: generateStoragePath_def)
  moreover have r: "flushPartitionedData env db m b n cache =
      \<lparr>fr_written = [(?path, t)], fr_registered = [?path], fr_outcome = Ok n, fr_cache = cache'\<rparr>"
    using t(1) assms(6-8) by (simp add: flushPartitionedData_def Let_def)
  ultimately show ?thesis unfolding r flushed_def using t(2,3) by (simp add: generateStoragePath_def)
qed

lemma flush_many_hours:
  assumes "batch_ok b" "named b" "cache_fits m b (fe_decimals env m) cache" "env_succeeds env" "flush_env_ok env"
    "time_column (tb_Data b) = Some ts" "ts \<noteq> []" "sint (min_time ts) div microPerHour \<noteq> sint (max_time ts) div microPerHour"
    "\<forall>t\<in>set ts. time_in_range (sint t)"
  shows "flushed env db m (rows b) (flushPartitionedData env db m b n cache)"
proof -
  have len: "length ts = batch_rows b" using assms(6) by (simp add: batch_rows_def)
  obtain buckets where b: "groupByHour ts = Some (buckets, min_time ts, max_time ts)" "grouped ts (length ts) buckets"
    by (rule groupByHour_groups [OF assms(7)])
  let ?bks = "fe_visit env buckets"
  have perm: "mset ?bks = mset buckets" using assms(5) by (simp add: flush_env_ok_def)
  have set_bks: "set ?bks = set buckets" by (rule mset_eq_setD [OF perm])
  have idx: "mset (concat (map (hb_indices \<circ> snd) buckets)) = mset [0..<batch_rows b]" using b(2) len by (simp add: grouped_def)
  have bound: "i < batch_rows b" if "(h, bk) \<in> set ?bks" "i \<in> set (hb_indices bk)" for h bk i
    using arg_cong [OF idx, of set_mset] that set_bks by force
  have hour: "HourBucketID (ts ! i) = h" "hb_indices bk \<noteq> []" if "(h, bk) \<in> set ?bks" "i \<in> set (hb_indices bk)" for h bk i
    using b(2) that set_bks by (auto simp: grouped_def)
  have h_ok: "sint (hourIDToTime h) div microPerHour = h" if hb: "(h, bk) \<in> set ?bks" for h bk
  proof -
    have "hb_indices bk \<noteq> []" using b(2) hb set_bks by (auto simp: grouped_def)
    then obtain i where i: "i \<in> set (hb_indices bk)" by (cases "hb_indices bk") auto
    then have "ts ! i \<in> set ts" using bound [OF hb i] len by simp
    then show ?thesis using hourIDToTime_hour [of "ts ! i"] hour(1) [OF hb i] assms(9) by simp
  qed
  obtain files cache' where w: "write_hours env db m b 0 ?bks cache = (files, Ok (), cache')" "list_all2 (hour_file env db m b) ?bks files"
    using write_hours_success [OF assms(1,2,4,5), of m cache ?bks db 0] assms(3) bound by blast
  have "mset (concat (map (rows \<circ> snd) files)) = mset (map (visible_row \<circ> row_at b) (concat (map (hb_indices \<circ> snd) ?bks)))"
    by (rule all2_visible [OF w(2)])
  also have "\<dots> = mset (map (visible_row \<circ> row_at b) [0..<batch_rows b])"
    unfolding mset_map using mset_concat_perm [OF perm, of "hb_indices \<circ> snd"] idx by simp
  finally have all: "mset (concat (map (rows \<circ> snd) files)) = mset (map visible_row (rows b))"
    by (simp add: rows_def [of b] multiset.map_comp)
  have "map (sp_hour \<circ> fst) files = map fst ?bks"
    unfolding all2_hours [OF w(2)] by (rule map_cong) (use h_ok in auto)
  moreover have "distinct (map fst ?bks)"
    using b(2) perm unfolding grouped_def by (metis mset_eq_imp_distinct_iff mset_map)
  ultimately have dist: "distinct (map (sp_hour \<circ> fst) files)" by simp
  have each: "sp_database p = db \<and> sp_measurement p = m \<and> (\<forall>x\<in>set (rows t). row_time x div microPerHour = sp_hour p) \<and>
      (fe_keys env m = [''time''] \<longrightarrow> sorted (map row_time (rows t)))" if f: "(p, t) \<in> set files" for p t
  proof -
    obtain h bk where hb: "(h, bk) \<in> set ?bks" "hour_file env db m b (h, bk) (p, t)"
      using w(2) f by (auto simp: list_all2_conv_all_nth in_set_conv_nth) (metis nth_mem prod.collapse)
    have "mset (rows t) = mset (map (visible_row \<circ> row_at b) (hb_indices bk))" using hb(2) by (simp add: hour_file_def)
    then have rs: "set (rows t) = (visible_row \<circ> row_at b) ` set (hb_indices bk)" using mset_eq_setD by fastforce
    have "row_time (row_at b i) div microPerHour = h" if "i \<in> set (hb_indices bk)" for i
      using row_time_at [OF assms(1,6) bound [OF hb(1) that]] hour(1) [OF hb(1) that] by (simp add: HourBucketID_floor)
    then show ?thesis using hb(2) rs h_ok [OF hb(1)] by (auto simp: hour_file_def)
  qed
  have r: "flushPartitionedData env db m b n cache =
      \<lparr>fr_written = files, fr_registered = map fst files,
       fr_outcome = Ok (sum_list (map (length \<circ> hb_indices \<circ> snd) ?bks)), fr_cache = cache'\<rparr>"
    using assms(6-8) b(1) w(1) by (simp add: flushPartitionedData_def)
  show ?thesis unfolding r flushed_def using all dist each by auto
qed

lemma flush_rows:
  assumes "flush_env_ok env" "env_succeeds env" "batches \<noteq> []" "\<forall>b\<in>set batches. batch_ok b" "same_kinds batches"
    "\<forall>b\<in>set batches. named b" "\<exists>b\<in>set batches. rows b \<noteq> []"
    "\<forall>b\<in>set batches. \<forall>r\<in>set (rows b). time_in_range (row_time r)"
    "\<forall>b. mergeBatches batches = Merged b \<longrightarrow> cache_fits m b (fe_decimals env m) cache"
  shows "flushed env db m (concat (map rows batches)) (flushRecords env db m batches n cache)"
proof -
  obtain b where b: "mergeBatches batches = Merged b" "batch_ok b" "rows b = concat (map rows batches)"
    by (rule merge_keeps_rows [OF assms(3,4,5)])
  obtain ts where ts: "time_column (tb_Data b) = Some ts" "length ts = batch_rows b" by (rule well_formed_times [OF b(2)])
  have ne: "ts \<noteq> []" using assms(7) b(3) ts(2) by (auto simp: rows_def)
  have nm: "named b" by (rule merge_named [OF b(1) assms(6,4,5)])
  have range: "\<forall>t\<in>set ts. time_in_range (sint t)"
  proof
    fix t assume "t \<in> set ts"
    then obtain i where i: "i < batch_rows b" "t = ts ! i" using ts(2) by (auto simp: in_set_conv_nth)
    then have "row_at b i \<in> set (concat (map rows batches))" unfolding b(3) [symmetric] by (simp add: rows_def)
    then have "time_in_range (row_time (row_at b i))" using assms(8) by auto
    then show "time_in_range (sint t)" using row_time_at [OF b(2) ts(1) i(1)] i(2) by simp
  qed
  have fits: "cache_fits m b (fe_decimals env m) cache" using assms(9) b(1) by simp
  have "flushed env db m (rows b) (flushPartitionedData env db m b n cache)"
  proof (cases "sint (min_time ts) div microPerHour = sint (max_time ts) div microPerHour")
    case True
    show ?thesis by (rule flush_single_hour [OF b(2) nm fits assms(2,1) ts(1) ne True])
  next
    case False
    show ?thesis by (rule flush_many_hours [OF b(2) nm fits assms(2,1) ts(1) ne False range])
  qed
  then show ?thesis using b by (simp add: flushRecords_def)
qed

text \<open>
  C35. A flush that meets no failure merges the batches of a buffer, splits them at the hours and
  writes every row exactly once: into one file per hour, below the directory of its database,
  measurement and hour, in the order of time unless other sort keys are configured; exactly the files
  written are registered.  Only the columns whose names begin with an underscore are left out.
\<close>

theorem flush_writes_every_row:
  assumes "flush_env_ok env" "env_succeeds env" "batches \<noteq> []" "\<forall>b\<in>set batches. batch_ok b" "same_kinds batches"
    "\<forall>b\<in>set batches. named b" "\<exists>b\<in>set batches. rows b \<noteq> []"
    "\<forall>b\<in>set batches. \<forall>r\<in>set (rows b). time_in_range (row_time r)"
    "\<forall>b. mergeBatches batches = Merged b \<longrightarrow> cache_fits m b (fe_decimals env m) cache"
  shows "flushed env db m (concat (map rows batches)) (flushRecords env db m batches n cache)"
  by (rule flush_rows [OF assms])

section \<open>Failures\<close>

definition two_hours :: typed_batch where
  "two_hours =
     \<lparr>tb_Data = [(''time'', \<lparr>col_kind = KInt64, col_elems = [EInt 3600000007, EInt 5, EInt 3]\<rparr>),
                 (''value'', \<lparr>col_kind = KFloat64, col_elems = [EFloat 1, EFloat 2, EFloat 0]\<rparr>)],
      tb_Validity = [(''value'', [True, True, False])], tb_TagColumns = [], tb_DedupTime = False, tb_Signature = []\<rparr>"

definition simple_env :: "nat \<Rightarrow> (storage_path \<Rightarrow> bool) \<Rightarrow> flush_env" where
  "simple_env now stores =
     \<lparr>fe_sort = insertion_sort, fe_keys = getSortKeys Map.empty [], fe_decimals = (\<lambda>_. []), fe_visit = rev,
      fe_clock = (\<lambda>k. now + k), fe_encodes = (\<lambda>_. True), fe_stores = stores\<rparr>"

text \<open>
  A flush over several hours that fails in between leaves the files of the first hours in the
  storage, unregistered; the rows are still in the log, and when they are flushed again from there
  they are in the storage twice.
\<close>

theorem retried_flush_doubles_rows:
  "(let first = flushRecords (simple_env 0 (\<lambda>p. sp_hour p \<noteq> 1)) ''db'' ''cpu'' [two_hours] 3 [];
        again = flushRecords (simple_env 7 (\<lambda>p. True)) ''db'' ''cpu'' [two_hours] 3 []
    in fr_outcome first = Failed \<and> fr_registered first = [] \<and> fr_outcome again = Ok 3 \<and>
       map (\<lambda>(p, t). (sp_hour p, map row_time (rows t))) (fr_written first @ fr_written again) =
         [(0, [3, 5]), (0, [3, 5]), (1, [3600000007])])"
  by code_simp

lemma simple_env_ok: "flush_env_ok (simple_env now stores)"
  by (simp add: flush_env_ok_def simple_env_def insertion_sort_sorts)

theorem flush_writes_every_row_witness:
  "flushed (simple_env 0 (\<lambda>_. True)) ''db'' ''cpu'' (concat (map rows [two_hours, float_batch [''value'']]))
     (flushRecords (simple_env 0 (\<lambda>_. True)) ''db'' ''cpu'' [two_hours, float_batch [''value'']] 4 [])"
proof (rule flush_writes_every_row)
  show "flush_env_ok (simple_env 0 (\<lambda>_. True))" by (rule simple_env_ok)
  show "env_succeeds (simple_env 0 (\<lambda>_. True))" by (simp add: env_succeeds_def simple_env_def)
  show "\<forall>b. mergeBatches [two_hours, float_batch [''value'']] = Merged b \<longrightarrow>
      cache_fits ''cpu'' b (fe_decimals (simple_env 0 (\<lambda>_. True)) ''cpu'') []" by (simp add: cache_fits_def)
  show "\<forall>b\<in>set [two_hours, float_batch [''value'']]. batch_ok b" by code_simp
  show "same_kinds [two_hours, float_batch [''value'']]" by code_simp
  show "\<forall>b\<in>set [two_hours, float_batch [''value'']]. named b" by code_simp
  show "\<exists>b\<in>set [two_hours, float_batch [''value'']]. rows b \<noteq> []" by (simp add: rows_def batch_rows_def two_hours_def time_column_def int64s_def)
  show "\<forall>b\<in>set [two_hours, float_batch [''value'']]. \<forall>r\<in>set (rows b). time_in_range (row_time r)" by code_simp
qed simp

end
