(* ===== verification/Flush_Buffer.thy ===== *)
theory Flush_Buffer
  imports Flush_Partition
begin

text \<open>
  The buffer of the ingestion (\<^verbatim>\<open>ArrowBuffer\<close> of \<^verbatim>\<open>internal/ingest/arrow_writer.go\<close>) with
  everything that runs beside it: writers, the flush queue and its workers, the periodic flush, and
  the maintenance and shutdown of the log that \<^verbatim>\<open>cmd/iedb/main.go\<close> sets up.  A critical section is
  one step; the steps of all goroutines interleave.  The four maps of a shard always have the same
  keys and are one association list here.
\<close>

unbundle bit_operations_syntax

section \<open>State\<close>

record buffer_entry =
  be_batches :: "typed_batch list"
  be_startTime :: int
  be_recordCount :: nat
  be_schema :: string

type_synonym shard = "(string \<times> buffer_entry) list"

record flush_task =
  tk_bufferKey :: string
  tk_database :: string
  tk_measurement :: string
  tk_records :: "typed_batch list"
  tk_recordCount :: nat

record buffer_config =
  bc_MaxBufferSize :: nat
  bc_maxBufferAge :: int
  bc_queueSize :: nat
  bc_shardCount :: nat
  bc_safeAge :: int

text \<open>A write behind its log entry: what it appends, and how often it has flushed for another schema.\<close>

record pending_write =
  pw_database :: string
  pw_measurement :: string
  pw_batch :: typed_batch
  pw_flushes :: nat

text \<open>A file of the log, reduced to the batches it has the rows of and the time of its last write.\<close>

record wal_file =
  wf_entries :: "(string \<times> string \<times> typed_batch) list"
  wf_modTime :: int

text \<open>
  The last three fields are not in the program: the batches whose write has returned without an
  error, those flushed, and those dropped or whose flush failed.
\<close>

record ingest_world =
  iw_shards :: "shard list"
  iw_writers :: "pending_write list"
  iw_sends :: "flush_task list"
  iw_queue :: "flush_task list"
  iw_flights :: "flush_task list"
  iw_closing :: bool
  iw_cancelled :: bool
  iw_hasFlushFailure :: bool
  iw_totalErrors :: int
  iw_cache :: "arrow_schema lru"
  iw_files :: "(storage_path \<times> typed_batch) list"
  iw_walActive :: wal_file
  iw_walFiles :: "wal_file list"
  iw_alive :: bool
  iw_accepted :: "(string \<times> typed_batch) list"
  iw_stored :: "(string \<times> typed_batch) list"
  iw_lost :: "(string \<times> typed_batch) list"

definition new_world :: "buffer_config \<Rightarrow> ingest_world" where
  "new_world cfg =
     \<lparr>iw_shards = replicate (bc_shardCount cfg) [], iw_writers = [], iw_sends = [], iw_queue = [], iw_flights = [],
      iw_closing = False, iw_cancelled = False, iw_hasFlushFailure = False, iw_totalErrors = 0, iw_cache = [],
      iw_files = [], iw_walActive = \<lparr>wf_entries = [], wf_modTime = 0\<rparr>, iw_walFiles = [], iw_alive = True,
      iw_accepted = [], iw_stored = [], iw_lost = []\<rparr>"

section \<open>Keys and shards\<close>

definition buffer_key :: "string \<Rightarrow> string \<Rightarrow> string" where
  "buffer_key db m = db @ ''/'' @ m"

definition splitBufferKey :: "string \<Rightarrow> string list" where
  "splitBufferKey key =
     (case dropWhile (\<lambda>c. c \<noteq> CHR ''/'') key of
        [] \<Rightarrow> [key]
      | _ # rest \<Rightarrow> [takeWhile (\<lambda>c. c \<noteq> CHR ''/'') key, rest])"

text \<open>FNV-1a.\<close>

definition fnv :: "string \<Rightarrow> 32 word" where
  "fnv key = fold (\<lambda>c hash. (hash XOR word_of_nat (of_char c)) * 16777619) key 2166136261"

definition getShard :: "buffer_config \<Rightarrow> string \<Rightarrow> nat" where
  "getShard cfg key = unat (fnv key) mod bc_shardCount cfg"

text \<open>For evaluation: with a single shard no hash is needed.\<close>

lemma getShard_code [code]:
  "getShard cfg key = (if bc_shardCount cfg = 1 then 0 else unat (fnv key) mod bc_shardCount cfg)"
  by (simp add: getShard_def)

definition shard_get :: "buffer_config \<Rightarrow> string \<Rightarrow> ingest_world \<Rightarrow> buffer_entry option" where
  "shard_get cfg key w = map_of (iw_shards w ! getShard cfg key) key"

definition shard_put :: "string \<Rightarrow> buffer_entry option \<Rightarrow> shard \<Rightarrow> shard" where
  "shard_put key e sh =
     (case e of None \<Rightarrow> [] | Some x \<Rightarrow> [(key, x)]) @ filter (\<lambda>p. fst p \<noteq> key) sh"

definition set_shard :: "buffer_config \<Rightarrow> string \<Rightarrow> buffer_entry option \<Rightarrow> ingest_world \<Rightarrow> ingest_world" where
  "set_shard cfg key e w =
     (let i = getShard cfg key in w\<lparr>iw_shards := (iw_shards w)[i := shard_put key e (iw_shards w ! i)]\<rparr>)"

section \<open>Writes\<close>

definition signature_of :: "typed_batch \<Rightarrow> string" where
  "signature_of b = (if tb_Signature b = [] then getColumnSignature (tb_Data b) else tb_Signature b)"

text \<open>The write reaches its log entry, which can fail or be dropped, and then waits for the lock.\<close>

definition begin_write :: "string \<Rightarrow> string \<Rightarrow> typed_batch \<Rightarrow> bool \<Rightarrow> int \<Rightarrow> ingest_world \<Rightarrow> ingest_world" where
  "begin_write db m b logged now w =
     w\<lparr>iw_writers := iw_writers w @ [\<lparr>pw_database = db, pw_measurement = m, pw_batch = b, pw_flushes = 0\<rparr>],
       iw_walActive := (if logged then \<lparr>wf_entries = wf_entries (iw_walActive w) @ [(db, m, b)], wf_modTime = now\<rparr> else iw_walActive w)\<rparr>"

definition without :: "nat \<Rightarrow> 'a list \<Rightarrow> 'a list" where
  "without i xs = take i xs @ drop (Suc i) xs"

text \<open>Whether the loop of \<^verbatim>\<open>flushOnSchemaChangeLocked\<close> has to flush first.\<close>

definition schema_differs :: "buffer_config \<Rightarrow> pending_write \<Rightarrow> ingest_world \<Rightarrow> bool" where
  "schema_differs cfg pw w =
     (case shard_get cfg (buffer_key (pw_database pw) (pw_measurement pw)) w of
        None \<Rightarrow> False
      | Some e \<Rightarrow> be_schema e \<noteq> signature_of (pw_batch pw))"

definition schemaEvolutionMaxIters :: nat where
  "schemaEvolutionMaxIters = 8"

text \<open>The first part of \<^verbatim>\<open>flushBufferLocked\<close>: the buffer is taken out, and its flush begins without the lock.\<close>

definition flushBufferLocked :: "buffer_config \<Rightarrow> string \<Rightarrow> string \<Rightarrow> string \<Rightarrow> ingest_world \<Rightarrow> ingest_world" where
  "flushBufferLocked cfg key db m w =
     (case shard_get cfg key w of
        None \<Rightarrow> w
      | Some e \<Rightarrow>
          (set_shard cfg key None w)\<lparr>iw_flights := iw_flights w @
             [\<lparr>tk_bufferKey = key, tk_database = db, tk_measurement = m, tk_records = be_batches e, tk_recordCount = be_recordCount e\<rparr>]\<rparr>)"

definition schema_flush :: "buffer_config \<Rightarrow> nat \<Rightarrow> ingest_world \<Rightarrow> ingest_world" where
  "schema_flush cfg i w =
     (let pw = iw_writers w ! i
      in (flushBufferLocked cfg (buffer_key (pw_database pw) (pw_measurement pw)) (pw_database pw) (pw_measurement pw) w)
         \<lparr>iw_writers := (iw_writers w)[i := pw\<lparr>pw_flushes := Suc (pw_flushes pw)\<rparr>]\<rparr>)"

text \<open>The rest of the critical section: the batch is appended, and a full buffer is taken out for the queue.\<close>

definition append_batch :: "buffer_config \<Rightarrow> nat \<Rightarrow> int \<Rightarrow> ingest_world \<Rightarrow> ingest_world" where
  "append_batch cfg i now w =
     (let pw = iw_writers w ! i; b = pw_batch pw; key = buffer_key (pw_database pw) (pw_measurement pw);
          e = (case shard_get cfg key w of
                 Some e \<Rightarrow> e
               | None \<Rightarrow> \<lparr>be_batches = [], be_startTime = now, be_recordCount = 0, be_schema = signature_of b\<rparr>);
          e' = e\<lparr>be_batches := be_batches e @ [b], be_recordCount := be_recordCount e + batch_rows b\<rparr>;
          w' = w\<lparr>iw_writers := without i (iw_writers w), iw_accepted := iw_accepted w @ [(key, b)]\<rparr>
      in if bc_MaxBufferSize cfg \<le> be_recordCount e'
         then (set_shard cfg key None w')\<lparr>iw_sends := iw_sends w @
                [\<lparr>tk_bufferKey = key, tk_database = pw_database pw, tk_measurement = pw_measurement pw,
                  tk_records = be_batches e', tk_recordCount = be_recordCount e'\<rparr>]\<rparr>
         else set_shard cfg key (Some e') w')"

section \<open>The queue, flushes and ageing\<close>

definition task_batches :: "flush_task \<Rightarrow> (string \<times> typed_batch) list" where
  "task_batches t = map (Pair (tk_bufferKey t)) (tk_records t)"

text \<open>The outcome when the context is done and the queue has room is up to the runtime: \<open>prefer_done\<close>.\<close>

definition tryEnqueueFlush :: "buffer_config \<Rightarrow> nat \<Rightarrow> bool \<Rightarrow> ingest_world \<Rightarrow> ingest_world" where
  "tryEnqueueFlush cfg i prefer_done w =
     (let t = iw_sends w ! i; w' = w\<lparr>iw_sends := without i (iw_sends w)\<rparr>;
          room = length (iw_queue w) < bc_queueSize cfg
      in if iw_closing w then w'\<lparr>iw_lost := iw_lost w @ task_batches t\<rparr>
         else if iw_cancelled w \<and> (prefer_done \<or> \<not> room) then w'\<lparr>iw_lost := iw_lost w @ task_batches t\<rparr>
         else if room then w'\<lparr>iw_queue := iw_queue w @ [t]\<rparr>
         else w'\<lparr>iw_lost := iw_lost w @ task_batches t, iw_totalErrors := iw_totalErrors w + 1\<rparr>)"

definition markFlushFailure :: "ingest_world \<Rightarrow> ingest_world" where
  "markFlushFailure w = w\<lparr>iw_totalErrors := iw_totalErrors w + 1, iw_hasFlushFailure := True\<rparr>"

definition take_task :: "ingest_world \<Rightarrow> ingest_world" where
  "take_task w = w\<lparr>iw_queue := tl (iw_queue w), iw_flights := iw_flights w @ [hd (iw_queue w)]\<rparr>"

definition finish_flush :: "nat \<Rightarrow> flush_env \<Rightarrow> ingest_world \<Rightarrow> ingest_world" where
  "finish_flush i env w =
     (let t = iw_flights w ! i;
          r = flushRecords env (tk_database t) (tk_measurement t) (tk_records t) (tk_recordCount t) (iw_cache w);
          w' = w\<lparr>iw_flights := without i (iw_flights w), iw_files := iw_files w @ fr_written r, iw_cache := fr_cache r\<rparr>
      in case fr_outcome r of
           Ok n \<Rightarrow> w'\<lparr>iw_stored := iw_stored w @ task_batches t\<rparr>
         | Failed \<Rightarrow> markFlushFailure (w'\<lparr>iw_lost := iw_lost w @ task_batches t\<rparr>)
         | Panicked \<Rightarrow> w'\<lparr>iw_alive := False, iw_lost := iw_lost w @ task_batches t\<rparr>)"

definition buffer_aged :: "buffer_config \<Rightarrow> string \<Rightarrow> int \<Rightarrow> ingest_world \<Rightarrow> bool" where
  "buffer_aged cfg key now w =
     (case shard_get cfg key w of None \<Rightarrow> False | Some e \<Rightarrow> bc_maxBufferAge cfg \<le> now - be_startTime e)"

definition flush_key :: "buffer_config \<Rightarrow> string \<Rightarrow> ingest_world \<Rightarrow> ingest_world" where
  "flush_key cfg key w =
     (case splitBufferKey key of [db, m] \<Rightarrow> flushBufferLocked cfg key db m w | _ \<Rightarrow> w)"

definition computeNextFlushDeadline :: "buffer_config \<Rightarrow> int \<Rightarrow> ingest_world \<Rightarrow> int" where
  "computeNextFlushDeadline cfg now w =
     (let earliest = fold (\<lambda>(key, e) d. if be_startTime e + bc_maxBufferAge cfg < d then be_startTime e + bc_maxBufferAge cfg else d)
                       (concat (iw_shards w)) (now + bc_maxBufferAge cfg)
      in if earliest < now + 1000000 then now + 1000000 else earliest)"

section \<open>The log\<close>

definition rotate_wal :: "int \<Rightarrow> ingest_world \<Rightarrow> ingest_world" where
  "rotate_wal now w = w\<lparr>iw_walFiles := iw_walFiles w @ [iw_walActive w], iw_walActive := \<lparr>wf_entries = [], wf_modTime = now\<rparr>\<rparr>"

definition purge_old :: "buffer_config \<Rightarrow> int \<Rightarrow> ingest_world \<Rightarrow> ingest_world" where
  "purge_old cfg now w = w\<lparr>iw_walFiles := filter (\<lambda>f. \<not> bc_safeAge cfg < now - wf_modTime f) (iw_walFiles w)\<rparr>"

text \<open>
  The periodic maintenance.  After a failed flush it replays what is left of the log but the active
  file, as writes without a log entry, and clears the flag.
\<close>

definition wal_maintenance :: "buffer_config \<Rightarrow> int \<Rightarrow> ingest_world \<Rightarrow> ingest_world" where
  "wal_maintenance cfg now w =
     (let p = purge_old cfg now w
      in if iw_hasFlushFailure w
         then p\<lparr>iw_writers := iw_writers p @
                  map (\<lambda>(db, m, b). \<lparr>pw_database = db, pw_measurement = m, pw_batch = b, pw_flushes = 0\<rparr>) (concat (map wf_entries (iw_walFiles p))),
                iw_walFiles := [], iw_hasFlushFailure := False\<rparr>
         else p)"

text \<open>Shutdown: \<^verbatim>\<open>Close\<close> sets the flag and cancels; when it has flushed every buffer, the hook deletes the log.\<close>

definition begin_close :: "ingest_world \<Rightarrow> ingest_world" where
  "begin_close w = w\<lparr>iw_closing := True, iw_cancelled := True\<rparr>"

definition purge_log :: "ingest_world \<Rightarrow> ingest_world" where
  "purge_log w = w\<lparr>iw_walFiles := [], iw_walActive := \<lparr>wf_entries = [], wf_modTime = wf_modTime (iw_walActive w)\<rparr>\<rparr>"

section \<open>Steps\<close>

text \<open>
  A writer that flushes for another schema waits for that flush before it goes on; here it may go on
  earlier, too, which only adds interleavings.
\<close>

datatype ingest_action =
    Begin_Write string string typed_batch bool int
  | Append nat int
  | Schema_Flush nat
  | Schema_Churn nat
  | Abort_Write nat
  | Send nat bool
  | Take_Task
  | Finish nat flush_env
  | Age string int
  | Flush_Key string
  | Rotate int
  | Maintain int
  | Begin_Close
  | Purge_All

fun ingest_step :: "buffer_config \<Rightarrow> ingest_action \<Rightarrow> ingest_world \<Rightarrow> ingest_world option" where
  "ingest_step cfg (Begin_Write db m b logged now) w = Some (begin_write db m b logged now w)"
| "ingest_step cfg (Append i now) w =
     (if i < length (iw_writers w) \<and> \<not> schema_differs cfg (iw_writers w ! i) w \<and> pw_flushes (iw_writers w ! i) < schemaEvolutionMaxIters
      then Some (append_batch cfg i now w) else None)"
| "ingest_step cfg (Schema_Flush i) w =
     (if i < length (iw_writers w) \<and> schema_differs cfg (iw_writers w ! i) w \<and> pw_flushes (iw_writers w ! i) < schemaEvolutionMaxIters
      then Some (schema_flush cfg i w) else None)"
| "ingest_step cfg (Schema_Churn i) w =
     (if i < length (iw_writers w) \<and> pw_flushes (iw_writers w ! i) = schemaEvolutionMaxIters
      then Some (w\<lparr>iw_writers := without i (iw_writers w)\<rparr>) else None)"
| "ingest_step cfg (Abort_Write i) w =
     (if i < length (iw_writers w) then Some (w\<lparr>iw_writers := without i (iw_writers w)\<rparr>) else None)"
| "ingest_step cfg (Send i prefer_done) w =
     (if i < length (iw_sends w) then Some (tryEnqueueFlush cfg i prefer_done w) else None)"
| "ingest_step cfg Take_Task w = (if iw_queue w \<noteq> [] then Some (take_task w) else None)"
| "ingest_step cfg (Finish i env) w = (if i < length (iw_flights w) then Some (finish_flush i env w) else None)"
| "ingest_step cfg (Age key now) w =
     (if buffer_aged cfg key now w \<and> \<not> iw_cancelled w then Some (flush_key cfg key w) else None)"
| "ingest_step cfg (Flush_Key key) w = Some (flush_key cfg key w)"
| "ingest_step cfg (Rotate now) w = Some (rotate_wal now w)"
| "ingest_step cfg (Maintain now) w = Some (wal_maintenance cfg now w)"
| "ingest_step cfg Begin_Close w = Some (begin_close w)"
| "ingest_step cfg Purge_All w =
     (if iw_closing w \<and> concat (iw_shards w) = [] \<and> iw_flights w = [] then Some (purge_log w) else None)"

fun ingest_run :: "buffer_config \<Rightarrow> ingest_action list \<Rightarrow> ingest_world \<Rightarrow> ingest_world option" where
  "ingest_run cfg [] w = Some w"
| "ingest_run cfg (s # ss) w =
     (if iw_alive w then (case ingest_step cfg s w of Some w' \<Rightarrow> ingest_run cfg ss w' | None \<Rightarrow> None) else None)"

section \<open>Every batch is accounted for\<close>

definition entry_batches :: "string \<times> buffer_entry \<Rightarrow> (string \<times> typed_batch) list" where
  "entry_batches = (\<lambda>(key, e). map (Pair key) (be_batches e))"

definition buffered :: "ingest_world \<Rightarrow> (string \<times> typed_batch) list" where
  "buffered w = concat (map entry_batches (concat (iw_shards w)))"

definition under_way :: "ingest_world \<Rightarrow> (string \<times> typed_batch) list" where
  "under_way w = concat (map task_batches (iw_sends w @ iw_queue w @ iw_flights w))"

definition shards_ok :: "buffer_config \<Rightarrow> ingest_world \<Rightarrow> bool" where
  "shards_ok cfg w \<longleftrightarrow> 0 < bc_shardCount cfg \<and> length (iw_shards w) = bc_shardCount cfg \<and> (\<forall>sh\<in>set (iw_shards w). distinct (map fst sh))"

definition accounted :: "ingest_world \<Rightarrow> bool" where
  "accounted w \<longleftrightarrow> mset (iw_accepted w) = mset (buffered w) + mset (under_way w) + mset (iw_stored w) + mset (iw_lost w)"

lemma getShard_bound: "shards_ok cfg w \<Longrightarrow> getShard cfg key < length (iw_shards w)"
  by (simp add: shards_ok_def getShard_def)

lemma remove_key:
  "distinct (map fst sh) \<Longrightarrow>
   mset (concat (map entry_batches sh)) =
     mset (concat (map entry_batches (filter (\<lambda>p. fst p \<noteq> key) sh))) +
     mset (case map_of sh key of None \<Rightarrow> [] | Some e \<Rightarrow> map (Pair key) (be_batches e))"
proof (induction sh)
  case (Cons p sh)
  obtain k e where p: "p = (k, e)" by (cases p)
  show ?case
  proof (cases "k = key")
    case True
    then have "filter (\<lambda>p. fst p \<noteq> key) sh = sh" using Cons.prems p by (intro filter_True) force
    then show ?thesis using True p by (simp add: entry_batches_def)
  next
    case False
    then show ?thesis using Cons p by (simp add: entry_batches_def)
  qed
qed simp

lemma buffered_set_shard:
  assumes "shards_ok cfg w"
  shows "mset (buffered (set_shard cfg key e w)) + mset (case shard_get cfg key w of None \<Rightarrow> [] | Some x \<Rightarrow> map (Pair key) (be_batches x)) =
    mset (buffered w) + mset (case e of None \<Rightarrow> [] | Some x \<Rightarrow> map (Pair key) (be_batches x))"
proof -
  let ?i = "getShard cfg key" and ?xs = "iw_shards w"
  note i = getShard_bound [OF assms, of key]
  have d: "distinct (map fst (?xs ! ?i))" using assms i by (simp add: shards_ok_def)
  have "mset (buffered w) = mset (concat (map entry_batches (concat (take ?i ?xs)))) + mset (concat (map entry_batches (?xs ! ?i))) +
      mset (concat (map entry_batches (concat (drop (Suc ?i) ?xs))))"
    unfolding buffered_def by (subst id_take_nth_drop [OF i]) simp
  moreover have "mset (buffered (set_shard cfg key e w)) = mset (concat (map entry_batches (concat (take ?i ?xs)))) +
      mset (concat (map entry_batches (shard_put key e (?xs ! ?i)))) + mset (concat (map entry_batches (concat (drop (Suc ?i) ?xs))))"
    using i by (simp add: buffered_def set_shard_def Let_def upd_conv_take_nth_drop)
  moreover have "mset (concat (map entry_batches (shard_put key e (?xs ! ?i)))) =
      mset (concat (map entry_batches (filter (\<lambda>p. fst p \<noteq> key) (?xs ! ?i)))) + mset (case e of None \<Rightarrow> [] | Some x \<Rightarrow> map (Pair key) (be_batches x))"
    by (cases e) (simp_all add: shard_put_def entry_batches_def)
  ultimately show ?thesis using remove_key [OF d, of key] by (simp add: shard_get_def)
qed

lemma set_shard_ok: "shards_ok cfg w \<Longrightarrow> shards_ok cfg (set_shard cfg key e w)"
proof -
  assume ok: "shards_ok cfg w"
  let ?sh = "iw_shards w ! getShard cfg key"
  have "distinct (map fst ?sh)" using ok getShard_bound [OF ok, of key] by (simp add: shards_ok_def)
  then have "distinct (map fst (shard_put key e ?sh))" by (auto simp: shard_put_def distinct_map_filter split: option.splits)
  moreover have "set ((iw_shards w)[getShard cfg key := shard_put key e ?sh]) \<subseteq> insert (shard_put key e ?sh) (set (iw_shards w))"
    by (rule set_update_subset_insert)
  ultimately show ?thesis using ok by (auto simp: shards_ok_def set_shard_def Let_def)
qed

lemma set_shard_simps [simp]:
  "iw_accepted (set_shard cfg key e w) = iw_accepted w" "iw_stored (set_shard cfg key e w) = iw_stored w"
  "iw_lost (set_shard cfg key e w) = iw_lost w" "iw_sends (set_shard cfg key e w) = iw_sends w"
  "iw_queue (set_shard cfg key e w) = iw_queue w" "iw_flights (set_shard cfg key e w) = iw_flights w"
  "iw_writers (set_shard cfg key e w) = iw_writers w" "iw_walActive (set_shard cfg key e w) = iw_walActive w"
  "iw_walFiles (set_shard cfg key e w) = iw_walFiles w"
  by (simp_all add: set_shard_def Let_def)

lemma without_mset: "i < length xs \<Longrightarrow> mset xs = add_mset (xs ! i) (mset (without i xs))"
  by (subst id_take_nth_drop, assumption) (simp add: without_def)

lemma mset_tasks_without:
  "i < length ts \<Longrightarrow> mset (concat (map task_batches ts)) = mset (task_batches (ts ! i)) + mset (concat (map task_batches (without i ts)))"
  by (subst id_take_nth_drop, assumption) (simp add: without_def)

lemma shards_ok_cong: "iw_shards w' = iw_shards w \<Longrightarrow> shards_ok cfg w' = shards_ok cfg w"
  by (simp add: shards_ok_def)

lemma buffered_cong: "iw_shards w' = iw_shards w \<Longrightarrow> buffered w' = buffered w"
  by (simp add: buffered_def)

lemma flushBufferLocked_accounted:
  assumes "shards_ok cfg w" "accounted w"
  shows "shards_ok cfg (flushBufferLocked cfg key db m w)" "accounted (flushBufferLocked cfg key db m w)"
proof -
  have "shards_ok cfg (flushBufferLocked cfg key db m w) \<and> accounted (flushBufferLocked cfg key db m w)"
  proof (cases "shard_get cfg key w")
    case None
    then show ?thesis using assms by (simp add: flushBufferLocked_def)
  next
    case (Some e)
    have "buffered (flushBufferLocked cfg key db m w) = buffered (set_shard cfg key None w)"
      using Some by (simp add: flushBufferLocked_def buffered_def)
    then show ?thesis
      using buffered_set_shard [OF assms(1), of key None] set_shard_ok [OF assms(1), of key None] assms(2) Some
      by (simp add: accounted_def under_way_def task_batches_def flushBufferLocked_def shards_ok_def)
  qed
  then show "shards_ok cfg (flushBufferLocked cfg key db m w)" "accounted (flushBufferLocked cfg key db m w)" by blast+
qed

lemma append_accounted:
  assumes "shards_ok cfg w" "accounted w"
  shows "shards_ok cfg (append_batch cfg i now w) \<and> accounted (append_batch cfg i now w)"
proof -
  let ?pw = "iw_writers w ! i"
  let ?b = "pw_batch ?pw" and ?key = "buffer_key (pw_database ?pw) (pw_measurement ?pw)"
  define w' where "w' = w\<lparr>iw_writers := without i (iw_writers w), iw_accepted := iw_accepted w @ [(?key, ?b)]\<rparr>"
  define e where "e = (case shard_get cfg ?key w of
      Some e \<Rightarrow> e | None \<Rightarrow> \<lparr>be_batches = [], be_startTime = now, be_recordCount = 0, be_schema = signature_of ?b\<rparr>)"
  define e' where "e' = e\<lparr>be_batches := be_batches e @ [?b], be_recordCount := be_recordCount e + batch_rows ?b\<rparr>"
  have w': "shards_ok cfg w'" "buffered w' = buffered w" "shard_get cfg ?key w' = shard_get cfg ?key w"
    using assms(1) by (simp_all add: w'_def buffered_def shard_get_def shards_ok_def)
  have old: "be_batches e = (case shard_get cfg ?key w of None \<Rightarrow> [] | Some x \<Rightarrow> be_batches x)"
    by (simp add: e_def split: option.splits)
  have old2: "map (Pair ?key) (be_batches e) = (case shard_get cfg ?key w of None \<Rightarrow> [] | Some x \<Rightarrow> map (Pair ?key) (be_batches x))"
    by (simp add: e_def split: option.splits)
  have app: "append_batch cfg i now w =
      (if bc_MaxBufferSize cfg \<le> be_recordCount e'
       then (set_shard cfg ?key None w')\<lparr>iw_sends := iw_sends w @
                [\<lparr>tk_bufferKey = ?key, tk_database = pw_database ?pw, tk_measurement = pw_measurement ?pw,
                  tk_records = be_batches e', tk_recordCount = be_recordCount e'\<rparr>]\<rparr>
       else set_shard cfg ?key (Some e') w')"
    by (simp add: append_batch_def Let_def w'_def e_def e'_def)
  have b: "mset (buffered (set_shard cfg ?key x w')) + mset (map (Pair ?key) (be_batches e)) =
      mset (buffered w) + mset (case x of None \<Rightarrow> [] | Some x \<Rightarrow> map (Pair ?key) (be_batches x))" for x
    using buffered_set_shard [OF w'(1), of ?key x] unfolding w'(2,3) old2 .
  have acc: "mset (iw_accepted w) = mset (buffered w) + mset (under_way w) + mset (iw_stored w) + mset (iw_lost w)"
    using assms(2) by (simp add: accounted_def)
  show ?thesis
  proof (cases "bc_MaxBufferSize cfg \<le> be_recordCount e'")
    case True
    have "buffered (append_batch cfg i now w) = buffered (set_shard cfg ?key None w')" using True app by (simp add: buffered_def)
    then show ?thesis using True app b [of None] acc set_shard_ok [OF w'(1), of ?key None]
      by (simp add: accounted_def under_way_def task_batches_def shards_ok_def w'_def e'_def)
  next
    case False
    then show ?thesis using app b [of "Some e'"] acc set_shard_ok [OF w'(1), of ?key "Some e'"]
      by (simp add: accounted_def under_way_def w'_def e'_def)
  qed
qed

lemma send_accounted:
  assumes "i < length (iw_sends w)" "accounted w"
  shows "accounted (tryEnqueueFlush cfg i prefer_done w)" "iw_shards (tryEnqueueFlush cfg i prefer_done w) = iw_shards w"
  using assms mset_tasks_without [OF assms(1)]
  by (simp_all add: tryEnqueueFlush_def Let_def accounted_def under_way_def buffered_def)

lemma finish_accounted:
  assumes "i < length (iw_flights w)" "accounted w"
  shows "accounted (finish_flush i env w)" "iw_shards (finish_flush i env w) = iw_shards w"
  using assms mset_tasks_without [OF assms(1)]
  by (simp_all add: finish_flush_def markFlushFailure_def Let_def accounted_def under_way_def buffered_def split: write_outcome.splits)

lemma take_accounted:
  assumes "iw_queue w \<noteq> []" "accounted w"
  shows "accounted (take_task w)"
  using assms by (cases "iw_queue w") (simp_all add: take_task_def accounted_def under_way_def buffered_def)

lemma accounted_cong:
  "\<lbrakk>iw_shards w' = iw_shards w; iw_sends w' = iw_sends w; iw_queue w' = iw_queue w; iw_flights w' = iw_flights w;
    iw_accepted w' = iw_accepted w; iw_stored w' = iw_stored w; iw_lost w' = iw_lost w\<rbrakk> \<Longrightarrow> accounted w' = accounted w"
  by (simp add: accounted_def buffered_def under_way_def)

lemma flush_key_accounted:
  assumes "shards_ok cfg w" "accounted w"
  shows "shards_ok cfg (flush_key cfg key w) \<and> accounted (flush_key cfg key w)"
  using flushBufferLocked_accounted [OF assms] assms by (auto simp: flush_key_def split: list.splits)

lemma maintenance_simps [simp]:
  "iw_shards (wal_maintenance cfg now w) = iw_shards w" "iw_sends (wal_maintenance cfg now w) = iw_sends w"
  "iw_queue (wal_maintenance cfg now w) = iw_queue w" "iw_flights (wal_maintenance cfg now w) = iw_flights w"
  "iw_accepted (wal_maintenance cfg now w) = iw_accepted w" "iw_stored (wal_maintenance cfg now w) = iw_stored w"
  "iw_lost (wal_maintenance cfg now w) = iw_lost w"
  by (simp_all add: wal_maintenance_def purge_old_def Let_def)

lemma step_accounted:
  assumes "ingest_step cfg s w = Some w'" "shards_ok cfg w" "accounted w"
  shows "shards_ok cfg w' \<and> accounted w'"
proof (cases s)
  case (Append i now)
  then show ?thesis using assms append_accounted [OF assms(2,3)] by (auto split: if_splits)
next
  case (Schema_Flush i)
  define x where "x = flushBufferLocked cfg (buffer_key (pw_database (iw_writers w ! i)) (pw_measurement (iw_writers w ! i)))
    (pw_database (iw_writers w ! i)) (pw_measurement (iw_writers w ! i)) w"
  have x: "shards_ok cfg x" "accounted x" unfolding x_def using flushBufferLocked_accounted [OF assms(2,3)] by blast+
  have "\<exists>ws. w' = x\<lparr>iw_writers := ws\<rparr>" using Schema_Flush assms(1) by (auto simp: schema_flush_def Let_def x_def split: if_splits)
  then show ?thesis using x by (auto simp: shards_ok_def accounted_def buffered_def under_way_def)
next
  case (Send i pd)
  then show ?thesis using assms send_accounted [of i w cfg pd] by (auto simp: shards_ok_def split: if_splits)
next
  case Take_Task
  then show ?thesis using assms take_accounted by (auto simp: shards_ok_def take_task_def split: if_splits)
next
  case (Finish i env)
  then show ?thesis using assms finish_accounted [of i w env] by (auto simp: shards_ok_def split: if_splits)
next
  case (Age key now)
  then show ?thesis using assms flush_key_accounted by (auto split: if_splits)
next
  case (Flush_Key key)
  then show ?thesis using assms flush_key_accounted by auto
next
  case (Maintain now)
  then have "w' = wal_maintenance cfg now w" using assms(1) by simp
  then show ?thesis using assms(2,3) by (simp add: shards_ok_def accounted_def buffered_def under_way_def)
next
  case Purge_All
  then show ?thesis using assms
    by (auto simp: purge_log_def shards_ok_def accounted_def buffered_def under_way_def split: if_splits)
qed (use assms in \<open>auto simp: begin_write_def rotate_wal_def begin_close_def shards_ok_def accounted_def buffered_def under_way_def split: if_splits\<close>)

lemma run_accounted:
  "\<lbrakk>ingest_run cfg ss w = Some w'; shards_ok cfg w; accounted w\<rbrakk> \<Longrightarrow> shards_ok cfg w' \<and> accounted w'"
proof (induction ss arbitrary: w)
  case (Cons s ss)
  obtain x where x: "ingest_step cfg s w = Some x" "ingest_run cfg ss x = Some w'"
    using Cons.prems(1) by (auto split: if_splits option.splits)
  then show ?case using Cons.IH [OF x(2)] step_accounted [OF x(1) Cons.prems(2,3)] by blast
qed simp

lemma new_world_ok: "0 < bc_shardCount cfg \<Longrightarrow> shards_ok cfg (new_world cfg) \<and> accounted (new_world cfg)"
  by (auto simp: shards_ok_def accounted_def new_world_def buffered_def under_way_def)

section \<open>Nothing is lost without a failure\<close>

text \<open>The steps that lose batches: a flush that fails, and an offer to a queue that refuses it.\<close>

fun fails :: "buffer_config \<Rightarrow> ingest_action \<Rightarrow> ingest_world \<Rightarrow> bool" where
  "fails cfg (Send i prefer_done) w =
     (iw_closing w \<or> iw_cancelled w \<or> bc_queueSize cfg \<le> length (iw_queue w))"
| "fails cfg (Finish i env) w =
     (case fr_outcome (flushRecords env (tk_database (iw_flights w ! i)) (tk_measurement (iw_flights w ! i))
        (tk_records (iw_flights w ! i)) (tk_recordCount (iw_flights w ! i)) (iw_cache w)) of Ok n \<Rightarrow> False | _ \<Rightarrow> True)"
| "fails cfg _ w = False"

fun some_failure :: "buffer_config \<Rightarrow> ingest_action list \<Rightarrow> ingest_world \<Rightarrow> bool" where
  "some_failure cfg [] w = False"
| "some_failure cfg (s # ss) w =
     (fails cfg s w \<or> (case ingest_step cfg s w of Some w' \<Rightarrow> some_failure cfg ss w' | None \<Rightarrow> False))"

lemma flushBufferLocked_lost [simp]: "iw_lost (flushBufferLocked cfg key db m w) = iw_lost w"
  by (simp add: flushBufferLocked_def split: option.splits)

lemma step_keeps:
  assumes "ingest_step cfg s w = Some w'" "\<not> fails cfg s w"
  shows "iw_lost w' = iw_lost w"
  using assms
  by (cases s)
    (auto simp: begin_write_def append_batch_def schema_flush_def tryEnqueueFlush_def take_task_def finish_flush_def flush_key_def
      rotate_wal_def begin_close_def purge_log_def Let_def split: if_splits write_outcome.splits list.splits)

lemma run_keeps:
  "\<lbrakk>ingest_run cfg ss w = Some w'; \<not> some_failure cfg ss w\<rbrakk> \<Longrightarrow> iw_lost w' = iw_lost w"
proof (induction ss arbitrary: w)
  case (Cons s ss)
  obtain x where x: "ingest_step cfg s w = Some x" "ingest_run cfg ss x = Some w'"
    using Cons.prems(1) by (auto split: if_splits option.splits)
  then show ?case using Cons.IH [OF x(2)] step_keeps [OF x(1)] Cons.prems(2) by auto
qed simp

text \<open>
  C36. However writers, the flushes of full, aged and outdated buffers, the queue, the maintenance of
  the log and shutdown interleave: a batch whose write has succeeded is, exactly once, in a buffer, on
  its way in a flush, or flushed, as long as no flush fails and the queue refuses none.
\<close>

theorem accepted_batches_are_kept:
  assumes "0 < bc_shardCount cfg" "ingest_run cfg ss (new_world cfg) = Some w" "\<not> some_failure cfg ss (new_world cfg)"
  shows "mset (iw_accepted w) = mset (buffered w) + mset (under_way w) + mset (iw_stored w)"
proof -
  have "accounted w" using run_accounted [OF assms(2)] new_world_ok [OF assms(1)] by blast
  moreover have "iw_lost w = []" using run_keeps [OF assms(2,3)] by (simp add: new_world_def)
  ultimately show ?thesis by (simp add: accounted_def)
qed

section \<open>What the log does not preserve\<close>

text \<open>
  The code drops batches in three cases, each time noting that the data is preserved in the log.
  Nothing is left of them when the log no longer has them either.
\<close>

definition forgotten :: "ingest_world \<Rightarrow> bool" where
  "forgotten w \<longleftrightarrow>
     concat (iw_shards w) = [] \<and> iw_writers w = [] \<and> iw_sends w = [] \<and> iw_queue w = [] \<and> iw_flights w = [] \<and>
     wf_entries (iw_walActive w) = [] \<and> iw_walFiles w = []"

text \<open>The defaults of the configuration, in nanoseconds, but for one shard and the sizes of buffer and queue.\<close>

definition small_config :: buffer_config where
  "small_config = \<lparr>bc_MaxBufferSize = 1, bc_maxBufferAge = 5000000000, bc_queueSize = 1, bc_shardCount = 1, bc_safeAge = 30000000000\<rparr>"

definition storage_up :: flush_env where
  "storage_up = simple_env 0 (\<lambda>_. True)"

definition storage_down :: flush_env where
  "storage_down = simple_env 0 (\<lambda>_. False)"


text \<open>
  A buffer that the full queue refuses is not flagged as a failure, so that the maintenance never
  replays it, and deletes it with the old files of the log.
\<close>

theorem full_queue_loses_rows:
  "(case ingest_run small_config
      [Begin_Write ''db'' ''cpu'' (float_batch [''v'']) True 0, Append 0 1, Send 0 False,
       Begin_Write ''db'' ''mem'' (float_batch [''v'']) True 2, Append 0 3, Send 0 False,
       Take_Task, Finish 0 storage_up, Rotate 4, Maintain 300000000000] (new_world small_config) of
      Some w \<Rightarrow> iw_alive w \<and> \<not> iw_hasFlushFailure w \<and> map fst (iw_accepted w) = [''db/cpu'', ''db/mem''] \<and>
        map (sp_measurement \<circ> fst) (iw_files w) = [''cpu''] \<and> forgotten w
    | None \<Rightarrow> False)"
  by code_simp


theorem accepted_batches_are_kept_witness:
  "(let ss = [Begin_Write ''db'' ''cpu'' (float_batch [''v'']) True 0, Append 0 1, Send 0 False, Take_Task, Finish 0 storage_up]
    in case ingest_run small_config ss (new_world small_config) of
      Some w \<Rightarrow> mset (iw_accepted w) = mset (buffered w) + mset (under_way w) + mset (iw_stored w)
    | None \<Rightarrow> False)"
proof -
  let ?ss = "[Begin_Write ''db'' ''cpu'' (float_batch [''v'']) True 0, Append 0 1, Send 0 False, Take_Task, Finish 0 storage_up]"
  have "ingest_run small_config ?ss (new_world small_config) \<noteq> None" by code_simp
  then obtain w where w: "ingest_run small_config ?ss (new_world small_config) = Some w" by blast
  have "\<not> some_failure small_config ?ss (new_world small_config)" by code_simp
  then have "mset (iw_accepted w) = mset (buffered w) + mset (under_way w) + mset (iw_stored w)"
    using accepted_batches_are_kept [OF _ w] by (simp add: small_config_def)
  then show ?thesis unfolding Let_def w by simp
qed

end
