(* ===== verification/Flush_Delivery.thy ===== *)
theory Flush_Delivery
  imports Flush_Buffer
begin

text \<open>
  The ingestion as a whole: with plain column names equal signatures mean equal types, so that every
  buffer can be merged, and whatever a flush of the running system takes up ends in files with exactly
  its rows, below the directory of the database and measurement they were written to.
\<close>

section \<open>Signatures of plain names\<close>

definition plain_name :: "string \<Rightarrow> bool" where
  "plain_name n \<longleftrightarrow> \<not> internal_column n \<and> CHR '','' \<notin> set n \<and> CHR '':'' \<notin> set n"

lemma join_commas_Cons: "join_commas (x # xs) = x @ (if xs = [] then [] else CHR '','' # join_commas xs)"
  by (cases xs) simp_all

lemma join_commas_head: "CHR '','' \<notin> set x \<Longrightarrow> takeWhile (\<lambda>c. c \<noteq> CHR '','') (join_commas (x # xs)) = x"
  unfolding join_commas_Cons by (subst takeWhile_append2) auto

lemma join_commas_inj:
  "\<lbrakk>\<forall>x\<in>set xs. CHR '','' \<notin> set x; \<forall>y\<in>set ys. CHR '','' \<notin> set y; xs \<noteq> []; ys \<noteq> []; join_commas xs = join_commas ys\<rbrakk> \<Longrightarrow> xs = ys"
proof (induction xs arbitrary: ys)
  case (Cons x xs)
  obtain y ys' where ys: "ys = y # ys'" using Cons.prems(4) by (cases ys) auto
  have x: "x = y" using join_commas_head [of x xs] join_commas_head [of y ys'] Cons.prems ys by (metis list.set_intros(1))
  then have rest: "(if xs = [] then [] else CHR '','' # join_commas xs) = (if ys' = [] then [] else CHR '','' # join_commas ys')"
    using Cons.prems(5) unfolding ys join_commas_Cons [of x xs] join_commas_Cons [of y ys'] by simp
  then show ?case using Cons.IH [of ys'] Cons.prems ys x by (auto split: if_splits)
qed simp

lemma kind_name_inj: "kind_name j = kind_name k \<longleftrightarrow> j = k"
  by (cases j; cases k) auto

lemma kind_name_plain: "CHR '','' \<notin> set (kind_name k)"
  by (cases k) auto

lemma entry_inj:
  assumes "CHR '':'' \<notin> set n" "CHR '':'' \<notin> set n'" "n @ '':'' @ kind_name k = n' @ '':'' @ kind_name k'"
  shows "n = n' \<and> k = k'"
proof -
  have tw: "takeWhile (\<lambda>c. c \<noteq> CHR '':'') (z @ '':'' @ r) = z" if "CHR '':'' \<notin> set z" for z r :: string
    using that by (subst takeWhile_append2) auto
  have "n = n'" using tw [OF assms(1), of "kind_name k"] tw [OF assms(2), of "kind_name k'"] assms(3) by simp
  then show ?thesis using assms(3) kind_name_inj by simp
qed

definition plain_columns :: "(string \<times> typed_column) list \<Rightarrow> bool" where
  "plain_columns cols \<longleftrightarrow> cols \<noteq> [] \<and> distinct (map fst cols) \<and> (\<forall>(n, c)\<in>set cols. plain_name n)"

lemma signature_entries:
  assumes "plain_columns cols"
  shows "getColumnSignature cols = join_commas (map (\<lambda>(n, k). n @ '':'' @ kind_name k) (map (\<lambda>(n, c). (n, col_kind c)) (sort_key fst cols)))"
proof -
  have "filter (\<lambda>(name, c). \<not> internal_column name) cols = cols"
    by (rule filter_True) (use assms in \<open>auto simp: plain_columns_def plain_name_def\<close>)
  then have "getColumnSignature cols = join_commas (map (\<lambda>(name, c). name @ '':'' @ kind_name (col_kind c)) (sort_key fst cols))"
    by (simp add: getColumnSignature_def)
  also have "map (\<lambda>(name, c). name @ '':'' @ kind_name (col_kind c)) (sort_key fst cols) =
      map (\<lambda>(n, k). n @ '':'' @ kind_name k) (map (\<lambda>(n, c). (n, col_kind c)) (sort_key fst cols))"
    unfolding map_map by (rule map_cong) auto
  finally show ?thesis .
qed

lemma map_entries_inj:
  "\<lbrakk>map (\<lambda>(n, k). n @ '':'' @ kind_name k) xs = map (\<lambda>(n, k). n @ '':'' @ kind_name k) ys;
    \<forall>(n, k)\<in>set xs. plain_name n; \<forall>(n, k)\<in>set ys. plain_name n\<rbrakk> \<Longrightarrow> xs = ys"
proof (induction xs arbitrary: ys)
  case (Cons x xs)
  obtain y ys' where ys: "ys = y # ys'" using Cons.prems(1) by (cases ys) auto
  have "fst x = fst y \<and> snd x = snd y"
    by (rule entry_inj) (use Cons.prems ys in \<open>auto simp: plain_name_def case_prod_beta\<close>)
  then show ?case using Cons.IH [of ys'] Cons.prems ys by (simp add: prod_eq_iff)
qed simp

lemma signature_kinds:
  assumes "plain_columns a" "plain_columns b" "getColumnSignature a = getColumnSignature b" "(n, c) \<in> set a" "(n, c') \<in> set b"
  shows "col_kind c = col_kind c'"
proof -
  let ?e = "\<lambda>cols. map (\<lambda>(n, c). (n, col_kind c)) (sort_key fst cols) :: (string \<times> kind) list"
  let ?s = "map (\<lambda>(n, k). n @ '':'' @ kind_name k)"
  have plain: "\<forall>(n, k)\<in>set (?e cols). plain_name n" if "plain_columns cols" for cols
    using that by (auto simp: plain_columns_def)
  have free: "\<forall>x\<in>set (?s (?e cols)). CHR '','' \<notin> set x" "?s (?e cols) \<noteq> []" if "plain_columns cols" for cols
  proof -
    have "CHR '','' \<notin> set n" if "(n, k) \<in> set (?e cols)" for n k
      using plain [OF \<open>plain_columns cols\<close>] that by (auto simp: plain_name_def)
    then show "\<forall>x\<in>set (?s (?e cols)). CHR '','' \<notin> set x" using kind_name_plain by fastforce
    have "length (?s (?e cols)) = length cols" "cols \<noteq> []" using that by (simp_all add: plain_columns_def)
    then show "?s (?e cols) \<noteq> []" by (metis length_0_conv)
  qed
  have "?s (?e a) = ?s (?e b)"
    by (rule join_commas_inj) (use free assms(1-3) signature_entries in simp_all)
  then have "?e a = ?e b" by (rule map_entries_inj) (rule plain [OF assms(1)], rule plain [OF assms(2)])
  then have "set (?e a) = set (?e b)" by simp
  then have "(\<lambda>(n, c). (n, col_kind c)) ` set a = (\<lambda>(n, c). (n, col_kind c)) ` set b" by simp
  then obtain c'' where "(n, c'') \<in> set b" "col_kind c'' = col_kind c" using assms(4) by force
  moreover have "c'' = c'" using calculation(1) assms(2,5) by (auto simp: plain_columns_def dest: eq_key_imp_eq_value)
  ultimately show ?thesis by simp
qed

section \<open>Plain batches stay together\<close>

definition plain_batch :: "typed_batch \<Rightarrow> bool" where
  "plain_batch b \<longleftrightarrow>
     batch_ok b \<and> (\<forall>(n, c)\<in>set (tb_Data b). plain_name n) \<and> signature_of b = getColumnSignature (tb_Data b) \<and>
     0 < batch_rows b \<and> (\<forall>r\<in>set (rows b). time_in_range (row_time r))"

lemma plain_batch_columns: "plain_batch b \<Longrightarrow> plain_columns (tb_Data b)"
  by (auto simp: plain_batch_def plain_columns_def batch_ok_def time_column_def)

lemma plain_batch_named: "plain_batch b \<Longrightarrow> named b"
  by (auto simp: plain_batch_def named_def list_all_iff plain_name_def internal_column_def)

definition together :: "typed_batch list \<Rightarrow> bool" where
  "together bs \<longleftrightarrow> bs \<noteq> [] \<and> (\<forall>b\<in>set bs. plain_batch b) \<and> (\<forall>b\<in>set bs. \<forall>b'\<in>set bs. signature_of b = signature_of b')"

lemma together_kinds:
  assumes "together bs"
  shows "same_kinds bs"
proof -
  have "col_kind c = col_kind c'" if "b \<in> set bs" "(n, c) \<in> set (tb_Data b)" "b' \<in> set bs" "(n, c') \<in> set (tb_Data b')" for b n c b' c'
  proof (rule signature_kinds [OF _ _ _ that(2,4)])
    show "plain_columns (tb_Data b)" "plain_columns (tb_Data b')" using plain_batch_columns that assms by (simp_all add: together_def)
    show "getColumnSignature (tb_Data b) = getColumnSignature (tb_Data b')"
      using that assms unfolding together_def plain_batch_def by metis
  qed
  then show ?thesis unfolding same_kinds_def by fast
qed

definition plain_key :: "string \<Rightarrow> bool" where
  "plain_key key \<longleftrightarrow> (\<exists>db m. CHR ''/'' \<notin> set db \<and> key = buffer_key db m)"

lemma splitBufferKey_buffer_key: "CHR ''/'' \<notin> set db \<Longrightarrow> splitBufferKey (buffer_key db m) = [db, m]"
proof -
  assume "CHR ''/'' \<notin> set db"
  then have "\<forall>c\<in>set db. c \<noteq> CHR ''/''" by auto
  then show ?thesis by (simp add: splitBufferKey_def buffer_key_def takeWhile_append2 dropWhile_append2)
qed

definition good_entry :: "string \<times> buffer_entry \<Rightarrow> bool" where
  "good_entry = (\<lambda>(key, e). together (be_batches e) \<and> plain_key key \<and> (\<forall>b\<in>set (be_batches e). signature_of b = be_schema e))"

definition good_task :: "flush_task \<Rightarrow> bool" where
  "good_task t \<longleftrightarrow> together (tk_records t) \<and> tk_bufferKey t = buffer_key (tk_database t) (tk_measurement t)"

definition good_write :: "string \<Rightarrow> string \<Rightarrow> typed_batch \<Rightarrow> bool" where
  "good_write db m b \<longleftrightarrow> CHR ''/'' \<notin> set db \<and> plain_batch b"

definition good_file :: "wal_file \<Rightarrow> bool" where
  "good_file f \<longleftrightarrow> (\<forall>e\<in>set (wf_entries f). good_write (fst e) (fst (snd e)) (snd (snd e)))"

lemma good_file_empty: "good_file \<lparr>wf_entries = [], wf_modTime = now\<rparr>"
  by (simp add: good_file_def)

lemma good_file_append:
  "\<lbrakk>good_file f; good_write db m b\<rbrakk> \<Longrightarrow> good_file \<lparr>wf_entries = wf_entries f @ [(db, m, b)], wf_modTime = now\<rparr>"
  by (auto simp: good_file_def)

definition good_world :: "buffer_config \<Rightarrow> ingest_world \<Rightarrow> bool" where
  "good_world cfg w \<longleftrightarrow>
     shards_ok cfg w \<and> (\<forall>sh\<in>set (iw_shards w). \<forall>p\<in>set sh. good_entry p) \<and>
     (\<forall>t\<in>set (iw_sends w) \<union> set (iw_queue w) \<union> set (iw_flights w). good_task t) \<and>
     (\<forall>pw\<in>set (iw_writers w). good_write (pw_database pw) (pw_measurement pw) (pw_batch pw)) \<and>
     (\<forall>f\<in>insert (iw_walActive w) (set (iw_walFiles w)). good_file f)"

lemma good_get: "\<lbrakk>good_world cfg w; shard_get cfg key w = Some e\<rbrakk> \<Longrightarrow> good_entry (key, e)"
  using getShard_bound [of cfg w key] by (auto simp: good_world_def shard_get_def dest!: map_of_SomeD)

lemma good_set:
  assumes "good_world cfg w" "case e of None \<Rightarrow> True | Some x \<Rightarrow> good_entry (key, x)"
  shows "good_world cfg (set_shard cfg key e w)"
proof -
  let ?sh = "iw_shards w ! getShard cfg key"
  have ok: "shards_ok cfg w" using assms(1) by (simp add: good_world_def)
  have "?sh \<in> set (iw_shards w)" using getShard_bound [OF ok] by simp
  then have "\<forall>p\<in>set (shard_put key e ?sh). good_entry p"
    using assms by (auto simp: shard_put_def good_world_def split: option.splits)
  moreover have "set (iw_shards (set_shard cfg key e w)) \<subseteq> insert (shard_put key e ?sh) (set (iw_shards w))"
    using set_update_subset_insert by (simp add: set_shard_def Let_def)
  ultimately show ?thesis using assms(1) set_shard_ok [OF ok] unfolding good_world_def by auto
qed

lemma good_flush:
  assumes "good_world cfg w" "CHR ''/'' \<notin> set db"
  shows "good_world cfg (flushBufferLocked cfg (buffer_key db m) db m w)"
proof (cases "shard_get cfg (buffer_key db m) w")
  case None
  then show ?thesis using assms by (simp add: flushBufferLocked_def)
next
  case (Some e)
  have "good_world cfg (set_shard cfg (buffer_key db m) None w)" by (rule good_set) (use assms in simp_all)
  moreover have "together (be_batches e)" using good_get [OF assms(1) Some] by (simp add: good_entry_def)
  ultimately show ?thesis using Some by (simp add: flushBufferLocked_def good_world_def good_task_def shards_ok_def)
qed

lemma set_without: "set (without i xs) \<subseteq> set xs"
  by (auto simp: without_def dest: in_set_takeD in_set_dropD)

lemma good_append:
  assumes "good_world cfg w" "i < length (iw_writers w)" "\<not> schema_differs cfg (iw_writers w ! i) w"
  shows "good_world cfg (append_batch cfg i now w)"
proof -
  let ?pw = "iw_writers w ! i"
  let ?b = "pw_batch ?pw" and ?key = "buffer_key (pw_database ?pw) (pw_measurement ?pw)"
  define w' where "w' = w\<lparr>iw_writers := without i (iw_writers w), iw_accepted := iw_accepted w @ [(?key, ?b)]\<rparr>"
  define e where "e = (case shard_get cfg ?key w of
      Some e \<Rightarrow> e | None \<Rightarrow> \<lparr>be_batches = [], be_startTime = now, be_recordCount = 0, be_schema = signature_of ?b\<rparr>)"
  define e' where "e' = e\<lparr>be_batches := be_batches e @ [?b], be_recordCount := be_recordCount e + batch_rows ?b\<rparr>"
  have pw: "good_write (pw_database ?pw) (pw_measurement ?pw) ?b" using assms(1,2) by (simp add: good_world_def)
  then have key: "plain_key ?key" by (auto simp: good_write_def plain_key_def)
  have w': "good_world cfg w'" using assms(1) set_without [of i "iw_writers w"] by (auto simp: w'_def good_world_def shards_ok_def)
  have e: "(\<forall>b\<in>set (be_batches e). plain_batch b \<and> signature_of b = be_schema e) \<and> be_schema e = signature_of ?b"
  proof (cases "shard_get cfg ?key w")
    case None
    then show ?thesis by (simp add: e_def)
  next
    case (Some x)
    have "good_entry (?key, x)" by (rule good_get [OF assms(1) Some])
    then have 1: "together (be_batches x)" "\<forall>b\<in>set (be_batches x). signature_of b = be_schema x" by (simp_all add: good_entry_def)
    have "\<forall>b\<in>set (be_batches x). plain_batch b" using 1(1) unfolding together_def by blast
    moreover have "e = x" "be_schema x = signature_of ?b" using assms(3) Some by (simp_all add: e_def schema_differs_def)
    ultimately show ?thesis using 1(2) by blast
  qed
  have b: "plain_batch ?b" using pw by (simp add: good_write_def)
  have same: "\<forall>b\<in>set (be_batches e'). plain_batch b \<and> signature_of b = be_schema e'"
    using e b by (simp add: e'_def)
  moreover have "be_batches e' \<noteq> []" by (simp add: e'_def)
  ultimately have "together (be_batches e')" unfolding together_def by metis
  then have e': "good_entry (?key, e')" using key same by (simp add: good_entry_def)
  have app: "append_batch cfg i now w =
      (if bc_MaxBufferSize cfg \<le> be_recordCount e'
       then (set_shard cfg ?key None w')\<lparr>iw_sends := iw_sends w @
                [\<lparr>tk_bufferKey = ?key, tk_database = pw_database ?pw, tk_measurement = pw_measurement ?pw,
                  tk_records = be_batches e', tk_recordCount = be_recordCount e'\<rparr>]\<rparr>
       else set_shard cfg ?key (Some e') w')"
    by (simp add: append_batch_def Let_def w'_def e_def e'_def)
  show ?thesis
  proof (cases "bc_MaxBufferSize cfg \<le> be_recordCount e'")
    case True
    have "good_world cfg (set_shard cfg ?key None w')" by (rule good_set [OF w']) simp
    moreover have "iw_sends w' = iw_sends w" by (simp add: w'_def)
    moreover have "together (be_batches e')" using e' by (simp add: good_entry_def)
    ultimately show ?thesis using True app by (simp add: good_world_def good_task_def shards_ok_def)
  next
    case False
    have "good_world cfg (set_shard cfg ?key (Some e') w')" by (rule good_set [OF w']) (simp add: e')
    then show ?thesis using False app by simp
  qed
qed

lemma good_flush_key:
  assumes "good_world cfg w"
  shows "good_world cfg (flush_key cfg key w)"
proof (cases "shard_get cfg key w")
  case None
  then show ?thesis using assms by (simp add: flush_key_def flushBufferLocked_def split: list.splits)
next
  case (Some e)
  then have "plain_key key" using good_get [OF assms] by (simp add: good_entry_def)
  then obtain db m where "CHR ''/'' \<notin> set db" "key = buffer_key db m" by (auto simp: plain_key_def)
  then show ?thesis using good_flush [OF assms] by (simp add: flush_key_def splitBufferKey_buffer_key)
qed

fun good_action :: "ingest_action \<Rightarrow> bool" where
  "good_action (Begin_Write db m b logged now) = good_write db m b"
| "good_action _ = True"

lemma good_step:
  assumes "ingest_step cfg s w = Some w'" "good_world cfg w" "good_action s"
  shows "good_world cfg w'"
proof (cases s)
  case (Begin_Write db m b logged now)
  then show ?thesis using assms by (cases logged) (auto simp: begin_write_def good_world_def shards_ok_def intro: good_file_append)
next
  case (Append i now)
  then show ?thesis using assms good_append by (auto split: if_splits)
next
  case (Schema_Flush i)
  let ?pw = "iw_writers w ! i"
  define x where "x = flushBufferLocked cfg (buffer_key (pw_database ?pw) (pw_measurement ?pw)) (pw_database ?pw) (pw_measurement ?pw) w"
  have i: "i < length (iw_writers w)" and w': "w' = x\<lparr>iw_writers := (iw_writers w)[i := ?pw\<lparr>pw_flushes := Suc (pw_flushes ?pw)\<rparr>]\<rparr>"
    using Schema_Flush assms(1) by (auto simp: schema_flush_def Let_def x_def split: if_splits)
  have pw: "good_write (pw_database ?pw) (pw_measurement ?pw) (pw_batch ?pw)" using assms(2) i by (simp add: good_world_def)
  then have x: "good_world cfg x" unfolding x_def using good_flush [OF assms(2)] by (simp add: good_write_def)
  have "set ((iw_writers w)[i := ?pw\<lparr>pw_flushes := Suc (pw_flushes ?pw)\<rparr>]) \<subseteq> insert (?pw\<lparr>pw_flushes := Suc (pw_flushes ?pw)\<rparr>) (set (iw_writers w))"
    by (rule set_update_subset_insert)
  then show ?thesis using x pw assms(2) unfolding w' by (auto simp: good_world_def shards_ok_def)
next
  case (Schema_Churn i)
  then show ?thesis using assms set_without [of i "iw_writers w"] by (auto simp: good_world_def shards_ok_def split: if_splits)
next
  case (Abort_Write i)
  then show ?thesis using assms set_without [of i "iw_writers w"] by (auto simp: good_world_def shards_ok_def split: if_splits)
next
  case (Send i pd)
  then show ?thesis using assms set_without [of i "iw_sends w"]
    by (auto simp: tryEnqueueFlush_def Let_def good_world_def shards_ok_def split: if_splits)
next
  case Take_Task
  then show ?thesis using assms by (cases "iw_queue w") (auto simp: take_task_def good_world_def shards_ok_def)
next
  case (Finish i env)
  then show ?thesis using assms set_without [of i "iw_flights w"]
    by (auto simp: finish_flush_def markFlushFailure_def Let_def good_world_def shards_ok_def split: if_splits write_outcome.splits)
next
  case (Age key now)
  then show ?thesis using assms good_flush_key by (auto split: if_splits)
next
  case (Flush_Key key)
  then show ?thesis using assms good_flush_key by auto
next
  case (Rotate now)
  then show ?thesis using assms by (auto simp: rotate_wal_def good_world_def shards_ok_def good_file_empty)
next
  case (Maintain now)
  then have w': "w' = wal_maintenance cfg now w" using assms(1) by simp
  have w1: "good_world cfg (purge_old cfg now w)" using assms(2) by (auto simp: purge_old_def good_world_def shards_ok_def)
  have "good_write db m b" if "f \<in> set (iw_walFiles (purge_old cfg now w))" "(db, m, b) \<in> set (wf_entries f)" for f db m b
  proof -
    have "good_file f" using w1 that(1) by (simp add: good_world_def)
    then show ?thesis using that(2) by (auto simp: good_file_def)
  qed
  then show ?thesis unfolding w' wal_maintenance_def Let_def using w1 by (auto simp: good_world_def shards_ok_def)
next
  case Begin_Close
  then show ?thesis using assms by (auto simp: begin_close_def good_world_def shards_ok_def)
next
  case Purge_All
  then show ?thesis using assms by (auto simp: purge_log_def good_world_def shards_ok_def good_file_empty split: if_splits)
qed

lemma good_run:
  "\<lbrakk>ingest_run cfg ss w = Some w'; good_world cfg w; \<forall>s\<in>set ss. good_action s\<rbrakk> \<Longrightarrow> good_world cfg w'"
proof (induction ss arbitrary: w)
  case (Cons s ss)
  obtain x where x: "ingest_step cfg s w = Some x" "ingest_run cfg ss x = Some w'"
    using Cons.prems(1) by (auto split: if_splits option.splits)
  then show ?case using Cons.IH [OF x(2)] good_step [OF x(1) Cons.prems(2)] Cons.prems(3) by simp
qed simp

lemma good_new: "0 < bc_shardCount cfg \<Longrightarrow> good_world cfg (new_world cfg)"
  by (auto simp: good_world_def new_world_def shards_ok_def good_file_empty)

text \<open>
  C37. In every state that writes of batches with plain column names lead to, a flush that meets no
  failure puts exactly the rows of its batches into files, one per hour, below the directory of the
  database and measurement of the buffer they were written to, and registers these files; in
  particular merging never panics.
\<close>

theorem flush_delivers_rows:
  assumes "0 < bc_shardCount cfg" "ingest_run cfg ss (new_world cfg) = Some w" "\<forall>s\<in>set ss. good_action s"
    "i < length (iw_flights w)" "flush_env_ok env" "env_succeeds env"
    "\<forall>b. mergeBatches (tk_records (iw_flights w ! i)) = Merged b \<longrightarrow>
       cache_fits (tk_measurement (iw_flights w ! i)) b (fe_decimals env (tk_measurement (iw_flights w ! i))) (iw_cache w)"
  shows "(let t = iw_flights w ! i; w' = finish_flush i env w
    in tk_bufferKey t = buffer_key (tk_database t) (tk_measurement t) \<and> iw_alive w' = iw_alive w \<and>
       iw_stored w' = iw_stored w @ task_batches t \<and>
       (\<exists>r. flushed env (tk_database t) (tk_measurement t) (concat (map rows (tk_records t))) r \<and>
          iw_files w' = iw_files w @ fr_written r))"
proof -
  let ?t = "iw_flights w ! i"
  let ?r = "flushRecords env (tk_database ?t) (tk_measurement ?t) (tk_records ?t) (tk_recordCount ?t) (iw_cache w)"
  have "good_world cfg w" by (rule good_run [OF assms(2) good_new [OF assms(1)] assms(3)])
  then have t: "together (tk_records ?t)" "tk_bufferKey ?t = buffer_key (tk_database ?t) (tk_measurement ?t)"
    using assms(4) by (auto simp: good_world_def good_task_def)
  have plain: "plain_batch b" if "b \<in> set (tk_records ?t)" for b using t(1) that by (simp add: together_def)
  have ne: "tk_records ?t \<noteq> []" using t(1) by (simp add: together_def)
  have f: "flushed env (tk_database ?t) (tk_measurement ?t) (concat (map rows (tk_records ?t))) ?r"
  proof (rule flush_rows [OF assms(5,6) ne _ together_kinds [OF t(1)] _ _ _ assms(7)])
    show "\<forall>b\<in>set (tk_records ?t). batch_ok b" using plain by (auto simp: plain_batch_def)
    show "\<forall>b\<in>set (tk_records ?t). named b" using plain plain_batch_named by blast
    show "\<forall>b\<in>set (tk_records ?t). \<forall>r\<in>set (rows b). time_in_range (row_time r)" using plain by (auto simp: plain_batch_def)
    have "rows (hd (tk_records ?t)) \<noteq> []" using plain [of "hd (tk_records ?t)"] ne by (simp add: plain_batch_def rows_def)
    then show "\<exists>b\<in>set (tk_records ?t). rows b \<noteq> []" using ne hd_in_set by blast
  qed
  then obtain n where "fr_outcome ?r = Ok n" by (auto simp: flushed_def)
  then show ?thesis using f t(2) by (auto simp: finish_flush_def Let_def)
qed

definition one_write :: "ingest_action list" where
  "one_write = [Begin_Write ''db'' ''cpu'' (float_batch [''v'']) True 0, Append 0 1, Send 0 False, Take_Task]"

theorem flush_delivers_rows_witness:
  "(case ingest_run small_config one_write (new_world small_config) of
      Some w \<Rightarrow> iw_alive (finish_flush 0 storage_up w) = iw_alive w \<and>
        (\<exists>r. flushed storage_up (tk_database (iw_flights w ! 0)) (tk_measurement (iw_flights w ! 0))
               (concat (map rows (tk_records (iw_flights w ! 0)))) r \<and>
             iw_files (finish_flush 0 storage_up w) = iw_files w @ fr_written r)
    | None \<Rightarrow> False)"
proof -
  have "case ingest_run small_config one_write (new_world small_config) of
      Some w \<Rightarrow> length (iw_flights w) = 1 \<and> iw_cache w = [] | None \<Rightarrow> False" by code_simp
  then obtain w where w: "ingest_run small_config one_write (new_world small_config) = Some w" "length (iw_flights w) = 1" "iw_cache w = []"
    by (auto split: option.splits)
  have "batch_ok (float_batch [''v''])" by code_simp
  moreover have "signature_of (float_batch [''v'']) = getColumnSignature (tb_Data (float_batch [''v'']))" by code_simp
  moreover have "\<forall>(n, c)\<in>set (tb_Data (float_batch [''v''])). \<not> internal_column n \<and> CHR '','' \<notin> set n \<and> CHR '':'' \<notin> set n" by code_simp
  moreover have "0 < batch_rows (float_batch [''v''])" by code_simp
  moreover have "\<forall>r\<in>set (rows (float_batch [''v''])). time_in_range (row_time r)" by code_simp
  ultimately have "plain_batch (float_batch [''v''])" by (simp add: plain_batch_def plain_name_def)
  then have good: "\<forall>s\<in>set one_write. good_action s" by (simp add: one_write_def good_write_def)
  have env: "flush_env_ok storage_up" "env_succeeds storage_up"
    by (simp_all only: storage_up_def simple_env_ok) (simp add: env_succeeds_def simple_env_def)
  have cfg: "0 < bc_shardCount small_config" by (simp add: small_config_def)
  show ?thesis
    using flush_delivers_rows [OF cfg w(1) good _ env, of 0] w by (simp add: cache_fits_def Let_def)
qed

end
