(* ===== verification/Spec2Isabelle.thy ===== *)
theory Spec2Isabelle
  imports FSM_Reachable Governance_Manager Cluster_Forward WAL_Recovery Replication_Stream Reconcile_Instance Reconcile_History Ingest_Columnar Cluster_Takeover Circuit_Breaker SQL_Mask Flush_Delivery
begin

text \<open>
  A verification development for IotEdgeDB, a time-series database in Go that runs as a single
  node or as a cluster of writers, readers and compactors.

  \<^bold>\<open>The program.\<close>  Rows arrive over HTTP or MQTT, go through a write-ahead log
  (\<^verbatim>\<open>internal/wal\<close>) into Parquet files on a storage backend (\<^verbatim>\<open>internal/storage\<close>), and are
  queried with DuckDB.  Compaction (\<^verbatim>\<open>internal/compaction\<close>) merges the files of a partition.  In a
  cluster the nodes agree, through Raft, on a state machine
  (\<^verbatim>\<open>internal/cluster/raft/fsm.go\<close>, \<^verbatim>\<open>fsm_rbac.go\<close>) that holds nodes, leases, the manifest of
  all files, tokens and access rights; followers forward commands to the leader with a MAC
  (\<^verbatim>\<open>internal/cluster/forward_apply.go\<close>, \<^verbatim>\<open>security/auth.go\<close>); a writer streams its log to
  readers (\<^verbatim>\<open>internal/cluster/replication\<close>); the compactor reports what it merged through completion
  manifests.  Governance (\<^verbatim>\<open>internal/governance\<close>) limits the queries of a token.

  \<^bold>\<open>The theories\<close>, by part of the program.

  \<^item> \<open>Prelude\<close>, \<open>Bytes\<close>, \<open>Encodings\<close>: maps, multi-maps (secondary indices) as locales, iteration
    orders, big-endian integers, the locale \<open>framing\<close> of framed streams, decimal and hexadecimal text.

  \<^item> The cluster state machine.  \<open>Path_Validation\<close> is \<^verbatim>\<open>path_validation.go\<close>; \<open>FSM_State\<close> the
    record of \<^verbatim>\<open>ClusterFSM\<close> with its callbacks and counters; \<open>FSM_Validation\<close> the validators of
    entries; \<open>FSM_Nodes\<close>, \<open>FSM_Files\<close>, \<open>FSM_Tokens\<close>, \<open>FSM_RBAC\<close> one function per \<^verbatim>\<open>apply...\<close>
    handler, a handler being a function from a payload and a state to a state, the callbacks
    invoked and an error; \<open>FSM_Pagination\<close> walks over the file manifest; \<open>FSM_Tables\<close> the
    invariant; \<open>FSM_Cascade\<close> the closed form of the deletes; \<open>FSM_Apply\<close> the dispatch \<^verbatim>\<open>Apply\<close>;
    \<open>FSM_Snapshot\<close> \<^verbatim>\<open>Snapshot\<close>, \<^verbatim>\<open>Persist\<close> and \<^verbatim>\<open>Restore\<close>; \<open>FSM_Reachable\<close> the states that
    can be reached.  Shown: batches are atomic, cascades leave nothing dangling, failing commands
    leave no trace, replicas agree although Go ranges over maps in random order, snapshots
    round-trip, and the whole invariant holds in every reachable state.

  \<^item> Cluster messages.  \<open>Cluster_Auth\<close> is \<^verbatim>\<open>security/auth.go\<close> and \<^verbatim>\<open>nonce_cache.go\<close>;
    \<open>Cluster_Forward\<close> the roles and \<^verbatim>\<open>handleForwardApply\<close>; \<open>Cluster_Wire\<close> the codec of the
    protocol.  Shown: which messages a MAC can stand for, what a forwarded request can change,
    that honest requests are applied, that the lazy replay cache equals a log of nonces.

  \<^item> Membership and failover.  \<open>Cluster_Node\<close> is \<^verbatim>\<open>node.go\<close> and \<^verbatim>\<open>registry.go\<close> on a heap of node
    objects, \<open>Cluster_Health\<close> \<^verbatim>\<open>health.go\<close>, \<open>Cluster_Sync\<close> what the coordinator does with messages
    of peers and callbacks of the state machine, \<open>Cluster_Failover\<close> the two failover managers,
    \<open>Cluster_Election\<close> the whole cluster as a step relation.  Shown: the health checker detects
    silent nodes after exactly the configured checks, \<open>Cluster_Takeover\<close> that failovers replace a
    failed writer or compactor, and in \<open>Cluster_Election\<close> that no cluster ever gets its first
    primary writer and that a promoted node does not learn of it.

  \<^item> The write-ahead log.  \<open>WAL_Checksum\<close> is CRC-32, \<open>WAL_Format\<close> frames and entries,
    \<open>WAL_Reader\<close> \<^verbatim>\<open>reader.go\<close>, \<open>WAL_Writer\<close> and \<open>WAL_Log\<close> the writer of \<^verbatim>\<open>wal.go\<close> with
    queue, rotation and sync, \<open>WAL_Crash\<close> what a crash leaves, \<open>WAL_Recovery\<close> \<^verbatim>\<open>recovery.go\<close>.
    Shown: files stay well formed, files and queue refine an append-only log, recovery after a
    crash replays a prefix with everything synced and removes only what was replayed, a damaged
    payload is refused (CRC-32 detects every error burst of up to 32 bits).

  \<^item> Replication.  \<open>Replication_Sender\<close>, \<open>Replication_Receiver\<close> and \<open>Replication_Stream\<close>: numbering,
    tags, checkpoints, the receive loop, and both ends together over a connection that may be cut
    at any byte.

  \<^item> Governance.  \<open>Governance_Window\<close> is the sliding window, \<open>Governance_Limiter\<close> its interface,
    \<open>Governance_Quota\<close> the quota tracker, \<open>Governance_Manager\<close> policies and enforcement.

  \<^item> Compaction.  \<open>Compaction_Storage\<close> has the storage operations with the answers they can have,
    \<open>Compaction_Manifest\<close> \<^verbatim>\<open>manifest.go\<close>, \<open>Compaction_Job\<close> \<^verbatim>\<open>job.go\<close> and \<^verbatim>\<open>completion.go\<close>,
    \<open>Compaction_Recovery\<close> what failures and crashes leave, \<open>Compaction_Watcher\<close> \<^verbatim>\<open>watcher.go\<close>
    and the bridge to the state machine, \<open>Compaction_Cluster\<close> both together,
    \<open>Compaction_Instance\<close> a concrete job.  Shown: no failure and no crash loses a row before the
    reconciler comes, the file manifest keeps what is stored, and where a crash hides rows.

  \<^item> Reconciliation (\<^verbatim>\<open>internal/reconciliation\<close>).  \<open>Reconcile_Diff\<close> is \<^verbatim>\<open>walk.go\<close> and \<^verbatim>\<open>diff.go\<close>,
    \<open>Reconcile_Sweep\<close> the two sweeps and \<^verbatim>\<open>Reconcile\<close>, where before every chunk others may have
    changed manifest and storage, \<open>Reconcile_History\<close> the ring of recent runs.  Shown in
    \<open>Reconcile_Safety\<close> and \<open>Reconcile_Result\<close>: live files and young objects stay, a run keeps its
    cap, an undisturbed run makes manifest and storage agree, and it deletes the output of a
    compaction that died at the wrong moment.  \<open>Reconcile_Instance\<close> is a concrete cluster.

  \<^item> Ingestion (\<^verbatim>\<open>internal/ingest\<close>).  \<open>Ingest_UTF8\<close> is \<^verbatim>\<open>utf8.go\<close> and \<^verbatim>\<open>utf8_sanitize.go\<close>,
    \<open>Ingest_LineProtocol\<close> the parser of \<^verbatim>\<open>lineprotocol.go\<close> with its byte scanner, \<open>Ingest_Columnar\<close>
    the conversion of records to columns.  Shown: what a client writes with its escapes is read
    back (\<open>Ingest_RoundTrip\<close>), string fields are valid UTF-8 and timestamps never wrap around
    (\<open>Ingest_Validity\<close>), and the columns hold every value of every record.

  \<^item> Buffering and flushing (\<^verbatim>\<open>arrow_writer.go\<close> and the log maintenance of \<^verbatim>\<open>cmd/iedb/main.go\<close>).
    \<open>Flush_Sort\<close> is the permutation by time with the radix sort, \<open>Flush_Batch\<close> signatures and
    merging, \<open>Flush_Schema\<close> schema inference with its cache and \<^verbatim>\<open>WriteParquetColumnar\<close>,
    \<open>Flush_Partition\<close> sorting, the split by hours and \<^verbatim>\<open>flushPartitionedData\<close>, \<open>Flush_Buffer\<close> the
    sharded buffers, the queue, workers, timers, maintenance and shutdown as steps in any order.
    Shown: the radix sort is the stable sort, accepted batches are kept until they are flushed, and
    a flush writes each row once into the file of its hour (\<open>Flush_Delivery\<close>, for any reachable
    state); and how rows are lost after a failed flush, at a full queue and in a shutdown.

  \<^item> Protection of other services.  \<open>Circuit_Breaker\<close> is the circuit breaker and the debouncer, with
    requests that overlap.  Shown: the cycle of the breaker, and that lost results wedge it.

  \<^item> SQL text.  \<open>SQL_Mask\<close> is \<^verbatim>\<open>internal/sql/mask.go\<close>, the placeholders for literals and for
    \<open>FROM\<close> in function calls while a query is rewritten.  Shown: unmasking restores the text, unless
    it spells a placeholder itself, and escaped literals read back.

  \<^bold>\<open>How the code is modelled.\<close>

  \<^item> A mutex makes a critical section one step: a handler is a function on the state it guards.
    Where the code releases a lock in between (\<^verbatim>\<open>GetFilesPaginated\<close>, \<^verbatim>\<open>Replicate\<close>) the parts are
    separate steps.
  \<^item> Go maps are partial functions; what a \<^verbatim>\<open>range\<close> over a map visits is given by a parameter, an
    arbitrary enumeration of the keys (\<open>ranges\<close>, \<open>listing\<close>).
  \<^item> Integers have their Go width where they can wrap around (indices, sequence numbers, drifts,
    name lengths); times, sizes and counters that cannot reach the bounds of their type are \<open>int\<close>.
  \<^item> A Go string is a list of bytes (\<open>string\<close>).  Byte slices are lists of \<open>8 word\<close>.
  \<^item> Errors are values: an error datatype per component, or the outcome of a call.
  \<^item> The clock, random nonces, and what the operating system, the network, the storage and Raft
    answer are arguments, so that theorems hold for every answer.  A process that dies is a world
    in which nothing changes any more.
  \<^item> Third-party code is a parameter: HMAC-SHA-256, SHA-256 and HKDF (\<open>crypto\<close>), JSON and
    MessagePack encodings, what DuckDB merges.  What the code relies on is a named hypothesis
    (\<open>json_round_trip\<close>, \<open>crypto_lengths\<close>, the injectivity of the MAC in one theorem), with a
    concrete instance at which each theorem is applied.
  \<^item> Loops are structural recursion or folds over what they range over, or recursion with a
    measure; no definition needs fuel.

  \<^bold>\<open>Not modelled\<close>, and why.  Log lines and metrics, which no other part reads; HTTP routing, start-up
  and configuration, which are glue over third-party packages; the SQL that is handed to DuckDB
  and SQLite and what these make of it; consensus, which is the Raft library's; cloud storage
  clients; goroutine scheduling beyond the interleavings above.  The manifest lists every part of
  the source with its status.
\<close>

end
